(* ===== verification/Bpf_Prelude.thy ===== *)
theory Bpf_Prelude
  imports Main "HOL-Library.Word"
begin

text \<open>
  Shared vocabulary of the development: the fixed-width integer types of
  \<^verbatim>\<open>shims/kernel/bpf/bpf_shim_common.h\<close>, the errno values the shims
  return (negated) as a C \<^verbatim>\<open>int\<close>, C truth values and the
  \<^verbatim>\<open>round_up\<close> macro, and the generic lemmas on words, bits and lists the
  component theories share.  The collections \<open>c_int\<close> (arithmetic facts about
  machine integers) and \<open>bits\<close> (bitwise facts) are extended by the components.
\<close>

unbundle bit_operations_syntax

named_theorems c_int \<open>facts about machine integers\<close>
named_theorems bits \<open>bitwise facts about words\<close>

section \<open>Integer types and constants\<close>

type_synonym u8 = "8 word"
type_synonym u16 = "16 word"
type_synonym u32 = "32 word"
type_synonym u64 = "64 word"
type_synonym cint = int \<comment> \<open>a C \<^verbatim>\<open>int\<close> return code: 0 or a negated errno\<close>

abbreviation EPERM :: cint where "EPERM \<equiv> 1"
abbreviation ENOENT :: cint where "ENOENT \<equiv> 2"
abbreviation E2BIG :: cint where "E2BIG \<equiv> 7"
abbreviation ENOMEM :: cint where "ENOMEM \<equiv> 12"
abbreviation EACCES :: cint where "EACCES \<equiv> 13"
abbreviation EFAULT :: cint where "EFAULT \<equiv> 14"
abbreviation EEXIST :: cint where "EEXIST \<equiv> 17"
abbreviation EINVAL :: cint where "EINVAL \<equiv> 22"
abbreviation ENOSPC :: cint where "ENOSPC \<equiv> 28"
abbreviation ERANGE :: cint where "ERANGE \<equiv> 34"
abbreviation ENOLINK :: cint where "ENOLINK \<equiv> 67"
abbreviation ENOTSUPP :: cint where "ENOTSUPP \<equiv> 95"
abbreviation EOPNOTSUPP :: cint where "EOPNOTSUPP \<equiv> 95"
abbreviation NUMA_NO_NODE :: cint where "NUMA_NO_NODE \<equiv> - 1"

abbreviation BPF_ANY :: u64 where "BPF_ANY \<equiv> 0"
abbreviation BPF_NOEXIST :: u64 where "BPF_NOEXIST \<equiv> 1"
abbreviation BPF_EXIST :: u64 where "BPF_EXIST \<equiv> 2"

text \<open>\<^verbatim>\<open>BIT(n)\<close> is \<^verbatim>\<open>1u << n\<close>.\<close>

abbreviation BIT :: "nat \<Rightarrow> u32" where "BIT n \<equiv> push_bit n 1"

text \<open>A word used as a C condition.\<close>

definition c_true :: "'a::len word \<Rightarrow> bool" where
  "c_true x \<longleftrightarrow> x \<noteq> 0"

lemma c_true_0 [simp]: "\<not> c_true 0"
  by (simp add: c_true_def)

text \<open>\<^verbatim>\<open>#define round_up(x, y) ((((x) + (y) - 1) / (y)) * (y))\<close> on unsigned operands.\<close>

definition round_up :: "'a::len word \<Rightarrow> 'a word \<Rightarrow> 'a word" where
  "round_up x y = ((x + y - 1) div y) * y"

section \<open>Words and bits\<close>

lemma and_not_mask_eq_0_iff:
  fixes x :: "'a::len word"
  shows "x AND NOT (mask k) = 0 \<longleftrightarrow> unat x < 2 ^ k"
proof -
  have "x AND NOT (mask k) = 0 \<longleftrightarrow> take_bit k x = x"
    by (auto simp: bit_eq_iff bit_simps)
  also have "\<dots> \<longleftrightarrow> take_bit k (unat x) = unat x"
    by (metis unsigned_take_bit_eq unsigned_word_eqI)
  also have "\<dots> \<longleftrightarrow> unat x < 2 ^ k"
    by (simp add: take_bit_nat_eq_self_iff)
  finally show ?thesis .
qed

lemma unat_push_bit_eq [c_int]:
  fixes x :: "'a::len word"
  shows "unat (push_bit n x) = (unat x * 2 ^ n) mod 2 ^ LENGTH('a)"
  by (metis push_bit_eq_mult take_bit_eq_mod unsigned_push_bit_eq)

lemma and_push_bit_1_eq_0_iff [bits]:
  fixes x :: "'a::len word"
  shows "x AND push_bit n 1 = 0 \<longleftrightarrow> \<not> bit x n"
  by (simp add: and_exp_eq_0_iff_not_bit)

lemma c_true_and_bit [bits]:
  fixes x :: "'a::len word"
  shows "c_true (x AND push_bit n 1) \<longleftrightarrow> bit x n"
  unfolding c_true_def and_push_bit_1_eq_0_iff by simp

lemma bit_imp_exp_le:
  assumes "bit (v::nat) n" shows "2 ^ n \<le> v"
proof (rule ccontr)
  assume "\<not> 2 ^ n \<le> v"
  then have "v div 2 ^ n = 0" by simp
  with assms show False by (simp add: bit_iff_odd)
qed

lemma bit_between_exp:
  assumes "2 ^ n \<le> (v::nat)" and "v < 2 ^ Suc n" shows "bit v n"
proof -
  have "v div 2 ^ n = 1"
    using assms by (intro div_nat_eqI) simp_all
  then show ?thesis by (simp add: bit_iff_odd)
qed

lemma round_up_nat:
  fixes x y :: "'a::len word"
  assumes "0 < unat y" and "unat x + unat y \<le> 2 ^ LENGTH('a)"
  shows "unat (round_up x y) = (unat x + unat y - 1) div unat y * unat y mod 2 ^ LENGTH('a)"
proof -
  from assms have "unat x + unat y - 1 < 2 ^ LENGTH('a)" by linarith
  moreover have "x + y - 1 = of_nat (unat x + unat y - 1)"
    using assms(1) by (simp add: of_nat_diff)
  ultimately have "unat (x + y - 1) = unat x + unat y - 1"
    by (simp add: unsigned_of_nat take_bit_nat_eq_self)
  then show ?thesis by (simp add: round_up_def unat_word_ariths unat_div_distrib mod_mult_left_eq)
qed

lemma unat_ucast_up [simp]:
  fixes x :: "'a::len word"
  assumes "LENGTH('a) \<le> LENGTH('b::len)"
  shows "unat (ucast x :: 'b word) = unat x"
proof -
  have "unat x < 2 ^ LENGTH('a)" by (rule unsigned_less)
  also have "\<dots> \<le> 2 ^ LENGTH('b)" using assms by simp
  finally show ?thesis by (simp add: unsigned_ucast_eq take_bit_nat_eq_self)
qed

lemma of_nat_length_pred:
  "xs \<noteq> [] \<Longrightarrow> (of_nat (length xs - Suc 0) :: 'a::len word) = of_nat (length xs) - 1"
  by (cases xs) simp_all

lemma of_nat_eq_word_iff:
  fixes w :: "'a::len word"
  assumes "n < 2 ^ LENGTH('a)"
  shows "of_nat n = w \<longleftrightarrow> n = unat w"
  using assms by (auto simp: unsigned_of_nat take_bit_nat_eq_self)

lemma unat_Suc_less:
  fixes i n :: "'a::len word"
  assumes "i < n" shows "unat (i + 1) = Suc (unat i)"
proof -
  have "unat i < unat n" using assms by (simp add: word_less_nat_alt)
  moreover have "unat n < 2 ^ LENGTH('a)" by (rule unsigned_less)
  ultimately have "Suc (unat i) < 2 ^ LENGTH('a)" by linarith
  then have "unat (of_nat (Suc (unat i)) :: 'a word) = Suc (unat i)"
    by (simp add: unsigned_of_nat take_bit_nat_eq_self del: of_nat_Suc)
  then show ?thesis by (simp add: add.commute)
qed

text \<open>Masking with \<open>2 ^ n - 1\<close> is the remainder.\<close>

lemma unat_and_mask: "unat (x AND mask n) = unat (x :: 'a::len word) mod 2 ^ n"
  by (simp only: take_bit_eq_mask[symmetric] unsigned_take_bit_eq) (simp only: take_bit_eq_mod)

lemma unat_drop_bit: "unat (drop_bit n x) = unat (x :: 'a::len word) div 2 ^ n"
proof -
  have "unat x < 2 ^ LENGTH('a)" by (rule unsigned_less)
  then have "take_bit LENGTH('a) (unat x) = unat x" by (rule take_bit_nat_eq_self)
  then have "unat (drop_bit n x) = drop_bit n (unat x)" by (simp only: unsigned_drop_bit_eq)
  then show ?thesis by (simp only: drop_bit_eq_div)
qed

lemma unat_u32_less: "unat (x :: u32) < 2 ^ 32"
  by (rule order_less_le_trans[OF unsigned_less]) simp

lemma unat_u64_less: "unat (x :: u64) < 2 ^ 64"
  by (rule order_less_le_trans[OF unsigned_less]) simp

lemma unat_of_nat_u64: "n < 2 ^ 64 \<Longrightarrow> unat (of_nat n :: u64) = n"
  by (simp add: unsigned_of_nat take_bit_nat_eq_self)

lemma unat_of_nat_u32: "n < 2 ^ 32 \<Longrightarrow> unat (of_nat n :: u32) = n"
  by (simp add: unsigned_of_nat take_bit_nat_eq_self)

section \<open>Chains of guards\<close>

text \<open>A function of the source that returns an error from each of its guards succeeds exactly when
  no guard fires, and its result is one of its error codes or what follows the guards.\<close>

lemma guard_zero_iff: "e \<noteq> 0 \<Longrightarrow> (if c then e else x) = (0 :: cint) \<longleftrightarrow> \<not> c \<and> x = 0"
  by simp

lemma guard_mem: "e \<in> S \<Longrightarrow> x \<in> S \<Longrightarrow> (if c then e else x) \<in> S"
  by simp

end
