(* ===== verification/Lpm_Bits.thy ===== *)
theory Lpm_Bits
  imports Bpf_Prelude
begin

text \<open>
  The pure bit-level routines of \<^verbatim>\<open>shims/kernel/bpf/lpm_trie.c\<close>:
  \<^verbatim>\<open>fls\<close>, \<^verbatim>\<open>fls64\<close>, the big-endian loads, \<^verbatim>\<open>extract_bit\<close> and
  \<^verbatim>\<open>longest_prefix_match\<close>.  The word-at-a-time comparison of
  \<^verbatim>\<open>longest_prefix_match\<close> is proved equal to a bit-by-bit reference
  definition (\<open>first_diff\<close>) as long as its 32-bit counters do not wrap.
\<close>

section \<open>Find last set bit\<close>

text \<open>One normalisation step of \<^verbatim>\<open>fls\<close>:
  \<^verbatim>\<open>if (!(x & m)) { x <<= k; r -= k; }\<close>.\<close>

definition fls_step :: "u32 \<Rightarrow> nat \<Rightarrow> u32 \<times> nat \<Rightarrow> u32 \<times> nat" where
  "fls_step m k = (\<lambda>(x, r). if x AND m = 0 then (push_bit k x, r - k) else (x, r))"

definition fls :: "u32 \<Rightarrow> nat" where
  "fls x = (if x = 0 then 0
     else let xr = fls_step 0xffff0000 16 (x, 32);
              xr = fls_step 0xff000000 8 xr;
              xr = fls_step 0xf0000000 4 xr;
              xr = fls_step 0xc0000000 2 xr;
              (x, r) = xr
          in if x AND 0x80000000 = 0 then r - 1 else r)"

definition fls64 :: "u64 \<Rightarrow> nat" where
  "fls64 x = (let hi = (ucast (drop_bit 32 x) :: u32)
              in if hi \<noteq> 0 then fls hi + 32 else fls (ucast x))"

lemma fls_masks [bits]:
  fixes x :: u32
  shows "x AND 0xffff0000 = 0 \<longleftrightarrow> unat x < 2 ^ (32 - 16)"
    and "x AND 0xff000000 = 0 \<longleftrightarrow> unat x < 2 ^ (32 - 8)"
    and "x AND 0xf0000000 = 0 \<longleftrightarrow> unat x < 2 ^ (32 - 4)"
    and "x AND 0xc0000000 = 0 \<longleftrightarrow> unat x < 2 ^ (32 - 2)"
    and "x AND 0x80000000 = 0 \<longleftrightarrow> unat x < 2 ^ (32 - 1)"
proof -
  have "(0xffff0000::u32) = NOT (mask (32 - 16))" "(0xff000000::u32) = NOT (mask (32 - 8))"
    "(0xf0000000::u32) = NOT (mask (32 - 4))" "(0xc0000000::u32) = NOT (mask (32 - 2))"
    "(0x80000000::u32) = NOT (mask (32 - 1))" by (simp_all add: mask_eq_exp_minus_1)
  then show "x AND 0xffff0000 = 0 \<longleftrightarrow> unat x < 2 ^ (32 - 16)"
    and "x AND 0xff000000 = 0 \<longleftrightarrow> unat x < 2 ^ (32 - 8)"
    and "x AND 0xf0000000 = 0 \<longleftrightarrow> unat x < 2 ^ (32 - 4)"
    and "x AND 0xc0000000 = 0 \<longleftrightarrow> unat x < 2 ^ (32 - 2)"
    and "x AND 0x80000000 = 0 \<longleftrightarrow> unat x < 2 ^ (32 - 1)"
    by (simp_all only: and_not_mask_eq_0_iff)
qed

text \<open>The loop invariant of \<^verbatim>\<open>fls\<close>: \<open>x\<close> is the argument \<open>v\<close> shifted left by
  \<open>32 - r\<close> places with nothing lost, and its top \<open>w\<close> bits are not all zero.\<close>

definition fls_inv :: "nat \<Rightarrow> nat \<Rightarrow> u32 \<times> nat \<Rightarrow> bool" where
  "fls_inv v w = (\<lambda>(x, r). unat x = v * 2 ^ (32 - r) \<and> 0 < r \<and> r \<le> 32 \<and> 2 ^ (32 - w) \<le> unat x)"

lemma fls_inv_step:
  assumes inv: "fls_inv v (2 * k) xr" and "0 < v" and "0 < k" and "2 * k \<le> 32"
    and m: "\<And>x::u32. x AND m = 0 \<longleftrightarrow> unat x < 2 ^ (32 - k)"
  shows "fls_inv v k (fls_step m k xr)"
proof -
  obtain x r where xr: "xr = (x, r)" by (cases xr)
  from inv xr have x: "unat x = v * 2 ^ (32 - r)" "0 < r" "r \<le> 32" "2 ^ (32 - 2 * k) \<le> unat x"
    by (auto simp: fls_inv_def)
  show ?thesis
  proof (cases "unat x < 2 ^ (32 - k)")
    case True
    have "2 ^ (32 - r) \<le> unat x" using x(1) \<open>0 < v\<close> by simp
    with True have "(2::nat) ^ (32 - r) < 2 ^ (32 - k)" by linarith
    then have "k < r" using x(3) assms(4) by simp
    have "unat x * 2 ^ k < 2 ^ (32 - k) * 2 ^ k" using True by simp
    also have "\<dots> = 2 ^ 32" using assms(4) by (simp flip: power_add)
    finally have "unat (push_bit k x) = unat x * 2 ^ k"
      by (simp add: unat_push_bit_eq)
    moreover have "unat x * 2 ^ k = v * 2 ^ (32 - (r - k))"
      using x(1,3) \<open>k < r\<close> by (simp add: mult.assoc flip: power_add)
    moreover have "2 ^ (32 - k) \<le> unat x * 2 ^ k"
    proof -
      have "(2::nat) ^ (32 - k) = 2 ^ (32 - 2 * k) * 2 ^ k"
        using assms(4) by (simp flip: power_add)
      then show ?thesis using x(4) by simp
    qed
    ultimately show ?thesis
      using True \<open>k < r\<close> x(3) by (simp add: xr fls_inv_def fls_step_def m)
  next
    case False
    then show ?thesis using x by (simp add: xr fls_inv_def fls_step_def m)
  qed
qed

lemma fls_bounds:
  assumes "x \<noteq> 0"
  shows "0 < fls x" and "fls x \<le> 32" and "2 ^ (fls x - 1) \<le> unat x" and "unat x < 2 ^ fls x"
proof -
  let ?v = "unat x"
  have v: "0 < ?v" using assms by (simp add: unat_gt_0)
  then have "fls_inv ?v 32 (x, 32)" by (simp add: fls_inv_def)
  then have "fls_inv ?v 16 (fls_step 0xffff0000 16 (x, 32))" (is "fls_inv _ _ ?x1")
    using fls_inv_step[of ?v 16, OF _ v _ _ fls_masks(1)] by simp
  then have "fls_inv ?v 8 (fls_step 0xff000000 8 ?x1)" (is "fls_inv _ _ ?x2")
    using fls_inv_step[of ?v 8, OF _ v _ _ fls_masks(2)] by simp
  then have "fls_inv ?v 4 (fls_step 0xf0000000 4 ?x2)" (is "fls_inv _ _ ?x3")
    using fls_inv_step[of ?v 4, OF _ v _ _ fls_masks(3)] by simp
  then have "fls_inv ?v 2 (fls_step 0xc0000000 2 ?x3)" (is "fls_inv _ _ ?x4")
    using fls_inv_step[of ?v 2, OF _ v _ _ fls_masks(4)] by simp
  then have inv: "fls_inv ?v 1 (fls_step 0x80000000 1 ?x4)"
    using fls_inv_step[of ?v 1, OF _ v _ _ fls_masks(5)] by simp
  have "fls x = snd (fls_step 0x80000000 1 ?x4)"
    using assms by (simp add: fls_def Let_def fls_step_def[where m = "0x80000000"] split_beta)
  with inv obtain y where y: "unat y = ?v * 2 ^ (32 - fls x)" "0 < fls x" "fls x \<le> 32"
      "2 ^ 31 \<le> unat (y::u32)"
    by (auto simp: fls_inv_def split: prod.splits)
  show "0 < fls x" "fls x \<le> 32" by fact+
  have "unat y < 2 ^ LENGTH(32)" by (rule unsigned_less)
  then have hi: "?v * 2 ^ (32 - fls x) < 2 ^ 32" using y(1) by simp
  have "(2::nat) ^ 32 = 2 ^ fls x * 2 ^ (32 - fls x)" using y(3) by (simp flip: power_add)
  with hi show "?v < 2 ^ fls x" by (metis mult_less_cancel2)
  have "(2::nat) ^ 31 = 2 ^ (fls x - 1) * 2 ^ (32 - fls x)" using y(2,3) by (simp flip: power_add)
  with y(1,4) show "2 ^ (fls x - 1) \<le> ?v"
    by (metis mult_le_cancel2 zero_less_numeral zero_less_power)
qed

lemma fls_0 [simp]: "fls 0 = 0"
  by (simp add: fls_def)

lemma fls_le: "fls x \<le> 32"
  using fls_bounds(2)[of x] by (cases "x = 0") simp_all

lemma fls_top_bit:
  assumes "x \<noteq> 0" shows "bit x (fls x - 1)"
proof -
  have "bit (unat x) (fls x - 1)"
    using fls_bounds[OF assms] by (intro bit_between_exp) simp_all
  then show ?thesis by (simp add: bit_unsigned_iff)
qed

lemma fls_above:
  assumes "fls x \<le> n" shows "\<not> bit x n"
proof
  assume "bit x n"
  then have "x \<noteq> 0" "bit (unat x) n" by (auto simp: bit_unsigned_iff)
  then have "2 ^ n \<le> unat x" "unat x < 2 ^ fls x"
    by (auto intro: bit_imp_exp_le fls_bounds(4))
  then have "(2::nat) ^ n < 2 ^ fls x" by linarith
  then show False using assms by simp
qed

section \<open>Byte order\<close>

definition be32_to_cpu :: "u32 \<Rightarrow> u32" where
  "be32_to_cpu x = drop_bit 24 (x AND 0xff000000) OR drop_bit 8 (x AND 0x00ff0000) OR
     push_bit 8 (x AND 0x0000ff00) OR push_bit 24 (x AND 0x000000ff)"

definition be16_to_cpu :: "u16 \<Rightarrow> u16" where
  "be16_to_cpu x = drop_bit 8 x OR push_bit 8 x"

definition be64_to_cpu :: "u64 \<Rightarrow> u64" where
  "be64_to_cpu x = ucast (be32_to_cpu (ucast (drop_bit 32 x))) OR
     push_bit 32 (ucast (be32_to_cpu (ucast (x AND 0xffffffff))))"

text \<open>The little-endian loads \<^verbatim>\<open>*(__be32 *)&data[i]\<close> and
  \<^verbatim>\<open>*(__be16 *)&data[i]\<close> of the x86 target.\<close>

definition load32 :: "u8 list \<Rightarrow> nat \<Rightarrow> u32" where
  "load32 d i = ucast (d ! i) OR push_bit 8 (ucast (d ! (i + 1))) OR
     push_bit 16 (ucast (d ! (i + 2))) OR push_bit 24 (ucast (d ! (i + 3)))"

definition load16 :: "u8 list \<Rightarrow> nat \<Rightarrow> u16" where
  "load16 d i = ucast (d ! i) OR push_bit 8 (ucast (d ! (i + 1)))"

section \<open>Bit extraction\<close>

definition extract_bit :: "u8 list \<Rightarrow> nat \<Rightarrow> bool" where
  "extract_bit data index = c_true (data ! (index div 8) AND push_bit (7 - index mod 8) 1)"

lemma extract_bit_bit: "extract_bit data n = bit (data ! (n div 8)) (7 - n mod 8)"
  unfolding extract_bit_def c_true_and_bit ..

lemma nat_less_4: "s < (4::nat) \<Longrightarrow> s \<in> {0, 1, 2, 3}" by auto

lemma bit_byte_masks [bits]:
  shows "bit (0xff000000::u32) n \<longleftrightarrow> 24 \<le> n \<and> n < 32"
    and "bit (0x00ff0000::u32) n \<longleftrightarrow> 16 \<le> n \<and> n < 24"
    and "bit (0x0000ff00::u32) n \<longleftrightarrow> 8 \<le> n \<and> n < 16"
    and "bit (0x000000ff::u32) n \<longleftrightarrow> n < 8"
proof -
  have "(0xff000000::u32) = push_bit 24 (mask 8)" "(0x00ff0000::u32) = push_bit 16 (mask 8)"
    "(0x0000ff00::u32) = push_bit 8 (mask 8)" "(0x000000ff::u32) = mask 8"
    by (simp_all add: mask_eq_exp_minus_1)
  then show "bit (0xff000000::u32) n \<longleftrightarrow> 24 \<le> n \<and> n < 32"
    and "bit (0x00ff0000::u32) n \<longleftrightarrow> 16 \<le> n \<and> n < 24"
    and "bit (0x0000ff00::u32) n \<longleftrightarrow> 8 \<le> n \<and> n < 16"
    and "bit (0x000000ff::u32) n \<longleftrightarrow> n < 8"
    by (auto simp only: bit_push_bit_iff bit_mask_iff) auto
qed

lemma bit_u8_bound: "bit (b::u8) n \<Longrightarrow> n < 8"
  using bit_imp_le_length[of b n] by simp

lemma bit_load32:
  assumes "q < 4" and "s < 8"
  shows "bit (load32 d i) (8 * q + s) = bit (d ! (i + q)) s"
  using nat_less_4[OF assms(1)] assms(2)
  unfolding load32_def bit_or_iff bit_push_bit_iff bit_ucast_iff
  by (elim insertE emptyE) (auto dest: bit_u8_bound)

lemma bit_be32:
  assumes "q < 4" and "t < 8"
  shows "bit (be32_to_cpu x) (8 * (3 - q) + t) = bit x (8 * q + t)"
  using nat_less_4[OF assms(1)] assms(2)
  unfolding be32_to_cpu_def bit_or_iff bit_and_iff bit_push_bit_iff bit_drop_bit_eq bit_byte_masks comp_def
  by (elim insertE emptyE) (simp_all add: add.commute)

lemma bit_load16:
  assumes "q < 2" and "s < 8"
  shows "bit (load16 d i) (8 * q + s) = bit (d ! (i + q)) s"
  using less_2_cases[OF assms(1)] assms(2)
  unfolding load16_def bit_or_iff bit_push_bit_iff bit_ucast_iff
  by (elim disjE) (auto dest: bit_u8_bound)

lemma bit_be16:
  assumes "q < 2" and "t < 8"
  shows "bit (be16_to_cpu x) (8 * (1 - q) + t) = bit x (8 * q + t)"
  using less_2_cases[OF assms(1)] assms(2) bit_imp_le_length[of x]
  unfolding be16_to_cpu_def bit_or_iff bit_push_bit_iff bit_drop_bit_eq comp_def
  by (elim disjE) (auto simp: add.commute dest: bit_imp_le_length)

text \<open>Bit \<open>j\<close> from the top of the byte-swapped difference of two loads says whether the
  two keys differ at bit \<open>8 * i + j\<close>.\<close>

lemma bit_diff32:
  assumes "j < 32"
  shows "bit (be32_to_cpu (load32 a i XOR load32 b i)) (31 - j) \<longleftrightarrow>
     extract_bit a (8 * i + j) \<noteq> extract_bit b (8 * i + j)"
proof -
  define q s where "q = j div 8" and "s = j mod 8"
  then have qs: "q < 4" "s < 8" "j = 8 * q + s" using assms by auto
  define t where "t = 7 - s"
  have "31 - j = 8 * (3 - q) + t" and "t < 8"
    using qs by (auto simp: t_def nat_diff_split)
  then show ?thesis using qs
    by (simp add: bit_be32 bit_xor_iff bit_load32 extract_bit_bit flip: t_def)
qed

lemma bit_diff16:
  assumes "j < 16"
  shows "bit (be16_to_cpu (load16 a i XOR load16 b i)) (15 - j) \<longleftrightarrow>
     extract_bit a (8 * i + j) \<noteq> extract_bit b (8 * i + j)"
proof -
  define q s where "q = j div 8" and "s = j mod 8"
  then have qs: "q < 2" "s < 8" "j = 8 * q + s" using assms by auto
  define t where "t = 7 - s"
  have "15 - j = 8 * (1 - q) + t" and "t < 8"
    using qs by (auto simp: t_def nat_diff_split)
  then show ?thesis using qs
    by (simp add: bit_be16[simplified] bit_xor_iff bit_load16 extract_bit_bit flip: t_def)
qed

lemma bit_diff8:
  assumes "j < 8"
  shows "bit (a ! i XOR b ! i) (7 - j) \<longleftrightarrow>
     extract_bit a (8 * i + j) \<noteq> extract_bit b (8 * i + j)"
  using assms by (simp add: bit_xor_iff extract_bit_bit)

section \<open>Longest prefix match\<close>

text \<open>The part of \<^verbatim>\<open>struct lpm_trie_node\<close> and \<^verbatim>\<open>struct bpf_lpm_trie_key_u8\<close> the match
  reads is a prefix length and the data bytes, so the routine takes these.  As in the source,
  \<open>data_size\<close> is a \<^verbatim>\<open>size_t\<close>, the limit and the counters \<open>prefixlen\<close> and \<open>i\<close> are \<^verbatim>\<open>u32\<close>, and \<^verbatim>\<open>i + 4\<close> is
  computed in 32 bits before it is compared.  With a data size near \<open>2 ^ 32\<close> the counters wrap and
  the loop need not end, so it is a function to \<open>option\<close>, \<open>None\<close> being a loop that does not end; a sum
  \<open>Inl\<close> is an early \<^verbatim>\<open>return\<close>.  The result, a \<^verbatim>\<open>size_t\<close> the callers only compare, is given as a number.\<close>

partial_function (option) lpm_words ::
    "u64 \<Rightarrow> u8 list \<Rightarrow> u8 list \<Rightarrow> u32 \<Rightarrow> u32 \<Rightarrow> u32 \<Rightarrow> (u32 + u32 \<times> u32) option" where
  "lpm_words data_size nd kd limit prefixlen i =
     (if data_size \<ge> ucast (i + 4) then
        let diff = be32_to_cpu (load32 nd (unat i) XOR load32 kd (unat i));
            prefixlen = prefixlen + of_nat (32 - fls diff)
        in if prefixlen \<ge> limit then Some (Inl limit)
           else if diff \<noteq> 0 then Some (Inl prefixlen)
           else lpm_words data_size nd kd limit prefixlen (i + 4)
      else Some (Inr (prefixlen, i)))"

declare lpm_words.simps [code]

definition lpm_half :: "u64 \<Rightarrow> u8 list \<Rightarrow> u8 list \<Rightarrow> u32 \<Rightarrow> u32 \<times> u32 \<Rightarrow> u32 + u32 \<times> u32" where
  "lpm_half data_size nd kd limit = (\<lambda>(prefixlen, i).
     if data_size \<ge> ucast (i + 2) then
        let diff = be16_to_cpu (load16 nd (unat i) XOR load16 kd (unat i));
            prefixlen = prefixlen + of_nat (16 - fls (ucast diff))
        in if prefixlen \<ge> limit then Inl limit
           else if diff \<noteq> 0 then Inl prefixlen
           else Inr (prefixlen, i + 2)
     else Inr (prefixlen, i))"

definition lpm_byte :: "u64 \<Rightarrow> u8 list \<Rightarrow> u8 list \<Rightarrow> u32 \<Rightarrow> u32 \<times> u32 \<Rightarrow> u32" where
  "lpm_byte data_size nd kd limit = (\<lambda>(prefixlen, i).
     if data_size \<ge> ucast (i + 1) then
        let prefixlen = prefixlen + of_nat (8 - fls (ucast (nd ! unat i XOR kd ! unat i)))
        in if prefixlen \<ge> limit then limit else prefixlen
     else prefixlen)"

definition longest_prefix_match :: "u64 \<Rightarrow> u32 \<Rightarrow> u8 list \<Rightarrow> u32 \<Rightarrow> u8 list \<Rightarrow> nat option" where
  "longest_prefix_match data_size node_prefixlen node_data key_prefixlen key_data =
     (let limit = min node_prefixlen key_prefixlen
      in case lpm_words data_size node_data key_data limit 0 0 of
           None \<Rightarrow> None
         | Some (Inl r) \<Rightarrow> Some (unat r)
         | Some (Inr st) \<Rightarrow> Some (unat (case lpm_half data_size node_data key_data limit st of
               Inl r \<Rightarrow> r
             | Inr st \<Rightarrow> lpm_byte data_size node_data key_data limit st)))"

text \<open>The reference: the first bit position below \<open>n\<close> at which two keys differ.\<close>

definition first_diff :: "u8 list \<Rightarrow> u8 list \<Rightarrow> nat \<Rightarrow> nat" where
  "first_diff a b n = length (takeWhile (\<lambda>j. extract_bit a j = extract_bit b j) [0..<n])"

lemma first_diff_le: "first_diff a b n \<le> n"
  unfolding first_diff_def by (metis diff_zero length_takeWhile_le length_upt)

lemma first_diff_agree:
  assumes "j < first_diff a b n" shows "extract_bit a j = extract_bit b j"
proof -
  let ?xs = "takeWhile (\<lambda>j. extract_bit a j = extract_bit b j) [0..<n]"
  have j: "j < length ?xs" using assms by (simp add: first_diff_def)
  moreover have "j < n" using assms first_diff_le[of a b n] by simp
  ultimately have "?xs ! j = j" by (simp add: takeWhile_nth)
  with nth_mem[OF j] have "j \<in> set ?xs" by simp
  then show ?thesis by (blast dest: set_takeWhileD)
qed

lemma first_diff_differ:
  assumes "first_diff a b n < n"
  shows "extract_bit a (first_diff a b n) \<noteq> extract_bit b (first_diff a b n)"
  using assms nth_length_takeWhile[of "\<lambda>j. extract_bit a j = extract_bit b j" "[0..<n]"]
  unfolding first_diff_def by simp

lemma first_diffI:
  assumes "\<And>j. j < m \<Longrightarrow> extract_bit a j = extract_bit b j" and "m \<le> n"
    and "m < n \<Longrightarrow> extract_bit a m \<noteq> extract_bit b m"
  shows "first_diff a b n = m"
  using assms first_diff_agree[of m a b n] first_diff_differ[of a b n] first_diff_le[of a b n]
  by (metis linorder_neqE_nat order_less_le_trans)

text \<open>One comparison of a \<open>w\<close>-bit group: \<open>w - fls diff\<close> bits agree, and the next one
  differs unless the whole group agrees.\<close>

lemma group_agrees:
  assumes "w \<le> 32" and "fls diff \<le> w"
    and grp: "\<And>j. j < w \<Longrightarrow> bit diff (w - 1 - j) \<longleftrightarrow> f j \<noteq> g j"
  shows "j < w - fls diff \<Longrightarrow> f j = g j"
    and "diff \<noteq> 0 \<Longrightarrow> w - fls diff < w \<and> f (w - fls diff) \<noteq> g (w - fls diff)"
proof -
  assume "j < w - fls diff"
  then show "f j = g j" using grp[of j] fls_above[of diff "w - 1 - j"] by auto
next
  assume "diff \<noteq> 0"
  note b = fls_bounds(1)[OF this] and t = fls_top_bit[OF this]
  have "w - 1 - (w - fls diff) = fls diff - 1" using assms(2) b by simp
  then show "w - fls diff < w \<and> f (w - fls diff) \<noteq> g (w - fls diff)"
    using grp[of "w - fls diff"] t b assms(2) by simp
qed

lemma first_diff_ge:
  assumes "\<And>j. j < m \<Longrightarrow> extract_bit a j = extract_bit b j" and "m \<le> n"
  shows "m \<le> first_diff a b n"
  using assms first_diff_differ[of a b n] by (metis linorder_not_less order_less_le_trans)

lemma fls_ucast:
  fixes x :: "'a::len word"
  assumes "LENGTH('a) \<le> 32"
  shows "fls (ucast x) \<le> LENGTH('a)" and "(ucast x :: u32) = 0 \<longleftrightarrow> x = 0"
    and "bit (ucast x :: u32) n \<longleftrightarrow> bit x n"
proof -
  show b: "bit (ucast x :: u32) n \<longleftrightarrow> bit x n" for n
    using assms bit_imp_le_length[of x n] by (auto simp: bit_ucast_iff)
  show z: "(ucast x :: u32) = 0 \<longleftrightarrow> x = 0"
    using b by (metis bit_0_eq bot_apply bit_word_eqI)
  show "fls (ucast x) \<le> LENGTH('a)"
  proof (cases "x = 0")
    case False
    then have "bit x (fls (ucast x) - 1)" using fls_top_bit[of "ucast x"] b z by blast
    then show ?thesis using bit_imp_le_length[of x "fls (ucast x) - 1"] by simp
  qed simp
qed

text \<open>What holds between two comparisons: \<open>i\<close> whole bytes agree, they are all counted,
  and the count is below the limit unless nothing was compared yet.\<close>

definition lpm_inv :: "nat \<Rightarrow> u8 list \<Rightarrow> u8 list \<Rightarrow> nat \<Rightarrow> nat \<times> nat \<Rightarrow> bool" where
  "lpm_inv data_size nd kd limit = (\<lambda>(prefixlen, i).
     prefixlen = 8 * i \<and> i \<le> data_size \<and> (i = 0 \<or> prefixlen < limit) \<and>
     (\<forall>j < 8 * i. extract_bit nd j = extract_bit kd j))"

lemma lpm_group:
  assumes inv: "lpm_inv data_size nd kd limit (prefixlen, i)"
    and w: "w \<le> 32" "fls diff \<le> w" "8 * i + w \<le> 8 * data_size"
    and grp: "\<And>j. j < w \<Longrightarrow> bit diff (w - 1 - j) \<longleftrightarrow>
                extract_bit nd (8 * i + j) \<noteq> extract_bit kd (8 * i + j)"
  shows "limit \<le> prefixlen + (w - fls diff) \<Longrightarrow>
           limit = min limit (first_diff nd kd (8 * data_size))"
    and "\<not> limit \<le> prefixlen + (w - fls diff) \<Longrightarrow> diff \<noteq> 0 \<Longrightarrow>
           prefixlen + (w - fls diff) = min limit (first_diff nd kd (8 * data_size))"
    and "\<not> limit \<le> prefixlen + (w - fls diff) \<Longrightarrow> diff = 0 \<Longrightarrow>
           prefixlen + (w - fls diff) = 8 * i + w \<and> 8 * i + w < limit \<and>
           (\<forall>j < 8 * i + w. extract_bit nd j = extract_bit kd j)"
proof -
  let ?m = "prefixlen + (w - fls diff)"
  have p: "prefixlen = 8 * i" and old: "\<And>j. j < 8 * i \<Longrightarrow> extract_bit nd j = extract_bit kd j"
    using inv by (auto simp: lpm_inv_def)
  note g = group_agrees[OF w(1,2) grp]
  have new: "extract_bit nd j = extract_bit kd j" if "j < ?m" for j
  proof (cases "j < 8 * i")
    case False
    then show ?thesis using that g(1)[of "j - 8 * i"] p by simp
  qed (rule old)
  have ge: "?m \<le> first_diff nd kd (8 * data_size)"
    using first_diff_ge[OF new] w(3) p by simp
  show "limit \<le> ?m \<Longrightarrow> limit = min limit (first_diff nd kd (8 * data_size))"
    using ge by simp
  show "\<not> limit \<le> ?m \<Longrightarrow> diff \<noteq> 0 \<Longrightarrow> ?m = min limit (first_diff nd kd (8 * data_size))"
    using first_diffI[of ?m nd kd "8 * data_size", OF new] g(2) w(3) p by simp
  show "\<not> limit \<le> ?m \<Longrightarrow> diff = 0 \<Longrightarrow>
      ?m = 8 * i + w \<and> 8 * i + w < limit \<and> (\<forall>j < 8 * i + w. extract_bit nd j = extract_bit kd j)"
    using new p by simp
qed

text \<open>Below \<open>2 ^ 29\<close> bytes neither counter wraps: the sums of the code are sums of numbers.\<close>

abbreviation lpm_state_inv :: "u64 \<Rightarrow> u8 list \<Rightarrow> u8 list \<Rightarrow> u32 \<Rightarrow> u32 \<times> u32 \<Rightarrow> bool" where
  "lpm_state_inv ds nd kd limit st \<equiv> lpm_inv (unat ds) nd kd (unat limit) (unat (fst st), unat (snd st))"

lemma lpm_no_wrap:
  assumes "unat (ds :: u64) < 2 ^ 29" and inv: "lpm_state_inv ds nd kd limit (p, i)" and "0 < c" "c \<le> 4"
  shows "unat (i + of_nat c) = unat i + c" and "ds \<ge> ucast (i + of_nat c) \<longleftrightarrow> unat i + c \<le> unat ds"
    and "unat i + c \<le> unat ds \<Longrightarrow> k \<le> 8 * c \<Longrightarrow> unat (p + of_nat k) = unat p + k"
proof -
  have i: "unat i \<le> unat ds" "unat p = 8 * unat i" using inv by (simp_all add: lpm_inv_def)
  then have "unat i + c < 2 ^ 32" using assms(1,4) by simp
  then show s: "unat (i + of_nat c) = unat i + c" using assms(4) by (simp add: unat_word_ariths unat_of_nat_u32)
  have "unat (ucast (i + of_nat c) :: u64) = unat (i + of_nat c)" by (rule unat_ucast_up) simp
  then show "ds \<ge> ucast (i + of_nat c) \<longleftrightarrow> unat i + c \<le> unat ds" by (simp only: word_le_nat_alt s)
  assume "unat i + c \<le> unat ds" "k \<le> 8 * c"
  then have "unat p + k < 2 ^ 32" "k < 2 ^ 32" using i(2) assms(1,4) by simp_all
  then show "unat (p + of_nat k) = unat p + k" by (simp add: unat_word_ariths unat_of_nat_u32)
qed

lemma lpm_words_correct:
  assumes ds: "unat ds < 2 ^ 29" and "lpm_state_inv ds nd kd limit (p, i)"
  shows "\<exists>res. lpm_words ds nd kd limit p i = Some res \<and>
     (case res of Inl r \<Rightarrow> unat r = min (unat limit) (first_diff nd kd (8 * unat ds))
      | Inr st \<Rightarrow> lpm_state_inv ds nd kd limit st \<and> unat ds < unat (snd st) + 4)"
  using assms(2)
proof (induction "unat ds - unat i" arbitrary: p i rule: less_induct)
  case less
  let ?diff = "be32_to_cpu (load32 nd (unat i) XOR load32 kd (unat i))"
  let ?p = "p + of_nat (32 - fls ?diff)"
  have inv: "lpm_inv (unat ds) nd kd (unat limit) (unat p, unat i)" using less.prems by simp
  have nw: "unat (i + 4) = unat i + 4" "ds \<ge> ucast (i + 4) \<longleftrightarrow> unat i + 4 \<le> unat ds"
    "unat i + 4 \<le> unat ds \<Longrightarrow> k \<le> 32 \<Longrightarrow> unat (p + of_nat k) = unat p + k" for k
    using lpm_no_wrap[OF ds less.prems, of 4] by simp_all
  show ?case
  proof (cases "unat i + 4 \<le> unat ds")
    case True
    then have p: "unat ?p = unat p + (32 - fls ?diff)" by (intro nw(3)) simp_all
    have le: "?p \<ge> limit \<longleftrightarrow> unat limit \<le> unat p + (32 - fls ?diff)" by (simp only: word_le_nat_alt p)
    have w: "8 * unat i + 32 \<le> 8 * unat ds" using True by simp
    have grp: "bit ?diff (32 - 1 - j) \<longleftrightarrow> extract_bit nd (8 * unat i + j) \<noteq> extract_bit kd (8 * unat i + j)" if "j < 32" for j
      using bit_diff32[OF that, of nd "unat i" kd] by simp
    note g = lpm_group[OF inv order_refl fls_le w grp]
    consider (hit) "?p \<ge> limit" | (diff) "\<not> ?p \<ge> limit" "?diff \<noteq> 0" | (same) "\<not> ?p \<ge> limit" "?diff = 0" by blast
    then show ?thesis
    proof cases
      case hit
      then show ?thesis using True nw(2) g(1) le by (subst lpm_words.simps) (simp add: Let_def)
    next
      case diff
      then show ?thesis using True nw(2) g(2) le p by (subst lpm_words.simps) (simp add: Let_def)
    next
      case same
      have "lpm_state_inv ds nd kd limit (?p, i + 4)"
        using same True nw(1) g(3) le p by (simp add: lpm_inv_def)
      moreover have "unat ds - unat (i + 4) < unat ds - unat i" using True nw(1) by simp
      ultimately show ?thesis using less.hyps[of "i + 4" ?p] same True nw(2)
        by (subst lpm_words.simps) (simp add: Let_def)
    qed
  next
    case False
    then show ?thesis using less.prems nw(2) by (subst lpm_words.simps) simp
  qed
qed

lemma lpm_half_correct:
  assumes ds: "unat ds < 2 ^ 29" and inv: "lpm_state_inv ds nd kd limit st" and "unat ds < unat (snd st) + 4"
  shows "case lpm_half ds nd kd limit st of
           Inl r \<Rightarrow> unat r = min (unat limit) (first_diff nd kd (8 * unat ds))
         | Inr st \<Rightarrow> lpm_state_inv ds nd kd limit st \<and> unat ds < unat (snd st) + 2"
proof -
  obtain p i where st: "st = (p, i)" by (cases st)
  let ?diff = "be16_to_cpu (load16 nd (unat i) XOR load16 kd (unat i))"
  let ?d = "ucast ?diff :: u32"
  let ?p = "p + of_nat (16 - fls ?d)"
  have f: "fls ?d \<le> 16" and z: "?d = 0 \<longleftrightarrow> ?diff = 0"
    using fls_ucast(1)[of ?diff] fls_ucast(2)[of ?diff] by simp_all
  have grp: "bit ?d (16 - 1 - j) \<longleftrightarrow> extract_bit nd (8 * unat i + j) \<noteq> extract_bit kd (8 * unat i + j)"
    if "j < 16" for j
    using bit_diff16[OF that, of nd "unat i" kd] fls_ucast(3)[of ?diff "15 - j"] by simp
  have nw: "unat (i + 2) = unat i + 2" "ds \<ge> ucast (i + 2) \<longleftrightarrow> unat i + 2 \<le> unat ds"
    "unat i + 2 \<le> unat ds \<Longrightarrow> k \<le> 16 \<Longrightarrow> unat (p + of_nat k) = unat p + k" for k
    using lpm_no_wrap[OF ds inv[unfolded st], of 2] by simp_all
  show ?thesis
  proof (cases "unat i + 2 \<le> unat ds")
    case True
    then have p: "unat ?p = unat p + (16 - fls ?d)" by (intro nw(3)) simp_all
    have le: "?p \<ge> limit \<longleftrightarrow> unat limit \<le> unat p + (16 - fls ?d)" by (simp only: word_le_nat_alt p)
    have w: "8 * unat i + 16 \<le> 8 * unat ds" using True by simp
    note g = lpm_group[OF inv[unfolded st fst_conv snd_conv] _ f w grp, simplified]
    consider (hit) "?p \<ge> limit" | (diff) "\<not> ?p \<ge> limit" "?diff \<noteq> 0" | (same) "\<not> ?p \<ge> limit" "?diff = 0" by blast
    then show ?thesis
    proof cases
      case hit
      then show ?thesis using True g(1) nw(2) le by (simp add: st lpm_half_def Let_def)
    next
      case diff
      then show ?thesis using True g(2) z nw(2) le p by (simp add: st lpm_half_def Let_def)
    next
      case same
      then have "lpm_state_inv ds nd kd limit (?p, i + 2)"
        using True g(3) z nw(1) le p by (simp add: lpm_inv_def)
      then show ?thesis using True same assms(3) nw by (simp add: st lpm_half_def Let_def)
    qed
  next
    case False
    then show ?thesis using inv st nw(2) by (simp add: lpm_half_def)
  qed
qed

lemma lpm_byte_correct:
  assumes ds: "unat ds < 2 ^ 29" and inv: "lpm_state_inv ds nd kd limit st" and "unat ds < unat (snd st) + 2"
  shows "unat (lpm_byte ds nd kd limit st) = min (unat limit) (first_diff nd kd (8 * unat ds))"
proof -
  obtain p i where st: "st = (p, i)" by (cases st)
  let ?d = "ucast (nd ! unat i XOR kd ! unat i) :: u32"
  let ?p = "p + of_nat (8 - fls ?d)"
  have f: "fls ?d \<le> 8" using fls_ucast(1)[of "nd ! unat i XOR kd ! unat i"] by simp
  have grp: "bit ?d (8 - 1 - j) \<longleftrightarrow> extract_bit nd (8 * unat i + j) \<noteq> extract_bit kd (8 * unat i + j)"
    if "j < 8" for j
    using bit_diff8[OF that, of nd "unat i" kd] fls_ucast(3)[of "nd ! unat i XOR kd ! unat i" "7 - j"] by simp
  have nw: "ds \<ge> ucast (i + 1) \<longleftrightarrow> unat i + 1 \<le> unat ds"
    "unat i + 1 \<le> unat ds \<Longrightarrow> k \<le> 8 \<Longrightarrow> unat (p + of_nat k) = unat p + k" for k
    using lpm_no_wrap[OF ds inv[unfolded st], of 1] by simp_all
  note full = first_diff_ge[of "8 * unat ds" nd kd "8 * unat ds"] first_diff_le[of nd kd "8 * unat ds"]
  show ?thesis
  proof (cases "unat i + 1 \<le> unat ds")
    case True
    then have p: "unat ?p = unat p + (8 - fls ?d)" by (intro nw(2)) simp_all
    have le: "?p \<ge> limit \<longleftrightarrow> unat limit \<le> unat p + (8 - fls ?d)" by (simp only: word_le_nat_alt p)
    have eq: "unat ds = unat i + 1" using True assms(3) st by simp
    then have w: "8 * unat i + 8 \<le> 8 * unat ds" by simp
    note g = lpm_group[OF inv[unfolded st fst_conv snd_conv] _ f w grp, simplified]
    have b: "lpm_byte ds nd kd limit st = (if ?p \<ge> limit then limit else ?p)"
      using True nw(1) by (simp add: st lpm_byte_def Let_def)
    consider (hit) "?p \<ge> limit" | (diff) "\<not> ?p \<ge> limit" "?d \<noteq> 0" | (same) "\<not> ?p \<ge> limit" "?d = 0" by blast
    then show ?thesis
    proof cases
      case hit
      then show ?thesis unfolding b using g(1) le by simp
    next
      case diff
      then show ?thesis unfolding b using g(2) le p by simp
    next
      case same
      then show ?thesis unfolding b using g(3) full eq le p by simp
    qed
  next
    case False
    then have "unat ds = unat i" "unat p = 8 * unat i" "unat i = 0 \<or> unat p < unat limit"
        "\<forall>j < 8 * unat i. extract_bit nd j = extract_bit kd j"
      using inv st by (auto simp: lpm_inv_def)
    then show ?thesis using full False nw(1) by (auto simp: st lpm_byte_def)
  qed
qed

lemma longest_prefix_match_first_diff:
  assumes "unat ds < 2 ^ 29"
  shows "longest_prefix_match ds np nd kp kd = Some (min (min (unat np) (unat kp)) (first_diff nd kd (8 * unat ds)))"
proof -
  let ?l = "min np kp"
  have m: "unat ?l = min (unat np) (unat kp)" by (simp add: min_def word_le_nat_alt)
  have "lpm_state_inv ds nd kd ?l (0, 0)" by (simp add: lpm_inv_def)
  from lpm_words_correct[OF assms this] obtain res where w: "lpm_words ds nd kd ?l 0 0 = Some res"
    "case res of Inl r \<Rightarrow> unat r = min (unat ?l) (first_diff nd kd (8 * unat ds))
     | Inr st \<Rightarrow> lpm_state_inv ds nd kd ?l st \<and> unat ds < unat (snd st) + 4" by blast
  show ?thesis
  proof (cases res)
    case (Inl r)
    then show ?thesis using w m by (simp add: longest_prefix_match_def)
  next
    case (Inr st)
    then have st: "lpm_state_inv ds nd kd ?l st" "unat ds < unat (snd st) + 4" using w(2) by simp_all
    note h = lpm_half_correct[OF assms st]
    show ?thesis
    proof (cases "lpm_half ds nd kd ?l st")
      case (Inl r)
      then show ?thesis using h w(1) Inr m by (simp add: longest_prefix_match_def)
    next
      case half: (Inr st')
      then have "lpm_state_inv ds nd kd ?l st'" "unat ds < unat (snd st') + 2" using h by simp_all
      from lpm_byte_correct[OF assms this] show ?thesis using half w(1) Inr m
        by (simp add: longest_prefix_match_def)
    qed
  qed
qed

end
