(* ===== verification/Lpm_Trie.thy ===== *)
theory Lpm_Trie
  imports Lpm_Bits
begin

text \<open>
  The stateful part of \<^verbatim>\<open>shims/kernel/bpf/lpm_trie.c\<close>: the static node pool that
  replaces \<^verbatim>\<open>kmalloc\<close>, the trie header, and the map operations
  \<^verbatim>\<open>trie_lookup_elem\<close>, \<^verbatim>\<open>trie_update_elem\<close> and \<^verbatim>\<open>trie_delete_elem\<close>.
  Pointers to nodes are pool slot numbers (\<open>None\<close> is \<^verbatim>\<open>NULL\<close>); a pointer to a link
  (\<^verbatim>\<open>struct lpm_trie_node **\<close>) is the root field or one of the two child fields of a
  slot.  The walks of the source follow links through the pool and are
  \<^theory_text>\<open>partial_function (option)\<close>: \<open>None\<close> would be a walk that never ends.
\<close>

section \<open>Data\<close>

type_synonym node_ptr = "nat option"

text \<open>A pool slot has 64 bytes: 24 of header and 40 for \<^verbatim>\<open>data[]\<close>, which holds the key
  bytes followed by the value.\<close>

record lpm_trie_node =
  child :: "bool \<Rightarrow> node_ptr"
  prefixlen :: u32
  flags :: u32
  data :: "u8 list"

record bpf_map =
  key_size :: u32
  value_size :: u32
  max_entries :: u32
  map_flags :: u32
  numa_node :: cint

record lpm_trie =
  trie_map :: bpf_map
  root :: node_ptr
  n_entries :: u64
  max_prefixlen :: u64
  data_size :: u64

record lpm_key =
  key_prefixlen :: u32
  key_data :: "u8 list"

record lpm_state =
  node_pool :: "lpm_trie_node list"
  pool_used :: "bool list"
  trie :: lpm_trie

abbreviation LPM_TREE_NODE_FLAG_IM :: u32 where "LPM_TREE_NODE_FLAG_IM \<equiv> BIT 0"
abbreviation LPM_POOL_SIZE :: nat where "LPM_POOL_SIZE \<equiv> 16"
abbreviation LPM_BPF_DATA_SIZE :: nat where "LPM_BPF_DATA_SIZE \<equiv> 4"
abbreviation LPM_BPF_VALUE_SIZE :: nat where "LPM_BPF_VALUE_SIZE \<equiv> 8"
abbreviation LPM_SLOT_DATA :: nat where "LPM_SLOT_DATA \<equiv> 40"

datatype link = Root_link | Child_link nat bool

definition zero_node :: lpm_trie_node where
  "zero_node = \<lparr>child = (\<lambda>_. None), prefixlen = 0, flags = 0, data = replicate LPM_SLOT_DATA 0\<rparr>"

definition pool_node :: "lpm_state \<Rightarrow> nat \<Rightarrow> lpm_trie_node" where
  "pool_node s a = node_pool s ! a"

definition set_node :: "nat \<Rightarrow> lpm_trie_node \<Rightarrow> lpm_state \<Rightarrow> lpm_state" where
  "set_node a n s = s\<lparr>node_pool := (node_pool s)[a := n]\<rparr>"

definition deref_link :: "lpm_state \<Rightarrow> link \<Rightarrow> node_ptr" where
  "deref_link s l = (case l of Root_link \<Rightarrow> root (trie s) | Child_link a b \<Rightarrow> child (pool_node s a) b)"

text \<open>\<^verbatim>\<open>rcu_assign_pointer(*slot, p)\<close>.\<close>

definition assign_link :: "link \<Rightarrow> node_ptr \<Rightarrow> lpm_state \<Rightarrow> lpm_state" where
  "assign_link l p s = (case l of
     Root_link \<Rightarrow> s\<lparr>trie := (trie s)\<lparr>root := p\<rparr>\<rparr>
   | Child_link a b \<Rightarrow> set_node a ((pool_node s a)\<lparr>child := (child (pool_node s a))(b := p)\<rparr>) s)"

section \<open>The node pool\<close>

text \<open>The allocator's scan: slot \<open>i\<close> is the first unused one from \<open>i\<close> on.\<close>

fun find_unused :: "bool list \<Rightarrow> nat \<Rightarrow> node_ptr" where
  "find_unused [] i = None"
| "find_unused (u # us) i = (if \<not> u then Some i else find_unused us (Suc i))"

definition bpf_map_kmalloc_node :: "lpm_state \<Rightarrow> node_ptr \<times> lpm_state" where
  "bpf_map_kmalloc_node s = (case find_unused (pool_used s) 0 of
     None \<Rightarrow> (None, s)
   | Some i \<Rightarrow> (Some i, (set_node i zero_node s)\<lparr>pool_used := (pool_used s)[i := True]\<rparr>))"

definition kfree :: "node_ptr \<Rightarrow> lpm_state \<Rightarrow> lpm_state" where
  "kfree p s = (case p of None \<Rightarrow> s | Some i \<Rightarrow> s\<lparr>pool_used := (pool_used s)[i := False]\<rparr>)"

text \<open>\<^verbatim>\<open>__lpm_memcpy\<close> into \<open>d\<close> at an offset, and the two fixed-size copies.\<close>

definition lpm_memcpy :: "u8 list \<Rightarrow> nat \<Rightarrow> u8 list \<Rightarrow> nat \<Rightarrow> u8 list" where
  "lpm_memcpy d off s n = fold (\<lambda>i d. d[off + i := s ! i]) [0..<n] d"

definition lpm_copy_data :: "u8 list \<Rightarrow> u8 list \<Rightarrow> u8 list" where
  "lpm_copy_data dst src = lpm_memcpy dst 0 src LPM_BPF_DATA_SIZE"

definition lpm_copy_value :: "u8 list \<Rightarrow> u8 list \<Rightarrow> u8 list" where
  "lpm_copy_value dst value = lpm_memcpy dst LPM_BPF_DATA_SIZE value LPM_BPF_VALUE_SIZE"

definition lpm_trie_node_alloc :: "u8 list option \<Rightarrow> lpm_state \<Rightarrow> node_ptr \<times> lpm_state" where
  "lpm_trie_node_alloc value s = (case bpf_map_kmalloc_node s of
     (None, s) \<Rightarrow> (None, s)
   | (Some a, s) \<Rightarrow>
       let node = (pool_node s a)\<lparr>flags := 0\<rparr>;
           node = (case value of None \<Rightarrow> node
                   | Some v \<Rightarrow> node\<lparr>data := lpm_copy_value (data node) v\<rparr>)
       in (Some a, set_node a node s))"

section \<open>Lookup\<close>

definition is_im :: "lpm_trie_node \<Rightarrow> bool" where
  "is_im n = c_true (flags n AND LPM_TREE_NODE_FLAG_IM)"

definition node_match :: "lpm_state \<Rightarrow> lpm_trie_node \<Rightarrow> lpm_key \<Rightarrow> nat option" where
  "node_match s n key =
     longest_prefix_match (data_size (trie s)) (prefixlen n) (data n) (key_prefixlen key) (key_data key)"

partial_function (option) lookup_walk ::
    "lpm_state \<Rightarrow> lpm_key \<Rightarrow> node_ptr \<Rightarrow> node_ptr \<Rightarrow> node_ptr option" where
  "lookup_walk s key node found = (case node of
     None \<Rightarrow> Some found
   | Some a \<Rightarrow>
       let n = pool_node s a
       in case node_match s n key of
            None \<Rightarrow> None
          | Some matchlen \<Rightarrow>
              if matchlen = unat (max_prefixlen (trie s)) then Some (Some a)
              else if matchlen < unat (prefixlen n) then Some found
              else let found = (if \<not> is_im n then Some a else found);
                       next_bit = extract_bit (key_data key) (unat (prefixlen n))
                   in lookup_walk s key (child n next_bit) found)"

declare lookup_walk.simps [code]

text \<open>The result \<^verbatim>\<open>found->data + trie->data_size\<close> is the found slot and the offset of the
  value in its \<^verbatim>\<open>data\<close>; the outer \<open>option\<close> is termination.\<close>

definition trie_lookup_elem :: "lpm_state \<Rightarrow> lpm_key \<Rightarrow> (nat \<times> nat) option option" where
  "trie_lookup_elem s key =
     (if unat (key_prefixlen key) > unat (max_prefixlen (trie s)) then Some None
      else case lookup_walk s key (root (trie s)) None of
             None \<Rightarrow> None
           | Some None \<Rightarrow> Some None
           | Some (Some a) \<Rightarrow> Some (Some (a, unat (data_size (trie s)))))"

section \<open>Update\<close>

definition trie_check_add_elem :: "lpm_state \<Rightarrow> u64 \<Rightarrow> cint \<times> lpm_state" where
  "trie_check_add_elem s uflags =
     (if uflags = BPF_EXIST then (- ENOENT, s)
      else if n_entries (trie s) = ucast (max_entries (trie_map (trie s))) then (- ENOSPC, s)
      else (0, s\<lparr>trie := (trie s)\<lparr>n_entries := n_entries (trie s) + 1\<rparr>\<rparr>))"

text \<open>The walk shared by update and delete: it stops at the link whose node is absent, does
  not match on its whole prefix, or has the key's prefix length.  It returns the last link,
  the link before it with the parent node (the \<^verbatim>\<open>trim2\<close> and \<^verbatim>\<open>parent\<close> of delete), the node
  and the last match length.\<close>

record walk_result =
  w_link :: link
  w_prev :: link
  w_parent :: node_ptr
  w_node :: node_ptr
  w_match :: nat

partial_function (option) trie_walk ::
    "lpm_state \<Rightarrow> lpm_key \<Rightarrow> link \<Rightarrow> link \<Rightarrow> node_ptr \<Rightarrow> nat \<Rightarrow> walk_result option" where
  "trie_walk s key slot prev parent matchlen = (case deref_link s slot of
     None \<Rightarrow> Some \<lparr>w_link = slot, w_prev = prev, w_parent = parent, w_node = None, w_match = matchlen\<rparr>
   | Some a \<Rightarrow>
       let n = pool_node s a
       in case node_match s n key of
            None \<Rightarrow> None
          | Some matchlen \<Rightarrow>
              if unat (prefixlen n) \<noteq> matchlen \<or> prefixlen n = key_prefixlen key
              then Some \<lparr>w_link = slot, w_prev = prev, w_parent = parent, w_node = Some a, w_match = matchlen\<rparr>
              else let next_bit = extract_bit (key_data key) (unat (prefixlen n))
                   in trie_walk s key (Child_link a next_bit) slot (Some a) matchlen)"

declare trie_walk.simps [code]

text \<open>The branches of \<^verbatim>\<open>trie_update_elem\<close> under the lock, in the order of the source: the
  return code, the node to free (\<^verbatim>\<open>free_node\<close>) and the new state.  \<open>new\<close> is the slot of
  \<^verbatim>\<open>new_node\<close>.\<close>

definition update_locked :: "lpm_key \<Rightarrow> u64 \<Rightarrow> nat \<Rightarrow> walk_result \<Rightarrow> lpm_state \<Rightarrow> cint \<times> node_ptr \<times> lpm_state" where
  "update_locked key uflags new w s = (case w_node w of
     None \<Rightarrow>
       (let (ret, s) = trie_check_add_elem s uflags
        in if ret \<noteq> 0 then (ret, None, s)
           else (0, None, assign_link (w_link w) (Some new) s))
   | Some a \<Rightarrow>
       if unat (prefixlen (pool_node s a)) = w_match w then
         (let (ret, s) = (if \<not> is_im (pool_node s a)
                          then (if uflags = BPF_NOEXIST then - EEXIST else 0, s)
                          else trie_check_add_elem s uflags)
          in if ret \<noteq> 0 then (ret, None, s)
             else let s = set_node new ((pool_node s new)\<lparr>child := child (pool_node s a)\<rparr>) s
                  in (0, Some a, assign_link (w_link w) (Some new) s))
       else
         (let (ret, s) = trie_check_add_elem s uflags
          in if ret \<noteq> 0 then (ret, None, s)
             else if w_match w = unat (key_prefixlen key) then
               let next_bit = extract_bit (data (pool_node s a)) (w_match w);
                   s = assign_link (Child_link new next_bit) (Some a) s
               in (0, None, assign_link (w_link w) (Some new) s)
             else (case lpm_trie_node_alloc None s of
                 (None, s) \<Rightarrow>
                   (- ENOMEM, None, s\<lparr>trie := (trie s)\<lparr>n_entries := n_entries (trie s) - 1\<rparr>\<rparr>)
               | (Some im, s) \<Rightarrow>
                   let n = pool_node s im;
                       s = set_node im (n\<lparr>prefixlen := of_nat (w_match w),
                                          flags := flags n OR LPM_TREE_NODE_FLAG_IM,
                                          data := lpm_copy_data (data n) (data (pool_node s a))\<rparr>) s;
                       s = (if extract_bit (key_data key) (w_match w)
                            then assign_link (Child_link im True) (Some new)
                                   (assign_link (Child_link im False) (Some a) s)
                            else assign_link (Child_link im True) (Some a)
                                   (assign_link (Child_link im False) (Some new) s))
                   in (0, None, assign_link (w_link w) (Some im) s))))"

definition trie_update_elem :: "lpm_state \<Rightarrow> lpm_key \<Rightarrow> u8 list \<Rightarrow> u64 \<Rightarrow> (cint \<times> lpm_state) option" where
  "trie_update_elem s key value uflags =
     (if uflags > BPF_EXIST then Some (- EINVAL, s)
      else if unat (key_prefixlen key) > unat (max_prefixlen (trie s)) then Some (- EINVAL, s)
      else case lpm_trie_node_alloc (Some value) s of
             (None, s) \<Rightarrow> Some (- ENOMEM, s)
           | (Some new, s) \<Rightarrow>
               let n = pool_node s new;
                   s = set_node new (n\<lparr>prefixlen := key_prefixlen key, child := (\<lambda>_. None),
                                       data := lpm_copy_data (data n) (key_data key)\<rparr>) s
               in case trie_walk s key Root_link Root_link None 0 of
                    None \<Rightarrow> None
                  | Some w \<Rightarrow>
                      let (ret, free_node, s) = update_locked key uflags new w s;
                          s = (if ret \<noteq> 0 then kfree (Some new) s else s)
                      in Some (ret, kfree free_node s))"

section \<open>Delete\<close>

text \<open>The part of \<^verbatim>\<open>trie_delete_elem\<close> under the lock: the return code, \<^verbatim>\<open>free_parent\<close>,
  \<^verbatim>\<open>free_node\<close> and the new state.\<close>

definition delete_locked :: "lpm_key \<Rightarrow> walk_result \<Rightarrow> lpm_state \<Rightarrow> cint \<times> node_ptr \<times> node_ptr \<times> lpm_state" where
  "delete_locked key w s = (case w_node w of
     None \<Rightarrow> (- ENOENT, None, None, s)
   | Some a \<Rightarrow>
       let n = pool_node s a
       in if prefixlen n \<noteq> key_prefixlen key \<or> unat (prefixlen n) \<noteq> w_match w \<or> is_im n
          then (- ENOENT, None, None, s)
          else
            let s = s\<lparr>trie := (trie s)\<lparr>n_entries := n_entries (trie s) - 1\<rparr>\<rparr>
            in if child n False \<noteq> None \<and> child n True \<noteq> None
               then (0, None, None, set_node a (n\<lparr>flags := flags n OR LPM_TREE_NODE_FLAG_IM\<rparr>) s)
               else if (case w_parent w of None \<Rightarrow> False | Some p \<Rightarrow> is_im (pool_node s p)) \<and>
                       child n False = None \<and> child n True = None
               then let p = pool_node s (the (w_parent w));
                        sibling = (if Some a = child p False then child p True else child p False)
                    in (0, w_parent w, Some a, assign_link (w_prev w) sibling s)
               else if child n False \<noteq> None
               then (0, None, Some a, assign_link (w_link w) (child n False) s)
               else if child n True \<noteq> None
               then (0, None, Some a, assign_link (w_link w) (child n True) s)
               else (0, None, Some a, assign_link (w_link w) None s))"

definition trie_delete_elem :: "lpm_state \<Rightarrow> lpm_key \<Rightarrow> (cint \<times> lpm_state) option" where
  "trie_delete_elem s key =
     (if unat (key_prefixlen key) > unat (max_prefixlen (trie s)) then Some (- EINVAL, s)
      else case trie_walk s key Root_link Root_link None 0 of
             None \<Rightarrow> None
           | Some w \<Rightarrow>
               let (ret, free_parent, free_node, s) = delete_locked key w s
               in Some (ret, kfree free_node (kfree free_parent s)))"

section \<open>Initialisation\<close>

definition lpm_trie_init :: "u32 \<Rightarrow> lpm_state \<Rightarrow> lpm_state" where
  "lpm_trie_init nents s = s\<lparr>
     pool_used := replicate LPM_POOL_SIZE False,
     trie := \<lparr>trie_map = \<lparr>key_size = 4 + 4, value_size = of_nat LPM_BPF_VALUE_SIZE,
                           max_entries = nents, map_flags = 0, numa_node = NUMA_NO_NODE\<rparr>,
              root = None, n_entries = 0, max_prefixlen = 32,
              data_size = of_nat LPM_BPF_DATA_SIZE\<rparr>\<rparr>"

definition lpm_key_set :: "u32 \<Rightarrow> u8 \<Rightarrow> u8 \<Rightarrow> u8 \<Rightarrow> u8 \<Rightarrow> lpm_key" where
  "lpm_key_set plen a b c d = \<lparr>key_prefixlen = plen, key_data = [a, b, c, d]\<rparr>"

end
