(* ===== verification/Lpm_Tree.thy ===== *)
theory Lpm_Tree
  imports Lpm_Trie "HOL-Library.Sublist" "HOL-Library.Multiset"
begin

text \<open>
  Trees behind the node pool of \<open>Lpm_Trie\<close>.  An \<open>ltree\<close> names the pool slots a walk from
  the root can reach; \<open>rep\<close> says that the links of the pool form that tree, \<open>twf\<close> that the
  prefixes stored in the slots are nested the way the links are, and \<open>tmap\<close> is the map from
  bit strings to values the tree stores.  The lemmas on \<open>sub\<close>, \<open>plug\<close> and \<open>link_at\<close> reduce
  an assignment through a link to the replacement of a subtree.
\<close>

section \<open>Trees of slots\<close>

datatype ltree = Lf | Nd nat ltree ltree

type_synonym heap = "nat \<Rightarrow> lpm_trie_node"

definition son :: "bool \<Rightarrow> ltree \<Rightarrow> ltree \<Rightarrow> ltree" where
  "son b l r = (if b then r else l)"

lemma son_simps [simp]: "son True l r = r" "son False l r = l"
  by (simp_all add: son_def)

lemma size_son [termination_simp]: "size (son b l r) < Suc (size l + size r)"
  by (simp add: son_def)

fun nodes :: "ltree \<Rightarrow> nat list" where
  "nodes Lf = []"
| "nodes (Nd a l r) = a # nodes l @ nodes r"

fun root_ptr :: "ltree \<Rightarrow> node_ptr" where
  "root_ptr Lf = None"
| "root_ptr (Nd a l r) = Some a"

fun rep :: "heap \<Rightarrow> node_ptr \<Rightarrow> ltree \<Rightarrow> bool" where
  "rep h p Lf = (p = None)"
| "rep h p (Nd a l r) = (p = Some a \<and> rep h (child (h a) False) l \<and> rep h (child (h a) True) r)"

lemma rep_root_ptr: "rep h p t \<Longrightarrow> p = root_ptr t"
  by (cases t) auto

lemma rep_cong: "(\<And>a. a \<in> set (nodes t) \<Longrightarrow> child (h' a) = child (h a)) \<Longrightarrow> rep h' p t = rep h p t"
  by (induction t arbitrary: p) auto

section \<open>Stored prefixes\<close>

definition bits_of :: "nat \<Rightarrow> u8 list \<Rightarrow> bool list" where
  "bits_of n d = map (extract_bit d) [0..<n]"

definition nbits :: "lpm_trie_node \<Rightarrow> bool list" where
  "nbits n = bits_of (unat (prefixlen n)) (data n)"

definition kbits :: "lpm_key \<Rightarrow> bool list" where
  "kbits key = bits_of (unat (key_prefixlen key)) (key_data key)"

definition node_value :: "lpm_trie_node \<Rightarrow> u8 list" where
  "node_value n = take LPM_BPF_VALUE_SIZE (drop LPM_BPF_DATA_SIZE (data n))"

lemma length_bits_of [simp]: "length (bits_of n d) = n"
  by (simp add: bits_of_def)

lemma nth_bits_of [simp]: "i < n \<Longrightarrow> bits_of n d ! i = extract_bit d i"
  by (simp add: bits_of_def)

lemma length_nbits [simp]: "length (nbits n) = unat (prefixlen n)"
  by (simp add: nbits_def)

lemma length_kbits [simp]: "length (kbits key) = unat (key_prefixlen key)"
  by (simp add: kbits_def)

fun twf :: "heap \<Rightarrow> bool list \<Rightarrow> ltree \<Rightarrow> bool" where
  "twf h pre Lf = True"
| "twf h pre (Nd a l r) =
     (prefix pre (nbits (h a)) \<and> unat (prefixlen (h a)) \<le> 32 \<and>
      (is_im (h a) \<longrightarrow> l \<noteq> Lf \<and> r \<noteq> Lf) \<and>
      twf h (nbits (h a) @ [False]) l \<and> twf h (nbits (h a) @ [True]) r)"

text \<open>The map from bit strings to values that a tree stores.\<close>

fun tmap :: "heap \<Rightarrow> ltree \<Rightarrow> bool list \<Rightarrow> u8 list option" where
  "tmap h Lf = Map.empty"
| "tmap h (Nd a l r) =
     (tmap h l ++ tmap h r)(nbits (h a) := (if is_im (h a) then None else Some (node_value (h a))))"

fun reals :: "heap \<Rightarrow> ltree \<Rightarrow> nat" where
  "reals h Lf = 0"
| "reals h (Nd a l r) = (if is_im (h a) then 0 else 1) + reals h l + reals h r"

text \<open>The fields of a slot that \<open>twf\<close>, \<open>tmap\<close> and \<open>reals\<close> depend on.\<close>

definition same_key :: "lpm_trie_node \<Rightarrow> lpm_trie_node \<Rightarrow> bool" where
  "same_key m n \<longleftrightarrow> prefixlen m = prefixlen n \<and> data m = data n \<and> is_im m = is_im n"

lemma same_keyD:
  assumes "same_key m n"
  shows "nbits m = nbits n" "is_im m = is_im n" "node_value m = node_value n" "prefixlen m = prefixlen n"
  using assms by (simp_all add: same_key_def nbits_def node_value_def)

lemma same_key_refl [simp]: "same_key n n"
  by (simp add: same_key_def)

lemma same_key_child [simp]: "same_key (n\<lparr>child := c\<rparr>) n"
  by (simp add: same_key_def is_im_def)

lemma twf_cong: "(\<And>a. a \<in> set (nodes t) \<Longrightarrow> same_key (h' a) (h a)) \<Longrightarrow> twf h' pre t = twf h pre t"
proof (induction t arbitrary: pre)
  case (Nd a l r)
  from same_keyD[OF Nd.prems[of a]] show ?case by (simp add: Nd)
qed simp

lemma tmap_cong: "(\<And>a. a \<in> set (nodes t) \<Longrightarrow> same_key (h' a) (h a)) \<Longrightarrow> tmap h' t = tmap h t"
proof (induction t)
  case (Nd a l r)
  from same_keyD[OF Nd.prems[of a]] show ?case by (simp add: Nd cong: if_cong)
qed simp

lemma reals_cong: "(\<And>a. a \<in> set (nodes t) \<Longrightarrow> same_key (h' a) (h a)) \<Longrightarrow> reals h' t = reals h t"
proof (induction t)
  case (Nd a l r)
  from same_keyD[OF Nd.prems[of a]] show ?case by (simp add: Nd)
qed simp

lemmas tree_cong = rep_cong twf_cong tmap_cong reals_cong

lemma tmap_prefix: "twf h pre t \<Longrightarrow> \<not> prefix pre k \<Longrightarrow> tmap h t k = None"
proof (induction t arbitrary: pre)
  case (Nd a l r)
  have p: "prefix pre (nbits (h a))" using Nd.prems(1) by simp
  then have "prefix pre (nbits (h a) @ [b])" for b by simp
  then have "\<not> prefix (nbits (h a) @ [b]) k" for b using Nd.prems(2) prefix_order.trans by blast
  moreover have "nbits (h a) \<noteq> k" using p Nd.prems(2) by blast
  moreover have "tmap h l k = None" "tmap h r k = None"
    using Nd.prems(1) calculation(1) by (auto intro: Nd.IH)
  ultimately show ?case by (simp add: map_add_def)
qed simp

lemma tmap_son:
  assumes "twf h pre (Nd a l r)" and "prefix (nbits (h a) @ [b]) k"
  shows "tmap h (Nd a l r) k = tmap h (son b l r) k"
proof -
  have "\<not> prefix (nbits (h a) @ [\<not> b]) k" "nbits (h a) \<noteq> k"
    using assms(2) by (auto simp: prefix_def)
  then show ?thesis using assms(1) by (cases b) (auto simp: tmap_prefix map_add_def split: option.splits)
qed

lemma wf_weaken: "twf h (pre @ ys) t \<Longrightarrow> twf h pre t"
  by (cases t) (auto dest: append_prefixD)

lemma wf_im_short:
  assumes "twf h pre (Nd a l r)" and "is_im (h a)" shows "unat (prefixlen (h a)) < 32"
proof -
  from assms obtain b l' r' where "twf h (nbits (h a) @ [True]) (Nd b l' r')"
    by (cases r) auto
  then have "prefix (nbits (h a) @ [True]) (nbits (h b))" "unat (prefixlen (h b)) \<le> 32" by auto
  then show ?thesis using prefix_length_le by fastforce
qed

section \<open>Paths, subtrees and replacement\<close>

fun sub :: "ltree \<Rightarrow> bool list \<Rightarrow> ltree" where
  "sub t [] = t"
| "sub Lf (b # p) = Lf"
| "sub (Nd a l r) (b # p) = sub (son b l r) p"

fun plug :: "ltree \<Rightarrow> bool list \<Rightarrow> ltree \<Rightarrow> ltree" where
  "plug t [] u = u"
| "plug Lf (b # p) u = Lf"
| "plug (Nd a l r) (b # p) u = (if b then Nd a l (plug r p u) else Nd a (plug l p u) r)"

fun valid :: "ltree \<Rightarrow> bool list \<Rightarrow> bool" where
  "valid t [] = True"
| "valid Lf (b # p) = False"
| "valid (Nd a l r) (b # p) = valid (son b l r) p"

fun link_at :: "link \<Rightarrow> ltree \<Rightarrow> bool list \<Rightarrow> link" where
  "link_at k t [] = k"
| "link_at k Lf (b # p) = k"
| "link_at k (Nd a l r) (b # p) = link_at (Child_link a b) (son b l r) p"

fun pre_at :: "heap \<Rightarrow> bool list \<Rightarrow> ltree \<Rightarrow> bool list \<Rightarrow> bool list" where
  "pre_at h pre t [] = pre"
| "pre_at h pre Lf (b # p) = pre"
| "pre_at h pre (Nd a l r) (b # p) = pre_at h (nbits (h a) @ [b]) (son b l r) p"

lemma mset_plug:
  "valid t p \<Longrightarrow> mset (nodes (plug t p u)) + mset (nodes (sub t p)) = mset (nodes t) + mset (nodes u)"
  by (induction t p u rule: plug.induct) (auto simp: ac_simps)

lemma reals_plug:
  "valid t p \<Longrightarrow> reals h (plug t p u) + reals h (sub t p) = reals h t + reals h u"
  by (induction t p u rule: plug.induct) (auto simp: ac_simps)

lemma set_sub: "set (nodes (sub t p)) \<subseteq> set (nodes t)"
  by (induction t p rule: sub.induct) (auto simp: son_def)

lemma distinct_sub: "distinct (nodes t) \<Longrightarrow> distinct (nodes (sub t p))"
  by (induction t p rule: sub.induct) (auto simp: son_def)

lemma rep_sub:
  assumes "rep h p t" and "valid t q"
  shows "rep h (root_ptr (sub t q)) (sub t q)"
  using assms
proof (induction t q arbitrary: p rule: sub.induct)
  case (1 t)
  then show ?case by (auto dest: rep_root_ptr)
next
  case (3 a l r b q)
  then show ?case by (cases b) auto
qed auto

lemma wf_sub: "twf h pre t \<Longrightarrow> valid t p \<Longrightarrow> twf h (pre_at h pre t p) (sub t p)"
  by (induction h pre t p rule: pre_at.induct) (auto simp: son_def split: if_splits)

lemma wf_pre_at:
  assumes "twf h pre t" and "valid t p" shows "prefix pre (pre_at h pre t p)"
  using assms
proof (induction h pre t p rule: pre_at.induct)
  case (3 h pre a l r b p)
  have "twf h (nbits (h a) @ [b]) (son b l r)" "prefix pre (nbits (h a))"
    using "3.prems"(1) by (cases b; simp)+
  then have "prefix (nbits (h a) @ [b]) (pre_at h (nbits (h a) @ [b]) (son b l r) p)"
    using "3.IH" "3.prems"(2) by simp
  then have "prefix (nbits (h a)) (pre_at h (nbits (h a) @ [b]) (son b l r) p)"
    by (rule append_prefixD)
  with \<open>prefix pre (nbits (h a))\<close> show ?case by (simp add: prefix_order.trans)
qed auto


text \<open>Replacing a subtree changes the stored map exactly as it changes the subtree's map, for
  a key under the subtree's prefix.\<close>

lemma tmap_plug:
  assumes "twf h pre t" and "valid t p" and "prefix (pre_at h pre t p) k"
    and "\<And>a. a \<in> set (nodes t) - set (nodes (sub t p)) \<Longrightarrow> same_key (h' a) (h a)"
    and "distinct (nodes t)" and "tmap h' u = (tmap h (sub t p))(k := x)"
  shows "tmap h' (plug t p u) = (tmap h t)(k := x)"
  using assms
proof (induction h pre t p rule: pre_at.induct)
  case (3 h pre a l r b p)
  let ?n = "nbits (h a)"
  have son: "twf h (?n @ [b]) (son b l r)" and other: "twf h (?n @ [\<not> b]) (son (\<not> b) l r)"
    using "3.prems"(1) by (cases b; simp)+
  have valid: "valid (son b l r) p" using "3.prems"(2) by simp
  have a: "same_key (h' a) (h a)"
    using "3.prems"(4)[of a] "3.prems"(5) set_sub[of "son b l r" p] by (cases b) auto
  have "set (nodes (son (\<not> b) l r)) \<inter> set (nodes (sub (son b l r) p)) = {}"
    using "3.prems"(5) set_sub[of "son b l r" p] by (cases b) auto
  then have o: "tmap h' (son (\<not> b) l r) = tmap h (son (\<not> b) l r)"
    using "3.prems"(4) by (intro tmap_cong) (cases b; auto)
  have IH: "tmap h' (plug (son b l r) p u) = (tmap h (son b l r))(k := x)"
    using "3.prems" son valid by (intro "3.IH") (cases b; auto)+
  have k: "prefix (?n @ [b]) k"
    using wf_pre_at[OF son valid] "3.prems"(3) by (simp add: prefix_order.trans)
  then have "?n \<noteq> k" "tmap h (son (\<not> b) l r) k = None"
    using other by (auto simp: prefix_def intro!: tmap_prefix)
  then show ?case using IH o same_keyD[OF a]
    by (cases b) (auto simp: fun_eq_iff map_add_def split: option.splits)
qed auto

lemma twf_plug:
  assumes "twf h pre t" and "valid t p" and "twf h' (pre_at h pre t p) u"
    and "\<And>a. a \<in> set (nodes t) - set (nodes (sub t p)) \<Longrightarrow> same_key (h' a) (h a)"
    and "distinct (nodes t)"
    and "u = Lf \<Longrightarrow> p \<noteq> [] \<Longrightarrow> \<not> is_im (h (the (root_ptr (sub t (butlast p)))))"
  shows "twf h' pre (plug t p u)"
  using assms
proof (induction h pre t p rule: pre_at.induct)
  case (3 h pre a l r b p)
  let ?n = "nbits (h a)"
  have son: "twf h (?n @ [b]) (son b l r)" and other: "twf h (?n @ [\<not> b]) (son (\<not> b) l r)"
    using "3.prems"(1) by (cases b; simp)+
  have valid: "valid (son b l r) p" using "3.prems"(2) by simp
  have a: "same_key (h' a) (h a)"
    using "3.prems"(4)[of a] "3.prems"(5) set_sub[of "son b l r" p] by (cases b) auto
  have "set (nodes (son (\<not> b) l r)) \<inter> set (nodes (sub (son b l r) p)) = {}"
    using "3.prems"(5) set_sub[of "son b l r" p] by (cases b) auto
  then have o: "twf h' (?n @ [\<not> b]) (son (\<not> b) l r)"
    using "3.prems"(4) other by (subst twf_cong[where h = h]) (cases b; auto)+
  have IH: "twf h' (?n @ [b]) (plug (son b l r) p u)"
    using "3.prems" son valid by (intro "3.IH") (cases b; auto split: if_splits)+
  have ne: "plug (son b l r) p u \<noteq> Lf" if "is_im (h a)"
    using that "3.prems"(1,6) by (cases p; cases "son b l r"; cases b) auto
  show ?case using IH o same_keyD[OF a] "3.prems"(1) ne by (cases b) auto
qed auto

end
