(* ===== verification/Lpm_Walk.thy ===== *)
theory Lpm_Walk
  imports Lpm_Tree
begin

text \<open>
  The two walks of \<open>Lpm_Trie\<close> on a pool that represents a tree: both end, the update/delete
  walk ends at the link on the path of the key (\<open>path\<close>), and the lookup walk finds the node
  of the longest stored prefix of the key.
\<close>

section \<open>Match length and common prefixes\<close>

definition key_ok :: "lpm_key \<Rightarrow> bool" where
  "key_ok key \<longleftrightarrow> unat (key_prefixlen key) \<le> 32 \<and> length (key_data key) = LPM_BPF_DATA_SIZE"

text \<open>On the four data bytes of the trie the match always ends, with the number of leading bits on which node and key
  agree, capped by both prefix lengths.\<close>

definition match_len :: "lpm_trie_node \<Rightarrow> lpm_key \<Rightarrow> nat" where
  "match_len n key = min (min (unat (prefixlen n)) (unat (key_prefixlen key))) (first_diff (data n) (key_data key) 32)"

lemma node_match_len:
  assumes "unat (data_size (trie s)) = 4"
  shows "node_match s n key = Some (match_len n key)"
  using assms by (simp add: node_match_def match_len_def longest_prefix_match_first_diff)

lemma match_len_props:
  assumes "unat (prefixlen n) \<le> 32" and "key_ok key"
  defines "m \<equiv> match_len n key"
  shows "m \<le> unat (prefixlen n)" and "m \<le> unat (key_prefixlen key)"
    and "take m (nbits n) = take m (kbits key)"
    and "m < unat (prefixlen n) \<Longrightarrow> m < unat (key_prefixlen key) \<Longrightarrow> nbits n ! m \<noteq> kbits key ! m"
proof -
  let ?f = "first_diff (data n) (key_data key) 32"
  have m: "m = min (min (unat (prefixlen n)) (unat (key_prefixlen key))) ?f"
    by (simp add: m_def match_len_def)
  then show a: "m \<le> unat (prefixlen n)" "m \<le> unat (key_prefixlen key)" by simp_all
  show "take m (nbits n) = take m (kbits key)"
    using m by (intro nth_equalityI) (auto simp: nbits_def kbits_def dest: first_diff_agree)
  assume b: "m < unat (prefixlen n)" "m < unat (key_prefixlen key)"
  then have "m = ?f" using m by linarith
  then show "nbits n ! m \<noteq> kbits key ! m"
    using b assms(1) first_diff_differ[of "data n" "key_data key" 32]
    by (simp add: nbits_def kbits_def)
qed

lemma match_len_full:
  assumes "unat (prefixlen n) \<le> 32" and "key_ok key"
  shows "match_len n key = unat (prefixlen n) \<longleftrightarrow> prefix (nbits n) (kbits key)"
    and "match_len n key = unat (key_prefixlen key) \<longleftrightarrow> prefix (kbits key) (nbits n)"
proof -
  note m = match_len_props[OF assms]
  let ?m = "match_len n key"
  show "?m = unat (prefixlen n) \<longleftrightarrow> prefix (nbits n) (kbits key)"
  proof
    assume "?m = unat (prefixlen n)"
    then show "prefix (nbits n) (kbits key)" using m(3) by (metis length_nbits take_all_iff le_refl take_is_prefix)
  next
    assume p: "prefix (nbits n) (kbits key)"
    show "?m = unat (prefixlen n)"
    proof (rule ccontr)
      assume "?m \<noteq> unat (prefixlen n)"
      then have "?m < unat (prefixlen n)" using m(1) by simp
      then show False using m(4) prefix_length_le[OF p] p by (auto simp: prefix_def nth_append)
    qed
  qed
  show "?m = unat (key_prefixlen key) \<longleftrightarrow> prefix (kbits key) (nbits n)"
  proof
    assume "?m = unat (key_prefixlen key)"
    then show "prefix (kbits key) (nbits n)" using m(3) by (metis length_kbits take_all_iff le_refl take_is_prefix)
  next
    assume p: "prefix (kbits key) (nbits n)"
    show "?m = unat (key_prefixlen key)"
    proof (rule ccontr)
      assume "?m \<noteq> unat (key_prefixlen key)"
      then have "?m < unat (key_prefixlen key)" using m(2) by simp
      then show False using m(4) prefix_length_le[OF p] p by (auto simp: prefix_def nth_append)
    qed
  qed
qed

lemma strict_prefix_nbits:
  assumes "prefix (nbits n) (kbits key)"
  shows "strict_prefix (nbits n) (kbits key) \<longleftrightarrow> prefixlen n \<noteq> key_prefixlen key"
proof -
  have "nbits n = kbits key \<longleftrightarrow> length (nbits n) = length (kbits key)"
    using assms by (metis append_eq_append_conv append_Nil2 prefix_def)
  then show ?thesis using assms by (simp add: strict_prefix_def unsigned_word_eqI word_unat_eq_iff)
qed

section \<open>Links\<close>

lemma pool_node_set_node [simp]:
  "a < length (node_pool s) \<Longrightarrow> pool_node (set_node a n s) = (pool_node s)(a := n)"
  by (auto simp: pool_node_def set_node_def fun_eq_iff)

lemma set_node_simps [simp]:
  "length (node_pool (set_node a n s)) = length (node_pool s)"
  "pool_used (set_node a n s) = pool_used s" "trie (set_node a n s) = trie s"
  by (simp_all add: set_node_def)

lemma pool_node_trie [simp]:
  "pool_node (s\<lparr>trie := t\<rparr>) = pool_node s" "pool_node (s\<lparr>pool_used := u\<rparr>) = pool_node s"
  by (simp_all add: pool_node_def fun_eq_iff)

lemma assign_link_simps [simp]:
  "length (node_pool (assign_link k p s)) = length (node_pool s)"
  "pool_used (assign_link k p s) = pool_used s"
  "trie_map (trie (assign_link k p s)) = trie_map (trie s)"
  "n_entries (trie (assign_link k p s)) = n_entries (trie s)"
  "max_prefixlen (trie (assign_link k p s)) = max_prefixlen (trie s)"
  "data_size (trie (assign_link k p s)) = data_size (trie s)"
  by (simp_all add: assign_link_def split: link.splits)

fun link_ok :: "lpm_state \<Rightarrow> link \<Rightarrow> bool" where
  "link_ok s Root_link = True"
| "link_ok s (Child_link a b) = (a < length (node_pool s))"

lemma same_key_assign: "link_ok s k \<Longrightarrow> same_key (pool_node (assign_link k p s) a) (pool_node s a)"
  by (cases k) (auto simp: assign_link_def)

text \<open>The assignment through the link at a path replaces the subtree there.\<close>

lemma link_at_outside:
  assumes "valid t (b # p)" and "distinct (nodes t)"
  shows "\<exists>c d. link_at k t (b # p) = Child_link c d \<and> c \<in> set (nodes t) - set (nodes (sub t (b # p)))"
  using assms
proof (induction p arbitrary: t b k)
  case Nil
  then obtain a l r where t: "t = Nd a l r" by (cases t) auto
  then show ?case using Nil by (cases b) auto
next
  case (Cons b' p)
  then obtain a l r where t: "t = Nd a l r" by (cases t) auto
  then show ?case using Cons.IH[of "son b l r" b' "Child_link a b"] Cons.prems by (cases b) auto
qed

lemma rep_plug_child:
  assumes "rep h q t" and "valid t (b # p)" and "distinct (nodes t)"
    and "link_at k t (b # p) = Child_link c d"
    and "h' = h(c := (h c)\<lparr>child := (child (h c))(d := root_ptr u)\<rparr>)"
    and "rep h' (root_ptr u) u"
  shows "rep h' q (plug t (b # p) u)"
  using assms
proof (induction p arbitrary: t b q k)
  case Nil
  then obtain a l r where t: "t = Nd a l r" by (cases t) auto
  then have c: "c = a" "d = b" using Nil by auto
  have "rep h' p l = rep h p l" "rep h' p r = rep h p r" for p
    using Nil t c by (auto intro!: rep_cong)
  then show ?case using Nil t c by (cases b) auto
next
  case (Cons b' p)
  then obtain a l r where t: "t = Nd a l r" by (cases t) auto
  have *: "rep h (child (h a) b) (son b l r)" "valid (son b l r) (b' # p)" "distinct (nodes (son b l r))"
      "link_at (Child_link a b) (son b l r) (b' # p) = Child_link c d"
    using Cons.prems(1-4) t by (cases b; simp)+
  note IH = Cons.IH[OF * Cons.prems(5,6)]
  have "c \<in> set (nodes (son b l r))" using link_at_outside[OF *(2,3), of "Child_link a b"] *(4) by auto
  then have "c \<noteq> a" "c \<notin> set (nodes (son (\<not> b) l r))" using Cons.prems(3) t by (cases b; auto)+
  then have "h' a = h a" "rep h' p (son (\<not> b) l r) = rep h p (son (\<not> b) l r)" for p
    using Cons.prems(5) by (auto intro!: rep_cong)
  then show ?case using IH Cons.prems(1) t by (cases b) auto
qed

lemma rep_plug:
  assumes "rep (pool_node s) (root (trie s)) t" and "valid t p" and "distinct (nodes t)"
    and "\<forall>a \<in> set (nodes t). a < length (node_pool s)"
    and u: "\<And>h. (\<And>a. a \<notin> set (nodes t) - set (nodes (sub t p)) \<Longrightarrow> h a = pool_node s a) \<Longrightarrow>
               rep h (root_ptr u) u"
  defines "s' \<equiv> assign_link (link_at Root_link t p) (root_ptr u) s"
  shows "rep (pool_node s') (root (trie s')) (plug t p u)"
    and "\<forall>a. a \<notin> set (nodes t) - set (nodes (sub t p)) \<longrightarrow> pool_node s' a = pool_node s a"
    and "link_ok s (link_at Root_link t p)"
proof -
  have *: "rep (pool_node s') (root (trie s')) (plug t p u) \<and>
    (\<forall>a. a \<notin> set (nodes t) - set (nodes (sub t p)) \<longrightarrow> pool_node s' a = pool_node s a) \<and>
    link_ok s (link_at Root_link t p)"
  proof (cases p)
    case Nil
    then show ?thesis using assms(1) u[of "pool_node s"] by (simp add: s'_def assign_link_def)
  next
    case (Cons b q)
    obtain c d where cd: "link_at Root_link t p = Child_link c d"
        and c: "c \<in> set (nodes t) - set (nodes (sub t p))"
      using link_at_outside[of t b q Root_link] assms(2,3) Cons by auto
    then have lt: "c < length (node_pool s)" using assms(4) by simp
    let ?h = "(pool_node s)(c := (pool_node s c)\<lparr>child := (child (pool_node s c))(d := root_ptr u)\<rparr>)"
    have h: "pool_node s' = ?h" "root (trie s') = root (trie s)"
      using cd lt by (simp_all add: s'_def assign_link_def)
    from c have "rep ?h (root_ptr u) u" by (intro u) auto
    then show ?thesis using rep_plug_child[of "pool_node s" "root (trie s)" t b q Root_link c d ?h u]
        assms cd Cons h c lt by auto
  qed
  then show "rep (pool_node s') (root (trie s')) (plug t p u)"
    and "\<forall>a. a \<notin> set (nodes t) - set (nodes (sub t p)) \<longrightarrow> pool_node s' a = pool_node s a"
    and "link_ok s (link_at Root_link t p)" by simp_all
qed

section \<open>The walk of update and delete\<close>

fun path :: "heap \<Rightarrow> bool list \<Rightarrow> ltree \<Rightarrow> bool list" where
  "path h k Lf = []"
| "path h k (Nd a l r) = (if strict_prefix (nbits (h a)) k
     then k ! unat (prefixlen (h a)) # path h k (son (k ! unat (prefixlen (h a))) l r) else [])"

fun prev_at :: "link \<Rightarrow> link \<Rightarrow> ltree \<Rightarrow> bool list \<Rightarrow> link" where
  "prev_at k prev t [] = prev"
| "prev_at k prev Lf (b # p) = prev"
| "prev_at k prev (Nd a l r) (b # p) = prev_at (Child_link a b) k (son b l r) p"

fun parent_at :: "node_ptr \<Rightarrow> ltree \<Rightarrow> bool list \<Rightarrow> node_ptr" where
  "parent_at q t [] = q"
| "parent_at q Lf (b # p) = q"
| "parent_at q (Nd a l r) (b # p) = parent_at (Some a) (son b l r) p"

lemma prev_at_snoc: "valid t (p @ [b]) \<Longrightarrow> prev_at k prev t (p @ [b]) = link_at k t p"
  by (induction k t p arbitrary: prev rule: link_at.induct) (auto elim: valid.elims)

lemma parent_at_snoc: "valid t (p @ [b]) \<Longrightarrow> parent_at q t (p @ [b]) = root_ptr (sub t p)"
  by (induction t p arbitrary: q rule: sub.induct) (auto elim: valid.elims)

lemma valid_path [simp]: "valid t (path h k t)"
  by (induction h k t rule: path.induct) auto

lemma prefix_path: "twf h pre t \<Longrightarrow> prefix pre k \<Longrightarrow> prefix (pre_at h pre t (path h k t)) k"
proof (induction h k t arbitrary: pre rule: path.induct)
  case (2 h k a l r)
  let ?n = "nbits (h a)" and ?b = "k ! unat (prefixlen (h a))"
  show ?case
  proof (cases "strict_prefix ?n k")
    case True
    then have "prefix (?n @ [?b]) k"
      by (metis append_one_prefix length_nbits prefix_length_less strict_prefix_def)
    moreover have "twf h (?n @ [?b]) (son ?b l r)" using "2.prems"(1) by (cases ?b) auto
    ultimately show ?thesis using "2.IH"[OF True] True by simp
  qed (use 2 in simp)
qed simp

text \<open>The node at the end of the path either has the key's prefix or is not a prefix of it.\<close>

lemma path_end: "sub t (path h k t) = Nd a l r \<Longrightarrow> \<not> strict_prefix (nbits (h a)) k"
  by (induction h k t rule: path.induct) (auto split: if_splits)

lemma trie_walk_step:
  assumes "unat (data_size (trie s)) = 4" and "key_ok key" and "deref_link s slot = Some a"
    and "unat (prefixlen (pool_node s a)) \<le> 32"
  shows "trie_walk s key slot prev parent m0 =
    (let n = pool_node s a; m = match_len n key
     in if strict_prefix (nbits n) (kbits key)
        then trie_walk s key (Child_link a (kbits key ! unat (prefixlen n))) slot (Some a) m
        else Some \<lparr>w_link = slot, w_prev = prev, w_parent = parent, w_node = Some a, w_match = m\<rparr>)"
proof -
  let ?n = "pool_node s a"
  have c: "strict_prefix (nbits ?n) (kbits key) \<longleftrightarrow>
        match_len ?n key = unat (prefixlen ?n) \<and> prefixlen ?n \<noteq> key_prefixlen key"
    using match_len_full(1)[OF assms(4,2)] strict_prefix_nbits[of ?n key]
    by (auto simp: strict_prefix_def)
  have b: "kbits key ! unat (prefixlen ?n) = extract_bit (key_data key) (unat (prefixlen ?n))"
    if "strict_prefix (nbits ?n) (kbits key)"
    using prefix_length_less[OF that] by (simp add: kbits_def)
  show ?thesis using assms(3) c b by (subst trie_walk.simps) (auto simp: Let_def node_match_len[OF assms(1)])
qed

lemma trie_walk_path:
  assumes "unat (data_size (trie s)) = 4" and "key_ok key"
    and "deref_link s slot = root_ptr t" and "rep (pool_node s) (root_ptr t) t"
    and "twf (pool_node s) pre t"
  defines "p \<equiv> path (pool_node s) (kbits key) t"
  shows "\<exists>w. trie_walk s key slot prev parent m0 = Some w \<and> w_link w = link_at slot t p \<and>
    w_prev w = prev_at slot prev t p \<and> w_parent w = parent_at parent t p \<and>
    w_node w = root_ptr (sub t p) \<and>
    (\<forall>a. w_node w = Some a \<longrightarrow> w_match w = match_len (pool_node s a) key)"
  using assms(3-5) unfolding p_def
proof (induction t arbitrary: slot prev parent m0 pre)
  case Lf
  then show ?case by (subst trie_walk.simps) simp
next
  case (Nd a l r)
  let ?n = "pool_node s a" and ?k = "kbits key"
  let ?b = "?k ! unat (prefixlen ?n)"
  have step: "trie_walk s key slot prev parent m0 =
    (let n = pool_node s a; m = match_len n key
     in if strict_prefix (nbits n) (kbits key)
        then trie_walk s key (Child_link a (kbits key ! unat (prefixlen n))) slot (Some a) m
        else Some \<lparr>w_link = slot, w_prev = prev, w_parent = parent, w_node = Some a, w_match = m\<rparr>)"
    using Nd.prems by (intro trie_walk_step[OF assms(1,2)]) simp_all
  show ?case
  proof (cases "strict_prefix (nbits ?n) ?k")
    case True
    have r: "rep (pool_node s) (child ?n ?b) (son ?b l r)" "twf (pool_node s) (nbits ?n @ [?b]) (son ?b l r)"
      using Nd.prems by (cases ?b; simp)+
    then have d: "deref_link s (Child_link a ?b) = root_ptr (son ?b l r)"
      using rep_root_ptr by (auto simp: deref_link_def)
    have "rep (pool_node s) (root_ptr (son ?b l r)) (son ?b l r)" using r rep_root_ptr by metis
    then show ?thesis using Nd.IH(1)[of "Child_link a ?b"] Nd.IH(2)[of "Child_link a ?b"] d r step True
      by (cases ?b) (simp_all add: Let_def)
  next
    case False
    then show ?thesis using step by (simp add: Let_def)
  qed
qed

section \<open>The walk of lookup\<close>

text \<open>The value of the longest prefix of \<open>k\<close> that a map stores.\<close>

definition lpm_best :: "(bool list \<Rightarrow> 'v option) \<Rightarrow> bool list \<Rightarrow> 'v option" where
  "lpm_best M k = (case filter (\<lambda>n. M (take n k) \<noteq> None) (rev [0..<Suc (length k)]) of
     [] \<Rightarrow> None | n # _ \<Rightarrow> M (take n k))"

lemma lpm_best_None: "(\<And>p. prefix p k \<Longrightarrow> M p = None) \<Longrightarrow> lpm_best M k = None"
proof -
  assume "\<And>p. prefix p k \<Longrightarrow> M p = None"
  then have "filter (\<lambda>n. M (take n k) \<noteq> None) (rev [0..<Suc (length k)]) = []"
    by (simp add: filter_empty_conv take_is_prefix)
  then show ?thesis by (simp add: lpm_best_def)
qed

lemma filter_hd_max:
  assumes "n < m" and "P n" and "\<And>i. n < i \<Longrightarrow> i < m \<Longrightarrow> \<not> P i"
  shows "\<exists>rest. filter P (rev [0..<m]) = n # rest"
  using assms
proof (induction m)
  case (Suc m)
  show ?case
  proof (cases "n = m")
    case False
    then have "\<not> P m" "\<exists>rest. filter P (rev [0..<m]) = n # rest" using Suc by auto
    then show ?thesis by simp
  qed (use Suc.prems in simp)
qed simp

lemma lpm_best_Some:
  assumes "prefix p k" and "M p = Some v" and "\<And>q. prefix q k \<Longrightarrow> length p < length q \<Longrightarrow> M q = None"
  shows "lpm_best M k = Some v"
proof -
  have p: "take (length p) k = p" using assms(1) by (auto simp: prefix_def)
  have "length p < Suc (length k)" using prefix_length_le[OF assms(1)] by simp
  moreover have "\<not> M (take i k) \<noteq> None" if "length p < i" "i < Suc (length k)" for i
    using that assms(3)[of "take i k"] by (simp add: take_is_prefix)
  ultimately obtain rest where
      "filter (\<lambda>n. M (take n k) \<noteq> None) (rev [0..<Suc (length k)]) = length p # rest"
    using filter_hd_max[of "length p" "Suc (length k)" "\<lambda>n. M (take n k) \<noteq> None"] p assms(2)
    by auto
  then show ?thesis using p assms(2) by (simp add: lpm_best_def)
qed

text \<open>What the lookup walk returns, over the map of the tree it walks.\<close>

definition found_best :: "heap \<Rightarrow> ltree \<Rightarrow> bool list \<Rightarrow> node_ptr \<Rightarrow> node_ptr \<Rightarrow> bool" where
  "found_best h t k found res \<longleftrightarrow>
     (res = found \<and> (\<forall>p. prefix p k \<longrightarrow> tmap h t p = None)) \<or>
     (\<exists>a. res = Some a \<and> a \<in> set (nodes t) \<and> prefix (nbits (h a)) k \<and>
          tmap h t (nbits (h a)) = Some (node_value (h a)) \<and>
          (\<forall>p. prefix p k \<longrightarrow> unat (prefixlen (h a)) < length p \<longrightarrow> tmap h t p = None))"

lemma tmap_short:
  assumes "twf h pre t" and "length p < length pre" shows "tmap h t p = None"
  using assms(2) by (intro tmap_prefix[OF assms(1)]) (auto dest: prefix_length_le)

lemma tmap_below:
  assumes "twf h pre (Nd a l r)" and "prefix p k" and "unat (prefixlen (h a)) < length p"
    and "prefix (nbits (h a)) k"
  shows "tmap h (Nd a l r) p = tmap h (son (k ! unat (prefixlen (h a))) l r) p"
proof -
  let ?n = "nbits (h a)" and ?b = "k ! unat (prefixlen (h a))"
  have "prefix ?n p" using assms(2-4) prefix_length_prefix[of ?n k p] by simp
  then have "prefix (?n @ [p ! length ?n]) p" using assms(3) append_one_prefix by fastforce
  moreover have "p ! length ?n = ?b" using assms(2,3) by (auto simp: prefix_def nth_append)
  ultimately have "prefix (?n @ [?b]) p" by simp
  then show ?thesis by (rule tmap_son[OF assms(1)])
qed

lemma found_best_stop:
  assumes "twf h pre (Nd a l r)" and "\<not> prefix (nbits (h a)) k"
  shows "found_best h (Nd a l r) k found found"
proof -
  have "tmap h (Nd a l r) p = None" if "prefix p k" for p
  proof -
    have "\<not> prefix (nbits (h a)) p" using that assms(2) prefix_order.trans by blast
    moreover have "twf h (nbits (h a)) (Nd a l r)" using assms(1) by simp
    ultimately show ?thesis by (intro tmap_prefix)
  qed
  then show ?thesis by (simp add: found_best_def)
qed

lemma found_best_full:
  assumes "twf h pre (Nd a l r)" and "nbits (h a) = k" and "\<not> is_im (h a)"
  shows "found_best h (Nd a l r) k found (Some a)"
  using assms by (auto simp: found_best_def dest: prefix_length_le)

lemma found_best_go:
  assumes wf: "twf h pre (Nd a l r)" and pk: "prefix (nbits (h a)) k"
    and u: "b = k ! unat (prefixlen (h a)) \<or> unat (prefixlen (h a)) = length k"
    and IH: "found_best h (son b l r) k (if \<not> is_im (h a) then Some a else found) res"
  shows "found_best h (Nd a l r) k found res"
proof -
  let ?n = "nbits (h a)" and ?t = "Nd a l r"
  have wl: "twf h (?n @ [False]) l" "twf h (?n @ [True]) r" using wf by simp_all
  have sw: "twf h (?n @ [b]) (son b l r)" using wl by (cases b) auto
  have short: "tmap h l q = None" "tmap h r q = None" if "length q \<le> length ?n" for q
    using that by (auto intro: tmap_short[OF wl(1)] tmap_short[OF wl(2)])
  have at: "tmap h ?t ?n = (if is_im (h a) then None else Some (node_value (h a)))" by simp
  have above: "tmap h ?t p = None" if "prefix p k" "p \<noteq> ?n" "length p \<le> length ?n" for p
    using that short by (simp add: map_add_def)
  have below: "tmap h ?t p = tmap h (son b l r) p" if "prefix p k" "length ?n < length p" for p
    using that u tmap_below[OF wf that(1) _ pk] prefix_length_le[OF that(1)] by auto
  have upto: "p = ?n \<or> (p \<noteq> ?n \<and> length p \<le> length ?n) \<or> length ?n < length p" if "prefix p k" for p
    by auto
  show ?thesis
  proof (cases "\<forall>p. prefix p k \<longrightarrow> tmap h (son b l r) p = None")
    case True
    then have none: "tmap h ?t p = None" if "prefix p k" "p \<noteq> ?n" for p
      using that above below upto by metis
    from True have res: "res = (if \<not> is_im (h a) then Some a else found)"
      using IH by (auto simp: found_best_def)
    show ?thesis
    proof (cases "is_im (h a)")
      case True
      then have "tmap h ?t p = None" if "prefix p k" for p using that none at by metis
      then show ?thesis using res True by (simp add: found_best_def)
    next
      case False
      then show ?thesis using none at res pk
        unfolding found_best_def by (metis length_nbits list.set_intros(1) nat_less_le nodes.simps(2))
    qed
  next
    case False
    then obtain c where c: "res = Some c" "c \<in> set (nodes (son b l r))" "prefix (nbits (h c)) k"
        "tmap h (son b l r) (nbits (h c)) = Some (node_value (h c))"
        "\<And>p. prefix p k \<Longrightarrow> unat (prefixlen (h c)) < length p \<Longrightarrow> tmap h (son b l r) p = None"
      using IH by (auto simp: found_best_def)
    have "length ?n < length (nbits (h c))"
      using c(4) tmap_short[OF sw, of "nbits (h c)"] by (cases "length ?n < length (nbits (h c))") auto
    then have "tmap h ?t (nbits (h c)) = Some (node_value (h c))"
        "\<And>p. prefix p k \<Longrightarrow> unat (prefixlen (h c)) < length p \<Longrightarrow> tmap h ?t p = None"
      using c below by auto
    moreover have "c \<in> set (nodes ?t)" using c(2) by (cases b) auto
    ultimately show ?thesis using c(1,3) by (auto simp: found_best_def)
  qed
qed

lemma lookup_walk_best:
  assumes "unat (data_size (trie s)) = 4" and "unat (max_prefixlen (trie s)) = 32" and "key_ok key"
    and "rep (pool_node s) q t" and "twf (pool_node s) pre t"
  shows "\<exists>res. lookup_walk s key q found = Some res \<and> found_best (pool_node s) t (kbits key) found res"
  using assms(4,5)
proof (induction t arbitrary: q pre found)
  case Lf
  then show ?case by (subst lookup_walk.simps) (simp add: found_best_def)
next
  case (Nd a l r)
  let ?n = "pool_node s a" and ?k = "kbits key"
  let ?b = "extract_bit (key_data key) (unat (prefixlen ?n))"
  have n32: "unat (prefixlen ?n) \<le> 32" using Nd.prems by simp
  note m = match_len_full[OF n32 assms(3)] match_len_props(1,2)[OF n32 assms(3)]
  have walk: "lookup_walk s key q found =
     (if match_len ?n key = 32 then Some (Some a)
      else if match_len ?n key < unat (prefixlen ?n) then Some found
      else lookup_walk s key (child ?n ?b) (if \<not> is_im ?n then Some a else found))"
    using Nd.prems(1) assms(2) by (subst lookup_walk.simps) (simp add: Let_def node_match_len[OF assms(1)])
  consider (full) "match_len ?n key = 32" | (stop) "match_len ?n key < unat (prefixlen ?n)"
    | (go) "match_len ?n key \<noteq> 32" "match_len ?n key = unat (prefixlen ?n)"
    using m(3) by linarith
  then show ?case
  proof cases
    case full
    then have "unat (prefixlen ?n) = 32" "unat (key_prefixlen key) = 32"
      using m(3,4) n32 assms(3) by (simp_all add: key_ok_def)
    then have "nbits ?n = ?k" "\<not> is_im ?n"
      using full m(1,2) wf_im_short[OF Nd.prems(2)] by auto
    then show ?thesis using walk full found_best_full[OF Nd.prems(2)] by auto
  next
    case stop
    then have "\<not> prefix (nbits ?n) ?k" using m(1) by auto
    then show ?thesis using walk stop found_best_stop[OF Nd.prems(2)] n32 by auto
  next
    case go
    have pk: "prefix (nbits ?n) ?k" using go m(1) by simp
    have u: "?b = ?k ! unat (prefixlen ?n) \<or> unat (prefixlen ?n) = length ?k"
      using prefix_length_le[OF pk] by (auto simp: kbits_def)
    have rt: "rep (pool_node s) (child ?n ?b) (son ?b l r)" "twf (pool_node s) (nbits ?n @ [?b]) (son ?b l r)"
      using Nd.prems by (cases ?b; simp)+
    have "\<exists>res. lookup_walk s key (child ?n ?b) f = Some res \<and> found_best (pool_node s) (son ?b l r) ?k f res" for f
      using Nd.IH rt by (cases ?b) simp_all
    then obtain res where "lookup_walk s key q found = Some res"
        "found_best (pool_node s) (son ?b l r) ?k (if \<not> is_im ?n then Some a else found) res"
      using walk go by fastforce
    then show ?thesis using found_best_go[OF Nd.prems(2) pk u] by blast
  qed
qed

lemma found_best_lpm:
  assumes "found_best h t k None res"
  shows "lpm_best (tmap h t) k = map_option (\<lambda>a. node_value (h a)) res"
  using assms unfolding found_best_def
  by (auto intro!: lpm_best_None lpm_best_Some[of "nbits (h a)" for a])

end
