(* ===== verification/Lpm_Map.thy ===== *)
theory Lpm_Map
  imports Lpm_Walk
begin

text \<open>
  The invariant of the trie and its node pool and the refinement of a map from bit strings
  to values: every operation of \<open>Lpm_Trie\<close> ends, keeps the invariant, returns the code its
  branches promise and acts on the abstract map as insertion, deletion or longest-prefix
  lookup.
\<close>

section \<open>Invariant\<close>

definition pool_is :: "lpm_state \<Rightarrow> nat set \<Rightarrow> bool" where
  "pool_is s U \<longleftrightarrow> length (node_pool s) = LPM_POOL_SIZE \<and> length (pool_used s) = LPM_POOL_SIZE \<and>
     (\<forall>a < LPM_POOL_SIZE. pool_used s ! a \<longleftrightarrow> a \<in> U) \<and>
     unat (max_prefixlen (trie s)) = 32 \<and> unat (data_size (trie s)) = LPM_BPF_DATA_SIZE"

definition slots_ok :: "lpm_state \<Rightarrow> ltree \<Rightarrow> bool" where
  "slots_ok s t \<longleftrightarrow> distinct (nodes t) \<and>
     (\<forall>a \<in> set (nodes t). a < LPM_POOL_SIZE \<and> length (data (pool_node s a)) = LPM_SLOT_DATA)"

definition core :: "lpm_state \<Rightarrow> ltree \<Rightarrow> nat set \<Rightarrow> bool" where
  "core s t U \<longleftrightarrow> pool_is s U \<and> slots_ok s t \<and> rep (pool_node s) (root (trie s)) t \<and>
     twf (pool_node s) [] t"

definition counted :: "lpm_state \<Rightarrow> nat \<Rightarrow> bool" where
  "counted s n \<longleftrightarrow> unat (n_entries (trie s)) = n \<and> n \<le> unat (max_entries (trie_map (trie s)))"

definition lpm_tree :: "lpm_state \<Rightarrow> ltree \<Rightarrow> bool" where
  "lpm_tree s t \<longleftrightarrow> core s t (set (nodes t)) \<and> counted s (reals (pool_node s) t)"

text \<open>A state represents a map when its pool holds a tree of that map and nothing else.\<close>

definition lpm_rep :: "lpm_state \<Rightarrow> (bool list \<rightharpoonup> u8 list) \<Rightarrow> bool" where
  "lpm_rep s M \<longleftrightarrow> (\<exists>t. lpm_tree s t \<and> M = tmap (pool_node s) t)"

section \<open>Replacing a subtree\<close>

lemma nodes_plug:
  assumes "valid t p" and "distinct (nodes t)" and "distinct (nodes u)"
    and "set (nodes u) \<inter> (set (nodes t) - set (nodes (sub t p))) = {}"
  shows "set (nodes (plug t p u)) = set (nodes t) - set (nodes (sub t p)) \<union> set (nodes u)"
    and "distinct (nodes (plug t p u))"
proof -
  let ?T = "mset (nodes t)" and ?S = "mset (nodes (sub t p))" and ?P = "mset (nodes (plug t p u))"
  have eq: "?P + ?S = ?T + mset (nodes u)" by (rule mset_plug[OF assms(1)])
  have sub: "?S \<subseteq># ?T"
    using assms(2) distinct_sub[OF assms(2)] set_sub[of t p]
    by (auto simp: subseteq_mset_def distinct_count_atmost_1 count_mset_0_iff split: if_splits)
  have P: "?P = ?T - ?S + mset (nodes u)"
    using eq sub by (metis add.commute add_diff_cancel_right' subset_mset.diff_add_assoc2)
  have TS: "?T - ?S = mset_set (set (nodes t) - set (nodes (sub t p)))"
    using assms(2) distinct_sub[OF assms(2)] set_sub[of t p]
    by (simp add: mset_set_Diff flip: mset_set_set)
  have Pset: "?P = mset_set (set (nodes t) - set (nodes (sub t p)) \<union> set (nodes u))"
    using P TS assms(3,4) by (simp add: mset_set_Union Int_commute flip: mset_set_set)
  from Pset show "set (nodes (plug t p u)) = set (nodes t) - set (nodes (sub t p)) \<union> set (nodes u)"
    by (metis List.finite_set finite_Diff finite_Un finite_set_mset_mset_set set_mset_mset)
  show "distinct (nodes (plug t p u))"
    using Pset by (metis List.finite_set finite_Diff finite_Un mset_eq_imp_distinct_iff sorted_list_of_multiset_mset distinct_sorted_list_of_set mset_sorted_list_of_multiset sorted_list_of_mset_set)
qed

lemma core_assign:
  assumes c: "core s t U" and p: "valid t p"
    and u: "rep (pool_node s) (root_ptr u) u" "slots_ok s u"
      "set (nodes u) \<inter> (set (nodes t) - set (nodes (sub t p))) = {}"
      "twf (pool_node s) (pre_at (pool_node s) [] t p) u"
      "u = Lf \<Longrightarrow> p \<noteq> [] \<Longrightarrow> \<not> is_im (pool_node s (the (root_ptr (sub t (butlast p)))))"
    and k: "prefix (pre_at (pool_node s) [] t p) k"
      "tmap (pool_node s) u = (tmap (pool_node s) (sub t p))(k := x)"
  defines "s' \<equiv> assign_link (link_at Root_link t p) (root_ptr u) s"
  shows "core s' (plug t p u) U" and "tmap (pool_node s') (plug t p u) = (tmap (pool_node s) t)(k := x)"
    and "reals (pool_node s') (plug t p u) + reals (pool_node s) (sub t p) =
         reals (pool_node s) t + reals (pool_node s) u"
    and "set (nodes (plug t p u)) = set (nodes t) - set (nodes (sub t p)) \<union> set (nodes u)"
proof -
  have d: "distinct (nodes t)" "distinct (nodes u)" using c u(2) by (simp_all add: core_def slots_ok_def)
  have bound: "\<forall>a \<in> set (nodes t). a < length (node_pool s)"
    using c by (simp add: core_def slots_ok_def pool_is_def)
  have rt: "rep (pool_node s) (root (trie s)) t" "twf (pool_node s) [] t" using c by (simp_all add: core_def)
  have frame: "rep h (root_ptr u) u"
    if "\<And>a. a \<notin> set (nodes t) - set (nodes (sub t p)) \<Longrightarrow> h a = pool_node s a" for h
  proof -
    have "rep h (root_ptr u) u = rep (pool_node s) (root_ptr u) u"
    proof (rule rep_cong)
      fix a assume "a \<in> set (nodes u)"
      then have "a \<notin> set (nodes t) - set (nodes (sub t p))" using u(3) by blast
      then show "child (h a) = child (pool_node s a)" using that by simp
    qed
    then show ?thesis using u(1) by simp
  qed
  note r = rep_plug[OF rt(1) p d(1) bound frame, folded s'_def]
  have same: "same_key (pool_node s' a) (pool_node s a)" for a
    unfolding s'_def by (rule same_key_assign[OF r(3)])
  have twf': "twf (pool_node s') pre v = twf (pool_node s) pre v" for pre v by (rule twf_cong[OF same])
  have tmap': "tmap (pool_node s') v = tmap (pool_node s) v" for v by (rule tmap_cong[OF same])
  have reals': "reals (pool_node s') v = reals (pool_node s) v" for v by (rule reals_cong[OF same])
  note n = nodes_plug[OF p d u(3)]
  show "set (nodes (plug t p u)) = set (nodes t) - set (nodes (sub t p)) \<union> set (nodes u)" by (rule n(1))
  have "data (pool_node s' a) = data (pool_node s a)" for a using same[of a] by (simp add: same_key_def)
  moreover have "a < LPM_POOL_SIZE \<and> length (data (pool_node s a)) = LPM_SLOT_DATA"
    if "a \<in> set (nodes (plug t p u))" for a
    using that u(2) c unfolding n(1) core_def slots_ok_def by blast
  ultimately have "slots_ok s' (plug t p u)"
    using n(2) unfolding slots_ok_def by simp
  moreover have "twf (pool_node s') [] (plug t p u)"
  proof (rule twf_plug[OF rt(2) p _ same d(1)])
    show "twf (pool_node s') (pre_at (pool_node s) [] t p) u" using u(4) by (simp only: twf')
  qed (rule u(5))
  moreover have "pool_is s' U" using c by (simp add: core_def pool_is_def s'_def)
  ultimately show "core s' (plug t p u) U" using r(1) by (simp add: core_def)
  show "tmap (pool_node s') (plug t p u) = (tmap (pool_node s) t)(k := x)"
    by (rule tmap_plug[OF rt(2) p k(1) same d(1)]) (simp only: tmap' k(2))
  show "reals (pool_node s') (plug t p u) + reals (pool_node s) (sub t p) =
         reals (pool_node s) t + reals (pool_node s) u"
    using reals_plug[OF p, of "pool_node s" u] by (simp only: reals')
qed

lemma core_set_node:
  assumes "core s t U" and "a \<notin> set (nodes t)" and "a < LPM_POOL_SIZE"
  shows "core (set_node a n s) t U" and "tmap (pool_node (set_node a n s)) t = tmap (pool_node s) t"
    and "reals (pool_node (set_node a n s)) t = reals (pool_node s) t"
proof -
  have h: "pool_node (set_node a n s) = (pool_node s)(a := n)"
    using assms(1,3) by (simp add: core_def pool_is_def)
  have same: "same_key (pool_node (set_node a n s) b) (pool_node s b)" if "b \<in> set (nodes t)" for b
    using that assms(2) h by auto
  show "tmap (pool_node (set_node a n s)) t = tmap (pool_node s) t"
    "reals (pool_node (set_node a n s)) t = reals (pool_node s) t"
    by (rule tmap_cong[OF same] reals_cong[OF same]; assumption)+
  have "twf (pool_node (set_node a n s)) [] t = twf (pool_node s) [] t"
    by (rule twf_cong[OF same])
  moreover have "rep (pool_node (set_node a n s)) q t = rep (pool_node s) q t" for q
    using assms(2) h by (intro rep_cong) auto
  moreover have "slots_ok (set_node a n s) t"
    using assms by (auto simp: core_def slots_ok_def pool_is_def)
  ultimately show "core (set_node a n s) t U"
    using assms(1) by (simp add: core_def pool_is_def)
qed

section \<open>The pool\<close>

lemma find_unused_correct:
  "case find_unused us i of
     None \<Rightarrow> \<forall>j < length us. us ! j
   | Some a \<Rightarrow> i \<le> a \<and> a - i < length us \<and> \<not> us ! (a - i)"
proof (induction us i rule: find_unused.induct)
  case (2 u us i)
  show ?case
  proof (cases "u \<and> find_unused us (Suc i) \<noteq> None")
    case True
    then obtain a where a: "find_unused us (Suc i) = Some a" by auto
    with True 2 have "Suc i \<le> a" "a - Suc i < length us" "\<not> us ! (a - Suc i)" by auto
    moreover from this have "a - i = Suc (a - Suc i)" by simp
    ultimately show ?thesis using a True by simp
  next
    case False
    then show ?thesis using 2 by (auto simp: nth_Cons')
  qed
qed simp

lemma lpm_memcpy_length [simp]: "length (lpm_memcpy d off s n) = length d"
proof -
  have "length (fold (\<lambda>i d. d[off + i := s ! i]) xs d) = length d" for xs
    by (induction xs arbitrary: d) simp_all
  then show ?thesis by (simp add: lpm_memcpy_def)
qed

lemma nth_lpm_memcpy:
  assumes "off + n \<le> length d"
  shows "lpm_memcpy d off s n ! i = (if off \<le> i \<and> i < off + n then s ! (i - off) else d ! i)"
  using assms
proof (induction n)
  case (Suc n)
  have "lpm_memcpy d off s (Suc n) = (lpm_memcpy d off s n)[off + n := s ! n]"
    by (simp add: lpm_memcpy_def)
  then show ?case using Suc by (auto simp: nth_list_update)
qed (auto simp: lpm_memcpy_def)

lemma bits_of_copy:
  assumes "length d = LPM_SLOT_DATA" and "n \<le> 32"
  shows "bits_of n (lpm_copy_data d k) = bits_of n k"
  using assms by (intro nth_equalityI)
    (auto simp: extract_bit_def lpm_copy_data_def nth_lpm_memcpy less_mult_imp_div_less)

lemma node_value_copies:
  assumes "length d = LPM_SLOT_DATA" and "length v = LPM_BPF_VALUE_SIZE"
  shows "take LPM_BPF_VALUE_SIZE (drop LPM_BPF_DATA_SIZE (lpm_copy_data (lpm_copy_value d v) k)) = v"
  using assms by (intro nth_equalityI) (auto simp: lpm_copy_data_def lpm_copy_value_def nth_lpm_memcpy)

lemma length_copies [simp]:
  "length (lpm_copy_data d k) = length d" "length (lpm_copy_value d v) = length d"
  by (simp_all add: lpm_copy_data_def lpm_copy_value_def)

text \<open>Allocation takes a slot outside the used ones and zeroes it, or fails when there is none.\<close>

definition fresh_node :: "u8 list option \<Rightarrow> lpm_trie_node" where
  "fresh_node value = (case value of None \<Rightarrow> zero_node
     | Some v \<Rightarrow> zero_node\<lparr>data := lpm_copy_value (data zero_node) v\<rparr>)"

lemma alloc_cases:
  assumes "pool_is s U"
  obtains (full) "lpm_trie_node_alloc v s = (None, s)" "{..<LPM_POOL_SIZE} \<subseteq> U"
  | (slot) a s' where "lpm_trie_node_alloc v s = (Some a, s')" "a < LPM_POOL_SIZE" "a \<notin> U"
      "pool_is s' (insert a U)" "trie s' = trie s" "pool_node s' = (pool_node s)(a := fresh_node v)"
proof -
  note f = find_unused_correct[of "pool_used s" 0]
  have len: "length (node_pool s) = LPM_POOL_SIZE" "length (pool_used s) = LPM_POOL_SIZE"
    and used: "\<And>a. a < LPM_POOL_SIZE \<Longrightarrow> pool_used s ! a \<longleftrightarrow> a \<in> U"
    using assms by (auto simp: pool_is_def)
  show ?thesis
  proof (cases "find_unused (pool_used s) 0")
    case None
    then have "lpm_trie_node_alloc v s = (None, s)"
      by (simp add: lpm_trie_node_alloc_def bpf_map_kmalloc_node_def)
    moreover have "{..<LPM_POOL_SIZE} \<subseteq> U" using f None len used by auto
    ultimately show ?thesis by (rule full)
  next
    case (Some a)
    let ?s = "(set_node a zero_node s)\<lparr>pool_used := (pool_used s)[a := True]\<rparr>"
    let ?n = "(pool_node ?s a)\<lparr>flags := 0\<rparr>"
    let ?s' = "set_node a (case v of None \<Rightarrow> ?n | Some y \<Rightarrow> ?n\<lparr>data := lpm_copy_value (data ?n) y\<rparr>) ?s"
    have a: "a < LPM_POOL_SIZE" "a \<notin> U" using f Some len used by auto
    have n: "?n = zero_node" using a(1) len by (simp add: zero_node_def)
    have "lpm_trie_node_alloc v s = (Some a, ?s')"
      using Some by (simp add: lpm_trie_node_alloc_def bpf_map_kmalloc_node_def Let_def)
    moreover have "pool_is ?s' (insert a U)"
      using assms a by (auto simp: pool_is_def nth_list_update)
    moreover have "pool_node ?s' = (pool_node s)(a := fresh_node v)"
      using a(1) len n by (auto simp: fresh_node_def split: option.splits)
    ultimately show ?thesis using a by (intro slot) simp_all
  qed
qed

lemma pool_is_kfree:
  assumes "pool_is s U" and "p = Some a" and "a < LPM_POOL_SIZE"
  shows "pool_is (kfree p s) (U - {a})"
  using assms by (auto simp: pool_is_def kfree_def nth_list_update)

lemma kfree_simps [simp]:
  "pool_node (kfree p s) = pool_node s" "trie (kfree p s) = trie s" "kfree None s = s"
  by (auto simp: kfree_def split: option.splits)

text \<open>Every intermediate node has two children, so entries outnumber intermediate nodes.\<close>

lemma nodes_le_reals:
  "twf h pre t \<Longrightarrow> t \<noteq> Lf \<Longrightarrow> Suc (length (nodes t)) \<le> 2 * reals h t"
proof (induction t arbitrary: pre)
  case (Nd a l r)
  have "length (nodes l) = 0 \<and> l = Lf \<or> Suc (length (nodes l)) \<le> 2 * reals h l"
    "length (nodes r) = 0 \<and> r = Lf \<or> Suc (length (nodes r)) \<le> 2 * reals h r"
    using Nd.prems(1) Nd.IH(1)[of "nbits (h a) @ [False]"] Nd.IH(2)[of "nbits (h a) @ [True]"]
    by (cases "l = Lf"; cases "r = Lf"; simp)+
  then show ?case using Nd.prems(1) by (cases "l = Lf"; cases "r = Lf") auto
qed simp

lemma fresh_node_simps [simp]:
  "flags (fresh_node v) = 0" "prefixlen (fresh_node v) = 0" "child (fresh_node v) = (\<lambda>_. None)"
  "length (data (fresh_node v)) = LPM_SLOT_DATA" "\<not> is_im (fresh_node v)"
  by (simp_all add: fresh_node_def zero_node_def is_im_def split: option.splits)

section \<open>Update\<close>

lemma core_n_entries [simp]: "core (s\<lparr>trie := (trie s)\<lparr>n_entries := x\<rparr>\<rparr>) t U = core s t U"
  by (simp add: core_def pool_is_def slots_ok_def)

lemma counted_Suc:
  assumes "counted s n" and "n \<noteq> unat (max_entries (trie_map (trie s)))"
  shows "counted (s\<lparr>trie := (trie s)\<lparr>n_entries := n_entries (trie s) + 1\<rparr>\<rparr>) (Suc n)"
proof -
  have "n < unat (max_entries (trie_map (trie s)))" using assms by (simp add: counted_def)
  moreover have "unat (max_entries (trie_map (trie s))) < 2 ^ LENGTH(32)" by (rule unsigned_less)
  ultimately have "Suc n < 2 ^ 64" by simp
  moreover have "unat (n_entries (trie s)) = n" using assms by (simp add: counted_def)
  ultimately have "unat (n_entries (trie s) + 1) = Suc n" by (simp add: unat_word_ariths)
  then show ?thesis using assms by (simp add: counted_def)
qed

lemma check_add:
  fixes s :: lpm_state and uflags :: u64
  assumes "counted s n"
  defines "ret \<equiv> if uflags = BPF_EXIST then - ENOENT
                  else if n = unat (max_entries (trie_map (trie s))) then - ENOSPC else 0"
  shows "trie_check_add_elem s uflags =
    (ret, if ret = 0 then s\<lparr>trie := (trie s)\<lparr>n_entries := n_entries (trie s) + 1\<rparr>\<rparr> else s)"
proof -
  have "n_entries (trie s) = ucast (max_entries (trie_map (trie s))) \<longleftrightarrow>
        n = unat (max_entries (trie_map (trie s)))"
    using assms(1) by (auto simp: counted_def word_unat_eq_iff)
  then show ?thesis by (simp add: trie_check_add_elem_def ret_def)
qed

lemma tmap_path:
  assumes "twf h pre t" and "prefix pre k"
  shows "tmap h t k = (case sub t (path h k t) of Lf \<Rightarrow> None
    | Nd a l r \<Rightarrow> if nbits (h a) = k \<and> \<not> is_im (h a) then Some (node_value (h a)) else None)"
  using assms
proof (induction h k t arbitrary: pre rule: path.induct)
  case (2 h k a l r)
  let ?n = "nbits (h a)" and ?b = "k ! unat (prefixlen (h a))"
  show ?case
  proof (cases "strict_prefix ?n k")
    case True
    then have p: "prefix (?n @ [?b]) k"
      by (metis append_one_prefix length_nbits prefix_length_less strict_prefix_def)
    moreover have "twf h (?n @ [?b]) (son ?b l r)" using "2.prems"(1) by (cases ?b) auto
    moreover have "tmap h (Nd a l r) k = tmap h (son ?b l r) k" by (rule tmap_son[OF "2.prems"(1) p])
    ultimately show ?thesis using "2.IH"[OF True] True by simp
  next
    case False
    have "twf h ?n (Nd a l r)" using "2.prems"(1) by simp
    then have "?n \<noteq> k \<Longrightarrow> tmap h (Nd a l r) k = None"
      using False by (intro tmap_prefix) (auto simp: strict_prefix_def)
    then show ?thesis using False by auto
  qed
qed simp

text \<open>The slot \<^verbatim>\<open>new_node\<close> as update prepares it, outside the tree.\<close>

definition ready :: "lpm_state \<Rightarrow> ltree \<Rightarrow> nat \<Rightarrow> lpm_key \<Rightarrow> u8 list \<Rightarrow> bool" where
  "ready s t new key value \<longleftrightarrow> new < LPM_POOL_SIZE \<and> new \<notin> set (nodes t) \<and>
     prefixlen (pool_node s new) = key_prefixlen key \<and> nbits (pool_node s new) = kbits key \<and>
     \<not> is_im (pool_node s new) \<and> node_value (pool_node s new) = value \<and>
     length (data (pool_node s new)) = LPM_SLOT_DATA"

lemma ready_n_entries [simp]:
  "ready (s\<lparr>trie := (trie s)\<lparr>n_entries := x\<rparr>\<rparr>) t new key value = ready s t new key value"
  by (simp add: ready_def)

lemma ready_child:
  assumes "ready s t new key value" and "pool_is s U"
  shows "ready (set_node new ((pool_node s new)\<lparr>child := c\<rparr>) s) t new key value"
  using assms same_keyD[OF same_key_child, of c "pool_node s new"] by (simp add: ready_def pool_is_def)

lemma core_sub:
  assumes "core s t U" and "valid t p"
  shows "rep (pool_node s) (root_ptr (sub t p)) (sub t p)" "slots_ok s (sub t p)"
    "twf (pool_node s) (pre_at (pool_node s) [] t p) (sub t p)"
  using assms rep_sub[of "pool_node s" "root (trie s)" t p] wf_sub[of "pool_node s" "[]" t p]
    distinct_sub[of t p] set_sub[of t p]
  by (auto simp: core_def slots_ok_def)

text \<open>The outcome of a successful update on the tree.\<close>

definition inserted :: "lpm_state \<Rightarrow> ltree \<Rightarrow> lpm_state \<Rightarrow> nat set \<Rightarrow> nat set \<Rightarrow> nat \<Rightarrow> bool list \<Rightarrow> u8 list \<Rightarrow> bool" where
  "inserted s t s' U F n k v \<longleftrightarrow> (\<exists>t'. core s' t' U \<and> set (nodes t') = U - F \<and>
     reals (pool_node s') t' = n \<and> tmap (pool_node s') t' = (tmap (pool_node s) t)(k \<mapsto> v))"

lemma insert_leaf:
  assumes c: "core s t (insert new (set (nodes t)))" and r: "ready s t new key value" and k: "key_ok key"
    and "child (pool_node s new) = (\<lambda>_. None)"
    and e: "sub t (path (pool_node s) (kbits key) t) = Lf" (is "sub t ?p = Lf")
  shows "inserted s t (assign_link (link_at Root_link t ?p) (Some new) s)
    (insert new (set (nodes t))) {} (Suc (reals (pool_node s) t)) (kbits key) value"
proof -
  let ?u = "Nd new Lf Lf" and ?h = "pool_node s"
  have wf: "twf ?h [] t" using c by (simp add: core_def)
  have pre: "prefix (pre_at ?h [] t ?p) (kbits key)" using prefix_path[OF wf] by simp
  have "rep ?h (root_ptr ?u) ?u" "slots_ok s ?u" "twf ?h (pre_at ?h [] t ?p) ?u"
      "set (nodes ?u) \<inter> (set (nodes t) - set (nodes (sub t ?p))) = {}"
    using r k assms(4) pre by (auto simp: ready_def slots_ok_def key_ok_def)
  moreover have "tmap ?h ?u = (tmap ?h (sub t ?p))(kbits key := Some value)"
    using r e by (simp add: ready_def)
  ultimately have a: "core s t (insert new (set (nodes t)))" "valid t ?p" "rep ?h (root_ptr ?u) ?u" "slots_ok s ?u"
      "set (nodes ?u) \<inter> (set (nodes t) - set (nodes (sub t ?p))) = {}" "twf ?h (pre_at ?h [] t ?p) ?u"
      "?u = Lf \<Longrightarrow> ?p \<noteq> [] \<Longrightarrow> \<not> is_im (?h (the (root_ptr (sub t (butlast ?p)))))"
      "prefix (pre_at ?h [] t ?p) (kbits key)" "tmap ?h ?u = (tmap ?h (sub t ?p))(kbits key := Some value)"
    using c pre by simp_all
  from core_assign[OF this] show ?thesis using e r
    by (intro inserted_def[THEN iffD2] exI[of _ "plug t ?p ?u"]) (auto simp: ready_def)
qed

lemma insert_replace:
  assumes c: "core s t (insert new (set (nodes t)))" and r: "ready s t new key value"
    and ch: "child (pool_node s new) = child (pool_node s a)"
    and e: "sub t (path (pool_node s) (kbits key) t) = Nd a l r" (is "sub t ?p = _")
    and n: "nbits (pool_node s a) = kbits key"
  shows "inserted s t (assign_link (link_at Root_link t ?p) (Some new) s) (insert new (set (nodes t))) {a}
    (reals (pool_node s) t + (if is_im (pool_node s a) then 1 else 0)) (kbits key) value"
proof -
  let ?u = "Nd new l r" and ?h = "pool_node s"
  have wf: "twf ?h [] t" using c by (simp add: core_def)
  have pre: "prefix (pre_at ?h [] t ?p) (kbits key)" using prefix_path[OF wf] by simp
  note sb = core_sub[OF c valid_path, of ?h "kbits key", unfolded e]
  have sub: "set (nodes (Nd a l r)) \<subseteq> set (nodes t)" using set_sub[of t ?p] e by simp
  have len: "prefixlen (?h a) = key_prefixlen key"
    using arg_cong[OF n, of length] by (simp add: word_unat_eq_iff)
  have u: "rep ?h (root_ptr ?u) ?u" "slots_ok s ?u" "twf ?h (pre_at ?h [] t ?p) ?u"
      "set (nodes ?u) \<inter> (set (nodes t) - set (nodes (sub t ?p))) = {}"
    using r ch sb n sub e len by (auto simp: ready_def slots_ok_def)
  have m: "tmap ?h ?u = (tmap ?h (sub t ?p))(kbits key := Some value)"
    using r e n by (simp add: ready_def)
  note a = core_assign[OF c valid_path u(1,2,4,3) _ pre m, simplified]
  have "a \<noteq> new" using sub r by (auto simp: ready_def)
  moreover have "a \<notin> set (nodes l)" "a \<notin> set (nodes r)" using sb(2) by (auto simp: slots_ok_def)
  ultimately show ?thesis using a e r sub
    by (intro inserted_def[THEN iffD2] exI[of _ "plug t ?p ?u"]) (auto simp: ready_def)
qed

lemma insert_above:
  assumes c: "core s t (insert new (set (nodes t)))" and r: "ready s t new key value" and k: "key_ok key"
    and ch: "child (pool_node s new) = (\<lambda>_. None)(b := Some a)"
    and e: "sub t (path (pool_node s) (kbits key) t) = Nd a l r" (is "sub t ?p = _")
    and n: "prefix (kbits key @ [b]) (nbits (pool_node s a))"
  shows "inserted s t (assign_link (link_at Root_link t ?p) (Some new) s) (insert new (set (nodes t))) {}
    (Suc (reals (pool_node s) t)) (kbits key) value"
proof -
  let ?v = "Nd a l r" and ?h = "pool_node s"
  let ?u = "if b then Nd new Lf ?v else Nd new ?v Lf"
  have wf: "twf ?h [] t" using c by (simp add: core_def)
  have pre: "prefix (pre_at ?h [] t ?p) (kbits key)" using prefix_path[OF wf] by simp
  note sb = core_sub[OF c valid_path, of ?h "kbits key", unfolded e]
  have sub: "set (nodes ?v) \<subseteq> set (nodes t)" using set_sub[of t ?p] e by simp
  have wv: "twf ?h (kbits key @ [b]) ?v" using sb(3) n by simp
  have u: "rep ?h (root_ptr ?u) ?u" "slots_ok s ?u" "twf ?h (pre_at ?h [] t ?p) ?u"
      "set (nodes ?u) \<inter> (set (nodes t) - set (nodes (sub t ?p))) = {}"
    using r ch sb sub e pre k wv by (auto simp: ready_def slots_ok_def key_ok_def)
  have "tmap ?h ?v (kbits key) = None" by (rule tmap_short[OF wv]) simp
  then have m: "tmap ?h ?u = (tmap ?h (sub t ?p))(kbits key := Some value)"
    using r e by (auto simp: ready_def)
  have "?u \<noteq> Lf" "root_ptr ?u = Some new" by simp_all
  then have a: "root_ptr ?u = Some new" "set (nodes ?u) = insert new (set (nodes ?v))"
      "reals ?h ?u = Suc (reals ?h ?v)" using r by (auto simp: ready_def)
  note a = a core_assign[OF c valid_path u(1,2,4,3) _ pre m, unfolded a e]
  show ?thesis unfolding inserted_def
    by (rule exI[of _ "plug t ?p ?u"]) (use a sub r in \<open>auto simp: ready_def\<close>)
qed

lemma common_prefix:
  assumes "prefix (q @ [b]) x" and "prefix (q @ [\<not> b]) y" and "prefix p x" and "prefix p y"
  shows "prefix p q"
proof (rule ccontr)
  assume "\<not> prefix p q"
  moreover have "prefix q x" using assms(1) by (rule append_prefixD)
  ultimately have "length q < length p"
    using assms(3) by (metis linorder_not_less prefix_length_prefix)
  then have "prefix (q @ [b]) p" "prefix (q @ [\<not> b]) p"
    using assms prefix_length_prefix[of "q @ [_]" _ p] by (metis Suc_leI length_append_singleton)+
  then have "prefix (q @ [b]) (q @ [\<not> b]) \<or> prefix (q @ [\<not> b]) (q @ [b])"
    by (rule prefix_same_cases)
  then show False by simp
qed

lemma map_add_fork:
  assumes "M q = None" and "M k = None" and "k \<noteq> q"
  shows "(M ++ [k \<mapsto> v])(q := None) = M(k \<mapsto> v)" "([k \<mapsto> v] ++ M)(q := None) = M(k \<mapsto> v)"
  using assms by (auto simp: fun_eq_iff map_add_def split: option.splits)

lemma insert_fork:
  assumes c: "core s t (insert im (insert new (set (nodes t))))" and r: "ready s t new key value" and k: "key_ok key"
    and nch: "child (pool_node s new) = (\<lambda>_. None)"
    and im: "im < LPM_POOL_SIZE" "im \<notin> set (nodes t)" "im \<noteq> new" "is_im (pool_node s im)"
      "length (data (pool_node s im)) = LPM_SLOT_DATA"
    and ich: "child (pool_node s im) b = Some new" "child (pool_node s im) (\<not> b) = Some a"
    and e: "sub t (path (pool_node s) (kbits key) t) = Nd a l r" (is "sub t ?p = _")
    and q: "prefix (nbits (pool_node s im) @ [b]) (kbits key)"
      "prefix (nbits (pool_node s im) @ [\<not> b]) (nbits (pool_node s a))"
  shows "inserted s t (assign_link (link_at Root_link t ?p) (Some im) s) (insert im (insert new (set (nodes t)))) {}
    (Suc (reals (pool_node s) t)) (kbits key) value"
proof -
  let ?v = "Nd a l r" and ?w = "Nd new Lf Lf" and ?h = "pool_node s"
  let ?u = "if b then Nd im ?v ?w else Nd im ?w ?v" and ?q = "nbits (?h im)"
  have wf: "twf ?h [] t" using c by (simp add: core_def)
  have pre: "prefix (pre_at ?h [] t ?p) (kbits key)" using prefix_path[OF wf] by simp
  note sb = core_sub[OF c valid_path, of ?h "kbits key", unfolded e]
  have sub: "set (nodes ?v) \<subseteq> set (nodes t)" using set_sub[of t ?p] e by simp
  have preq: "prefix (pre_at ?h [] t ?p) ?q"
    by (rule common_prefix[OF q pre]) (use sb(3) in simp)
  have wv: "twf ?h (?q @ [\<not> b]) ?v" using sb(3) q(2) by simp
  have ww: "twf ?h (?q @ [b]) ?w" using r k q(1) by (simp add: ready_def key_ok_def)
  have q32: "unat (prefixlen (?h im)) \<le> 32" using prefix_length_le[OF q(1)] k by (simp add: key_ok_def)
  have u: "rep ?h (root_ptr ?u) ?u" using sb(1) nch ich by (cases b) simp_all
  have u2: "slots_ok s ?u" using r sb(2) sub im by (cases b) (auto simp: ready_def slots_ok_def)
  have u3: "twf ?h (pre_at ?h [] t ?p) ?u" using preq wv ww q32 im by (cases b) simp_all
  have u4: "set (nodes ?u) \<inter> (set (nodes t) - set (nodes (sub t ?p))) = {}"
    using r sub e im by (cases b) (auto simp: ready_def)
  have vq: "tmap ?h ?v ?q = None" by (rule tmap_short[OF wv]) simp
  have vk: "tmap ?h ?v (kbits key) = None"
    using q(1) by (intro tmap_prefix[OF wv]) (auto simp: prefix_def)
  have kq: "kbits key \<noteq> ?q" using q(1) by (auto simp: prefix_def)
  have m: "tmap ?h ?u = (tmap ?h (sub t ?p))(kbits key := Some value)"
  proof -
    have "tmap ?h ?u = (if b then tmap ?h ?v ++ tmap ?h ?w else tmap ?h ?w ++ tmap ?h ?v)(?q := None)"
      using im(4) by (cases b) (simp_all only: if_True if_False tmap.simps)
    moreover have "tmap ?h ?w = [kbits key \<mapsto> value]" using r by (simp add: ready_def)
    ultimately show ?thesis unfolding e using map_add_fork[OF vq vk kq] by (cases b) (simp_all only: if_True if_False)
  qed
  have a: "root_ptr ?u = Some im" "set (nodes ?u) = insert im (insert new (set (nodes ?v)))"
      "reals ?h ?u = Suc (reals ?h ?v)" using r im by (auto simp: ready_def)
  have ne: "?u = Lf \<Longrightarrow> ?p \<noteq> [] \<Longrightarrow> \<not> is_im (?h (the (root_ptr (sub t (butlast ?p)))))" by (simp split: if_splits)
  note a = a core_assign[OF c valid_path u u2 u4 u3 ne pre m, unfolded a e]
  show ?thesis unfolding inserted_def
    by (rule exI[of _ "plug t ?p ?u"]) (use a sub r im in \<open>auto simp: ready_def\<close>)
qed

lemma path_cong: "(\<And>a. a \<in> set (nodes t) \<Longrightarrow> same_key (h' a) (h a)) \<Longrightarrow> path h' k t = path h k t"
proof (induction t)
  case (Nd a l r)
  from same_keyD[OF Nd.prems[of a]] Nd show ?case by (simp add: son_def)
qed simp

text \<open>What holds when the walk of update has ended.\<close>

definition upd_pre :: "lpm_state \<Rightarrow> ltree \<Rightarrow> nat \<Rightarrow> lpm_key \<Rightarrow> u8 list \<Rightarrow> walk_result \<Rightarrow> bool" where
  "upd_pre s t new key value w \<longleftrightarrow>
     core s t (insert new (set (nodes t))) \<and> ready s t new key value \<and> key_ok key \<and>
     child (pool_node s new) = (\<lambda>_. None) \<and> counted s (reals (pool_node s) t) \<and>
     w_link w = link_at Root_link t (path (pool_node s) (kbits key) t) \<and>
     w_node w = root_ptr (sub t (path (pool_node s) (kbits key) t)) \<and>
     (\<forall>a. w_node w = Some a \<longrightarrow> w_match w = match_len (pool_node s a) key)"

definition add_code :: "lpm_state \<Rightarrow> nat \<Rightarrow> u64 \<Rightarrow> cint" where
  "add_code s n uflags = (if uflags = BPF_EXIST then - ENOENT
     else if n = unat (max_entries (trie_map (trie s))) then - ENOSPC else 0)"

definition bump :: "lpm_state \<Rightarrow> lpm_state" where
  "bump s = s\<lparr>trie := (trie s)\<lparr>n_entries := n_entries (trie s) + 1\<rparr>\<rparr>"

lemma check_add_code:
  "counted s n \<Longrightarrow> trie_check_add_elem s uflags =
     (add_code s n uflags, if add_code s n uflags = 0 then bump s else s)"
  using check_add[of s n uflags] by (simp add: add_code_def bump_def)

lemma counted_bump: "counted s n \<Longrightarrow> add_code s n uflags = 0 \<Longrightarrow> counted (bump s) (Suc n)"
  using counted_Suc[of s n] by (simp add: add_code_def bump_def split: if_splits)

lemma bump_simps [simp]:
  "pool_node (bump s) = pool_node s" "core (bump s) t U = core s t U"
  "ready (bump s) t new key value = ready s t new key value" "node_pool (bump s) = node_pool s"
  "pool_used (bump s) = pool_used s"
  "bump s\<lparr>trie := (trie (bump s))\<lparr>n_entries := n_entries (trie (bump s)) - 1\<rparr>\<rparr> = s"
  by (simp_all add: bump_def)

text \<open>The outcomes of the locked part of update: the code of the operation, what is freed,
  and either the unchanged state or the updated tree.\<close>

definition upd_done :: "lpm_state \<Rightarrow> ltree \<Rightarrow> nat \<Rightarrow> bool list \<Rightarrow> u8 list \<Rightarrow> cint \<times> node_ptr \<times> lpm_state \<Rightarrow> bool" where
  "upd_done s t new k v = (\<lambda>(ret, free_node, s').
     if ret \<noteq> 0 then s' = s \<and> free_node = None
     else \<exists>U n. inserted s t s' U (set_option free_node) n k v \<and> counted s' n \<and>
            set_option free_node \<subseteq> {..<LPM_POOL_SIZE})"

definition upd_code :: "lpm_state \<Rightarrow> (bool list \<rightharpoonup> u8 list) \<Rightarrow> nat \<Rightarrow> u64 \<Rightarrow> bool list \<Rightarrow> cint" where
  "upd_code s M n uflags k = (if M k \<noteq> None then (if uflags = BPF_NOEXIST then - EEXIST else 0)
     else add_code s n uflags)"

lemma inserted_cong:
  "tmap (pool_node s1) t = tmap (pool_node s2) t \<Longrightarrow> inserted s1 t s' U F n k v = inserted s2 t s' U F n k v"
  by (simp add: inserted_def)

lemma counted_simps [simp]:
  "counted (assign_link k p s) n = counted s n" "counted (set_node a x s) n = counted s n"
  by (simp_all add: counted_def)

lemma upd_leaf:
  assumes pre: "upd_pre s t new key value w" and e: "sub t (path (pool_node s) (kbits key) t) = Lf"
  shows "fst (update_locked key uflags new w s) = upd_code s (tmap (pool_node s) t) (reals (pool_node s) t) uflags (kbits key)"
    and "upd_done s t new (kbits key) value (update_locked key uflags new w s)"
proof -
  let ?h = "pool_node s" and ?n = "reals (pool_node s) t"
  have cnt: "counted s ?n" and wf: "twf ?h [] t" using pre by (auto simp: upd_pre_def core_def)
  have none: "tmap ?h t (kbits key) = None" using tmap_path[OF wf, of "kbits key"] e by simp
  have u: "update_locked key uflags new w s = (let ret = add_code s ?n uflags in
      if ret \<noteq> 0 then (ret, None, s) else (0, None, assign_link (w_link w) (Some new) (bump s)))"
    using pre e by (simp add: update_locked_def upd_pre_def check_add_code[OF cnt] Let_def)
  then show "fst (update_locked key uflags new w s) = upd_code s (tmap ?h t) ?n uflags (kbits key)"
    by (simp add: upd_code_def none Let_def)
  have "inserted (bump s) t (assign_link (w_link w) (Some new) (bump s))
      (insert new (set (nodes t))) {} (Suc ?n) (kbits key) value"
    using insert_leaf[of "bump s" t new key "value"] pre e by (simp add: upd_pre_def)
  then have "inserted s t (assign_link (w_link w) (Some new) (bump s))
      (insert new (set (nodes t))) {} (Suc ?n) (kbits key) value"
    by (simp add: inserted_def)
  then show "upd_done s t new (kbits key) value (update_locked key uflags new w s)"
    using u counted_bump[OF cnt] by (auto simp: upd_done_def Let_def)
qed

lemma upd_replace:
  assumes pre: "upd_pre s t new key value w" and e: "sub t (path (pool_node s) (kbits key) t) = Nd a l r"
    and n: "nbits (pool_node s a) = kbits key"
  shows "fst (update_locked key uflags new w s) = upd_code s (tmap (pool_node s) t) (reals (pool_node s) t) uflags (kbits key)"
    and "upd_done s t new (kbits key) value (update_locked key uflags new w s)"
proof -
  let ?h = "pool_node s" and ?n = "reals (pool_node s) t" and ?im = "is_im (pool_node s a)"
  have cnt: "counted s ?n" and wf: "twf ?h [] t" and c: "core s t (insert new (set (nodes t)))"
    using pre by (auto simp: upd_pre_def core_def)
  have t: "tmap ?h t (kbits key) = (if ?im then None else Some (node_value (?h a)))"
    using tmap_path[OF wf, of "kbits key"] e n by simp
  have a: "a \<in> set (nodes t)" using set_sub[of t "path ?h (kbits key) t"] e by simp
  have rdy: "ready s t new key value" "new < LPM_POOL_SIZE" "new \<notin> set (nodes t)" "a \<noteq> new"
    using pre a by (auto simp: upd_pre_def ready_def)
  have "unat (prefixlen (?h a)) \<le> 32" using core_sub(3)[OF c valid_path, of ?h "kbits key"] e by simp
  then have m: "unat (prefixlen (?h a)) = w_match w"
    using pre e match_len_full(1)[of "?h a" key] n by (simp add: upd_pre_def core_def pool_is_def)
  define s1 where "s1 = (if ?im then bump s else s)"
  define s2 where "s2 = set_node new ((?h new)\<lparr>child := child (?h a)\<rparr>) s1"
  let ?c = "upd_code s (tmap ?h t) ?n uflags (kbits key)"
  have u: "update_locked key uflags new w s =
      (if ?c \<noteq> 0 then (?c, None, s) else (0, Some a, assign_link (w_link w) (Some new) s2))"
    using pre e m t unfolding update_locked_def upd_pre_def
    by (simp add: check_add_code[OF cnt] upd_code_def s1_def s2_def)
  then show "fst (update_locked key uflags new w s) = ?c" by simp
  have c1: "core s1 t (insert new (set (nodes t)))" and h1: "pool_node s1 = ?h" using c by (auto simp: s1_def)
  note c2 = core_set_node[OF c1 rdy(3,2), of "(?h new)\<lparr>child := child (?h a)\<rparr>", folded s2_def]
  have h2: "pool_node s2 = ?h(new := (?h new)\<lparr>child := child (?h a)\<rparr>)"
    using c1 rdy(2) h1 by (simp add: s2_def core_def pool_is_def)
  have r2: "ready s2 t new key value"
    using ready_child[of s1 t new key "value" "insert new (set (nodes t))" "child (?h a)"] rdy(1) c1 h1
    by (auto simp: s2_def s1_def core_def)
  have p2: "path (pool_node s2) (kbits key) t = path ?h (kbits key) t"
    using rdy(3) h2 by (intro path_cong) auto
  have "inserted s2 t (assign_link (w_link w) (Some new) s2) (insert new (set (nodes t))) {a}
      (?n + (if ?im then 1 else 0)) (kbits key) value"
    using insert_replace[OF c2(1) r2, of a l r] p2 e n h2 rdy(4) pre c2(3) h1 by (simp add: upd_pre_def)
  then have i: "inserted s t (assign_link (w_link w) (Some new) s2) (insert new (set (nodes t))) {a}
      (?n + (if ?im then 1 else 0)) (kbits key) value"
    using c2(2) h1 by (simp add: inserted_def)
  have "?c = 0 \<Longrightarrow> counted s1 (?n + (if ?im then 1 else 0))"
    using cnt counted_bump[OF cnt, of uflags] t by (auto simp: s1_def upd_code_def split: if_splits)
  then show "upd_done s t new (kbits key) value (update_locked key uflags new w s)"
    using u i a c by (auto simp: upd_done_def s2_def core_def slots_ok_def)
qed

lemma no_match_None:
  assumes "twf h [] t" and "sub t (path h k t) = Nd a l r" and "nbits (h a) \<noteq> k"
  shows "tmap h t k = None"
  using tmap_path[OF assms(1), of k] assms(2,3) by simp

lemma upd_above:
  assumes pre: "upd_pre s t new key value w" and e: "sub t (path (pool_node s) (kbits key) t) = Nd a l r"
    and n: "strict_prefix (kbits key) (nbits (pool_node s a))"
  shows "fst (update_locked key uflags new w s) = upd_code s (tmap (pool_node s) t) (reals (pool_node s) t) uflags (kbits key)"
    and "upd_done s t new (kbits key) value (update_locked key uflags new w s)"
proof -
  let ?h = "pool_node s" and ?n = "reals (pool_node s) t"
  have cnt: "counted s ?n" and wf: "twf ?h [] t" and c: "core s t (insert new (set (nodes t)))"
    and rdy: "ready s t new key value" and new: "new < LPM_POOL_SIZE" "new \<notin> set (nodes t)"
    using pre by (auto simp: upd_pre_def core_def ready_def)
  have t: "tmap ?h t (kbits key) = None" using no_match_None[OF wf e] n by (auto simp: strict_prefix_def)
  have a: "a \<in> set (nodes t)" using set_sub[of t "path ?h (kbits key) t"] e by simp
  have "unat (prefixlen (?h a)) \<le> 32" using core_sub(3)[OF c valid_path, of ?h "kbits key"] e by simp
  then have m: "w_match w = unat (key_prefixlen key)"
    using pre e match_len_full(2)[of "?h a" key] n by (simp add: upd_pre_def core_def pool_is_def strict_prefix_def)
  have lt: "unat (key_prefixlen key) < unat (prefixlen (?h a))" using prefix_length_less[OF n] by simp
  let ?b = "extract_bit (data (?h a)) (w_match w)"
  have nb: "prefix (kbits key @ [?b]) (nbits (?h a))"
    using n lt m append_one_prefix[of "kbits key" "nbits (?h a)"] by (simp add: strict_prefix_def nbits_def)
  let ?c = "upd_code s (tmap ?h t) ?n uflags (kbits key)"
  define s2 where "s2 = set_node new ((?h new)\<lparr>child := (\<lambda>_. None)(?b := Some a)\<rparr>) (bump s)"
  have al: "assign_link (Child_link new ?b) (Some a) (bump s) = s2"
    using pre by (simp add: assign_link_def s2_def upd_pre_def)
  have u: "update_locked key uflags new w s =
      (if ?c \<noteq> 0 then (?c, None, s) else (0, None, assign_link (w_link w) (Some new) s2))"
    using pre e m t lt al unfolding update_locked_def upd_pre_def
    by (simp add: check_add_code[OF cnt] upd_code_def Let_def)
  then show "fst (update_locked key uflags new w s) = ?c" by simp
  have c1: "core (bump s) t (insert new (set (nodes t)))" using c by simp
  note c2 = core_set_node[OF c1 new(2,1), of "(?h new)\<lparr>child := (\<lambda>_. None)(?b := Some a)\<rparr>", folded s2_def]
  have h2: "pool_node s2 = ?h(new := (?h new)\<lparr>child := (\<lambda>_. None)(?b := Some a)\<rparr>)"
    using c new(1) by (simp add: s2_def core_def pool_is_def)
  have r2: "ready s2 t new key value"
    using ready_child[of "bump s" t new key "value" "insert new (set (nodes t))" "(\<lambda>_. None)(?b := Some a)"] rdy c1
    by (auto simp: s2_def core_def)
  have p2: "path (pool_node s2) (kbits key) t = path ?h (kbits key) t"
    using new(2) h2 by (intro path_cong) auto
  have an: "pool_node s2 a = ?h a" using h2 a new(2) by auto
  have "inserted s2 t (assign_link (w_link w) (Some new) s2) (insert new (set (nodes t))) {}
      (Suc ?n) (kbits key) value"
    using insert_above[OF c2(1) r2, of ?b a l r] p2 e nb h2 an pre c2(3) by (simp add: upd_pre_def)
  then have i: "inserted s t (assign_link (w_link w) (Some new) s2) (insert new (set (nodes t))) {}
      (Suc ?n) (kbits key) value"
    using c2(2) by (simp add: inserted_def)
  then show "upd_done s t new (kbits key) value (update_locked key uflags new w s)"
    using u i counted_bump[OF cnt, of uflags] t by (auto simp: upd_done_def s2_def upd_code_def)
qed

lemma core_alloc:
  assumes "core s t U" and "set (nodes t) \<subseteq> U" and "a \<notin> U" and "pool_is s' (insert a U)"
    and "root (trie s') = root (trie s)" and "pool_node s' = (pool_node s)(a := n)"
  shows "core s' t (insert a U)" and "tmap (pool_node s') t = tmap (pool_node s) t"
    and "reals (pool_node s') t = reals (pool_node s) t"
proof -
  have same: "same_key (pool_node s' b) (pool_node s b)" if "b \<in> set (nodes t)" for b
    using that assms(2,3,6) by auto
  show "tmap (pool_node s') t = tmap (pool_node s) t" "reals (pool_node s') t = reals (pool_node s) t"
    by (rule tmap_cong[OF same] reals_cong[OF same]; assumption)+
  have "twf (pool_node s') [] t = twf (pool_node s) [] t" by (rule twf_cong[OF same])
  moreover have "rep (pool_node s') q t = rep (pool_node s) q t" for q
    using assms(2,3,6) by (intro rep_cong) auto
  moreover have "slots_ok s' t" using assms by (auto simp: core_def slots_ok_def)
  ultimately show "core s' t (insert a U)" using assms(1,4,5) by (simp add: core_def)
qed

lemma set_node_twice [simp]: "set_node a x (set_node a y s) = set_node a x s"
  by (simp add: set_node_def)

lemma assign_child_set_node:
  "a < length (node_pool s) \<Longrightarrow> assign_link (Child_link a b) p (set_node a n s) =
     set_node a (n\<lparr>child := (child n)(b := p)\<rparr>) s"
  by (simp add: assign_link_def)

text \<open>The node that update allocates where the key and the stored prefix part.\<close>

definition fork_node :: "lpm_trie_node \<Rightarrow> nat \<Rightarrow> (bool \<Rightarrow> node_ptr) \<Rightarrow> lpm_trie_node" where
  "fork_node n m c = (fresh_node None)\<lparr>prefixlen := of_nat m,
     flags := flags (fresh_node None) OR LPM_TREE_NODE_FLAG_IM,
     data := lpm_copy_data (data (fresh_node None)) (data n), child := c\<rparr>"

lemma fork_node_props:
  assumes "m \<le> 32" and "m \<le> unat (prefixlen n)"
  shows "is_im (fork_node n m c)" "length (data (fork_node n m c)) = LPM_SLOT_DATA"
    "nbits (fork_node n m c) = take m (nbits n)" "child (fork_node n m c) = c"
proof -
  have m: "unat (of_nat m :: u32) = m"
    using assms(1) by (simp add: unsigned_of_nat take_bit_nat_eq_self)
  have "bits_of m (data n) = take m (bits_of (unat (prefixlen n)) (data n))"
    using assms(2) by (intro nth_equalityI) auto
  then show "nbits (fork_node n m c) = take m (nbits n)"
    using m assms(1) by (simp add: fork_node_def nbits_def bits_of_copy)
qed (simp_all add: fork_node_def is_im_def c_true_def)

lemma upd_fork:
  assumes pre: "upd_pre s t new key value w" and e: "sub t (path (pool_node s) (kbits key) t) = Nd a l r"
    and n: "w_match w < unat (prefixlen (pool_node s a))" "w_match w < unat (key_prefixlen key)"
  shows "fst (update_locked key uflags new w s) = upd_code s (tmap (pool_node s) t) (reals (pool_node s) t) uflags (kbits key) \<or>
      fst (update_locked key uflags new w s) = - ENOMEM \<and> {..<LPM_POOL_SIZE} \<subseteq> insert new (set (nodes t)) \<and>
      upd_code s (tmap (pool_node s) t) (reals (pool_node s) t) uflags (kbits key) = 0"
    and "upd_done s t new (kbits key) value (update_locked key uflags new w s)"
proof -
  let ?h = "pool_node s" and ?n = "reals (pool_node s) t" and ?m = "w_match w" and ?U = "insert new (set (nodes t))"
  have cnt: "counted s ?n" and wf: "twf ?h [] t" and c: "core s t ?U" and k: "key_ok key"
    and rdy: "ready s t new key value" and new: "new < LPM_POOL_SIZE" "new \<notin> set (nodes t)"
    using pre by (auto simp: upd_pre_def core_def ready_def)
  have a: "a \<in> set (nodes t)" using set_sub[of t "path ?h (kbits key) t"] e by simp
  have a32: "unat (prefixlen (?h a)) \<le> 32" using core_sub(3)[OF c valid_path, of ?h "kbits key"] e by simp
  have "?m = match_len (?h a) key" using pre e by (simp add: upd_pre_def)
  then have m: "take ?m (nbits (?h a)) = take ?m (kbits key)" "nbits (?h a) ! ?m \<noteq> kbits key ! ?m"
    using match_len_props(3,4)[of "?h a" key] a32 k c n by (simp_all add: core_def pool_is_def)
  have t: "tmap ?h t (kbits key) = None" using no_match_None[OF wf e] m(2) by metis
  let ?b = "extract_bit (key_data key) ?m"
  have b: "kbits key ! ?m = ?b" using n(2) by (simp add: kbits_def)
  let ?c = "upd_code s (tmap ?h t) ?n uflags (kbits key)"
  have al: "pool_is (bump s) ?U" using c by (metis bump_simps(2) core_def)
  have main: "(fst (update_locked key uflags new w s) = ?c \<or>
      fst (update_locked key uflags new w s) = - ENOMEM \<and> {..<LPM_POOL_SIZE} \<subseteq> ?U \<and> ?c = 0) \<and>
      upd_done s t new (kbits key) value (update_locked key uflags new w s)"
  proof (cases "?c = 0")
    case False
    then have "update_locked key uflags new w s = (?c, None, s)"
      using pre e n t unfolding update_locked_def upd_pre_def
      by (simp add: check_add_code[OF cnt] upd_code_def)
    then show ?thesis using False by (simp add: upd_done_def)
  next
    case True
    then have add: "trie_check_add_elem s uflags = (0, bump s)" "add_code s ?n uflags = 0"
      using check_add_code[OF cnt, of uflags] t by (simp_all add: upd_code_def)
    from al show ?thesis
    proof (cases rule: alloc_cases[where v = None])
      case full
      then have "update_locked key uflags new w s = (- ENOMEM, None, s)"
        using pre e n add unfolding update_locked_def upd_pre_def by simp
      then show ?thesis using True full by (simp add: upd_done_def)
    next
      case (slot im s')
      let ?C = "if ?b then (\<lambda>_. None)(False := Some a, True := Some new) else (\<lambda>_. None)(False := Some new, True := Some a)"
      define s3 where "s3 = set_node im (fork_node (?h a) ?m ?C) s'"
      have len: "im < length (node_pool s')" using slot by (simp add: pool_is_def)
      have im: "im \<noteq> new" "im \<notin> set (nodes t)" "im \<noteq> a" using slot(3) a by auto
      have u: "update_locked key uflags new w s = (0, None, assign_link (w_link w) (Some im) s3)"
        using pre e n add slot(1,6) len im unfolding update_locked_def upd_pre_def
        by (simp add: Let_def assign_child_set_node s3_def fork_node_def)
      have "inserted s t (assign_link (w_link w) (Some im) s3) (insert im ?U) {} (Suc ?n) (kbits key) value"
      proof -
        have c0: "core (bump s) t ?U" using c by simp
        have sU: "set (nodes t) \<subseteq> ?U" by blast
        have rt: "root (trie s') = root (trie (bump s))" by (simp add: slot(5))
        note c1 = core_alloc[OF c0 sU slot(3,4) rt slot(6)]
        note c3 = core_set_node[OF c1(1) im(2) slot(2), of "fork_node (?h a) ?m ?C", folded s3_def]
        have h3: "pool_node s3 = ?h(im := fork_node (?h a) ?m ?C)" using len slot(6) by (auto simp: s3_def)
        have r3: "ready s3 t new key value" using rdy im h3 by (simp add: ready_def)
        have p3: "path (pool_node s3) (kbits key) t = path ?h (kbits key) t"
          using im h3 by (intro path_cong) auto
        note f = fork_node_props[of ?m "?h a" ?C]
        have "?m \<le> 32" "?m \<le> unat (prefixlen (?h a))" using n a32 by simp_all
        note f = f[OF this]
        have q: "prefix (take ?m (kbits key) @ [kbits key ! ?m]) (kbits key)"
            "prefix (take ?m (nbits (?h a)) @ [nbits (?h a) ! ?m]) (nbits (?h a))"
          using n by (simp_all add: take_is_prefix flip: take_Suc_conv_app_nth)
        have q': "prefix (nbits (pool_node s3 im) @ [?b]) (kbits key)"
            "prefix (nbits (pool_node s3 im) @ [\<not> ?b]) (nbits (pool_node s3 a))"
          using q m b h3 im f(3) by (auto simp: fun_upd_other)
        have x: "child (pool_node s3 new) = (\<lambda>_. None)" "child (pool_node s3 im) ?b = Some new"
            "child (pool_node s3 im) (\<not> ?b) = Some a" "is_im (pool_node s3 im)"
            "length (data (pool_node s3 im)) = LPM_SLOT_DATA"
          using pre h3 im f by (auto simp: upd_pre_def)
        have "inserted s3 t (assign_link (w_link w) (Some im) s3) (insert im ?U) {} (Suc ?n) (kbits key) value"
          using insert_fork[OF c3(1) r3 k x(1) slot(2) im(2,1) x(4,5,2,3), of l r] p3 e q' pre c3(3) c1(3)
          by (simp add: upd_pre_def)
        then show ?thesis using c3(2) c1(2) by (simp add: inserted_def)
      qed
      moreover have "counted s3 (Suc ?n)"
        using counted_bump[OF cnt add(2)] slot(5) by (simp add: s3_def counted_def)
      ultimately show ?thesis using u True by (auto simp: upd_done_def)
    qed
  qed
  then show "fst (update_locked key uflags new w s) = ?c \<or>
      fst (update_locked key uflags new w s) = - ENOMEM \<and> {..<LPM_POOL_SIZE} \<subseteq> ?U \<and> ?c = 0"
    and "upd_done s t new (kbits key) value (update_locked key uflags new w s)" by blast+
qed

lemma card_dom_tmap:
  "twf h pre t \<Longrightarrow> finite (dom (tmap h t)) \<and> card (dom (tmap h t)) = reals h t"
proof (induction t arbitrary: pre)
  case (Nd a l r)
  let ?n = "nbits (h a)"
  have wf: "twf h (?n @ [False]) l" "twf h (?n @ [True]) r" using Nd.prems by simp_all
  note fl = Nd.IH(1)[OF wf(1)] and fr = Nd.IH(2)[OF wf(2)]
  have pl: "prefix (?n @ [False]) k" if "k \<in> dom (tmap h l)" for k
    using that tmap_prefix[OF wf(1), of k] by (cases "prefix (?n @ [False]) k") (simp_all add: domIff)
  have pr: "prefix (?n @ [True]) k" if "k \<in> dom (tmap h r)" for k
    using that tmap_prefix[OF wf(2), of k] by (cases "prefix (?n @ [True]) k") (simp_all add: domIff)
  have disj: "dom (tmap h r) \<inter> dom (tmap h l) = {}"
  proof (rule ccontr)
    assume "dom (tmap h r) \<inter> dom (tmap h l) \<noteq> {}"
    then obtain k where "prefix (?n @ [False]) k" "prefix (?n @ [True]) k" using pl pr by blast
    from prefix_same_cases[OF this] show False by simp
  qed
  have "\<not> prefix (?n @ [b]) ?n" for b by (auto dest: prefix_length_le)
  then have n: "?n \<notin> dom (tmap h r) \<union> dom (tmap h l)" using pl[of ?n] pr[of ?n] by (metis Un_iff)
  let ?A = "dom (tmap h r) \<union> dom (tmap h l)"
  have A: "?A - {?n} = ?A" "finite ?A" "card ?A = reals h r + reals h l"
    using n fl fr disj by (simp_all add: card_Un_disjoint)
  have D: "dom (tmap h (Nd a l r)) = (if is_im (h a) then ?A else insert ?n ?A)"
    using A(1) by (cases "is_im (h a)") (simp_all only: tmap.simps dom_fun_upd dom_map_add if_True if_False simp_thms option.distinct)
  show ?case
  proof (cases "is_im (h a)")
    case True
    then show ?thesis unfolding D using A by simp
  next
    case False
    have "card (insert ?n ?A) = Suc (card ?A)" using A(2) n by (rule card_insert_disjoint)
    then show ?thesis unfolding D using A False by simp
  qed
qed simp

lemma length_nodes:
  assumes "core s t U" and "{..<LPM_POOL_SIZE} \<subseteq> insert a (set (nodes t))"
  shows "8 \<le> reals (pool_node s) t"
proof -
  have "16 \<le> card (insert a (set (nodes t)))"
    using card_mono[OF _ assms(2)] by simp
  also have "\<dots> \<le> Suc (card (set (nodes t)))" by (rule card_insert_le_m1) simp_all
  also have "\<dots> \<le> Suc (length (nodes t))" by (simp add: card_length)
  finally have "15 \<le> length (nodes t)" by simp
  moreover from this have "t \<noteq> Lf" by auto
  ultimately show ?thesis using nodes_le_reals[of "pool_node s" "[]" t] assms(1) by (simp add: core_def)
qed

text \<open>The code an update returns, over the abstract map.\<close>

definition lpm_update_code :: "nat \<Rightarrow> (bool list \<rightharpoonup> u8 list) \<Rightarrow> u64 \<Rightarrow> bool list \<Rightarrow> cint" where
  "lpm_update_code limit M uflags k =
     (if M k \<noteq> None then (if uflags = BPF_NOEXIST then - EEXIST else 0)
      else if uflags = BPF_EXIST then - ENOENT
      else if card (dom M) = limit then - ENOSPC else 0)"

lemma upd_locked_all:
  assumes pre: "upd_pre s t new key value w"
  shows "(fst (update_locked key uflags new w s) = upd_code s (tmap (pool_node s) t) (reals (pool_node s) t) uflags (kbits key) \<or>
      fst (update_locked key uflags new w s) = - ENOMEM \<and> {..<LPM_POOL_SIZE} \<subseteq> insert new (set (nodes t)) \<and>
      upd_code s (tmap (pool_node s) t) (reals (pool_node s) t) uflags (kbits key) = 0) \<and>
    upd_done s t new (kbits key) value (update_locked key uflags new w s)"
proof (cases "sub t (path (pool_node s) (kbits key) t)")
  case Lf
  then show ?thesis using upd_leaf[OF pre] by simp
next
  case (Nd a l r)
  have c: "core s t (insert new (set (nodes t)))" and k: "key_ok key" using pre by (auto simp: upd_pre_def)
  have a32: "unat (prefixlen (pool_node s a)) \<le> 32"
    using core_sub(3)[OF c valid_path, of "pool_node s" "kbits key"] Nd by simp
  have m: "w_match w = match_len (pool_node s a) key" using pre Nd by (simp add: upd_pre_def)
  note nm = match_len_full[OF a32 k] match_len_props(1,2)[OF a32 k]
  have ns: "\<not> strict_prefix (nbits (pool_node s a)) (kbits key)" by (rule path_end[OF Nd])
  consider "nbits (pool_node s a) = kbits key" | "strict_prefix (kbits key) (nbits (pool_node s a))"
    | "w_match w < unat (prefixlen (pool_node s a))" "w_match w < unat (key_prefixlen key)"
    using nm ns m by (auto simp: strict_prefix_def)
  then show ?thesis
    by cases (use upd_replace[OF pre Nd] upd_above[OF pre Nd] upd_fork[OF pre Nd] in blast)+
qed

lemma lpm_rep_kfree:
  assumes "core s t U" and "set (nodes t) = U - {a}" and "a < LPM_POOL_SIZE" and "counted s (reals (pool_node s) t)"
  shows "lpm_rep (kfree (Some a) s) (tmap (pool_node s) t)"
proof -
  have "pool_is (kfree (Some a) s) (U - {a})"
    using assms by (intro pool_is_kfree) (auto simp: core_def)
  then have "lpm_tree (kfree (Some a) s) t"
    using assms by (simp add: lpm_tree_def core_def slots_ok_def counted_def)
  then show ?thesis by (auto simp: lpm_rep_def)
qed

lemma upd_start:
  assumes "lpm_tree s t" and "key_ok key" and "length value = LPM_BPF_VALUE_SIZE"
    and al: "lpm_trie_node_alloc (Some value) s = (Some new, s0)" "new < LPM_POOL_SIZE" "new \<notin> set (nodes t)"
      "pool_is s0 (insert new (set (nodes t)))" "trie s0 = trie s"
      "pool_node s0 = (pool_node s)(new := fresh_node (Some value))"
  defines "s1 \<equiv> set_node new ((pool_node s0 new)\<lparr>prefixlen := key_prefixlen key, child := (\<lambda>_. None),
                    data := lpm_copy_data (data (pool_node s0 new)) (key_data key)\<rparr>) s0"
  obtains w where "trie_walk s1 key Root_link Root_link None 0 = Some w" "upd_pre s1 t new key value w"
    "tmap (pool_node s1) t = tmap (pool_node s) t" "reals (pool_node s1) t = reals (pool_node s) t"
    "trie s1 = trie s"
proof -
  let ?n = "(pool_node s0 new)\<lparr>prefixlen := key_prefixlen key, child := (\<lambda>_. None),
                    data := lpm_copy_data (data (pool_node s0 new)) (key_data key)\<rparr>"
  have c: "core s t (set (nodes t))" and cnt: "counted s (reals (pool_node s) t)"
    using assms(1) by (simp_all add: lpm_tree_def)
  have rt: "root (trie s0) = root (trie s)" by (simp add: al(5))
  note c0 = core_alloc[OF c subset_refl al(3,4) rt al(6)]
  note c1 = core_set_node[OF c0(1) al(3,2), of ?n, folded s1_def]
  have h1: "pool_node s1 = (pool_node s)(new := ?n)"
    using al(2,4,6) by (simp add: s1_def pool_is_def)
  have d: "data (pool_node s0 new) = lpm_copy_value (data zero_node) value"
    using al(6) by (simp add: fresh_node_def)
  have "nbits ?n = kbits key"
    using assms(2) d by (simp add: nbits_def kbits_def bits_of_copy key_ok_def zero_node_def)
  moreover have "node_value ?n = value"
    using node_value_copies[of "data zero_node" "value" "key_data key"] assms(3) d
    by (simp add: node_value_def zero_node_def)
  moreover have "\<not> is_im ?n" using al(6) by (simp add: is_im_def)
  ultimately have r: "ready s1 t new key value" using al(2,3) h1 d by (simp add: ready_def zero_node_def)
  have tr: "trie s1 = trie s" using al(5) by (simp add: s1_def)
  have cnt1: "counted s1 (reals (pool_node s1) t)" using cnt tr c1(3) c0(3) by (simp add: counted_def)
  have ds: "unat (data_size (trie s1)) = 4" and rp: "rep (pool_node s1) (root (trie s1)) t"
    and wf: "twf (pool_node s1) [] t" using c1(1) by (simp_all add: core_def pool_is_def)
  have dl: "deref_link s1 Root_link = root_ptr t" using rep_root_ptr[OF rp] by (simp add: deref_link_def)
  have rp': "rep (pool_node s1) (root_ptr t) t" using rp rep_root_ptr[OF rp] by simp
  obtain w where w: "trie_walk s1 key Root_link Root_link None 0 = Some w"
      "w_link w = link_at Root_link t (path (pool_node s1) (kbits key) t)"
      "w_node w = root_ptr (sub t (path (pool_node s1) (kbits key) t))"
      "\<forall>a. w_node w = Some a \<longrightarrow> w_match w = match_len (pool_node s1 a) key"
    using trie_walk_path[OF ds assms(2) dl rp' wf, of Root_link None 0] by blast
  then have "upd_pre s1 t new key value w"
    using c1(1) r assms(2) cnt1 h1 by (simp add: upd_pre_def)
  then show thesis using that w(1) c1(2,3) c0(2,3) tr by simp
qed

lemma update_correct:
  assumes rep: "lpm_rep s M" and k: "key_ok key" and v: "length value = LPM_BPF_VALUE_SIZE"
    and f: "uflags \<le> BPF_EXIST"
  shows "\<exists>ret s'. trie_update_elem s key value uflags = Some (ret, s') \<and>
    lpm_rep s' (if ret = 0 then M(kbits key \<mapsto> value) else M) \<and>
    (ret = lpm_update_code (unat (max_entries (trie_map (trie s)))) M uflags (kbits key) \<or>
     ret = - ENOMEM \<and> 8 \<le> card (dom M))"
proof -
  obtain t where t: "lpm_tree s t" and M: "M = tmap (pool_node s) t" using rep by (auto simp: lpm_rep_def)
  have c: "core s t (set (nodes t))" and cnt: "counted s (reals (pool_node s) t)" using t by (simp_all add: lpm_tree_def)
  have card: "card (dom M) = reals (pool_node s) t"
    using card_dom_tmap[of "pool_node s" "[]" t] c M by (simp add: core_def)
  have mp: "unat (max_prefixlen (trie s)) = 32" "pool_is s (set (nodes t))" using c by (simp_all add: core_def pool_is_def)
  have guard: "\<not> BPF_EXIST < uflags" "\<not> unat (max_prefixlen (trie s)) < unat (key_prefixlen key)"
    using f k mp(1) by (simp_all add: key_ok_def not_less)
  from mp(2) show ?thesis
  proof (cases rule: alloc_cases[where v = "Some value"])
    case full
    then have "8 \<le> card (dom M)" using length_nodes[OF c, of 0] card by auto
    then show ?thesis using guard full rep by (simp add: trie_update_elem_def)
  next
    case (slot new s0)
    let ?s1 = "set_node new ((pool_node s0 new)\<lparr>prefixlen := key_prefixlen key, child := (\<lambda>_. None),
                    data := lpm_copy_data (data (pool_node s0 new)) (key_data key)\<rparr>) s0"
    obtain w where w: "trie_walk ?s1 key Root_link Root_link None 0 = Some w" "upd_pre ?s1 t new key value w"
        "tmap (pool_node ?s1) t = M" "reals (pool_node ?s1) t = reals (pool_node s) t" "trie ?s1 = trie s"
      using upd_start[OF t k v slot] M by metis
    obtain ret fn s2 where u: "update_locked key uflags new w ?s1 = (ret, fn, s2)" by (metis prod_cases3)
    note all = upd_locked_all[OF w(2), of uflags, unfolded u w(3,4), simplified]
    have "upd_code ?s1 M (reals (pool_node s) t) uflags (kbits key) =
        lpm_update_code (unat (max_entries (trie_map (trie s)))) M uflags (kbits key)"
      using w(5) card by (simp add: upd_code_def lpm_update_code_def add_code_def)
    then have code: "ret = lpm_update_code (unat (max_entries (trie_map (trie s)))) M uflags (kbits key) \<or>
        ret = - ENOMEM \<and> 8 \<le> card (dom M)"
      using all length_nodes[OF c, of new] card by auto
    let ?s3 = "if ret \<noteq> 0 then kfree (Some new) s2 else s2"
    have res: "trie_update_elem s key value uflags = Some (ret, kfree fn ?s3)"
      using guard slot(1) w(1) u by (simp add: trie_update_elem_def Let_def)
    have "lpm_rep (kfree fn ?s3) (if ret = 0 then M(kbits key \<mapsto> value) else M)"
    proof (cases "ret = 0")
      case False
      then have "s2 = ?s1" "fn = None" using all by (auto simp: upd_done_def)
      moreover have "core ?s1 t (insert new (set (nodes t)))" "counted ?s1 (reals (pool_node ?s1) t)"
        using w(2) by (simp_all add: upd_pre_def)
      ultimately show ?thesis
        using lpm_rep_kfree[of ?s1 t "insert new (set (nodes t))" new] slot(2,3) w(3) False by auto
    next
      case True
      then obtain U n t' where i: "core s2 t' U" "set (nodes t') = U - set_option fn" "set_option fn \<subseteq> {..<LPM_POOL_SIZE}"
          "tmap (pool_node s2) t' = M(kbits key \<mapsto> value)" "counted s2 (reals (pool_node s2) t')"
        using all w(3) by (auto simp: upd_done_def inserted_def)
      show ?thesis
      proof (cases fn)
        case None
        then show ?thesis using i True by (auto simp: lpm_rep_def lpm_tree_def)
      next
        case (Some a)
        then show ?thesis using lpm_rep_kfree[of s2 t' U a] i True by simp
      qed
    qed
    then show ?thesis using res code by blast
  qed
qed

section \<open>Delete\<close>

lemma twf_prefix: "prefix p q \<Longrightarrow> twf h q t \<Longrightarrow> twf h p t"
  by (auto simp: prefix_def intro: wf_weaken)

definition removed :: "lpm_state \<Rightarrow> ltree \<Rightarrow> lpm_state \<Rightarrow> nat set \<Rightarrow> bool list \<Rightarrow> bool" where
  "removed s t s' F k \<longleftrightarrow> F \<subseteq> set (nodes t) \<and> (\<exists>t'. core s' t' (set (nodes t)) \<and>
     set (nodes t') = set (nodes t) - F \<and> Suc (reals (pool_node s') t') = reals (pool_node s) t \<and>
     tmap (pool_node s') t' = (tmap (pool_node s) t)(k := None))"

lemma is_im_set [simp]: "is_im (n\<lparr>flags := flags n OR LPM_TREE_NODE_FLAG_IM\<rparr>)"
  unfolding is_im_def c_true_and_bit by (simp add: bit_simps)

lemma plug_sub [simp]: "valid t p \<Longrightarrow> plug t p (sub t p) = t"
  by (induction t p rule: sub.induct) (auto simp: son_def)

lemma reals_removed:
  assumes "twf h [] t" and "twf h' [] t'" and "tmap h' t' = (tmap h t)(k := None)" and "tmap h t k \<noteq> None"
  shows "Suc (reals h' t') = reals h t"
proof -
  have "k \<in> dom (tmap h t)" using assms(4) by blast
  then have "Suc (card (dom (tmap h t) - {k})) = card (dom (tmap h t))"
    using card_dom_tmap[OF assms(1)] by (metis card_Suc_Diff1)
  moreover have "dom (tmap h' t') = dom (tmap h t) - {k}" using assms(3) by simp
  ultimately show ?thesis using card_dom_tmap[OF assms(1)] card_dom_tmap[OF assms(2)] by metis
qed

lemma remove_mark:
  assumes c: "core s t (set (nodes t))" and p: "valid t p" and e: "sub t p = Nd a l r"
    and ch: "l \<noteq> Lf" "r \<noteq> Lf" and k: "tmap (pool_node s) t (nbits (pool_node s a)) \<noteq> None"
    and pre: "prefix (pre_at (pool_node s) [] t p) (nbits (pool_node s a))"
  shows "removed s t (set_node a ((pool_node s a)\<lparr>flags := flags (pool_node s a) OR LPM_TREE_NODE_FLAG_IM\<rparr>) s)
    {} (nbits (pool_node s a))"
proof -
  let ?h = "pool_node s" and ?k = "nbits (pool_node s a)"
  define n where "n = (pool_node s a)\<lparr>flags := flags (pool_node s a) OR LPM_TREE_NODE_FLAG_IM\<rparr>"
  define s' where "s' = set_node a n s"
  have a: "a \<in> set (nodes t)" using set_sub[of t p] e by auto
  have len: "a < length (node_pool s)" using a c by (simp add: core_def slots_ok_def pool_is_def)
  then have h: "pool_node s' = ?h(a := n)" "trie s' = trie s" by (simp_all add: s'_def)
  have d: "distinct (nodes t)" "distinct (nodes (Nd a l r))"
    using c distinct_sub[of t p] e by (simp_all add: core_def slots_ok_def)
  have n: "nbits n = ?k" "is_im n" "prefixlen n = prefixlen (?h a)" "child n = child (?h a)" "data n = data (?h a)"
    using is_im_set[of "?h a"] by (simp_all add: n_def nbits_def)
  have same: "same_key (pool_node s' b) (?h b)" if "b \<noteq> a" for b using that h by auto
  have same': "same_key (pool_node s' b) (?h b)" if "b \<in> set (nodes t) - set (nodes (sub t p))" for b
    using that e by (intro same) auto
  have lr: "twf (pool_node s') q l = twf ?h q l" "twf (pool_node s') q r = twf ?h q r"
      "tmap (pool_node s') l = tmap ?h l" "tmap (pool_node s') r = tmap ?h r" for q
    using d(2) by (auto intro!: twf_cong tmap_cong same)
  have wf: "twf ?h [] t" and rp: "rep ?h (root (trie s)) t" using c by (simp_all add: core_def)
  have sw: "twf ?h (pre_at ?h [] t p) (Nd a l r)" using wf_sub[OF wf p] e by simp
  have uw: "twf (pool_node s') (pre_at ?h [] t p) (sub t p)"
    using sw ch n lr h by (simp add: e)
  have um: "tmap (pool_node s') (sub t p) = (tmap ?h (sub t p))(?k := None)"
    using n lr h by (simp add: e)
  have wf': "twf (pool_node s') [] t"
  proof -
    have "twf (pool_node s') [] (plug t p (sub t p))"
      by (rule twf_plug[OF wf p uw same' d(1)]) (simp_all add: e)
    then show ?thesis by (simp only: plug_sub[OF p])
  qed
  moreover have m: "tmap (pool_node s') t = (tmap ?h t)(?k := None)"
    using tmap_plug[OF wf p pre same' d(1) um] p by simp
  moreover have "Suc (reals (pool_node s') t) = reals ?h t"
    by (rule reals_removed[OF wf wf' m k])
  moreover have "rep (pool_node s') (root (trie s')) t"
    using rp h n(4) by (subst rep_cong[where h = ?h]) auto
  moreover have "slots_ok s' t" "pool_is s' (set (nodes t))"
    using c h n(5) by (auto simp: core_def slots_ok_def pool_is_def s'_def)
  ultimately have "removed s t s' {} ?k" unfolding removed_def core_def by (intro conjI exI[of _ t]) simp_all
  then show ?thesis by (simp add: s'_def n_def)
qed

lemma remove_plug:
  assumes c: "core s t (set (nodes t))" and p: "valid t p" and k: "tmap (pool_node s) t k \<noteq> None"
    and u: "rep (pool_node s) (root_ptr u) u" "slots_ok s u" "set (nodes u) \<subseteq> set (nodes (sub t p))"
      "twf (pool_node s) (pre_at (pool_node s) [] t p) u"
      "u = Lf \<Longrightarrow> p \<noteq> [] \<Longrightarrow> \<not> is_im (pool_node s (the (root_ptr (sub t (butlast p)))))"
    and pk: "prefix (pre_at (pool_node s) [] t p) k"
    and m: "tmap (pool_node s) u = (tmap (pool_node s) (sub t p))(k := None)"
  shows "removed s t (assign_link (link_at Root_link t p) (root_ptr u) s)
    (set (nodes (sub t p)) - set (nodes u)) k"
proof -
  have disj: "set (nodes u) \<inter> (set (nodes t) - set (nodes (sub t p))) = {}" using u(3) by blast
  note ca = core_assign[OF c p u(1,2) disj u(4,5) pk m]
  let ?s = "assign_link (link_at Root_link t p) (root_ptr u) s"
  have "twf (pool_node s) [] t" "twf (pool_node ?s) [] (plug t p u)" using c ca(1) by (simp_all add: core_def)
  note r = reals_removed[OF this ca(2) k]
  have "set (nodes (plug t p u)) = set (nodes t) - (set (nodes (sub t p)) - set (nodes u))"
    using ca(4) u(3) set_sub[of t p] by blast
  then show ?thesis unfolding removed_def using ca(1,2) r set_sub[of t p] by blast
qed

lemma remove_child:
  assumes c: "core s t (set (nodes t))" and p: "valid t p" and e: "sub t p = Nd a l r"
    and k: "tmap (pool_node s) t (nbits (pool_node s a)) \<noteq> None" and o: "son (\<not> b) l r = Lf"
    and pre: "prefix (pre_at (pool_node s) [] t p) (nbits (pool_node s a))"
    and ne: "son b l r = Lf \<Longrightarrow> p \<noteq> [] \<Longrightarrow> \<not> is_im (pool_node s (the (root_ptr (sub t (butlast p)))))"
  shows "removed s t (assign_link (link_at Root_link t p) (child (pool_node s a) b) s) {a} (nbits (pool_node s a))"
proof -
  let ?h = "pool_node s" and ?u = "son b l r" and ?k = "nbits (pool_node s a)"
  note sb = core_sub[OF c p, unfolded e]
  have "rep ?h (child (?h a) b) ?u" using sb(1) by (cases b) simp_all
  then have cp: "child (?h a) b = root_ptr ?u" and r: "rep ?h (root_ptr ?u) ?u"
    using rep_root_ptr by (simp, metis)
  have so: "slots_ok s ?u" using sb(2) by (cases b) (simp_all add: slots_ok_def)
  have w: "twf ?h (?k @ [b]) ?u" using sb(3) by (cases b) simp_all
  have st: "set (nodes ?u) \<subseteq> set (nodes (sub t p))" by (cases b) (auto simp: e)
  have w': "twf ?h (pre_at ?h [] t p) ?u"
    by (rule twf_prefix[OF _ w]) (use pre in simp)
  have uk: "tmap ?h ?u ?k = None" by (rule tmap_short[OF w]) simp
  have "tmap ?h (Nd a l r) = (tmap ?h ?u)(?k := (if is_im (?h a) then None else Some (node_value (?h a))))"
    using o by (cases b) (simp_all only: tmap.simps son_simps simp_thms map_add_empty empty_map_add)
  then have m: "tmap ?h ?u = (tmap ?h (sub t p))(?k := None)"
    using fun_upd_idem[of "tmap ?h ?u", OF uk] by (simp only: e fun_upd_upd)
  have "set (nodes (sub t p)) - set (nodes ?u) = {a}" using sb(2) o by (cases b) (auto simp: e slots_ok_def)
  then show ?thesis using remove_plug[OF c p k r so st w' ne pre m] cp by simp
qed

lemma sub_snoc: "valid t (p @ [b]) \<Longrightarrow> \<exists>q l r. sub t p = Nd q l r \<and> sub t (p @ [b]) = son b l r \<and> valid t p"
proof (induction t p rule: sub.induct)
  case (1 t)
  then show ?case by (cases t) auto
qed auto

lemma pre_at_snoc:
  "valid t (p @ [b]) \<Longrightarrow> sub t p = Nd q l r \<Longrightarrow> pre_at h pre t (p @ [b]) = nbits (h q) @ [b]"
  by (induction h pre t p rule: pre_at.induct) auto

lemma remove_sibling:
  assumes c: "core s t (set (nodes t))" and p: "valid t (p @ [b])" and q: "sub t p = Nd q l r"
    and e: "sub t (p @ [b]) = Nd a Lf Lf" and im: "is_im (pool_node s q)"
    and k: "tmap (pool_node s) t (nbits (pool_node s a)) \<noteq> None" and na: "\<not> is_im (pool_node s a)"
    and pre: "prefix (pre_at (pool_node s) [] t p) (nbits (pool_node s a))"
  defines "sib \<equiv> if Some a = child (pool_node s q) False then child (pool_node s q) True else child (pool_node s q) False"
  shows "removed s t (assign_link (link_at Root_link t p) sib s) {q, a} (nbits (pool_node s a))"
proof -
  let ?h = "pool_node s" and ?u = "son (\<not> b) l r" and ?k = "nbits (pool_node s a)" and ?q = "nbits (pool_node s q)"
  have vp: "valid t p" and sn: "son b l r = Nd a Lf Lf" using sub_snoc[OF p] q e by auto
  note sb = core_sub[OF c vp, unfolded q]
  have reps: "rep ?h (child (?h q) d) (son d l r)" for d using sb(1) by (cases d) simp_all
  have ptrs: "child (?h q) d = root_ptr (son d l r)" for d by (rule rep_root_ptr[OF reps])
  have dist: "distinct (nodes (Nd q l r))" using sb(2) by (simp add: slots_ok_def)
  have une: "?u \<noteq> Lf" using sb(3) im by (cases b) simp_all
  have "a \<notin> set (nodes ?u)" using dist sn by (cases b) auto
  then have "root_ptr ?u \<noteq> Some a" by (cases ?u) auto
  then have sib: "sib = root_ptr ?u" unfolding sib_def ptrs using sn by (cases b) auto
  have r: "rep ?h (root_ptr ?u) ?u" using reps[of "\<not> b"] ptrs[of "\<not> b"] by simp
  have so: "slots_ok s ?u" using sb(2) by (cases b) (simp_all add: slots_ok_def)
  have w: "twf ?h (?q @ [\<not> b]) ?u" "twf ?h (?q @ [b]) (Nd a Lf Lf)" using sb(3) sn by (cases b; simp)+
  have pq: "prefix (pre_at ?h [] t p) ?q" using sb(3) by simp
  have w': "twf ?h (pre_at ?h [] t p) ?u" by (rule twf_prefix[OF _ w(1)]) (use pq in simp)
  have qk: "prefix (?q @ [b]) ?k" using w(2) by simp
  have uq: "tmap ?h ?u ?q = None" by (rule tmap_short[OF w(1)]) simp
  have uk: "tmap ?h ?u ?k = None" using qk by (intro tmap_prefix[OF w(1)]) (auto simp: prefix_def)
  have kq: "?k \<noteq> ?q" using qk by (auto simp: prefix_def)
  have ta: "tmap ?h (son b l r) = [?k \<mapsto> node_value (?h a)]" using sn na by simp
  have "tmap ?h (Nd q l r) = (if b then tmap ?h ?u ++ tmap ?h (son b l r) else tmap ?h (son b l r) ++ tmap ?h ?u)(?q := None)"
    using im by (cases b) (simp_all only: if_True if_False tmap.simps son_simps simp_thms)
  then have "tmap ?h (sub t p) = (tmap ?h ?u)(?k \<mapsto> node_value (?h a))"
    unfolding q ta using map_add_fork[OF uq uk kq] by (cases b) (simp_all only: if_True if_False)
  then have m: "tmap ?h ?u = (tmap ?h (sub t p))(?k := None)"
    using fun_upd_idem[of "tmap ?h ?u", OF uk] by (simp only: fun_upd_upd)
  have st: "set (nodes ?u) \<subseteq> set (nodes (sub t p))" by (cases b) (auto simp: q)
  have "set (nodes (sub t p)) - set (nodes ?u) = {q, a}" using dist sn by (cases b) (auto simp: q)
  then show ?thesis using remove_plug[OF c vp k r so st w' _ pre m] une sib by simp
qed

lemma pool_is_kfree_opt:
  "pool_is s U \<Longrightarrow> set_option p \<subseteq> {..<LPM_POOL_SIZE} \<Longrightarrow> pool_is (kfree p s) (U - set_option p)"
  using pool_is_kfree[of s U p] by (cases p) auto

definition drop_entry :: "lpm_state \<Rightarrow> lpm_state" where
  "drop_entry s = s\<lparr>trie := (trie s)\<lparr>n_entries := n_entries (trie s) - 1\<rparr>\<rparr>"

lemma drop_entry_simps [simp]:
  "pool_node (drop_entry s) = pool_node s" "core (drop_entry s) t U = core s t U"
  "removed (drop_entry s) t s' F k = removed s t s' F k"
  by (simp_all add: drop_entry_def removed_def)

lemma counted_drop_entry: "counted s (Suc n) \<Longrightarrow> counted (drop_entry s) n"
proof -
  assume a: "counted s (Suc n)"
  then have "n_entries (trie s) \<noteq> 0" by (auto simp: counted_def)
  then have "unat (n_entries (trie s) - 1) = n" using a by (simp add: unat_minus_one counted_def)
  then show ?thesis using a by (simp add: counted_def drop_entry_def)
qed

text \<open>What the walk of delete returns, over the tree.\<close>

definition del_pre :: "lpm_state \<Rightarrow> ltree \<Rightarrow> lpm_key \<Rightarrow> walk_result \<Rightarrow> bool" where
  "del_pre s t key w \<longleftrightarrow> (let p = path (pool_node s) (kbits key) t in
     lpm_tree s t \<and> key_ok key \<and> w_link w = link_at Root_link t p \<and>
     w_prev w = prev_at Root_link Root_link t p \<and> w_parent w = parent_at None t p \<and>
     w_node w = root_ptr (sub t p) \<and>
     (\<forall>a. w_node w = Some a \<longrightarrow> w_match w = match_len (pool_node s a) key))"

lemma delete_miss:
  assumes pre: "del_pre s t key w" and none: "tmap (pool_node s) t (kbits key) = None"
  shows "delete_locked key w s = (- ENOENT, None, None, s)"
proof (cases "sub t (path (pool_node s) (kbits key) t)")
  case Lf
  then show ?thesis using pre by (simp add: delete_locked_def del_pre_def Let_def)
next
  case (Nd a l r)
  let ?n = "pool_node s a"
  have c: "core s t (set (nodes t))" and k: "key_ok key" using pre by (auto simp: del_pre_def lpm_tree_def Let_def)
  have wf: "twf (pool_node s) [] t" using c by (simp add: core_def)
  have a32: "unat (prefixlen ?n) \<le> 32" using core_sub(3)[OF c valid_path, of "pool_node s" "kbits key"] Nd by simp
  have x: "nbits ?n \<noteq> kbits key \<or> is_im ?n" using tmap_path[OF wf, of "kbits key"] Nd none by (auto split: if_splits)
  have w: "w_match w = match_len ?n key" "w_node w = Some a" using pre Nd by (simp_all add: del_pre_def Let_def)
  have "nbits ?n \<noteq> kbits key \<Longrightarrow> match_len ?n key = unat (prefixlen ?n) \<Longrightarrow> prefixlen ?n \<noteq> key_prefixlen key"
    using match_len_full(1)[OF a32 k] strict_prefix_nbits[of ?n key] by (auto simp: strict_prefix_def)
  then have "prefixlen ?n \<noteq> key_prefixlen key \<or> unat (prefixlen ?n) \<noteq> w_match w \<or> is_im ?n"
    using x w(1) by auto
  then show ?thesis by (simp only: delete_locked_def w(2) Let_def option.case if_True)
qed

lemma delete_hit:
  assumes pre: "del_pre s t key w" and some: "tmap (pool_node s) t (kbits key) \<noteq> None"
  shows "\<exists>fp fn s'. delete_locked key w s = (0, fp, fn, s') \<and> removed s t s' (set_option fp \<union> set_option fn) (kbits key) \<and>
    trie_map (trie s') = trie_map (trie s) \<and> n_entries (trie s') = n_entries (trie (drop_entry s))"
proof -
  let ?h = "pool_node s" and ?p = "path (pool_node s) (kbits key) t" and ?s = "drop_entry s"
  have c: "core s t (set (nodes t))" and k: "key_ok key" using pre by (auto simp: del_pre_def lpm_tree_def Let_def)
  have wf: "twf ?h [] t" using c by (simp add: core_def)
  obtain a l r where e: "sub t ?p = Nd a l r" and n: "nbits (?h a) = kbits key" and na: "\<not> is_im (?h a)"
    using tmap_path[OF wf, of "kbits key"] some by (auto split: ltree.splits if_splits)
  have a32: "unat (prefixlen (?h a)) \<le> 32" using core_sub(3)[OF c valid_path, of ?h "kbits key"] e by simp
  have len: "prefixlen (?h a) = key_prefixlen key"
    using arg_cong[OF n, of length] by (simp add: word_unat_eq_iff)
  have m: "w_match w = unat (prefixlen (?h a))" "w_node w = Some a" "w_link w = link_at Root_link t ?p"
      "w_prev w = prev_at Root_link Root_link t ?p" "w_parent w = parent_at None t ?p"
    using pre e match_len_full(1)[OF a32 k] n by (simp_all add: del_pre_def Let_def)
  have pp: "prefix (pre_at ?h [] t ?p) (nbits (?h a))" using prefix_path[OF wf, of "kbits key"] n by simp
  have "rep ?h (Some a) (Nd a l r)" using core_sub(1)[OF c valid_path, of ?h "kbits key"] e by simp
  then have ch: "child (?h a) False = root_ptr l" "child (?h a) True = root_ptr r"
    using rep_root_ptr by fastforce+
  have rp: "root_ptr v = None \<longleftrightarrow> v = Lf" for v by (cases v) auto
  let ?pim = "case w_parent w of None \<Rightarrow> False | Some q \<Rightarrow> is_im (?h q)"
  have D: "delete_locked key w s =
     (if l \<noteq> Lf \<and> r \<noteq> Lf then (0, None, None, set_node a ((?h a)\<lparr>flags := flags (?h a) OR LPM_TREE_NODE_FLAG_IM\<rparr>) ?s)
      else if ?pim \<and> l = Lf \<and> r = Lf
      then let q = ?h (the (w_parent w)); sibling = (if Some a = child q False then child q True else child q False)
           in (0, w_parent w, Some a, assign_link (w_prev w) sibling ?s)
      else if l \<noteq> Lf then (0, None, Some a, assign_link (w_link w) (child (?h a) False) ?s)
      else if r \<noteq> Lf then (0, None, Some a, assign_link (w_link w) (child (?h a) True) ?s)
      else (0, None, Some a, assign_link (w_link w) None ?s))"
    using m len na by (simp add: delete_locked_def Let_def ch rp drop_entry_def cong: option.case_cong)
  have c': "core ?s t (set (nodes t))" using c by simp
  have h': "pool_node ?s = ?h" by simp
  have som: "tmap (pool_node ?s) t (nbits (pool_node ?s a)) \<noteq> None" and pp': "prefix (pre_at (pool_node ?s) [] t ?p) (nbits (pool_node ?s a))"
    using some n pp by simp_all
  have par: "\<exists>q l' r'. sub t (butlast ?p) = Nd q l' r' \<and> w_parent w = Some q \<and> w_prev w = link_at Root_link t (butlast ?p) \<and>
      prefix (pre_at ?h [] t (butlast ?p)) (nbits (?h a))" if "?p \<noteq> []"
  proof -
    have bp: "?p = butlast ?p @ [last ?p]" using that by simp
    have v: "valid t (butlast ?p @ [last ?p])" using valid_path[of t ?h "kbits key"] bp by metis
    obtain q l' r' where q: "sub t (butlast ?p) = Nd q l' r'" "valid t (butlast ?p)" using sub_snoc[OF v] by blast
    have "pre_at ?h [] t ?p = nbits (?h q) @ [last ?p]" using pre_at_snoc[OF v q(1), of ?h "[]"] bp by metis
    then have "prefix (nbits (?h q)) (nbits (?h a))" using pp append_prefixD by metis
    moreover have "prefix (pre_at ?h [] t (butlast ?p)) (nbits (?h q))" using wf_sub[OF wf q(2)] q(1) by simp
    moreover have "w_prev w = link_at Root_link t (butlast ?p)" using m(4) prev_at_snoc[OF v] bp by metis
    moreover have "w_parent w = Some q" using m(5) parent_at_snoc[OF v, of None] bp q(1) by simp
    ultimately show ?thesis using q(1) by (auto intro: prefix_order.trans)
  qed
  have frame: "trie_map (trie (assign_link x y ?s)) = trie_map (trie s)" "n_entries (trie (assign_link x y ?s)) = n_entries (trie ?s)"
      "trie_map (trie (set_node a z ?s)) = trie_map (trie s)" for x y z
    by (simp_all add: drop_entry_def)
  consider (both) "l \<noteq> Lf" "r \<noteq> Lf" | (sib) ?pim "l = Lf" "r = Lf" | (left) "l \<noteq> Lf" "r = Lf"
    | (right) "l = Lf" "r \<noteq> Lf" | (leaf) "\<not> ?pim" "l = Lf" "r = Lf" by blast
  then show ?thesis
  proof cases
    case both
    from remove_mark[OF c' valid_path e both som pp'] show ?thesis using D both frame n by simp
  next
    case sib
    then have "?p \<noteq> []" using m(5) by auto
    then obtain q l' r' where q: "sub t (butlast ?p) = Nd q l' r'" "w_parent w = Some q"
        "w_prev w = link_at Root_link t (butlast ?p)" "prefix (pre_at ?h [] t (butlast ?p)) (nbits (?h a))"
      using par by blast
    have bp: "?p = butlast ?p @ [last ?p]" using \<open>?p \<noteq> []\<close> by simp
    have v: "valid t (butlast ?p @ [last ?p])" "sub t (butlast ?p @ [last ?p]) = Nd a Lf Lf"
      using valid_path[of t ?h "kbits key"] bp e sib(2,3) by metis+
    have x: "is_im (pool_node ?s q)" "\<not> is_im (pool_node ?s a)"
        "prefix (pre_at (pool_node ?s) [] t (butlast ?p)) (nbits (pool_node ?s a))" using sib(1) q na by simp_all
    from remove_sibling[OF c' v(1) q(1) v(2) x(1) som x(2,3)] show ?thesis
      using D sib q frame n unfolding h' by (simp add: Let_def insert_commute cong: if_cong)
  next
    case left
    from remove_child[OF c' valid_path e som _ pp', of False] left show ?thesis using D frame n m(3) by simp
  next
    case right
    from remove_child[OF c' valid_path e som _ pp', of True] right show ?thesis using D frame n m(3) by simp
  next
    case leaf
    have "?p \<noteq> [] \<Longrightarrow> \<not> is_im (pool_node ?s (the (root_ptr (sub t (butlast ?p)))))"
      using par leaf(1) by auto
    from remove_child[OF c' valid_path e som _ pp', of False] this leaf show ?thesis using D frame n ch m(3) by simp
  qed
qed

lemma walk_del_pre:
  assumes t: "lpm_tree s t" and k: "key_ok key"
  obtains w where "trie_walk s key Root_link Root_link None 0 = Some w" "del_pre s t key w"
proof -
  have c: "core s t (set (nodes t))" using t by (simp add: lpm_tree_def)
  then have ds: "unat (data_size (trie s)) = 4" and rp: "rep (pool_node s) (root (trie s)) t"
    and wf: "twf (pool_node s) [] t" by (simp_all add: core_def pool_is_def)
  have dl: "deref_link s Root_link = root_ptr t" using rep_root_ptr[OF rp] by (simp add: deref_link_def)
  have rp': "rep (pool_node s) (root_ptr t) t" using rp rep_root_ptr[OF rp] by simp
  show thesis
    using trie_walk_path[OF ds k dl rp' wf, of Root_link None 0] that t k
    unfolding del_pre_def Let_def by blast
qed

lemma delete_correct:
  assumes rep: "lpm_rep s M" and k: "key_ok key"
  shows "\<exists>s'. trie_delete_elem s key = Some (if M (kbits key) = None then - ENOENT else 0, s') \<and>
    lpm_rep s' (M(kbits key := None)) \<and> trie_map (trie s') = trie_map (trie s)"
proof -
  obtain t where t: "lpm_tree s t" and M: "M = tmap (pool_node s) t" using rep by (auto simp: lpm_rep_def)
  have c: "core s t (set (nodes t))" and cnt: "counted s (reals (pool_node s) t)" using t by (simp_all add: lpm_tree_def)
  have guard: "\<not> unat (max_prefixlen (trie s)) < unat (key_prefixlen key)"
    using k c by (simp add: key_ok_def core_def pool_is_def)
  obtain w where w: "trie_walk s key Root_link Root_link None 0 = Some w" "del_pre s t key w"
    by (rule walk_del_pre[OF t k])
  show ?thesis
  proof (cases "M (kbits key)")
    case None
    then have "delete_locked key w s = (- ENOENT, None, None, s)" using delete_miss[OF w(2)] M by simp
    moreover have "M(kbits key := None) = M" using None by (simp add: fun_upd_idem)
    ultimately show ?thesis using guard w(1) None rep by (simp add: trie_delete_elem_def)
  next
    case (Some v)
    then obtain fp fn s1 where d: "delete_locked key w s = (0, fp, fn, s1)"
        "removed s t s1 (set_option fp \<union> set_option fn) (kbits key)"
        "trie_map (trie s1) = trie_map (trie s)" "n_entries (trie s1) = n_entries (trie (drop_entry s))"
      using delete_hit[OF w(2)] M by auto
    let ?s = "kfree fn (kfree fp s1)"
    obtain t' where t': "core s1 t' (set (nodes t))" "set (nodes t') = set (nodes t) - (set_option fp \<union> set_option fn)"
        "Suc (reals (pool_node s1) t') = reals (pool_node s) t" "tmap (pool_node s1) t' = M(kbits key := None)"
        "set_option fp \<union> set_option fn \<subseteq> set (nodes t)"
      using d(2) M by (auto simp: removed_def)
    have lt: "set (nodes t) \<subseteq> {..<LPM_POOL_SIZE}" using c by (auto simp: core_def slots_ok_def)
    have "pool_is (kfree fp s1) (set (nodes t) - set_option fp)"
      using t'(1,5) lt by (intro pool_is_kfree_opt) (auto simp: core_def)
    then have "pool_is ?s (set (nodes t) - set_option fp - set_option fn)"
      by (rule pool_is_kfree_opt) (use t'(5) lt in auto)
    then have "pool_is ?s (set (nodes t'))" using t'(2) by (simp add: Diff_eq Int_assoc)
    moreover have "counted s1 (reals (pool_node s1) t')"
      using counted_drop_entry[of s "reals (pool_node s1) t'"] cnt t'(3) d(3,4)
      by (simp add: counted_def drop_entry_def)
    ultimately have "lpm_tree ?s t'" using t'(1) by (simp add: lpm_tree_def core_def slots_ok_def counted_def)
    then have "lpm_rep ?s (M(kbits key := None))" using t'(4) by (auto simp: lpm_rep_def)
    then show ?thesis using guard w(1) d Some by (simp add: trie_delete_elem_def)
  qed
qed

section \<open>Lookup and initialisation\<close>

definition found_value :: "lpm_state \<Rightarrow> (nat \<times> nat) option \<Rightarrow> u8 list option" where
  "found_value s = map_option (\<lambda>(a, off). take LPM_BPF_VALUE_SIZE (drop off (data (pool_node s a))))"

lemma lookup_correct:
  assumes "lpm_rep s M" and k: "key_ok key"
  shows "\<exists>res. trie_lookup_elem s key = Some res \<and> found_value s res = lpm_best M (kbits key)"
proof -
  obtain t where t: "lpm_tree s t" and M: "M = tmap (pool_node s) t" using assms(1) by (auto simp: lpm_rep_def)
  then have ds: "unat (data_size (trie s)) = 4" and mp: "unat (max_prefixlen (trie s)) = 32"
    and rp: "rep (pool_node s) (root (trie s)) t" and wf: "twf (pool_node s) [] t"
    by (simp_all add: lpm_tree_def core_def pool_is_def)
  obtain res where res: "lookup_walk s key (root (trie s)) None = Some res"
      "found_best (pool_node s) t (kbits key) None res"
    using lookup_walk_best[OF ds mp k rp wf, of None] by blast
  then show ?thesis using found_best_lpm[OF res(2)] k mp ds M
    by (cases res) (auto simp: trie_lookup_elem_def found_value_def node_value_def key_ok_def)
qed

lemma init_correct:
  assumes "length (node_pool s) = LPM_POOL_SIZE"
  shows "lpm_rep (lpm_trie_init nents s) Map.empty"
  using assms unfolding lpm_rep_def lpm_tree_def
  by (intro exI[of _ Lf]) (simp add: core_def pool_is_def slots_ok_def counted_def lpm_trie_init_def)

end
