(* ===== verification/Lpm_Props.thy ===== *)
theory Lpm_Props
  imports Lpm_Map
begin

text \<open>
  The contract of a longest-prefix-match map as a locale, its interpretation on the
  definitions of \<open>Lpm_Trie\<close>, and the properties of \<^verbatim>\<open>lpm_trie.c\<close>.
\<close>

section \<open>The interface\<close>

text \<open>Operations on a map from bit strings to values: \<open>bits\<close> reads the bit string of a key,
  an update may also fail for want of memory (\<open>nomem\<close>) once \<open>room\<close> entries are stored.\<close>

datatype ('k, 'v) lpm_op = Update_op 'k 'v u64 | Delete_op 'k

fun lpm_op_ok :: "('k \<Rightarrow> bool) \<Rightarrow> ('v \<Rightarrow> bool) \<Rightarrow> ('k, 'v) lpm_op \<Rightarrow> bool" where
  "lpm_op_ok okk okv (Update_op k v f) = (okk k \<and> okv v \<and> f \<le> BPF_EXIST)"
| "lpm_op_ok okk okv (Delete_op k) = okk k"

fun run_ops :: "('s \<Rightarrow> 'k \<Rightarrow> 'v \<Rightarrow> u64 \<Rightarrow> (cint \<times> 's) option) \<Rightarrow> ('s \<Rightarrow> 'k \<Rightarrow> (cint \<times> 's) option) \<Rightarrow>
    ('k, 'v) lpm_op list \<Rightarrow> 's \<Rightarrow> (cint list \<times> 's) option" where
  "run_ops upd del [] s = Some ([], s)"
| "run_ops upd del (o1 # os) s =
     (case (case o1 of Update_op k v f \<Rightarrow> upd s k v f | Delete_op k \<Rightarrow> del s k) of
        None \<Rightarrow> None
      | Some (ret, s) \<Rightarrow> (case run_ops upd del os s of
            None \<Rightarrow> None | Some (rets, s) \<Rightarrow> Some (ret # rets, s)))"

text \<open>The reference map after operations that returned the given codes.\<close>

fun abs_ops :: "('k \<Rightarrow> bool list) \<Rightarrow> ('k, 'v) lpm_op list \<Rightarrow> cint list \<Rightarrow> (bool list \<rightharpoonup> 'v) \<Rightarrow> bool list \<rightharpoonup> 'v" where
  "abs_ops bts (Update_op k v f # os) (ret # rets) M =
     abs_ops bts os rets (if ret = 0 then M(bts k \<mapsto> v) else M)"
| "abs_ops bts (Delete_op k # os) (ret # rets) M = abs_ops bts os rets (M(bts k := None))"
| "abs_ops bts os rets M = M"

locale prefix_map =
  fixes rep :: "'s \<Rightarrow> (bool list \<rightharpoonup> 'v) \<Rightarrow> bool"
    and lookup :: "'s \<Rightarrow> 'k \<Rightarrow> 'v option option"
    and update :: "'s \<Rightarrow> 'k \<Rightarrow> 'v \<Rightarrow> u64 \<Rightarrow> (cint \<times> 's) option"
    and delete :: "'s \<Rightarrow> 'k \<Rightarrow> (cint \<times> 's) option"
    and bits :: "'k \<Rightarrow> bool list" and okk :: "'k \<Rightarrow> bool" and okv :: "'v \<Rightarrow> bool"
  assumes lookup_law: "rep s M \<Longrightarrow> okk k \<Longrightarrow> lookup s k = Some (lpm_best M (bits k))"
    and update_law: "rep s M \<Longrightarrow> okk k \<Longrightarrow> okv v \<Longrightarrow> f \<le> BPF_EXIST \<Longrightarrow>
      \<exists>ret s'. update s k v f = Some (ret, s') \<and> rep s' (if ret = 0 then M(bits k \<mapsto> v) else M)"
    and delete_law: "rep s M \<Longrightarrow> okk k \<Longrightarrow> \<exists>ret s'. delete s k = Some (ret, s') \<and> rep s' (M(bits k := None))"
begin

lemma run_simulates:
  assumes "rep s M" and "\<forall>o1 \<in> set os. lpm_op_ok okk okv o1"
  shows "\<exists>rets s'. run_ops update delete os s = Some (rets, s') \<and> length rets = length os \<and>
    rep s' (abs_ops bits os rets M)"
  using assms
proof (induction os arbitrary: s M)
  case (Cons o1 os)
  show ?case
  proof (cases o1)
    case (Update_op k v f)
    then obtain ret s1 where u: "update s k v f = Some (ret, s1)" "rep s1 (if ret = 0 then M(bits k \<mapsto> v) else M)"
      using Cons.prems update_law[of s M k v f] by auto
    from Cons.IH[OF u(2)] Cons.prems(2) obtain rets s2 where
        "run_ops update delete os s1 = Some (rets, s2)" "length rets = length os"
        "rep s2 (abs_ops bits os rets (if ret = 0 then M(bits k \<mapsto> v) else M))" by auto
    then show ?thesis using u Update_op by (intro exI[of _ "ret # rets"]) auto
  next
    case (Delete_op k)
    then obtain ret s1 where u: "delete s k = Some (ret, s1)" "rep s1 (M(bits k := None))"
      using Cons.prems delete_law[of s M k] by auto
    from Cons.IH[OF u(2)] Cons.prems(2) obtain rets s2 where
        "run_ops update delete os s1 = Some (rets, s2)" "length rets = length os"
        "rep s2 (abs_ops bits os rets (M(bits k := None)))" by (auto simp: fun_upd_def)
    then show ?thesis using u Delete_op by (intro exI[of _ "ret # rets"]) auto
  qed
qed simp

text \<open>The entry just written is what a lookup of a longer key under it returns, unless a
  longer stored prefix matches.\<close>

lemma lookup_after_update:
  assumes "rep s M" and "okk k" "okv v" "f \<le> BPF_EXIST" "okk k'" and "update s k v f = Some (0, s')"
    and "prefix (bits k) (bits k')" and "\<And>q. prefix q (bits k') \<Longrightarrow> length (bits k) < length q \<Longrightarrow> M q = None"
  shows "lookup s' k' = Some (Some v)"
proof -
  have "rep s' (M(bits k \<mapsto> v))" using update_law[OF assms(1-4)] assms(6) by auto
  then have "lookup s' k' = Some (lpm_best (M(bits k \<mapsto> v)) (bits k'))" by (rule lookup_law[OF _ assms(5)])
  moreover have "lpm_best (M(bits k \<mapsto> v)) (bits k') = Some v"
    by (rule lpm_best_Some[OF assms(7)]) (use assms(8) in auto)
  ultimately show ?thesis by simp
qed

end

text \<open>The trie's lookup as a value of the interface: the eight bytes the returned pointer leads to.\<close>

definition lpm_lookup_value :: "lpm_state \<Rightarrow> lpm_key \<Rightarrow> u8 list option option" where
  "lpm_lookup_value s key = map_option (found_value s) (trie_lookup_elem s key)"

abbreviation value_ok :: "u8 list \<Rightarrow> bool" where "value_ok v \<equiv> length v = LPM_BPF_VALUE_SIZE"

interpretation lpm: prefix_map lpm_rep lpm_lookup_value trie_update_elem trie_delete_elem kbits key_ok value_ok
proof unfold_locales
  fix s M k assume "lpm_rep s M" "key_ok k"
  then show "lpm_lookup_value s k = Some (lpm_best M (kbits k))"
    using lookup_correct[of s M k] by (auto simp: lpm_lookup_value_def)
next
  fix s M k v f assume "lpm_rep s M" "key_ok k" "value_ok v" "f \<le> BPF_EXIST"
  then show "\<exists>ret s'. trie_update_elem s k v f = Some (ret, s') \<and> lpm_rep s' (if ret = 0 then M(kbits k \<mapsto> v) else M)"
    using update_correct[of s M k v f] by blast
next
  fix s M k assume "lpm_rep s M" "key_ok k"
  then show "\<exists>ret s'. trie_delete_elem s k = Some (ret, s') \<and> lpm_rep s' (M(kbits k := None))"
    using delete_correct[of s M k] by blast
qed

section \<open>Concrete states\<close>

text \<open>The static pool before initialisation, one key and one value of the regression harness.\<close>

definition lpm_static :: lpm_state where
  "lpm_static = \<lparr>node_pool = replicate LPM_POOL_SIZE zero_node, pool_used = replicate LPM_POOL_SIZE False,
     trie = \<lparr>trie_map = \<lparr>key_size = 0, value_size = 0, max_entries = 0, map_flags = 0, numa_node = 0\<rparr>,
             root = None, n_entries = 0, max_prefixlen = 0, data_size = 0\<rparr>\<rparr>"

definition lpm_k24 :: lpm_key where "lpm_k24 = lpm_key_set 24 10 1 2 0"
definition lpm_k32 :: lpm_key where "lpm_k32 = lpm_key_set 32 10 1 2 7"
definition lpm_v1 :: "u8 list" where "lpm_v1 = [1, 0, 0, 0, 0, 0, 0, 0]"

lemma lpm_static_rep: "lpm_rep (lpm_trie_init 8 lpm_static) Map.empty"
  by (rule init_correct) (simp add: lpm_static_def)

lemma lpm_keys_ok [simp]: "key_ok lpm_k24" "key_ok lpm_k32" "value_ok lpm_v1"
  by (simp_all add: key_ok_def lpm_k24_def lpm_k32_def lpm_v1_def lpm_key_set_def)

lemma lpm_first_update:
  "\<exists>s'. trie_update_elem (lpm_trie_init 8 lpm_static) lpm_k24 lpm_v1 BPF_ANY = Some (0, s') \<and>
     lpm_rep s' [kbits lpm_k24 \<mapsto> lpm_v1]"
proof -
  have "map_option fst (trie_update_elem (lpm_trie_init 8 lpm_static) lpm_k24 lpm_v1 BPF_ANY) = Some 0"
    by code_simp
  then show ?thesis using lpm.update_law[OF lpm_static_rep, of lpm_k24 lpm_v1 BPF_ANY] by auto
qed

section \<open>Properties\<close>

text \<open>C1: on a pool that represents a map from prefixes to values, \<^verbatim>\<open>trie_lookup_elem\<close> ends and
  returns a pointer to the value of the longest stored prefix of the key, or \<^verbatim>\<open>NULL\<close> when no
  stored prefix matches.\<close>

theorem lpm_lookup_longest_prefix:
  assumes "lpm_rep s M" and "key_ok key"
  shows "\<exists>res. trie_lookup_elem s key = Some res \<and> found_value s res = lpm_best M (kbits key)"
  using assms by (rule lookup_correct)

theorem lpm_lookup_longest_prefix_witness:
  "\<exists>s res. lpm_rep s [kbits lpm_k24 \<mapsto> lpm_v1] \<and> trie_lookup_elem s lpm_k32 = Some res \<and>
     found_value s res = Some lpm_v1"
proof -
  obtain s where s: "lpm_rep s [kbits lpm_k24 \<mapsto> lpm_v1]" using lpm_first_update by blast
  have "kbits lpm_k32 = kbits lpm_k24 @ drop 24 (kbits lpm_k32)" by code_simp
  then have "prefix (kbits lpm_k24) (kbits lpm_k32)" by (rule prefixI)
  then have "lpm_best [kbits lpm_k24 \<mapsto> lpm_v1] (kbits lpm_k32) = Some lpm_v1"
    by (rule lpm_best_Some) auto
  then show ?thesis using lpm_lookup_longest_prefix[OF s, of lpm_k32] s by auto
qed

text \<open>C2: \<^verbatim>\<open>trie_update_elem\<close> ends; it returns the code its flags, the presence of the key and
  the entry limit call for, or \<^verbatim>\<open>-ENOMEM\<close> and then only with at least eight entries stored; on
  success the new pool represents the map with the entry written, on failure the old map, and
  in both cases no slot is leaked.\<close>

theorem lpm_update_refines:
  assumes "lpm_rep s M" and "key_ok key" and "length value = LPM_BPF_VALUE_SIZE" and "uflags \<le> BPF_EXIST"
  shows "\<exists>ret s'. trie_update_elem s key value uflags = Some (ret, s') \<and>
    lpm_rep s' (if ret = 0 then M(kbits key \<mapsto> value) else M) \<and>
    (ret = lpm_update_code (unat (max_entries (trie_map (trie s)))) M uflags (kbits key) \<or>
     ret = - ENOMEM \<and> 8 \<le> card (dom M))"
  using assms by (rule update_correct)

theorem lpm_update_refines_witness:
  "\<exists>s'. trie_update_elem (lpm_trie_init 8 lpm_static) lpm_k24 lpm_v1 BPF_ANY = Some (0, s') \<and>
     lpm_rep s' [kbits lpm_k24 \<mapsto> lpm_v1]"
  using lpm_update_refines[OF lpm_static_rep, of lpm_k24 lpm_v1 BPF_ANY]
  by (auto simp: lpm_update_code_def lpm_trie_init_def)

text \<open>C3: \<^verbatim>\<open>trie_delete_elem\<close> ends; it returns 0 and removes the entry when the key is stored,
  \<^verbatim>\<open>-ENOENT\<close> otherwise, and the new pool holds exactly the nodes of the remaining entries.\<close>

theorem lpm_delete_refines:
  assumes "lpm_rep s M" and "key_ok key"
  shows "\<exists>s'. trie_delete_elem s key = Some (if M (kbits key) = None then - ENOENT else 0, s') \<and>
    lpm_rep s' (M(kbits key := None))"
  using delete_correct[OF assms] by blast

theorem lpm_delete_refines_witness:
  "\<exists>s s'. lpm_rep s [kbits lpm_k24 \<mapsto> lpm_v1] \<and> trie_delete_elem s lpm_k24 = Some (0, s') \<and>
     lpm_rep s' Map.empty"
proof -
  obtain s where s: "lpm_rep s [kbits lpm_k24 \<mapsto> lpm_v1]" using lpm_first_update by blast
  have e: "[kbits lpm_k24 \<mapsto> lpm_v1](kbits lpm_k24 := None) = Map.empty" by (simp add: fun_eq_iff)
  show ?thesis using lpm_delete_refines[OF s, of lpm_k24] s unfolding e by auto
qed

text \<open>C4: from an initialised trie, every sequence of updates and deletes ends, and every
  lookup afterwards ends and returns the longest-prefix match in the map that the successful
  operations built.\<close>

theorem lpm_sequences:
  assumes "length (node_pool s) = LPM_POOL_SIZE" and "\<forall>o1 \<in> set os. lpm_op_ok key_ok value_ok o1"
  shows "\<exists>rets s'. run_ops trie_update_elem trie_delete_elem os (lpm_trie_init nents s) = Some (rets, s') \<and>
    length rets = length os \<and>
    (\<forall>key. key_ok key \<longrightarrow> lpm_lookup_value s' key = Some (lpm_best (abs_ops kbits os rets Map.empty) (kbits key)))"
proof -
  obtain rets s' where r: "run_ops trie_update_elem trie_delete_elem os (lpm_trie_init nents s) = Some (rets, s')"
      "length rets = length os" "lpm_rep s' (abs_ops kbits os rets Map.empty)"
    using lpm.run_simulates[OF init_correct[OF assms(1)] assms(2)] by blast
  then show ?thesis using lpm.lookup_law by blast
qed

theorem lpm_sequences_witness:
  "\<exists>rets s'. run_ops trie_update_elem trie_delete_elem
       [Update_op lpm_k24 lpm_v1 BPF_ANY, Delete_op lpm_k32] (lpm_trie_init 8 lpm_static) = Some (rets, s') \<and>
     length rets = 2"
  using lpm_sequences[of lpm_static "[Update_op lpm_k24 lpm_v1 BPF_ANY, Delete_op lpm_k32]" 8]
  by (auto simp: lpm_static_def)

text \<open>C6: for fewer than \<open>2 ^ 29\<close> data bytes, so that the 32-bit counters of the code do not wrap, the
  word-at-a-time comparison of \<^verbatim>\<open>longest_prefix_match\<close> (32-bit groups, then a 16-bit group, then a
  byte) ends and returns the number of leading bits on which the node and the key agree, capped
  by both prefix lengths.\<close>

theorem longest_prefix_match_correct:
  assumes "unat ds < 2 ^ 29" and "unat ds \<le> length nd" and "unat ds \<le> length kd"
  shows "longest_prefix_match ds np nd kp kd =
     Some (min (min (unat np) (unat kp)) (first_diff nd kd (8 * unat ds)))"
  using assms(1) by (rule longest_prefix_match_first_diff)

theorem longest_prefix_match_correct_witness:
  "longest_prefix_match 7 50 [192, 168, 1, 2, 3, 4, 5] 56 [192, 168, 1, 2, 3, 4, 7] = Some 50"
proof -
  have "first_diff [192, 168, 1, 2, 3, 4, 5] [192, 168, 1, 2, 3, 4, 7] 56 = 54" by code_simp
  then show ?thesis
    using longest_prefix_match_correct[of 7 "[192, 168, 1, 2, 3, 4, 5]" "[192, 168, 1, 2, 3, 4, 7]" 50 56] by simp
qed

text \<open>\<^verbatim>\<open>fls\<close> returns the position of the highest set bit, counted from one.\<close>

theorem fls_highest_bit:
  assumes "x \<noteq> 0"
  shows "0 < fls x \<and> fls x \<le> 32 \<and> bit x (fls x - 1) \<and> (\<forall>n. fls x \<le> n \<longrightarrow> \<not> bit x n)"
  using fls_bounds[OF assms] fls_top_bit[OF assms] fls_above[of x] by auto

theorem fls_highest_bit_witness: "fls 0x12345 \<le> 32 \<and> bit (0x12345 :: u32) (fls 0x12345 - 1)"
  using fls_highest_bit[of "0x12345"] by simp

end
