(* ===== verification/List_Head.thy ===== *)
theory List_Head
  imports Bpf_Prelude
begin

text \<open>
  The circular doubly linked lists of \<^verbatim>\<open>shims/kernel/bpf/bpf_shim_common.h\<close>: a heap of
  \<^verbatim>\<open>struct list_head\<close> cells over an arbitrary address type, the list operations as
  pointer assignments in the order of the source, and the safe reverse iteration macro.
  \<open>ring h hh xs\<close> says that the cells \<open>xs\<close> hang on the head \<open>hh\<close> in that order; the lemmas
  turn every pointer operation on a ring into an operation on the list \<open>xs\<close>.
\<close>

section \<open>Cells and operations\<close>

record 'a list_head =
  nxt :: "'a \<Rightarrow> 'a"
  prv :: "'a \<Rightarrow> 'a"

definition set_nxt :: "'a \<Rightarrow> 'a \<Rightarrow> 'a list_head \<Rightarrow> 'a list_head" where
  "set_nxt a b h = h\<lparr>nxt := (nxt h)(a := b)\<rparr>"

definition set_prv :: "'a \<Rightarrow> 'a \<Rightarrow> 'a list_head \<Rightarrow> 'a list_head" where
  "set_prv a b h = h\<lparr>prv := (prv h)(a := b)\<rparr>"

definition INIT_LIST_HEAD :: "'a \<Rightarrow> 'a list_head \<Rightarrow> 'a list_head" where
  "INIT_LIST_HEAD l h = set_prv l l (set_nxt l l h)"

definition list_empty :: "'a \<Rightarrow> 'a list_head \<Rightarrow> bool" where
  "list_empty head h \<longleftrightarrow> nxt h head = head"

text \<open>\<^verbatim>\<open>__list_add(new_, prev, next)\<close> and \<^verbatim>\<open>__list_del(prev, next)\<close>.\<close>

definition list_add_between :: "'a \<Rightarrow> 'a \<Rightarrow> 'a \<Rightarrow> 'a list_head \<Rightarrow> 'a list_head" where
  "list_add_between new p n h = set_nxt p new (set_prv new p (set_nxt new n (set_prv n new h)))"

definition list_add :: "'a \<Rightarrow> 'a \<Rightarrow> 'a list_head \<Rightarrow> 'a list_head" where
  "list_add new head h = list_add_between new head (nxt h head) h"

definition list_add_tail :: "'a \<Rightarrow> 'a \<Rightarrow> 'a list_head \<Rightarrow> 'a list_head" where
  "list_add_tail new head h = list_add_between new (prv h head) head h"

definition list_unlink :: "'a \<Rightarrow> 'a \<Rightarrow> 'a list_head \<Rightarrow> 'a list_head" where
  "list_unlink p n h = set_nxt p n (set_prv n p h)"

text \<open>\<open>null\<close> is the address the deleted entry's pointers are set to.\<close>

definition list_del :: "'a \<Rightarrow> 'a \<Rightarrow> 'a list_head \<Rightarrow> 'a list_head" where
  "list_del null entry h =
     set_prv entry null (set_nxt entry null (list_unlink (prv h entry) (nxt h entry) h))"

definition list_move :: "'a \<Rightarrow> 'a \<Rightarrow> 'a list_head \<Rightarrow> 'a list_head" where
  "list_move l head h = list_add l head (list_unlink (prv h l) (nxt h l) h)"

definition list_first_or_null :: "'a \<Rightarrow> 'a list_head \<Rightarrow> 'a option" where
  "list_first_or_null head h = (if \<not> list_empty head h then Some (nxt h head) else None)"

text \<open>\<^verbatim>\<open>list_for_each_entry_safe_reverse(pos, n, head, member)\<close>: the body returns whether it
  broke out of the loop.  \<open>cells\<close> reads the cells in the loop's state.\<close>

partial_function (option) for_each_safe_reverse ::
    "('s \<Rightarrow> 'a list_head) \<Rightarrow> 'a \<Rightarrow> ('a \<Rightarrow> 's \<Rightarrow> bool \<times> 's) \<Rightarrow> 'a \<Rightarrow> 'a \<Rightarrow> 's \<Rightarrow> 's option" where
  "for_each_safe_reverse cells head body pos n s =
     (if pos = head then Some s
      else case body pos s of
             (brk, s) \<Rightarrow>
               if brk then Some s else for_each_safe_reverse cells head body n (prv (cells s) n) s)"

declare for_each_safe_reverse.simps [code]

definition list_for_each_entry_safe_reverse ::
    "('s \<Rightarrow> 'a list_head) \<Rightarrow> 'a \<Rightarrow> ('a \<Rightarrow> 's \<Rightarrow> bool \<times> 's) \<Rightarrow> 's \<Rightarrow> 's option" where
  "list_for_each_entry_safe_reverse cells head body s =
     (let pos = prv (cells s) head in for_each_safe_reverse cells head body pos (prv (cells s) pos) s)"

text \<open>\<^verbatim>\<open>list_for_each_entry_reverse(pos, head, member)\<close>, as a search for the first entry
  that satisfies a test.\<close>

partial_function (option) find_reverse :: "'a list_head \<Rightarrow> 'a \<Rightarrow> ('a \<Rightarrow> bool) \<Rightarrow> 'a \<Rightarrow> 'a option option" where
  "find_reverse h head test pos =
     (if pos = head then Some None
      else if test pos then Some (Some pos)
      else find_reverse h head test (prv h pos))"

declare find_reverse.simps [code]

section \<open>Rings\<close>

fun linked :: "'a list_head \<Rightarrow> 'a list \<Rightarrow> bool" where
  "linked h (x # y # zs) = (nxt h x = y \<and> prv h y = x \<and> linked h (y # zs))"
| "linked h xs = True"

definition ring :: "'a list_head \<Rightarrow> 'a \<Rightarrow> 'a list \<Rightarrow> bool" where
  "ring h hh xs \<longleftrightarrow> distinct (hh # xs) \<and> linked h (hh # xs @ [hh])"

lemma linked_append: "linked h (xs @ y # ys) \<longleftrightarrow> linked h (xs @ [y]) \<and> linked h (y # ys)"
proof (induction xs rule: induct_list012)
  case (2 x)
  then show ?case by (cases ys) auto
qed auto

lemma linked_frame:
  assumes "\<And>a. a \<in> set (butlast xs) \<Longrightarrow> nxt h' a = nxt h a" and "\<And>a. a \<in> set (tl xs) \<Longrightarrow> prv h' a = prv h a"
  shows "linked h' xs = linked h xs"
  using assms
proof (induction h xs rule: linked.induct)
  case (1 h x y zs)
  then have "linked h' (y # zs) = linked h (y # zs)" by (intro "1.IH") (auto split: if_splits)
  then show ?case using "1.prems" by auto
qed auto

lemma set_simps [simp]:
  "nxt (set_nxt a b h) = (nxt h)(a := b)" "prv (set_nxt a b h) = prv h"
  "nxt (set_prv a b h) = nxt h" "prv (set_prv a b h) = (prv h)(a := b)"
  by (simp_all add: set_nxt_def set_prv_def)

lemma ring_nxt: "ring h hh xs \<Longrightarrow> nxt h hh = (case xs of [] \<Rightarrow> hh | x # _ \<Rightarrow> x)"
  by (cases xs) (auto simp: ring_def)

lemma linked_prv: "linked h (xs @ [a, b] @ ys) \<Longrightarrow> prv h b = a \<and> nxt h a = b"
  using linked_append[of h xs a "b # ys"] by simp

lemma ring_prv: "ring h hh xs \<Longrightarrow> prv h hh = (if xs = [] then hh else last xs)"
proof (cases xs rule: rev_cases)
  case (snoc ys y)
  then show "ring h hh xs \<Longrightarrow> ?thesis" using linked_prv[of h "hh # ys" y hh "[]"] by (simp add: ring_def)
qed (simp add: ring_def)

lemma ring_empty: "ring h hh xs \<Longrightarrow> list_empty hh h \<longleftrightarrow> xs = []"
  by (cases xs) (auto simp: list_empty_def ring_nxt, auto simp: ring_def)

lemma ring_first: "ring h hh xs \<Longrightarrow> list_first_or_null hh h = (case xs of [] \<Rightarrow> None | x # _ \<Rightarrow> Some x)"
  by (cases xs) (simp_all add: list_first_or_null_def ring_empty ring_nxt)

lemma ring_init: "ring (INIT_LIST_HEAD hh h) hh []"
  by (simp add: ring_def INIT_LIST_HEAD_def)

lemma ring_frame:
  assumes "\<And>a. a \<in> insert hh (set xs) \<Longrightarrow> nxt h' a = nxt h a \<and> prv h' a = prv h a"
  shows "ring h' hh xs = ring h hh xs"
proof -
  have "linked h' (hh # xs @ [hh]) = linked h (hh # xs @ [hh])"
    by (rule linked_frame) (use assms in \<open>auto simp: butlast_append\<close>)
  then show ?thesis by (simp add: ring_def)
qed

text \<open>The cells determine the list that hangs on a head.\<close>

lemma linked_unique:
  "linked h (a # xs @ [hh]) \<Longrightarrow> linked h (a # ys @ [hh]) \<Longrightarrow> hh \<notin> set xs \<Longrightarrow> hh \<notin> set ys \<Longrightarrow> xs = ys"
proof (induction xs arbitrary: a ys)
  case Nil
  then show ?case by (cases ys) auto
next
  case (Cons x xs)
  then show ?case by (cases ys) auto
qed

lemma ring_unique: "ring h hh xs \<Longrightarrow> ring h hh ys \<Longrightarrow> xs = ys"
  by (auto simp: ring_def intro: linked_unique)

text \<open>Inserting a cell after the head.\<close>

lemma ring_list_add:
  assumes "ring h hh xs" and "new \<notin> insert hh (set xs)"
  shows "ring (list_add new hh h) hh (new # xs)"
proof -
  obtain y ys where y: "xs @ [hh] = y # ys" by (cases xs) auto
  have l: "linked h (hh # y # ys)" using assms(1) y by (simp add: ring_def)
  have n: "nxt h hh = y" using l by simp
  let ?h = "list_add new hh h"
  have dist: "distinct (hh # xs)" using assms(1) by (simp add: ring_def)
  have yin: "y \<noteq> new" using assms(2) y by (cases xs) auto
  have "linked ?h (y # ys) = linked h (y # ys)"
  proof (rule linked_frame)
    fix a assume "a \<in> set (butlast (y # ys))"
    then have "a \<in> set xs" using y by (metis butlast_snoc)
    then show "nxt ?h a = nxt h a" using assms(2) dist by (auto simp: list_add_def list_add_between_def)
  next
    fix a assume "a \<in> set (tl (y # ys))"
    then have a: "a \<in> set ys" by simp
    have "distinct (y # ys)" using y dist by (metis distinct1_rotate distinct.simps(2) rotate1.simps(2))
    then have "a \<noteq> y" using a by auto
    moreover have "a \<noteq> new" using a y assms(2) by (metis insert_iff list.set_intros(2) rotate1.simps(2) set_ConsD set_rotate1)
    ultimately show "prv ?h a = prv h a" by (simp add: list_add_def list_add_between_def n)
  qed
  moreover have "nxt ?h hh = new" "prv ?h new = hh" "nxt ?h new = y" "prv ?h y = new"
    using assms(2) yin n by (auto simp: list_add_def list_add_between_def)
  ultimately have "linked ?h (hh # new # y # ys)" using l by simp
  then show ?thesis using assms(2) dist y by (auto simp: ring_def)
qed

lemma list_add_frame:
  "a \<noteq> new \<Longrightarrow> a \<noteq> hh \<Longrightarrow> a \<noteq> nxt h hh \<Longrightarrow> nxt (list_add new hh h) a = nxt h a \<and> prv (list_add new hh h) a = prv h a"
  by (simp add: list_add_def list_add_between_def)

text \<open>Removing a cell joins its neighbours.\<close>

lemma linked_join:
  assumes "linked h (xs @ [p])" and "linked h (q # ys)" and "p \<notin> set xs" "p \<notin> set (butlast (q # ys))"
    and "q \<notin> set ys" "q \<notin> set (tl (xs @ [p]))"
  shows "linked (list_unlink p q h) (xs @ p # q # ys)"
proof -
  let ?h = "list_unlink p q h"
  have "linked ?h (xs @ [p]) = linked h (xs @ [p])"
    using assms(3,6) by (intro linked_frame) (auto simp: list_unlink_def)
  moreover have "linked ?h (q # ys) = linked h (q # ys)"
    using assms(4,5) by (intro linked_frame) (auto simp: list_unlink_def)
  moreover have "nxt ?h p = q" "prv ?h q = p" by (simp_all add: list_unlink_def)
  ultimately show ?thesis using assms(1,2) linked_append[of ?h xs p "q # ys"] by simp
qed

lemma ring_neighbours:
  assumes "ring h hh (as @ x # bs)"
  shows "prv h x = last (hh # as)" "nxt h x = (case bs of [] \<Rightarrow> hh | b # _ \<Rightarrow> b)"
proof -
  have l: "linked h (hh # as @ x # bs @ [hh])" using assms by (simp add: ring_def)
  have "hh # as @ x # bs @ [hh] = butlast (hh # as) @ [last (hh # as), x] @ bs @ [hh]"
    by (metis append.assoc append_Cons append_Nil append_butlast_last_id list.distinct(1))
  then show "prv h x = last (hh # as)" using l linked_prv by metis
  obtain y ys where "bs @ [hh] = y # ys" by (cases bs) auto
  then have "nxt h x = y" using l linked_prv[of h "hh # as" x y ys] by simp
  then show "nxt h x = (case bs of [] \<Rightarrow> hh | b # _ \<Rightarrow> b)" using \<open>bs @ [hh] = y # ys\<close> by (cases bs) auto
qed

lemma ring_unlink:
  assumes "ring h hh (as @ x # bs)"
  shows "ring (list_unlink (prv h x) (nxt h x) h) hh (as @ bs)"
proof -
  let ?p = "last (hh # as)"
  obtain q ys where q: "bs @ [hh] = q # ys" by (cases bs) auto
  have n: "nxt h x = q" using ring_neighbours(2)[OF assms] q by (cases bs) auto
  have p: "prv h x = ?p" by (rule ring_neighbours(1)[OF assms])
  have l: "linked h (hh # as @ x # q # ys)" and d: "distinct (hh # as @ x # bs)"
    using assms q by (auto simp: ring_def)
  have e: "hh # as = butlast (hh # as) @ [?p]" by simp
  have l1: "linked h (butlast (hh # as) @ [?p])"
    using l linked_append[of h "hh # as" x "q # ys"] linked_append[of h "butlast (hh # as)" ?p "[x]"] e
    by (metis append.assoc append_Cons append_Nil)
  have l2: "linked h (q # ys)" using l linked_append[of h "hh # as @ [x]" q ys] by simp
  have pin: "?p \<in> set (hh # as)" by (rule last_in_set) simp
  have dp: "distinct (butlast (hh # as) @ [?p])" using d e by (metis distinct_append append_Cons)
  have bq: "butlast (q # ys) = bs" using q by (metis butlast_snoc)
  have "distinct (bs @ [hh])" using d by auto
  then have sq: "distinct (q # ys)" by (simp only: q)
  have qin: "q \<in> set bs \<union> {hh}" using q by (cases bs) auto
  have "linked (list_unlink ?p q h) (butlast (hh # as) @ ?p # q # ys)"
  proof (rule linked_join[OF l1 l2])
    show "?p \<notin> set (butlast (hh # as))" using dp by simp
    show "?p \<notin> set (butlast (q # ys))" using pin bq d by auto
    show "q \<notin> set ys" using sq by simp
    show "q \<notin> set (tl (butlast (hh # as) @ [?p]))" using qin d by (simp flip: e) auto
  qed
  moreover have "butlast (hh # as) @ ?p # q # ys = hh # as @ bs @ [hh]"
    using e q by (metis append.assoc append_Cons append_Nil)
  ultimately show ?thesis using d n p by (simp add: ring_def)
qed

text \<open>What a removal and a move leave of the cells that are not neighbours.\<close>

lemma unlink_frame:
  assumes "ring h hh (as @ x # bs)" and "a \<notin> insert hh (set (as @ bs))"
  shows "nxt (list_unlink (prv h x) (nxt h x) h) a = nxt h a \<and> prv (list_unlink (prv h x) (nxt h x) h) a = prv h a"
proof -
  have "prv h x \<in> insert hh (set as)" using ring_neighbours(1)[OF assms(1)] by (simp split: if_splits)
  moreover have "nxt h x \<in> insert hh (set bs)" using ring_neighbours(2)[OF assms(1)] by (cases bs) auto
  ultimately show ?thesis using assms(2) by (auto simp: list_unlink_def)
qed

lemma ring_nxt_in: "ring h hh xs \<Longrightarrow> nxt h hh \<in> insert hh (set xs)"
  by (simp add: ring_nxt split: list.splits)

lemma split_removeAll:
  assumes "distinct xs" and "x \<in> set xs"
  obtains as bs where "xs = as @ x # bs" "removeAll x xs = as @ bs"
proof -
  obtain as bs where "xs = as @ x # bs" using assms(2) by (meson split_list)
  moreover from this have "removeAll x xs = as @ bs" using assms(1) by simp
  ultimately show thesis by (rule that)
qed

text \<open>Moving a cell to the front of another ring, of the same ring, and every third ring.\<close>

lemma list_move_rings:
  assumes r1: "ring h h1 xs" and r2: "ring h h2 ys" and x: "x \<in> set xs"
    and disj: "h1 \<noteq> h2" "insert h1 (set xs) \<inter> insert h2 (set ys) = {}"
  shows "ring (list_move x h2 h) h1 (removeAll x xs)" "ring (list_move x h2 h) h2 (x # ys)"
proof -
  have d: "distinct xs" "h1 \<notin> set xs" using r1 by (auto simp: ring_def)
  obtain as bs where s: "xs = as @ x # bs" "removeAll x xs = as @ bs" by (rule split_removeAll[OF d(1) x])
  let ?h = "list_unlink (prv h x) (nxt h x) h"
  have u1: "ring ?h h1 (as @ bs)" using ring_unlink r1 s(1) by metis
  have fr: "nxt ?h a = nxt h a \<and> prv ?h a = prv h a" if "a \<notin> insert h1 (set (as @ bs))" for a
    using unlink_frame[of h h1 as x bs a] r1 s(1) that by simp
  have u2: "ring ?h h2 ys"
    using r2 disj s(1) by (subst ring_frame[where h = h]) (auto intro!: fr)
  have xn: "x \<notin> insert h2 (set ys)" using x disj by auto
  show "ring (list_move x h2 h) h2 (x # ys)" unfolding list_move_def by (rule ring_list_add[OF u2 xn])
  have fr2: "nxt (list_add x h2 ?h) a = nxt ?h a \<and> prv (list_add x h2 ?h) a = prv ?h a" if "a \<in> insert h1 (set (as @ bs))" for a
  proof (rule list_add_frame)
    show "a \<noteq> x" using that s(1) d by auto
    show "a \<noteq> h2" "a \<noteq> nxt ?h h2" using that disj s(1) ring_nxt_in[OF u2] by auto
  qed
  show "ring (list_move x h2 h) h1 (removeAll x xs)"
    unfolding list_move_def s(2) using u1 by (subst ring_frame[OF fr2])
qed

lemma list_move_same:
  assumes r1: "ring h h1 xs" and x: "x \<in> set xs"
  shows "ring (list_move x h1 h) h1 (x # removeAll x xs)"
proof -
  have d: "distinct xs" "h1 \<notin> set xs" using r1 by (auto simp: ring_def)
  obtain as bs where s: "xs = as @ x # bs" "removeAll x xs = as @ bs" by (rule split_removeAll[OF d(1) x])
  have "ring (list_unlink (prv h x) (nxt h x) h) h1 (as @ bs)" using ring_unlink r1 s(1) by metis
  moreover have "x \<notin> insert h1 (set (as @ bs))" using s(1) d x by auto
  ultimately show ?thesis unfolding list_move_def s(2) by (rule ring_list_add)
qed

lemma list_move_frame:
  assumes r1: "ring h h1 xs" and r2: "ring h h2 ys" and x: "x \<in> set xs"
    and a: "a \<notin> insert h1 (set xs)" "a \<notin> insert h2 (set ys)"
    and disj: "h1 = h2 \<and> xs = ys \<or> insert h1 (set xs) \<inter> insert h2 (set ys) = {}"
  shows "nxt (list_move x h2 h) a = nxt h a \<and> prv (list_move x h2 h) a = prv h a"
proof -
  have d: "distinct xs" using r1 by (simp add: ring_def)
  obtain as bs where s: "xs = as @ x # bs" "removeAll x xs = as @ bs" by (rule split_removeAll[OF d x])
  let ?h = "list_unlink (prv h x) (nxt h x) h"
  have fr: "nxt ?h c = nxt h c \<and> prv ?h c = prv h c" if "c \<notin> insert h1 (set (as @ bs))" for c
    using unlink_frame[of h h1 as x bs c] r1 s(1) that by simp
  have "nxt ?h h2 \<in> insert h2 (set ys) \<union> insert h1 (set xs)"
  proof (cases "h1 = h2 \<and> xs = ys")
    case True
    then have "ring ?h h2 (as @ bs)" using ring_unlink r1 s(1) by metis
    from ring_nxt_in[OF this] show ?thesis using True s(1) by auto
  next
    case False
    then have "h2 \<notin> insert h1 (set (as @ bs))" using disj s(1) by auto
    then show ?thesis using fr ring_nxt_in[OF r2] by auto
  qed
  then have "nxt (list_add x h2 ?h) a = nxt ?h a \<and> prv (list_add x h2 ?h) a = prv ?h a"
    using a x by (intro list_add_frame) auto
  then show ?thesis using fr[of a] a(1) s(1) by (simp add: list_move_def)
qed

lemma list_del_ring:
  assumes r1: "ring h h1 xs" and x: "x \<in> set xs"
  shows "ring (list_del null x h) h1 (removeAll x xs)"
proof -
  have d: "distinct xs" "h1 \<notin> set xs" using r1 by (auto simp: ring_def)
  obtain as bs where s: "xs = as @ x # bs" "removeAll x xs = as @ bs" by (rule split_removeAll[OF d(1) x])
  have u: "ring (list_unlink (prv h x) (nxt h x) h) h1 (as @ bs)" using ring_unlink r1 s(1) by metis
  show ?thesis unfolding list_del_def s(2) using u s(1) d x
    by (subst ring_frame[where h = "list_unlink (prv h x) (nxt h x) h"]) auto
qed

lemma list_del_frame:
  assumes "ring h h1 xs" and x: "x \<in> set xs" and "a \<notin> insert h1 (set xs)"
  shows "nxt (list_del null x h) a = nxt h a \<and> prv (list_del null x h) a = prv h a"
proof -
  have d: "distinct xs" using assms(1) by (simp add: ring_def)
  obtain as bs where s: "xs = as @ x # bs" "removeAll x xs = as @ bs" by (rule split_removeAll[OF d x])
  have "a \<noteq> x" using assms(3) x by auto
  then show ?thesis using unlink_frame[of h h1 as x bs a] assms(1,3) s(1) by (simp add: list_del_def)
qed

section \<open>Iteration\<close>

text \<open>The rule for a safe reverse iteration: \<open>P us s\<close> holds before the cells \<open>us\<close> are visited,
  in that order; the visited cell's predecessor is the next cell of \<open>us\<close> or the head.  The
  loop ends, and its final state satisfies \<open>Q\<close>.\<close>

lemma for_each_safe_reverse_rule:
  assumes step: "\<And>u us s b s'. P (u # us) s \<Longrightarrow> body u s = (b, s') \<Longrightarrow>
      u \<noteq> hh \<and> (if b then Q s' else P us s')"
    and prvs: "\<And>u us s s'. P (u # us) s \<Longrightarrow> body u s = (False, s') \<Longrightarrow> prv (cells s) u = (case us of [] \<Rightarrow> hh | v # _ \<Rightarrow> v)"
    and fin: "\<And>s. P [] s \<Longrightarrow> Q s"
    and "P us s" and pos: "pos = (case us of [] \<Rightarrow> hh | v # _ \<Rightarrow> v)"
    and n: "us \<noteq> [] \<Longrightarrow> n = prv (cells s) pos"
  shows "\<exists>s'. for_each_safe_reverse cells hh body pos n s = Some s' \<and> Q s'"
  using assms(4-)
proof (induction us arbitrary: s pos n)
  case Nil
  then show ?case using fin by (subst for_each_safe_reverse.simps) auto
next
  case (Cons u us)
  obtain b s' where b: "body u s = (b, s')" by (cases "body u s")
  note st = step[OF Cons.prems(1) b]
  show ?case
  proof (cases b)
    case True
    then show ?thesis using st b Cons.prems(2) by (subst for_each_safe_reverse.simps) simp
  next
    case False
    then have "P us s'" and n: "n = (case us of [] \<Rightarrow> hh | v # _ \<Rightarrow> v)"
      using st Cons.prems prvs[OF Cons.prems(1), of s'] b by simp_all
    from Cons.IH[OF this(1) n refl] show ?thesis
      using False st b Cons.prems(2) by (subst for_each_safe_reverse.simps) simp
  qed
qed

lemma list_for_each_rule:
  assumes step: "\<And>u us s b s'. P (u # us) s \<Longrightarrow> body u s = (b, s') \<Longrightarrow>
      u \<noteq> hh \<and> (if b then Q s' else P us s' \<and> prv (cells s) u = (case us of [] \<Rightarrow> hh | v # _ \<Rightarrow> v))"
    and fin: "\<And>s. P [] s \<Longrightarrow> Q s"
    and ring: "ring (cells s) hh xs" and P: "P (rev xs) s"
  shows "\<exists>s'. list_for_each_entry_safe_reverse cells hh body s = Some s' \<and> Q s'"
proof -
  have pos: "prv (cells s) hh = (case rev xs of [] \<Rightarrow> hh | v # _ \<Rightarrow> v)"
    using ring_prv[OF ring] by (cases xs rule: rev_cases) auto
  show ?thesis unfolding list_for_each_entry_safe_reverse_def Let_def
  proof (rule for_each_safe_reverse_rule[where P = P and us = "rev xs"])
    show "u \<noteq> hh \<and> (if b then Q s' else P us s')" if "P (u # us) s" "body u s = (b, s')" for u us s b s'
      using step[OF that] by auto
    show "prv (cells s) u = (case us of [] \<Rightarrow> hh | v # _ \<Rightarrow> v)"
      if "P (u # us) s" "body u s = (False, s')" for u us s s'
      using step[OF that] by simp
  qed (use fin P pos in simp_all)
qed

lemma find_reverse_rule:
  assumes "ring h hh xs"
  shows "find_reverse h hh test (prv h hh) = Some (List.find test (rev xs))"
proof -
  have "find_reverse h hh test (last (hh # as)) = Some (List.find test (rev as))"
    if "xs = as @ bs" for as bs
    using that
  proof (induction as arbitrary: bs rule: rev_induct)
    case Nil
    then show ?case by (subst find_reverse.simps) simp
  next
    case (snoc a as)
    then have r: "ring h hh (as @ a # bs)" using assms by simp
    have "a \<noteq> hh" using r by (auto simp: ring_def)
    then show ?case using snoc.IH[of "a # bs"] snoc.prems ring_neighbours(1)[OF r]
      by (subst find_reverse.simps) simp
  qed
  from this[of xs "[]"] show ?thesis using ring_prv[OF assms] by simp
qed

end
