(* ===== verification/Lru_List.thy ===== *)
theory Lru_List
  imports List_Head
begin

text \<open>
  The LRU lists of \<^verbatim>\<open>shims/kernel/bpf/bpf_lru_list.c\<close> at pointer level: the five list heads
  (three of \<^verbatim>\<open>struct bpf_lru_list\<close>, two of \<^verbatim>\<open>struct bpf_lru_locallist\<close>) and the nodes are
  addresses of one heap of list cells, the node fields a function of the node number, and
  every function of the file is a state transformer.  The file is compiled with
  \<^verbatim>\<open>WARN_ON_ONCE(c)\<close> defined as \<^verbatim>\<open>(0)\<close>, so the early returns it guards do not exist in
  the program and have no branch here.  The loops over lists use the iteration macro of
  \<open>List_Head\<close>; \<open>None\<close> is a loop that never ends.
\<close>

section \<open>Data\<close>

datatype lru_list_type = ACTIVE | INACTIVE | FREE | LOCAL_FREE | LOCAL_PENDING

text \<open>The numbering of \<^verbatim>\<open>enum bpf_lru_list_type\<close>.\<close>

fun lt_num :: "lru_list_type \<Rightarrow> nat" where
  "lt_num ACTIVE = 0" | "lt_num INACTIVE = 1" | "lt_num FREE = 2"
| "lt_num LOCAL_FREE = 3" | "lt_num LOCAL_PENDING = 4"

abbreviation NR_BPF_LRU_LIST_COUNT :: nat where "NR_BPF_LRU_LIST_COUNT \<equiv> 2"
abbreviation NR_BPF_LRU_LIST_T :: nat where "NR_BPF_LRU_LIST_T \<equiv> 3"
abbreviation LOCAL_FREE_TARGET :: u32 where "LOCAL_FREE_TARGET \<equiv> 128"

definition IS_LOCAL_LIST_TYPE :: "lru_list_type \<Rightarrow> bool" where
  "IS_LOCAL_LIST_TYPE t \<longleftrightarrow> lt_num t \<ge> NR_BPF_LRU_LIST_T"

datatype adr = Null | Head lru_list_type | Node nat

text \<open>\<^verbatim>\<open>list_entry(ptr, struct bpf_lru_node, list)\<close>; on a list head it would be a stray
  pointer, which the program never dereferences.\<close>

fun entry :: "adr \<Rightarrow> nat" where
  "entry (Node n) = n"
| "entry _ = 0"

record bpf_lru_node =
  cpu :: u16
  ntype :: lru_list_type
  ref :: u8
  hash :: u32

record bpf_lru =
  cells :: "adr list_head"
  node :: "nat \<Rightarrow> bpf_lru_node"
  counts :: "lru_list_type \<Rightarrow> u32"
  next_inactive_rotation :: adr
  next_steal :: u16
  target_free :: u32
  nr_scans :: u32
  percpu :: bool

definition set_node_field :: "nat \<Rightarrow> (bpf_lru_node \<Rightarrow> bpf_lru_node) \<Rightarrow> bpf_lru \<Rightarrow> bpf_lru" where
  "set_node_field n f s = s\<lparr>node := (node s)(n := f (node s n))\<rparr>"

definition set_cells :: "(adr list_head \<Rightarrow> adr list_head) \<Rightarrow> bpf_lru \<Rightarrow> bpf_lru" where
  "set_cells f s = s\<lparr>cells := f (cells s)\<rparr>"

section \<open>Node helpers and counters\<close>

definition bpf_lru_node_is_ref :: "nat \<Rightarrow> bpf_lru \<Rightarrow> bool" where
  "bpf_lru_node_is_ref n s = c_true (ref (node s n))"

definition bpf_lru_node_set_ref :: "nat \<Rightarrow> bpf_lru \<Rightarrow> bpf_lru" where
  "bpf_lru_node_set_ref n s =
     (if \<not> c_true (ref (node s n)) then set_node_field n (\<lambda>x. x\<lparr>ref := 1\<rparr>) s else s)"

definition bpf_lru_node_clear_ref :: "nat \<Rightarrow> bpf_lru \<Rightarrow> bpf_lru" where
  "bpf_lru_node_clear_ref n s = set_node_field n (\<lambda>x. x\<lparr>ref := 0\<rparr>) s"

definition set_type :: "nat \<Rightarrow> lru_list_type \<Rightarrow> bpf_lru \<Rightarrow> bpf_lru" where
  "set_type n t s = set_node_field n (\<lambda>x. x\<lparr>ntype := t\<rparr>) s"

definition bpf_lru_list_count_inc :: "lru_list_type \<Rightarrow> bpf_lru \<Rightarrow> bpf_lru" where
  "bpf_lru_list_count_inc t s =
     (if lt_num t < NR_BPF_LRU_LIST_COUNT then s\<lparr>counts := (counts s)(t := counts s t + 1)\<rparr> else s)"

definition bpf_lru_list_count_dec :: "lru_list_type \<Rightarrow> bpf_lru \<Rightarrow> bpf_lru" where
  "bpf_lru_list_count_dec t s =
     (if lt_num t < NR_BPF_LRU_LIST_COUNT then s\<lparr>counts := (counts s)(t := counts s t - 1)\<rparr> else s)"

text \<open>\<^verbatim>\<open>if (&node->list == l->next_inactive_rotation) ... = ...->prev;\<close>\<close>

definition skip_rotation :: "nat \<Rightarrow> bpf_lru \<Rightarrow> bpf_lru" where
  "skip_rotation n s = (if Node n = next_inactive_rotation s
     then s\<lparr>next_inactive_rotation := prv (cells s) (next_inactive_rotation s)\<rparr> else s)"

section \<open>Moving nodes\<close>

definition node_move_to_free :: "nat \<Rightarrow> adr \<Rightarrow> lru_list_type \<Rightarrow> bpf_lru \<Rightarrow> bpf_lru" where
  "node_move_to_free n free_list tgt_free_type s =
     (let s = skip_rotation n s;
          s = bpf_lru_list_count_dec (ntype (node s n)) s;
          s = set_type n tgt_free_type s
      in set_cells (list_move (Node n) free_list) s)"

definition node_move_in :: "nat \<Rightarrow> lru_list_type \<Rightarrow> bpf_lru \<Rightarrow> bpf_lru" where
  "node_move_in n tgt_type s =
     (let s = bpf_lru_list_count_inc tgt_type s;
          s = set_type n tgt_type s;
          s = bpf_lru_node_clear_ref n s
      in set_cells (list_move (Node n) (Head tgt_type)) s)"

definition node_move :: "nat \<Rightarrow> lru_list_type \<Rightarrow> bpf_lru \<Rightarrow> bpf_lru" where
  "node_move n tgt_type s =
     (let s = (if ntype (node s n) \<noteq> tgt_type
               then set_type n tgt_type (bpf_lru_list_count_inc tgt_type
                      (bpf_lru_list_count_dec (ntype (node s n)) s))
               else s);
          s = bpf_lru_node_clear_ref n s;
          s = skip_rotation n s
      in set_cells (list_move (Node n) (Head tgt_type)) s)"

definition bpf_lru_list_inactive_low :: "bpf_lru \<Rightarrow> bool" where
  "bpf_lru_list_inactive_low s \<longleftrightarrow> counts s INACTIVE < counts s ACTIVE"

section \<open>Rotation\<close>

text \<open>The body of the loop of \<^verbatim>\<open>__bpf_lru_list_rotate_active\<close>; the loop state carries \<^verbatim>\<open>i\<close>.\<close>

definition rotate_active_body :: "adr \<Rightarrow> adr \<Rightarrow> bpf_lru \<times> u32 \<Rightarrow> bool \<times> bpf_lru \<times> u32" where
  "rotate_active_body first_node pos = (\<lambda>(s, i).
     let n = entry pos;
         s = (if bpf_lru_node_is_ref n s then node_move n ACTIVE s else node_move n INACTIVE s);
         i = i + 1
     in (i = nr_scans s \<or> pos = first_node, s, i))"

definition rotate_active :: "bpf_lru \<Rightarrow> bpf_lru option" where
  "rotate_active s =
     (let first_node = nxt (cells s) (Head ACTIVE)
      in map_option fst (list_for_each_entry_safe_reverse (cells \<circ> fst) (Head ACTIVE)
           (rotate_active_body first_node) (s, 0)))"

partial_function (option) rotate_inactive_loop ::
    "adr \<Rightarrow> adr \<Rightarrow> adr \<Rightarrow> u32 \<Rightarrow> bpf_lru \<Rightarrow> (adr \<times> bpf_lru) option" where
  "rotate_inactive_loop lastp cur next i s =
     (if i < nr_scans s then
        (if cur = Head INACTIVE then rotate_inactive_loop lastp (prv (cells s) cur) next i s
         else
           let n = entry cur;
               next = prv (cells s) cur;
               s = (if bpf_lru_node_is_ref n s then node_move n ACTIVE s else s)
           in if cur = lastp then Some (next, s)
              else rotate_inactive_loop lastp next next (i + 1) s)
      else Some (next, s))"

declare rotate_inactive_loop.simps [code]

definition rotate_inactive :: "bpf_lru \<Rightarrow> bpf_lru option" where
  "rotate_inactive s =
     (let inactive = Head INACTIVE
      in if list_empty inactive (cells s) then Some s
         else
           let lastp = nxt (cells s) (next_inactive_rotation s);
               lastp = (if lastp = inactive then nxt (cells s) lastp else lastp)
           in map_option (\<lambda>(next, s). s\<lparr>next_inactive_rotation := next\<rparr>)
                (rotate_inactive_loop lastp (next_inactive_rotation s) inactive 0 s))"

definition rotate :: "bpf_lru \<Rightarrow> bpf_lru option" where
  "rotate s = (case (if bpf_lru_list_inactive_low s then rotate_active s else Some s) of
     None \<Rightarrow> None | Some s \<Rightarrow> rotate_inactive s)"

section \<open>Shrinking\<close>

definition bpf_lru_delete_node :: "nat \<Rightarrow> bool" where
  "bpf_lru_delete_node n = True"

definition shrink_inactive_body ::
    "u32 \<Rightarrow> adr \<Rightarrow> lru_list_type \<Rightarrow> adr \<Rightarrow> bpf_lru \<times> u32 \<times> u32 \<Rightarrow> bool \<times> bpf_lru \<times> u32 \<times> u32" where
  "shrink_inactive_body tgt_nshrink free_list tgt_free_type pos = (\<lambda>(s, nshrinked, i).
     let n = entry pos
     in if bpf_lru_node_is_ref n s then
         (let s = node_move n ACTIVE s; i = i + 1 in (i = nr_scans s, s, nshrinked, i))
       else if bpf_lru_delete_node n then
         (let s = node_move_to_free n free_list tgt_free_type s; nshrinked = nshrinked + 1
          in if nshrinked = tgt_nshrink then (True, s, nshrinked, i)
             else let i = i + 1 in (i = nr_scans s, s, nshrinked, i))
       else (let i = i + 1 in (i = nr_scans s, s, nshrinked, i)))"

definition shrink_inactive :: "u32 \<Rightarrow> adr \<Rightarrow> lru_list_type \<Rightarrow> bpf_lru \<Rightarrow> (u32 \<times> bpf_lru) option" where
  "shrink_inactive tgt_nshrink free_list tgt_free_type s =
     map_option (\<lambda>(s, nshrinked, i). (nshrinked, s))
       (list_for_each_entry_safe_reverse (cells \<circ> fst) (Head INACTIVE)
          (shrink_inactive_body tgt_nshrink free_list tgt_free_type) (s, 0, 0))"

text \<open>The forced loop of \<^verbatim>\<open>__bpf_lru_list_shrink\<close>: its state carries the return value.\<close>

definition force_shrink_body :: "adr \<Rightarrow> lru_list_type \<Rightarrow> adr \<Rightarrow> bpf_lru \<times> u32 \<Rightarrow> bool \<times> bpf_lru \<times> u32" where
  "force_shrink_body free_list tgt_free_type pos = (\<lambda>(s, r).
     if bpf_lru_delete_node (entry pos) then (True, node_move_to_free (entry pos) free_list tgt_free_type s, 1)
     else (False, s, r))"

definition shrink :: "u32 \<Rightarrow> adr \<Rightarrow> lru_list_type \<Rightarrow> bpf_lru \<Rightarrow> (u32 \<times> bpf_lru) option" where
  "shrink tgt_nshrink free_list tgt_free_type s =
     (case shrink_inactive tgt_nshrink free_list tgt_free_type s of
        None \<Rightarrow> None
      | Some (nshrinked, s) \<Rightarrow>
          if c_true nshrinked then Some (nshrinked, s)
          else
            let force_shrink_list =
                  (if \<not> list_empty (Head INACTIVE) (cells s) then Head INACTIVE else Head ACTIVE)
            in map_option (\<lambda>(s, r). (r, s))
                 (list_for_each_entry_safe_reverse (cells \<circ> fst) force_shrink_list
                    (force_shrink_body free_list tgt_free_type) (s, 0)))"

section \<open>Free lists and local lists\<close>

definition bpf_lru_list_push_free :: "nat \<Rightarrow> bpf_lru \<Rightarrow> bpf_lru" where
  "bpf_lru_list_push_free n s = node_move n FREE s"

definition local_flush_body :: "adr \<Rightarrow> bpf_lru \<Rightarrow> bool \<times> bpf_lru" where
  "local_flush_body pos s =
     (let n = entry pos
      in (False, if bpf_lru_node_is_ref n s then node_move_in n ACTIVE s else node_move_in n INACTIVE s))"

definition local_list_flush :: "bpf_lru \<Rightarrow> bpf_lru option" where
  "local_list_flush s = list_for_each_entry_safe_reverse cells (Head LOCAL_PENDING) local_flush_body s"

definition pop_free_to_local :: "bpf_lru \<Rightarrow> bpf_lru" where
  "pop_free_to_local s = (case list_first_or_null (Head FREE) (cells s) of
     None \<Rightarrow> s
   | Some p \<Rightarrow> node_move_to_free (entry p) (Head LOCAL_FREE) LOCAL_FREE s)"

definition local_list_add_pending :: "u16 \<Rightarrow> nat \<Rightarrow> u32 \<Rightarrow> bpf_lru \<Rightarrow> bpf_lru" where
  "local_list_add_pending c n h s =
     (let s = set_node_field n (\<lambda>x. x\<lparr>hash := h\<rparr>) s;
          s = set_node_field n (\<lambda>x. x\<lparr>cpu := c\<rparr>) s;
          s = set_type n LOCAL_PENDING s;
          s = bpf_lru_node_clear_ref n s
      in set_cells (list_add (Node n) (Head LOCAL_PENDING)) s)"

definition local_list_pop_free :: "bpf_lru \<Rightarrow> nat option \<times> bpf_lru" where
  "local_list_pop_free s = (case list_first_or_null (Head LOCAL_FREE) (cells s) of
     None \<Rightarrow> (None, s)
   | Some p \<Rightarrow> (Some (entry p), set_cells (list_del Null p) s))"

text \<open>\<^verbatim>\<open>__local_list_pop_pending\<close>: a pass over unreferenced nodes, then, with \<^verbatim>\<open>force\<close>, one
  over all nodes.\<close>

definition pop_pending_test :: "bool \<Rightarrow> bpf_lru \<Rightarrow> adr \<Rightarrow> bool" where
  "pop_pending_test force s p \<longleftrightarrow>
     (\<not> bpf_lru_node_is_ref (entry p) s \<or> force) \<and> bpf_lru_delete_node (entry p)"

definition local_list_pop_pending :: "bpf_lru \<Rightarrow> (nat option \<times> bpf_lru) option" where
  "local_list_pop_pending s =
     (let pass = (\<lambda>force. find_reverse (cells s) (Head LOCAL_PENDING) (pop_pending_test force s)
                            (prv (cells s) (Head LOCAL_PENDING)));
          found = (\<lambda>p. Some (Some (entry p), set_cells (list_del Null p) s))
      in case pass False of
           None \<Rightarrow> None
         | Some (Some p) \<Rightarrow> found p
         | Some None \<Rightarrow> (case pass True of
               None \<Rightarrow> None
             | Some (Some p) \<Rightarrow> found p
             | Some None \<Rightarrow> Some (None, s)))"

definition common_lru_pop_free :: "u32 \<Rightarrow> bpf_lru \<Rightarrow> nat option \<times> bpf_lru" where
  "common_lru_pop_free h s =
     (let (n, s) = local_list_pop_free s;
          (n, s) = (case n of None \<Rightarrow> local_list_pop_free (pop_free_to_local s) | Some _ \<Rightarrow> (n, s))
      in case n of None \<Rightarrow> (None, s) | Some k \<Rightarrow> (Some k, local_list_add_pending 0 k h s))"

text \<open>The second read of \<^verbatim>\<open>node->type\<close> under the lock sees the value of the first one: the
  shim runs on one CPU.\<close>

definition common_lru_push_free :: "nat \<Rightarrow> bpf_lru \<Rightarrow> bpf_lru" where
  "common_lru_push_free n s =
     (if ntype (node s n) = LOCAL_PENDING then
        (if ntype (node s n) \<noteq> LOCAL_PENDING then bpf_lru_list_push_free n s
         else
           let s = set_type n LOCAL_FREE s;
               s = bpf_lru_node_clear_ref n s
           in set_cells (list_move (Node n) (Head LOCAL_FREE)) s)
      else bpf_lru_list_push_free n s)"

definition bpf_lru_pop_free :: "u32 \<Rightarrow> bpf_lru \<Rightarrow> nat option \<times> bpf_lru" where
  "bpf_lru_pop_free h s = (if percpu s then (None, s) else common_lru_pop_free h s)"

definition bpf_lru_push_free :: "nat \<Rightarrow> bpf_lru \<Rightarrow> bpf_lru" where
  "bpf_lru_push_free n s = (if \<not> percpu s then common_lru_push_free n s else s)"

section \<open>Initialisation\<close>

definition bpf_lru_list_init :: "bpf_lru \<Rightarrow> bpf_lru" where
  "bpf_lru_list_init s =
     (let s = fold (\<lambda>t. set_cells (INIT_LIST_HEAD (Head t))) [ACTIVE, INACTIVE, FREE] s;
          s = fold (\<lambda>t s. s\<lparr>counts := (counts s)(t := 0)\<rparr>) [ACTIVE, INACTIVE] s
      in s\<lparr>next_inactive_rotation := Head INACTIVE\<rparr>)"

definition bpf_lru_locallist_init :: "u16 \<Rightarrow> bpf_lru \<Rightarrow> bpf_lru" where
  "bpf_lru_locallist_init c s =
     (fold (\<lambda>t. set_cells (INIT_LIST_HEAD (Head t))) [LOCAL_FREE, LOCAL_PENDING] s)\<lparr>next_steal := c\<rparr>"

definition populate_node :: "nat \<Rightarrow> bpf_lru \<Rightarrow> bpf_lru" where
  "populate_node n s = set_cells (list_add (Node n) (Head FREE))
     (bpf_lru_node_clear_ref n (set_type n FREE s))"

text \<open>\<^verbatim>\<open>bpf_lru_list_populate\<close> also resets the \<^verbatim>\<open>cpu\<close> field.\<close>

definition bpf_lru_list_populate :: "nat \<Rightarrow> bpf_lru \<Rightarrow> bpf_lru" where
  "bpf_lru_list_populate nr_elems =
     fold (\<lambda>i s. set_cells (list_add (Node i) (Head FREE))
        (set_node_field i (\<lambda>x. x\<lparr>cpu := 0\<rparr>) (set_node_field i (\<lambda>x. x\<lparr>ref := 0\<rparr>) (set_type i FREE s))))
       [0..<nr_elems]"

definition bpf_lru_populate :: "u32 \<Rightarrow> bpf_lru \<Rightarrow> bpf_lru" where
  "bpf_lru_populate nr_elems s =
     (if percpu s then s
      else
        let s = fold populate_node [0..<unat nr_elems] s;
            tf = nr_elems div 2;
            tf = (if tf < 1 then 1 else tf);
            tf = (if tf > LOCAL_FREE_TARGET then LOCAL_FREE_TARGET else tf)
        in s\<lparr>target_free := tf\<rparr>)"

definition bpf_lru_list_alloc :: "bpf_lru \<Rightarrow> nat option \<times> bpf_lru" where
  "bpf_lru_list_alloc s =
     (if list_empty (Head FREE) (cells s) then (None, s)
      else
        let n = entry (nxt (cells s) (Head FREE));
            s = bpf_lru_list_count_inc INACTIVE s;
            s = set_type n INACTIVE s;
            s = bpf_lru_node_clear_ref n s
        in (Some n, set_cells (list_move (Node n) (Head INACTIVE)) s))"

end
