(* ===== verification/Lru_Inv.thy ===== *)
theory Lru_Inv
  imports Lru_List
begin

text \<open>
  The invariant of the LRU lists and the refinement of every pointer operation by an
  operation on five disjoint lists of nodes: \<open>lru_rep s L\<close> says that the cells hang in the
  rings \<open>L\<close>, that every node's type names the list it is on, that the two counters are the
  lengths of the active and inactive lists, and that the rotation pointer stays on the
  inactive list.
\<close>

type_synonym lru_lists = "lru_list_type \<Rightarrow> nat list"

definition rings :: "adr list_head \<Rightarrow> lru_lists \<Rightarrow> bool" where
  "rings h L \<longleftrightarrow> (\<forall>t. ring h (Head t) (map Node (L t))) \<and> (\<forall>t u. t \<noteq> u \<longrightarrow> set (L t) \<inter> set (L u) = {})"

definition rotor_ok :: "adr \<Rightarrow> nat list \<Rightarrow> bool" where
  "rotor_ok p xs \<longleftrightarrow> p \<in> insert (Head INACTIVE) (Node ` set xs)"

definition lru_rep :: "bpf_lru \<Rightarrow> lru_lists \<Rightarrow> bool" where
  "lru_rep s L \<longleftrightarrow> rings (cells s) L \<and> (\<forall>t. \<forall>n \<in> set (L t). ntype (node s n) = t) \<and>
     counts s ACTIVE = of_nat (length (L ACTIVE)) \<and> counts s INACTIVE = of_nat (length (L INACTIVE)) \<and>
     rotor_ok (next_inactive_rotation s) (L INACTIVE)"

text \<open>The abstract move: node \<open>n\<close> goes to the front of list \<open>t\<close>.\<close>

definition amove :: "nat \<Rightarrow> lru_list_type \<Rightarrow> lru_lists \<Rightarrow> lru_lists" where
  "amove n t L = (\<lambda>u. if u = t then n # removeAll n (L u) else removeAll n (L u))"

definition adel :: "nat \<Rightarrow> lru_lists \<Rightarrow> lru_lists" where
  "adel n L = (\<lambda>u. removeAll n (L u))"

definition all_nodes :: "lru_lists \<Rightarrow> nat set" where
  "all_nodes L = (\<Union>t. set (L t))"

lemma all_nodes_amove_insert: "all_nodes (amove n t L) = insert n (all_nodes L)"
proof (rule set_eqI)
  fix x
  show "x \<in> all_nodes (amove n t L) \<longleftrightarrow> x \<in> insert n (all_nodes L)"
  proof (cases "x = n")
    case True
    have "n \<in> set (amove n t L t)" by (simp add: amove_def)
    then show ?thesis using True unfolding all_nodes_def by blast
  next
    case False
    then have "x \<in> set (amove n t L u) \<longleftrightarrow> x \<in> set (L u)" for u by (simp add: amove_def)
    then show ?thesis using False unfolding all_nodes_def by simp
  qed
qed

lemma all_nodes_amove [simp]: "n \<in> all_nodes L \<Longrightarrow> all_nodes (amove n t L) = all_nodes L"
  by (simp add: all_nodes_amove_insert insert_absorb)

lemma all_nodes_adel: "all_nodes (adel n L) = all_nodes L - {n}"
  by (auto simp: all_nodes_def adel_def)

section \<open>Rings under moves\<close>

lemma rings_disjoint:
  assumes "rings h L" and "t \<noteq> u"
  shows "insert (Head t) (set (map Node (L t))) \<inter> insert (Head u) (set (map Node (L u))) = {}"
  using assms by (auto simp: rings_def)

lemma removeAll_map_Node: "removeAll (Node n) (map Node xs) = map Node (removeAll n xs)"
  by (induction xs) auto

lemma removeAll_other: "rings h L \<Longrightarrow> n \<in> set (L f) \<Longrightarrow> u \<noteq> f \<Longrightarrow> removeAll n (L u) = L u"
  by (rule removeAll_id) (auto simp: rings_def)

lemma rings_distinct: "rings h L \<Longrightarrow> distinct (L t)"
  by (auto simp: rings_def ring_def distinct_map)

lemma rings_move:
  assumes r: "rings h L" and n: "n \<in> set (L f)"
  shows "rings (list_move (Node n) (Head t) h) (amove n t L)"
proof -
  let ?h = "list_move (Node n) (Head t) h"
  have rg: "ring h (Head u) (map Node (L u))" for u using r by (simp add: rings_def)
  have x: "Node n \<in> set (map Node (L f))" using n by simp
  have ring: "ring ?h (Head u) (map Node (amove n t L u))" for u
  proof (cases "f = t")
    case True
    show ?thesis
    proof (cases "u = t")
      case eq: True
      then show ?thesis using list_move_same[OF rg[of t], of "Node n"] x True
        by (simp add: amove_def removeAll_map_Node)
    next
      case False
      have "ring ?h (Head u) (map Node (L u))"
        using rg[of u] by (subst ring_frame[where h = h])
          (use list_move_frame[OF rg[of f] rg[of t] x] True rings_disjoint[OF r False] in blast)+
      then show ?thesis using removeAll_other[OF r n] False True by (simp add: amove_def)
    qed
  next
    case False
    note m = list_move_rings[OF rg[of f] rg[of t] x _ rings_disjoint[OF r False]]
    consider "u = t" | "u = f" | "u \<noteq> t" "u \<noteq> f" by blast
    then show ?thesis
    proof cases
      case 1
      then show ?thesis using m(2) False removeAll_other[OF r n, of t] by (simp add: amove_def)
    next
      case 2
      then show ?thesis using m(1) False by (simp add: amove_def removeAll_map_Node)
    next
      case 3
      have "ring ?h (Head u) (map Node (L u))"
        using rg[of u] by (subst ring_frame[where h = h])
          (use list_move_frame[OF rg[of f] rg[of t] x] rings_disjoint[OF r False]
             rings_disjoint[OF r 3(1)] rings_disjoint[OF r 3(2)] in blast)+
      then show ?thesis using removeAll_other[OF r n] 3 by (simp add: amove_def)
    qed
  qed
  have "set (amove n t L a) \<inter> set (amove n t L b) = {}" if "a \<noteq> b" for a b
    using that r by (auto simp: amove_def rings_def)
  then show ?thesis using ring by (simp add: rings_def)
qed

lemma rings_del:
  assumes r: "rings h L" and n: "n \<in> set (L f)"
  shows "rings (list_del Null (Node n) h) (adel n L)"
proof -
  have rg: "ring h (Head u) (map Node (L u))" for u using r by (simp add: rings_def)
  have x: "Node n \<in> set (map Node (L f))" using n by simp
  have "ring (list_del Null (Node n) h) (Head u) (map Node (adel n L u))" for u
  proof (cases "u = f")
    case True
    then show ?thesis using list_del_ring[OF rg[of f] x] by (simp add: adel_def removeAll_map_Node)
  next
    case False
    have "ring (list_del Null (Node n) h) (Head u) (map Node (L u))"
      using rg[of u] by (subst ring_frame[where h = h])
        (use list_del_frame[OF rg[of f] x] rings_disjoint[OF r False] in blast)+
    then show ?thesis using removeAll_other[OF r n False] by (simp add: adel_def)
  qed
  moreover have "set (adel n L a) \<inter> set (adel n L b) = {}" if "a \<noteq> b" for a b
    using that r by (auto simp: adel_def rings_def)
  ultimately show ?thesis by (simp add: rings_def)
qed

lemma rings_add:
  assumes r: "rings h L" and n: "n \<notin> all_nodes L"
  shows "rings (list_add (Node n) (Head t) h) (amove n t L)"
proof -
  have rg: "ring h (Head u) (map Node (L u))" for u using r by (simp add: rings_def)
  have nn: "Node n \<notin> insert (Head t) (set (map Node (L t)))" using n by (auto simp: all_nodes_def)
  have rm: "removeAll n (L u) = L u" for u using n by (intro removeAll_id) (auto simp: all_nodes_def)
  have "ring (list_add (Node n) (Head t) h) (Head u) (map Node (amove n t L u))" for u
  proof (cases "u = t")
    case True
    then show ?thesis using ring_list_add[OF rg nn] rm by (simp add: amove_def)
  next
    case False
    have "ring (list_add (Node n) (Head t) h) (Head u) (map Node (L u))"
    proof -
      have "nxt (list_add (Node n) (Head t) h) a = nxt h a \<and> prv (list_add (Node n) (Head t) h) a = prv h a"
        if "a \<in> insert (Head u) (set (map Node (L u)))" for a
      proof (rule list_add_frame)
        show "a \<noteq> Node n" using that n by (auto simp: all_nodes_def)
        show "a \<noteq> Head t" "a \<noteq> nxt h (Head t)"
          using that rings_disjoint[OF r False] ring_nxt_in[OF rg[of t]] by auto
      qed
      then show ?thesis using rg[of u] by (subst ring_frame[where h = h])
    qed
    then show ?thesis using rm False by (simp add: amove_def)
  qed
  moreover have "set (amove n t L a) \<inter> set (amove n t L b) = {}" if "a \<noteq> b" for a b
    using that r n by (auto simp: amove_def rings_def all_nodes_def)
  ultimately show ?thesis by (simp add: rings_def)
qed

section \<open>Operations on nodes\<close>

lemma field_simps_lru [simp]:
  "cells (set_node_field n f s) = cells s" "counts (set_node_field n f s) = counts s"
  "next_inactive_rotation (set_node_field n f s) = next_inactive_rotation s"
  "node (set_node_field n f s) = (node s)(n := f (node s n))" "nr_scans (set_node_field n f s) = nr_scans s"
  "percpu (set_node_field n f s) = percpu s"
  "cells (set_cells g s) = g (cells s)" "counts (set_cells g s) = counts s" "node (set_cells g s) = node s"
  "next_inactive_rotation (set_cells g s) = next_inactive_rotation s" "nr_scans (set_cells g s) = nr_scans s"
  "percpu (set_cells g s) = percpu s"
  by (simp_all add: set_node_field_def set_cells_def)

lemma count_simps [simp]:
  "cells (bpf_lru_list_count_inc t s) = cells s" "node (bpf_lru_list_count_inc t s) = node s"
  "next_inactive_rotation (bpf_lru_list_count_inc t s) = next_inactive_rotation s"
  "nr_scans (bpf_lru_list_count_inc t s) = nr_scans s" "percpu (bpf_lru_list_count_inc t s) = percpu s"
  "cells (bpf_lru_list_count_dec t s) = cells s" "node (bpf_lru_list_count_dec t s) = node s"
  "next_inactive_rotation (bpf_lru_list_count_dec t s) = next_inactive_rotation s"
  "nr_scans (bpf_lru_list_count_dec t s) = nr_scans s" "percpu (bpf_lru_list_count_dec t s) = percpu s"
  by (simp_all add: bpf_lru_list_count_inc_def bpf_lru_list_count_dec_def)

lemma skip_simps [simp]:
  "cells (skip_rotation n s) = cells s" "node (skip_rotation n s) = node s" "counts (skip_rotation n s) = counts s"
  "nr_scans (skip_rotation n s) = nr_scans s" "percpu (skip_rotation n s) = percpu s"
  by (simp_all add: skip_rotation_def)

definition counted_type :: "lru_list_type \<Rightarrow> bool" where
  "counted_type t \<longleftrightarrow> t = ACTIVE \<or> t = INACTIVE"

lemma lt_num_counted: "lt_num t < NR_BPF_LRU_LIST_COUNT \<longleftrightarrow> counted_type t"
  by (cases t) (auto simp: counted_type_def)

lemma counts_inc: "counts (bpf_lru_list_count_inc t s) u = counts s u + (if u = t \<and> counted_type t then 1 else 0)"
  by (simp add: bpf_lru_list_count_inc_def lt_num_counted)

lemma counts_dec: "counts (bpf_lru_list_count_dec t s) u = counts s u - (if u = t \<and> counted_type t then 1 else 0)"
  by (simp add: bpf_lru_list_count_dec_def lt_num_counted)

lemma length_amove:
  assumes "rings h L" and "n \<in> set (L f)"
  shows "length (amove n t L u) =
    (if u = t then Suc (if f = t then length (L u) - 1 else length (L u))
     else if u = f then length (L u) - 1 else length (L u))"
proof -
  have "length (removeAll n (L f)) = length (L f) - 1"
    using assms rings_distinct[OF assms(1), of f] by (simp add: distinct_remove1_removeAll[symmetric] length_remove1)
  moreover have "removeAll n (L v) = L v" if "v \<noteq> f" for v by (rule removeAll_other[OF assms that])
  ultimately show ?thesis by (auto simp: amove_def)
qed

text \<open>The rotation pointer leaves a node before the node is moved away.\<close>

lemma skip_rotor:
  assumes r: "lru_rep s L" and n: "n \<in> set (L f)"
  shows "rotor_ok (next_inactive_rotation (skip_rotation n s)) (removeAll n (L INACTIVE))"
proof (cases "Node n = next_inactive_rotation s")
  case False
  then show ?thesis using r by (auto simp: lru_rep_def rotor_ok_def skip_rotation_def)
next
  case True
  then have ni: "n \<in> set (L INACTIVE)" using r by (auto simp: lru_rep_def rotor_ok_def)
  have rg: "rings (cells s) L" using r by (simp add: lru_rep_def)
  obtain as bs where s: "L INACTIVE = as @ n # bs" "removeAll n (L INACTIVE) = as @ bs"
    by (rule split_removeAll[OF rings_distinct[OF rg] ni])
  have "ring (cells s) (Head INACTIVE) (map Node as @ Node n # map Node bs)"
    using rg s(1) by (simp add: rings_def) (metis list.simps(9) map_append)
  from ring_neighbours(1)[OF this] have "prv (cells s) (Node n) = last (Head INACTIVE # map Node as)" .
  then have "prv (cells s) (Node n) \<in> insert (Head INACTIVE) (Node ` set as)"
    by (simp add: last_map split: if_splits)
  then show ?thesis using True s(2) by (auto simp: skip_rotation_def rotor_ok_def)
qed

lemma rotor_amove: "rotor_ok p (removeAll n (L INACTIVE)) \<Longrightarrow> rotor_ok p (amove n t L INACTIVE)"
  by (auto simp: rotor_ok_def amove_def)

lemma move_rep:
  assumes r: "lru_rep s L" and n: "n \<in> set (L f)"
  shows "lru_rep (node_move n t s) (amove n t L)"
proof -
  have rg: "rings (cells s) L" and tn: "ntype (node s n) = f" using r n by (auto simp: lru_rep_def)
  have c: "counts (node_move n t s) u = counts s u - (if f \<noteq> t \<and> u = f \<and> counted_type f then 1 else 0)
      + (if f \<noteq> t \<and> u = t \<and> counted_type t then 1 else 0)" for u
    using tn by (simp add: node_move_def Let_def set_type_def bpf_lru_node_clear_ref_def counts_inc counts_dec)
  have l: "length (L f) \<noteq> 0" using n by auto
  have cnt: "counts (node_move n t s) u = of_nat (length (amove n t L u))" if "counted_type u" for u
    using r that l unfolding c length_amove[OF rg n] by (auto simp: lru_rep_def counted_type_def of_nat_length_pred)
  have cells: "cells (node_move n t s) = list_move (Node n) (Head t) (cells s)"
    by (simp add: node_move_def Let_def set_type_def bpf_lru_node_clear_ref_def)
  have types: "ntype (node (node_move n t s) m) = (if m = n then t else ntype (node s m))" for m
    using tn by (simp add: node_move_def Let_def set_type_def bpf_lru_node_clear_ref_def)
  have rot: "next_inactive_rotation (node_move n t s) = next_inactive_rotation (skip_rotation n s)"
    by (simp add: node_move_def Let_def skip_rotation_def set_type_def bpf_lru_node_clear_ref_def)
  have "ntype (node (node_move n t s) m) = u" if "m \<in> set (amove n t L u)" for m u
    using that r by (auto simp: types amove_def lru_rep_def split: if_splits)
  moreover have "rotor_ok (next_inactive_rotation (node_move n t s)) (amove n t L INACTIVE)"
    unfolding rot by (rule rotor_amove[where L = L and n = n, OF skip_rotor[OF r n]])
  moreover have "rings (cells (node_move n t s)) (amove n t L)" unfolding cells by (rule rings_move[OF rg n])
  ultimately show ?thesis using cnt by (simp add: lru_rep_def counted_type_def)
qed

lemma move_to_free_rep:
  assumes r: "lru_rep s L" and n: "n \<in> set (L f)" and t: "\<not> counted_type t"
  shows "lru_rep (node_move_to_free n (Head t) t s) (amove n t L)"
proof -
  let ?s = "node_move_to_free n (Head t) t s"
  have rg: "rings (cells s) L" and tn: "ntype (node s n) = f" using r n by (auto simp: lru_rep_def)
  have l: "length (L f) \<noteq> 0" using n by auto
  have c: "counts ?s u = counts s u - (if u = f \<and> counted_type f then 1 else 0)" for u
    using tn by (simp add: node_move_to_free_def Let_def set_type_def counts_dec)
  have cnt: "counts ?s u = of_nat (length (amove n t L u))" if "counted_type u" for u
    using r that l t unfolding c length_amove[OF rg n] by (auto simp: lru_rep_def counted_type_def of_nat_length_pred)
  have types: "ntype (node ?s m) = (if m = n then t else ntype (node s m))" for m
    by (simp add: node_move_to_free_def Let_def set_type_def)
  have rot: "next_inactive_rotation ?s = next_inactive_rotation (skip_rotation n s)"
    by (simp add: node_move_to_free_def Let_def set_type_def)
  have "ntype (node ?s m) = u" if "m \<in> set (amove n t L u)" for m u
    using that r by (auto simp: types amove_def lru_rep_def split: if_splits)
  moreover have "rotor_ok (next_inactive_rotation ?s) (amove n t L INACTIVE)"
    unfolding rot by (rule rotor_amove[where L = L and n = n, OF skip_rotor[OF r n]])
  moreover have "rings (cells ?s) (amove n t L)"
    using rings_move[OF rg n, of t] by (simp add: node_move_to_free_def Let_def set_type_def)
  ultimately show ?thesis using cnt by (simp add: lru_rep_def counted_type_def)
qed

lemma move_in_rep:
  assumes r: "lru_rep s L" and n: "n \<in> set (L f)" and f: "\<not> counted_type f" and t: "f \<noteq> t"
  shows "lru_rep (node_move_in n t s) (amove n t L)"
proof -
  let ?s = "node_move_in n t s"
  have rg: "rings (cells s) L" using r by (simp add: lru_rep_def)
  have c: "counts ?s u = counts s u + (if u = t \<and> counted_type t then 1 else 0)" for u
    by (simp add: node_move_in_def Let_def set_type_def bpf_lru_node_clear_ref_def counts_inc)
  have cnt: "counts ?s u = of_nat (length (amove n t L u))" if "counted_type u" for u
    using r that f t unfolding c length_amove[OF rg n] by (auto simp: lru_rep_def counted_type_def)
  have types: "ntype (node ?s m) = (if m = n then t else ntype (node s m))" for m
    by (simp add: node_move_in_def Let_def set_type_def bpf_lru_node_clear_ref_def)
  have rot: "next_inactive_rotation ?s = next_inactive_rotation s"
    by (simp add: node_move_in_def Let_def set_type_def bpf_lru_node_clear_ref_def)
  have "ntype (node ?s m) = u" if "m \<in> set (amove n t L u)" for m u
    using that r by (auto simp: types amove_def lru_rep_def split: if_splits)
  moreover have "f \<noteq> INACTIVE" using f by (auto simp: counted_type_def)
  then have "rotor_ok (next_inactive_rotation ?s) (amove n t L INACTIVE)"
    unfolding rot using r removeAll_other[OF rg n, of INACTIVE]
    by (auto simp: lru_rep_def rotor_ok_def amove_def)
  moreover have "rings (cells ?s) (amove n t L)"
    using rings_move[OF rg n, of t] by (simp add: node_move_in_def Let_def set_type_def bpf_lru_node_clear_ref_def)
  ultimately show ?thesis using cnt by (simp add: lru_rep_def counted_type_def)
qed

lemma move_ref [simp]:
  "ref (node (node_move n t s) m) = (if m = n then 0 else ref (node s m))"
  "nr_scans (node_move n t s) = nr_scans s"
  "ref (node (node_move_to_free n p t s) m) = ref (node s m)"
  "nr_scans (node_move_to_free n p t s) = nr_scans s"
  "ref (node (node_move_in n t s) m) = (if m = n then 0 else ref (node s m))"
  "nr_scans (node_move_in n t s) = nr_scans s"
  by (simp_all add: node_move_def node_move_to_free_def node_move_in_def Let_def set_type_def bpf_lru_node_clear_ref_def)

section \<open>Sequences of moves\<close>

definition moves :: "(nat \<Rightarrow> lru_list_type) \<Rightarrow> nat list \<Rightarrow> lru_lists \<Rightarrow> lru_lists" where
  "moves g ns L = fold (\<lambda>n. amove n (g n)) ns L"

lemma moves_simps [simp]: "moves g [] L = L" "moves g (ns @ [n]) L = amove n (g n) (moves g ns L)"
  by (simp_all add: moves_def)

lemma moves_apply:
  "distinct ns \<Longrightarrow> moves g ns L t = rev (filter (\<lambda>n. g n = t) ns) @ filter (\<lambda>x. x \<notin> set ns) (L t)"
proof (induction ns rule: rev_induct)
  case (snoc n ns)
  have "removeAll n (rev (filter (\<lambda>n. g n = t) ns)) = rev (filter (\<lambda>n. g n = t) ns)"
    using snoc.prems by (intro removeAll_id) auto
  moreover have "removeAll n (filter (\<lambda>x. x \<notin> set ns) (L t)) = filter (\<lambda>x. x \<notin> set (ns @ [n])) (L t)"
    by (simp add: removeAll_filter_not_eq, rule filter_cong) auto
  moreover have "moves g (ns @ [n]) L t =
      (if t = g n then n # removeAll n (moves g ns L t) else removeAll n (moves g ns L t))"
    by (simp add: amove_def)
  moreover have "moves g ns L t = rev (filter (\<lambda>n. g n = t) ns) @ filter (\<lambda>x. x \<notin> set ns) (L t)"
    using snoc by simp
  ultimately show ?case by auto
qed simp

lemma moves_cong: "(\<And>n. n \<in> set ns \<Longrightarrow> g n = g' n) \<Longrightarrow> moves g ns L = moves g' ns L"
  unfolding moves_def by (rule fold_cong) auto

lemma all_nodes_moves: "set ns \<subseteq> all_nodes L \<Longrightarrow> all_nodes (moves g ns L) = all_nodes L"
proof (induction ns rule: rev_induct)
  case (snoc n ns)
  then show ?case by (simp add: all_nodes_amove_insert insert_absorb)
qed simp

lemma moves_rest:
  assumes "distinct xs" and "rev xs = done @ us"
  shows "filter (\<lambda>x. x \<notin> set done) xs = rev us"
proof -
  have xs: "xs = rev us @ rev done" using assms(2) by (metis rev_append rev_rev_ident)
  then have "set us \<inter> set done = {}" using assms(1) by auto
  then show ?thesis unfolding xs by (auto simp: filter_empty_conv filter_id_conv)
qed

text \<open>The number of nodes a scan visits: \<^verbatim>\<open>++i == nr_scans\<close> stops it, unless \<^verbatim>\<open>nr_scans\<close> is 0.\<close>

definition scan_limit :: "bpf_lru \<Rightarrow> nat \<Rightarrow> nat" where
  "scan_limit s n = (if nr_scans s = 0 then n else unat (nr_scans s))"

definition active_target :: "bpf_lru \<Rightarrow> nat \<Rightarrow> lru_list_type" where
  "active_target s n = (if bpf_lru_node_is_ref n s then ACTIVE else INACTIVE)"

section \<open>Rotation of the active list\<close>

definition ra_inv :: "bpf_lru \<Rightarrow> lru_lists \<Rightarrow> adr list \<Rightarrow> bpf_lru \<times> u32 \<Rightarrow> bool" where
  "ra_inv s0 L us = (\<lambda>(s, i). \<exists>done vs. us = map Node vs \<and> rev (L ACTIVE) = done @ vs \<and>
     lru_rep s (moves (active_target s0) done L) \<and> i = of_nat (length done) \<and>
     (\<forall>m \<in> set vs. ref (node s m) = ref (node s0 m)) \<and> nr_scans s = nr_scans s0 \<and>
     (vs = [] \<longrightarrow> done = []) \<and> (nr_scans s0 \<noteq> 0 \<longrightarrow> length done < unat (nr_scans s0)))"

definition ra_post :: "bpf_lru \<Rightarrow> lru_lists \<Rightarrow> bpf_lru \<times> u32 \<Rightarrow> bool" where
  "ra_post s0 L = (\<lambda>(s, i). nr_scans s = nr_scans s0 \<and>
     lru_rep s (moves (active_target s0) (take (scan_limit s0 (length (L ACTIVE))) (rev (L ACTIVE))) L))"

lemma moved_ring:
  assumes "lru_rep s (moves g done L)" and "rev (L t) = done @ vs" and "distinct (L t)"
  shows "ring (cells s) (Head t) (map Node (rev (filter (\<lambda>n. g n = t) done)) @ map Node (rev vs))"
proof -
  have "distinct (rev (L t))" using assms(3) by simp
  then have "distinct done" by (simp add: assms(2))
  moreover have "ring (cells s) (Head t) (map Node (moves g done L t))"
    using assms(1) by (simp add: lru_rep_def rings_def)
  ultimately show ?thesis using moves_rest[OF assms(3,2)] by (simp add: moves_apply)
qed

lemma ra_step:
  assumes inv: "ra_inv s0 L (u # us) si" and L: "lru_rep s0 L" and len: "length (L ACTIVE) < 2 ^ 32"
    and b: "rotate_active_body (nxt (cells s0) (Head ACTIVE)) u si = (b, si')"
  shows "u \<noteq> Head ACTIVE \<and> (if b then ra_post s0 L si' else ra_inv s0 L us si' \<and>
    prv ((cells \<circ> fst) si) u = (case us of [] \<Rightarrow> Head ACTIVE | v # _ \<Rightarrow> v))"
proof -
  obtain s i where si: "si = (s, i)" by (cases si)
  from inv obtain ds ws where w: "u # us = map Node ws" "rev (L ACTIVE) = ds @ ws"
      "lru_rep s (moves (active_target s0) ds L)" "i = of_nat (length ds)"
      "\<forall>m \<in> set ws. ref (node s m) = ref (node s0 m)" "nr_scans s = nr_scans s0"
      "nr_scans s0 \<noteq> 0 \<longrightarrow> length ds < unat (nr_scans s0)"
    unfolding ra_inv_def si prod.case by - (elim exE conjE, rule that)
  then obtain v vs where i: "u = Node v" "us = map Node vs" "rev (L ACTIVE) = ds @ v # vs"
      "lru_rep s (moves (active_target s0) ds L)" "i = of_nat (length ds)"
      "\<forall>m \<in> set (v # vs). ref (node s m) = ref (node s0 m)" "nr_scans s = nr_scans s0"
      "nr_scans s0 \<noteq> 0 \<longrightarrow> length ds < unat (nr_scans s0)"
    by (cases ws) auto
  let ?t = "active_target s0 v" and ?M = "moves (active_target s0) (ds @ [v]) L"
  let ?s = "node_move v ?t s"
  have rg: "rings (cells s0) L" using L by (simp add: lru_rep_def)
  have dist: "distinct (L ACTIVE)" by (rule rings_distinct[OF rg])
  have xs: "L ACTIVE = rev vs @ v # rev ds" using i(3) by (metis rev_append rev_rev_ident rev.simps(2) append.assoc append_Cons append_Nil)
  have ring: "ring (cells s) (Head ACTIVE) (map Node (rev (filter (\<lambda>n. active_target s0 n = ACTIVE) ds) @ rev vs) @ [Node v])"
    using moved_ring[OF i(4,3) dist] by simp
  have vin: "v \<in> set (moves (active_target s0) ds L ACTIVE)"
    using moves_rest[OF dist i(3)] dist xs by (subst moves_apply) auto
  have rep: "lru_rep ?s ?M" using move_rep[OF i(4) vin] by simp
  have first: "nxt (cells s0) (Head ACTIVE) = Node (hd (L ACTIVE))"
  proof -
    have "ring (cells s0) (Head ACTIVE) (map Node (L ACTIVE))" using rg by (simp add: rings_def)
    moreover have "L ACTIVE \<noteq> []" using xs by simp
    ultimately show ?thesis by (cases "L ACTIVE") (auto dest: ring_nxt)
  qed
  have fst_iff: "Node v = nxt (cells s0) (Head ACTIVE) \<longleftrightarrow> vs = []"
    using dist unfolding first xs by (cases vs rule: rev_cases) auto
  have isr: "bpf_lru_node_is_ref v s = bpf_lru_node_is_ref v s0" using i(6) by (simp add: bpf_lru_node_is_ref_def)
  have body: "b = (i + 1 = nr_scans s0 \<or> vs = [])" "si' = (?s, i + 1)"
    using b i(1,7) isr fst_iff by (auto simp: si rotate_active_body_def Let_def active_target_def)
  have ld: "Suc (length ds) < 2 ^ LENGTH(32)" using len xs by simp
  have i1: "i + 1 = nr_scans s0 \<longleftrightarrow> Suc (length ds) = unat (nr_scans s0)"
    using of_nat_eq_word_iff[OF ld, of "nr_scans s0"] i(5) by (simp add: add.commute)
  have nd: "v \<notin> set vs" using dist xs by auto
  have pv: "\<not> b \<Longrightarrow> prv ((cells \<circ> fst) si) u = (case us of [] \<Rightarrow> Head ACTIVE | v # _ \<Rightarrow> v)"
    using ring_neighbours(1)[OF ring] body(1) si i(1,2) by (cases vs) auto
  show ?thesis
  proof (cases b)
    case True
    have "take (scan_limit s0 (length (L ACTIVE))) (rev (L ACTIVE)) = ds @ [v]"
    proof -
      consider "unat (nr_scans s0) = Suc (length ds)" "nr_scans s0 \<noteq> 0" | "vs = []" "nr_scans s0 \<noteq> 0 \<longrightarrow> length ds < unat (nr_scans s0)"
        using True body(1) i1 i(8) by force
      then show ?thesis
        by cases (use i(3) xs in \<open>auto simp: scan_limit_def Suc_diff_le\<close>)
    qed
    then show ?thesis using True body(2) rep i(1,7) by (simp add: ra_post_def)
  next
    case False
    then have lim: "nr_scans s0 \<noteq> 0 \<longrightarrow> Suc (length ds) < unat (nr_scans s0)" using body(1) i1 i(8) by auto
    have "ra_inv s0 L us si'"
      unfolding ra_inv_def body(2) prod.case
      by (rule exI[of _ "ds @ [v]"], rule exI[of _ vs])
        (use body(1) i False rep nd lim in \<open>simp add: add.commute\<close>)
    then show ?thesis using False i(1) pv by simp
  qed
qed

lemma rotate_active_correct:
  assumes L: "lru_rep s L" and len: "length (L ACTIVE) < 2 ^ 32"
  shows "\<exists>s'. rotate_active s = Some s' \<and> nr_scans s' = nr_scans s \<and>
    lru_rep s' (moves (active_target s) (take (scan_limit s (length (L ACTIVE))) (rev (L ACTIVE))) L)"
proof -
  let ?us = "map Node (rev (L ACTIVE))"
  have rg: "ring (cells s) (Head ACTIVE) (map Node (L ACTIVE))" using L by (simp add: lru_rep_def rings_def)
  have init: "ra_inv s L ?us (s, 0)"
    unfolding ra_inv_def prod.case
    by (rule exI[of _ "[]"], rule exI[of _ "rev (L ACTIVE)"]) (use L in \<open>simp add: unat_gt_0\<close>)
  have rg': "ring ((cells \<circ> fst) (s, 0::u32)) (Head ACTIVE) (map Node (L ACTIVE))" using rg by simp
  have "\<exists>si. list_for_each_entry_safe_reverse (cells \<circ> fst) (Head ACTIVE)
      (rotate_active_body (nxt (cells s) (Head ACTIVE))) (s, 0) = Some si \<and> ra_post s L si"
  proof (rule list_for_each_rule[where P = "ra_inv s L" and xs = "map Node (L ACTIVE)"])
    fix si assume "ra_inv s L [] si"
    then show "ra_post s L si" by (auto simp: ra_inv_def ra_post_def)
  next
    show "ra_inv s L (rev (map Node (L ACTIVE))) (s, 0)" using init by (simp add: rev_map)
  qed (rule ra_step[OF _ L len] rg'; assumption)+
  then show ?thesis
    by (auto simp: rotate_active_def Let_def ra_post_def)
qed

section \<open>Shrinking the inactive list\<close>

definition shrink_target :: "bpf_lru \<Rightarrow> lru_list_type \<Rightarrow> nat \<Rightarrow> lru_list_type" where
  "shrink_target s t n = (if bpf_lru_node_is_ref n s then ACTIVE else t)"

definition freed :: "bpf_lru \<Rightarrow> nat list \<Rightarrow> nat" where
  "freed s ns = length (filter (\<lambda>n. \<not> bpf_lru_node_is_ref n s) ns)"

lemma freed_simps [simp]:
  "freed s [] = 0" "freed s (ns @ [n]) = freed s ns + (if bpf_lru_node_is_ref n s then 0 else 1)"
  by (simp_all add: freed_def)

lemma freed_le: "freed s ns \<le> length ns"
  by (simp add: freed_def)

definition si_inv :: "bpf_lru \<Rightarrow> u32 \<Rightarrow> lru_list_type \<Rightarrow> lru_lists \<Rightarrow> adr list \<Rightarrow> bpf_lru \<times> u32 \<times> u32 \<Rightarrow> bool" where
  "si_inv s0 tgt t L us = (\<lambda>(s, ns, i). \<exists>done vs. us = map Node vs \<and> rev (L INACTIVE) = done @ vs \<and>
     lru_rep s (moves (shrink_target s0 t) done L) \<and> i = of_nat (length done) \<and> ns = of_nat (freed s0 done) \<and>
     (\<forall>m \<in> set vs. ref (node s m) = ref (node s0 m)) \<and> nr_scans s = nr_scans s0 \<and>
     (nr_scans s0 \<noteq> 0 \<longrightarrow> length done < unat (nr_scans s0)) \<and> (tgt \<noteq> 0 \<longrightarrow> freed s0 done < unat tgt))"

definition si_post :: "bpf_lru \<Rightarrow> u32 \<Rightarrow> lru_list_type \<Rightarrow> lru_lists \<Rightarrow> bpf_lru \<times> u32 \<times> u32 \<Rightarrow> bool" where
  "si_post s0 tgt t L = (\<lambda>(s, ns, i). nr_scans s = nr_scans s0 \<and> (\<exists>done vs. rev (L INACTIVE) = done @ vs \<and>
     lru_rep s (moves (shrink_target s0 t) done L) \<and> ns = of_nat (freed s0 done) \<and>
     (vs = [] \<or> (nr_scans s0 \<noteq> 0 \<and> length done = unat (nr_scans s0)) \<or> (tgt \<noteq> 0 \<and> freed s0 done = unat tgt)) \<and>
     (nr_scans s0 \<noteq> 0 \<longrightarrow> length done \<le> unat (nr_scans s0)) \<and> (tgt \<noteq> 0 \<longrightarrow> freed s0 done \<le> unat tgt)))"

lemma word_Suc_limit:
  fixes w :: u32
  assumes "Suc n < 2 ^ 32" shows "of_nat n + 1 = w \<longleftrightarrow> Suc n = unat w"
proof -
  have "Suc n < 2 ^ LENGTH(32)" using assms by simp
  from of_nat_eq_word_iff[OF this, of w] show ?thesis by (simp only: of_nat_Suc add.commute)
qed

lemma si_step:
  assumes inv: "si_inv s0 tgt t L (u # us) si" and L: "lru_rep s0 L" and len: "length (L INACTIVE) < 2 ^ 32"
    and t: "\<not> counted_type t" and b: "shrink_inactive_body tgt (Head t) t u si = (b, si')"
  shows "u \<noteq> Head INACTIVE \<and> (if b then si_post s0 tgt t L si' else si_inv s0 tgt t L us si' \<and>
    prv ((cells \<circ> fst) si) u = (case us of [] \<Rightarrow> Head INACTIVE | v # _ \<Rightarrow> v))"
proof -
  obtain s ns i where si: "si = (s, ns, i)" by (cases si)
  from inv obtain ds ws where w: "u # us = map Node ws" "rev (L INACTIVE) = ds @ ws"
      "lru_rep s (moves (shrink_target s0 t) ds L)" "i = of_nat (length ds)" "ns = of_nat (freed s0 ds)"
      "\<forall>m \<in> set ws. ref (node s m) = ref (node s0 m)" "nr_scans s = nr_scans s0"
      "nr_scans s0 \<noteq> 0 \<longrightarrow> length ds < unat (nr_scans s0)" "tgt \<noteq> 0 \<longrightarrow> freed s0 ds < unat tgt"
    unfolding si_inv_def si prod.case by - (elim exE conjE, rule that)
  from w(1) obtain v vs where ws: "ws = v # vs" "u = Node v" "us = map Node vs" by (cases ws) auto
  note i = ws(2,3) w(2-)[unfolded ws(1)]
  let ?R = "bpf_lru_node_is_ref v s0" and ?M = "moves (shrink_target s0 t) (ds @ [v]) L"
  let ?s = "if ?R then node_move v ACTIVE s else node_move_to_free v (Head t) t s"
  have rg: "rings (cells s0) L" using L by (simp add: lru_rep_def)
  have dist: "distinct (L INACTIVE)" by (rule rings_distinct[OF rg])
  have xs: "L INACTIVE = rev vs @ v # rev ds" using i(3) by (metis rev_append rev_rev_ident rev.simps(2) append.assoc append_Cons append_Nil)
  have none: "filter (\<lambda>n. shrink_target s0 t n = INACTIVE) ds = []"
    using t by (auto simp: shrink_target_def counted_type_def filter_empty_conv)
  have ring: "ring (cells s) (Head INACTIVE) (map Node (rev vs) @ [Node v])"
    using moved_ring[OF i(4,3) dist] none by simp
  have vin: "v \<in> set (moves (shrink_target s0 t) ds L INACTIVE)"
    using moves_rest[OF dist i(3)] dist xs by (subst moves_apply) auto
  have isr: "bpf_lru_node_is_ref v s = ?R" using i(7) by (simp add: bpf_lru_node_is_ref_def)
  have rep: "lru_rep ?s ?M"
    using move_rep[OF i(4) vin, of ACTIVE] move_to_free_rep[OF i(4) vin t] shrink_target_def[of s0 t v] by simp
  have nd: "v \<notin> set vs" using dist xs by auto
  have ld: "Suc (length ds) < 2 ^ 32" using len xs by simp
  have fd: "Suc (freed s0 ds) < 2 ^ 32" using ld freed_le[of s0 ds] by linarith
  have i1: "i + 1 = nr_scans s0 \<longleftrightarrow> Suc (length ds) = unat (nr_scans s0)"
    unfolding i(5) by (rule word_Suc_limit[OF ld])
  have n1: "ns + 1 = tgt \<longleftrightarrow> Suc (freed s0 ds) = unat tgt"
    unfolding i(6) by (rule word_Suc_limit[OF fd])
  let ?ns = "if ?R then ns else ns + 1"
  have B: "(b, si') = (if ?R then (i + 1 = nr_scans s0, ?s, ?ns, i + 1)
      else if ns + 1 = tgt then (True, ?s, ?ns, i) else (i + 1 = nr_scans s0, ?s, ?ns, i + 1))"
    unfolding b[symmetric] using i(1,8) isr
    by (cases ?R) (simp_all add: si shrink_inactive_body_def bpf_lru_delete_node_def Let_def)
  have body: "b = (i + 1 = nr_scans s0 \<or> \<not> ?R \<and> ns + 1 = tgt)"
      "fst si' = ?s" "fst (snd si') = ?ns" "\<not> b \<Longrightarrow> si' = (?s, ?ns, i + 1)"
    using B by (cases ?R; cases "ns + 1 = tgt"; simp)+
  have fr: "?ns = of_nat (freed s0 (ds @ [v]))" using i(6) by (simp add: add.commute)
  have pv: "prv ((cells \<circ> fst) si) u = (case us of [] \<Rightarrow> Head INACTIVE | v # _ \<Rightarrow> v)"
    using ring_neighbours(1)[OF ring] si i(1,2) by (cases vs) auto
  have f: "nr_scans ?s = nr_scans s0" "rev (L INACTIVE) = (ds @ [v]) @ vs" "i + 1 = of_nat (length (ds @ [v]))"
    using i(3,5,8) by (simp_all add: add.commute)
  have refs: "\<forall>m \<in> set vs. ref (node ?s m) = ref (node s0 m)" using i(7) nd by auto
  have b1: "nr_scans s0 \<noteq> 0 \<longrightarrow> length (ds @ [v]) \<le> unat (nr_scans s0)" using i(9) by auto
  have b2: "tgt \<noteq> 0 \<longrightarrow> freed s0 (ds @ [v]) \<le> unat tgt" using i(10) by auto
  have b': "b \<longleftrightarrow> Suc (length ds) = unat (nr_scans s0) \<or> \<not> ?R \<and> Suc (freed s0 ds) = unat tgt"
    by (simp only: body(1) i1 n1)
  show ?thesis
  proof (cases b)
    case True
    have b3: "vs = [] \<or> (nr_scans s0 \<noteq> 0 \<and> length (ds @ [v]) = unat (nr_scans s0)) \<or> (tgt \<noteq> 0 \<and> freed s0 (ds @ [v]) = unat tgt)"
      using True b' by auto
    have "si_post s0 tgt t L (?s, ?ns, snd (snd si'))" unfolding si_post_def prod.case
      by (rule conjI, fact, rule exI[of _ "ds @ [v]"], rule exI[of _ vs]) (intro conjI; fact)
    moreover have "(?s, ?ns, snd (snd si')) = si'" unfolding prod_eq_iff fst_conv snd_conv using body(2,3) by simp
    ultimately have "si_post s0 tgt t L si'" by (simp only:)
    then show ?thesis using True i(1) by simp
  next
    case False
    have b4: "nr_scans s0 \<noteq> 0 \<longrightarrow> length (ds @ [v]) < unat (nr_scans s0)" using False b' i(9) by auto
    have b5: "tgt \<noteq> 0 \<longrightarrow> freed s0 (ds @ [v]) < unat tgt" using False b' i(10) by auto
    have "si_inv s0 tgt t L us (?s, ?ns, i + 1)" unfolding si_inv_def prod.case
      by (rule exI[of _ "ds @ [v]"], rule exI[of _ vs]) (intro conjI; fact)
    then have "si_inv s0 tgt t L us si'" by (simp only: body(4)[OF False])
    then show ?thesis using False i(1) pv by simp
  qed
qed

lemma shrink_inactive_correct:
  assumes L: "lru_rep s L" and len: "length (L INACTIVE) < 2 ^ 32" and t: "\<not> counted_type t"
  shows "\<exists>s' ns i. shrink_inactive tgt (Head t) t s = Some (ns, s') \<and> si_post s tgt t L (s', ns, i)"
proof -
  have rg: "ring ((cells \<circ> fst) (s, 0::u32, 0::u32)) (Head INACTIVE) (map Node (L INACTIVE))"
    using L by (simp add: lru_rep_def rings_def)
  have "\<exists>si. list_for_each_entry_safe_reverse (cells \<circ> fst) (Head INACTIVE)
      (shrink_inactive_body tgt (Head t) t) (s, 0, 0) = Some si \<and> si_post s tgt t L si"
  proof (rule list_for_each_rule[where P = "si_inv s tgt t L" and xs = "map Node (L INACTIVE)"])
    fix si assume i: "si_inv s tgt t L [] si"
    obtain s' ns i where si: "si = (s', ns, i)" by (cases si)
    from i obtain ds where "rev (L INACTIVE) = ds @ []" "lru_rep s' (moves (shrink_target s t) ds L)"
        "ns = of_nat (freed s ds)" "nr_scans s' = nr_scans s"
        "nr_scans s \<noteq> 0 \<longrightarrow> length ds < unat (nr_scans s)" "tgt \<noteq> 0 \<longrightarrow> freed s ds < unat tgt"
      unfolding si si_inv_def prod.case by - (elim exE conjE, rule that, auto)
    then show "si_post s tgt t L si" unfolding si si_post_def prod.case
      by - (rule conjI, assumption, rule exI[of _ ds], rule exI[of _ "[]"], auto)
  next
    show "si_inv s tgt t L (rev (map Node (L INACTIVE))) (s, 0, 0)"
      unfolding si_inv_def prod.case
      by (rule exI[of _ "[]"], rule exI[of _ "rev (L INACTIVE)"]) (use L in \<open>simp add: unat_gt_0 rev_map\<close>)
  qed (rule si_step[OF _ L len t] rg; assumption)+
  then show ?thesis by (auto simp: shrink_inactive_def)
qed

lemma force_shrink_correct:
  assumes L: "lru_rep s L" and t: "\<not> counted_type t"
  shows "list_for_each_entry_safe_reverse (cells \<circ> fst) (Head f) (force_shrink_body (Head t) t) (s, 0) =
    Some (if L f = [] then (s, 0) else (node_move_to_free (last (L f)) (Head t) t s, 1))"
proof -
  have rg: "ring (cells s) (Head f) (map Node (L f))" using L by (simp add: lru_rep_def rings_def)
  have "prv (cells s) (Head f) = (if L f = [] then Head f else Node (last (L f)))"
    using ring_prv[OF rg] by (simp add: last_map)
  then show ?thesis
    by (simp add: list_for_each_entry_safe_reverse_def for_each_safe_reverse.simps[where pos = "Node n" for n]
        for_each_safe_reverse.simps[where pos = "Head f"] force_shrink_body_def bpf_lru_delete_node_def)
qed

text \<open>The whole of \<^verbatim>\<open>__bpf_lru_list_shrink\<close>: it ends, keeps the invariant, frees at most the
  target number of nodes, and returns 0 only when both lists are empty.\<close>

lemma shrink_correct:
  assumes L: "lru_rep s L" and len: "length (L INACTIVE) < 2 ^ 32" and t: "\<not> counted_type t"
  shows "\<exists>ns s' L'. shrink tgt (Head t) t s = Some (ns, s') \<and> lru_rep s' L' \<and> all_nodes L' = all_nodes L \<and>
    length (L' t) = length (L t) + unat ns \<and>
    (ns = 0 \<longleftrightarrow> L ACTIVE = [] \<and> L INACTIVE = []) \<and> (tgt \<noteq> 0 \<longrightarrow> ns \<le> tgt)"
proof -
  have rg: "rings (cells s) L" using L by (simp add: lru_rep_def)
  have dist: "distinct (L INACTIVE)" by (rule rings_distinct[OF rg])
  obtain s1 ns i where sh: "shrink_inactive tgt (Head t) t s = Some (ns, s1)" "si_post s tgt t L (s1, ns, i)"
    using shrink_inactive_correct[OF assms] by blast
  then obtain ds vs where p: "rev (L INACTIVE) = ds @ vs" "lru_rep s1 (moves (shrink_target s t) ds L)"
      "ns = of_nat (freed s ds)" "tgt \<noteq> 0 \<longrightarrow> freed s ds \<le> unat tgt"
      "vs = [] \<or> (nr_scans s \<noteq> 0 \<and> length ds = unat (nr_scans s)) \<or> (tgt \<noteq> 0 \<and> freed s ds = unat tgt)"
    unfolding si_post_def prod.case by - (elim exE conjE, rule that)
  let ?M = "moves (shrink_target s t) ds L"
  have dd: "distinct ds" using dist p(1) by (metis distinct_append distinct_rev)
  have sub: "set ds \<subseteq> set (L INACTIVE)" using p(1) by (metis Un_upper1 set_append set_rev)
  then have all: "all_nodes ?M = all_nodes L" by (intro all_nodes_moves) (auto simp: all_nodes_def)
  have tI: "t \<noteq> INACTIVE" "t \<noteq> ACTIVE" using t by (auto simp: counted_type_def)
  have un: "unat ns = freed s ds"
  proof -
    have "freed s ds \<le> length (L INACTIVE)"
      using freed_le[of s ds] arg_cong[OF p(1), of length] by simp
    then have "freed s ds < 2 ^ LENGTH(32)" using len by simp
    then show ?thesis using p(3) of_nat_eq_word_iff[of "freed s ds" ns] by simp
  qed
  have lt: "length (?M t) = length (L t) + freed s ds"
  proof -
    have "filter (\<lambda>x. x \<notin> set ds) (L t) = L t"
    proof (intro filter_True ballI)
      fix x assume "x \<in> set (L t)"
      moreover have "set (L t) \<inter> set (L INACTIVE) = {}" using rg tI(1) unfolding rings_def by blast
      ultimately show "x \<notin> set ds" using sub by blast
    qed
    moreover have "filter (\<lambda>n. shrink_target s t n = t) ds = filter (\<lambda>n. \<not> bpf_lru_node_is_ref n s) ds"
      using tI(2) by (intro filter_cong) (auto simp: shrink_target_def)
    ultimately show ?thesis by (simp add: moves_apply[OF dd] freed_def)
  qed
  show ?thesis
  proof (cases "ns = 0")
    case False
    then have "0 < freed s ds" using un by (metis gr0I unat_eq_zero)
    then have "L INACTIVE \<noteq> []" using p(1) by (auto simp: freed_def)
    then show ?thesis using False sh(1) p(2,4) all lt un by (auto simp: shrink_def c_true_def word_le_nat_alt)
  next
    case True
    then have f0: "freed s ds = 0" using un by simp
    define f where "f = (if \<not> list_empty (Head INACTIVE) (cells s1) then INACTIVE else ACTIVE)"
    have rg1: "rings (cells s1) ?M" using p(2) by (simp add: lru_rep_def)
    then have "list_empty (Head INACTIVE) (cells s1) \<longleftrightarrow> ?M INACTIVE = []"
      using ring_empty[of "cells s1" "Head INACTIVE" "map Node (?M INACTIVE)"] by (simp add: rings_def)
    then have f: "f = (if ?M INACTIVE \<noteq> [] then INACTIVE else ACTIVE)" by (simp add: f_def)
    have res: "shrink tgt (Head t) t s = Some (if ?M f = [] then (0, s1) else (1, node_move_to_free (last (?M f)) (Head t) t s1))"
    proof -
      have "(if \<not> list_empty (Head INACTIVE) (cells s1) then Head INACTIVE else Head ACTIVE) = Head f" by (simp add: f_def)
      then show ?thesis using sh(1) True force_shrink_correct[OF p(2) t, of f] by (simp add: shrink_def Let_def)
    qed
    have allref: "shrink_target s t n = ACTIVE" if "n \<in> set ds" for n
      using f0 that by (auto simp: freed_def filter_empty_conv shrink_target_def)
    have MI: "?M INACTIVE = rev vs"
    proof -
      have "filter (\<lambda>n. shrink_target s t n = INACTIVE) ds = []" using allref by (simp add: filter_empty_conv)
      then show ?thesis using moves_rest[OF dist p(1)] by (simp add: moves_apply[OF dd])
    qed
    have MA: "?M ACTIVE = [] \<longleftrightarrow> ds = [] \<and> L ACTIVE = []"
    proof (cases "ds = []")
      case False
      then have "hd ds \<in> set (filter (\<lambda>n. shrink_target s t n = ACTIVE) ds)" using allref by simp
      then have "filter (\<lambda>n. shrink_target s t n = ACTIVE) ds \<noteq> []" by (metis empty_iff empty_set)
      then show ?thesis using False by (simp add: moves_apply[OF dd])
    qed simp
    have LI: "L INACTIVE = [] \<longleftrightarrow> ds = [] \<and> vs = []" using p(1) by (metis Nil_is_append_conv Nil_is_rev_conv)
    have empty: "?M f = [] \<longleftrightarrow> L ACTIVE = [] \<and> L INACTIVE = []"
      unfolding f using MI MA LI by auto
    show ?thesis
    proof (cases "?M f = []")
      case e: True
      have "shrink tgt (Head t) t s = Some (0, s1)" using res e by simp
      moreover have "length (?M t) = length (L t) + unat (0::u32)" using lt f0 by simp
      ultimately show ?thesis using p(2) all empty e by (intro exI[of _ 0] exI[of _ s1] exI[of _ ?M]) auto
    next
      case ne: False
      let ?n = "last (?M f)"
      have nin: "?n \<in> set (?M f)" using ne by simp
      have "f \<noteq> t" using tI by (auto simp: f)
      then have "length (amove ?n t ?M t) = Suc (length (?M t))" using length_amove[OF rg1 nin, of t t] by simp
      moreover have "?n \<in> all_nodes ?M" using nin by (auto simp: all_nodes_def)
      ultimately show ?thesis using res ne empty lt f0 all move_to_free_rep[OF p(2) nin t]
        by (intro exI[of _ 1] exI[of _ "node_move_to_free ?n (Head t) t s1"] exI[of _ "amove ?n t ?M"])
          (auto simp: word_le_nat_alt Suc_le_eq unat_gt_0)
    qed
  qed
qed

end
