(* ===== verification/Lru_Ops.thy ===== *)
theory Lru_Ops
  imports Lru_Inv
begin

text \<open>
  The remaining loops and operations of the LRU lists: the rotation of the inactive list,
  the flush of the pending list, the free lists, and initialisation.
\<close>

lemma lru_rep_distinct: "lru_rep s L \<Longrightarrow> distinct (L t)"
  by (auto simp: lru_rep_def intro: rings_distinct)

lemma lru_rep_ring: "lru_rep s L \<Longrightarrow> ring (cells s) (Head t) (map Node (L t))"
  by (simp add: lru_rep_def rings_def)

section \<open>Rotation of the inactive list\<close>

text \<open>The order in which a rotation that starts at \<open>p\<close> visits the nodes: backwards from \<open>p\<close> to
  the head, then backwards from the tail to the node after \<open>p\<close>.\<close>

definition rotation_order :: "adr \<Rightarrow> nat list \<Rightarrow> nat list" where
  "rotation_order p xs = (case p of
     Node n \<Rightarrow> rev (takeWhile (\<lambda>x. x \<noteq> n) xs @ [n]) @ rev (tl (dropWhile (\<lambda>x. x \<noteq> n) xs))
   | _ \<Rightarrow> rev xs)"

definition rotate_target :: "bpf_lru \<Rightarrow> nat list \<Rightarrow> nat list" where
  "rotate_target s ns = filter (\<lambda>n. bpf_lru_node_is_ref n s) ns"

text \<open>The position of the loop: \<open>us\<close> are the nodes still to visit.  Before the walk passes the
  head, the list is the unvisited front \<open>A\<close>, the visited nodes that stayed, and the
  unvisited back \<open>B\<close>; afterwards the unvisited nodes are one segment.\<close>

definition rot_pos :: "nat list \<Rightarrow> adr \<Rightarrow> nat list \<Rightarrow> bool" where
  "rot_pos us cur X \<longleftrightarrow>
     (\<exists>A K B. X = A @ K @ B \<and> us = rev A @ rev B \<and> cur = last (Head INACTIVE # map Node A)) \<or>
     (\<exists>W B K. X = W @ B @ K \<and> us = rev B \<and> B \<noteq> [] \<and> cur = Node (last B))"

definition on_list :: "adr \<Rightarrow> nat list \<Rightarrow> bool" where
  "on_list p xs \<longleftrightarrow> p \<in> insert (Head INACTIVE) (Node ` set xs)"

lemma last_Head_map: "last (Head t # map Node A) = (if A = [] then Head t else Node (last A))"
  by (simp add: last_map)

lemma rot_pos_head:
  assumes "rot_pos us (Head INACTIVE) X" and "us \<noteq> []" and "ring h (Head INACTIVE) (map Node X)"
  shows "prv h (Head INACTIVE) = Node (hd us)" "rot_pos us (Node (hd us)) X"
proof -
  obtain K B where X: "X = K @ B" "us = rev B" "B \<noteq> []"
    using assms(1,2) unfolding rot_pos_def last_Head_map by (auto split: if_splits)
  then have l: "hd us = last B" by (simp add: hd_rev)
  show "prv h (Head INACTIVE) = Node (hd us)" using ring_prv[OF assms(3)] X l by (simp add: last_map)
  show "rot_pos us (Node (hd us)) X"
    using X l unfolding rot_pos_def by (intro disjI2 exI[of _ K] exI[of _ B] exI[of _ "[]"]) simp
qed

lemma rot_pos_node:
  assumes "rot_pos us (Node n) X" and "distinct X" and "ring h (Head INACTIVE) (map Node X)"
  obtains vs where "us = n # vs" "n \<in> set X" "on_list (prv h (Node n)) (removeAll n X)"
    "vs \<noteq> [] \<Longrightarrow> rot_pos vs (prv h (Node n)) X \<and> rot_pos vs (prv h (Node n)) (removeAll n X)"
proof -
  from assms(1) consider
      (front) A K B where "X = (A @ [n]) @ K @ B" "us = n # rev A @ rev B"
    | (rear) W B K where "X = W @ (B @ [n]) @ K" "us = n # rev B"
  proof -
    show ?thesis
      using assms(1) unfolding rot_pos_def last_Head_map
    proof (elim disjE exE conjE)
      fix A K B assume a: "X = A @ K @ B" "us = rev A @ rev B" "Node n = (if A = [] then Head INACTIVE else Node (last A))"
      then have "A = butlast A @ [n]" by (metis adr.distinct(5) adr.inject(2) append_butlast_last_id)
      then show thesis using a front[of "butlast A" K B] by (metis append_Cons rev.simps(2) rev_append append_Nil rev_singleton_conv append.assoc rev_rev_ident)
    next
      fix W B K assume a: "X = W @ B @ K" "us = rev B" "B \<noteq> []" "Node n = Node (last B)"
      then have "B = butlast B @ [n]" by simp
      then show thesis using a rear[of W "butlast B" K] by (metis rev.simps(2) rev_append append_Cons append_Nil rev_singleton_conv)
    qed
  qed
  then show thesis
  proof cases
    case front
    have r: "ring h (Head INACTIVE) (map Node A @ Node n # map Node (K @ B))" using assms(3) front(1) by simp
    have p: "prv h (Node n) = last (Head INACTIVE # map Node A)" by (rule ring_neighbours(1)[OF r])
    have rm: "removeAll n X = A @ K @ B" using assms(2) front(1) by simp
    show thesis
    proof (rule that[of "rev A @ rev B"])
      show "us = n # rev A @ rev B" by (rule front(2))
      show "n \<in> set X" using front(1) by simp
      show "on_list (prv h (Node n)) (removeAll n X)" unfolding p rm last_Head_map by (auto simp: on_list_def)
      have "rot_pos (rev A @ rev B) (prv h (Node n)) X"
        unfolding p front(1) rot_pos_def by (intro disjI1 exI[of _ A] exI[of _ "n # K"] exI[of _ B]) simp
      moreover have "rot_pos (rev A @ rev B) (prv h (Node n)) (removeAll n X)"
        unfolding p rm rot_pos_def by (intro disjI1 exI[of _ A] exI[of _ K] exI[of _ B]) simp
      ultimately show "rot_pos (rev A @ rev B) (prv h (Node n)) X \<and> rot_pos (rev A @ rev B) (prv h (Node n)) (removeAll n X)" ..
    qed
  next
    case rear
    have r: "ring h (Head INACTIVE) (map Node (W @ B) @ Node n # map Node K)" using assms(3) rear(1) by simp
    have p: "prv h (Node n) = last (Head INACTIVE # map Node (W @ B))" by (rule ring_neighbours(1)[OF r])
    have rm: "removeAll n X = W @ B @ K" using assms(2) rear(1) by simp
    show thesis
    proof (rule that[of "rev B"])
      show "us = n # rev B" by (rule rear(2))
      show "n \<in> set X" using rear(1) by simp
      show "on_list (prv h (Node n)) (removeAll n X)"
        using last_in_set[of "W @ B"] unfolding p rm last_Head_map on_list_def by auto
      assume ne: "rev B \<noteq> []"
      then have p': "prv h (Node n) = Node (last B)" unfolding p last_Head_map by simp
      have "rot_pos (rev B) (prv h (Node n)) X"
        using ne unfolding p' rear(1) rot_pos_def by (intro disjI2 exI[of _ W] exI[of _ B] exI[of _ "n # K"]) simp
      moreover have "rot_pos (rev B) (prv h (Node n)) (removeAll n X)"
        using ne unfolding p' rm rot_pos_def by (intro disjI2 exI[of _ W] exI[of _ B] exI[of _ K]) simp
      ultimately show "rot_pos (rev B) (prv h (Node n)) X \<and> rot_pos (rev B) (prv h (Node n)) (removeAll n X)" ..
    qed
  qed
qed

lemma rotate_target_move:
  assumes "n \<notin> set vs"
  shows "rotate_target (node_move n t s) vs = rotate_target s vs"
  unfolding rotate_target_def by (rule filter_cong) (use assms in \<open>auto simp: bpf_lru_node_is_ref_def\<close>)

lemma moves_Cons: "moves g (n # ns) L = moves g ns (amove n (g n) L)"
  by (simp add: moves_def)

lemma rot_pos_distinct: "rot_pos us cur X \<Longrightarrow> distinct X \<Longrightarrow> distinct us"
  by (auto simp: rot_pos_def)

text \<open>The loop of \<^verbatim>\<open>__bpf_lru_list_rotate_inactive\<close> ends after at most \<open>nr_scans - i\<close> nodes or at
  the last node of the order, and moves exactly the referenced nodes it visits.\<close>

lemma rotate_inactive_loop_correct:
  assumes "lru_rep s M" and "rot_pos us cur (M INACTIVE)" and "us \<noteq> []" and "lastp = Node (last us)"
    and "on_list next (M INACTIVE)"
  shows "\<exists>next' s' M'. rotate_inactive_loop lastp cur next i s = Some (next', s') \<and> lru_rep s' M' \<and>
    nr_scans s' = nr_scans s \<and> on_list next' (M' INACTIVE) \<and>
    M' = moves (\<lambda>_. ACTIVE) (rotate_target s (take (unat (nr_scans s) - unat i) us)) M"
  using assms
proof (induction us arbitrary: s M cur "next" i)
  case (Cons n vs)
  let ?k = "unat (nr_scans s) - unat i" and ?h = "cells s"
  have rg: "rings ?h M" using Cons.prems(1) by (simp add: lru_rep_def)
  have ring: "ring ?h (Head INACTIVE) (map Node (M INACTIVE))" using rg by (simp add: rings_def)
  have dist: "distinct (M INACTIVE)" by (rule rings_distinct[OF rg])
  have nv: "n \<notin> set vs" using rot_pos_distinct[OF Cons.prems(2) dist] by simp
  let ?goal = "\<lambda>cur. \<exists>next' s' M'. rotate_inactive_loop lastp cur next i s = Some (next', s') \<and> lru_rep s' M' \<and>
    nr_scans s' = nr_scans s \<and> on_list next' (M' INACTIVE) \<and>
    M' = moves (\<lambda>_. ACTIVE) (rotate_target s (take ?k (n # vs))) M"
  show ?case
  proof (cases "i < nr_scans s")
    case False
    then have "?k = 0" by (simp add: word_less_nat_alt)
    then show ?thesis using False Cons.prems by (subst rotate_inactive_loop.simps) (simp add: rotate_target_def)
  next
    case True
    then have k: "?k = Suc (unat (nr_scans s) - unat (i + 1))"
      using unat_Suc_less[OF True] by (simp add: word_less_nat_alt)
    have node: "?goal (Node n)" if pos: "rot_pos (n # vs) (Node n) (M INACTIVE)"
    proof -
      obtain ws where w: "n # vs = n # ws" "n \<in> set (M INACTIVE)" "on_list (prv ?h (Node n)) (removeAll n (M INACTIVE))"
          "ws \<noteq> [] \<Longrightarrow> rot_pos ws (prv ?h (Node n)) (M INACTIVE) \<and> rot_pos ws (prv ?h (Node n)) (removeAll n (M INACTIVE))"
        using rot_pos_node[OF pos dist ring] by metis
      let ?R = "bpf_lru_node_is_ref n s"
      let ?s = "if ?R then node_move n ACTIVE s else s" and ?M = "if ?R then amove n ACTIVE M else M"
      have MI: "?M INACTIVE = (if ?R then removeAll n (M INACTIVE) else M INACTIVE)" by (simp add: amove_def)
      have rep: "lru_rep ?s ?M" using move_rep[OF Cons.prems(1) w(2)] Cons.prems(1) by simp
      have on: "on_list (prv ?h (Node n)) (?M INACTIVE)" unfolding MI using w(3) by (auto simp: on_list_def)
      have tgt: "rotate_target s (take ?k (n # vs)) = (if ?R then [n] else []) @ rotate_target s (take (unat (nr_scans s) - unat (i + 1)) vs)"
        unfolding k by (simp add: rotate_target_def)
      have step: "rotate_inactive_loop lastp (Node n) next i s = (if vs = [] then Some (prv ?h (Node n), ?s)
          else rotate_inactive_loop lastp (prv ?h (Node n)) (prv ?h (Node n)) (i + 1) ?s)"
        using True Cons.prems(4) nv by (subst rotate_inactive_loop.simps) (auto simp: Let_def)
      have mv: "moves (\<lambda>_. ACTIVE) ((if ?R then [n] else []) @ ns) M = moves (\<lambda>_. ACTIVE) ns ?M" for ns
        by (simp add: moves_Cons)
      show ?thesis
      proof (cases "vs = []")
        case e: True
        then have "moves (\<lambda>_. ACTIVE) (rotate_target s (take ?k (n # vs))) M = ?M"
          unfolding tgt mv by (simp add: rotate_target_def)
        then show ?thesis using step e rep on by (auto split: if_splits)
      next
        case ne: False
        have pos': "rot_pos vs (prv ?h (Node n)) (?M INACTIVE)" unfolding MI using w(1,4) ne by simp
        have lp: "lastp = Node (last vs)" using Cons.prems(4) ne by simp
        have t: "rotate_target ?s (take m vs) = rotate_target s (take m vs)" for m
          using rotate_target_move[of n "take m vs" ACTIVE s] nv by (auto dest: in_set_takeD)
        have ns: "nr_scans ?s = nr_scans s" by simp
        from Cons.IH[OF rep pos' ne lp on, of "i + 1"] show ?thesis
          unfolding t ns step tgt mv using ne by simp
      qed
    qed
    show ?thesis
    proof (cases "cur = Head INACTIVE")
      case hd: True
      have "rotate_inactive_loop lastp cur next i s = rotate_inactive_loop lastp (Node n) next i s"
        using True rot_pos_head(1)[OF Cons.prems(2)[unfolded hd] _ ring] hd
        by (subst rotate_inactive_loop.simps) simp
      then show ?thesis using node rot_pos_head(2)[OF Cons.prems(2)[unfolded hd] _ ring] by simp
    next
      case False
      then obtain m where m: "cur = Node m" using Cons.prems(2) unfolding rot_pos_def last_Head_map by (auto split: if_splits)
      then have "m = n" using rot_pos_node[OF Cons.prems(2)[unfolded m] dist ring] by blast
      then show ?thesis using node Cons.prems(2) m by simp
    qed
  qed
qed simp

lemma rotation_order_Node:
  assumes "distinct (as @ c # bs)" shows "rotation_order (Node c) (as @ c # bs) = rev (as @ [c]) @ rev bs"
proof -
  have "takeWhile (\<lambda>x. x \<noteq> c) (as @ c # bs) = as" "dropWhile (\<lambda>x. x \<noteq> c) (as @ c # bs) = c # bs"
    using assms by (auto simp: takeWhile_append dropWhile_append)
  then show ?thesis by (simp add: rotation_order_def)
qed

lemma rotation_start:
  assumes "lru_rep s L" and ne: "L INACTIVE \<noteq> []"
  defines "p \<equiv> next_inactive_rotation s" and "X \<equiv> L INACTIVE"
  shows "rot_pos (rotation_order p X) p X" "rotation_order p X \<noteq> []"
    "(if nxt (cells s) p = Head INACTIVE then nxt (cells s) (Head INACTIVE) else nxt (cells s) p) =
       Node (last (rotation_order p X))"
    "set (rotation_order p X) = set X"
proof -
  have rg: "ring (cells s) (Head INACTIVE) (map Node X)" and rings: "rings (cells s) L"
    using assms(1) by (simp_all add: lru_rep_def rings_def X_def)
  have dist: "distinct X" using rings_distinct[OF rings] by (simp add: X_def)
  have first: "nxt (cells s) (Head INACTIVE) = Node (hd X)"
    using ring_nxt[OF rg] ne by (cases X) (auto simp: X_def)
  have p: "p = Head INACTIVE \<or> (\<exists>c \<in> set X. p = Node c)"
    using assms(1) by (auto simp: lru_rep_def rotor_ok_def p_def X_def)
  have *: "rot_pos (rotation_order p X) p X \<and> rotation_order p X \<noteq> [] \<and>
    (if nxt (cells s) p = Head INACTIVE then nxt (cells s) (Head INACTIVE) else nxt (cells s) p) =
       Node (last (rotation_order p X)) \<and> set (rotation_order p X) = set X"
  proof (cases "p = Head INACTIVE")
    case True
    then have o: "rotation_order p X = rev X" by (simp add: rotation_order_def)
    have "rot_pos (rev X) p X" unfolding rot_pos_def True
      by (intro disjI1 exI[of _ "[]"] exI[of _ X]) simp
    then show ?thesis using o True first ne by (simp add: X_def last_rev)
  next
    case False
    then obtain c where c: "c \<in> set X" "p = Node c" using p by blast
    then obtain as bs where X: "X = as @ c # bs" by (meson split_list)
    have o: "rotation_order p X = rev (as @ [c]) @ rev bs"
      using rotation_order_Node[of as c bs] dist c(2) X by simp
    have "rot_pos (rev (as @ [c]) @ rev bs) (Node c) X" unfolding rot_pos_def
      by (intro disjI1 exI[of _ "as @ [c]"] exI[of _ "[]"] exI[of _ bs]) (simp add: X)
    moreover have "nxt (cells s) p = (case map Node bs of [] \<Rightarrow> Head INACTIVE | b # _ \<Rightarrow> b)"
      using ring_neighbours(2)[of "cells s" "Head INACTIVE" "map Node as" "Node c" "map Node bs"] rg c(2) by (simp add: X)
    ultimately show ?thesis using o c(2) first X by (cases bs; cases as) (auto simp: last_rev)
  qed
  then show "rot_pos (rotation_order p X) p X" "rotation_order p X \<noteq> []"
    "(if nxt (cells s) p = Head INACTIVE then nxt (cells s) (Head INACTIVE) else nxt (cells s) p) =
       Node (last (rotation_order p X))" "set (rotation_order p X) = set X" by simp_all
qed

lemma rotate_inactive_correct:
  assumes L: "lru_rep s L"
  shows "\<exists>s'. rotate_inactive s = Some s' \<and> nr_scans s' = nr_scans s \<and>
    lru_rep s' (moves (\<lambda>_. ACTIVE) (rotate_target s (take (unat (nr_scans s))
      (rotation_order (next_inactive_rotation s) (L INACTIVE)))) L)"
proof -
  have rg: "ring (cells s) (Head INACTIVE) (map Node (L INACTIVE))" using L by (simp add: lru_rep_def rings_def)
  show ?thesis
  proof (cases "L INACTIVE = []")
    case True
    have "next_inactive_rotation s = Head INACTIVE" using L True by (simp add: lru_rep_def rotor_ok_def)
    then show ?thesis using True L ring_empty[OF rg] by (simp add: rotate_inactive_def rotation_order_def rotate_target_def)
  next
    case False
    note st = rotation_start[OF L False]
    let ?p = "next_inactive_rotation s"
    let ?lp = "if nxt (cells s) ?p = Head INACTIVE then nxt (cells s) (Head INACTIVE) else nxt (cells s) ?p"
    have on: "on_list (Head INACTIVE) (L INACTIVE)" by (simp add: on_list_def)
    obtain nx s' where r: "rotate_inactive_loop ?lp ?p (Head INACTIVE) 0 s = Some (nx, s')"
        "nr_scans s' = nr_scans s"
        "lru_rep s' (moves (\<lambda>_. ACTIVE) (rotate_target s (take (unat (nr_scans s)) (rotation_order ?p (L INACTIVE)))) L)"
        "on_list nx (moves (\<lambda>_. ACTIVE) (rotate_target s (take (unat (nr_scans s)) (rotation_order ?p (L INACTIVE)))) L INACTIVE)"
      using rotate_inactive_loop_correct[OF L st(1,2,3) on, of 0] by auto
    have "rotate_inactive s = Some (s'\<lparr>next_inactive_rotation := nx\<rparr>)"
      using r(1) False ring_empty[OF rg] by (auto simp: rotate_inactive_def Let_def split: if_splits)
    moreover have "lru_rep (s'\<lparr>next_inactive_rotation := nx\<rparr>)
      (moves (\<lambda>_. ACTIVE) (rotate_target s (take (unat (nr_scans s)) (rotation_order ?p (L INACTIVE)))) L)"
      using r(3,4) by (simp add: lru_rep_def rotor_ok_def on_list_def)
    ultimately show ?thesis using r(2) by simp
  qed
qed

section \<open>Flushing the pending list\<close>

definition fl_inv :: "bpf_lru \<Rightarrow> lru_lists \<Rightarrow> adr list \<Rightarrow> bpf_lru \<Rightarrow> bool" where
  "fl_inv s0 L us s \<longleftrightarrow> (\<exists>done vs. us = map Node vs \<and> rev (L LOCAL_PENDING) = done @ vs \<and>
     lru_rep s (moves (active_target s0) done L) \<and> (\<forall>m \<in> set vs. ref (node s m) = ref (node s0 m)))"

lemma fl_step:
  assumes inv: "fl_inv s0 L (u # us) s" and L: "lru_rep s0 L" and b: "local_flush_body u s = (b, s')"
  shows "u \<noteq> Head LOCAL_PENDING \<and> (if b then fl_inv s0 L [] s' else fl_inv s0 L us s' \<and>
    prv (cells s) u = (case us of [] \<Rightarrow> Head LOCAL_PENDING | v # _ \<Rightarrow> v))"
proof -
  from inv obtain ds ws where w: "u # us = map Node ws" "rev (L LOCAL_PENDING) = ds @ ws"
      "lru_rep s (moves (active_target s0) ds L)" "\<forall>m \<in> set ws. ref (node s m) = ref (node s0 m)"
    unfolding fl_inv_def by - (elim exE conjE, rule that)
  from w(1) obtain v vs where ws: "ws = v # vs" "u = Node v" "us = map Node vs" by (cases ws) auto
  note i = ws(2,3) w(2-)[unfolded ws(1)]
  let ?t = "active_target s0 v"
  have dist: "distinct (L LOCAL_PENDING)" by (rule lru_rep_distinct[OF L])
  have xs: "L LOCAL_PENDING = rev vs @ v # rev ds" using i(3) by (metis rev_append rev_rev_ident rev.simps(2) append.assoc append_Cons append_Nil)
  have none: "filter (\<lambda>n. active_target s0 n = LOCAL_PENDING) ds = []" by (simp add: active_target_def filter_empty_conv)
  have ring: "ring (cells s) (Head LOCAL_PENDING) (map Node (rev vs) @ [Node v])"
    using moved_ring[OF i(4,3) dist] none by simp
  have vin: "v \<in> set (moves (active_target s0) ds L LOCAL_PENDING)"
    using moves_rest[OF dist i(3)] dist xs by (subst moves_apply) auto
  have isr: "bpf_lru_node_is_ref v s = bpf_lru_node_is_ref v s0" using i(5) by (simp add: bpf_lru_node_is_ref_def)
  have tgt: "LOCAL_PENDING \<noteq> ?t" "\<not> counted_type LOCAL_PENDING" by (simp_all add: active_target_def counted_type_def)
  have body: "\<not> b" "s' = node_move_in v ?t s" using b i(1) isr by (auto simp: local_flush_body_def active_target_def)
  have "lru_rep s' (moves (active_target s0) (ds @ [v]) L)"
    using move_in_rep[OF i(4) vin tgt(2,1)] body(2) by simp
  moreover have "v \<notin> set vs" using dist xs by auto
  then have "\<forall>m \<in> set vs. ref (node s' m) = ref (node s0 m)" using i(5) body(2) by auto
  ultimately have "fl_inv s0 L us s'" unfolding fl_inv_def using i(2,3)
    by (intro exI[of _ "ds @ [v]"] exI[of _ vs] conjI) simp_all
  then show ?thesis using body(1) i(1,2) ring_neighbours(1)[OF ring] by (cases vs) auto
qed

lemma flush_correct:
  assumes L: "lru_rep s L"
  shows "\<exists>s'. local_list_flush s = Some s' \<and> lru_rep s' (moves (active_target s) (rev (L LOCAL_PENDING)) L)"
proof -
  have rg: "ring (cells s) (Head LOCAL_PENDING) (map Node (L LOCAL_PENDING))" using L by (simp add: lru_rep_def rings_def)
  have "\<exists>s'. local_list_flush s = Some s' \<and> fl_inv s L [] s'" unfolding local_list_flush_def
  proof (rule list_for_each_rule[where P = "fl_inv s L" and xs = "map Node (L LOCAL_PENDING)"])
    show "fl_inv s L (rev (map Node (L LOCAL_PENDING))) s"
      unfolding fl_inv_def by (rule exI[of _ "[]"], rule exI[of _ "rev (L LOCAL_PENDING)"]) (use L in \<open>simp add: rev_map\<close>)
    show "ring (cells s) (Head LOCAL_PENDING) (map Node (L LOCAL_PENDING))" by (rule rg)
  qed (rule fl_step[OF _ L]; assumption)
  then show ?thesis by (auto simp: fl_inv_def)
qed

section \<open>Free lists\<close>

lemma first_node:
  assumes "lru_rep s L"
  shows "list_first_or_null (Head t) (cells s) = (case L t of [] \<Rightarrow> None | n # _ \<Rightarrow> Some (Node n))"
  using ring_first[OF lru_rep_ring[OF assms], of t] by (cases "L t") simp_all

lemma pop_free_to_local_rep:
  assumes L: "lru_rep s L"
  shows "lru_rep (pop_free_to_local s) (case L FREE of [] \<Rightarrow> L | n # _ \<Rightarrow> amove n LOCAL_FREE L)"
proof (cases "L FREE")
  case (Cons n ns)
  then have "n \<in> set (L FREE)" by simp
  from move_to_free_rep[OF L this, of LOCAL_FREE] show ?thesis
    using Cons first_node[OF L, of FREE] by (simp add: pop_free_to_local_def counted_type_def)
qed (use first_node[OF L, of FREE] L in \<open>simp add: pop_free_to_local_def\<close>)

lemma del_rep:
  assumes L: "lru_rep s L" and n: "n \<in> set (L f)" and f: "\<not> counted_type f"
  shows "lru_rep (set_cells (list_del Null (Node n)) s) (adel n L)"
proof -
  have rg: "rings (cells s) L" using L by (simp add: lru_rep_def)
  have "adel n L t = L t" if "counted_type t" for t
    using removeAll_other[OF rg n, of t] that f by (cases "t = f") (auto simp: adel_def)
  then have c: "adel n L ACTIVE = L ACTIVE" "adel n L INACTIVE = L INACTIVE" by (simp_all add: counted_type_def)
  have "\<forall>m \<in> set (adel n L t). ntype (node s m) = t" for t using L by (auto simp: adel_def lru_rep_def)
  then show ?thesis using L rings_del[OF rg n] c by (simp add: lru_rep_def)
qed

lemma add_pending_rep:
  assumes L: "lru_rep s L" and n: "n \<notin> all_nodes L"
  shows "lru_rep (local_list_add_pending c n h s) (amove n LOCAL_PENDING L)"
    and "ntype (node (local_list_add_pending c n h s) n) = LOCAL_PENDING"
    and "hash (node (local_list_add_pending c n h s) n) = h"
proof -
  let ?s = "local_list_add_pending c n h s"
  have rg: "rings (cells s) L" using L by (simp add: lru_rep_def)
  have rm: "removeAll n (L t) = L t" for t using n by (intro removeAll_id) (auto simp: all_nodes_def)
  have types: "ntype (node ?s m) = (if m = n then LOCAL_PENDING else ntype (node s m))" for m
    by (simp add: local_list_add_pending_def Let_def set_type_def bpf_lru_node_clear_ref_def)
  have "ntype (node ?s m) = t" if "m \<in> set (amove n LOCAL_PENDING L t)" for m t
    using that L n by (auto simp: types amove_def lru_rep_def all_nodes_def split: if_splits)
  moreover have "rings (cells ?s) (amove n LOCAL_PENDING L)"
    using rings_add[OF rg n] by (simp add: local_list_add_pending_def Let_def set_type_def bpf_lru_node_clear_ref_def)
  ultimately show "lru_rep ?s (amove n LOCAL_PENDING L)"
    using L rm by (simp add: lru_rep_def amove_def local_list_add_pending_def Let_def set_type_def bpf_lru_node_clear_ref_def)
  show "ntype (node ?s n) = LOCAL_PENDING" "hash (node ?s n) = h"
    by (simp_all add: local_list_add_pending_def Let_def set_type_def bpf_lru_node_clear_ref_def)
qed

end
