(* ===== verification/Lru_Props.thy ===== *)
theory Lru_Props
  imports Lru_Ops
begin

text \<open>
  The operations of \<^verbatim>\<open>bpf_lru_list.c\<close> as a step relation, the invariant of its reachable
  states, the free-list interface as a locale interpreted on the model, and the properties
  of the component.
\<close>

section \<open>The operations that clients call\<close>

lemma local_pop_free_correct:
  assumes L: "lru_rep s L"
  shows "local_list_pop_free s = (case L LOCAL_FREE of [] \<Rightarrow> (None, s)
    | n # _ \<Rightarrow> (Some n, set_cells (list_del Null (Node n)) s))"
  using first_node[OF L, of LOCAL_FREE] by (cases "L LOCAL_FREE") (simp_all add: local_list_pop_free_def)

definition pop_result :: "lru_lists \<Rightarrow> nat option" where
  "pop_result L = (case L LOCAL_FREE of n # _ \<Rightarrow> Some n | [] \<Rightarrow> (case L FREE of n # _ \<Rightarrow> Some n | [] \<Rightarrow> None))"

lemma amove_adel: "amove n t (adel n L) = amove n t L"
  by (auto simp: amove_def adel_def)

lemma amove_amove: "amove n t (amove n u L) = amove n t L"
  by (auto simp: amove_def)

lemma pop_local:
  fixes h :: u32
  assumes L: "lru_rep s L" and e: "L LOCAL_FREE = n # ns"
  defines "s' \<equiv> local_list_add_pending 0 n h (set_cells (list_del Null (Node n)) s)"
  shows "lru_rep s' (amove n LOCAL_PENDING L)" "ntype (node s' n) = LOCAL_PENDING" "hash (node s' n) = h"
proof -
  have n: "n \<in> set (L LOCAL_FREE)" using e by simp
  have d: "lru_rep (set_cells (list_del Null (Node n)) s) (adel n L)"
    by (rule del_rep[OF L n]) (simp add: counted_type_def)
  have "n \<notin> all_nodes (adel n L)" by (simp add: all_nodes_adel)
  from add_pending_rep[OF d this, of 0 h]
  show "lru_rep s' (amove n LOCAL_PENDING L)" "ntype (node s' n) = LOCAL_PENDING" "hash (node s' n) = h"
    by (simp_all add: s'_def amove_adel)
qed

lemma common_pop_free_correct:
  assumes L: "lru_rep s L"
  shows "\<exists>s'. common_lru_pop_free h s = (pop_result L, s') \<and>
    (case pop_result L of None \<Rightarrow> s' = s
     | Some n \<Rightarrow> lru_rep s' (amove n LOCAL_PENDING L) \<and> ntype (node s' n) = LOCAL_PENDING \<and> hash (node s' n) = h)"
proof (cases "L LOCAL_FREE")
  case (Cons n ns)
  then show ?thesis using pop_local[OF L Cons, of h] local_pop_free_correct[OF L]
    by (simp add: common_lru_pop_free_def pop_result_def)
next
  case Nil
  show ?thesis
  proof (cases "L FREE")
    case e: Nil
    then have "pop_free_to_local s = s" using first_node[OF L, of FREE] by (simp add: pop_free_to_local_def)
    then show ?thesis using local_pop_free_correct[OF L] Nil e by (simp add: common_lru_pop_free_def pop_result_def)
  next
    case (Cons n ns)
    have r: "lru_rep (pop_free_to_local s) (amove n LOCAL_FREE L)" using pop_free_to_local_rep[OF L] Cons by simp
    have e: "amove n LOCAL_FREE L LOCAL_FREE = n # []" using Nil by (simp add: amove_def)
    show ?thesis using pop_local[OF r e, of h] local_pop_free_correct[OF r] local_pop_free_correct[OF L] Nil Cons e
      by (simp add: common_lru_pop_free_def pop_result_def amove_amove)
  qed
qed

definition push_target :: "lru_list_type \<Rightarrow> lru_list_type" where
  "push_target f = (if f = LOCAL_PENDING then LOCAL_FREE else FREE)"

lemma common_push_free_rep:
  assumes L: "lru_rep s L" and n: "n \<in> set (L f)"
  shows "lru_rep (common_lru_push_free n s) (amove n (push_target f) L)"
    and "\<not> bpf_lru_node_is_ref n (common_lru_push_free n s)"
proof -
  have f: "ntype (node s n) = f" using L n by (auto simp: lru_rep_def)
  have *: "lru_rep (common_lru_push_free n s) (amove n (push_target f) L) \<and> \<not> bpf_lru_node_is_ref n (common_lru_push_free n s)"
  proof (cases "f = LOCAL_PENDING")
    case False
    then show ?thesis using move_rep[OF L n, of FREE] f
      by (simp add: common_lru_push_free_def bpf_lru_list_push_free_def push_target_def bpf_lru_node_is_ref_def)
  next
    case True
    let ?s = "set_cells (list_move (Node n) (Head LOCAL_FREE)) (bpf_lru_node_clear_ref n (set_type n LOCAL_FREE s))"
    have rg: "rings (cells s) L" using L by (simp add: lru_rep_def)
    have o: "amove n LOCAL_FREE L t = L t" if "counted_type t" for t
      using removeAll_other[OF rg n, of t] that True by (auto simp: amove_def counted_type_def)
    have "ntype (node ?s m) = t" if "m \<in> set (amove n LOCAL_FREE L t)" for m t
      using that L by (auto simp: set_type_def bpf_lru_node_clear_ref_def amove_def lru_rep_def split: if_splits)
    then have "lru_rep ?s (amove n LOCAL_FREE L)"
      using L rings_move[OF rg n, of LOCAL_FREE] o
      by (simp add: lru_rep_def set_type_def bpf_lru_node_clear_ref_def counted_type_def)
    moreover have "\<not> bpf_lru_node_is_ref n ?s" by (simp add: bpf_lru_node_is_ref_def bpf_lru_node_clear_ref_def)
    ultimately show ?thesis using True f by (simp add: common_lru_push_free_def push_target_def Let_def)
  qed
  then show "lru_rep (common_lru_push_free n s) (amove n (push_target f) L)"
    "\<not> bpf_lru_node_is_ref n (common_lru_push_free n s)" by simp_all
qed

lemma alloc_correct:
  assumes L: "lru_rep s L"
  shows "case L FREE of [] \<Rightarrow> bpf_lru_list_alloc s = (None, s)
    | n # _ \<Rightarrow> \<exists>s'. bpf_lru_list_alloc s = (Some n, s') \<and> lru_rep s' (amove n INACTIVE L)"
proof (cases "L FREE")
  case Nil
  then show ?thesis using ring_empty[OF lru_rep_ring[OF L], of FREE] by (simp add: bpf_lru_list_alloc_def)
next
  case (Cons n ns)
  have n: "n \<in> set (L FREE)" using Cons by simp
  have ne: "\<not> list_empty (Head FREE) (cells s)" "nxt (cells s) (Head FREE) = Node n"
    using ring_empty[OF lru_rep_ring[OF L], of FREE] ring_nxt[OF lru_rep_ring[OF L], of FREE] Cons by simp_all
  have "bpf_lru_list_alloc s = (Some n, node_move_in n INACTIVE s)"
    using ne by (simp add: bpf_lru_list_alloc_def node_move_in_def Let_def)
  then show ?thesis using move_in_rep[OF L n, of INACTIVE] Cons by (simp add: counted_type_def)
qed

lemma find_map_Node: "List.find P (map Node xs) = map_option Node (List.find (\<lambda>n. P (Node n)) xs)"
  by (induction xs) auto

definition pending_victim :: "bpf_lru \<Rightarrow> nat list \<Rightarrow> nat option" where
  "pending_victim s xs = (case List.find (\<lambda>n. \<not> bpf_lru_node_is_ref n s) (rev xs) of
     Some n \<Rightarrow> Some n | None \<Rightarrow> (if xs = [] then None else Some (last xs)))"

lemma pop_pending_correct:
  assumes L: "lru_rep s L"
  shows "\<exists>s'. local_list_pop_pending s = Some (pending_victim s (L LOCAL_PENDING), s') \<and>
    (case pending_victim s (L LOCAL_PENDING) of None \<Rightarrow> s' = s
     | Some n \<Rightarrow> n \<in> set (L LOCAL_PENDING) \<and> lru_rep s' (adel n L))"
proof -
  let ?X = "L LOCAL_PENDING"
  have find: "find_reverse (cells s) (Head LOCAL_PENDING) (pop_pending_test fo s) (prv (cells s) (Head LOCAL_PENDING)) =
      Some (map_option Node (List.find (\<lambda>n. \<not> bpf_lru_node_is_ref n s \<or> fo) (rev ?X)))" for fo
    using find_reverse_rule[OF lru_rep_ring[OF L, of LOCAL_PENDING], of "pop_pending_test fo s"]
    by (simp add: pop_pending_test_def bpf_lru_delete_node_def find_map_Node rev_map)
  have force: "List.find (\<lambda>n. \<not> bpf_lru_node_is_ref n s \<or> True) (rev ?X) = (if ?X = [] then None else Some (last ?X))"
    by (cases ?X rule: rev_cases) auto
  have v: "local_list_pop_pending s = Some (case pending_victim s ?X of None \<Rightarrow> (None, s)
      | Some n \<Rightarrow> (Some n, set_cells (list_del Null (Node n)) s))"
    unfolding local_list_pop_pending_def Let_def find force pending_victim_def
    by (cases "List.find (\<lambda>n. \<not> bpf_lru_node_is_ref n s) (rev ?X)") auto
  show ?thesis
  proof (cases "pending_victim s ?X")
    case (Some n)
    then have "n \<in> set ?X"
      by (auto simp: pending_victim_def find_Some_iff split: option.splits if_splits) (metis nth_mem set_rev length_rev)
    moreover from this have "lru_rep (set_cells (list_del Null (Node n)) s) (adel n L)"
      by (rule del_rep[OF L]) (simp add: counted_type_def)
    ultimately show ?thesis using v Some by simp
  qed (use v in simp)
qed

section \<open>Initialisation\<close>

definition empty_lists :: lru_lists where
  "empty_lists = (\<lambda>t. [])"

lemma init_cells:
  "cells (bpf_lru_locallist_init c (bpf_lru_list_init s)) =
     fold (\<lambda>t. INIT_LIST_HEAD (Head t)) [ACTIVE, INACTIVE, FREE, LOCAL_FREE, LOCAL_PENDING] (cells s)"
  by (simp add: bpf_lru_locallist_init_def bpf_lru_list_init_def set_cells_def)

lemma init_rep: "lru_rep (bpf_lru_locallist_init c (bpf_lru_list_init s)) empty_lists"
proof -
  let ?s = "bpf_lru_locallist_init c (bpf_lru_list_init s)"
  have "ring (cells ?s) (Head t) []" for t
    unfolding init_cells by (cases t) (simp_all add: ring_def INIT_LIST_HEAD_def)
  then have "rings (cells ?s) empty_lists" by (simp add: rings_def empty_lists_def)
  moreover have "counts ?s ACTIVE = 0" "counts ?s INACTIVE = 0" "next_inactive_rotation ?s = Head INACTIVE"
    by (simp_all add: bpf_lru_locallist_init_def bpf_lru_list_init_def set_cells_def)
  ultimately show ?thesis by (simp add: lru_rep_def empty_lists_def rotor_ok_def)
qed

lemma populate_node_rep:
  assumes L: "lru_rep s L" and n: "n \<notin> all_nodes L"
  shows "lru_rep (populate_node n s) (amove n FREE L)"
proof -
  let ?s = "populate_node n s"
  have rg: "rings (cells s) L" using L by (simp add: lru_rep_def)
  have rm: "removeAll n (L t) = L t" for t using n by (intro removeAll_id) (auto simp: all_nodes_def)
  have "ntype (node ?s m) = t" if "m \<in> set (amove n FREE L t)" for m t
    using that L n by (auto simp: populate_node_def set_type_def bpf_lru_node_clear_ref_def amove_def lru_rep_def all_nodes_def split: if_splits)
  moreover have "rings (cells ?s) (amove n FREE L)"
    using rings_add[OF rg n] by (simp add: populate_node_def set_type_def bpf_lru_node_clear_ref_def)
  ultimately show ?thesis
    using L rm by (simp add: lru_rep_def amove_def populate_node_def set_type_def bpf_lru_node_clear_ref_def)
qed

text \<open>The lists after \<open>k\<close> nodes were added to the free list.\<close>

definition free_lists :: "nat \<Rightarrow> lru_lists" where
  "free_lists k = empty_lists(FREE := rev [0..<k])"

lemma free_lists_Suc: "amove k FREE (free_lists k) = free_lists (Suc k)"
  by (auto simp: free_lists_def amove_def empty_lists_def)

lemma all_free_lists: "all_nodes (free_lists k) = {..<k}"
proof -
  have "all_nodes (free_lists k) = (\<Union>t. if t = FREE then {..<k} else {})"
    unfolding all_nodes_def free_lists_def empty_lists_def by (rule SUP_cong) auto
  then show ?thesis by auto
qed

lemma populate_rep:
  assumes L: "lru_rep s empty_lists"
  shows "lru_rep (fold populate_node [0..<k] s) (free_lists k)"
proof (induction k)
  case 0
  then show ?case using L by (simp add: free_lists_def fun_upd_idem empty_lists_def)
next
  case (Suc k)
  have "k \<notin> all_nodes (free_lists k)" by (simp add: all_free_lists)
  from populate_node_rep[OF Suc this] show ?case by (simp add: free_lists_Suc)
qed

lemma lru_rep_target_free [simp]: "lru_rep (s\<lparr>target_free := x\<rparr>) L = lru_rep s L"
  by (simp add: lru_rep_def)

lemma bpf_lru_populate_rep:
  assumes "lru_rep s empty_lists" and "\<not> percpu s"
  shows "lru_rep (bpf_lru_populate nr s) (free_lists (unat nr))"
  using assms populate_rep[OF assms(1), of "unat nr"] by (simp add: bpf_lru_populate_def Let_def)

section \<open>Reachable states\<close>

text \<open>One call of the file's operations.  The caller hands \<^verbatim>\<open>bpf_lru_push_free\<close> a node that is on
  some list, and \<^verbatim>\<open>bpf_lru_node_set_ref\<close> any node; \<open>fl\<close> is one of the two free lists.\<close>

inductive lru_step :: "bpf_lru \<Rightarrow> bpf_lru \<Rightarrow> bool" where
  step_ref: "lru_step s (bpf_lru_node_set_ref n s)"
| step_rotate: "rotate s = Some s' \<Longrightarrow> lru_step s s'"
| step_shrink: "fl = FREE \<or> fl = LOCAL_FREE \<Longrightarrow> shrink tgt (Head fl) fl s = Some (ns, s') \<Longrightarrow> lru_step s s'"
| step_flush: "local_list_flush s = Some s' \<Longrightarrow> lru_step s s'"
| step_refill: "lru_step s (pop_free_to_local s)"
| step_pop: "bpf_lru_pop_free h s = (r, s') \<Longrightarrow> lru_step s s'"
| step_push: "lru_rep s L \<Longrightarrow> n \<in> all_nodes L \<Longrightarrow> lru_step s (bpf_lru_push_free n s)"
| step_alloc: "bpf_lru_list_alloc s = (r, s') \<Longrightarrow> lru_step s s'"

inductive lru_reach :: "u32 \<Rightarrow> bpf_lru \<Rightarrow> bool" for nr where
  reach_init: "\<not> percpu s \<Longrightarrow> lru_reach nr (bpf_lru_populate nr (bpf_lru_locallist_init c (bpf_lru_list_init s)))"
| reach_step: "lru_reach nr s \<Longrightarrow> lru_step s s' \<Longrightarrow> lru_reach nr s'"

definition lru_inv :: "nat set \<Rightarrow> bpf_lru \<Rightarrow> bool" where
  "lru_inv N s \<longleftrightarrow> (\<exists>L. lru_rep s L \<and> all_nodes L = N)"

lemma set_ref_simps [simp]:
  "cells (bpf_lru_node_set_ref n s) = cells s" "counts (bpf_lru_node_set_ref n s) = counts s"
  "next_inactive_rotation (bpf_lru_node_set_ref n s) = next_inactive_rotation s"
  "ntype (node (bpf_lru_node_set_ref n s) m) = ntype (node s m)"
  by (simp_all add: bpf_lru_node_set_ref_def)

lemma set_ref_rep: "lru_rep (bpf_lru_node_set_ref n s) L = lru_rep s L"
  by (simp add: lru_rep_def)

lemma list_le_all:
  assumes "lru_rep s L" and "all_nodes L = N" and "finite N" and "card N < 2 ^ 32"
  shows "length (L t) < 2 ^ 32"
proof -
  have "length (L t) = card (set (L t))" using lru_rep_distinct[OF assms(1)] by (simp add: distinct_card)
  also have "\<dots> \<le> card N" using assms(2,3) by (intro card_mono) (auto simp: all_nodes_def)
  finally show ?thesis using assms(4) by simp
qed

lemma rotate_inv:
  assumes L: "lru_rep s L" and len: "length (L ACTIVE) < 2 ^ 32"
  shows "\<exists>s' L'. rotate s = Some s' \<and> lru_rep s' L' \<and> all_nodes L' = all_nodes L"
proof -
  obtain s1 L1 where s1: "(if bpf_lru_list_inactive_low s then rotate_active s else Some s) = Some s1"
      "lru_rep s1 L1" "all_nodes L1 = all_nodes L"
  proof (cases "bpf_lru_list_inactive_low s")
    case True
    have "all_nodes (moves (active_target s) (take (scan_limit s (length (L ACTIVE))) (rev (L ACTIVE))) L) = all_nodes L"
    proof (intro all_nodes_moves subsetI)
      fix n assume "n \<in> set (take (scan_limit s (length (L ACTIVE))) (rev (L ACTIVE)))"
      then have "n \<in> set (L ACTIVE)" by (metis in_set_takeD set_rev)
      then show "n \<in> all_nodes L" by (auto simp: all_nodes_def)
    qed
    then show thesis using rotate_active_correct[OF L len] True that by auto
  qed (use L that in auto)
  let ?ns = "rotate_target s1 (take (unat (nr_scans s1)) (rotation_order (next_inactive_rotation s1) (L1 INACTIVE)))"
  have "set ?ns \<subseteq> all_nodes L1"
  proof (cases "L1 INACTIVE = []")
    case True
    have "next_inactive_rotation s1 = Head INACTIVE" using s1(2) True by (simp add: lru_rep_def rotor_ok_def)
    then show ?thesis using True by (simp add: rotation_order_def rotate_target_def)
  next
    case False
    from rotation_start(4)[OF s1(2) False] show ?thesis
      by (auto simp: rotate_target_def all_nodes_def dest: in_set_takeD)
  qed
  then have "all_nodes (moves (\<lambda>_. ACTIVE) ?ns L1) = all_nodes L" using all_nodes_moves s1(3) by metis
  then show ?thesis using rotate_inactive_correct[OF s1(2)] s1(1) by (auto simp: rotate_def)
qed

lemma percpu_simps [simp]:
  "percpu (node_move n t s) = percpu s" "percpu (node_move_to_free n p t s) = percpu s" "percpu (node_move_in n t s) = percpu s"
  by (simp_all add: node_move_def node_move_to_free_def node_move_in_def Let_def set_type_def bpf_lru_node_clear_ref_def)

lemma lru_rep_unique: "lru_rep s L \<Longrightarrow> lru_rep s L' \<Longrightarrow> L = L'"
proof
  fix t assume "lru_rep s L" "lru_rep s L'"
  then have "map Node (L t) = map Node (L' t)" by (intro ring_unique[of "cells s" "Head t"] lru_rep_ring)
  then show "L t = L' t" by (simp add: inj_map_eq_map inj_def)
qed

lemma hd_all_nodes: "L t = n # ns \<Longrightarrow> n \<in> all_nodes L"
  unfolding all_nodes_def by (metis UNIV_I UN_I list.set_intros(1))

lemma lru_step_inv:
  assumes "lru_step s s'" and inv: "lru_inv N s" and N: "finite N" "card N < 2 ^ 32"
  shows "lru_inv N s'"
proof -
  obtain L where L: "lru_rep s L" "all_nodes L = N" using inv by (auto simp: lru_inv_def)
  note len = list_le_all[OF L N]
  from assms(1) show ?thesis
  proof cases
    case (step_ref n)
    then show ?thesis using L by (auto simp: lru_inv_def set_ref_rep)
  next
    case step_rotate
    then show ?thesis using rotate_inv[OF L(1) len] L(2) by (auto simp: lru_inv_def)
  next
    case (step_shrink fl tgt ns)
    then have "\<not> counted_type fl" by (auto simp: counted_type_def)
    from shrink_correct[OF L(1) len this, of tgt] show ?thesis using step_shrink L(2) by (auto simp: lru_inv_def)
  next
    case step_flush
    have "all_nodes (moves (active_target s) (rev (L LOCAL_PENDING)) L) = N"
      using L(2) by (subst all_nodes_moves) (auto simp: all_nodes_def)
    then show ?thesis using flush_correct[OF L(1)] step_flush by (auto simp: lru_inv_def)
  next
    case step_refill
    show ?thesis using pop_free_to_local_rep[OF L(1)] L hd_all_nodes[of L FREE] step_refill by (cases "L FREE") (auto simp: lru_inv_def)
  next
    case (step_pop h r)
    have mem: "n \<in> all_nodes L" if "pop_result L = Some n" for n
    proof -
      have "n \<in> set (L LOCAL_FREE) \<or> n \<in> set (L FREE)"
        using that by (auto simp: pop_result_def split: list.splits)
      then show ?thesis by (auto simp: all_nodes_def)
    qed
    obtain s2 where s2: "common_lru_pop_free h s = (pop_result L, s2)"
        "case pop_result L of None \<Rightarrow> s2 = s | Some n \<Rightarrow> lru_rep s2 (amove n LOCAL_PENDING L) \<and>
           ntype (node s2 n) = LOCAL_PENDING \<and> hash (node s2 n) = h"
      using common_pop_free_correct[OF L(1), of h] by blast
    have "lru_inv N s2" using s2(2) L mem by (cases "pop_result L") (auto simp: lru_inv_def)
    then show ?thesis using step_pop s2(1) inv by (simp add: bpf_lru_pop_free_def split: if_splits)
  next
    case (step_push L' n)
    then have "L' = L" using lru_rep_unique L(1) by blast
    then obtain f where n: "n \<in> set (L f)" "n \<in> all_nodes L" using step_push by (auto simp: all_nodes_def)
    then have "lru_inv N (common_lru_push_free n s)"
      using common_push_free_rep(1)[OF L(1) n(1)] L(2) by (auto simp: lru_inv_def)
    then show ?thesis using step_push inv by (simp add: bpf_lru_push_free_def)
  next
    case (step_alloc r)
    then show ?thesis using alloc_correct[OF L(1)] L hd_all_nodes[of L FREE]
      by (cases "L FREE") (auto simp: lru_inv_def)
  qed
qed

lemma lru_reach_inv: "lru_reach nr s \<Longrightarrow> lru_inv {..<unat nr} s"
proof (induction rule: lru_reach.induct)
  case (reach_init s c)
  have "\<not> percpu (bpf_lru_locallist_init c (bpf_lru_list_init s))"
    using reach_init by (simp add: bpf_lru_locallist_init_def bpf_lru_list_init_def set_cells_def)
  from bpf_lru_populate_rep[OF init_rep this, of nr] show ?case by (auto simp: lru_inv_def all_free_lists)
next
  case (reach_step s s')
  have "unat nr < 2 ^ LENGTH(32)" by (rule unsigned_less)
  then show ?case using lru_step_inv[OF reach_step(2,3)] by simp
qed

section \<open>The free-node interface\<close>

fun pop_many :: "('s \<Rightarrow> 'n option \<times> 's) \<Rightarrow> nat \<Rightarrow> 's \<Rightarrow> 'n option list \<times> 's" where
  "pop_many pop 0 s = ([], s)"
| "pop_many pop (Suc k) s = (let (r, s) = pop s; (rs, s) = pop_many pop k s in (r # rs, s))"

text \<open>A provider of free nodes: \<open>F\<close> are the free nodes, \<open>U\<close> the nodes in use.\<close>

locale free_nodes =
  fixes inv :: "'s \<Rightarrow> 'n set \<Rightarrow> 'n set \<Rightarrow> bool" and pop :: "'s \<Rightarrow> 'n option \<times> 's" and push :: "'n \<Rightarrow> 's \<Rightarrow> 's"
  assumes pop_none: "inv s F U \<Longrightarrow> pop s = (None, s') \<Longrightarrow> F = {} \<and> s' = s"
    and pop_some: "inv s F U \<Longrightarrow> pop s = (Some n, s') \<Longrightarrow> n \<in> F \<and> inv s' (F - {n}) (insert n U)"
    and push_used: "inv s F U \<Longrightarrow> n \<in> U \<Longrightarrow> inv (push n s) (insert n F) (U - {n})"
begin

lemma pop_many_distinct:
  assumes "inv s F U" and "finite F" and "k \<le> card F"
  shows "\<exists>ns s'. pop_many pop k s = (map Some ns, s') \<and> length ns = k \<and> distinct ns \<and> set ns \<subseteq> F \<and>
    inv s' (F - set ns) (U \<union> set ns)"
  using assms
proof (induction k arbitrary: s F U)
  case (Suc k)
  obtain r s1 where p: "pop s = (r, s1)" by (cases "pop s")
  have "F \<noteq> {}" using Suc.prems by auto
  then obtain n where r: "r = Some n" using pop_none[OF Suc.prems(1)] p by (cases r) auto
  have n: "n \<in> F" "inv s1 (F - {n}) (insert n U)" using pop_some[OF Suc.prems(1)] p r by auto
  have "k \<le> card (F - {n})" using Suc.prems(2,3) n(1) by simp
  from Suc.IH[OF n(2) _ this] Suc.prems(2) obtain ns s2 where
      "pop_many pop k s1 = (map Some ns, s2)" "length ns = k" "distinct ns" "set ns \<subseteq> F - {n}"
      "inv s2 (F - {n} - set ns) (insert n U \<union> set ns)" by auto
  moreover have "F - {n} - set ns = F - set (n # ns)" "insert n U \<union> set ns = U \<union> set (n # ns)" by auto
  ultimately show ?case using p r n(1) by (intro exI[of _ "n # ns"] exI[of _ s2]) auto
qed auto

lemma pop_then_push:
  assumes "inv s F U" and "pop s = (Some n, s')" and "n \<notin> U"
  shows "inv (push n s') F U"
proof -
  have n: "n \<in> F" "inv s' (F - {n}) (insert n U)" using pop_some[OF assms(1,2)] by auto
  from push_used[OF n(2), of n] show ?thesis using n(1) assms(3) by (simp add: insert_absorb)
qed

end

lemma lru_rep_type: "lru_rep s L \<Longrightarrow> n \<in> set (L t) \<Longrightarrow> n \<in> set (L u) \<Longrightarrow> t = u"
  unfolding lru_rep_def by metis

definition lru_free_used :: "bpf_lru \<Rightarrow> nat set \<Rightarrow> nat set \<Rightarrow> bool" where
  "lru_free_used s F U \<longleftrightarrow> \<not> percpu s \<and> (\<exists>L. lru_rep s L \<and> F = set (L FREE) \<union> set (L LOCAL_FREE) \<and>
     U = set (L ACTIVE) \<union> set (L INACTIVE) \<union> set (L LOCAL_PENDING))"

lemma set_amove: "set (amove n t L u) = (if u = t then insert n (set (L u)) else set (L u) - {n})"
  by (auto simp: amove_def)

lemma percpu_pop: "percpu (snd (common_lru_pop_free h s)) = percpu s"
  by (simp add: common_lru_pop_free_def local_list_pop_free_def pop_free_to_local_def local_list_add_pending_def
      Let_def set_type_def bpf_lru_node_clear_ref_def split: option.splits)

lemma percpu_push: "percpu (common_lru_push_free n s) = percpu s"
  by (simp add: common_lru_push_free_def bpf_lru_list_push_free_def Let_def set_type_def bpf_lru_node_clear_ref_def)

interpretation lru: free_nodes lru_free_used "bpf_lru_pop_free h" bpf_lru_push_free for h
proof unfold_locales
  fix s F U s' assume a: "lru_free_used s F U" "bpf_lru_pop_free h s = (None, s')"
  then obtain L where L: "lru_rep s L" "F = set (L FREE) \<union> set (L LOCAL_FREE)" "\<not> percpu s"
    by (auto simp: lru_free_used_def)
  have "pop_result L = None" "s' = s"
    using common_pop_free_correct[OF L(1), of h] a(2) L(3) by (auto simp: bpf_lru_pop_free_def)
  then show "F = {} \<and> s' = s" using L(2) by (auto simp: pop_result_def split: list.splits)
next
  fix s F U n s' assume a: "lru_free_used s F U" "bpf_lru_pop_free h s = (Some n, s')"
  then obtain L where L: "lru_rep s L" "F = set (L FREE) \<union> set (L LOCAL_FREE)" "\<not> percpu s"
      "U = set (L ACTIVE) \<union> set (L INACTIVE) \<union> set (L LOCAL_PENDING)"
    by (auto simp: lru_free_used_def)
  have "pop_result L = Some n"
    using common_pop_free_correct[OF L(1), of h] a(2) L(3) by (auto simp: bpf_lru_pop_free_def)
  then have p: "pop_result L = Some n" "lru_rep s' (amove n LOCAL_PENDING L)"
    using common_pop_free_correct[OF L(1), of h] a(2) L(3) by (auto simp: bpf_lru_pop_free_def)
  have n: "n \<in> F" using p(1) L(2) by (auto simp: pop_result_def split: list.splits)
  have "n \<notin> U"
    using n L(2,4) by (auto dest: lru_rep_type[OF L(1)])
  moreover have "\<not> percpu s'" using percpu_pop[of h s] a(2) L(3) by (simp add: bpf_lru_pop_free_def)
  ultimately have "lru_free_used s' (F - {n}) (insert n U)"
    unfolding lru_free_used_def using p(2) L(2,4) by (intro conjI exI[of _ "amove n LOCAL_PENDING L"]) (auto simp: set_amove)
  then show "n \<in> F \<and> lru_free_used s' (F - {n}) (insert n U)" using n by simp
next
  fix s F U n assume a: "lru_free_used s F U" "n \<in> U"
  then obtain L where L: "lru_rep s L" "F = set (L FREE) \<union> set (L LOCAL_FREE)" "\<not> percpu s"
      "U = set (L ACTIVE) \<union> set (L INACTIVE) \<union> set (L LOCAL_PENDING)"
    by (auto simp: lru_free_used_def)
  obtain f where f: "n \<in> set (L f)" "f \<in> {ACTIVE, INACTIVE, LOCAL_PENDING}" using a(2) L(4) by blast
  have "n \<notin> F" using a(2) L(2,4) by (auto dest: lru_rep_type[OF L(1)])
  then show "lru_free_used (bpf_lru_push_free n s) (insert n F) (U - {n})"
    unfolding lru_free_used_def bpf_lru_push_free_def using common_push_free_rep(1)[OF L(1) f(1)] L(2-4) percpu_push[of n s]
    by (intro conjI exI[of _ "amove n (push_target f) L"]) (auto simp: set_amove push_target_def)
qed

section \<open>Concrete states\<close>

definition lru_static :: bpf_lru where
  "lru_static = \<lparr>cells = \<lparr>nxt = (\<lambda>_. Null), prv = (\<lambda>_. Null)\<rparr>,
     node = (\<lambda>_. \<lparr>cpu = 0, ntype = ACTIVE, ref = 0, hash = 0\<rparr>), counts = (\<lambda>_. 0),
     next_inactive_rotation = Null, next_steal = 0, target_free = 0, nr_scans = 2, percpu = False\<rparr>"

definition lru_four :: bpf_lru where
  "lru_four = bpf_lru_populate 4 (bpf_lru_locallist_init 0 (bpf_lru_list_init lru_static))"

lemma lru_four_rep: "lru_rep lru_four (free_lists 4)"
proof -
  have "\<not> percpu (bpf_lru_locallist_init 0 (bpf_lru_list_init lru_static))"
    by (simp add: bpf_lru_locallist_init_def bpf_lru_list_init_def set_cells_def lru_static_def)
  from bpf_lru_populate_rep[OF init_rep this, of 4] show ?thesis by (simp add: lru_four_def)
qed

lemma lru_four_free: "lru_free_used lru_four {..<4} {}"
proof -
  have "percpu (fold populate_node ns s) = percpu s" for ns s
    by (induction ns arbitrary: s) (simp_all add: populate_node_def set_type_def bpf_lru_node_clear_ref_def)
  then have "\<not> percpu lru_four"
    by (simp add: lru_four_def bpf_lru_populate_def bpf_lru_locallist_init_def bpf_lru_list_init_def set_cells_def lru_static_def Let_def)
  moreover have "set (free_lists 4 FREE) = {..<4}" by (auto simp: free_lists_def)
  ultimately show ?thesis unfolding lru_free_used_def using lru_four_rep
    by (intro conjI exI[of _ "free_lists 4"]) (simp_all add: free_lists_def empty_lists_def)
qed

text \<open>The same pool with two nodes in use, one of them referenced.\<close>

definition lru_used :: bpf_lru where
  "lru_used = bpf_lru_node_set_ref 3 (snd (bpf_lru_list_alloc (snd (bpf_lru_list_alloc lru_four))))"

lemma lru_used_rep: "lru_rep lru_used (amove 2 INACTIVE (amove 3 INACTIVE (free_lists 4)))"
proof -
  have f: "free_lists 4 FREE = 3 # [2, 1, 0]" by (simp add: free_lists_def upt_rec)
  from alloc_correct[OF lru_four_rep] obtain s1 where
      s1: "bpf_lru_list_alloc lru_four = (Some 3, s1)" "lru_rep s1 (amove 3 INACTIVE (free_lists 4))"
    unfolding f by auto
  have f2: "amove 3 INACTIVE (free_lists 4) FREE = 2 # [1, 0]" by (simp add: amove_def f)
  from alloc_correct[OF s1(2)] obtain s2 where
      "bpf_lru_list_alloc s1 = (Some 2, s2)" "lru_rep s2 (amove 2 INACTIVE (amove 3 INACTIVE (free_lists 4)))"
    unfolding f2 by auto
  then show ?thesis using s1(1) by (simp add: lru_used_def set_ref_rep)
qed

lemma lru_used_inactive: "amove 2 INACTIVE (amove 3 INACTIVE (free_lists 4)) INACTIVE = [2, 3]"
  by (simp add: amove_def free_lists_def empty_lists_def)

section \<open>Properties\<close>

text \<open>C7: in every state that initialisation, population and any sequence of the file's
  operations reach, the five lists are well-formed disjoint rings, every node's type names
  its list, the two counters are the lengths of their lists, the rotation pointer is on the
  inactive list, and no node is lost or duplicated.\<close>

theorem lru_reachable_invariant:
  assumes "lru_reach nr s"
  shows "\<exists>L. lru_rep s L \<and> all_nodes L = {..<unat nr}"
  using lru_reach_inv[OF assms] by (simp add: lru_inv_def)

theorem lru_reachable_invariant_witness:
  "\<exists>L. lru_rep (pop_free_to_local lru_four) L \<and> all_nodes L = {..<4}"
proof -
  have "lru_reach 4 lru_four" unfolding lru_four_def by (rule reach_init) (simp add: lru_static_def)
  then have "lru_reach 4 (pop_free_to_local lru_four)" by (rule reach_step) (rule step_refill)
  from lru_reachable_invariant[OF this] show ?thesis by simp
qed

text \<open>C8: \<^verbatim>\<open>__bpf_lru_list_rotate_inactive\<close> ends, although its \<^verbatim>\<open>continue\<close> does not count a
  scan; it visits the first \<^verbatim>\<open>nr_scans\<close> nodes backwards from the rotation pointer and around
  the ring, moves exactly the referenced ones to the active list, and keeps the invariant.\<close>

theorem lru_rotate_inactive_correct:
  assumes "lru_rep s L"
  shows "\<exists>s'. rotate_inactive s = Some s' \<and>
    lru_rep s' (moves (\<lambda>_. ACTIVE) (rotate_target s (take (unat (nr_scans s))
      (rotation_order (next_inactive_rotation s) (L INACTIVE)))) L)"
  using rotate_inactive_correct[OF assms] by blast

theorem lru_rotate_inactive_correct_witness:
  "\<exists>s' L'. rotate_inactive lru_used = Some s' \<and> lru_rep s' L'"
  using lru_rotate_inactive_correct[OF lru_used_rep] by blast

text \<open>\<^verbatim>\<open>__bpf_lru_list_rotate_active\<close> ends after one pass over at most \<^verbatim>\<open>nr_scans\<close> nodes from
  the tail: referenced nodes go back to the front of the active list, the others to the front
  of the inactive list.\<close>

theorem lru_rotate_active_correct:
  assumes "lru_rep s L" and "length (L ACTIVE) < 2 ^ 32"
  shows "\<exists>s'. rotate_active s = Some s' \<and>
    lru_rep s' (moves (active_target s) (take (scan_limit s (length (L ACTIVE))) (rev (L ACTIVE))) L)"
  using rotate_active_correct[OF assms] by blast

theorem lru_rotate_active_correct_witness:
  "\<exists>s' L'. rotate_active lru_four = Some s' \<and> lru_rep s' L'"
  using lru_rotate_active_correct[OF lru_four_rep] by (auto simp: free_lists_def empty_lists_def)

text \<open>C9: \<^verbatim>\<open>__bpf_lru_list_shrink\<close> ends, keeps the invariant and the nodes, returns the number of
  nodes it added to the free list, at most the target, and returns 0 only when the active and
  the inactive list are both empty.\<close>

theorem lru_shrink_correct:
  assumes "lru_rep s L" and "length (L INACTIVE) < 2 ^ 32" and "fl = FREE \<or> fl = LOCAL_FREE"
  shows "\<exists>ns s' L'. shrink tgt (Head fl) fl s = Some (ns, s') \<and> lru_rep s' L' \<and> all_nodes L' = all_nodes L \<and>
    length (L' fl) = length (L fl) + unat ns \<and>
    (ns = 0 \<longleftrightarrow> L ACTIVE = [] \<and> L INACTIVE = []) \<and> (tgt \<noteq> 0 \<longrightarrow> ns \<le> tgt)"
  using assms(3) by (intro shrink_correct[OF assms(1,2)]) (auto simp: counted_type_def)

theorem lru_shrink_correct_witness:
  "\<exists>ns s'. shrink 1 (Head FREE) FREE lru_used = Some (ns, s') \<and> ns = 1"
proof -
  have "length (amove 2 INACTIVE (amove 3 INACTIVE (free_lists 4)) INACTIVE) < 2 ^ 32" unfolding lru_used_inactive by simp
  from lru_shrink_correct[OF lru_used_rep this, of FREE 1] obtain ns s' where
      "shrink 1 (Head FREE) FREE lru_used = Some (ns, s')" "ns \<noteq> 0" "ns \<le> 1"
    by (auto simp: lru_used_inactive)
  moreover from this have "ns = 1" by (simp add: word_le_nat_alt word_unat_eq_iff)
  ultimately show ?thesis by blast
qed

text \<open>\<^verbatim>\<open>bpf_lru_pop_free\<close> on a pool with \<open>k\<close> free nodes succeeds \<open>k\<close> times in a row with
  distinct nodes, all of which were free, and each is then on the pending list.\<close>

theorem lru_pop_free_all:
  assumes "lru_free_used s F U" and "finite F" and "k \<le> card F"
  shows "\<exists>ns s'. pop_many (bpf_lru_pop_free h) k s = (map Some ns, s') \<and> length ns = k \<and> distinct ns \<and>
    set ns \<subseteq> F \<and> lru_free_used s' (F - set ns) (U \<union> set ns)"
  using assms by (rule lru.pop_many_distinct)

theorem lru_pop_free_all_witness:
  "\<exists>ns s'. pop_many (bpf_lru_pop_free 7) 4 lru_four = (map Some ns, s') \<and> distinct ns \<and> length ns = 4"
  using lru_pop_free_all[OF lru_four_free, of 4 7] by auto
text \<open>\<^verbatim>\<open>bpf_lru_push_free\<close> of a node in use makes exactly that node free, and the node that
  \<^verbatim>\<open>bpf_lru_pop_free\<close> returned can be pushed back with no other effect on the free set.\<close>

theorem lru_pop_push_roundtrip:
  assumes "lru_free_used s F U" and "bpf_lru_pop_free h s = (Some n, s')"
  shows "lru_free_used (bpf_lru_push_free n s') F U"
proof -
  obtain L where L: "lru_rep s L" "F = set (L FREE) \<union> set (L LOCAL_FREE)"
      "U = set (L ACTIVE) \<union> set (L INACTIVE) \<union> set (L LOCAL_PENDING)"
    using assms(1) by (auto simp: lru_free_used_def)
  have "n \<in> F" using lru.pop_some[OF assms] by simp
  then have "n \<notin> U" using L(2,3) by (auto dest: lru_rep_type[OF L(1)])
  with assms show ?thesis by (rule lru.pop_then_push)
qed

theorem lru_pop_push_roundtrip_witness:
  "\<exists>n s'. bpf_lru_pop_free 7 lru_four = (Some n, s') \<and> lru_free_used (bpf_lru_push_free n s') {..<4} {}"
proof -
  obtain n s' where p: "bpf_lru_pop_free 7 lru_four = (Some n, s')"
    using lru.pop_many_distinct[OF lru_four_free, of 1 7] by (cases "bpf_lru_pop_free 7 lru_four") auto
  from lru_pop_push_roundtrip[OF lru_four_free p] p show ?thesis by blast
qed

end
