(* ===== verification/Bitmap.thy ===== *)
theory Bitmap
  imports Bpf_Prelude
begin

text \<open>
  The bitmap routines of \<^verbatim>\<open>shims/lib/bitmap.c\<close> over lists of 64-bit words, and their
  correctness bit by bit.  The masks and the population count come from kernel headers that
  are not part of the repository (\<^verbatim>\<open>BITMAP_LAST_WORD_MASK\<close>, \<^verbatim>\<open>BITMAP_FIRST_WORD_MASK\<close>,
  \<^verbatim>\<open>BITS_TO_LONGS\<close>, \<^verbatim>\<open>BIT_WORD\<close>, \<^verbatim>\<open>hweight_long\<close>, with \<^verbatim>\<open>BITS_PER_LONG\<close> 64): they are a
  parameter of every routine, and \<open>bitmap_ops_ok\<close> states their documented behaviour.  A
  routine reads word \<open>k\<close> of its sources before it writes word \<open>k\<close> of the destination, so the
  model also covers a destination that aliases a source.
\<close>

section \<open>Parameters\<close>

abbreviation BITS_PER_LONG :: nat where "BITS_PER_LONG \<equiv> 64"

record bitmap_ops =
  last_word_mask :: "nat \<Rightarrow> u64"
  first_word_mask :: "nat \<Rightarrow> u64"
  bits_to_longs :: "nat \<Rightarrow> nat"
  bit_word :: "nat \<Rightarrow> nat"
  hweight_long :: "u64 \<Rightarrow> u32"

definition bitmap_ops_ok :: "bitmap_ops \<Rightarrow> bool" where
  "bitmap_ops_ok m \<longleftrightarrow>
     (\<forall>n j. n mod 64 \<noteq> 0 \<longrightarrow> bit (last_word_mask m n) j = (j < n mod 64)) \<and>
     (\<forall>n j. bit (first_word_mask m n) j = (n mod 64 \<le> j \<and> j < 64)) \<and>
     (\<forall>n. bits_to_longs m n = (n + 63) div 64) \<and> (\<forall>n. bit_word m n = n div 64) \<and>
     (\<forall>w. hweight_long m w = of_nat (card {j. j < 64 \<and> bit w j}))"

section \<open>Routines\<close>

definition bitmap_equal :: "bitmap_ops \<Rightarrow> u64 list \<Rightarrow> u64 list \<Rightarrow> nat \<Rightarrow> bool" where
  "bitmap_equal m b1 b2 nbits =
     (let lim = nbits div BITS_PER_LONG
      in if \<not> list_all (\<lambda>k. b1 ! k = b2 ! k) [0..<lim] then False
         else if nbits mod BITS_PER_LONG \<noteq> 0 \<and> c_true ((b1 ! lim XOR b2 ! lim) AND last_word_mask m nbits) then False
         else True)"

definition bitmap_or_equal :: "bitmap_ops \<Rightarrow> u64 list \<Rightarrow> u64 list \<Rightarrow> u64 list \<Rightarrow> nat \<Rightarrow> bool" where
  "bitmap_or_equal m b1 b2 b3 nbits =
     (let lim = nbits div BITS_PER_LONG
      in if \<not> list_all (\<lambda>k. b1 ! k OR b2 ! k = b3 ! k) [0..<lim] then False
         else if \<not> nbits mod BITS_PER_LONG \<noteq> 0 then True
         else let tmp = (b1 ! lim OR b2 ! lim) XOR b3 ! lim in tmp AND last_word_mask m nbits = 0)"

text \<open>\<^verbatim>\<open>for (k = 0; k < nr; k++) dst[k] = f(k);\<close>\<close>

definition write_words :: "(nat \<Rightarrow> u64) \<Rightarrow> nat \<Rightarrow> u64 list \<Rightarrow> u64 list" where
  "write_words f nr dst = fold (\<lambda>k d. d[k := f k]) [0..<nr] dst"

definition bitmap_complement :: "bitmap_ops \<Rightarrow> u64 list \<Rightarrow> u64 list \<Rightarrow> nat \<Rightarrow> u64 list" where
  "bitmap_complement m dst src nbits = write_words (\<lambda>k. NOT (src ! k)) (bits_to_longs m nbits) dst"

definition bitmap_or :: "bitmap_ops \<Rightarrow> u64 list \<Rightarrow> u64 list \<Rightarrow> u64 list \<Rightarrow> nat \<Rightarrow> u64 list" where
  "bitmap_or m dst b1 b2 nbits = write_words (\<lambda>k. b1 ! k OR b2 ! k) (bits_to_longs m nbits) dst"

definition bitmap_xor :: "bitmap_ops \<Rightarrow> u64 list \<Rightarrow> u64 list \<Rightarrow> u64 list \<Rightarrow> nat \<Rightarrow> u64 list" where
  "bitmap_xor m dst b1 b2 nbits = write_words (\<lambda>k. b1 ! k XOR b2 ! k) (bits_to_longs m nbits) dst"

definition bitmap_replace :: "bitmap_ops \<Rightarrow> u64 list \<Rightarrow> u64 list \<Rightarrow> u64 list \<Rightarrow> u64 list \<Rightarrow> nat \<Rightarrow> u64 list" where
  "bitmap_replace m dst old new msk nbits =
     write_words (\<lambda>k. (old ! k AND NOT (msk ! k)) OR (new ! k AND msk ! k)) (bits_to_longs m nbits) dst"

text \<open>The accumulating loops of \<^verbatim>\<open>__bitmap_and\<close> and \<^verbatim>\<open>__bitmap_andnot\<close>.\<close>

definition write_or :: "(nat \<Rightarrow> u64) \<Rightarrow> nat \<Rightarrow> u64 list \<times> u64 \<Rightarrow> u64 list \<times> u64" where
  "write_or f nr st = fold (\<lambda>k (d, result). (d[k := f k], result OR f k)) [0..<nr] st"

definition bitmap_and :: "bitmap_ops \<Rightarrow> u64 list \<Rightarrow> u64 list \<Rightarrow> u64 list \<Rightarrow> nat \<Rightarrow> bool \<times> u64 list" where
  "bitmap_and m dst b1 b2 nbits =
     (let lim = nbits div BITS_PER_LONG;
          (dst, result) = write_or (\<lambda>k. b1 ! k AND b2 ! k) lim (dst, 0);
          (dst, result) = (if nbits mod BITS_PER_LONG \<noteq> 0
             then let w = (b1 ! lim AND b2 ! lim) AND last_word_mask m nbits in (dst[lim := w], result OR w)
             else (dst, result))
      in (result \<noteq> 0, dst))"

definition bitmap_andnot :: "bitmap_ops \<Rightarrow> u64 list \<Rightarrow> u64 list \<Rightarrow> u64 list \<Rightarrow> nat \<Rightarrow> bool \<times> u64 list" where
  "bitmap_andnot m dst b1 b2 nbits =
     (let lim = nbits div BITS_PER_LONG;
          (dst, result) = write_or (\<lambda>k. b1 ! k AND NOT (b2 ! k)) lim (dst, 0);
          (dst, result) = (if nbits mod BITS_PER_LONG \<noteq> 0
             then let w = (b1 ! lim AND NOT (b2 ! lim)) AND last_word_mask m nbits in (dst[lim := w], result OR w)
             else (dst, result))
      in (result \<noteq> 0, dst))"

definition bitmap_intersects :: "bitmap_ops \<Rightarrow> u64 list \<Rightarrow> u64 list \<Rightarrow> nat \<Rightarrow> bool" where
  "bitmap_intersects m b1 b2 nbits =
     (let lim = nbits div BITS_PER_LONG
      in if list_ex (\<lambda>k. c_true (b1 ! k AND b2 ! k)) [0..<lim] then True
         else if nbits mod BITS_PER_LONG \<noteq> 0 \<and> c_true ((b1 ! lim AND b2 ! lim) AND last_word_mask m nbits) then True
         else False)"

definition bitmap_subset :: "bitmap_ops \<Rightarrow> u64 list \<Rightarrow> u64 list \<Rightarrow> nat \<Rightarrow> bool" where
  "bitmap_subset m b1 b2 nbits =
     (let lim = nbits div BITS_PER_LONG
      in if list_ex (\<lambda>k. c_true (b1 ! k AND NOT (b2 ! k))) [0..<lim] then False
         else if nbits mod BITS_PER_LONG \<noteq> 0 \<and> c_true ((b1 ! lim AND NOT (b2 ! lim)) AND last_word_mask m nbits) then False
         else True)"

text \<open>The counting loop shared by the weight routines: \<open>f k\<close> is the word that is counted.\<close>

definition weight_words :: "bitmap_ops \<Rightarrow> (nat \<Rightarrow> u64) \<Rightarrow> nat \<Rightarrow> u32" where
  "weight_words m f nbits =
     (let lim = nbits div BITS_PER_LONG;
          w = fold (\<lambda>k w. w + hweight_long m (f k)) [0..<lim] 0
      in if nbits mod BITS_PER_LONG \<noteq> 0 then w + hweight_long m (f lim AND last_word_mask m nbits) else w)"

definition bitmap_weight :: "bitmap_ops \<Rightarrow> u64 list \<Rightarrow> nat \<Rightarrow> u32" where
  "bitmap_weight m b nbits = weight_words m (\<lambda>k. b ! k) nbits"

definition bitmap_weight_and :: "bitmap_ops \<Rightarrow> u64 list \<Rightarrow> u64 list \<Rightarrow> nat \<Rightarrow> u32" where
  "bitmap_weight_and m b1 b2 nbits = weight_words m (\<lambda>k. b1 ! k AND b2 ! k) nbits"

definition bitmap_weight_andnot :: "bitmap_ops \<Rightarrow> u64 list \<Rightarrow> u64 list \<Rightarrow> nat \<Rightarrow> u32" where
  "bitmap_weight_andnot m b1 b2 nbits = weight_words m (\<lambda>k. b1 ! k AND NOT (b2 ! k)) nbits"

text \<open>The weighted routines write a word and count it in the same pass.\<close>

definition weighted_write :: "bitmap_ops \<Rightarrow> (nat \<Rightarrow> u64) \<Rightarrow> u64 list \<Rightarrow> nat \<Rightarrow> u32 \<times> u64 list" where
  "weighted_write m f dst nbits =
     (let lim = nbits div BITS_PER_LONG;
          (dst, w) = fold (\<lambda>k (d, w). let d = d[k := f k] in (d, w + hweight_long m (d ! k))) [0..<lim] (dst, 0)
      in if nbits mod BITS_PER_LONG \<noteq> 0
         then let dst = dst[lim := f lim] in (w + hweight_long m (dst ! lim AND last_word_mask m nbits), dst)
         else (w, dst))"

definition bitmap_weighted_or :: "bitmap_ops \<Rightarrow> u64 list \<Rightarrow> u64 list \<Rightarrow> u64 list \<Rightarrow> nat \<Rightarrow> u32 \<times> u64 list" where
  "bitmap_weighted_or m dst b1 b2 nbits = weighted_write m (\<lambda>k. b1 ! k OR b2 ! k) dst nbits"

definition bitmap_weighted_xor :: "bitmap_ops \<Rightarrow> u64 list \<Rightarrow> u64 list \<Rightarrow> u64 list \<Rightarrow> nat \<Rightarrow> u32 \<times> u64 list" where
  "bitmap_weighted_xor m dst b1 b2 nbits = weighted_write m (\<lambda>k. b1 ! k XOR b2 ! k) dst nbits"

text \<open>The loop of \<^verbatim>\<open>__bitmap_set\<close> and \<^verbatim>\<open>__bitmap_clear\<close>: \<open>upd\<close> applies a mask to a word.  It
  returns the map, the word index, the remaining length and the mask.\<close>

partial_function (option) range_loop ::
    "(u64 \<Rightarrow> u64 \<Rightarrow> u64) \<Rightarrow> u64 list \<Rightarrow> nat \<Rightarrow> int \<Rightarrow> int \<Rightarrow> u64 \<Rightarrow> (u64 list \<times> nat \<times> int \<times> u64) option" where
  "range_loop upd mp p len bits_to msk =
     (if len - bits_to \<ge> 0
      then range_loop upd (mp[p := upd (mp ! p) msk]) (p + 1) (len - bits_to) (int BITS_PER_LONG) (NOT 0)
      else Some (mp, p, len, msk))"

declare range_loop.simps [code]

definition bitmap_range :: "(u64 \<Rightarrow> u64 \<Rightarrow> u64) \<Rightarrow> bitmap_ops \<Rightarrow> u64 list \<Rightarrow> u32 \<Rightarrow> int \<Rightarrow> u64 list option" where
  "bitmap_range upd m mp start len =
     (let p = bit_word m (unat start);
          size = start + of_int len;
          bits_to = int BITS_PER_LONG - int (unat start mod BITS_PER_LONG);
          msk = first_word_mask m (unat start)
      in case range_loop upd mp p len bits_to msk of
           None \<Rightarrow> None
         | Some (mp, p, len, msk) \<Rightarrow>
             if len \<noteq> 0 then Some (mp[p := upd (mp ! p) (msk AND last_word_mask m (unat size))])
             else Some mp)"

definition bitmap_set :: "bitmap_ops \<Rightarrow> u64 list \<Rightarrow> u32 \<Rightarrow> int \<Rightarrow> u64 list option" where
  "bitmap_set = bitmap_range (\<lambda>w msk. w OR msk)"

definition bitmap_clear :: "bitmap_ops \<Rightarrow> u64 list \<Rightarrow> u32 \<Rightarrow> int \<Rightarrow> u64 list option" where
  "bitmap_clear = bitmap_range (\<lambda>w msk. w AND NOT msk)"

section \<open>Bit semantics\<close>

definition bmap :: "u64 list \<Rightarrow> nat \<Rightarrow> bool" where
  "bmap b i = bit (b ! (i div 64)) (i mod 64)"

lemma bit_index_less: "k < n div 64 \<Longrightarrow> j < 64 \<Longrightarrow> 64 * k + j < n" for n :: nat
proof -
  assume "k < n div 64" and j: "j < 64"
  then have "Suc k * 64 \<le> n div 64 * 64" by (simp only: mult_le_mono1 Suc_leI)
  also have "\<dots> \<le> n" by simp
  finally show ?thesis using j by simp
qed

lemma all_bits_split:
  "(\<forall>i < n. P i) \<longleftrightarrow> (\<forall>k < n div 64. \<forall>j < 64. P (64 * k + j)) \<and>
     (n mod 64 \<noteq> 0 \<longrightarrow> (\<forall>j < n mod 64. P (64 * (n div 64) + j)))" for n :: nat
proof (intro iffI conjI allI impI)
  fix i assume a: "(\<forall>k < n div 64. \<forall>j < 64. P (64 * k + j)) \<and>
     (n mod 64 \<noteq> 0 \<longrightarrow> (\<forall>j < n mod 64. P (64 * (n div 64) + j)))" and i: "i < n"
  have d: "i = 64 * (i div 64) + i mod 64" by simp
  show "P i"
  proof (cases "i div 64 < n div 64")
    case True
    then show ?thesis using a d by (metis mod_less_divisor zero_less_numeral)
  next
    case False
    then have e: "i div 64 = n div 64" using i div_le_mono[of i n 64] by linarith
    moreover have "i mod 64 < n mod 64" using i e by (metis add_less_cancel_left d mult_div_mod_eq)
    ultimately show ?thesis using a d by (metis gr_implies_not_zero)
  qed
next
  fix k j assume "\<forall>i < n. P i" "k < n div 64" "j < (64 :: nat)"
  then show "P (64 * k + j)" using bit_index_less by blast
next
  fix j assume a: "\<forall>i < n. P i" "j < n mod 64"
  have "64 * (n div 64) + n mod 64 = n" by simp
  with a show "P (64 * (n div 64) + j)" by (metis add_less_cancel_left)
qed

lemma word64_eq_iff: "(a :: u64) = b \<longleftrightarrow> (\<forall>j < 64. bit a j = bit b j)"
  by (auto intro: bit_word_eqI)

lemma word64_zero_iff: "(a :: u64) = 0 \<longleftrightarrow> (\<forall>j < 64. \<not> bit a j)"
  by (simp add: word64_eq_iff)

lemma last_word_mask_bit:
  "bitmap_ops_ok m \<Longrightarrow> n mod 64 \<noteq> 0 \<Longrightarrow> bit (last_word_mask m n) j = (j < n mod 64)"
  by (simp add: bitmap_ops_ok_def)

lemma masked_zero_iff:
  assumes "bitmap_ops_ok m" and "n mod 64 \<noteq> 0"
  shows "a AND last_word_mask m n = 0 \<longleftrightarrow> (\<forall>j < n mod 64. \<not> bit a j)"
proof -
  have "j < n mod 64 \<Longrightarrow> j < 64" for j by (rule less_trans[OF _ mod_less_divisor]) simp_all
  then show ?thesis unfolding word64_zero_iff bit_and_iff last_word_mask_bit[OF assms] by blast
qed

text \<open>The shape of every word-wise test: full words first, then the masked last word.\<close>

lemma zero_words_iff:
  assumes "bitmap_ops_ok m"
  shows "(\<forall>k < n div 64. f k = 0) \<and> (n mod 64 \<noteq> 0 \<longrightarrow> f (n div 64) AND last_word_mask m n = 0)
         \<longleftrightarrow> (\<forall>i < n. \<not> bit (f (i div 64) :: u64) (i mod 64))"
proof -
  have s: "j < n mod 64 \<Longrightarrow> j < 64" for j by (rule less_trans[OF _ mod_less_divisor]) simp_all
  have "(\<forall>i < n. \<not> bit (f (i div 64)) (i mod 64)) \<longleftrightarrow>
     (\<forall>k < n div 64. \<forall>j < 64. \<not> bit (f k) j) \<and> (n mod 64 \<noteq> 0 \<longrightarrow> (\<forall>j < n mod 64. \<not> bit (f (n div 64)) j))"
    unfolding all_bits_split[of n] by (simp cong: imp_cong add: s)
  then show ?thesis using masked_zero_iff[OF assms] by (simp add: word64_zero_iff[of "f _"])
qed

lemma list_all_upt [simp]: "list_all P [0..<n] \<longleftrightarrow> (\<forall>k < n. P k)"
  by (auto simp: list_all_iff)

lemma list_ex_upt [simp]: "list_ex P [0..<n] \<longleftrightarrow> (\<exists>k < n. P k)"
  by (auto simp: list_ex_iff)

lemma xor_zero_iff: "(a :: u64) XOR b = 0 \<longleftrightarrow> a = b"
  by (auto simp: bit_eq_iff bit_xor_iff)

lemma bitmap_equal_bits:
  assumes "bitmap_ops_ok m"
  shows "bitmap_equal m b1 b2 n \<longleftrightarrow> (\<forall>i < n. bmap b1 i = bmap b2 i)"
proof -
  have "bitmap_equal m b1 b2 n \<longleftrightarrow> (\<forall>k < n div 64. b1 ! k XOR b2 ! k = 0) \<and>
     (n mod 64 \<noteq> 0 \<longrightarrow> (b1 ! (n div 64) XOR b2 ! (n div 64)) AND last_word_mask m n = 0)"
    by (simp add: bitmap_equal_def Let_def xor_zero_iff c_true_def)
  also have "\<dots> \<longleftrightarrow> (\<forall>i < n. bmap b1 i = bmap b2 i)"
    using zero_words_iff[OF assms, of n "\<lambda>k. b1 ! k XOR b2 ! k"] by (simp add: bit_xor_iff bmap_def)
  finally show ?thesis .
qed

lemma bitmap_or_equal_bits:
  assumes "bitmap_ops_ok m"
  shows "bitmap_or_equal m b1 b2 b3 n \<longleftrightarrow> (\<forall>i < n. (bmap b1 i \<or> bmap b2 i) = bmap b3 i)"
proof -
  have "bitmap_or_equal m b1 b2 b3 n \<longleftrightarrow> (\<forall>k < n div 64. (b1 ! k OR b2 ! k) XOR b3 ! k = 0) \<and>
     (n mod 64 \<noteq> 0 \<longrightarrow> ((b1 ! (n div 64) OR b2 ! (n div 64)) XOR b3 ! (n div 64)) AND last_word_mask m n = 0)"
    by (simp add: bitmap_or_equal_def Let_def xor_zero_iff)
  also have "\<dots> \<longleftrightarrow> (\<forall>i < n. (bmap b1 i \<or> bmap b2 i) = bmap b3 i)"
    using zero_words_iff[OF assms, of n "\<lambda>k. (b1 ! k OR b2 ! k) XOR b3 ! k"]
    by (simp add: bit_xor_iff bit_or_iff bmap_def)
  finally show ?thesis .
qed

lemma bitmap_intersects_bits:
  assumes "bitmap_ops_ok m"
  shows "bitmap_intersects m b1 b2 n \<longleftrightarrow> (\<exists>i < n. bmap b1 i \<and> bmap b2 i)"
proof -
  have "\<not> bitmap_intersects m b1 b2 n \<longleftrightarrow> (\<forall>k < n div 64. b1 ! k AND b2 ! k = 0) \<and>
     (n mod 64 \<noteq> 0 \<longrightarrow> (b1 ! (n div 64) AND b2 ! (n div 64)) AND last_word_mask m n = 0)"
    by (simp add: bitmap_intersects_def Let_def c_true_def)
  also have "\<dots> \<longleftrightarrow> \<not> (\<exists>i < n. bmap b1 i \<and> bmap b2 i)"
    using zero_words_iff[OF assms, of n "\<lambda>k. b1 ! k AND b2 ! k"] by (auto simp: bit_and_iff bmap_def)
  finally show ?thesis by blast
qed

lemma bitmap_subset_bits:
  assumes "bitmap_ops_ok m"
  shows "bitmap_subset m b1 b2 n \<longleftrightarrow> (\<forall>i < n. bmap b1 i \<longrightarrow> bmap b2 i)"
proof -
  have "bitmap_subset m b1 b2 n \<longleftrightarrow> (\<forall>k < n div 64. b1 ! k AND NOT (b2 ! k) = 0) \<and>
     (n mod 64 \<noteq> 0 \<longrightarrow> (b1 ! (n div 64) AND NOT (b2 ! (n div 64))) AND last_word_mask m n = 0)"
    by (simp add: bitmap_subset_def Let_def c_true_def)
  also have "\<dots> \<longleftrightarrow> (\<forall>i < n. bmap b1 i \<longrightarrow> bmap b2 i)"
    using zero_words_iff[OF assms, of n "\<lambda>k. b1 ! k AND NOT (b2 ! k)"]
    by (simp add: bit_and_iff bit_not_iff bmap_def)
  finally show ?thesis .
qed

section \<open>Destinations\<close>

lemma write_words_Suc: "write_words f (Suc n) d = (write_words f n d)[n := f n]"
  by (simp add: write_words_def)

lemma write_words_length [simp]: "length (write_words f n d) = length d"
  by (induction n) (simp_all add: write_words_Suc, simp add: write_words_def)

lemma write_words_nth:
  "k < length d \<Longrightarrow> write_words f n d ! k = (if k < n then f k else d ! k)"
  by (induction n) (auto simp: write_words_Suc nth_list_update less_Suc_eq, simp add: write_words_def)

lemma write_or_eq: "fst (write_or f n (d, r)) = write_words f n d"
  and write_or_zero: "snd (write_or f n (d, r)) = 0 \<longleftrightarrow> r = 0 \<and> (\<forall>k < n. f k = 0)"
  by (induction n)
    (auto simp: write_or_def write_words_def split_beta less_Suc_eq or_eq_0_iff)


lemma index_in_words: "i < n \<Longrightarrow> n \<le> 64 * length d \<Longrightarrow> i div 64 < length d" for i :: nat
  by (simp add: less_mult_imp_div_less mult.commute)

lemma bits_to_longs_eq: "bitmap_ops_ok m \<Longrightarrow> bits_to_longs m n = (n + 63) div 64"
  by (simp add: bitmap_ops_ok_def)

lemma index_in_longs: "i < n \<Longrightarrow> i div 64 < (n + 63) div 64" for i :: nat
proof -
  assume "i < n"
  then have "i + 64 \<le> n + 63" by simp
  then have "(i + 64) div 64 \<le> (n + 63) div 64" by (rule div_le_mono)
  then show ?thesis by simp
qed

text \<open>Every bit below \<open>n\<close> is rewritten and every word past the last touched one is kept.\<close>

lemma write_words_bits:
  assumes "bitmap_ops_ok m" "i < n" "n \<le> 64 * length d"
  shows "bmap (write_words f (bits_to_longs m n) d) i = bit (f (i div 64)) (i mod 64)"
  using assms index_in_words[OF assms(2,3)] index_in_longs[OF assms(2)]
  by (simp add: bmap_def write_words_nth bits_to_longs_eq)

lemma write_words_frame:
  assumes "bitmap_ops_ok m" "(n + 63) div 64 \<le> k" "k < length d"
  shows "write_words f (bits_to_longs m n) d ! k = d ! k"
  using assms by (simp add: write_words_nth bits_to_longs_eq)

text \<open>The two-phase loop of \<^verbatim>\<open>__bitmap_and\<close> and \<^verbatim>\<open>__bitmap_andnot\<close> for any word function.\<close>

definition and_words :: "bitmap_ops \<Rightarrow> (nat \<Rightarrow> u64) \<Rightarrow> u64 list \<Rightarrow> nat \<Rightarrow> bool \<times> u64 list" where
  "and_words m f dst nbits =
     (let lim = nbits div BITS_PER_LONG;
          (dst, result) = write_or f lim (dst, 0);
          (dst, result) = (if nbits mod BITS_PER_LONG \<noteq> 0
             then let w = f lim AND last_word_mask m nbits in (dst[lim := w], result OR w)
             else (dst, result))
      in (result \<noteq> 0, dst))"

lemma bitmap_and_words: "bitmap_and m d b1 b2 n = and_words m (\<lambda>k. b1 ! k AND b2 ! k) d n"
  by (simp add: bitmap_and_def and_words_def ac_simps)

lemma bitmap_andnot_words: "bitmap_andnot m d b1 b2 n = and_words m (\<lambda>k. b1 ! k AND NOT (b2 ! k)) d n"
  by (simp add: bitmap_andnot_def and_words_def ac_simps)

lemma and_words_eq:
  "and_words m f d n =
     (let lim = n div 64; w = f lim AND last_word_mask m n in
      (\<not> ((\<forall>k < lim. f k = 0) \<and> (n mod 64 \<noteq> 0 \<longrightarrow> w = 0)),
       if n mod 64 \<noteq> 0 then (write_words f lim d)[lim := w] else write_words f lim d))"
proof -
  obtain d' r where e: "write_or f (n div 64) (d, 0) = (d', r)" by fastforce
  then have "d' = write_words f (n div 64) d" "r = 0 \<longleftrightarrow> (\<forall>k < n div 64. f k = 0)"
    using write_or_eq[of f "n div 64" d 0] write_or_zero[of f "n div 64" d 0] by simp_all
  then show ?thesis by (auto simp add: and_words_def e Let_def or_eq_0_iff)
qed

lemma and_words_result:
  "bitmap_ops_ok m \<Longrightarrow> fst (and_words m f d n) \<longleftrightarrow> (\<exists>i < n. bit (f (i div 64)) (i mod 64))"
  using zero_words_iff[of m n f] by (simp add: and_words_eq Let_def) blast

lemma and_words_bits:
  assumes "bitmap_ops_ok m" "i < n" "n \<le> 64 * length d"
  shows "bmap (snd (and_words m f d n)) i = bit (f (i div 64)) (i mod 64)"
proof (cases "i div 64 < n div 64")
  case True
  then show ?thesis using index_in_words[OF assms(2,3)]
    by (simp add: and_words_eq Let_def bmap_def write_words_nth)
next
  case False
  then have e: "i div 64 = n div 64" using assms(2) div_le_mono[of i n 64] by linarith
  then have "i mod 64 < n mod 64" using assms(2) by (metis add_less_cancel_left mult_div_mod_eq)
  moreover from this have "n mod 64 \<noteq> 0" by linarith
  ultimately show ?thesis using index_in_words[OF assms(2,3)] e last_word_mask_bit[OF assms(1)]
    by (simp add: and_words_eq Let_def bmap_def bit_and_iff)
qed

lemma last_word_in_range:
  assumes "n mod 64 \<noteq> 0" "n \<le> 64 * length d" shows "n div 64 < length d"
proof -
  have "64 * (n div 64) + n mod 64 = n" by simp
  with assms show ?thesis by linarith
qed

text \<open>The bits of the last word past the size are cleared.\<close>

lemma and_words_tail:
  assumes "bitmap_ops_ok m" "n \<le> i" "i div 64 = n div 64" "n mod 64 \<noteq> 0" "n \<le> 64 * length d"
  shows "\<not> bmap (snd (and_words m f d n)) i"
proof -
  have "n mod 64 \<le> i mod 64" using assms(2,3) by (metis add_le_cancel_left mult_div_mod_eq)
  moreover have "n div 64 < length d" using assms(4,5) by (intro last_word_in_range)
  ultimately show ?thesis using last_word_mask_bit[OF assms(1,4)] assms(3,4)
    by (simp add: and_words_eq Let_def bmap_def bit_and_iff)
qed

section \<open>Weights\<close>

lemma hweight_card: "bitmap_ops_ok m \<Longrightarrow> hweight_long m w = of_nat (card {j. j < 64 \<and> bit w j})"
  by (simp add: bitmap_ops_ok_def)

lemma weight_prefix:
  assumes "bitmap_ops_ok m"
  shows "fold (\<lambda>k w. w + hweight_long m (f k)) [0..<n] w0
         = w0 + of_nat (card {i. i < 64 * n \<and> bit (f (i div 64)) (i mod 64)})"
proof (induction n)
  case (Suc n)
  let ?P = "\<lambda>i. bit (f (i div 64)) (i mod 64)"
  have e: "{i. i < 64 * Suc n \<and> ?P i} = {i. i < 64 * n \<and> ?P i} \<union> (\<lambda>j. 64 * n + j) ` {j. j < 64 \<and> bit (f n) j}"
    (is "_ = ?A \<union> ?B")
  proof (intro set_eqI iffI)
    fix i assume i: "i \<in> {i. i < 64 * Suc n \<and> ?P i}"
    show "i \<in> ?A \<union> ?B"
    proof (cases "i < 64 * n")
      case False
      then have "i = 64 * n + (i - 64 * n)" "i - 64 * n < 64" using i by auto
      moreover from this have "i div 64 = n" "i mod 64 = i - 64 * n" by (metis add.commute div_less div_mult_self4 add_0 zero_neq_numeral, metis mod_mult_self4 mod_less)
      ultimately have "i - 64 * n \<in> {j. j < 64 \<and> bit (f n) j}" using i by simp
      then have "64 * n + (i - 64 * n) \<in> ?B" by (rule imageI)
      then show ?thesis using False by simp
    qed (use i in auto)
  qed auto
  have "card (?A \<union> ?B) = card ?A + card ?B" by (rule card_Un_disjoint) auto
  moreover have "card ?B = card {j. j < 64 \<and> bit (f n) j}" by (rule card_image) (simp add: inj_on_def)
  ultimately show ?case using Suc e by (simp add: hweight_card[OF assms])
qed simp


lemma weight_words_card:
  assumes "bitmap_ops_ok m"
  shows "weight_words m f n = of_nat (card {i. i < n \<and> bit (f (i div 64)) (i mod 64)})"
proof -
  let ?P = "\<lambda>i. bit (f (i div 64)) (i mod 64)" and ?q = "n div 64"
  have q: "64 * ?q + n mod 64 = n" by simp
  have m64: "j < n mod 64 \<Longrightarrow> j < 64" for j by (rule less_trans[OF _ mod_less_divisor]) simp_all
  have e: "{i. i < n \<and> ?P i} = {i. i < 64 * ?q \<and> ?P i} \<union> (\<lambda>j. 64 * ?q + j) ` {j. j < n mod 64 \<and> bit (f ?q) j}"
    (is "_ = ?A \<union> ?B")
  proof (intro set_eqI iffI)
    fix i assume i: "i \<in> {i. i < n \<and> ?P i}"
    show "i \<in> ?A \<union> ?B"
    proof (cases "i < 64 * ?q")
      case False
      then have j1: "i = 64 * ?q + (i - 64 * ?q)" by simp
      have "i < n" using i by simp
      then have "64 * ?q + (i - 64 * ?q) < 64 * ?q + n mod 64" using j1 q by metis
      then have j: "i = 64 * ?q + (i - 64 * ?q)" "i - 64 * ?q < n mod 64" using j1 by (simp, simp only: add_less_cancel_left)
      have "i div 64 = ?q" "i mod 64 = i - 64 * ?q"
        using m64[OF j(2)] j(1) by (metis add.commute div_less div_mult_self4 add_0 zero_neq_numeral, metis mod_mult_self4 mod_less)
      with i j have "i - 64 * ?q \<in> {j. j < n mod 64 \<and> bit (f ?q) j}" by simp
      then have "64 * ?q + (i - 64 * ?q) \<in> ?B" by (rule imageI)
      then show ?thesis using False by simp
    qed (use i in auto)
  next
    fix i assume "i \<in> ?A \<union> ?B"
    then show "i \<in> {i. i < n \<and> ?P i}"
    proof
      assume "i \<in> ?B"
      then obtain j where j: "i = 64 * ?q + j" "j < n mod 64" "bit (f ?q) j" by blast
      then have "i < n" using q by (metis add_less_cancel_left)
      then show ?thesis using j m64 by simp
    qed (use q in auto)
  qed
  have "card (?A \<union> ?B) = card ?A + card ?B" by (rule card_Un_disjoint) auto
  moreover have "card ?B = card {j. j < n mod 64 \<and> bit (f ?q) j}" by (rule card_image) (simp add: inj_on_def)
  moreover have "n mod 64 \<noteq> 0 \<Longrightarrow> {j. j < 64 \<and> bit (f ?q AND last_word_mask m n) j} = {j. j < n mod 64 \<and> bit (f ?q) j}"
    using last_word_mask_bit[OF assms] m64 by (auto simp: bit_and_iff)
  ultimately show ?thesis
    by (cases "n mod 64 = 0") (simp_all add: weight_words_def Let_def weight_prefix[OF assms] e
        hweight_card[OF assms, of "f ?q AND last_word_mask m n"])
qed

lemma round_up_div: "n = 64 * q + r \<Longrightarrow> 0 < r \<Longrightarrow> r < 64 \<Longrightarrow> (n + 63) div 64 = Suc q" for n :: nat
  by (rule div_nat_eqI) simp_all

lemma weighted_write_eq:
  assumes "n \<le> 64 * length d"
  shows "weighted_write m f d n = (weight_words m f n, write_words f ((n + 63) div 64) d)"
proof -
  have p: "k \<le> length d \<Longrightarrow>
     fold (\<lambda>k (d, w). let d = d[k := f k] in (d, w + hweight_long m (d ! k))) [0..<k] (d, w)
     = (write_words f k d, fold (\<lambda>k w. w + hweight_long m (f k)) [0..<k] w)" for k w
    by (induction k) (simp_all add: write_words_Suc Let_def, simp add: write_words_def)
  have q: "64 * (n div 64) + n mod 64 = n" by simp
  show ?thesis
  proof (cases "n mod 64 = 0")
    case True
    have "(n + 63) div 64 = n div 64" by (rule div_nat_eqI) (use True q in simp_all)
    moreover have "n div 64 \<le> length d" using assms q by linarith
    ultimately show ?thesis using True by (simp add: weighted_write_def weight_words_def p)
  next
    case False
    then have l: "n div 64 < length d" by (rule last_word_in_range[OF _ assms])
    have "(n + 63) div 64 = Suc (n div 64)"
      using False by (intro round_up_div[of _ _ "n mod 64"]) simp_all
    then show ?thesis using False l p[of "n div 64" 0, unfolded Let_def, OF less_imp_le[OF l]]
      by (simp add: weighted_write_def weight_words_def write_words_Suc Let_def)
  qed
qed


section \<open>Ranges\<close>

text \<open>One write of the range loops: the word holding the position \<open>s\<close> gets the value \<open>c\<close> in
  the bits \<open>s \<le> i < e\<close>, where \<open>e\<close> does not leave the word.\<close>

definition writes_value :: "(u64 \<Rightarrow> u64 \<Rightarrow> u64) \<Rightarrow> bool \<Rightarrow> bool" where
  "writes_value upd c \<longleftrightarrow> (\<forall>w msk j. j < 64 \<longrightarrow> bit (upd w msk) j = (if bit msk j then c else bit w j))"

lemma writes_value_set: "writes_value (\<lambda>w msk. w OR msk) True"
  and writes_value_clear: "writes_value (\<lambda>w msk. w AND NOT msk) False"
  by (auto simp: writes_value_def bit_or_iff bit_and_iff bit_not_iff)

lemma write_word_range:
  assumes "writes_value upd c" and p: "p < length mp" and "a \<le> b" "b \<le> 64"
    and msk: "\<And>j. j < 64 \<Longrightarrow> bit msk j = (a \<le> j \<and> j < b)"
  shows "bmap (mp[p := upd (mp ! p) msk]) i = (if 64 * p + a \<le> i \<and> i < 64 * p + b then c else bmap mp i)"
proof (cases "i div 64 = p")
  case True
  define j where "j = i mod 64"
  have "i = 64 * p + j" "j < 64" using True by (auto simp: j_def)
  then show ?thesis using assms True by (auto simp: bmap_def writes_value_def j_def[symmetric])
next
  case False
  have "\<not> (64 * p + a \<le> i \<and> i < 64 * p + b)"
  proof
    assume "64 * p + a \<le> i \<and> i < 64 * p + b"
    then have "64 * p \<le> i" "i < 64 * Suc p" using assms(4) by auto
    then have "i div 64 = p" by (intro div_nat_eqI) auto
    then show False using False by simp
  qed
  then show ?thesis using False by (auto simp: bmap_def)
qed

text \<open>The loop runs to the last full word: it returns, and has written \<open>c\<close> from the start
  position to the beginning of the word it stops in.\<close>

lemma range_loop_spec:
  assumes "writes_value upd c" "0 < bt" "bt \<le> 64" "64 * p + (64 - bt) + n \<le> 64 * length mp"
    and "\<And>j. j < 64 \<Longrightarrow> bit msk j = (64 - bt \<le> j)"
  shows "\<exists>mp' p' n' bt' msk'. range_loop upd mp p (int n) (int bt) msk = Some (mp', p', int n', msk') \<and>
           n' < bt' \<and> 0 < bt' \<and> bt' \<le> 64 \<and> (\<forall>j < 64. bit msk' j = (64 - bt' \<le> j)) \<and>
           64 * p' + (64 - bt') + n' = 64 * p + (64 - bt) + n \<and> length mp' = length mp \<and> n' \<le> n \<and>
           (\<forall>i. bmap mp' i = (if 64 * p + (64 - bt) \<le> i \<and> i < 64 * p' + (64 - bt') then c else bmap mp i))"
  using assms(2-)
proof (induction n arbitrary: mp p bt msk rule: less_induct)
  case (less n)
  show ?case
  proof (cases "bt \<le> n")
    case False
    then have "range_loop upd mp p (int n) (int bt) msk = Some (mp, p, int n, msk)"
      by (subst range_loop.simps) simp
    then show ?thesis using less.prems False by (intro exI[of _ mp] exI[of _ p] exI[of _ n] exI[of _ bt] exI[of _ msk]) auto
  next
    case True
    let ?mp = "mp[p := upd (mp ! p) msk]"
    have p: "p < length mp" using less.prems True by linarith
    have step: "range_loop upd mp p (int n) (int bt) msk = range_loop upd ?mp (Suc p) (int (n - bt)) (int 64) (NOT 0)"
      using True by (subst range_loop.simps) (simp add: of_nat_diff)
    have w: "bmap ?mp i = (if 64 * p + (64 - bt) \<le> i \<and> i < 64 * p + 64 then c else bmap mp i)" for i
      using less.prems(4) by (intro write_word_range[OF assms(1) p]) auto
    have eq: "64 * p + (64 - bt) + n = 64 * Suc p + (n - bt)" using True less.prems by simp
    have "\<exists>mp' p' n' bt' msk'. range_loop upd ?mp (Suc p) (int (n - bt)) (int 64) (NOT 0) = Some (mp', p', int n', msk') \<and>
           n' < bt' \<and> 0 < bt' \<and> bt' \<le> 64 \<and> (\<forall>j < 64. bit msk' j = (64 - bt' \<le> j)) \<and>
           64 * p' + (64 - bt') + n' = 64 * Suc p + (64 - 64) + (n - bt) \<and> length mp' = length ?mp \<and> n' \<le> n - bt \<and>
           (\<forall>i. bmap mp' i = (if 64 * Suc p + (64 - 64) \<le> i \<and> i < 64 * p' + (64 - bt') then c else bmap ?mp i))"
      using less.prems True eq by (intro less.IH) auto
    then obtain mp' p' n' bt' msk' where r: "range_loop upd ?mp (Suc p) (int (n - bt)) (int 64) (NOT 0) = Some (mp', p', int n', msk')"
        "n' < bt'" "0 < bt'" "bt' \<le> 64" "\<forall>j < 64. bit msk' j = (64 - bt' \<le> j)"
        "64 * p' + (64 - bt') + n' = 64 * Suc p + (n - bt)" "length mp' = length mp" "n' \<le> n - bt"
      and b: "\<And>i. bmap mp' i = (if 64 * Suc p \<le> i \<and> i < 64 * p' + (64 - bt') then c else bmap ?mp i)" by auto
    have ge: "64 * Suc p \<le> 64 * p' + (64 - bt')" using r(6,8) by linarith
    have "bmap mp' i = (if 64 * p + (64 - bt) \<le> i \<and> i < 64 * p' + (64 - bt') then c else bmap mp i)" for i
      unfolding b w using ge less.prems(2) by auto
    then show ?thesis using r step eq
      by (intro exI[of _ mp'] exI[of _ p'] exI[of _ n'] exI[of _ bt'] exI[of _ msk']) auto
  qed
qed

lemma bitmap_range_spec:
  assumes ops: "bitmap_ops_ok m" and v: "writes_value upd c"
    and fit: "unat start + n \<le> 64 * length mp" and no_wrap: "unat start + n < 2 ^ 32"
  shows "\<exists>mp'. bitmap_range upd m mp start (int n) = Some mp' \<and> length mp' = length mp \<and>
           (\<forall>i. bmap mp' i = (if unat start \<le> i \<and> i < unat start + n then c else bmap mp i))"
proof -
  let ?s = "unat start"
  define bt where "bt = 64 - ?s mod 64"
  have bt: "0 < bt" "bt \<le> 64" "64 * (?s div 64) + (64 - bt) = ?s" "int 64 - int (?s mod 64) = int bt" "64 - bt = ?s mod 64"
    using mod_less_divisor[of 64 ?s] by (auto simp: bt_def of_nat_diff less_imp_le_nat)
  have msk: "bit (first_word_mask m ?s) j = (64 - bt \<le> j)" if "j < 64" for j
    using ops that bt(5) by (simp add: bitmap_ops_ok_def)
  obtain mp' p' n' bt' msk' where r: "range_loop upd mp (?s div 64) (int n) (int bt) (first_word_mask m ?s) = Some (mp', p', int n', msk')"
      "n' < bt'" "0 < bt'" "bt' \<le> 64" "\<forall>j < 64. bit msk' j = (64 - bt' \<le> j)"
      "64 * p' + (64 - bt') + n' = ?s + n" "length mp' = length mp" "n' \<le> n"
    and b: "\<And>i. bmap mp' i = (if ?s \<le> i \<and> i < 64 * p' + (64 - bt') then c else bmap mp i)"
    using range_loop_spec[OF v bt(1,2) _ msk, of "?s div 64" n mp] fit unfolding bt(3) by auto
  have size: "unat (start + of_int (int n)) = ?s + n"
    using no_wrap by (simp add: unat_word_ariths unsigned_of_nat take_bit_eq_mod mod_add_right_eq)
  have eval: "bitmap_range upd m mp start (int n) =
     (if n' \<noteq> 0 then Some (mp'[p' := upd (mp' ! p') (msk' AND last_word_mask m (?s + n))]) else Some mp')"
    using ops r(1) size by (simp add: bitmap_range_def Let_def bitmap_ops_ok_def bt(4)[simplified])
  show ?thesis
  proof (cases "n' = 0")
    case True
    then show ?thesis using eval r(6,7) b by auto
  next
    case False
    define k where "k = 64 - bt' + n'"
    have k: "?s + n = 64 * p' + k" "0 < k" "k < 64" using r False by (auto simp: k_def)
    then have "(?s + n) mod 64 = k" by simp
    then have lm: "bit (msk' AND last_word_mask m (?s + n)) j = (64 - bt' \<le> j \<and> j < k)" if "j < 64" for j
      using last_word_mask_bit[OF ops, of "?s + n" j] r(5) that k(2) by (simp add: bit_and_iff)
    have "p' < length mp'" using fit k r(7) by linarith
    then have "bmap (mp'[p' := upd (mp' ! p') (msk' AND last_word_mask m (?s + n))]) i =
        (if 64 * p' + (64 - bt') \<le> i \<and> i < 64 * p' + k then c else bmap mp' i)" for i
      using lm k(3) by (intro write_word_range[OF v]) (auto simp: k_def)
    moreover have "?s \<le> 64 * p' + (64 - bt')" using r(6,8) by linarith
    ultimately show ?thesis using False eval r(7) b k(1) by (auto simp: k_def)
  qed
qed


section \<open>Properties\<close>

text \<open>The kernel's own definitions of the parameters, as an instance of the contract.\<close>

definition std_bitmap_ops :: bitmap_ops where
  "std_bitmap_ops = \<lparr> last_word_mask = (\<lambda>n. if n mod 64 = 0 then NOT 0 else mask (n mod 64)),
     first_word_mask = (\<lambda>n. push_bit (n mod 64) (NOT 0)),
     bits_to_longs = (\<lambda>n. (n + 63) div 64), bit_word = (\<lambda>n. n div 64),
     hweight_long = (\<lambda>w. of_nat (length (filter (bit w) [0..<64]))) \<rparr>"

lemma std_bitmap_ops_ok: "bitmap_ops_ok std_bitmap_ops"
proof -
  have m: "j < n mod 64 \<Longrightarrow> j < 64" for j n :: nat by (rule less_trans[OF _ mod_less_divisor]) simp_all
  have "card {j. j < 64 \<and> bit w j} = length (filter (bit w) [0..<64])" for w :: u64
  proof -
    have "{j. j < 64 \<and> bit w j} = set (filter (bit w) [0..<64])" by auto
    then show ?thesis by (simp only: distinct_card distinct_filter distinct_upt)
  qed
  then show ?thesis using m
    by (auto simp: bitmap_ops_ok_def std_bitmap_ops_def bit_mask_iff bit_push_bit_iff bit_not_iff)
qed

text \<open>The word-wise tests decide the bit-wise relations on the first \<open>n\<close> bits, whatever the
  bits past the size hold: equality, union equality, intersection and inclusion.\<close>

theorem bitmap_tests_correct:
  assumes "bitmap_ops_ok m"
  shows "(bitmap_equal m b1 b2 n \<longleftrightarrow> (\<forall>i < n. bmap b1 i = bmap b2 i)) \<and>
    (bitmap_or_equal m b1 b2 b3 n \<longleftrightarrow> (\<forall>i < n. (bmap b1 i \<or> bmap b2 i) = bmap b3 i)) \<and>
    (bitmap_intersects m b1 b2 n \<longleftrightarrow> (\<exists>i < n. bmap b1 i \<and> bmap b2 i)) \<and>
    (bitmap_subset m b1 b2 n \<longleftrightarrow> (\<forall>i < n. bmap b1 i \<longrightarrow> bmap b2 i))"
  using assms by (intro conjI bitmap_equal_bits bitmap_or_equal_bits bitmap_intersects_bits bitmap_subset_bits)

theorem bitmap_tests_correct_witness:
  "bitmap_subset std_bitmap_ops [5] [7] 3 \<longleftrightarrow> (\<forall>i < 3. bmap [5] i \<longrightarrow> bmap [7] i)"
  using bitmap_tests_correct[OF std_bitmap_ops_ok, of "[5]" "[7]" 3 "[]"] by blast

text \<open>\<^verbatim>\<open>__bitmap_and\<close> and \<^verbatim>\<open>__bitmap_andnot\<close> write the conjunction of the first \<open>n\<close> bits to
  the destination, clear the bits of the last word past the size, and return whether a bit
  of the result is set.\<close>

theorem bitmap_and_correct:
  assumes "bitmap_ops_ok m" and "n \<le> 64 * length d"
  shows "(fst (bitmap_and m d b1 b2 n) \<longleftrightarrow> (\<exists>i < n. bmap b1 i \<and> bmap b2 i)) \<and>
    (fst (bitmap_andnot m d b1 b2 n) \<longleftrightarrow> (\<exists>i < n. bmap b1 i \<and> \<not> bmap b2 i)) \<and>
    (i < n \<longrightarrow> bmap (snd (bitmap_and m d b1 b2 n)) i = (bmap b1 i \<and> bmap b2 i) \<and>
      bmap (snd (bitmap_andnot m d b1 b2 n)) i = (bmap b1 i \<and> \<not> bmap b2 i)) \<and>
    (n \<le> i \<and> i div 64 = n div 64 \<and> n mod 64 \<noteq> 0 \<longrightarrow>
      \<not> bmap (snd (bitmap_and m d b1 b2 n)) i \<and> \<not> bmap (snd (bitmap_andnot m d b1 b2 n)) i)"
  unfolding bitmap_and_words bitmap_andnot_words
  by (intro conjI impI; (elim conjE)?)
    (simp_all add: and_words_result and_words_bits and_words_tail assms,
     simp_all add: bmap_def bit_and_iff bit_not_iff)

theorem bitmap_and_correct_witness:
  "fst (bitmap_and std_bitmap_ops [0, 0] [5, 1] [4, 1] 70) \<longleftrightarrow> (\<exists>i < 70. bmap [5, 1] i \<and> bmap [4, 1] i)"
  using bitmap_and_correct[OF std_bitmap_ops_ok, of 70 "[0, 0]" "[5, 1]" "[4, 1]" 0] by simp

text \<open>\<^verbatim>\<open>__bitmap_or\<close>, \<^verbatim>\<open>__bitmap_xor\<close>, \<^verbatim>\<open>__bitmap_complement\<close> and \<^verbatim>\<open>__bitmap_replace\<close> compute
  their boolean function on every one of the first \<open>n\<close> bits, and leave every word from
  \<^verbatim>\<open>BITS_TO_LONGS(n)\<close> on as it was.\<close>

theorem bitmap_logic_correct:
  assumes "bitmap_ops_ok m" and "n \<le> 64 * length d"
  shows "(\<forall>i < n. bmap (bitmap_or m d b1 b2 n) i = (bmap b1 i \<or> bmap b2 i) \<and>
      bmap (bitmap_xor m d b1 b2 n) i = (bmap b1 i \<noteq> bmap b2 i) \<and>
      bmap (bitmap_complement m d b1 n) i = (\<not> bmap b1 i) \<and>
      bmap (bitmap_replace m d b1 b2 b3 n) i = (if bmap b3 i then bmap b2 i else bmap b1 i)) \<and>
    (\<forall>k. (n + 63) div 64 \<le> k \<and> k < length d \<longrightarrow> bitmap_or m d b1 b2 n ! k = d ! k \<and>
      bitmap_xor m d b1 b2 n ! k = d ! k \<and> bitmap_complement m d b1 n ! k = d ! k \<and>
      bitmap_replace m d b1 b2 b3 n ! k = d ! k)"
proof (intro conjI allI impI; (elim conjE)?)
qed (simp_all add: bitmap_or_def bitmap_xor_def bitmap_complement_def bitmap_replace_def write_words_bits
    write_words_frame assms, auto simp: bmap_def bit_or_iff bit_xor_iff bit_and_iff bit_not_iff)

theorem bitmap_logic_correct_witness:
  "bmap (bitmap_replace std_bitmap_ops [0] [12] [3] [2] 4) 1 = (if bmap [2] 1 then bmap [3] 1 else bmap [12] 1)"
  using bitmap_logic_correct[OF std_bitmap_ops_ok, of 4 "[0]" "[12]" "[3]" "[2]"] by simp

text \<open>The weight routines return the number of set bits among the first \<open>n\<close> (as an
  \<^verbatim>\<open>unsigned int\<close>), and the weighted or/xor routines return the weight of the result they write.\<close>

theorem bitmap_weight_correct:
  assumes "bitmap_ops_ok m" and "n \<le> 64 * length d"
  shows "bitmap_weight m b1 n = of_nat (card {i. i < n \<and> bmap b1 i}) \<and>
    bitmap_weight_and m b1 b2 n = of_nat (card {i. i < n \<and> bmap b1 i \<and> bmap b2 i}) \<and>
    bitmap_weight_andnot m b1 b2 n = of_nat (card {i. i < n \<and> bmap b1 i \<and> \<not> bmap b2 i}) \<and>
    bitmap_weighted_or m d b1 b2 n = (of_nat (card {i. i < n \<and> (bmap b1 i \<or> bmap b2 i)}), bitmap_or m d b1 b2 n) \<and>
    bitmap_weighted_xor m d b1 b2 n = (of_nat (card {i. i < n \<and> bmap b1 i \<noteq> bmap b2 i}), bitmap_xor m d b1 b2 n)"
  by (simp add: bitmap_weight_def bitmap_weight_and_def bitmap_weight_andnot_def bitmap_weighted_or_def
      bitmap_weighted_xor_def bitmap_or_def bitmap_xor_def bits_to_longs_eq weighted_write_eq[OF assms(2)]
      weight_words_card[OF assms(1)] assms(1) bmap_def bit_or_iff bit_xor_iff bit_and_iff bit_not_iff conj_ac cong: conj_cong)

theorem bitmap_weight_correct_witness:
  "bitmap_weight std_bitmap_ops [7, 1] 66 = of_nat (card {i. i < 66 \<and> bmap [7, 1] i})"
  using bitmap_weight_correct[OF std_bitmap_ops_ok, of 66 "[0, 0]" "[7, 1]" "[0, 0]"] by simp

text \<open>C10: \<^verbatim>\<open>__bitmap_set\<close> and \<^verbatim>\<open>__bitmap_clear\<close> terminate on every range that lies in the bitmap,
  set respectively clear exactly the bits of the range, and change no other bit.\<close>

theorem bitmap_set_clear_correct:
  assumes "bitmap_ops_ok m" and "unat start + n \<le> 64 * length mp" and "unat start + n < 2 ^ 32"
  shows "(\<exists>mp'. bitmap_set m mp start (int n) = Some mp' \<and> length mp' = length mp \<and>
      (\<forall>i. bmap mp' i = (bmap mp i \<or> (unat start \<le> i \<and> i < unat start + n)))) \<and>
    (\<exists>mp'. bitmap_clear m mp start (int n) = Some mp' \<and> length mp' = length mp \<and>
      (\<forall>i. bmap mp' i = (bmap mp i \<and> \<not> (unat start \<le> i \<and> i < unat start + n))))"
  using bitmap_range_spec[OF assms(1) writes_value_set assms(2,3)]
    bitmap_range_spec[OF assms(1) writes_value_clear assms(2,3)]
  unfolding bitmap_set_def bitmap_clear_def by (simp cong: conj_cong) (elim exE conjE, auto)

theorem bitmap_set_clear_correct_witness:
  "\<exists>mp'. bitmap_set std_bitmap_ops [0, 0, 0] 60 (int 80) = Some mp' \<and> length mp' = length [0, 0, 0 :: u64] \<and>
     (\<forall>i. bmap mp' i = (bmap [0, 0, 0] i \<or> (unat (60 :: u32) \<le> i \<and> i < unat (60 :: u32) + 80)))"
  by (rule bitmap_set_clear_correct[OF std_bitmap_ops_ok, THEN conjunct1]) simp_all

end
