(* ===== verification/Bloom.thy ===== *)
theory Bloom
  imports Bpf_Prelude
begin

text \<open>
  The Bloom filter of \<^verbatim>\<open>shims/kernel/bpf/bloom_filter.c\<close>.  The hash functions \<^verbatim>\<open>jhash\<close> and
  \<^verbatim>\<open>jhash2\<close> come from a kernel header that is not part of the repository: they are the two
  fields of the parameter \<open>jhash_ops\<close>, and nothing is assumed about them.  A value is the list
  of its bytes.  The properties are the contract of a Bloom filter: an element that was
  pushed is always found, and a query succeeds exactly when the pushed elements cover its bits.
\<close>

section \<open>Model\<close>

record jhash_ops =
  jhash2 :: "u8 list \<Rightarrow> u32 \<Rightarrow> u32 \<Rightarrow> u32"
  jhash :: "u8 list \<Rightarrow> u32 \<Rightarrow> u32 \<Rightarrow> u32"

abbreviation BLOOM_BITSET_BITS :: u32 where "BLOOM_BITSET_BITS \<equiv> 256"
abbreviation BLOOM_BITSET_WORDS :: nat where "BLOOM_BITSET_WORDS \<equiv> 4"

record bpf_bloom_filter =
  bloom_value_size :: u32
  bitset_mask :: u32
  hash_seed :: u32
  nr_hash_funcs :: u32
  bitset :: "u64 list"

definition bloom_filter_init :: "u32 \<Rightarrow> u32 \<Rightarrow> u32 \<Rightarrow> bpf_bloom_filter" where
  "bloom_filter_init vsize nr_hash seed =
     \<lparr> bloom_value_size = vsize, bitset_mask = BLOOM_BITSET_BITS - 1, hash_seed = seed,
       nr_hash_funcs = nr_hash, bitset = [0, 0, 0, 0] \<rparr>"

definition bloom_test_bit :: "u64 list \<Rightarrow> u32 \<Rightarrow> bool" where
  "bloom_test_bit bs b =
     (let word = drop_bit 6 b AND 3; msk = push_bit (unat (b AND 63)) 1
      in (bs ! unat word AND msk) \<noteq> 0)"

definition bloom_set_bit :: "u64 list \<Rightarrow> u32 \<Rightarrow> u64 list" where
  "bloom_set_bit bs b =
     (let word = drop_bit 6 b AND 3; msk = push_bit (unat (b AND 63)) 1
      in bs[unat word := bs ! unat word OR msk])"

definition bloom_hash :: "jhash_ops \<Rightarrow> bpf_bloom_filter \<Rightarrow> u8 list \<Rightarrow> u32 \<Rightarrow> u32 \<Rightarrow> u32" where
  "bloom_hash jh bloom val vsize index =
     (let h = if vsize mod 4 = 0
              then jhash2 jh val (vsize div 4) (hash_seed bloom + index)
              else jhash jh val vsize (hash_seed bloom + index)
      in h AND bitset_mask bloom)"

text \<open>\<^verbatim>\<open>for (i = 0; i < bloom->nr_hash_funcs; i++)\<close>: the values the index takes.\<close>

definition hash_indices :: "bpf_bloom_filter \<Rightarrow> u32 list" where
  "hash_indices bloom = map of_nat [0..<unat (nr_hash_funcs bloom)]"

definition bloom_map_peek_elem :: "jhash_ops \<Rightarrow> bpf_bloom_filter \<Rightarrow> u8 list \<Rightarrow> cint" where
  "bloom_map_peek_elem jh bloom val =
     (if list_ex (\<lambda>i. \<not> bloom_test_bit (bitset bloom) (bloom_hash jh bloom val (bloom_value_size bloom) i))
           (hash_indices bloom)
      then - ENOENT else 0)"

definition bloom_map_push_elem :: "jhash_ops \<Rightarrow> bpf_bloom_filter \<Rightarrow> u8 list \<Rightarrow> u64 \<Rightarrow> cint \<times> bpf_bloom_filter" where
  "bloom_map_push_elem jh bloom val mflags =
     (if mflags \<noteq> BPF_ANY then (- EINVAL, bloom)
      else (0, fold (\<lambda>i b. b\<lparr>bitset := bloom_set_bit (bitset b) (bloom_hash jh b val (bloom_value_size b) i)\<rparr>)
                 (hash_indices bloom) bloom))"

section \<open>The bitset\<close>

definition bloom_wf :: "bpf_bloom_filter \<Rightarrow> bool" where
  "bloom_wf b \<longleftrightarrow> length (bitset b) = BLOOM_BITSET_WORDS \<and> bitset_mask b = BLOOM_BITSET_BITS - 1"

lemma bloom_init_wf: "bloom_wf (bloom_filter_init vs n seed)"
  by (simp add: bloom_filter_init_def bloom_wf_def)

lemma word_index: "unat (drop_bit 6 (b :: u32) AND 3) = unat b div 64 mod 4"
proof -
  have "(3 :: u32) = mask 2" by (simp add: mask_eq_exp_minus_1)
  then have "unat (drop_bit 6 b AND 3) = unat (drop_bit 6 b) mod 2 ^ 2" by (simp only: unat_and_mask)
  also have "\<dots> = unat b div 2 ^ 6 mod 2 ^ 2" by (simp only: unat_drop_bit)
  finally show ?thesis by simp
qed

lemma word_index_less: "unat (drop_bit 6 (b :: u32) AND 3) < 4"
  unfolding word_index by simp

lemma bit_index_eq: "unat (b AND 63) = unat (b :: u32) mod 64"
proof -
  have "(63 :: u32) = mask 6" by (simp add: mask_eq_exp_minus_1)
  then have "unat (b AND 63) = unat b mod 2 ^ 6" by (simp only: unat_and_mask)
  then show ?thesis by simp
qed

lemma masked_less: "h AND (BLOOM_BITSET_BITS - 1) < 256"
proof -
  have "BLOOM_BITSET_BITS - 1 = mask 8" by (simp add: mask_eq_exp_minus_1)
  then have "unat (h AND (BLOOM_BITSET_BITS - 1)) = unat h mod 2 ^ 8" by (simp only: unat_and_mask)
  then show ?thesis by (simp add: word_less_nat_alt)
qed

text \<open>A bit number below 256 addresses word \<open>b div 64\<close>: the masking by 3 loses nothing.\<close>

lemma word_index_eq: "b < 256 \<Longrightarrow> unat (drop_bit 6 b AND 3) = unat (b :: u32) div 64"
  unfolding word_index by (simp add: word_less_nat_alt less_mult_imp_div_less)

lemma test_bit_eq: "bloom_test_bit bs b = bit (bs ! unat (drop_bit 6 b AND 3)) (unat b mod 64)"
  unfolding bloom_test_bit_def Let_def bit_index_eq and_push_bit_1_eq_0_iff by simp

lemma test_set_bit:
  assumes "length bs = 4" "a < 256" "b < 256"
  shows "bloom_test_bit (bloom_set_bit bs a) b \<longleftrightarrow> bloom_test_bit bs b \<or> a = b"
proof (cases "unat a div 64 = unat b div 64")
  case False
  then show ?thesis using assms
    by (auto simp: test_bit_eq bloom_set_bit_def Let_def word_index_eq)
next
  case True
  have "unat a mod 64 = unat b mod 64 \<longleftrightarrow> a = b" using True by (metis mult_div_mod_eq unsigned_word_eqI)
  moreover have "unat a mod 64 < 64" by simp
  ultimately show ?thesis using assms True word_index_less[of b]
    by (auto simp: test_bit_eq bloom_set_bit_def Let_def word_index_eq bit_index_eq bit_or_iff bit_exp_iff)
qed

lemma set_bit_length [simp]: "length (bloom_set_bit bs b) = length bs"
  by (simp add: bloom_set_bit_def Let_def)

section \<open>Pushing\<close>

text \<open>The bits of a value depend only on the configuration of the filter.\<close>

definition hash_bits :: "jhash_ops \<Rightarrow> bpf_bloom_filter \<Rightarrow> u8 list \<Rightarrow> u32 set" where
  "hash_bits jh b v = (\<lambda>i. bloom_hash jh b v (bloom_value_size b) i) ` set (hash_indices b)"

definition bits_of :: "bpf_bloom_filter \<Rightarrow> u32 set" where
  "bits_of b = {h. h < 256 \<and> bloom_test_bit (bitset b) h}"

lemma hash_less: "bloom_wf b \<Longrightarrow> bloom_hash jh b v n i < 256"
  using masked_less by (simp add: bloom_hash_def bloom_wf_def Let_def)

lemma bloom_hash_bitset [simp]: "bloom_hash jh (b\<lparr>bitset := x\<rparr>) v n i = bloom_hash jh b v n i"
  by (simp add: bloom_hash_def)

lemma hash_bits_bitset [simp]: "hash_bits jh (b\<lparr>bitset := x\<rparr>) v = hash_bits jh b v"
  by (simp add: hash_bits_def hash_indices_def)

lemma fold_set_bits:
  assumes "bloom_wf b" and "set is \<subseteq> set (hash_indices b)"
  shows "\<exists>x. fold (\<lambda>i b. b\<lparr>bitset := bloom_set_bit (bitset b) (bloom_hash jh b v (bloom_value_size b) i)\<rparr>) is b
             = b\<lparr>bitset := x\<rparr> \<and> length x = 4 \<and>
           (\<forall>h < 256. bloom_test_bit x h \<longleftrightarrow> bloom_test_bit (bitset b) h \<or> h \<in> (\<lambda>i. bloom_hash jh b v (bloom_value_size b) i) ` set is)"
  using assms
proof (induction "is" arbitrary: b)
  case Nil
  then show ?case by (intro exI[of _ "bitset b"]) (simp add: bloom_wf_def)
next
  case (Cons i "is")
  let ?b = "b\<lparr>bitset := bloom_set_bit (bitset b) (bloom_hash jh b v (bloom_value_size b) i)\<rparr>"
  have "bloom_wf ?b" "set is \<subseteq> set (hash_indices ?b)"
    using Cons.prems by (auto simp: bloom_wf_def hash_indices_def)
  from Cons.IH[OF this] obtain x where x: "fold (\<lambda>i b. b\<lparr>bitset := bloom_set_bit (bitset b) (bloom_hash jh b v (bloom_value_size b) i)\<rparr>) is ?b
       = b\<lparr>bitset := x\<rparr>" "length x = 4"
     "\<forall>h < 256. bloom_test_bit x h \<longleftrightarrow> bloom_test_bit (bitset ?b) h \<or> h \<in> (\<lambda>i. bloom_hash jh b v (bloom_value_size b) i) ` set is"
    by auto
  have "bloom_test_bit (bitset ?b) h \<longleftrightarrow> bloom_test_bit (bitset b) h \<or> h = bloom_hash jh b v (bloom_value_size b) i" if "h < 256" for h
    using test_set_bit[of "bitset b" "bloom_hash jh b v (bloom_value_size b) i" h] hash_less[of b] Cons.prems that
    by (auto simp: bloom_wf_def)
  with x show ?case by (intro exI[of _ x]) auto
qed

lemma push_bits:
  assumes "bloom_wf b"
  obtains x where "bloom_map_push_elem jh b v BPF_ANY = (0, b\<lparr>bitset := x\<rparr>)" "bloom_wf (b\<lparr>bitset := x\<rparr>)"
    "bits_of (b\<lparr>bitset := x\<rparr>) = bits_of b \<union> hash_bits jh b v"
proof -
  obtain x where x: "snd (bloom_map_push_elem jh b v BPF_ANY) = b\<lparr>bitset := x\<rparr>" "length x = 4"
    "\<forall>h < 256. bloom_test_bit x h \<longleftrightarrow> bloom_test_bit (bitset b) h \<or> h \<in> hash_bits jh b v"
    using fold_set_bits[OF assms order_refl, of jh v] by (auto simp: bloom_map_push_elem_def hash_bits_def)
  moreover have "hash_bits jh b v \<subseteq> {h. h < 256}" using hash_less[OF assms] by (auto simp: hash_bits_def)
  ultimately show ?thesis using assms
    by (intro that[of x]) (auto simp: bloom_map_push_elem_def bits_of_def bloom_wf_def)
qed

lemma peek_iff: "bloom_wf b \<Longrightarrow> bloom_map_peek_elem jh b v = 0 \<longleftrightarrow> hash_bits jh b v \<subseteq> bits_of b"
  using hash_less[of b] by (auto simp: bloom_map_peek_elem_def hash_bits_def bits_of_def list_ex_iff)

lemma bits_of_init: "bits_of (bloom_filter_init vs n seed) = {}"
proof -
  have "[0, 0, 0, 0 :: u64] = replicate 4 0" by (simp add: numeral_eq_Suc)
  then show ?thesis using word_index_less by (simp add: bits_of_def bloom_filter_init_def test_bit_eq)
qed

text \<open>A sequence of pushes.\<close>

definition push_all :: "jhash_ops \<Rightarrow> u8 list list \<Rightarrow> bpf_bloom_filter \<Rightarrow> bpf_bloom_filter" where
  "push_all jh = fold (\<lambda>v b. snd (bloom_map_push_elem jh b v BPF_ANY))"

section \<open>The contract of a membership filter\<close>

locale membership_filter =
  fixes push :: "'v \<Rightarrow> 's \<Rightarrow> 's" and query :: "'v \<Rightarrow> 's \<Rightarrow> bool" and wf :: "'s \<Rightarrow> bool"
    and keys :: "'v \<Rightarrow> 's \<Rightarrow> 'k set" and present :: "'s \<Rightarrow> 'k set"
  assumes push_wf: "wf s \<Longrightarrow> wf (push v s)"
    and push_present: "wf s \<Longrightarrow> present (push v s) = present s \<union> keys v s"
    and push_keys: "wf s \<Longrightarrow> keys w (push v s) = keys w s"
    and query_iff: "wf s \<Longrightarrow> query v s \<longleftrightarrow> keys v s \<subseteq> present s"
begin

lemma pushes_wf: "wf s \<Longrightarrow> wf (fold push vs s)"
  by (induction vs arbitrary: s) (simp_all add: push_wf)

lemma pushes_keys: "wf s \<Longrightarrow> keys w (fold push vs s) = keys w s"
  by (induction vs arbitrary: s) (simp_all add: push_wf push_keys)

lemma pushes_present: "wf s \<Longrightarrow> present (fold push vs s) = present s \<union> (\<Union>v \<in> set vs. keys v s)"
  by (induction vs arbitrary: s) (auto simp add: push_wf push_keys push_present)

lemma no_false_negative: "wf s \<Longrightarrow> v \<in> set vs \<Longrightarrow> query v (fold push vs s)"
  by (simp add: query_iff pushes_wf pushes_keys pushes_present) blast

lemma query_after: "wf s \<Longrightarrow> query v (fold push vs s) \<longleftrightarrow> keys v s \<subseteq> present s \<union> (\<Union>w \<in> set vs. keys w s)"
  by (simp add: query_iff pushes_wf pushes_keys pushes_present)

lemma query_mono: "wf s \<Longrightarrow> query v s \<Longrightarrow> query v (push w s)"
  by (simp add: query_iff push_wf push_keys push_present) blast

end

interpretation bloom: membership_filter
  "\<lambda>v b. snd (bloom_map_push_elem jh b v BPF_ANY)" "\<lambda>v b. bloom_map_peek_elem jh b v = 0"
  bloom_wf "\<lambda>v b. hash_bits jh b v" bits_of for jh
proof unfold_locales
  fix b v w assume "bloom_wf b"
  then obtain x where x: "bloom_map_push_elem jh b v BPF_ANY = (0, b\<lparr>bitset := x\<rparr>)" "bloom_wf (b\<lparr>bitset := x\<rparr>)"
    "bits_of (b\<lparr>bitset := x\<rparr>) = bits_of b \<union> hash_bits jh b v" using push_bits by metis
  then show "bloom_wf (snd (bloom_map_push_elem jh b v BPF_ANY))"
    "bits_of (snd (bloom_map_push_elem jh b v BPF_ANY)) = bits_of b \<union> hash_bits jh b v"
    "hash_bits jh (snd (bloom_map_push_elem jh b v BPF_ANY)) w = hash_bits jh b w" by simp_all
qed (rule peek_iff)

text \<open>C11: A Bloom filter has no false negatives, whatever the hash functions: after any sequence of
  pushes on a fresh filter every pushed value is found, a value is found exactly when its
  hash bits are covered by those of the pushed values, and a push with a flag is refused
  and changes nothing.\<close>

theorem bloom_no_false_negatives:
  "(v \<in> set vs \<longrightarrow> bloom_map_peek_elem jh (push_all jh vs (bloom_filter_init vsize nr seed)) v = 0) \<and>
   (bloom_map_peek_elem jh (push_all jh vs (bloom_filter_init vsize nr seed)) v = 0 \<longleftrightarrow>
      hash_bits jh (bloom_filter_init vsize nr seed) v
      \<subseteq> (\<Union>w \<in> set vs. hash_bits jh (bloom_filter_init vsize nr seed) w)) \<and>
   (mflags \<noteq> BPF_ANY \<longrightarrow> bloom_map_push_elem jh b v mflags = (- EINVAL, b))"
  using bloom.no_false_negative[OF bloom_init_wf, where v = v and vs = vs and jh = jh] bloom.query_after[OF bloom_init_wf, where v = v and vs = vs and jh = jh]
  by (simp add: bits_of_init push_all_def) (simp add: bloom_map_push_elem_def)

definition sample_jhash :: jhash_ops where
  "sample_jhash = \<lparr> jhash2 = (\<lambda>v n seed. ucast (hd v) * 31 + seed * 7), jhash = (\<lambda>v n seed. ucast (hd v) + seed) \<rparr>"

theorem bloom_no_false_negatives_witness:
  "bloom_map_peek_elem sample_jhash
     (push_all sample_jhash [[1, 2, 3, 4], [9, 9, 9, 9]] (bloom_filter_init 4 3 77)) [1, 2, 3, 4] = 0"
  using bloom_no_false_negatives[of "[1, 2, 3, 4]" "[[1, 2, 3, 4], [9, 9, 9, 9]]" sample_jhash 4 3 77] by simp

end
