(* ===== verification/Map_Attr.thy ===== *)
theory Map_Attr
  imports Bpf_Prelude
begin

text \<open>
  What the map shims share: \<^verbatim>\<open>enum bpf_map_type\<close> and \<^verbatim>\<open>union bpf_attr\<close>, the map creation
  flags, and the two attribute helpers every shim repeats (\<^verbatim>\<open>bpf_map_attr_numa_node\<close> and
  \<^verbatim>\<open>bpf_map_flags_access_ok\<close>).  An enumeration of the source is a datatype with the source's
  enumerators and one more constructor for the integers no enumerator names; the enumerators
  of \<^verbatim>\<open>hashtab.c\<close> and \<^verbatim>\<open>arraymap.c\<close> are prefixes of the list in \<^verbatim>\<open>syscall.c\<close>.
\<close>

section \<open>Map types\<close>

datatype (plugins del: quickcheck_random quickcheck_exhaustive quickcheck_full_exhaustive quickcheck_narrowing)
  bpf_map_type =
      BPF_MAP_TYPE_UNSPEC | BPF_MAP_TYPE_HASH | BPF_MAP_TYPE_ARRAY | BPF_MAP_TYPE_PROG_ARRAY
  | BPF_MAP_TYPE_PERF_EVENT_ARRAY | BPF_MAP_TYPE_PERCPU_HASH | BPF_MAP_TYPE_PERCPU_ARRAY
  | BPF_MAP_TYPE_STACK_TRACE | BPF_MAP_TYPE_CGROUP_ARRAY | BPF_MAP_TYPE_LRU_HASH
  | BPF_MAP_TYPE_LRU_PERCPU_HASH | BPF_MAP_TYPE_LPM_TRIE | BPF_MAP_TYPE_ARRAY_OF_MAPS
  | BPF_MAP_TYPE_HASH_OF_MAPS | BPF_MAP_TYPE_DEVMAP | BPF_MAP_TYPE_SOCKMAP
  | BPF_MAP_TYPE_CPUMAP | BPF_MAP_TYPE_XSKMAP | BPF_MAP_TYPE_SOCKHASH
  | BPF_MAP_TYPE_CGROUP_STORAGE_DEPRECATED | BPF_MAP_TYPE_REUSEPORT_SOCKARRAY
  | BPF_MAP_TYPE_PERCPU_CGROUP_STORAGE_DEPRECATED | BPF_MAP_TYPE_QUEUE | BPF_MAP_TYPE_STACK
  | BPF_MAP_TYPE_SK_STORAGE | BPF_MAP_TYPE_DEVMAP_HASH | BPF_MAP_TYPE_STRUCT_OPS
  | BPF_MAP_TYPE_RINGBUF | BPF_MAP_TYPE_INODE_STORAGE | BPF_MAP_TYPE_TASK_STORAGE
  | BPF_MAP_TYPE_BLOOM_FILTER | BPF_MAP_TYPE_USER_RINGBUF | BPF_MAP_TYPE_CGRP_STORAGE
  | BPF_MAP_TYPE_ARENA | BPF_MAP_TYPE_INSN_ARRAY | BPF_MAP_TYPE_RHASH | MAP_TYPE_OTHER u32

abbreviation BPF_MAP_TYPE_CGROUP_STORAGE :: bpf_map_type where
  "BPF_MAP_TYPE_CGROUP_STORAGE \<equiv> BPF_MAP_TYPE_CGROUP_STORAGE_DEPRECATED"
abbreviation BPF_MAP_TYPE_PERCPU_CGROUP_STORAGE :: bpf_map_type where
  "BPF_MAP_TYPE_PERCPU_CGROUP_STORAGE \<equiv> BPF_MAP_TYPE_PERCPU_CGROUP_STORAGE_DEPRECATED"

section \<open>Creation flags\<close>

abbreviation BPF_F_NO_PREALLOC :: u32 where "BPF_F_NO_PREALLOC \<equiv> BIT 0"
abbreviation BPF_F_NO_COMMON_LRU :: u32 where "BPF_F_NO_COMMON_LRU \<equiv> BIT 1"
abbreviation BPF_F_NUMA_NODE :: u32 where "BPF_F_NUMA_NODE \<equiv> BIT 2"
abbreviation BPF_F_RDONLY :: u32 where "BPF_F_RDONLY \<equiv> BIT 3"
abbreviation BPF_F_WRONLY :: u32 where "BPF_F_WRONLY \<equiv> BIT 4"
abbreviation BPF_F_ZERO_SEED :: u32 where "BPF_F_ZERO_SEED \<equiv> BIT 6"
abbreviation BPF_F_RDONLY_PROG :: u32 where "BPF_F_RDONLY_PROG \<equiv> BIT 7"
abbreviation BPF_F_WRONLY_PROG :: u32 where "BPF_F_WRONLY_PROG \<equiv> BIT 8"
abbreviation BPF_F_MMAPABLE :: u32 where "BPF_F_MMAPABLE \<equiv> BIT 10"
abbreviation BPF_F_PRESERVE_ELEMS :: u32 where "BPF_F_PRESERVE_ELEMS \<equiv> BIT 11"
abbreviation BPF_F_INNER_MAP :: u32 where "BPF_F_INNER_MAP \<equiv> BIT 12"

definition BPF_F_ACCESS_MASK :: u32 where
  "BPF_F_ACCESS_MASK = BPF_F_RDONLY OR BPF_F_RDONLY_PROG OR BPF_F_WRONLY OR BPF_F_WRONLY_PROG"

abbreviation PCPU_MIN_UNIT_SIZE :: u32 where "PCPU_MIN_UNIT_SIZE \<equiv> push_bit 10 32"
abbreviation KMALLOC_MAX_SIZE :: u32 where "KMALLOC_MAX_SIZE \<equiv> push_bit 22 1"

section \<open>Attributes\<close>

record bpf_attr =
  attr_map_type :: bpf_map_type
  attr_key_size :: u32
  attr_value_size :: u32
  attr_max_entries :: u32
  attr_map_flags :: u32
  attr_inner_map_fd :: u32
  attr_numa_node :: u32

text \<open>The cast \<^verbatim>\<open>(int)attr->numa_node\<close> reads the word as a signed integer.\<close>

definition bpf_map_attr_numa_node :: "('a bpf_attr_scheme) \<Rightarrow> cint" where
  "bpf_map_attr_numa_node attr =
     (if c_true (attr_map_flags attr AND BPF_F_NUMA_NODE) then sint (attr_numa_node attr) else NUMA_NO_NODE)"

definition bpf_map_flags_access_ok :: "u32 \<Rightarrow> bool" where
  "bpf_map_flags_access_ok access_flags \<longleftrightarrow>
     access_flags AND (BPF_F_RDONLY_PROG OR BPF_F_WRONLY_PROG) \<noteq> BPF_F_RDONLY_PROG OR BPF_F_WRONLY_PROG"

section \<open>Facts\<close>

lemma bit_BIT: "bit (BIT k) n \<longleftrightarrow> n = k \<and> k < 32"
  by (auto simp: push_bit_eq_mult bit_exp_iff)

lemma and_eq_mask_iff: "f AND m = m \<longleftrightarrow> (\<forall>n. bit m n \<longrightarrow> bit f n)" for f m :: "'a::len word"
  by (auto simp: bit_eq_iff bit_and_iff dest: bit_imp_le_length)

lemma and_not_mask_zero_iff: "f AND NOT m = 0 \<longleftrightarrow> (\<forall>n. bit f n \<longrightarrow> bit m n)" for f m :: "'a::len word"
  by (auto simp: bit_eq_iff bit_and_iff bit_not_iff dest: bit_imp_le_length)

lemma and_bit_set_iff: "c_true (f AND BIT k) \<longleftrightarrow> bit f k"
  by (rule c_true_and_bit)

lemma access_ok_iff: "bpf_map_flags_access_ok f \<longleftrightarrow> \<not> (bit f 7 \<and> bit f 8)"
  unfolding bpf_map_flags_access_ok_def and_eq_mask_iff bit_or_iff bit_BIT by auto

text \<open>\<^verbatim>\<open>round_up(x, 8)\<close> in 32 bits, as long as it does not wrap.\<close>

lemma round_up_8:
  fixes x :: u32
  assumes "unat x + 8 \<le> 2 ^ 32"
  shows "unat (round_up x 8) = (unat x + 7) div 8 * 8"
proof -
  have "unat (round_up x 8) = (unat x + 7) div 8 * 8 mod 2 ^ 32"
    using round_up_nat[of 8 x] assms by simp
  moreover have "(unat x + 7) div 8 * 8 \<le> unat x + 7" by simp
  moreover have "(unat x + 7) div 8 * 8 < 2 ^ 32" using calculation(2) assms by linarith
  ultimately show ?thesis by (simp only: mod_less)
qed

lemma round_up_8_bounds: "x \<le> (x + 7) div 8 * 8" "(x + 7) div 8 * 8 < x + 8" for x :: nat
proof -
  have "(x + 7) div 8 * 8 + (x + 7) mod 8 = x + 7" by (rule div_mult_mod_eq)
  moreover have "(x + 7) mod 8 < 8" by simp
  ultimately show "x \<le> (x + 7) div 8 * 8" "(x + 7) div 8 * 8 < x + 8" by linarith+
qed

text \<open>The size limit of per-CPU values, as both creation checks test it.\<close>

lemma percpu_value_iff:
  assumes "unat (v :: u32) + 8 \<le> 2 ^ 32" shows "round_up v 8 > PCPU_MIN_UNIT_SIZE \<longleftrightarrow> unat v > 2 ^ 15"
proof -
  have e: "unat (round_up v 8) = (unat v + 7) div 8 * 8" by (rule round_up_8[OF assms])
  have "(unat v + 7) div 8 * 8 > 32768 \<longleftrightarrow> unat v > 32768"
  proof
    assume "(unat v + 7) div 8 * 8 > 32768"
    then have "(unat v + 7) div 8 > 4096" by linarith
    then have "4097 * 8 \<le> unat v + 7" by (metis Suc_leI div_le_mono less_eq_div_iff_mult_less_eq nat_numeral Suc_numeral semiring_norm(2) semiring_norm(5) zero_less_numeral)
    then show "unat v > 32768" by simp
  next
    assume "unat v > 32768"
    then show "(unat v + 7) div 8 * 8 > 32768" using round_up_8_bounds(1)[of "unat v"] by linarith
  qed
  then show ?thesis using e by (simp add: word_less_nat_alt)
qed

end
