(* ===== verification/Hashtab.thy ===== *)
theory Hashtab
  imports Map_Attr
begin

text \<open>
  The guard, layout and accounting helpers of \<^verbatim>\<open>shims/kernel/bpf/hashtab.c\<close>.  An element of
  the table is its address; the cells reached through it are a memory that maps an address to
  the pointer stored there.  The structure sizes are those of the C layout: an element header
  is 48 bytes, a bucket 16, the table 192.  The \<^verbatim>\<open>int\<close> counter of \<^verbatim>\<open>atomic_t\<close> is a 32-bit word
  and the \<^verbatim>\<open>s64\<close> of \<^verbatim>\<open>percpu_counter\<close> a 64-bit word, read as signed where the code compares them
  as signed.
\<close>

section \<open>State\<close>

record bpf_map =
  map_type :: bpf_map_type
  key_size :: u32
  value_size :: u32
  max_entries :: u32
  map_flags :: u32
  numa_node :: cint
  elem_count :: u32

record bpf_htab = bpf_map +
  elems :: u64
  pcount :: u64
  count :: u32
  use_percpu_counter :: bool
  n_buckets :: u32
  elem_size :: u32

type_synonym ptr_mem = "u64 \<Rightarrow> u64"

abbreviation sizeof_bpf_htab :: u64 where "sizeof_bpf_htab \<equiv> 192"
abbreviation sizeof_bucket :: u64 where "sizeof_bucket \<equiv> 16"
abbreviation sizeof_htab_elem :: nat where "sizeof_htab_elem \<equiv> 48"
abbreviation offsetof_htab_elem_key :: u64 where "offsetof_htab_elem_key \<equiv> 48"
abbreviation LLIST_NODE_SZ :: u64 where "LLIST_NODE_SZ \<equiv> 8"

abbreviation BPF_F_LOCK :: u64 where "BPF_F_LOCK \<equiv> 4"
abbreviation BPF_F_ALL_CPUS :: u64 where "BPF_F_ALL_CPUS \<equiv> 16"

definition HTAB_CREATE_FLAG_MASK :: u32 where
  "HTAB_CREATE_FLAG_MASK = BPF_F_NO_PREALLOC OR BPF_F_NO_COMMON_LRU OR BPF_F_NUMA_NODE OR
     BPF_F_ACCESS_MASK OR BPF_F_ZERO_SEED"

section \<open>Environment of the shim\<close>

definition capable :: "int \<Rightarrow> bool" where
  "capable cap = False"

definition num_possible_cpus :: u32 where
  "num_possible_cpus = 4"

definition atomic_read :: "u32 \<Rightarrow> int" where
  "atomic_read v = sint v"

definition atomic_inc :: "u32 \<Rightarrow> u32" where
  "atomic_inc v = v + 1"

definition atomic_dec :: "u32 \<Rightarrow> u32" where
  "atomic_dec v = v - 1"

definition percpu_counter_sum :: "u64 \<Rightarrow> int" where
  "percpu_counter_sum fbc = sint fbc"

definition percpu_counter_add_batch :: "u64 \<Rightarrow> int \<Rightarrow> u64" where
  "percpu_counter_add_batch fbc amount = fbc + of_int amount"

definition percpu_counter_compare :: "u64 \<Rightarrow> int \<Rightarrow> cint" where
  "percpu_counter_compare fbc rhs =
     (if sint fbc < rhs then - 1 else if sint fbc > rhs then 1 else 0)"

definition bpf_map_inc_elem_count :: "('a bpf_map_scheme) \<Rightarrow> 'a bpf_map_scheme" where
  "bpf_map_inc_elem_count mp = mp\<lparr>elem_count := elem_count mp + 1\<rparr>"

definition bpf_map_dec_elem_count :: "('a bpf_map_scheme) \<Rightarrow> 'a bpf_map_scheme" where
  "bpf_map_dec_elem_count mp = mp\<lparr>elem_count := elem_count mp - 1\<rparr>"

section \<open>Kinds of tables\<close>

definition htab_is_prealloc :: "bpf_htab \<Rightarrow> bool" where
  "htab_is_prealloc htab = (\<not> c_true (map_flags htab AND BPF_F_NO_PREALLOC))"

definition htab_is_lru :: "bpf_htab \<Rightarrow> bool" where
  "htab_is_lru htab = (map_type htab = BPF_MAP_TYPE_LRU_HASH \<or> map_type htab = BPF_MAP_TYPE_LRU_PERCPU_HASH)"

definition htab_is_percpu :: "bpf_htab \<Rightarrow> bool" where
  "htab_is_percpu htab = (map_type htab = BPF_MAP_TYPE_PERCPU_HASH \<or> map_type htab = BPF_MAP_TYPE_LRU_PERCPU_HASH)"

definition is_fd_htab :: "bpf_htab \<Rightarrow> bool" where
  "is_fd_htab htab = (map_type htab = BPF_MAP_TYPE_HASH_OF_MAPS)"

definition htab_has_extra_elems :: "bpf_htab \<Rightarrow> bool" where
  "htab_has_extra_elems htab = (\<not> htab_is_percpu htab \<and> \<not> htab_is_lru htab \<and> \<not> is_fd_htab htab)"

section \<open>Elements\<close>

definition htab_elem_value :: "u64 \<Rightarrow> u32 \<Rightarrow> u64" where
  "htab_elem_value l ksize = l + offsetof_htab_elem_key + ucast (round_up ksize 8)"

definition htab_elem_set_ptr :: "ptr_mem \<Rightarrow> u64 \<Rightarrow> u32 \<Rightarrow> u64 \<Rightarrow> ptr_mem" where
  "htab_elem_set_ptr mem l ksize pptr = mem(htab_elem_value l ksize := pptr)"

definition htab_elem_get_ptr :: "ptr_mem \<Rightarrow> u64 \<Rightarrow> u32 \<Rightarrow> u64" where
  "htab_elem_get_ptr mem l ksize = mem (htab_elem_value l ksize)"

definition fd_htab_map_get_ptr :: "ptr_mem \<Rightarrow> ('a bpf_map_scheme) \<Rightarrow> u64 \<Rightarrow> u64" where
  "fd_htab_map_get_ptr mem mp l = mem (htab_elem_value l (key_size mp))"

text \<open>\<^verbatim>\<open>i * (u64)htab->elem_size\<close>: the \<^verbatim>\<open>int\<close> index is converted to \<^verbatim>\<open>u64\<close>.\<close>

definition get_htab_elem :: "bpf_htab \<Rightarrow> int \<Rightarrow> u64" where
  "get_htab_elem htab i = elems htab + of_int i * ucast (elem_size htab)"

section \<open>Guards and accounting\<close>

definition htab_map_alloc_check :: "('a bpf_attr_scheme) \<Rightarrow> cint" where
  "htab_map_alloc_check attr =
     (let percpu = (attr_map_type attr = BPF_MAP_TYPE_PERCPU_HASH \<or> attr_map_type attr = BPF_MAP_TYPE_LRU_PERCPU_HASH);
          lru = (attr_map_type attr = BPF_MAP_TYPE_LRU_HASH \<or> attr_map_type attr = BPF_MAP_TYPE_LRU_PERCPU_HASH);
          percpu_lru = c_true (attr_map_flags attr AND BPF_F_NO_COMMON_LRU);
          prealloc = (\<not> c_true (attr_map_flags attr AND BPF_F_NO_PREALLOC));
          zero_seed = c_true (attr_map_flags attr AND BPF_F_ZERO_SEED);
          node = bpf_map_attr_numa_node attr
      in if zero_seed \<and> \<not> capable 21 then - EPERM
         else if c_true (attr_map_flags attr AND NOT HTAB_CREATE_FLAG_MASK) \<or>
                 \<not> bpf_map_flags_access_ok (attr_map_flags attr) then - EINVAL
         else if \<not> lru \<and> percpu_lru then - EINVAL
         else if lru \<and> \<not> prealloc then - ENOTSUPP
         else if node \<noteq> NUMA_NO_NODE \<and> (percpu \<or> percpu_lru) then - EINVAL
         else if attr_max_entries attr = 0 \<or> attr_key_size attr = 0 \<or> attr_value_size attr = 0 then - EINVAL
         else if (ucast (attr_key_size attr) :: u64) + ucast (attr_value_size attr)
                 \<ge> ucast KMALLOC_MAX_SIZE - of_nat sizeof_htab_elem then - E2BIG
         else if percpu \<and> round_up (attr_value_size attr) 8 > PCPU_MIN_UNIT_SIZE then - E2BIG
         else 0)"

text \<open>The last comparison is between an \<^verbatim>\<open>int\<close> and a \<^verbatim>\<open>u32\<close>: C compares both as unsigned.\<close>

definition is_map_full :: "bpf_htab \<Rightarrow> bool" where
  "is_map_full htab =
     (if use_percpu_counter htab
      then percpu_counter_compare (pcount htab) (uint (max_entries htab)) \<ge> 0
      else (of_int (atomic_read (count htab)) :: u32) \<ge> max_entries htab)"

definition inc_elem_count :: "bpf_htab \<Rightarrow> bpf_htab" where
  "inc_elem_count htab =
     (let htab = bpf_map_inc_elem_count htab
      in if use_percpu_counter htab
         then htab\<lparr>pcount := percpu_counter_add_batch (pcount htab) 1\<rparr>
         else htab\<lparr>count := atomic_inc (count htab)\<rparr>)"

definition dec_elem_count :: "bpf_htab \<Rightarrow> bpf_htab" where
  "dec_elem_count htab =
     (let htab = bpf_map_dec_elem_count htab
      in if use_percpu_counter htab
         then htab\<lparr>pcount := percpu_counter_add_batch (pcount htab) (- 1)\<rparr>
         else htab\<lparr>count := atomic_dec (count htab)\<rparr>)"

definition htab_map_check_update_flags :: "bool \<Rightarrow> u64 \<Rightarrow> cint" where
  "htab_map_check_update_flags onallcpus mflags =
     (if \<not> onallcpus \<and> mflags > BPF_EXIST then - EINVAL
      else if onallcpus \<and> (c_true (mflags AND BPF_F_LOCK) \<or> (ucast mflags :: u32) > ucast BPF_F_ALL_CPUS) then - EINVAL
      else 0)"

text \<open>\<^verbatim>\<open>value_size * num_possible_cpus() * num_entries\<close> multiplies the first two factors in 32 bits.\<close>

definition htab_map_mem_usage :: "bpf_htab \<Rightarrow> u64" where
  "htab_map_mem_usage htab =
     (let vsize = round_up (value_size htab) 8;
          prealloc = htab_is_prealloc htab;
          percpu = htab_is_percpu htab;
          lru = htab_is_lru htab;
          usage = sizeof_bpf_htab + sizeof_bucket * ucast (n_buckets htab)
      in if prealloc then
           let num_entries = ucast (max_entries htab);
               num_entries = (if htab_has_extra_elems htab then num_entries + ucast num_possible_cpus else num_entries);
               usage = usage + ucast (elem_size htab) * num_entries
           in if percpu then usage + ucast (vsize * num_possible_cpus) * num_entries
              else if \<not> lru then usage + 8 * ucast num_possible_cpus
              else usage
         else
           let num_entries = of_int (if use_percpu_counter htab then percpu_counter_sum (pcount htab)
                                     else atomic_read (count htab));
               usage = usage + (ucast (elem_size htab) + LLIST_NODE_SZ) * num_entries
           in if percpu then usage + (LLIST_NODE_SZ + 8) * num_entries + ucast (vsize * num_possible_cpus) * num_entries
              else usage)"


section \<open>Creation\<close>

definition is_percpu_type :: "bpf_map_type \<Rightarrow> bool" where
  "is_percpu_type t \<longleftrightarrow> t = BPF_MAP_TYPE_PERCPU_HASH \<or> t = BPF_MAP_TYPE_LRU_PERCPU_HASH"

definition is_lru_type :: "bpf_map_type \<Rightarrow> bool" where
  "is_lru_type t \<longleftrightarrow> t = BPF_MAP_TYPE_LRU_HASH \<or> t = BPF_MAP_TYPE_LRU_PERCPU_HASH"

lemma htab_flags_iff:
  "\<not> c_true (f AND NOT HTAB_CREATE_FLAG_MASK) \<longleftrightarrow> (\<forall>n. bit f n \<longrightarrow> n \<in> {0, 1, 2, 3, 4, 6, 7, 8})"
  unfolding c_true_def not_not and_not_mask_zero_iff HTAB_CREATE_FLAG_MASK_def BPF_F_ACCESS_MASK_def
    bit_or_iff bit_BIT by auto

lemma numa_default_iff:
  "bpf_map_attr_numa_node attr = NUMA_NO_NODE \<longleftrightarrow> \<not> bit (attr_map_flags attr) 2 \<or> attr_numa_node attr = - 1"
proof -
  have "sint x = - 1 \<Longrightarrow> x = - 1" for x :: u32
    by (drule arg_cong[of _ _ "of_int :: int \<Rightarrow> u32"]) (simp only: of_int_sint of_int_minus of_int_1 scast_id)
  then have "sint (attr_numa_node attr) = - 1 \<longleftrightarrow> attr_numa_node attr = - 1"
    using sint_n1 by auto
  then show ?thesis unfolding bpf_map_attr_numa_node_def and_bit_set_iff by simp
qed

lemma htab_size_iff:
  "(ucast (k :: u32) :: u64) + ucast (v :: u32) \<ge> ucast KMALLOC_MAX_SIZE - of_nat sizeof_htab_elem
   \<longleftrightarrow> unat k + unat v \<ge> 2 ^ 22 - 48"
proof -
  have "unat k < 2 ^ 32" "unat v < 2 ^ 32" by (rule unat_u32_less)+
  then have "unat ((ucast k :: u64) + ucast v) = unat k + unat v"
    by (simp add: unat_word_ariths)
  then show ?thesis by (simp add: word_le_nat_alt)
qed

text \<open>What the check accepts, over unbounded numbers.\<close>

definition htab_attr_ok :: "('a bpf_attr_scheme) \<Rightarrow> bool" where
  "htab_attr_ok attr \<longleftrightarrow>
     (\<forall>n. bit (attr_map_flags attr) n \<longrightarrow> n \<in> {0, 1, 2, 3, 4, 7, 8}) \<and>
     \<not> (bit (attr_map_flags attr) 7 \<and> bit (attr_map_flags attr) 8) \<and>
     (bit (attr_map_flags attr) 1 \<longrightarrow> is_lru_type (attr_map_type attr)) \<and>
     (is_lru_type (attr_map_type attr) \<longrightarrow> \<not> bit (attr_map_flags attr) 0) \<and>
     (is_percpu_type (attr_map_type attr) \<or> bit (attr_map_flags attr) 1 \<longrightarrow>
        \<not> bit (attr_map_flags attr) 2 \<or> attr_numa_node attr = - 1) \<and>
     0 < unat (attr_max_entries attr) \<and> 0 < unat (attr_key_size attr) \<and> 0 < unat (attr_value_size attr) \<and>
     unat (attr_key_size attr) + unat (attr_value_size attr) < 2 ^ 22 - 48 \<and>
     (is_percpu_type (attr_map_type attr) \<longrightarrow> unat (attr_value_size attr) \<le> 2 ^ 15)"

lemma htab_alloc_check_zero: "htab_map_alloc_check attr = 0 \<longleftrightarrow> htab_attr_ok attr"
proof -
  let ?f = "attr_map_flags attr"
  have z: "x = 0 \<longleftrightarrow> \<not> 0 < unat x" for x :: u32 by (simp add: unat_eq_0)
  have v: "\<not> unat (attr_key_size attr) + unat (attr_value_size attr) \<ge> 2 ^ 22 - 48 \<Longrightarrow>
      (round_up (attr_value_size attr) 8 > PCPU_MIN_UNIT_SIZE) = (unat (attr_value_size attr) > 2 ^ 15)"
    by (intro percpu_value_iff) simp
  have fl: "(\<forall>n. bit ?f n \<longrightarrow> n \<in> {0, 1, 2, 3, 4, 7, 8}) \<longleftrightarrow> \<not> c_true (?f AND NOT HTAB_CREATE_FLAG_MASK) \<and> \<not> bit ?f 6"
    unfolding htab_flags_iff by auto
  show ?thesis
  proof (cases "unat (attr_key_size attr) + unat (attr_value_size attr) \<ge> 2 ^ 22 - 48")
    case True
    then show ?thesis unfolding htab_map_alloc_check_def htab_attr_ok_def Let_def htab_size_iff by simp
  next
    case False
    show ?thesis
      unfolding htab_map_alloc_check_def htab_attr_ok_def Let_def capable_def and_bit_set_iff access_ok_iff htab_size_iff
        z fl is_lru_type_def[symmetric] is_percpu_type_def[symmetric] numa_default_iff v[OF False]
      using False by (simp only: guard_zero_iff zero_neq_numeral neg_equal_0_iff_equal one_neq_zero not_False_eq_True
          zero_neq_numeral[symmetric] zero_neq_one[symmetric] linorder_not_less[symmetric]) argo
  qed
qed

lemma htab_alloc_check_range: "htab_map_alloc_check attr \<in> {0, - EPERM, - EINVAL, - ENOTSUPP, - E2BIG}"
  unfolding htab_map_alloc_check_def Let_def by (intro guard_mem) simp_all

text \<open>C12: \<^verbatim>\<open>htab_map_alloc_check\<close> accepts exactly the attributes that meet the conditions of
  \<open>htab_attr_ok\<close>, stated over unbounded numbers: known flags without the zero seed (no caller is
  capable), not read-only and write-only for programs at once, a private LRU only for an LRU map, no LRU
  without preallocation, no NUMA node for per-CPU maps, non-empty sizes, and an element
  that fits the allocator; everything else gets one of four errors.\<close>

theorem htab_alloc_check_correct:
  "(htab_map_alloc_check attr = 0 \<longleftrightarrow> htab_attr_ok attr) \<and>
   htab_map_alloc_check attr \<in> {0, - EPERM, - EINVAL, - ENOTSUPP, - E2BIG}"
  using htab_alloc_check_zero htab_alloc_check_range by blast

section \<open>Elements do not overlap\<close>

text \<open>A table whose preallocated elements lie in memory without wrapping, each large enough for
  its header, its padded key and one pointer.\<close>

definition elems_in_memory :: "bpf_htab \<Rightarrow> bool" where
  "elems_in_memory htab \<longleftrightarrow>
     unat (key_size htab) < 2 ^ 22 \<and>
     48 + (unat (key_size htab) + 7) div 8 * 8 + 8 \<le> unat (elem_size htab) \<and>
     unat (elems htab) + unat (max_entries htab) * unat (elem_size htab) < 2 ^ 64 \<and>
     unat (max_entries htab) < 2 ^ 31"

lemma elem_addr:
  assumes "elems_in_memory htab" "i < unat (max_entries htab)"
  shows "unat (htab_elem_value (get_htab_elem htab (int i)) (key_size htab))
         = unat (elems htab) + i * unat (elem_size htab) + 48 + (unat (key_size htab) + 7) div 8 * 8"
    (is "_ = ?N")
proof -
  have r: "unat (round_up (key_size htab) 8) = (unat (key_size htab) + 7) div 8 * 8"
    using assms by (intro round_up_8) (simp add: elems_in_memory_def)
  have "Suc i * unat (elem_size htab) \<le> unat (max_entries htab) * unat (elem_size htab)"
    using assms(2) by (intro mult_le_mono1) simp
  then have "?N < 2 ^ 64" using assms(1) by (simp add: elems_in_memory_def)
  moreover have "htab_elem_value (get_htab_elem htab (int i)) (key_size htab) = of_nat ?N"
    unfolding htab_elem_value_def get_htab_elem_def r[symmetric] by (simp add: unsigned_ucast_eq)
  ultimately show ?thesis by (simp only: unat_of_nat_u64)
qed

lemma elem_slots_apart:
  assumes "elems_in_memory htab" "i < unat (max_entries htab)" "j < unat (max_entries htab)" "i < j"
  shows "unat (htab_elem_value (get_htab_elem htab (int i)) (key_size htab)) + 8
         \<le> unat (htab_elem_value (get_htab_elem htab (int j)) (key_size htab))"
proof -
  have "Suc i * unat (elem_size htab) \<le> j * unat (elem_size htab)" using assms(4) by (intro mult_le_mono1) simp
  moreover have "8 \<le> unat (elem_size htab)" using assms(1) by (simp add: elems_in_memory_def)
  ultimately show ?thesis unfolding elem_addr[OF assms(1,2)] elem_addr[OF assms(1,3)] by simp
qed


text \<open>In a table whose element memory does not wrap, the value slots of two different
  elements are disjoint: a per-CPU pointer stored in one element is read back from it, the
  map-in-map accessor reads the same cell, and the pointers of all other elements are kept.\<close>

theorem htab_elem_ptr_roundtrip:
  assumes "elems_in_memory htab" "i < unat (max_entries htab)" "j < unat (max_entries htab)"
  shows "htab_elem_get_ptr (htab_elem_set_ptr mem (get_htab_elem htab (int i)) (key_size htab) p)
           (get_htab_elem htab (int j)) (key_size htab)
         = (if i = j then p else htab_elem_get_ptr mem (get_htab_elem htab (int j)) (key_size htab)) \<and>
    fd_htab_map_get_ptr (htab_elem_set_ptr mem (get_htab_elem htab (int i)) (key_size htab) p) htab
      (get_htab_elem htab (int i)) = p \<and>
    (i < j \<longrightarrow> unat (htab_elem_value (get_htab_elem htab (int i)) (key_size htab)) + 8
      \<le> unat (htab_elem_value (get_htab_elem htab (int j)) (key_size htab)))"
proof -
  let ?a = "\<lambda>i. htab_elem_value (get_htab_elem htab (int i)) (key_size htab)"
  have "?a i \<noteq> ?a j" if "i \<noteq> j"
  proof (cases "i < j")
    case True
    show ?thesis using elem_slots_apart[OF assms True] by auto
  next
    case False
    then have "j < i" using that by simp
    from elem_slots_apart[OF assms(1,3,2) this] show ?thesis by auto
  qed
  then show ?thesis using elem_slots_apart[OF assms]
    by (auto simp: htab_elem_get_ptr_def htab_elem_set_ptr_def fd_htab_map_get_ptr_def)
qed

definition sample_htab :: bpf_htab where
  "sample_htab = \<lparr> map_type = BPF_MAP_TYPE_PERCPU_HASH, key_size = 5, value_size = 12, max_entries = 10,
     map_flags = 0, numa_node = - 1, elem_count = 0, elems = 4096, pcount = 0, count = 0,
     use_percpu_counter = False, n_buckets = 16, elem_size = 64 \<rparr>"

theorem htab_elem_ptr_roundtrip_witness:
  "htab_elem_get_ptr (htab_elem_set_ptr (\<lambda>_. 0) (get_htab_elem sample_htab (int 2)) (key_size sample_htab) 77)
     (get_htab_elem sample_htab (int 3)) (key_size sample_htab)
   = (if (2 :: nat) = 3 then 77 else htab_elem_get_ptr (\<lambda>_. 0) (get_htab_elem sample_htab (int 3)) (key_size sample_htab))"
  by (rule htab_elem_ptr_roundtrip[THEN conjunct1]) (simp_all add: elems_in_memory_def sample_htab_def)

section \<open>Element counters\<close>

text \<open>The contract of a bounded counter, and what its clients get from it.\<close>

locale bounded_counter =
  fixes inc :: "'s \<Rightarrow> 's" and dec :: "'s \<Rightarrow> 's" and full :: "'s \<Rightarrow> bool"
    and counts :: "'s \<Rightarrow> nat \<Rightarrow> bool" and cap :: "'s \<Rightarrow> nat"
  assumes inc_counts: "counts s n \<Longrightarrow> n < cap s \<Longrightarrow> counts (inc s) (Suc n)"
    and dec_counts: "counts s (Suc n) \<Longrightarrow> counts (dec s) n"
    and full_iff: "counts s n \<Longrightarrow> n \<le> cap s \<Longrightarrow> full s \<longleftrightarrow> n = cap s"
    and cap_inc: "cap (inc s) = cap s" and cap_dec: "cap (dec s) = cap s"
begin

text \<open>A guarded insertion counts up exactly when there is room.\<close>

lemma guarded_inc:
  assumes "counts s n" "n \<le> cap s"
  shows "counts (if full s then s else inc s) (if n = cap s then n else Suc n) \<and>
         (if n = cap s then n else Suc n) \<le> cap (if full s then s else inc s)"
  using assms full_iff[OF assms] inc_counts[of s n] by (auto simp: cap_inc)

lemma inc_dec_counts: "counts s n \<Longrightarrow> n < cap s \<Longrightarrow> counts (dec (inc s)) n"
  by (rule dec_counts) (rule inc_counts)

end

definition htab_counts :: "bpf_htab \<Rightarrow> nat \<Rightarrow> bool" where
  "htab_counts h n \<longleftrightarrow> n \<le> unat (max_entries h) \<and> elem_count h = of_nat n \<and>
     (if use_percpu_counter h then pcount h = of_nat n else count h = of_nat n)"

lemma sint_of_nat_u64: "n < 2 ^ 32 \<Longrightarrow> sint (of_nat n :: u64) = int n"
  by (simp add: signed_of_nat signed_take_bit_int_eq_self)

lemma is_map_full_counts:
  assumes c: "htab_counts h n" shows "is_map_full h \<longleftrightarrow> n = unat (max_entries h)"
proof -
  have le: "n \<le> unat (max_entries h)" using c by (simp add: htab_counts_def)
  then have n: "n < 2 ^ 32" using unat_u32_less[of "max_entries h"] by linarith
  have u: "uint (max_entries h) = int (unat (max_entries h))" by (rule uint_nat)
  show ?thesis
  proof (cases "use_percpu_counter h")
    case True
    then have "sint (pcount h) = int n" using c sint_of_nat_u64[OF n] by (simp add: htab_counts_def)
    then show ?thesis using True le unfolding is_map_full_def percpu_counter_compare_def u
      by (simp del: of_nat_unat int_nat_eq split: if_split)
  next
    case False
    then have "unat (count h) = n" using c unat_of_nat_u32[OF n] by (simp add: htab_counts_def)
    moreover have "of_int (sint (count h)) = count h" by (simp only: of_int_sint scast_id)
    ultimately show ?thesis using False le
      by (auto simp add: is_map_full_def atomic_read_def word_le_nat_alt simp del: of_int_sint)
  qed
qed

interpretation htab_counter: bounded_counter inc_elem_count dec_elem_count is_map_full htab_counts
  "\<lambda>h. unat (max_entries h)"
proof unfold_locales
  fix h n assume "htab_counts h n"
  then show "is_map_full h \<longleftrightarrow> n = unat (max_entries h)" by (rule is_map_full_counts)
next
  fix h n assume "htab_counts h n" "n < unat (max_entries h)"
  then show "htab_counts (inc_elem_count h) (Suc n)"
    by (simp add: htab_counts_def inc_elem_count_def bpf_map_inc_elem_count_def atomic_inc_def
        percpu_counter_add_batch_def Let_def)
next
  fix h n assume "htab_counts h (Suc n)"
  then show "htab_counts (dec_elem_count h) n"
    by (simp add: htab_counts_def dec_elem_count_def bpf_map_dec_elem_count_def atomic_dec_def
        percpu_counter_add_batch_def Let_def)
qed (simp_all add: inc_elem_count_def dec_elem_count_def bpf_map_inc_elem_count_def bpf_map_dec_elem_count_def Let_def)

text \<open>\<open>htab_elems h0 K h\<close>: from \<open>h0\<close>, a sequence of insertions and deletions led to the table \<open>h\<close> and left the keys \<open>K\<close>
  in it.  A key is inserted when it is not present and the capacity test lets it, and deleted when it is
  present; the table does the counting, \<open>K\<close> records what was done.\<close>

inductive htab_elems :: "bpf_htab \<Rightarrow> 'k set \<Rightarrow> bpf_htab \<Rightarrow> bool" for h0 where
  elems_empty: "htab_elems h0 {} h0"
| elems_insert: "htab_elems h0 K h \<Longrightarrow> k \<notin> K \<Longrightarrow> \<not> is_map_full h \<Longrightarrow> htab_elems h0 (insert k K) (inc_elem_count h)"
| elems_delete: "htab_elems h0 K h \<Longrightarrow> k \<in> K \<Longrightarrow> htab_elems h0 (K - {k}) (dec_elem_count h)"

lemma count_max_entries:
  "max_entries (inc_elem_count h) = max_entries h" "max_entries (dec_elem_count h) = max_entries h"
  by (simp_all add: inc_elem_count_def dec_elem_count_def bpf_map_inc_elem_count_def bpf_map_dec_elem_count_def Let_def)

lemma htab_elems_counts:
  assumes "htab_elems h0 K h" and "htab_counts h0 0"
  shows "finite K \<and> htab_counts h (card K) \<and> max_entries h = max_entries h0"
  using assms(1)
proof induction
  case (elems_insert K h k)
  then have c: "finite K" "htab_counts h (card K)" by blast+
  then have le: "card K \<le> unat (max_entries h)" by (simp add: htab_counts_def)
  have "card K \<noteq> unat (max_entries h)" using is_map_full_counts[OF c(2)] elems_insert.hyps(3) by blast
  then have "htab_counts (inc_elem_count h) (Suc (card K))" using le by (intro htab_counter.inc_counts[OF c(2)]) simp
  then show ?case using elems_insert c(1) by (simp add: count_max_entries)
next
  case (elems_delete K h k)
  then have "htab_counts h (Suc (card (K - {k})))" by (metis card_Suc_Diff1)
  from htab_counter.dec_counts[OF this] elems_delete.IH show ?case by (simp add: count_max_entries)
qed (use assms(2) in simp)

text \<open>C13: From an empty table, after any sequence of insertions of new keys guarded by \<^verbatim>\<open>is_map_full\<close> and
  deletions of present keys, the shared counter and the active counter (per-CPU or atomic) are the
  number of keys present; that number never exceeds \<^verbatim>\<open>max_entries\<close>, and the table reports full exactly when
  it reaches it.\<close>

theorem htab_count_invariant:
  assumes "htab_elems h0 K h" and "elem_count h0 = 0" "pcount h0 = 0" "count h0 = 0"
  shows "finite K \<and> card K \<le> unat (max_entries h0) \<and> unat (elem_count h) = card K \<and>
     (if use_percpu_counter h then unat (pcount h) = card K else unat (count h) = card K) \<and>
     (is_map_full h \<longleftrightarrow> card K = unat (max_entries h0))"
proof -
  have "htab_counts h0 0" using assms by (simp add: htab_counts_def)
  note n = htab_elems_counts[OF assms(1) this]
  then have le: "card K \<le> unat (max_entries h0)" by (auto simp: htab_counts_def)
  then have "card K < 2 ^ 32" using unat_u32_less[of "max_entries h0"] by linarith
  then have "unat (of_nat (card K) :: u32) = card K" "unat (of_nat (card K) :: u64) = card K"
    by (intro unat_of_nat_u32 unat_of_nat_u64; simp)+
  then show ?thesis using n le is_map_full_counts[of h "card K"] by (auto simp: htab_counts_def)
qed

theorem htab_count_invariant_witness:
  "unat (elem_count (inc_elem_count (dec_elem_count (inc_elem_count sample_htab)))) = card {5 :: nat}"
proof -
  let ?h = "dec_elem_count (inc_elem_count sample_htab)"
  have f: "\<not> is_map_full sample_htab" "\<not> is_map_full ?h"
    by (simp_all add: is_map_full_def sample_htab_def atomic_read_def inc_elem_count_def dec_elem_count_def
        bpf_map_inc_elem_count_def bpf_map_dec_elem_count_def atomic_inc_def atomic_dec_def Let_def)
  have "htab_elems sample_htab {7 :: nat} (inc_elem_count sample_htab)"
    using elems_insert[OF elems_empty, of 7] f(1) by simp
  from elems_delete[OF this, of 7] have "htab_elems sample_htab ({} :: nat set) ?h" by simp
  from elems_insert[OF this, of 5] f(2) have "htab_elems sample_htab {5 :: nat} (inc_elem_count ?h)" by simp
  from htab_count_invariant[OF this] show ?thesis by (simp add: sample_htab_def)
qed

section \<open>Memory accounting\<close>

definition htab_usage_spec :: "bpf_htab \<Rightarrow> nat \<Rightarrow> nat" where
  "htab_usage_spec h n =
     (let v = (unat (value_size h) + 7) div 8 * 8;
          entries = (if htab_is_prealloc h
             then unat (max_entries h) + (if htab_has_extra_elems h then 4 else 0) else n)
      in 192 + 16 * unat (n_buckets h) +
         (unat (elem_size h) + (if htab_is_prealloc h then 0 else 8)) * entries +
         (if htab_is_percpu h then v * 4 * entries else 0) +
         (if htab_is_prealloc h then if htab_is_percpu h \<or> htab_is_lru h then 0 else 32
          else if htab_is_percpu h then 16 * entries else 0))"


definition htab_sizes_ok :: "bpf_htab \<Rightarrow> bool" where
  "htab_sizes_ok h \<longleftrightarrow> unat (elem_size h) < 2 ^ 23 \<and> (htab_is_percpu h \<longrightarrow> unat (value_size h) \<le> 2 ^ 15)"

lemma ucast_u64_eq: "(ucast (x :: u32) :: u64) = of_nat (unat x)"
  by (simp add: unsigned_ucast_eq)

lemma percpu_value_bytes:
  assumes "htab_sizes_ok h" "htab_is_percpu h"
  shows "(ucast (round_up (value_size h) 8 * num_possible_cpus) :: u64) = of_nat ((unat (value_size h) + 7) div 8 * 8 * 4)"
proof -
  have v: "unat (value_size h) \<le> 2 ^ 15" using assms by (simp add: htab_sizes_ok_def)
  then have e: "unat (round_up (value_size h) 8) = (unat (value_size h) + 7) div 8 * 8" by (intro round_up_8) simp
  have "(unat (value_size h) + 7) div 8 * 8 * 4 < 2 ^ 32" using round_up_8_bounds(2)[of "unat (value_size h)"] v by simp
  then have "unat (round_up (value_size h) 8 * num_possible_cpus) = (unat (value_size h) + 7) div 8 * 8 * 4"
    by (simp add: unat_word_ariths num_possible_cpus_def e)
  then show ?thesis unfolding ucast_u64_eq by simp
qed

definition usage_entries :: "bpf_htab \<Rightarrow> nat \<Rightarrow> nat" where
  "usage_entries h n = (if htab_is_prealloc h
     then unat (max_entries h) + (if htab_has_extra_elems h then 4 else 0) else n)"

lemma usage_spec_bound:
  assumes "htab_sizes_ok h" "n < 2 ^ 31" shows "htab_usage_spec h n < 2 ^ 64"
proof -
  let ?E = "usage_entries h n"
  have E: "?E \<le> 2 ^ 33" using unat_u32_less[of "max_entries h"] assms(2) by (auto simp: usage_entries_def)
  have b: "unat (n_buckets h) < 2 ^ 32" by (rule unat_u32_less)
  define A where "A = (unat (elem_size h) + (if htab_is_prealloc h then 0 else 8)) * ?E"
  define B where "B = (if htab_is_percpu h then (unat (value_size h) + 7) div 8 * 8 * 4 * ?E else 0)"
  define C where "C = (if htab_is_prealloc h then if htab_is_percpu h \<or> htab_is_lru h then 0 else 32
          else if htab_is_percpu h then 16 * ?E else 0)"
  have "A \<le> 2 ^ 24 * 2 ^ 33"
    unfolding A_def using assms(1) E by (intro mult_le_mono) (auto simp: htab_sizes_ok_def)
  moreover have "B \<le> 2 ^ 18 * 2 ^ 33"
  proof (cases "htab_is_percpu h")
    case True
    then have "unat (value_size h) \<le> 2 ^ 15" using assms(1) by (simp add: htab_sizes_ok_def)
    then have "(unat (value_size h) + 7) div 8 * 8 * 4 \<le> 2 ^ 18"
      using round_up_8_bounds(2)[of "unat (value_size h)"] by simp
    then show ?thesis unfolding B_def using True E by (simp only: if_True mult_le_mono)
  qed (simp add: B_def)
  moreover have "C \<le> 2 ^ 38" using E by (simp add: C_def)
  moreover have "htab_usage_spec h n = 192 + 16 * unat (n_buckets h) + A + B + C"
    unfolding htab_usage_spec_def Let_def usage_entries_def[symmetric] A_def B_def C_def by (rule refl)
  ultimately show ?thesis using b by simp
qed

lemma active_count:
  assumes "htab_counts h n" "n < 2 ^ 31"
  shows "(if use_percpu_counter h then percpu_counter_sum (pcount h) else atomic_read (count h)) = int n"
proof -
  have "sint (of_nat n :: u32) = int n" using assms(2) by (simp add: signed_of_nat signed_take_bit_int_eq_self)
  moreover have "sint (of_nat n :: u64) = int n" using assms(2) by (intro sint_of_nat_u64) simp
  ultimately show ?thesis using assms(1)
    by (simp add: htab_counts_def percpu_counter_sum_def atomic_read_def split: if_splits)
qed

text \<open>\<^verbatim>\<open>htab_map_mem_usage\<close> computes the exact number of bytes of table, buckets, elements,
  per-CPU values and extra elements: for the element and value sizes the creation check
  lets through and fewer than \<^verbatim>\<open>2^31\<close> elements, neither the 32-bit nor the 64-bit products wrap.\<close>

theorem htab_mem_usage_exact:
  assumes "htab_sizes_ok h" "htab_counts h n" "n < 2 ^ 31"
  shows "unat (htab_map_mem_usage h) = htab_usage_spec h n"
proof -
  let ?v = "(ucast (round_up (value_size h) 8 * num_possible_cpus) :: u64)"
  have "htab_map_mem_usage h = of_nat (htab_usage_spec h n)"
  proof (cases "htab_is_percpu h")
    case True
    define V where "V = (unat (value_size h) + 7) div 8 * 8"
    have v: "?v = of_nat (V * 4)" unfolding V_def by (rule percpu_value_bytes[OF assms(1) True])
    have "\<not> htab_has_extra_elems h" using True by (simp add: htab_has_extra_elems_def)
    then show ?thesis unfolding htab_map_mem_usage_def htab_usage_spec_def Let_def active_count[OF assms(2,3)] v V_def[symmetric]
      using True by (cases "htab_is_prealloc h") (simp_all add: add_ac)
  next
    case False
    then show ?thesis unfolding htab_map_mem_usage_def htab_usage_spec_def Let_def active_count[OF assms(2,3)]
      by (cases "htab_is_prealloc h"; cases "htab_is_lru h"; cases "htab_has_extra_elems h")
        (simp_all add: num_possible_cpus_def)
  qed
  then show ?thesis by (simp only: unat_of_nat_u64[OF usage_spec_bound[OF assms(1,3)]])
qed

theorem htab_mem_usage_exact_witness:
  "unat (htab_map_mem_usage sample_htab) = htab_usage_spec sample_htab 0"
  by (rule htab_mem_usage_exact)
    (simp_all add: sample_htab_def htab_sizes_ok_def htab_counts_def)

end
