(* ===== verification/Arraymap.thy ===== *)
theory Arraymap
  imports Map_Attr
begin

text \<open>
  The guard, lookup, direct-value and iteration helpers of \<^verbatim>\<open>shims/kernel/bpf/arraymap.c\<close>.  A map
  is the record \<open>bpf_array\<close>, whose field \<open>array_value\<close> is the address of the flexible array
  member; a returned pointer is an address or \<open>None\<close> for \<^verbatim>\<open>NULL\<close>.  The properties: two indices below
  \<^verbatim>\<open>max_entries\<close> address disjoint elements inside the value area, the direct-value address and its
  inverse agree, and repeated \<^verbatim>\<open>get_next_key\<close> visits every index once.
\<close>

section \<open>State\<close>

record array_map =
  am_ops :: u64
  am_map_type :: bpf_map_type
  am_key_size :: u32
  am_value_size :: u32
  am_max_entries :: u32
  am_map_flags :: u32
  am_numa_node :: cint
  am_record :: u64

record bpf_array = array_map +
  am_elem_size :: u32
  index_mask :: u32
  array_value :: u64

definition ARRAY_CREATE_FLAG_MASK :: u32 where
  "ARRAY_CREATE_FLAG_MASK = BPF_F_NUMA_NODE OR BPF_F_MMAPABLE OR BPF_F_ACCESS_MASK OR
     BPF_F_PRESERVE_ELEMS OR BPF_F_INNER_MAP"

abbreviation INT_MAX :: u32 where "INT_MAX \<equiv> 2147483647"
abbreviation U32_MAX :: u32 where "U32_MAX \<equiv> NOT 0"

section \<open>Operations\<close>

definition btf_record_equal :: "u64 \<Rightarrow> u64 \<Rightarrow> bool" where
  "btf_record_equal a b = (a = b)"

definition bpf_map_meta_equal :: "('a array_map_scheme) \<Rightarrow> ('a array_map_scheme) \<Rightarrow> bool" where
  "bpf_map_meta_equal meta0 meta1 =
     (am_map_type meta0 = am_map_type meta1 \<and> am_key_size meta0 = am_key_size meta1 \<and>
      am_value_size meta0 = am_value_size meta1 \<and> am_map_flags meta0 = am_map_flags meta1 \<and>
      btf_record_equal (am_record meta0) (am_record meta1))"

definition array_map_alloc_check :: "('a bpf_attr_scheme) \<Rightarrow> cint" where
  "array_map_alloc_check attr =
     (let percpu = (attr_map_type attr = BPF_MAP_TYPE_PERCPU_ARRAY);
          node = bpf_map_attr_numa_node attr
      in if attr_max_entries attr = 0 \<or> attr_key_size attr \<noteq> 4 \<or> attr_value_size attr = 0 \<or>
            c_true (attr_map_flags attr AND NOT ARRAY_CREATE_FLAG_MASK) \<or>
            \<not> bpf_map_flags_access_ok (attr_map_flags attr) \<or> (percpu \<and> node \<noteq> NUMA_NO_NODE) then - EINVAL
         else if attr_map_type attr \<noteq> BPF_MAP_TYPE_ARRAY \<and>
                 c_true (attr_map_flags attr AND (BPF_F_MMAPABLE OR BPF_F_INNER_MAP)) then - EINVAL
         else if attr_map_type attr \<noteq> BPF_MAP_TYPE_PERF_EVENT_ARRAY \<and>
                 c_true (attr_map_flags attr AND BPF_F_PRESERVE_ELEMS) then - EINVAL
         else if attr_value_size attr > INT_MAX then - E2BIG
         else if percpu \<and> round_up (attr_value_size attr) 8 > PCPU_MIN_UNIT_SIZE then - E2BIG
         else 0)"

definition array_map_elem_ptr :: "bpf_array \<Rightarrow> u32 \<Rightarrow> u64" where
  "array_map_elem_ptr array index = array_value array + ucast (am_elem_size array) * ucast index"

definition array_map_lookup_elem :: "bpf_array \<Rightarrow> u32 \<Rightarrow> u64 option" where
  "array_map_lookup_elem array index =
     (if index \<ge> am_max_entries array then None
      else Some (array_value array + ucast (am_elem_size array) * ucast (index AND index_mask array)))"

text \<open>The out-parameters \<^verbatim>\<open>*imm\<close>, \<^verbatim>\<open>*off\<close> and \<^verbatim>\<open>*next\<close> are passed in and returned.\<close>

definition array_map_direct_value_addr :: "bpf_array \<Rightarrow> u64 \<Rightarrow> u32 \<Rightarrow> cint \<times> u64" where
  "array_map_direct_value_addr array imm off =
     (if am_max_entries array \<noteq> 1 then (- ENOTSUPP, imm)
      else if off \<ge> am_value_size array then (- EINVAL, imm)
      else (0, array_value array))"

definition array_map_direct_value_meta :: "bpf_array \<Rightarrow> u64 \<Rightarrow> u32 \<Rightarrow> cint \<times> u32" where
  "array_map_direct_value_meta array imm off =
     (let base = array_value array; range = ucast (am_elem_size array)
      in if am_max_entries array \<noteq> 1 then (- ENOTSUPP, off)
         else if imm < base \<or> imm \<ge> base + range then (- ENOENT, off)
         else (0, ucast (imm - base)))"

definition bpf_array_get_next_key :: "('a array_map_scheme) \<Rightarrow> u32 option \<Rightarrow> u32 \<Rightarrow> cint \<times> u32" where
  "bpf_array_get_next_key mp key nxt =
     (let index = (case key of Some k \<Rightarrow> k | None \<Rightarrow> U32_MAX)
      in if index \<ge> am_max_entries mp then (0, 0)
         else if index = am_max_entries mp - 1 then (- ENOENT, nxt)
         else (0, index + 1))"

definition array_map_meta_equal :: "('a array_map_scheme) \<Rightarrow> ('a array_map_scheme) \<Rightarrow> bool" where
  "array_map_meta_equal meta0 meta1 =
     (if \<not> bpf_map_meta_equal meta0 meta1 then False
      else if c_true (am_map_flags meta0 AND BPF_F_INNER_MAP) then True
      else am_max_entries meta0 = am_max_entries meta1)"

section \<open>Iteration\<close>

text \<open>The caller's loop: ask for the next key until \<^verbatim>\<open>-ENOENT\<close>.\<close>

partial_function (option) iterate_keys :: "bpf_array \<Rightarrow> u32 option \<Rightarrow> u32 list option" where
  "iterate_keys mp key =
     (let r = bpf_array_get_next_key mp key 0
      in if fst r = 0 then Option.bind (iterate_keys mp (Some (snd r))) (\<lambda>ks. Some (snd r # ks))
         else Some [])"

declare iterate_keys.simps [code]

lemma iterate_from:
  "unat (am_max_entries mp) = Suc k + d \<Longrightarrow>
   iterate_keys mp (Some (of_nat k)) = Some (map of_nat [Suc k..<unat (am_max_entries mp)])"
proof (induction d arbitrary: k)
  case (0 k)
  have "unat (of_nat k :: u32) = k" using 0 unat_u32_less[of "am_max_entries mp"] by (intro unat_of_nat_u32) simp
  then have "\<not> am_max_entries mp \<le> of_nat k" using 0 by (simp add: word_le_nat_alt)
  moreover have "am_max_entries mp = of_nat (unat (am_max_entries mp))" by simp
  then have "am_max_entries mp - 1 = of_nat k" using 0 by simp
  ultimately show ?case using 0 by (subst iterate_keys.simps) (simp add: bpf_array_get_next_key_def)
next
  case (Suc d k)
  have lt: "Suc k < 2 ^ 32" using Suc.prems unat_u32_less[of "am_max_entries mp"] by simp
  then have k: "unat (of_nat k :: u32) = k" by (intro unat_of_nat_u32) simp
  then have nle: "\<not> am_max_entries mp \<le> of_nat k" using Suc.prems by (simp add: word_le_nat_alt)
  have ne: "of_nat k \<noteq> am_max_entries mp - 1"
  proof
    assume "of_nat k = am_max_entries mp - 1"
    then have "of_nat (Suc k) = am_max_entries mp" by simp
    then show False using Suc.prems unat_of_nat_u32[OF lt] by simp
  qed
  have "iterate_keys mp (Some (of_nat k + 1)) = Some (map of_nat [Suc (Suc k)..<unat (am_max_entries mp)])"
    using Suc.IH[of "Suc k"] Suc.prems by (simp add: add.commute)
  then have "iterate_keys mp (Some (of_nat k)) = Some ((of_nat k + 1) # map of_nat [Suc (Suc k)..<unat (am_max_entries mp)])"
    using nle ne by (subst iterate_keys.simps) (simp add: bpf_array_get_next_key_def Let_def)
  moreover have "[Suc k..<unat (am_max_entries mp)] = Suc k # [Suc (Suc k)..<unat (am_max_entries mp)]"
    using Suc.prems by (intro upt_conv_Cons) simp
  ultimately show ?case by (simp add: add.commute)
qed

lemma iterate_all:
  assumes "0 < unat (am_max_entries mp)" "bpf_array_get_next_key mp key 0 = (0, 0)"
  shows "iterate_keys mp key = Some (map of_nat [0..<unat (am_max_entries mp)])"
proof -
  obtain d where d: "unat (am_max_entries mp) = Suc 0 + d" using assms(1) by (metis Suc_eq_plus1_left Suc_pred' One_nat_def)
  then show ?thesis using iterate_from[OF d] upt_conv_Cons[OF assms(1)] assms(2)
    by (subst iterate_keys.simps) simp
qed

lemma max_entries_le: "(x :: u32) \<le> NOT 0"
  using word_order.extremum[of x] by simp

lemma ucast_down_up: "ucast (ucast (x :: u32) :: u64) = x"
  by transfer simp

text \<open>C14: Iterating an array map from \<^verbatim>\<open>NULL\<close> with \<^verbatim>\<open>get_next_key\<close> terminates and yields every index
  from \<open>0\<close> to \<^verbatim>\<open>max_entries - 1\<close> exactly once, in order; so does iterating from any key past the end.\<close>

theorem array_iteration_complete:
  assumes "0 < unat (am_max_entries mp)"
  shows "iterate_keys mp None = Some (map of_nat [0..<unat (am_max_entries mp)]) \<and>
    distinct (map (of_nat :: nat \<Rightarrow> u32) [0..<unat (am_max_entries mp)]) \<and>
    (am_max_entries mp \<le> k \<longrightarrow> iterate_keys mp (Some k) = iterate_keys mp None)"
proof -
  have all: "iterate_keys mp None = Some (map of_nat [0..<unat (am_max_entries mp)])"
    using max_entries_le by (intro iterate_all[OF assms]) (simp add: bpf_array_get_next_key_def)
  have "inj_on (of_nat :: nat \<Rightarrow> u32) {0..<unat (am_max_entries mp)}"
    using unat_u32_less[of "am_max_entries mp"]
    by (intro inj_on_inverseI[of _ unat]) (simp add: unat_of_nat_u32[simplified])
  then have "distinct (map (of_nat :: nat \<Rightarrow> u32) [0..<unat (am_max_entries mp)])" by (simp add: distinct_map)
  moreover have "iterate_keys mp (Some k) = iterate_keys mp None" if "am_max_entries mp \<le> k"
    unfolding all using that by (intro iterate_all[OF assms]) (simp add: bpf_array_get_next_key_def)
  ultimately show ?thesis using all by simp
qed

definition sample_array :: bpf_array where
  "sample_array = \<lparr> am_ops = 0, am_map_type = BPF_MAP_TYPE_ARRAY, am_key_size = 4, am_value_size = 12,
     am_max_entries = 3, am_map_flags = 0, am_numa_node = - 1, am_record = 0, am_elem_size = 16,
     index_mask = 3, array_value = 4096 \<rparr>"

theorem array_iteration_complete_witness:
  "iterate_keys sample_array None = Some (map of_nat [0..<unat (am_max_entries sample_array)])"
  by (rule array_iteration_complete[THEN conjunct1]) (simp add: sample_array_def)

section \<open>Elements\<close>

text \<open>A value area that does not wrap, whose elements are the values rounded up, with a mask that
  keeps every valid index.\<close>

definition array_layout :: "bpf_array \<Rightarrow> bool" where
  "array_layout a \<longleftrightarrow>
     unat (am_value_size a) \<le> unat (am_elem_size a) \<and>
     unat (array_value a) + unat (am_max_entries a) * unat (am_elem_size a) < 2 ^ 64 \<and>
     (\<exists>n. index_mask a = mask n \<and> unat (am_max_entries a) \<le> 2 ^ n)"

lemma mask_keeps_index:
  assumes "array_layout a" "i < am_max_entries a" shows "i AND index_mask a = i"
proof -
  obtain n where n: "index_mask a = mask n" "unat (am_max_entries a) \<le> 2 ^ n" using assms(1) by (auto simp: array_layout_def)
  have "unat (i AND mask n) = unat i mod 2 ^ n" by (rule unat_and_mask)
  also have "\<dots> = unat i" using n(2) assms(2) by (simp add: word_less_nat_alt)
  finally show ?thesis unfolding n(1) by (rule unsigned_word_eqI)
qed

lemma elem_ptr_addr:
  assumes "array_layout a" "i < am_max_entries a"
  shows "unat (array_map_elem_ptr a i) = unat (array_value a) + unat (am_elem_size a) * unat i"
    and "unat (array_map_elem_ptr a i) + unat (am_elem_size a)
         \<le> unat (array_value a) + unat (am_max_entries a) * unat (am_elem_size a)"
proof -
  have "Suc (unat i) * unat (am_elem_size a) \<le> unat (am_max_entries a) * unat (am_elem_size a)"
    using assms(2) by (intro mult_le_mono1) (simp add: word_less_nat_alt)
  then have b: "unat (am_elem_size a) * unat i + unat (am_elem_size a) \<le> unat (am_max_entries a) * unat (am_elem_size a)"
    by (simp add: mult.commute)
  then have "unat (array_value a) + unat (am_elem_size a) * unat i < 2 ^ 64" using assms(1) by (simp add: array_layout_def)
  moreover have "array_map_elem_ptr a i = of_nat (unat (array_value a) + unat (am_elem_size a) * unat i)"
    by (simp add: array_map_elem_ptr_def)
  ultimately show e: "unat (array_map_elem_ptr a i) = unat (array_value a) + unat (am_elem_size a) * unat i"
    by (simp only: unat_of_nat_u64)
  show "unat (array_map_elem_ptr a i) + unat (am_elem_size a)
         \<le> unat (array_value a) + unat (am_max_entries a) * unat (am_elem_size a)" unfolding e using b by simp
qed

text \<open>C15: \<^verbatim>\<open>array_map_lookup_elem\<close> returns \<^verbatim>\<open>NULL\<close> exactly past \<^verbatim>\<open>max_entries\<close>; below it, the pointer is
  \<^verbatim>\<open>array_map_elem_ptr\<close>, the whole element lies inside the value area, and a smaller index
  addresses an element that ends before it starts.\<close>

theorem array_lookup_safe:
  assumes "array_layout a"
  shows "(array_map_lookup_elem a i = None \<longleftrightarrow> am_max_entries a \<le> i) \<and>
    (i < am_max_entries a \<longrightarrow> array_map_lookup_elem a i = Some (array_map_elem_ptr a i) \<and>
       unat (array_value a) \<le> unat (array_map_elem_ptr a i) \<and>
       unat (array_map_elem_ptr a i) + unat (am_value_size a)
         \<le> unat (array_value a) + unat (am_max_entries a) * unat (am_elem_size a) \<and>
       (\<forall>j < i. unat (array_map_elem_ptr a j) + unat (am_elem_size a) \<le> unat (array_map_elem_ptr a i)))"
proof -
  have "unat (array_map_elem_ptr a j) + unat (am_elem_size a) \<le> unat (array_map_elem_ptr a i)"
    if "i < am_max_entries a" "j < i" for j
  proof -
    have "Suc (unat j) * unat (am_elem_size a) \<le> unat i * unat (am_elem_size a)"
      using that(2) by (intro mult_le_mono1) (simp add: word_less_nat_alt)
    then show ?thesis using elem_ptr_addr(1)[OF assms] that by (simp add: mult.commute)
  qed
  moreover have "i < am_max_entries a \<Longrightarrow> array_map_lookup_elem a i = Some (array_map_elem_ptr a i)"
    by (simp add: array_map_lookup_elem_def array_map_elem_ptr_def mask_keeps_index[OF assms])
  moreover have "unat (am_value_size a) \<le> unat (am_elem_size a)" using assms by (simp add: array_layout_def)
  ultimately show ?thesis using elem_ptr_addr[OF assms, of i]
    by (auto simp: array_map_lookup_elem_def)
qed

lemma sample_array_layout: "array_layout sample_array"
  unfolding array_layout_def
  by (intro conjI exI[of _ 2]) (simp_all add: sample_array_def mask_eq_exp_minus_1)

theorem array_lookup_safe_witness:
  "array_map_lookup_elem sample_array 2 = Some (array_map_elem_ptr sample_array 2)"
  using array_lookup_safe[OF sample_array_layout, of 2] by (simp add: sample_array_def)

text \<open>For a single-entry array the direct-value address and its inverse agree: an offset inside
  the value is accepted, gives the base address, and the address at that offset maps back to the
  offset; an address outside the element is refused with \<^verbatim>\<open>-ENOENT\<close>; an array with another
  number of entries is refused by both with \<^verbatim>\<open>-ENOTSUPP\<close>.\<close>

theorem array_direct_value_roundtrip:
  assumes "array_layout a"
  shows "(am_max_entries a = 1 \<longrightarrow> off < am_value_size a \<longrightarrow>
      array_map_direct_value_addr a imm off = (0, array_value a) \<and>
      array_map_direct_value_meta a (array_value a + ucast off) off' = (0, off)) \<and>
    (am_max_entries a = 1 \<longrightarrow>
      unat imm < unat (array_value a) \<or> unat (array_value a) + unat (am_elem_size a) \<le> unat imm \<longrightarrow>
      array_map_direct_value_meta a imm off' = (- ENOENT, off')) \<and>
    (am_max_entries a = 1 \<longrightarrow> off \<ge> am_value_size a \<longrightarrow> array_map_direct_value_addr a imm off = (- EINVAL, imm)) \<and>
    (am_max_entries a \<noteq> 1 \<longrightarrow> array_map_direct_value_addr a imm off = (- ENOTSUPP, imm) \<and>
      array_map_direct_value_meta a imm off' = (- ENOTSUPP, off'))"
proof -
  let ?b = "array_value a" and ?e = "am_elem_size a"
  { assume one: "am_max_entries a = 1"
    then have fit: "unat ?b + unat ?e < 2 ^ 64" using assms by (simp add: array_layout_def)
    have end_of: "unat (?b + ucast ?e) = unat ?b + unat ?e"
    proof -
      have "?b + ucast ?e = of_nat (unat ?b + unat ?e)" by simp
      then show ?thesis using unat_of_nat_u64[OF fit] by (simp only:)
    qed
    have "array_map_direct_value_meta a (?b + ucast off) off' = (0, off)" if "off < am_value_size a"
    proof -
      have lt: "unat off < unat ?e" using that assms by (simp add: array_layout_def word_less_nat_alt)
      have "?b + ucast off = of_nat (unat ?b + unat off)" by simp
      moreover have "unat ?b + unat off < 2 ^ 64" using fit lt by simp
      ultimately have "unat (?b + ucast off) = unat ?b + unat off" by (simp only: unat_of_nat_u64)
      then have "\<not> (?b + ucast off < ?b \<or> ?b + ucast off \<ge> ?b + ucast ?e)"
        using lt by (simp add: word_less_nat_alt word_le_nat_alt end_of)
      then show ?thesis using one by (simp add: array_map_direct_value_meta_def ucast_down_up)
    qed
    moreover have "array_map_direct_value_meta a imm off' = (- ENOENT, off')"
      if "unat imm < unat ?b \<or> unat ?b + unat ?e \<le> unat imm"
      using that one by (simp add: array_map_direct_value_meta_def word_less_nat_alt word_le_nat_alt end_of)
    moreover note one calculation }
  then show ?thesis by (auto simp: array_map_direct_value_addr_def array_map_direct_value_meta_def)
qed

theorem array_direct_value_roundtrip_witness:
  "array_map_direct_value_meta (sample_array\<lparr>am_max_entries := 1\<rparr>) (4096 + ucast (7 :: u32)) 0 = (0, 7)"
proof -
  have "array_layout (sample_array\<lparr>am_max_entries := 1\<rparr>)"
    unfolding array_layout_def by (intro conjI exI[of _ 2]) (simp_all add: sample_array_def mask_eq_exp_minus_1)
  from array_direct_value_roundtrip[OF this, of 7 0 0] show ?thesis by (simp add: sample_array_def)
qed

end
