(* ===== verification/Syscall_Types.thy ===== *)
theory Syscall_Types
  imports Map_Attr
begin

text \<open>
  The enumerations and constants of \<^verbatim>\<open>shims/kernel/bpf/syscall.c\<close>: program, attach and link types,
  each with one constructor for the integers no enumerator names, and the flag values.
\<close>

section \<open>Enumerations\<close>

datatype (plugins del: quickcheck_random quickcheck_exhaustive quickcheck_full_exhaustive quickcheck_narrowing)
  bpf_prog_type =
      BPF_PROG_TYPE_UNSPEC | BPF_PROG_TYPE_SOCKET_FILTER | BPF_PROG_TYPE_KPROBE
  | BPF_PROG_TYPE_SCHED_CLS | BPF_PROG_TYPE_SCHED_ACT | BPF_PROG_TYPE_TRACEPOINT
  | BPF_PROG_TYPE_XDP | BPF_PROG_TYPE_PERF_EVENT | BPF_PROG_TYPE_CGROUP_SKB
  | BPF_PROG_TYPE_CGROUP_SOCK | BPF_PROG_TYPE_LWT_IN | BPF_PROG_TYPE_LWT_OUT
  | BPF_PROG_TYPE_LWT_XMIT | BPF_PROG_TYPE_SOCK_OPS | BPF_PROG_TYPE_SK_SKB
  | BPF_PROG_TYPE_CGROUP_DEVICE | BPF_PROG_TYPE_SK_MSG | BPF_PROG_TYPE_RAW_TRACEPOINT
  | BPF_PROG_TYPE_CGROUP_SOCK_ADDR | BPF_PROG_TYPE_LWT_SEG6LOCAL | BPF_PROG_TYPE_LIRC_MODE2
  | BPF_PROG_TYPE_SK_REUSEPORT | BPF_PROG_TYPE_FLOW_DISSECTOR | BPF_PROG_TYPE_CGROUP_SYSCTL
  | BPF_PROG_TYPE_RAW_TRACEPOINT_WRITABLE | BPF_PROG_TYPE_CGROUP_SOCKOPT
  | BPF_PROG_TYPE_TRACING | BPF_PROG_TYPE_STRUCT_OPS | BPF_PROG_TYPE_EXT | BPF_PROG_TYPE_LSM
  | BPF_PROG_TYPE_SK_LOOKUP | BPF_PROG_TYPE_SYSCALL | BPF_PROG_TYPE_NETFILTER
  | PROG_TYPE_OTHER u32

datatype (plugins del: quickcheck_random quickcheck_exhaustive quickcheck_full_exhaustive quickcheck_narrowing)
  bpf_attach_type =
      BPF_CGROUP_INET_INGRESS | BPF_CGROUP_INET_EGRESS | BPF_CGROUP_INET_SOCK_CREATE
  | BPF_CGROUP_SOCK_OPS | BPF_SK_SKB_STREAM_PARSER | BPF_SK_SKB_STREAM_VERDICT
  | BPF_CGROUP_DEVICE | BPF_SK_MSG_VERDICT | BPF_CGROUP_INET4_BIND | BPF_CGROUP_INET6_BIND
  | BPF_CGROUP_INET4_CONNECT | BPF_CGROUP_INET6_CONNECT | BPF_CGROUP_INET4_POST_BIND
  | BPF_CGROUP_INET6_POST_BIND | BPF_CGROUP_UDP4_SENDMSG | BPF_CGROUP_UDP6_SENDMSG
  | BPF_LIRC_MODE2 | BPF_FLOW_DISSECTOR | BPF_CGROUP_SYSCTL | BPF_CGROUP_UDP4_RECVMSG
  | BPF_CGROUP_UDP6_RECVMSG | BPF_CGROUP_GETSOCKOPT | BPF_CGROUP_SETSOCKOPT | BPF_TRACE_RAW_TP
  | BPF_TRACE_FENTRY | BPF_TRACE_FEXIT | BPF_MODIFY_RETURN | BPF_LSM_MAC | BPF_TRACE_ITER
  | BPF_CGROUP_INET4_GETPEERNAME | BPF_CGROUP_INET6_GETPEERNAME | BPF_CGROUP_INET4_GETSOCKNAME
  | BPF_CGROUP_INET6_GETSOCKNAME | BPF_XDP_DEVMAP | BPF_CGROUP_INET_SOCK_RELEASE
  | BPF_XDP_CPUMAP | BPF_SK_LOOKUP | BPF_XDP | BPF_SK_SKB_VERDICT | BPF_SK_REUSEPORT_SELECT
  | BPF_SK_REUSEPORT_SELECT_OR_MIGRATE | BPF_PERF_EVENT | BPF_TRACE_KPROBE_MULTI
  | BPF_LSM_CGROUP | BPF_STRUCT_OPS | BPF_NETFILTER | BPF_TCX_INGRESS | BPF_TCX_EGRESS
  | BPF_TRACE_UPROBE_MULTI | BPF_CGROUP_UNIX_CONNECT | BPF_CGROUP_UNIX_SENDMSG
  | BPF_CGROUP_UNIX_RECVMSG | BPF_CGROUP_UNIX_GETPEERNAME | BPF_CGROUP_UNIX_GETSOCKNAME
  | BPF_NETKIT_PRIMARY | BPF_NETKIT_PEER | BPF_TRACE_KPROBE_SESSION | BPF_TRACE_UPROBE_SESSION
  | BPF_TRACE_FSESSION | BPF_TRACE_FENTRY_MULTI | BPF_TRACE_FEXIT_MULTI
  | BPF_TRACE_FSESSION_MULTI | ATTACH_TYPE_OTHER u32

datatype (plugins del: quickcheck_random quickcheck_exhaustive quickcheck_full_exhaustive quickcheck_narrowing)
  bpf_link_type =
      BPF_LINK_TYPE_UNSPEC | BPF_LINK_TYPE_RAW_TRACEPOINT | BPF_LINK_TYPE_TRACING
  | BPF_LINK_TYPE_CGROUP | BPF_LINK_TYPE_ITER | BPF_LINK_TYPE_NETNS | BPF_LINK_TYPE_XDP
  | BPF_LINK_TYPE_PERF_EVENT | BPF_LINK_TYPE_KPROBE_MULTI | BPF_LINK_TYPE_STRUCT_OPS
  | BPF_LINK_TYPE_NETFILTER | BPF_LINK_TYPE_TCX | BPF_LINK_TYPE_UPROBE_MULTI
  | BPF_LINK_TYPE_NETKIT | BPF_LINK_TYPE_SOCKMAP | BPF_LINK_TYPE_TRACING_MULTI
  | LINK_TYPE_OTHER u32

datatype syscall_map_cap =
  SYSCALL_MAP_CAP_UNPRIV | SYSCALL_MAP_CAP_BPF | SYSCALL_MAP_CAP_NET_ADMIN | SYSCALL_MAP_CAP_UNSUPPORTED

abbreviation SYSCALL_TEST_NR_CPUS :: u32 where "SYSCALL_TEST_NR_CPUS \<equiv> 4"
abbreviation BTF_MAX_TYPE :: u32 where "BTF_MAX_TYPE \<equiv> 0xfffff"
abbreviation BPF_F_LOCK :: u64 where "BPF_F_LOCK \<equiv> 4"
abbreviation BPF_F_CPU :: u64 where "BPF_F_CPU \<equiv> 8"
abbreviation BPF_F_ALL_CPUS :: u64 where "BPF_F_ALL_CPUS \<equiv> 16"
abbreviation O_RDONLY :: cint where "O_RDONLY \<equiv> 0"
abbreviation O_WRONLY :: cint where "O_WRONLY \<equiv> 1"
abbreviation O_RDWR :: cint where "O_RDWR \<equiv> 2"
abbreviation CAP_NET_ADMIN :: int where "CAP_NET_ADMIN \<equiv> 12"
abbreviation CAP_SYS_ADMIN :: int where "CAP_SYS_ADMIN \<equiv> 21"
abbreviation BPF_SPIN_LOCK :: u32 where "BPF_SPIN_LOCK \<equiv> BIT 0"

end
