(* ===== verification/Syscall.thy ===== *)
theory Syscall
  imports Syscall_Types
begin

text \<open>
  The map, program and link guards of \<^verbatim>\<open>shims/kernel/bpf/syscall.c\<close>.  The enumerations are
  datatypes with the source's enumerators and one constructor for every other integer (see
  \<^verbatim>\<open>Map_Attr\<close>); the enumerator 0 is the first constructor, so \<^verbatim>\<open>!expected_attach_type\<close> is a
  comparison with \<^verbatim>\<open>BPF_CGROUP_INET_INGRESS\<close>.  Pointers that are only tested for \<^verbatim>\<open>NULL\<close> or
  copied are options or addresses.  A switch is a chain of membership tests, one per group of
  labels.  Characters are bytes: every test of \<^verbatim>\<open>syscall_isalnum\<close> is false for bytes from 128 on,
  signed or not.
\<close>

section \<open>Objects\<close>

record sys_attr = bpf_attr +
  attr_map_extra :: u64
  attr_prog_type :: bpf_prog_type
  attr_expected_attach_type :: bpf_attach_type

record bpf_token =
  cap_net_admin :: u32
  cap_sys_admin :: u32

record bpf_prog =
  prog_type :: bpf_prog_type
  expected_attach_type :: bpf_attach_type
  enforce_expected_attach_type :: bool
  prog_token :: "bpf_token option"

text \<open>The record pointer of a map is \<open>None\<close> or the field mask it points to.\<close>

record sys_map =
  sm_map_type :: bpf_map_type
  sm_key_size :: u32
  sm_value_size :: u32
  sm_max_entries :: u32
  sm_map_flags :: u32
  sm_numa_node :: cint
  sm_map_extra :: u64
  sm_record :: "u32 option"

record bpf_link =
  refcnt :: int
  link_type :: bpf_link_type
  sleepable :: bool
  link_id :: u32
  link_ops :: u64
  link_prog :: u64
  link_attach_type :: bpf_attach_type

record bpf_tramp_link =
  tramp_link :: bpf_link
  node_link :: u64
  node_cookie :: u64

section \<open>Maps\<close>

definition IS_FD_ARRAY :: "sys_map \<Rightarrow> bool" where
  "IS_FD_ARRAY mp = (sm_map_type mp = BPF_MAP_TYPE_PERF_EVENT_ARRAY \<or>
     sm_map_type mp = BPF_MAP_TYPE_CGROUP_ARRAY \<or> sm_map_type mp = BPF_MAP_TYPE_ARRAY_OF_MAPS)"

definition IS_FD_PROG_ARRAY :: "sys_map \<Rightarrow> bool" where
  "IS_FD_PROG_ARRAY mp = (sm_map_type mp = BPF_MAP_TYPE_PROG_ARRAY)"

definition IS_FD_HASH :: "sys_map \<Rightarrow> bool" where
  "IS_FD_HASH mp = (sm_map_type mp = BPF_MAP_TYPE_HASH_OF_MAPS)"

definition IS_FD_MAP :: "sys_map \<Rightarrow> bool" where
  "IS_FD_MAP mp = (IS_FD_ARRAY mp \<or> IS_FD_PROG_ARRAY mp \<or> IS_FD_HASH mp)"

definition num_possible_cpus :: u32 where
  "num_possible_cpus = SYSCALL_TEST_NR_CPUS"

definition btf_record_has_field :: "u32 option \<Rightarrow> u32 \<Rightarrow> bool" where
  "btf_record_has_field rec field = (case rec of None \<Rightarrow> False | Some fs \<Rightarrow> c_true (fs AND field))"

definition syscall_isalnum :: "u8 \<Rightarrow> bool" where
  "syscall_isalnum c \<longleftrightarrow> (48 \<le> c \<and> c \<le> 57) \<or> (65 \<le> c \<and> c \<le> 90) \<or> (97 \<le> c \<and> c \<le> 122)"

text \<open>The copying loop: \<open>i\<close> is \<^verbatim>\<open>src - orig_src\<close>; the result is the return value and the destination.
  \<^verbatim>\<open>'_'\<close> is 95 and \<^verbatim>\<open>'.'\<close> is 46.\<close>

function name_copy :: "u8 list \<Rightarrow> u8 list \<Rightarrow> nat \<Rightarrow> nat \<Rightarrow> cint \<times> u8 list" where
  "name_copy src dst sz i =
     (if i < sz \<and> src ! i \<noteq> 0
      then if \<not> syscall_isalnum (src ! i) \<and> src ! i \<noteq> 95 \<and> src ! i \<noteq> 46 then (- EINVAL, dst)
           else name_copy src (dst[i := src ! i]) sz (i + 1)
      else if i = sz then (- EINVAL, dst) else (int i, dst))"
  by auto

termination by (relation "measure (\<lambda>(src, dst, sz, i). sz - i)") auto

declare name_copy.simps [simp del]

definition bpf_obj_name_cpy :: "u8 list \<Rightarrow> u8 list \<Rightarrow> nat \<Rightarrow> cint \<times> u8 list" where
  "bpf_obj_name_cpy dst src sz =
     (let dst = fold (\<lambda>i d. d[i := 0]) [0..<sz] dst in name_copy src dst sz 0)"

definition bpf_map_value_size :: "sys_map \<Rightarrow> u64 \<Rightarrow> u32" where
  "bpf_map_value_size mp mflags =
     (if c_true (mflags AND (BPF_F_CPU OR BPF_F_ALL_CPUS)) then sm_value_size mp
      else if sm_map_type mp = BPF_MAP_TYPE_PERCPU_HASH \<or> sm_map_type mp = BPF_MAP_TYPE_LRU_PERCPU_HASH \<or>
              sm_map_type mp = BPF_MAP_TYPE_PERCPU_ARRAY \<or> sm_map_type mp = BPF_MAP_TYPE_PERCPU_CGROUP_STORAGE
      then round_up (sm_value_size mp) 8 * num_possible_cpus
      else if IS_FD_MAP mp then 4
      else sm_value_size mp)"

definition bpf_get_file_flag :: "u32 \<Rightarrow> cint" where
  "bpf_get_file_flag mflags =
     (if c_true (mflags AND BPF_F_RDONLY) \<and> c_true (mflags AND BPF_F_WRONLY) then - EINVAL
      else if c_true (mflags AND BPF_F_RDONLY) then O_RDONLY
      else if c_true (mflags AND BPF_F_WRONLY) then O_WRONLY
      else O_RDWR)"

definition bpf_map_flags_retain_permanent :: "u32 \<Rightarrow> u32" where
  "bpf_map_flags_retain_permanent mflags = mflags AND NOT (BPF_F_RDONLY OR BPF_F_WRONLY)"

definition bpf_map_init_from_attr :: "sys_map \<Rightarrow> sys_attr \<Rightarrow> sys_map" where
  "bpf_map_init_from_attr mp attr =
     mp\<lparr> sm_map_type := attr_map_type attr,
         sm_key_size := attr_key_size attr,
         sm_value_size := attr_value_size attr,
         sm_max_entries := attr_max_entries attr,
         sm_map_flags := bpf_map_flags_retain_permanent (attr_map_flags attr),
         sm_numa_node := bpf_map_attr_numa_node attr,
         sm_map_extra := attr_map_extra attr \<rparr>"

definition bpf_map_supports_cpu_flags :: "bpf_map_type \<Rightarrow> bool" where
  "bpf_map_supports_cpu_flags t =
     (t \<in> {BPF_MAP_TYPE_PERCPU_ARRAY, BPF_MAP_TYPE_PERCPU_HASH, BPF_MAP_TYPE_LRU_PERCPU_HASH,
           BPF_MAP_TYPE_PERCPU_CGROUP_STORAGE})"

definition bpf_map_check_op_flags :: "sys_map \<Rightarrow> u64 \<Rightarrow> u64 \<Rightarrow> cint" where
  "bpf_map_check_op_flags mp mflags allowed_flags =
     (if c_true ((ucast (ucast mflags :: u32) :: u64) AND NOT allowed_flags) then - EINVAL
      else if c_true (mflags AND BPF_F_LOCK) \<and> \<not> btf_record_has_field (sm_record mp) BPF_SPIN_LOCK then - EINVAL
      else if \<not> c_true (mflags AND BPF_F_CPU) \<and> c_true (drop_bit 32 mflags) then - EINVAL
      else if c_true (mflags AND (BPF_F_CPU OR BPF_F_ALL_CPUS)) then
        (if \<not> bpf_map_supports_cpu_flags (sm_map_type mp) then - EINVAL
         else if c_true (mflags AND BPF_F_CPU) \<and> c_true (mflags AND BPF_F_ALL_CPUS) then - EINVAL
         else let cpu = (ucast (drop_bit 32 mflags) :: u32)
              in if c_true (mflags AND BPF_F_CPU) \<and> cpu \<ge> num_possible_cpus then - ERANGE else 0)
      else 0)"

section \<open>Programs\<close>

definition bpf_token_capable :: "bpf_token option \<Rightarrow> int \<Rightarrow> bool" where
  "bpf_token_capable token cap =
     (if (case token of None \<Rightarrow> False | Some t \<Rightarrow> c_true (cap_sys_admin t)) then True
      else if cap = CAP_NET_ADMIN then (case token of None \<Rightarrow> False | Some t \<Rightarrow> c_true (cap_net_admin t))
      else False)"

definition bpf_prog_load_fixup_attach_type :: "sys_attr \<Rightarrow> sys_attr" where
  "bpf_prog_load_fixup_attach_type attr =
     (if attr_prog_type attr = BPF_PROG_TYPE_CGROUP_SOCK
      then if attr_expected_attach_type attr = BPF_CGROUP_INET_INGRESS
           then attr\<lparr>attr_expected_attach_type := BPF_CGROUP_INET_SOCK_CREATE\<rparr> else attr
      else if attr_prog_type attr = BPF_PROG_TYPE_SK_REUSEPORT
      then if attr_expected_attach_type attr = BPF_CGROUP_INET_INGRESS
           then attr\<lparr>attr_expected_attach_type := BPF_SK_REUSEPORT_SELECT\<rparr> else attr
      else attr)"

text \<open>The last switch of \<^verbatim>\<open>bpf_prog_load_check_attach\<close>.\<close>

definition load_check_expected :: "bpf_prog_type \<Rightarrow> bpf_attach_type \<Rightarrow> cint" where
  "load_check_expected ptype atype =
     (if ptype = BPF_PROG_TYPE_CGROUP_SOCK then
        if atype \<in> {BPF_CGROUP_INET_SOCK_CREATE, BPF_CGROUP_INET_SOCK_RELEASE,
                    BPF_CGROUP_INET4_POST_BIND, BPF_CGROUP_INET6_POST_BIND} then 0 else - EINVAL
      else if ptype = BPF_PROG_TYPE_CGROUP_SOCK_ADDR then
        if atype \<in> {BPF_CGROUP_INET4_BIND, BPF_CGROUP_INET6_BIND,
                    BPF_CGROUP_INET4_CONNECT, BPF_CGROUP_INET6_CONNECT, BPF_CGROUP_UNIX_CONNECT,
                    BPF_CGROUP_INET4_GETPEERNAME, BPF_CGROUP_INET6_GETPEERNAME, BPF_CGROUP_UNIX_GETPEERNAME,
                    BPF_CGROUP_INET4_GETSOCKNAME, BPF_CGROUP_INET6_GETSOCKNAME, BPF_CGROUP_UNIX_GETSOCKNAME,
                    BPF_CGROUP_UDP4_SENDMSG, BPF_CGROUP_UDP6_SENDMSG, BPF_CGROUP_UNIX_SENDMSG,
                    BPF_CGROUP_UDP4_RECVMSG, BPF_CGROUP_UDP6_RECVMSG, BPF_CGROUP_UNIX_RECVMSG} then 0 else - EINVAL
      else if ptype = BPF_PROG_TYPE_CGROUP_SKB then
        if atype \<in> {BPF_CGROUP_INET_INGRESS, BPF_CGROUP_INET_EGRESS} then 0 else - EINVAL
      else if ptype = BPF_PROG_TYPE_CGROUP_SOCKOPT then
        if atype \<in> {BPF_CGROUP_SETSOCKOPT, BPF_CGROUP_GETSOCKOPT} then 0 else - EINVAL
      else if ptype = BPF_PROG_TYPE_SK_LOOKUP then
        if atype = BPF_SK_LOOKUP then 0 else - EINVAL
      else if ptype = BPF_PROG_TYPE_SK_REUSEPORT then
        if atype \<in> {BPF_SK_REUSEPORT_SELECT, BPF_SK_REUSEPORT_SELECT_OR_MIGRATE} then 0 else - EINVAL
      else if ptype = BPF_PROG_TYPE_NETFILTER then
        if atype = BPF_NETFILTER then 0 else - EINVAL
      else if ptype \<in> {BPF_PROG_TYPE_SYSCALL, BPF_PROG_TYPE_EXT} then
        if atype \<noteq> BPF_CGROUP_INET_INGRESS then - EINVAL else 0
      else 0)"

definition bpf_prog_load_check_attach ::
    "bpf_prog_type \<Rightarrow> bpf_attach_type \<Rightarrow> bool \<Rightarrow> u32 \<Rightarrow> bool \<Rightarrow> bool \<Rightarrow> cint" where
  "bpf_prog_load_check_attach ptype atype attach_btf btf_id dst_prog multi_func =
     (if btf_id \<noteq> 0 \<and> btf_id > BTF_MAX_TYPE then - EINVAL
      else if btf_id \<noteq> 0 \<and> \<not> attach_btf \<and> \<not> dst_prog then - EINVAL
      else if btf_id \<noteq> 0 \<and> ptype \<notin> {BPF_PROG_TYPE_TRACING, BPF_PROG_TYPE_LSM, BPF_PROG_TYPE_STRUCT_OPS, BPF_PROG_TYPE_EXT}
      then - EINVAL
      else if multi_func then
        (if ptype \<noteq> BPF_PROG_TYPE_TRACING then - EINVAL
         else if \<not> attach_btf \<or> btf_id \<noteq> 0 then - EINVAL
         else 0)
      else if attach_btf \<and> (btf_id = 0 \<or> dst_prog) then - EINVAL
      else if dst_prog \<and> ptype \<noteq> BPF_PROG_TYPE_TRACING \<and> ptype \<noteq> BPF_PROG_TYPE_EXT then - EINVAL
      else load_check_expected ptype atype)"

definition attach_type_to_prog_type :: "bpf_attach_type \<Rightarrow> bpf_prog_type" where
  "attach_type_to_prog_type atype =
     (if atype \<in> {BPF_CGROUP_INET_INGRESS, BPF_CGROUP_INET_EGRESS} then BPF_PROG_TYPE_CGROUP_SKB
      else if atype \<in> {BPF_CGROUP_INET_SOCK_CREATE, BPF_CGROUP_INET_SOCK_RELEASE,
                       BPF_CGROUP_INET4_POST_BIND, BPF_CGROUP_INET6_POST_BIND} then BPF_PROG_TYPE_CGROUP_SOCK
      else if atype \<in> {BPF_CGROUP_INET4_BIND, BPF_CGROUP_INET6_BIND,
                       BPF_CGROUP_INET4_CONNECT, BPF_CGROUP_INET6_CONNECT, BPF_CGROUP_UNIX_CONNECT,
                       BPF_CGROUP_INET4_GETPEERNAME, BPF_CGROUP_INET6_GETPEERNAME, BPF_CGROUP_UNIX_GETPEERNAME,
                       BPF_CGROUP_INET4_GETSOCKNAME, BPF_CGROUP_INET6_GETSOCKNAME, BPF_CGROUP_UNIX_GETSOCKNAME,
                       BPF_CGROUP_UDP4_SENDMSG, BPF_CGROUP_UDP6_SENDMSG, BPF_CGROUP_UNIX_SENDMSG,
                       BPF_CGROUP_UDP4_RECVMSG, BPF_CGROUP_UDP6_RECVMSG, BPF_CGROUP_UNIX_RECVMSG}
           then BPF_PROG_TYPE_CGROUP_SOCK_ADDR
      else if atype = BPF_CGROUP_SOCK_OPS then BPF_PROG_TYPE_SOCK_OPS
      else if atype = BPF_CGROUP_DEVICE then BPF_PROG_TYPE_CGROUP_DEVICE
      else if atype = BPF_SK_MSG_VERDICT then BPF_PROG_TYPE_SK_MSG
      else if atype \<in> {BPF_SK_SKB_STREAM_PARSER, BPF_SK_SKB_STREAM_VERDICT, BPF_SK_SKB_VERDICT} then BPF_PROG_TYPE_SK_SKB
      else if atype = BPF_LIRC_MODE2 then BPF_PROG_TYPE_LIRC_MODE2
      else if atype = BPF_FLOW_DISSECTOR then BPF_PROG_TYPE_FLOW_DISSECTOR
      else if atype = BPF_CGROUP_SYSCTL then BPF_PROG_TYPE_CGROUP_SYSCTL
      else if atype \<in> {BPF_CGROUP_GETSOCKOPT, BPF_CGROUP_SETSOCKOPT} then BPF_PROG_TYPE_CGROUP_SOCKOPT
      else if atype \<in> {BPF_TRACE_ITER, BPF_TRACE_RAW_TP, BPF_TRACE_FENTRY, BPF_TRACE_FEXIT, BPF_TRACE_FSESSION,
                       BPF_TRACE_FSESSION_MULTI, BPF_TRACE_FENTRY_MULTI, BPF_TRACE_FEXIT_MULTI, BPF_MODIFY_RETURN}
           then BPF_PROG_TYPE_TRACING
      else if atype = BPF_LSM_MAC then BPF_PROG_TYPE_LSM
      else if atype = BPF_SK_LOOKUP then BPF_PROG_TYPE_SK_LOOKUP
      else if atype = BPF_XDP then BPF_PROG_TYPE_XDP
      else if atype = BPF_LSM_CGROUP then BPF_PROG_TYPE_LSM
      else if atype \<in> {BPF_TCX_INGRESS, BPF_TCX_EGRESS, BPF_NETKIT_PRIMARY, BPF_NETKIT_PEER} then BPF_PROG_TYPE_SCHED_CLS
      else BPF_PROG_TYPE_UNSPEC)"

definition bpf_prog_attach_check_attach_type :: "bpf_prog \<Rightarrow> bpf_attach_type \<Rightarrow> cint" where
  "bpf_prog_attach_check_attach_type prog atype =
     (if prog_type prog \<in> {BPF_PROG_TYPE_CGROUP_SOCK, BPF_PROG_TYPE_CGROUP_SOCK_ADDR,
                           BPF_PROG_TYPE_CGROUP_SOCKOPT, BPF_PROG_TYPE_SK_LOOKUP} then
        if atype = expected_attach_type prog then 0 else - EINVAL
      else if prog_type prog = BPF_PROG_TYPE_CGROUP_SKB then
        if \<not> bpf_token_capable (prog_token prog) CAP_NET_ADMIN then - EPERM
        else if prog_type prog \<noteq> attach_type_to_prog_type atype then - EINVAL
        else if enforce_expected_attach_type prog \<and> expected_attach_type prog \<noteq> atype then - EINVAL else 0
      else if prog_type prog = BPF_PROG_TYPE_EXT then 0
      else if prog_type prog = BPF_PROG_TYPE_NETFILTER then
        if atype \<noteq> BPF_NETFILTER then - EINVAL else 0
      else if prog_type prog \<in> {BPF_PROG_TYPE_PERF_EVENT, BPF_PROG_TYPE_TRACEPOINT} then
        if atype \<noteq> BPF_PERF_EVENT then - EINVAL else 0
      else if prog_type prog = BPF_PROG_TYPE_KPROBE then
        if expected_attach_type prog = BPF_TRACE_KPROBE_MULTI \<and> atype \<noteq> BPF_TRACE_KPROBE_MULTI then - EINVAL
        else if expected_attach_type prog = BPF_TRACE_KPROBE_SESSION \<and> atype \<noteq> BPF_TRACE_KPROBE_SESSION then - EINVAL
        else if expected_attach_type prog = BPF_TRACE_UPROBE_MULTI \<and> atype \<noteq> BPF_TRACE_UPROBE_MULTI then - EINVAL
        else if expected_attach_type prog = BPF_TRACE_UPROBE_SESSION \<and> atype \<noteq> BPF_TRACE_UPROBE_SESSION then - EINVAL
        else if atype \<noteq> BPF_PERF_EVENT \<and> atype \<noteq> BPF_TRACE_KPROBE_MULTI \<and> atype \<noteq> BPF_TRACE_KPROBE_SESSION \<and>
                atype \<noteq> BPF_TRACE_UPROBE_MULTI \<and> atype \<noteq> BPF_TRACE_UPROBE_SESSION then - EINVAL
        else 0
      else if prog_type prog = BPF_PROG_TYPE_SCHED_CLS then
        if atype \<noteq> BPF_TCX_INGRESS \<and> atype \<noteq> BPF_TCX_EGRESS \<and> atype \<noteq> BPF_NETKIT_PRIMARY \<and> atype \<noteq> BPF_NETKIT_PEER
        then - EINVAL else 0
      else let ptype = attach_type_to_prog_type atype
           in if ptype = BPF_PROG_TYPE_UNSPEC \<or> ptype \<noteq> prog_type prog then - EINVAL else 0)"

definition is_cgroup_prog_type :: "bpf_prog_type \<Rightarrow> bpf_attach_type \<Rightarrow> bool \<Rightarrow> bool" where
  "is_cgroup_prog_type ptype atype check_atype =
     (if ptype \<in> {BPF_PROG_TYPE_CGROUP_DEVICE, BPF_PROG_TYPE_CGROUP_SKB, BPF_PROG_TYPE_CGROUP_SOCK,
                  BPF_PROG_TYPE_CGROUP_SOCK_ADDR, BPF_PROG_TYPE_CGROUP_SOCKOPT, BPF_PROG_TYPE_CGROUP_SYSCTL,
                  BPF_PROG_TYPE_SOCK_OPS} then True
      else if ptype = BPF_PROG_TYPE_LSM then (if check_atype then atype = BPF_LSM_CGROUP else True)
      else False)"

section \<open>Links\<close>

definition bpf_link_init_sleepable ::
    "bpf_link \<Rightarrow> bpf_link_type \<Rightarrow> u64 \<Rightarrow> u64 \<Rightarrow> bpf_attach_type \<Rightarrow> bool \<Rightarrow> bpf_link" where
  "bpf_link_init_sleepable link type ops prog atype slp =
     link\<lparr> refcnt := 1, link_type := type, sleepable := slp, link_id := 0, link_ops := ops,
           link_prog := prog, link_attach_type := atype \<rparr>"

definition bpf_link_init :: "bpf_link \<Rightarrow> bpf_link_type \<Rightarrow> u64 \<Rightarrow> u64 \<Rightarrow> bpf_attach_type \<Rightarrow> bpf_link" where
  "bpf_link_init link type ops prog atype = bpf_link_init_sleepable link type ops prog atype False"

text \<open>\<^verbatim>\<open>&link->link\<close> is the address of the link object, which starts with the embedded link.\<close>

definition bpf_tramp_link_init ::
    "u64 \<Rightarrow> bpf_tramp_link \<Rightarrow> bpf_link_type \<Rightarrow> u64 \<Rightarrow> u64 \<Rightarrow> bpf_attach_type \<Rightarrow> u64 \<Rightarrow> bpf_tramp_link" where
  "bpf_tramp_link_init addr link type ops prog atype cookie =
     link\<lparr> tramp_link := bpf_link_init (tramp_link link) type ops prog atype,
           node_link := addr, node_cookie := cookie \<rparr>"

section \<open>Capabilities\<close>

definition is_net_admin_prog_type :: "bpf_prog_type \<Rightarrow> bool" where
  "is_net_admin_prog_type ptype =
     (ptype \<in> {BPF_PROG_TYPE_SCHED_CLS, BPF_PROG_TYPE_SCHED_ACT, BPF_PROG_TYPE_XDP, BPF_PROG_TYPE_LWT_IN,
               BPF_PROG_TYPE_LWT_OUT, BPF_PROG_TYPE_LWT_XMIT, BPF_PROG_TYPE_LWT_SEG6LOCAL, BPF_PROG_TYPE_SK_SKB,
               BPF_PROG_TYPE_SK_MSG, BPF_PROG_TYPE_FLOW_DISSECTOR, BPF_PROG_TYPE_CGROUP_DEVICE,
               BPF_PROG_TYPE_CGROUP_SOCK, BPF_PROG_TYPE_CGROUP_SOCK_ADDR, BPF_PROG_TYPE_CGROUP_SOCKOPT,
               BPF_PROG_TYPE_CGROUP_SYSCTL, BPF_PROG_TYPE_SOCK_OPS, BPF_PROG_TYPE_EXT, BPF_PROG_TYPE_NETFILTER})"

definition is_perfmon_prog_type :: "bpf_prog_type \<Rightarrow> bool" where
  "is_perfmon_prog_type ptype =
     (ptype \<in> {BPF_PROG_TYPE_KPROBE, BPF_PROG_TYPE_TRACEPOINT, BPF_PROG_TYPE_PERF_EVENT,
               BPF_PROG_TYPE_RAW_TRACEPOINT, BPF_PROG_TYPE_RAW_TRACEPOINT_WRITABLE, BPF_PROG_TYPE_TRACING,
               BPF_PROG_TYPE_LSM, BPF_PROG_TYPE_STRUCT_OPS, BPF_PROG_TYPE_EXT})"

definition syscall_map_create_cap :: "bpf_map_type \<Rightarrow> syscall_map_cap" where
  "syscall_map_create_cap t =
     (if t \<in> {BPF_MAP_TYPE_ARRAY, BPF_MAP_TYPE_PERCPU_ARRAY, BPF_MAP_TYPE_PROG_ARRAY,
              BPF_MAP_TYPE_PERF_EVENT_ARRAY, BPF_MAP_TYPE_CGROUP_ARRAY, BPF_MAP_TYPE_ARRAY_OF_MAPS,
              BPF_MAP_TYPE_HASH, BPF_MAP_TYPE_RHASH, BPF_MAP_TYPE_PERCPU_HASH, BPF_MAP_TYPE_HASH_OF_MAPS,
              BPF_MAP_TYPE_RINGBUF, BPF_MAP_TYPE_USER_RINGBUF, BPF_MAP_TYPE_CGROUP_STORAGE,
              BPF_MAP_TYPE_PERCPU_CGROUP_STORAGE} then SYSCALL_MAP_CAP_UNPRIV
      else if t \<in> {BPF_MAP_TYPE_SK_STORAGE, BPF_MAP_TYPE_INODE_STORAGE, BPF_MAP_TYPE_TASK_STORAGE,
              BPF_MAP_TYPE_CGRP_STORAGE, BPF_MAP_TYPE_BLOOM_FILTER, BPF_MAP_TYPE_LPM_TRIE,
              BPF_MAP_TYPE_REUSEPORT_SOCKARRAY, BPF_MAP_TYPE_STACK_TRACE, BPF_MAP_TYPE_QUEUE,
              BPF_MAP_TYPE_STACK, BPF_MAP_TYPE_LRU_HASH, BPF_MAP_TYPE_LRU_PERCPU_HASH,
              BPF_MAP_TYPE_STRUCT_OPS, BPF_MAP_TYPE_CPUMAP, BPF_MAP_TYPE_ARENA,
              BPF_MAP_TYPE_INSN_ARRAY} then SYSCALL_MAP_CAP_BPF
      else if t \<in> {BPF_MAP_TYPE_SOCKMAP, BPF_MAP_TYPE_SOCKHASH, BPF_MAP_TYPE_DEVMAP,
              BPF_MAP_TYPE_DEVMAP_HASH, BPF_MAP_TYPE_XSKMAP} then SYSCALL_MAP_CAP_NET_ADMIN
      else SYSCALL_MAP_CAP_UNSUPPORTED)"


section \<open>Object names\<close>

definition name_char :: "u8 \<Rightarrow> bool" where
  "name_char c \<longleftrightarrow> syscall_isalnum c \<or> c = 95 \<or> c = 46"

lemma name_char_nonzero: "name_char c \<Longrightarrow> c \<noteq> 0"
  by (auto simp: name_char_def syscall_isalnum_def)

text \<open>\<open>name_at src sz n\<close>: the source holds a name of length \<open>n\<close>, terminated within its \<open>sz\<close> bytes.\<close>

definition name_at :: "u8 list \<Rightarrow> nat \<Rightarrow> nat \<Rightarrow> nat \<Rightarrow> bool" where
  "name_at src sz i n \<longleftrightarrow> i \<le> n \<and> n < sz \<and> src ! n = 0 \<and> (\<forall>k. i \<le> k \<and> k < n \<longrightarrow> name_char (src ! k))"

lemma name_at_Suc:
  "i < sz \<Longrightarrow> name_char (src ! i) \<Longrightarrow> name_at src sz i n \<longleftrightarrow> name_at src sz (Suc i) n"
proof -
  assume c: "name_char (src ! i)"
  have "i \<le> k \<longleftrightarrow> i = k \<or> Suc i \<le> k" for k by auto
  then show ?thesis unfolding name_at_def using c name_char_nonzero[OF c] by metis
qed

lemma name_copy_spec:
  "i \<le> sz \<Longrightarrow> sz \<le> length d \<Longrightarrow>
   (\<exists>n d'. name_at src sz i n \<and> name_copy src d sz i = (int n, d') \<and> length d' = length d \<and>
      (\<forall>k < length d. d' ! k = (if i \<le> k \<and> k < n then src ! k else d ! k))) \<or>
   ((\<nexists>n. name_at src sz i n) \<and> fst (name_copy src d sz i) = - EINVAL)"
proof (induction "sz - i" arbitrary: i d rule: less_induct)
  case (less i d)
  consider (stop) "i = sz" | (nul) "i < sz" "src ! i = 0" | (bad) "i < sz" "src ! i \<noteq> 0" "\<not> name_char (src ! i)"
    | (char) "i < sz" "name_char (src ! i)" using less.prems(1) by linarith
  then show ?case
  proof cases
    case stop
    then show ?thesis by (subst (2) name_copy.simps) (auto simp: name_at_def)
  next
    case nul
    have "name_at src sz i i" using nul by (auto simp: name_at_def)
    moreover have "name_copy src d sz i = (int i, d)" using nul by (simp add: name_copy.simps)
    ultimately show ?thesis by auto
  next
    case bad
    have "\<not> name_at src sz i n" for n using bad by (cases "n = i") (auto simp: name_at_def)
    moreover have "fst (name_copy src d sz i) = - EINVAL"
      using bad by (simp add: name_copy.simps name_char_def)
    ultimately show ?thesis by blast
  next
    case char
    let ?d = "d[i := src ! i]"
    have e: "name_copy src d sz i = name_copy src ?d sz (Suc i)"
      using char name_char_nonzero[OF char(2)] by (subst name_copy.simps) (auto simp: name_char_def)
    have ih: "(\<exists>n d'. name_at src sz (Suc i) n \<and> name_copy src ?d sz (Suc i) = (int n, d') \<and> length d' = length ?d \<and>
      (\<forall>k < length ?d. d' ! k = (if Suc i \<le> k \<and> k < n then src ! k else ?d ! k))) \<or>
      ((\<nexists>n. name_at src sz (Suc i) n) \<and> fst (name_copy src ?d sz (Suc i)) = - EINVAL)"
      using char less.prems by (intro less.hyps) auto
    show ?thesis unfolding e name_at_Suc[OF char]
    proof (rule disjE[OF ih], goal_cases)
      case 1
      then obtain n d' where n: "name_at src sz (Suc i) n" "name_copy src ?d sz (Suc i) = (int n, d')" "length d' = length d"
        "\<forall>k < length d. d' ! k = (if Suc i \<le> k \<and> k < n then src ! k else ?d ! k)" by auto
      have "i < n" using n(1) by (simp add: name_at_def)
      then have "\<forall>k < length d. d' ! k = (if i \<le> k \<and> k < n then src ! k else d ! k)"
        using n(4) by (auto simp: nth_list_update not_less_eq_eq dest: le_antisym)
      with n show ?case by blast
    qed blast
  qed
qed

lemma zero_fill: "length (fold (\<lambda>i d. d[i := 0]) [0..<n] d) = length (d :: u8 list) \<and>
   (\<forall>k < length d. fold (\<lambda>i d. d[i := 0]) [0..<n] d ! k = (if k < n then 0 else d ! k))"
  by (induction n) (auto simp: nth_list_update less_Suc_eq)

text \<open>\<^verbatim>\<open>bpf_obj_name_cpy\<close> terminates; it succeeds exactly when the source holds a name (letters,
  digits, underscore and dot) terminated by a NUL within \<open>sz\<close> bytes, returns its length and leaves
  the name followed by zeros in the destination, bytes past \<open>sz\<close> untouched; otherwise it returns \<^verbatim>\<open>-EINVAL\<close>.\<close>

theorem obj_name_cpy_correct:
  assumes "sz \<le> length dst"
  shows "(\<forall>n. name_at src sz 0 n \<longrightarrow> (\<exists>d'. bpf_obj_name_cpy dst src sz = (int n, d') \<and> length d' = length dst \<and>
      (\<forall>k < length dst. d' ! k = (if k < n then src ! k else if k < sz then 0 else dst ! k)))) \<and>
    ((\<nexists>n. name_at src sz 0 n) \<longrightarrow> fst (bpf_obj_name_cpy dst src sz) = - EINVAL)"
proof -
  let ?d = "fold (\<lambda>i d. d[i := 0]) [0..<sz] dst"
  have z: "length ?d = length dst" "\<forall>k < length dst. ?d ! k = (if k < sz then 0 else dst ! k)" using zero_fill[of sz dst] by blast+
  have uniq: "name_at src sz 0 n \<Longrightarrow> name_at src sz 0 n' \<Longrightarrow> n = n'" for n n'
    using name_char_nonzero by (metis linorder_neqE_nat name_at_def zero_le)
  have "0 \<le> sz" "sz \<le> length ?d" using assms z(1) by simp_all
  from name_copy_spec[OF this, of src] consider
    n d' where "name_at src sz 0 n" "bpf_obj_name_cpy dst src sz = (int n, d')" "length d' = length dst"
      "\<forall>k < length dst. d' ! k = (if k < n then src ! k else ?d ! k)"
    | "\<nexists>n. name_at src sz 0 n" "fst (bpf_obj_name_cpy dst src sz) = - EINVAL"
    unfolding bpf_obj_name_cpy_def Let_def z(1) by auto
  then show ?thesis
  proof cases
    case 1
    then have "\<forall>k < length dst. d' ! k = (if k < n then src ! k else if k < sz then 0 else dst ! k)" using z(2) by simp
    with 1 uniq show ?thesis by blast
  qed blast
qed

theorem obj_name_cpy_correct_witness:
  "\<exists>d'. bpf_obj_name_cpy [9, 9, 9, 9, 9] [97, 95, 0, 7, 7] 4 = (int 2, d') \<and> length d' = length [9, 9, 9, 9, 9 :: u8] \<and>
     (\<forall>k < length [9, 9, 9, 9, 9 :: u8]. d' ! k = (if k < 2 then [97, 95, 0, 7, 7] ! k else if k < 4 then 0 else [9, 9, 9, 9, 9] ! k))"
proof -
  have "name_at [97, 95, 0, 7, 7] 4 0 2"
  proof -
    have "name_char 97" "name_char 95" by (simp_all add: name_char_def syscall_isalnum_def)
    moreover have "k < 2 \<Longrightarrow> k = 0 \<or> k = 1" for k :: nat by linarith
    ultimately have "k < 2 \<Longrightarrow> name_char ([97, 95, 0, 7, 7] ! k)" for k by fastforce
    then show ?thesis by (simp add: name_at_def)
  qed
  then show ?thesis by (rule obj_name_cpy_correct[THEN conjunct1, THEN spec, THEN mp, rotated]) simp
qed


section \<open>Operation flags\<close>

lemma flag_bits:
  "c_true (f AND BPF_F_LOCK) \<longleftrightarrow> bit f 2" "c_true (f AND BPF_F_CPU) \<longleftrightarrow> bit f 3" "c_true (f AND BPF_F_ALL_CPUS) \<longleftrightarrow> bit f 4"
  "c_true (f AND (BPF_F_CPU OR BPF_F_ALL_CPUS)) \<longleftrightarrow> bit f 3 \<or> bit f 4"
proof -
  have b: "(4 :: u64) = push_bit 2 1" "(8 :: u64) = push_bit 3 1" "(16 :: u64) = push_bit 4 1" by simp_all
  show "c_true (f AND BPF_F_LOCK) \<longleftrightarrow> bit f 2" "c_true (f AND BPF_F_CPU) \<longleftrightarrow> bit f 3" "c_true (f AND BPF_F_ALL_CPUS) \<longleftrightarrow> bit f 4"
    by (simp_all only: b c_true_and_bit)
  have "f AND (BPF_F_CPU OR BPF_F_ALL_CPUS) = (f AND BPF_F_CPU) OR (f AND BPF_F_ALL_CPUS)"
    by (rule bit_word_eqI) (auto simp only: bit_and_iff bit_or_iff)
  then show "c_true (f AND (BPF_F_CPU OR BPF_F_ALL_CPUS)) \<longleftrightarrow> bit f 3 \<or> bit f 4"
    unfolding c_true_def b by (simp only: or_eq_0_iff and_push_bit_1_eq_0_iff de_Morgan_conj not_not)
qed

lemma high_half: "unat (ucast (drop_bit 32 (f :: u64)) :: u32) = unat f div 2 ^ 32"
  "c_true (drop_bit 32 f) \<longleftrightarrow> 2 ^ 32 \<le> unat f"
proof -
  have d: "unat (drop_bit 32 f) = unat f div 2 ^ 32" by (rule unat_drop_bit)
  have "unat f div 2 ^ 32 < 2 ^ 32" using unat_u64_less[of f] by (simp add: less_mult_imp_div_less)
  then show "unat (ucast (drop_bit 32 f) :: u32) = unat f div 2 ^ 32"
    by (simp only: unsigned_ucast_eq d) (simp add: take_bit_nat_eq_self)
  show "c_true (drop_bit 32 f) \<longleftrightarrow> 2 ^ 32 \<le> unat f"
    unfolding c_true_def unat_eq_0[symmetric] d by (simp only: div_eq_0_iff) auto
qed

lemma low_half_allowed:
  "\<not> c_true ((ucast (ucast f :: u32) :: u64) AND NOT a) \<longleftrightarrow> (\<forall>n < 32. bit f n \<longrightarrow> bit a n)" for f :: u64
  unfolding c_true_def not_not and_not_mask_zero_iff by (auto simp: bit_ucast_iff)

text \<open>C16: \<^verbatim>\<open>bpf_map_check_op_flags\<close> accepts a flag word exactly when its low half has only allowed bits,
  \<^verbatim>\<open>BPF_F_LOCK\<close> is backed by a spin lock in the record, a CPU number (the high half) comes only with \<^verbatim>\<open>BPF_F_CPU\<close>
  and names an existing CPU, and the CPU flags exclude each other and are used on a per-CPU map only;
  it refuses everything else with \<^verbatim>\<open>-EINVAL\<close>, and \<^verbatim>\<open>-ERANGE\<close> only for a CPU number that is too large.\<close>

theorem check_op_flags_correct:
  "(bpf_map_check_op_flags mp f allowed = 0 \<longleftrightarrow>
     (\<forall>n < 32. bit f n \<longrightarrow> bit allowed n) \<and> (bit f 2 \<longrightarrow> btf_record_has_field (sm_record mp) BPF_SPIN_LOCK) \<and>
     (bit f 3 \<or> unat f < 2 ^ 32) \<and> (bit f 3 \<or> bit f 4 \<longrightarrow> bpf_map_supports_cpu_flags (sm_map_type mp)) \<and>
     \<not> (bit f 3 \<and> bit f 4) \<and> (bit f 3 \<longrightarrow> unat f div 2 ^ 32 < 4)) \<and>
   (bpf_map_check_op_flags mp f allowed = - ERANGE \<longrightarrow> bit f 3 \<and> 4 \<le> unat f div 2 ^ 32) \<and>
   bpf_map_check_op_flags mp f allowed \<in> {0, - EINVAL, - ERANGE}"
proof -
  have cpu: "(ucast (drop_bit 32 f) :: u32) \<ge> num_possible_cpus \<longleftrightarrow> 4 \<le> unat f div 2 ^ 32"
    unfolding word_le_nat_alt high_half num_possible_cpus_def by simp
  have nlt: "\<not> a < b \<longleftrightarrow> b \<le> a" for a b :: nat by auto
  show ?thesis unfolding bpf_map_check_op_flags_def Let_def flag_bits high_half cpu low_half_allowed[symmetric]
    using nlt[of "unat f" "2 ^ 32"] nlt[of "unat f div 2 ^ 32" 4]
    by (simp split: if_split)
qed

definition sample_sys_map :: sys_map where
  "sample_sys_map = \<lparr> sm_map_type = BPF_MAP_TYPE_PERCPU_ARRAY, sm_key_size = 4, sm_value_size = 12, sm_max_entries = 8,
     sm_map_flags = 0, sm_numa_node = - 1, sm_map_extra = 0, sm_record = None \<rparr>"

theorem check_op_flags_correct_witness:
  "bpf_map_check_op_flags sample_sys_map 0x500000008 (BPF_F_CPU OR BPF_F_ALL_CPUS) = - ERANGE \<and>
   bit (0x500000008 :: u64) 3 \<and> 4 \<le> unat (0x500000008 :: u64) div 2 ^ 32"
proof -
  have "bpf_map_check_op_flags sample_sys_map 0x500000008 (BPF_F_CPU OR BPF_F_ALL_CPUS) = - ERANGE"
    by code_simp
  with check_op_flags_correct[of sample_sys_map "0x500000008" "BPF_F_CPU OR BPF_F_ALL_CPUS"] show ?thesis by blast
qed

section \<open>Attaching\<close>

lemma load_check_imp_expected:
  assumes "bpf_prog_load_check_attach pt at ab bid dp mf = 0"
  shows "load_check_expected pt at = 0 \<or> pt = BPF_PROG_TYPE_TRACING"
  using assms unfolding bpf_prog_load_check_attach_def by (auto split: if_splits)

lemma load_check_expected_type:
  assumes "load_check_expected pt at = 0"
    and "pt \<in> {BPF_PROG_TYPE_CGROUP_SOCK, BPF_PROG_TYPE_CGROUP_SOCK_ADDR, BPF_PROG_TYPE_CGROUP_SOCKOPT, BPF_PROG_TYPE_SK_LOOKUP}"
  shows "attach_type_to_prog_type at = pt"
  using assms(2,1)
proof (elim insertE)
qed (auto simp: load_check_expected_def attach_type_to_prog_type_def split: if_splits)

definition untyped_prog :: "bpf_prog_type \<Rightarrow> bool" where
  "untyped_prog pt \<longleftrightarrow> pt \<in> {BPF_PROG_TYPE_EXT, BPF_PROG_TYPE_NETFILTER, BPF_PROG_TYPE_PERF_EVENT,
     BPF_PROG_TYPE_TRACEPOINT, BPF_PROG_TYPE_KPROBE}"

text \<open>Where a program may be attached.  Five program types have no attach type of their own in
  \<^verbatim>\<open>attach_type_to_prog_type\<close>: an extension goes anywhere (its target decides), netfilter, perf event and
  tracepoint programs have one attach type each, and a kprobe program has the one it was loaded for, or,
  loaded without one of the four multi-probe types, any of the probe types.  Every other program
  goes to the attach types of its program type.\<close>

definition multi_probes :: "bpf_attach_type set" where
  "multi_probes = {BPF_TRACE_KPROBE_MULTI, BPF_TRACE_KPROBE_SESSION, BPF_TRACE_UPROBE_MULTI, BPF_TRACE_UPROBE_SESSION}"

definition attach_points :: "bpf_prog \<Rightarrow> bpf_attach_type set" where
  "attach_points p =
     (if prog_type p = BPF_PROG_TYPE_EXT then UNIV
      else if prog_type p = BPF_PROG_TYPE_NETFILTER then {BPF_NETFILTER}
      else if prog_type p \<in> {BPF_PROG_TYPE_PERF_EVENT, BPF_PROG_TYPE_TRACEPOINT} then {BPF_PERF_EVENT}
      else if prog_type p = BPF_PROG_TYPE_KPROBE
      then (if expected_attach_type p \<in> multi_probes then {expected_attach_type p} else insert BPF_PERF_EVENT multi_probes)
      else {t. attach_type_to_prog_type t = prog_type p})"

lemma untyped_attach:
  assumes "untyped_prog (prog_type p)"
  shows "bpf_prog_attach_check_attach_type p t = 0 \<longleftrightarrow> t \<in> attach_points p"
  using assms unfolding untyped_prog_def
proof (elim insertE emptyE)
qed (auto simp: bpf_prog_attach_check_attach_type_def attach_points_def multi_probes_def)

lemma typed_attach:
  assumes "bpf_prog_load_check_attach (prog_type p) (expected_attach_type p) ab bid dp mf = 0"
    and "bpf_prog_attach_check_attach_type p t = 0" and "\<not> untyped_prog (prog_type p)"
  shows "attach_type_to_prog_type t = prog_type p"
proof (cases "prog_type p \<in> {BPF_PROG_TYPE_CGROUP_SOCK, BPF_PROG_TYPE_CGROUP_SOCK_ADDR,
     BPF_PROG_TYPE_CGROUP_SOCKOPT, BPF_PROG_TYPE_SK_LOOKUP}")
  case True
  then have "t = expected_attach_type p" using assms(2)
    unfolding bpf_prog_attach_check_attach_type_def by (simp only: if_True) (simp split: if_splits)
  moreover have "load_check_expected (prog_type p) (expected_attach_type p) = 0"
    using load_check_imp_expected[OF assms(1)] True by auto
  ultimately show ?thesis using load_check_expected_type True by blast
next
  case False
  show ?thesis
  proof (cases "prog_type p = BPF_PROG_TYPE_SCHED_CLS")
    case True
    then have "t \<in> {BPF_TCX_INGRESS, BPF_TCX_EGRESS, BPF_NETKIT_PRIMARY, BPF_NETKIT_PEER}" using assms(2)
      unfolding bpf_prog_attach_check_attach_type_def by (simp split: if_splits)
    then show ?thesis unfolding True by (elim insertE) (simp_all add: attach_type_to_prog_type_def)
  next
    case sched: False
    show ?thesis using assms(2,3) False sched
      unfolding bpf_prog_attach_check_attach_type_def untyped_prog_def
      by (simp only: if_False if_True insert_iff empty_iff de_Morgan_disj) (simp add: Let_def split: if_splits)
  qed
qed

text \<open>C17: A program that passed the load-time check is accepted at attach time only at its attach points: for the
  five program types without an attach type of their own these are the ones listed in \<open>attach_points\<close>, and all
  of them are accepted; for every other program type it is the attach types that \<^verbatim>\<open>attach_type_to_prog_type\<close> maps
  to it.\<close>

theorem attach_type_consistent:
  assumes "bpf_prog_load_check_attach (prog_type p) (expected_attach_type p) ab bid dp mf = 0"
  shows "(bpf_prog_attach_check_attach_type p t = 0 \<longrightarrow> t \<in> attach_points p) \<and>
    (untyped_prog (prog_type p) \<and> t \<in> attach_points p \<longrightarrow> bpf_prog_attach_check_attach_type p t = 0) \<and>
    (\<not> untyped_prog (prog_type p) \<longrightarrow> attach_points p = {t. attach_type_to_prog_type t = prog_type p})"
proof (cases "untyped_prog (prog_type p)")
  case True
  then show ?thesis using untyped_attach[OF True, of t] by blast
next
  case False
  then have "attach_points p = {t. attach_type_to_prog_type t = prog_type p}"
    by (auto simp: attach_points_def untyped_prog_def)
  with False typed_attach[OF assms _ False, of t] show ?thesis by blast
qed

theorem attach_type_consistent_witness:
  "BPF_CGROUP_INET4_BIND \<in> attach_points \<lparr> prog_type = BPF_PROG_TYPE_CGROUP_SOCK_ADDR,
     expected_attach_type = BPF_CGROUP_INET4_BIND, enforce_expected_attach_type = False, prog_token = None \<rparr>"
  (is "_ \<in> attach_points ?p")
proof -
  have "bpf_prog_load_check_attach (prog_type ?p) (expected_attach_type ?p) False 0 False False = 0"
    by (simp add: bpf_prog_load_check_attach_def load_check_expected_def)
  from attach_type_consistent[OF this, of BPF_CGROUP_INET4_BIND]
  show ?thesis by (simp add: bpf_prog_attach_check_attach_type_def)
qed

text \<open>The load-time fix-up is idempotent, changes only the attach type and only when none was given,
  and makes a socket program without an attach type loadable: after it, the checks accept every
  \<^verbatim>\<open>CGROUP_SOCK\<close> and \<^verbatim>\<open>SK_REUSEPORT\<close> program that came with attach type 0; before it they refuse both.\<close>

theorem fixup_attach_type_correct:
  "bpf_prog_load_fixup_attach_type (bpf_prog_load_fixup_attach_type a) = bpf_prog_load_fixup_attach_type a \<and>
   (attr_expected_attach_type a \<noteq> BPF_CGROUP_INET_INGRESS \<longrightarrow> bpf_prog_load_fixup_attach_type a = a) \<and>
   (attr_expected_attach_type a = BPF_CGROUP_INET_INGRESS \<and>
    attr_prog_type a \<in> {BPF_PROG_TYPE_CGROUP_SOCK, BPF_PROG_TYPE_SK_REUSEPORT} \<longrightarrow>
      bpf_prog_load_check_attach (attr_prog_type a) (attr_expected_attach_type a) False 0 False False = - EINVAL \<and>
      bpf_prog_load_check_attach (attr_prog_type (bpf_prog_load_fixup_attach_type a))
        (attr_expected_attach_type (bpf_prog_load_fixup_attach_type a)) False 0 False False = 0)"
proof (intro conjI impI)
  assume "attr_expected_attach_type a = BPF_CGROUP_INET_INGRESS \<and>
    attr_prog_type a \<in> {BPF_PROG_TYPE_CGROUP_SOCK, BPF_PROG_TYPE_SK_REUSEPORT}"
  then show "bpf_prog_load_check_attach (attr_prog_type a) (attr_expected_attach_type a) False 0 False False = - EINVAL"
    "bpf_prog_load_check_attach (attr_prog_type (bpf_prog_load_fixup_attach_type a))
        (attr_expected_attach_type (bpf_prog_load_fixup_attach_type a)) False 0 False False = 0"
    by (auto simp: bpf_prog_load_check_attach_def load_check_expected_def bpf_prog_load_fixup_attach_type_def)
qed (simp_all add: bpf_prog_load_fixup_attach_type_def)

definition sample_attr :: sys_attr where
  "sample_attr = \<lparr> attr_map_type = BPF_MAP_TYPE_PERCPU_HASH, attr_key_size = 4, attr_value_size = 12, attr_max_entries = 8,
     attr_map_flags = 0, attr_inner_map_fd = 0, attr_numa_node = 0, attr_map_extra = 0,
     attr_prog_type = BPF_PROG_TYPE_CGROUP_SOCK, attr_expected_attach_type = BPF_CGROUP_INET_INGRESS \<rparr>"

theorem fixup_attach_type_correct_witness:
  "bpf_prog_load_check_attach (attr_prog_type (bpf_prog_load_fixup_attach_type sample_attr))
     (attr_expected_attach_type (bpf_prog_load_fixup_attach_type sample_attr)) False 0 False False = 0"
  using fixup_attach_type_correct[of sample_attr] by (simp add: sample_attr_def)

text \<open>Every map type the kernel knows has a capability class: map creation is unsupported exactly for the
  unspecified type and for integers that name no type.  A program type is in both privileged classes
  only if it is an extension, and every cgroup program type except \<^verbatim>\<open>CGROUP_SKB\<close> and \<^verbatim>\<open>LSM\<close> is network-administered.\<close>

theorem capability_classes:
  "(syscall_map_create_cap t = SYSCALL_MAP_CAP_UNSUPPORTED \<longleftrightarrow> t = BPF_MAP_TYPE_UNSPEC \<or> (\<exists>n. t = MAP_TYPE_OTHER n)) \<and>
   (is_net_admin_prog_type p \<and> is_perfmon_prog_type p \<longleftrightarrow> p = BPF_PROG_TYPE_EXT) \<and>
   (is_cgroup_prog_type p at c \<and> p \<notin> {BPF_PROG_TYPE_CGROUP_SKB, BPF_PROG_TYPE_LSM} \<longrightarrow> is_net_admin_prog_type p)"
proof (intro conjI impI)
  show "syscall_map_create_cap t = SYSCALL_MAP_CAP_UNSUPPORTED \<longleftrightarrow> t = BPF_MAP_TYPE_UNSPEC \<or> (\<exists>n. t = MAP_TYPE_OTHER n)"
    by (cases t) (simp_all add: syscall_map_create_cap_def)
  show "is_net_admin_prog_type p \<and> is_perfmon_prog_type p \<longleftrightarrow> p = BPF_PROG_TYPE_EXT"
    by (cases p) (simp_all add: is_net_admin_prog_type_def is_perfmon_prog_type_def)
  assume "is_cgroup_prog_type p at c \<and> p \<notin> {BPF_PROG_TYPE_CGROUP_SKB, BPF_PROG_TYPE_LSM}"
  then show "is_net_admin_prog_type p"
    by (cases p) (simp_all add: is_net_admin_prog_type_def is_cgroup_prog_type_def)
qed


theorem capability_classes_witness:
  "is_net_admin_prog_type BPF_PROG_TYPE_SOCK_OPS"
  using capability_classes[of BPF_MAP_TYPE_HASH BPF_PROG_TYPE_SOCK_OPS BPF_XDP True]
  by (simp add: is_cgroup_prog_type_def)

end
