(* ===== verification/Verifier_Types.thy ===== *)
theory Verifier_Types
  imports Map_Attr
begin

text \<open>
  The enumerations of \<^verbatim>\<open>shims/kernel/bpf/verifier.c\<close>.  Argument and register types combine a base
  type (the low eight bits) with flags, so they are 32-bit words and their enumerators are
  constants; helper and dynptr identifiers are datatypes with one constructor for the integers no
  enumerator names.
\<close>

text \<open>\<^verbatim>\<open>enum bpf_type_flag\<close>\<close>

abbreviation PTR_MAYBE_NULL :: u32 where "PTR_MAYBE_NULL \<equiv> BIT 8"
abbreviation MEM_RDONLY :: u32 where "MEM_RDONLY \<equiv> BIT 9"
abbreviation MEM_RINGBUF :: u32 where "MEM_RINGBUF \<equiv> BIT 10"
abbreviation MEM_USER :: u32 where "MEM_USER \<equiv> BIT 11"
abbreviation MEM_PERCPU :: u32 where "MEM_PERCPU \<equiv> BIT 12"
abbreviation OBJ_RELEASE :: u32 where "OBJ_RELEASE \<equiv> BIT 13"
abbreviation PTR_UNTRUSTED :: u32 where "PTR_UNTRUSTED \<equiv> BIT 14"
abbreviation MEM_UNINIT :: u32 where "MEM_UNINIT \<equiv> BIT 15"
abbreviation DYNPTR_TYPE_LOCAL :: u32 where "DYNPTR_TYPE_LOCAL \<equiv> BIT 16"
abbreviation DYNPTR_TYPE_RINGBUF :: u32 where "DYNPTR_TYPE_RINGBUF \<equiv> BIT 17"
abbreviation MEM_FIXED_SIZE :: u32 where "MEM_FIXED_SIZE \<equiv> BIT 18"
abbreviation MEM_ALLOC :: u32 where "MEM_ALLOC \<equiv> BIT 19"
abbreviation PTR_TRUSTED :: u32 where "PTR_TRUSTED \<equiv> BIT 20"
abbreviation MEM_RCU :: u32 where "MEM_RCU \<equiv> BIT 21"
abbreviation NON_OWN_REF :: u32 where "NON_OWN_REF \<equiv> BIT 22"
abbreviation DYNPTR_TYPE_SKB :: u32 where "DYNPTR_TYPE_SKB \<equiv> BIT 23"
abbreviation DYNPTR_TYPE_XDP :: u32 where "DYNPTR_TYPE_XDP \<equiv> BIT 24"
abbreviation MEM_ALIGNED :: u32 where "MEM_ALIGNED \<equiv> BIT 25"
abbreviation MEM_WRITE :: u32 where "MEM_WRITE \<equiv> BIT 26"
abbreviation DYNPTR_TYPE_SKB_META :: u32 where "DYNPTR_TYPE_SKB_META \<equiv> BIT 27"
abbreviation DYNPTR_TYPE_FILE :: u32 where "DYNPTR_TYPE_FILE \<equiv> BIT 28"

text \<open>\<^verbatim>\<open>enum bpf_arg_type\<close>\<close>

abbreviation ARG_DONTCARE :: u32 where "ARG_DONTCARE \<equiv> 0"
abbreviation ARG_CONST_MAP_PTR :: u32 where "ARG_CONST_MAP_PTR \<equiv> 1"
abbreviation ARG_PTR_TO_MAP_KEY :: u32 where "ARG_PTR_TO_MAP_KEY \<equiv> 2"
abbreviation ARG_PTR_TO_MAP_VALUE :: u32 where "ARG_PTR_TO_MAP_VALUE \<equiv> 3"
abbreviation ARG_PTR_TO_MEM :: u32 where "ARG_PTR_TO_MEM \<equiv> 4"
abbreviation ARG_PTR_TO_ARENA :: u32 where "ARG_PTR_TO_ARENA \<equiv> 5"
abbreviation ARG_CONST_SIZE :: u32 where "ARG_CONST_SIZE \<equiv> 6"
abbreviation ARG_CONST_SIZE_OR_ZERO :: u32 where "ARG_CONST_SIZE_OR_ZERO \<equiv> 7"
abbreviation ARG_PTR_TO_CTX :: u32 where "ARG_PTR_TO_CTX \<equiv> 8"
abbreviation ARG_ANYTHING :: u32 where "ARG_ANYTHING \<equiv> 9"
abbreviation ARG_PTR_TO_SPIN_LOCK :: u32 where "ARG_PTR_TO_SPIN_LOCK \<equiv> 10"
abbreviation ARG_PTR_TO_SOCK_COMMON :: u32 where "ARG_PTR_TO_SOCK_COMMON \<equiv> 11"
abbreviation ARG_PTR_TO_SOCKET :: u32 where "ARG_PTR_TO_SOCKET \<equiv> 12"
abbreviation ARG_PTR_TO_BTF_ID :: u32 where "ARG_PTR_TO_BTF_ID \<equiv> 13"
abbreviation ARG_PTR_TO_RINGBUF_MEM :: u32 where "ARG_PTR_TO_RINGBUF_MEM \<equiv> 14"
abbreviation ARG_CONST_ALLOC_SIZE_OR_ZERO :: u32 where "ARG_CONST_ALLOC_SIZE_OR_ZERO \<equiv> 15"
abbreviation ARG_PTR_TO_BTF_ID_SOCK_COMMON :: u32 where "ARG_PTR_TO_BTF_ID_SOCK_COMMON \<equiv> 16"
abbreviation ARG_PTR_TO_PERCPU_BTF_ID :: u32 where "ARG_PTR_TO_PERCPU_BTF_ID \<equiv> 17"
abbreviation ARG_PTR_TO_FUNC :: u32 where "ARG_PTR_TO_FUNC \<equiv> 18"
abbreviation ARG_PTR_TO_STACK :: u32 where "ARG_PTR_TO_STACK \<equiv> 19"
abbreviation ARG_PTR_TO_CONST_STR :: u32 where "ARG_PTR_TO_CONST_STR \<equiv> 20"
abbreviation ARG_PTR_TO_TIMER :: u32 where "ARG_PTR_TO_TIMER \<equiv> 21"
abbreviation ARG_KPTR_XCHG_DEST :: u32 where "ARG_KPTR_XCHG_DEST \<equiv> 22"
abbreviation ARG_PTR_TO_DYNPTR :: u32 where "ARG_PTR_TO_DYNPTR \<equiv> 23"
abbreviation ARG_PTR_TO_MAP_VALUE_OR_NULL :: u32 where "ARG_PTR_TO_MAP_VALUE_OR_NULL \<equiv> PTR_MAYBE_NULL OR ARG_PTR_TO_MAP_VALUE"
abbreviation ARG_PTR_TO_MEM_OR_NULL :: u32 where "ARG_PTR_TO_MEM_OR_NULL \<equiv> PTR_MAYBE_NULL OR ARG_PTR_TO_MEM"
abbreviation ARG_PTR_TO_CTX_OR_NULL :: u32 where "ARG_PTR_TO_CTX_OR_NULL \<equiv> PTR_MAYBE_NULL OR ARG_PTR_TO_CTX"
abbreviation ARG_PTR_TO_SOCKET_OR_NULL :: u32 where "ARG_PTR_TO_SOCKET_OR_NULL \<equiv> PTR_MAYBE_NULL OR ARG_PTR_TO_SOCKET"
abbreviation ARG_PTR_TO_STACK_OR_NULL :: u32 where "ARG_PTR_TO_STACK_OR_NULL \<equiv> PTR_MAYBE_NULL OR ARG_PTR_TO_STACK"
abbreviation ARG_PTR_TO_BTF_ID_OR_NULL :: u32 where "ARG_PTR_TO_BTF_ID_OR_NULL \<equiv> PTR_MAYBE_NULL OR ARG_PTR_TO_BTF_ID"
abbreviation ARG_PTR_TO_UNINIT_MEM :: u32 where "ARG_PTR_TO_UNINIT_MEM \<equiv> MEM_UNINIT OR MEM_WRITE OR ARG_PTR_TO_MEM"
abbreviation ARG_PTR_TO_FIXED_SIZE_MEM :: u32 where "ARG_PTR_TO_FIXED_SIZE_MEM \<equiv> MEM_FIXED_SIZE OR ARG_PTR_TO_MEM"

text \<open>\<^verbatim>\<open>enum bpf_reg_type\<close>\<close>

abbreviation NOT_INIT :: u32 where "NOT_INIT \<equiv> 0"
abbreviation SCALAR_VALUE :: u32 where "SCALAR_VALUE \<equiv> 1"
abbreviation PTR_TO_CTX :: u32 where "PTR_TO_CTX \<equiv> 2"
abbreviation CONST_PTR_TO_MAP :: u32 where "CONST_PTR_TO_MAP \<equiv> 3"
abbreviation PTR_TO_MAP_VALUE :: u32 where "PTR_TO_MAP_VALUE \<equiv> 4"
abbreviation PTR_TO_MAP_KEY :: u32 where "PTR_TO_MAP_KEY \<equiv> 5"
abbreviation PTR_TO_STACK :: u32 where "PTR_TO_STACK \<equiv> 6"
abbreviation PTR_TO_PACKET_META :: u32 where "PTR_TO_PACKET_META \<equiv> 7"
abbreviation PTR_TO_PACKET :: u32 where "PTR_TO_PACKET \<equiv> 8"
abbreviation PTR_TO_PACKET_END :: u32 where "PTR_TO_PACKET_END \<equiv> 9"
abbreviation PTR_TO_FLOW_KEYS :: u32 where "PTR_TO_FLOW_KEYS \<equiv> 10"
abbreviation PTR_TO_SOCKET :: u32 where "PTR_TO_SOCKET \<equiv> 11"
abbreviation PTR_TO_SOCK_COMMON :: u32 where "PTR_TO_SOCK_COMMON \<equiv> 12"
abbreviation PTR_TO_TCP_SOCK :: u32 where "PTR_TO_TCP_SOCK \<equiv> 13"
abbreviation PTR_TO_TP_BUFFER :: u32 where "PTR_TO_TP_BUFFER \<equiv> 14"
abbreviation PTR_TO_XDP_SOCK :: u32 where "PTR_TO_XDP_SOCK \<equiv> 15"
abbreviation PTR_TO_BTF_ID :: u32 where "PTR_TO_BTF_ID \<equiv> 16"
abbreviation PTR_TO_MEM :: u32 where "PTR_TO_MEM \<equiv> 17"
abbreviation PTR_TO_ARENA :: u32 where "PTR_TO_ARENA \<equiv> 18"
abbreviation PTR_TO_BUF :: u32 where "PTR_TO_BUF \<equiv> 19"
abbreviation PTR_TO_FUNC :: u32 where "PTR_TO_FUNC \<equiv> 20"
abbreviation PTR_TO_INSN :: u32 where "PTR_TO_INSN \<equiv> 21"
abbreviation CONST_PTR_TO_DYNPTR :: u32 where "CONST_PTR_TO_DYNPTR \<equiv> 22"
abbreviation PTR_TO_MAP_VALUE_OR_NULL :: u32 where "PTR_TO_MAP_VALUE_OR_NULL \<equiv> PTR_MAYBE_NULL OR PTR_TO_MAP_VALUE"
abbreviation PTR_TO_SOCKET_OR_NULL :: u32 where "PTR_TO_SOCKET_OR_NULL \<equiv> PTR_MAYBE_NULL OR PTR_TO_SOCKET"
abbreviation PTR_TO_SOCK_COMMON_OR_NULL :: u32 where "PTR_TO_SOCK_COMMON_OR_NULL \<equiv> PTR_MAYBE_NULL OR PTR_TO_SOCK_COMMON"
abbreviation PTR_TO_TCP_SOCK_OR_NULL :: u32 where "PTR_TO_TCP_SOCK_OR_NULL \<equiv> PTR_MAYBE_NULL OR PTR_TO_TCP_SOCK"
abbreviation PTR_TO_BTF_ID_OR_NULL :: u32 where "PTR_TO_BTF_ID_OR_NULL \<equiv> PTR_MAYBE_NULL OR PTR_TO_BTF_ID"

datatype bpf_func_id =
    BPF_FUNC_unspec | BPF_FUNC_map_lookup_elem | BPF_FUNC_sk_lookup_tcp | BPF_FUNC_sk_lookup_udp
    | BPF_FUNC_skc_lookup_tcp | BPF_FUNC_ringbuf_reserve | BPF_FUNC_kptr_xchg
    | BPF_FUNC_tcp_sock | BPF_FUNC_sk_fullsock | BPF_FUNC_skc_to_tcp_sock
    | BPF_FUNC_skc_to_tcp6_sock | BPF_FUNC_skc_to_udp6_sock | BPF_FUNC_skc_to_mptcp_sock
    | BPF_FUNC_skc_to_tcp_timewait_sock | BPF_FUNC_skc_to_tcp_request_sock
    | BPF_FUNC_for_each_map_elem | BPF_FUNC_find_vma | BPF_FUNC_loop
    | BPF_FUNC_user_ringbuf_drain | BPF_FUNC_timer_set_callback | FUNC_OTHER u32

datatype bpf_dynptr_type =
    BPF_DYNPTR_TYPE_INVALID | BPF_DYNPTR_TYPE_LOCAL | BPF_DYNPTR_TYPE_RINGBUF
    | BPF_DYNPTR_TYPE_SKB | BPF_DYNPTR_TYPE_XDP | BPF_DYNPTR_TYPE_SKB_META
    | BPF_DYNPTR_TYPE_FILE | DYNPTR_TYPE_OTHER u32

end
