(* ===== verification/Verifier.thy ===== *)
theory Verifier
  imports Verifier_Types
begin

text \<open>
  The predicate helpers of \<^verbatim>\<open>shims/kernel/bpf/verifier.c\<close>: register and argument types, tracked
  constants, argument numbers, dynptr types, classes of helpers, and the consistency checks of a
  helper prototype.  The members of the unions of \<^verbatim>\<open>struct bpf_reg_state\<close> are not read by this file
  and not part of the record; \<^verbatim>\<open>arg_btf_id\<close> and \<^verbatim>\<open>arg_size\<close> of a prototype share their storage in
  C, so one list of words holds both.
\<close>

section \<open>State\<close>

abbreviation MAX_BPF_FUNC_REG_ARGS :: int where "MAX_BPF_FUNC_REG_ARGS \<equiv> 5"
abbreviation BPF_BASE_TYPE_MASK :: u32 where "BPF_BASE_TYPE_MASK \<equiv> push_bit 8 1 - 1"
abbreviation BPF_PTR_POISON :: u64 where "BPF_PTR_POISON \<equiv> 1"

definition DYNPTR_TYPE_FLAG_MASK :: u32 where
  "DYNPTR_TYPE_FLAG_MASK = DYNPTR_TYPE_LOCAL OR DYNPTR_TYPE_RINGBUF OR DYNPTR_TYPE_SKB OR DYNPTR_TYPE_XDP OR
     DYNPTR_TYPE_SKB_META OR DYNPTR_TYPE_FILE"

definition BPF_REG_TRUSTED_MODIFIERS :: u32 where
  "BPF_REG_TRUSTED_MODIFIERS = MEM_ALLOC OR PTR_TRUSTED OR NON_OWN_REF"

record tnum =
  tnum_value :: u64
  tnum_mask :: u64

record bpf_reg_state =
  reg_type :: u32
  var_off :: tnum
  reg_id :: u32

record bpf_func_proto =
  arg_type :: "u32 list"
  arg_aux :: "u64 list" \<comment> \<open>the union of \<^verbatim>\<open>arg_btf_id\<close> and \<^verbatim>\<open>arg_size\<close>\<close>

record bpf_call_arg_meta =
  release_regno :: u8

section \<open>Tracked numbers\<close>

definition tnum_const :: "u64 \<Rightarrow> tnum" where
  "tnum_const v = \<lparr> tnum_value = v, tnum_mask = 0 \<rparr>"

definition tnum_subreg :: "tnum \<Rightarrow> tnum" where
  "tnum_subreg t = \<lparr> tnum_value = ucast (ucast (tnum_value t) :: u32), tnum_mask = ucast (ucast (tnum_mask t) :: u32) \<rparr>"

definition tnum_is_const :: "tnum \<Rightarrow> bool" where
  "tnum_is_const t = (tnum_mask t = 0)"

definition tnum_subreg_is_const :: "tnum \<Rightarrow> bool" where
  "tnum_subreg_is_const t = (tnum_mask (tnum_subreg t) = 0)"

definition tnum_equals_const :: "tnum \<Rightarrow> u64 \<Rightarrow> bool" where
  "tnum_equals_const t v = (tnum_is_const t \<and> tnum_value t = v)"

section \<open>Types\<close>

definition base_type :: "u32 \<Rightarrow> u32" where
  "base_type t = t AND BPF_BASE_TYPE_MASK"

definition type_flag :: "u32 \<Rightarrow> u32" where
  "type_flag t = t AND NOT BPF_BASE_TYPE_MASK"

definition type_may_be_null :: "u32 \<Rightarrow> bool" where
  "type_may_be_null t = c_true (t AND PTR_MAYBE_NULL)"

definition bpf_type_has_unsafe_modifiers :: "u32 \<Rightarrow> bool" where
  "bpf_type_has_unsafe_modifiers t = c_true (type_flag t AND NOT BPF_REG_TRUSTED_MODIFIERS)"

definition reg_is_referenced :: "bpf_reg_state \<Rightarrow> bool" where
  "reg_is_referenced reg = (reg_id reg \<noteq> 0)"

definition is_trusted_reg :: "bpf_reg_state \<Rightarrow> bool" where
  "is_trusted_reg reg =
     (if reg_is_referenced reg then True
      else c_true (type_flag (reg_type reg) AND BPF_REG_TRUSTED_MODIFIERS) \<and>
           \<not> bpf_type_has_unsafe_modifiers (reg_type reg))"

definition type_is_pkt_pointer :: "u32 \<Rightarrow> bool" where
  "type_is_pkt_pointer t = (let t = base_type t in t = PTR_TO_PACKET \<or> t = PTR_TO_PACKET_META)"

section \<open>Argument numbers\<close>

text \<open>\<^verbatim>\<open>-arg\<close> negates an unsigned word; storing it in an \<^verbatim>\<open>int\<close> reads it as signed.\<close>

definition argno_from_reg :: "u32 \<Rightarrow> int" where
  "argno_from_reg regno = sint regno"

definition argno_from_arg :: "u32 \<Rightarrow> int" where
  "argno_from_arg arg = sint (- arg)"

definition reg_from_argno :: "int \<Rightarrow> int" where
  "reg_from_argno a = (if a \<ge> 0 then a else if a \<ge> - MAX_BPF_FUNC_REG_ARGS then - a else - 1)"

definition arg_from_argno :: "int \<Rightarrow> int" where
  "arg_from_argno a = (if a < 0 then - a else - 1)"

definition arg_idx_from_argno :: "int \<Rightarrow> int" where
  "arg_idx_from_argno a = arg_from_argno a - 1"

section \<open>Registers\<close>

definition reg_not_null :: "bpf_reg_state \<Rightarrow> bool" where
  "reg_not_null reg =
     (if type_may_be_null (reg_type reg) then False
      else let type = base_type (reg_type reg)
           in type = PTR_TO_SOCKET \<or> type = PTR_TO_TCP_SOCK \<or> type = PTR_TO_MAP_VALUE \<or> type = PTR_TO_MAP_KEY \<or>
              type = PTR_TO_SOCK_COMMON \<or> (type = PTR_TO_BTF_ID \<and> is_trusted_reg reg) \<or>
              (type = PTR_TO_MEM \<and> \<not> c_true (reg_type reg AND PTR_UNTRUSTED)) \<or> type = CONST_PTR_TO_MAP)"

definition type_is_rdonly_mem :: "u32 \<Rightarrow> bool" where
  "type_is_rdonly_mem t = c_true (t AND MEM_RDONLY)"

definition reg_is_pkt_pointer :: "bpf_reg_state \<Rightarrow> bool" where
  "reg_is_pkt_pointer reg = type_is_pkt_pointer (reg_type reg)"

definition reg_is_pkt_pointer_any :: "bpf_reg_state \<Rightarrow> bool" where
  "reg_is_pkt_pointer_any reg = (reg_is_pkt_pointer reg \<or> reg_type reg = PTR_TO_PACKET_END)"

definition reg_is_dynptr_slice_pkt :: "bpf_reg_state \<Rightarrow> bool" where
  "reg_is_dynptr_slice_pkt reg =
     (base_type (reg_type reg) = PTR_TO_MEM \<and>
      c_true (reg_type reg AND (DYNPTR_TYPE_SKB OR DYNPTR_TYPE_XDP OR DYNPTR_TYPE_SKB_META)))"

definition reg_is_init_pkt_pointer :: "bpf_reg_state \<Rightarrow> u32 \<Rightarrow> bool" where
  "reg_is_init_pkt_pointer reg which =
     (reg_type reg = which \<and> reg_id reg = 0 \<and> tnum_equals_const (var_off reg) 0)"

definition is_spillable_regtype :: "u32 \<Rightarrow> bool" where
  "is_spillable_regtype t =
     (base_type t \<in> {PTR_TO_MAP_VALUE, PTR_TO_STACK, PTR_TO_CTX, PTR_TO_PACKET, PTR_TO_PACKET_META, PTR_TO_PACKET_END,
        PTR_TO_FLOW_KEYS, CONST_PTR_TO_MAP, PTR_TO_SOCKET, PTR_TO_SOCK_COMMON, PTR_TO_TCP_SOCK, PTR_TO_XDP_SOCK,
        PTR_TO_BTF_ID, PTR_TO_BUF, PTR_TO_MEM, PTR_TO_FUNC, PTR_TO_MAP_KEY, PTR_TO_ARENA})"

definition is_reg_const :: "bpf_reg_state \<Rightarrow> bool \<Rightarrow> bool" where
  "is_reg_const reg subreg32 =
     (reg_type reg = SCALAR_VALUE \<and> tnum_is_const (if subreg32 then tnum_subreg (var_off reg) else var_off reg))"

definition reg_const_value :: "bpf_reg_state \<Rightarrow> bool \<Rightarrow> u64" where
  "reg_const_value reg subreg32 =
     (if subreg32 then tnum_value (tnum_subreg (var_off reg)) else tnum_value (var_off reg))"

definition is_pointer_value :: "bool \<Rightarrow> bpf_reg_state \<Rightarrow> bool" where
  "is_pointer_value allow_ptr_leaks reg = (if allow_ptr_leaks then False else reg_type reg \<noteq> SCALAR_VALUE)"

section \<open>Classes of helpers\<close>

definition is_acquire_function :: "bpf_func_id \<Rightarrow> bpf_map_type option \<Rightarrow> bool" where
  "is_acquire_function func_id mp =
     (let mtype = (case mp of Some t \<Rightarrow> t | None \<Rightarrow> BPF_MAP_TYPE_UNSPEC)
      in if func_id = BPF_FUNC_sk_lookup_tcp \<or> func_id = BPF_FUNC_sk_lookup_udp \<or> func_id = BPF_FUNC_skc_lookup_tcp \<or>
            func_id = BPF_FUNC_ringbuf_reserve \<or> func_id = BPF_FUNC_kptr_xchg then True
         else if func_id = BPF_FUNC_map_lookup_elem \<and> (mtype = BPF_MAP_TYPE_SOCKMAP \<or> mtype = BPF_MAP_TYPE_SOCKHASH) then True
         else False)"

definition is_ptr_cast_function :: "bpf_func_id \<Rightarrow> bool" where
  "is_ptr_cast_function f =
     (f = BPF_FUNC_tcp_sock \<or> f = BPF_FUNC_sk_fullsock \<or> f = BPF_FUNC_skc_to_tcp_sock \<or> f = BPF_FUNC_skc_to_tcp6_sock \<or>
      f = BPF_FUNC_skc_to_udp6_sock \<or> f = BPF_FUNC_skc_to_mptcp_sock \<or> f = BPF_FUNC_skc_to_tcp_timewait_sock \<or>
      f = BPF_FUNC_skc_to_tcp_request_sock)"

definition is_sync_callback_calling_function :: "bpf_func_id \<Rightarrow> bool" where
  "is_sync_callback_calling_function f =
     (f = BPF_FUNC_for_each_map_elem \<or> f = BPF_FUNC_find_vma \<or> f = BPF_FUNC_loop \<or> f = BPF_FUNC_user_ringbuf_drain)"

definition is_async_callback_calling_function :: "bpf_func_id \<Rightarrow> bool" where
  "is_async_callback_calling_function f = (f = BPF_FUNC_timer_set_callback)"

definition is_callback_calling_function :: "bpf_func_id \<Rightarrow> bool" where
  "is_callback_calling_function f = (is_sync_callback_calling_function f \<or> is_async_callback_calling_function f)"

text \<open>C division truncates towards zero.\<close>

definition is_spi_bounds_valid :: "int \<Rightarrow> int \<Rightarrow> int \<Rightarrow> bool" where
  "is_spi_bounds_valid allocated_stack spi nr_slots =
     (let allocated_slots = (if allocated_stack \<ge> 0 then allocated_stack div 8 else - ((- allocated_stack) div 8))
      in spi - nr_slots + 1 \<ge> 0 \<and> spi < allocated_slots)"

section \<open>Dynptrs\<close>

definition arg_to_dynptr_type :: "u32 \<Rightarrow> bpf_dynptr_type" where
  "arg_to_dynptr_type a =
     (let f = a AND DYNPTR_TYPE_FLAG_MASK
      in if f = DYNPTR_TYPE_LOCAL then BPF_DYNPTR_TYPE_LOCAL
         else if f = DYNPTR_TYPE_RINGBUF then BPF_DYNPTR_TYPE_RINGBUF
         else if f = DYNPTR_TYPE_SKB then BPF_DYNPTR_TYPE_SKB
         else if f = DYNPTR_TYPE_XDP then BPF_DYNPTR_TYPE_XDP
         else if f = DYNPTR_TYPE_SKB_META then BPF_DYNPTR_TYPE_SKB_META
         else if f = DYNPTR_TYPE_FILE then BPF_DYNPTR_TYPE_FILE
         else BPF_DYNPTR_TYPE_INVALID)"

fun get_dynptr_type_flag :: "bpf_dynptr_type \<Rightarrow> u32" where
  "get_dynptr_type_flag BPF_DYNPTR_TYPE_LOCAL = DYNPTR_TYPE_LOCAL"
| "get_dynptr_type_flag BPF_DYNPTR_TYPE_RINGBUF = DYNPTR_TYPE_RINGBUF"
| "get_dynptr_type_flag BPF_DYNPTR_TYPE_SKB = DYNPTR_TYPE_SKB"
| "get_dynptr_type_flag BPF_DYNPTR_TYPE_XDP = DYNPTR_TYPE_XDP"
| "get_dynptr_type_flag BPF_DYNPTR_TYPE_SKB_META = DYNPTR_TYPE_SKB_META"
| "get_dynptr_type_flag BPF_DYNPTR_TYPE_FILE = DYNPTR_TYPE_FILE"
| "get_dynptr_type_flag _ = 0"

definition dynptr_type_referenced :: "bpf_dynptr_type \<Rightarrow> bool" where
  "dynptr_type_referenced t = (t = BPF_DYNPTR_TYPE_RINGBUF \<or> t = BPF_DYNPTR_TYPE_FILE)"

definition error_recoverable_with_nospec :: "cint \<Rightarrow> bool" where
  "error_recoverable_with_nospec err = (err = - EPERM \<or> err = - EACCES \<or> err = - EINVAL)"

section \<open>Prototypes\<close>

definition arg_type_is_mem_size :: "u32 \<Rightarrow> bool" where
  "arg_type_is_mem_size t = (t = ARG_CONST_SIZE \<or> t = ARG_CONST_SIZE_OR_ZERO)"

definition arg_type_is_raw_mem :: "u32 \<Rightarrow> bool" where
  "arg_type_is_raw_mem t = (base_type t = ARG_PTR_TO_MEM \<and> c_true (t AND MEM_UNINIT))"

definition arg_type_is_release :: "u32 \<Rightarrow> bool" where
  "arg_type_is_release t = c_true (t AND OBJ_RELEASE)"

definition arg_type_is_dynptr :: "u32 \<Rightarrow> bool" where
  "arg_type_is_dynptr t = (base_type t = ARG_PTR_TO_DYNPTR)"

definition check_raw_mode_ok :: "bpf_func_proto \<Rightarrow> bool" where
  "check_raw_mode_ok fn =
     (let raw = (\<lambda>i. if arg_type_is_raw_mem (arg_type fn ! i) then 1 else 0 :: int)
      in raw 0 + raw 1 + raw 2 + raw 3 + raw 4 \<le> 1)"

definition check_args_pair_invalid :: "bpf_func_proto \<Rightarrow> nat \<Rightarrow> bool" where
  "check_args_pair_invalid fn arg =
     (let is_fixed = c_true (arg_type fn ! arg AND MEM_FIXED_SIZE);
          has_size = (arg_aux fn ! arg \<noteq> 0);
          is_next_size = (if arg + 1 < 5 then arg_type_is_mem_size (arg_type fn ! (arg + 1)) else False)
      in if base_type (arg_type fn ! arg) \<noteq> ARG_PTR_TO_MEM then is_next_size
         else has_size = is_next_size \<or> is_next_size = is_fixed)"

definition check_arg_pair_ok :: "bpf_func_proto \<Rightarrow> bool" where
  "check_arg_pair_ok fn =
     (if arg_type_is_mem_size (arg_type fn ! 0) \<or> check_args_pair_invalid fn 0 \<or> check_args_pair_invalid fn 1 \<or>
         check_args_pair_invalid fn 2 \<or> check_args_pair_invalid fn 3 \<or> check_args_pair_invalid fn 4
      then False else True)"

text \<open>The loop of \<^verbatim>\<open>check_btf_id_ok\<close> over the arguments from \<open>i\<close> on.\<close>

function btf_id_loop :: "bpf_func_proto \<Rightarrow> nat \<Rightarrow> bool" where
  "btf_id_loop fn i =
     (if i < 5 then
        if base_type (arg_type fn ! i) = ARG_PTR_TO_BTF_ID then arg_aux fn ! i \<noteq> 0
        else if base_type (arg_type fn ! i) = ARG_PTR_TO_SPIN_LOCK then arg_aux fn ! i = BPF_PTR_POISON
        else if base_type (arg_type fn ! i) \<noteq> ARG_PTR_TO_BTF_ID \<and> arg_aux fn ! i \<noteq> 0 \<and>
                (base_type (arg_type fn ! i) \<noteq> ARG_PTR_TO_MEM \<or> \<not> c_true (arg_type fn ! i AND MEM_FIXED_SIZE)) then False
        else btf_id_loop fn (i + 1)
      else True)"
  by auto

termination by (relation "measure (\<lambda>(fn, i). 5 - i)") auto

declare btf_id_loop.simps [simp del]

definition check_btf_id_ok :: "bpf_func_proto \<Rightarrow> bool" where
  "check_btf_id_ok fn = btf_id_loop fn 0"

definition check_mem_arg_rw_flag_ok :: "bpf_func_proto \<Rightarrow> bool" where
  "check_mem_arg_rw_flag_ok fn =
     list_all (\<lambda>i. base_type (arg_type fn ! i) \<noteq> ARG_PTR_TO_MEM \<or> c_true (arg_type fn ! i AND (MEM_WRITE OR MEM_RDONLY))) [0..<5]"

function release_loop :: "bpf_func_proto \<Rightarrow> bpf_call_arg_meta \<Rightarrow> nat \<Rightarrow> bool \<times> bpf_call_arg_meta" where
  "release_loop fn meta i =
     (if i < 5 then
        if arg_type_is_release (arg_type fn ! i) then
          if release_regno meta \<noteq> 0 then (False, meta)
          else release_loop fn (meta\<lparr>release_regno := of_nat (i + 1)\<rparr>) (i + 1)
        else release_loop fn meta (i + 1)
      else (True, meta))"
  by auto

termination by (relation "measure (\<lambda>(fn, meta, i). 5 - i)") auto

declare release_loop.simps [simp del]

definition check_proto_release_reg :: "bpf_func_proto \<Rightarrow> bpf_call_arg_meta \<Rightarrow> bool \<times> bpf_call_arg_meta" where
  "check_proto_release_reg fn meta = release_loop fn meta 0"

text \<open>The conjunction is evaluated left to right: the metadata changes only if the first three checks pass.\<close>

definition check_func_proto :: "bpf_func_proto \<Rightarrow> bpf_call_arg_meta \<Rightarrow> cint \<times> bpf_call_arg_meta" where
  "check_func_proto fn meta =
     (if check_raw_mode_ok fn \<and> check_arg_pair_ok fn \<and> check_mem_arg_rw_flag_ok fn
      then let (ok, meta) = check_proto_release_reg fn meta
           in (if ok \<and> check_btf_id_ok fn then 0 else - EINVAL, meta)
      else (- EINVAL, meta))"


section \<open>Prototypes that pass\<close>

definition is_mem_arg :: "bpf_func_proto \<Rightarrow> nat \<Rightarrow> bool" where
  "is_mem_arg fn i \<longleftrightarrow> base_type (arg_type fn ! i) = ARG_PTR_TO_MEM"

definition is_size_arg :: "bpf_func_proto \<Rightarrow> nat \<Rightarrow> bool" where
  "is_size_arg fn i \<longleftrightarrow> i < 5 \<and> arg_type_is_mem_size (arg_type fn ! i)"

text \<open>Memory arguments: at most one is raw; each declares its access; each either has a fixed size of
  its own and no size argument after it, or no size of its own and a size argument after it; and a
  size argument follows nothing but a memory argument.\<close>

definition mem_args_ok :: "bpf_func_proto \<Rightarrow> bool" where
  "mem_args_ok fn \<longleftrightarrow>
     (\<forall>i < 5. \<forall>j < 5. arg_type_is_raw_mem (arg_type fn ! i) \<and> arg_type_is_raw_mem (arg_type fn ! j) \<longrightarrow> i = j) \<and>
     (\<forall>i < 5. is_mem_arg fn i \<longrightarrow> bit (arg_type fn ! i) 26 \<or> bit (arg_type fn ! i) 9) \<and>
     (\<forall>i < 5. is_mem_arg fn i \<longrightarrow> bit (arg_type fn ! i) 18 = (arg_aux fn ! i \<noteq> 0) \<and>
        is_size_arg fn (Suc i) = (\<not> bit (arg_type fn ! i) 18)) \<and>
     (\<forall>i < 5. is_size_arg fn i \<longrightarrow> i \<noteq> 0 \<and> is_mem_arg fn (i - 1))"

text \<open>Up to the first argument that is an object of a BTF type or a spin lock: that one carries its type
  identifier, the ones before it carry none unless they are memory of a fixed size.\<close>

definition typed_arg :: "bpf_func_proto \<Rightarrow> nat \<Rightarrow> bool" where
  "typed_arg fn i \<longleftrightarrow> base_type (arg_type fn ! i) = ARG_PTR_TO_BTF_ID \<or> base_type (arg_type fn ! i) = ARG_PTR_TO_SPIN_LOCK"

definition btf_arg_ok :: "bpf_func_proto \<Rightarrow> nat \<Rightarrow> bool" where
  "btf_arg_ok fn i \<longleftrightarrow>
     (base_type (arg_type fn ! i) = ARG_PTR_TO_BTF_ID \<longrightarrow> arg_aux fn ! i \<noteq> 0) \<and>
     (base_type (arg_type fn ! i) = ARG_PTR_TO_SPIN_LOCK \<longrightarrow> arg_aux fn ! i = BPF_PTR_POISON) \<and>
     (\<not> typed_arg fn i \<and> arg_aux fn ! i \<noteq> 0 \<longrightarrow> is_mem_arg fn i \<and> bit (arg_type fn ! i) 18)"

definition btf_ids_ok :: "bpf_func_proto \<Rightarrow> bool" where
  "btf_ids_ok fn \<longleftrightarrow> (\<forall>i < 5. (\<forall>k < i. \<not> typed_arg fn k) \<longrightarrow> btf_arg_ok fn i)"

lemma all5: "(\<forall>i < 5. P i) \<longleftrightarrow> P 0 \<and> P 1 \<and> P 2 \<and> P 3 \<and> P (4 :: nat)"
  by (auto simp: numeral_eq_Suc less_Suc_eq)

lemma raw_mode_iff:
  "check_raw_mode_ok fn \<longleftrightarrow>
     (\<forall>i < 5. \<forall>j < 5. arg_type_is_raw_mem (arg_type fn ! i) \<and> arg_type_is_raw_mem (arg_type fn ! j) \<longrightarrow> i = j)"
  unfolding all5 check_raw_mode_ok_def Let_def by simp

lemma rw_flag_iff:
  "check_mem_arg_rw_flag_ok fn \<longleftrightarrow> (\<forall>i < 5. is_mem_arg fn i \<longrightarrow> bit (arg_type fn ! i) 26 \<or> bit (arg_type fn ! i) 9)"
proof -
  have "c_true (t AND (MEM_WRITE OR MEM_RDONLY)) \<longleftrightarrow> bit t 26 \<or> bit t 9" for t :: u32
  proof -
    have "t AND (BIT 26 OR BIT 9) = (t AND BIT 26) OR (t AND BIT 9)"
      by (rule bit_word_eqI) (auto simp only: bit_and_iff bit_or_iff)
    then show ?thesis unfolding c_true_def by (simp only: or_eq_0_iff and_push_bit_1_eq_0_iff de_Morgan_conj not_not)
  qed
  then show ?thesis unfolding check_mem_arg_rw_flag_ok_def list_all_iff is_mem_arg_def by auto
qed

lemma arg_pair_iff:
  "check_arg_pair_ok fn \<longleftrightarrow>
     (\<forall>i < 5. is_mem_arg fn i \<longrightarrow> bit (arg_type fn ! i) 18 = (arg_aux fn ! i \<noteq> 0) \<and>
        is_size_arg fn (Suc i) = (\<not> bit (arg_type fn ! i) 18)) \<and>
     (\<forall>i < 5. is_size_arg fn i \<longrightarrow> i \<noteq> 0 \<and> is_mem_arg fn (i - 1))"
proof -
  have inv: "check_args_pair_invalid fn i \<longleftrightarrow>
      (if is_mem_arg fn i then (arg_aux fn ! i \<noteq> 0) = is_size_arg fn (Suc i) \<or> is_size_arg fn (Suc i) = bit (arg_type fn ! i) 18
       else is_size_arg fn (Suc i))" for i
    unfolding check_args_pair_invalid_def Let_def and_bit_set_iff is_mem_arg_def is_size_arg_def by simp
  have five: "\<not> is_size_arg fn 5" by (simp add: is_size_arg_def)
  have suc: "Suc 0 = 1" "Suc 1 = 2" "Suc 2 = 3" "Suc 3 = 4" "Suc 4 = (5 :: nat)" by simp_all
  have pre: "(1 :: nat) - 1 = 0" "(2 :: nat) - 1 = 1" "(3 :: nat) - 1 = 2" "(4 :: nat) - 1 = 3" by simp_all
  have zero: "arg_type_is_mem_size (arg_type fn ! 0) \<longleftrightarrow> is_size_arg fn 0" by (simp add: is_size_arg_def)
  show ?thesis unfolding check_arg_pair_ok_def all5 inv suc pre zero
    using five by (simp split: if_split) argo
qed

lemma btf_loop_iff: "i \<le> 5 \<Longrightarrow> btf_id_loop fn i \<longleftrightarrow> (\<forall>j. i \<le> j \<and> j < 5 \<and> (\<forall>k. i \<le> k \<and> k < j \<longrightarrow> \<not> typed_arg fn k) \<longrightarrow> btf_arg_ok fn j)"
proof (induction "5 - i" arbitrary: i)
  case 0
  then show ?case by (subst btf_id_loop.simps) auto
next
  case (Suc n i)
  then have i: "i < 5" by simp
  have split: "(\<forall>j. i \<le> j \<and> j < 5 \<and> (\<forall>k. i \<le> k \<and> k < j \<longrightarrow> \<not> typed_arg fn k) \<longrightarrow> btf_arg_ok fn j) \<longleftrightarrow>
     btf_arg_ok fn i \<and> (typed_arg fn i \<or> (\<forall>j. Suc i \<le> j \<and> j < 5 \<and> (\<forall>k. Suc i \<le> k \<and> k < j \<longrightarrow> \<not> typed_arg fn k) \<longrightarrow> btf_arg_ok fn j))"
    (is "?L \<longleftrightarrow> ?R")
  proof
    assume l: ?L
    then have "btf_arg_ok fn i" using i by auto
    moreover have "typed_arg fn i \<or> (\<forall>j. Suc i \<le> j \<and> j < 5 \<and> (\<forall>k. Suc i \<le> k \<and> k < j \<longrightarrow> \<not> typed_arg fn k) \<longrightarrow> btf_arg_ok fn j)"
      using l by (metis Suc_leD Suc_leI le_neq_implies_less)
    ultimately show ?R ..
  next
    assume r: ?R
    show ?L
    proof (intro allI impI, elim conjE)
      fix j assume j: "i \<le> j" "j < 5" "\<forall>k. i \<le> k \<and> k < j \<longrightarrow> \<not> typed_arg fn k"
      show "btf_arg_ok fn j"
      proof (cases "j = i")
        case False
        then have "\<not> typed_arg fn i" using j by auto
        then show ?thesis using r j False by (metis Suc_leD Suc_leI le_neq_implies_less)
      qed (use r in simp)
    qed
  qed
  have ih: "btf_id_loop fn (Suc i) \<longleftrightarrow> (\<forall>j. Suc i \<le> j \<and> j < 5 \<and> (\<forall>k. Suc i \<le> k \<and> k < j \<longrightarrow> \<not> typed_arg fn k) \<longrightarrow> btf_arg_ok fn j)"
    using Suc i by (intro Suc.hyps) auto
  show ?case unfolding split ih[symmetric] using i
    by (subst btf_id_loop.simps) (auto simp: btf_arg_ok_def typed_arg_def is_mem_arg_def and_bit_set_iff simp del: push_bit_of_1)
qed

lemma btf_id_iff: "check_btf_id_ok fn \<longleftrightarrow> btf_ids_ok fn"
  unfolding check_btf_id_ok_def btf_ids_ok_def using btf_loop_iff[of 0 fn] by auto


text \<open>The release loop: a second release argument is refused, the first one is recorded.\<close>

lemma release_loop_set:
  "i \<le> 5 \<Longrightarrow> release_regno meta \<noteq> 0 \<Longrightarrow>
   release_loop fn meta i = (\<forall>j. i \<le> j \<and> j < 5 \<longrightarrow> \<not> arg_type_is_release (arg_type fn ! j), meta)"
proof (induction "5 - i" arbitrary: i)
  case 0
  then show ?case by (subst release_loop.simps) auto
next
  case (Suc n i)
  then have "i < 5" by simp
  moreover have "(\<forall>j. i \<le> j \<and> j < 5 \<longrightarrow> P j) \<longleftrightarrow> P i \<and> (\<forall>j. Suc i \<le> j \<and> j < 5 \<longrightarrow> P j)" if "i < 5" for P :: "nat \<Rightarrow> bool"
    using that by (metis Suc_leD Suc_leI le_neq_implies_less order_refl)
  moreover have "release_loop fn meta (Suc i) = (\<forall>j. Suc i \<le> j \<and> j < 5 \<longrightarrow> \<not> arg_type_is_release (arg_type fn ! j), meta)"
    using Suc by (intro Suc.hyps) auto
  ultimately show ?case using Suc.prems by (subst release_loop.simps) auto
qed

lemma release_loop_none:
  assumes "release_regno meta = 0"
  shows "i \<le> 5 \<Longrightarrow> \<forall>j. i \<le> j \<and> j < 5 \<longrightarrow> \<not> arg_type_is_release (arg_type fn ! j) \<Longrightarrow> release_loop fn meta i = (True, meta)"
proof (induction "5 - i" arbitrary: i)
  case 0
  then show ?case by (subst release_loop.simps) auto
next
  case (Suc n i)
  then have "i < 5" "\<not> arg_type_is_release (arg_type fn ! i)" by auto
  moreover have "release_loop fn meta (Suc i) = (True, meta)" using Suc by (intro Suc.hyps) auto
  ultimately show ?case by (subst release_loop.simps) simp
qed

lemma release_loop_first:
  assumes "r < 5" "arg_type_is_release (arg_type fn ! r)" "release_regno meta = 0"
  shows "i \<le> r \<Longrightarrow> \<forall>j. i \<le> j \<and> j < r \<longrightarrow> \<not> arg_type_is_release (arg_type fn ! j) \<Longrightarrow>
    release_loop fn meta i = (\<forall>j. r < j \<and> j < 5 \<longrightarrow> \<not> arg_type_is_release (arg_type fn ! j), meta\<lparr>release_regno := of_nat (r + 1)\<rparr>)"
proof (induction "r - i" arbitrary: i)
  case 0
  then have i: "i = r" by simp
  have "unat (of_nat (r + 1) :: u8) = r + 1" using assms(1) by (simp only: unsigned_of_nat) (simp add: take_bit_nat_eq_self)
  then have "(of_nat (r + 1) :: u8) \<noteq> 0" by (metis unsigned_0 add_is_0 zero_neq_one)
  then have "release_loop fn (meta\<lparr>release_regno := of_nat (r + 1)\<rparr>) (Suc r) =
      (\<forall>j. Suc r \<le> j \<and> j < 5 \<longrightarrow> \<not> arg_type_is_release (arg_type fn ! j), meta\<lparr>release_regno := of_nat (r + 1)\<rparr>)"
    using assms(1) by (intro release_loop_set) auto
  then show ?case using assms unfolding i by (subst release_loop.simps) (simp add: Suc_le_eq)
next
  case (Suc n i)
  then have "i < r" "\<not> arg_type_is_release (arg_type fn ! i)" by auto
  moreover have "release_loop fn meta (Suc i) =
      (\<forall>j. r < j \<and> j < 5 \<longrightarrow> \<not> arg_type_is_release (arg_type fn ! j), meta\<lparr>release_regno := of_nat (r + 1)\<rparr>)"
    using Suc by (intro Suc.hyps) auto
  ultimately show ?case using assms(1) by (subst release_loop.simps) simp
qed

definition release_args_ok :: "bpf_func_proto \<Rightarrow> bool" where
  "release_args_ok fn \<longleftrightarrow> (\<forall>i < 5. \<forall>j < 5. bit (arg_type fn ! i) 13 \<and> bit (arg_type fn ! j) 13 \<longrightarrow> i = j)"

lemma release_bit: "arg_type_is_release t \<longleftrightarrow> bit t 13"
  unfolding arg_type_is_release_def by (rule and_bit_set_iff)

lemma release_reg_spec:
  assumes "release_regno meta = 0"
  shows "fst (check_proto_release_reg fn meta) \<longleftrightarrow> release_args_ok fn"
    and "r < 5 \<Longrightarrow> bit (arg_type fn ! r) 13 \<Longrightarrow> release_args_ok fn \<Longrightarrow>
         release_regno (snd (check_proto_release_reg fn meta)) = of_nat (r + 1)"
    and "\<forall>i < 5. \<not> bit (arg_type fn ! i) 13 \<Longrightarrow> snd (check_proto_release_reg fn meta) = meta"
proof -
  let ?P = "\<lambda>i. i < 5 \<and> bit (arg_type fn ! i) 13"
  have first: "release_loop fn meta 0 = (\<forall>j. q < j \<and> j < 5 \<longrightarrow> \<not> bit (arg_type fn ! j) 13, meta\<lparr>release_regno := of_nat (q + 1)\<rparr>)"
    if "?P q" "\<forall>j < q. \<not> ?P j" for q
    using release_loop_first[of q fn meta 0] that assms unfolding release_bit by auto
  show "fst (check_proto_release_reg fn meta) \<longleftrightarrow> release_args_ok fn"
  proof (cases "\<exists>i. ?P i")
    case True
    then obtain q where q: "?P q" "\<forall>j < q. \<not> ?P j" using exists_least_iff[of ?P] by blast
    have "(\<forall>j. q < j \<and> j < 5 \<longrightarrow> \<not> bit (arg_type fn ! j) 13) \<longleftrightarrow> release_args_ok fn"
      using q unfolding release_args_ok_def by (metis linorder_neqE_nat)
    then show ?thesis unfolding check_proto_release_reg_def first[OF q] by simp
  next
    case False
    then show ?thesis using release_loop_none[OF assms, of 0 fn] unfolding check_proto_release_reg_def release_args_ok_def release_bit by auto
  qed
  show "release_regno (snd (check_proto_release_reg fn meta)) = of_nat (r + 1)"
    if "r < 5" "bit (arg_type fn ! r) 13" "release_args_ok fn"
  proof -
    have "\<forall>j < r. \<not> ?P j" using that unfolding release_args_ok_def by blast
    then show ?thesis using first[of r] that by (simp add: check_proto_release_reg_def)
  qed
  show "snd (check_proto_release_reg fn meta) = meta" if "\<forall>i < 5. \<not> bit (arg_type fn ! i) 13"
    using release_loop_none[OF assms, of 0 fn] that unfolding check_proto_release_reg_def release_bit by auto
qed

text \<open>C18: \<^verbatim>\<open>check_func_proto\<close> accepts a helper prototype exactly when its memory arguments are well formed,
  at most one argument releases an object and the type identifiers fit, each condition stated per argument;
  a release argument of an accepted prototype is recorded by its register number.\<close>

theorem check_func_proto_correct:
  assumes "release_regno meta = 0"
  shows "(fst (check_func_proto fn meta) = 0 \<longleftrightarrow> mem_args_ok fn \<and> release_args_ok fn \<and> btf_ids_ok fn) \<and>
    fst (check_func_proto fn meta) \<in> {0, - EINVAL} \<and>
    (fst (check_func_proto fn meta) = 0 \<and> r < 5 \<and> bit (arg_type fn ! r) 13 \<longrightarrow>
      release_regno (snd (check_func_proto fn meta)) = of_nat (r + 1))"
proof -
  have mem: "check_raw_mode_ok fn \<and> check_arg_pair_ok fn \<and> check_mem_arg_rw_flag_ok fn \<longleftrightarrow> mem_args_ok fn"
    unfolding mem_args_ok_def raw_mode_iff arg_pair_iff rw_flag_iff by blast
  have e: "check_func_proto fn meta = (if mem_args_ok fn
      then (if fst (check_proto_release_reg fn meta) \<and> check_btf_id_ok fn then 0 else - EINVAL, snd (check_proto_release_reg fn meta))
      else (- EINVAL, meta))"
    unfolding check_func_proto_def mem by (simp add: split_beta Let_def)
  have iff: "fst (check_func_proto fn meta) = 0 \<longleftrightarrow> mem_args_ok fn \<and> release_args_ok fn \<and> btf_ids_ok fn"
    unfolding e release_reg_spec(1)[OF assms] btf_id_iff by simp
  show ?thesis using iff release_reg_spec(2)[OF assms, of r fn] unfolding e by auto
qed

definition sample_proto :: bpf_func_proto where
  "sample_proto = \<lparr> arg_type = [ARG_CONST_MAP_PTR, OBJ_RELEASE OR ARG_PTR_TO_MAP_KEY, MEM_RDONLY OR ARG_PTR_TO_MEM, ARG_CONST_SIZE, ARG_DONTCARE],
     arg_aux = [0, 0, 0, 0, 0] \<rparr>"

theorem check_func_proto_correct_witness:
  "release_regno (snd (check_func_proto sample_proto \<lparr> release_regno = 0 \<rparr>)) = of_nat (1 + 1)"
proof -
  have "fst (check_func_proto sample_proto \<lparr> release_regno = 0 \<rparr>) = 0" by code_simp
  then show ?thesis using check_func_proto_correct[of "\<lparr> release_regno = 0 \<rparr>" sample_proto 1] by (simp add: sample_proto_def)
qed


section \<open>Types, dynptrs and argument numbers\<close>

lemma base_mask_bit: "bit BPF_BASE_TYPE_MASK n \<longleftrightarrow> n < 8"
proof -
  have "BPF_BASE_TYPE_MASK = mask 8" by (simp add: mask_eq_exp_minus_1)
  then show ?thesis by (simp only: bit_mask_iff) auto
qed

lemma base_type_bit: "bit (base_type t) n \<longleftrightarrow> bit t n \<and> n < 8"
  and type_flag_bit: "bit (type_flag t) n \<longleftrightarrow> bit t n \<and> 8 \<le> n"
  unfolding base_type_def type_flag_def bit_and_iff bit_not_iff base_mask_bit by (auto dest: bit_imp_le_length)

text \<open>A type word read without masks: the number in its low byte and the set of its flags.\<close>

definition base_number :: "u32 \<Rightarrow> nat" where
  "base_number t = unat t mod 256"

definition flag_set :: "u32 \<Rightarrow> nat set" where
  "flag_set t = {n. 8 \<le> n \<and> bit t n}"

lemma unat_base_type: "unat (base_type t) = base_number t"
proof -
  have "BPF_BASE_TYPE_MASK = mask 8" by (simp add: mask_eq_exp_minus_1)
  then show ?thesis unfolding base_type_def base_number_def by (simp only: unat_and_mask) simp
qed

lemma base_type_eq: "base_type t = c \<longleftrightarrow> base_number t = unat c"
  unfolding unat_base_type[symmetric] by (rule word_unat_eq_iff)

lemma trusted_modifiers_bit: "bit BPF_REG_TRUSTED_MODIFIERS n \<longleftrightarrow> n \<in> {19, 20, 22}"
  unfolding BPF_REG_TRUSTED_MODIFIERS_def bit_or_iff bit_BIT by auto

lemma flags_meet: "c_true (type_flag t AND m) \<longleftrightarrow> flag_set t \<inter> {n. bit m n} \<noteq> {}"
proof -
  have "type_flag t AND m = 0 \<longleftrightarrow> (\<forall>n. \<not> (bit t n \<and> 8 \<le> n \<and> bit m n))"
    using bit_imp_le_length[of t] unfolding bit_eq_iff bit_and_iff type_flag_bit by fastforce
  then show ?thesis by (auto simp: c_true_def flag_set_def)
qed

lemma is_trusted_reg_iff:
  "is_trusted_reg r \<longleftrightarrow> reg_id r \<noteq> 0 \<or> (flag_set (reg_type r) \<noteq> {} \<and> flag_set (reg_type r) \<subseteq> {19, 20, 22})"
proof -
  have "{n. bit BPF_REG_TRUSTED_MODIFIERS n} = {19, 20, 22}" by (auto simp: trusted_modifiers_bit)
  then have "c_true (type_flag t AND BPF_REG_TRUSTED_MODIFIERS) \<longleftrightarrow> flag_set t \<inter> {19, 20, 22} \<noteq> {}" for t
    by (simp only: flags_meet)
  moreover have "bpf_type_has_unsafe_modifiers t \<longleftrightarrow> \<not> flag_set t \<subseteq> {19, 20, 22}" for t
  proof -
    have "flag_set t \<inter> {n. bit (NOT BPF_REG_TRUSTED_MODIFIERS) n} = flag_set t - {19, 20, 22}"
      by (auto simp: bit_not_iff trusted_modifiers_bit flag_set_def dest: bit_imp_le_length)
    then show ?thesis unfolding bpf_type_has_unsafe_modifiers_def flags_meet by blast
  qed
  ultimately show ?thesis unfolding is_trusted_reg_def reg_is_referenced_def by auto
qed

text \<open>C19: The null check of registers, read off the type word.  A register cannot be null exactly if the may-be-null flag
  (bit 8) is clear and its base type, the low byte, is a socket, a map value, a map key or a map, or is
  \<^verbatim>\<open>PTR_TO_BTF_ID\<close> in a trusted register, or is \<^verbatim>\<open>PTR_TO_MEM\<close> without the untrusted flag (bit 14).  A register
  is trusted exactly if it holds a reference or its flags are not empty and all among allocated,
  trusted and non-owning (bits 19, 20 and 22).  A register that cannot be null is a pointer and can be spilled.\<close>

theorem reg_not_null_exact:
  "(reg_not_null r \<longleftrightarrow> 8 \<notin> flag_set (reg_type r) \<and>
     (base_number (reg_type r) \<in> unat ` {PTR_TO_SOCKET, PTR_TO_TCP_SOCK, PTR_TO_MAP_VALUE, PTR_TO_MAP_KEY, PTR_TO_SOCK_COMMON, CONST_PTR_TO_MAP} \<or>
      base_number (reg_type r) = unat PTR_TO_BTF_ID \<and> is_trusted_reg r \<or>
      base_number (reg_type r) = unat PTR_TO_MEM \<and> 14 \<notin> flag_set (reg_type r))) \<and>
   (is_trusted_reg r \<longleftrightarrow> reg_id r \<noteq> 0 \<or> (flag_set (reg_type r) \<noteq> {} \<and> flag_set (reg_type r) \<subseteq> {19, 20, 22})) \<and>
   (reg_not_null r \<longrightarrow> is_spillable_regtype (reg_type r) \<and> is_pointer_value False r)"
proof (intro conjI impI)
  let ?t = "reg_type r"
  have null: "type_may_be_null ?t \<longleftrightarrow> 8 \<in> flag_set ?t"
    unfolding type_may_be_null_def c_true_and_bit flag_set_def by simp
  have untrusted: "c_true (?t AND PTR_UNTRUSTED) \<longleftrightarrow> 14 \<in> flag_set ?t"
    unfolding c_true_and_bit flag_set_def by simp
  show "reg_not_null r \<longleftrightarrow> 8 \<notin> flag_set ?t \<and>
     (base_number ?t \<in> unat ` {PTR_TO_SOCKET, PTR_TO_TCP_SOCK, PTR_TO_MAP_VALUE, PTR_TO_MAP_KEY, PTR_TO_SOCK_COMMON, CONST_PTR_TO_MAP} \<or>
      base_number ?t = unat PTR_TO_BTF_ID \<and> is_trusted_reg r \<or>
      base_number ?t = unat PTR_TO_MEM \<and> 14 \<notin> flag_set ?t)"
    unfolding reg_not_null_def null untrusted Let_def base_type_eq by auto
  show "is_trusted_reg r \<longleftrightarrow> reg_id r \<noteq> 0 \<or> (flag_set ?t \<noteq> {} \<and> flag_set ?t \<subseteq> {19, 20, 22})"
    by (rule is_trusted_reg_iff)
  assume nn: "reg_not_null r"
  have b: "base_type ?t \<in> {PTR_TO_SOCKET, PTR_TO_TCP_SOCK, PTR_TO_MAP_VALUE, PTR_TO_MAP_KEY, PTR_TO_SOCK_COMMON,
      PTR_TO_BTF_ID, PTR_TO_MEM, CONST_PTR_TO_MAP}"
    using nn by (auto simp: reg_not_null_def Let_def split: if_splits)
  then show "is_spillable_regtype ?t" unfolding is_spillable_regtype_def by (elim insertE) simp_all
  have "base_type SCALAR_VALUE = SCALAR_VALUE" by (simp add: base_type_def)
  then have "base_type ?t \<noteq> base_type SCALAR_VALUE" using b by (elim insertE) simp_all
  then show "is_pointer_value False r" by (auto simp: is_pointer_value_def)
qed

theorem reg_not_null_exact_witness:
  "is_spillable_regtype PTR_TO_MAP_VALUE"
  using reg_not_null_exact[of "\<lparr> reg_type = PTR_TO_MAP_VALUE, var_off = tnum_const 0, reg_id = 0 \<rparr>"]
  by (simp add: reg_not_null_def base_type_def type_may_be_null_def)

text \<open>C5: Dynptr types and their flags are inverse to each other: an argument type without dynptr flags, extended
  by the flag of a dynptr type, is recognised as that type; and a recognised argument type carries
  exactly the flag of its dynptr type.  Combinations of several flags are invalid.\<close>

theorem dynptr_type_roundtrip:
  "(a AND DYNPTR_TYPE_FLAG_MASK = 0 \<and> (\<forall>n. t \<noteq> DYNPTR_TYPE_OTHER n) \<longrightarrow> arg_to_dynptr_type (a OR get_dynptr_type_flag t) = t) \<and>
   (arg_to_dynptr_type a \<noteq> BPF_DYNPTR_TYPE_INVALID \<longrightarrow>
      get_dynptr_type_flag (arg_to_dynptr_type a) = a AND DYNPTR_TYPE_FLAG_MASK)"
proof (intro conjI impI)
  assume a: "a AND DYNPTR_TYPE_FLAG_MASK = 0 \<and> (\<forall>n. t \<noteq> DYNPTR_TYPE_OTHER n)"
  have "get_dynptr_type_flag t AND DYNPTR_TYPE_FLAG_MASK = get_dynptr_type_flag t"
    by (cases t) (simp_all add: DYNPTR_TYPE_FLAG_MASK_def)
  moreover have "(a OR f) AND DYNPTR_TYPE_FLAG_MASK = (a AND DYNPTR_TYPE_FLAG_MASK) OR (f AND DYNPTR_TYPE_FLAG_MASK)" for f
    by (rule bit_word_eqI) (auto simp only: bit_and_iff bit_or_iff)
  ultimately have "(a OR get_dynptr_type_flag t) AND DYNPTR_TYPE_FLAG_MASK = get_dynptr_type_flag t" using a by simp
  then show "arg_to_dynptr_type (a OR get_dynptr_type_flag t) = t"
    unfolding arg_to_dynptr_type_def Let_def using a by (cases t) simp_all
next
  assume "arg_to_dynptr_type a \<noteq> BPF_DYNPTR_TYPE_INVALID"
  then show "get_dynptr_type_flag (arg_to_dynptr_type a) = a AND DYNPTR_TYPE_FLAG_MASK"
    unfolding arg_to_dynptr_type_def Let_def by (simp split: if_splits)
qed

theorem dynptr_type_roundtrip_witness:
  "arg_to_dynptr_type (ARG_PTR_TO_DYNPTR OR get_dynptr_type_flag BPF_DYNPTR_TYPE_SKB) = BPF_DYNPTR_TYPE_SKB"
  using dynptr_type_roundtrip[of ARG_PTR_TO_DYNPTR BPF_DYNPTR_TYPE_SKB] by (simp add: DYNPTR_TYPE_FLAG_MASK_def)

lemma sint_small: "unat (x :: u32) < 2 ^ 31 \<Longrightarrow> sint x = int (unat x)"
  "unat x < 2 ^ 31 \<Longrightarrow> sint (- x) = - int (unat x)"
proof -
  have s: "- (2 ^ 31) \<le> k \<Longrightarrow> k < 2 ^ 31 \<Longrightarrow> sint (of_int k :: u32) = k" for k
    by (simp add: signed_of_int signed_take_bit_int_eq_self)
  have p: "of_int (int (unat x)) = x" and m: "of_int (- int (unat x)) = - x" by simp_all
  have b: "unat x < 2 ^ 31 \<Longrightarrow> int (unat x) < 2 ^ 31" by (metis of_nat_less_iff of_nat_numeral of_nat_power)
  show "unat x < 2 ^ 31 \<Longrightarrow> sint x = int (unat x)"
    using b s[of "int (unat x)"] unfolding p by (meson neg_le_0_iff_le of_nat_0_le_iff order_trans zero_le_numeral zero_le_power)
  show "unat x < 2 ^ 31 \<Longrightarrow> sint (- x) = - int (unat x)"
    using b s[of "- int (unat x)"] unfolding m by (meson neg_le_iff_le less_imp_le neg_le_0_iff_le of_nat_0_le_iff order_le_less_trans zero_less_numeral zero_less_power)
qed

text \<open>Argument numbers encode register numbers and argument positions without confusion: for numbers
  below \<^verbatim>\<open>2^31\<close> each decoder inverts its encoder and rejects the other encoding with \<open>-1\<close>, except that the
  first five arguments, which are passed in registers, also decode to their register.\<close>

theorem argno_roundtrip:
  assumes "unat n < 2 ^ 31" "0 < n"
  shows "reg_from_argno (argno_from_reg n) = int (unat n) \<and> arg_from_argno (argno_from_reg n) = - 1 \<and>
    arg_from_argno (argno_from_arg n) = int (unat n) \<and> arg_idx_from_argno (argno_from_arg n) = int (unat n) - 1 \<and>
    reg_from_argno (argno_from_arg n) = (if n \<le> 5 then int (unat n) else - 1)"
proof -
  have "n \<le> 5 \<longleftrightarrow> unat n \<le> 5" by (simp add: word_le_nat_alt)
  also have "\<dots> \<longleftrightarrow> int (unat n) \<le> 5" by linarith
  finally have n: "n \<le> 5 \<longleftrightarrow> int (unat n) \<le> 5" .
  have "0 < unat n" using assms(2) by (simp add: word_less_nat_alt)
  then have pos: "0 < int (unat n)" by linarith
  show ?thesis using pos
    unfolding argno_from_reg_def argno_from_arg_def sint_small[OF assms(1)] reg_from_argno_def arg_from_argno_def arg_idx_from_argno_def n
    by auto
qed

theorem argno_roundtrip_witness:
  "reg_from_argno (argno_from_reg 7) = int (unat (7 :: u32))"
  by (rule argno_roundtrip[THEN conjunct1]) simp_all

end
