(* ===== verification/Hlist.thy ===== *)
theory Hlist
  imports Bpf_Prelude
begin

text \<open>
  The hash-list primitives of \<^verbatim>\<open>shims/kernel/bpf/bpf_local_storage.c\<close> at pointer level.  A node
  has a \<^verbatim>\<open>next\<close> pointer and a \<^verbatim>\<open>pprev\<close> that points to the cell holding the pointer to it: the
  \<^verbatim>\<open>first\<close> cell of a head or the \<^verbatim>\<open>next\<close> cell of a node.  The heap is shared by all lists, so
  the frame lemmas below are about aliasing.  \<open>hlist s h xs\<close> says that the list at head \<open>h\<close> consists of
  the nodes \<open>xs\<close>.
\<close>

section \<open>Heap and operations\<close>

datatype ('h, 'n) cell = First 'h | Next 'n

record ('h, 'n) hheap =
  first :: "'h \<Rightarrow> 'n option"
  hnext :: "'n \<Rightarrow> 'n option"
  pprev :: "'n \<Rightarrow> ('h, 'n) cell option"

fun deref :: "('h, 'n) hheap \<Rightarrow> ('h, 'n) cell \<Rightarrow> 'n option" where
  "deref s (First h) = first s h"
| "deref s (Next n) = hnext s n"

fun assign :: "('h, 'n) cell \<Rightarrow> 'n option \<Rightarrow> ('h, 'n) hheap \<Rightarrow> ('h, 'n) hheap" where
  "assign (First h) v s = s\<lparr>first := (first s)(h := v)\<rparr>"
| "assign (Next n) v s = s\<lparr>hnext := (hnext s)(n := v)\<rparr>"

definition set_pprev :: "'n \<Rightarrow> ('h, 'n) cell option \<Rightarrow> ('h, 'n) hheap \<Rightarrow> ('h, 'n) hheap" where
  "set_pprev n v s = s\<lparr>pprev := (pprev s)(n := v)\<rparr>"

definition INIT_HLIST_HEAD :: "'h \<Rightarrow> ('h, 'n) hheap \<Rightarrow> ('h, 'n) hheap" where
  "INIT_HLIST_HEAD h s = assign (First h) None s"

definition INIT_HLIST_NODE :: "'n \<Rightarrow> ('h, 'n) hheap \<Rightarrow> ('h, 'n) hheap" where
  "INIT_HLIST_NODE n s = set_pprev n None (assign (Next n) None s)"

definition hlist_unhashed :: "('h, 'n) hheap \<Rightarrow> 'n \<Rightarrow> bool" where
  "hlist_unhashed s n = (pprev s n = None)"

definition hlist_unhashed_lockless :: "('h, 'n) hheap \<Rightarrow> 'n \<Rightarrow> bool" where
  "hlist_unhashed_lockless s n = hlist_unhashed s n"

definition hlist_add_head_rcu :: "'n \<Rightarrow> 'h \<Rightarrow> ('h, 'n) hheap \<Rightarrow> ('h, 'n) hheap" where
  "hlist_add_head_rcu n h s =
     (let fst_node = first s h;
          s = assign (Next n) fst_node s;
          s = (case fst_node of Some f \<Rightarrow> set_pprev f (Some (Next n)) s | None \<Rightarrow> s);
          s = assign (First h) (Some n) s
      in set_pprev n (Some (First h)) s)"

definition hlist_add_head :: "'n \<Rightarrow> 'h \<Rightarrow> ('h, 'n) hheap \<Rightarrow> ('h, 'n) hheap" where
  "hlist_add_head n h s = hlist_add_head_rcu n h s"

definition hlist_del_init_rcu :: "'n \<Rightarrow> ('h, 'n) hheap \<Rightarrow> ('h, 'n) hheap" where
  "hlist_del_init_rcu n s =
     (let s = (case pprev s n of
                 None \<Rightarrow> s
               | Some pp \<Rightarrow>
                   let s' = (case hnext s n of Some m \<Rightarrow> set_pprev m (pprev s n) s | None \<Rightarrow> s)
                   in assign pp (hnext s n) s')
      in INIT_HLIST_NODE n s)"

definition hlist_is_singular_node :: "('h, 'n) hheap \<Rightarrow> 'n \<Rightarrow> 'h \<Rightarrow> bool" where
  "hlist_is_singular_node s n h = (hnext s n = None \<and> pprev s n = Some (First h))"

section \<open>Lists in the heap\<close>

fun hchain :: "('h, 'n) hheap \<Rightarrow> ('h, 'n) cell \<Rightarrow> 'n list \<Rightarrow> bool" where
  "hchain s l [] \<longleftrightarrow> deref s l = None"
| "hchain s l (n # ns) \<longleftrightarrow> deref s l = Some n \<and> pprev s n = Some l \<and> hchain s (Next n) ns"

definition hlist :: "('h, 'n) hheap \<Rightarrow> 'h \<Rightarrow> 'n list \<Rightarrow> bool" where
  "hlist s h xs \<longleftrightarrow> distinct xs \<and> hchain s (First h) xs"

lemma deref_assign: "deref (assign l v s) l' = (if l' = l then v else deref s l')"
  by (cases l; cases l') auto

lemma pprev_assign [simp]: "pprev (assign l v s) = pprev s"
  by (cases l) auto

lemma deref_set_pprev [simp]: "deref (set_pprev n v s) l = deref s l"
  by (cases l) (auto simp: set_pprev_def)

lemma pprev_set_pprev: "pprev (set_pprev n v s) = (pprev s)(n := v)"
  by (simp add: set_pprev_def)

lemma first_assign: "first (assign l v s) h = (if l = First h then v else first s h)"
  and hnext_assign: "hnext (assign l v s) n = (if l = Next n then v else hnext s n)"
  by (cases l; auto)+

lemma first_set_pprev [simp]: "first (set_pprev n v s) = first s"
  and hnext_set_pprev [simp]: "hnext (set_pprev n v s) = hnext s"
  by (simp_all add: set_pprev_def)

declare assign.simps [simp del]

lemma cell_image_iff [simp]: "Next x \<in> Next ` S \<longleftrightarrow> x \<in> S" "First h \<notin> Next ` S"
  by auto

lemmas cell_simps = deref_assign first_assign hnext_assign pprev_set_pprev

lemma hchain_cong:
  "(\<And>c. c = l \<or> c \<in> Next ` set xs \<Longrightarrow> deref s' c = deref s c) \<Longrightarrow> (\<And>n. n \<in> set xs \<Longrightarrow> pprev s' n = pprev s n) \<Longrightarrow>
   hchain s' l xs \<longleftrightarrow> hchain s l xs"
  by (induction xs arbitrary: l) auto

lemma hchain_pprev:
  "hchain s l xs \<Longrightarrow> n \<in> set xs \<Longrightarrow> pprev s n = Some l \<or> (\<exists>m \<in> set xs. pprev s n = Some (Next m))"
  by (induction xs arbitrary: l) auto

lemma hchain_next: "hchain s l xs \<Longrightarrow> n \<in> set xs \<Longrightarrow> hnext s n = Some m \<Longrightarrow> m \<in> set xs"
proof (induction xs arbitrary: l)
  case (Cons x xs)
  then show ?case by (cases "n = x"; cases xs) auto
qed simp

lemma hlist_unique: "hlist s h xs \<Longrightarrow> hlist s h ys \<Longrightarrow> xs = ys"
proof -
  have "hchain s l xs \<Longrightarrow> hchain s l ys \<Longrightarrow> xs = ys" for l
  proof (induction xs arbitrary: l ys)
    case Nil
    then show ?case by (cases ys) auto
  next
    case (Cons x xs)
    then show ?case by (cases ys) auto
  qed
  then show "hlist s h xs \<Longrightarrow> hlist s h ys \<Longrightarrow> xs = ys" by (auto simp: hlist_def)
qed

section \<open>Insertion\<close>

lemma deref_add:
  "deref (hlist_add_head_rcu n h s) c = (if c = First h then Some n else if c = Next n then first s h else deref s c)"
  unfolding hlist_add_head_rcu_def Let_def by (cases "first s h") (auto simp: cell_simps)

lemma first_add: "first (hlist_add_head_rcu n h s) h' = (if h' = h then Some n else first s h')"
  and hnext_add: "hnext (hlist_add_head_rcu n h s) m = (if m = n then first s h else hnext s m)"
  using deref_add[of n h s "First h'"] deref_add[of n h s "Next m"] by auto

lemma pprev_add:
  "pprev (hlist_add_head_rcu n h s) m =
     (if m = n then Some (First h) else if first s h = Some m then Some (Next n) else pprev s m)"
  unfolding hlist_add_head_rcu_def Let_def by (cases "first s h") (auto simp: cell_simps)

lemmas add_simps = deref_add first_add hnext_add pprev_add

lemma hlist_add_head_spec:
  assumes "hlist s h xs" "n \<notin> set xs"
  shows "hlist (hlist_add_head_rcu n h s) h (n # xs)"
proof (cases xs)
  case Nil
  then show ?thesis using assms by (simp add: hlist_def add_simps)
next
  case (Cons x ys)
  have c: "first s h = Some x" "hchain s (Next x) ys" "x \<noteq> n" "distinct xs" "x \<notin> set ys" "n \<notin> set ys"
    using assms Cons by (auto simp: hlist_def)
  have "hchain (hlist_add_head_rcu n h s) (Next x) ys \<longleftrightarrow> hchain s (Next x) ys"
    using c by (intro hchain_cong) (auto simp: add_simps)
  then show ?thesis using c assms(2) Cons by (auto simp: hlist_def add_simps)
qed

lemma hlist_add_head_frame:
  assumes "hlist s h' ys" "h' \<noteq> h" "n \<notin> set ys" "hlist s h xs" "set xs \<inter> set ys = {}"
  shows "hlist (hlist_add_head_rcu n h s) h' ys"
proof -
  have "first s h = Some m \<Longrightarrow> m \<in> set xs" for m using assms(4) by (cases xs) (auto simp: hlist_def)
  then have "hchain (hlist_add_head_rcu n h s) (First h') ys \<longleftrightarrow> hchain s (First h') ys"
    using assms by (intro hchain_cong) (auto simp: add_simps)
  then show ?thesis using assms(1) by (simp add: hlist_def)
qed


section \<open>Removal\<close>

lemma del_unhashed: "hlist_unhashed (hlist_del_init_rcu n s) n"
  by (simp add: hlist_unhashed_def hlist_del_init_rcu_def INIT_HLIST_NODE_def Let_def cell_simps)

lemma deref_del:
  "pprev s n = Some pp \<Longrightarrow>
   deref (hlist_del_init_rcu n s) c = (if c = Next n then None else if c = pp then hnext s n else deref s c)"
  unfolding hlist_del_init_rcu_def INIT_HLIST_NODE_def Let_def by (cases "hnext s n") (auto simp: cell_simps)

lemma pprev_del:
  "pprev s n = Some pp \<Longrightarrow>
   pprev (hlist_del_init_rcu n s) m = (if m = n then None else if hnext s n = Some m then Some pp else pprev s m)"
  unfolding hlist_del_init_rcu_def INIT_HLIST_NODE_def Let_def by (cases "hnext s n") (auto simp: cell_simps)

lemmas del_simps = deref_del pprev_del

lemma hchain_del:
  "hchain s l (xs @ n # ys) \<Longrightarrow> distinct (xs @ n # ys) \<Longrightarrow> l \<notin> Next ` set (xs @ n # ys) \<Longrightarrow>
   hchain (hlist_del_init_rcu n s) l (xs @ ys) \<and>
   pprev s n = Some (if xs = [] then l else Next (last xs))"
proof (induction xs arbitrary: l)
  case Nil
  then have pp: "pprev s n = Some l" and c: "hchain s (Next n) ys" by auto
  show ?case
  proof (cases ys)
    case Nil
    then show ?thesis using pp c \<open>l \<notin> _\<close> by (auto simp: del_simps[OF pp])
  next
    case (Cons y zs)
    then have y: "hnext s n = Some y" "hchain s (Next y) zs" using c by auto
    have "hchain (hlist_del_init_rcu n s) (Next y) zs \<longleftrightarrow> hchain s (Next y) zs"
      using Nil.prems Cons y(1) by (intro hchain_cong) (auto simp: del_simps[OF pp])
    then show ?thesis using y Nil.prems Cons pp by (auto simp: del_simps[OF pp])
  qed
next
  case (Cons x xs)
  then have h: "hchain s (Next x) (xs @ n # ys)" "deref s l = Some x" "pprev s x = Some l" by auto
  have ih: "hchain (hlist_del_init_rcu n s) (Next x) (xs @ ys)"
    and pp: "pprev s n = Some (if xs = [] then Next x else Next (last xs))"
    using Cons.IH[OF h(1)] Cons.prems by auto
  have "hnext s n \<noteq> Some x"
  proof
    assume "hnext s n = Some x"
    then have "x \<in> set (xs @ n # ys)" using hchain_next[OF h(1), of n x] by simp
    then show False using Cons.prems by auto
  qed
  moreover have "l \<noteq> (if xs = [] then Next x else Next (last xs))" using Cons.prems by auto
  ultimately show ?case using ih h pp Cons.prems by (auto simp: del_simps[OF pp])
qed

lemma hlist_del_spec:
  assumes "hlist s h (xs @ n # ys)" shows "hlist (hlist_del_init_rcu n s) h (xs @ ys)"
  using hchain_del[of s "First h" xs n ys] assms by (auto simp: hlist_def)

lemma hlist_del_remove1:
  assumes "hlist s h xs" "n \<in> set xs" shows "hlist (hlist_del_init_rcu n s) h (remove1 n xs)"
proof -
  obtain as bs where xs: "xs = as @ n # bs" "n \<notin> set as" using assms(2) by (metis split_list_first)
  then have "remove1 n xs = as @ bs" by (simp add: remove1_append)
  then show ?thesis using hlist_del_spec[of s h as n bs] assms(1) xs by simp
qed

lemma hlist_del_frame:
  assumes "hlist s h xs" "n \<in> set xs" "hlist s h' ys" "h' \<noteq> h" "set xs \<inter> set ys = {}"
  shows "hlist (hlist_del_init_rcu n s) h' ys"
proof -
  have pp: "pprev s n = Some (First h) \<or> (\<exists>m \<in> set xs. pprev s n = Some (Next m))"
    using hchain_pprev assms(1,2) by (metis hlist_def)
  then obtain p where p: "pprev s n = Some p" "p = First h \<or> p \<in> Next ` set xs" by auto
  have nx: "hnext s n = Some m \<Longrightarrow> m \<in> set xs" for m using hchain_next assms(1,2) by (metis hlist_def)
  have "hchain (hlist_del_init_rcu n s) (First h') ys \<longleftrightarrow> hchain s (First h') ys"
    using assms p(2) nx by (intro hchain_cong) (auto simp: del_simps[OF p(1)])
  then show ?thesis using assms(3) by (simp add: hlist_def)
qed

lemma hlist_singular:
  assumes "hlist s h xs" "n \<in> set xs" shows "hlist_is_singular_node s n h \<longleftrightarrow> xs = [n]"
proof -
  obtain as bs where xs: "xs = as @ n # bs" using assms(2) by (metis split_list)
  have "pprev s n = Some (if as = [] then First h else Next (last as))"
    using hchain_del[of s "First h" as n bs] assms(1) xs by (auto simp: hlist_def)
  moreover have "hchain s (Next n) bs"
  proof -
    have "hchain s l (as @ n # bs) \<Longrightarrow> hchain s (Next n) bs" for l by (induction as arbitrary: l) auto
    then show ?thesis using assms(1) xs by (auto simp: hlist_def)
  qed
  then have "hnext s n = None \<longleftrightarrow> bs = []" by (cases bs) auto
  moreover have "xs = [n] \<longleftrightarrow> as = [] \<and> bs = []" using xs by (cases as) auto
  ultimately show ?thesis by (simp add: hlist_is_singular_node_def)
qed

lemma hlist_hashed: "hlist s h xs \<Longrightarrow> n \<in> set xs \<Longrightarrow> \<not> hlist_unhashed s n"
  using hchain_pprev[of s "First h" xs n] by (auto simp: hlist_def hlist_unhashed_def)

end
