(* ===== verification/Local_Storage.thy ===== *)
theory Local_Storage
  imports Hlist Map_Attr
begin

text \<open>
  Local storage (\<^verbatim>\<open>shims/kernel/bpf/bpf_local_storage.c\<close>).  Storages, maps and elements are
  numbered objects.  An element carries three hash-list nodes (in its map's bucket, in its storage,
  and, sharing memory with the RCU head, in a list of elements to free); all of them live in one
  \<open>Hlist\<close> heap.  A storage owns the list of its elements, a cache of sixteen element
  pointers indexed by the map's \<^verbatim>\<open>cache_idx\<close>, the owner pointer and a memory charge.  The locks of
  the file are no-ops that always succeed, and \<^verbatim>\<open>mem_uncharge\<close> has no effect in the shim.  Sizes
  follow the C layout: an element is 128 bytes, a storage 184, a map 48 and a bucket 16.
\<close>

section \<open>State\<close>

abbreviation BPF_LOCAL_STORAGE_CACHE_SIZE :: nat where "BPF_LOCAL_STORAGE_CACHE_SIZE \<equiv> 16"
abbreviation MAX_BPF_STACK :: u64 where "MAX_BPF_STACK \<equiv> 512"
abbreviation U16_MAX :: u64 where "U16_MAX \<equiv> 65535"
abbreviation U64_MAX :: u64 where "U64_MAX \<equiv> NOT 0"
abbreviation BPF_F_LOCK :: u64 where "BPF_F_LOCK \<equiv> 4"
abbreviation BPF_F_CLONE :: u32 where "BPF_F_CLONE \<equiv> BIT 9"
abbreviation BPF_SPIN_LOCK :: u32 where "BPF_SPIN_LOCK \<equiv> BIT 0"
abbreviation sizeof_selem :: u64 where "sizeof_selem \<equiv> 128"
abbreviation sizeof_local_storage :: u32 where "sizeof_local_storage \<equiv> 184"
abbreviation sizeof_smap :: u64 where "sizeof_smap \<equiv> 48"
abbreviation sizeof_ls_bucket :: u64 where "sizeof_ls_bucket \<equiv> 16"

definition BPF_LOCAL_STORAGE_CREATE_FLAG_MASK :: u32 where
  "BPF_LOCAL_STORAGE_CREATE_FLAG_MASK = BPF_F_NO_PREALLOC OR BPF_F_CLONE"

text \<open>\<^verbatim>\<open>min_t(u32, ...)\<close> converts both operands to \<^verbatim>\<open>u32\<close> before it compares them.\<close>

definition BPF_LOCAL_STORAGE_MAX_VALUE_SIZE :: u32 where
  "BPF_LOCAL_STORAGE_MAX_VALUE_SIZE =
     (let min1 = (ucast (ucast KMALLOC_MAX_SIZE - MAX_BPF_STACK - sizeof_selem) :: u32);
          min2 = (ucast (U16_MAX - sizeof_selem) :: u32)
      in if min1 < min2 then min1 else min2)"

type_synonym selem = nat
type_synonym storage = nat
type_synonym smap = nat

datatype ls_node = Map_node selem | Snode selem | Free_node selem
datatype ls_head = Bucket nat | Storage_list storage | Free_list nat

record ls_attr = bpf_attr +
  attr_btf_key_type_id :: u32
  attr_btf_value_type_id :: u32

record btf_type =
  btf_kind :: u32
  btf_size :: u32

record local_storage_map =
  ls_record :: "u32 option"
  bucket_log :: u32
  ls_elem_size :: u16
  cache_idx :: u16

record local_storage =
  cache :: "selem option list"
  owner :: "u64 option"
  mem_charge :: u64
  owner_refcnt :: u32 \<comment> \<open>an \<^verbatim>\<open>int\<close>, read as signed\<close>

text \<open>The state: the hash lists, the map of each element's data, the storage an element points to, the maps,
  the storages, and the cell an owner keeps its storage pointer in.\<close>

record ls_state =
  lists :: "(ls_head, ls_node) hheap"
  sdata_smap :: "selem \<Rightarrow> smap"
  selem_storage :: "selem \<Rightarrow> storage option"
  smaps :: "smap \<Rightarrow> local_storage_map"
  storages :: "storage \<Rightarrow> local_storage"
  owner_cell :: "u64 \<Rightarrow> storage option"

definition upd_storage :: "storage \<Rightarrow> (local_storage \<Rightarrow> local_storage) \<Rightarrow> ls_state \<Rightarrow> ls_state" where
  "upd_storage l f s = s\<lparr>storages := (storages s)(l := f (storages s l))\<rparr>"

section \<open>Environment\<close>

definition refcount_inc_not_zero :: "u32 \<Rightarrow> bool \<times> u32" where
  "refcount_inc_not_zero refs = (if sint refs \<le> 0 then (False, refs) else (True, refs + 1))"

definition refcount_dec :: "u32 \<Rightarrow> u32" where
  "refcount_dec refs = refs - 1"

definition btf_type_is_i32 :: "btf_type option \<Rightarrow> bool" where
  "btf_type_is_i32 t = (case t of None \<Rightarrow> False | Some t \<Rightarrow> btf_kind t = 1 \<and> btf_size t = 4)"

definition btf_record_has_field :: "u32 option \<Rightarrow> u32 \<Rightarrow> bool" where
  "btf_record_has_field rec field = (case rec of None \<Rightarrow> False | Some fs \<Rightarrow> c_true (fs AND field))"

section \<open>Operations\<close>

definition selem_linked_to_storage_lockless :: "ls_state \<Rightarrow> selem \<Rightarrow> bool" where
  "selem_linked_to_storage_lockless s e = (\<not> hlist_unhashed_lockless (lists s) (Snode e))"

definition selem_linked_to_storage :: "ls_state \<Rightarrow> selem \<Rightarrow> bool" where
  "selem_linked_to_storage s e = (\<not> hlist_unhashed (lists s) (Snode e))"

definition selem_linked_to_map :: "ls_state \<Rightarrow> selem \<Rightarrow> bool" where
  "selem_linked_to_map s e = (\<not> hlist_unhashed (lists s) (Map_node e))"

definition local_storage_insert_cache :: "storage \<Rightarrow> smap \<Rightarrow> selem \<Rightarrow> ls_state \<Rightarrow> ls_state" where
  "local_storage_insert_cache l m e s =
     (let idx = unat (cache_idx (smaps s m))
      in if idx \<ge> BPF_LOCAL_STORAGE_CACHE_SIZE then s
         else if selem_linked_to_storage s e
         then upd_storage l (\<lambda>st. st\<lparr>cache := (cache st)[idx := Some e]\<rparr>) s
         else s)"

text \<open>The slow path: follow the storage's list to the first element of the map.\<close>

partial_function (option) find_selem :: "ls_state \<Rightarrow> smap \<Rightarrow> ls_node option \<Rightarrow> selem option option" where
  "find_selem s m n =
     (case n of
        Some (Snode e) \<Rightarrow> if sdata_smap s e = m then Some (Some e) else find_selem s m (hnext (lists s) (Snode e))
      | _ \<Rightarrow> Some None)"

declare find_selem.simps [code]

definition bpf_local_storage_lookup :: "storage \<Rightarrow> smap \<Rightarrow> bool \<Rightarrow> ls_state \<Rightarrow> (selem option \<times> ls_state) option" where
  "bpf_local_storage_lookup l m cacheit_lockit s =
     (let idx = unat (cache_idx (smaps s m))
      in if idx \<ge> BPF_LOCAL_STORAGE_CACHE_SIZE then Some (None, s)
         else let sdata = cache (storages s l) ! idx
         in if (case sdata of Some e \<Rightarrow> sdata_smap s e = m | None \<Rightarrow> False) then Some (sdata, s)
            else (case find_selem s m (first (lists s) (Storage_list l)) of
                    None \<Rightarrow> None
                  | Some None \<Rightarrow> Some (None, s)
                  | Some (Some e) \<Rightarrow>
                      Some (Some e, if cacheit_lockit then local_storage_insert_cache l m e s else s)))"

definition bpf_local_storage_update_flags_check :: "local_storage_map \<Rightarrow> u64 \<Rightarrow> cint" where
  "bpf_local_storage_update_flags_check sm mflags =
     (if (mflags AND NOT BPF_F_LOCK) > BPF_EXIST \<or>
         (c_true (mflags AND BPF_F_LOCK) \<and> \<not> btf_record_has_field (ls_record sm) BPF_SPIN_LOCK)
      then - EINVAL else 0)"

definition check_flags :: "selem option \<Rightarrow> u64 \<Rightarrow> cint" where
  "check_flags old_sdata mflags =
     (if old_sdata \<noteq> None \<and> (mflags AND NOT BPF_F_LOCK) = BPF_NOEXIST then - EEXIST
      else if old_sdata = None \<and> (mflags AND NOT BPF_F_LOCK) = BPF_EXIST then - ENOENT
      else 0)"

definition bpf_selem_link_storage_nolock :: "storage \<Rightarrow> selem \<Rightarrow> ls_state \<Rightarrow> ls_state" where
  "bpf_selem_link_storage_nolock l e s =
     (let m = sdata_smap s e;
          s = upd_storage l (\<lambda>st. st\<lparr>mem_charge := mem_charge st + ucast (ls_elem_size (smaps s m))\<rparr>) s;
          s = s\<lparr>selem_storage := (selem_storage s)(e := Some l)\<rparr>
      in s\<lparr>lists := hlist_add_head_rcu (Snode e) (Storage_list l) (lists s)\<rparr>)"

text \<open>The owner is a pointer to the cell that holds its storage pointer (\<^verbatim>\<open>owner_storage\<close> is a cast).  When the storage is
  freed the code stores through it without a test: with a null owner the call faults, which is \<open>None\<close>.\<close>

definition clear_owner_cell :: "u64 option \<Rightarrow> ls_state \<Rightarrow> ls_state option" where
  "clear_owner_cell own s = (case own of
     None \<Rightarrow> None
   | Some a \<Rightarrow> Some (s\<lparr>owner_cell := (owner_cell s)(a := None)\<rparr>))"

definition bpf_selem_unlink_storage_nolock_misc ::
    "selem \<Rightarrow> smap \<Rightarrow> storage \<Rightarrow> bool \<Rightarrow> bool \<Rightarrow> ls_state \<Rightarrow> ls_state option" where
  "bpf_selem_unlink_storage_nolock_misc e m l free_local_storage pin_owner s =
     (let own = owner (storages s l);
          idx = unat (cache_idx (smaps s m));
          uncharge = (ucast (ls_elem_size (smaps s m)) :: u32);
          s = (if idx < BPF_LOCAL_STORAGE_CACHE_SIZE \<and> cache (storages s l) ! idx = Some e
               then upd_storage l (\<lambda>st. st\<lparr>cache := (cache st)[idx := None]\<rparr>) s else s);
          (ok, refs) = (if pin_owner then refcount_inc_not_zero (owner_refcnt (storages s l))
                        else (True, owner_refcnt (storages s l)));
          s = upd_storage l (\<lambda>st. st\<lparr>owner_refcnt := refs\<rparr>) s
      in if \<not> ok then Some s
         else let uncharge = uncharge + (if free_local_storage then sizeof_local_storage else 0);
                  s = upd_storage l (\<lambda>st. st\<lparr>mem_charge := mem_charge st - ucast uncharge\<rparr>) s
              in case (if free_local_storage
                       then let s = upd_storage l (\<lambda>st. st\<lparr>owner := None\<rparr>) s in clear_owner_cell own s
                       else Some s) of
                   None \<Rightarrow> None
                 | Some s \<Rightarrow>
                     Some (if pin_owner then upd_storage l (\<lambda>st. st\<lparr>owner_refcnt := refcount_dec (owner_refcnt st)\<rparr>) s
                           else s))"

definition bpf_selem_unlink_storage_nolock :: "storage \<Rightarrow> selem \<Rightarrow> nat \<Rightarrow> ls_state \<Rightarrow> (bool \<times> ls_state) option" where
  "bpf_selem_unlink_storage_nolock l e free_selem_list s =
     (let m = sdata_smap s e;
          free_local_storage = hlist_is_singular_node (lists s) (Snode e) (Storage_list l)
      in case bpf_selem_unlink_storage_nolock_misc e m l free_local_storage False s of
           None \<Rightarrow> None
         | Some s \<Rightarrow>
             let s = s\<lparr>lists := hlist_del_init_rcu (Snode e) (lists s)\<rparr>;
                 s = s\<lparr>lists := hlist_add_head (Free_node e) (Free_list free_selem_list) (lists s)\<rparr>
             in Some (free_local_storage, s))"

definition bpf_selem_link_map_nolock :: "nat \<Rightarrow> selem \<Rightarrow> ls_state \<Rightarrow> ls_state" where
  "bpf_selem_link_map_nolock b e s = s\<lparr>lists := hlist_add_head_rcu (Map_node e) (Bucket b) (lists s)\<rparr>"

definition bpf_selem_unlink_map_nolock :: "selem \<Rightarrow> ls_state \<Rightarrow> ls_state" where
  "bpf_selem_unlink_map_nolock e s = s\<lparr>lists := hlist_del_init_rcu (Map_node e) (lists s)\<rparr>"

text \<open>The search for the least used cache slot: from slot \<open>i\<close> on, \<open>min_usage\<close> is the least count seen so far.\<close>

function cache_idx_loop :: "u64 list \<Rightarrow> nat \<Rightarrow> u64 \<Rightarrow> nat \<Rightarrow> nat" where
  "cache_idx_loop counts i min_usage res =
     (if i < BPF_LOCAL_STORAGE_CACHE_SIZE then
        if counts ! i < min_usage
        then if counts ! i = 0 then i else cache_idx_loop counts (i + 1) (counts ! i) i
        else cache_idx_loop counts (i + 1) min_usage res
      else res)"
  by auto

termination by (relation "measure (\<lambda>(counts, i, mn, res). BPF_LOCAL_STORAGE_CACHE_SIZE - i)") auto

declare cache_idx_loop.simps [simp del]

definition bpf_local_storage_cache_idx_get :: "u64 list \<Rightarrow> nat \<times> u64 list" where
  "bpf_local_storage_cache_idx_get counts =
     (let res = cache_idx_loop counts 0 U64_MAX 0 in (res, counts[res := counts ! res + 1]))"

definition bpf_local_storage_cache_idx_free :: "u64 list \<Rightarrow> nat \<Rightarrow> u64 list" where
  "bpf_local_storage_cache_idx_free counts idx = counts[idx := counts ! idx - 1]"

definition bpf_local_storage_map_alloc_check :: "ls_attr \<Rightarrow> cint" where
  "bpf_local_storage_map_alloc_check attr =
     (if c_true (attr_map_flags attr AND NOT BPF_LOCAL_STORAGE_CREATE_FLAG_MASK) \<or>
         \<not> c_true (attr_map_flags attr AND BPF_F_NO_PREALLOC) \<or> attr_max_entries attr \<noteq> 0 \<or>
         attr_key_size attr \<noteq> 4 \<or> attr_value_size attr = 0 \<or>
         attr_btf_key_type_id attr = 0 \<or> attr_btf_value_type_id attr = 0 then - EINVAL
      else if attr_value_size attr > BPF_LOCAL_STORAGE_MAX_VALUE_SIZE then - E2BIG
      else 0)"

definition bpf_local_storage_map_check_btf :: "btf_type option \<Rightarrow> cint" where
  "bpf_local_storage_map_check_btf key_type = (if \<not> btf_type_is_i32 key_type then - EINVAL else 0)"

definition bpf_local_storage_map_mem_usage :: "local_storage_map \<Rightarrow> u64" where
  "bpf_local_storage_map_mem_usage sm = sizeof_smap + sizeof_ls_bucket * push_bit (unat (bucket_log sm)) 1"


section \<open>Representation\<close>

text \<open>Storage \<open>l\<close> holds the elements \<open>es\<close>, at most one per map, and its cache points only to elements it holds,
  each in the slot of its map.\<close>

definition ls_rep :: "storage \<Rightarrow> selem list \<Rightarrow> ls_state \<Rightarrow> bool" where
  "ls_rep l es s \<longleftrightarrow> hlist (lists s) (Storage_list l) (map Snode es) \<and> inj_on (sdata_smap s) (set es) \<and>
     length (cache (storages s l)) = 16 \<and>
     (\<forall>i < 16. \<forall>e. cache (storages s l) ! i = Some e \<longrightarrow> e \<in> set es \<and> unat (cache_idx (smaps s (sdata_smap s e))) = i)"

definition ls_charge :: "selem list \<Rightarrow> ls_state \<Rightarrow> u64" where
  "ls_charge es s = (\<Sum>e \<leftarrow> es. ucast (ls_elem_size (smaps s (sdata_smap s e))))"

lemma ls_rep_distinct: "ls_rep l es s \<Longrightarrow> distinct es"
  by (auto simp: ls_rep_def hlist_def distinct_map)

lemma storages_upd [simp]: "storages (upd_storage l f s) l' = (if l' = l then f (storages s l) else storages s l')"
  and upd_storage_frame [simp]: "lists (upd_storage l f s) = lists s" "sdata_smap (upd_storage l f s) = sdata_smap s"
    "smaps (upd_storage l f s) = smaps s" "selem_storage (upd_storage l f s) = selem_storage s"
    "owner_cell (upd_storage l f s) = owner_cell s"
  by (simp_all add: upd_storage_def)

section \<open>Lookup\<close>

lemma find_selem_chain:
  "hchain (lists s) c (map Snode es) \<Longrightarrow> find_selem s m (deref (lists s) c) = Some (find (\<lambda>e. sdata_smap s e = m) es)"
proof (induction es arbitrary: c)
  case Nil
  then show ?case by (subst find_selem.simps) simp
next
  case (Cons e es)
  then have "find_selem s m (hnext (lists s) (Snode e)) = Some (find (\<lambda>e. sdata_smap s e = m) es)"
    using Cons.IH[of "Next (Snode e)"] by simp
  then show ?case using Cons.prems by (subst find_selem.simps) simp
qed

lemma find_smap_iff:
  assumes "inj_on f (set es)" shows "find (\<lambda>e. f e = m) es = Some e \<longleftrightarrow> e \<in> set es \<and> f e = m"
proof -
  have found: "x \<in> set es \<and> f x = m" if "find (\<lambda>e. f e = m) es = Some x" for x
    using that by (auto simp: find_Some_iff)
  show ?thesis
  proof
    assume e: "e \<in> set es \<and> f e = m"
    then have "find (\<lambda>e. f e = m) es \<noteq> None" by (auto simp: find_None_iff)
    then obtain x where x: "find (\<lambda>e. f e = m) es = Some x" by blast
    then have "x = e" using inj_onD[OF assms, of x e] found[OF x] e by simp
    then show "find (\<lambda>e. f e = m) es = Some e" using x by simp
  qed (rule found)
qed

lemma insert_cache_rep:
  assumes "ls_rep l es s" "e \<in> set es" "sdata_smap s e = m"
  shows "ls_rep l es (local_storage_insert_cache l m e s)"
  using assms by (auto simp: ls_rep_def local_storage_insert_cache_def Let_def nth_list_update)

lemma lookup_result:
  assumes "ls_rep l es s" "unat (cache_idx (smaps s m)) < 16"
  shows "bpf_local_storage_lookup l m c s = Some (find (\<lambda>e. sdata_smap s e = m) es,
     if c \<and> cache (storages s l) ! unat (cache_idx (smaps s m)) \<noteq> find (\<lambda>e. sdata_smap s e = m) es
     then (case find (\<lambda>e. sdata_smap s e = m) es of Some e \<Rightarrow> local_storage_insert_cache l m e s | None \<Rightarrow> s) else s)"
proof -
  let ?i = "unat (cache_idx (smaps s m))" and ?f = "find (\<lambda>e. sdata_smap s e = m) es"
  have inj: "inj_on (sdata_smap s) (set es)" using assms(1) by (simp add: ls_rep_def)
  have slow: "find_selem s m (first (lists s) (Storage_list l)) = Some ?f"
    using find_selem_chain[of s "First (Storage_list l)" es m] assms(1) by (simp add: ls_rep_def hlist_def)
  show ?thesis
  proof (cases "\<exists>e. cache (storages s l) ! ?i = Some e \<and> sdata_smap s e = m")
    case True
    then obtain e where e: "cache (storages s l) ! ?i = Some e" "sdata_smap s e = m" by blast
    then have "e \<in> set es" using assms by (auto simp: ls_rep_def)
    then have "?f = Some e" using e(2) find_smap_iff[OF inj] by blast
    then show ?thesis using e assms(2) by (simp add: bpf_local_storage_lookup_def)
  next
    case False
    then have miss: "\<not> (case cache (storages s l) ! ?i of Some e \<Rightarrow> sdata_smap s e = m | None \<Rightarrow> False)" by (auto split: option.splits)
    show ?thesis
    proof (cases ?f)
      case None
      then show ?thesis using miss assms(2) slow by (simp add: bpf_local_storage_lookup_def Let_def)
    next
      case (Some e)
      then have "cache (storages s l) ! ?i \<noteq> Some e" using False find_smap_iff[OF inj, of m e] by blast
      then show ?thesis using Some miss assms(2) slow by (simp add: bpf_local_storage_lookup_def Let_def)
    qed
  qed
qed

lemma local_storage_lookup_gen:
  assumes "ls_rep l es s" "unat (cache_idx (smaps s m)) < 16"
  shows "\<exists>r s'. bpf_local_storage_lookup l m c s = Some (r, s') \<and>
    (\<forall>e. r = Some e \<longleftrightarrow> e \<in> set es \<and> sdata_smap s e = m) \<and> ls_rep l es s' \<and>
    (c \<and> r \<noteq> None \<longrightarrow> cache (storages s' l) ! unat (cache_idx (smaps s m)) = r)"
proof -
  let ?f = "find (\<lambda>e. sdata_smap s e = m) es"
  have iff: "?f = Some e \<longleftrightarrow> e \<in> set es \<and> sdata_smap s e = m" for e
    using assms(1) by (intro find_smap_iff) (simp add: ls_rep_def)
  have cached: "cache (storages (local_storage_insert_cache l m e s) l) ! unat (cache_idx (smaps s m)) = Some e"
    if "e \<in> set es" for e
  proof -
    have "selem_linked_to_storage s e"
      using hlist_hashed[of "lists s" "Storage_list l" "map Snode es" "Snode e"] that assms(1)
      by (simp add: selem_linked_to_storage_def ls_rep_def)
    then show ?thesis using assms by (simp add: local_storage_insert_cache_def ls_rep_def)
  qed
  show ?thesis
  proof (cases ?f)
    case None
    then show ?thesis unfolding lookup_result[OF assms] using iff assms(1) by auto
  next
    case (Some e)
    then have e: "e \<in> set es" "sdata_smap s e = m" using iff by blast+
    show ?thesis unfolding lookup_result[OF assms] Some
      using iff Some cached[OF e(1)] insert_cache_rep[OF assms(1) e] assms(1) by auto
  qed
qed


text \<open>C20: A lookup terminates and returns the element of the storage that belongs to the map, if there is one and only
  then, whether it comes from the cache or from the list; it keeps the representation, and with caching
  requested the element found is in the cache afterwards.\<close>

theorem local_storage_lookup_correct:
  assumes "ls_rep l es s" "unat (cache_idx (smaps s m)) < 16"
  shows "\<exists>r s'. bpf_local_storage_lookup l m c s = Some (r, s') \<and>
    (\<forall>e. r = Some e \<longleftrightarrow> e \<in> set es \<and> sdata_smap s e = m) \<and> ls_rep l es s' \<and>
    (c \<and> r \<noteq> None \<longrightarrow> cache (storages s' l) ! unat (cache_idx (smaps s m)) = r)"
  using local_storage_lookup_gen[OF assms] .

section \<open>Linking and unlinking\<close>

lemma link_storage_spec:
  assumes "ls_rep l es s" "sdata_smap s e \<notin> sdata_smap s ` set es"
  shows "ls_rep l (e # es) (bpf_selem_link_storage_nolock l e s)"
    and "mem_charge (storages (bpf_selem_link_storage_nolock l e s) l) = mem_charge (storages s l) + ls_charge [e] s"
proof -
  have "e \<notin> set es" using assms(2) by blast
  then have "hlist (hlist_add_head_rcu (Snode e) (Storage_list l) (lists s)) (Storage_list l) (map Snode (e # es))"
    using assms(1) hlist_add_head_spec[of "lists s" "Storage_list l" "map Snode es" "Snode e"] by (auto simp: ls_rep_def)
  then show "ls_rep l (e # es) (bpf_selem_link_storage_nolock l e s)"
    using assms unfolding ls_rep_def
    by (simp add: bpf_selem_link_storage_nolock_def Let_def) blast
  show "mem_charge (storages (bpf_selem_link_storage_nolock l e s) l) = mem_charge (storages s l) + ls_charge [e] s"
    by (simp add: bpf_selem_link_storage_nolock_def Let_def ls_charge_def)
qed

lemma uncharge_widen: "(ucast ((ucast (x :: u16) :: u32) + (if b then 184 else 0)) :: u64) = ucast x + (if b then 184 else 0)"
proof -
  have x: "unat x < 2 ^ 16" by (rule order_less_le_trans[OF unsigned_less]) simp
  have "unat ((ucast x :: u32) + 184) = unat x + 184" using x by (simp add: unat_word_ariths)
  moreover have "(ucast y :: u64) = of_nat (unat y)" for y :: u32 by simp
  ultimately have "(ucast ((ucast x :: u32) + 184) :: u64) = of_nat (unat x + 184)" by metis
  moreover have "(ucast (ucast x :: u32) :: u64) = ucast x"
    by (rule bit_word_eqI) (auto simp: bit_ucast_iff dest: bit_imp_le_length)
  ultimately show ?thesis by simp
qed

text \<open>Without pinning, the cleanup changes the cache slot of the map, the charge and, for the last element, the owner;
  it faults exactly for the last element of a storage without an owner.\<close>

lemma unlink_misc:
  assumes "bpf_selem_unlink_storage_nolock_misc e m l f False s = Some s'"
  shows "lists s' = lists s" and "sdata_smap s' = sdata_smap s" and "smaps s' = smaps s"
    and "cache (storages s' l) = (let i = unat (cache_idx (smaps s m)) in
      if i < 16 \<and> cache (storages s l) ! i = Some e then (cache (storages s l))[i := None] else cache (storages s l))"
    and "mem_charge (storages s' l) = mem_charge (storages s l) - (ucast (ls_elem_size (smaps s m)) + (if f then 184 else 0))"
    and "owner (storages s' l) = (if f then None else owner (storages s l))"
    and "owner_cell s' = (if f then (owner_cell s)(the (owner (storages s l)) := None) else owner_cell s)"
  using assms
  by (auto simp: bpf_selem_unlink_storage_nolock_misc_def clear_owner_cell_def Let_def uncharge_widen[symmetric]
      split: option.splits if_splits)

lemma unlink_misc_faults:
  "bpf_selem_unlink_storage_nolock_misc e m l f False s = None \<longleftrightarrow> f \<and> owner (storages s l) = None"
  by (simp add: bpf_selem_unlink_storage_nolock_misc_def clear_owner_cell_def Let_def split: option.splits)

text \<open>The same for the whole operation, and the two lists it works on.\<close>

lemma unlink_facts:
  assumes "bpf_selem_unlink_storage_nolock l e f s = Some (freed, s')"
  shows "freed = hlist_is_singular_node (lists s) (Snode e) (Storage_list l)"
    and "lists s' = hlist_add_head (Free_node e) (Free_list f) (hlist_del_init_rcu (Snode e) (lists s))"
    and "sdata_smap s' = sdata_smap s" and "smaps s' = smaps s"
    and "cache (storages s' l) = (let i = unat (cache_idx (smaps s (sdata_smap s e))) in
      if i < 16 \<and> cache (storages s l) ! i = Some e then (cache (storages s l))[i := None] else cache (storages s l))"
    and "mem_charge (storages s' l) =
      mem_charge (storages s l) - (ucast (ls_elem_size (smaps s (sdata_smap s e))) + (if freed then 184 else 0))"
    and "owner (storages s' l) = (if freed then None else owner (storages s l))"
    and "owner_cell s' = (if freed then (owner_cell s)(the (owner (storages s l)) := None) else owner_cell s)"
proof -
  obtain s1 where m: "bpf_selem_unlink_storage_nolock_misc e (sdata_smap s e) l freed False s = Some s1"
    and s': "s' = s1\<lparr>lists := hlist_add_head (Free_node e) (Free_list f) (hlist_del_init_rcu (Snode e) (lists s1))\<rparr>"
    and fr: "freed = hlist_is_singular_node (lists s) (Snode e) (Storage_list l)"
    using assms by (auto simp: bpf_selem_unlink_storage_nolock_def Let_def split: option.splits)
  show "freed = hlist_is_singular_node (lists s) (Snode e) (Storage_list l)" by (rule fr)
  show "lists s' = hlist_add_head (Free_node e) (Free_list f) (hlist_del_init_rcu (Snode e) (lists s))"
    "sdata_smap s' = sdata_smap s" "smaps s' = smaps s"
    "cache (storages s' l) = (let i = unat (cache_idx (smaps s (sdata_smap s e))) in
      if i < 16 \<and> cache (storages s l) ! i = Some e then (cache (storages s l))[i := None] else cache (storages s l))"
    "mem_charge (storages s' l) =
      mem_charge (storages s l) - (ucast (ls_elem_size (smaps s (sdata_smap s e))) + (if freed then 184 else 0))"
    "owner (storages s' l) = (if freed then None else owner (storages s l))"
    "owner_cell s' = (if freed then (owner_cell s)(the (owner (storages s l)) := None) else owner_cell s)"
    unfolding s' using unlink_misc[OF m] by simp_all
qed

lemma unlink_faults:
  "bpf_selem_unlink_storage_nolock l e f s = None \<longleftrightarrow>
     hlist_is_singular_node (lists s) (Snode e) (Storage_list l) \<and> owner (storages s l) = None"
  using unlink_misc_faults[of e "sdata_smap s e" l "hlist_is_singular_node (lists s) (Snode e) (Storage_list l)" s]
  unfolding bpf_selem_unlink_storage_nolock_def Let_def
  by (cases "bpf_selem_unlink_storage_nolock_misc e (sdata_smap s e) l
    (hlist_is_singular_node (lists s) (Snode e) (Storage_list l)) False s") simp_all

lemma map_remove1_inj: "inj f \<Longrightarrow> map f (remove1 x xs) = remove1 (f x) (map f xs)"
  by (induction xs) (auto dest: injD)

lemma unlink_lists:
  assumes "ls_rep l es s" "e \<in> set es" "hlist (lists s) (Free_list f) (map Free_node fs)" "e \<notin> set fs"
    and "bpf_selem_unlink_storage_nolock l e f s = Some (freed, s')"
  shows "hlist (lists s') (Storage_list l) (map Snode (remove1 e es)) \<and>
         hlist (lists s') (Free_list f) (map Free_node (e # fs))"
proof -
  let ?h = "lists s" and ?d = "hlist_del_init_rcu (Snode e) (lists s)"
  have h: "hlist ?h (Storage_list l) (map Snode es)" using assms(1) by (simp add: ls_rep_def)
  have inj: "inj Snode" by (simp add: inj_def)
  have d1: "hlist ?d (Storage_list l) (map Snode (remove1 e es))"
    using hlist_del_remove1[OF h, of "Snode e"] assms(2) by (simp add: map_remove1_inj[OF inj])
  have d2: "hlist ?d (Free_list f) (map Free_node fs)"
    using assms(2) by (intro hlist_del_frame[OF h _ assms(3)]) auto
  have "hlist (hlist_add_head_rcu (Free_node e) (Free_list f) ?d) (Free_list f) (Free_node e # map Free_node fs)"
    using assms(4) by (intro hlist_add_head_spec[OF d2]) auto
  moreover have "hlist (hlist_add_head_rcu (Free_node e) (Free_list f) ?d) (Storage_list l) (map Snode (remove1 e es))"
    by (intro hlist_add_head_frame[OF d1 _ _ d2]) auto
  ultimately show ?thesis
    by (simp add: unlink_facts(2)[OF assms(5)] hlist_add_head_def)
qed

lemma unlink_rep:
  assumes "ls_rep l es s" "e \<in> set es" "hlist (lists s) (Free_list f) (map Free_node fs)" "e \<notin> set fs"
    and "bpf_selem_unlink_storage_nolock l e f s = Some (freed, s')"
  shows "ls_rep l (remove1 e es) s'"
proof -
  let ?m = "sdata_smap s e" and ?s = "s'"
  have d: "distinct es" by (rule ls_rep_distinct[OF assms(1)])
  have e: "sdata_smap ?s = sdata_smap s" "smaps ?s = smaps s"
    "cache (storages ?s l) = (let i = unat (cache_idx (smaps s ?m)) in
      if i < 16 \<and> cache (storages s l) ! i = Some e then (cache (storages s l))[i := None] else cache (storages s l))"
    using unlink_facts[OF assms(5)] by simp_all
  have "inj_on (sdata_smap s) (set (remove1 e es))"
    using assms(1) by (auto simp: ls_rep_def intro: inj_on_subset[OF _ set_remove1_subset])
  moreover have "x \<in> set (remove1 e es) \<and> unat (cache_idx (smaps s (sdata_smap s x))) = i"
    if "i < 16" "cache (storages ?s l) ! i = Some x" for i x
  proof -
    let ?i = "unat (cache_idx (smaps s ?m))"
    have len: "length (cache (storages s l)) = 16" using assms(1) by (simp add: ls_rep_def)
    have "cache (storages s l) ! i = Some x \<and> (i = ?i \<longrightarrow> x \<noteq> e)"
    proof (cases "i = ?i")
      case True
      then show ?thesis using that len unfolding e(3) Let_def by (cases "cache (storages s l) ! ?i = Some e") simp_all
    next
      case False
      then show ?thesis using that len unfolding e(3) Let_def by (simp split: if_splits)
    qed
    then have "cache (storages s l) ! i = Some x" "i = ?i \<longrightarrow> x \<noteq> e" by blast+
    then have "x \<in> set es \<and> unat (cache_idx (smaps s (sdata_smap s x))) = i" "x \<noteq> e"
      using assms(1) that(1) by (auto simp: ls_rep_def)
    then show ?thesis using d by simp
  qed
  moreover have "length (cache (storages ?s l)) = 16" unfolding e(3) using assms(1) by (simp add: ls_rep_def Let_def)
  ultimately show ?thesis using unlink_lists[OF assms] unfolding ls_rep_def e(1,2) by blast
qed


text \<open>C21: Unlinking an element from its storage faults exactly if it is the last element and the storage has no owner.
  Otherwise it removes exactly that element from the storage's list and from the cache, puts it on the
  free list, uncharges its size, and reports whether the storage became empty; then, and only then, the
  storage's own size is uncharged, its owner is forgotten and the owner's pointer to it is cleared, and no
  other owner's pointer changes.  A later lookup of its map finds nothing.\<close>

theorem local_storage_unlink_correct:
  assumes "ls_rep l es s" "e \<in> set es" "hlist (lists s) (Free_list f) (map Free_node fs)" "e \<notin> set fs"
    and "mem_charge (storages s l) = 184 + ls_charge es s" and "unat (cache_idx (smaps s (sdata_smap s e))) < 16"
  shows "case bpf_selem_unlink_storage_nolock l e f s of
     None \<Rightarrow> es = [e] \<and> owner (storages s l) = None
   | Some (freed, s') \<Rightarrow>
       (freed \<longleftrightarrow> es = [e]) \<and> (freed \<longrightarrow> owner (storages s l) \<noteq> None) \<and>
       ls_rep l (remove1 e es) s' \<and> hlist (lists s') (Free_list f) (map Free_node (e # fs)) \<and>
       (\<forall>i < 16. cache (storages s' l) ! i \<noteq> Some e) \<and>
       mem_charge (storages s' l) = (if freed then 0 else 184 + ls_charge (remove1 e es) s) \<and>
       owner (storages s' l) = (if freed then None else owner (storages s l)) \<and>
       owner_cell s' = (if freed then (owner_cell s)(the (owner (storages s l)) := None) else owner_cell s) \<and>
       (\<forall>c. \<exists>s''. bpf_local_storage_lookup l (sdata_smap s e) c s' = Some (None, s''))"
proof -
  let ?m = "sdata_smap s e"
  have single: "hlist_is_singular_node (lists s) (Snode e) (Storage_list l) \<longleftrightarrow> es = [e]"
    using hlist_singular[of "lists s" "Storage_list l" "map Snode es" "Snode e"] assms(1,2) by (auto simp: ls_rep_def)
  show ?thesis
  proof (cases "bpf_selem_unlink_storage_nolock l e f s")
    case None
    then show ?thesis using unlink_faults[of l e f s] single by simp
  next
    case (Some r)
    then obtain freed s' where u: "bpf_selem_unlink_storage_nolock l e f s = Some (freed, s')" by (cases r) simp
    note facts = unlink_facts[OF u]
    have freed: "freed \<longleftrightarrow> es = [e]" using facts(1) single by simp
    have own: "freed \<longrightarrow> owner (storages s l) \<noteq> None" using unlink_faults[of l e f s] u facts(1) by auto
    have rep: "ls_rep l (remove1 e es) s'" by (rule unlink_rep[OF assms(1-4) u])
    have d: "distinct es" by (rule ls_rep_distinct[OF assms(1)])
    have "ls_charge es s = ucast (ls_elem_size (smaps s ?m)) + ls_charge (remove1 e es) s"
      unfolding ls_charge_def using assms(2) by (rule sum_list_map_remove1)
    then have charge: "mem_charge (storages s' l) = (if freed then 0 else 184 + ls_charge (remove1 e es) s)"
      using assms(5) freed facts(6) by (auto simp: ls_charge_def)
    have nc: "\<forall>i < 16. cache (storages s' l) ! i \<noteq> Some e" using rep d by (auto simp: ls_rep_def)
    have "\<exists>s''. bpf_local_storage_lookup l ?m c s' = Some (None, s'')" for c
    proof -
      have "\<not> (\<exists>x. x \<in> set (remove1 e es) \<and> sdata_smap s' x = ?m)"
        using assms(1,2) d inj_onD[of "sdata_smap s" "set es" _ e] by (auto simp: ls_rep_def facts(3))
      then have "find (\<lambda>x. sdata_smap s' x = ?m) (remove1 e es) = None" by (auto simp: find_None_iff)
      then show ?thesis using lookup_result[OF rep, of ?m c] assms(6) facts(4) by simp
    qed
    then show ?thesis using u freed own rep charge nc facts(7,8) unlink_lists[OF assms(1-4) u] by simp
  qed
qed

section \<open>Sequences of operations\<close>

text \<open>What callers do with storage \<open>l\<close> and free list \<open>f\<close>: look up, link an element of a map that has none yet, unlink
  an element they looked up and that is not already waiting to be freed.\<close>

inductive ls_step :: "storage \<Rightarrow> nat \<Rightarrow> ls_state \<Rightarrow> ls_state \<Rightarrow> bool" for l f where
  step_lookup: "bpf_local_storage_lookup l m c s = Some (r, s') \<Longrightarrow> ls_step l f s s'"
| step_link: "bpf_local_storage_lookup l (sdata_smap s e) False s = Some (None, s) \<Longrightarrow>
     ls_step l f s (bpf_selem_link_storage_nolock l e s)"
| step_unlink: "bpf_local_storage_lookup l m False s = Some (Some e, s) \<Longrightarrow> hlist_unhashed (lists s) (Free_node e) \<Longrightarrow>
     bpf_selem_unlink_storage_nolock l e f s = Some (freed, s') \<Longrightarrow> ls_step l f s s'"

inductive_cases ls_stepE: "ls_step l f s s'"

definition ls_inv :: "storage \<Rightarrow> nat \<Rightarrow> ls_state \<Rightarrow> bool" where
  "ls_inv l f s \<longleftrightarrow> (\<exists>es fs. ls_rep l es s \<and> hlist (lists s) (Free_list f) (map Free_node fs)) \<and>
     (\<forall>m. unat (cache_idx (smaps s m)) < 16)"

lemma link_free_list:
  "ls_rep l es s \<Longrightarrow> hlist (lists s) (Free_list f) (map Free_node fs) \<Longrightarrow>
   hlist (lists (bpf_selem_link_storage_nolock l e s)) (Free_list f) (map Free_node fs)"
  unfolding bpf_selem_link_storage_nolock_def Let_def
  by (simp, rule hlist_add_head_frame[of "lists s" _ _ _ _ "map Snode es"]) (auto simp: ls_rep_def)

lemma lookup_frame:
  assumes "bpf_local_storage_lookup l m c s = Some (r, s')"
  shows "lists s' = lists s" "smaps s' = smaps s"
  using assms unfolding bpf_local_storage_lookup_def Let_def
  by (auto simp: local_storage_insert_cache_def Let_def split: if_splits option.splits)

lemma ls_step_inv:
  assumes "ls_step l f s s'" "ls_inv l f s" shows "ls_inv l f s'"
proof -
  obtain es fs where rep: "ls_rep l es s" "hlist (lists s) (Free_list f) (map Free_node fs)"
    and idx: "\<And>m. unat (cache_idx (smaps s m)) < 16" using assms(2) by (auto simp: ls_inv_def)
  note look = local_storage_lookup_gen[OF rep(1) idx]
  from assms(1) show ?thesis
  proof (rule ls_stepE)
    fix m c r assume l: "bpf_local_storage_lookup l m c s = Some (r, s')"
    have "ls_rep l es s'" using look[of m c] l by auto
    then show ?thesis using rep(2) idx lookup_frame[OF l] unfolding ls_inv_def by auto
  next
    fix e assume e: "bpf_local_storage_lookup l (sdata_smap s e) False s = Some (None, s)"
      and s': "s' = bpf_selem_link_storage_nolock l e s"
    have "sdata_smap s e \<notin> sdata_smap s ` set es" using look[of "sdata_smap s e" False] e by force
    then have "ls_rep l (e # es) s'" unfolding s' by (rule link_storage_spec(1)[OF rep(1)])
    moreover have "smaps s' = smaps s" unfolding s' by (simp add: bpf_selem_link_storage_nolock_def Let_def)
    ultimately show ?thesis using link_free_list[OF rep] idx unfolding ls_inv_def s' by auto
  next
    fix m e freed assume e: "bpf_local_storage_lookup l m False s = Some (Some e, s)" "hlist_unhashed (lists s) (Free_node e)"
      and u: "bpf_selem_unlink_storage_nolock l e f s = Some (freed, s')"
    have "e \<in> set es" using look[of m False] e(1) by auto
    moreover have "e \<notin> set fs" using hlist_hashed[OF rep(2), of "Free_node e"] e(2) by auto
    ultimately have "ls_rep l (remove1 e es) s' \<and> hlist (lists s') (Free_list f) (map Free_node (e # fs))"
      using unlink_rep[OF rep(1) _ rep(2) _ u] unlink_lists[OF rep(1) _ rep(2) _ u] by blast
    moreover have "smaps s' = smaps s" by (rule unlink_facts(4)[OF u])
    ultimately show ?thesis using idx unfolding ls_inv_def by metis
  qed
qed

text \<open>C22: After any sequence of lookups, links and unlinks, every element the cache of the storage points to is linked in the
  storage: the cache never publishes an element that was unlinked and may have been freed.\<close>

theorem local_storage_cache_safe:
  assumes "(ls_step l f)\<^sup>*\<^sup>* s s'" "ls_inv l f s" "i < 16" "cache (storages s' l) ! i = Some e"
  shows "selem_linked_to_storage s' e"
proof -
  have "ls_inv l f s'" using assms(1,2) by (induction rule: rtranclp_induct) (auto intro: ls_step_inv)
  then obtain es where es: "ls_rep l es s'" by (auto simp: ls_inv_def)
  then have "e \<in> set es" using assms(3,4) by (auto simp: ls_rep_def)
  then show ?thesis using es hlist_hashed[of "lists s'" "Storage_list l" "map Snode es" "Snode e"]
    by (simp add: selem_linked_to_storage_def ls_rep_def)
qed


section \<open>Cache slots\<close>

lemma cache_idx_loop_spec:
  assumes "length counts = 16"
  shows "i \<le> 16 \<Longrightarrow> res < 16 \<Longrightarrow> (\<forall>j < i. mn \<le> counts ! j) \<Longrightarrow> (counts ! res = mn \<or> mn = U64_MAX) \<Longrightarrow> 
    cache_idx_loop counts i mn res < 16 \<and> (\<forall>j < 16. counts ! cache_idx_loop counts i mn res \<le> counts ! j)"
proof (induction "16 - i" arbitrary: i mn res)
  case 0
  then have i: "i = 16" by simp
  have top: "x \<le> (NOT 0 :: u64)" for x using word_order.extremum[of x] by simp
  have "counts ! res \<le> mn" using 0 top by auto
  then show ?case using 0 i by (subst (1 2) cache_idx_loop.simps) (auto intro: order_trans)
next
  case (Suc n i mn res)
  then have i: "i < 16" by simp
  consider (zero) "counts ! i < mn" "counts ! i = 0" | (less) "counts ! i < mn" "counts ! i \<noteq> 0" | (ge) "mn \<le> counts ! i"
    by (meson linorder_not_less)
  then show ?case
  proof cases
    case zero
    then have "cache_idx_loop counts i mn res = i" using i by (subst cache_idx_loop.simps) simp
    then show ?thesis using zero i by simp
  next
    case less
    then have e: "cache_idx_loop counts i mn res = cache_idx_loop counts (Suc i) (counts ! i) i"
      using i by (subst cache_idx_loop.simps) simp
    have "\<forall>j < Suc i. counts ! i \<le> counts ! j" using Suc.prems(3) less(1) by (auto simp: less_Suc_eq intro: order_trans[OF less_imp_le])
    then show ?thesis unfolding e using Suc i by (intro Suc.hyps) auto
  next
    case ge
    then have e: "cache_idx_loop counts i mn res = cache_idx_loop counts (Suc i) mn res"
      using i by (subst cache_idx_loop.simps) auto
    show ?thesis unfolding e using Suc i ge by (intro Suc.hyps) (auto simp: less_Suc_eq)
  qed
qed

text \<open>\<^verbatim>\<open>bpf_local_storage_cache_idx_get\<close> returns a valid cache slot with a least usage count and increments that count
  only; freeing the slot again restores all counts.\<close>

theorem cache_idx_get_least:
  assumes "length counts = 16"
  shows "let (i, counts') = bpf_local_storage_cache_idx_get counts in
     i < 16 \<and> (\<forall>j < 16. counts ! i \<le> counts ! j) \<and> counts' = counts[i := counts ! i + 1] \<and>
     bpf_local_storage_cache_idx_free counts' i = counts"
proof -
  have top: "x \<le> (NOT 0 :: u64)" for x using word_order.extremum[of x] by simp
  have "cache_idx_loop counts 0 U64_MAX 0 < 16 \<and> (\<forall>j < 16. counts ! cache_idx_loop counts 0 U64_MAX 0 \<le> counts ! j)"
    by (rule cache_idx_loop_spec[OF assms]) simp_all
  then show ?thesis using assms
    by (simp add: bpf_local_storage_cache_idx_get_def bpf_local_storage_cache_idx_free_def Let_def)
qed

theorem cache_idx_get_least_witness:
  "let (i, counts') = bpf_local_storage_cache_idx_get (replicate 16 3) in
     i < 16 \<and> (\<forall>j < 16. replicate 16 3 ! i \<le> (replicate 16 3 ! j :: u64)) \<and> counts' = (replicate 16 3)[i := replicate 16 3 ! i + 1] \<and>
     bpf_local_storage_cache_idx_free counts' i = replicate 16 3"
  by (rule cache_idx_get_least) simp

section \<open>Witnesses\<close>

definition sample_ls0 :: ls_state where
  "sample_ls0 = \<lparr> lists = \<lparr> first = \<lambda>_. None, hnext = \<lambda>_. None, pprev = \<lambda>_. None \<rparr>, sdata_smap = (\<lambda>e. e),
     selem_storage = (\<lambda>_. None), smaps = (\<lambda>_. \<lparr> ls_record = None, bucket_log = 3, ls_elem_size = 144, cache_idx = 2 \<rparr>),
     storages = (\<lambda>_. \<lparr> cache = replicate 16 None, owner = Some 77, mem_charge = 184, owner_refcnt = 1 \<rparr>),
     owner_cell = (\<lambda>_. Some 0) \<rparr>"

definition sample_ls1 :: ls_state where
  "sample_ls1 = bpf_selem_link_storage_nolock 0 5 sample_ls0"

lemma sample_ls0_rep: "ls_rep 0 [] sample_ls0" "hlist (lists sample_ls0) (Free_list 9) (map Free_node [])"
  by (simp_all add: ls_rep_def sample_ls0_def hlist_def)

lemma sample_ls1_rep: "ls_rep 0 [5] sample_ls1" "hlist (lists sample_ls1) (Free_list 9) (map Free_node [])"
  unfolding sample_ls1_def using link_storage_spec(1)[OF sample_ls0_rep(1), of 5] link_free_list[OF sample_ls0_rep] by simp_all

lemma sample_ls1_idx: "unat (cache_idx (smaps sample_ls1 m)) < 16"
  by (simp add: sample_ls1_def sample_ls0_def bpf_selem_link_storage_nolock_def Let_def)

theorem local_storage_lookup_correct_witness:
  "\<exists>r s'. bpf_local_storage_lookup 0 5 True sample_ls1 = Some (r, s') \<and>
    (\<forall>e. r = Some e \<longleftrightarrow> e \<in> set [5] \<and> sdata_smap sample_ls1 e = 5) \<and> ls_rep 0 [5] s' \<and>
    (True \<and> r \<noteq> None \<longrightarrow> cache (storages s' 0) ! unat (cache_idx (smaps sample_ls1 5)) = r)"
  by (rule local_storage_lookup_correct[OF sample_ls1_rep(1) sample_ls1_idx])

theorem local_storage_unlink_correct_witness:
  "\<exists>s'. bpf_selem_unlink_storage_nolock 0 5 9 sample_ls1 = Some (True, s') \<and> owner_cell s' 77 = None \<and> owner_cell s' 76 = Some 0"
proof -
  have "mem_charge (storages sample_ls1 0) = 184 + ls_charge [5] sample_ls1"
    by (simp add: sample_ls1_def sample_ls0_def bpf_selem_link_storage_nolock_def Let_def ls_charge_def)
  note w = local_storage_unlink_correct[OF sample_ls1_rep(1) _ sample_ls1_rep(2) _ this sample_ls1_idx]
  have o: "owner (storages sample_ls1 0) = Some 77" "owner_cell sample_ls1 = (\<lambda>_. Some 0)"
    by (simp_all add: sample_ls1_def sample_ls0_def bpf_selem_link_storage_nolock_def Let_def)
  show ?thesis using w by (auto simp: o split: option.splits)
qed

lemma sample_ls1_lookup: "bpf_local_storage_lookup 0 5 True sample_ls1 = Some (Some 5, local_storage_insert_cache 0 5 5 sample_ls1)"
  using lookup_result[OF sample_ls1_rep(1) sample_ls1_idx, of 5 True]
  by (simp add: sample_ls1_def sample_ls0_def bpf_selem_link_storage_nolock_def Let_def)

theorem local_storage_cache_safe_witness:
  "selem_linked_to_storage (local_storage_insert_cache 0 5 5 sample_ls1) 5"
proof (rule local_storage_cache_safe)
  show "(ls_step 0 9)\<^sup>*\<^sup>* sample_ls1 (local_storage_insert_cache 0 5 5 sample_ls1)"
    by (rule r_into_rtranclp, rule step_lookup[OF sample_ls1_lookup])
  show "ls_inv 0 9 sample_ls1" using sample_ls1_rep sample_ls1_idx unfolding ls_inv_def by blast
  show "(2 :: nat) < 16" by simp
  have "selem_linked_to_storage sample_ls1 5"
    using hlist_hashed[of "lists sample_ls1" "Storage_list 0" "map Snode [5]" "Snode 5"] sample_ls1_rep(1)
    by (simp add: selem_linked_to_storage_def ls_rep_def)
  moreover have "unat (cache_idx (smaps sample_ls1 5)) = 2" "length (cache (storages sample_ls1 0)) = 16"
    by (simp_all add: sample_ls1_def sample_ls0_def bpf_selem_link_storage_nolock_def Let_def)
  ultimately show "cache (storages (local_storage_insert_cache 0 5 5 sample_ls1) 0) ! 2 = Some 5"
    by (simp add: local_storage_insert_cache_def)
qed

end
