(* ===== verification/Byte_Buf.thy ===== *)
theory Byte_Buf
  imports Bpf_Prelude
begin

text \<open>
  Byte buffers shared by the text components (\<^verbatim>\<open>lib/hexdump.c\<close>,
  \<^verbatim>\<open>lib/seq_buf.c\<close>, \<^verbatim>\<open>lib/string_helpers.c\<close>): a buffer is a byte list, a pointer
  into it an index, a store a list update.  \<open>store_bytes\<close> is the specification of a
  run of stores and \<open>bytes_at\<close> of a run of loads; the lemmas are the frame and
  composition laws the component proofs use.  \<open>byte_cases\<close> settles a statement on
  one byte by its 256 instances, and \<open>digits_value\<close> is the number a digit string denotes.
\<close>

named_theorems buf \<open>laws of byte buffers\<close>

definition store_bytes :: "u8 list \<Rightarrow> nat \<Rightarrow> u8 list \<Rightarrow> u8 list" where
  "store_bytes buf p bs = take p buf @ bs @ drop (p + length bs) buf"

definition bytes_at :: "u8 list \<Rightarrow> nat \<Rightarrow> nat \<Rightarrow> u8 list" where
  "bytes_at buf p n = take n (drop p buf)"

lemma store_bytes_Nil [simp]: "store_bytes buf p [] = buf"
  by (simp add: store_bytes_def)

lemma length_store_bytes [simp]:
  "p + length bs \<le> length buf \<Longrightarrow> length (store_bytes buf p bs) = length buf"
  by (simp add: store_bytes_def)

lemma nth_store_bytes [buf]:
  assumes "p + length bs \<le> length buf" and "i < length buf"
  shows "store_bytes buf p bs ! i = (if p \<le> i \<and> i < p + length bs then bs ! (i - p) else buf ! i)"
  using assms by (auto simp: store_bytes_def nth_append not_less min_def)

lemma length_bytes_at [simp]: "p + n \<le> length buf \<Longrightarrow> length (bytes_at buf p n) = n"
  by (simp add: bytes_at_def)

lemma nth_bytes_at [buf]: "p + n \<le> length buf \<Longrightarrow> i < n \<Longrightarrow> bytes_at buf p n ! i = buf ! (p + i)"
  by (simp add: bytes_at_def)

lemma bytes_at_0 [simp]: "bytes_at buf p 0 = []"
  by (simp add: bytes_at_def)

lemma bytes_at_Suc:
  assumes "p < length buf"
  shows "bytes_at buf p (Suc n) = buf ! p # bytes_at buf (Suc p) n"
  using assms by (simp add: bytes_at_def Cons_nth_drop_Suc [symmetric])

lemma store_one [buf]: "p < length buf \<Longrightarrow> buf[p := b] = store_bytes buf p [b]"
  by (simp add: store_bytes_def upd_conv_take_nth_drop)

lemma store_store [buf]:
  assumes "p + length as + length bs \<le> length buf"
  shows "store_bytes (store_bytes buf p as) (p + length as) bs = store_bytes buf p (as @ bs)"
  using assms by (auto intro!: nth_equalityI simp: nth_store_bytes nth_append)

lemma bytes_at_store [buf]:
  assumes "p + length bs \<le> length buf"
  shows "bytes_at (store_bytes buf p bs) p (length bs) = bs"
  using assms by (simp add: bytes_at_def store_bytes_def)

lemma bytes_at_store_frame:
  assumes "p + length bs \<le> length buf" and "q + n \<le> length buf" and "q + n \<le> p \<or> p + length bs \<le> q"
  shows "bytes_at (store_bytes buf p bs) q n = bytes_at buf q n"
  using assms by (intro nth_equalityI) (auto simp: nth_bytes_at nth_store_bytes)

text \<open>The value of a digit sequence in a base, most significant digit first.\<close>

definition digits_value :: "nat \<Rightarrow> nat list \<Rightarrow> nat" where
  "digits_value b ds = foldl (\<lambda>n d. b * n + d) 0 ds"

lemma byte_cases:
  assumes "list_all (\<lambda>i. P (word_of_int i :: u8)) [0..255]"
  shows "P b"
proof -
  have "uint b < 256" using uint_lt2p [of b] by simp
  then have "uint b \<in> set [0..255]" by simp
  with assms have "P (word_of_int (uint b))" unfolding list_all_iff by (rule bspec)
  then show ?thesis by simp
qed

end
