(* ===== verification/Hexdump.thy ===== *)
theory Hexdump
  imports Byte_Buf
begin

text \<open>
  Model of \<^verbatim>\<open>shims/lib/hexdump.c\<close>: the branch-free digit decoder
  \<^verbatim>\<open>hex_to_bin\<close>, the string decoder \<^verbatim>\<open>hex2bin\<close> and the encoder
  \<^verbatim>\<open>bin2hex\<close>.  Buffers are byte lists addressed by index; every store is a list
  update, so that the theorems can say which cells a call writes.

  The properties: the digit decoder agrees with the case distinction on the
  three digit ranges (the one \<^verbatim>\<open>targets/string_helpers/pre_include.h\<close> spells out),
  decoding inverts encoding, and decoding fails exactly on a string with a
  character that is no hexadecimal digit, after having stored the bytes before it.
\<close>

section \<open>The code\<close>

definition hex_asc :: "u8 list" where
  "hex_asc = [0x30, 0x31, 0x32, 0x33, 0x34, 0x35, 0x36, 0x37, 0x38, 0x39, 0x61, 0x62, 0x63, 0x64, 0x65, 0x66]"

definition hex_asc_upper :: "u8 list" where
  "hex_asc_upper = [0x30, 0x31, 0x32, 0x33, 0x34, 0x35, 0x36, 0x37, 0x38, 0x39, 0x41, 0x42, 0x43, 0x44, 0x45, 0x46]"

text \<open>The pointer \<^verbatim>\<open>buf\<close> is an index into the buffer; the advanced pointer is returned.\<close>

definition hex_byte_pack :: "u8 list \<Rightarrow> nat \<Rightarrow> u8 \<Rightarrow> u8 list \<times> nat" where
  "hex_byte_pack buf p byte =
     (let buf = buf[p := hex_asc ! unat (drop_bit 4 byte AND 0xf)];
          buf = buf[p + 1 := hex_asc ! unat (byte AND 0xf)]
      in (buf, p + 2))"

text \<open>
  The operands are promoted to \<^verbatim>\<open>int\<close> and the cast makes both masks unsigned, so
  the whole expression is evaluated modulo 2 to the power 32 and read back as an \<^verbatim>\<open>int\<close>.
\<close>

definition hex_to_bin :: "u8 \<Rightarrow> cint" where
  "hex_to_bin ch =
     (let c = (ucast ch :: u32);
          cu = (ucast (ch AND 0xdf) :: u32)
      in sint (- 1 + ((c - 0x30 + 1) AND drop_bit 8 ((c - 0x39 - 1) AND (0x30 - 1 - c)))
                   + ((cu - 0x41 + 11) AND drop_bit 8 ((cu - 0x46 - 1) AND (0x41 - 1 - cu)))))"

text \<open>The decoder the string target supplies in place of the library's.\<close>

definition hex_to_bin_cases :: "u8 \<Rightarrow> cint" where
  "hex_to_bin_cases ch =
     (if 0x30 \<le> ch \<and> ch \<le> 0x39 then uint ch - 0x30
      else if 0x61 \<le> ch \<and> ch \<le> 0x66 then uint ch - 0x61 + 10
      else if 0x41 \<le> ch \<and> ch \<le> 0x46 then uint ch - 0x41 + 10
      else - 1)"

text \<open>\<^verbatim>\<open>(hi << 4) | lo\<close>, stored into a byte.\<close>

definition hex_byte :: "cint \<Rightarrow> cint \<Rightarrow> u8" where
  "hex_byte hi lo = word_of_int (push_bit 4 hi OR lo)"

text \<open>\<open>d\<close> and \<open>p\<close> are the moving pointers into destination and source.\<close>

fun hex2bin :: "u8 list \<Rightarrow> nat \<Rightarrow> u8 list \<Rightarrow> nat \<Rightarrow> nat \<Rightarrow> cint \<times> u8 list" where
  "hex2bin dst d src p 0 = (0, dst)"
| "hex2bin dst d src p (Suc count) =
     (let hi = hex_to_bin (src ! p)
      in if hi < 0 then (- EINVAL, dst)
         else let lo = hex_to_bin (src ! (p + 1))
              in if lo < 0 then (- EINVAL, dst)
                 else hex2bin (dst[d := hex_byte hi lo]) (d + 1) src (p + 2) count)"

fun bin2hex :: "u8 list \<Rightarrow> nat \<Rightarrow> u8 list \<Rightarrow> nat \<Rightarrow> nat \<Rightarrow> u8 list \<times> nat" where
  "bin2hex dst d src p 0 = (dst, d)"
| "bin2hex dst d src p (Suc count) =
     (let (dst, d) = hex_byte_pack dst d (src ! p) in bin2hex dst d src (p + 1) count)"

section \<open>One digit\<close>

lemma hex_to_bin_eq: "hex_to_bin ch = hex_to_bin_cases ch"
  by (rule byte_cases) code_simp


lemma hex_to_bin_range: "- 1 \<le> hex_to_bin ch \<and> hex_to_bin ch < 16"
proof -
  have "uint (0x39 :: u8) = 0x39" "uint (0x66 :: u8) = 0x66" "uint (0x46 :: u8) = 0x46"
    "uint (0x30 :: u8) = 0x30" "uint (0x61 :: u8) = 0x61" "uint (0x41 :: u8) = 0x41" by simp_all
  then show ?thesis by (auto simp: hex_to_bin_eq hex_to_bin_cases_def word_le_def)
qed

lemma hex_asc_digit: "n < 16 \<Longrightarrow> hex_to_bin (hex_asc ! n) = int n"
proof -
  have "list_all (\<lambda>n. hex_to_bin_cases (hex_asc ! n) = int n) [0..<16]" by code_simp
  then show "n < 16 \<Longrightarrow> ?thesis" by (simp add: list_all_iff hex_to_bin_eq)
qed

lemma hex_byte_split: "hex_byte (uint (drop_bit 4 b AND 0xf)) (uint (b AND 0xf)) = b"
proof -
  have m: "(0xf :: u8) = mask 4" by (simp add: mask_eq_exp_minus_1)
  have "push_bit 4 (drop_bit 4 b AND 0xf) OR (b AND 0xf) = b"
    unfolding m by (rule bit_word_eqI) (auto simp: bit_simps)
  then show ?thesis
    by (simp add: hex_byte_def of_int_or_eq push_bit_eq_mult)
qed

section \<open>Encoding\<close>

definition hex_text :: "u8 list \<Rightarrow> u8 list" where
  "hex_text bs = concat (map (\<lambda>b. [hex_asc ! unat (drop_bit 4 b AND 0xf), hex_asc ! unat (b AND 0xf)]) bs)"

lemma hex_text_simps [simp]:
  "hex_text [] = []"
  "hex_text (b # bs) = hex_asc ! unat (drop_bit 4 b AND 0xf) # hex_asc ! unat (b AND 0xf) # hex_text bs"
  by (simp_all add: hex_text_def)

lemma length_hex_text [simp]: "length (hex_text bs) = 2 * length bs"
  by (induction bs) simp_all

lemma hex_byte_pack_store:
  assumes "p + 2 \<le> length buf"
  shows "hex_byte_pack buf p b = (store_bytes buf p (hex_text [b]), p + 2)"
  using assms store_store [of p "[_]" "[_]" buf]
  by (simp add: hex_byte_pack_def Let_def store_one)

lemma bin2hex_store:
  assumes "p + n \<le> length src" and "d + 2 * n \<le> length dst"
  shows "bin2hex dst d src p n = (store_bytes dst d (hex_text (bytes_at src p n)), d + 2 * n)"
  using assms
proof (induction n arbitrary: dst d p)
  case (Suc n)
  then have "hex_byte_pack dst d (src ! p) = (store_bytes dst d (hex_text [src ! p]), d + 2)"
    by (intro hex_byte_pack_store) simp
  with Suc show ?case
    using store_store [of d "hex_text [src ! p]" "hex_text (bytes_at src (Suc p) n)" dst]
    by (simp add: bytes_at_Suc)
qed simp

section \<open>Decoding\<close>

text \<open>The specification of the decoder: the bytes of the digit pairs before the first bad character.\<close>

definition hex_digit :: "u8 \<Rightarrow> bool" where
  "hex_digit ch \<longleftrightarrow> (0x30 \<le> ch \<and> ch \<le> 0x39) \<or> (0x61 \<le> ch \<and> ch \<le> 0x66) \<or> (0x41 \<le> ch \<and> ch \<le> 0x46)"

fun hex_decode :: "u8 list \<Rightarrow> u8 list" where
  "hex_decode (hi # lo # cs) =
     (if hex_digit hi \<and> hex_digit lo then hex_byte (hex_to_bin hi) (hex_to_bin lo) # hex_decode cs else [])"
| "hex_decode cs = []"

lemma hex_digit_iff: "hex_digit ch \<longleftrightarrow> 0 \<le> hex_to_bin ch"
  by (auto simp: hex_digit_def hex_to_bin_eq hex_to_bin_cases_def word_le_def)

lemma length_hex_decode: "length (hex_decode cs) \<le> length cs div 2"
  by (induction cs rule: hex_decode.induct) auto

lemma hex_decode_all: "even (length cs) \<Longrightarrow> (length (hex_decode cs) = length cs div 2) = list_all hex_digit cs"
proof (induction cs rule: hex_decode.induct)
  case (1 hi lo cs)
  then show ?case using length_hex_decode [of cs] by auto
qed auto

lemma hex2bin_store:
  assumes "p + 2 * n \<le> length src" and "d + n \<le> length dst"
  shows "hex2bin dst d src p n =
    (let bs = hex_decode (bytes_at src p (2 * n))
     in (if length bs = n then 0 else - EINVAL, store_bytes dst d bs))"
  using assms
proof (induction n arbitrary: dst d p)
  case (Suc n)
  then have split: "bytes_at src p (2 * Suc n) = src ! p # src ! (p + 1) # bytes_at src (p + 2) (2 * n)"
    by (simp add: bytes_at_Suc numeral_2_eq_2)
  show ?case
  proof (cases "hex_digit (src ! p) \<and> hex_digit (src ! (p + 1))")
    case True
    let ?b = "hex_byte (hex_to_bin (src ! p)) (hex_to_bin (src ! (p + 1)))"
    let ?bs = "hex_decode (bytes_at src (p + 2) (2 * n))"
    have "length ?bs \<le> n"
      using length_hex_decode [of "bytes_at src (p + 2) (2 * n)"] Suc.prems by simp
    then have "store_bytes (dst[d := ?b]) (d + 1) ?bs = store_bytes dst d (?b # ?bs)"
      using Suc.prems store_store [of d "[?b]" ?bs dst] by (simp add: store_one)
    moreover have "hex2bin dst d src p (Suc n) = hex2bin (dst[d := ?b]) (d + 1) src (p + 2) n"
      using True by (simp add: hex_digit_iff Let_def)
    ultimately show ?thesis
      unfolding split using Suc True by (simp add: Let_def)
  next
    case False
    then show ?thesis unfolding split by (auto simp: hex_digit_iff Let_def)
  qed
qed simp

lemma unat_nibble: "unat ((b::u8) AND 0xf) < 16"
proof -
  have "unat (b AND mask 4) < 16" unfolding unat_and_mask by simp
  then show ?thesis by (simp add: mask_eq_exp_minus_1)
qed

lemma hex_decode_text: "hex_decode (hex_text bs) = bs"
  by (induction bs) (simp_all add: hex_digit_iff hex_asc_digit unat_nibble hex_byte_split)

section \<open>Properties\<close>

text \<open>Digits.  The branch-free decoder computes the value of a hexadecimal digit of
  either case and -1 for every other byte, as the plain case distinction does; it inverts
  both digit tables.\<close>

theorem hex_to_bin_digits:
  "hex_to_bin ch = hex_to_bin_cases ch \<and>
   map hex_to_bin hex_asc = [0..15] \<and> map hex_to_bin hex_asc_upper = [0..15]"
proof -
  have "map hex_to_bin_cases hex_asc = [0..15] \<and> map hex_to_bin_cases hex_asc_upper = [0..15]" by code_simp
  moreover have "hex_to_bin = hex_to_bin_cases" by (rule ext) (rule hex_to_bin_eq)
  ultimately show ?thesis by simp
qed

text \<open>Decoding.  \<open>hex2bin\<close> stores, from the destination pointer on, the bytes of
  the digit pairs before the first pair with a bad character, and touches no other cell;
  it returns 0 exactly if all the characters are hexadecimal digits, and -EINVAL
  otherwise.\<close>

theorem hex2bin_correct:
  assumes "p + 2 * n \<le> length src" and "d + n \<le> length dst"
  shows "hex2bin dst d src p n =
    (if list_all hex_digit (bytes_at src p (2 * n)) then 0 else - EINVAL,
     store_bytes dst d (hex_decode (bytes_at src p (2 * n))))"
  using hex2bin_store [OF assms] hex_decode_all [of "bytes_at src p (2 * n)"] assms by (simp add: Let_def)

theorem hex2bin_correct_witness:
  "hex2bin [0, 0, 9] 0 [0x31, 0x46, 0x20, 0x30] 0 2 = (- EINVAL, [0x1f, 0, 9])"
proof -
  have "hex2bin [0, 0, 9] 0 [0x31, 0x46, 0x20, 0x30] 0 2 =
    (if list_all hex_digit (bytes_at [0x31, 0x46, 0x20, 0x30] 0 (2 * 2)) then 0 else - EINVAL,
     store_bytes [0, 0, 9] 0 (hex_decode (bytes_at [0x31, 0x46, 0x20, 0x30] 0 (2 * 2))))"
    by (rule hex2bin_correct) simp_all
  also have "\<dots> = (- EINVAL, [0x1f, 0, 9])" by code_simp
  finally show ?thesis .
qed

text \<open>Round trip.  Decoding what \<open>bin2hex\<close> wrote gives the bytes back, whatever
  the three buffers and the positions in them.\<close>

theorem hex_roundtrip:
  assumes "p + n \<le> length src" and "d + 2 * n \<le> length tbuf" and "e + n \<le> length dst"
  shows "hex2bin dst e (fst (bin2hex tbuf d src p n)) d n = (0, store_bytes dst e (bytes_at src p n))"
proof -
  let ?t = "hex_text (bytes_at src p n)"
  have t: "fst (bin2hex tbuf d src p n) = store_bytes tbuf d ?t" "length ?t = 2 * n"
    using assms by (simp_all add: bin2hex_store)
  then have "bytes_at (store_bytes tbuf d ?t) d (2 * n) = ?t"
    using bytes_at_store [of d ?t tbuf] assms by simp
  then show ?thesis
    using assms t by (simp add: hex2bin_store hex_decode_text Let_def)
qed

theorem hex_roundtrip_witness:
  "hex2bin [0, 0] 0 (fst (bin2hex (replicate 4 0) 0 [0x3c, 0xa0] 0 2)) 0 2 = (0, [0x3c, 0xa0])"
  using hex_roundtrip [of 0 2 "[0x3c, 0xa0]" 0 "replicate 4 0" 0 "[0, 0]"]
  by (simp add: bytes_at_def store_bytes_def)

end
