(* ===== verification/Seq_Buf.thy ===== *)
theory Seq_Buf
  imports Hexdump
begin

text \<open>
  Model of \<^verbatim>\<open>shims/lib/seq_buf.c\<close>: the bounded text buffer with its sticky overflow
  mark, \<^verbatim>\<open>seq_buf_puts\<close>, \<^verbatim>\<open>seq_buf_putc\<close>, \<^verbatim>\<open>seq_buf_putmem\<close>,
  \<^verbatim>\<open>seq_buf_putmem_hex\<close> and \<^verbatim>\<open>seq_buf_vprintf\<close> (whose \<^verbatim>\<open>vsnprintf\<close> is a stub of
  the file).  \<^verbatim>\<open>struct seq_buf\<close>, \<^verbatim>\<open>seq_buf_set_overflow\<close> and
  \<^verbatim>\<open>seq_buf_has_overflowed\<close> come from the kernel's own header, which is not part of
  the repository: the fields are the ones this file uses, the two functions are the
  parameter \<open>seq_buf_hdr\<close>, and \<open>hdr_ok\<close> states their documented behaviour (overflow is
  the length one past the size).

  The abstract view of a buffer is its text, or nothing once it has overflowed.  The
  locale \<open>bounded_sink\<close> is the contract of such a sink: every write appends its text if
  that fits and overflows otherwise.  Its lemmas say what a sequence of writes does; the
  interpretation at the end proves the contract for the code.
\<close>

section \<open>The code\<close>

record seq_buf =
  sb_buffer :: "u8 list" \<comment> \<open>the bytes the pointer points to\<close>
  sb_size :: u64
  sb_len :: u64

record seq_buf_hdr =
  set_overflow :: "seq_buf \<Rightarrow> seq_buf"
  has_overflowed :: "seq_buf \<Rightarrow> bool"

text \<open>A C string is a byte list with a terminating zero in it.\<close>

fun strlen :: "u8 list \<Rightarrow> nat" where
  "strlen [] = 0"
| "strlen (c # s) = (if c \<noteq> 0 then Suc (strlen s) else 0)"

text \<open>\<^verbatim>\<open>memcpy(d, s, n)\<close> with \<open>d\<close> at index \<open>p\<close> of a buffer: the loop stores byte after byte.\<close>

definition memcpy :: "u8 list \<Rightarrow> nat \<Rightarrow> u8 list \<Rightarrow> nat \<Rightarrow> u8 list" where
  "memcpy buf p s n = fold (\<lambda>i buf. buf[p + i := s ! i]) [0..<n] buf"

definition seq_hex_asc :: "u8 list" where
  "seq_hex_asc = [0x30, 0x31, 0x32, 0x33, 0x34, 0x35, 0x36, 0x37, 0x38, 0x39, 0x61, 0x62, 0x63, 0x64, 0x65, 0x66]"

definition hex_asc_lo :: "u8 \<Rightarrow> u8" where
  "hex_asc_lo x = seq_hex_asc ! unat (x AND 0x0f)"

definition hex_asc_hi :: "u8 \<Rightarrow> u8" where
  "hex_asc_hi x = seq_hex_asc ! unat (drop_bit 4 (x AND 0xf0))"

definition vsnprintf :: "u8 list \<Rightarrow> nat \<Rightarrow> u64 \<Rightarrow> u8 list \<Rightarrow> u8 list \<times> cint" where
  "vsnprintf buf p n fmt = (buf, 0)"

definition seq_buf_can_fit :: "seq_buf \<Rightarrow> u64 \<Rightarrow> bool" where
  "seq_buf_can_fit s len \<longleftrightarrow> sb_len s + len \<le> sb_size s"

definition seq_buf_vprintf :: "seq_buf_hdr \<Rightarrow> seq_buf \<Rightarrow> u8 list \<Rightarrow> cint \<times> seq_buf" where
  "seq_buf_vprintf h s fmt =
     (if sb_len s < sb_size s
      then let (buf, len) = vsnprintf (sb_buffer s) (unat (sb_len s)) (sb_size s - sb_len s) fmt;
               s = s\<lparr>sb_buffer := buf\<rparr>
           in if sb_len s + word_of_int len < sb_size s
              then (0, s\<lparr>sb_len := sb_len s + word_of_int len\<rparr>)
              else (- 1, set_overflow h s)
      else (- 1, set_overflow h s))"

definition seq_buf_puts :: "seq_buf_hdr \<Rightarrow> seq_buf \<Rightarrow> u8 list \<Rightarrow> cint \<times> seq_buf" where
  "seq_buf_puts h s str =
     (let len = (of_nat (strlen str) :: u64);
          len = len + 1
      in if seq_buf_can_fit s len
         then (0, s\<lparr>sb_buffer := memcpy (sb_buffer s) (unat (sb_len s)) str (unat len),
                    sb_len := sb_len s + (len - 1)\<rparr>)
         else (- 1, set_overflow h s))"

definition seq_buf_putc :: "seq_buf_hdr \<Rightarrow> seq_buf \<Rightarrow> u8 \<Rightarrow> cint \<times> seq_buf" where
  "seq_buf_putc h s c =
     (if seq_buf_can_fit s 1
      then (0, s\<lparr>sb_buffer := (sb_buffer s)[unat (sb_len s) := c], sb_len := sb_len s + 1\<rparr>)
      else (- 1, set_overflow h s))"

definition seq_buf_putmem :: "seq_buf_hdr \<Rightarrow> seq_buf \<Rightarrow> u8 list \<Rightarrow> u32 \<Rightarrow> cint \<times> seq_buf" where
  "seq_buf_putmem h s mem len =
     (if seq_buf_can_fit s (ucast len)
      then (0, s\<lparr>sb_buffer := memcpy (sb_buffer s) (unat (sb_len s)) mem (unat len),
                 sb_len := sb_len s + ucast len\<rparr>)
      else (- 1, set_overflow h s))"

definition MAX_MEMHEX_BYTES :: u32 where "MAX_MEMHEX_BYTES = 8"
definition HEX_CHARS :: u32 where "HEX_CHARS = MAX_MEMHEX_BYTES * 2 + 1"

text \<open>
  The inner loop runs \<open>i\<close> down from \<^verbatim>\<open>start_len - 1\<close> (the little-endian variant) and
  fills \<^verbatim>\<open>hex\<close> from its first cell on: the list holds its first \<open>j\<close> cells.
\<close>

fun hex_loop :: "u8 list \<Rightarrow> nat \<Rightarrow> nat \<Rightarrow> u8 list \<Rightarrow> u8 list" where
  "hex_loop data d 0 hex = hex"
| "hex_loop data d (Suc i) hex =
     hex_loop data d i (hex @ [hex_asc_hi (data ! (d + i)), hex_asc_lo (data ! (d + i))])"

function putmem_hex_loop :: "seq_buf_hdr \<Rightarrow> seq_buf \<Rightarrow> u8 list \<Rightarrow> nat \<Rightarrow> u32 \<Rightarrow> cint \<times> seq_buf" where
  "putmem_hex_loop h s data d len =
     (if len = 0 then (0, s)
      else let start_len = min len MAX_MEMHEX_BYTES;
               hex = hex_loop data d (unat start_len) [];
               j = length hex
           in if j = 0 \<or> j div 2 > unat len then (0, s)
              else let hex = hex @ [0x20];
                       (_, s) = seq_buf_putmem h s hex (of_nat (j + 1))
                   in if has_overflowed h s then (- 1, s)
                      else putmem_hex_loop h s data (d + unat start_len) (len - start_len))"
  by pat_completeness auto

termination
proof (relation "measure (\<lambda>(h, s, data, d, len). unat len)")
  fix h :: seq_buf_hdr and s t :: seq_buf and data :: "u8 list" and d :: nat and len n :: u32
  assume "len \<noteq> 0" and "n = min len MAX_MEMHEX_BYTES"
  then have "0 < n" "n \<le> len" by (auto simp: MAX_MEMHEX_BYTES_def min_def word_neq_0_conv)
  then have "unat (len - n) < unat len" by (simp add: unat_sub word_le_nat_alt word_less_nat_alt)
  then show "((h, t, data, d + unat n, len - n), h, s, data, d, len)
      \<in> measure (\<lambda>(h, s, data, d, len). unat len)" by simp
qed simp

declare putmem_hex_loop.simps [simp del]

definition seq_buf_putmem_hex :: "seq_buf_hdr \<Rightarrow> seq_buf \<Rightarrow> u8 list \<Rightarrow> u32 \<Rightarrow> cint \<times> seq_buf" where
  "seq_buf_putmem_hex h s mem len =
     (if len \<le> MAX_MEMHEX_BYTES
      then let start_len = len
           in if start_len = 0 then (0, s)
              else let hex = hex_loop mem 0 (unat start_len) [];
                       j = length hex
                   in if j = 0 \<or> j div 2 > unat len then (- 1, s)
                      else let hex = hex @ [0x20];
                               (_, s) = seq_buf_putmem h s hex (of_nat (j + 1))
                           in (if has_overflowed h s then - 1 else 0, s)
      else putmem_hex_loop h s mem 0 len)"

section \<open>The contract of a bounded sink\<close>

definition append_view :: "nat \<Rightarrow> nat \<Rightarrow> 'a list \<Rightarrow> 'a list option \<Rightarrow> 'a list option" where
  "append_view room slack bs v = (case v of
     None \<Rightarrow> None
   | Some t \<Rightarrow> if length t + length bs + slack \<le> room then Some (t @ bs) else None)"

locale bounded_sink =
  fixes put :: "'op \<Rightarrow> 's \<Rightarrow> 's"
    and view :: "'s \<Rightarrow> 'a list option"
    and room :: "'s \<Rightarrow> nat"
    and good :: "'s \<Rightarrow> bool"
    and valid :: "'op \<Rightarrow> bool"
    and wtext :: "'op \<Rightarrow> 'a list"
    and slack :: "'op \<Rightarrow> nat"
  assumes put_good: "good s \<Longrightarrow> valid op \<Longrightarrow> good (put op s) \<and> room (put op s) = room s"
    and put_view: "good s \<Longrightarrow> valid op \<Longrightarrow> view (put op s) = append_view (room s) (slack op) (wtext op) (view s)"
begin

lemma puts_good:
  "good s \<Longrightarrow> list_all valid ops \<Longrightarrow> good (fold put ops s) \<and> room (fold put ops s) = room s"
proof (induction ops arbitrary: s)
  case (Cons op ops)
  then show ?case using put_good [of s op] by simp
qed simp

lemma overflow_sticky:
  "good s \<Longrightarrow> list_all valid ops \<Longrightarrow> view s = None \<Longrightarrow> view (fold put ops s) = None"
proof (induction ops arbitrary: s)
  case (Cons op ops)
  then show ?case using put_good [of s op] put_view [of s op] by (simp add: append_view_def)
qed simp

lemma puts_fit:
  assumes "good s" and "list_all valid ops" and "view s = Some t"
    and "\<And>op. op \<in> set ops \<Longrightarrow> slack op \<le> k" and "length t + length (concat (map wtext ops)) + k \<le> room s"
  shows "view (fold put ops s) = Some (t @ concat (map wtext ops))"
  using assms
proof (induction ops arbitrary: s t)
  case (Cons op ops)
  from Cons.prems(4) have "slack op \<le> k" by simp
  with Cons.prems(5) have "length t + length (wtext op) + slack op \<le> room s" by simp
  then have "view (put op s) = Some (t @ wtext op)"
    using Cons.prems put_view [of s op] by (simp add: append_view_def)
  then show ?case
    using Cons.prems put_good [of s op] by (simp add: Cons.IH [of "put op s" "t @ wtext op"])
qed simp

lemma puts_text:
  assumes "good s" and "list_all valid ops" and "view (fold put ops s) = Some u"
  shows "\<exists>t. view s = Some t \<and> u = t @ concat (map wtext ops)"
  using assms
proof (induction ops arbitrary: s)
  case (Cons op ops)
  then obtain v where "view (put op s) = Some v" "u = v @ concat (map wtext ops)"
    using put_good [of s op] by fastforce
  then show ?case
    using Cons.prems put_view [of s op] by (auto simp: append_view_def split: option.splits if_splits)
qed simp

end

section \<open>Every operation appends or overflows\<close>

definition hdr_ok :: "seq_buf_hdr \<Rightarrow> bool" where
  "hdr_ok h \<longleftrightarrow> (\<forall>s. set_overflow h s = s\<lparr>sb_len := sb_size s + 1\<rparr>)
     \<and> (\<forall>s. has_overflowed h s \<longleftrightarrow> sb_len s > sb_size s)"

text \<open>The buffer has the announced size, which leaves the length room to mark the overflow.\<close>

definition sb_good :: "seq_buf \<Rightarrow> bool" where
  "sb_good s \<longleftrightarrow> length (sb_buffer s) = unat (sb_size s) \<and> unat (sb_size s) < 2 ^ 62
     \<and> unat (sb_len s) \<le> unat (sb_size s) + 1"

definition sb_view :: "seq_buf \<Rightarrow> u8 list option" where
  "sb_view s = (if sb_len s > sb_size s then None else Some (take (unat (sb_len s)) (sb_buffer s)))"

lemma memcpy_store:
  assumes "n \<le> length src" and "p + n \<le> length buf"
  shows "memcpy buf p src n = store_bytes buf p (take n src)"
  using assms
proof (induction n)
  case (Suc n)
  have "memcpy buf p src (Suc n) = (memcpy buf p src n)[p + n := src ! n]"
    by (simp add: memcpy_def)
  also have "\<dots> = store_bytes (store_bytes buf p (take n src)) (p + n) [src ! n]"
    using Suc by (simp add: store_one)
  also have "\<dots> = store_bytes buf p (take n src @ [src ! n])"
    using Suc.prems store_store [of p "take n src" "[src ! n]" buf] by simp
  finally show ?case using Suc.prems by (simp add: take_Suc_conv_app_nth)
qed (simp add: memcpy_def)

lemma sb_overflowed:
  assumes "hdr_ok h" and "sb_good s"
  shows "sb_good (set_overflow h s)" "sb_view (set_overflow h s) = None"
    "sb_size (set_overflow h s) = sb_size s"
proof -
  have "unat (sb_size s + 1) = unat (sb_size s) + 1"
    using assms(2) by (simp add: sb_good_def unat_plus_simple unat_word_ariths)
  then show "sb_good (set_overflow h s)" "sb_view (set_overflow h s) = None"
    "sb_size (set_overflow h s) = sb_size s"
    using assms by (simp_all add: hdr_ok_def sb_good_def sb_view_def word_less_nat_alt)
qed

lemma sb_fits:
  assumes "sb_good s" and "unat n < 2 ^ 62"
  shows "seq_buf_can_fit s n \<longleftrightarrow> unat (sb_len s) + unat n \<le> unat (sb_size s)"
proof -
  have "unat (sb_len s + n) = unat (sb_len s) + unat n"
    using assms by (simp add: sb_good_def unat_word_ariths)
  then show ?thesis by (simp add: seq_buf_can_fit_def word_le_nat_alt)
qed

text \<open>A store of \<open>cs\<close> at the end of the text that counts its first \<open>n\<close> bytes.\<close>

lemma sb_append:
  assumes "sb_good s" and "unat (sb_len s) + length cs \<le> unat (sb_size s)"
    and "n \<le> length cs" and "len = sb_len s + of_nat n"
  defines "s' \<equiv> s\<lparr>sb_buffer := store_bytes (sb_buffer s) (unat (sb_len s)) cs, sb_len := len\<rparr>"
  shows "sb_good s'" "sb_view s' = Some (take (unat (sb_len s)) (sb_buffer s) @ take n cs)"
proof -
  have len: "unat len = unat (sb_len s) + n"
    using assms by (simp add: sb_good_def unat_word_ariths unsigned_of_nat take_bit_nat_eq_self)
  then show "sb_good s'" using assms by (simp add: sb_good_def)
  have "take (unat len) (store_bytes (sb_buffer s) (unat (sb_len s)) cs)
      = take (unat (sb_len s)) (sb_buffer s) @ take n cs"
    using assms(1-3) by (simp add: store_bytes_def sb_good_def len)
  then show "sb_view s' = Some (take (unat (sb_len s)) (sb_buffer s) @ take n cs)"
    using assms len by (simp add: sb_view_def word_less_nat_alt)
qed


definition sb_refines :: "seq_buf \<Rightarrow> nat \<Rightarrow> u8 list \<Rightarrow> seq_buf \<Rightarrow> bool" where
  "sb_refines s slack bs s' \<longleftrightarrow> sb_good s' \<and> sb_size s' = sb_size s \<and>
     sb_view s' = append_view (unat (sb_size s)) slack bs (sb_view s)"

lemma sb_view_None: "sb_view s = None \<longleftrightarrow> unat (sb_size s) < unat (sb_len s)"
  by (simp add: sb_view_def word_less_nat_alt)

text \<open>The common shape of the operations: append if it fits, mark the overflow otherwise.\<close>

lemma sb_write:
  assumes "hdr_ok h" and "sb_good s" and "length cs = length bs + slack" and "take (length bs) cs = bs"
    and "unat need = length cs" and "length cs < 2 ^ 62"
    and "len = sb_len s + of_nat (length bs)"
    and "p = (if seq_buf_can_fit s need
      then (0, s\<lparr>sb_buffer := store_bytes (sb_buffer s) (unat (sb_len s)) cs, sb_len := len\<rparr>)
      else (- 1, set_overflow h s))"
  shows "sb_refines s slack bs (snd p)" and "fst p = (if sb_view (snd p) = None then - 1 else 0)"
proof -
  have fit: "seq_buf_can_fit s need \<longleftrightarrow> unat (sb_len s) + length cs \<le> unat (sb_size s)"
    using sb_fits [of s need] assms by simp
  have "sb_refines s slack bs (snd p) \<and> fst p = (if sb_view (snd p) = None then - 1 else 0)"
  proof (cases "seq_buf_can_fit s need")
    case True
    then have "unat (sb_len s) + length cs \<le> unat (sb_size s)" by (simp add: fit)
    moreover from this have "sb_view s = Some (take (unat (sb_len s)) (sb_buffer s))"
      by (simp add: sb_view_def word_less_nat_alt)
    ultimately show ?thesis
      using True assms(2-4) sb_append [OF assms(2) _ _ assms(7), of cs]
      by (simp add: assms(8) sb_refines_def append_view_def sb_good_def)
  next
    case False
    then have "append_view (unat (sb_size s)) slack bs (sb_view s) = None"
      using assms(2,3) by (auto simp: fit append_view_def sb_view_def sb_good_def word_less_nat_alt)
    with False sb_overflowed [OF assms(1,2)] show ?thesis
      by (simp add: assms(8) sb_refines_def)
  qed
  then show "sb_refines s slack bs (snd p)" "fst p = (if sb_view (snd p) = None then - 1 else 0)"
    by simp_all
qed


lemma memcpy_if_fits:
  assumes "sb_good s" and "n < 2 ^ 62" and "n \<le> length src" and "unat need = n"
  shows "(if seq_buf_can_fit s need
      then (0, s\<lparr>sb_buffer := memcpy (sb_buffer s) (unat (sb_len s)) src n, sb_len := len\<rparr>) else q) =
    (if seq_buf_can_fit s need
      then (0, s\<lparr>sb_buffer := store_bytes (sb_buffer s) (unat (sb_len s)) (take n src), sb_len := len\<rparr>) else q)"
  using assms by (auto simp: sb_fits memcpy_store sb_good_def)

lemma strlen_le: "0 \<in> set str \<Longrightarrow> strlen str < length str"
  by (induction str) auto

lemma puts_refines:
  assumes "hdr_ok h" and "sb_good s" and "0 \<in> set str" and "length str < 2 ^ 62"
  shows "sb_refines s 1 (take (strlen str) str) (snd (seq_buf_puts h s str))"
    and "fst (seq_buf_puts h s str) = (if sb_view (snd (seq_buf_puts h s str)) = None then - 1 else 0)"
proof -
  let ?n = "Suc (strlen str)" and ?bs = "take (strlen str) str"
  have n: "?n \<le> length str" using strlen_le [OF assms(3)] by simp
  then have u: "unat (of_nat ?n :: u64) = ?n"
    using assms(4) by (simp add: unsigned_of_nat take_bit_nat_eq_self del: of_nat_Suc)
  have len: "sb_len s + of_nat (strlen str) = sb_len s + of_nat (length ?bs)" using n by simp
  have "seq_buf_puts h s str =
    (if seq_buf_can_fit s (of_nat ?n)
     then (0, s\<lparr>sb_buffer := memcpy (sb_buffer s) (unat (sb_len s)) str ?n,
                sb_len := sb_len s + of_nat (strlen str)\<rparr>)
     else (- 1, set_overflow h s))"
    using u by (simp add: seq_buf_puts_def add.commute)
  also have "\<dots> = (if seq_buf_can_fit s (of_nat ?n)
     then (0, s\<lparr>sb_buffer := store_bytes (sb_buffer s) (unat (sb_len s)) (take ?n str),
                sb_len := sb_len s + of_nat (strlen str)\<rparr>)
     else (- 1, set_overflow h s))"
    using n assms(4) by (intro memcpy_if_fits [OF assms(2)] u) simp_all
  finally have eq: "seq_buf_puts h s str = \<dots>" .
  note sb_write [OF assms(1,2) _ _ _ _ len eq, where slack = 1]
  with n u assms(4)
  show "sb_refines s 1 ?bs (snd (seq_buf_puts h s str))"
    and "fst (seq_buf_puts h s str) = (if sb_view (snd (seq_buf_puts h s str)) = None then - 1 else 0)"
    by (simp_all add: min_def)
qed

lemma putc_refines:
  assumes "hdr_ok h" and "sb_good s"
  shows "sb_refines s 0 [c] (snd (seq_buf_putc h s c))"
    and "fst (seq_buf_putc h s c) = (if sb_view (snd (seq_buf_putc h s c)) = None then - 1 else 0)"
proof -
  have "seq_buf_putc h s c =
    (if seq_buf_can_fit s 1
     then (0, s\<lparr>sb_buffer := store_bytes (sb_buffer s) (unat (sb_len s)) [c], sb_len := sb_len s + 1\<rparr>)
     else (- 1, set_overflow h s))"
    using assms(2) by (auto simp: seq_buf_putc_def sb_fits store_one sb_good_def)
  note sb_write [OF assms _ _ _ _ _ this, where slack = 0 and bs = "[c]"]
  then show "sb_refines s 0 [c] (snd (seq_buf_putc h s c))"
    and "fst (seq_buf_putc h s c) = (if sb_view (snd (seq_buf_putc h s c)) = None then - 1 else 0)"
    by simp_all
qed

lemma putmem_refines:
  assumes "hdr_ok h" and "sb_good s" and "unat len \<le> length mem"
  shows "sb_refines s 0 (take (unat len) mem) (snd (seq_buf_putmem h s mem len))"
    and "fst (seq_buf_putmem h s mem len) = (if sb_view (snd (seq_buf_putmem h s mem len)) = None then - 1 else 0)"
proof -
  have u: "unat len < 2 ^ 62" using unat_u32_less [of len] by simp
  have len: "sb_len s + ucast len = sb_len s + of_nat (length (take (unat len) mem))"
    using assms(3) by (simp add: word_unat_eq_iff)
  have "seq_buf_putmem h s mem len =
    (if seq_buf_can_fit s (ucast len)
     then (0, s\<lparr>sb_buffer := store_bytes (sb_buffer s) (unat (sb_len s)) (take (unat len) mem),
                sb_len := sb_len s + ucast len\<rparr>)
     else (- 1, set_overflow h s))"
    unfolding seq_buf_putmem_def by (rule memcpy_if_fits [OF assms(2) u assms(3)]) simp
  note sb_write [OF assms(1,2) _ _ _ _ len this, where slack = 0]
  with u assms(3) show "sb_refines s 0 (take (unat len) mem) (snd (seq_buf_putmem h s mem len))"
    and "fst (seq_buf_putmem h s mem len) = (if sb_view (snd (seq_buf_putmem h s mem len)) = None then - 1 else 0)"
    by (simp_all add: min_def)
qed


lemma vprintf_refines:
  assumes "hdr_ok h" and "sb_good s"
  shows "sb_refines s 1 [] (snd (seq_buf_vprintf h s fmt))"
    and "fst (seq_buf_vprintf h s fmt) = (if sb_view (snd (seq_buf_vprintf h s fmt)) = None then - 1 else 0)"
proof -
  have eq: "seq_buf_vprintf h s fmt = (if sb_len s < sb_size s then (0, s) else (- 1, set_overflow h s))"
    by (simp add: seq_buf_vprintf_def vsnprintf_def)
  show "sb_refines s 1 [] (snd (seq_buf_vprintf h s fmt))"
    and "fst (seq_buf_vprintf h s fmt) = (if sb_view (snd (seq_buf_vprintf h s fmt)) = None then - 1 else 0)"
    using assms sb_overflowed [OF assms]
    by (auto simp: eq sb_refines_def append_view_def sb_view_def sb_good_def word_less_nat_alt split: if_splits)
qed

section \<open>Hexadecimal dumps\<close>

text \<open>Groups of up to eight bytes, each group in reverse (most significant byte first) and followed by a blank.\<close>

fun hex_dump_text :: "u8 list \<Rightarrow> u8 list" where
  "hex_dump_text [] = []"
| "hex_dump_text (b # bs) = hex_text (rev (take 8 (b # bs))) @ 0x20 # hex_dump_text (drop 8 (b # bs))"

declare hex_dump_text.simps(2) [simp del]

lemma hex_asc_parts: "hex_asc_lo b = hex_asc ! unat (b AND 0xf)" "hex_asc_hi b = hex_asc ! unat (drop_bit 4 b AND 0xf)"
proof -
  have m: "(0xf0 :: u8) = push_bit 4 (mask 4)" "(0xf :: u8) = mask 4"
    by (simp_all add: mask_eq_exp_minus_1 push_bit_eq_mult)
  have "drop_bit 4 (b AND 0xf0) = drop_bit 4 b AND 0xf"
    unfolding m by (rule bit_word_eqI) (auto simp: bit_simps)
  then show "hex_asc_lo b = hex_asc ! unat (b AND 0xf)" "hex_asc_hi b = hex_asc ! unat (drop_bit 4 b AND 0xf)"
    by (simp_all add: hex_asc_lo_def hex_asc_hi_def seq_hex_asc_def hex_asc_def)
qed

lemma hex_text_append [simp]: "hex_text (as @ bs) = hex_text as @ hex_text bs"
  by (simp add: hex_text_def)

lemma bytes_at_snoc: "p + n < length buf \<Longrightarrow> bytes_at buf p (Suc n) = bytes_at buf p n @ [buf ! (p + n)]"
  by (simp add: bytes_at_def take_Suc_conv_app_nth)

lemma hex_loop_text:
  "d + n \<le> length data \<Longrightarrow> hex_loop data d n hex = hex @ hex_text (rev (bytes_at data d n))"
  by (induction n arbitrary: hex) (simp_all add: hex_asc_parts bytes_at_snoc)

lemma append_view_append:
  "append_view r 0 bs (append_view r 0 as v) = append_view r 0 (as @ bs) v"
  by (auto simp: append_view_def split: option.splits)

lemma sb_refines_trans:
  "sb_refines s 0 as s' \<Longrightarrow> sb_refines s' 0 bs s'' \<Longrightarrow> sb_refines s 0 (as @ bs) s''"
  by (simp add: sb_refines_def append_view_append)

lemma sb_refines_overflow:
  "sb_refines s 0 as s' \<Longrightarrow> sb_view s' = None \<Longrightarrow> sb_refines s 0 (as @ bs) s'"
  by (auto simp: sb_refines_def append_view_def split: option.splits)

lemma sb_refines_refl: "sb_good s \<Longrightarrow> sb_refines s 0 [] s"
  by (auto simp: sb_refines_def append_view_def sb_view_def word_less_nat_alt sb_good_def split: option.splits)

lemma has_overflowed_iff: "hdr_ok h \<Longrightarrow> has_overflowed h s \<longleftrightarrow> sb_view s = None"
  by (simp add: hdr_ok_def sb_view_def)

text \<open>One group: the text is at most the 17 cells of the array \<^verbatim>\<open>hex\<close>.\<close>

lemma hex_group:
  assumes "hdr_ok h" and "sb_good s" and "d + n \<le> length data" and "n \<le> 8"
  defines "hex \<equiv> hex_loop data d n []"
  shows "length hex = 2 * n" and "length (hex @ [0x20]) \<le> unat HEX_CHARS"
    and "sb_refines s 0 (hex_text (rev (bytes_at data d n)) @ [0x20])
      (snd (seq_buf_putmem h s (hex @ [0x20]) (of_nat (length hex + 1))))"
proof -
  have hex: "hex = hex_text (rev (bytes_at data d n))"
    using assms(3) by (simp add: hex_def hex_loop_text)
  show len: "length hex = 2 * n" using assms(3) by (simp add: hex)
  then show "length (hex @ [0x20]) \<le> unat HEX_CHARS"
    using assms(4) by (simp add: HEX_CHARS_def MAX_MEMHEX_BYTES_def)
  have "unat (of_nat (2 * n + 1) :: u32) = 2 * n + 1"
    using assms(4) by (intro unat_of_nat_u32) simp
  then show "sb_refines s 0 (hex_text (rev (bytes_at data d n)) @ [0x20])
      (snd (seq_buf_putmem h s (hex @ [0x20]) (of_nat (length hex + 1))))"
    using putmem_refines(1) [OF assms(1,2), of "of_nat (2 * n + 1)" "hex @ [0x20]"] len hex by simp
qed


lemma hex_dump_text_step:
  assumes "0 < n" and "d + n \<le> length data"
  shows "hex_dump_text (bytes_at data d n) =
    (hex_text (rev (bytes_at data d (min n 8))) @ [0x20]) @ hex_dump_text (bytes_at data (d + min n 8) (n - min n 8))"
proof -
  obtain b bs where bs: "bytes_at data d n = b # bs"
    using assms by (cases "bytes_at data d n") (auto simp: bytes_at_def)
  have "take 8 (bytes_at data d n) = bytes_at data d (min n 8)"
    "drop 8 (bytes_at data d n) = bytes_at data (d + min n 8) (n - min n 8)"
    by (auto simp: bytes_at_def min_def drop_take add.commute)
  then show ?thesis by (simp add: bs hex_dump_text.simps(2))
qed

lemma unat_start_len: "unat (min len MAX_MEMHEX_BYTES) = min (unat len) 8"
  by (simp add: min_def MAX_MEMHEX_BYTES_def word_le_nat_alt)

lemma putmem_hex_loop_step:
  assumes "hdr_ok h" and "sb_good s" and "d + unat len \<le> length data" and "len \<noteq> 0" and "n = min (unat len) 8"
  obtains t where "sb_refines s 0 (hex_text (rev (bytes_at data d n)) @ [0x20]) t"
    and "putmem_hex_loop h s data d len = (if sb_view t = None then (- 1, t)
      else putmem_hex_loop h t data (d + n) (len - min len MAX_MEMHEX_BYTES))"
proof -
  let ?hex = "hex_loop data d n []"
  let ?t = "snd (seq_buf_putmem h s (?hex @ [0x20]) (of_nat (length ?hex + 1)))"
  have "0 < unat len" using assms(4) by (simp add: unat_gt_0)
  then have n: "0 < n" "n \<le> 8" "n \<le> unat len" "d + n \<le> length data"
    using assms(3,5) by auto
  note group = hex_group [OF assms(1,2) n(4,2)]
  have "?hex \<noteq> []" using group(1) n(1) by auto
  then have "putmem_hex_loop h s data d len = (if sb_view ?t = None then (- 1, ?t)
      else putmem_hex_loop h ?t data (d + n) (len - min len MAX_MEMHEX_BYTES))"
    using assms(4) n group(1) unfolding assms(5)
    by (subst putmem_hex_loop.simps) (simp add: unat_start_len Let_def split_def has_overflowed_iff [OF assms(1)])
  with group(3) show thesis by (rule that)
qed

lemma putmem_hex_loop_refines:
  assumes "hdr_ok h" and "sb_good s" and "d + unat len \<le> length data" and "putmem_hex_loop h s data d len = (r, s')"
  shows "sb_refines s 0 (hex_dump_text (bytes_at data d (unat len))) s' \<and>
    (len \<noteq> 0 \<or> sb_view s \<noteq> None \<longrightarrow> r = (if sb_view s' = None then - 1 else 0))"
  using assms(2-4)
proof (induction "unat len" arbitrary: s d len rule: less_induct)
  case less
  show ?case
  proof (cases "len = 0")
    case True
    then show ?thesis
      using less.prems(1,3) by (auto simp: sb_refines_refl putmem_hex_loop.simps [of h s data d 0])
  next
    case False
    let ?rest = "len - min len MAX_MEMHEX_BYTES" and ?n = "min (unat len) 8"
    have pos: "0 < unat len" using False by (simp add: unat_gt_0)
    have rest: "unat ?rest = unat len - ?n"
      by (subst unat_sub) (simp_all add: unat_start_len)
    obtain t where t: "sb_refines s 0 (hex_text (rev (bytes_at data d ?n)) @ [0x20]) t"
      "putmem_hex_loop h s data d len = (if sb_view t = None then (- 1, t)
        else putmem_hex_loop h t data (d + ?n) ?rest)"
      using putmem_hex_loop_step [OF assms(1) less.prems(1,2) False refl] .
    show ?thesis
    proof (cases "sb_view t = None")
      case True
      with t less.prems(3) sb_refines_overflow [OF t(1) True] show ?thesis
        unfolding hex_dump_text_step [OF pos less.prems(2)] by simp
    next
      case view: False
      have "sb_good t" using t(1) by (simp add: sb_refines_def)
      with view t(2) rest pos less.prems
      have "sb_refines t 0 (hex_dump_text (bytes_at data (d + ?n) (unat len - ?n))) s' \<and>
          r = (if sb_view s' = None then - 1 else 0)"
        using less.hyps [of ?rest t "d + ?n"] by auto
      with sb_refines_trans [OF t(1)] show ?thesis
        unfolding hex_dump_text_step [OF pos less.prems(2)] by blast
    qed
  qed
qed

lemma putmem_hex_refines:
  assumes "hdr_ok h" and "sb_good s" and "unat len \<le> length mem"
  shows "sb_refines s 0 (hex_dump_text (take (unat len) mem)) (snd (seq_buf_putmem_hex h s mem len))"
    and "fst (seq_buf_putmem_hex h s mem len) =
      (if len \<noteq> 0 \<and> sb_view (snd (seq_buf_putmem_hex h s mem len)) = None then - 1 else 0)"
proof -
  have "seq_buf_putmem_hex h s mem len = putmem_hex_loop h s mem 0 len"
  proof (cases "len \<le> MAX_MEMHEX_BYTES \<and> len \<noteq> 0")
    case True
    then have len: "min len MAX_MEMHEX_BYTES = len" "unat len \<le> 8"
      by (simp_all add: MAX_MEMHEX_BYTES_def word_le_nat_alt)
    have "length (hex_loop mem 0 (unat len) []) = 2 * unat len"
      using hex_group(1) [OF assms(1,2) _ len(2)] assms(3) by simp
    moreover from True have "unat len \<noteq> 0" by (simp add: unat_eq_zero)
    moreover have "putmem_hex_loop h t mem d 0 = (0, t)" for t d
      by (simp add: putmem_hex_loop.simps)
    ultimately show ?thesis
      using True len by (subst putmem_hex_loop.simps) (simp add: seq_buf_putmem_hex_def split_def Let_def flip: length_0_conv)
  next
    case False
    then show ?thesis by (auto simp: seq_buf_putmem_hex_def putmem_hex_loop.simps [of h s mem 0 0])
  qed
  moreover have "take (unat len) mem = bytes_at mem 0 (unat len)" by (simp add: bytes_at_def)
  ultimately show "sb_refines s 0 (hex_dump_text (take (unat len) mem)) (snd (seq_buf_putmem_hex h s mem len))"
    and "fst (seq_buf_putmem_hex h s mem len) =
      (if len \<noteq> 0 \<and> sb_view (snd (seq_buf_putmem_hex h s mem len)) = None then - 1 else 0)"
    using putmem_hex_loop_refines [OF assms(1,2), of 0 len mem] assms(3)
    by (auto simp: putmem_hex_loop.simps [of h s mem 0 0] prod_eq_iff)
qed


section \<open>Sequences of writes\<close>

datatype sb_op = Puts "u8 list" | Putc u8 | Putmem "u8 list" u32 | Putmem_hex "u8 list" u32 | Vprintf "u8 list"

fun sb_call :: "seq_buf_hdr \<Rightarrow> sb_op \<Rightarrow> seq_buf \<Rightarrow> cint \<times> seq_buf" where
  "sb_call h (Puts str) s = seq_buf_puts h s str"
| "sb_call h (Putc c) s = seq_buf_putc h s c"
| "sb_call h (Putmem mem len) s = seq_buf_putmem h s mem len"
| "sb_call h (Putmem_hex mem len) s = seq_buf_putmem_hex h s mem len"
| "sb_call h (Vprintf fmt) s = seq_buf_vprintf h s fmt"

definition sb_run :: "seq_buf_hdr \<Rightarrow> sb_op list \<Rightarrow> seq_buf \<Rightarrow> seq_buf" where
  "sb_run h ops s = fold (\<lambda>op s. snd (sb_call h op s)) ops s"

fun sb_text :: "sb_op \<Rightarrow> u8 list" where
  "sb_text (Puts str) = take (strlen str) str"
| "sb_text (Putc c) = [c]"
| "sb_text (Putmem mem len) = take (unat len) mem"
| "sb_text (Putmem_hex mem len) = hex_dump_text (take (unat len) mem)"
| "sb_text (Vprintf fmt) = []"

text \<open>Strings and formatted output need room for the terminator as well.\<close>

fun sb_slack :: "sb_op \<Rightarrow> nat" where
  "sb_slack (Puts str) = 1"
| "sb_slack (Vprintf fmt) = 1"
| "sb_slack _ = 0"

text \<open>Strings are terminated and the length of a memory block is not past its end.\<close>

fun sb_valid :: "sb_op \<Rightarrow> bool" where
  "sb_valid (Puts str) \<longleftrightarrow> 0 \<in> set str \<and> length str < 2 ^ 62"
| "sb_valid (Putmem mem len) \<longleftrightarrow> unat len \<le> length mem"
| "sb_valid (Putmem_hex mem len) \<longleftrightarrow> unat len \<le> length mem"
| "sb_valid _ \<longleftrightarrow> True"

lemma sb_call_refines:
  assumes "hdr_ok h" and "sb_good s" and "sb_valid op"
  shows "sb_refines s (sb_slack op) (sb_text op) (snd (sb_call h op s))"
  using assms by (cases op)
    (simp_all add: puts_refines putc_refines putmem_refines putmem_hex_refines vprintf_refines del: One_nat_def)

lemma sb_call_code:
  assumes "hdr_ok h" and "sb_good s" and "sb_valid op" and "\<And>mem. op \<noteq> Putmem_hex mem 0"
  shows "fst (sb_call h op s) = (if sb_view (snd (sb_call h op s)) = None then - 1 else 0)"
  using assms by (cases op)
    (simp_all add: puts_refines(2) putc_refines(2) putmem_refines(2) putmem_hex_refines(2) vprintf_refines(2))

text \<open>The contract holds for the code under any header with the documented behaviour.\<close>

interpretation sb: bounded_sink "\<lambda>op (h, s). (h, snd (sb_call h op s))" "\<lambda>(h, s). sb_view s"
  "\<lambda>(h, s). unat (sb_size s)" "\<lambda>(h, s). hdr_ok h \<and> sb_good s" sb_valid sb_text sb_slack
proof unfold_locales
  fix hs :: "seq_buf_hdr \<times> seq_buf" and op
  assume ok: "case hs of (h, s) \<Rightarrow> hdr_ok h \<and> sb_good s" "sb_valid op"
  obtain h s where hs: "hs = (h, s)" by (cases hs)
  with ok sb_call_refines [of h s op]
  have "sb_refines s (sb_slack op) (sb_text op) (snd (sb_call h op s))" by simp
  with ok hs show "(case case hs of (h, s) \<Rightarrow> (h, snd (sb_call h op s)) of (h, s) \<Rightarrow> hdr_ok h \<and> sb_good s) \<and>
      (case case hs of (h, s) \<Rightarrow> (h, snd (sb_call h op s)) of (h, s) \<Rightarrow> unat (sb_size s)) =
      (case hs of (h, s) \<Rightarrow> unat (sb_size s))"
    and "(case case hs of (h, s) \<Rightarrow> (h, snd (sb_call h op s)) of (h, s) \<Rightarrow> sb_view s) =
      append_view (case hs of (h, s) \<Rightarrow> unat (sb_size s)) (sb_slack op) (sb_text op) (case hs of (h, s) \<Rightarrow> sb_view s)"
    by (simp_all add: sb_refines_def)
qed

lemma sb_run_fold: "fold (\<lambda>op (h, s). (h, snd (sb_call h op s))) ops (h, s) = (h, sb_run h ops s)"
  by (induction ops arbitrary: s) (simp_all add: sb_run_def)

section \<open>Properties\<close>

text \<open>One call.  Every write keeps the buffer's extent; on a buffer that has not
  overflowed it appends exactly its text if the text (and a terminator, where one is written)
  fits, and marks the overflow otherwise; an overflowed buffer stays overflowed.  The call
  returns 0 exactly if the buffer has not overflowed (an empty hexadecimal dump returns 0 in any case).\<close>

theorem seq_buf_call_correct:
  assumes "hdr_ok h" and "sb_good s" and "sb_valid op" and "sb_call h op s = (r, s')"
  shows "sb_good s' \<and> sb_size s' = sb_size s
    \<and> sb_view s' = append_view (unat (sb_size s)) (sb_slack op) (sb_text op) (sb_view s)
    \<and> ((\<nexists>mem. op = Putmem_hex mem 0) \<longrightarrow> r = (if sb_view s' = None then - 1 else 0))"
  using sb_call_refines [OF assms(1-3)] sb_call_code [OF assms(1-3)] assms(4) by (auto simp: sb_refines_def)

definition std_hdr :: seq_buf_hdr where
  "std_hdr = \<lparr>set_overflow = (\<lambda>s. s\<lparr>sb_len := sb_size s + 1\<rparr>), has_overflowed = (\<lambda>s. sb_len s > sb_size s)\<rparr>"

definition seq_buf4 :: seq_buf where
  "seq_buf4 = \<lparr>sb_buffer = [0, 0, 0, 0], sb_size = 4, sb_len = 0\<rparr>"

lemma std_hdr_ok: "hdr_ok std_hdr"
  by (simp add: hdr_ok_def std_hdr_def)

lemma seq_buf4_good: "sb_good seq_buf4" "sb_view seq_buf4 = Some []" "sb_size seq_buf4 = 4"
  by (simp_all add: sb_good_def sb_view_def seq_buf4_def)

theorem seq_buf_call_correct_witness:
  "sb_view (snd (sb_call std_hdr (Puts [0x6f, 0x6b, 0]) seq_buf4)) = Some [0x6f, 0x6b] \<and>
   sb_view (snd (sb_call std_hdr (Puts [1, 2, 3, 4, 0]) seq_buf4)) = None"
  using seq_buf_call_correct [OF std_hdr_ok seq_buf4_good(1), of "Puts [0x6f, 0x6b, 0]"]
    seq_buf_call_correct [OF std_hdr_ok seq_buf4_good(1), of "Puts [1, 2, 3, 4, 0]"]
  by (simp add: seq_buf4_good append_view_def prod_eq_iff)

text \<open>C24: Sequences.  After any sequence of writes the buffer still has its extent; if it has
  not overflowed, its text is the old text followed by the texts of all the writes in order;
  it does not overflow as long as all the texts and one terminator fit; and once overflowed it
  stays so.\<close>

theorem seq_buf_sequence:
  assumes "hdr_ok h" and "sb_good s" and "list_all sb_valid ops"
  shows "sb_good (sb_run h ops s) \<and> sb_size (sb_run h ops s) = sb_size s
    \<and> (\<forall>u. sb_view (sb_run h ops s) = Some u \<longrightarrow> (\<exists>t. sb_view s = Some t \<and> u = t @ concat (map sb_text ops)))
    \<and> (\<forall>t. sb_view s = Some t \<and> length t + length (concat (map sb_text ops)) + 1 \<le> unat (sb_size s) \<longrightarrow>
        sb_view (sb_run h ops s) = Some (t @ concat (map sb_text ops)))
    \<and> (sb_view s = None \<longrightarrow> sb_view (sb_run h ops s) = None)"
proof (intro conjI allI impI)
  have "unat (sb_size (sb_run h ops s)) = unat (sb_size s) \<and> sb_good (sb_run h ops s)"
    using sb.puts_good [of "(h, s)" ops] assms by (simp add: sb_run_fold)
  then show "sb_good (sb_run h ops s)" "sb_size (sb_run h ops s) = sb_size s"
    by (auto intro: unsigned_word_eqI)
  show "\<exists>t. sb_view s = Some t \<and> u = t @ concat (map sb_text ops)" if "sb_view (sb_run h ops s) = Some u" for u
    using sb.puts_text [of "(h, s)" ops u] assms that by (simp add: sb_run_fold)
  have "sb_slack op \<le> 1" for op by (cases op) simp_all
  then show "sb_view (sb_run h ops s) = Some (t @ concat (map sb_text ops))"
    if "sb_view s = Some t \<and> length t + length (concat (map sb_text ops)) + 1 \<le> unat (sb_size s)" for t
    using sb.puts_fit [of "(h, s)" ops t 1] assms that by (simp add: sb_run_fold)
  show "sb_view (sb_run h ops s) = None" if "sb_view s = None"
    using sb.overflow_sticky [of "(h, s)" ops] assms that by (simp add: sb_run_fold)
qed

theorem seq_buf_sequence_witness:
  "sb_view (sb_run std_hdr [Puts [0x6f, 0], Putc 0x6b] seq_buf4) = Some [0x6f, 0x6b]"
proof -
  let ?ops = "[Puts [0x6f, 0], Putc 0x6b]"
  have "list_all sb_valid ?ops" "concat (map sb_text ?ops) = [0x6f, 0x6b]" by simp_all
  moreover have "sb_view seq_buf4 = Some [] \<and> length ([] :: u8 list) + length [0x6f :: u8, 0x6b] + 1 \<le> unat (sb_size seq_buf4)"
    by (simp add: seq_buf4_good)
  ultimately show ?thesis
    using seq_buf_sequence [OF std_hdr_ok seq_buf4_good(1), of ?ops] by (metis append_Nil)
qed

text \<open>Dump and decode.  The string \<open>seq_buf_putmem_hex\<close> puts into an empty buffer for a
  value of at most eight bytes is read back by \<open>hex2bin\<close> as the value's bytes, most significant
  byte first.\<close>

theorem seq_buf_hex_roundtrip:
  assumes "hdr_ok h" and "sb_good s" and "sb_view s = Some []"
    and "bs \<noteq> []" and "length bs \<le> 8" and "2 * length bs + 1 \<le> unat (sb_size s)" and "length bs \<le> length dst"
  shows "hex2bin dst 0 (sb_buffer (snd (seq_buf_putmem_hex h s bs (of_nat (length bs))))) 0 (length bs)
    = (0, store_bytes dst 0 (rev bs))"
proof -
  let ?s = "snd (seq_buf_putmem_hex h s bs (of_nat (length bs)))"
  have len: "unat (of_nat (length bs) :: u32) = length bs"
    using assms(5) by (intro unat_of_nat_u32) simp
  have "hex_dump_text bs = hex_text (rev bs) @ [0x20]"
    using assms(4,5) by (cases bs) (simp_all add: hex_dump_text.simps(2))
  then have v: "sb_view ?s = Some (hex_text (rev bs) @ [0x20])" "sb_good ?s" "sb_size ?s = sb_size s"
    using putmem_hex_refines(1) [OF assms(1,2), of "of_nat (length bs)" bs] len assms(3,6)
    by (simp_all add: sb_refines_def append_view_def)
  then have t: "take (unat (sb_len ?s)) (sb_buffer ?s) = hex_text (rev bs) @ [0x20]"
    by (simp add: sb_view_def split: if_splits)
  then have "take (2 * length bs) (take (unat (sb_len ?s)) (sb_buffer ?s)) = hex_text (rev bs)" by simp
  moreover have "2 * length bs < unat (sb_len ?s)" using arg_cong [OF t, of length] by simp
  ultimately have "bytes_at (sb_buffer ?s) 0 (2 * length bs) = hex_text (rev bs)"
    by (simp add: bytes_at_def min_def split: if_splits)
  moreover have "2 * length bs \<le> length (sb_buffer ?s)" using v(2,3) assms(6) by (simp add: sb_good_def)
  ultimately show ?thesis
    using assms(7) by (simp add: hex2bin_store hex_decode_text Let_def)
qed

theorem seq_buf_hex_roundtrip_witness:
  "hex2bin [0] 0 (sb_buffer (snd (seq_buf_putmem_hex std_hdr seq_buf4 [0x3c] 1))) 0 1 = (0, [0x3c])"
proof -
  have "hex2bin [0] 0 (sb_buffer (snd (seq_buf_putmem_hex std_hdr seq_buf4 [0x3c] (of_nat (length [0x3c :: u8]))))) 0
      (length [0x3c :: u8]) = (0, store_bytes [0] 0 (rev [0x3c]))"
    by (rule seq_buf_hex_roundtrip [OF std_hdr_ok seq_buf4_good(1,2)]) (simp_all add: seq_buf4_good(3))
  moreover have "of_nat (length [0x3c :: u8]) = (1 :: u32)" "length [0x3c :: u8] = 1"
    "store_bytes [0] 0 (rev [0x3c]) = [0x3c]" by (simp_all add: store_bytes_def)
  ultimately show ?thesis by (simp only:)
qed

end
