(* ===== verification/String_Helpers.thy ===== *)
theory String_Helpers
  imports Hexdump "HOL-Library.Monad_Syntax"
begin

text \<open>
  Model of \<^verbatim>\<open>shims/lib/string_helpers.c\<close>: \<^verbatim>\<open>string_unescape\<close> and its four
  helpers.  Source and destination are pointers (indices) into one memory, so that the
  in-place use of the function, where the destination is the source, is a case of the model.
  A helper that returns \<^verbatim>\<open>false\<close> is \<open>None\<close>; one that returns \<^verbatim>\<open>true\<close> gives the new
  memory and the two advanced pointers.  The loop of \<^verbatim>\<open>string_unescape\<close> may run off an
  unterminated string, hence it is a partial function; the theorems prove that it returns.

  The specification \<open>unescape\<close> works on the string alone and describes the escapes by
  their grammar: tables for the letters, the longest run of up to three octal digits whose
  value fits a byte, and one or two hexadecimal digits after \<^verbatim>\<open>x\<close>.
\<close>

section \<open>The code\<close>

definition UNESCAPE_SPACE :: u32 where "UNESCAPE_SPACE = 1"
definition UNESCAPE_OCTAL :: u32 where "UNESCAPE_OCTAL = 2"
definition UNESCAPE_HEX :: u32 where "UNESCAPE_HEX = 4"
definition UNESCAPE_SPECIAL :: u32 where "UNESCAPE_SPECIAL = 8"

type_synonym unescaped = "(u8 list \<times> nat \<times> nat) option" \<comment> \<open>memory, \<^verbatim>\<open>*src\<close>, \<^verbatim>\<open>*dst\<close>\<close>

definition isodigit :: "u8 \<Rightarrow> bool" where
  "isodigit c \<longleftrightarrow> 0x30 \<le> c \<and> c \<le> 0x37"

definition unescape_space :: "u8 list \<Rightarrow> nat \<Rightarrow> nat \<Rightarrow> unescaped" where
  "unescape_space mem src dst =
     (let c = mem ! src; ok = (\<lambda>b. Some (mem[dst := b], src + 1, dst + 1))
      in if c = 0x6e then ok 0x0a
         else if c = 0x72 then ok 0x0d
         else if c = 0x74 then ok 0x09
         else if c = 0x76 then ok 0x0b
         else if c = 0x66 then ok 0x0c
         else None)"

text \<open>\<open>n\<close> is \<^verbatim>\<open>q - *src\<close>, the number of digits consumed so far.\<close>

function octal_loop :: "u8 list \<Rightarrow> nat \<Rightarrow> nat \<Rightarrow> u8 \<Rightarrow> u8 \<times> nat" where
  "octal_loop mem src n num =
     (if num < 32 \<and> isodigit (mem ! (src + n)) \<and> n < 3
      then octal_loop mem src (n + 1) (push_bit 3 num + (mem ! (src + n) AND 7))
      else (num, src + n))"
  by pat_completeness auto

termination
  by (relation "measure (\<lambda>(mem, src, n, num). 3 - n)") auto

declare octal_loop.simps [simp del]

definition unescape_octal :: "u8 list \<Rightarrow> nat \<Rightarrow> nat \<Rightarrow> unescaped" where
  "unescape_octal mem src dst =
     (if \<not> isodigit (mem ! src) then None
      else let num = mem ! src AND 7;
               (num, q) = octal_loop mem src 1 num
           in Some (mem[dst := num], q, dst + 1))"

definition unescape_hex :: "u8 list \<Rightarrow> nat \<Rightarrow> nat \<Rightarrow> unescaped" where
  "unescape_hex mem src dst =
     (if mem ! src \<noteq> 0x78 then None
      else let digit = hex_to_bin (mem ! (src + 1));
               num = (word_of_int digit :: u8)
           in if digit < 0 then None
              else let digit = hex_to_bin (mem ! (src + 2));
                       (num, q) = (if digit \<ge> 0 then (push_bit 4 num OR word_of_int digit, src + 3)
                                   else (num, src + 2))
                   in Some (mem[dst := num], q, dst + 1))"

definition unescape_special :: "u8 list \<Rightarrow> nat \<Rightarrow> nat \<Rightarrow> unescaped" where
  "unescape_special mem src dst =
     (let c = mem ! src; ok = (\<lambda>b. Some (mem[dst := b], src + 1, dst + 1))
      in if c = 0x22 then ok 0x22
         else if c = 0x5c then ok 0x5c
         else if c = 0x61 then ok 0x07
         else if c = 0x65 then ok 0x1b
         else None)"

text \<open>The four attempts at an escape, in the order of the loop body.\<close>

definition try_escape :: "u32 \<Rightarrow> u32 \<Rightarrow> unescaped \<Rightarrow> unescaped \<Rightarrow> unescaped" where
  "try_escape sflags flag attempt rest =
     (if c_true (sflags AND flag) \<and> attempt \<noteq> None then attempt else rest)"

definition unescape_any :: "u32 \<Rightarrow> u8 list \<Rightarrow> nat \<Rightarrow> nat \<Rightarrow> unescaped" where
  "unescape_any sflags mem src dst =
     try_escape sflags UNESCAPE_SPACE (unescape_space mem src dst)
    (try_escape sflags UNESCAPE_OCTAL (unescape_octal mem src dst)
    (try_escape sflags UNESCAPE_HEX (unescape_hex mem src dst)
    (try_escape sflags UNESCAPE_SPECIAL (unescape_special mem src dst) None)))"

partial_function (option) unescape_loop :: "u32 \<Rightarrow> u8 list \<Rightarrow> nat \<Rightarrow> nat \<Rightarrow> u64 \<Rightarrow> (u8 list \<times> nat) option" where
  "unescape_loop sflags mem src out sz =
     (if mem ! src = 0 then Some (mem, out)
      else let sz = sz - 1
      in if sz = 0 then Some (mem, out)
      else if mem ! src = 0x5c \<and> mem ! (src + 1) \<noteq> 0 \<and> sz > 1
      then let src = src + 1; sz = sz - 1
           in case unescape_any sflags mem src out of
                Some (mem, src, out) \<Rightarrow> unescape_loop sflags mem src out sz
              | None \<Rightarrow> let mem = mem[out := 0x5c]; out = out + 1
                         in unescape_loop sflags (mem[out := mem ! src]) (src + 1) (out + 1) sz
      else unescape_loop sflags (mem[out := mem ! src]) (src + 1) (out + 1) sz)"

text \<open>The result \<^verbatim>\<open>out - dst\<close> is returned as an \<^verbatim>\<open>int\<close>.\<close>

definition string_unescape :: "u8 list \<Rightarrow> nat \<Rightarrow> nat \<Rightarrow> u64 \<Rightarrow> u32 \<Rightarrow> (cint \<times> u8 list) option" where
  "string_unescape mem src dst sz sflags =
     (let sz = (if sz = 0 then - 1 else sz)
      in do { (mem, out) \<leftarrow> unescape_loop sflags mem src dst sz;
              Some (sint (of_nat (out - dst) :: u32), mem[out := 0]) })"

section \<open>The specification\<close>

definition octal_digits :: "u8 list \<Rightarrow> nat list" where
  "octal_digits s = (let ds = map (\<lambda>c. unat c - 0x30) (takeWhile isodigit (take 3 s))
     in if digits_value 8 ds < 256 then ds else take 2 ds)"

definition hex_digits :: "u8 list \<Rightarrow> nat list" where
  "hex_digits s = map (nat \<circ> hex_to_bin) (takeWhile hex_digit (take 2 s))"

definition space_escapes :: "(u8 \<times> u8) list" where
  "space_escapes = [(0x6e, 0x0a), (0x72, 0x0d), (0x74, 0x09), (0x76, 0x0b), (0x66, 0x0c)]"

definition special_escapes :: "(u8 \<times> u8) list" where
  "special_escapes = [(0x22, 0x22), (0x5c, 0x5c), (0x61, 0x07), (0x65, 0x1b)]"

text \<open>The byte an escape stands for and the number of characters after the backslash it takes.\<close>

definition letter_escape :: "(u8 \<times> u8) list \<Rightarrow> u8 list \<Rightarrow> (u8 \<times> nat) option" where
  "letter_escape tab s = map_option (\<lambda>b. (b, 1)) (map_of tab (hd s))"

definition octal_escape :: "u8 list \<Rightarrow> (u8 \<times> nat) option" where
  "octal_escape s = (let ds = octal_digits s
     in if ds = [] then None else Some (of_nat (digits_value 8 ds), length ds))"

definition hex_escape :: "u8 list \<Rightarrow> (u8 \<times> nat) option" where
  "hex_escape s = (let ds = hex_digits (tl s)
     in if hd s \<noteq> 0x78 \<or> ds = [] then None else Some (of_nat (digits_value 16 ds), 1 + length ds))"

definition alt :: "bool \<Rightarrow> 'a option \<Rightarrow> 'a option \<Rightarrow> 'a option" where
  "alt enabled e rest = (if enabled \<and> e \<noteq> None then e else rest)"

definition escape_value :: "u32 \<Rightarrow> u8 list \<Rightarrow> (u8 \<times> nat) option" where
  "escape_value sflags s =
     alt (bit sflags 0) (letter_escape space_escapes s)
    (alt (bit sflags 1) (octal_escape s)
    (alt (bit sflags 2) (hex_escape s)
    (alt (bit sflags 3) (letter_escape special_escapes s) None)))"

function unescape :: "u32 \<Rightarrow> u8 list \<Rightarrow> nat \<Rightarrow> u8 list" where
  "unescape sflags [] n = []"
| "unescape sflags (c # s) n =
     (if n \<le> 1 then []
      else if c = 0x5c \<and> s \<noteq> [] \<and> n > 2
      then (case escape_value sflags s of
              Some (b, k) \<Rightarrow> b # unescape sflags (drop k s) (n - 2)
            | None \<Rightarrow> c # hd s # unescape sflags (tl s) (n - 2))
      else c # unescape sflags s (n - 1))"
  by pat_completeness auto

termination
  by (relation "measure (\<lambda>(sflags, s, n). length s)") auto

section \<open>The helpers implement the escape grammar\<close>

text \<open>The string \<open>s\<close> stands at \<open>p\<close>, followed by its terminator.\<close>

definition cstr :: "u8 list \<Rightarrow> nat \<Rightarrow> u8 list \<Rightarrow> bool" where
  "cstr mem p s \<longleftrightarrow> p + length s < length mem \<and> 0 \<notin> set s \<and>
     (\<forall>i < length s. mem ! (p + i) = s ! i) \<and> mem ! (p + length s) = 0"

lemma cstr_Cons: "cstr mem p (c # s) \<Longrightarrow> mem ! p = c \<and> c \<noteq> 0 \<and> cstr mem (Suc p) s"
  by (fastforce simp: cstr_def nth_Cons split: nat.splits)

lemma cstr_Nil: "cstr mem p [] \<Longrightarrow> mem ! p = 0"
  by (simp add: cstr_def)

lemma cstr_drop: "cstr mem p s \<Longrightarrow> k \<le> length s \<Longrightarrow> cstr mem (p + k) (drop k s)"
  by (auto simp: cstr_def add.assoc dest: in_set_dropD)

lemma cstr_frame:
  assumes "cstr mem p s" and "out + length bs \<le> length mem" and "out + length bs \<le> p \<or> p + length s < out"
  shows "cstr (store_bytes mem out bs) p s"
  using assms by (auto simp: cstr_def nth_store_bytes)

definition octal_val :: "u8 \<Rightarrow> nat" where
  "octal_val c = unat c - 0x30"

lemma isodigit_val: "isodigit c \<Longrightarrow> c AND 7 = of_nat (octal_val c) \<and> octal_val c < 8"
proof -
  have "isodigit c \<longrightarrow> c AND 7 = of_nat (octal_val c) \<and> octal_val c < 8"
    by (rule byte_cases) code_simp
  then show "isodigit c \<Longrightarrow> ?thesis" by simp
qed

lemma isodigit_0 [simp]: "\<not> isodigit 0"
  by (simp add: isodigit_def)

lemma octal_step:
  assumes "a < 256"
  shows "octal_loop mem p n (of_nat a) =
    (if a < 32 \<and> isodigit (mem ! (p + n)) \<and> n < 3
     then octal_loop mem p (n + 1) (of_nat (8 * a + octal_val (mem ! (p + n)))) else (of_nat a, p + n))"
proof -
  have "(of_nat a :: u8) < 32 \<longleftrightarrow> a < 32"
    using assms by (simp add: word_less_nat_alt unsigned_of_nat take_bit_nat_eq_self)
  moreover have "push_bit 3 (of_nat a) + (c AND 7) = of_nat (8 * a + octal_val c)" if "isodigit c" for c :: u8
    using isodigit_val [OF that] by (simp add: push_bit_eq_mult)
  ultimately show ?thesis by (subst octal_loop.simps) simp
qed

lemma octal_digits_alt: "octal_digits s = (let ds = map octal_val (takeWhile isodigit (take 3 s))
     in if digits_value 8 ds < 256 then ds else take 2 ds)"
  by (simp add: octal_digits_def octal_val_def [abs_def])

lemma octal_loop_digits:
  assumes "cstr mem p (c # s)" and "isodigit c"
  shows "octal_loop mem p 1 (c AND 7) =
    (of_nat (digits_value 8 (octal_digits (c # s))), p + length (octal_digits (c # s)))"
proof -
  note c = isodigit_val [OF assms(2)]
  note step = octal_step [of _ mem p]
  note dv = octal_digits_alt digits_value_def
  from c have c7: "c AND 7 = of_nat (octal_val c)" and cl: "octal_val c < 8" by simp_all
  consider "s = []" | d where "s = [d]" | d e t where "s = d # e # t"
    by (cases s rule: remdups_adj.cases) auto
  then show ?thesis
  proof cases
    case 1
    with assms have "mem ! (p + 1) = 0" by (auto dest!: cstr_Cons cstr_Nil)
    with 1 cl assms(2) show ?thesis unfolding c7 by (simp add: step dv del: of_nat_add of_nat_mult)
  next
    case 2
    with assms have m: "mem ! (p + 1) = d" "mem ! (p + 2) = 0" by (auto dest!: cstr_Cons cstr_Nil)
    show ?thesis
    proof (cases "isodigit d")
      case True
      then have "octal_val d < 8" using isodigit_val by blast
      with 2 cl assms(2) m True show ?thesis unfolding c7 by (simp add: step dv del: of_nat_add of_nat_mult)
    next
      case False
      with 2 cl assms(2) m show ?thesis unfolding c7 by (simp add: step dv del: of_nat_add of_nat_mult)
    qed
  next
    case 3
    with assms have m: "mem ! (p + 1) = d" "mem ! (p + 2) = e" by (auto dest!: cstr_Cons)
    have bound: "isodigit x \<Longrightarrow> octal_val x < 8" for x using isodigit_val by blast
    from 3 cl assms(2) m show ?thesis unfolding c7
      using bound [of d] bound [of e]
      by (cases "isodigit d"; cases "isodigit e"; cases "8 * octal_val c + octal_val d < 32")
        (simp_all add: step dv numeral_3_eq_3 del: of_nat_add of_nat_mult)
  qed
qed

text \<open>What a helper does for an escape that stands for a byte and takes \<open>k\<close> characters.\<close>

definition emit :: "u8 list \<Rightarrow> nat \<Rightarrow> nat \<Rightarrow> (u8 \<times> nat) option \<Rightarrow> unescaped" where
  "emit mem p out = map_option (\<lambda>(b, k). (mem[out := b], p + k, out + 1))"

lemma unescape_letters:
  assumes "cstr mem p (c # s)"
  shows "unescape_space mem p out = emit mem p out (letter_escape space_escapes (c # s))"
    and "unescape_special mem p out = emit mem p out (letter_escape special_escapes (c # s))"
  using cstr_Cons [OF assms]
  by (simp_all add: unescape_space_def unescape_special_def emit_def letter_escape_def
      space_escapes_def special_escapes_def)

lemma octal_digits_Nil: "octal_digits (c # s) = [] \<longleftrightarrow> \<not> isodigit c"
  by (simp add: octal_digits_alt Let_def numeral_3_eq_3 numeral_2_eq_2)

lemma unescape_octal_spec:
  assumes "cstr mem p (c # s)"
  shows "unescape_octal mem p out = emit mem p out (octal_escape (c # s))"
  using cstr_Cons [OF assms] octal_loop_digits [OF assms] octal_digits_Nil [of c s]
  by (simp add: unescape_octal_def emit_def octal_escape_def Let_def)

lemma hex_sign [simp]: "hex_to_bin d < 0 \<longleftrightarrow> \<not> hex_digit d" "0 \<le> hex_to_bin d \<longleftrightarrow> hex_digit d" "\<not> hex_digit 0"
  by (auto simp: hex_digit_iff) (simp add: hex_digit_iff [symmetric] hex_digit_def)

lemma two_digits:
  assumes "hex_digit d" and "hex_digit e"
  shows "push_bit 4 (word_of_int (hex_to_bin d)) OR word_of_int (hex_to_bin e) =
      (of_nat (16 * nat (hex_to_bin d) + nat (hex_to_bin e)) :: u8)"
proof -
  obtain x y where xy: "hex_to_bin d = int x" "hex_to_bin e = int y" and y: "y < 16"
    using assms hex_to_bin_range [of e] by (metis hex_digit_iff of_nat_less_numeral_iff zero_le_imp_eq_int)
  have "take_bit 4 (of_nat y :: u8) = of_nat (take_bit 4 y)" by (simp add: take_bit_of_nat)
  also have "take_bit 4 y = y" using y by (simp add: take_bit_nat_eq_self)
  finally have small: "\<not> bit (of_nat y :: u8) n" if "4 \<le> n" for n
    using that by (metis bit_take_bit_iff leD)
  have "push_bit 4 (of_nat x) OR of_nat y = push_bit 4 (of_nat x) + (of_nat y :: u8)"
    using small by (intro disjunctive_add [symmetric]) (auto simp: bit_push_bit_iff)
  then show ?thesis by (simp add: xy push_bit_eq_mult)
qed

lemma unescape_hex_spec:
  assumes "cstr mem p (c # s)"
  shows "unescape_hex mem p out = emit mem p out (hex_escape (c # s))"
proof (cases "c = 0x78")
  case True
  note defs = unescape_hex_def emit_def hex_escape_def hex_digits_def digits_value_def Let_def numeral_2_eq_2
  consider "s = []" | d where "s = [d]" | d e t where "s = d # e # t"
    by (cases s rule: remdups_adj.cases) auto
  then show ?thesis
  proof cases
    case 1
    with assms True have "mem ! p = 0x78" "mem ! (p + 1) = 0" by (auto dest!: cstr_Cons cstr_Nil)
    with 1 show ?thesis by (simp add: defs)
  next
    case 2
    with assms True have "mem ! p = 0x78" "mem ! (p + 1) = d" "mem ! (p + 2) = 0"
      by (auto dest!: cstr_Cons cstr_Nil)
    with 2 True show ?thesis by (cases "hex_digit d") (simp_all add: defs)
  next
    case 3
    with assms True have "mem ! p = 0x78" "mem ! (p + 1) = d" "mem ! (p + 2) = e"
      by (auto dest!: cstr_Cons)
    with 3 True two_digits [of d e] show ?thesis
      by (cases "hex_digit d"; cases "hex_digit e") (simp_all add: defs)
  qed
next
  case False
  with cstr_Cons [OF assms] show ?thesis by (simp add: unescape_hex_def emit_def hex_escape_def)
qed

lemma emit_alt: "try_escape sflags flag (emit mem p out e) (emit mem p out r) =
    emit mem p out (alt (c_true (sflags AND flag)) e r)"
  by (cases e) (simp_all add: try_escape_def alt_def emit_def)

lemma unescape_flags:
  "c_true (sflags AND UNESCAPE_SPACE) = bit sflags 0" "c_true (sflags AND UNESCAPE_OCTAL) = bit sflags 1"
  "c_true (sflags AND UNESCAPE_HEX) = bit sflags 2" "c_true (sflags AND UNESCAPE_SPECIAL) = bit sflags 3"
  using c_true_and_bit [of sflags 0] c_true_and_bit [of sflags 1] c_true_and_bit [of sflags 2] c_true_and_bit [of sflags 3]
  by (simp_all add: UNESCAPE_SPACE_def UNESCAPE_OCTAL_def UNESCAPE_HEX_def UNESCAPE_SPECIAL_def)

lemma unescape_any_spec:
  assumes "cstr mem p s" and "s \<noteq> []"
  shows "unescape_any sflags mem p out = emit mem p out (escape_value sflags s)"
proof -
  obtain c t where s: "s = c # t" using assms(2) by (cases s) auto
  have none: "emit mem p out None = None" by (simp add: emit_def)
  show ?thesis
    unfolding unescape_any_def escape_value_def s unescape_letters [OF assms(1) [unfolded s]]
      unescape_octal_spec [OF assms(1) [unfolded s]] unescape_hex_spec [OF assms(1) [unfolded s]]
      none [symmetric] emit_alt unescape_flags ..
qed

section \<open>The loop implements the specification\<close>

lemma alt_SomeD: "alt en e r = Some x \<Longrightarrow> e = Some x \<or> r = Some x"
  by (auto simp: alt_def split: if_splits)

lemma escape_value_bounds:
  assumes "escape_value sflags s = Some (b, k)" and "s \<noteq> []"
  shows "0 < k \<and> k \<le> length s"
proof -
  have take: "length (takeWhile P (take m s)) \<le> length s" for P m and s :: "u8 list"
    by (metis length_takeWhile_le length_take min.boundedE order_trans)
  have s: "0 < length s" using assms(2) by simp
  have "letter_escape tab s = Some (b, k) \<Longrightarrow> k = 1" for tab
    by (auto simp: letter_escape_def)
  moreover have "octal_escape s = Some (b, k) \<Longrightarrow> 0 < k \<and> k \<le> length s"
    using take [of isodigit 3 s]
    by (auto simp: octal_escape_def octal_digits_def Let_def split: if_splits)
  moreover have "hex_escape s = Some (b, k) \<Longrightarrow> 0 < k \<and> k \<le> length s"
    using take [of hex_digit 2 "tl s"] s
    by (cases s) (auto simp: hex_escape_def hex_digits_def Let_def split: if_splits)
  moreover have "letter_escape space_escapes s = Some (b, k) \<or> octal_escape s = Some (b, k) \<or>
      hex_escape s = Some (b, k) \<or> letter_escape special_escapes s = Some (b, k)"
    using assms(1) unfolding escape_value_def by (auto dest!: alt_SomeD)
  ultimately show ?thesis using s by (metis Suc_leI One_nat_def zero_less_one)
qed

lemma unescape_length: "length (unescape sflags s n) \<le> length s \<and> (0 < n \<longrightarrow> length (unescape sflags s n) < n)"
proof (induction sflags s n rule: unescape.induct)
  case (2 sflags c s n)
  show ?case
  proof (cases "n > 2 \<and> c = 0x5c \<and> s \<noteq> []")
    case True
    then show ?thesis
    proof (cases "escape_value sflags s")
      case None
      with True 2(1) show ?thesis by (cases s) auto
    next
      case (Some bk)
      obtain b k where bk: "bk = (b, k)" by (cases bk)
      have "length (unescape sflags (drop k s) (n - 2)) \<le> length (drop k s) \<and>
          (0 < n - 2 \<longrightarrow> length (unescape sflags (drop k s) (n - 2)) < n - 2)"
        by (rule 2(2) [OF _ _ Some bk [symmetric]]) (use True in simp_all)
      with True Some bk show ?thesis by auto
    qed
  next
    case False
    with 2(3) show ?thesis by auto
  qed
qed simp

lemma cstr_consume:
  assumes "cstr mem p s" and "k \<le> length s" and "length bs \<le> k" and "out + length bs \<le> length mem"
    and "out \<le> p \<or> p + length s < out"
  shows "cstr (store_bytes mem out bs) (p + k) (drop k s)"
    and "out + length bs \<le> p + k \<or> p + k + length (drop k s) < out + length bs"
proof -
  have "cstr mem (p + k) (drop k s)" using assms(1,2) by (rule cstr_drop)
  then show "cstr (store_bytes mem out bs) (p + k) (drop k s)"
    using assms by (intro cstr_frame) auto
  show "out + length bs \<le> p + k \<or> p + k + length (drop k s) < out + length bs"
    using assms by auto
qed

text \<open>One round of the loop on a terminated string, in the cases of the specification.\<close>

definition escaping :: "u8 \<Rightarrow> u8 list \<Rightarrow> u64 \<Rightarrow> bool" where
  "escaping c s sz \<longleftrightarrow> c = 0x5c \<and> s \<noteq> [] \<and> 2 < unat sz"

lemma unescape_loop_round:
  assumes "cstr mem p (c # s)" and "sz \<noteq> 0"
  shows "unescape_loop sflags mem p out sz =
    (if unat sz \<le> 1 then Some (mem, out)
     else if escaping c s sz
     then (case escape_value sflags s of
             Some (b, k) \<Rightarrow> unescape_loop sflags (mem[out := b]) (p + 1 + k) (out + 1) (sz - 2)
           | None \<Rightarrow> let mem = mem[out := 0x5c]
                      in unescape_loop sflags (mem[out + 1 := mem ! (p + 1)]) (p + 2) (out + 2) (sz - 2))
     else unescape_loop sflags (mem[out := c]) (p + 1) (out + 1) (sz - 1))"
proof -
  note c = cstr_Cons [OF assms(1)]
  have "1 \<le> unat sz" using assms(2) by (simp add: unat_gt_0 Suc_le_eq)
  then have dec: "unat (sz - 1) = unat sz - 1" by (simp add: unat_sub word_le_nat_alt)
  have one: "sz - 1 = 0 \<longleftrightarrow> unat sz \<le> 1" "1 < sz - 1 \<longleftrightarrow> 2 < unat sz"
    using dec \<open>1 \<le> unat sz\<close> by (auto simp: word_less_nat_alt unat_eq_0 [symmetric])
  have last: "mem ! (p + 1) \<noteq> 0 \<longleftrightarrow> s \<noteq> []" using c by (cases s) (auto dest!: cstr_Cons cstr_Nil)
  have any: "escaping c s sz \<Longrightarrow> unescape_any sflags mem (p + 1) out = emit mem (p + 1) out (escape_value sflags s)"
    using c by (simp add: escaping_def unescape_any_spec)
  show ?thesis
    using c last any one
    by (subst unescape_loop.simps) (auto simp: escaping_def Let_def emit_def split: option.splits)
qed


lemma unescape_round:
  "unescape sflags (c # s) (unat sz) =
    (if unat sz \<le> 1 then []
     else if escaping c s sz
     then (case escape_value sflags s of
             Some (b, k) \<Rightarrow> b # unescape sflags (drop k s) (unat sz - 2)
           | None \<Rightarrow> 0x5c # hd s # unescape sflags (tl s) (unat sz - 2))
     else c # unescape sflags s (unat sz - 1))"
  by (auto simp: escaping_def split: option.splits)

text \<open>After a round has stored \<open>bs\<close> and consumed \<open>k\<close> characters, the rest of the run completes it.\<close>

lemma unescape_rest:
  assumes "cstr mem p s" and "out \<le> p \<or> p + length s < out" and "out + length (bs @ r) < length mem"
    and "k \<le> length s" and "length bs \<le> k"
    and rest: "\<And>mem p out. cstr mem p (drop k s) \<Longrightarrow> out \<le> p \<or> p + length (drop k s) < out \<Longrightarrow>
      out + length r < length mem \<Longrightarrow> unescape_loop sflags mem p out sz = Some (store_bytes mem out r, out + length r)"
  shows "unescape_loop sflags (store_bytes mem out bs) (p + k) (out + length bs) sz =
    Some (store_bytes mem out (bs @ r), out + length (bs @ r))"
proof -
  have fits: "out + length bs \<le> length mem" "out + length bs + length r \<le> length mem" using assms(3) by simp_all
  have "unescape_loop sflags (store_bytes mem out bs) (p + k) (out + length bs) sz =
    Some (store_bytes (store_bytes mem out bs) (out + length bs) r, out + length bs + length r)"
    using cstr_consume [OF assms(1,4,5) fits(1) assms(2)] assms(3) fits by (intro rest) simp_all
  then show ?thesis using store_store [of out bs r mem] fits by simp
qed

text \<open>Every round that does not end the loop stores some bytes and consumes at least as many characters.\<close>

lemma unescape_step:
  assumes "cstr mem p s" and "s = c # t" and "unat sz > 1" and "out \<le> p \<or> p + length s < out"
    and "out + length (unescape sflags s (unat sz)) < length mem"
  obtains bs k sz' where "unescape sflags s (unat sz) = bs @ unescape sflags (drop k s) (unat sz')"
    and "0 < k" and "k \<le> length s" and "length bs \<le> k" and "sz' \<noteq> 0"
    and "unescape_loop sflags mem p out sz = unescape_loop sflags (store_bytes mem out bs) (p + k) (out + length bs) sz'"
proof -
  have "sz \<noteq> 0" using assms(3) by auto
  note round = unescape_loop_round [OF assms(1) [unfolded assms(2)] this, of sflags out]
  show thesis
  proof (cases "escaping c t sz")
    case False
    have sz: "sz - 1 \<noteq> 0" "unat (sz - 1) = unat sz - 1" using assms(3) by (auto simp: unat_sub word_le_nat_alt)
    have r: "unescape sflags s (unat sz) = [c] @ unescape sflags (drop 1 s) (unat (sz - 1))"
      using False assms(2,3) unfolding sz(2) by (simp add: unescape_round del: unescape.simps)
    then show thesis
      using that [OF r _ _ _ sz(1)] False assms(2,3,5) round by (simp add: store_one del: unescape.simps)
  next
    case True
    then have n: "2 < unat sz" "t \<noteq> []" "\<not> unat sz \<le> 1" by (simp_all add: escaping_def)
    then have sz: "sz - 2 \<noteq> 0" "unat (sz - 2) = unat sz - 2" by (auto simp: unat_sub word_le_nat_alt)
    show thesis
    proof (cases "escape_value sflags t")
      case None
      have r: "unescape sflags s (unat sz) = [0x5c, hd t] @ unescape sflags (drop 2 s) (unat (sz - 2))"
        using None True n assms(2) unfolding sz(2) by (simp add: unescape_round drop_Suc del: unescape.simps)
      have "mem ! (p + 1) = hd t" using assms(1,2) n(2) by (cases t) (auto dest!: cstr_Cons)
      moreover have "out + 1 < length mem" "out \<noteq> p + 1" using r assms(2,4,5) by auto
      moreover have "store_bytes (store_bytes mem out [0x5c]) (out + 1) [hd t] = store_bytes mem out [0x5c, hd t]"
        using store_store [of out "[0x5c]" "[hd t]" mem] \<open>out + 1 < length mem\<close> by simp
      ultimately have "(mem[out := 0x5c])[out + 1 := mem[out := 0x5c] ! (p + 1)] = store_bytes mem out [0x5c, hd t]"
        by (simp add: store_one [symmetric])
      then show thesis
        using that [OF r _ _ _ sz(1)] None True n assms(2) round by (cases t) (simp_all del: unescape.simps)
    next
      case (Some bk)
      obtain b k where bk: "escape_value sflags t = Some (b, k)" using Some by (cases bk) simp
      have k: "0 < k" "k \<le> length t" using escape_value_bounds [OF bk n(2)] by simp_all
      have r: "unescape sflags s (unat sz) = [b] @ unescape sflags (drop (1 + k) s) (unat (sz - 2))"
        using bk True n assms(2) unfolding sz(2) by (simp add: unescape_round del: unescape.simps)
      then show thesis
        using that [OF r _ _ _ sz(1)] bk True n k assms(2,5) round
        by (simp add: store_one add.assoc del: unescape.simps)
    qed
  qed
qed

lemma unescape_loop_spec:
  assumes "cstr mem p s" and "sz \<noteq> 0" and "out \<le> p \<or> p + length s < out"
    and "out + length (unescape sflags s (unat sz)) < length mem"
  shows "unescape_loop sflags mem p out sz = Some (store_bytes mem out (unescape sflags s (unat sz)),
    out + length (unescape sflags s (unat sz)))"
  using assms
proof (induction "length s" arbitrary: mem p s out sz rule: less_induct)
  case less
  consider "s = []" | c t where "s = c # t" "unat sz \<le> 1" | c t where "s = c # t" "unat sz > 1"
    by (cases s) fastforce+
  then show ?case
  proof cases
    case 1
    with less.prems show ?thesis by (subst unescape_loop.simps) (simp add: cstr_Nil)
  next
    case 2
    with unescape_loop_round [of mem p c t sz] less.prems(1,2) show ?thesis by simp
  next
    case 3
    obtain bs k sz' where step: "unescape sflags s (unat sz) = bs @ unescape sflags (drop k s) (unat sz')"
      "0 < k" "k \<le> length s" "length bs \<le> k" "sz' \<noteq> 0"
      "unescape_loop sflags mem p out sz = unescape_loop sflags (store_bytes mem out bs) (p + k) (out + length bs) sz'"
      using unescape_step [OF less.prems(1) 3 less.prems(3,4)] .
    show ?thesis
      unfolding step(6) unfolding step(1)
      using step(2,3,5) less.prems(4) unfolding step(1)
      by (intro unescape_rest [OF less.prems(1,3) _ step(3,4)] less.hyps) auto
  qed
qed


section \<open>Properties\<close>

lemma string_unescape_spec:
  assumes "cstr mem src s" and "dst \<le> src \<or> src + length s < dst" and "length mem < 2 ^ 31"
    and "r = unescape sflags s (if sz = 0 then 2 ^ 64 - 1 else unat sz)" and "dst + length r < length mem"
  shows "string_unescape mem src dst sz sflags = Some (int (length r), store_bytes mem dst (r @ [0]))"
proof -
  let ?sz = "if sz = 0 then - 1 else sz"
  have sz: "?sz \<noteq> 0" "unat ?sz = (if sz = 0 then 2 ^ 64 - 1 else unat sz)"
    by (simp_all add: unsigned_minus_1_eq_mask mask_eq_exp_minus_1)
  have loop: "unescape_loop sflags mem src dst ?sz = Some (store_bytes mem dst r, dst + length r)"
    using unescape_loop_spec [OF assms(1) sz(1) assms(2), of sflags] assms(4,5) unfolding sz(2) by simp
  have "sint (of_nat (length r) :: u32) = int (length r)"
    using assms(3,5) by (simp add: signed_of_nat signed_take_bit_int_eq_self)
  moreover have "(store_bytes mem dst r)[dst + length r := 0] = store_bytes mem dst (r @ [0])"
    using assms(5) store_store [of dst r "[0]" mem] by (simp add: store_one)
  ultimately show ?thesis by (simp add: string_unescape_def loop)
qed

text \<open>C23: Unescaping.  On a terminated string \<open>string_unescape\<close> returns; it stores the
  unescaped text and a terminator at the destination and changes nothing else, and it returns
  the length of that text, which is at most the length of the source and, for a non-zero size,
  less than the size.  The destination may be the source itself or lie before it, as well as
  behind the source string.\<close>

theorem string_unescape_correct:
  assumes "cstr mem src s" and "dst \<le> src \<or> src + length s < dst" and "length mem < 2 ^ 31"
    and "r = unescape sflags s (if sz = 0 then 2 ^ 64 - 1 else unat sz)" and "dst + length r < length mem"
  shows "string_unescape mem src dst sz sflags = Some (int (length r), store_bytes mem dst (r @ [0]))
    \<and> length r \<le> length s \<and> (sz \<noteq> 0 \<longrightarrow> length r < unat sz)"
  using string_unescape_spec [OF assms] unescape_length [of sflags s "unat sz"]
    unescape_length [of sflags s "2 ^ 64 - 1"] assms(4) by (auto simp: unat_gt_0)

lemma cstrI: "0 \<notin> set s \<Longrightarrow> cstr (pre @ s @ 0 # post) (length pre) s"
  by (simp add: cstr_def nth_append)

theorem string_unescape_correct_witness:
  "string_unescape [0x61, 0x5c, 0x6e, 0x5c, 0x31, 0x30, 0x31, 0] 0 0 16 3
    = Some (3, [0x61, 0x0a, 0x41, 0, 0x31, 0x30, 0x31, 0])"
proof -
  let ?s = "[0x61, 0x5c, 0x6e, 0x5c, 0x31, 0x30, 0x31] :: u8 list"
  let ?r = "[0x61, 0x0a, 0x41] :: u8 list"
  have "cstr (?s @ [0]) 0 ?s" using cstrI [of ?s "[]" "[]"] by simp
  moreover have "unescape 3 ?s 16 = ?r" by code_simp
  ultimately have "string_unescape (?s @ [0]) 0 0 16 3 = Some (int (length ?r), store_bytes (?s @ [0]) 0 (?r @ [0]))"
    using string_unescape_correct [of "?s @ [0]" 0 ?s 0 ?r 3 16] by (simp del: unescape.simps)
  then show ?thesis by (simp add: store_bytes_def)
qed

definition hex_esc :: "u8 \<Rightarrow> u8 list" where
  "hex_esc b = [0x5c, 0x78] @ hex_text [b]"

lemma escape_value_hex:
  assumes "bit sflags 2"
  shows "escape_value sflags (0x78 # hex_text [b] @ rest) = Some (b, 3)"
proof -
  let ?hi = "hex_asc ! unat (drop_bit 4 b AND 0xf)" and ?lo = "hex_asc ! unat (b AND 0xf)"
  have v: "hex_to_bin ?hi = uint (drop_bit 4 b AND 0xf)" "hex_to_bin ?lo = uint (b AND 0xf)"
    by (simp_all add: hex_asc_digit unat_nibble)
  then have d: "hex_digit ?hi" "hex_digit ?lo" by (simp_all add: hex_digit_iff)
  have "(of_nat (16 * nat (hex_to_bin ?hi) + nat (hex_to_bin ?lo)) :: u8) = hex_byte (hex_to_bin ?hi) (hex_to_bin ?lo)"
    unfolding two_digits [OF d, symmetric] by (simp add: hex_byte_def of_int_or_eq push_bit_eq_mult)
  also have "\<dots> = b" unfolding v by (rule hex_byte_split)
  finally have "hex_escape (0x78 # hex_text [b] @ rest) = Some (b, 3)"
    using d by (simp add: hex_escape_def hex_digits_def digits_value_def numeral_2_eq_2 Let_def)
  moreover have "octal_escape (0x78 # hex_text [b] @ rest) = None"
    by (simp add: octal_escape_def octal_digits_Nil isodigit_def Let_def)
  moreover have "letter_escape space_escapes (0x78 # hex_text [b] @ rest) = None"
    by (simp add: letter_escape_def space_escapes_def)
  ultimately show ?thesis using assms by (simp add: escape_value_def alt_def)
qed

lemma unescape_hex_esc:
  assumes "bit sflags 2" and "2 * length bs < n"
  shows "unescape sflags (concat (map hex_esc bs)) n = bs"
  using assms(2)
proof (induction bs arbitrary: n)
  case (Cons b bs)
  have "concat (map hex_esc (b # bs)) = 0x5c # 0x78 # hex_text [b] @ concat (map hex_esc bs)"
    by (simp add: hex_esc_def [of b])
  moreover have "drop 3 (0x78 # hex_text [b] @ concat (map hex_esc bs)) = concat (map hex_esc bs)"
    by (simp add: numeral_3_eq_3)
  ultimately show ?case
    using Cons escape_value_hex [OF assms(1), of b "concat (map hex_esc bs)"] by (simp del: hex_text_simps)
qed simp

text \<open>Round trip.  A text in which every byte is written as a backslash, \<open>x\<close> and its two
  hexadecimal digits is unescaped in place to exactly these bytes, zero bytes included.\<close>

theorem string_unescape_roundtrip:
  assumes "cstr mem p (concat (map hex_esc bs))" and "length mem < 2 ^ 31" and "bit sflags 2"
    and "sz = 0 \<or> 2 * length bs < unat sz"
  shows "string_unescape mem p p sz sflags = Some (int (length bs), store_bytes mem p (bs @ [0]))"
proof -
  have len: "length (concat (map hex_esc bs)) = 4 * length bs" by (induction bs) (simp_all add: hex_esc_def)
  then have m: "p + 4 * length bs < length mem" using assms(1) by (simp add: cstr_def)
  have "bs = unescape sflags (concat (map hex_esc bs)) (if sz = 0 then 2 ^ 64 - 1 else unat sz)"
    using m assms(2,4) by (auto simp: unescape_hex_esc [OF assms(3)])
  with m show ?thesis using string_unescape_spec [OF assms(1) _ assms(2)] by simp
qed

theorem string_unescape_roundtrip_witness:
  "string_unescape [0x5c, 0x78, 0x33, 0x63, 0] 0 0 0 4 = Some (1, [0x3c, 0, 0x33, 0x63, 0])"
proof -
  have esc: "concat (map hex_esc [0x3c]) = [0x5c, 0x78, 0x33, 0x63]" by code_simp
  then have "cstr [0x5c, 0x78, 0x33, 0x63, 0] 0 (concat (map hex_esc [0x3c]))"
    using cstrI [of "[0x5c, 0x78, 0x33, 0x63]" "[]" "[]"] by simp
  moreover have "bit (4 :: u32) 2" by code_simp
  ultimately show ?thesis
    using string_unescape_roundtrip [of "[0x5c, 0x78, 0x33, 0x63, 0]" 0 "[0x3c]" 4 0]
    by (simp add: store_bytes_def)
qed

end
