(* ===== verification/Fixups.thy ===== *)
theory Fixups
  imports Byte_Buf
begin

text \<open>
  Model of \<^verbatim>\<open>shims/kernel/bpf/fixups.c\<close>: the instruction classifiers the verifier's
  fix-up passes use.  An instruction is a record of the encoded fields; the accessor macros
  and the constructors of the file work on the bits of the opcode.

  The specification decodes an opcode arithmetically into the kind of the instruction and
  says for each kind which register it defines, at which width, and whether it is a
  conditional jump; the theorems show that the classifiers agree with it.
\<close>

section \<open>The code\<close>

definition BPF_CLASS :: "u8 \<Rightarrow> u8" where "BPF_CLASS code = code AND 0x07"
definition BPF_SIZE :: "u8 \<Rightarrow> u8" where "BPF_SIZE code = code AND 0x18"
definition BPF_MODE :: "u8 \<Rightarrow> u8" where "BPF_MODE code = code AND 0xe0"
definition BPF_OP :: "u8 \<Rightarrow> u8" where "BPF_OP code = code AND 0xf0"
definition BPF_SRC :: "u8 \<Rightarrow> u8" where "BPF_SRC code = code AND 0x08"

abbreviation BPF_LD :: u8 where "BPF_LD \<equiv> 0x00"
abbreviation BPF_LDX :: u8 where "BPF_LDX \<equiv> 0x01"
abbreviation BPF_ST :: u8 where "BPF_ST \<equiv> 0x02"
abbreviation BPF_STX :: u8 where "BPF_STX \<equiv> 0x03"
abbreviation BPF_ALU :: u8 where "BPF_ALU \<equiv> 0x04"
abbreviation BPF_JMP :: u8 where "BPF_JMP \<equiv> 0x05"
abbreviation BPF_JMP32 :: u8 where "BPF_JMP32 \<equiv> 0x06"
abbreviation BPF_ALU64 :: u8 where "BPF_ALU64 \<equiv> 0x07"

abbreviation BPF_DW :: u8 where "BPF_DW \<equiv> 0x18"
abbreviation BPF_MEM :: u8 where "BPF_MEM \<equiv> 0x60"
abbreviation BPF_ATOMIC :: u8 where "BPF_ATOMIC \<equiv> 0xc0"
abbreviation BPF_PROBE_ATOMIC :: u8 where "BPF_PROBE_ATOMIC \<equiv> 0xe0"

abbreviation BPF_JA :: u8 where "BPF_JA \<equiv> 0x00"
abbreviation BPF_CALL :: u8 where "BPF_CALL \<equiv> 0x80"
abbreviation BPF_EXIT :: u8 where "BPF_EXIT \<equiv> 0x90"
abbreviation BPF_K :: u8 where "BPF_K \<equiv> 0x00"
abbreviation BPF_X :: u8 where "BPF_X \<equiv> 0x08"

abbreviation BPF_FETCH :: u32 where "BPF_FETCH \<equiv> 0x01"
abbreviation BPF_CMPXCHG :: u32 where "BPF_CMPXCHG \<equiv> 0xf1"
abbreviation BPF_LOAD_ACQ :: u32 where "BPF_LOAD_ACQ \<equiv> 0x100"

text \<open>The register numbers are four-bit fields.\<close>

record bpf_insn =
  icode :: u8
  dst_reg :: "4 word"
  src_reg :: "4 word"
  ioff :: "16 word"
  imm :: u32

definition BPF_ALU32_REG :: "u8 \<Rightarrow> 4 word \<Rightarrow> 4 word \<Rightarrow> bpf_insn" where
  "BPF_ALU32_REG op dst src = \<lparr>icode = BPF_ALU OR BPF_OP op OR BPF_X, dst_reg = dst, src_reg = src, ioff = 0, imm = 0\<rparr>"

definition BPF_ALU64_REG :: "u8 \<Rightarrow> 4 word \<Rightarrow> 4 word \<Rightarrow> bpf_insn" where
  "BPF_ALU64_REG op dst src = \<lparr>icode = BPF_ALU64 OR BPF_OP op OR BPF_X, dst_reg = dst, src_reg = src, ioff = 0, imm = 0\<rparr>"

definition BPF_LDX_MEM :: "u8 \<Rightarrow> 4 word \<Rightarrow> 4 word \<Rightarrow> 16 word \<Rightarrow> bpf_insn" where
  "BPF_LDX_MEM sz dst src off =
     \<lparr>icode = BPF_LDX OR BPF_MEM OR BPF_SIZE sz, dst_reg = dst, src_reg = src, ioff = off, imm = 0\<rparr>"

definition BPF_STX_ATOMIC :: "u8 \<Rightarrow> 4 word \<Rightarrow> 4 word \<Rightarrow> 16 word \<Rightarrow> u32 \<Rightarrow> bpf_insn" where
  "BPF_STX_ATOMIC sz dst src off im =
     \<lparr>icode = BPF_STX OR BPF_ATOMIC OR BPF_SIZE sz, dst_reg = dst, src_reg = src, ioff = off, imm = im\<rparr>"

definition BPF_JMP_IMM :: "u8 \<Rightarrow> 4 word \<Rightarrow> u32 \<Rightarrow> 16 word \<Rightarrow> bpf_insn" where
  "BPF_JMP_IMM op dst im off =
     \<lparr>icode = BPF_JMP OR BPF_OP op OR BPF_K, dst_reg = dst, src_reg = 0, ioff = off, imm = im\<rparr>"

definition BPF_JMP32_IMM :: "u8 \<Rightarrow> 4 word \<Rightarrow> u32 \<Rightarrow> 16 word \<Rightarrow> bpf_insn" where
  "BPF_JMP32_IMM op dst im off =
     \<lparr>icode = BPF_JMP32 OR BPF_OP op OR BPF_K, dst_reg = dst, src_reg = 0, ioff = off, imm = im\<rparr>"

definition bpf_is_reg64 :: "bpf_insn \<Rightarrow> bool" where
  "bpf_is_reg64 insn =
     (if BPF_CLASS (icode insn) = BPF_ALU64 then True
      else if BPF_CLASS (icode insn) = BPF_LD then BPF_SIZE (icode insn) = BPF_DW
      else if BPF_CLASS (icode insn) = BPF_LDX then BPF_SIZE (icode insn) = BPF_DW
      else if BPF_CLASS (icode insn) = BPF_STX \<and>
              (BPF_MODE (icode insn) = BPF_ATOMIC \<or> BPF_MODE (icode insn) = BPF_PROBE_ATOMIC)
      then BPF_SIZE (icode insn) = BPF_DW
      else False)"

definition is_cmpxchg_insn :: "bpf_insn \<Rightarrow> bool" where
  "is_cmpxchg_insn insn \<longleftrightarrow>
     BPF_CLASS (icode insn) = BPF_STX \<and> BPF_MODE (icode insn) = BPF_ATOMIC \<and> imm insn = BPF_CMPXCHG"

definition insn_def_regno :: "bpf_insn \<Rightarrow> cint" where
  "insn_def_regno insn =
     (let cls = BPF_CLASS (icode insn)
      in if cls = BPF_JMP \<or> cls = BPF_JMP32 \<or> cls = BPF_ST then - 1
         else if cls = BPF_STX
         then (if BPF_MODE (icode insn) = BPF_ATOMIC \<or> BPF_MODE (icode insn) = BPF_PROBE_ATOMIC
               then (if imm insn = BPF_CMPXCHG then 0
                     else if imm insn = BPF_LOAD_ACQ then uint (dst_reg insn)
                     else if c_true (imm insn AND BPF_FETCH) then uint (src_reg insn)
                     else - 1)
               else - 1)
         else uint (dst_reg insn))"

definition insn_has_def32 :: "bpf_insn \<Rightarrow> bool" where
  "insn_has_def32 insn =
     (let dst = insn_def_regno insn in if dst = - 1 then False else \<not> bpf_is_reg64 insn)"

definition bpf_insn_is_cond_jump :: "u8 \<Rightarrow> bool" where
  "bpf_insn_is_cond_jump code =
     (let op = BPF_OP code
      in if BPF_CLASS code = BPF_JMP32 then op \<noteq> BPF_JA
         else if BPF_CLASS code \<noteq> BPF_JMP then False
         else op \<noteq> BPF_JA \<and> op \<noteq> BPF_EXIT \<and> op \<noteq> BPF_CALL)"

section \<open>The specification\<close>

datatype atomic_op = Cmpxchg | Load_acq | Fetch | No_fetch

text \<open>Widths are given in bits; jumps carry the number of their operation.\<close>

datatype insn_kind =
    Load (ik_width: nat)
  | Store
  | Atomic (ik_width: nat) atomic_op
  | Alu (ik_width: nat)
  | Jump nat
  | Jump32 nat

definition size_bits :: "nat \<Rightarrow> nat" where
  "size_bits n = (if n = 0 then 32 else if n = 1 then 16 else if n = 2 then 8 else 64)"

definition decode_atomic :: "u32 \<Rightarrow> atomic_op" where
  "decode_atomic im = (if im = 0xf1 then Cmpxchg else if im = 0x100 then Load_acq
     else if odd (unat im) then Fetch else No_fetch)"

definition decode :: "bpf_insn \<Rightarrow> insn_kind" where
  "decode insn =
     (let code = unat (icode insn); class = code mod 8; width = size_bits (code div 8 mod 4)
      in if class \<le> 1 then Load width
         else if class = 2 then Store
         else if class = 3
         then (if code div 32 \<in> {6, 7} then Atomic width (decode_atomic (imm insn)) else Store)
         else if class = 4 then Alu 32
         else if class = 5 then Jump (code div 16)
         else if class = 6 then Jump32 (code div 16)
         else Alu 64)"

fun defined_reg :: "insn_kind \<Rightarrow> bpf_insn \<Rightarrow> nat option" where
  "defined_reg (Load w) insn = Some (unat (dst_reg insn))"
| "defined_reg (Alu w) insn = Some (unat (dst_reg insn))"
| "defined_reg (Atomic w Cmpxchg) insn = Some 0"
| "defined_reg (Atomic w Load_acq) insn = Some (unat (dst_reg insn))"
| "defined_reg (Atomic w Fetch) insn = Some (unat (src_reg insn))"
| "defined_reg _ insn = None"

text \<open>Operation 0 is the unconditional jump, 8 and 9 are call and exit (of the 64-bit class).\<close>

fun is_conditional :: "insn_kind \<Rightarrow> bool" where
  "is_conditional (Jump op) \<longleftrightarrow> op \<notin> {0, 8, 9}"
| "is_conditional (Jump32 op) \<longleftrightarrow> op \<noteq> 0"
| "is_conditional _ \<longleftrightarrow> False"

section \<open>Opcode fields\<close>

lemma field_value:
  fixes c :: u8
  assumes "k + m \<le> 8"
  shows "unat (c AND push_bit k (mask m)) = 2 ^ k * (unat c div 2 ^ k mod 2 ^ m)"
proof -
  have "c AND push_bit k (mask m) = push_bit k (take_bit m (drop_bit k c))"
    by (rule bit_word_eqI) (auto simp: bit_simps)
  moreover have val: "unat (take_bit m (drop_bit k c)) = unat c div 2 ^ k mod 2 ^ m"
    by (simp only: unsigned_take_bit_eq unat_drop_bit) (simp only: take_bit_eq_mod)
  ultimately have "unat (c AND push_bit k (mask m)) = (unat c div 2 ^ k mod 2 ^ m * 2 ^ k) mod 2 ^ 8"
    by (simp add: unat_push_bit_eq val)
  moreover have "unat c div 2 ^ k mod 2 ^ m * 2 ^ k < 2 ^ 8"
  proof -
    have "unat c div 2 ^ k mod 2 ^ m < 2 ^ m" by simp
    then have "unat c div 2 ^ k mod 2 ^ m * 2 ^ k < 2 ^ m * 2 ^ k" by simp
    also have "\<dots> \<le> 2 ^ 8" using assms power_increasing [of "k + m" 8 "2 :: nat"] by (simp add: power_add mult.commute)
    finally show ?thesis .
  qed
  ultimately show ?thesis by (simp add: mult.commute)
qed

lemma unat_fields:
  "unat (BPF_CLASS c) = unat c mod 8" "unat (BPF_SIZE c) = 8 * (unat c div 8 mod 4)"
  "unat (BPF_MODE c) = 32 * (unat c div 32)" "unat (BPF_OP c) = 16 * (unat c div 16)"
proof -
  have "unat c < 256" using unsigned_less [of c, where 'a = nat] by simp
  then have c: "unat c div 32 mod 8 = unat c div 32" "unat c div 16 mod 16 = unat c div 16"
    by (simp_all add: less_mult_imp_div_less)
  show "unat (BPF_CLASS c) = unat c mod 8" "unat (BPF_SIZE c) = 8 * (unat c div 8 mod 4)"
    "unat (BPF_MODE c) = 32 * (unat c div 32)" "unat (BPF_OP c) = 16 * (unat c div 16)"
    using field_value [of 0 3 c] field_value [of 3 2 c] field_value [of 5 3 c] field_value [of 4 4 c] c
    by (simp_all add: BPF_CLASS_def BPF_SIZE_def BPF_MODE_def BPF_OP_def mask_eq_exp_minus_1 push_bit_eq_mult)
qed

lemma field_eq_iff:
  "BPF_CLASS c = x \<longleftrightarrow> unat c mod 8 = unat x" "BPF_SIZE c = x \<longleftrightarrow> 8 * (unat c div 8 mod 4) = unat x"
  "BPF_MODE c = x \<longleftrightarrow> 32 * (unat c div 32) = unat x" "BPF_OP c = x \<longleftrightarrow> 16 * (unat c div 16) = unat x"
  by (simp_all add: word_unat_eq_iff unat_fields)

lemma size_bits_64: "size_bits (n mod 4) = 64 \<longleftrightarrow> n mod 4 = 3"
proof -
  have "n mod 4 < 4" by simp
  then show ?thesis unfolding size_bits_def by (cases "n mod 4 = 3") auto
qed

lemma fetch_odd: "c_true (im AND 1) \<longleftrightarrow> odd (unat (im :: u32))"
proof -
  have "odd (unat im) \<longleftrightarrow> bit (unat im) 0" by (simp add: bit_0)
  also have "\<dots> \<longleftrightarrow> bit im 0" by (simp add: bit_unsigned_iff)
  finally show ?thesis using c_true_and_bit [of im 0] by simp
qed

section \<open>Properties\<close>

text \<open>C25: Classification.  The register an instruction defines, whether it defines it as a
  32-bit value, and whether it is a conditional jump are what the decoded kind of the
  instruction says: loads, arithmetic and fetching atomics define a register (the
  compare-and-exchange register 0), stores and jumps none, and only the 64-bit forms define all 64 bits.\<close>

theorem insn_classification:
  "insn_def_regno insn = (case defined_reg (decode insn) insn of None \<Rightarrow> - 1 | Some r \<Rightarrow> int r) \<and>
   (insn_has_def32 insn \<longleftrightarrow> defined_reg (decode insn) insn \<noteq> None \<and> ik_width (decode insn) \<noteq> 64) \<and>
   (bpf_insn_is_cond_jump (icode insn) \<longleftrightarrow> is_conditional (decode insn)) \<and>
   (is_cmpxchg_insn insn \<longrightarrow> insn_def_regno insn = 0)"
proof -
  have def_reg: "insn_def_regno insn = (case defined_reg (decode insn) insn of None \<Rightarrow> - 1 | Some r \<Rightarrow> int r)"
    by (auto simp: insn_def_regno_def decode_def field_eq_iff Let_def decode_atomic_def fetch_odd split: option.splits)
  have no_reg: "insn_def_regno insn = - 1 \<longleftrightarrow> defined_reg (decode insn) insn = None"
    by (simp add: def_reg split: option.splits)
  have "bpf_is_reg64 insn \<longleftrightarrow> ik_width (decode insn) = 64" if "defined_reg (decode insn) insn \<noteq> None"
    using that by (auto simp: bpf_is_reg64_def decode_def field_eq_iff Let_def size_bits_64 split: if_splits)
  then have "insn_has_def32 insn \<longleftrightarrow> defined_reg (decode insn) insn \<noteq> None \<and> ik_width (decode insn) \<noteq> 64"
    by (auto simp: insn_has_def32_def no_reg)
  moreover have "bpf_insn_is_cond_jump (icode insn) \<longleftrightarrow> is_conditional (decode insn)"
    by (auto simp: bpf_insn_is_cond_jump_def decode_def field_eq_iff Let_def)
  moreover have "is_cmpxchg_insn insn \<Longrightarrow> insn_def_regno insn = 0"
    by (simp add: is_cmpxchg_insn_def insn_def_regno_def)
  ultimately show ?thesis using def_reg by blast
qed

theorem insn_classification_witness:
  "insn_def_regno (BPF_STX_ATOMIC BPF_DW 1 2 0 BPF_CMPXCHG) = 0 \<and>
   \<not> insn_has_def32 (BPF_STX_ATOMIC BPF_DW 1 2 0 BPF_CMPXCHG) \<and>
   insn_has_def32 (BPF_ALU32_REG 0 3 4) \<and> \<not> bpf_insn_is_cond_jump (icode (BPF_JMP_IMM 0x80 0 0 0))"
proof -
  let ?x = "BPF_STX_ATOMIC BPF_DW 1 2 0 BPF_CMPXCHG" and ?a = "BPF_ALU32_REG 0 3 4" and ?c = "BPF_JMP_IMM 0x80 0 0 0"
  have "decode ?x = Atomic 64 Cmpxchg" "is_cmpxchg_insn ?x" "decode ?a = Alu 32" "decode ?c = Jump 8" by code_simp+
  then show ?thesis
    using insn_classification [of ?x] insn_classification [of ?a] insn_classification [of ?c] by simp
qed

end
