(* ===== verification/Polynomial.thy ===== *)
theory Polynomial
  imports Bpf_Prelude "HOL-Library.Signed_Division"
begin

text \<open>
  Model of \<^verbatim>\<open>shims/lib/math/polynomial.c\<close>: signed division from unsigned division,
  \<^verbatim>\<open>mult_frac\<close>, and the evaluation of a polynomial with rational coefficients on 64-bit
  integers.  A \<^verbatim>\<open>long\<close> is a 64-bit word read as signed; \<^verbatim>\<open>struct polynomial\<close> and its terms come
  from a kernel header outside the repository, and the records have the fields the code reads.
  The terms are an array that ends with its first term of degree 0; running past the end of the
  list is the value \<open>None\<close>.
\<close>

section \<open>The code\<close>

record polynomial_term =
  deg :: nat
  coef :: u64
  divider :: u64
  divider_leftover :: u64

record polynomial =
  total_divider :: u64
  terms :: "polynomial_term list"

definition bpf_sdiv :: "u64 \<Rightarrow> u64 \<Rightarrow> u64" where
  "bpf_sdiv a b =
     (let (ua, neg) = (if sint a < 0 then (- a, True) else (a, False));
          (ub, neg) = (if sint b < 0 then (- b, \<not> neg) else (b, neg));
          r = ua div ub
      in if neg then - r else r)"

definition mult_frac :: "u64 \<Rightarrow> u64 \<Rightarrow> u64 \<Rightarrow> u64" where
  "mult_frac x n d =
     (let q = bpf_sdiv x d;
          r = x - q * d
      in q * n + bpf_sdiv (r * n) d)"

text \<open>The inner loop multiplies \<^verbatim>\<open>term->deg\<close> times.\<close>

definition term_value :: "u64 \<Rightarrow> polynomial_term \<Rightarrow> u64" where
  "term_value data t =
     bpf_sdiv (((\<lambda>tmp. mult_frac tmp data (divider t)) ^^ deg t) (coef t)) (divider_leftover t)"

fun calc_loop :: "u64 \<Rightarrow> polynomial_term list \<Rightarrow> u64 \<Rightarrow> u64 option" where
  "calc_loop data [] ret = None"
| "calc_loop data (t # ts) ret =
     (let ret = ret + term_value data t
      in if deg t = 0 then Some ret else calc_loop data ts ret)"

definition polynomial_calc :: "polynomial \<Rightarrow> u64 \<Rightarrow> u64 option" where
  "polynomial_calc poly data =
     (let total = (if total_divider poly = 0 then 1 else total_divider poly)
      in case calc_loop data (terms poly) 0 of
           None \<Rightarrow> None
         | Some ret \<Rightarrow> Some (bpf_sdiv ret total))"

section \<open>Signed division\<close>

lemma uint_abs: "uint (if sint a < 0 then - a else a :: u64) = \<bar>sint a\<bar>"
proof -
  have r: "- (2 ^ 63) \<le> sint a" "sint a < 2 ^ 63"
    using sint_greater_eq [of a] sint_less [of a] by simp_all
  have "uint (word_of_int \<bar>sint a\<bar> :: u64) = \<bar>sint a\<bar>"
    using r by (simp add: take_bit_int_eq_self_iff uint_word_of_int abs_le_iff)
  moreover have "(word_of_int \<bar>sint a\<bar> :: u64) = (if sint a < 0 then - a else a)"
    by (simp add: abs_if)
  ultimately show ?thesis by simp
qed

lemma bpf_sdiv_eq: "bpf_sdiv a b = word_of_int (sint a sdiv sint b)"
proof -
  let ?ua = "if sint a < 0 then - a else a" and ?ub = "if sint b < 0 then - b else b"
  have "uint (?ua div ?ub) = \<bar>sint a\<bar> div \<bar>sint b\<bar>"
    by (simp only: uint_div_distrib uint_abs)
  then have d: "?ua div ?ub = word_of_int (\<bar>sint a\<bar> div \<bar>sint b\<bar>)" by (metis word_of_int_uint)
  have "bpf_sdiv a b = (if (sint a < 0) \<noteq> (sint b < 0) then - (?ua div ?ub) else ?ua div ?ub)"
    by (simp add: bpf_sdiv_def Let_def)
  then show ?thesis
    unfolding d by (auto simp: signed_divide_int_def sgn_if)
qed

lemma sdiv_mult_frac: "(x * n) sdiv d = (x sdiv d) * n + ((x smod d) * n) sdiv d" for x n d :: int
proof (cases "x = 0 \<or> d = 0 \<or> n = 0")
  case False
  let ?q = "\<bar>x\<bar> div \<bar>d\<bar>" and ?r = "\<bar>x\<bar> mod \<bar>d\<bar>"
  have "\<bar>x\<bar> * \<bar>n\<bar> = (?q * \<bar>n\<bar>) * \<bar>d\<bar> + ?r * \<bar>n\<bar>"
    by (metis (no_types, opaque_lifting) distrib_right div_mult_mod_eq mult.assoc mult.commute)
  then have split: "\<bar>x\<bar> * \<bar>n\<bar> div \<bar>d\<bar> = ?q * \<bar>n\<bar> + ?r * \<bar>n\<bar> div \<bar>d\<bar>"
    using False by simp
  have first: "(x sdiv d) * n = sgn x * sgn n * sgn d * (?q * \<bar>n\<bar>)"
  proof -
    have "(x sdiv d) * n = sgn x * sgn d * ?q * (sgn n * \<bar>n\<bar>)"
      by (simp only: signed_divide_int_def sgn_mult_abs)
    then show ?thesis by (simp only: ac_simps)
  qed
  have r: "0 \<le> ?r" using False by simp
  have "\<bar>sgn x * ?r * n\<bar> = ?r * \<bar>n\<bar>" using False by (simp add: abs_mult)
  moreover have "sgn ?r = 1" if "?r \<noteq> 0" using r that by (simp add: sgn_if)
  ultimately have "(x smod d) * n sdiv d = sgn x * sgn n * sgn d * (?r * \<bar>n\<bar> div \<bar>d\<bar>)"
    by (cases "?r = 0") (simp_all add: signed_divide_int_def signed_modulo_int_def sgn_mult)
  then show ?thesis
    unfolding first by (simp only: signed_divide_int_def abs_mult sgn_mult split distrib_left)
qed auto

lemma calc_loop_unit:
  assumes "\<forall>t \<in> set ts. deg t \<noteq> 0" and "deg t0 = 0"
  shows "calc_loop data (ts @ t0 # rest) ret = Some (ret + sum_list (map (term_value data) (ts @ [t0])))"
  using assms by (induction ts arbitrary: ret) (simp_all add: Let_def add.assoc)

lemma term_value_unit:
  assumes "divider t = 1" and "divider_leftover t = 1"
  shows "term_value data t = coef t * data ^ deg t"
proof -
  have "mult_frac x n 1 = x * n" for x n by (simp add: mult_frac_def bpf_sdiv_eq)
  then have "((\<lambda>tmp. mult_frac tmp data 1) ^^ k) x = x * data ^ k" for k x
    by (induction k) (simp_all add: mult.assoc mult.commute)
  with assms show ?thesis by (simp add: term_value_def bpf_sdiv_eq)
qed


section \<open>Properties\<close>

text \<open>Fractions.  The division built from unsigned division is C's signed division, truncated
  towards zero, for all operands; and \<open>mult_frac\<close> computes the truncated quotient of the exact
  product, although the product itself may exceed 64 bits, as long as the remainder times the
  multiplier does not.\<close>

theorem mult_frac_exact:
  assumes "sint x smod sint d * sint n \<in> {- (2 ^ 63)..<2 ^ 63}"
  shows "mult_frac x n d = word_of_int ((sint x * sint n) sdiv sint d)
    \<and> bpf_sdiv a b = word_of_int (sint a sdiv sint b)"
proof -
  let ?r = "x - bpf_sdiv x d * d"
  have "?r = word_of_int (sint x - sint x sdiv sint d * sint d)"
    by (simp add: bpf_sdiv_eq)
  then have rn: "?r * n = word_of_int (sint x smod sint d * sint n)"
    by (simp add: minus_sdiv_mult_eq_smod)
  have "sint (?r * n) = sint x smod sint d * sint n"
    unfolding rn signed_of_int using assms signed_take_bit_int_eq_self [of 63 "sint x smod sint d * sint n"] by simp
  then have "bpf_sdiv (?r * n) d = word_of_int ((sint x smod sint d * sint n) sdiv sint d)"
    by (simp only: bpf_sdiv_eq [of "?r * n"])
  moreover have "bpf_sdiv x d * n = word_of_int (sint x sdiv sint d * sint n)"
    by (simp add: bpf_sdiv_eq)
  moreover have "mult_frac x n d = bpf_sdiv x d * n + bpf_sdiv (?r * n) d"
    by (simp only: mult_frac_def Let_def)
  ultimately have "mult_frac x n d = word_of_int ((sint x * sint n) sdiv sint d)"
    unfolding sdiv_mult_frac [of "sint x"] by (simp only: of_int_add)
  then show ?thesis using bpf_sdiv_eq by blast
qed

theorem mult_frac_exact_witness:
  "mult_frac (2 ^ 62) 6 (2 ^ 61) = 12 \<and> bpf_sdiv (- 7) 2 = - 3"
proof -
  have s: "sint (2 ^ 62 :: u64) = 2 ^ 62" "sint (6 :: u64) = 6" "sint (2 ^ 61 :: u64) = 2 ^ 61"
    "sint (- 7 :: u64) = - 7" "sint (2 :: u64) = 2"
    by simp_all
  then show ?thesis
    using mult_frac_exact [of "2 ^ 62" "2 ^ 61" 6 "- 7" 2] unfolding s
    by (simp add: signed_divide_int_def signed_modulo_int_def)
qed

text \<open>Evaluation.  With unit dividers the evaluation returns, and gives the value of the
  polynomial up to its first term of degree 0 in 64-bit arithmetic; a term list without such
  a term is run past its end.\<close>

theorem polynomial_calc_correct:
  assumes "\<forall>t \<in> set (ts @ [t0]). divider t = 1 \<and> divider_leftover t = 1"
    and "\<forall>t \<in> set ts. deg t \<noteq> 0" and "deg t0 = 0" and "k = 0 \<or> k = 1"
  shows "polynomial_calc \<lparr>total_divider = k, terms = ts @ t0 # rest\<rparr> x =
      Some (\<Sum>t \<leftarrow> ts @ [t0]. coef t * x ^ deg t)
    \<and> polynomial_calc \<lparr>total_divider = k, terms = ts\<rparr> x = None"
proof -
  have "map (term_value x) (ts @ [t0]) = map (\<lambda>t. coef t * x ^ deg t) (ts @ [t0])"
    using assms(1) by (intro map_cong refl term_value_unit) auto
  then have "calc_loop x (ts @ t0 # rest) 0 = Some (\<Sum>t \<leftarrow> ts @ [t0]. coef t * x ^ deg t)"
    by (simp only: calc_loop_unit [OF assms(2,3)] add_0)
  moreover have "calc_loop x ts ret = None" for ret
    using assms(2) by (induction ts arbitrary: ret) (simp_all add: Let_def)
  ultimately show ?thesis
    using assms(4) by (auto simp: polynomial_calc_def bpf_sdiv_eq Let_def)
qed

theorem polynomial_calc_correct_witness:
  "polynomial_calc \<lparr>total_divider = 0, terms =
     [\<lparr>deg = 2, coef = 3, divider = 1, divider_leftover = 1\<rparr>,
      \<lparr>deg = 0, coef = - 5, divider = 1, divider_leftover = 1\<rparr>]\<rparr> 4 = Some 43"
  using polynomial_calc_correct [of "[\<lparr>deg = 2, coef = 3, divider = 1, divider_leftover = 1\<rparr>]"
      "\<lparr>deg = 0, coef = - 5, divider = 1, divider_leftover = 1\<rparr>" 0 "[]" 4] by simp

end
