(* ===== verification/Proc_Util.thy ===== *)
theory Proc_Util
  imports Byte_Buf
begin

text \<open>
  Model of \<^verbatim>\<open>shims/fs/proc/util.c\<close>: \<^verbatim>\<open>name_to_int\<close>, which reads the name of a process
  directory as a number.  The name is a byte list (a \<^verbatim>\<open>qstr\<close> has no terminator), its length an
  \<^verbatim>\<open>int\<close> made from the unsigned field; characters are signed.

  The specification is the decimal value of the name as an unbounded number.
\<close>

section \<open>The code\<close>

record qstr =
  qname :: "u8 list"
  qlen :: u32

function name_loop :: "u8 list \<Rightarrow> nat \<Rightarrow> int \<Rightarrow> u32 \<Rightarrow> u32" where
  "name_loop name p len n =
     (let c = (scast (name ! p) :: u32) - 0x30
      in if c > 9 then NOT 0
         else if n \<ge> (NOT 0 - 9) div 10 then NOT 0
         else let n = n * 10; n = n + c; len = len - 1
              in if len > 0 then name_loop name (p + 1) len n else n)"
  by pat_completeness auto

termination
  by (relation "measure (\<lambda>(name, p, len, n). nat len)") auto

declare name_loop.simps [simp del]

definition name_to_int :: "qstr \<Rightarrow> u32" where
  "name_to_int q =
     (let len = sint (qlen q)
      in if len > 1 \<and> qname q ! 0 = 0x30 then NOT 0
         else name_loop (qname q) 0 len 0)"

section \<open>The decimal value of a name\<close>

definition decimal_digit :: "u8 \<Rightarrow> bool" where
  "decimal_digit c \<longleftrightarrow> 0x30 \<le> c \<and> c \<le> 0x39"

definition decimal_val :: "u8 \<Rightarrow> nat" where
  "decimal_val c = unat c - 0x30"

lemma digit_char: "((scast c :: u32) - 0x30 > 9 \<longleftrightarrow> \<not> decimal_digit c) \<and>
   (decimal_digit c \<longrightarrow> (scast c :: u32) - 0x30 = of_nat (decimal_val c) \<and> decimal_val c < 10)"
  by (rule byte_cases) code_simp

lemma foldl_digits_ge: "v \<le> foldl (\<lambda>n d. 10 * n + d) v ds" for v :: nat
proof (induction ds arbitrary: v)
  case (Cons d ds)
  then have "10 * v + d \<le> foldl (\<lambda>n d. 10 * n + d) (10 * v + d) ds" .
  then show ?case by simp
qed simp

lemma name_loop_spec:
  assumes "0 < k" and "p + k \<le> length name" and "v < 4294967280"
  shows "name_loop name p (int k) (of_nat v) =
    (let s = bytes_at name p k; w = foldl (\<lambda>n d. 10 * n + d) v (map decimal_val s)
     in if list_all decimal_digit s \<and> w < 4294967280 then of_nat w else NOT 0)"
  using assms
proof (induction k arbitrary: p v)
  case (Suc k)
  let ?c = "name ! p" and ?s = "bytes_at name (Suc p) k"
  have s: "bytes_at name p (Suc k) = ?c # ?s" using Suc.prems(2) by (simp add: bytes_at_Suc)
  have lim: "(NOT 0 - 9 :: u32) div 10 = 429496728" by simp
  have ge: "(429496728 :: u32) \<le> of_nat v \<longleftrightarrow> 429496728 \<le> v"
    using Suc.prems(3) by (simp add: word_le_nat_alt unsigned_of_nat take_bit_nat_eq_self)
  show ?case
  proof (cases "decimal_digit ?c \<and> v < 429496728")
    case False
    have "4294967280 \<le> foldl (\<lambda>n d. 10 * n + d) v (map decimal_val (?c # ?s))" if "429496728 \<le> v"
      using that foldl_digits_ge [of "10 * v + decimal_val ?c" "map decimal_val ?s"] by simp
    with False digit_char [of ?c] show ?thesis
      unfolding s by (subst name_loop.simps) (auto simp: lim ge Let_def)
  next
    case True
    let ?v = "10 * v + decimal_val ?c"
    have c: "(scast ?c :: u32) - 0x30 = of_nat (decimal_val ?c)" "decimal_val ?c < 10" "\<not> (scast ?c :: u32) - 0x30 > 9"
      using digit_char [of ?c] True by blast+
    have "of_nat v * 10 + (of_nat (decimal_val ?c) :: u32) = of_nat ?v" by simp
    then have step: "name_loop name p (int (Suc k)) (of_nat v) =
        (if 0 < k then name_loop name (Suc p) (int k) (of_nat ?v) else of_nat ?v)"
      using c True by (subst name_loop.simps) (simp add: lim ge Let_def del: of_nat_add of_nat_mult)
    show ?thesis
    proof (cases "k = 0")
      case True
      then show ?thesis using c \<open>decimal_digit ?c \<and> v < 429496728\<close> unfolding step s by (simp add: Let_def)
    next
      case False
      then show ?thesis
        using Suc.IH [of "Suc p" ?v] Suc.prems(2) c True unfolding step s by (simp add: Let_def del: of_nat_add of_nat_mult)
    qed
  qed
qed simp

section \<open>Properties\<close>

text \<open>Numbers.  A name of at least one character is read as its decimal value if it
  consists of digits, has no leading zero unless it is the single digit 0, and its value is
  below 4294967280; every other name gives the error value 4294967295, which is no value of a
  name.  No intermediate value wraps around.\<close>

theorem name_to_int_correct:
  assumes "0 < n" and "n < 2 ^ 31" and "n \<le> length name"
    and "v = digits_value 10 (map decimal_val (take n name))"
  shows "name_to_int \<lparr>qname = name, qlen = of_nat n\<rparr> =
    (if list_all decimal_digit (take n name) \<and> (n = 1 \<or> name ! 0 \<noteq> 0x30) \<and> v < 4294967280
     then of_nat v else 4294967295)"
proof -
  have "sint (of_nat n :: u32) = int n"
    using assms(2) by (simp add: signed_of_nat signed_take_bit_int_eq_self)
  moreover have "bytes_at name 0 n = take n name" by (simp add: bytes_at_def)
  moreover have "(NOT 0 :: u32) = 4294967295" by simp
  ultimately show ?thesis
    using name_loop_spec [of n 0 name 0] assms by (auto simp: name_to_int_def Let_def digits_value_def)
qed

theorem name_to_int_correct_witness:
  "name_to_int \<lparr>qname = [0x34, 0x32], qlen = 2\<rparr> = 42"
  using name_to_int_correct [of 2 "[0x34, 0x32]" 42]
  by (simp add: digits_value_def decimal_val_def decimal_digit_def)

end
