(* ===== verification/Refcount.thy ===== *)
theory Refcount
  imports Bpf_Prelude
begin

text \<open>
  Model of \<^verbatim>\<open>shims/lib/refcount.c\<close>, a reference count in a C \<^verbatim>\<open>int\<close>, and the contract of a
  reference count.  The locale \<open>ref_counter\<close> has a counter's two operations, to take a reference
  unless there is none and to drop one, with their laws as long as the count stays below a limit;
  its lemma says what a sequence of operations does.  It is interpreted here for the counter of
  this file and in \<open>Struct_Ops\<close> for the count of a struct-ops map.
\<close>

section \<open>The code\<close>

record refcount_struct =
  refs :: u32 \<comment> \<open>a C \<^verbatim>\<open>int\<close> that wraps\<close>

definition refcount_set :: "refcount_struct \<Rightarrow> u32 \<Rightarrow> refcount_struct" where
  "refcount_set r n = r\<lparr>refs := n\<rparr>"

definition refcount_read :: "refcount_struct \<Rightarrow> u32" where
  "refcount_read r = refs r"

definition refcount_inc_not_zero :: "refcount_struct \<Rightarrow> bool \<times> refcount_struct" where
  "refcount_inc_not_zero r =
     (let val = refs r
      in if val = 0 then (False, r)
         else (True, r\<lparr>refs := val + 1\<rparr>))"

definition refcount_dec_and_test :: "refcount_struct \<Rightarrow> bool \<times> refcount_struct" where
  "refcount_dec_and_test r =
     (let val = refs r - 1; r = r\<lparr>refs := val\<rparr>
      in (val = 0, r))"

section \<open>The contract of a reference count\<close>

datatype ref_op = Get | Put

text \<open>
  The specification: with \<open>n\<close> references a \<open>Get\<close> succeeds exactly if there is one, and the result of
  a \<open>Put\<close> is whether it dropped the last one.  \<open>balanced\<close> says that no \<open>Put\<close> comes without a reference.
\<close>

fun ref_spec :: "nat \<Rightarrow> ref_op list \<Rightarrow> bool list \<times> nat" where
  "ref_spec n [] = ([], n)"
| "ref_spec n (Get # ops) = (case ref_spec (if n = 0 then 0 else Suc n) ops of (res, m) \<Rightarrow> ((0 < n) # res, m))"
| "ref_spec n (Put # ops) = (case ref_spec (n - 1) ops of (res, m) \<Rightarrow> ((n = 1) # res, m))"

fun balanced :: "nat \<Rightarrow> ref_op list \<Rightarrow> bool" where
  "balanced n [] \<longleftrightarrow> True"
| "balanced n (Get # ops) \<longleftrightarrow> balanced (if n = 0 then 0 else Suc n) ops"
| "balanced n (Put # ops) \<longleftrightarrow> 0 < n \<and> balanced (n - 1) ops"

fun ref_run :: "('s \<Rightarrow> bool \<times> 's) \<Rightarrow> ('s \<Rightarrow> bool \<times> 's) \<Rightarrow> 's \<Rightarrow> ref_op list \<Rightarrow> bool list \<times> 's" where
  "ref_run get put s [] = ([], s)"
| "ref_run get put s (Get # ops) = (let (b, s) = get s; (res, s) = ref_run get put s ops in (b # res, s))"
| "ref_run get put s (Put # ops) = (let (b, s) = put s; (res, s) = ref_run get put s ops in (b # res, s))"

locale ref_counter =
  fixes count :: "'s \<Rightarrow> nat" and limit :: nat
    and get :: "'s \<Rightarrow> bool \<times> 's" and put :: "'s \<Rightarrow> bool \<times> 's"
  assumes get_live: "0 < count s \<Longrightarrow> Suc (count s) < limit \<Longrightarrow> fst (get s) \<and> count (snd (get s)) = Suc (count s)"
    and get_dead: "count s = 0 \<Longrightarrow> get s = (False, s)"
    and put_live: "0 < count s \<Longrightarrow> count s < limit \<Longrightarrow> (fst (put s) \<longleftrightarrow> count s = 1) \<and> count (snd (put s)) = count s - 1"
begin

lemma lifecycle:
  assumes "balanced (count s) ops" and "count s + length ops < limit"
  shows "fst (ref_run get put s ops) = fst (ref_spec (count s) ops) \<and>
    count (snd (ref_run get put s ops)) = snd (ref_spec (count s) ops)"
  using assms
proof (induction ops arbitrary: s)
  case (Cons op ops)
  show ?case
  proof (cases op)
    case Get
    show ?thesis
    proof (cases "count s = 0")
      case True
      with Cons.IH [of s] Cons.prems Get show ?thesis by (simp add: get_dead case_prod_beta)
    next
      case False
      then have "fst (get s) \<and> count (snd (get s)) = Suc (count s)" using Cons.prems(2) get_live by simp
      with Cons.IH [of "snd (get s)"] Cons.prems Get False show ?thesis by (simp add: case_prod_beta)
    qed
  next
    case Put
    then have "(fst (put s) \<longleftrightarrow> count s = 1) \<and> count (snd (put s)) = count s - 1"
      using Cons.prems put_live by simp
    with Cons.IH [of "snd (put s)"] Cons.prems Put show ?thesis by (simp add: case_prod_beta)
  qed
qed simp

end

text \<open>In the specification nothing is alive after the last reference is gone.\<close>

lemma ref_spec_dead: "balanced 0 ops \<Longrightarrow> ref_spec 0 ops = (replicate (length ops) False, 0)"
proof (induction ops)
  case (Cons op ops)
  then show ?case by (cases op) simp_all
qed simp

section \<open>The counter of this file\<close>

interpretation rc: ref_counter "\<lambda>r. unat (refcount_read r)" "2 ^ 32" refcount_inc_not_zero refcount_dec_and_test
proof
  fix s :: refcount_struct
  let ?n = "unat (refs s)"
  show "0 < unat (refcount_read s) \<Longrightarrow> Suc (unat (refcount_read s)) < 2 ^ 32 \<Longrightarrow>
      fst (refcount_inc_not_zero s) \<and> unat (refcount_read (snd (refcount_inc_not_zero s))) = Suc (unat (refcount_read s))"
  proof -
    assume "0 < unat (refcount_read s)" and b: "Suc (unat (refcount_read s)) < 2 ^ 32"
    then have "refs s \<noteq> 0" by (auto simp: refcount_read_def)
    moreover have "refs s + 1 = of_nat (Suc ?n)" by simp
    ultimately show ?thesis
      using b unat_of_nat_u32 [of "Suc ?n"] by (simp add: refcount_inc_not_zero_def refcount_read_def add.commute)
  qed
  show "unat (refcount_read s) = 0 \<Longrightarrow> refcount_inc_not_zero s = (False, s)"
    by (simp add: refcount_inc_not_zero_def refcount_read_def unat_eq_zero)
  show "0 < unat (refcount_read s) \<Longrightarrow> unat (refcount_read s) < 2 ^ 32 \<Longrightarrow>
      (fst (refcount_dec_and_test s) \<longleftrightarrow> unat (refcount_read s) = 1) \<and>
      unat (refcount_read (snd (refcount_dec_and_test s))) = unat (refcount_read s) - 1"
  proof -
    assume "0 < unat (refcount_read s)"
    then have "refs s \<noteq> 0" by (auto simp: refcount_read_def)
    then have "unat (refs s - 1) = ?n - 1" by (simp add: unat_minus_one)
    moreover have "refs s - 1 = 0 \<longleftrightarrow> ?n = 1" using word_unat_eq_iff [of "refs s" 1] by simp
    ultimately show ?thesis by (simp add: refcount_dec_and_test_def refcount_read_def Let_def)
  qed
qed

text \<open>Lifecycle.  From a count of \<open>n\<close>, in every sequence of operations that drops no reference it
  does not have and is too short for the counter to wrap, taking a reference succeeds exactly while
  the object is alive, dropping one reports exactly when it was the last, and the counter is the
  number of references.\<close>

theorem refcount_lifecycle:
  assumes "balanced (unat n) ops" and "unat n + length ops < 2 ^ 32"
  shows "case ref_run refcount_inc_not_zero refcount_dec_and_test (refcount_set r n) ops of (res, r') \<Rightarrow>
    res = fst (ref_spec (unat n) ops) \<and> unat (refcount_read r') = snd (ref_spec (unat n) ops)"
  using rc.lifecycle [of "refcount_set r n" ops] assms
  by (simp add: case_prod_beta refcount_set_def refcount_read_def)

theorem refcount_lifecycle_witness:
  "fst (ref_run refcount_inc_not_zero refcount_dec_and_test (refcount_set \<lparr>refs = 9\<rparr> 1) [Get, Put, Get, Put, Put, Get])
     = [True, False, True, False, True, False]"
  using refcount_lifecycle [of 1 "[Get, Put, Get, Put, Put, Get]" "\<lparr>refs = 9\<rparr>"] by (simp add: case_prod_beta)

end
