(* ===== verification/Struct_Ops.thy ===== *)
theory Struct_Ops
  imports Byte_Buf Lpm_Bits Map_Attr Refcount
begin

text \<open>
  Model of \<^verbatim>\<open>shims/kernel/bpf/bpf_struct_ops.c\<close>: the metadata and state helpers of
  struct-ops maps.  The maps live in a store addressed by their pointers; the pointer of the
  kernel value inside a map is the map's address plus the offset of that field, and
  \<^verbatim>\<open>container_of\<close> subtracts it again.  A user value is a byte buffer in which the reference
  count and the state are the first two little-endian words.  Callbacks are compared with
  \<^verbatim>\<open>NULL\<close> only and are flags here.
\<close>

section \<open>The code\<close>

datatype bpf_struct_ops_state =
  BPF_STRUCT_OPS_STATE_INIT | BPF_STRUCT_OPS_STATE_INUSE | BPF_STRUCT_OPS_STATE_TOBEFREE | BPF_STRUCT_OPS_STATE_READY

fun state_value :: "bpf_struct_ops_state \<Rightarrow> u32" where
  "state_value BPF_STRUCT_OPS_STATE_INIT = 0"
| "state_value BPF_STRUCT_OPS_STATE_INUSE = 1"
| "state_value BPF_STRUCT_OPS_STATE_TOBEFREE = 2"
| "state_value BPF_STRUCT_OPS_STATE_READY = 3"

definition BPF_F_LINK :: u32 where "BPF_F_LINK = push_bit 13 1"
definition BPF_F_VTYPE_BTF_OBJ_FD :: u32 where "BPF_F_VTYPE_BTF_OBJ_FD = push_bit 15 1"
definition BPF_MAP_TYPE_STRUCT_OPS :: u32 where "BPF_MAP_TYPE_STRUCT_OPS = 26"
definition EPOLLHUP :: u32 where "EPOLLHUP = 0x10"
definition PAGE_SIZE :: u64 where "PAGE_SIZE = 4096"

record so_attr =
  so_key_size :: u32
  so_max_entries :: u32
  so_flags :: u32
  so_value_type_id :: u32 \<comment> \<open>\<^verbatim>\<open>btf_vmlinux_value_type_id\<close>\<close>

record bpf_struct_ops =
  has_update :: bool \<comment> \<open>\<^verbatim>\<open>update\<close> is not NULL\<close>
  cfi_stubs :: "u32 \<Rightarrow> u64" \<comment> \<open>the pointer stored at an offset of the stubs\<close>

record bpf_struct_ops_desc =
  st_ops :: bpf_struct_ops
  vt_size :: u32 \<comment> \<open>\<^verbatim>\<open>value_type->size\<close>\<close>

text \<open>\<^verbatim>\<open>struct bpf_struct_ops_map\<close> with the embedded \<^verbatim>\<open>struct bpf_map\<close>; the descriptor is a pointer.\<close>

record st_map =
  so_map_type :: u32
  so_map_flags :: u32
  so_value_size :: u32
  so_id :: u32
  refcnt :: u64
  usercnt :: u64
  st_ops_desc :: u64
  funcs_cnt :: u32
  btf_id :: u32 \<comment> \<open>\<^verbatim>\<open>btf->id\<close>\<close>
  uvalue :: "u8 list"
  kstate :: bpf_struct_ops_state \<comment> \<open>\<^verbatim>\<open>kvalue.common.state\<close>\<close>

record so_store =
  st_maps :: "u64 \<Rightarrow> st_map"
  descs :: "u64 \<Rightarrow> bpf_struct_ops_desc"

definition sizeof_st_map :: u64 where "sizeof_st_map = 168"
definition sizeof_st_value :: u64 where "sizeof_st_value = 8"
definition offset_kvalue :: u64 where "offset_kvalue = 160"
definition offset_data :: u64 where "offset_data = 8"

text \<open>An error pointer is \<open>Inl\<close> of the error.\<close>

definition bpf_map_inc_not_zero :: "u64 \<Rightarrow> so_store \<Rightarrow> (cint + u64) \<times> so_store" where
  "bpf_map_inc_not_zero mp s =
     (if sint (refcnt (st_maps s mp)) \<le> 0 then (Inl (- ENOENT), s)
      else (Inr mp, s\<lparr>st_maps := (st_maps s)(mp := (st_maps s mp)\<lparr>refcnt := refcnt (st_maps s mp) + 1\<rparr>)\<rparr>))"

definition bpf_map_put :: "u64 \<Rightarrow> so_store \<Rightarrow> so_store" where
  "bpf_map_put mp s =
     s\<lparr>st_maps := (st_maps s)(mp := (st_maps s mp)\<lparr>refcnt := refcnt (st_maps s mp) - 1\<rparr>)\<rparr>"

definition bpf_struct_ops_supported :: "bpf_struct_ops \<Rightarrow> u32 \<Rightarrow> cint" where
  "bpf_struct_ops_supported ops moff = (if cfi_stubs ops moff \<noteq> 0 then 0 else - ENOTSUPP)"

definition bpf_struct_ops_map_get_next_key :: "u32 option \<Rightarrow> u32 \<Rightarrow> cint \<times> u32" where
  "bpf_struct_ops_map_get_next_key key next_key = (if key = Some 0 then (- ENOENT, next_key) else (0, 0))"

definition store32 :: "u8 list \<Rightarrow> nat \<Rightarrow> u32 \<Rightarrow> u8 list" where
  "store32 buf p w = buf[p := ucast w, p + 1 := ucast (drop_bit 8 w), p + 2 := ucast (drop_bit 16 w),
                         p + 3 := ucast (drop_bit 24 w)]"

definition bpf_struct_ops_map_sys_lookup_elem :: "st_map \<Rightarrow> u32 \<Rightarrow> u8 list \<Rightarrow> cint \<times> u8 list" where
  "bpf_struct_ops_map_sys_lookup_elem mp key val =
     (if key \<noteq> 0 then (- ENOENT, val)
      else let n = unat (so_value_size mp); st = kstate mp
      in if st = BPF_STRUCT_OPS_STATE_INIT then (0, store_bytes val 0 (replicate n 0))
      else let val = store_bytes val 0 (take n (uvalue mp));
               val = store32 val 4 (state_value st);
               refs = refcnt mp - usercnt mp;
               val = store32 val 0 (if sint refs > 0 then ucast refs else 0)
           in (0, val))"

definition bpf_struct_ops_map_lookup_elem :: "cint + u64" where
  "bpf_struct_ops_map_lookup_elem = Inl (- EINVAL)"

definition bpf_struct_ops_map_alloc_check :: "so_attr \<Rightarrow> cint" where
  "bpf_struct_ops_map_alloc_check attr =
     (if so_key_size attr \<noteq> 4 \<or> so_max_entries attr \<noteq> 1 \<or>
         c_true (so_flags attr AND NOT (BPF_F_LINK OR BPF_F_VTYPE_BTF_OBJ_FD)) \<or> so_value_type_id attr = 0
      then - EINVAL else 0)"

definition bpf_struct_ops_map_mem_usage :: "so_store \<Rightarrow> u64 \<Rightarrow> u64" where
  "bpf_struct_ops_map_mem_usage s mp =
     (let m = st_maps s mp;
          vt = (ucast (vt_size (descs s (st_ops_desc m))) :: u64);
          usage = sizeof_st_map + vt - sizeof_st_value;
          usage = usage + vt;
          usage = usage + ucast (funcs_cnt m) * 8;
          usage = usage + ucast (funcs_cnt m) * 8;
          usage = usage + PAGE_SIZE
      in usage)"

text \<open>The map that contains a kernel value.\<close>

definition st_map_of_kdata :: "u64 \<Rightarrow> u64" where
  "st_map_of_kdata kdata = (let kvalue = kdata - offset_data in kvalue - offset_kvalue)"

definition bpf_struct_ops_get :: "u64 \<Rightarrow> so_store \<Rightarrow> bool \<times> so_store" where
  "bpf_struct_ops_get kdata s =
     (let (mp, s) = bpf_map_inc_not_zero (st_map_of_kdata kdata) s in (\<not> isl mp, s))"

definition bpf_struct_ops_put :: "u64 \<Rightarrow> so_store \<Rightarrow> so_store" where
  "bpf_struct_ops_put kdata s = bpf_map_put (st_map_of_kdata kdata) s"

definition bpf_struct_ops_id :: "u64 \<Rightarrow> so_store \<Rightarrow> u32" where
  "bpf_struct_ops_id kdata s = so_id (st_maps s (st_map_of_kdata kdata))"

definition bpf_struct_ops_valid_to_reg :: "st_map \<Rightarrow> bool" where
  "bpf_struct_ops_valid_to_reg mp \<longleftrightarrow>
     so_map_type mp = BPF_MAP_TYPE_STRUCT_OPS \<and> c_true (so_map_flags mp AND BPF_F_LINK) \<and>
     kstate mp = BPF_STRUCT_OPS_STATE_READY"

text \<open>A struct-ops link holds an optional map pointer.\<close>

definition bpf_struct_ops_map_link_fill_link_info :: "so_store \<Rightarrow> u64 option \<Rightarrow> u32 \<Rightarrow> cint \<times> u32" where
  "bpf_struct_ops_map_link_fill_link_info s lmap info =
     (0, case lmap of Some mp \<Rightarrow> so_id (st_maps s mp) | None \<Rightarrow> info)"

definition bpf_struct_ops_map_link_update :: "so_store \<Rightarrow> u64 option \<Rightarrow> u64 \<Rightarrow> u64 option \<Rightarrow> cint" where
  "bpf_struct_ops_map_link_update s lmap new_map expected_old_map =
     (let st_map = st_maps s new_map
      in if \<not> bpf_struct_ops_valid_to_reg st_map then - EINVAL
         else if \<not> has_update (st_ops (descs s (st_ops_desc st_map))) then - EOPNOTSUPP
         else case lmap of
           None \<Rightarrow> - ENOLINK
         | Some old_map \<Rightarrow>
             if expected_old_map \<noteq> None \<and> Some old_map \<noteq> expected_old_map then - EPERM
             else if st_ops_desc st_map \<noteq> st_ops_desc (st_maps s old_map) then - EINVAL
             else 0)"

definition bpf_struct_ops_map_link_poll :: "u64 option \<Rightarrow> u32" where
  "bpf_struct_ops_map_link_poll lmap = (if lmap \<noteq> None then 0 else EPOLLHUP)"

definition bpf_map_struct_ops_info_fill :: "so_store \<Rightarrow> u64 \<Rightarrow> u32" where
  "bpf_map_struct_ops_info_fill s mp = btf_id (st_maps s mp)"

section \<open>Words in buffers\<close>

lemma length_store32 [simp]: "length (store32 buf p w) = length buf"
  by (simp add: store32_def)

lemma nth_store32:
  "p + 4 \<le> length buf \<Longrightarrow> store32 buf p w ! i =
    (if p \<le> i \<and> i < p + 4 then ucast (drop_bit (8 * (i - p)) w) else buf ! i)"
proof -
  assume len: "p + 4 \<le> length buf"
  have "p \<le> i \<and> i < p + 4 \<longleftrightarrow> i = p \<or> i = p + 1 \<or> i = p + 2 \<or> i = p + 3" by linarith
  then show ?thesis using len by (auto simp: store32_def nth_list_update)
qed

lemma load32_store32: "p + 4 \<le> length buf \<Longrightarrow> load32 (store32 buf p w) p = w"
proof (rule bit_word_eqI)
  fix n assume len: "p + 4 \<le> length buf" and "n < LENGTH(32)"
  then have q: "n div 8 < 4" "n mod 8 < 8" "n = 8 * (n div 8) + n mod 8" by simp_all
  have "bit (load32 (store32 buf p w) p) n = bit (store32 buf p w ! (p + n div 8)) (n mod 8)"
    using bit_load32 [OF q(1,2)] q(3) by metis
  also have "\<dots> = bit w n"
    using q len by (simp add: nth_store32 bit_ucast_iff bit_drop_bit_eq)
  finally show "bit (load32 (store32 buf p w) p) n = bit w n" .
qed

lemma load32_cong: "(\<And>i. p \<le> i \<Longrightarrow> i < p + 4 \<Longrightarrow> a ! i = b ! i) \<Longrightarrow> load32 a p = load32 b p"
  by (simp add: load32_def)

lemma refs_word:
  fixes a b :: u64
  assumes "unat a < 2 ^ 31" and "unat b < 2 ^ 31"
  shows "(if sint (a - b) > 0 then ucast (a - b) else 0 :: u32) = of_nat (unat a - unat b)"
proof -
  define m k where "m = unat a" and "k = unat b"
  then have ab: "a = of_nat m" "b = of_nat k" and mk: "m < 2 ^ 31" "k < 2 ^ 31" using assms by simp_all
  have "a - b = word_of_int (int m - int k)" by (simp add: ab)
  then have s: "sint (a - b) = int m - int k"
    using mk signed_take_bit_int_eq_self [of 63 "int m - int k"] by (simp only: signed_of_int) simp
  have down: "(ucast (of_nat x :: u64) :: u32) = of_nat x" if "x < 2 ^ 31" for x
    using that by (simp add: word_unat_eq_iff unsigned_of_nat unsigned_ucast_eq take_bit_nat_eq_self)
  show ?thesis
  proof (cases "k < m")
    case True
    then have "a - b = of_nat (m - k)" by (simp add: ab of_nat_diff)
    with True s down [of "m - k"] mk show ?thesis by (simp add: m_def [symmetric] k_def [symmetric])
  next
    case False
    with s show ?thesis by (simp add: m_def [symmetric] k_def [symmetric])
  qed
qed

section \<open>Properties\<close>

lemma st_map_of_kdata: "st_map_of_kdata (mp + 168) = mp"
  by (simp add: st_map_of_kdata_def offset_data_def offset_kvalue_def)

lemma struct_ops_get_frame:
  "case bpf_struct_ops_get (mp + 168) s of (ok, s') \<Rightarrow>
     (if ok then bpf_struct_ops_put (mp + 168) s' = s \<and> bpf_struct_ops_id (mp + 168) s' = so_id (st_maps s mp)
      else s' = s) \<and>
     (\<forall>m. m \<noteq> mp \<longrightarrow> st_maps s' m = st_maps s m)"
  by (auto simp: bpf_struct_ops_get_def bpf_struct_ops_put_def bpf_struct_ops_id_def st_map_of_kdata
      bpf_map_inc_not_zero_def bpf_map_put_def)

text \<open>
  The count of a map as a reference count: a signed counter, of which only the positive values are
  references.  Dropping a reference returns nothing; what is observed of it is whether the count is
  positive afterwards.
\<close>

definition so_refs :: "u64 \<Rightarrow> so_store \<Rightarrow> nat" where
  "so_refs mp s = nat (sint (refcnt (st_maps s mp)))"

definition so_put :: "u64 \<Rightarrow> so_store \<Rightarrow> bool \<times> so_store" where
  "so_put mp s = (let s' = bpf_struct_ops_put (mp + 168) s in (so_refs mp s' = 0, s'))"

lemma sint_succ_pred:
  fixes w :: u64
  shows "sint w + 1 < 2 ^ 63 \<Longrightarrow> sint (w + 1) = sint w + 1" and "0 < sint w \<Longrightarrow> sint (w - 1) = sint w - 1"
proof -
  have b: "- (2 ^ 63) \<le> sint w" "sint w < 2 ^ 63"
    using sint_greater_eq [of w] sint_lt [of w] by simp_all
  have wrap: "sint (word_of_int z :: u64) = z" if "- (2 ^ 63) \<le> z" "z < 2 ^ 63" for z
    using that by (simp add: sint_sbintrunc' signed_take_bit_int_eq_self)
  have "w + 1 = word_of_int (sint w + 1)" "w - 1 = word_of_int (sint w - 1)" by simp_all
  then show "sint w + 1 < 2 ^ 63 \<Longrightarrow> sint (w + 1) = sint w + 1" "0 < sint w \<Longrightarrow> sint (w - 1) = sint w - 1"
    using b wrap [of "sint w + 1"] wrap [of "sint w - 1"] by (simp_all only:)
qed

interpretation so: ref_counter "so_refs mp" "2 ^ 63" "bpf_struct_ops_get (mp + 168)" "so_put mp" for mp
proof
  fix s :: so_store
  let ?c = "sint (refcnt (st_maps s mp))"
  show "fst (bpf_struct_ops_get (mp + 168) s) \<and> so_refs mp (snd (bpf_struct_ops_get (mp + 168) s)) = Suc (so_refs mp s)"
    if "0 < so_refs mp s" "Suc (so_refs mp s) < 2 ^ 63"
  proof -
    from that have "0 < ?c" "?c + 1 < 2 ^ 63" by (simp_all add: so_refs_def)
    with sint_succ_pred(1) [of "refcnt (st_maps s mp)"] show ?thesis
      by (simp add: so_refs_def bpf_struct_ops_get_def bpf_map_inc_not_zero_def st_map_of_kdata nat_add_distrib)
  qed
  show "bpf_struct_ops_get (mp + 168) s = (False, s)" if "so_refs mp s = 0"
    using that by (simp add: so_refs_def bpf_struct_ops_get_def bpf_map_inc_not_zero_def st_map_of_kdata)
  show "(fst (so_put mp s) \<longleftrightarrow> so_refs mp s = 1) \<and> so_refs mp (snd (so_put mp s)) = so_refs mp s - 1"
    if "0 < so_refs mp s"
    using that sint_succ_pred(2) [of "refcnt (st_maps s mp)"]
    by (auto simp: so_put_def so_refs_def bpf_struct_ops_put_def bpf_map_put_def st_map_of_kdata Let_def nat_diff_distrib)
qed

definition sample_st_map :: st_map where
  "sample_st_map = \<lparr>so_map_type = 26, so_map_flags = push_bit 13 1, so_value_size = 9, so_id = 7, refcnt = 3,
     usercnt = 1, st_ops_desc = 100, funcs_cnt = 0, btf_id = 1, uvalue = [9, 9, 9, 9, 9, 9, 9, 9, 5],
     kstate = BPF_STRUCT_OPS_STATE_READY\<rparr>"

text \<open>C27: References.  Through the pointer of a map's kernel value, in every sequence of operations that
  drops no reference it does not have, taking a reference succeeds exactly while the map has one,
  the map's count is the number of references throughout, and the last one is gone exactly when the
  specification says so.\<close>

theorem struct_ops_lifecycle:
  assumes "refcnt (st_maps s mp) = of_nat n" and "balanced n ops" and "n + length ops < 2 ^ 63"
  shows "case ref_run (bpf_struct_ops_get (mp + 168)) (so_put mp) s ops of (res, s') \<Rightarrow>
    res = fst (ref_spec n ops) \<and> so_refs mp s' = snd (ref_spec n ops)"
proof -
  have n: "so_refs mp s = n"
    using assms(1,3) signed_take_bit_int_eq_self [of 63 "int n"] by (simp add: so_refs_def signed_of_nat)
  show ?thesis using so.lifecycle [of mp s ops] assms(2,3) n by (simp add: case_prod_beta)
qed

theorem struct_ops_lifecycle_witness:
  "fst (ref_run (bpf_struct_ops_get (1000 + 168)) (so_put 1000)
     \<lparr>st_maps = (\<lambda>_. sample_st_map), descs = (\<lambda>_. \<lparr>st_ops = \<lparr>has_update = True, cfi_stubs = (\<lambda>_. 0)\<rparr>, vt_size = 0\<rparr>)\<rparr>
     [Put, Get, Put, Put, Put, Get]) = [False, True, False, False, True, False]"
  using struct_ops_lifecycle [of "\<lparr>st_maps = (\<lambda>_. sample_st_map),
      descs = (\<lambda>_. \<lparr>st_ops = \<lparr>has_update = True, cfi_stubs = (\<lambda>_. 0)\<rparr>, vt_size = 0\<rparr>)\<rparr>" 1000 3
      "[Put, Get, Put, Put, Put, Get]"]
  by (simp add: case_prod_beta sample_st_map_def)

text \<open>Lookup.  Reading the element of a struct-ops map fills exactly the value's bytes: zeros
  before the map is initialised, afterwards the user's value with the current state in its second
  word and, in its first, the number of references that do not come from user space.\<close>

theorem struct_ops_lookup_correct:
  assumes "n = unat (so_value_size mp)" and "8 \<le> n" and "n \<le> length (uvalue mp)" and "n \<le> length val"
    and "unat (refcnt mp) < 2 ^ 31" and "unat (usercnt mp) < 2 ^ 31"
    and "bpf_struct_ops_map_sys_lookup_elem mp 0 val = (r, val')"
  shows "r = 0 \<and> length val' = length val \<and> drop n val' = drop n val \<and>
    (if kstate mp = BPF_STRUCT_OPS_STATE_INIT then take n val' = replicate n 0
     else load32 val' 4 = state_value (kstate mp) \<and>
       load32 val' 0 = of_nat (unat (refcnt mp) - unat (usercnt mp)) \<and>
       (\<forall>i. 8 \<le> i \<and> i < n \<longrightarrow> val' ! i = uvalue mp ! i))"
proof (cases "kstate mp = BPF_STRUCT_OPS_STATE_INIT")
  case True
  with assms(7) have "r = 0" "val' = store_bytes val 0 (replicate n 0)"
    by (simp_all add: bpf_struct_ops_map_sys_lookup_elem_def assms(1))
  with True assms(4) show ?thesis by (simp add: store_bytes_def)
next
  case False
  let ?refs = "refcnt mp - usercnt mp"
  let ?a = "store_bytes val 0 (take n (uvalue mp))" and ?st = "state_value (kstate mp)"
  let ?w = "if sint ?refs > 0 then ucast ?refs else 0 :: u32"
  have v: "r = 0" "val' = store32 (store32 ?a 4 ?st) 0 ?w"
    using assms(7) False by (simp_all add: bpf_struct_ops_map_sys_lookup_elem_def Let_def assms(1))
  have len: "length ?a = length val" using assms(3,4) by simp
  have nth: "val' ! i = (if i < 4 then ucast (drop_bit (8 * i) ?w) else if i < 8 then ucast (drop_bit (8 * (i - 4)) ?st)
      else if i < n then uvalue mp ! i else val ! i)" if "i < length val" for i
    using that assms(2-4) by (simp add: v(2) nth_store32 nth_store_bytes len)
  have lenv: "length val' = length val" using v(2) len by simp
  have "?w = of_nat (unat (refcnt mp) - unat (usercnt mp))"
    by (rule refs_word [OF assms(5,6)])
  moreover have "load32 val' 0 = ?w" unfolding v(2) using len assms(2,4) by (intro load32_store32) simp
  moreover have "load32 val' 4 = load32 (store32 ?a 4 ?st) 4"
    unfolding v(2) using len assms(2,4) by (intro load32_cong) (simp add: nth_store32)
  moreover have "load32 (store32 ?a 4 ?st) 4 = ?st"
    using len assms(2,4) by (intro load32_store32) simp
  moreover have "drop n val' = drop n val"
    using assms(2) lenv by (intro nth_equalityI) (simp_all add: nth)
  ultimately show ?thesis using False v(1) lenv assms(4) nth by simp
qed

theorem struct_ops_lookup_correct_witness:
  "case bpf_struct_ops_map_sys_lookup_elem sample_st_map 0 (replicate 10 1) of (r, val) \<Rightarrow>
     r = 0 \<and> load32 val 0 = 2 \<and> load32 val 4 = 3 \<and> val ! 8 = 5"
proof -
  obtain r val where rv: "bpf_struct_ops_map_sys_lookup_elem sample_st_map 0 (replicate 10 1) = (r, val)"
    by fastforce
  have "r = 0 \<and> load32 val 0 = 2 \<and> load32 val 4 = 3 \<and> val ! 8 = 5"
    using struct_ops_lookup_correct [OF _ _ _ _ _ _ rv, of 9] by (auto simp: sample_st_map_def)
  with rv show ?thesis by simp
qed

text \<open>Replacing the map of a link.  The checks accept a new map exactly if it is a link-enabled
  struct-ops map in the ready state whose operations support updates, the link still has a map, that
  map is the expected one if the caller names one, and both have the same type; the error codes
  report the first check that fails.\<close>

theorem struct_ops_link_update_correct:
  fixes s :: so_store and new_map :: u64
  assumes "valid \<longleftrightarrow> so_map_type (st_maps s new_map) = 26 \<and> bit (so_map_flags (st_maps s new_map)) 13 \<and>
      kstate (st_maps s new_map) = BPF_STRUCT_OPS_STATE_READY"
    and "updates \<longleftrightarrow> has_update (st_ops (descs s (st_ops_desc (st_maps s new_map))))"
  shows "bpf_struct_ops_map_link_update s lmap new_map expected =
    (case lmap of
       None \<Rightarrow> if \<not> valid then - EINVAL else if \<not> updates then - EOPNOTSUPP else - ENOLINK
     | Some old \<Rightarrow>
         if valid \<and> updates \<and> expected \<in> {None, Some old} \<and>
            st_ops_desc (st_maps s old) = st_ops_desc (st_maps s new_map) then 0
         else if valid \<and> \<not> updates then - EOPNOTSUPP
         else if valid \<and> expected \<notin> {None, Some old} then - EPERM
         else - EINVAL)"
proof -
  have "bpf_struct_ops_valid_to_reg (st_maps s new_map) \<longleftrightarrow> valid"
    unfolding bpf_struct_ops_valid_to_reg_def BPF_MAP_TYPE_STRUCT_OPS_def BPF_F_LINK_def c_true_and_bit assms(1) ..
  then show ?thesis
    using assms(2) by (auto simp: bpf_struct_ops_map_link_update_def Let_def split: option.splits)
qed

theorem struct_ops_link_update_correct_witness:
  "bpf_struct_ops_map_link_update
     \<lparr>st_maps = (\<lambda>_. sample_st_map), descs = (\<lambda>_. \<lparr>st_ops = \<lparr>has_update = True, cfi_stubs = (\<lambda>_. 0)\<rparr>, vt_size = 0\<rparr>)\<rparr>
     (Some 1) 2 (Some 1) = 0"
proof -
  have "bit (push_bit 13 1 :: u32) 13" by (simp only: bit_push_bit_iff) simp
  then show ?thesis
    using struct_ops_link_update_correct [of True "\<lparr>st_maps = (\<lambda>_. sample_st_map),
        descs = (\<lambda>_. \<lparr>st_ops = \<lparr>has_update = True, cfi_stubs = (\<lambda>_. 0)\<rparr>, vt_size = 0\<rparr>)\<rparr>" 2 True "Some 1" "Some 1"]
    by (simp add: sample_st_map_def)
qed

text \<open>The accounting of a map's memory is exact: no term of the sum wraps around.\<close>

lemma struct_ops_mem_usage_exact:
  "unat (bpf_struct_ops_map_mem_usage s mp) =
     160 + 2 * unat (vt_size (descs s (st_ops_desc (st_maps s mp)))) + 16 * unat (funcs_cnt (st_maps s mp)) + 4096"
  (is "unat ?u = ?n")
proof -
  have "?u = of_nat ?n"
    by (simp add: bpf_struct_ops_map_mem_usage_def Let_def sizeof_st_map_def sizeof_st_value_def PAGE_SIZE_def)
  moreover have "?n < 2 ^ 64"
    using unat_u32_less [of "vt_size (descs s (st_ops_desc (st_maps s mp)))"]
      unat_u32_less [of "funcs_cnt (st_maps s mp)"] by simp
  ultimately show ?thesis by (simp only: unat_of_nat_u64)
qed

end
