(* ===== verification/Helper_Protos.thy ===== *)
theory Helper_Protos
  imports Bpf_Prelude
begin

text \<open>
  The data of \<^verbatim>\<open>shims/kernel/bpf/helpers.c\<close>: type flags, argument and return types with
  C's implicit numbering, the helper numbers, and the prototype objects.  Fields of
  \<^verbatim>\<open>struct bpf_func_proto\<close> that no initialiser sets (\<^verbatim>\<open>func\<close>, \<^verbatim>\<open>allow_fastcall\<close>) are left out.
\<close>

section \<open>Type flags, argument and return types\<close>

definition BPF_BASE_TYPE_MASK :: u32 where "BPF_BASE_TYPE_MASK = push_bit 8 1 - 1"
definition PTR_MAYBE_NULL :: u32 where "PTR_MAYBE_NULL = push_bit 8 1"
definition MEM_RDONLY :: u32 where "MEM_RDONLY = push_bit 9 1"
definition MEM_UNINIT :: u32 where "MEM_UNINIT = push_bit 15 1"
definition MEM_WRITE :: u32 where "MEM_WRITE = push_bit 26 1"
definition MEM_ALIGNED :: u32 where "MEM_ALIGNED = push_bit 25 1"
definition OBJ_RELEASE :: u32 where "OBJ_RELEASE = push_bit 13 1"
definition ARG_DONTCARE :: u32 where "ARG_DONTCARE = 0"
definition ARG_CONST_MAP_PTR :: u32 where "ARG_CONST_MAP_PTR = ARG_DONTCARE + 1"
definition ARG_PTR_TO_MAP_KEY :: u32 where "ARG_PTR_TO_MAP_KEY = ARG_CONST_MAP_PTR + 1"
definition ARG_PTR_TO_MAP_VALUE :: u32 where "ARG_PTR_TO_MAP_VALUE = ARG_PTR_TO_MAP_KEY + 1"
definition ARG_PTR_TO_MEM :: u32 where "ARG_PTR_TO_MEM = ARG_PTR_TO_MAP_VALUE + 1"
definition ARG_PTR_TO_CTX :: u32 where "ARG_PTR_TO_CTX = ARG_PTR_TO_MEM + 1"
definition ARG_ANYTHING :: u32 where "ARG_ANYTHING = ARG_PTR_TO_CTX + 1"
definition ARG_PTR_TO_SPIN_LOCK :: u32 where "ARG_PTR_TO_SPIN_LOCK = ARG_ANYTHING + 1"
definition ARG_CONST_SIZE :: u32 where "ARG_CONST_SIZE = ARG_PTR_TO_SPIN_LOCK + 1"
definition ARG_CONST_SIZE_OR_ZERO :: u32 where "ARG_CONST_SIZE_OR_ZERO = ARG_CONST_SIZE + 1"
definition ARG_PTR_TO_FIXED_SIZE_MEM :: u32 where "ARG_PTR_TO_FIXED_SIZE_MEM = ARG_CONST_SIZE_OR_ZERO + 1"
definition ARG_PTR_TO_CONST_STR :: u32 where "ARG_PTR_TO_CONST_STR = ARG_PTR_TO_FIXED_SIZE_MEM + 1"
definition ARG_PTR_TO_UNINIT_MEM :: u32 where "ARG_PTR_TO_UNINIT_MEM = MEM_UNINIT OR MEM_WRITE OR ARG_PTR_TO_MEM"
definition ARG_PTR_TO_MEM_OR_NULL :: u32 where "ARG_PTR_TO_MEM_OR_NULL = PTR_MAYBE_NULL OR ARG_PTR_TO_MEM"
definition ARG_PTR_TO_PERCPU_BTF_ID :: u32 where "ARG_PTR_TO_PERCPU_BTF_ID = ARG_PTR_TO_MEM_OR_NULL + 1"
definition ARG_PTR_TO_BTF_ID :: u32 where "ARG_PTR_TO_BTF_ID = ARG_PTR_TO_PERCPU_BTF_ID + 1"
definition ARG_PTR_TO_BTF_ID_OR_NULL :: u32 where "ARG_PTR_TO_BTF_ID_OR_NULL = PTR_MAYBE_NULL OR ARG_PTR_TO_BTF_ID"
definition ARG_PTR_TO_DYNPTR :: u32 where "ARG_PTR_TO_DYNPTR = ARG_PTR_TO_BTF_ID_OR_NULL + 1"
definition ARG_PTR_TO_TIMER :: u32 where "ARG_PTR_TO_TIMER = ARG_PTR_TO_DYNPTR + 1"
definition ARG_PTR_TO_FUNC :: u32 where "ARG_PTR_TO_FUNC = ARG_PTR_TO_TIMER + 1"
definition ARG_CONST_ALLOC_SIZE_OR_ZERO :: u32 where "ARG_CONST_ALLOC_SIZE_OR_ZERO = ARG_PTR_TO_FUNC + 1"
definition ARG_KPTR_XCHG_DEST :: u32 where "ARG_KPTR_XCHG_DEST = ARG_CONST_ALLOC_SIZE_OR_ZERO + 1"
definition RET_INTEGER :: u32 where "RET_INTEGER = 0"
definition RET_VOID :: u32 where "RET_VOID = RET_INTEGER + 1"
definition RET_PTR_TO_MAP_VALUE_OR_NULL :: u32 where "RET_PTR_TO_MAP_VALUE_OR_NULL = RET_VOID + 1"
definition RET_PTR_TO_MEM_OR_BTF_ID :: u32 where "RET_PTR_TO_MEM_OR_BTF_ID = RET_PTR_TO_MAP_VALUE_OR_NULL + 1"
definition RET_PTR_TO_BTF_ID_OR_NULL :: u32 where "RET_PTR_TO_BTF_ID_OR_NULL = RET_PTR_TO_MEM_OR_BTF_ID + 1"
definition RET_PTR_TO_DYNPTR_MEM_OR_NULL :: u32 where "RET_PTR_TO_DYNPTR_MEM_OR_NULL = RET_PTR_TO_BTF_ID_OR_NULL + 1"

lemmas arg_defs = BPF_BASE_TYPE_MASK_def PTR_MAYBE_NULL_def MEM_RDONLY_def MEM_UNINIT_def MEM_WRITE_def MEM_ALIGNED_def OBJ_RELEASE_def ARG_DONTCARE_def ARG_CONST_MAP_PTR_def ARG_PTR_TO_MAP_KEY_def ARG_PTR_TO_MAP_VALUE_def ARG_PTR_TO_MEM_def ARG_PTR_TO_CTX_def ARG_ANYTHING_def ARG_PTR_TO_SPIN_LOCK_def ARG_CONST_SIZE_def ARG_CONST_SIZE_OR_ZERO_def ARG_PTR_TO_FIXED_SIZE_MEM_def ARG_PTR_TO_CONST_STR_def ARG_PTR_TO_UNINIT_MEM_def ARG_PTR_TO_MEM_OR_NULL_def ARG_PTR_TO_PERCPU_BTF_ID_def ARG_PTR_TO_BTF_ID_def ARG_PTR_TO_BTF_ID_OR_NULL_def ARG_PTR_TO_DYNPTR_def ARG_PTR_TO_TIMER_def ARG_PTR_TO_FUNC_def ARG_CONST_ALLOC_SIZE_OR_ZERO_def ARG_KPTR_XCHG_DEST_def RET_INTEGER_def RET_VOID_def RET_PTR_TO_MAP_VALUE_OR_NULL_def RET_PTR_TO_MEM_OR_BTF_ID_def RET_PTR_TO_BTF_ID_OR_NULL_def RET_PTR_TO_DYNPTR_MEM_OR_NULL_def

section \<open>Helper numbers\<close>

definition BPF_FUNC_unspec :: nat where "BPF_FUNC_unspec = 0"
definition BPF_FUNC_map_lookup_elem :: nat where "BPF_FUNC_map_lookup_elem = 1"
definition BPF_FUNC_map_update_elem :: nat where "BPF_FUNC_map_update_elem = 2"
definition BPF_FUNC_map_delete_elem :: nat where "BPF_FUNC_map_delete_elem = 3"
definition BPF_FUNC_ktime_get_ns :: nat where "BPF_FUNC_ktime_get_ns = 5"
definition BPF_FUNC_trace_printk :: nat where "BPF_FUNC_trace_printk = 6"
definition BPF_FUNC_get_prandom_u32 :: nat where "BPF_FUNC_get_prandom_u32 = 7"
definition BPF_FUNC_get_smp_processor_id :: nat where "BPF_FUNC_get_smp_processor_id = 8"
definition BPF_FUNC_tail_call :: nat where "BPF_FUNC_tail_call = 12"
definition BPF_FUNC_get_current_pid_tgid :: nat where "BPF_FUNC_get_current_pid_tgid = 14"
definition BPF_FUNC_get_current_uid_gid :: nat where "BPF_FUNC_get_current_uid_gid = 15"
definition BPF_FUNC_get_current_comm :: nat where "BPF_FUNC_get_current_comm = 16"
definition BPF_FUNC_perf_event_read :: nat where "BPF_FUNC_perf_event_read = 22"
definition BPF_FUNC_get_current_task :: nat where "BPF_FUNC_get_current_task = 35"
definition BPF_FUNC_get_numa_node_id :: nat where "BPF_FUNC_get_numa_node_id = 42"
definition BPF_FUNC_current_task_under_cgroup :: nat where "BPF_FUNC_current_task_under_cgroup = 37"
definition BPF_FUNC_map_push_elem :: nat where "BPF_FUNC_map_push_elem = 87"
definition BPF_FUNC_map_pop_elem :: nat where "BPF_FUNC_map_pop_elem = 88"
definition BPF_FUNC_map_peek_elem :: nat where "BPF_FUNC_map_peek_elem = 89"
definition BPF_FUNC_spin_lock :: nat where "BPF_FUNC_spin_lock = 93"
definition BPF_FUNC_spin_unlock :: nat where "BPF_FUNC_spin_unlock = 94"
definition BPF_FUNC_strtol :: nat where "BPF_FUNC_strtol = 105"
definition BPF_FUNC_strtoul :: nat where "BPF_FUNC_strtoul = 106"
definition BPF_FUNC_send_signal :: nat where "BPF_FUNC_send_signal = 109"
definition BPF_FUNC_probe_read_user :: nat where "BPF_FUNC_probe_read_user = 112"
definition BPF_FUNC_probe_read_kernel :: nat where "BPF_FUNC_probe_read_kernel = 113"
definition BPF_FUNC_probe_read_user_str :: nat where "BPF_FUNC_probe_read_user_str = 114"
definition BPF_FUNC_probe_read_kernel_str :: nat where "BPF_FUNC_probe_read_kernel_str = 115"
definition BPF_FUNC_send_signal_thread :: nat where "BPF_FUNC_send_signal_thread = 117"
definition BPF_FUNC_jiffies64 :: nat where "BPF_FUNC_jiffies64 = 118"
definition BPF_FUNC_get_ns_current_pid_tgid :: nat where "BPF_FUNC_get_ns_current_pid_tgid = 120"
definition BPF_FUNC_get_current_ancestor_cgroup_id :: nat where "BPF_FUNC_get_current_ancestor_cgroup_id = 123"
definition BPF_FUNC_ktime_get_boot_ns :: nat where "BPF_FUNC_ktime_get_boot_ns = 125"
definition BPF_FUNC_ringbuf_output :: nat where "BPF_FUNC_ringbuf_output = 130"
definition BPF_FUNC_ringbuf_reserve :: nat where "BPF_FUNC_ringbuf_reserve = 131"
definition BPF_FUNC_ringbuf_submit :: nat where "BPF_FUNC_ringbuf_submit = 132"
definition BPF_FUNC_ringbuf_discard :: nat where "BPF_FUNC_ringbuf_discard = 133"
definition BPF_FUNC_ringbuf_query :: nat where "BPF_FUNC_ringbuf_query = 134"
definition BPF_FUNC_get_task_stack :: nat where "BPF_FUNC_get_task_stack = 141"
definition BPF_FUNC_copy_from_user :: nat where "BPF_FUNC_copy_from_user = 148"
definition BPF_FUNC_snprintf_btf :: nat where "BPF_FUNC_snprintf_btf = 149"
definition BPF_FUNC_per_cpu_ptr :: nat where "BPF_FUNC_per_cpu_ptr = 153"
definition BPF_FUNC_this_cpu_ptr :: nat where "BPF_FUNC_this_cpu_ptr = 154"
definition BPF_FUNC_task_storage_get :: nat where "BPF_FUNC_task_storage_get = 156"
definition BPF_FUNC_task_storage_delete :: nat where "BPF_FUNC_task_storage_delete = 157"
definition BPF_FUNC_get_current_task_btf :: nat where "BPF_FUNC_get_current_task_btf = 158"
definition BPF_FUNC_get_current_cgroup_id :: nat where "BPF_FUNC_get_current_cgroup_id = 80"
definition BPF_FUNC_for_each_map_elem :: nat where "BPF_FUNC_for_each_map_elem = 164"
definition BPF_FUNC_snprintf :: nat where "BPF_FUNC_snprintf = 165"
definition BPF_FUNC_timer_init :: nat where "BPF_FUNC_timer_init = 169"
definition BPF_FUNC_timer_set_callback :: nat where "BPF_FUNC_timer_set_callback = 170"
definition BPF_FUNC_timer_start :: nat where "BPF_FUNC_timer_start = 171"
definition BPF_FUNC_timer_cancel :: nat where "BPF_FUNC_timer_cancel = 172"
definition BPF_FUNC_task_pt_regs :: nat where "BPF_FUNC_task_pt_regs = 175"
definition BPF_FUNC_get_branch_snapshot :: nat where "BPF_FUNC_get_branch_snapshot = 176"
definition BPF_FUNC_trace_vprintk :: nat where "BPF_FUNC_trace_vprintk = 177"
definition BPF_FUNC_find_vma :: nat where "BPF_FUNC_find_vma = 180"
definition BPF_FUNC_loop :: nat where "BPF_FUNC_loop = 181"
definition BPF_FUNC_strncmp :: nat where "BPF_FUNC_strncmp = 182"
definition BPF_FUNC_copy_from_user_task :: nat where "BPF_FUNC_copy_from_user_task = 191"
definition BPF_FUNC_kptr_xchg :: nat where "BPF_FUNC_kptr_xchg = 194"
definition BPF_FUNC_map_lookup_percpu_elem :: nat where "BPF_FUNC_map_lookup_percpu_elem = 195"
definition BPF_FUNC_dynptr_from_mem :: nat where "BPF_FUNC_dynptr_from_mem = 197"
definition BPF_FUNC_ringbuf_reserve_dynptr :: nat where "BPF_FUNC_ringbuf_reserve_dynptr = 198"
definition BPF_FUNC_ringbuf_submit_dynptr :: nat where "BPF_FUNC_ringbuf_submit_dynptr = 199"
definition BPF_FUNC_ringbuf_discard_dynptr :: nat where "BPF_FUNC_ringbuf_discard_dynptr = 200"
definition BPF_FUNC_dynptr_read :: nat where "BPF_FUNC_dynptr_read = 201"
definition BPF_FUNC_dynptr_write :: nat where "BPF_FUNC_dynptr_write = 202"
definition BPF_FUNC_dynptr_data :: nat where "BPF_FUNC_dynptr_data = 203"
definition BPF_FUNC_ktime_get_tai_ns :: nat where "BPF_FUNC_ktime_get_tai_ns = 208"
definition BPF_FUNC_user_ringbuf_drain :: nat where "BPF_FUNC_user_ringbuf_drain = 209"
definition BPF_FUNC_cgrp_storage_get :: nat where "BPF_FUNC_cgrp_storage_get = 210"
definition BPF_FUNC_cgrp_storage_delete :: nat where "BPF_FUNC_cgrp_storage_delete = 211"

lemmas func_id_defs = BPF_FUNC_unspec_def BPF_FUNC_map_lookup_elem_def BPF_FUNC_map_update_elem_def BPF_FUNC_map_delete_elem_def BPF_FUNC_ktime_get_ns_def BPF_FUNC_trace_printk_def BPF_FUNC_get_prandom_u32_def BPF_FUNC_get_smp_processor_id_def BPF_FUNC_tail_call_def BPF_FUNC_get_current_pid_tgid_def BPF_FUNC_get_current_uid_gid_def BPF_FUNC_get_current_comm_def BPF_FUNC_perf_event_read_def BPF_FUNC_get_current_task_def BPF_FUNC_get_numa_node_id_def BPF_FUNC_current_task_under_cgroup_def BPF_FUNC_map_push_elem_def BPF_FUNC_map_pop_elem_def BPF_FUNC_map_peek_elem_def BPF_FUNC_spin_lock_def BPF_FUNC_spin_unlock_def BPF_FUNC_strtol_def BPF_FUNC_strtoul_def BPF_FUNC_send_signal_def BPF_FUNC_probe_read_user_def BPF_FUNC_probe_read_kernel_def BPF_FUNC_probe_read_user_str_def BPF_FUNC_probe_read_kernel_str_def BPF_FUNC_send_signal_thread_def BPF_FUNC_jiffies64_def BPF_FUNC_get_ns_current_pid_tgid_def BPF_FUNC_get_current_ancestor_cgroup_id_def BPF_FUNC_ktime_get_boot_ns_def BPF_FUNC_ringbuf_output_def BPF_FUNC_ringbuf_reserve_def BPF_FUNC_ringbuf_submit_def BPF_FUNC_ringbuf_discard_def BPF_FUNC_ringbuf_query_def BPF_FUNC_get_task_stack_def BPF_FUNC_copy_from_user_def BPF_FUNC_snprintf_btf_def BPF_FUNC_per_cpu_ptr_def BPF_FUNC_this_cpu_ptr_def BPF_FUNC_task_storage_get_def BPF_FUNC_task_storage_delete_def BPF_FUNC_get_current_task_btf_def BPF_FUNC_get_current_cgroup_id_def BPF_FUNC_for_each_map_elem_def BPF_FUNC_snprintf_def BPF_FUNC_timer_init_def BPF_FUNC_timer_set_callback_def BPF_FUNC_timer_start_def BPF_FUNC_timer_cancel_def BPF_FUNC_task_pt_regs_def BPF_FUNC_get_branch_snapshot_def BPF_FUNC_trace_vprintk_def BPF_FUNC_find_vma_def BPF_FUNC_loop_def BPF_FUNC_strncmp_def BPF_FUNC_copy_from_user_task_def BPF_FUNC_kptr_xchg_def BPF_FUNC_map_lookup_percpu_elem_def BPF_FUNC_dynptr_from_mem_def BPF_FUNC_ringbuf_reserve_dynptr_def BPF_FUNC_ringbuf_submit_dynptr_def BPF_FUNC_ringbuf_discard_dynptr_def BPF_FUNC_dynptr_read_def BPF_FUNC_dynptr_write_def BPF_FUNC_dynptr_data_def BPF_FUNC_ktime_get_tai_ns_def BPF_FUNC_user_ringbuf_drain_def BPF_FUNC_cgrp_storage_get_def BPF_FUNC_cgrp_storage_delete_def

text \<open>The enumerators with their names.\<close>

definition bpf_func_id_names :: "(string \<times> nat) list" where
  "bpf_func_id_names =
    [(''unspec'', BPF_FUNC_unspec),
     (''map_lookup_elem'', BPF_FUNC_map_lookup_elem),
     (''map_update_elem'', BPF_FUNC_map_update_elem),
     (''map_delete_elem'', BPF_FUNC_map_delete_elem),
     (''ktime_get_ns'', BPF_FUNC_ktime_get_ns),
     (''trace_printk'', BPF_FUNC_trace_printk),
     (''get_prandom_u32'', BPF_FUNC_get_prandom_u32),
     (''get_smp_processor_id'', BPF_FUNC_get_smp_processor_id),
     (''tail_call'', BPF_FUNC_tail_call),
     (''get_current_pid_tgid'', BPF_FUNC_get_current_pid_tgid),
     (''get_current_uid_gid'', BPF_FUNC_get_current_uid_gid),
     (''get_current_comm'', BPF_FUNC_get_current_comm),
     (''perf_event_read'', BPF_FUNC_perf_event_read),
     (''get_current_task'', BPF_FUNC_get_current_task),
     (''get_numa_node_id'', BPF_FUNC_get_numa_node_id),
     (''current_task_under_cgroup'', BPF_FUNC_current_task_under_cgroup),
     (''map_push_elem'', BPF_FUNC_map_push_elem),
     (''map_pop_elem'', BPF_FUNC_map_pop_elem),
     (''map_peek_elem'', BPF_FUNC_map_peek_elem),
     (''spin_lock'', BPF_FUNC_spin_lock),
     (''spin_unlock'', BPF_FUNC_spin_unlock),
     (''strtol'', BPF_FUNC_strtol),
     (''strtoul'', BPF_FUNC_strtoul),
     (''send_signal'', BPF_FUNC_send_signal),
     (''probe_read_user'', BPF_FUNC_probe_read_user),
     (''probe_read_kernel'', BPF_FUNC_probe_read_kernel),
     (''probe_read_user_str'', BPF_FUNC_probe_read_user_str),
     (''probe_read_kernel_str'', BPF_FUNC_probe_read_kernel_str),
     (''send_signal_thread'', BPF_FUNC_send_signal_thread),
     (''jiffies64'', BPF_FUNC_jiffies64),
     (''get_ns_current_pid_tgid'', BPF_FUNC_get_ns_current_pid_tgid),
     (''get_current_ancestor_cgroup_id'', BPF_FUNC_get_current_ancestor_cgroup_id),
     (''ktime_get_boot_ns'', BPF_FUNC_ktime_get_boot_ns),
     (''ringbuf_output'', BPF_FUNC_ringbuf_output),
     (''ringbuf_reserve'', BPF_FUNC_ringbuf_reserve),
     (''ringbuf_submit'', BPF_FUNC_ringbuf_submit),
     (''ringbuf_discard'', BPF_FUNC_ringbuf_discard),
     (''ringbuf_query'', BPF_FUNC_ringbuf_query),
     (''get_task_stack'', BPF_FUNC_get_task_stack),
     (''copy_from_user'', BPF_FUNC_copy_from_user),
     (''snprintf_btf'', BPF_FUNC_snprintf_btf),
     (''per_cpu_ptr'', BPF_FUNC_per_cpu_ptr),
     (''this_cpu_ptr'', BPF_FUNC_this_cpu_ptr),
     (''task_storage_get'', BPF_FUNC_task_storage_get),
     (''task_storage_delete'', BPF_FUNC_task_storage_delete),
     (''get_current_task_btf'', BPF_FUNC_get_current_task_btf),
     (''get_current_cgroup_id'', BPF_FUNC_get_current_cgroup_id),
     (''for_each_map_elem'', BPF_FUNC_for_each_map_elem),
     (''snprintf'', BPF_FUNC_snprintf),
     (''timer_init'', BPF_FUNC_timer_init),
     (''timer_set_callback'', BPF_FUNC_timer_set_callback),
     (''timer_start'', BPF_FUNC_timer_start),
     (''timer_cancel'', BPF_FUNC_timer_cancel),
     (''task_pt_regs'', BPF_FUNC_task_pt_regs),
     (''get_branch_snapshot'', BPF_FUNC_get_branch_snapshot),
     (''trace_vprintk'', BPF_FUNC_trace_vprintk),
     (''find_vma'', BPF_FUNC_find_vma),
     (''loop'', BPF_FUNC_loop),
     (''strncmp'', BPF_FUNC_strncmp),
     (''copy_from_user_task'', BPF_FUNC_copy_from_user_task),
     (''kptr_xchg'', BPF_FUNC_kptr_xchg),
     (''map_lookup_percpu_elem'', BPF_FUNC_map_lookup_percpu_elem),
     (''dynptr_from_mem'', BPF_FUNC_dynptr_from_mem),
     (''ringbuf_reserve_dynptr'', BPF_FUNC_ringbuf_reserve_dynptr),
     (''ringbuf_submit_dynptr'', BPF_FUNC_ringbuf_submit_dynptr),
     (''ringbuf_discard_dynptr'', BPF_FUNC_ringbuf_discard_dynptr),
     (''dynptr_read'', BPF_FUNC_dynptr_read),
     (''dynptr_write'', BPF_FUNC_dynptr_write),
     (''dynptr_data'', BPF_FUNC_dynptr_data),
     (''ktime_get_tai_ns'', BPF_FUNC_ktime_get_tai_ns),
     (''user_ringbuf_drain'', BPF_FUNC_user_ringbuf_drain),
     (''cgrp_storage_get'', BPF_FUNC_cgrp_storage_get),
     (''cgrp_storage_delete'', BPF_FUNC_cgrp_storage_delete)]"

section \<open>Prototypes\<close>

record bpf_func_proto =
  gpl_only :: bool
  pkt_access :: bool
  might_sleep :: bool
  ret_type :: u32
  arg_types :: "u32 list" \<comment> \<open>\<^verbatim>\<open>arg1_type\<close> to \<^verbatim>\<open>arg5_type\<close>\<close>
  arg4_size :: u32
  arg4_btf_id :: bool \<comment> \<open>whether the pointer is set\<close>

text \<open>An initialiser leaves the fields it does not name zero.\<close>

definition no_proto :: bpf_func_proto where
  "no_proto = \<lparr>gpl_only = False, pkt_access = False, might_sleep = False, ret_type = 0,
     arg_types = [ARG_DONTCARE, ARG_DONTCARE, ARG_DONTCARE, ARG_DONTCARE, ARG_DONTCARE], arg4_size = 0, arg4_btf_id = False\<rparr>"

definition bpf_map_lookup_elem_proto :: bpf_func_proto where
  "bpf_map_lookup_elem_proto = no_proto\<lparr>gpl_only := False,
     pkt_access := True,
     ret_type := RET_PTR_TO_MAP_VALUE_OR_NULL,
     arg_types := [ARG_CONST_MAP_PTR, ARG_PTR_TO_MAP_KEY, ARG_DONTCARE, ARG_DONTCARE, ARG_DONTCARE]\<rparr>"

definition bpf_map_update_elem_proto :: bpf_func_proto where
  "bpf_map_update_elem_proto = no_proto\<lparr>gpl_only := False,
     pkt_access := True,
     ret_type := RET_INTEGER,
     arg_types := [ARG_CONST_MAP_PTR, ARG_PTR_TO_MAP_KEY, ARG_PTR_TO_MAP_VALUE, ARG_ANYTHING, ARG_DONTCARE]\<rparr>"

definition bpf_map_delete_elem_proto :: bpf_func_proto where
  "bpf_map_delete_elem_proto = no_proto\<lparr>gpl_only := False,
     pkt_access := True,
     ret_type := RET_INTEGER,
     arg_types := [ARG_CONST_MAP_PTR, ARG_PTR_TO_MAP_KEY, ARG_DONTCARE, ARG_DONTCARE, ARG_DONTCARE]\<rparr>"

definition bpf_map_push_elem_proto :: bpf_func_proto where
  "bpf_map_push_elem_proto = no_proto\<lparr>gpl_only := False,
     pkt_access := True,
     ret_type := RET_INTEGER,
     arg_types := [ARG_CONST_MAP_PTR, ARG_PTR_TO_MAP_VALUE, ARG_ANYTHING, ARG_DONTCARE, ARG_DONTCARE]\<rparr>"

definition bpf_map_pop_elem_proto :: bpf_func_proto where
  "bpf_map_pop_elem_proto = no_proto\<lparr>gpl_only := False,
     ret_type := RET_INTEGER,
     arg_types := [ARG_CONST_MAP_PTR, ARG_PTR_TO_MAP_VALUE OR MEM_UNINIT OR MEM_WRITE, ARG_DONTCARE, ARG_DONTCARE, ARG_DONTCARE]\<rparr>"

definition bpf_map_peek_elem_proto :: bpf_func_proto where
  "bpf_map_peek_elem_proto = no_proto\<lparr>gpl_only := False,
     ret_type := RET_INTEGER,
     arg_types := [ARG_CONST_MAP_PTR, ARG_PTR_TO_MAP_VALUE OR MEM_UNINIT OR MEM_WRITE, ARG_DONTCARE, ARG_DONTCARE, ARG_DONTCARE]\<rparr>"

definition bpf_map_lookup_percpu_elem_proto :: bpf_func_proto where
  "bpf_map_lookup_percpu_elem_proto = no_proto\<lparr>gpl_only := False,
     pkt_access := True,
     ret_type := RET_PTR_TO_MAP_VALUE_OR_NULL,
     arg_types := [ARG_CONST_MAP_PTR, ARG_PTR_TO_MAP_KEY, ARG_ANYTHING, ARG_DONTCARE, ARG_DONTCARE]\<rparr>"

definition bpf_get_prandom_u32_proto :: bpf_func_proto where
  "bpf_get_prandom_u32_proto = no_proto\<lparr>gpl_only := False,
     ret_type := RET_INTEGER\<rparr>"

definition bpf_get_raw_smp_processor_id_proto :: bpf_func_proto where
  "bpf_get_raw_smp_processor_id_proto = no_proto\<lparr>gpl_only := False,
     ret_type := RET_INTEGER\<rparr>"

definition bpf_get_numa_node_id_proto :: bpf_func_proto where
  "bpf_get_numa_node_id_proto = no_proto\<lparr>gpl_only := False,
     ret_type := RET_INTEGER\<rparr>"

definition bpf_ktime_get_ns_proto :: bpf_func_proto where
  "bpf_ktime_get_ns_proto = no_proto\<lparr>gpl_only := False,
     ret_type := RET_INTEGER\<rparr>"

definition bpf_ktime_get_boot_ns_proto :: bpf_func_proto where
  "bpf_ktime_get_boot_ns_proto = no_proto\<lparr>gpl_only := False,
     ret_type := RET_INTEGER\<rparr>"

definition bpf_ktime_get_tai_ns_proto :: bpf_func_proto where
  "bpf_ktime_get_tai_ns_proto = no_proto\<lparr>gpl_only := False,
     ret_type := RET_INTEGER\<rparr>"

definition bpf_get_current_pid_tgid_proto :: bpf_func_proto where
  "bpf_get_current_pid_tgid_proto = no_proto\<lparr>gpl_only := False,
     ret_type := RET_INTEGER\<rparr>"

definition bpf_get_current_uid_gid_proto :: bpf_func_proto where
  "bpf_get_current_uid_gid_proto = no_proto\<lparr>gpl_only := False,
     ret_type := RET_INTEGER\<rparr>"

definition bpf_get_current_comm_proto :: bpf_func_proto where
  "bpf_get_current_comm_proto = no_proto\<lparr>gpl_only := False,
     ret_type := RET_INTEGER,
     arg_types := [ARG_PTR_TO_UNINIT_MEM, ARG_CONST_SIZE, ARG_DONTCARE, ARG_DONTCARE, ARG_DONTCARE]\<rparr>"

definition bpf_spin_lock_proto :: bpf_func_proto where
  "bpf_spin_lock_proto = no_proto\<lparr>gpl_only := False,
     ret_type := RET_VOID,
     arg_types := [ARG_PTR_TO_SPIN_LOCK, ARG_DONTCARE, ARG_DONTCARE, ARG_DONTCARE, ARG_DONTCARE]\<rparr>"

definition bpf_spin_unlock_proto :: bpf_func_proto where
  "bpf_spin_unlock_proto = no_proto\<lparr>gpl_only := False,
     ret_type := RET_VOID,
     arg_types := [ARG_PTR_TO_SPIN_LOCK, ARG_DONTCARE, ARG_DONTCARE, ARG_DONTCARE, ARG_DONTCARE]\<rparr>"

definition bpf_jiffies64_proto :: bpf_func_proto where
  "bpf_jiffies64_proto = no_proto\<lparr>gpl_only := False,
     ret_type := RET_INTEGER\<rparr>"

definition bpf_get_current_cgroup_id_proto :: bpf_func_proto where
  "bpf_get_current_cgroup_id_proto = no_proto\<lparr>gpl_only := False,
     ret_type := RET_INTEGER\<rparr>"

definition bpf_get_current_ancestor_cgroup_id_proto :: bpf_func_proto where
  "bpf_get_current_ancestor_cgroup_id_proto = no_proto\<lparr>gpl_only := False,
     ret_type := RET_INTEGER,
     arg_types := [ARG_ANYTHING, ARG_DONTCARE, ARG_DONTCARE, ARG_DONTCARE, ARG_DONTCARE]\<rparr>"

definition bpf_strtol_proto :: bpf_func_proto where
  "bpf_strtol_proto = no_proto\<lparr>gpl_only := False,
     ret_type := RET_INTEGER,
     arg_types := [ARG_PTR_TO_MEM OR MEM_RDONLY, ARG_CONST_SIZE, ARG_ANYTHING, ARG_PTR_TO_FIXED_SIZE_MEM OR MEM_UNINIT OR MEM_WRITE OR MEM_ALIGNED, ARG_DONTCARE],
     arg4_size := 8\<rparr>"

definition bpf_strtoul_proto :: bpf_func_proto where
  "bpf_strtoul_proto = no_proto\<lparr>gpl_only := False,
     ret_type := RET_INTEGER,
     arg_types := [ARG_PTR_TO_MEM OR MEM_RDONLY, ARG_CONST_SIZE, ARG_ANYTHING, ARG_PTR_TO_FIXED_SIZE_MEM OR MEM_UNINIT OR MEM_WRITE OR MEM_ALIGNED, ARG_DONTCARE],
     arg4_size := 8\<rparr>"

definition bpf_strncmp_proto :: bpf_func_proto where
  "bpf_strncmp_proto = no_proto\<lparr>gpl_only := False,
     ret_type := RET_INTEGER,
     arg_types := [ARG_PTR_TO_MEM OR MEM_RDONLY, ARG_CONST_SIZE, ARG_PTR_TO_CONST_STR, ARG_DONTCARE, ARG_DONTCARE]\<rparr>"

definition bpf_get_ns_current_pid_tgid_proto :: bpf_func_proto where
  "bpf_get_ns_current_pid_tgid_proto = no_proto\<lparr>gpl_only := False,
     ret_type := RET_INTEGER,
     arg_types := [ARG_ANYTHING, ARG_ANYTHING, ARG_PTR_TO_UNINIT_MEM, ARG_CONST_SIZE, ARG_DONTCARE]\<rparr>"

definition bpf_event_output_data_proto :: bpf_func_proto where
  "bpf_event_output_data_proto = no_proto\<lparr>gpl_only := True,
     ret_type := RET_INTEGER,
     arg_types := [ARG_PTR_TO_CTX, ARG_CONST_MAP_PTR, ARG_ANYTHING, ARG_PTR_TO_MEM OR MEM_RDONLY, ARG_CONST_SIZE_OR_ZERO]\<rparr>"

definition bpf_copy_from_user_proto :: bpf_func_proto where
  "bpf_copy_from_user_proto = no_proto\<lparr>gpl_only := False,
     might_sleep := True,
     ret_type := RET_INTEGER,
     arg_types := [ARG_PTR_TO_UNINIT_MEM, ARG_CONST_SIZE_OR_ZERO, ARG_ANYTHING, ARG_DONTCARE, ARG_DONTCARE]\<rparr>"

definition bpf_copy_from_user_task_proto :: bpf_func_proto where
  "bpf_copy_from_user_task_proto = no_proto\<lparr>gpl_only := True,
     might_sleep := True,
     ret_type := RET_INTEGER,
     arg_types := [ARG_PTR_TO_UNINIT_MEM, ARG_CONST_SIZE_OR_ZERO, ARG_ANYTHING, ARG_PTR_TO_BTF_ID, ARG_ANYTHING],
     arg4_btf_id := True\<rparr>"

definition bpf_per_cpu_ptr_proto :: bpf_func_proto where
  "bpf_per_cpu_ptr_proto = no_proto\<lparr>gpl_only := False,
     ret_type := RET_PTR_TO_MEM_OR_BTF_ID OR PTR_MAYBE_NULL OR MEM_RDONLY,
     arg_types := [ARG_PTR_TO_PERCPU_BTF_ID, ARG_ANYTHING, ARG_DONTCARE, ARG_DONTCARE, ARG_DONTCARE]\<rparr>"

definition bpf_this_cpu_ptr_proto :: bpf_func_proto where
  "bpf_this_cpu_ptr_proto = no_proto\<lparr>gpl_only := False,
     ret_type := RET_PTR_TO_MEM_OR_BTF_ID OR MEM_RDONLY,
     arg_types := [ARG_PTR_TO_PERCPU_BTF_ID, ARG_DONTCARE, ARG_DONTCARE, ARG_DONTCARE, ARG_DONTCARE]\<rparr>"

definition bpf_snprintf_proto :: bpf_func_proto where
  "bpf_snprintf_proto = no_proto\<lparr>gpl_only := True,
     ret_type := RET_INTEGER,
     arg_types := [ARG_PTR_TO_MEM_OR_NULL OR MEM_WRITE, ARG_CONST_SIZE_OR_ZERO, ARG_PTR_TO_CONST_STR, ARG_PTR_TO_MEM OR PTR_MAYBE_NULL OR MEM_RDONLY, ARG_CONST_SIZE_OR_ZERO]\<rparr>"

definition bpf_tail_call_proto :: bpf_func_proto where "bpf_tail_call_proto = no_proto\<lparr>ret_type := RET_VOID\<rparr>"
definition bpf_ringbuf_output_proto :: bpf_func_proto where "bpf_ringbuf_output_proto = no_proto\<lparr>ret_type := RET_INTEGER\<rparr>"
definition bpf_ringbuf_reserve_proto :: bpf_func_proto where "bpf_ringbuf_reserve_proto = no_proto\<lparr>ret_type := RET_INTEGER\<rparr>"
definition bpf_ringbuf_submit_proto :: bpf_func_proto where "bpf_ringbuf_submit_proto = no_proto\<lparr>ret_type := RET_INTEGER\<rparr>"
definition bpf_ringbuf_discard_proto :: bpf_func_proto where "bpf_ringbuf_discard_proto = no_proto\<lparr>ret_type := RET_INTEGER\<rparr>"
definition bpf_ringbuf_query_proto :: bpf_func_proto where "bpf_ringbuf_query_proto = no_proto\<lparr>ret_type := RET_INTEGER\<rparr>"
definition bpf_timer_init_proto :: bpf_func_proto where "bpf_timer_init_proto = no_proto\<lparr>ret_type := RET_INTEGER\<rparr>"
definition bpf_timer_set_callback_proto :: bpf_func_proto where "bpf_timer_set_callback_proto = no_proto\<lparr>ret_type := RET_INTEGER\<rparr>"
definition bpf_timer_start_proto :: bpf_func_proto where "bpf_timer_start_proto = no_proto\<lparr>ret_type := RET_INTEGER\<rparr>"
definition bpf_timer_cancel_proto :: bpf_func_proto where "bpf_timer_cancel_proto = no_proto\<lparr>ret_type := RET_INTEGER\<rparr>"
definition bpf_for_each_map_elem_proto :: bpf_func_proto where "bpf_for_each_map_elem_proto = no_proto\<lparr>ret_type := RET_INTEGER\<rparr>"
definition bpf_loop_proto :: bpf_func_proto where "bpf_loop_proto = no_proto\<lparr>ret_type := RET_INTEGER\<rparr>"
definition bpf_user_ringbuf_drain_proto :: bpf_func_proto where "bpf_user_ringbuf_drain_proto = no_proto\<lparr>ret_type := RET_INTEGER\<rparr>"
definition bpf_ringbuf_reserve_dynptr_proto :: bpf_func_proto where "bpf_ringbuf_reserve_dynptr_proto = no_proto\<lparr>ret_type := RET_INTEGER\<rparr>"
definition bpf_ringbuf_submit_dynptr_proto :: bpf_func_proto where "bpf_ringbuf_submit_dynptr_proto = no_proto\<lparr>ret_type := RET_INTEGER\<rparr>"
definition bpf_ringbuf_discard_dynptr_proto :: bpf_func_proto where "bpf_ringbuf_discard_dynptr_proto = no_proto\<lparr>ret_type := RET_INTEGER\<rparr>"
definition bpf_dynptr_from_mem_proto :: bpf_func_proto where "bpf_dynptr_from_mem_proto = no_proto\<lparr>ret_type := RET_INTEGER\<rparr>"
definition bpf_dynptr_read_proto :: bpf_func_proto where "bpf_dynptr_read_proto = no_proto\<lparr>ret_type := RET_INTEGER\<rparr>"
definition bpf_dynptr_write_proto :: bpf_func_proto where "bpf_dynptr_write_proto = no_proto\<lparr>ret_type := RET_INTEGER\<rparr>"
definition bpf_dynptr_data_proto :: bpf_func_proto where "bpf_dynptr_data_proto = no_proto\<lparr>ret_type := RET_INTEGER\<rparr>"
definition bpf_cgrp_storage_get_proto :: bpf_func_proto where "bpf_cgrp_storage_get_proto = no_proto\<lparr>ret_type := RET_INTEGER\<rparr>"
definition bpf_cgrp_storage_delete_proto :: bpf_func_proto where "bpf_cgrp_storage_delete_proto = no_proto\<lparr>ret_type := RET_INTEGER\<rparr>"
definition bpf_current_task_under_cgroup_proto :: bpf_func_proto where "bpf_current_task_under_cgroup_proto = no_proto\<lparr>ret_type := RET_INTEGER\<rparr>"
definition bpf_task_storage_get_proto :: bpf_func_proto where "bpf_task_storage_get_proto = no_proto\<lparr>ret_type := RET_INTEGER\<rparr>"
definition bpf_task_storage_delete_proto :: bpf_func_proto where "bpf_task_storage_delete_proto = no_proto\<lparr>ret_type := RET_INTEGER\<rparr>"
definition bpf_get_current_task_proto :: bpf_func_proto where "bpf_get_current_task_proto = no_proto\<lparr>ret_type := RET_INTEGER\<rparr>"
definition bpf_get_current_task_btf_proto :: bpf_func_proto where "bpf_get_current_task_btf_proto = no_proto\<lparr>ret_type := RET_INTEGER\<rparr>"
definition bpf_probe_read_user_proto :: bpf_func_proto where "bpf_probe_read_user_proto = no_proto\<lparr>ret_type := RET_INTEGER\<rparr>"
definition bpf_probe_read_user_str_proto :: bpf_func_proto where "bpf_probe_read_user_str_proto = no_proto\<lparr>ret_type := RET_INTEGER\<rparr>"
definition bpf_probe_read_kernel_proto :: bpf_func_proto where "bpf_probe_read_kernel_proto = no_proto\<lparr>ret_type := RET_INTEGER\<rparr>"
definition bpf_probe_read_kernel_str_proto :: bpf_func_proto where "bpf_probe_read_kernel_str_proto = no_proto\<lparr>ret_type := RET_INTEGER\<rparr>"
definition bpf_task_pt_regs_proto :: bpf_func_proto where "bpf_task_pt_regs_proto = no_proto\<lparr>ret_type := RET_INTEGER\<rparr>"
definition bpf_perf_event_read_proto :: bpf_func_proto where "bpf_perf_event_read_proto = no_proto\<lparr>ret_type := RET_INTEGER\<rparr>"
definition bpf_send_signal_proto :: bpf_func_proto where "bpf_send_signal_proto = no_proto\<lparr>ret_type := RET_INTEGER\<rparr>"
definition bpf_send_signal_thread_proto :: bpf_func_proto where "bpf_send_signal_thread_proto = no_proto\<lparr>ret_type := RET_INTEGER\<rparr>"
definition bpf_get_task_stack_sleepable_proto :: bpf_func_proto where "bpf_get_task_stack_sleepable_proto = no_proto\<lparr>ret_type := RET_INTEGER\<rparr>"
definition bpf_get_task_stack_proto :: bpf_func_proto where "bpf_get_task_stack_proto = no_proto\<lparr>ret_type := RET_INTEGER\<rparr>"
definition bpf_get_branch_snapshot_proto :: bpf_func_proto where "bpf_get_branch_snapshot_proto = no_proto\<lparr>ret_type := RET_INTEGER\<rparr>"
definition bpf_snprintf_btf_proto :: bpf_func_proto where "bpf_snprintf_btf_proto = no_proto\<lparr>ret_type := RET_INTEGER\<rparr>"
definition bpf_find_vma_proto :: bpf_func_proto where "bpf_find_vma_proto = no_proto\<lparr>ret_type := RET_INTEGER\<rparr>"
definition bpf_kptr_xchg_proto :: bpf_func_proto where
  "bpf_kptr_xchg_proto = no_proto\<lparr>ret_type := RET_PTR_TO_BTF_ID_OR_NULL,
     arg_types := [ARG_KPTR_XCHG_DEST, ARG_PTR_TO_BTF_ID_OR_NULL OR OBJ_RELEASE, ARG_DONTCARE, ARG_DONTCARE, ARG_DONTCARE]\<rparr>"


text \<open>The prototypes as the objects their pointers point to: a pointer is the name of the object.\<close>

type_synonym proto_ptr = string

definition proto_objects :: "(proto_ptr \<times> bpf_func_proto) list" where
  "proto_objects =
    [(''bpf_map_lookup_elem_proto'', bpf_map_lookup_elem_proto),
     (''bpf_map_update_elem_proto'', bpf_map_update_elem_proto),
     (''bpf_map_delete_elem_proto'', bpf_map_delete_elem_proto),
     (''bpf_map_push_elem_proto'', bpf_map_push_elem_proto),
     (''bpf_map_pop_elem_proto'', bpf_map_pop_elem_proto),
     (''bpf_map_peek_elem_proto'', bpf_map_peek_elem_proto),
     (''bpf_map_lookup_percpu_elem_proto'', bpf_map_lookup_percpu_elem_proto),
     (''bpf_get_prandom_u32_proto'', bpf_get_prandom_u32_proto),
     (''bpf_get_raw_smp_processor_id_proto'', bpf_get_raw_smp_processor_id_proto),
     (''bpf_get_numa_node_id_proto'', bpf_get_numa_node_id_proto),
     (''bpf_ktime_get_ns_proto'', bpf_ktime_get_ns_proto),
     (''bpf_ktime_get_boot_ns_proto'', bpf_ktime_get_boot_ns_proto),
     (''bpf_ktime_get_tai_ns_proto'', bpf_ktime_get_tai_ns_proto),
     (''bpf_get_current_pid_tgid_proto'', bpf_get_current_pid_tgid_proto),
     (''bpf_get_current_uid_gid_proto'', bpf_get_current_uid_gid_proto),
     (''bpf_get_current_comm_proto'', bpf_get_current_comm_proto),
     (''bpf_spin_lock_proto'', bpf_spin_lock_proto),
     (''bpf_spin_unlock_proto'', bpf_spin_unlock_proto),
     (''bpf_jiffies64_proto'', bpf_jiffies64_proto),
     (''bpf_get_current_cgroup_id_proto'', bpf_get_current_cgroup_id_proto),
     (''bpf_get_current_ancestor_cgroup_id_proto'', bpf_get_current_ancestor_cgroup_id_proto),
     (''bpf_strtol_proto'', bpf_strtol_proto),
     (''bpf_strtoul_proto'', bpf_strtoul_proto),
     (''bpf_strncmp_proto'', bpf_strncmp_proto),
     (''bpf_get_ns_current_pid_tgid_proto'', bpf_get_ns_current_pid_tgid_proto),
     (''bpf_event_output_data_proto'', bpf_event_output_data_proto),
     (''bpf_copy_from_user_proto'', bpf_copy_from_user_proto),
     (''bpf_copy_from_user_task_proto'', bpf_copy_from_user_task_proto),
     (''bpf_per_cpu_ptr_proto'', bpf_per_cpu_ptr_proto),
     (''bpf_this_cpu_ptr_proto'', bpf_this_cpu_ptr_proto),
     (''bpf_snprintf_proto'', bpf_snprintf_proto),
     (''bpf_tail_call_proto'', bpf_tail_call_proto),
     (''bpf_ringbuf_output_proto'', bpf_ringbuf_output_proto),
     (''bpf_ringbuf_reserve_proto'', bpf_ringbuf_reserve_proto),
     (''bpf_ringbuf_submit_proto'', bpf_ringbuf_submit_proto),
     (''bpf_ringbuf_discard_proto'', bpf_ringbuf_discard_proto),
     (''bpf_ringbuf_query_proto'', bpf_ringbuf_query_proto),
     (''bpf_timer_init_proto'', bpf_timer_init_proto),
     (''bpf_timer_set_callback_proto'', bpf_timer_set_callback_proto),
     (''bpf_timer_start_proto'', bpf_timer_start_proto),
     (''bpf_timer_cancel_proto'', bpf_timer_cancel_proto),
     (''bpf_for_each_map_elem_proto'', bpf_for_each_map_elem_proto),
     (''bpf_loop_proto'', bpf_loop_proto),
     (''bpf_user_ringbuf_drain_proto'', bpf_user_ringbuf_drain_proto),
     (''bpf_ringbuf_reserve_dynptr_proto'', bpf_ringbuf_reserve_dynptr_proto),
     (''bpf_ringbuf_submit_dynptr_proto'', bpf_ringbuf_submit_dynptr_proto),
     (''bpf_ringbuf_discard_dynptr_proto'', bpf_ringbuf_discard_dynptr_proto),
     (''bpf_dynptr_from_mem_proto'', bpf_dynptr_from_mem_proto),
     (''bpf_dynptr_read_proto'', bpf_dynptr_read_proto),
     (''bpf_dynptr_write_proto'', bpf_dynptr_write_proto),
     (''bpf_dynptr_data_proto'', bpf_dynptr_data_proto),
     (''bpf_cgrp_storage_get_proto'', bpf_cgrp_storage_get_proto),
     (''bpf_cgrp_storage_delete_proto'', bpf_cgrp_storage_delete_proto),
     (''bpf_current_task_under_cgroup_proto'', bpf_current_task_under_cgroup_proto),
     (''bpf_task_storage_get_proto'', bpf_task_storage_get_proto),
     (''bpf_task_storage_delete_proto'', bpf_task_storage_delete_proto),
     (''bpf_get_current_task_proto'', bpf_get_current_task_proto),
     (''bpf_get_current_task_btf_proto'', bpf_get_current_task_btf_proto),
     (''bpf_probe_read_user_proto'', bpf_probe_read_user_proto),
     (''bpf_probe_read_user_str_proto'', bpf_probe_read_user_str_proto),
     (''bpf_probe_read_kernel_proto'', bpf_probe_read_kernel_proto),
     (''bpf_probe_read_kernel_str_proto'', bpf_probe_read_kernel_str_proto),
     (''bpf_task_pt_regs_proto'', bpf_task_pt_regs_proto),
     (''bpf_perf_event_read_proto'', bpf_perf_event_read_proto),
     (''bpf_send_signal_proto'', bpf_send_signal_proto),
     (''bpf_send_signal_thread_proto'', bpf_send_signal_thread_proto),
     (''bpf_get_task_stack_sleepable_proto'', bpf_get_task_stack_sleepable_proto),
     (''bpf_get_task_stack_proto'', bpf_get_task_stack_proto),
     (''bpf_get_branch_snapshot_proto'', bpf_get_branch_snapshot_proto),
     (''bpf_snprintf_btf_proto'', bpf_snprintf_btf_proto),
     (''bpf_find_vma_proto'', bpf_find_vma_proto),
     (''bpf_kptr_xchg_proto'', bpf_kptr_xchg_proto)]"

lemmas proto_defs = no_proto_def bpf_map_lookup_elem_proto_def bpf_map_update_elem_proto_def bpf_map_delete_elem_proto_def bpf_map_push_elem_proto_def bpf_map_pop_elem_proto_def bpf_map_peek_elem_proto_def bpf_map_lookup_percpu_elem_proto_def bpf_get_prandom_u32_proto_def bpf_get_raw_smp_processor_id_proto_def bpf_get_numa_node_id_proto_def bpf_ktime_get_ns_proto_def bpf_ktime_get_boot_ns_proto_def bpf_ktime_get_tai_ns_proto_def bpf_get_current_pid_tgid_proto_def bpf_get_current_uid_gid_proto_def bpf_get_current_comm_proto_def bpf_spin_lock_proto_def bpf_spin_unlock_proto_def bpf_jiffies64_proto_def bpf_get_current_cgroup_id_proto_def bpf_get_current_ancestor_cgroup_id_proto_def bpf_strtol_proto_def bpf_strtoul_proto_def bpf_strncmp_proto_def bpf_get_ns_current_pid_tgid_proto_def bpf_event_output_data_proto_def bpf_copy_from_user_proto_def bpf_copy_from_user_task_proto_def bpf_per_cpu_ptr_proto_def bpf_this_cpu_ptr_proto_def bpf_snprintf_proto_def bpf_tail_call_proto_def bpf_ringbuf_output_proto_def bpf_ringbuf_reserve_proto_def bpf_ringbuf_submit_proto_def bpf_ringbuf_discard_proto_def bpf_ringbuf_query_proto_def bpf_timer_init_proto_def bpf_timer_set_callback_proto_def bpf_timer_start_proto_def bpf_timer_cancel_proto_def bpf_for_each_map_elem_proto_def bpf_loop_proto_def bpf_user_ringbuf_drain_proto_def bpf_ringbuf_reserve_dynptr_proto_def bpf_ringbuf_submit_dynptr_proto_def bpf_ringbuf_discard_dynptr_proto_def bpf_dynptr_from_mem_proto_def bpf_dynptr_read_proto_def bpf_dynptr_write_proto_def bpf_dynptr_data_proto_def bpf_cgrp_storage_get_proto_def bpf_cgrp_storage_delete_proto_def bpf_current_task_under_cgroup_proto_def bpf_task_storage_get_proto_def bpf_task_storage_delete_proto_def bpf_get_current_task_proto_def bpf_get_current_task_btf_proto_def bpf_probe_read_user_proto_def bpf_probe_read_user_str_proto_def bpf_probe_read_kernel_proto_def bpf_probe_read_kernel_str_proto_def bpf_task_pt_regs_proto_def bpf_perf_event_read_proto_def bpf_send_signal_proto_def bpf_send_signal_thread_proto_def bpf_get_task_stack_sleepable_proto_def bpf_get_task_stack_proto_def bpf_get_branch_snapshot_proto_def bpf_snprintf_btf_proto_def bpf_find_vma_proto_def bpf_kptr_xchg_proto_def

end
