(* ===== verification/Helpers.thy ===== *)
theory Helpers
  imports Disasm Helper_Protos Byte_Buf "HOL-Library.Signed_Division"
begin

text \<open>
  The functions of \<^verbatim>\<open>shims/kernel/bpf/helpers.c\<close>: the helper bodies that dispatch to a map's
  operations or check their arguments, and \<^verbatim>\<open>bpf_base_func_proto\<close>, which decides by the
  capabilities of a program's token which helper prototypes the program may use.

  A map's operation table is a record of functions on a state; a prototype pointer is the name
  of the object (see \<^verbatim>\<open>Helper_Protos\<close>), \<^verbatim>\<open>NULL\<close> is \<open>None\<close>; a \<^verbatim>\<open>switch\<close> whose cases all return is
  the list of its cases.
\<close>

section \<open>Programs and tokens\<close>

definition CAP_PERFMON :: nat where "CAP_PERFMON = 38"
definition CAP_BPF :: nat where "CAP_BPF = 39"
definition LOCKDOWN_BPF_READ_KERNEL :: int where "LOCKDOWN_BPF_READ_KERNEL = 0"
definition HELPERS_TEST_NR_CPUS :: u32 where "HELPERS_TEST_NR_CPUS = 4"
definition BPF_F_INDEX_MASK :: u64 where "BPF_F_INDEX_MASK = 0xffffffff"

record bpf_prog =
  prog_token :: "u64 option" \<comment> \<open>\<^verbatim>\<open>aux->token\<close>: the capability word, or NULL\<close>
  prog_sleepable :: bool

definition bpf_token_capable :: "u64 option \<Rightarrow> nat \<Rightarrow> bool" where
  "bpf_token_capable token cap = (case token of None \<Rightarrow> False | Some caps \<Rightarrow> c_true (caps AND push_bit cap 1))"

definition security_locked_down :: "int \<Rightarrow> cint" where
  "security_locked_down what = 0"

section \<open>Helper bodies\<close>

text \<open>The operations of a map: lookups return a pointer, the others a \<^verbatim>\<open>long\<close>.\<close>

record 's map_ops =
  op_lookup :: "u64 \<Rightarrow> 's \<Rightarrow> u64 \<times> 's"
  op_update :: "u64 \<Rightarrow> u64 \<Rightarrow> u64 \<Rightarrow> 's \<Rightarrow> u64 \<times> 's"
  op_delete :: "u64 \<Rightarrow> 's \<Rightarrow> u64 \<times> 's"
  op_push :: "u64 \<Rightarrow> u64 \<Rightarrow> 's \<Rightarrow> u64 \<times> 's"
  op_pop :: "u64 \<Rightarrow> 's \<Rightarrow> u64 \<times> 's"
  op_peek :: "u64 \<Rightarrow> 's \<Rightarrow> u64 \<times> 's"
  op_lookup_percpu :: "u64 \<Rightarrow> u32 \<Rightarrow> 's \<Rightarrow> u64 \<times> 's"

definition helpers_map_lookup_elem :: "'s map_ops \<Rightarrow> u64 \<Rightarrow> 's \<Rightarrow> u64 \<times> 's" where
  "helpers_map_lookup_elem ops key s = op_lookup ops key s"

definition helpers_map_update_elem :: "'s map_ops \<Rightarrow> u64 \<Rightarrow> u64 \<Rightarrow> u64 \<Rightarrow> 's \<Rightarrow> u64 \<times> 's" where
  "helpers_map_update_elem ops key val uflags s = op_update ops key val uflags s"

definition helpers_map_delete_elem :: "'s map_ops \<Rightarrow> u64 \<Rightarrow> 's \<Rightarrow> u64 \<times> 's" where
  "helpers_map_delete_elem ops key s = op_delete ops key s"

definition helpers_map_push_elem :: "'s map_ops \<Rightarrow> u64 \<Rightarrow> u64 \<Rightarrow> 's \<Rightarrow> u64 \<times> 's" where
  "helpers_map_push_elem ops val uflags s = op_push ops val uflags s"

definition helpers_map_pop_elem :: "'s map_ops \<Rightarrow> u64 \<Rightarrow> 's \<Rightarrow> u64 \<times> 's" where
  "helpers_map_pop_elem ops val s = op_pop ops val s"

definition helpers_map_peek_elem :: "'s map_ops \<Rightarrow> u64 \<Rightarrow> 's \<Rightarrow> u64 \<times> 's" where
  "helpers_map_peek_elem ops val s = op_peek ops val s"

definition helpers_map_lookup_percpu_elem :: "'s map_ops \<Rightarrow> u64 \<Rightarrow> u32 \<Rightarrow> 's \<Rightarrow> u64 \<times> 's" where
  "helpers_map_lookup_percpu_elem ops key cpu s = op_lookup_percpu ops key cpu s"

text \<open>Negative results are returned in an unsigned 64-bit word.\<close>

definition bpf_event_output :: "u64 \<Rightarrow> cint" where
  "bpf_event_output uflags = 0"

definition bpf_event_output_data :: "u64 \<Rightarrow> u64" where
  "bpf_event_output_data uflags =
     (if c_true (uflags AND NOT BPF_F_INDEX_MASK) then word_of_int (- EINVAL)
      else word_of_int (bpf_event_output uflags))"

definition access_process_vm :: "cint \<Rightarrow> cint" where
  "access_process_vm len = (if len = 3 then 1 else len)"

text \<open>The loop of this \<^verbatim>\<open>memset\<close> runs at most 32 times.\<close>

definition memset :: "u8 list \<Rightarrow> u8 \<Rightarrow> nat \<Rightarrow> u8 list" where
  "memset dst c n = fold (\<lambda>i d. if i \<ge> n then d else d[i := c]) [0..<32] dst"

definition bpf_copy_from_user_task :: "u8 list \<Rightarrow> u32 \<Rightarrow> u64 \<Rightarrow> u64 \<times> u8 list" where
  "bpf_copy_from_user_task dst sz uflags =
     (if uflags \<noteq> 0 then (word_of_int (- EINVAL), dst)
      else if sz = 0 then (0, dst)
      else let ret = access_process_vm (sint sz)
           in if word_of_int ret = sz then (0, dst)
              else let dst = memset dst 0 (unat sz)
                   in (word_of_int (if ret < 0 then ret else - EFAULT), dst))"

definition per_cpu_ptr :: "u64 \<Rightarrow> u32 \<Rightarrow> u64" where
  "per_cpu_ptr ptr cpu = ptr"

definition bpf_per_cpu_ptr :: "u64 \<Rightarrow> u32 \<Rightarrow> u64" where
  "bpf_per_cpu_ptr ptr cpu = (if cpu \<ge> HELPERS_TEST_NR_CPUS then 0 else per_cpu_ptr ptr cpu)"

definition bpf_this_cpu_ptr :: "u64 \<Rightarrow> u64" where
  "bpf_this_cpu_ptr percpu_ptr = percpu_ptr"

text \<open>
  The key of a map value: for an array the index, stored through \<^verbatim>\<open>arr_idx\<close> (here the
  \<open>Inl\<close> result), otherwise a pointer before the value (\<open>Inr\<close>).  The pointer difference and
  its quotient are signed.
\<close>

record key_map =
  km_is_array :: bool \<comment> \<open>\<^verbatim>\<open>map_type == BPF_MAP_TYPE_ARRAY\<close>\<close>
  km_key_size :: u32
  km_elem_size :: u32 \<comment> \<open>of the array that contains the map\<close>
  km_value :: u64

definition map_key_from_value :: "key_map \<Rightarrow> u64 \<Rightarrow> u32 + u64" where
  "map_key_from_value mp val =
     (if km_is_array mp
      then Inl (word_of_int (sint (val - km_value mp) sdiv int (unat (km_elem_size mp))))
      else Inr (val - ucast (round_up (km_key_size mp) 8)))"

section \<open>Base helpers\<close>

definition bpf_get_trace_printk_proto :: proto_ptr where
  "bpf_get_trace_printk_proto = ''bpf_probe_read_user_proto''"

definition bpf_get_trace_vprintk_proto :: proto_ptr where
  "bpf_get_trace_vprintk_proto = ''bpf_probe_read_user_str_proto''"

definition bpf_get_perf_event_read_value_proto :: proto_ptr where
  "bpf_get_perf_event_read_value_proto = ''bpf_perf_event_read_proto''"

definition base_switch :: "(nat \<times> proto_ptr option) list" where
  "base_switch =
    [(BPF_FUNC_map_lookup_elem, Some ''bpf_map_lookup_elem_proto''),
     (BPF_FUNC_map_update_elem, Some ''bpf_map_update_elem_proto''),
     (BPF_FUNC_map_delete_elem, Some ''bpf_map_delete_elem_proto''),
     (BPF_FUNC_map_push_elem, Some ''bpf_map_push_elem_proto''),
     (BPF_FUNC_map_pop_elem, Some ''bpf_map_pop_elem_proto''),
     (BPF_FUNC_map_peek_elem, Some ''bpf_map_peek_elem_proto''),
     (BPF_FUNC_map_lookup_percpu_elem, Some ''bpf_map_lookup_percpu_elem_proto''),
     (BPF_FUNC_get_prandom_u32, Some ''bpf_get_prandom_u32_proto''),
     (BPF_FUNC_get_smp_processor_id, Some ''bpf_get_raw_smp_processor_id_proto''),
     (BPF_FUNC_get_numa_node_id, Some ''bpf_get_numa_node_id_proto''),
     (BPF_FUNC_tail_call, Some ''bpf_tail_call_proto''),
     (BPF_FUNC_ktime_get_ns, Some ''bpf_ktime_get_ns_proto''),
     (BPF_FUNC_ktime_get_boot_ns, Some ''bpf_ktime_get_boot_ns_proto''),
     (BPF_FUNC_ktime_get_tai_ns, Some ''bpf_ktime_get_tai_ns_proto''),
     (BPF_FUNC_ringbuf_output, Some ''bpf_ringbuf_output_proto''),
     (BPF_FUNC_ringbuf_reserve, Some ''bpf_ringbuf_reserve_proto''),
     (BPF_FUNC_ringbuf_submit, Some ''bpf_ringbuf_submit_proto''),
     (BPF_FUNC_ringbuf_discard, Some ''bpf_ringbuf_discard_proto''),
     (BPF_FUNC_ringbuf_query, Some ''bpf_ringbuf_query_proto''),
     (BPF_FUNC_strncmp, Some ''bpf_strncmp_proto''),
     (BPF_FUNC_strtol, Some ''bpf_strtol_proto''),
     (BPF_FUNC_strtoul, Some ''bpf_strtoul_proto''),
     (BPF_FUNC_get_current_pid_tgid, Some ''bpf_get_current_pid_tgid_proto''),
     (BPF_FUNC_get_ns_current_pid_tgid, Some ''bpf_get_ns_current_pid_tgid_proto''),
     (BPF_FUNC_get_current_uid_gid, Some ''bpf_get_current_uid_gid_proto'')]"

definition bpf_switch :: "(nat \<times> proto_ptr option) list" where
  "bpf_switch =
    [(BPF_FUNC_spin_lock, Some ''bpf_spin_lock_proto''),
     (BPF_FUNC_spin_unlock, Some ''bpf_spin_unlock_proto''),
     (BPF_FUNC_jiffies64, Some ''bpf_jiffies64_proto''),
     (BPF_FUNC_per_cpu_ptr, Some ''bpf_per_cpu_ptr_proto''),
     (BPF_FUNC_this_cpu_ptr, Some ''bpf_this_cpu_ptr_proto''),
     (BPF_FUNC_timer_init, Some ''bpf_timer_init_proto''),
     (BPF_FUNC_timer_set_callback, Some ''bpf_timer_set_callback_proto''),
     (BPF_FUNC_timer_start, Some ''bpf_timer_start_proto''),
     (BPF_FUNC_timer_cancel, Some ''bpf_timer_cancel_proto''),
     (BPF_FUNC_kptr_xchg, Some ''bpf_kptr_xchg_proto''),
     (BPF_FUNC_for_each_map_elem, Some ''bpf_for_each_map_elem_proto''),
     (BPF_FUNC_loop, Some ''bpf_loop_proto''),
     (BPF_FUNC_user_ringbuf_drain, Some ''bpf_user_ringbuf_drain_proto''),
     (BPF_FUNC_ringbuf_reserve_dynptr, Some ''bpf_ringbuf_reserve_dynptr_proto''),
     (BPF_FUNC_ringbuf_submit_dynptr, Some ''bpf_ringbuf_submit_dynptr_proto''),
     (BPF_FUNC_ringbuf_discard_dynptr, Some ''bpf_ringbuf_discard_dynptr_proto''),
     (BPF_FUNC_dynptr_from_mem, Some ''bpf_dynptr_from_mem_proto''),
     (BPF_FUNC_dynptr_read, Some ''bpf_dynptr_read_proto''),
     (BPF_FUNC_dynptr_write, Some ''bpf_dynptr_write_proto''),
     (BPF_FUNC_dynptr_data, Some ''bpf_dynptr_data_proto''),
     (BPF_FUNC_cgrp_storage_get, Some ''bpf_cgrp_storage_get_proto''),
     (BPF_FUNC_cgrp_storage_delete, Some ''bpf_cgrp_storage_delete_proto''),
     (BPF_FUNC_get_current_cgroup_id, Some ''bpf_get_current_cgroup_id_proto''),
     (BPF_FUNC_get_current_ancestor_cgroup_id, Some ''bpf_get_current_ancestor_cgroup_id_proto''),
     (BPF_FUNC_current_task_under_cgroup, Some ''bpf_current_task_under_cgroup_proto''),
     (BPF_FUNC_task_storage_get, Some ''bpf_task_storage_get_proto''),
     (BPF_FUNC_task_storage_delete, Some ''bpf_task_storage_delete_proto'')]"

definition perfmon_switch :: "bpf_prog \<Rightarrow> (nat \<times> proto_ptr option) list" where
  "perfmon_switch prog =
    [(BPF_FUNC_trace_printk, Some bpf_get_trace_printk_proto),
     (BPF_FUNC_get_current_task, Some ''bpf_get_current_task_proto''),
     (BPF_FUNC_get_current_task_btf, Some ''bpf_get_current_task_btf_proto''),
     (BPF_FUNC_get_current_comm, Some ''bpf_get_current_comm_proto''),
     (BPF_FUNC_probe_read_user, Some ''bpf_probe_read_user_proto''),
     (BPF_FUNC_probe_read_kernel, (if security_locked_down LOCKDOWN_BPF_READ_KERNEL < 0 then None else Some ''bpf_probe_read_kernel_proto'')),
     (BPF_FUNC_probe_read_user_str, Some ''bpf_probe_read_user_str_proto''),
     (BPF_FUNC_probe_read_kernel_str, (if security_locked_down LOCKDOWN_BPF_READ_KERNEL < 0 then None else Some ''bpf_probe_read_kernel_str_proto'')),
     (BPF_FUNC_copy_from_user, Some ''bpf_copy_from_user_proto''),
     (BPF_FUNC_copy_from_user_task, Some ''bpf_copy_from_user_task_proto''),
     (BPF_FUNC_snprintf_btf, Some ''bpf_snprintf_btf_proto''),
     (BPF_FUNC_snprintf, Some ''bpf_snprintf_proto''),
     (BPF_FUNC_task_pt_regs, Some ''bpf_task_pt_regs_proto''),
     (BPF_FUNC_trace_vprintk, Some bpf_get_trace_vprintk_proto),
     (BPF_FUNC_perf_event_read, Some ''bpf_perf_event_read_proto''),
     (BPF_FUNC_send_signal, Some ''bpf_send_signal_proto''),
     (BPF_FUNC_send_signal_thread, Some ''bpf_send_signal_thread_proto''),
     (BPF_FUNC_get_task_stack, Some (if prog_sleepable prog then ''bpf_get_task_stack_sleepable_proto'' else ''bpf_get_task_stack_proto'')),
     (BPF_FUNC_get_branch_snapshot, Some ''bpf_get_branch_snapshot_proto''),
     (BPF_FUNC_find_vma, Some ''bpf_find_vma_proto'')]"

definition bpf_base_func_proto :: "nat \<Rightarrow> bpf_prog \<Rightarrow> proto_ptr option" where
  "bpf_base_func_proto func_id prog =
     (case map_of base_switch func_id of
        Some p \<Rightarrow> p
      | None \<Rightarrow>
          if \<not> bpf_token_capable (prog_token prog) CAP_BPF then None
          else case map_of bpf_switch func_id of
            Some p \<Rightarrow> p
          | None \<Rightarrow>
              if \<not> bpf_token_capable (prog_token prog) CAP_PERFMON then None
              else case map_of (perfmon_switch prog) func_id of
                Some p \<Rightarrow> p
              | None \<Rightarrow> None)"

section \<open>Properties of the tables\<close>

lemma switches_distinct:
  "distinct (map fst (base_switch @ bpf_switch @ perfmon_switch prog))"
  by (simp add: base_switch_def bpf_switch_def perfmon_switch_def func_id_defs)

definition resolves :: "(bpf_func_proto \<Rightarrow> bool) \<Rightarrow> (nat \<times> proto_ptr option) list \<Rightarrow> bool" where
  "resolves P sw = list_all (\<lambda>(f, p). case p of None \<Rightarrow> False
     | Some n \<Rightarrow> (case map_of proto_objects n of None \<Rightarrow> False | Some pr \<Rightarrow> P pr)) sw"

lemma switches_resolve:
  "resolves (\<lambda>pr. \<not> gpl_only pr \<and> \<not> might_sleep pr) base_switch"
  "resolves (\<lambda>pr. \<not> gpl_only pr \<and> \<not> might_sleep pr \<and> \<not> pkt_access pr) bpf_switch"
  by code_simp+

lemma perfmon_switch_cong:
  "prog_sleepable prog = prog_sleepable prog' \<Longrightarrow> perfmon_switch prog = perfmon_switch prog'"
  by (simp add: perfmon_switch_def)

lemma perfmon_resolve: "resolves (\<lambda>pr. \<not> pkt_access pr) (perfmon_switch prog)"
proof -
  have "list_all (\<lambda>s. resolves (\<lambda>pr. \<not> pkt_access pr) (perfmon_switch \<lparr>prog_token = None, prog_sleepable = s\<rparr>)) [True, False]"
    by code_simp
  moreover have "perfmon_switch prog = perfmon_switch \<lparr>prog_token = None, prog_sleepable = prog_sleepable prog\<rparr>"
    by (rule perfmon_switch_cong) simp
  ultimately show ?thesis by (cases "prog_sleepable prog") simp_all
qed

lemma resolvesD:
  assumes "resolves P sw" and "map_of sw f = Some p"
  obtains n pr where "p = Some n" and "map_of proto_objects n = Some pr" and "P pr"
proof -
  from assms(2) have "(f, p) \<in> set sw" by (rule map_of_SomeD)
  with assms(1) that show thesis by (force simp: resolves_def list_all_iff split: option.splits)
qed

lemma token_capable_bit: "bpf_token_capable (Some caps) c \<longleftrightarrow> bit caps c"
  unfolding bpf_token_capable_def option.case c_true_and_bit ..

text \<open>The three ways to get a prototype.\<close>

lemma base_func_proto_cases:
  assumes "bpf_base_func_proto f prog = Some p"
  obtains "map_of base_switch f = Some (Some p)"
    | "map_of base_switch f = None" "map_of bpf_switch f = Some (Some p)" "bpf_token_capable (prog_token prog) CAP_BPF"
    | "map_of base_switch f = None" "map_of bpf_switch f = None" "map_of (perfmon_switch prog) f = Some (Some p)"
      "bpf_token_capable (prog_token prog) CAP_BPF" "bpf_token_capable (prog_token prog) CAP_PERFMON"
  using assms by (auto simp: bpf_base_func_proto_def split: option.splits if_splits)

section \<open>Properties\<close>

text \<open>C28: Capabilities.  Whatever helper a program gets has a prototype; a program with more
  capabilities gets the same prototype for it; helpers restricted to GPL programs and helpers that
  may sleep are given only to programs with both capabilities, while helpers usable on packet data
  are given to every program.\<close>

theorem base_func_proto_gated:
  assumes "bpf_base_func_proto f prog = Some p"
  shows "\<exists>pr. map_of proto_objects p = Some pr \<and>
    (\<forall>prog'. prog_sleepable prog' = prog_sleepable prog \<and>
       (\<forall>c. bpf_token_capable (prog_token prog) c \<longrightarrow> bpf_token_capable (prog_token prog') c) \<longrightarrow>
       bpf_base_func_proto f prog' = Some p) \<and>
    (gpl_only pr \<or> might_sleep pr \<longrightarrow>
       bpf_token_capable (prog_token prog) CAP_BPF \<and> bpf_token_capable (prog_token prog) CAP_PERFMON) \<and>
    (pkt_access pr \<longrightarrow> (\<forall>prog'. bpf_base_func_proto f prog' = Some p))"
  using assms
proof (cases rule: base_func_proto_cases)
  case 1
  obtain pr where "map_of proto_objects p = Some pr" "\<not> gpl_only pr \<and> \<not> might_sleep pr"
    using resolvesD [OF switches_resolve(1) 1] by blast
  moreover have "bpf_base_func_proto f prog' = Some p" for prog' using 1 by (simp add: bpf_base_func_proto_def)
  ultimately show ?thesis by blast
next
  case 2
  obtain pr where "map_of proto_objects p = Some pr" "\<not> gpl_only pr \<and> \<not> might_sleep pr \<and> \<not> pkt_access pr"
    using resolvesD [OF switches_resolve(2) 2(2)] by blast
  moreover have "bpf_base_func_proto f prog' = Some p" if "bpf_token_capable (prog_token prog') CAP_BPF" for prog'
    using 2 that by (simp add: bpf_base_func_proto_def)
  ultimately show ?thesis using 2(3) by blast
next
  case 3
  obtain pr where "map_of proto_objects p = Some pr" "\<not> pkt_access pr"
    using resolvesD [OF perfmon_resolve 3(3)] by blast
  moreover have "bpf_base_func_proto f prog' = Some p"
    if "prog_sleepable prog' = prog_sleepable prog" "bpf_token_capable (prog_token prog') CAP_BPF"
      "bpf_token_capable (prog_token prog') CAP_PERFMON" for prog'
    using 3 that perfmon_switch_cong [OF that(1)] by (simp add: bpf_base_func_proto_def)
  ultimately show ?thesis using 3(4,5) by blast
qed

theorem base_func_proto_gated_witness:
  "bpf_base_func_proto 93 \<lparr>prog_token = Some (push_bit 39 1), prog_sleepable = False\<rparr> = Some ''bpf_spin_lock_proto'' \<and>
   bpf_base_func_proto 93 \<lparr>prog_token = Some (- 1), prog_sleepable = False\<rparr> = Some ''bpf_spin_lock_proto''"
proof -
  let ?p = "\<lparr>prog_token = Some (push_bit 39 1), prog_sleepable = False\<rparr>"
  have p: "bpf_base_func_proto 93 ?p = Some ''bpf_spin_lock_proto''" by code_simp
  have "bit (- 1 :: u64) c" if "bit (push_bit 39 1 :: u64) c" for c
    using that bit_imp_le_length [of "push_bit 39 1 :: u64" c] by (simp only: bit_minus_1_iff) simp
  then have "prog_sleepable \<lparr>prog_token = Some (- 1), prog_sleepable = False\<rparr> = prog_sleepable ?p \<and>
      (\<forall>c. bpf_token_capable (prog_token ?p) c \<longrightarrow>
         bpf_token_capable (prog_token \<lparr>prog_token = Some (- 1), prog_sleepable = False\<rparr>) c)"
    unfolding bpf_prog.simps token_capable_bit by blast
  with base_func_proto_gated [OF p] p show ?thesis by blast
qed

text \<open>Numbers and names.  Every helper number of \<^verbatim>\<open>helpers.c\<close> is the position of the
  helper's name in the list from which the disassembler makes its table of names.\<close>

theorem helper_numbers_agree:
  assumes "(name, n) \<in> set bpf_func_id_names"
  shows "bpf_func_name n = Some name"
proof -
  have "enum_walk (sort_key snd bpf_func_id_names) BPF_FUNC_MAPPER 0" by code_simp
  with enum_walk_nth [OF this, of name n] assms show ?thesis
    by (simp add: bpf_func_name_def BPF_FUNC_MAX_ID_def)
qed

theorem helper_numbers_agree_witness: "bpf_func_name 181 = Some ''loop''"
  by (rule helper_numbers_agree) (simp add: bpf_func_id_names_def func_id_defs)

text \<open>
  The argument types that follow \<^verbatim>\<open>ARG_PTR_TO_MEM_OR_NULL\<close> in the enumeration are numbered on from
  its value, so they carry its null flag, and their base types are those of other argument types.
\<close>

lemma arg_types_alias:
  "ARG_PTR_TO_PERCPU_BTF_ID AND BPF_BASE_TYPE_MASK = ARG_PTR_TO_CTX"
  "ARG_PTR_TO_BTF_ID AND BPF_BASE_TYPE_MASK = ARG_ANYTHING"
  "ARG_PTR_TO_TIMER AND BPF_BASE_TYPE_MASK = ARG_CONST_SIZE"
  "c_true (ARG_PTR_TO_BTF_ID AND PTR_MAYBE_NULL)"
  "ARG_PTR_TO_BTF_ID = ARG_PTR_TO_BTF_ID_OR_NULL"
  by code_simp+

lemma memset_store:
  assumes "n \<le> 32" and "n \<le> length dst"
  shows "memset dst c n = store_bytes dst 0 (replicate n c)"
proof -
  have "fold (\<lambda>i d. if i \<ge> n then d else d[i := c]) [0..<k] dst = store_bytes dst 0 (replicate (min k n) c)" for k
  proof (induction k)
    case (Suc k)
    show ?case
    proof (cases "k < n")
      case True
      with Suc assms(2) store_store [of 0 "replicate k c" "[c]" dst] show ?thesis
        by (simp add: store_one replicate_append_same)
    qed (use Suc in \<open>simp add: min_def\<close>)
  qed simp
  from this [of 32] assms(1) show ?thesis by (simp add: memset_def min_def)
qed

text \<open>Copying from user space.  With flags the copy is refused and the buffer untouched; a
  complete read succeeds; a partial read (which the stub reports for three bytes) fails with
  \<^verbatim>\<open>-EFAULT\<close> and leaves the buffer zeroed over the whole requested size, so that no stale byte of it
  can be used.\<close>

theorem copy_from_user_task_correct:
  assumes "unat sz \<le> length dst"
  shows "bpf_copy_from_user_task dst sz uflags =
    (if uflags \<noteq> 0 then (word_of_int (- EINVAL), dst)
     else if access_process_vm (sint sz) = sint sz then (0, dst)
     else (word_of_int (- EFAULT), store_bytes dst 0 (replicate (unat sz) 0)))"
proof (cases "sz = 3")
  case True
  with assms show ?thesis by (simp add: bpf_copy_from_user_task_def access_process_vm_def memset_store)
next
  case False
  then have "sint sz \<noteq> sint (3 :: u32)" by (blast dest: signed_word_eqI)
  then have "sint sz \<noteq> 3" by simp
  then show ?thesis by (simp add: bpf_copy_from_user_task_def access_process_vm_def)
qed

theorem copy_from_user_task_correct_witness:
  "bpf_copy_from_user_task [1, 2, 3, 4] 3 0 = (word_of_int (- EFAULT), [0, 0, 0, 4])"
proof -
  have "replicate 3 (0 :: u8) = [0, 0, 0]" by (simp add: numeral_3_eq_3)
  with copy_from_user_task_correct [of 3 "[1, 2, 3, 4]" 0] show ?thesis
    by (simp add: access_process_vm_def store_bytes_def)
qed

lemma key_of_array_value:
  assumes "0 < e" and "e < 2 ^ 32" and "i < 2 ^ 32" and "i * e < 2 ^ 63"
  shows "map_key_from_value \<lparr>km_is_array = True, km_key_size = k, km_elem_size = of_nat e, km_value = base\<rparr>
      (base + of_nat (i * e)) = Inl (of_nat i)"
proof -
  have "sint (of_nat (i * e) :: u64) = int (i * e)"
    using assms(4) signed_take_bit_int_eq_self [of 63 "int (i * e)"]
    by (simp add: signed_of_nat del: of_nat_mult)
  moreover have "unat (of_nat e :: u32) = e" using assms(2) by (rule unat_of_nat_u32)
  moreover have "int (i * e) sdiv int e = int i"
    using assms(1) by (cases "i = 0") (simp_all add: signed_divide_int_def sgn_mult abs_mult)
  ultimately show ?thesis by (simp add: map_key_from_value_def)
qed

end
