(* ===== verification/Ratelimit.thy ===== *)
theory Ratelimit
  imports Bpf_Prelude
begin

text \<open>
  Model of \<^verbatim>\<open>shims/lib/ratelimit.c\<close> with the clock and the lock of
  \<^verbatim>\<open>targets/ratelimit/pre_include.h\<close>: at most \<open>burst\<close> events in \<open>interval\<close> clock ticks.
  \<^verbatim>\<open>struct ratelimit_state\<close>, its two flags and the two functions on its count of missed events
  come from a kernel header that is not part of the repository: the record has the fields this
  file uses, the others are the parameter \<open>ratelimit_hdr\<close>, and \<open>ratelimit_hdr_ok\<close> states that
  the initialised flag is not empty and that the two functions change the count only.

  The clock \<^verbatim>\<open>jiffies\<close> and the outcome of taking the lock are arguments of a call, so that a
  sequence of calls is a list of both.  The clock is a 64-bit counter that wraps; the lemmas read
  it as an unbounded count of ticks modulo its width.
\<close>

section \<open>The code\<close>

record ratelimit_state =
  rs_interval :: cint
  rs_burst :: cint
  rs_n_left :: cint
  rs_missed :: cint
  rs_flags :: u32
  rs_begin :: u64

record ratelimit_hdr =
  RATELIMIT_MSG_ON_RELEASE :: u32
  RATELIMIT_INITIALIZED :: u32
  ratelimit_state_reset_miss :: "ratelimit_state \<Rightarrow> cint \<times> ratelimit_state"
  ratelimit_state_inc_miss :: "ratelimit_state \<Rightarrow> ratelimit_state"

definition time_is_before_jiffies :: "u64 \<Rightarrow> u64 \<Rightarrow> bool" where
  "time_is_before_jiffies jiffies a \<longleftrightarrow> sint (a - jiffies) < 0"

definition bpf_raw_spin_trylock_irqsave :: bool where
  "bpf_raw_spin_trylock_irqsave = True"

definition initialized :: "ratelimit_hdr \<Rightarrow> ratelimit_state \<Rightarrow> bool" where
  "initialized h rs \<longleftrightarrow> c_true (rs_flags rs AND RATELIMIT_INITIALIZED h)"

text \<open>\<^verbatim>\<open>atomic_read(&rs->rs_n_left) > 0 && atomic_dec_return(&rs->rs_n_left) >= 0\<close>\<close>

definition take_n_left :: "ratelimit_state \<Rightarrow> bool \<times> ratelimit_state" where
  "take_n_left rs =
     (if rs_n_left rs > 0
      then let rs = rs\<lparr>rs_n_left := rs_n_left rs - 1\<rparr> in (rs_n_left rs \<ge> 0, rs)
      else (False, rs))"

definition start_interval :: "ratelimit_hdr \<Rightarrow> u64 \<Rightarrow> ratelimit_state \<Rightarrow> ratelimit_state" where
  "start_interval h jiffies rs =
     (if \<not> initialized h rs
      then rs\<lparr>rs_begin := jiffies, rs_flags := rs_flags rs OR RATELIMIT_INITIALIZED h, rs_n_left := rs_burst rs\<rparr>
      else rs)"

definition renew_interval :: "ratelimit_hdr \<Rightarrow> u64 \<Rightarrow> cint \<Rightarrow> ratelimit_state \<Rightarrow> ratelimit_state" where
  "renew_interval h jiffies interval rs =
     (if time_is_before_jiffies jiffies (rs_begin rs + word_of_int interval)
      then let rs = rs\<lparr>rs_n_left := rs_burst rs, rs_begin := jiffies\<rparr>
           in if \<not> c_true (rs_flags rs AND RATELIMIT_MSG_ON_RELEASE h)
              then snd (ratelimit_state_reset_miss h rs)
              else rs
      else rs)"

text \<open>The label \<^verbatim>\<open>nolock_ret\<close>; \<^verbatim>\<open>unlock_ret\<close> only adds the release of the lock.\<close>

definition nolock_ret :: "ratelimit_hdr \<Rightarrow> bool \<Rightarrow> ratelimit_state \<Rightarrow> cint \<times> ratelimit_state" where
  "nolock_ret h ret rs = (if \<not> ret then (0, ratelimit_state_inc_miss h rs) else (1, rs))"

definition ratelimit :: "ratelimit_hdr \<Rightarrow> u64 \<Rightarrow> bool \<Rightarrow> ratelimit_state \<Rightarrow> cint \<times> ratelimit_state" where
  "ratelimit h jiffies trylock rs =
     (let interval = rs_interval rs; burst = rs_burst rs
      in if interval \<le> 0 \<or> burst \<le> 0
         then let ret = (interval = 0 \<or> burst > 0)
              in if \<not> initialized h rs \<or> (interval = 0 \<and> burst = 0) \<or> \<not> trylock
                 then nolock_ret h ret rs
                 else nolock_ret h ret (rs\<lparr>rs_flags := rs_flags rs AND NOT (RATELIMIT_INITIALIZED h)\<rparr>)
         else if \<not> trylock
         then if initialized h rs
              then let (ret, rs) = take_n_left rs in nolock_ret h ret rs
              else nolock_ret h False rs
         else let rs = start_interval h jiffies rs;
                  rs = renew_interval h jiffies interval rs;
                  (ret, rs) = take_n_left rs
              in nolock_ret h ret rs)"

section \<open>Sequences of calls\<close>

definition ratelimit_hdr_ok :: "ratelimit_hdr \<Rightarrow> bool" where
  "ratelimit_hdr_ok h \<longleftrightarrow> RATELIMIT_INITIALIZED h \<noteq> 0 \<and>
     (\<forall>rs. \<exists>n. ratelimit_state_inc_miss h rs = rs\<lparr>rs_missed := n\<rparr>) \<and>
     (\<forall>rs. \<exists>n. snd (ratelimit_state_reset_miss h rs) = rs\<lparr>rs_missed := n\<rparr>)"

text \<open>A limiter that limits, with the interval a C \<^verbatim>\<open>int\<close>.\<close>

definition limiting :: "ratelimit_state \<Rightarrow> bool" where
  "limiting rs \<longleftrightarrow> 0 < rs_interval rs \<and> rs_interval rs < 2 ^ 31 \<and> 0 < rs_burst rs"

fun ratelimit_calls :: "ratelimit_hdr \<Rightarrow> (nat \<times> bool) list \<Rightarrow> ratelimit_state \<Rightarrow> cint list" where
  "ratelimit_calls h [] rs = []"
| "ratelimit_calls h ((t, trylock) # cs) rs =
     (let (ret, rs) = ratelimit h (of_nat t) trylock rs in ret # ratelimit_calls h cs rs)"

text \<open>Polling: the state before the \<open>k\<close>-th call when the \<open>k\<close>-th call is made at tick \<open>T k\<close>.\<close>

fun polled_state :: "ratelimit_hdr \<Rightarrow> (nat \<Rightarrow> nat) \<Rightarrow> ratelimit_state \<Rightarrow> nat \<Rightarrow> ratelimit_state" where
  "polled_state h T rs 0 = rs"
| "polled_state h T rs (Suc k) =
     snd (ratelimit h (of_nat (T k)) bpf_raw_spin_trylock_irqsave (polled_state h T rs k))"

definition polled :: "ratelimit_hdr \<Rightarrow> (nat \<Rightarrow> nat) \<Rightarrow> ratelimit_state \<Rightarrow> nat \<Rightarrow> cint" where
  "polled h T rs k = fst (ratelimit h (of_nat (T k)) bpf_raw_spin_trylock_irqsave (polled_state h T rs k))"

section \<open>One call\<close>

lemma signed_difference:
  assumes "- (2 ^ 63) \<le> z" and "z < 2 ^ 63"
  shows "sint (word_of_int z :: u64) = z"
  using assms by (simp add: sint_sbintrunc' signed_take_bit_int_eq_self)

text \<open>The test for the end of the interval, for clock values less than half the range apart.\<close>

lemma expired_iff:
  assumes "b \<le> t" and "t - b < 2 ^ 63" and "0 < i" and "i < 2 ^ 31"
  shows "time_is_before_jiffies (of_nat t) (of_nat b + word_of_int i) \<longleftrightarrow> int b + i < int t"
proof -
  have "of_nat b + word_of_int i - of_nat t = (word_of_int (int b + i - int t) :: u64)" by simp
  moreover have "sint (word_of_int (int b + i - int t) :: u64) = int b + i - int t"
    using assms by (intro signed_difference) auto
  ultimately show ?thesis by (simp add: time_is_before_jiffies_def)
qed

lemma inc_miss_fields [simp]:
  assumes "ratelimit_hdr_ok h"
  shows "rs_interval (ratelimit_state_inc_miss h rs) = rs_interval rs"
    "rs_burst (ratelimit_state_inc_miss h rs) = rs_burst rs"
    "rs_n_left (ratelimit_state_inc_miss h rs) = rs_n_left rs"
    "rs_flags (ratelimit_state_inc_miss h rs) = rs_flags rs"
    "rs_begin (ratelimit_state_inc_miss h rs) = rs_begin rs"
proof -
  obtain n where "ratelimit_state_inc_miss h rs = rs\<lparr>rs_missed := n\<rparr>"
    using assms by (auto simp: ratelimit_hdr_ok_def)
  then show "rs_interval (ratelimit_state_inc_miss h rs) = rs_interval rs"
    "rs_burst (ratelimit_state_inc_miss h rs) = rs_burst rs"
    "rs_n_left (ratelimit_state_inc_miss h rs) = rs_n_left rs"
    "rs_flags (ratelimit_state_inc_miss h rs) = rs_flags rs"
    "rs_begin (ratelimit_state_inc_miss h rs) = rs_begin rs" by simp_all
qed

lemma reset_miss_fields [simp]:
  assumes "ratelimit_hdr_ok h"
  shows "rs_interval (snd (ratelimit_state_reset_miss h rs)) = rs_interval rs"
    "rs_burst (snd (ratelimit_state_reset_miss h rs)) = rs_burst rs"
    "rs_n_left (snd (ratelimit_state_reset_miss h rs)) = rs_n_left rs"
    "rs_flags (snd (ratelimit_state_reset_miss h rs)) = rs_flags rs"
    "rs_begin (snd (ratelimit_state_reset_miss h rs)) = rs_begin rs"
proof -
  obtain n where "snd (ratelimit_state_reset_miss h rs) = rs\<lparr>rs_missed := n\<rparr>"
    using assms unfolding ratelimit_hdr_ok_def by blast
  then show "rs_interval (snd (ratelimit_state_reset_miss h rs)) = rs_interval rs"
    "rs_burst (snd (ratelimit_state_reset_miss h rs)) = rs_burst rs"
    "rs_n_left (snd (ratelimit_state_reset_miss h rs)) = rs_n_left rs"
    "rs_flags (snd (ratelimit_state_reset_miss h rs)) = rs_flags rs"
    "rs_begin (snd (ratelimit_state_reset_miss h rs)) = rs_begin rs" by simp_all
qed

lemma start_sets_flag:
  assumes "ratelimit_hdr_ok h"
  shows "c_true ((x OR RATELIMIT_INITIALIZED h) AND RATELIMIT_INITIALIZED h)"
proof -
  have "(x OR y) AND y = y" for y :: u32 by (rule bit_word_eqI) (auto simp: bit_simps)
  moreover have "RATELIMIT_INITIALIZED h \<noteq> 0" using assms unfolding ratelimit_hdr_ok_def by blast
  ultimately show ?thesis unfolding c_true_def by metis
qed

lemmas ratelimit_steps = ratelimit_def start_interval_def renew_interval_def take_n_left_def nolock_ret_def
  initialized_def limiting_def Let_def

text \<open>Before the end of the interval a call takes one of the events left, whether or not it gets the lock.\<close>

lemma call_inside:
  assumes "ratelimit_hdr_ok h" and "limiting rs" and "initialized h rs" and "rs_begin rs = of_nat b"
    and "b \<le> t" and "int t \<le> int b + rs_interval rs"
  shows "fst (ratelimit h (of_nat t) l rs) = (if rs_n_left rs > 0 then 1 else 0)"
    and "limiting (snd (ratelimit h (of_nat t) l rs))"
    and "initialized h (snd (ratelimit h (of_nat t) l rs))"
    and "rs_begin (snd (ratelimit h (of_nat t) l rs)) = of_nat b"
    and "rs_interval (snd (ratelimit h (of_nat t) l rs)) = rs_interval rs"
    and "nat (rs_n_left (snd (ratelimit h (of_nat t) l rs))) = nat (rs_n_left rs) - 1"
proof -
  have "\<not> time_is_before_jiffies (of_nat t) (of_nat b + word_of_int (rs_interval rs))"
    using assms(2,5,6) by (subst expired_iff) (auto simp: limiting_def)
  with assms(1-4) show "fst (ratelimit h (of_nat t) l rs) = (if rs_n_left rs > 0 then 1 else 0)"
    "limiting (snd (ratelimit h (of_nat t) l rs))"
    "initialized h (snd (ratelimit h (of_nat t) l rs))"
    "rs_begin (snd (ratelimit h (of_nat t) l rs)) = of_nat b"
    "rs_interval (snd (ratelimit h (of_nat t) l rs)) = rs_interval rs"
    "nat (rs_n_left (snd (ratelimit h (of_nat t) l rs))) = nat (rs_n_left rs) - 1"
    by (auto simp: ratelimit_steps)
qed

text \<open>The first call, and a call with the lock after the end of the interval, start a new one.\<close>

definition starts :: "ratelimit_hdr \<Rightarrow> nat \<Rightarrow> ratelimit_state \<Rightarrow> bool" where
  "starts h t rs \<longleftrightarrow> (initialized h rs \<longrightarrow> (\<exists>b. rs_begin rs = of_nat b \<and> b \<le> t \<and> t - b < 2 ^ 63 \<and> int b + rs_interval rs < int t))"

lemma call_starts:
  assumes "ratelimit_hdr_ok h" and "limiting rs" and "starts h t rs"
  shows "fst (ratelimit h (of_nat t) True rs) = 1"
    and "limiting (snd (ratelimit h (of_nat t) True rs))"
    and "initialized h (snd (ratelimit h (of_nat t) True rs))"
    and "rs_begin (snd (ratelimit h (of_nat t) True rs)) = of_nat t"
    and "rs_interval (snd (ratelimit h (of_nat t) True rs)) = rs_interval rs"
    and "rs_n_left (snd (ratelimit h (of_nat t) True rs)) = rs_burst rs - 1"
proof -
  have "\<not> time_is_before_jiffies (of_nat t) (of_nat t + word_of_int (rs_interval rs))"
    using assms(2) by (subst expired_iff) (auto simp: limiting_def)
  moreover have "initialized h rs \<Longrightarrow> time_is_before_jiffies (of_nat t) (rs_begin rs + word_of_int (rs_interval rs))"
    using assms(2,3) by (auto simp: limiting_def starts_def expired_iff)
  ultimately show "fst (ratelimit h (of_nat t) True rs) = 1"
    "limiting (snd (ratelimit h (of_nat t) True rs))"
    "initialized h (snd (ratelimit h (of_nat t) True rs))"
    "rs_begin (snd (ratelimit h (of_nat t) True rs)) = of_nat t"
    "rs_interval (snd (ratelimit h (of_nat t) True rs)) = rs_interval rs"
    "rs_n_left (snd (ratelimit h (of_nat t) True rs)) = rs_burst rs - 1"
    using assms(1,2) start_sets_flag [OF assms(1)] by (auto simp: ratelimit_steps)
qed

section \<open>Properties\<close>

lemma calls_inside:
  assumes "ratelimit_hdr_ok h" and "limiting rs" and "initialized h rs" and "rs_begin rs = of_nat b"
    and "\<And>t l. (t, l) \<in> set cs \<Longrightarrow> b \<le> t \<and> int t \<le> int b + rs_interval rs"
  shows "ratelimit_calls h cs rs =
    replicate (min (nat (rs_n_left rs)) (length cs)) 1 @ replicate (length cs - nat (rs_n_left rs)) 0"
  using assms
proof (induction cs arbitrary: rs)
  case (Cons c cs)
  obtain t l where c: "c = (t, l)" by (cases c)
  let ?r = "ratelimit h (of_nat t) l rs"
  have t: "b \<le> t" "int t \<le> int b + rs_interval rs" using Cons.prems(5) c by auto
  note step = call_inside [OF Cons.prems(1-4) t, of l]
  have "ratelimit_calls h cs (snd ?r) =
      replicate (min (nat (rs_n_left rs) - 1) (length cs)) 1 @ replicate (length cs - (nat (rs_n_left rs) - 1)) 0"
    using Cons.IH [OF Cons.prems(1) step(2-4)] Cons.prems(5) step(5,6) by auto
  moreover have "ratelimit_calls h (c # cs) rs = fst ?r # ratelimit_calls h cs (snd ?r)"
    by (simp add: c case_prod_beta Let_def)
  ultimately show ?case
    by (cases "nat (rs_n_left rs)") (simp_all add: step(1))
qed simp

text \<open>Rate limiting.  When a call with the lock starts an interval, at the first use or after the
  end of the previous interval, then of the calls up to the end of the new interval, with or without
  the lock, exactly the first \<^verbatim>\<open>burst\<close> ones are allowed, the first call among them.\<close>

theorem ratelimit_window:
  assumes "ratelimit_hdr_ok h" and "limiting rs" and "starts h t rs"
    and "list_all (\<lambda>(t', l). t \<le> t' \<and> int t' \<le> int t + rs_interval rs) cs"
  shows "ratelimit_calls h ((t, True) # cs) rs =
    replicate (min (nat (rs_burst rs)) (Suc (length cs))) 1 @ replicate (Suc (length cs) - nat (rs_burst rs)) 0"
proof -
  note step = call_starts [OF assms(1-3)]
  have "\<And>t' l. (t', l) \<in> set cs \<Longrightarrow> t \<le> t' \<and> int t' \<le> int t + rs_interval (snd (ratelimit h (of_nat t) True rs))"
    using assms(4) by (auto simp: list_all_iff step(5))
  from calls_inside [OF assms(1) step(2-4) this]
  have "ratelimit_calls h ((t, True) # cs) rs =
      1 # replicate (min (nat (rs_burst rs - 1)) (length cs)) 1 @ replicate (length cs - nat (rs_burst rs - 1)) 0"
    by (simp add: case_prod_beta Let_def step(1,6))
  moreover obtain n where "nat (rs_burst rs) = Suc n" "nat (rs_burst rs - 1) = n"
    using assms(2) by (cases "nat (rs_burst rs)") (auto simp: limiting_def)
  ultimately show ?thesis by simp
qed

text \<open>The example header counts missed events in the record's field.\<close>

definition example_hdr :: ratelimit_hdr where
  "example_hdr = \<lparr>RATELIMIT_MSG_ON_RELEASE = 1, RATELIMIT_INITIALIZED = 2,
     ratelimit_state_reset_miss = (\<lambda>rs. (rs_missed rs, rs\<lparr>rs_missed := 0\<rparr>)),
     ratelimit_state_inc_miss = (\<lambda>rs. rs\<lparr>rs_missed := rs_missed rs + 1\<rparr>)\<rparr>"

definition example_state :: ratelimit_state where
  "example_state = \<lparr>rs_interval = 10, rs_burst = 2, rs_n_left = 0, rs_missed = 0, rs_flags = 0, rs_begin = 0\<rparr>"

lemma example_ok: "ratelimit_hdr_ok example_hdr" "limiting example_state" "\<not> initialized example_hdr example_state"
  by (auto simp: ratelimit_hdr_ok_def example_hdr_def limiting_def example_state_def initialized_def)

theorem ratelimit_window_witness:
  "ratelimit_calls example_hdr [(18446744073709551613, True), (18446744073709551614, False),
     (18446744073709551616, True), (18446744073709551623, True)] example_state = [1, 1, 0, 0]"
proof -
  have "replicate 2 x = [x, x]" for x :: cint by (simp add: numeral_2_eq_2)
  moreover have "starts example_hdr 18446744073709551613 example_state" using example_ok(3) by (simp add: starts_def)
  ultimately show ?thesis
    using ratelimit_window [OF example_ok(1,2), of 18446744073709551613
        "[(18446744073709551614, False), (18446744073709551616, True), (18446744073709551623, True)]"]
    by (simp add: example_state_def del: ratelimit_calls.simps)
qed

text \<open>After a poll the limiter is in an interval that began no later than the clock and has not ended.\<close>

definition in_interval :: "ratelimit_hdr \<Rightarrow> nat \<Rightarrow> nat \<Rightarrow> cint \<Rightarrow> ratelimit_state \<Rightarrow> bool" where
  "in_interval h t b i rs \<longleftrightarrow> limiting rs \<and> initialized h rs \<and> rs_interval rs = i \<and>
     rs_begin rs = of_nat b \<and> b \<le> t \<and> int t \<le> int b + i"

lemma in_interval_step:
  assumes "ratelimit_hdr_ok h" and "in_interval h t b i rs" and "t \<le> t'" and "t' \<le> t + 2 ^ 62"
  obtains b' where "in_interval h t' b' i (snd (ratelimit h (of_nat t') True rs))"
    and "b' = b \<or> fst (ratelimit h (of_nat t') True rs) = 1"
proof (cases "int t' \<le> int b + i")
  case True
  with assms(2,3) call_inside [OF assms(1), of rs b t' True] that [of b] show thesis
    by (simp add: in_interval_def)
next
  case False
  with assms(2-4) have "starts h t' rs" by (auto simp: in_interval_def starts_def limiting_def intro!: exI [of _ b])
  with assms(2) call_starts [OF assms(1), of rs t'] that [of t'] show thesis
    by (simp add: in_interval_def limiting_def)
qed

text \<open>Polling a fresh limiter with a clock that advances without bound, in steps of at most a quarter of its range.\<close>

definition polling :: "ratelimit_hdr \<Rightarrow> (nat \<Rightarrow> nat) \<Rightarrow> ratelimit_state \<Rightarrow> bool" where
  "polling h T rs \<longleftrightarrow> ratelimit_hdr_ok h \<and> limiting rs \<and> \<not> initialized h rs \<and>
     mono T \<and> (\<forall>k. T (Suc k) \<le> T k + 2 ^ 62) \<and> (\<forall>n. \<exists>k. n < T k)"

lemma polled_next:
  assumes "polling h T rs" and "in_interval h (T k) b i (polled_state h T rs (Suc k))"
  obtains b' where "in_interval h (T (Suc k)) b' i (polled_state h T rs (Suc (Suc k)))"
    and "b' = b \<or> polled h T rs (Suc k) = 1"
proof -
  have "ratelimit_hdr_ok h" "T k \<le> T (Suc k)" "T (Suc k) \<le> T k + 2 ^ 62"
    using assms(1) unfolding polling_def by (blast intro: monoD le_SucI le_refl)+
  from in_interval_step [OF this(1) assms(2) this(2,3)] that show thesis
    unfolding polled_def polled_state.simps(2) [of h T rs "Suc k"] bpf_raw_spin_trylock_irqsave_def by blast
qed

lemma polled_in_interval:
  assumes "polling h T rs"
  shows "\<exists>b. in_interval h (T k) b (rs_interval rs) (polled_state h T rs (Suc k))"
proof (induction k)
  case 0
  have fresh: "ratelimit_hdr_ok h" "limiting rs" "starts h (T 0) rs"
    using assms unfolding polling_def starts_def by blast+
  from call_starts [OF this] fresh(2) show ?case
    by (auto simp: in_interval_def bpf_raw_spin_trylock_irqsave_def limiting_def intro!: exI [of _ "T 0"])
qed (use polled_next [OF assms] in blast)

text \<open>C26: Progress.  A caller that polls a fresh limiter forever is allowed again and again: after every
  call there is a later call that is allowed, provided the clock advances without bound and never by
  more than a quarter of its range between two calls.\<close>

theorem ratelimit_progress:
  assumes "polling h T rs"
  shows "\<exists>k' > k. polled h T rs k' = 1"
proof (rule ccontr)
  assume none: "\<not> (\<exists>k' > k. polled h T rs k' = 1)"
  obtain b where b: "in_interval h (T k) b (rs_interval rs) (polled_state h T rs (Suc k))"
    using polled_in_interval [OF assms] by blast
  have stuck: "in_interval h (T (k + j)) b (rs_interval rs) (polled_state h T rs (Suc (k + j)))" for j
  proof (induction j)
    case (Suc j)
    from polled_next [OF assms this] none show ?case by (metis add_Suc_right less_add_Suc1)
  qed (use b in simp)
  obtain m where m: "b + nat (rs_interval rs) < T m" using assms unfolding polling_def by blast
  moreover have "T m \<le> T (k + m)" using assms unfolding polling_def by (blast intro: monoD le_add2)
  ultimately show False using stuck [of m] by (auto simp: in_interval_def limiting_def)
qed

theorem ratelimit_progress_witness: "\<exists>k' > 5. polled example_hdr (\<lambda>k. 3 * k) example_state k' = 1"
proof (rule ratelimit_progress)
  have "\<exists>k. n < 3 * k" for n :: nat by (intro exI [of _ "Suc n"]) simp
  then show "polling example_hdr (\<lambda>k. 3 * k) example_state"
    unfolding polling_def by (simp add: example_ok mono_def)
qed

end
