(* ===== verification/Union_Find.thy ===== *)
theory Union_Find
  imports Bpf_Prelude
begin

text \<open>
  Model of \<^verbatim>\<open>shims/include/linux/union_find.h\<close>: the bounded variants of find, with path halving, and
  of union by rank.  \<^verbatim>\<open>struct uf_node\<close> comes from a kernel header that is not part of the
  repository; the record has the two fields the shim uses.  Nodes live in a heap addressed by
  their pointers.

  A forest has at most as many nodes as the loop of find has iterations, and every node of it
  reaches a root.  The lemmas count the links on a path; the specification is the partition of
  the nodes by their roots.
\<close>

section \<open>The code\<close>

type_synonym node_ptr = nat

record uf_node =
  uf_parent :: node_ptr
  uf_rank :: u32

type_synonym uf_heap = "node_ptr \<Rightarrow> uf_node"

definition BPF_UF_FIND_MAX_NODES :: nat where "BPF_UF_FIND_MAX_NODES = 4"

fun find_loop :: "nat \<Rightarrow> uf_heap \<Rightarrow> node_ptr \<Rightarrow> node_ptr \<times> uf_heap" where
  "find_loop 0 h node = (node, h)"
| "find_loop (Suc i) h node =
     (if uf_parent (h node) = node then (node, h)
      else let h = h(node := (h node)\<lparr>uf_parent := uf_parent (h (uf_parent (h node)))\<rparr>);
               node = uf_parent (h node)
           in find_loop i h node)"

definition bpf_uf_find :: "uf_heap \<Rightarrow> node_ptr \<Rightarrow> node_ptr \<times> uf_heap" where
  "bpf_uf_find h node = find_loop BPF_UF_FIND_MAX_NODES h node"

definition bpf_uf_union :: "uf_heap \<Rightarrow> node_ptr \<Rightarrow> node_ptr \<Rightarrow> uf_heap" where
  "bpf_uf_union h node1 node2 =
     (let (root1, h) = bpf_uf_find h node1;
          (root2, h) = bpf_uf_find h node2
      in if root1 = root2 then h
         else if uf_rank (h root1) < uf_rank (h root2) then h(root1 := (h root1)\<lparr>uf_parent := root2\<rparr>)
         else if uf_rank (h root1) > uf_rank (h root2) then h(root2 := (h root2)\<lparr>uf_parent := root1\<rparr>)
         else let h = h(root2 := (h root2)\<lparr>uf_parent := root1\<rparr>)
              in h(root1 := (h root1)\<lparr>uf_rank := uf_rank (h root1) + 1\<rparr>))"

section \<open>Paths to a root\<close>

abbreviation up :: "uf_heap \<Rightarrow> node_ptr \<Rightarrow> node_ptr" where
  "up h \<equiv> \<lambda>n. uf_parent (h n)"

text \<open>\<open>path p n d r\<close>: the parent links \<open>p\<close> lead from \<open>n\<close> to the root \<open>r\<close> in \<open>d\<close> steps.\<close>

inductive path :: "(node_ptr \<Rightarrow> node_ptr) \<Rightarrow> node_ptr \<Rightarrow> nat \<Rightarrow> node_ptr \<Rightarrow> bool" for p where
  path_root: "p r = r \<Longrightarrow> path p r 0 r"
| path_step: "p n \<noteq> n \<Longrightarrow> path p (p n) d r \<Longrightarrow> path p n (Suc d) r"

inductive_cases path_0E: "path p n 0 r"
inductive_cases path_SucE: "path p n (Suc d) r"

lemma path_ends: "path p n d r \<Longrightarrow> p r = r"
  by (induction rule: path.induct) simp_all

lemma path_at_root: "path p n d r \<Longrightarrow> p n = n \<Longrightarrow> d = 0 \<and> r = n"
  by (erule path.cases) auto

lemma path_unique: "path p n d r \<Longrightarrow> path p n d' r' \<Longrightarrow> d' = d \<and> r' = r"
proof (induction arbitrary: d' r' rule: path.induct)
  case (path_root r)
  then show ?case using path_at_root by blast
next
  case (path_step n d r)
  obtain e where "d' = Suc e" "path p (p n) e r'"
    using path_step.prems path_step.hyps(1) by (metis path.cases)
  with path_step.IH show ?case by blast
qed

lemma path_funpow: "path p n d r \<Longrightarrow> (p ^^ d) n = r"
  by (induction rule: path.induct) (simp_all add: funpow_swap1)

lemma no_two_cycle: "path p n d r \<Longrightarrow> p (p n) = n \<Longrightarrow> p n = n"
  by (induction rule: path.induct) auto

lemma path_suffix: "path p n d r \<Longrightarrow> j \<le> d \<Longrightarrow> path p ((p ^^ j) n) (d - j) r"
proof (induction arbitrary: j rule: path.induct)
  case (path_root r)
  then show ?case by (simp add: path.path_root)
next
  case (path_step n d r)
  show ?case
  proof (cases j)
    case 0
    then show ?thesis using path_step.hyps by (simp add: path.path_step)
  next
    case (Suc i)
    with path_step.IH [of i] path_step.prems show ?thesis by (simp add: funpow_swap1)
  qed
qed

text \<open>The nodes on a path are distinct, as the rest of the path is of another length at each of them.\<close>

lemma path_nodes:
  assumes "path p n d r"
  shows "inj_on (\<lambda>i. (p ^^ i) n) {..d}"
proof (rule inj_onI)
  fix i j assume i: "i \<in> {..d}" and j: "j \<in> {..d}" and eq: "(p ^^ i) n = (p ^^ j) n"
  have "path p ((p ^^ i) n) (d - i) r" using path_suffix [OF assms] i by simp
  moreover have "path p ((p ^^ i) n) (d - j) r" unfolding eq using path_suffix [OF assms] j by simp
  ultimately have "d - j = d - i" using path_unique by blast
  with i j show "i = j" by simp
qed

section \<open>Path halving and linking\<close>

lemma path_halve:
  assumes "path p m d r" and "path p n e s" and "p n \<noteq> n"
  shows "\<exists>d' \<le> d. path (p(n := p (p n))) m d' r"
  using assms
proof (induction rule: path.induct)
  case (path_root r)
  then show ?case by (auto intro!: path.path_root)
next
  case (path_step m d r)
  let ?q = "p(n := p (p n))"
  obtain d' where d': "d' \<le> d" "path ?q (p m) d' r" using path_step by blast
  show ?case
  proof (cases "m = n")
    case False
    then have "?q m = p m" by simp
    then have "path ?q m (Suc d') r" using d'(2) path_step.hyps(1) by (metis path.path_step)
    with d'(1) show ?thesis by blast
  next
    case True
    have neq: "p (p n) \<noteq> n" using no_two_cycle [OF path_step.prems(1)] path_step.prems(2) by blast
    show ?thesis
    proof (cases "p (p n) = p n")
      case eq: True
      then have "?q n = p n" by simp
      then have "path ?q n (Suc d') r" using d'(2) True path_step.hyps(1) by (metis path.path_step)
      with d'(1) True show ?thesis by blast
    next
      case False
      have "?q (p n) = p (p n)" using path_step.prems(2) by simp
      with False d'(2) True obtain d'' where "d' = Suc d''" "path ?q (p (p n)) d'' r"
        by (metis path.cases)
      moreover have "?q n = p (p n)" by simp
      ultimately have "path ?q n d' r" using neq by (metis path.path_step)
      with d'(1) True show ?thesis using le_SucI by blast
    qed
  qed
qed

lemma path_link:
  assumes "path p m d r" and "p a = a" and "p b = b" and "a \<noteq> b"
  shows "\<exists>d'. path (p(a := b)) m d' (if r = a then b else r)"
  using assms
proof (induction rule: path.induct)
  case (path_root r)
  have b: "path (p(a := b)) b 0 b" using path_root.prems by (intro path.path_root) simp
  show ?case
  proof (cases "r = a")
    case True
    have "path (p(a := b)) a (Suc 0) b" using b path_root.prems by (intro path.path_step) simp_all
    then show ?thesis unfolding True if_P [OF refl] by (rule exI)
  next
    case False
    then have "path (p(a := b)) r 0 r" using path_root.hyps by (intro path.path_root) simp
    then show ?thesis using False by (simp only: if_False) blast
  qed
next
  case (path_step m d r)
  then obtain d' where d': "path (p(a := b)) (p m) d' (if r = a then b else r)" by blast
  have "m \<noteq> a" using path_step by blast
  then have "path (p(a := b)) m (Suc d') (if r = a then b else r)"
    using d' path_step.hyps(1) by (intro path.path_step) simp_all
  then show ?case by blast
qed

section \<open>Forests\<close>

definition uf_forest :: "uf_heap \<Rightarrow> node_ptr set \<Rightarrow> bool" where
  "uf_forest h N \<longleftrightarrow> finite N \<and> card N \<le> BPF_UF_FIND_MAX_NODES \<and>
     (\<forall>n \<in> N. up h n \<in> N) \<and> (\<forall>n \<in> N. \<exists>d r. path (up h) n d r)"

definition uf_root :: "uf_heap \<Rightarrow> node_ptr \<Rightarrow> node_ptr" where
  "uf_root h n = (up h ^^ BPF_UF_FIND_MAX_NODES) n"

lemma funpow_fixed: "p r = r \<Longrightarrow> (p ^^ k) r = r"
  by (induction k) simp_all

text \<open>In a forest the paths are shorter than the loop of find.\<close>

lemma forest_path:
  assumes "uf_forest h N" and "n \<in> N"
  obtains d where "path (up h) n d (uf_root h n)" and "d < BPF_UF_FIND_MAX_NODES"
proof -
  obtain d r where p: "path (up h) n d r" using assms by (auto simp: uf_forest_def)
  have "(up h ^^ i) n \<in> N" for i using assms by (induction i) (auto simp: uf_forest_def)
  then have "card {..d} \<le> card N"
    using path_nodes [OF p] assms(1) by (intro card_inj_on_le) (auto simp: uf_forest_def)
  then have d: "d < BPF_UF_FIND_MAX_NODES" using assms(1) by (simp add: uf_forest_def)
  then have "uf_root h n = (up h ^^ (BPF_UF_FIND_MAX_NODES - d)) ((up h ^^ d) n)"
    unfolding uf_root_def by (simp flip: funpow_add comp_apply [of "up h ^^ (BPF_UF_FIND_MAX_NODES - d)"])
  also have "\<dots> = r" using path_funpow [OF p] path_ends [OF p] by (simp add: funpow_fixed)
  finally show thesis using that p d by simp
qed

lemma uf_rootI: "uf_forest h N \<Longrightarrow> n \<in> N \<Longrightarrow> path (up h) n d r \<Longrightarrow> uf_root h n = r"
  using forest_path path_unique by metis

lemma root_in: "uf_forest h N \<Longrightarrow> n \<in> N \<Longrightarrow> uf_root h n \<in> N"
proof -
  assume "uf_forest h N" "n \<in> N"
  then have "(up h ^^ i) n \<in> N" for i by (induction i) (auto simp: uf_forest_def)
  then show ?thesis by (simp add: uf_root_def)
qed

text \<open>Two forests on the same nodes with the same partition and the same roots.\<close>

definition same_roots :: "uf_heap \<Rightarrow> uf_heap \<Rightarrow> node_ptr set \<Rightarrow> bool" where
  "same_roots h h' N \<longleftrightarrow> uf_forest h' N \<and> (\<forall>n \<in> N. uf_root h' n = uf_root h n)"

lemma up_update: "up (h(n := (h n)\<lparr>uf_parent := m\<rparr>)) = (up h)(n := m)"
  by (rule ext) simp

lemma halve_forest:
  assumes "uf_forest h N" and "n \<in> N" and "up h n \<noteq> n"
  shows "same_roots h (h(n := (h n)\<lparr>uf_parent := up h (up h n)\<rparr>)) N" (is "same_roots h ?h N")
proof -
  obtain e s where n: "path (up h) n e s" using assms(1,2) by (auto simp: uf_forest_def)
  have keep: "\<exists>d'. path (up ?h) m d' r" if "path (up h) m d r" for m d r
    using path_halve [OF that n assms(3)] unfolding up_update by blast
  have "uf_forest ?h N" using assms(1,2) keep unfolding uf_forest_def by (metis fun_upd_other fun_upd_same up_update)
  moreover from this have "uf_root ?h m = uf_root h m" if "m \<in> N" for m
    using that forest_path [OF assms(1) that] keep uf_rootI by metis
  ultimately show ?thesis by (simp add: same_roots_def)
qed

lemma find_loop_correct:
  assumes "uf_forest h N" and "n \<in> N" and "path (up h) n d r" and "d < i"
  shows "fst (find_loop i h n) = r \<and> same_roots h (snd (find_loop i h n)) N"
  using assms
proof (induction i arbitrary: h n d)
  case (Suc i)
  show ?case
  proof (cases "up h n = n")
    case True
    then show ?thesis using path_at_root [OF Suc.prems(3)] Suc.prems(1) by (simp add: same_roots_def)
  next
    case False
    let ?g = "up h (up h n)"
    let ?h = "h(n := (h n)\<lparr>uf_parent := ?g\<rparr>)"
    have same: "same_roots h ?h N" by (rule halve_forest [OF Suc.prems(1,2) False])
    have g: "?g \<in> N" using Suc.prems(1,2) by (simp add: uf_forest_def)
    obtain e where e: "d = Suc e" "path (up h) (up h n) e r" using Suc.prems(3) False by (metis path.cases)
    have "\<exists>e' \<le> e. path (up h) ?g e' r"
    proof (cases "?g = up h n")
      case False
      with e(2) show ?thesis by (metis le_SucI le_refl path.cases)
    qed (use e(2) in auto)
    then obtain e' where "e' \<le> e" "path (up h) ?g e' r" by blast
    then obtain e'' where e'': "e'' \<le> e'" "path (up ?h) ?g e'' r"
      using path_halve [OF _ Suc.prems(3) False] unfolding up_update by blast
    then have "e'' < i" using e(1) \<open>e' \<le> e\<close> Suc.prems(4) by simp
    define h' where "h' = ?h"
    have "uf_forest h' N" "path (up h') ?g e'' r" using same e''(2) by (simp_all only: same_roots_def h'_def)
    from Suc.IH [OF this(1) g this(2) \<open>e'' < i\<close>] same
    have "fst (find_loop i h' ?g) = r \<and> same_roots h (snd (find_loop i h' ?g)) N"
      unfolding same_roots_def h'_def [symmetric] by metis
    moreover have "find_loop (Suc i) h n = find_loop i h' ?g" using False by (simp add: h'_def Let_def)
    ultimately show ?thesis by simp
  qed
qed simp

lemma find_correct:
  assumes "uf_forest h N" and "n \<in> N"
  shows "fst (bpf_uf_find h n) = uf_root h n" and "same_roots h (snd (bpf_uf_find h n)) N"
  using forest_path [OF assms] find_loop_correct [OF assms] unfolding bpf_uf_find_def by blast+

text \<open>Linking one root to another merges the two classes.\<close>

lemma link_forest:
  assumes "uf_forest h N" and "a \<in> N" and "b \<in> N" and "up h a = a" and "up h b = b" and "a \<noteq> b"
    and "up h' = (up h)(a := b)"
  shows "uf_forest h' N" and "\<forall>n \<in> N. uf_root h' n = (if uf_root h n = a then b else uf_root h n)"
proof -
  have link: "\<exists>d'. path (up h') m d' (if r = a then b else r)" if "path (up h) m d r" for m d r
    using path_link [OF that assms(4-6)] unfolding assms(7) .
  have "up h' n \<in> N" if "n \<in> N" for n
    using assms(1,3,7) that fun_cong [OF assms(7), of n] by (cases "n = a") (auto simp: uf_forest_def)
  moreover have "\<exists>d r. path (up h') n d r" if "n \<in> N" for n
    using assms(1) that link unfolding uf_forest_def by blast
  ultimately show f: "uf_forest h' N" using assms(1) unfolding uf_forest_def by blast
  show "\<forall>n \<in> N. uf_root h' n = (if uf_root h n = a then b else uf_root h n)"
  proof
    fix n assume n: "n \<in> N"
    obtain d where "path (up h) n d (uf_root h n)" using forest_path [OF assms(1) n] by blast
    from link [OF this] uf_rootI [OF f n] show "uf_root h' n = (if uf_root h n = a then b else uf_root h n)" by blast
  qed
qed

lemma merged_iff:
  assumes "a' = (if a = x then y else a)" and "b' = (if b = x then y else b)"
  shows "a' = b' \<longleftrightarrow> a = b \<or> {a, b} = {x, y}"
  unfolding assms doubleton_eq_iff by auto

lemma union_links:
  assumes "bpf_uf_find h n1 = (r1, h1)" and "bpf_uf_find h1 n2 = (r2, h2)"
  shows "r1 = r2 \<and> bpf_uf_union h n1 n2 = h2 \<or>
    r1 \<noteq> r2 \<and> (up (bpf_uf_union h n1 n2) = (up h2)(r1 := r2) \<or> up (bpf_uf_union h n1 n2) = (up h2)(r2 := r1))"
proof -
  have rank: "up ((g :: uf_heap)(r := (g r)\<lparr>uf_rank := k\<rparr>)) = up g" for g r k by (rule ext) simp
  show ?thesis
    unfolding bpf_uf_union_def assms prod.case Let_def by (simp only: up_update rank split: if_split) blast
qed

lemma root_fixed: "uf_forest h N \<Longrightarrow> n \<in> N \<Longrightarrow> up h (uf_root h n) = uf_root h n"
  using forest_path path_ends by metis

text \<open>The partition of the nodes after a union: the two classes are one.\<close>

lemma union_correct:
  assumes "uf_forest h N" and "n1 \<in> N" and "n2 \<in> N"
  defines "h' \<equiv> bpf_uf_union h n1 n2"
  shows "uf_forest h' N"
    and "\<forall>a \<in> N. \<forall>b \<in> N. uf_root h' a = uf_root h' b \<longleftrightarrow> uf_root h a = uf_root h b \<or>
      {uf_root h a, uf_root h b} = {uf_root h n1, uf_root h n2}"
proof -
  define h1 where "h1 = snd (bpf_uf_find h n1)"
  define h2 where "h2 = snd (bpf_uf_find h1 n2)"
  let ?r1 = "uf_root h n1" and ?r2 = "uf_root h n2"
  have s1: "same_roots h h1 N" using find_correct(2) [OF assms(1,2)] by (simp add: h1_def)
  then have f1: "uf_forest h1 N" by (simp add: same_roots_def)
  have s2: "same_roots h1 h2 N" using find_correct(2) [OF f1 assms(3)] by (simp add: h2_def)
  then have f2: "uf_forest h2 N" and same: "\<forall>n \<in> N. uf_root h2 n = uf_root h n"
    using s1 by (simp_all add: same_roots_def)
  have r: "?r1 \<in> N" "?r2 \<in> N" "up h2 ?r1 = ?r1" "up h2 ?r2 = ?r2"
    using root_in [OF assms(1)] root_fixed [OF f2] same assms(2,3) by metis+
  have find1: "bpf_uf_find h n1 = (?r1, h1)" using find_correct(1) [OF assms(1,2)] by (simp add: h1_def prod_eq_iff)
  have find2: "bpf_uf_find h1 n2 = (?r2, h2)"
    using find_correct(1) [OF f1 assms(3)] s1 assms(3) by (simp add: h2_def prod_eq_iff same_roots_def)
  have cases: "?r1 = ?r2 \<and> h' = h2 \<or> ?r1 \<noteq> ?r2 \<and> (up h' = (up h2)(?r1 := ?r2) \<or> up h' = (up h2)(?r2 := ?r1))"
    unfolding h'_def by (rule union_links [OF find1 find2])
  then consider "?r1 = ?r2" "h' = h2" | "?r1 \<noteq> ?r2" "up h' = (up h2)(?r1 := ?r2)"
    | "?r1 \<noteq> ?r2" "up h' = (up h2)(?r2 := ?r1)" by blast
  then have "uf_forest h' N \<and> (\<forall>a \<in> N. \<forall>b \<in> N. uf_root h' a = uf_root h' b \<longleftrightarrow> uf_root h a = uf_root h b \<or>
      {uf_root h a, uf_root h b} = {?r1, ?r2})"
  proof cases
    case 1
    then show ?thesis using f2 same by auto
  next
    case 2
    note l = link_forest [OF f2 r(1,2,3,4) 2]
    show ?thesis using l(1) merged_iff [OF bspec [OF l(2)] bspec [OF l(2)]] same by simp
  next
    case 3
    note l = link_forest [OF f2 r(2,1,4,3) 3(1) [symmetric] 3(2)]
    show ?thesis using l(1) merged_iff [OF bspec [OF l(2)] bspec [OF l(2)]] same by (simp add: insert_commute)
  qed
  then show "uf_forest h' N" "\<forall>a \<in> N. \<forall>b \<in> N. uf_root h' a = uf_root h' b \<longleftrightarrow> uf_root h a = uf_root h b \<or>
      {uf_root h a, uf_root h b} = {?r1, ?r2}" by blast+
qed

section \<open>Sequences of operations\<close>

datatype uf_op = Find node_ptr | Union node_ptr node_ptr

fun uf_step :: "uf_op \<Rightarrow> uf_heap \<Rightarrow> uf_heap" where
  "uf_step (Find n) h = snd (bpf_uf_find h n)"
| "uf_step (Union n m) h = bpf_uf_union h n m"

fun op_nodes :: "uf_op \<Rightarrow> node_ptr set" where
  "op_nodes (Find n) = {n}"
| "op_nodes (Union n m) = {n, m}"

fun op_links :: "uf_op \<Rightarrow> (node_ptr \<times> node_ptr) set" where
  "op_links (Find n) = {}"
| "op_links (Union n m) = {(n, m), (m, n)}"

text \<open>The forest represents the equivalence generated by the links.\<close>

definition represents :: "uf_heap \<Rightarrow> node_ptr set \<Rightarrow> (node_ptr \<times> node_ptr) set \<Rightarrow> bool" where
  "represents h N E \<longleftrightarrow> uf_forest h N \<and> sym E \<and> (\<forall>a \<in> N. \<forall>b \<in> N. uf_root h a = uf_root h b \<longleftrightarrow> (a, b) \<in> E\<^sup>*)"

lemma rtrancl_link:
  assumes "sym E"
  shows "(a, b) \<in> (E \<union> {(n, m), (m, n)})\<^sup>* \<longleftrightarrow>
    (a, b) \<in> E\<^sup>* \<or> (a, n) \<in> E\<^sup>* \<and> (b, m) \<in> E\<^sup>* \<or> (a, m) \<in> E\<^sup>* \<and> (b, n) \<in> E\<^sup>*"
proof -
  have s: "(x, y) \<in> E\<^sup>* \<longleftrightarrow> (y, x) \<in> E\<^sup>*" for x y using sym_rtrancl [OF assms] by (auto dest: symD)
  have "E \<union> {(n, m), (m, n)} = insert (m, n) (insert (n, m) E)" by auto
  then have "(E \<union> {(n, m), (m, n)})\<^sup>* = E\<^sup>* \<union> {(x, y). (x, n) \<in> E\<^sup>* \<and> (m, y) \<in> E\<^sup>*} \<union>
      {(x, y). (x, m) \<in> (insert (n, m) E)\<^sup>* \<and> (n, y) \<in> (insert (n, m) E)\<^sup>*}"
    by (simp only: rtrancl_insert [of m n] rtrancl_insert [of n m E])
  moreover have "(x, y) \<in> (insert (n, m) E)\<^sup>* \<longleftrightarrow> (x, y) \<in> E\<^sup>* \<or> (x, n) \<in> E\<^sup>* \<and> (m, y) \<in> E\<^sup>*" for x y
    by (simp add: rtrancl_insert)
  ultimately have "(a, b) \<in> (E \<union> {(n, m), (m, n)})\<^sup>* \<longleftrightarrow> (a, b) \<in> E\<^sup>* \<or> (a, n) \<in> E\<^sup>* \<and> (m, b) \<in> E\<^sup>* \<or>
      ((a, m) \<in> E\<^sup>* \<or> (a, n) \<in> E\<^sup>*) \<and> ((n, b) \<in> E\<^sup>* \<or> (m, b) \<in> E\<^sup>*)"
    by simp
  with s [of m b] s [of n b] rtrancl_trans [of a m E b] rtrancl_trans [of a n E b] show ?thesis by argo
qed

lemma represents_step:
  assumes "represents h N E" and "op_nodes op \<subseteq> N"
  shows "represents (uf_step op h) N (E \<union> op_links op)"
proof (cases op)
  case (Find n)
  with assms find_correct(2) [of h N n] show ?thesis by (simp add: represents_def same_roots_def)
next
  case (Union n m)
  have f: "uf_forest h N" "sym E" and nm: "n \<in> N" "m \<in> N" using assms Union by (simp_all add: represents_def)
  have r: "uf_root h a = uf_root h b \<longleftrightarrow> (a, b) \<in> E\<^sup>*" if "a \<in> N" "b \<in> N" for a b
    using assms(1) that by (simp add: represents_def)
  note u = union_correct [OF f(1) nm]
  have "uf_root (bpf_uf_union h n m) a = uf_root (bpf_uf_union h n m) b \<longleftrightarrow> (a, b) \<in> (E \<union> {(n, m), (m, n)})\<^sup>*"
    if ab: "a \<in> N" "b \<in> N" for a b
  proof -
    have "uf_root (bpf_uf_union h n m) a = uf_root (bpf_uf_union h n m) b \<longleftrightarrow>
        uf_root h a = uf_root h b \<or> {uf_root h a, uf_root h b} = {uf_root h n, uf_root h m}"
      using u(2) ab by blast
    then show ?thesis unfolding rtrancl_link [OF f(2)] doubleton_eq_iff using r ab nm by blast
  qed
  moreover have "sym (E \<union> {(n, m), (m, n)})" using f(2) by (auto simp: sym_def)
  ultimately show ?thesis using u(1) Union by (simp add: represents_def)
qed

lemma represents_run:
  assumes "represents h N E" and "\<Union> (op_nodes ` set ops) \<subseteq> N"
  shows "represents (fold uf_step ops h) N (E \<union> \<Union> (op_links ` set ops))"
  using assms
proof (induction ops arbitrary: h E)
  case (Cons op ops)
  have "represents (uf_step op h) N (E \<union> op_links op)" using Cons.prems by (intro represents_step) auto
  from Cons.IH [OF this] Cons.prems(2) show ?case by (simp add: Un_assoc)
qed simp

lemma represents_init:
  assumes "finite N" and "card N \<le> 4" and "\<forall>n \<in> N. uf_parent (h n) = n"
  shows "represents h N {}"
proof -
  have p: "path (up h) n 0 n" if "n \<in> N" for n using assms(3) that by (simp add: path_root)
  then have f: "uf_forest h N" using assms unfolding uf_forest_def BPF_UF_FIND_MAX_NODES_def by fastforce
  then have "uf_root h n = n" if "n \<in> N" for n using uf_rootI p that by blast
  with f show ?thesis by (simp add: represents_def sym_def)
qed

text \<open>C30: Union-find.  After any sequence of finds and unions on at most four nodes, each initially its own
  parent, two finds in a row return roots of the forest, and the same root exactly if the unions of the
  sequence connect the two nodes.  In particular the bounded loop of find always reaches the root.\<close>

theorem uf_sequence_correct:
  assumes "finite N" and "card N \<le> 4" and "\<forall>n \<in> N. uf_parent (h n) = n"
    and "\<Union> (op_nodes ` set ops) \<subseteq> N" and "a \<in> N" and "b \<in> N"
    and "bpf_uf_find (fold uf_step ops h) a = (ra, h')" and "bpf_uf_find h' b = (rb, h'')"
  shows "uf_parent (h'' ra) = ra \<and> uf_parent (h'' rb) = rb \<and>
    (ra = rb \<longleftrightarrow> (a, b) \<in> (\<Union> (op_links ` set ops))\<^sup>*)"
proof -
  let ?E = "\<Union> (op_links ` set ops)" and ?h = "fold uf_step ops h"
  have r: "represents ?h N ?E" using represents_run [OF represents_init [OF assms(1-3)] assms(4)] by simp
  then have r': "represents h' N ?E" and r'': "represents h'' N ?E" and ra: "ra = uf_root ?h a"
    using represents_step [of ?h N ?E "Find a"] represents_step [of h' N ?E "Find b"] assms(5-8)
      find_correct(1) [of ?h N a] by (auto simp: represents_def)
  have f: "uf_forest ?h N" "uf_forest h' N" "uf_forest h'' N" using r r' r'' by (simp_all add: represents_def)
  have "uf_root h' n = uf_root ?h n" "uf_root h'' n = uf_root h' n" if "n \<in> N" for n
    using find_correct(2) [OF f(1) assms(5)] find_correct(2) [OF f(2) assms(6)] that assms(7,8)
    by (simp_all add: same_roots_def)
  moreover have "rb = uf_root h' b" using find_correct(1) [OF f(2) assms(6)] assms(8) by simp
  ultimately show ?thesis
    using ra root_fixed [OF f(3)] r'' assms(5,6) by (simp add: represents_def)
qed

theorem uf_sequence_correct_witness:
  "case bpf_uf_find (fold uf_step [Union 0 1, Union 2 3, Union 3 0] (\<lambda>n. \<lparr>uf_parent = n, uf_rank = 0\<rparr>)) 1 of
     (ra, h) \<Rightarrow> ra = fst (bpf_uf_find h 2)"
proof -
  let ?h = "\<lambda>n. \<lparr>uf_parent = n, uf_rank = 0\<rparr>" and ?ops = "[Union 0 1, Union 2 3, Union 3 0]"
  obtain ra h' where fa: "bpf_uf_find (fold uf_step ?ops ?h) 1 = (ra, h')" by fastforce
  obtain rb h'' where fb: "bpf_uf_find h' 2 = (rb, h'')" by fastforce
  have "(1, 2) \<in> (\<Union> (op_links ` set ?ops))\<^sup>*"
    by (rule converse_rtrancl_into_rtrancl [of _ 0], simp)
      (rule converse_rtrancl_into_rtrancl [of _ 3], simp, rule r_into_rtrancl, simp)
  moreover have "card {0, 1, 2, 3 :: nat} \<le> 4" by simp
  ultimately have "ra = rb" using uf_sequence_correct [OF _ _ _ _ _ _ fa fb, of "{0, 1, 2, 3}"] by simp
  with fa fb show ?thesis by simp
qed

end
