(* ===== verification/Arch_Bitops.thy ===== *)
theory Arch_Bitops
  imports Lpm_Bits
begin

text \<open>
  Model of the bit searches of \<^verbatim>\<open>shims/arch/x86/include/asm/bitops.h\<close>, which replace inline assembly by
  a binary search: \<^verbatim>\<open>__ffs\<close> and \<^verbatim>\<open>__fls\<close> test one half of the remaining word after the other and
  shift the other half away.  \<^verbatim>\<open>unsigned long\<close> has 64 bits.  The header's \<^verbatim>\<open>fls\<close> and \<^verbatim>\<open>fls64\<close> are
  \<open>arch_fls\<close> and \<open>arch_fls64\<close> here; they agree with the functions of the same names of
  \<^verbatim>\<open>lpm_trie.c\<close>, which are in \<open>Lpm_Bits\<close>.

  A round of the search is one function; its lemma says that the round halves the part of the
  word in which the searched bit is known to be.
\<close>

unbundle bit_operations_syntax

section \<open>The code\<close>

text \<open>\<^verbatim>\<open>if (!(word & m)) { r += k; word >>= k; }\<close> and \<^verbatim>\<open>if (!(word & m)) { r -= k; word <<= k; }\<close>\<close>

definition ffs_round :: "u64 \<Rightarrow> nat \<Rightarrow> u64 \<times> u64 \<Rightarrow> u64 \<times> u64" where
  "ffs_round m k = (\<lambda>(r, word). if \<not> c_true (word AND m) then (r + of_nat k, drop_bit k word) else (r, word))"

definition fls_round :: "u64 \<Rightarrow> nat \<Rightarrow> u64 \<times> u64 \<Rightarrow> u64 \<times> u64" where
  "fls_round m k = (\<lambda>(r, word). if \<not> c_true (word AND m) then (r - of_nat k, push_bit k word) else (r, word))"

definition ffs_long :: "u64 \<Rightarrow> u64" where
  "ffs_long word =
     (let (r, word) = ffs_round 0xffffffff 32 (0, word);
          (r, word) = ffs_round 0xffff 16 (r, word);
          (r, word) = ffs_round 0xff 8 (r, word);
          (r, word) = ffs_round 0xf 4 (r, word);
          (r, word) = ffs_round 0x3 2 (r, word)
      in if \<not> c_true (word AND 0x1) then r + 1 else r)"

definition ffz :: "u64 \<Rightarrow> u64" where
  "ffz word = ffs_long (NOT word)"

definition fls_long :: "u64 \<Rightarrow> u64" where
  "fls_long word =
     (let (r, word) = fls_round (push_bit 32 (NOT 0)) 32 (64 - 1, word);
          (r, word) = fls_round (push_bit (64 - 16) (NOT 0)) 16 (r, word);
          (r, word) = fls_round (push_bit (64 - 8) (NOT 0)) 8 (r, word);
          (r, word) = fls_round (push_bit (64 - 4) (NOT 0)) 4 (r, word);
          (r, word) = fls_round (push_bit (64 - 2) (NOT 0)) 2 (r, word)
      in if \<not> c_true (word AND push_bit (64 - 1) (NOT 0)) then r - 1 else r)"

definition ffs :: "u32 \<Rightarrow> cint" where
  "ffs x = (if x = 0 then 0 else sint (ucast (ffs_long (ucast x)) :: u32) + 1)"

definition arch_fls :: "u32 \<Rightarrow> cint" where
  "arch_fls x = (if x = 0 then 0 else sint (ucast (fls_long (ucast x)) :: u32) + 1)"

definition arch_fls64 :: "u64 \<Rightarrow> cint" where
  "arch_fls64 x = (if x = 0 then 0 else sint (ucast (fls_long x) :: u32) + 1)"

section \<open>Rounds of the search\<close>

lemma bit_u64_less: "bit (w :: u64) i \<Longrightarrow> i < 64"
  using bit_imp_le_length [of w i] by simp

lemma nonzero_bit: "(w :: u64) \<noteq> 0 \<longleftrightarrow> (\<exists>i < 64. bit w i)"
  using bit_u64_less [of w] by (auto simp: bit_eq_iff)

lemma ffs_round_mask:
  "ffs_round (mask k) k (r, w) = (if \<exists>i < k. bit w i then (r, w) else (r + of_nat k, drop_bit k w))"
proof -
  have "c_true (w AND mask k) \<longleftrightarrow> (\<exists>i < k. bit w i)"
    unfolding c_true_def nonzero_bit by (auto simp: bit_simps dest: bit_u64_less)
  then show ?thesis unfolding ffs_round_def prod.case by (simp only: not_not if_not_P if_P split: if_split) blast
qed

lemma fls_round_mask:
  assumes "k \<le> 64"
  shows "fls_round (push_bit (64 - k) (NOT 0)) k (r, w) =
    (if \<exists>i \<ge> 64 - k. bit w i then (r, w) else (r - of_nat k, push_bit k w))"
proof -
  have "c_true (w AND push_bit (64 - k) (NOT 0)) \<longleftrightarrow> (\<exists>i \<ge> 64 - k. bit w i)"
    unfolding c_true_def nonzero_bit by (auto simp: bit_and_iff bit_push_bit_iff bit_not_iff bit_mask_iff not_less dest: bit_u64_less)
  then show ?thesis unfolding fls_round_def prod.case by (simp only: not_not if_not_P if_P split: if_split) blast
qed

text \<open>The lowest set bit of \<open>W\<close> is among the \<open>n\<close> bits from \<open>r\<close> on, which the word now starts with.\<close>

definition low_inv :: "u64 \<Rightarrow> nat \<Rightarrow> u64 \<times> u64 \<Rightarrow> bool" where
  "low_inv W n = (\<lambda>(r, w). unat r + n \<le> 64 \<and> w = drop_bit (unat r) W \<and>
     (\<forall>i < unat r. \<not> bit W i) \<and> (\<exists>i < n. bit w i))"

text \<open>The highest set bit of \<open>W\<close> is among the \<open>n\<close> bits up to \<open>r\<close>, which the word now ends with.\<close>

definition top_inv :: "u64 \<Rightarrow> nat \<Rightarrow> u64 \<times> u64 \<Rightarrow> bool" where
  "top_inv W n = (\<lambda>(r, w). n \<le> Suc (unat r) \<and> unat r < 64 \<and> w = push_bit (63 - unat r) W \<and>
     (\<forall>i > unat r. \<not> bit W i) \<and> (\<exists>i \<ge> 64 - n. bit w i))"

lemma low_inv_round:
  assumes "low_inv W (2 * k) s" and "0 < k"
  shows "low_inv W k (ffs_round (mask k) k s)"
proof -
  obtain r w where s: "s = (r, w)" by (cases s)
  from assms(1) have inv: "unat r + 2 * k \<le> 64" "w = drop_bit (unat r) W" "\<forall>i < unat r. \<not> bit W i" "\<exists>i < 2 * k. bit w i"
    by (auto simp: low_inv_def s)
  show ?thesis
  proof (cases "\<exists>i < k. bit w i")
    case True
    then have "ffs_round (mask k) k s = (r, w)" by (simp add: s ffs_round_mask)
    with True inv show ?thesis by (simp add: low_inv_def)
  next
    case False
    then have round: "ffs_round (mask k) k s = (r + of_nat k, drop_bit k w)"
      unfolding s ffs_round_mask by (simp only: if_False)
    have r: "unat (r + of_nat k) = unat r + k" using inv(1) by (simp add: unat_word_ariths unat_of_nat_u64)
    have "\<not> bit W i" if "i < unat r + k" for i
    proof (cases "i < unat r")
      case g: False
      with False that have "\<not> bit w (i - unat r)" by auto
      with g show ?thesis by (simp add: inv(2) bit_drop_bit_eq)
    qed (use inv(3) in blast)
    moreover obtain i where i: "i < 2 * k" "bit w i" using inv(4) by blast
    moreover from i(2) False have "k \<le> i" by (auto simp: not_less)
    ultimately have "bit (drop_bit k w) (i - k)" "i - k < k" "\<forall>i < unat r + k. \<not> bit W i"
      by (auto simp: bit_drop_bit_eq)
    then show ?thesis
      using inv(1) unfolding round low_inv_def prod.case r by (auto simp: inv(2) add.commute)
  qed
qed

lemma top_inv_round:
  assumes "top_inv W (2 * k) s" and "0 < k"
  shows "top_inv W k (fls_round (push_bit (64 - k) (NOT 0)) k s)"
proof -
  obtain r w where s: "s = (r, w)" by (cases s)
  from assms(1) have inv: "2 * k \<le> Suc (unat r)" "unat r < 64" "w = push_bit (63 - unat r) W"
    "\<forall>i > unat r. \<not> bit W i" "\<exists>i \<ge> 64 - 2 * k. bit w i"
    by (auto simp: top_inv_def s)
  have k: "k \<le> 64" using inv(1,2) by simp
  show ?thesis
  proof (cases "\<exists>i \<ge> 64 - k. bit w i")
    case True
    then have "fls_round (push_bit (64 - k) (NOT 0)) k s = (r, w)" unfolding s fls_round_mask [OF k] by (simp only: if_True)
    with True inv show ?thesis by (simp add: top_inv_def)
  next
    case False
    then have round: "fls_round (push_bit (64 - k) (NOT 0)) k s = (r - of_nat k, push_bit k w)"
      unfolding s fls_round_mask [OF k] by (simp only: if_False)
    have "of_nat k \<le> r" using inv(1) k assms(2) by (simp add: word_le_nat_alt unat_of_nat_u64)
    then have r: "unat (r - of_nat k) = unat r - k" using k by (simp add: unat_sub unat_of_nat_u64)
    have above: "\<not> bit W i" if "unat r - k < i" for i
    proof (cases "unat r < i")
      case g: False
      with that inv(1,2) False have "\<not> bit w (63 - unat r + i)" by auto
      with g inv(2) show ?thesis by (simp add: inv(3) bit_push_bit_iff)
    qed (use inv(4) in blast)
    obtain i where i: "64 - 2 * k \<le> i" "bit w i" using inv(5) by blast
    moreover from this(2) False have "i < 64 - k" by (auto simp: not_le)
    ultimately have "bit (push_bit k w) (i + k)" "64 - k \<le> i + k" using k by (auto simp: bit_push_bit_iff)
    moreover have "push_bit k w = push_bit (63 - (unat r - k)) W"
      using inv(1,2) by (simp add: inv(3) add.commute)
    ultimately show ?thesis
      using inv(1,2) above unfolding round top_inv_def prod.case r by auto
  qed
qed


section \<open>The searches\<close>

lemma ffs_long_rounds:
  "ffs_long W = fst (ffs_round (mask 1) 1 (ffs_round (mask 2) 2 (ffs_round (mask 4) 4 (ffs_round (mask 8) 8
     (ffs_round (mask 16) 16 (ffs_round (mask 32) 32 (0, W)))))))"
proof -
  have m: "(0xffffffff :: u64) = mask 32" "(0xffff :: u64) = mask 16" "(0xff :: u64) = mask 8" "(0xf :: u64) = mask 4"
    "(0x3 :: u64) = mask 2" by (simp_all add: mask_eq_exp_minus_1)
  have "(if \<not> c_true (w AND 0x1) then r + 1 else r) = fst (ffs_round (mask 1) 1 (r, w))" for r w
    by (simp add: ffs_round_def)
  then show ?thesis unfolding ffs_long_def m by (simp only: Let_def case_prod_beta prod.collapse)
qed

lemma fls_long_rounds:
  "fls_long W = fst (fls_round (push_bit (64 - 1) (NOT 0)) 1 (fls_round (push_bit (64 - 2) (NOT 0)) 2
     (fls_round (push_bit (64 - 4) (NOT 0)) 4 (fls_round (push_bit (64 - 8) (NOT 0)) 8
     (fls_round (push_bit (64 - 16) (NOT 0)) 16 (fls_round (push_bit (64 - 32) (NOT 0)) 32 (63, W)))))))"
proof -
  have m: "(64 :: u64) - 1 = 63" "push_bit 32 (NOT 0) = (push_bit (64 - 32) (NOT 0) :: u64)" by simp_all
  have "(if \<not> c_true (w AND push_bit (64 - 1) (NOT 0)) then r - 1 else r) = fst (fls_round (push_bit (64 - 1) (NOT 0)) 1 (r, w))"
    for r w unfolding fls_round_def by (simp only: prod.case of_nat_1 fst_conv split: if_split) blast
  then show ?thesis unfolding fls_long_def m by (simp only: Let_def case_prod_beta prod.collapse)
qed

lemma ffs_long_correct:
  assumes "W \<noteq> 0"
  shows "bit W (unat (ffs_long W)) \<and> (\<forall>i < unat (ffs_long W). \<not> bit W i)"
proof -
  have "low_inv W (2 * 32) (0, W)" using assms by (simp add: low_inv_def nonzero_bit)
  note i = low_inv_round [OF this] low_inv_round [of W 16] low_inv_round [of W 8] low_inv_round [of W 4]
    low_inv_round [of W 2] low_inv_round [of W 1]
  then have "low_inv W 1 (ffs_round (mask 1) 1 (ffs_round (mask 2) 2 (ffs_round (mask 4) 4 (ffs_round (mask 8) 8
     (ffs_round (mask 16) 16 (ffs_round (mask 32) 32 (0, W)))))))" (is "low_inv W 1 ?s")
    by simp
  then show ?thesis unfolding ffs_long_rounds by (cases ?s) (simp add: low_inv_def bit_drop_bit_eq)
qed

lemma fls_long_correct:
  assumes "W \<noteq> 0"
  shows "bit W (unat (fls_long W)) \<and> (\<forall>i > unat (fls_long W). \<not> bit W i)"
proof -
  have "top_inv W (2 * 32) (63, W)" using assms by (auto simp: top_inv_def nonzero_bit dest: bit_u64_less)
  note i = top_inv_round [OF this] top_inv_round [of W 16] top_inv_round [of W 8] top_inv_round [of W 4]
    top_inv_round [of W 2] top_inv_round [of W 1]
  have "top_inv W (2 * 16) (fls_round (push_bit (64 - 32) (NOT 0)) 32 (63, W))" using i(1) by simp
  from i(2) [OF this] have "top_inv W (2 * 8) (fls_round (push_bit (64 - 16) (NOT 0)) 16
      (fls_round (push_bit (64 - 32) (NOT 0)) 32 (63, W)))" by simp
  from i(3) [OF this] have "top_inv W (2 * 4) (fls_round (push_bit (64 - 8) (NOT 0)) 8 (fls_round (push_bit (64 - 16) (NOT 0)) 16
      (fls_round (push_bit (64 - 32) (NOT 0)) 32 (63, W))))" by simp
  from i(4) [OF this] have "top_inv W (2 * 2) (fls_round (push_bit (64 - 4) (NOT 0)) 4 (fls_round (push_bit (64 - 8) (NOT 0)) 8
      (fls_round (push_bit (64 - 16) (NOT 0)) 16 (fls_round (push_bit (64 - 32) (NOT 0)) 32 (63, W)))))" by simp
  from i(5) [OF this] have "top_inv W (2 * 1) (fls_round (push_bit (64 - 2) (NOT 0)) 2 (fls_round (push_bit (64 - 4) (NOT 0)) 4
      (fls_round (push_bit (64 - 8) (NOT 0)) 8 (fls_round (push_bit (64 - 16) (NOT 0)) 16
      (fls_round (push_bit (64 - 32) (NOT 0)) 32 (63, W))))))" by simp
  from i(6) [OF this] obtain r w where "fls_long W = r" "top_inv W 1 (r, w)"
    unfolding fls_long_rounds by (metis prod.collapse zero_less_one)
  then obtain i where r: "unat (fls_long W) < 64" "\<forall>j > unat (fls_long W). \<not> bit W j" and i: "63 \<le> i"
      "bit (push_bit (63 - unat (fls_long W)) W) i" by (auto simp: top_inv_def)
  have "i = 63" using i(1) bit_u64_less [OF i(2)] by simp
  with r i(2) show ?thesis by (simp add: bit_push_bit_iff)
qed

text \<open>Positions are small, so the conversions of the results change nothing.\<close>

lemma small_position:
  assumes "unat (r :: u64) < 64"
  shows "sint (ucast r :: u32) = int (unat r)"
proof -
  have "r = of_nat (unat r)" by simp
  then obtain n where n: "r = of_nat n" "n < 64" using assms by blast
  have "(ucast (of_nat n :: u64) :: u32) = of_nat n"
    using n(2) by (simp add: word_unat_eq_iff unsigned_of_nat unsigned_ucast_eq take_bit_nat_eq_self)
  moreover have "sint (of_nat n :: u32) = int n"
    using n(2) signed_take_bit_int_eq_self [of 31 "int n"] by (simp add: signed_of_nat)
  ultimately show ?thesis using n by (simp add: unat_of_nat_u64)
qed

lemma least_bit: "bit w n \<Longrightarrow> (\<forall>i < n. \<not> bit w i) \<Longrightarrow> (LEAST i. bit w i) = n"
  by (rule Least_equality) (auto simp: not_less [symmetric])

lemma arch_fls64_top:
  assumes "\<And>n. bit x n \<Longrightarrow> \<not> (\<exists>m > n. bit x m) \<Longrightarrow> f = Suc n" and "x = 0 \<Longrightarrow> f = 0"
  shows "arch_fls64 x = int f"
proof (cases "x = 0")
  case False
  note b = fls_long_correct [OF False]
  then have "f = Suc (unat (fls_long x))" using assms(1) by blast
  with False small_position [OF bit_u64_less [OF conjunct1 [OF b]]] show ?thesis by (simp add: arch_fls64_def)
qed (simp add: arch_fls64_def assms(2))

lemma fls_unique: "bit (x :: u32) n \<Longrightarrow> \<not> (\<exists>m > n. bit x m) \<Longrightarrow> fls x = Suc n"
proof -
  assume n: "bit x n" "\<not> (\<exists>m > n. bit x m)"
  then have "x \<noteq> 0" by auto
  then have "bit x (fls x - 1)" "0 < fls x" using fls_top_bit fls_bounds(1) by blast+
  moreover have "\<not> fls x \<le> n" using n(1) fls_above by blast
  moreover have "\<not> n < fls x - 1" using n(2) calculation(1) by blast
  ultimately show ?thesis by linarith
qed

lemma ucast_zero_iff: "(ucast (x :: u32) :: u64) = 0 \<longleftrightarrow> x = 0"
  using unat_u32_less [of x] by (simp add: word_unat_eq_iff unsigned_ucast_eq take_bit_nat_eq_self)

lemma bit_u32_less: "bit (x :: u32) i \<Longrightarrow> i < 64"
  using bit_imp_le_length [of x i] by simp

text \<open>Bit searches.  The searches for the last set bit agree with the ones of the LPM trie;
  the search for the first set bit counts from one and gives 0 for 0; the search for the first zero
  bit finds it unless there is none.\<close>

theorem bit_searches_correct:
  "arch_fls x = int (fls x) \<and> arch_fls64 w = int (fls64 w) \<and>
   ffs x = (if x = 0 then 0 else int (LEAST n. bit x n) + 1) \<and>
   (w = - 1 \<or> unat (ffz w) = (LEAST n. \<not> bit w n))"
proof -
  have "arch_fls x = arch_fls64 (ucast x)" by (simp add: arch_fls_def arch_fls64_def ucast_zero_iff)
  also have "\<dots> = int (fls x)"
    by (rule arch_fls64_top) (auto intro!: fls_unique simp: bit_ucast_iff ucast_zero_iff dest: bit_u32_less)
  finally have 1: "arch_fls x = int (fls x)" .
  have 2: "arch_fls64 w = int (fls64 w)"
  proof (rule arch_fls64_top)
    fix n assume n: "bit w n" "\<not> (\<exists>m > n. bit w m)"
    show "fls64 w = Suc n"
    proof (cases "n < 32")
      case True
      then have "(ucast (drop_bit 32 w) :: u32) = 0" using n by (auto simp: bit_eq_iff bit_ucast_iff bit_drop_bit_eq)
      moreover have "fls (ucast w) = Suc n" using n True by (intro fls_unique) (auto simp: bit_ucast_iff)
      ultimately show ?thesis by (simp add: fls64_def)
    next
      case False
      have "fls (ucast (drop_bit 32 w)) = Suc (n - 32)"
        using n False bit_u64_less [OF n(1)] by (intro fls_unique) (auto simp: bit_ucast_iff bit_drop_bit_eq)
      moreover from this have "(ucast (drop_bit 32 w) :: u32) \<noteq> 0" by auto
      ultimately show ?thesis using False by (simp add: fls64_def)
    qed
  qed (simp add: fls64_def)
  have 3: "ffs x = (if x = 0 then 0 else int (LEAST n. bit x n) + 1)"
  proof (cases "x = 0")
    case False
    then have "(ucast x :: u64) \<noteq> 0" by (simp add: ucast_zero_iff)
    note b = ffs_long_correct [OF this]
    then have "(LEAST n. bit x n) = unat (ffs_long (ucast x))" by (intro least_bit) (auto simp: bit_ucast_iff)
    with False small_position [OF bit_u64_less [OF conjunct1 [OF b]]] show ?thesis by (simp add: ffs_def)
  qed (simp add: ffs_def)
  have 4: "w = - 1 \<or> unat (ffz w) = (LEAST n. \<not> bit w n)"
  proof (cases "w = - 1")
    case False
    then have "NOT w \<noteq> 0" by (metis bit.double_compl bit.compl_zero)
    note b = ffs_long_correct [OF this]
    then have "(LEAST n. \<not> bit w n) = unat (ffs_long (NOT w))"
      by (intro Least_equality) (auto simp: bit_not_iff not_less [symmetric] dest: bit_u64_less)
    then show ?thesis by (simp add: ffz_def)
  qed simp
  from 1 2 3 4 show ?thesis by blast
qed

end
