(* ===== verification/Cpumask.thy ===== *)
theory Cpumask
  imports Bpf_Prelude
begin

text \<open>
  Model of \<^verbatim>\<open>shims/cpumask/include/linux/cpumask.h\<close>: CPU masks of one word for eight CPUs.  A CPU number
  an operation is called with is a \<^verbatim>\<open>u32\<close>, and \<^verbatim>\<open>1UL << cpu\<close> is defined below the width of the word only: the
  operations that shift by a caller's number return an \<open>option\<close>, \<open>None\<close> where C leaves the shift undefined.
  A loop over the eight CPUs that returns at the first hit is a search in the list of the CPUs.

  The abstract view of a mask is the set of its valid CPUs.  A mask is clean if it has no other
  bits; the lemmas say which operations clean a mask, which keep it clean, and what they compute.
\<close>

section \<open>The code\<close>

record cpumask =
  cm_bits :: u64 \<comment> \<open>\<^verbatim>\<open>bits[0]\<close>\<close>

definition BPF_CPUMASK_NR_CPUS :: nat where "BPF_CPUMASK_NR_CPUS = 8"

definition bpf_cpumask_valid_mask :: u64 where
  "bpf_cpumask_valid_mask = push_bit BPF_CPUMASK_NR_CPUS 1 - 1"

definition cpumask_first :: "cpumask \<Rightarrow> nat" where
  "cpumask_first srcp =
     (let bits = cm_bits srcp AND bpf_cpumask_valid_mask
      in case find (\<lambda>cpu. c_true (bits AND push_bit cpu 1)) [0..<BPF_CPUMASK_NR_CPUS] of
           Some cpu \<Rightarrow> cpu | None \<Rightarrow> BPF_CPUMASK_NR_CPUS)"

definition cpumask_first_zero :: "cpumask \<Rightarrow> nat" where
  "cpumask_first_zero srcp =
     (let bits = cm_bits srcp AND bpf_cpumask_valid_mask
      in case find (\<lambda>cpu. \<not> c_true (bits AND push_bit cpu 1)) [0..<BPF_CPUMASK_NR_CPUS] of
           Some cpu \<Rightarrow> cpu | None \<Rightarrow> BPF_CPUMASK_NR_CPUS)"

definition cpumask_first_and :: "cpumask \<Rightarrow> cpumask \<Rightarrow> nat" where
  "cpumask_first_and srcp1 srcp2 = (let tmp = \<lparr>cm_bits = cm_bits srcp1 AND cm_bits srcp2\<rparr> in cpumask_first tmp)"

text \<open>\<^verbatim>\<open>1UL << cpu\<close>\<close>

definition cpu_bit :: "u32 \<Rightarrow> u64 option" where
  "cpu_bit cpu = (if cpu < 64 then Some (push_bit (unat cpu) 1) else None)"

definition cpumask_set_cpu :: "u32 \<Rightarrow> cpumask \<Rightarrow> cpumask option" where
  "cpumask_set_cpu cpu dstp = (case cpu_bit cpu of
     None \<Rightarrow> None
   | Some b \<Rightarrow>
       let dstp = dstp\<lparr>cm_bits := cm_bits dstp OR b\<rparr>
       in Some (dstp\<lparr>cm_bits := cm_bits dstp AND bpf_cpumask_valid_mask\<rparr>))"

definition cpumask_clear_cpu :: "u32 \<Rightarrow> cpumask \<Rightarrow> cpumask option" where
  "cpumask_clear_cpu cpu dstp = (case cpu_bit cpu of
     None \<Rightarrow> None
   | Some b \<Rightarrow> Some (dstp\<lparr>cm_bits := cm_bits dstp AND NOT b\<rparr>))"

definition cpumask_test_cpu :: "u32 \<Rightarrow> cpumask \<Rightarrow> bool option" where
  "cpumask_test_cpu cpu srcp = (case cpu_bit cpu of
     None \<Rightarrow> None
   | Some b \<Rightarrow> Some (c_true (cm_bits srcp AND b)))"

definition cpumask_test_and_set_cpu :: "u32 \<Rightarrow> cpumask \<Rightarrow> (bool \<times> cpumask) option" where
  "cpumask_test_and_set_cpu cpu dstp = (case cpumask_test_cpu cpu dstp of
     None \<Rightarrow> None
   | Some old \<Rightarrow> map_option (Pair old) (cpumask_set_cpu cpu dstp))"

definition cpumask_test_and_clear_cpu :: "u32 \<Rightarrow> cpumask \<Rightarrow> (bool \<times> cpumask) option" where
  "cpumask_test_and_clear_cpu cpu dstp = (case cpumask_test_cpu cpu dstp of
     None \<Rightarrow> None
   | Some old \<Rightarrow> map_option (Pair old) (cpumask_clear_cpu cpu dstp))"

definition cpumask_setall :: "cpumask \<Rightarrow> cpumask" where
  "cpumask_setall dstp = dstp\<lparr>cm_bits := bpf_cpumask_valid_mask\<rparr>"

definition cpumask_clear :: "cpumask \<Rightarrow> cpumask" where
  "cpumask_clear dstp = dstp\<lparr>cm_bits := 0\<rparr>"

definition cpumask_and :: "cpumask \<Rightarrow> cpumask \<Rightarrow> cpumask \<Rightarrow> bool \<times> cpumask" where
  "cpumask_and dstp srcp1 srcp2 =
     (let dstp = dstp\<lparr>cm_bits := (cm_bits srcp1 AND cm_bits srcp2) AND bpf_cpumask_valid_mask\<rparr>
      in (cm_bits dstp \<noteq> 0, dstp))"

definition cpumask_or :: "cpumask \<Rightarrow> cpumask \<Rightarrow> cpumask \<Rightarrow> cpumask" where
  "cpumask_or dstp srcp1 srcp2 = dstp\<lparr>cm_bits := (cm_bits srcp1 OR cm_bits srcp2) AND bpf_cpumask_valid_mask\<rparr>"

definition cpumask_xor :: "cpumask \<Rightarrow> cpumask \<Rightarrow> cpumask \<Rightarrow> cpumask" where
  "cpumask_xor dstp srcp1 srcp2 = dstp\<lparr>cm_bits := (cm_bits srcp1 XOR cm_bits srcp2) AND bpf_cpumask_valid_mask\<rparr>"

definition cpumask_equal :: "cpumask \<Rightarrow> cpumask \<Rightarrow> bool" where
  "cpumask_equal srcp1 srcp2 \<longleftrightarrow>
     cm_bits srcp1 AND bpf_cpumask_valid_mask = cm_bits srcp2 AND bpf_cpumask_valid_mask"

definition cpumask_intersects :: "cpumask \<Rightarrow> cpumask \<Rightarrow> bool" where
  "cpumask_intersects srcp1 srcp2 \<longleftrightarrow> (cm_bits srcp1 AND cm_bits srcp2) AND bpf_cpumask_valid_mask \<noteq> 0"

definition cpumask_subset :: "cpumask \<Rightarrow> cpumask \<Rightarrow> bool" where
  "cpumask_subset srcp1 srcp2 \<longleftrightarrow>
     (let msk = bpf_cpumask_valid_mask in (cm_bits srcp1 AND msk) AND NOT (cm_bits srcp2) = 0)"

definition cpumask_empty :: "cpumask \<Rightarrow> bool" where
  "cpumask_empty srcp \<longleftrightarrow> cm_bits srcp AND bpf_cpumask_valid_mask = 0"

definition cpumask_full :: "cpumask \<Rightarrow> bool" where
  "cpumask_full srcp \<longleftrightarrow> cm_bits srcp AND bpf_cpumask_valid_mask = bpf_cpumask_valid_mask"

definition cpumask_copy :: "cpumask \<Rightarrow> cpumask \<Rightarrow> cpumask" where
  "cpumask_copy dstp srcp = dstp\<lparr>cm_bits := cm_bits srcp AND bpf_cpumask_valid_mask\<rparr>"

definition bitmap_copy :: "u64 \<Rightarrow> u64" where
  "bitmap_copy src = src AND bpf_cpumask_valid_mask"

definition cpumask_any_distribute :: "cpumask \<Rightarrow> nat" where
  "cpumask_any_distribute srcp = cpumask_first srcp"

definition cpumask_any_and_distribute :: "cpumask \<Rightarrow> cpumask \<Rightarrow> nat" where
  "cpumask_any_and_distribute srcp1 srcp2 = cpumask_first_and srcp1 srcp2"

definition cpumask_weight :: "cpumask \<Rightarrow> u32" where
  "cpumask_weight srcp =
     (let bits = cm_bits srcp AND bpf_cpumask_valid_mask
      in fold (\<lambda>cpu weight. weight + (if c_true (bits AND push_bit cpu 1) then 1 else 0)) [0..<BPF_CPUMASK_NR_CPUS] 0)"

section \<open>Masks as sets\<close>

definition cpus :: "cpumask \<Rightarrow> nat set" where
  "cpus m = {i. i < BPF_CPUMASK_NR_CPUS \<and> bit (cm_bits m) i}"

definition clean :: "cpumask \<Rightarrow> bool" where
  "clean m \<longleftrightarrow> cm_bits m AND bpf_cpumask_valid_mask = cm_bits m"

lemma cpu_less_64: "i < BPF_CPUMASK_NR_CPUS \<Longrightarrow> i < 64"
  by (simp add: BPF_CPUMASK_NR_CPUS_def)

lemma bit_valid_mask: "bit bpf_cpumask_valid_mask i \<longleftrightarrow> i < BPF_CPUMASK_NR_CPUS"
proof -
  have "bpf_cpumask_valid_mask = (mask 8 :: u64)"
    by (simp add: bpf_cpumask_valid_mask_def BPF_CPUMASK_NR_CPUS_def mask_eq_exp_minus_1)
  moreover have "bit (mask 8 :: u64) i \<longleftrightarrow> i < 8" unfolding bit_mask_iff by auto
  ultimately show ?thesis by (simp only: BPF_CPUMASK_NR_CPUS_def)
qed

lemma valid_eq_iff:
  "(a :: u64) AND bpf_cpumask_valid_mask = b AND bpf_cpumask_valid_mask \<longleftrightarrow>
    (\<forall>i < BPF_CPUMASK_NR_CPUS. bit a i = bit b i)"
  by (auto simp: bit_eq_iff bit_and_iff bit_valid_mask dest: cpu_less_64)

lemmas mask_bits = bit_and_iff bit_or_iff bit_xor_iff bit_not_iff bit_valid_mask c_true_and_bit cpu_less_64

lemma valid_zero_iff: "(a :: u64) AND bpf_cpumask_valid_mask = 0 \<longleftrightarrow> (\<forall>i < BPF_CPUMASK_NR_CPUS. \<not> bit a i)"
  using valid_eq_iff [of a 0] by simp

lemma clean_iff: "clean m \<longleftrightarrow> (\<forall>i. bit (cm_bits m) i \<longrightarrow> i < BPF_CPUMASK_NR_CPUS)"
proof
  show "clean m \<Longrightarrow> \<forall>i. bit (cm_bits m) i \<longrightarrow> i < BPF_CPUMASK_NR_CPUS"
    unfolding clean_def by (metis bit_and_iff bit_valid_mask)
qed (auto simp: clean_def bit_eq_iff bit_and_iff bit_valid_mask)

lemma first_cpu:
  assumes "\<And>i. i < BPF_CPUMASK_NR_CPUS \<Longrightarrow> P i \<longleftrightarrow> i \<in> S" and "S \<subseteq> {..<BPF_CPUMASK_NR_CPUS}"
  shows "(case find P [0..<BPF_CPUMASK_NR_CPUS] of Some cpu \<Rightarrow> cpu | None \<Rightarrow> BPF_CPUMASK_NR_CPUS) =
    (if S = {} then BPF_CPUMASK_NR_CPUS else Min S)"
proof (cases "find P [0..<BPF_CPUMASK_NR_CPUS]")
  case None
  then have "S = {}" using assms by (fastforce simp: find_None_iff)
  with None show ?thesis by simp
next
  case (Some cpu)
  then have c: "cpu < BPF_CPUMASK_NR_CPUS" "P cpu" "\<forall>j < cpu. \<not> P j" by (auto simp: find_Some_iff)
  then have "cpu \<in> S" using assms(1) by blast
  moreover have "finite S" using assms(2) finite_subset by blast
  moreover have "cpu \<le> i" if "i \<in> S" for i
    using c(3) that assms by (metis lessThan_iff not_le subsetD)
  ultimately have "S \<noteq> {}" "Min S = cpu" by (auto intro: Min_eqI)
  with Some show ?thesis by simp
qed

lemma weight_card:
  "fold (\<lambda>cpu weight. weight + (if P cpu then 1 else 0)) [0..<n] (0 :: u32) = of_nat (card {i. i < n \<and> P i})"
proof (induction n)
  case (Suc n)
  have "{i. i < Suc n \<and> P i} = (if P n then insert n {i. i < n \<and> P i} else {i. i < n \<and> P i})"
    by (auto simp: less_Suc_eq)
  with Suc show ?case by simp
qed simp

section \<open>Properties\<close>

text \<open>Queries.  The queries decide the set relations on the valid CPUs, whatever other bits the masks
  have: the first CPU in or not in a mask or in two masks (the number of CPUs if there is none), their
  number, equality, intersection, inclusion, emptiness and fullness.\<close>

theorem cpumask_queries_correct:
  "cpumask_first m = (if cpus m = {} then 8 else Min (cpus m)) \<and>
   cpumask_first_zero m = (if {..<8} - cpus m = {} then 8 else Min ({..<8} - cpus m)) \<and>
   cpumask_first_and m m' = (if cpus m \<inter> cpus m' = {} then 8 else Min (cpus m \<inter> cpus m')) \<and>
   unat (cpumask_weight m) = card (cpus m) \<and>
   cpumask_equal m m' = (cpus m = cpus m') \<and> cpumask_intersects m m' = (cpus m \<inter> cpus m' \<noteq> {}) \<and>
   cpumask_subset m m' = (cpus m \<subseteq> cpus m') \<and> cpumask_empty m = (cpus m = {}) \<and> cpumask_full m = (cpus m = {..<8})"
proof -
  have nr: "BPF_CPUMASK_NR_CPUS = 8" by (simp add: BPF_CPUMASK_NR_CPUS_def)
  have first: "cpumask_first m = (if cpus m = {} then 8 else Min (cpus m))" for m
    unfolding cpumask_first_def Let_def nr [symmetric] c_true_and_bit by (rule first_cpu) (auto simp: mask_bits cpus_def)
  have zero: "cpumask_first_zero m = (if {..<8} - cpus m = {} then 8 else Min ({..<8} - cpus m))"
    unfolding cpumask_first_zero_def Let_def nr [symmetric] c_true_and_bit by (rule first_cpu) (auto simp: mask_bits cpus_def)
  have fand: "cpumask_first_and m m' = (if cpus m \<inter> cpus m' = {} then 8 else Min (cpus m \<inter> cpus m'))"
  proof -
    have "cpus \<lparr>cm_bits = cm_bits m AND cm_bits m'\<rparr> = cpus m \<inter> cpus m'" by (auto simp: cpus_def bit_and_iff)
    then show ?thesis by (simp add: cpumask_first_and_def first)
  qed
  have "cpus m \<subseteq> {..<8}" by (auto simp: cpus_def nr)
  then have "card (cpus m) \<le> 8" using card_mono [of "{..<8}" "cpus m"] by simp
  moreover have "{i. i < BPF_CPUMASK_NR_CPUS \<and> c_true ((cm_bits m AND bpf_cpumask_valid_mask) AND push_bit i 1)} = cpus m"
    unfolding c_true_and_bit by (auto simp: mask_bits cpus_def)
  ultimately have weight: "unat (cpumask_weight m) = card (cpus m)"
    unfolding cpumask_weight_def Let_def weight_card by (simp add: unat_of_nat_u32)
  have sub: "cpumask_subset m m' = (cpus m \<subseteq> cpus m')"
  proof -
    have "(cm_bits m AND bpf_cpumask_valid_mask) AND NOT (cm_bits m') = (cm_bits m AND NOT (cm_bits m')) AND bpf_cpumask_valid_mask"
      by (simp add: ac_simps)
    then show ?thesis unfolding cpumask_subset_def Let_def by (auto simp: valid_zero_iff mask_bits cpus_def)
  qed
  have full: "cpumask_full m = (cpus m = {..<8})"
    using valid_eq_iff [of "cm_bits m" "- 1"] by (auto simp: cpumask_full_def cpus_def nr)
  show ?thesis using first zero fand weight sub full
    by (auto simp: cpumask_equal_def cpumask_intersects_def cpumask_empty_def valid_eq_iff valid_zero_iff mask_bits cpus_def)
qed

text \<open>The operations that change a mask, on the destination.  A sequence is undefined from its first undefined
  operation on; the results of the two test-and-modify calls are kept in order.\<close>

datatype cpumask_op = Set_cpu u32 | Clear_cpu u32 | Set_all | Clear_all | And cpumask | Or cpumask | Xor cpumask | Copy cpumask

fun cpumask_step :: "cpumask_op \<Rightarrow> cpumask \<Rightarrow> (bool list \<times> cpumask) option" where
  "cpumask_step (Set_cpu c) m = map_option (apfst (\<lambda>old. [old])) (cpumask_test_and_set_cpu c m)"
| "cpumask_step (Clear_cpu c) m = map_option (apfst (\<lambda>old. [old])) (cpumask_test_and_clear_cpu c m)"
| "cpumask_step Set_all m = Some ([], cpumask_setall m)"
| "cpumask_step Clear_all m = Some ([], cpumask_clear m)"
| "cpumask_step (And m') m = (let (r, m) = cpumask_and m m m' in Some ([r], m))"
| "cpumask_step (Or m') m = Some ([], cpumask_or m m m')"
| "cpumask_step (Xor m') m = Some ([], cpumask_xor m m m')"
| "cpumask_step (Copy m') m = Some ([], cpumask_copy m m')"

fun cpumask_run :: "cpumask_op list \<Rightarrow> cpumask \<Rightarrow> (bool list \<times> cpumask) option" where
  "cpumask_run [] m = Some ([], m)"
| "cpumask_run (op # ops) m = (case cpumask_step op m of
     None \<Rightarrow> None
   | Some (rs, m) \<Rightarrow> map_option (apfst (append rs)) (cpumask_run ops m))"

text \<open>The same on sets of CPUs: a number from 8 to 63 is no CPU of the mask, so it is neither set nor reported.\<close>

fun set_step :: "cpumask_op \<Rightarrow> nat set \<Rightarrow> bool list \<times> nat set" where
  "set_step (Set_cpu c) S = ([unat c \<in> S], if unat c < 8 then insert (unat c) S else S)"
| "set_step (Clear_cpu c) S = ([unat c \<in> S], S - {unat c})"
| "set_step Set_all S = ([], {..<8})"
| "set_step Clear_all S = ([], {})"
| "set_step (And m) S = ([S \<inter> cpus m \<noteq> {}], S \<inter> cpus m)"
| "set_step (Or m) S = ([], S \<union> cpus m)"
| "set_step (Xor m) S = ([], (S - cpus m) \<union> (cpus m - S))"
| "set_step (Copy m) S = ([], cpus m)"

fun set_run :: "cpumask_op list \<Rightarrow> nat set \<Rightarrow> bool list \<times> nat set" where
  "set_run [] S = ([], S)"
| "set_run (op # ops) S = (let (rs, S) = set_step op S in apfst (append rs) (set_run ops S))"

fun op_defined :: "cpumask_op \<Rightarrow> bool" where
  "op_defined (Set_cpu c) \<longleftrightarrow> c < 64"
| "op_defined (Clear_cpu c) \<longleftrightarrow> c < 64"
| "op_defined _ \<longleftrightarrow> True"

lemma test_cpu_bit: "cpu < 64 \<Longrightarrow> cpumask_test_cpu cpu m = Some (bit (cm_bits m) (unat cpu))"
  unfolding cpumask_test_cpu_def cpu_bit_def by (simp only: if_True option.case c_true_and_bit)

lemma cpumask_step_correct:
  assumes "clean m" and "op_defined op"
  shows "\<exists>rs m'. cpumask_step op m = Some (rs, m') \<and> clean m' \<and> (rs, cpus m') = set_step op (cpus m)"
proof -
  have nr: "BPF_CPUMASK_NR_CPUS = 8" by (simp add: BPF_CPUMASK_NR_CPUS_def)
  note d = cpumask_test_and_set_cpu_def cpumask_test_and_clear_cpu_def cpumask_set_cpu_def cpumask_clear_cpu_def
    cpu_bit_def cpumask_setall_def cpumask_clear_def cpumask_and_def cpumask_or_def cpumask_xor_def
    cpumask_copy_def Let_def
  have w: "c < 64 \<Longrightarrow> unat c < 64" for c :: u32 by (simp add: word_less_nat_alt)
  have valid: "bit (cm_bits m) i \<Longrightarrow> i < 8" for i using assms(1) by (simp add: clean_iff nr)
  show ?thesis
    using assms unfolding clean_iff cpus_def
    by (cases op) (auto simp: d test_cpu_bit mask_bits bit_exp_iff cpus_def nr valid_zero_iff dest: w valid)
qed

lemma cpumask_step_undefined: "\<not> op_defined op \<Longrightarrow> cpumask_step op m = None"
  by (cases op) (simp_all add: cpumask_test_and_set_cpu_def cpumask_test_and_clear_cpu_def cpumask_test_cpu_def cpu_bit_def)

text \<open>C31: Sequences.  A sequence of operations on a clean mask is defined exactly if every CPU number it sets or
  clears is below the width of the word.  Then the mask is clean afterwards, and its set of CPUs and the
  truth values the operations return are those of the set operations; a number that is no CPU of
  the mask changes nothing.\<close>

theorem cpumask_sequence_correct:
  assumes "clean m"
  shows "if list_all op_defined ops
    then \<exists>rs m'. cpumask_run ops m = Some (rs, m') \<and> clean m' \<and> (rs, cpus m') = set_run ops (cpus m)
    else cpumask_run ops m = None"
  using assms
proof (induction ops arbitrary: m)
  case (Cons op ops)
  show ?case
  proof (cases "op_defined op")
    case True
    then obtain rs m' where s: "cpumask_step op m = Some (rs, m')" "clean m'" "set_step op (cpus m) = (rs, cpus m')"
      using cpumask_step_correct [OF Cons.prems] by (metis (no_types))
    show ?thesis using Cons.IH [OF s(2)] True s by (auto simp: apfst_def map_prod_def split: prod.splits)
  next
    case False
    then show ?thesis by (simp add: cpumask_step_undefined)
  qed
qed simp

theorem cpumask_sequence_correct_witness:
  "\<exists>rs m'. cpumask_run [Set_all, Clear_cpu 3, Set_cpu 9, Xor \<lparr>cm_bits = 0xff0f\<rparr>] \<lparr>cm_bits = 0\<rparr> = Some (rs, m') \<and>
     rs = [True, False] \<and> cpus m' = ({..<8} - {3} - cpus \<lparr>cm_bits = 0xff0f\<rparr>) \<union> (cpus \<lparr>cm_bits = 0xff0f\<rparr> - ({..<8} - {3}))"
  using cpumask_sequence_correct [of "\<lparr>cm_bits = 0\<rparr>" "[Set_all, Clear_cpu 3, Set_cpu 9, Xor \<lparr>cm_bits = 0xff0f\<rparr>]"]
  by (auto simp: clean_def simp del: cpumask_run.simps)

end
