(* ===== verification/Cfg_Sort.thy ===== *)
theory Cfg_Sort
  imports Bpf_Prelude "HOL-Library.Multiset"
begin

text \<open>
  Model of \<^verbatim>\<open>shims/cfg/include/linux/sort.h\<close>: the exchange sort of 32-bit items that stands in for the
  kernel's heap sort.  The comparison is a parameter, as in the source; the theorem assumes that it
  is a total preorder.  The counters are \<^verbatim>\<open>u32\<close> and the number of items is a \<^verbatim>\<open>size_t\<close>: the counters wrap,
  so from \<^verbatim>\<open>2^32\<close> items on the loops never end.  Each \<^verbatim>\<open>for\<close> loop is therefore a function to \<open>option\<close>, with
  \<open>None\<close> for a loop that does not end.
\<close>

section \<open>The code\<close>

definition sort_exchange :: "(u32 \<Rightarrow> u32 \<Rightarrow> cint) \<Rightarrow> nat \<Rightarrow> nat \<Rightarrow> u32 list \<Rightarrow> u32 list" where
  "sort_exchange cmp i j items =
     (if cmp (items ! i) (items ! j) > 0
      then let tmp = items ! i; items = items[i := items ! j] in items[j := tmp]
      else items)"

partial_function (option) sort_inner ::
    "(u32 \<Rightarrow> u32 \<Rightarrow> cint) \<Rightarrow> u64 \<Rightarrow> u32 \<Rightarrow> u32 \<Rightarrow> u32 list \<Rightarrow> u32 list option" where
  "sort_inner cmp num i j items =
     (if ucast j < num then sort_inner cmp num i (j + 1) (sort_exchange cmp (unat i) (unat j) items)
      else Some items)"

partial_function (option) sort_outer :: "(u32 \<Rightarrow> u32 \<Rightarrow> cint) \<Rightarrow> u64 \<Rightarrow> u32 \<Rightarrow> u32 list \<Rightarrow> u32 list option" where
  "sort_outer cmp num i items =
     (if ucast i < num
      then (case sort_inner cmp num i (i + 1) items of
              None \<Rightarrow> None
            | Some items \<Rightarrow> sort_outer cmp num (i + 1) items)
      else Some items)"

declare sort_inner.simps [code] sort_outer.simps [code]

definition cfg_sort :: "(u32 \<Rightarrow> u32 \<Rightarrow> cint) \<Rightarrow> u32 list \<Rightarrow> u64 \<Rightarrow> u32 list option" where
  "cfg_sort cmp items num = sort_outer cmp num 0 items"

section \<open>Loops below the wrap-around\<close>

text \<open>With fewer than \<^verbatim>\<open>2^32\<close> items the counters do not wrap, and each loop ends and is a fold over
  its indices.\<close>

lemma counter_below:
  assumes "unat num < 2 ^ 32"
  shows "ucast (j :: u32) < (num :: u64) \<longleftrightarrow> unat j < unat num"
    and "unat j < unat num \<Longrightarrow> unat (j + 1) = Suc (unat j)"
proof -
  have "unat (ucast j :: u64) = unat j" by (rule unat_ucast_up) simp
  then show "ucast j < num \<longleftrightarrow> unat j < unat num" by (simp add: word_less_nat_alt)
  assume "unat j < unat num"
  then have "unat j + 1 < 2 ^ 32" using assms by linarith
  then show "unat (j + 1) = Suc (unat j)" by (simp add: unat_word_ariths)
qed

definition inner_fold :: "(u32 \<Rightarrow> u32 \<Rightarrow> cint) \<Rightarrow> nat \<Rightarrow> nat \<Rightarrow> u32 list \<Rightarrow> u32 list" where
  "inner_fold cmp num i items = fold (sort_exchange cmp i) [i + 1..<num] items"

lemma sort_inner_fold:
  assumes "unat num < 2 ^ 32"
  shows "sort_inner cmp num i j items = Some (fold (sort_exchange cmp (unat i)) [unat j..<unat num] items)"
proof (induction "unat num - unat j" arbitrary: j items)
  case 0
  then show ?case using counter_below(1)[OF assms, of j] by (subst sort_inner.simps) simp
next
  case (Suc n)
  then have j: "unat j < unat num" by simp
  note s = counter_below(2)[OF assms j]
  have "n = unat num - unat (j + 1)" using Suc.hyps(2) s by simp
  from Suc.hyps(1)[OF this] show ?case
    using j s counter_below(1)[OF assms, of j] by (subst sort_inner.simps) (simp add: upt_conv_Cons)
qed

lemma sort_outer_fold:
  assumes "unat num < 2 ^ 32"
  shows "sort_outer cmp num i items = Some (fold (inner_fold cmp (unat num)) [unat i..<unat num] items)"
proof (induction "unat num - unat i" arbitrary: i items)
  case 0
  then show ?case using counter_below(1)[OF assms, of i] by (subst sort_outer.simps) simp
next
  case (Suc n)
  then have i: "unat i < unat num" by simp
  note s = counter_below(2)[OF assms i]
  have "n = unat num - unat (i + 1)" using Suc.hyps(2) s by simp
  from Suc.hyps(1)[OF this] show ?case
    using i s counter_below(1)[OF assms, of i]
    by (subst sort_outer.simps) (simp add: upt_conv_Cons sort_inner_fold[OF assms] inner_fold_def)
qed

text \<open>From \<^verbatim>\<open>2^32\<close> items on every value of a counter is below the number of items, and the first loop
  that is entered runs forever.\<close>

lemma sort_inner_diverges:
  assumes "2 ^ 32 \<le> unat num"
  shows "sort_inner cmp num i j items = None"
proof (rule ccontr)
  have below: "ucast (j :: u32) < num" for j
    using assms unat_u32_less[of j] by (simp add: word_less_nat_alt)
  assume "sort_inner cmp num i j items \<noteq> None"
  then obtain r where r: "sort_inner cmp num i j items = Some r" by blast
  have "num \<noteq> num"
  proof (rule sort_inner.raw_induct[where P = "\<lambda>cmp n i j items r. n \<noteq> num", OF _ r])
    fix f cmp' and n :: u64 and i' j' :: u32 and items' r'
    assume IH: "\<And>cmp n i j items r. f cmp n i j items = Some r \<Longrightarrow> n \<noteq> num"
      and body: "(if ucast j' < n then f cmp' n i' (j' + 1) (sort_exchange cmp' (unat i') (unat j') items') else Some items') = Some r'"
    show "n \<noteq> num" using IH body below[of j'] by (auto split: if_splits)
  qed
  then show False by simp
qed

section \<open>The loops\<close>

definition total_preorder :: "('a \<Rightarrow> 'a \<Rightarrow> cint) \<Rightarrow> bool" where
  "total_preorder cmp \<longleftrightarrow> (\<forall>a b. cmp a b \<le> 0 \<or> cmp b a \<le> 0) \<and> (\<forall>a b c. cmp a b \<le> 0 \<longrightarrow> cmp b c \<le> 0 \<longrightarrow> cmp a c \<le> 0)"

lemma exchange_swap:
  "sort_exchange cmp i j xs = (if cmp (xs ! i) (xs ! j) > 0 then xs[i := xs ! j, j := xs ! i] else xs)"
  by (simp add: sort_exchange_def Let_def)

text \<open>What the inner loop has done up to index \<open>k\<close>: the part before \<open>i\<close> is untouched, the rest is
  permuted, and the item at \<open>i\<close> is a least one of those seen.\<close>

definition inner_inv :: "(u32 \<Rightarrow> u32 \<Rightarrow> cint) \<Rightarrow> nat \<Rightarrow> u32 list \<Rightarrow> nat \<Rightarrow> u32 list \<Rightarrow> bool" where
  "inner_inv cmp i xs k ys \<longleftrightarrow> length ys = length xs \<and> take i ys = take i xs \<and> mset (drop i ys) = mset (drop i xs) \<and>
     (\<forall>p. i < p \<and> p < k \<longrightarrow> cmp (ys ! i) (ys ! p) \<le> 0)"

lemma mset_drop_swap:
  assumes "i \<le> j" and "j < length xs"
  shows "mset (drop i (xs[i := xs ! j, j := xs ! i])) = mset (drop i xs)"
proof -
  have "drop i (xs[i := xs ! j, j := xs ! i]) = (drop i xs)[0 := drop i xs ! (j - i), j - i := drop i xs ! 0]"
    using assms by (simp add: drop_update_swap)
  then show ?thesis using mset_swap [of "j - i" "drop i xs" 0] assms by (simp add: list_update_swap)
qed

lemma inner_step:
  assumes "total_preorder cmp" and "inner_inv cmp i xs j ys" and "i < j" and "j < length xs"
  shows "inner_inv cmp i xs (Suc j) (sort_exchange cmp i j ys)"
proof (cases "cmp (ys ! i) (ys ! j) > 0")
  case True
  have le: "cmp (ys ! j) (ys ! i) \<le> 0" using assms(1) True unfolding total_preorder_def by (metis not_le)
  have "cmp (ys ! j) (ys ! p) \<le> 0" if "i < p" "p < j" for p
    using assms(1,2) le that unfolding total_preorder_def inner_inv_def by blast
  with le assms(2-4) True mset_drop_swap [of i j ys] show ?thesis
    by (auto simp: inner_inv_def exchange_swap nth_list_update less_Suc_eq)
next
  case False
  with assms(2) show ?thesis by (auto simp: inner_inv_def exchange_swap less_Suc_eq)
qed

lemma inner_loop:
  assumes "total_preorder cmp" and "i < k" and "k \<le> length xs"
  shows "inner_inv cmp i xs k (fold (sort_exchange cmp i) [i + 1..<k] xs)"
  using assms(2,3)
proof (induction k)
  case (Suc k)
  show ?case
  proof (cases "i = k")
    case True
    then show ?thesis by (auto simp: inner_inv_def)
  next
    case False
    with Suc have "inner_inv cmp i xs k (fold (sort_exchange cmp i) [i + 1..<k] xs)" by simp
    with inner_step [OF assms(1) this] False Suc.prems show ?thesis by simp
  qed
qed simp

definition outer_inv :: "(u32 \<Rightarrow> u32 \<Rightarrow> cint) \<Rightarrow> u32 list \<Rightarrow> nat \<Rightarrow> u32 list \<Rightarrow> bool" where
  "outer_inv cmp xs i ys \<longleftrightarrow> mset ys = mset xs \<and>
     (\<forall>p q. p < i \<and> p < q \<and> q < length xs \<longrightarrow> cmp (ys ! p) (ys ! q) \<le> 0)"

lemma outer_step:
  assumes "total_preorder cmp" and "outer_inv cmp xs i ys" and "i < length xs"
  shows "outer_inv cmp xs (Suc i) (inner_fold cmp (length xs) i ys)"
proof -
  let ?zs = "inner_fold cmp (length xs) i ys"
  have len: "length ys = length xs" using assms(2) unfolding outer_inv_def by (blast dest: mset_eq_length)
  have "inner_inv cmp i ys (length xs) ?zs"
    unfolding inner_fold_def using assms(1,3) len by (intro inner_loop) simp_all
  then have inv: "length ?zs = length xs" "take i ?zs = take i ys" "mset (drop i ?zs) = mset (drop i ys)"
    "\<forall>p. i < p \<and> p < length xs \<longrightarrow> cmp (?zs ! i) (?zs ! p) \<le> 0"
    unfolding inner_inv_def len by blast+
  have "mset (take i ?zs @ drop i ?zs) = mset (take i ys @ drop i ys)" unfolding mset_append inv(2,3) ..
  then have mset: "mset ?zs = mset xs" using assms(2) by (simp only: append_take_drop_id outer_inv_def)
  have ord: "cmp (ys ! p) (ys ! q) \<le> 0" if "p < i" "p < q" "q < length xs" for p q
    using assms(2) that unfolding outer_inv_def by blast
  have before: "?zs ! p = ys ! p" if "p < i" for p
  proof -
    have "take i ?zs ! p = take i ys ! p" by (simp only: inv(2))
    then show ?thesis using that by (simp only: nth_take)
  qed
  have early: "cmp (?zs ! p) (?zs ! q) \<le> 0" if "p < i" "p < q" "q < length xs" for p q
  proof (cases "q < i")
    case True
    show ?thesis unfolding before [OF that(1)] before [OF True] by (rule ord [OF that])
  next
    case False
    have "drop i ?zs ! (q - i) \<in> set (drop i ?zs)" using inv(1) that(3) False by (intro nth_mem) simp
    moreover have "drop i ?zs ! (q - i) = ?zs ! q" using False inv(1) that(3) by simp
    ultimately have "?zs ! q \<in> set (drop i ys)" using mset_eq_setD [OF inv(3)] by simp
    then obtain r where "r < length (drop i ys)" "drop i ys ! r = ?zs ! q" unfolding in_set_conv_nth by blast
    then have "i + r < length xs" "?zs ! q = ys ! (i + r)" using len by simp_all
    then show ?thesis using ord [OF that(1) trans_less_add1 [OF that(1)], of r] unfolding before [OF that(1)] by (simp only:)
  qed
  have "cmp (?zs ! p) (?zs ! q) \<le> 0" if "p < Suc i" "p < q" "q < length xs" for p q
  proof (cases "p = i")
    case True
    then show ?thesis using inv(4) that(2,3) by blast
  next
    case False
    then have "p < i" using that(1) by simp
    then show ?thesis using that(2,3) by (rule early)
  qed
  with mset show ?thesis unfolding outer_inv_def by blast
qed

lemma outer_loop:
  assumes "total_preorder cmp" and "i \<le> length xs"
  shows "outer_inv cmp xs i (fold (inner_fold cmp (length xs)) [0..<i] xs)"
  using assms(2)
proof (induction i)
  case (Suc i)
  then have "outer_inv cmp xs i (fold (inner_fold cmp (length xs)) [0..<i] xs)" by simp
  from outer_step [OF assms(1) this] Suc.prems show ?case by simp
qed (simp add: outer_inv_def)

text \<open>C32: Sorting.  With a comparison that is a total preorder and fewer than \<^verbatim>\<open>2^32\<close> items, the two loops on
  32-bit counters end, the items are permuted, and they are in order afterwards.\<close>

theorem cfg_sort_correct:
  assumes "total_preorder cmp" and "length items < 2 ^ 32"
  shows "\<exists>sorted_items. cfg_sort cmp items (of_nat (length items)) = Some sorted_items \<and>
    mset sorted_items = mset items \<and> sorted_wrt (\<lambda>a b. cmp a b \<le> 0) sorted_items"
proof -
  let ?s = "fold (inner_fold cmp (length items)) [0..<length items] items"
  have num: "unat (of_nat (length items) :: u64) = length items" using assms(2) by (intro unat_of_nat_u64) simp
  have run: "cfg_sort cmp items (of_nat (length items)) = Some ?s"
    unfolding cfg_sort_def using sort_outer_fold[of "of_nat (length items)" cmp 0 items] assms(2) by (simp only: num) simp
  have inv: "outer_inv cmp items (length items) ?s" by (rule outer_loop [OF assms(1) order_refl])
  then have m: "mset ?s = mset items" unfolding outer_inv_def by blast
  then have len: "length ?s = length items" by (rule mset_eq_length)
  have "cmp (?s ! p) (?s ! q) \<le> 0" if "p < q" "q < length ?s" for p q
    using inv that less_trans [OF that] unfolding outer_inv_def len by blast
  with m run show ?thesis unfolding sorted_wrt_iff_nth_less by blast
qed

theorem cfg_sort_correct_witness:
  "\<exists>sorted_items. cfg_sort (\<lambda>a b. sint a - sint b) [3, 1, 2] 3 = Some sorted_items \<and> mset sorted_items = {#1, 2, 3#}"
proof -
  have "total_preorder (\<lambda>a b :: u32. sint a - sint b)" by (auto simp: total_preorder_def)
  from cfg_sort_correct [OF this, of "[3, 1, 2]"] show ?thesis by (auto simp: add_mset_commute numeral_3_eq_3)
qed

end
