(* ===== verification/Cnum.thy ===== *)
theory Cnum
  imports Bpf_Prelude
begin

text \<open>
  Model of \<^verbatim>\<open>shims/states/include/linux/cnum.h\<close>: circular numbers, that is ranges of machine words that
  start at a base, have a size and wrap around, and the inclusion test the verifier's state pruning
  relies on.  The test is sound when neither range wraps and the bases are no farther apart than
  the size; without the second condition the subtraction in it wraps, and it accepts ranges that
  are disjoint.
\<close>

section \<open>The code\<close>

record cnum32 =
  base32 :: u32
  size32 :: u32

record cnum64 =
  base64 :: u64
  size64 :: u64

definition CNUM32_UNBOUNDED :: cnum32 where "CNUM32_UNBOUNDED = \<lparr>base32 = 0, size32 = - 1\<rparr>"
definition CNUM64_UNBOUNDED :: cnum64 where "CNUM64_UNBOUNDED = \<lparr>base64 = 0, size64 = - 1\<rparr>"

definition cnum32_is_subset :: "cnum32 \<Rightarrow> cnum32 \<Rightarrow> bool" where
  "cnum32_is_subset old cur =
     (if size32 old = - 1 then True
      else if base32 cur < base32 old then False
      else size32 cur \<le> size32 old - (base32 cur - base32 old))"

definition cnum64_is_subset :: "cnum64 \<Rightarrow> cnum64 \<Rightarrow> bool" where
  "cnum64_is_subset old cur =
     (if size64 old = - 1 then True
      else if base64 cur < base64 old then False
      else size64 cur \<le> size64 old - (base64 cur - base64 old))"

section \<open>The ranges\<close>

text \<open>The values from the base on, as many steps as the size says, with the wrap-around of the words.\<close>

definition cnum_values :: "'a::len word \<Rightarrow> 'a word \<Rightarrow> 'a word set" where
  "cnum_values lo sz = {x. x - lo \<le> sz}"

definition cnum_test :: "'a::len word \<Rightarrow> 'a word \<Rightarrow> 'a word \<Rightarrow> 'a word \<Rightarrow> bool" where
  "cnum_test obase osize cbase csize \<longleftrightarrow>
     osize = - 1 \<or> \<not> cbase < obase \<and> csize \<le> osize - (cbase - obase)"

lemma subset_tests:
  "cnum32_is_subset old cur = cnum_test (base32 old) (size32 old) (base32 cur) (size32 cur)"
  "cnum64_is_subset old' cur' = cnum_test (base64 old') (size64 old') (base64 cur') (size64 cur')"
  by (simp_all add: cnum32_is_subset_def cnum64_is_subset_def cnum_test_def)

text \<open>The test accepts a range whose base lies in the other one exactly if it is included.\<close>

lemma values_include:
  fixes d s t :: "'a::len word"
  assumes "d \<le> s"
  shows "t \<le> s - d \<longleftrightarrow> uint d + uint t \<le> uint s"
  using assms by (auto simp: word_le_def uint_sub_if')

lemma included_iff:
  fixes b a s t :: "'a::len word"
  assumes "b - a \<le> s" and "s \<noteq> - 1"
  shows "t \<le> s - (b - a) \<longleftrightarrow> cnum_values b t \<subseteq> cnum_values a s"
proof -
  define d where "d = b - a"
  have b: "b = a + d" by (simp add: d_def)
  have du: "uint d \<le> uint s" using assms(1) by (simp add: d_def word_le_def)
  show ?thesis
  proof
    assume t: "t \<le> s - (b - a)"
    show "cnum_values b t \<subseteq> cnum_values a s"
    proof
      fix x assume "x \<in> cnum_values b t"
      then have x: "uint (x - b) \<le> uint t" by (simp add: cnum_values_def word_le_def)
      have "uint d + uint t \<le> uint s" using t values_include [OF assms(1), of t] by (simp add: d_def)
      then have "uint d + uint (x - b) < 2 ^ LENGTH('a)" using x uint_lt2p [of s] by linarith
      then have "uint (d + (x - b)) = uint d + uint (x - b)" by (simp add: uint_plus_if')
      moreover have "d + (x - b) = x - a" by (simp add: b)
      ultimately show "x \<in> cnum_values a s"
        using x \<open>uint d + uint t \<le> uint s\<close> by (simp add: cnum_values_def word_le_def)
    qed
  next
    assume sub: "cnum_values b t \<subseteq> cnum_values a s"
    show "t \<le> s - (b - a)"
    proof (rule ccontr)
      assume "\<not> t \<le> s - (b - a)"
      then have gt: "s - d < t" by (simp add: d_def)
      have e: "uint (s - d) = uint s - uint d" using du by (simp add: uint_sub_if')
      let ?y = "s - d + 1"
      have "?y \<noteq> 0"
      proof
        assume "?y = 0"
        then have "s - d = - 1" by (simp add: add_eq_0_iff2)
        with gt show False by (metis word_order.extremum leD word_n1_ge)
      qed
      then have "?y \<le> t" using gt by (metis add_diff_cancel inc_le)
      then have "b + ?y \<in> cnum_values b t" by (simp add: cnum_values_def)
      with sub have "b + ?y \<in> cnum_values a s" by (rule subsetD)
      then have "b + ?y - a \<le> s" by (simp only: cnum_values_def mem_Collect_eq)
      then have "s + 1 \<le> s" by (simp add: b algebra_simps)
      moreover have "unat (s + 1) = Suc (unat s)" 
        using assms(2) unatSuc [of s] by (simp add: add.commute [of s] eq_neg_iff_add_eq_0 [symmetric] minus_equation_iff [of s])
      ultimately show False by (simp add: word_le_nat_alt)
    qed
  qed
qed

section \<open>Properties\<close>

lemma test_exact:
  fixes ob os cb cs :: "'a::len word"
  assumes "cb \<in> cnum_values ob os" and "ob \<le> cb"
  shows "cnum_test ob os cb cs \<longleftrightarrow> cnum_values cb cs \<subseteq> cnum_values ob os"
proof (cases "os = - 1")
  case True
  then show ?thesis by (simp add: cnum_test_def cnum_values_def)
next
  case False
  have "cb - ob \<le> os" using assms(1) by (simp add: cnum_values_def)
  from included_iff [OF this False, of cs] assms(2) False show ?thesis by (simp add: cnum_test_def not_less)
qed

text \<open>Inclusion of ranges.  When the base of the current range lies in the old range and is not below the
  old base, the tests decide exactly the inclusion of the circular ranges, in both widths.\<close>

theorem cnum_subset_exact:
  assumes "base32 cur \<in> cnum_values (base32 old) (size32 old)" and "base32 old \<le> base32 cur"
    and "base64 cur' \<in> cnum_values (base64 old') (size64 old')" and "base64 old' \<le> base64 cur'"
  shows "(cnum32_is_subset old cur \<longleftrightarrow>
      cnum_values (base32 cur) (size32 cur) \<subseteq> cnum_values (base32 old) (size32 old)) \<and>
    (cnum64_is_subset old' cur' \<longleftrightarrow>
      cnum_values (base64 cur') (size64 cur') \<subseteq> cnum_values (base64 old') (size64 old'))"
  using assms by (simp add: subset_tests test_exact)

theorem cnum_subset_exact_witness:
  "cnum_values (5 :: u32) 7 \<subseteq> cnum_values 2 10 \<and> \<not> cnum_values (5 :: u64) 8 \<subseteq> cnum_values 2 10"
  using cnum_subset_exact [of "\<lparr>base32 = 5, size32 = 7\<rparr>" "\<lparr>base32 = 2, size32 = 10\<rparr>"
      "\<lparr>base64 = 5, size64 = 8\<rparr>" "\<lparr>base64 = 2, size64 = 10\<rparr>"]
  by (simp add: cnum_values_def cnum32_is_subset_def cnum64_is_subset_def)

text \<open>Without the first condition the test is not sound: the subtraction wraps and a disjoint range is accepted.\<close>

lemma cnum_subset_unsound:
  "cnum32_is_subset \<lparr>base32 = 0, size32 = 1\<rparr> \<lparr>base32 = 5, size32 = 0\<rparr> \<and>
   cnum_values (5 :: u32) 0 \<inter> cnum_values 0 1 = {}"
proof
  show "cnum32_is_subset \<lparr>base32 = 0, size32 = 1\<rparr> \<lparr>base32 = 5, size32 = 0\<rparr>" by (simp add: cnum32_is_subset_def)
  show "cnum_values (5 :: u32) 0 \<inter> cnum_values 0 1 = {}"
  proof (rule equals0I)
    fix x :: u32 assume "x \<in> cnum_values 5 0 \<inter> cnum_values 0 1"
    then have "x = 5 \<and> unat x \<le> 1" by (simp add: cnum_values_def word_le_nat_alt unat_eq_zero)
    then show False by auto
  qed
qed

end
