(* ===== verification/Log_String.thy ===== *)
theory Log_String
  imports Byte_Buf
begin

text \<open>
  Model of \<^verbatim>\<open>shims/log/include/linux/string.h\<close>: the string functions under which the verifier's log is
  compiled.  A buffer is a byte list and a pointer into it an index; a string is a byte list with a
  terminating zero in it.  The copying loops stop after 512 bytes.
\<close>

section \<open>The code\<close>

definition bpf_log_memset :: "u8 list \<Rightarrow> u8 \<Rightarrow> nat \<Rightarrow> u8 list" where
  "bpf_log_memset dst c n = fold (\<lambda>i d. d[i := c]) [0..<min n 512] dst"

definition bpf_log_memcpy :: "u8 list \<Rightarrow> u8 list \<Rightarrow> nat \<Rightarrow> u8 list" where
  "bpf_log_memcpy dst src n = fold (\<lambda>i d. d[i := src ! i]) [0..<min n 512] dst"

text \<open>\<^verbatim>\<open>for (; *s; s++) if (*s == (char)c) last = s;\<close>\<close>

fun strrchr_loop :: "u8 list \<Rightarrow> u8 \<Rightarrow> nat \<Rightarrow> nat option \<Rightarrow> nat option" where
  "strrchr_loop [] c p lst = lst"
| "strrchr_loop (x # s) c p lst =
     (if x \<noteq> 0 then strrchr_loop s c (p + 1) (if x = c then Some p else lst) else lst)"

definition bpf_log_strrchr :: "u8 list \<Rightarrow> u8 \<Rightarrow> nat option" where
  "bpf_log_strrchr s c = strrchr_loop s c 0 None"

function strscpy_loop :: "u8 list \<Rightarrow> u8 list \<Rightarrow> nat \<Rightarrow> nat \<Rightarrow> u8 list \<times> nat" where
  "strscpy_loop dst src sz i =
     (if i + 1 < sz \<and> src ! i \<noteq> 0 then strscpy_loop (dst[i := src ! i]) src sz (i + 1) else (dst, i))"
  by pat_completeness auto
termination by (relation "measure (\<lambda>(dst, src, sz, i). sz - i)") auto

declare strscpy_loop.simps [simp del]

definition bpf_log_strscpy :: "u8 list \<Rightarrow> u8 list \<Rightarrow> nat \<Rightarrow> nat \<times> u8 list" where
  "bpf_log_strscpy dst src sz =
     (if sz = 0 then (0, dst)
      else let (dst, i) = strscpy_loop dst src sz 0 in (i, dst[i := 0]))"

definition log_isspace :: "cint \<Rightarrow> bool" where
  "log_isspace c \<longleftrightarrow> c = 32 \<or> (c \<ge> 9 \<and> c \<le> 13)"

section \<open>Properties\<close>

lemma strrchr_append:
  "0 \<notin> set s \<Longrightarrow> strrchr_loop (s @ t) c p lst = strrchr_loop t c (p + length s) (strrchr_loop s c p lst)"
  by (induction s arbitrary: p lst) auto

lemma strrchr_last:
  assumes "0 \<notin> set s"
  shows "case strrchr_loop s c 0 None of None \<Rightarrow> c \<notin> set s
    | Some q \<Rightarrow> q < length s \<and> s ! q = c \<and> (\<forall>j. q < j \<and> j < length s \<longrightarrow> s ! j \<noteq> c)"
  using assms
proof (induction s rule: rev_induct)
  case (snoc x s)
  then have "strrchr_loop (s @ [x]) c 0 None = (if x = c then Some (length s) else strrchr_loop s c 0 None)"
    by (simp add: strrchr_append)
  with snoc show ?case by (auto simp: nth_append less_Suc_eq split: option.splits)
qed simp

lemma strscpy_loop_copies:
  assumes "0 \<notin> set s" and "i \<le> length s" and "i < sz" and "sz \<le> length dst"
  shows "strscpy_loop dst (s @ 0 # rest) sz i =
    (store_bytes dst i (take (sz - 1 - i) (drop i s)), min (length s) (sz - 1))"
  using assms(2-4)
proof (induction "sz - i" arbitrary: dst i rule: less_induct)
  case less
  show ?case
  proof (cases "i + 1 < sz \<and> i < length s")
    case True
    have src: "(s @ 0 # rest) ! i = s ! i" "s ! i \<noteq> 0" using True assms(1) by (auto simp: nth_append dest: nth_mem)
    have "take (sz - 1 - i) (drop i s) = s ! i # take (sz - 1 - (i + 1)) (drop (i + 1) s)"
      using True by (simp add: Cons_nth_drop_Suc [symmetric] take_Cons' Suc_diff_Suc)
    moreover have "strscpy_loop dst (s @ 0 # rest) sz i = strscpy_loop (dst[i := s ! i]) (s @ 0 # rest) sz (i + 1)"
      using True src by (subst strscpy_loop.simps) simp
    moreover have "\<dots> = (store_bytes (dst[i := s ! i]) (i + 1) (take (sz - 1 - (i + 1)) (drop (i + 1) s)), min (length s) (sz - 1))"
      using True less.prems by (intro less.hyps) (simp_all add: diff_less_mono2)
    moreover have "store_bytes (dst[i := s ! i]) (i + 1) bs = store_bytes dst i (s ! i # bs)"
      if "bs = take (sz - 1 - (i + 1)) (drop (i + 1) s)" for bs
    proof -
      have "length bs \<le> sz - 1 - (i + 1)" by (simp add: that)
      then have "i + 1 + length bs \<le> length dst" using True less.prems by linarith
      then show ?thesis using store_store [of i "[s ! i]" bs dst] by (simp add: store_one)
    qed
    ultimately show ?thesis by (simp only:)
  next
    case False
    then have "strscpy_loop dst (s @ 0 # rest) sz i = (dst, i)"
      using less.prems by (subst strscpy_loop.simps) (auto simp: nth_append)
    with False less.prems show ?thesis by auto
  qed
qed

text \<open>Strings of the log.  Copying a terminated string into a buffer of a given size stores as much of it as
  fits, always terminated, changes no other byte and returns the number of bytes copied; searching a
  terminated string backwards for a byte other than zero finds the last occurrence or reports that
  there is none.\<close>

theorem log_strings_correct:
  assumes "0 \<notin> set s" and "0 < sz" and "sz \<le> length dst"
  shows "bpf_log_strscpy dst (s @ 0 # rest) sz =
      (min (length s) (sz - 1), store_bytes dst 0 (take (sz - 1) s @ [0])) \<and>
    (case bpf_log_strrchr (s @ 0 # rest) c of None \<Rightarrow> c \<notin> set s
     | Some q \<Rightarrow> q < length s \<and> s ! q = c \<and> (\<forall>j. q < j \<and> j < length s \<longrightarrow> s ! j \<noteq> c))"
proof
  let ?n = "min (length s) (sz - 1)"
  have "bpf_log_strscpy dst (s @ 0 # rest) sz = (?n, (store_bytes dst 0 (take (sz - 1) s))[?n := 0])"
    using strscpy_loop_copies [OF assms(1), of 0 sz dst rest] assms(2,3) by (simp add: bpf_log_strscpy_def)
  also have "(store_bytes dst 0 (take (sz - 1) s))[?n := 0] = store_bytes dst 0 (take (sz - 1) s @ [0])"
    using store_store [of 0 "take (sz - 1) s" "[0]" dst] assms(2,3) by (simp add: store_one min.commute)
  finally show "bpf_log_strscpy dst (s @ 0 # rest) sz = (?n, store_bytes dst 0 (take (sz - 1) s @ [0]))" .
  have "bpf_log_strrchr (s @ 0 # rest) c = strrchr_loop s c 0 None"
    using assms(1) by (simp add: bpf_log_strrchr_def strrchr_append)
  with strrchr_last [OF assms(1), of c] show "case bpf_log_strrchr (s @ 0 # rest) c of None \<Rightarrow> c \<notin> set s
     | Some q \<Rightarrow> q < length s \<and> s ! q = c \<and> (\<forall>j. q < j \<and> j < length s \<longrightarrow> s ! j \<noteq> c)" by simp
qed

theorem log_strings_correct_witness:
  "bpf_log_strscpy [9, 9, 9, 9] [1, 2, 3, 0] 3 = (2, [1, 2, 0, 9])"
  using log_strings_correct [of "[1, 2, 3]" 3 "[9, 9, 9, 9]" "[]"] by (simp add: store_bytes_def)

lemma bpf_log_memcpy_store:
  assumes "n \<le> 512" and "n \<le> length src" and "n \<le> length dst"
  shows "bpf_log_memcpy dst src n = store_bytes dst 0 (take n src)"
proof -
  have "fold (\<lambda>i d. d[i := src ! i]) [0..<k] dst = store_bytes dst 0 (take k src)" if "k \<le> n" for k
    using that
  proof (induction k)
    case (Suc k)
    with assms(2,3) store_store [of 0 "take k src" "[src ! k]" dst] show ?case
      by (simp add: store_one take_Suc_conv_app_nth)
  qed simp
  from this [of n] assms(1) show ?thesis by (simp add: bpf_log_memcpy_def min_def)
qed

end
