(* ===== verification/Harness_Core.thy ===== *)
theory Harness_Core
  imports Bpf_Prelude
begin

text \<open>
  The proof programs of \<^verbatim>\<open>targets/\<close>.  \<^verbatim>\<open>targets/harness_template.c\<close> wraps each
  \<^verbatim>\<open>targets/<name>/harness.c\<close> into the body of a BPF program: it reads 64-bit inputs from
  \<^verbatim>\<open>input_map\<close> (the lookup may return \<^verbatim>\<open>NULL\<close>), calls the shim the target names, and states what
  must hold with two macros.  \<^verbatim>\<open>BPF_PROVE(c)\<close> stores through a null pointer when \<^verbatim>\<open>c\<close> is false,
  \<^verbatim>\<open>BPF_ASSERT(c)\<close> makes the program return \<^verbatim>\<open>-1\<close>.  A harness is modelled as the list of its
  checks, in the order of the source and over the states the calls between them produce, and
  the value the program returns after the last one; \<open>run_checks\<close> gives the outcome.
  \<^verbatim>\<open>BPF_KEEP_SCALAR\<close> is a barrier for the compiler and changes nothing.
\<close>

datatype check = Prove bool | Assert bool

datatype outcome = Null_Store | Returned u32

primrec run_checks :: "check list \<Rightarrow> u32 \<Rightarrow> outcome" where
  "run_checks [] v = Returned v"
| "run_checks (c # cs) v =
     (case c of
        Prove b \<Rightarrow> if b then run_checks cs v else Null_Store
      | Assert b \<Rightarrow> if b then run_checks cs v else Returned (- 1))"

text \<open>The value read from a key of \<^verbatim>\<open>input_map\<close>, or the one the harness takes for a failed lookup.\<close>

definition input_or :: "u64 \<Rightarrow> u64 option \<Rightarrow> u64" where
  "input_or d input = (case input of None \<Rightarrow> d | Some v \<Rightarrow> v)"

section \<open>Harnesses that pass\<close>

primrec check_holds :: "check \<Rightarrow> bool" where
  "check_holds (Prove b) = b"
| "check_holds (Assert b) = b"

definition all_hold :: "check list \<Rightarrow> bool" where
  "all_hold cs \<longleftrightarrow> list_all check_holds cs"

lemma all_hold_simps [simp]:
  "all_hold []"
  "all_hold (c # cs) \<longleftrightarrow> check_holds c \<and> all_hold cs"
  "all_hold (cs @ ds) \<longleftrightarrow> all_hold cs \<and> all_hold ds"
  by (simp_all add: all_hold_def)

lemma run_checks_pass: "all_hold cs \<Longrightarrow> run_checks cs v = Returned v"
  by (induction cs) (auto split: check.split)

text \<open>A harness stores through the null pointer exactly if a \<^verbatim>\<open>BPF_PROVE\<close> is the first check to fail.\<close>

lemma run_checks_null_iff:
  "run_checks cs v = Null_Store \<longleftrightarrow> (\<exists>as bs. cs = as @ Prove False # bs \<and> all_hold as)"
proof (induction cs)
  case (Cons c cs)
  have "run_checks (c # cs) v = Null_Store \<longleftrightarrow>
      c = Prove False \<or> check_holds c \<and> run_checks cs v = Null_Store"
    by (cases c) auto
  also have "\<dots> \<longleftrightarrow> (\<exists>as bs. c # cs = as @ Prove False # bs \<and> all_hold as)" (is "?l \<longleftrightarrow> ?r")
  proof
    assume ?l
    then show ?r
    proof
      assume "c = Prove False"
      then have "c # cs = [] @ Prove False # cs \<and> all_hold []" by simp
      then show ?r by blast
    next
      assume "check_holds c \<and> run_checks cs v = Null_Store"
      with Cons.IH obtain as bs where "c # cs = (c # as) @ Prove False # bs" "all_hold (c # as)" by auto
      then show ?r by blast
    qed
  next
    assume ?r
    then show ?l using Cons.IH by (auto simp: Cons_eq_append_conv)
  qed
  finally show ?case .
qed simp

end
