(* ===== verification/Harness_Verifier.thy ===== *)
theory Harness_Verifier
  imports Harness_Core Verifier
begin

text \<open>
  \<^verbatim>\<open>targets/verifier_prove/harness.c\<close> on the verifier predicates of \<^verbatim>\<open>Verifier\<close>.  The local
  variable \<^verbatim>\<open>btf_id\<close> has its address as a parameter; \<^verbatim>\<open>reg\<close> is written completely before each
  group of checks reads it.
\<close>

definition vp_argno :: "check list" where
  "vp_argno =
     (let a = argno_from_reg 3
      in [Prove (reg_from_argno a = 3), Prove (arg_from_argno a = - 1)]) @
     (let a = argno_from_arg 2
      in [Prove (reg_from_argno a = 2), Prove (arg_idx_from_argno a = 1)]) @
     (let a = argno_from_arg (of_int MAX_BPF_FUNC_REG_ARGS + 1)
      in [Prove (reg_from_argno a = - 1)])"

definition vp_not_null :: "check list" where
  "vp_not_null =
     (let reg = \<lparr>reg_type = 0, var_off = \<lparr>tnum_value = 0, tnum_mask = 0\<rparr>, reg_id = 0\<rparr>
      in [Prove (\<not> reg_not_null (reg\<lparr>reg_type := SCALAR_VALUE\<rparr>)),
          Prove (reg_not_null (reg\<lparr>reg_type := PTR_TO_MAP_VALUE\<rparr>)),
          Prove (\<not> reg_not_null (reg\<lparr>reg_type := PTR_TO_MAP_VALUE_OR_NULL\<rparr>)),
          Prove (\<not> reg_not_null (reg\<lparr>reg_type := PTR_TO_MEM OR PTR_UNTRUSTED\<rparr>)),
          Prove (reg_not_null (reg\<lparr>reg_type := PTR_TO_MEM\<rparr>)),
          Prove (reg_not_null (reg\<lparr>reg_type := PTR_TO_BTF_ID OR PTR_TRUSTED, reg_id := 0\<rparr>)),
          Prove (\<not> reg_not_null (reg\<lparr>reg_type := PTR_TO_BTF_ID OR PTR_UNTRUSTED, reg_id := 0\<rparr>)),
          Prove (reg_not_null (reg\<lparr>reg_type := PTR_TO_BTF_ID, reg_id := 123\<rparr>)),
          Prove (type_is_rdonly_mem (PTR_TO_MEM OR MEM_RDONLY)),
          Prove (\<not> type_is_rdonly_mem PTR_TO_MEM)])"

definition vp_func_classes :: "check list" where
  "vp_func_classes =
     (let sockmap = BPF_MAP_TYPE_SOCKMAP; sockhash = BPF_MAP_TYPE_SOCKHASH; hash = BPF_MAP_TYPE_HASH
      in [Prove (is_acquire_function BPF_FUNC_sk_lookup_tcp None),
          Prove (is_acquire_function BPF_FUNC_ringbuf_reserve None),
          Prove (is_acquire_function BPF_FUNC_kptr_xchg None),
          Prove (is_acquire_function BPF_FUNC_map_lookup_elem (Some sockmap)),
          Prove (is_acquire_function BPF_FUNC_map_lookup_elem (Some sockhash)),
          Prove (\<not> is_acquire_function BPF_FUNC_map_lookup_elem (Some hash)),
          Prove (\<not> is_acquire_function BPF_FUNC_loop None),
          Prove (is_ptr_cast_function BPF_FUNC_tcp_sock),
          Prove (is_ptr_cast_function BPF_FUNC_skc_to_tcp_request_sock),
          Prove (\<not> is_ptr_cast_function BPF_FUNC_map_lookup_elem),
          Prove (is_sync_callback_calling_function BPF_FUNC_for_each_map_elem),
          Prove (is_sync_callback_calling_function BPF_FUNC_loop),
          Prove (\<not> is_sync_callback_calling_function BPF_FUNC_timer_set_callback),
          Prove (is_async_callback_calling_function BPF_FUNC_timer_set_callback),
          Prove (is_callback_calling_function BPF_FUNC_user_ringbuf_drain),
          Prove (is_callback_calling_function BPF_FUNC_timer_set_callback),
          Prove (\<not> is_callback_calling_function BPF_FUNC_map_lookup_elem)])"

definition vp_dynptr :: "check list" where
  "vp_dynptr =
     (let allocated_stack = 32
      in [Prove (is_spi_bounds_valid allocated_stack 3 2),
          Prove (\<not> is_spi_bounds_valid allocated_stack 0 2),
          Prove (\<not> is_spi_bounds_valid allocated_stack 4 1),
          Prove (arg_to_dynptr_type (ARG_PTR_TO_DYNPTR OR DYNPTR_TYPE_LOCAL) = BPF_DYNPTR_TYPE_LOCAL),
          Prove (arg_to_dynptr_type (ARG_PTR_TO_DYNPTR OR DYNPTR_TYPE_RINGBUF) = BPF_DYNPTR_TYPE_RINGBUF),
          Prove (arg_to_dynptr_type (ARG_PTR_TO_DYNPTR OR DYNPTR_TYPE_FILE) = BPF_DYNPTR_TYPE_FILE),
          Prove (arg_to_dynptr_type ARG_PTR_TO_DYNPTR = BPF_DYNPTR_TYPE_INVALID),
          Prove (get_dynptr_type_flag BPF_DYNPTR_TYPE_SKB = DYNPTR_TYPE_SKB),
          Prove (get_dynptr_type_flag BPF_DYNPTR_TYPE_XDP = DYNPTR_TYPE_XDP),
          Prove (get_dynptr_type_flag BPF_DYNPTR_TYPE_INVALID = 0),
          Prove (dynptr_type_referenced BPF_DYNPTR_TYPE_RINGBUF),
          Prove (dynptr_type_referenced BPF_DYNPTR_TYPE_FILE),
          Prove (\<not> dynptr_type_referenced BPF_DYNPTR_TYPE_LOCAL),
          Prove (error_recoverable_with_nospec (- EPERM)),
          Prove (error_recoverable_with_nospec (- EACCES)),
          Prove (error_recoverable_with_nospec (- EINVAL)),
          Prove (\<not> error_recoverable_with_nospec (- ENOMEM))])"

definition vp_packet :: "check list" where
  "vp_packet =
     (let reg = \<lparr>reg_type = PTR_TO_PACKET, var_off = tnum_const 0, reg_id = 0\<rparr>
      in [Prove (reg_is_pkt_pointer reg), Prove (reg_is_pkt_pointer_any reg),
          Prove (reg_is_init_pkt_pointer reg PTR_TO_PACKET)] @
         (let reg = reg\<lparr>var_off := (var_off reg)\<lparr>tnum_mask := 1\<rparr>\<rparr>
          in [Prove (\<not> reg_is_init_pkt_pointer reg PTR_TO_PACKET)]) @
         (let reg = reg\<lparr>reg_type := PTR_TO_PACKET_END, var_off := tnum_const 0\<rparr>
          in [Prove (\<not> reg_is_pkt_pointer reg), Prove (reg_is_pkt_pointer_any reg)] @
             (let reg = reg\<lparr>reg_type := PTR_TO_MEM OR DYNPTR_TYPE_SKB\<rparr>
              in [Prove (reg_is_dynptr_slice_pkt reg)]) @
             (let reg = reg\<lparr>reg_type := PTR_TO_MEM\<rparr>
              in [Prove (\<not> reg_is_dynptr_slice_pkt reg)])) @
         [Prove (is_spillable_regtype PTR_TO_MAP_VALUE),
          Prove (is_spillable_regtype (PTR_TO_BTF_ID OR PTR_TRUSTED)),
          Prove (is_spillable_regtype PTR_TO_ARENA),
          Prove (\<not> is_spillable_regtype SCALAR_VALUE),
          Prove (\<not> is_spillable_regtype NOT_INIT)])"

text \<open>\<^verbatim>\<open>val\<close>, the last constant read, is part of the return value.\<close>

definition vp_val :: u64 where
  "vp_val = reg_const_value \<lparr>reg_type = SCALAR_VALUE, var_off = tnum_const 0x100000005, reg_id = 0\<rparr> True"

definition vp_const :: "check list" where
  "vp_const =
     (let reg = \<lparr>reg_type = SCALAR_VALUE, var_off = tnum_const 0x100000005, reg_id = 0\<rparr>
      in [Prove (is_reg_const reg False), Prove (is_reg_const reg True),
          Prove (reg_const_value reg False = 0x100000005), Prove (vp_val = 5)] @
         (let reg = reg\<lparr>var_off := (var_off reg)\<lparr>tnum_mask := 0x100000000\<rparr>\<rparr>
          in [Prove (\<not> is_reg_const reg False), Prove (is_reg_const reg True)] @
             (let reg = reg\<lparr>reg_type := PTR_TO_STACK\<rparr>
              in [Prove (\<not> is_reg_const reg True), Prove (is_pointer_value False reg),
                  Prove (\<not> is_pointer_value True reg)]) @
             (let reg = reg\<lparr>reg_type := SCALAR_VALUE\<rparr>
              in [Prove (\<not> is_pointer_value False reg)])))"

definition vp_arg_types :: "check list" where
  "vp_arg_types =
     [Prove (arg_type_is_mem_size ARG_CONST_SIZE),
      Prove (arg_type_is_mem_size ARG_CONST_SIZE_OR_ZERO),
      Prove (\<not> arg_type_is_mem_size ARG_PTR_TO_MEM),
      Prove (arg_type_is_raw_mem ARG_PTR_TO_UNINIT_MEM),
      Prove (\<not> arg_type_is_raw_mem (ARG_PTR_TO_MEM OR MEM_WRITE)),
      Prove (arg_type_is_release (ARG_PTR_TO_SOCKET OR OBJ_RELEASE)),
      Prove (\<not> arg_type_is_release ARG_PTR_TO_SOCKET),
      Prove (arg_type_is_dynptr (ARG_PTR_TO_DYNPTR OR OBJ_RELEASE)),
      Prove (\<not> arg_type_is_dynptr ARG_PTR_TO_MEM)]"

text \<open>Each group sets the five argument types and clears \<^verbatim>\<open>release_regno\<close>; the first clears all the
  \<^verbatim>\<open>btf_id\<close> pointers, and until the last two groups nothing sets one.\<close>

definition vp_call :: "u32 list \<Rightarrow> u64 list \<Rightarrow> cint \<times> bpf_call_arg_meta" where
  "vp_call ts aux = check_func_proto \<lparr>arg_type = ts, arg_aux = aux\<rparr> \<lparr>release_regno = 0\<rparr>"

definition vp_protos :: "check list" where
  "vp_protos =
     (let none = [0, 0, 0, 0, 0]
      in (let (ret, meta) = vp_call [ARG_PTR_TO_MEM OR MEM_WRITE, ARG_CONST_SIZE, ARG_DONTCARE, ARG_DONTCARE, ARG_DONTCARE] none
          in [Prove (ret = 0), Prove (release_regno meta = 0)]) @
         (let (ret, meta) = vp_call [ARG_PTR_TO_UNINIT_MEM, ARG_CONST_SIZE, ARG_PTR_TO_UNINIT_MEM, ARG_CONST_SIZE, ARG_DONTCARE] none
          in [Prove (ret = - EINVAL)]) @
         (let (ret, meta) = vp_call [ARG_CONST_SIZE, ARG_DONTCARE, ARG_DONTCARE, ARG_DONTCARE, ARG_DONTCARE] none
          in [Prove (ret = - EINVAL)]) @
         (let (ret, meta) = vp_call [ARG_PTR_TO_MEM, ARG_DONTCARE, ARG_DONTCARE, ARG_DONTCARE, ARG_DONTCARE] none
          in [Prove (ret = - EINVAL)]) @
         (let (ret, meta) = vp_call [ARG_PTR_TO_SOCKET OR OBJ_RELEASE, ARG_DONTCARE, ARG_DONTCARE, ARG_DONTCARE, ARG_DONTCARE] none
          in [Prove (ret = 0), Prove (release_regno meta = 1)]) @
         (let (ret, meta) = vp_call [ARG_PTR_TO_SOCKET OR OBJ_RELEASE, ARG_PTR_TO_SOCKET OR OBJ_RELEASE, ARG_DONTCARE, ARG_DONTCARE, ARG_DONTCARE] none
          in [Prove (ret = - EINVAL)]) @
         (let (ret, meta) = vp_call [ARG_PTR_TO_BTF_ID, ARG_DONTCARE, ARG_DONTCARE, ARG_DONTCARE, ARG_DONTCARE] none
          in [Prove (ret = - EINVAL)]))"

text \<open>The last \<^verbatim>\<open>ret\<close>, proved to be 0, is part of the return value.\<close>

definition vp_ret :: cint where
  "vp_ret = fst (vp_call [ARG_PTR_TO_MEM OR MEM_FIXED_SIZE OR MEM_WRITE, ARG_DONTCARE, ARG_DONTCARE, ARG_DONTCARE, ARG_DONTCARE] [4, 0, 0, 0, 0])"

definition vp_typed_protos :: "u64 \<Rightarrow> check list" where
  "vp_typed_protos btf_id_addr =
     [Prove (fst (vp_call [ARG_PTR_TO_BTF_ID, ARG_DONTCARE, ARG_DONTCARE, ARG_DONTCARE, ARG_DONTCARE] [btf_id_addr, 0, 0, 0, 0]) = 0),
      Prove (vp_ret = 0)]"

definition verifier_prove :: "u64 \<Rightarrow> u64 option \<Rightarrow> outcome" where
  "verifier_prove btf_id_addr input =
     run_checks (vp_argno @ vp_not_null @ vp_func_classes @ vp_dynptr @ vp_packet @ vp_const @ vp_arg_types @ vp_protos @
        vp_typed_protos btf_id_addr)
       (of_int vp_ret + ucast (input_or 0 input) + ucast vp_val)"

section \<open>Every check holds\<close>

lemma vp_argno_holds: "all_hold vp_argno"
  by (simp add: vp_argno_def Let_def argno_from_reg_def argno_from_arg_def reg_from_argno_def arg_from_argno_def
      arg_idx_from_argno_def)

lemma vp_not_null_holds: "all_hold vp_not_null"
  by code_simp

lemma vp_func_classes_holds: "all_hold vp_func_classes"
  by (simp add: vp_func_classes_def Let_def is_acquire_function_def is_ptr_cast_function_def
      is_sync_callback_calling_function_def is_async_callback_calling_function_def is_callback_calling_function_def)

lemma vp_dynptr_holds: "all_hold vp_dynptr"
  by code_simp

lemma vp_packet_holds: "all_hold vp_packet"
  by code_simp

lemma vp_const_holds: "all_hold vp_const"
  by code_simp

lemma vp_arg_types_holds: "all_hold vp_arg_types"
  by code_simp

lemma vp_protos_holds: "all_hold vp_protos"
  by code_simp

lemma vp_val_eq: "vp_val = 5" by code_simp

lemma vp_ret_eq: "vp_ret = 0" by code_simp

lemmas check_func_proto_simps = check_func_proto_def check_raw_mode_ok_def check_arg_pair_ok_def
  check_args_pair_invalid_def check_mem_arg_rw_flag_ok_def check_proto_release_reg_def check_btf_id_ok_def
  release_loop.simps btf_id_loop.simps arg_type_is_raw_mem_def arg_type_is_mem_size_def arg_type_is_release_def base_type_def

lemma vp_typed_protos_hold: "btf_id_addr \<noteq> 0 \<Longrightarrow> all_hold (vp_typed_protos btf_id_addr)"
  by (simp add: vp_typed_protos_def vp_ret_eq vp_call_def check_func_proto_simps upt_rec c_true_def)

text \<open>The program of \<^verbatim>\<open>targets/verifier_prove\<close> never stores through the null pointer and never returns
  early: for every input word, or none, it returns the input's low half plus 5.\<close>

theorem verifier_prove_passes:
  assumes "btf_id_addr \<noteq> 0"
  shows "verifier_prove btf_id_addr input = Returned (ucast (input_or 0 input) + 5)"
  unfolding verifier_prove_def vp_ret_eq vp_val_eq
  by (subst run_checks_pass)
     (simp_all add: vp_argno_holds vp_not_null_holds vp_func_classes_holds vp_dynptr_holds vp_packet_holds
       vp_const_holds vp_arg_types_holds vp_protos_holds vp_typed_protos_hold[OF assms])

theorem verifier_prove_passes_witness:
  "(0x1000 :: u64) \<noteq> 0 \<and> verifier_prove 0x1000 (Some 0xffffffff00000007) = Returned 12"
  using verifier_prove_passes[of "0x1000" "Some 0xffffffff00000007"] by (simp add: input_or_def)

end
