(* ===== verification/Harness_Syscall.thy ===== *)
theory Harness_Syscall
  imports Harness_Core Syscall
begin

text \<open>
  \<^verbatim>\<open>targets/syscall_prove/harness.c\<close> and \<^verbatim>\<open>targets/syscall_attach_link_prove/harness.c\<close> on the
  guards of \<^verbatim>\<open>Syscall\<close>.  The destination buffers of \<^verbatim>\<open>bpf_obj_name_cpy\<close> are uninitialised stack
  memory: their contents are parameters.  So are the addresses the link harness only compares.
\<close>

section \<open>Names, sizes and flags of maps\<close>

definition valid_name :: "u8 list" where \<comment> \<open>\<^verbatim>\<open>"Abc_123.foo"\<close> in 16 bytes\<close>
  "valid_name = [65, 98, 99, 95, 49, 50, 51, 46, 102, 111, 111, 0, 0, 0, 0, 0]"

definition invalid_name :: "u8 list" where \<comment> \<open>\<^verbatim>\<open>"bad-name"\<close>\<close>
  "invalid_name = [98, 97, 100, 45, 110, 97, 109, 101, 0, 0, 0, 0, 0, 0, 0, 0]"

definition full_name :: "u8 list" where \<comment> \<open>\<^verbatim>\<open>'a'\<close> to \<^verbatim>\<open>'p'\<close>, not terminated\<close>
  "full_name = [97, 98, 99, 100, 101, 102, 103, 104, 105, 106, 107, 108, 109, 110, 111, 112]"

definition sp_names :: "u8 list \<Rightarrow> u8 list \<Rightarrow> check list" where
  "sp_names dst0 small0 =
     (let (ret, dst1) = bpf_obj_name_cpy dst0 valid_name 16;
          (ret', dst2) = bpf_obj_name_cpy dst1 invalid_name 16;
          (ret'', dst3) = bpf_obj_name_cpy dst2 full_name 16;
          (sret, small1) = bpf_obj_name_cpy small0 [0, 0, 0, 0] 4;
          (sret', small2) = bpf_obj_name_cpy small1 [0, 0, 0, 0] 0
      in [Prove (ret = 11), Assert (dst1 ! 0 = 65), Assert (dst1 ! 3 = 95), Assert (dst1 ! 4 = 49),
          Assert (dst1 ! 7 = 46), Assert (dst1 ! 11 = 0), Assert (dst1 ! 15 = 0),
          Prove (ret' = - EINVAL), Assert (dst2 ! 0 = 98), Assert (dst2 ! 1 = 97), Assert (dst2 ! 2 = 100),
          Assert (dst2 ! 3 = 0), Assert (dst2 ! 15 = 0),
          Prove (ret'' = - EINVAL), Assert (dst3 ! 0 = 97), Assert (dst3 ! 15 = 112),
          Prove (sret = 0), Assert (small1 ! 0 = 0), Assert (small1 ! 3 = 0),
          Prove (sret' = - EINVAL)])"

definition sp_map0 :: sys_map where \<comment> \<open>\<^verbatim>\<open>{ .record = &empty_record }\<close>\<close>
  "sp_map0 = \<lparr> sm_map_type = BPF_MAP_TYPE_UNSPEC, sm_key_size = 0, sm_value_size = 0, sm_max_entries = 0,
     sm_map_flags = 0, sm_numa_node = 0, sm_map_extra = 0, sm_record = Some 0 \<rparr>"

definition sp_sizes :: "check list" where
  "sp_sizes =
     (let of_type = (\<lambda>mp t. mp\<lparr>sm_map_type := t\<rparr>); perf = of_type sp_map0 BPF_MAP_TYPE_PERF_EVENT_ARRAY;
          progs = of_type sp_map0 BPF_MAP_TYPE_PROG_ARRAY; maps = of_type sp_map0 BPF_MAP_TYPE_HASH_OF_MAPS;
          hash = of_type sp_map0 BPF_MAP_TYPE_HASH; mp = hash\<lparr>sm_value_size := 5\<rparr>
      in [Prove (IS_FD_ARRAY perf), Prove (IS_FD_MAP perf), Prove (IS_FD_PROG_ARRAY progs), Prove (IS_FD_MAP progs),
          Prove (IS_FD_HASH maps), Prove (IS_FD_MAP maps), Prove (\<not> IS_FD_MAP hash),
          Prove (bpf_map_value_size mp 0 = 5), Prove (bpf_map_value_size mp BPF_F_CPU = 5),
          Prove (bpf_map_value_size (of_type mp BPF_MAP_TYPE_PERCPU_HASH) 0 = 32),
          Prove (bpf_map_value_size (of_type mp BPF_MAP_TYPE_PERCPU_HASH) BPF_F_ALL_CPUS = 5),
          Prove (bpf_map_value_size (of_type mp BPF_MAP_TYPE_LRU_PERCPU_HASH) 0 = 32),
          Prove (bpf_map_value_size (of_type mp BPF_MAP_TYPE_PERCPU_ARRAY) 0 = 32),
          Prove (bpf_map_value_size (of_type mp BPF_MAP_TYPE_PERCPU_CGROUP_STORAGE) 0 = 32),
          Prove (bpf_map_value_size (of_type mp BPF_MAP_TYPE_PROG_ARRAY) 0 = 4),
          Prove (bpf_map_value_size (of_type mp BPF_MAP_TYPE_HASH_OF_MAPS) 0 = 4),
          Prove (bpf_map_flags_retain_permanent (BPF_F_RDONLY OR BPF_F_WRONLY OR BPF_F_NUMA_NODE) = BPF_F_NUMA_NODE),
          Prove (bpf_map_flags_retain_permanent 0 = 0),
          Prove (bpf_get_file_flag 0 = O_RDWR), Prove (bpf_get_file_flag BPF_F_RDONLY = O_RDONLY),
          Prove (bpf_get_file_flag BPF_F_WRONLY = O_WRONLY),
          Prove (bpf_get_file_flag (BPF_F_RDONLY OR BPF_F_WRONLY) = - EINVAL),
          Prove (bpf_get_file_flag (BPF_F_RDONLY_PROG OR BPF_F_WRONLY_PROG) = O_RDWR)])"

text \<open>\<^verbatim>\<open>bpf_map_init_from_attr\<close> overwrites every field but \<^verbatim>\<open>record\<close>, so it may start from \<open>sp_map0\<close>.\<close>

definition sp_attr :: sys_attr where
  "sp_attr = \<lparr> attr_map_type = BPF_MAP_TYPE_HASH, attr_key_size = 4, attr_value_size = 8, attr_max_entries = 16,
     attr_map_flags = BPF_F_RDONLY OR BPF_F_WRONLY OR BPF_F_NUMA_NODE, attr_inner_map_fd = 0, attr_numa_node = 2,
     attr_map_extra = 0x1234, attr_prog_type = BPF_PROG_TYPE_UNSPEC,
     attr_expected_attach_type = BPF_CGROUP_INET_INGRESS \<rparr>"

definition sp_init :: "check list" where
  "sp_init =
     (let mp = bpf_map_init_from_attr sp_map0 sp_attr;
          mp' = bpf_map_init_from_attr mp (sp_attr\<lparr>attr_map_flags := BPF_F_RDONLY OR BPF_F_WRONLY\<rparr>);
          attr = sp_attr\<lparr>attr_map_flags := 0, attr_numa_node := 3\<rparr>
      in [Assert (sm_map_type mp = BPF_MAP_TYPE_HASH), Assert (sm_key_size mp = 4), Assert (sm_value_size mp = 8),
          Assert (sm_max_entries mp = 16), Assert (sm_map_flags mp = BPF_F_NUMA_NODE), Assert (sm_numa_node mp = 2),
          Assert (sm_map_extra mp = 0x1234),
          Assert (sm_map_flags mp' = 0), Assert (sm_numa_node mp' = NUMA_NO_NODE),
          Prove (bpf_map_attr_numa_node attr = NUMA_NO_NODE),
          Prove (bpf_map_attr_numa_node (attr\<lparr>attr_map_flags := BPF_F_NUMA_NODE\<rparr>) = 3),
          Prove (\<not> btf_record_has_field (Some 0) BPF_SPIN_LOCK),
          Prove (btf_record_has_field (Some BPF_SPIN_LOCK) BPF_SPIN_LOCK),
          Prove (syscall_isalnum 48), Prove (syscall_isalnum 90), Prove (syscall_isalnum 97),
          Prove (\<not> syscall_isalnum 45)])"

text \<open>The value of \<^verbatim>\<open>flags\<close> at the end, and the last \<^verbatim>\<open>ret\<close>.  The flag checks read only the type and the
  record of the map, so the other fields are left as in \<open>sp_map0\<close>.\<close>

definition sp_flags :: u64 where
  "sp_flags = push_bit 32 4 OR BPF_F_CPU"

definition sp_percpu :: sys_map where
  "sp_percpu = sp_map0\<lparr>sm_map_type := BPF_MAP_TYPE_PERCPU_ARRAY, sm_record := Some 0\<rparr>"

definition sp_ret :: cint where
  "sp_ret = bpf_map_check_op_flags sp_percpu BPF_F_ALL_CPUS BPF_F_LOCK"

definition sp_op_flags :: "check list" where
  "sp_op_flags =
     (let mp = sp_map0\<lparr>sm_map_type := BPF_MAP_TYPE_HASH, sm_record := Some 0\<rparr>; sp = mp\<lparr>sm_record := Some BPF_SPIN_LOCK\<rparr>
      in [Prove (bpf_map_check_op_flags mp 0 (BPF_F_LOCK OR BPF_F_CPU) = 0),
          Prove (bpf_map_check_op_flags mp BPF_F_ALL_CPUS BPF_F_LOCK = - EINVAL),
          Prove (bpf_map_check_op_flags mp BPF_F_LOCK BPF_F_LOCK = - EINVAL),
          Prove (bpf_map_check_op_flags sp BPF_F_LOCK BPF_F_LOCK = 0),
          Prove (bpf_map_check_op_flags sp (push_bit 32 1) (NOT 0) = - EINVAL),
          Prove (bpf_map_check_op_flags sp BPF_F_CPU (NOT 0) = - EINVAL),
          Prove (bpf_map_check_op_flags sp_percpu (push_bit 32 2 OR BPF_F_CPU) (NOT 0) = 0),
          Prove (bpf_map_check_op_flags sp_percpu sp_flags (NOT 0) = - ERANGE),
          Prove (bpf_map_check_op_flags sp_percpu (BPF_F_CPU OR BPF_F_ALL_CPUS) (NOT 0) = - EINVAL),
          Prove (bpf_map_check_op_flags sp_percpu BPF_F_ALL_CPUS (NOT 0) = 0),
          Prove (sp_ret = - EINVAL)])"

definition sp_caps :: "check list" where
  "sp_caps =
     [Prove (bpf_map_supports_cpu_flags BPF_MAP_TYPE_PERCPU_HASH), Prove (bpf_map_supports_cpu_flags BPF_MAP_TYPE_LRU_PERCPU_HASH),
      Prove (bpf_map_supports_cpu_flags BPF_MAP_TYPE_PERCPU_ARRAY),
      Prove (bpf_map_supports_cpu_flags BPF_MAP_TYPE_PERCPU_CGROUP_STORAGE), Prove (\<not> bpf_map_supports_cpu_flags BPF_MAP_TYPE_HASH),
      Prove (is_net_admin_prog_type BPF_PROG_TYPE_SCHED_CLS), Prove (is_net_admin_prog_type BPF_PROG_TYPE_XDP),
      Prove (is_net_admin_prog_type BPF_PROG_TYPE_CGROUP_SOCKOPT), Prove (is_net_admin_prog_type BPF_PROG_TYPE_NETFILTER),
      Prove (is_net_admin_prog_type BPF_PROG_TYPE_EXT), Prove (\<not> is_net_admin_prog_type BPF_PROG_TYPE_CGROUP_SKB),
      Prove (\<not> is_net_admin_prog_type BPF_PROG_TYPE_SK_REUSEPORT), Prove (\<not> is_net_admin_prog_type BPF_PROG_TYPE_SOCKET_FILTER),
      Prove (\<not> is_net_admin_prog_type BPF_PROG_TYPE_KPROBE),
      Prove (is_perfmon_prog_type BPF_PROG_TYPE_KPROBE), Prove (is_perfmon_prog_type BPF_PROG_TYPE_TRACEPOINT),
      Prove (is_perfmon_prog_type BPF_PROG_TYPE_PERF_EVENT), Prove (is_perfmon_prog_type BPF_PROG_TYPE_RAW_TRACEPOINT),
      Prove (is_perfmon_prog_type BPF_PROG_TYPE_RAW_TRACEPOINT_WRITABLE), Prove (is_perfmon_prog_type BPF_PROG_TYPE_TRACING),
      Prove (is_perfmon_prog_type BPF_PROG_TYPE_LSM), Prove (is_perfmon_prog_type BPF_PROG_TYPE_STRUCT_OPS),
      Prove (is_perfmon_prog_type BPF_PROG_TYPE_EXT), Prove (\<not> is_perfmon_prog_type BPF_PROG_TYPE_XDP),
      Prove (\<not> is_perfmon_prog_type BPF_PROG_TYPE_SOCKET_FILTER),
      Prove (syscall_map_create_cap BPF_MAP_TYPE_HASH = SYSCALL_MAP_CAP_UNPRIV),
      Prove (syscall_map_create_cap BPF_MAP_TYPE_RINGBUF = SYSCALL_MAP_CAP_UNPRIV),
      Prove (syscall_map_create_cap BPF_MAP_TYPE_USER_RINGBUF = SYSCALL_MAP_CAP_UNPRIV),
      Prove (syscall_map_create_cap BPF_MAP_TYPE_CGRP_STORAGE = SYSCALL_MAP_CAP_BPF),
      Prove (syscall_map_create_cap BPF_MAP_TYPE_LPM_TRIE = SYSCALL_MAP_CAP_BPF),
      Prove (syscall_map_create_cap BPF_MAP_TYPE_STRUCT_OPS = SYSCALL_MAP_CAP_BPF),
      Prove (syscall_map_create_cap BPF_MAP_TYPE_ARENA = SYSCALL_MAP_CAP_BPF),
      Prove (syscall_map_create_cap BPF_MAP_TYPE_SOCKMAP = SYSCALL_MAP_CAP_NET_ADMIN),
      Prove (syscall_map_create_cap BPF_MAP_TYPE_XSKMAP = SYSCALL_MAP_CAP_NET_ADMIN),
      Prove (syscall_map_create_cap BPF_MAP_TYPE_DEVMAP_HASH = SYSCALL_MAP_CAP_NET_ADMIN),
      Prove (syscall_map_create_cap BPF_MAP_TYPE_UNSPEC = SYSCALL_MAP_CAP_UNSUPPORTED),
      Prove (syscall_map_create_cap (MAP_TYPE_OTHER 36) = SYSCALL_MAP_CAP_UNSUPPORTED)]"

definition syscall_prove :: "u8 list \<Rightarrow> u8 list \<Rightarrow> u64 option \<Rightarrow> outcome" where
  "syscall_prove dst0 small0 input =
     run_checks (sp_names dst0 small0 @ sp_sizes @ sp_init @ sp_op_flags @ sp_caps)
       (of_int sp_ret + ucast (input_or 0 input) + ucast sp_flags)"

subsection \<open>Every check holds\<close>

lemma name_cpy_start: "length dst = sz \<Longrightarrow> bpf_obj_name_cpy dst src sz = name_copy src (replicate sz 0) sz 0"
  unfolding bpf_obj_name_cpy_def Let_def using zero_fill[of sz dst]
  by (intro arg_cong[where f = "\<lambda>d. name_copy src d sz 0"] nth_equalityI) auto

lemma name_copies:
  "name_copy valid_name (replicate 16 0) 16 0 = (11, valid_name)"
  "name_copy invalid_name (replicate 16 0) 16 0 = (- EINVAL, [98, 97, 100, 0, 0, 0, 0, 0, 0, 0, 0, 0, 0, 0, 0, 0])"
  "name_copy full_name (replicate 16 0) 16 0 = (- EINVAL, full_name)"
  "name_copy [0, 0, 0, 0] (replicate 4 0) 4 0 = (0, [0, 0, 0, 0])"
  "name_copy src d 0 0 = (- EINVAL, d)"
  by (code_simp, code_simp, code_simp, code_simp, simp add: name_copy.simps)

lemma sp_names_hold: "length dst0 = 16 \<Longrightarrow> length small0 = 4 \<Longrightarrow> all_hold (sp_names dst0 small0)"
  by (simp add: sp_names_def name_cpy_start name_copies[unfolded valid_name_def invalid_name_def full_name_def]
      bpf_obj_name_cpy_def[where sz = 0] valid_name_def invalid_name_def full_name_def)

lemma sp_sizes_hold: "all_hold sp_sizes"
  by code_simp

lemma sp_init_hold: "all_hold sp_init"
  by code_simp

lemma sp_op_flags_hold: "all_hold sp_op_flags"
  by code_simp

lemma sp_caps_hold: "all_hold sp_caps"
  by (simp add: sp_caps_def bpf_map_supports_cpu_flags_def is_net_admin_prog_type_def is_perfmon_prog_type_def syscall_map_create_cap_def)

lemma sp_ret_eq: "sp_ret = - EINVAL"
  by code_simp

lemma sp_flags_eq: "ucast sp_flags = (8 :: u32)"
  by code_simp

text \<open>The program of \<^verbatim>\<open>targets/syscall_prove\<close> passes all its checks whatever the two stack buffers hold
  and whatever the input is; it returns the input's low half minus 14.\<close>

theorem syscall_prove_passes:
  assumes "length dst0 = 16" and "length small0 = 4"
  shows "syscall_prove dst0 small0 input = Returned (ucast (input_or 0 input) - 14)"
proof -
  have "syscall_prove dst0 small0 input = Returned (of_int sp_ret + ucast (input_or 0 input) + ucast sp_flags)"
    unfolding syscall_prove_def
    by (rule run_checks_pass) (simp add: sp_names_hold[OF assms] sp_sizes_hold sp_init_hold sp_op_flags_hold sp_caps_hold)
  then show ?thesis by (simp add: sp_ret_eq sp_flags_eq)
qed

theorem syscall_prove_passes_witness:
  "length (replicate 16 (0xaa :: u8)) = 16 \<and> length [1, 2, 3, 4 :: u8] = 4 \<and>
   syscall_prove (replicate 16 0xaa) [1, 2, 3, 4] (Some 20) = Returned 6"
  using syscall_prove_passes[of "replicate 16 0xaa" "[1, 2, 3, 4]" "Some 20"] by (simp add: input_or_def)

section \<open>Attach types and links\<close>

definition al_fixup :: "check list" where
  "al_fixup =
     (let attr = \<lparr> attr_map_type = BPF_MAP_TYPE_UNSPEC, attr_key_size = 0, attr_value_size = 0, attr_max_entries = 0,
            attr_map_flags = 0, attr_inner_map_fd = 0, attr_numa_node = 0, attr_map_extra = 0,
            attr_prog_type = BPF_PROG_TYPE_CGROUP_SOCK, attr_expected_attach_type = BPF_CGROUP_INET_INGRESS \<rparr>;
          attr1 = bpf_prog_load_fixup_attach_type attr;
          attr2 = bpf_prog_load_fixup_attach_type
            (attr1\<lparr>attr_prog_type := BPF_PROG_TYPE_CGROUP_SOCK, attr_expected_attach_type := BPF_CGROUP_INET_SOCK_RELEASE\<rparr>);
          attr3 = bpf_prog_load_fixup_attach_type
            (attr2\<lparr>attr_prog_type := BPF_PROG_TYPE_SK_REUSEPORT, attr_expected_attach_type := BPF_CGROUP_INET_INGRESS\<rparr>)
      in [Prove (attr_expected_attach_type attr1 = BPF_CGROUP_INET_SOCK_CREATE),
          Prove (attr_expected_attach_type attr2 = BPF_CGROUP_INET_SOCK_RELEASE),
          Prove (attr_expected_attach_type attr3 = BPF_SK_REUSEPORT_SELECT)])"

definition al_load_check :: "check list" where
  "al_load_check =
     [Prove (bpf_prog_load_check_attach BPF_PROG_TYPE_TRACING BPF_TRACE_FENTRY True 1 False False = 0),
      Prove (bpf_prog_load_check_attach BPF_PROG_TYPE_XDP BPF_TRACE_FENTRY True 1 False False = - EINVAL),
      Prove (bpf_prog_load_check_attach BPF_PROG_TYPE_TRACING BPF_TRACE_FENTRY False 1 False False = - EINVAL),
      Prove (bpf_prog_load_check_attach BPF_PROG_TYPE_TRACING BPF_TRACE_FENTRY True (BTF_MAX_TYPE + 1) False False = - EINVAL),
      Prove (bpf_prog_load_check_attach BPF_PROG_TYPE_TRACING BPF_TRACE_FENTRY True 0 False True = 0),
      Prove (bpf_prog_load_check_attach BPF_PROG_TYPE_LSM BPF_LSM_MAC True 0 False True = - EINVAL),
      Prove (bpf_prog_load_check_attach BPF_PROG_TYPE_TRACING BPF_TRACE_FENTRY False 0 False True = - EINVAL),
      Prove (bpf_prog_load_check_attach BPF_PROG_TYPE_TRACING BPF_TRACE_FENTRY True 1 False True = - EINVAL),
      Prove (bpf_prog_load_check_attach BPF_PROG_TYPE_CGROUP_SOCK BPF_CGROUP_INET_SOCK_CREATE False 0 False False = 0),
      Prove (bpf_prog_load_check_attach BPF_PROG_TYPE_CGROUP_SOCK BPF_CGROUP_INET_INGRESS False 0 False False = - EINVAL),
      Prove (bpf_prog_load_check_attach BPF_PROG_TYPE_CGROUP_SOCK_ADDR BPF_CGROUP_UNIX_RECVMSG False 0 False False = 0),
      Prove (bpf_prog_load_check_attach BPF_PROG_TYPE_CGROUP_SOCKOPT BPF_CGROUP_GETSOCKOPT False 0 False False = 0),
      Prove (bpf_prog_load_check_attach BPF_PROG_TYPE_SK_LOOKUP BPF_SK_LOOKUP False 0 False False = 0),
      Prove (bpf_prog_load_check_attach BPF_PROG_TYPE_SK_REUSEPORT BPF_SK_REUSEPORT_SELECT_OR_MIGRATE False 0 False False = 0),
      Prove (bpf_prog_load_check_attach BPF_PROG_TYPE_NETFILTER BPF_XDP False 0 False False = - EINVAL),
      Prove (bpf_prog_load_check_attach BPF_PROG_TYPE_SYSCALL BPF_XDP False 0 False False = - EINVAL),
      Prove (bpf_prog_load_check_attach BPF_PROG_TYPE_EXT BPF_XDP False 0 False False = - EINVAL),
      Prove (bpf_prog_load_check_attach BPF_PROG_TYPE_EXT BPF_CGROUP_INET_INGRESS False 0 True False = 0),
      Prove (bpf_prog_load_check_attach BPF_PROG_TYPE_XDP BPF_CGROUP_INET_INGRESS False 0 True False = - EINVAL),
      Prove (attach_type_to_prog_type BPF_CGROUP_INET_INGRESS = BPF_PROG_TYPE_CGROUP_SKB),
      Prove (attach_type_to_prog_type BPF_CGROUP_UNIX_SENDMSG = BPF_PROG_TYPE_CGROUP_SOCK_ADDR),
      Prove (attach_type_to_prog_type BPF_TRACE_FSESSION_MULTI = BPF_PROG_TYPE_TRACING),
      Prove (attach_type_to_prog_type BPF_NETKIT_PEER = BPF_PROG_TYPE_SCHED_CLS),
      Prove (attach_type_to_prog_type (ATTACH_TYPE_OTHER 62) = BPF_PROG_TYPE_UNSPEC)]"

text \<open>The last \<^verbatim>\<open>ret\<close> is the one of the socket-message program with an XDP attach type.\<close>

definition al_prog :: "bpf_prog_type \<Rightarrow> bpf_attach_type \<Rightarrow> bool \<Rightarrow> bpf_token \<Rightarrow> bpf_prog" where
  "al_prog t atype enforce token =
     \<lparr> prog_type = t, expected_attach_type = atype, enforce_expected_attach_type = enforce, prog_token = Some token \<rparr>"

definition al_last_prog :: bpf_prog where
  "al_last_prog = al_prog BPF_PROG_TYPE_SK_MSG BPF_TRACE_KPROBE_MULTI True \<lparr>cap_net_admin = 1, cap_sys_admin = 1\<rparr>"

definition al_ret :: cint where
  "al_ret = bpf_prog_attach_check_attach_type al_last_prog BPF_XDP"

definition al_attach_check :: "check list" where
  "al_attach_check =
     (let no_caps = \<lparr>cap_net_admin = 0, cap_sys_admin = 0\<rparr>; net_admin = \<lparr>cap_net_admin = 1, cap_sys_admin = 0\<rparr>;
          sys_admin = \<lparr>cap_net_admin = 1, cap_sys_admin = 1\<rparr>;
          sock = al_prog BPF_PROG_TYPE_CGROUP_SOCK BPF_CGROUP_INET_SOCK_CREATE False no_caps;
          skb = al_prog BPF_PROG_TYPE_CGROUP_SKB BPF_CGROUP_INET_EGRESS False no_caps;
          skb_net = skb\<lparr>prog_token := Some net_admin\<rparr>; skb_enf = skb_net\<lparr>enforce_expected_attach_type := True\<rparr>;
          skb_sys = skb_enf\<lparr>prog_token := Some sys_admin\<rparr>;
          nf = skb_sys\<lparr>prog_type := BPF_PROG_TYPE_NETFILTER, expected_attach_type := BPF_NETFILTER\<rparr>;
          kp = nf\<lparr>prog_type := BPF_PROG_TYPE_KPROBE, expected_attach_type := BPF_TRACE_KPROBE_MULTI\<rparr>;
          tp = kp\<lparr>prog_type := BPF_PROG_TYPE_TRACEPOINT\<rparr>; cls = tp\<lparr>prog_type := BPF_PROG_TYPE_SCHED_CLS\<rparr>;
          msg = cls\<lparr>prog_type := BPF_PROG_TYPE_SK_MSG\<rparr>
      in [Prove (bpf_prog_attach_check_attach_type sock BPF_CGROUP_INET_SOCK_CREATE = 0),
          Prove (bpf_prog_attach_check_attach_type sock BPF_CGROUP_INET_SOCK_RELEASE = - EINVAL),
          Prove (bpf_prog_attach_check_attach_type skb BPF_CGROUP_INET_INGRESS = - EPERM),
          Prove (bpf_prog_attach_check_attach_type skb_net BPF_CGROUP_INET_INGRESS = 0),
          Prove (bpf_prog_attach_check_attach_type skb_enf BPF_CGROUP_INET_INGRESS = - EINVAL),
          Prove (bpf_prog_attach_check_attach_type skb_enf BPF_CGROUP_INET_EGRESS = 0),
          Prove (bpf_prog_attach_check_attach_type skb_sys BPF_CGROUP_INET_EGRESS = 0),
          Prove (bpf_prog_attach_check_attach_type nf BPF_NETFILTER = 0),
          Prove (bpf_prog_attach_check_attach_type nf BPF_XDP = - EINVAL),
          Prove (bpf_prog_attach_check_attach_type kp BPF_TRACE_KPROBE_MULTI = 0),
          Prove (bpf_prog_attach_check_attach_type kp BPF_PERF_EVENT = - EINVAL),
          Prove (bpf_prog_attach_check_attach_type tp BPF_PERF_EVENT = 0),
          Prove (bpf_prog_attach_check_attach_type tp BPF_TRACE_RAW_TP = - EINVAL),
          Prove (bpf_prog_attach_check_attach_type cls BPF_NETKIT_PRIMARY = 0),
          Prove (bpf_prog_attach_check_attach_type cls BPF_XDP = - EINVAL),
          Prove (bpf_prog_attach_check_attach_type msg BPF_SK_MSG_VERDICT = 0),
          Prove (bpf_prog_attach_check_attach_type msg BPF_XDP = - EINVAL),
          Prove (is_cgroup_prog_type BPF_PROG_TYPE_CGROUP_SKB BPF_XDP True),
          Prove (is_cgroup_prog_type BPF_PROG_TYPE_LSM BPF_LSM_CGROUP True),
          Prove (is_cgroup_prog_type BPF_PROG_TYPE_LSM BPF_XDP False),
          Prove (\<not> is_cgroup_prog_type BPF_PROG_TYPE_LSM BPF_XDP True),
          Prove (\<not> is_cgroup_prog_type BPF_PROG_TYPE_XDP BPF_XDP True)])"

text \<open>\<open>ops\<close>, \<open>prog\<close> and \<open>tramp\<close> are the addresses of the locals of these names.\<close>

definition al_links :: "u64 \<Rightarrow> u64 \<Rightarrow> u64 \<Rightarrow> check list" where
  "al_links ops prog tramp =
     (let link0 = \<lparr> refcnt = 0, link_type = BPF_LINK_TYPE_UNSPEC, sleepable = False, link_id = 0, link_ops = 0,
            link_prog = 0, link_attach_type = BPF_CGROUP_INET_INGRESS \<rparr>;
          l1 = bpf_link_init_sleepable link0 BPF_LINK_TYPE_TRACING ops prog BPF_TRACE_FENTRY True;
          l2 = bpf_link_init l1 BPF_LINK_TYPE_TCX ops prog BPF_TCX_EGRESS;
          t = bpf_tramp_link_init tramp \<lparr> tramp_link = link0, node_link = 0, node_cookie = 0 \<rparr>
            BPF_LINK_TYPE_TRACING ops prog BPF_TRACE_FEXIT 0x1234
      in [Prove (refcnt l1 = 1), Prove (link_type l1 = BPF_LINK_TYPE_TRACING), Prove (sleepable l1), Prove (link_id l1 = 0),
          Assert (link_ops l1 = ops), Assert (link_prog l1 = prog), Prove (link_attach_type l1 = BPF_TRACE_FENTRY),
          Prove (refcnt l2 = 1), Prove (link_type l2 = BPF_LINK_TYPE_TCX), Prove (\<not> sleepable l2),
          Assert (link_ops l2 = ops), Assert (link_prog l2 = prog), Prove (link_attach_type l2 = BPF_TCX_EGRESS),
          Prove (refcnt (tramp_link t) = 1), Prove (link_type (tramp_link t) = BPF_LINK_TYPE_TRACING),
          Prove (\<not> sleepable (tramp_link t)), Assert (link_ops (tramp_link t) = ops),
          Assert (link_prog (tramp_link t) = prog), Prove (link_attach_type (tramp_link t) = BPF_TRACE_FEXIT),
          Assert (node_link t = tramp), Prove (node_cookie t = 0x1234)])"

text \<open>\<^verbatim>\<open>(int)attr.expected_attach_type\<close> is \<^verbatim>\<open>BPF_SK_REUSEPORT_SELECT\<close>, enumerator 39.\<close>

definition syscall_attach_link_prove :: "u64 \<Rightarrow> u64 \<Rightarrow> u64 \<Rightarrow> u64 option \<Rightarrow> outcome" where
  "syscall_attach_link_prove ops prog tramp input =
     run_checks (al_fixup @ al_load_check @ al_attach_check @ al_links ops prog tramp)
       (of_int al_ret + ucast (input_or 0 input) + 39)"

lemma al_fixup_hold: "all_hold al_fixup"
  by (simp add: al_fixup_def Let_def bpf_prog_load_fixup_attach_type_def)

lemma al_load_check_hold: "all_hold al_load_check"
  by (simp add: al_load_check_def bpf_prog_load_check_attach_def load_check_expected_def attach_type_to_prog_type_def)

lemma al_attach_check_hold: "all_hold al_attach_check"
  by (simp add: al_attach_check_def Let_def al_prog_def bpf_prog_attach_check_attach_type_def attach_type_to_prog_type_def
      bpf_token_capable_def is_cgroup_prog_type_def c_true_def)

lemma al_links_hold: "all_hold (al_links ops prog tramp)"
  by (simp add: al_links_def Let_def bpf_link_init_sleepable_def bpf_link_init_def bpf_tramp_link_init_def)

lemma al_ret_eq: "al_ret = - EINVAL"
  by (simp add: al_ret_def al_last_prog_def al_prog_def bpf_prog_attach_check_attach_type_def attach_type_to_prog_type_def)

text \<open>The program of \<^verbatim>\<open>targets/syscall_attach_link_prove\<close> passes all its checks for every input and wherever
  its locals live; it returns the input's low half plus 17.\<close>

theorem syscall_attach_link_prove_passes:
  "syscall_attach_link_prove ops prog tramp input = Returned (ucast (input_or 0 input) + 17)"
proof -
  have "syscall_attach_link_prove ops prog tramp input = Returned (of_int al_ret + ucast (input_or 0 input) + 39)"
    unfolding syscall_attach_link_prove_def
    by (rule run_checks_pass) (simp add: al_fixup_hold al_load_check_hold al_attach_check_hold al_links_hold)
  then show ?thesis by (simp add: al_ret_eq)
qed

end
