(* ===== verification/Harness_Hashtab.thy ===== *)
theory Harness_Hashtab
  imports Harness_Core Hashtab
begin

text \<open>
  \<^verbatim>\<open>targets/hashtab_prove/harness.c\<close> on the hash-table helpers of \<^verbatim>\<open>Hashtab\<close>.  The addresses of the
  locals \<^verbatim>\<open>elem_storage.elem\<close>, \<^verbatim>\<open>target\<close> and \<^verbatim>\<open>storage.elems\<close> are parameters, as is the contents of memory.
\<close>

definition ht_attr :: bpf_attr where
  "ht_attr = \<lparr> attr_map_type = BPF_MAP_TYPE_HASH, attr_key_size = 4, attr_value_size = 8, attr_max_entries = 4,
     attr_map_flags = 0, attr_inner_map_fd = 0, attr_numa_node = 0 \<rparr>"

definition ht_alloc :: "check list" where
  "ht_alloc =
     (let a0 = ht_attr; a1 = a0\<lparr>attr_map_type := BPF_MAP_TYPE_PERCPU_HASH\<rparr>;
          a2 = a1\<lparr>attr_map_type := BPF_MAP_TYPE_LRU_HASH, attr_map_flags := BPF_F_NO_COMMON_LRU\<rparr>;
          a3 = a2\<lparr>attr_map_type := BPF_MAP_TYPE_HASH, attr_map_flags := BPF_F_ZERO_SEED\<rparr>;
          a4 = a3\<lparr>attr_map_flags := push_bit 31 1\<rparr>;
          a5 = a4\<lparr>attr_map_flags := BPF_F_RDONLY_PROG OR BPF_F_WRONLY_PROG\<rparr>;
          a6 = a5\<lparr>attr_map_flags := BPF_F_NO_COMMON_LRU\<rparr>;
          a7 = a6\<lparr>attr_map_type := BPF_MAP_TYPE_LRU_HASH, attr_map_flags := BPF_F_NO_PREALLOC\<rparr>;
          a8 = a7\<lparr>attr_map_type := BPF_MAP_TYPE_PERCPU_HASH, attr_map_flags := BPF_F_NUMA_NODE, attr_numa_node := 0\<rparr>;
          a9 = a8\<lparr>attr_map_type := BPF_MAP_TYPE_HASH, attr_map_flags := 0, attr_max_entries := 0\<rparr>;
          a10 = a9\<lparr>attr_max_entries := 4, attr_key_size := 0\<rparr>;
          a11 = a10\<lparr>attr_key_size := 4, attr_value_size := 0\<rparr>;
          a12 = a11\<lparr>attr_value_size := 8, attr_key_size := KMALLOC_MAX_SIZE\<rparr>;
          a13 = a12\<lparr>attr_key_size := 4, attr_map_type := BPF_MAP_TYPE_PERCPU_HASH, attr_value_size := PCPU_MIN_UNIT_SIZE + 1\<rparr>
      in [Prove (htab_map_alloc_check a0 = 0), Prove (htab_map_alloc_check a1 = 0), Prove (htab_map_alloc_check a2 = 0),
          Prove (htab_map_alloc_check a3 = - EPERM), Prove (htab_map_alloc_check a4 = - EINVAL),
          Prove (htab_map_alloc_check a5 = - EINVAL), Prove (htab_map_alloc_check a6 = - EINVAL),
          Prove (htab_map_alloc_check a7 = - ENOTSUPP), Prove (htab_map_alloc_check a8 = - EINVAL),
          Prove (htab_map_alloc_check a9 = - EINVAL), Prove (htab_map_alloc_check a10 = - EINVAL),
          Prove (htab_map_alloc_check a11 = - EINVAL), Prove (htab_map_alloc_check a12 = - E2BIG),
          Prove (htab_map_alloc_check a13 = - E2BIG)])"

text \<open>The last \<^verbatim>\<open>ret\<close>, part of the return value.\<close>

definition ht_ret :: cint where
  "ht_ret = htab_map_check_update_flags True (BPF_F_ALL_CPUS + 1)"

definition ht_flags :: "check list" where
  "ht_flags =
     [Prove (htab_map_check_update_flags False BPF_EXIST = 0),
      Prove (htab_map_check_update_flags False (BPF_EXIST + 1) = - EINVAL),
      Prove (htab_map_check_update_flags True BPF_F_ALL_CPUS = 0),
      Prove (htab_map_check_update_flags True (push_bit 32 1 OR BPF_F_ALL_CPUS) = 0),
      Prove (htab_map_check_update_flags True BPF_F_LOCK = - EINVAL),
      Prove (ht_ret = - EINVAL)]"

definition ht_zero :: bpf_htab where
  "ht_zero = \<lparr> map_type = BPF_MAP_TYPE_UNSPEC, key_size = 0, value_size = 0, max_entries = 0, map_flags = 0,
     numa_node = 0, elem_count = 0, elems = 0, pcount = 0, count = 0, use_percpu_counter = False, n_buckets = 0, elem_size = 0 \<rparr>"

definition ht_kinds :: "check list" where
  "ht_kinds =
     (let h0 = ht_zero\<lparr>map_type := BPF_MAP_TYPE_HASH, map_flags := 0\<rparr>; h1 = h0\<lparr>map_flags := BPF_F_NO_PREALLOC\<rparr>;
          h2 = h1\<lparr>map_flags := 0, map_type := BPF_MAP_TYPE_LRU_HASH\<rparr>; h3 = h2\<lparr>map_type := BPF_MAP_TYPE_LRU_PERCPU_HASH\<rparr>;
          h4 = h3\<lparr>map_type := BPF_MAP_TYPE_HASH_OF_MAPS\<rparr>
      in [Assert (htab_is_prealloc h0), Assert (\<not> htab_is_lru h0), Assert (\<not> htab_is_percpu h0), Assert (\<not> is_fd_htab h0),
          Assert (htab_has_extra_elems h0), Assert (\<not> htab_is_prealloc h1),
          Assert (htab_is_lru h2), Assert (\<not> htab_has_extra_elems h2),
          Assert (htab_is_lru h3), Assert (htab_is_percpu h3), Assert (\<not> htab_has_extra_elems h3),
          Assert (is_fd_htab h4), Assert (\<not> htab_has_extra_elems h4)])"

definition ht_elems :: "ptr_mem \<Rightarrow> u64 \<Rightarrow> u64 \<Rightarrow> u64 \<Rightarrow> check list" where
  "ht_elems mem elem target storage_elems =
     (let v = htab_elem_value elem 5; mem = htab_elem_set_ptr mem elem 5 target;
          htab = ht_zero\<lparr>key_size := 5, elems := storage_elems, elem_size := 32\<rparr>
      in [Assert (v = elem + offsetof_htab_elem_key + 8), Assert (htab_elem_get_ptr mem elem 5 = target),
          Assert (fd_htab_map_get_ptr mem htab elem = target), Assert (get_htab_elem htab 2 = storage_elems + 64)])"

text \<open>The table as the accounting checks leave it.\<close>

definition ht_counted :: "bpf_htab \<times> check list" where
  "ht_counted =
     (let h0 = ht_zero\<lparr>max_entries := 3, elem_count := 2, use_percpu_counter := False, count := 2\<rparr>;
          h1 = inc_elem_count h0; h2 = dec_elem_count h1;
          h3 = h2\<lparr>use_percpu_counter := True, elem_count := 3, pcount := 3\<rparr>; h4 = dec_elem_count h3; h5 = inc_elem_count h4
      in (h5,
         [Assert (\<not> is_map_full h0), Assert (is_map_full h1), Assert (elem_count h1 = 3), Assert (atomic_read (count h1) = 3),
          Assert (elem_count h2 = 2), Assert (atomic_read (count h2) = 2),
          Assert (is_map_full h3), Assert (elem_count h4 = 2), Assert (percpu_counter_sum (pcount h4) = 2),
          Assert (elem_count h5 = 3), Assert (percpu_counter_sum (pcount h5) = 3)]))"

definition ht_usage :: "bpf_htab \<Rightarrow> check list" where
  "ht_usage htab =
     (let base = sizeof_bpf_htab + sizeof_bucket * 4; cpus = 4;
          h0 = htab\<lparr>n_buckets := 4, elem_size := 32, use_percpu_counter := False, map_type := BPF_MAP_TYPE_HASH,
            map_flags := 0, max_entries := 2, value_size := 5\<rparr>;
          h1 = h0\<lparr>map_type := BPF_MAP_TYPE_PERCPU_HASH\<rparr>; h2 = h1\<lparr>map_type := BPF_MAP_TYPE_LRU_HASH\<rparr>;
          h3 = h2\<lparr>map_type := BPF_MAP_TYPE_HASH, map_flags := BPF_F_NO_PREALLOC, count := 3\<rparr>;
          h4 = h3\<lparr>map_type := BPF_MAP_TYPE_PERCPU_HASH\<rparr>
      in [Assert (htab_map_mem_usage h0 = base + 32 * (2 + cpus) + 8 * cpus),
          Assert (htab_map_mem_usage h1 = base + 32 * 2 + 8 * cpus * 2),
          Assert (htab_map_mem_usage h2 = base + 32 * 2),
          Assert (htab_map_mem_usage h3 = base + (32 + LLIST_NODE_SZ) * 3),
          Assert (htab_map_mem_usage h4 = base + (32 + LLIST_NODE_SZ) * 3 + (LLIST_NODE_SZ + 8) * 3 + 8 * cpus * 3)])"

definition hashtab_prove :: "ptr_mem \<Rightarrow> u64 \<Rightarrow> u64 \<Rightarrow> u64 \<Rightarrow> u64 option \<Rightarrow> outcome" where
  "hashtab_prove mem elem target storage_elems input =
     run_checks (ht_alloc @ ht_flags @ ht_kinds @ ht_elems mem elem target storage_elems @ snd ht_counted @ ht_usage (fst ht_counted))
       (of_int ht_ret + elem_count (fst ht_counted) + ucast (input_or 0 input))"

section \<open>Every check holds\<close>

lemma ht_alloc_hold: "all_hold ht_alloc"
  by code_simp

lemma ht_flags_hold: "all_hold ht_flags"
  by code_simp

lemma ht_kinds_hold: "all_hold ht_kinds"
  by code_simp

lemma ht_elems_hold: "all_hold (ht_elems mem elem target storage_elems)"
  by (simp add: ht_elems_def Let_def htab_elem_value_def htab_elem_set_ptr_def htab_elem_get_ptr_def
      fd_htab_map_get_ptr_def get_htab_elem_def round_up_def)

lemma ht_counted_hold: "all_hold (snd ht_counted)"
  by code_simp

lemma ht_usage_hold: "all_hold (ht_usage (fst ht_counted))"
  by code_simp

lemma ht_return: "of_int ht_ret + elem_count (fst ht_counted) = (- 19 :: u32)"
  by code_simp

text \<open>The program of \<^verbatim>\<open>targets/hashtab_prove\<close> passes all its checks for every input, every contents of
  memory and wherever its locals live; it returns the input's low half minus 19.\<close>

theorem hashtab_prove_passes:
  "hashtab_prove mem elem target storage_elems input = Returned (ucast (input_or 0 input) - 19)"
proof -
  have "hashtab_prove mem elem target storage_elems input =
      Returned (of_int ht_ret + elem_count (fst ht_counted) + ucast (input_or 0 input))"
    unfolding hashtab_prove_def
    by (rule run_checks_pass)
       (simp add: ht_alloc_hold ht_flags_hold ht_kinds_hold ht_elems_hold ht_counted_hold ht_usage_hold)
  then show ?thesis unfolding ht_return by simp
qed

end
