(* ===== verification/Harness_Arraymap.thy ===== *)
theory Harness_Arraymap
  imports Harness_Core Arraymap
begin

text \<open>
  \<^verbatim>\<open>targets/arraymap_prove/harness.c\<close> on the array-map helpers of \<^verbatim>\<open>Arraymap\<close>.  \<open>base\<close> is the address
  of the flexible array member, 32 bytes before the end of the local \<^verbatim>\<open>storage\<close>; \<open>mem\<close> is what memory holds.
\<close>

definition ar_attr :: bpf_attr where
  "ar_attr = \<lparr> attr_map_type = BPF_MAP_TYPE_ARRAY, attr_key_size = 4, attr_value_size = 8, attr_max_entries = 1,
     attr_map_flags = 0, attr_inner_map_fd = 0, attr_numa_node = 0 \<rparr>"

definition ar_alloc :: "check list" where
  "ar_alloc =
     (let a0 = ar_attr; percpu = a0\<lparr>attr_map_type := BPF_MAP_TYPE_PERCPU_ARRAY, attr_numa_node := 0\<rparr>
      in [Prove (array_map_alloc_check a0 = 0),
          Prove (array_map_alloc_check (a0\<lparr>attr_max_entries := 0\<rparr>) = - EINVAL),
          Prove (array_map_alloc_check (a0\<lparr>attr_key_size := 8\<rparr>) = - EINVAL),
          Prove (array_map_alloc_check (a0\<lparr>attr_value_size := 0\<rparr>) = - EINVAL),
          Prove (array_map_alloc_check (a0\<lparr>attr_map_flags := push_bit 31 1\<rparr>) = - EINVAL),
          Prove (array_map_alloc_check (a0\<lparr>attr_map_flags := BPF_F_RDONLY_PROG OR BPF_F_WRONLY_PROG\<rparr>) = - EINVAL),
          Prove (array_map_alloc_check (a0\<lparr>attr_value_size := 0x80000000\<rparr>) = - E2BIG),
          Prove (array_map_alloc_check (percpu\<lparr>attr_map_flags := BPF_F_NUMA_NODE\<rparr>) = - EINVAL),
          Prove (array_map_alloc_check (percpu\<lparr>attr_map_flags := 0, attr_value_size := PCPU_MIN_UNIT_SIZE + 1\<rparr>) = - E2BIG),
          Prove (array_map_alloc_check (percpu\<lparr>attr_map_flags := BPF_F_MMAPABLE\<rparr>) = - EINVAL),
          Prove (array_map_alloc_check (percpu\<lparr>attr_map_type := BPF_MAP_TYPE_ARRAY, attr_map_flags := BPF_F_PRESERVE_ELEMS\<rparr>) = - EINVAL),
          Prove (array_map_alloc_check (percpu\<lparr>attr_map_type := BPF_MAP_TYPE_PERF_EVENT_ARRAY, attr_map_flags := BPF_F_PRESERVE_ELEMS\<rparr>) = 0)])"

definition ar_array :: "u64 \<Rightarrow> bpf_array" where
  "ar_array base = \<lparr> am_ops = 0, am_map_type = BPF_MAP_TYPE_ARRAY, am_key_size = 4, am_value_size = 8, am_max_entries = 3,
     am_map_flags = 0, am_numa_node = 0, am_record = 0, am_elem_size = 8, index_mask = 3, array_value = base \<rparr>"

definition ar_lookup :: "(u64 \<Rightarrow> u8) \<Rightarrow> u64 \<Rightarrow> u64 \<Rightarrow> check list" where
  "ar_lookup mem base choice =
     (let array = ar_array base; mem = mem(base := 0x11, base + 8 := 0x22, base + 16 := 0x33);
          ptr = array_map_lookup_elem array 1; key = (ucast (choice AND 3) :: u32); ptr' = array_map_lookup_elem array key
      in [Prove (ptr \<noteq> None), Prove (mem (the ptr) = 0x22), Prove (array_map_lookup_elem array 3 = None),
          Assert (if key < 3 then ptr' \<noteq> None else ptr' = None)])"

definition ar_next :: "u64 \<Rightarrow> check list" where
  "ar_next base =
     (let array = ar_array base;
          (ret, nxt) = bpf_array_get_next_key array None 99; (ret1, nxt1) = bpf_array_get_next_key array (Some 0) 99;
          (ret2, nxt2) = bpf_array_get_next_key array (Some 2) 99; (ret3, nxt3) = bpf_array_get_next_key array (Some 3) 99
      in [Assert (ret = 0), Assert (nxt = 0), Assert (ret1 = 0), Assert (nxt1 = 1),
          Assert (ret2 = - ENOENT), Assert (nxt2 = 99), Assert (ret3 = 0), Assert (nxt3 = 0)])"

text \<open>\<^verbatim>\<open>imm\<close> starts as 0 and \<^verbatim>\<open>meta_off\<close> as 0; both are threaded through the calls.  The last \<^verbatim>\<open>ret\<close>, the
  last \<^verbatim>\<open>next\<close> (0) and the last \<^verbatim>\<open>meta_off\<close> make the return value.\<close>

definition ar_direct :: "u64 \<Rightarrow> u64 \<Rightarrow> check list \<times> cint \<times> u32" where
  "ar_direct base choice =
     (let array = (ar_array base)\<lparr>am_max_entries := 1, am_value_size := 8, am_elem_size := 8\<rparr>;
          off = (ucast (drop_bit 4 choice AND 7) :: u32);
          (ret, imm) = array_map_direct_value_addr array 0 off;
          (ret1, moff1) = array_map_direct_value_meta array (imm + ucast off) 0;
          (ret2, imm2) = array_map_direct_value_addr array imm 8;
          (ret3, moff3) = array_map_direct_value_meta array (base - 1) moff1;
          (ret4, moff4) = array_map_direct_value_meta array (base + 8) moff3;
          array5 = array\<lparr>am_value_size := 5\<rparr>;
          (ret5, imm5) = array_map_direct_value_addr array5 imm2 7;
          (ret6, moff6) = array_map_direct_value_meta array5 (base + 7) moff4;
          array2 = array5\<lparr>am_max_entries := 2\<rparr>;
          (ret7, imm7) = array_map_direct_value_addr array2 imm5 0;
          (ret8, moff8) = array_map_direct_value_meta array2 base moff6
      in ([Assert (ret = 0), Assert (imm = base), Assert (ret1 = 0), Assert (moff1 = off), Assert (ret2 = - EINVAL),
           Assert (ret3 = - ENOENT), Assert (ret4 = - ENOENT), Assert (ret5 = - EINVAL), Assert (ret6 = 0), Assert (moff6 = 7),
           Assert (ret7 = - ENOTSUPP), Assert (ret8 = - ENOTSUPP)], ret8, moff8))"

definition ar_meta :: "check list" where
  "ar_meta =
     (let meta0 = \<lparr> am_ops = 0, am_map_type = BPF_MAP_TYPE_ARRAY, am_key_size = 4, am_value_size = 8, am_max_entries = 3,
            am_map_flags = 0, am_numa_node = 0, am_record = 0 \<rparr>;
          meta1 = meta0\<lparr>am_max_entries := 4\<rparr>;
          inner0 = meta0\<lparr>am_map_flags := BPF_F_INNER_MAP\<rparr>; inner1 = meta1\<lparr>am_map_flags := BPF_F_INNER_MAP\<rparr>
      in [Assert (array_map_meta_equal meta0 meta0), Assert (\<not> array_map_meta_equal meta0 meta1),
          Assert (array_map_meta_equal inner0 inner1), Assert (\<not> array_map_meta_equal inner0 (inner1\<lparr>am_value_size := 16\<rparr>))])"

definition arraymap_prove :: "(u64 \<Rightarrow> u8) \<Rightarrow> u64 \<Rightarrow> u64 option \<Rightarrow> outcome" where
  "arraymap_prove mem base input =
     (let choice = input_or 0 input; (direct, ret, meta_off) = ar_direct base choice
      in run_checks (ar_alloc @ ar_lookup mem base choice @ ar_next base @ direct @ ar_meta)
           (ucast choice + (of_int ret + 0 + meta_off)))"

section \<open>Every check holds\<close>

lemma ar_alloc_hold: "all_hold ar_alloc"
  by code_simp

lemma ar_lookup_hold: "all_hold (ar_lookup mem base choice)"
  by (auto simp: ar_lookup_def Let_def array_map_lookup_elem_def ar_array_def word_le_nat_alt word_less_nat_alt)

lemma ar_next_hold: "all_hold (ar_next base)"
  by (simp add: ar_next_def Let_def bpf_array_get_next_key_def ar_array_def)

lemma ar_meta_hold: "all_hold ar_meta"
  by code_simp

lemma low3_less: "(ucast (drop_bit 4 choice AND 7 :: u64) :: u32) < 8"
proof -
  have "unat (drop_bit 4 choice AND 7) \<le> unat (7 :: u64)" by (metis word_and_le1 word_le_nat_alt)
  then have "unat (ucast (drop_bit 4 choice AND 7) :: u32) < unat (8 :: u32)"
    by (simp add: unsigned_ucast_eq take_bit_nat_eq_self)
  then show ?thesis by (simp add: word_less_nat_alt)
qed

text \<open>The address of an object of 32 bytes: not null, and the object does not wrap around.\<close>

definition object_at :: "u64 \<Rightarrow> bool" where
  "object_at base \<longleftrightarrow> 0 < unat base \<and> unat base + 32 \<le> 2 ^ 64"

lemma object_offset: "object_at base \<Longrightarrow> n < 32 \<Longrightarrow> unat (base + of_nat n) = unat base + n"
  by (simp add: object_at_def unat_word_ariths unsigned_of_nat take_bit_nat_eq_self)

lemma u32_through_u64: "ucast (ucast (x :: u32) :: u64) = x"
  by (rule bit_word_eqI) (simp add: bit_simps)

lemma ar_direct_hold:
  assumes "object_at base"
  shows "all_hold (fst (ar_direct base choice))" "snd (ar_direct base choice) = (- ENOTSUPP, 7)"
proof -
  let ?off = "ucast (drop_bit 4 choice AND 7 :: u64) :: u32"
  have off: "unat ?off < 8" using low3_less[of choice] by (simp add: word_less_nat_alt)
  have u: "unat (base + ucast ?off) = unat base + unat ?off"
    using object_offset[OF assms, of "unat ?off"] off by simp
  have "\<not> base + ucast ?off < base" "base + ucast ?off < base + 8"
    using u off object_offset[OF assms, of 8] by (simp_all add: word_less_nat_alt)
  moreover have "base - 1 < base" using assms by (simp add: object_at_def word_less_nat_alt unat_sub word_le_nat_alt)
  moreover have "\<not> base + 7 < base" "base + 7 < base + 8"
    using object_offset[OF assms, of 7] object_offset[OF assms, of 8] by (simp_all add: word_less_nat_alt)
  ultimately show "all_hold (fst (ar_direct base choice))" "snd (ar_direct base choice) = (- ENOTSUPP, 7)"
    using low3_less[of choice]
    by (simp_all add: ar_direct_def Let_def array_map_direct_value_addr_def array_map_direct_value_meta_def ar_array_def not_le not_less u32_through_u64)
qed

text \<open>The program of \<^verbatim>\<open>targets/arraymap_prove\<close> passes all its checks for every input, every contents of
  memory and every place of its local array that does not wrap around; it returns the input's low half minus 88.\<close>

theorem arraymap_prove_passes:
  assumes "object_at base"
  shows "arraymap_prove mem base input = Returned (ucast (input_or 0 input) - 88)"
proof -
  have "arraymap_prove mem base input = Returned (ucast (input_or 0 input) + (of_int (- ENOTSUPP) + 0 + 7))"
    unfolding arraymap_prove_def Let_def ar_direct_hold(2)[OF assms] split_def snd_conv fst_conv
    by (rule run_checks_pass)
       (simp add: ar_alloc_hold ar_lookup_hold ar_next_hold ar_meta_hold ar_direct_hold(1)[OF assms])
  then show ?thesis by simp
qed

theorem arraymap_prove_passes_witness:
  "object_at 0x1000 \<and> arraymap_prove (\<lambda>_. 0) 0x1000 None = Returned (- 88)"
  using arraymap_prove_passes[of "0x1000" "\<lambda>_. 0" None] by (simp add: object_at_def input_or_def)

end
