(* ===== verification/Harness_Struct_Ops.thy ===== *)
theory Harness_Struct_Ops
  imports Harness_Core Struct_Ops
begin

text \<open>
  \<^verbatim>\<open>targets/bpf_struct_ops_prove/harness.c\<close> and \<^verbatim>\<open>targets/bpf_struct_ops_lifecycle_prove/harness.c\<close>
  on the struct-ops helpers of \<^verbatim>\<open>Struct_Ops\<close>.  The map is the first member of the local
  \<^verbatim>\<open>storage\<close>, at address \<open>a\<close>; the descriptor is at \<open>d\<close>.  A user value is its 8 header bytes and
  32 bytes of data.
\<close>

section \<open>Guards and metadata\<close>

definition so_attr0 :: so_attr where
  "so_attr0 = \<lparr> so_key_size = 4, so_max_entries = 1, so_flags = 0, so_value_type_id = 1 \<rparr>"

definition so_alloc :: "check list" where
  "so_alloc =
     (let a1 = so_attr0\<lparr>so_flags := BPF_F_LINK OR BPF_F_VTYPE_BTF_OBJ_FD\<rparr>
      in [Prove (bpf_struct_ops_map_alloc_check so_attr0 = 0), Prove (bpf_struct_ops_map_alloc_check a1 = 0),
          Prove (bpf_struct_ops_map_alloc_check (a1\<lparr>so_key_size := 4 + 1\<rparr>) = - EINVAL),
          Prove (bpf_struct_ops_map_alloc_check (a1\<lparr>so_max_entries := 0\<rparr>) = - EINVAL),
          Prove (bpf_struct_ops_map_alloc_check (a1\<lparr>so_max_entries := 2\<rparr>) = - EINVAL),
          Prove (bpf_struct_ops_map_alloc_check (a1\<lparr>so_flags := push_bit 31 1\<rparr>) = - EINVAL),
          Prove (bpf_struct_ops_map_alloc_check (a1\<lparr>so_flags := 0, so_value_type_id := 0\<rparr>) = - EINVAL)])"

definition so_keys :: "check list" where
  "so_keys =
     (let (ret, nxt) = bpf_struct_ops_map_get_next_key None 99; (ret1, nxt1) = bpf_struct_ops_map_get_next_key (Some 0) 99;
          (ret2, nxt2) = bpf_struct_ops_map_get_next_key (Some 7) 99
      in [Assert (ret = 0), Assert (nxt = 0), Assert (ret1 = - ENOENT), Assert (nxt1 = 99), Assert (ret2 = 0), Assert (nxt2 = 0),
          Assert (bpf_struct_ops_map_lookup_elem = Inl (- EINVAL))])"

definition so_stubs :: "u64 \<Rightarrow> check list" where
  "so_stubs a =
     (let ops = \<lparr> has_update = False, cfi_stubs = (\<lambda>off. if off = 8 then a else 0) \<rparr>
      in [Assert (bpf_struct_ops_supported ops 0 = - ENOTSUPP), Assert (bpf_struct_ops_supported ops 8 = 0)])"

definition so_map :: "u64 \<Rightarrow> st_map" where
  "so_map d = \<lparr> so_map_type = BPF_MAP_TYPE_STRUCT_OPS, so_map_flags = BPF_F_LINK, so_value_size = 0, so_id = 77,
     refcnt = 1, usercnt = 0, st_ops_desc = d, funcs_cnt = 3, btf_id = 123, uvalue = [], kstate = BPF_STRUCT_OPS_STATE_READY \<rparr>"

definition so_state :: "so_store \<Rightarrow> u64 \<Rightarrow> u64 \<Rightarrow> bpf_struct_ops \<Rightarrow> st_map \<Rightarrow> so_store" where
  "so_state s a d ops mp = s\<lparr>st_maps := (st_maps s)(a := mp), descs := (descs s)(d := \<lparr> st_ops = ops, vt_size = 8 + 32 \<rparr>)\<rparr>"

definition so_live :: "so_store \<Rightarrow> u64 \<Rightarrow> u64 \<Rightarrow> check list" where
  "so_live s0 a d =
     (let s = so_state s0 a d \<lparr> has_update = False, cfi_stubs = (\<lambda>_. 0) \<rparr> (so_map d);
          kdata = a + offset_kvalue + offset_data;
          expected = sizeof_st_map + (8 + 32) - sizeof_st_value + (8 + 32) + 3 * 8 + 3 * 8 + PAGE_SIZE;
          (got, s1) = bpf_struct_ops_get kdata s; s2 = bpf_struct_ops_put kdata s1; mp = st_maps s2 a;
          busy = mp\<lparr>so_map_flags := BPF_F_LINK, so_map_type := BPF_MAP_TYPE_STRUCT_OPS, kstate := BPF_STRUCT_OPS_STATE_INUSE\<rparr>;
          s3 = s2\<lparr>st_maps := (st_maps s2)(a := busy\<lparr>refcnt := 0\<rparr>)\<rparr>
      in [Assert (bpf_struct_ops_map_mem_usage s a = expected), Assert (bpf_struct_ops_valid_to_reg (st_maps s a)),
          Assert (bpf_struct_ops_id kdata s = 77), Assert (bpf_map_struct_ops_info_fill s a = 123),
          Assert got, Assert (refcnt (st_maps s1 a) = 2), Assert (refcnt mp = 1),
          Assert (\<not> bpf_struct_ops_valid_to_reg (mp\<lparr>so_map_flags := 0\<rparr>)),
          Assert (\<not> bpf_struct_ops_valid_to_reg (mp\<lparr>so_map_flags := BPF_F_LINK, so_map_type := 0\<rparr>)),
          Assert (\<not> bpf_struct_ops_valid_to_reg busy), Assert (\<not> fst (bpf_struct_ops_get kdata s3))])"

text \<open>The last \<^verbatim>\<open>ret\<close> and the last \<^verbatim>\<open>next\<close> are 0, \<^verbatim>\<open>info.btf_vmlinux_id\<close> is 123.\<close>

definition bpf_struct_ops_prove :: "so_store \<Rightarrow> u64 \<Rightarrow> u64 \<Rightarrow> u64 option \<Rightarrow> outcome" where
  "bpf_struct_ops_prove s a d input =
     run_checks (so_alloc @ so_keys @ so_stubs a @ so_live s a d) (ucast (input_or 0 input) + (0 + 0 + 123))"

lemma so_alloc_hold: "all_hold so_alloc"
  by code_simp

lemma so_keys_hold: "all_hold so_keys"
  by (simp add: so_keys_def bpf_struct_ops_map_get_next_key_def bpf_struct_ops_map_lookup_elem_def)

lemma so_stubs_hold: "a \<noteq> 0 \<Longrightarrow> all_hold (so_stubs a)"
  by (simp add: so_stubs_def bpf_struct_ops_supported_def)

lemma kdata_map [simp]: "st_map_of_kdata (a + offset_kvalue + offset_data) = a"
  by (simp add: st_map_of_kdata_def Let_def)

lemma so_live_hold: "all_hold (so_live s a d)"
  by (simp add: so_live_def Let_def so_state_def so_map_def bpf_struct_ops_map_mem_usage_def bpf_struct_ops_valid_to_reg_def
      bpf_struct_ops_id_def bpf_map_struct_ops_info_fill_def bpf_struct_ops_get_def bpf_struct_ops_put_def bpf_map_inc_not_zero_def
      bpf_map_put_def sizeof_st_map_def sizeof_st_value_def PAGE_SIZE_def BPF_F_LINK_def BPF_MAP_TYPE_STRUCT_OPS_def c_true_def)

text \<open>The program of \<^verbatim>\<open>targets/bpf_struct_ops_prove\<close> passes all its checks for every input and wherever its
  locals live (the null pointer excluded); it returns the input's low half plus 123.\<close>

theorem bpf_struct_ops_prove_passes:
  assumes "a \<noteq> 0"
  shows "bpf_struct_ops_prove s a d input = Returned (ucast (input_or 0 input) + 123)"
proof -
  have "bpf_struct_ops_prove s a d input = Returned (ucast (input_or 0 input) + (0 + 0 + 123))"
    unfolding bpf_struct_ops_prove_def
    by (rule run_checks_pass) (simp add: so_alloc_hold so_keys_hold so_stubs_hold[OF assms] so_live_hold)
  then show ?thesis by simp
qed

definition empty_store :: so_store where
  "empty_store = \<lparr> st_maps = (\<lambda>_. so_map 0), descs = (\<lambda>_. \<lparr> st_ops = \<lparr> has_update = False, cfi_stubs = (\<lambda>_. 0) \<rparr>, vt_size = 0 \<rparr>) \<rparr>"

theorem bpf_struct_ops_prove_passes_witness:
  "(0x2000 :: u64) \<noteq> 0 \<and> bpf_struct_ops_prove empty_store 0x2000 0x3000 (Some 7) = Returned 130"
  using bpf_struct_ops_prove_passes[of "0x2000" empty_store "0x3000" "Some 7"] by (simp add: input_or_def)

section \<open>Life cycle\<close>

definition lc_map :: "u64 \<Rightarrow> u8 list \<Rightarrow> st_map" where
  "lc_map d uv = \<lparr> so_map_type = BPF_MAP_TYPE_STRUCT_OPS, so_map_flags = BPF_F_LINK, so_value_size = 8 + 32, so_id = 88,
     refcnt = 5, usercnt = 2, st_ops_desc = d, funcs_cnt = 0, btf_id = 321, uvalue = uv, kstate = BPF_STRUCT_OPS_STATE_INIT \<rparr>"

definition lc_lookup :: "u64 \<Rightarrow> check list" where
  "lc_lookup d =
     (let zeros = replicate 40 0; m0 = lc_map d zeros;
          (ret, l0) = bpf_struct_ops_map_sys_lookup_elem m0 1 zeros;
          (ret1, l1) = bpf_struct_ops_map_sys_lookup_elem m0 0 (l0[8 := 99]);
          uv = store32 (zeros[8 := 42]) 0 99; m2 = m0\<lparr>uvalue := uv, kstate := BPF_STRUCT_OPS_STATE_READY\<rparr>;
          (ret2, l2) = bpf_struct_ops_map_sys_lookup_elem m2 0 l1;
          (ret3, l3) = bpf_struct_ops_map_sys_lookup_elem (m2\<lparr>refcnt := 1, usercnt := 5\<rparr>) 0 l2
      in [Assert (ret = - ENOENT), Assert (ret1 = 0), Assert (load32 l1 4 = state_value BPF_STRUCT_OPS_STATE_INIT),
          Assert (load32 l1 0 = 0), Assert (l1 ! 8 = 0),
          Assert (ret2 = 0), Assert (load32 l2 4 = state_value BPF_STRUCT_OPS_STATE_READY), Assert (load32 l2 0 = 3),
          Assert (l2 ! 8 = 42), Assert (ret3 = 0), Assert (load32 l3 0 = 0)])"

text \<open>\<open>lookup\<close> is the address of the local of that name, used as a map pointer that is not the link's.\<close>

definition lc_link :: "so_store \<Rightarrow> u64 \<Rightarrow> u64 \<Rightarrow> u64 \<Rightarrow> check list" where
  "lc_link s0 a d lookup =
     (let m = (lc_map d [])\<lparr>kstate := BPF_STRUCT_OPS_STATE_READY, refcnt := 1, usercnt := 5\<rparr>;
          no_update = \<lparr> has_update = False, cfi_stubs = (\<lambda>_. 0) \<rparr>; update = no_update\<lparr>has_update := True\<rparr>;
          s = so_state s0 a d no_update m; s_off = so_state s0 a d no_update (m\<lparr>so_map_flags := 0\<rparr>); s_up = so_state s0 a d update m;
          (ret, map_id) = bpf_struct_ops_map_link_fill_link_info s (Some a) 0;
          (ret1, map_id1) = bpf_struct_ops_map_link_fill_link_info s None 123
      in [Assert (ret = 0), Assert (map_id = 88), Assert (ret1 = 0), Assert (map_id1 = 123),
          Assert (bpf_struct_ops_map_link_poll None = EPOLLHUP), Assert (bpf_struct_ops_map_link_poll (Some a) = 0),
          Assert (bpf_struct_ops_map_link_update s_off (Some a) a None = - EINVAL),
          Assert (bpf_struct_ops_map_link_update s (Some a) a None = - EOPNOTSUPP),
          Assert (bpf_struct_ops_map_link_update s_up None a None = - ENOLINK),
          Assert (bpf_struct_ops_map_link_update s_up (Some a) a (Some lookup) = - EPERM),
          Assert (bpf_struct_ops_map_link_update s_up (Some a) a None = 0)])"

text \<open>The return value adds the last \<^verbatim>\<open>ret\<close>, the key and the reference count, all 0, and the map identifier 123.\<close>

definition bpf_struct_ops_lifecycle_prove :: "so_store \<Rightarrow> u64 \<Rightarrow> u64 \<Rightarrow> u64 \<Rightarrow> u64 option \<Rightarrow> outcome" where
  "bpf_struct_ops_lifecycle_prove s a d lookup input =
     run_checks (lc_lookup d @ lc_link s a d lookup) (ucast (input_or 0 input + 0 + 0 + 0 + 123))"

lemma lc_lookup_hold: "all_hold (lc_lookup d)"
proof -
  have "lc_lookup d = lc_lookup 0"
    by (simp add: lc_lookup_def lc_map_def Let_def bpf_struct_ops_map_sys_lookup_elem_def split_def)
  moreover have "all_hold (lc_lookup 0)" by code_simp
  ultimately show ?thesis by simp
qed

lemma lc_link_hold: "lookup \<noteq> a \<Longrightarrow> all_hold (lc_link s a d lookup)"
  by (simp add: lc_link_def Let_def lc_map_def so_state_def bpf_struct_ops_map_link_fill_link_info_def bpf_struct_ops_map_link_poll_def
      bpf_struct_ops_map_link_update_def bpf_struct_ops_valid_to_reg_def BPF_F_LINK_def BPF_MAP_TYPE_STRUCT_OPS_def c_true_def)

text \<open>The program of \<^verbatim>\<open>targets/bpf_struct_ops_lifecycle_prove\<close> passes all its checks: a lookup reports the
  state and the clamped difference of the two counters, and the guards of a link update fire in their order.\<close>

theorem bpf_struct_ops_lifecycle_prove_passes:
  assumes "lookup \<noteq> a"
  shows "bpf_struct_ops_lifecycle_prove s a d lookup input = Returned (ucast (input_or 0 input + 123))"
proof -
  have "bpf_struct_ops_lifecycle_prove s a d lookup input = Returned (ucast (input_or 0 input + 0 + 0 + 0 + 123))"
    unfolding bpf_struct_ops_lifecycle_prove_def
    by (rule run_checks_pass) (simp add: lc_lookup_hold lc_link_hold[OF assms])
  then show ?thesis by simp
qed

theorem bpf_struct_ops_lifecycle_prove_passes_witness:
  "(0x4000 :: u64) \<noteq> 0x2000 \<and> bpf_struct_ops_lifecycle_prove empty_store 0x2000 0x3000 0x4000 (Some 7) = Returned 130"
  using bpf_struct_ops_lifecycle_prove_passes[of "0x4000" "0x2000" empty_store "0x3000" "Some 7"] by (simp add: input_or_def)

end
