(* ===== verification/Harness_Storage.thy ===== *)
theory Harness_Storage
  imports Harness_Core Local_Storage
begin

text \<open>
  \<^verbatim>\<open>targets/bpf_local_storage_prove/harness.c\<close> and \<^verbatim>\<open>targets/bpf_local_storage_flags_prove/harness.c\<close>
  on the local storage of \<^verbatim>\<open>Local_Storage\<close>.  The locals of the first harness are numbered: \<^verbatim>\<open>selem0\<close> is
  element 0, the stale cache entry \<^verbatim>\<open>stale_sdata\<close> is the data of an element 1 that is in no list, and the bare
  list node \<^verbatim>\<open>extra_node\<close> is the storage node of an element 2; \<^verbatim>\<open>smap\<close> and \<^verbatim>\<open>other_smap\<close> are maps 0 and 1,
  \<^verbatim>\<open>storage\<close> is storage 0, \<^verbatim>\<open>free_list\<close> and \<^verbatim>\<open>free_list2\<close> are free lists 0 and 1, and \<^verbatim>\<open>owner_slot\<close> is the
  owner's cell 7.
\<close>

abbreviation slot :: u64 where "slot \<equiv> 7"

section \<open>Creation and metadata\<close>

definition ls_attr0 :: ls_attr where
  "ls_attr0 = \<lparr> attr_map_type = BPF_MAP_TYPE_UNSPEC, attr_key_size = 4, attr_value_size = 8, attr_max_entries = 0,
     attr_map_flags = BPF_F_NO_PREALLOC, attr_inner_map_fd = 0, attr_numa_node = 0,
     attr_btf_key_type_id = 1, attr_btf_value_type_id = 2 \<rparr>"

definition ls_alloc :: "check list" where
  "ls_alloc =
     [Prove (bpf_local_storage_map_alloc_check ls_attr0 = 0),
      Prove (bpf_local_storage_map_alloc_check (ls_attr0\<lparr>attr_map_flags := BPF_F_NO_PREALLOC OR BPF_F_CLONE\<rparr>) = 0),
      Prove (bpf_local_storage_map_alloc_check (ls_attr0\<lparr>attr_map_flags := BPF_F_NO_PREALLOC OR push_bit 31 1\<rparr>) = - EINVAL),
      Prove (bpf_local_storage_map_alloc_check (ls_attr0\<lparr>attr_map_flags := BPF_F_CLONE\<rparr>) = - EINVAL),
      Prove (bpf_local_storage_map_alloc_check (ls_attr0\<lparr>attr_max_entries := 1\<rparr>) = - EINVAL),
      Prove (bpf_local_storage_map_alloc_check (ls_attr0\<lparr>attr_key_size := 4 + 1\<rparr>) = - EINVAL),
      Prove (bpf_local_storage_map_alloc_check (ls_attr0\<lparr>attr_value_size := 0\<rparr>) = - EINVAL),
      Prove (bpf_local_storage_map_alloc_check (ls_attr0\<lparr>attr_btf_key_type_id := 0\<rparr>) = - EINVAL),
      Prove (bpf_local_storage_map_alloc_check (ls_attr0\<lparr>attr_btf_value_type_id := 0\<rparr>) = - EINVAL)]"

definition ls_ret1 :: cint where \<comment> \<open>the \<^verbatim>\<open>ret\<close> the first block adds to \<^verbatim>\<open>acc\<close>\<close>
  "ls_ret1 = bpf_local_storage_map_alloc_check (ls_attr0\<lparr>attr_value_size := BPF_LOCAL_STORAGE_MAX_VALUE_SIZE + 1\<rparr>)"

definition ls_smap0 :: local_storage_map where
  "ls_smap0 = \<lparr> ls_record = None, bucket_log = 1, ls_elem_size = 32, cache_idx = 3 \<rparr>"

definition ls_ret2 :: cint where \<comment> \<open>the last \<^verbatim>\<open>ret\<close> of the second block\<close>
  "ls_ret2 = bpf_local_storage_map_check_btf None"

definition ls_checks :: "check list" where
  "ls_checks =
     [Prove (bpf_local_storage_map_check_btf (Some \<lparr>btf_kind = 1, btf_size = 4\<rparr>) = 0),
      Prove (bpf_local_storage_map_check_btf (Some \<lparr>btf_kind = 1, btf_size = 8\<rparr>) = - EINVAL),
      Prove (bpf_local_storage_map_check_btf (Some \<lparr>btf_kind = 0, btf_size = 4\<rparr>) = - EINVAL),
      Prove (ls_ret2 = - EINVAL),
      Prove (check_flags None 0 = 0), Prove (check_flags None BPF_NOEXIST = 0), Prove (check_flags None BPF_EXIST = - ENOENT),
      Prove (check_flags (Some 0) BPF_EXIST = 0), Prove (check_flags (Some 0) BPF_NOEXIST = - EEXIST),
      Prove (check_flags (Some 0) (BPF_NOEXIST OR BPF_F_LOCK) = - EEXIST),
      Prove (bpf_local_storage_map_mem_usage ls_smap0 = sizeof_smap + sizeof_ls_bucket * 2)]"

section \<open>Linking, lookup and cache\<close>

definition ls_state0 :: ls_state where
  "ls_state0 = \<lparr> lists = \<lparr> first = (\<lambda>_. None), hnext = (\<lambda>_. None), pprev = (\<lambda>_. None) \<rparr>,
     sdata_smap = (\<lambda>e. if e = 1 then 1 else 0), selem_storage = (\<lambda>_. None),
     smaps = (\<lambda>m. if m = 0 then ls_smap0 else ls_smap0\<lparr>ls_elem_size := 0\<rparr>),
     storages = (\<lambda>_. \<lparr> cache = replicate 16 None, owner = None, mem_charge = 0, owner_refcnt = 0 \<rparr>),
     owner_cell = (\<lambda>_. None) \<rparr>"

definition set_cache3 :: "selem option \<Rightarrow> ls_state \<Rightarrow> ls_state" where
  "set_cache3 e s = upd_storage 0 (\<lambda>st. st\<lparr>cache := (cache st)[3 := e]\<rparr>) s"

definition cache3 :: "ls_state \<Rightarrow> selem option" where
  "cache3 s = cache (storages s 0) ! 3"

definition ls_linked :: ls_state where
  "ls_linked =
     (let s = ls_state0\<lparr>lists := INIT_HLIST_NODE (Map_node 0) (INIT_HLIST_NODE (Snode 0)
            (INIT_HLIST_HEAD (Bucket 0) (INIT_HLIST_HEAD (Storage_list 0) (lists ls_state0))))\<rparr>
      in bpf_selem_link_storage_nolock 0 0 s)"

text \<open>The lookups are total here; \<^verbatim>\<open>None\<close> of the model would be a search that does not end.\<close>

definition ls_lookups :: "ls_state \<times> check list" where
  "ls_lookups =
     (let s1 = ls_linked;
          (r2, s2) = the (bpf_local_storage_lookup 0 0 False (set_cache3 (Some 1) s1));
          (r3, s3) = the (bpf_local_storage_lookup 0 0 False (set_cache3 None s2));
          (r4, s4) = the (bpf_local_storage_lookup 0 1 False s3);
          (r5, s5) = the (bpf_local_storage_lookup 0 0 True s4);
          (r6, s6) = the (bpf_local_storage_lookup 0 0 True s5)
      in (s6, [Prove (\<not> selem_linked_to_storage ls_state0 0), Prove (\<not> selem_linked_to_storage_lockless ls_state0 0),
          Prove (selem_linked_to_storage s1 0), Prove (selem_linked_to_storage_lockless s1 0),
          Prove (mem_charge (storages s1 0) = 32), Prove (selem_storage s1 0 = Some 0),
          Assert (r2 = Some 0), Assert (cache3 s2 = Some 1), Assert (r3 = Some 0), Assert (cache3 s3 = None),
          Assert (r4 = None), Assert (r5 = Some 0), Assert (cache3 s5 = Some 0), Assert (r6 = Some 0)]))"

definition ls_maps :: "ls_state \<Rightarrow> ls_state \<times> check list" where
  "ls_maps s =
     (let s1 = bpf_selem_link_map_nolock 0 0 s; s2 = bpf_selem_unlink_map_nolock 0 s1
      in (s2, [Prove (\<not> selem_linked_to_map s 0), Prove (selem_linked_to_map s1 0),
          Prove (first (lists s1) (Bucket 0) = Some (Map_node 0)),
          Prove (\<not> selem_linked_to_map s2 0), Prove (first (lists s2) (Bucket 0) = None)]))"

section \<open>Unlinking\<close>

text \<open>The block starts with fresh lists: \<^verbatim>\<open>storage.list\<close>, the free list and the nodes are initialised again, the
  owner points to \<^verbatim>\<open>owner_slot\<close>, so the unlinking does not fault.  It is run from the state \<open>s\<close> the previous checks leave.\<close>

definition ls_fresh :: "nat \<Rightarrow> u64 \<Rightarrow> selem option \<Rightarrow> ls_state \<Rightarrow> ls_state" where
  "ls_fresh fl charge c s =
     (let s = s\<lparr>lists := INIT_HLIST_NODE (Free_node 0) (INIT_HLIST_NODE (Snode 0)
            (INIT_HLIST_HEAD (Free_list fl) (INIT_HLIST_HEAD (Storage_list 0) (lists s))))\<rparr>;
          s = s\<lparr>owner_cell := (owner_cell s)(slot := Some 0)\<rparr>;
          s = upd_storage 0 (\<lambda>st. st\<lparr>mem_charge := charge, owner := Some slot\<rparr>) s
      in set_cache3 c s)"

definition ls_unlink_one :: "ls_state \<Rightarrow> ls_state \<times> check list" where
  "ls_unlink_one s0 =
     (let s = ls_fresh 0 0 None s0;
          s = s\<lparr>lists := INIT_HLIST_NODE (Snode 2) (lists s)\<rparr>;
          s = bpf_selem_link_storage_nolock 0 0 s;
          s = s\<lparr>lists := hlist_add_head_rcu (Snode 2) (Storage_list 0) (lists s)\<rparr>;
          s = set_cache3 (Some 0) s;
          (free_storage, s) = the (bpf_selem_unlink_storage_nolock 0 0 0 s)
      in (s, [Prove (\<not> free_storage), Prove (\<not> selem_linked_to_storage s 0), Prove (cache3 s = None),
              Prove (mem_charge (storages s 0) = 0), Prove (first (lists s) (Storage_list 0) = Some (Snode 2)),
              Prove (hnext (lists s) (Snode 2) = None), Prove (first (lists s) (Free_list 0) = Some (Free_node 0))]))"

definition ls_unlink_last :: "ls_state \<Rightarrow> check list" where
  "ls_unlink_last s0 =
     (let s = ls_fresh 1 (ucast sizeof_local_storage) (Some 0) s0;
          s = bpf_selem_link_storage_nolock 0 0 s;
          (free_storage, s) = the (bpf_selem_unlink_storage_nolock 0 0 1 s)
      in [Prove free_storage, Prove (\<not> selem_linked_to_storage s 0), Prove (cache3 s = None),
          Prove (mem_charge (storages s 0) = 0), Prove (owner (storages s 0) = None), Prove (owner_cell s slot = None),
          Prove (first (lists s) (Storage_list 0) = None), Prove (first (lists s) (Free_list 1) = Some (Free_node 0))])"

definition ls_cache_idx :: "check list" where
  "ls_cache_idx =
     (let counts = (replicate 16 0)[0 := 2, 1 := 1]; (idx, counts1) = bpf_local_storage_cache_idx_get counts;
          counts2 = bpf_local_storage_cache_idx_free counts1 idx
      in [Prove (idx = 2), Prove (counts1 ! 2 = 1), Prove (counts2 ! 2 = 0)])"

definition bpf_local_storage_prove :: "u64 option \<Rightarrow> outcome" where
  "bpf_local_storage_prove input =
     (let (s1, lookups) = ls_lookups; (s2, maps) = ls_maps s1; (s3, one) = ls_unlink_one s2
      in run_checks (ls_alloc @ [Prove (ls_ret1 = - E2BIG)] @ ls_checks @ lookups @ maps @ one @ ls_unlink_last s3 @ ls_cache_idx)
           (of_int ls_ret1 + of_int ls_ret2 + 2 + ucast (input_or 0 input)))"

subsection \<open>Every check holds\<close>

lemma ls_alloc_hold: "all_hold ls_alloc"
  by code_simp

lemma ls_rets: "ls_ret1 = - E2BIG" "ls_ret2 = - EINVAL"
  by (code_simp, code_simp)

lemma ls_checks_hold: "all_hold ls_checks"
  by code_simp

lemma ls_lookups_hold: "all_hold (snd ls_lookups)"
  by code_simp

lemma ls_maps_hold: "all_hold (snd (ls_maps (fst ls_lookups)))"
  by code_simp

lemma ls_cache_idx_hold: "all_hold ls_cache_idx"
  by code_simp

lemma ls_unlink_one_hold: "all_hold (snd (ls_unlink_one (fst (ls_maps (fst ls_lookups)))))"
  by code_simp

lemma ls_unlink_last_hold: "all_hold (ls_unlink_last (fst (ls_unlink_one (fst (ls_maps (fst ls_lookups))))))"
  by code_simp

text \<open>The program of \<^verbatim>\<open>targets/bpf_local_storage_prove\<close> passes all its checks: linking, cached and uncached
  lookup, both ways of unlinking and the choice of a cache slot do what it says, for every input.\<close>

theorem bpf_local_storage_prove_passes:
  "bpf_local_storage_prove input = Returned (ucast (input_or 0 input) - 27)"
proof -
  have "bpf_local_storage_prove input =
      Returned (of_int ls_ret1 + of_int ls_ret2 + 2 + ucast (input_or 0 input))"
    unfolding bpf_local_storage_prove_def split_def Let_def
    by (rule run_checks_pass)
       (simp add: ls_alloc_hold ls_rets ls_checks_hold ls_lookups_hold ls_maps_hold ls_unlink_one_hold ls_unlink_last_hold ls_cache_idx_hold)
  then show ?thesis by (simp add: ls_rets)
qed

section \<open>Update flags and pinned owners\<close>

definition fl_flags :: "check list" where
  "fl_flags =
     (let smap = \<lparr> ls_record = Some 0, bucket_log = 0, ls_elem_size = 32, cache_idx = 3 \<rparr>;
          spin = smap\<lparr>ls_record := Some BPF_SPIN_LOCK\<rparr>
      in [Prove (bpf_local_storage_update_flags_check smap BPF_ANY = 0),
          Prove (bpf_local_storage_update_flags_check smap BPF_NOEXIST = 0),
          Prove (bpf_local_storage_update_flags_check smap BPF_EXIST = 0),
          Prove (bpf_local_storage_update_flags_check smap (BPF_NOEXIST OR BPF_EXIST) = - EINVAL),
          Prove (bpf_local_storage_update_flags_check smap (BPF_EXIST + 1) = - EINVAL),
          Prove (bpf_local_storage_update_flags_check smap BPF_F_LOCK = - EINVAL),
          Prove (bpf_local_storage_update_flags_check smap (BPF_F_LOCK OR BPF_EXIST) = - EINVAL),
          Assert (bpf_local_storage_update_flags_check spin BPF_F_LOCK = 0),
          Assert (bpf_local_storage_update_flags_check spin (BPF_F_LOCK OR BPF_EXIST) = 0),
          Assert (bpf_local_storage_update_flags_check spin (BPF_F_LOCK OR BPF_NOEXIST) = 0),
          Prove (bpf_local_storage_update_flags_check spin (BPF_F_LOCK OR BPF_NOEXIST OR BPF_EXIST) = - EINVAL)])"

text \<open>A storage charged for itself and the element, cached, with the given owner count.\<close>

definition fl_pinned :: "u32 \<Rightarrow> ls_state \<Rightarrow> ls_state" where
  "fl_pinned refs s =
     (let s = s\<lparr>owner_cell := (owner_cell s)(slot := Some 0)\<rparr>;
          s = upd_storage 0 (\<lambda>st. st\<lparr>owner := Some slot, mem_charge := ucast sizeof_local_storage + 32, owner_refcnt := refs\<rparr>) s
      in set_cache3 (Some 0) s)"

definition fl_misc :: "check list \<times> u32" where
  "fl_misc =
     (let s1 = the (bpf_selem_unlink_storage_nolock_misc 0 0 0 True True (fl_pinned 0 ls_state0));
          s2 = the (bpf_selem_unlink_storage_nolock_misc 0 0 0 True True (fl_pinned 1 s1));
          refs = owner_refcnt (storages s2 0)
      in ([Assert (cache3 s1 = None), Assert (mem_charge (storages s1 0) = ucast sizeof_local_storage + 32),
           Prove (owner_refcnt (storages s1 0) = 0), Assert (owner (storages s1 0) = Some slot), Assert (owner_cell s1 slot = Some 0),
           Assert (cache3 s2 = None), Assert (mem_charge (storages s2 0) = 0), Prove (refs = 1),
           Assert (owner (storages s2 0) = None), Assert (owner_cell s2 slot = None)], refs))"

text \<open>The cache index is 3, below \<^verbatim>\<open>BPF_LOCAL_STORAGE_CACHE_SIZE\<close>, so the early return is not taken.\<close>

definition bpf_local_storage_flags_prove :: "u64 option \<Rightarrow> outcome" where
  "bpf_local_storage_flags_prove input =
     (let (misc, ret) = fl_misc
      in if unat (cache_idx ls_smap0) \<ge> BPF_LOCAL_STORAGE_CACHE_SIZE then Returned (- 1)
         else run_checks (fl_flags @ misc) (scast ret + ucast (input_or 0 input)))"

lemma fl_flags_hold: "all_hold fl_flags"
  by code_simp

lemma fl_misc_hold: "all_hold (fst fl_misc)" "snd fl_misc = 1"
  by (code_simp, code_simp)

text \<open>The program of \<^verbatim>\<open>targets/bpf_local_storage_flags_prove\<close> passes all its checks: with a dead owner the
  charge and the owner stay, with a live one the whole charge is returned and the owner forgotten.\<close>

theorem bpf_local_storage_flags_prove_passes:
  "bpf_local_storage_flags_prove input = Returned (ucast (input_or 0 input) + 1)"
proof -
  have "bpf_local_storage_flags_prove input = run_checks (fl_flags @ fst fl_misc) (1 + ucast (input_or 0 input))"
    by (simp add: bpf_local_storage_flags_prove_def split_def fl_misc_hold(2) ls_smap0_def)
  also have "\<dots> = Returned (1 + ucast (input_or 0 input))"
    by (rule run_checks_pass) (simp add: fl_flags_hold fl_misc_hold(1))
  finally show ?thesis by (simp add: add.commute)
qed

end
