(* ===== verification/Harness_Bloom.thy ===== *)
theory Harness_Bloom
  imports Harness_Core Bloom
begin

text \<open>
  \<^verbatim>\<open>targets/bloom_filter/harness.c\<close> and \<^verbatim>\<open>targets/bloom_filter_prove/harness.c\<close> on the filter of
  \<^verbatim>\<open>Bloom\<close>.  As there, the hash functions are parameters: the harnesses pass for all of them.
\<close>

text \<open>The four bytes of a \<^verbatim>\<open>u32\<close> in memory.\<close>

definition u32_bytes :: "u32 \<Rightarrow> u8 list" where
  "u32_bytes v = [ucast v, ucast (drop_bit 8 v), ucast (drop_bit 16 v), ucast (drop_bit 24 v)]"

section \<open>No false negatives\<close>

definition bloom_filter_harness :: "jhash_ops \<Rightarrow> outcome" where
  "bloom_filter_harness jh =
     (let bloom = bloom_filter_init 4 3 0xdeadbeef;
          val_a = u32_bytes 0x12345678; val_b = u32_bytes 0xdeadbeef; val_c = u32_bytes 0xc0ffee42;
          (ra, bloom_a) = bloom_map_push_elem jh bloom val_a BPF_ANY;
          (rb, bloom_b) = bloom_map_push_elem jh bloom_a val_b BPF_ANY;
          (rc, bloom_c) = bloom_map_push_elem jh bloom_b val_c BPF_ANY;
          (rd, bloom_d) = bloom_map_push_elem jh bloom_c val_a BPF_ANY
      in run_checks
          [Assert (bloom_map_peek_elem jh bloom val_a = - ENOENT),
           Assert (ra = 0), Assert (bloom_map_peek_elem jh bloom_a val_a = 0),
           Assert (rb = 0), Assert (bloom_map_peek_elem jh bloom_b val_b = 0),
           Assert (rc = 0), Assert (bloom_map_peek_elem jh bloom_c val_c = 0),
           Assert (rd = 0), Assert (bloom_map_peek_elem jh bloom_d val_a = 0),
           Assert (fst (bloom_map_push_elem jh bloom_d val_a 1) = - EINVAL)] 0)"

lemma push_ok: "fst (bloom_map_push_elem jh b v BPF_ANY) = 0"
  by (simp add: bloom_map_push_elem_def)

lemma push_found:
  assumes "bloom_wf b"
  shows "bloom_wf (snd (bloom_map_push_elem jh b v BPF_ANY))"
    and "bloom_map_peek_elem jh (snd (bloom_map_push_elem jh b v BPF_ANY)) v = 0"
proof -
  obtain x where x: "bloom_map_push_elem jh b v BPF_ANY = (0, b\<lparr>bitset := x\<rparr>)" "bloom_wf (b\<lparr>bitset := x\<rparr>)"
    "bits_of (b\<lparr>bitset := x\<rparr>) = bits_of b \<union> hash_bits jh b v" by (rule push_bits[OF assms])
  then show "bloom_wf (snd (bloom_map_push_elem jh b v BPF_ANY))"
    "bloom_map_peek_elem jh (snd (bloom_map_push_elem jh b v BPF_ANY)) v = 0" by (simp_all add: peek_iff)
qed

lemma peek_empty: "0 < unat n \<Longrightarrow> bloom_map_peek_elem jh (bloom_filter_init vs n seed) v = - ENOENT"
proof -
  assume n: "0 < unat n"
  let ?b = "bloom_filter_init vs n seed"
  have "hash_bits jh ?b v \<noteq> {}" using n by (auto simp: hash_bits_def hash_indices_def bloom_filter_init_def)
  then have "bloom_map_peek_elem jh ?b v \<noteq> 0" by (simp add: peek_iff[OF bloom_init_wf] bits_of_init)
  then show ?thesis by (simp add: bloom_map_peek_elem_def split: if_splits)
qed

text \<open>The program of \<^verbatim>\<open>targets/bloom_filter\<close> returns 0, whatever the hash functions are: an empty filter
  reports no element, every pushed element is found, pushing again changes nothing, and bad flags are refused.\<close>

theorem bloom_filter_harness_passes: "bloom_filter_harness jh = Returned 0"
proof -
  let ?i = "bloom_filter_init 4 3 0xdeadbeef"
  let ?push = "\<lambda>b v. snd (bloom_map_push_elem jh b v BPF_ANY)"
  have wf: "bloom_wf ?i" by (rule bloom_init_wf)
  note w1 = push_found(1)[OF wf, of jh "u32_bytes 0x12345678"]
  note w2 = push_found(1)[OF w1, of jh "u32_bytes 0xdeadbeef"]
  note w3 = push_found(1)[OF w2, of jh "u32_bytes 0xc0ffee42"]
  show ?thesis unfolding bloom_filter_harness_def Let_def split_def
    by (rule run_checks_pass)
       (simp add: push_ok peek_empty push_found(2)[OF wf] push_found(2)[OF w1] push_found(2)[OF w2] push_found(2)[OF w3],
        simp add: bloom_map_push_elem_def)
qed

section \<open>Hash range and bits\<close>

definition bf_mark :: "bpf_bloom_filter \<Rightarrow> u32 \<Rightarrow> bpf_bloom_filter \<times> check" where
  "bf_mark bloom h0 =
     (let i = (if h0 < 64 then 0 else if h0 < 128 then 1 else if h0 < 192 then 2 else 3 :: nat);
          b = (push_bit (unat (h0 - of_nat (64 * i))) 1 :: u64);
          bloom = bloom\<lparr>bitset := (bitset bloom)[i := bitset bloom ! i OR b]\<rparr>
      in (bloom, Prove ((bitset bloom ! i AND b) \<noteq> 0)))"

definition bitset_zero :: "bpf_bloom_filter \<Rightarrow> check list" where
  "bitset_zero bloom = map (\<lambda>i. Prove (bitset bloom ! i = 0)) [0, 1, 2, 3]"

definition bloom_filter_prove :: "jhash_ops \<Rightarrow> u64 option \<Rightarrow> outcome" where
  "bloom_filter_prove jh input =
     (let val = (case input of Some v \<Rightarrow> ucast v | None \<Rightarrow> 0x12345678) :: u32;
          bloom = bloom_filter_init 4 3 0xdeadbeef;
          (ret, bloom1) = bloom_map_push_elem jh bloom (u32_bytes val) 1;
          h = (\<lambda>i. bloom_hash jh bloom1 (u32_bytes val) 4 i);
          (bloom2, marked) = bf_mark bloom1 (h 0)
      in run_checks
          ([Prove (bloom_value_size bloom = 4), Prove (bitset_mask bloom = 255), Prove (nr_hash_funcs bloom = 3)] @ bitset_zero bloom @
           [Prove (ret = - EINVAL)] @ bitset_zero bloom1 @
           [Prove (h 0 \<le> bitset_mask bloom1), Prove (h 1 \<le> bitset_mask bloom1), Prove (h 2 \<le> bitset_mask bloom1), marked,
            Prove (fst (bloom_map_push_elem jh bloom2 (u32_bytes val) BPF_ANY) = 0)])
          (val + h 0 + h 1 + h 2))"

lemma set_then_test:
  assumes "k < 64" and "i < length bs"
  shows "bs[i := bs ! i OR push_bit k 1] ! i AND push_bit k (1 :: u64) \<noteq> 0"
  unfolding and_push_bit_1_eq_0_iff using assms by (simp add: bit_or_iff bit_exp_iff)

lemma bf_mark_holds:
  assumes "h < 256" and "length (bitset b) = 4"
  shows "check_holds (snd (bf_mark b h))"
proof -
  let ?i = "if h < 64 then 0 else if h < 128 then 1 else if h < 192 then 2 else 3 :: nat"
  have "unat (h - of_nat (64 * ?i)) < 64"
    using assms(1) by (auto simp: word_less_nat_alt unat_sub word_le_nat_alt not_less)
  moreover have "?i < length (bitset b)" using assms(2) by simp
  ultimately show ?thesis unfolding bf_mark_def Let_def snd_conv check_holds.simps
    by (cases b) (simp only: bpf_bloom_filter.simps, rule set_then_test)
qed

text \<open>The program of \<^verbatim>\<open>targets/bloom_filter_prove\<close> never stores through the null pointer: for every input and
  every hash function the three hashes are in range, a refused push changes nothing and a set bit reads
  back; it returns the value plus its three hashes.\<close>

theorem bloom_filter_prove_passes:
  "bloom_filter_prove jh input =
     (let val = (case input of Some v \<Rightarrow> ucast v | None \<Rightarrow> 0x12345678) :: u32;
          h = bloom_hash jh (bloom_filter_init 4 3 0xdeadbeef) (u32_bytes val) 4
      in Returned (val + h 0 + h 1 + h 2))"
proof -
  let ?b = "bloom_filter_init 4 3 0xdeadbeef"
  have le: "h < 256 \<Longrightarrow> h \<le> 255" for h :: u32 by (simp add: word_less_nat_alt word_le_nat_alt)
  have mark: "check_holds (snd (bf_mark ?b (bloom_hash jh ?b v 4 0)))" for v
    by (rule bf_mark_holds[OF hash_less[OF bloom_init_wf]]) (simp add: bloom_filter_init_def)
  have zero: "all_hold (bitset_zero ?b)" by (simp add: bitset_zero_def bloom_filter_init_def)
  have refused: "bloom_map_push_elem jh ?b v 1 = (- EINVAL, ?b)" for v by (simp add: bloom_map_push_elem_def)
  have "bitset_mask ?b = 255" "bloom_value_size ?b = 4" "nr_hash_funcs ?b = 3" by (simp_all add: bloom_filter_init_def)
  then show ?thesis unfolding bloom_filter_prove_def Let_def refused split_def fst_conv snd_conv
    by (intro run_checks_pass) (simp add: zero mark le[OF hash_less[OF bloom_init_wf]] push_ok)
qed

end
