(* ===== verification/Harness_Helpers.thy ===== *)
theory Harness_Helpers
  imports Harness_Core Helpers
begin

text \<open>
  \<^verbatim>\<open>targets/helpers_prove/harness.c\<close> on the helper prototypes and bodies of \<^verbatim>\<open>Helpers\<close>.  \<open>x\<close> and
  \<open>vals\<close> are the addresses of the locals \<^verbatim>\<open>x\<close> and \<^verbatim>\<open>values\<close>.
\<close>

text \<open>The prototype a pointer returned by \<^verbatim>\<open>bpf_base_func_proto\<close> refers to.\<close>

definition proto_at :: "proto_ptr option \<Rightarrow> bpf_func_proto" where
  "proto_at p = (case p of None \<Rightarrow> no_proto | Some n \<Rightarrow> (case map_of proto_objects n of None \<Rightarrow> no_proto | Some pr \<Rightarrow> pr))"

definition hp_prog :: "u64 \<Rightarrow> bpf_prog" where
  "hp_prog caps = \<lparr> prog_token = Some caps, prog_sleepable = False \<rparr>"

definition hp_base :: "check list" where
  "hp_base =
     (let proto = (\<lambda>fid. bpf_base_func_proto fid (hp_prog 0)); arg = (\<lambda>fid n. arg_types (proto_at (proto fid)) ! (n - 1))
      in [Prove (proto BPF_FUNC_map_lookup_elem = Some ''bpf_map_lookup_elem_proto''),
          Prove (ret_type (proto_at (proto BPF_FUNC_map_lookup_elem)) = RET_PTR_TO_MAP_VALUE_OR_NULL),
          Prove (arg BPF_FUNC_map_lookup_elem 1 = ARG_CONST_MAP_PTR), Prove (arg BPF_FUNC_map_lookup_elem 2 = ARG_PTR_TO_MAP_KEY),
          Prove (pkt_access (proto_at (proto BPF_FUNC_map_lookup_elem))),
          Prove (proto BPF_FUNC_map_update_elem = Some ''bpf_map_update_elem_proto''),
          Prove (arg BPF_FUNC_map_update_elem 3 = ARG_PTR_TO_MAP_VALUE), Prove (arg BPF_FUNC_map_update_elem 4 = ARG_ANYTHING),
          Prove (proto BPF_FUNC_map_pop_elem = Some ''bpf_map_pop_elem_proto''),
          Prove (arg BPF_FUNC_map_pop_elem 2 = ARG_PTR_TO_MAP_VALUE OR MEM_UNINIT OR MEM_WRITE),
          Prove (proto BPF_FUNC_strtol = Some ''bpf_strtol_proto''), Prove (arg BPF_FUNC_strtol 1 = ARG_PTR_TO_MEM OR MEM_RDONLY),
          Prove (arg BPF_FUNC_strtol 4 = ARG_PTR_TO_FIXED_SIZE_MEM OR MEM_UNINIT OR MEM_WRITE OR MEM_ALIGNED),
          Prove (arg4_size (proto_at (proto BPF_FUNC_strtol)) = 8),
          Prove (proto BPF_FUNC_strtoul = Some ''bpf_strtoul_proto''), Prove (arg4_size (proto_at (proto BPF_FUNC_strtoul)) = 8),
          Prove (proto BPF_FUNC_strncmp = Some ''bpf_strncmp_proto''), Prove (arg BPF_FUNC_strncmp 3 = ARG_PTR_TO_CONST_STR),
          Prove (proto BPF_FUNC_get_ns_current_pid_tgid = Some ''bpf_get_ns_current_pid_tgid_proto''),
          Prove (arg BPF_FUNC_get_ns_current_pid_tgid 3 = ARG_PTR_TO_UNINIT_MEM),
          Prove (arg BPF_FUNC_get_ns_current_pid_tgid 4 = ARG_CONST_SIZE),
          Prove (proto BPF_FUNC_unspec = None), Prove (proto BPF_FUNC_spin_lock = None), Prove (proto BPF_FUNC_get_current_comm = None)])"

definition hp_bpf_caps :: u64 where
  "hp_bpf_caps = push_bit CAP_BPF 1"

definition hp_perf_caps :: u64 where
  "hp_perf_caps = push_bit CAP_BPF 1 OR push_bit CAP_PERFMON 1"

definition hp_bpf :: "check list" where
  "hp_bpf =
     (let proto = (\<lambda>fid. bpf_base_func_proto fid (hp_prog hp_bpf_caps)); arg = (\<lambda>fid n. arg_types (proto_at (proto fid)) ! (n - 1))
      in [Prove (proto BPF_FUNC_spin_lock = Some ''bpf_spin_lock_proto''),
          Prove (ret_type (proto_at (proto BPF_FUNC_spin_lock)) = RET_VOID), Prove (arg BPF_FUNC_spin_lock 1 = ARG_PTR_TO_SPIN_LOCK),
          Prove (proto BPF_FUNC_per_cpu_ptr = Some ''bpf_per_cpu_ptr_proto''),
          Prove (ret_type (proto_at (proto BPF_FUNC_per_cpu_ptr)) = RET_PTR_TO_MEM_OR_BTF_ID OR PTR_MAYBE_NULL OR MEM_RDONLY),
          Prove (proto BPF_FUNC_this_cpu_ptr = Some ''bpf_this_cpu_ptr_proto''),
          Prove (ret_type (proto_at (proto BPF_FUNC_this_cpu_ptr)) = RET_PTR_TO_MEM_OR_BTF_ID OR MEM_RDONLY),
          Prove (proto BPF_FUNC_kptr_xchg = Some ''bpf_kptr_xchg_proto''),
          Prove (arg BPF_FUNC_kptr_xchg 2 = ARG_PTR_TO_BTF_ID_OR_NULL OR OBJ_RELEASE),
          Prove (proto BPF_FUNC_get_current_comm = None)])"

definition hp_perf :: "check list" where
  "hp_perf =
     (let prog = hp_prog hp_perf_caps; proto = (\<lambda>fid. bpf_base_func_proto fid prog);
          arg = (\<lambda>fid n. arg_types (proto_at (proto fid)) ! (n - 1))
      in [Prove (proto BPF_FUNC_get_current_comm = Some ''bpf_get_current_comm_proto''),
          Prove (arg BPF_FUNC_get_current_comm 1 = ARG_PTR_TO_UNINIT_MEM), Prove (arg BPF_FUNC_get_current_comm 2 = ARG_CONST_SIZE),
          Prove (proto BPF_FUNC_copy_from_user_task = Some ''bpf_copy_from_user_task_proto''),
          Prove (might_sleep (proto_at (proto BPF_FUNC_copy_from_user_task))), Prove (arg BPF_FUNC_copy_from_user_task 5 = ARG_ANYTHING),
          Prove (bpf_base_func_proto BPF_FUNC_get_task_stack (prog\<lparr>prog_sleepable := False\<rparr>) = Some ''bpf_get_task_stack_proto''),
          Prove (bpf_base_func_proto BPF_FUNC_get_task_stack (prog\<lparr>prog_sleepable := True\<rparr>) = Some ''bpf_get_task_stack_sleepable_proto'')])"

definition hp_bodies :: "u64 \<Rightarrow> u64 \<Rightarrow> check list" where
  "hp_bodies x vals =
     (let dst = replicate 8 0;
          (r1, d1) = bpf_copy_from_user_task dst 0 0; (r2, d2) = bpf_copy_from_user_task d1 4 1;
          (r3, d3) = bpf_copy_from_user_task d2 4 0; (r4, d4) = bpf_copy_from_user_task (d3[0 := 7]) 3 0;
          arr = \<lparr> km_is_array = True, km_key_size = 0, km_elem_size = 8, km_value = vals \<rparr>;
          hash = \<lparr> km_is_array = False, km_key_size = 5, km_elem_size = 0, km_value = 0 \<rparr>
      in [Prove (bpf_event_output_data BPF_F_INDEX_MASK = 0), Prove (bpf_event_output_data (push_bit 32 1) = word_of_int (- EINVAL)),
          Prove (gpl_only bpf_event_output_data_proto),
          Prove (arg_types bpf_event_output_data_proto ! 3 = ARG_PTR_TO_MEM OR MEM_RDONLY),
          Prove (arg_types bpf_event_output_data_proto ! 4 = ARG_CONST_SIZE_OR_ZERO),
          Prove (r1 = 0), Prove (r2 = word_of_int (- EINVAL)), Prove (r3 = 0), Prove (r4 = word_of_int (- EFAULT)), Prove (d4 ! 0 = 0),
          Assert (bpf_per_cpu_ptr x 2 = x), Prove (bpf_per_cpu_ptr x HELPERS_TEST_NR_CPUS = 0), Assert (bpf_this_cpu_ptr x = x),
          Assert (map_key_from_value arr (vals + 16) = Inl 2), Assert (map_key_from_value hash (vals + 16) = Inr (vals + 8))])"

text \<open>The last \<^verbatim>\<open>arr_idx\<close> is the 2 the array lookup stored.\<close>

definition helpers_prove :: "u64 \<Rightarrow> u64 \<Rightarrow> u64 option \<Rightarrow> outcome" where
  "helpers_prove x vals input = run_checks (hp_base @ hp_bpf @ hp_perf @ hp_bodies x vals) (ucast (input_or 0 input) + 2)"

section \<open>Every check holds\<close>

lemma hp_base_hold: "all_hold hp_base"
  by code_simp

lemma hp_bpf_hold: "all_hold hp_bpf"
  by code_simp

lemma hp_perf_hold: "all_hold hp_perf"
  by code_simp

lemma copy_calls:
  "bpf_copy_from_user_task (replicate 8 0) 0 0 = (0, replicate 8 0)"
  "bpf_copy_from_user_task (replicate 8 0) 4 1 = (word_of_int (- EINVAL), replicate 8 0)"
  "bpf_copy_from_user_task (replicate 8 0) 4 0 = (0, replicate 8 0)"
  "bpf_copy_from_user_task ((replicate 8 0)[0 := 7]) 3 0 = (word_of_int (- EFAULT), replicate 8 0)"
  by (code_simp, code_simp, code_simp, code_simp)

lemma event_output_calls:
  "bpf_event_output_data BPF_F_INDEX_MASK = 0" "bpf_event_output_data (push_bit 32 1) = word_of_int (- EINVAL)"
  by (code_simp, code_simp)

lemma hp_bodies_hold: "all_hold (hp_bodies x vals)"
proof -
  have "sint (16 :: u64) sdiv int (unat (8 :: u32)) = 2" by code_simp
  then have "map_key_from_value \<lparr> km_is_array = True, km_key_size = 0, km_elem_size = 8, km_value = vals \<rparr> (vals + 16) = Inl 2"
    by (simp add: map_key_from_value_def)
  then show ?thesis unfolding hp_bodies_def Let_def copy_calls split_def fst_conv snd_conv
    by (simp add: event_output_calls event_output_calls(2)[simplified] map_key_from_value_def bpf_per_cpu_ptr_def per_cpu_ptr_def bpf_this_cpu_ptr_def
      HELPERS_TEST_NR_CPUS_def round_up_def bpf_event_output_data_proto_def no_proto_def)
qed

text \<open>The program of \<^verbatim>\<open>targets/helpers_prove\<close> passes all its checks for every input and wherever its locals
  live: helper numbers resolve to the expected prototypes by capability, and the helper bodies return what it says.\<close>

theorem helpers_prove_passes: "helpers_prove x vals input = Returned (ucast (input_or 0 input) + 2)"
  unfolding helpers_prove_def
  by (rule run_checks_pass) (simp add: hp_base_hold hp_bpf_hold hp_perf_hold hp_bodies_hold)

end
