(* ===== verification/Harness_Fixups.thy ===== *)
theory Harness_Fixups
  imports Harness_Core Fixups
begin

text \<open>\<^verbatim>\<open>targets/fixups_prove/harness.c\<close> on the instruction classifiers of \<^verbatim>\<open>Fixups\<close>.\<close>

abbreviation BPF_W :: u8 where "BPF_W \<equiv> 0x00"
abbreviation BPF_MOV :: u8 where "BPF_MOV \<equiv> 0xb0"
abbreviation BPF_JEQ :: u8 where "BPF_JEQ \<equiv> 0x10"
abbreviation BPF_JCOND :: u8 where "BPF_JCOND \<equiv> 0xe0"
abbreviation BPF_ADD :: u32 where "BPF_ADD \<equiv> 0x00"

definition fx_jumps :: "check list" where
  "fx_jumps =
     [Prove (bpf_insn_is_cond_jump (BPF_JMP OR BPF_JEQ OR BPF_K)), Prove (\<not> bpf_insn_is_cond_jump (BPF_JMP OR BPF_CALL OR BPF_K)),
      Prove (bpf_insn_is_cond_jump (BPF_JMP32 OR BPF_JEQ OR BPF_K)), Prove (\<not> bpf_insn_is_cond_jump (BPF_JMP32 OR BPF_JA)),
      Prove (\<not> bpf_insn_is_cond_jump (BPF_ALU64 OR BPF_MOV OR BPF_X)), Prove (\<not> bpf_insn_is_cond_jump (BPF_JMP OR BPF_EXIT)),
      Prove (\<not> bpf_insn_is_cond_jump (BPF_JMP OR BPF_JA)), Prove (bpf_insn_is_cond_jump (BPF_JMP OR BPF_JCOND))]"

text \<open>The defined register and the width of an instruction.\<close>

definition fx_def :: "bpf_insn \<Rightarrow> cint \<Rightarrow> bool \<Rightarrow> check list" where
  "fx_def insn reg ok = [Prove (insn_def_regno insn = reg), Prove (insn_has_def32 insn = ok)]"

definition fx_defs :: "check list" where
  "fx_defs =
     fx_def (BPF_ALU32_REG BPF_MOV 2 1) 2 True @
     fx_def (BPF_ALU64_REG BPF_MOV 3 1) 3 False @
     fx_def (BPF_STX_ATOMIC BPF_W 1 2 0 BPF_CMPXCHG) 0 True @
     fx_def (BPF_STX_ATOMIC BPF_DW 1 2 0 BPF_CMPXCHG) 0 False @
     fx_def (BPF_STX_ATOMIC BPF_W 1 2 0 (BPF_FETCH OR BPF_ADD)) 2 True @
     fx_def (BPF_STX_ATOMIC BPF_DW 1 2 0 (BPF_FETCH OR BPF_ADD)) 2 False @
     fx_def (BPF_STX_ATOMIC BPF_W 1 2 0 BPF_ADD) (- 1) False @
     fx_def (BPF_JMP_IMM BPF_JEQ 1 0 1) (- 1) False @
     fx_def (BPF_LDX_MEM BPF_W 3 1 0) 3 True @
     fx_def (BPF_LDX_MEM BPF_DW 3 1 0) 3 False"

text \<open>\<^verbatim>\<open>def\<close> and \<^verbatim>\<open>ok\<close> keep the values of the fetch-and-add instruction of width 64.\<close>

definition fixups_prove :: "u64 option \<Rightarrow> outcome" where
  "fixups_prove input =
     (let insn = BPF_STX_ATOMIC BPF_DW 1 2 0 (BPF_FETCH OR BPF_ADD); acc = of_int (insn_def_regno insn) + of_bool (insn_has_def32 insn)
      in run_checks (fx_jumps @ fx_defs) (ucast (input_or 0 input) + acc))"

lemma fx_hold: "all_hold (fx_jumps @ fx_defs)"
  by code_simp

text \<open>The program of \<^verbatim>\<open>targets/fixups_prove\<close> passes all its checks for every input.\<close>

theorem fixups_prove_passes: "fixups_prove input = Returned (ucast (input_or 0 input) + 2)"
proof -
  let ?insn = "BPF_STX_ATOMIC BPF_DW 1 2 0 (BPF_FETCH OR BPF_ADD)"
  have "insn_def_regno ?insn = 2" "\<not> insn_has_def32 ?insn" by (code_simp, code_simp)
  then show ?thesis by (simp add: fixups_prove_def run_checks_pass[OF fx_hold])
qed

end
