(* ===== verification/Harness_Lpm.thy ===== *)
theory Harness_Lpm
  imports Harness_Core Lpm_Trie
begin

text \<open>
  \<^verbatim>\<open>targets/lpm_trie/harness.c\<close> and \<^verbatim>\<open>targets/lpm_trie_prove/harness.c\<close> on the trie of \<^verbatim>\<open>Lpm_Trie\<close>.
  The harness hangs nodes of its own stack into the trie.  They are the entries 16 and 17 of
  \<^verbatim>\<open>node_pool\<close>, past the 16 slots of the pool: the allocator never returns them, and \<^verbatim>\<open>kfree\<close>, which
  looks for its argument among the slots, ignores them.  The slots start zeroed.
\<close>

text \<open>A node on the stack: \<^verbatim>\<open>hdr\<close>, the four address bytes, the eight bytes of the value.\<close>

definition stack_node :: "u32 \<Rightarrow> u8 list \<Rightarrow> u8 \<Rightarrow> lpm_trie_node" where
  "stack_node plen addr val = \<lparr>child = (\<lambda>_. None), prefixlen = plen, flags = 0, data = addr @ [val, 0, 0, 0, 0, 0, 0, 0]\<rparr>"

definition lp_state0 :: lpm_state where
  "lp_state0 = \<lparr> node_pool = replicate 16 zero_node @ [stack_node 24 [192, 168, 1, 0] 1, stack_node 24 [192, 168, 1, 0] 24],
     pool_used = replicate 16 False,
     trie = \<lparr>trie_map = \<lparr>key_size = 0, value_size = 0, max_entries = 0, map_flags = 0, numa_node = 0\<rparr>,
             root = None, n_entries = 0, max_prefixlen = 0, data_size = 0\<rparr> \<rparr>"

definition lp_value :: "u8 list" where \<comment> \<open>\<^verbatim>\<open>0x1122334455667788\<close>\<close>
  "lp_value = [0x88, 0x77, 0x66, 0x55, 0x44, 0x33, 0x22, 0x11]"

definition with_root :: "node_ptr \<Rightarrow> u64 \<Rightarrow> lpm_state \<Rightarrow> lpm_state" where
  "with_root p n s = s\<lparr>trie := (trie s)\<lparr>root := p, n_entries := n\<rparr>\<rparr>"

section \<open>The coverage harness\<close>

definition lp_bits :: "check list" where
  "lp_bits = (let data_a = [0x80, 0x00, 0x00, 0x01]
     in [Assert (extract_bit data_a 0), Assert (\<not> extract_bit data_a 1), Assert (extract_bit data_a 31), Assert (\<not> extract_bit data_a 8)])"

definition lp_matches :: "nat \<times> nat \<times> nat" where
  "lp_matches =
     (let s = lpm_trie_init 8 lp_state0; node24 = pool_node s 16; node8 = stack_node 8 [10, 0, 0, 0] 10;
          key32 = lpm_key_set 32 192 168 1 5; key24 = lpm_key_set 24 192 168 1 0
      in (the (node_match s node24 key32), the (node_match s node8 key32), the (node_match s node24 key24)))"

text \<open>\<^verbatim>\<open>None\<close> of an operation would be a walk that does not end.\<close>

definition lp_updates :: "check list" where
  "lp_updates =
     (let key24 = lpm_key_set 24 192 168 1 0;
          e = with_root None 1 (lpm_trie_init 1 lp_state0);
          re = map_option fst (trie_update_elem e key24 lp_value BPF_EXIST);
          f0 = with_root (Some 16) 1 (lpm_trie_init 1 (snd (the (trie_update_elem e key24 lp_value BPF_EXIST))));
          (r1, f1) = the (trie_update_elem f0 key24 lp_value BPF_NOEXIST);
          (r2, f2) = the (trie_update_elem f1 key24 lp_value BPF_ANY)
      in [Assert (re = Some (- ENOENT)), Assert (r1 = - EEXIST), Assert (n_entries (trie f1) = 1),
          Assert (r2 = 0), Assert (n_entries (trie f2) = 1)])"

definition lp_deletes :: "check list" where
  "lp_deletes =
     (let del_key24 = lpm_key_set 24 192 168 1 0; del_key33 = lpm_key_set 33 192 168 1 0;
          g0 = lpm_trie_init 1 lp_state0;
          (r1, g1) = the (trie_delete_elem g0 del_key33); (r2, g2) = the (trie_delete_elem g1 del_key24);
          (r3, g3) = the (trie_delete_elem (with_root (Some 17) 1 (lpm_trie_init 2 g2)) del_key24)
      in [Assert (r1 = - EINVAL), Assert (r2 = - ENOENT), Assert (r3 = 0), Assert (n_entries (trie g3) = 0),
          Assert (root (trie g3) = None)])"

definition lpm_trie_harness :: outcome where
  "lpm_trie_harness =
     (let (match_b, match_c, match_d) = lp_matches
      in run_checks (lp_bits @ [Assert (match_b = 24), Assert (match_c = 0), Assert (match_d = 24)] @ lp_updates @ lp_deletes)
           (of_nat (match_b + match_c + match_d)))"

lemma lp_bits_hold: "all_hold lp_bits"
  by code_simp

lemma lp_matches_eq: "lp_matches = (24, 0, 24)"
  by code_simp

lemma lp_updates_hold: "all_hold lp_updates"
  by code_simp

lemma lp_deletes_hold: "all_hold lp_deletes"
  by code_simp

text \<open>The program of \<^verbatim>\<open>targets/lpm_trie\<close> passes all its checks, on tries whose nodes are partly pool slots and
  partly stack objects, and returns the sum 48 of the three match lengths.\<close>

theorem lpm_trie_harness_passes: "lpm_trie_harness = Returned 48"
  unfolding lpm_trie_harness_def lp_matches_eq
  by (simp add: run_checks_pass lp_bits_hold lp_updates_hold lp_deletes_hold)

section \<open>The proof harness\<close>

definition lv_host :: "u64 option \<Rightarrow> u8" where
  "lv_host input = (case input of Some v \<Rightarrow> ucast v | None \<Rightarrow> 5)"

definition lv_bits :: "u8 \<Rightarrow> check list" where
  "lv_bits host = (let data_a = [0x80 OR (host AND 0x7f), host AND 0x7f, 0, 0]
     in [Prove (extract_bit data_a 0), Prove (\<not> extract_bit data_a 8)])"

text \<open>The keys are written as one word each: \<^verbatim>\<open>0x0001a8c0...\<close> is \<^verbatim>\<open>192.168.1.0\<close> in memory order.\<close>

definition lv_guards :: "check list" where
  "lv_guards =
     (let s = lpm_trie_init 1 lp_state0; key24 = \<lparr>key_prefixlen = 0x18, key_data = [0xc0, 0xa8, 0x01, 0x00]\<rparr>;
          key33 = \<lparr>key_prefixlen = 0x21, key_data = [0xc0, 0xa8, 0x01, 0x00]\<rparr>;
          (r1, s1) = the (trie_update_elem s key33 lp_value BPF_ANY);
          (r2, s2) = the (trie_update_elem s1 key24 lp_value (BPF_EXIST + 1));
          (r3, s3) = the (trie_delete_elem s2 key33); (r4, s4) = the (trie_delete_elem s3 key24)
      in [Prove (trie_lookup_elem s key33 = Some None), Prove (r1 = - EINVAL), Prove (r2 = - EINVAL),
          Prove (r3 = - EINVAL), Prove (r4 = - ENOENT)])"

definition lpm_trie_prove :: "u64 option \<Rightarrow> outcome" where
  "lpm_trie_prove input = run_checks (lv_bits (lv_host input) @ lv_guards) (ucast (lv_host input))"

lemma lv_bits_hold: "all_hold (lv_bits host)"
proof -
  have "(0x7f :: u8) = mask 7" "(0x80 :: u8) = push_bit 7 1" by (simp_all add: mask_eq_exp_minus_1)
  then show ?thesis unfolding lv_bits_def Let_def extract_bit_bit
    by (simp add: bit_or_iff bit_and_iff bit_mask_iff)
qed

lemma lv_guards_hold: "all_hold lv_guards"
  by code_simp

text \<open>The program of \<^verbatim>\<open>targets/lpm_trie_prove\<close> passes all its checks for every input byte and returns that byte.\<close>

theorem lpm_trie_prove_passes: "lpm_trie_prove input = Returned (ucast (lv_host input))"
  unfolding lpm_trie_prove_def by (rule run_checks_pass) (simp add: lv_bits_hold lv_guards_hold)

end
