(* ===== verification/Harness_Lru.thy ===== *)
theory Harness_Lru
  imports Harness_Core Lru_Inv
begin

text \<open>
  \<^verbatim>\<open>targets/bpf_lru_list/harness.c\<close> and \<^verbatim>\<open>targets/bpf_lru_list_prove/harness.c\<close> on the lists of
  \<^verbatim>\<open>Lru_List\<close>.  The stack arrays \<^verbatim>\<open>nodes\<close> and \<^verbatim>\<open>elems\<close> and the local list are not initialised
  by the coverage harness: the links and the fields of the nodes start as the arbitrary functions
  \<open>links\<close> and \<open>flds\<close>.  Within each phase node number \<open>i\<close> is the \<open>i\<close>th entry of its array, and
  the element's \<^verbatim>\<open>hash\<close> is the node's field.  \<open>None\<close> is a loop that does not end.
\<close>

definition lru_ctx0 :: "adr list_head \<Rightarrow> (nat \<Rightarrow> bpf_lru_node) \<Rightarrow> bpf_lru" where
  "lru_ctx0 links flds = \<lparr>cells = links, node = flds, counts = (\<lambda>_. 0), next_inactive_rotation = Null,
     next_steal = 0, target_free = 0, nr_scans = 0, percpu = False\<rparr>"

definition bpf_lru_list_is_empty :: "lru_list_type \<Rightarrow> bpf_lru \<Rightarrow> bool" where
  "bpf_lru_list_is_empty t s \<longleftrightarrow> nxt (cells s) (Head t) = Head t \<and> prv (cells s) (Head t) = Head t"

definition bpf_lru_list_single :: "lru_list_type \<Rightarrow> nat \<Rightarrow> bpf_lru \<Rightarrow> bool" where
  "bpf_lru_list_single t n s \<longleftrightarrow> nxt (cells s) (Head t) = Node n \<and> prv (cells s) (Head t) = Node n \<and>
     prv (cells s) (Node n) = Head t \<and> nxt (cells s) (Node n) = Head t"

abbreviation counts_are :: "bpf_lru \<Rightarrow> u32 \<Rightarrow> u32 \<Rightarrow> check list" where
  "counts_are s a i \<equiv> [Assert (counts s ACTIVE = a), Assert (counts s INACTIVE = i)]"

abbreviation counts_proved :: "bpf_lru \<Rightarrow> u32 \<Rightarrow> u32 \<Rightarrow> check list" where
  "counts_proved s a i \<equiv> [Prove (counts s ACTIVE = a), Prove (counts s INACTIVE = i)]"

section \<open>The coverage harness\<close>

text \<open>Three nodes are populated, allocated and moved; \<open>Some\<close> state is the one after the last move,
  with the three nodes.  A failed allocation would make the harness return before it uses the node.\<close>

definition lr_alloc :: "adr list_head \<Rightarrow> (nat \<Rightarrow> bpf_lru_node) \<Rightarrow> check list \<times> (nat \<times> nat \<times> nat) \<times> bpf_lru" where
  "lr_alloc links flds =
     (let s0 = (bpf_lru_list_init (lru_ctx0 links flds))\<lparr>nr_scans := 3\<rparr>;
          s1 = bpf_lru_list_populate 3 s0;
          (n0, s2) = bpf_lru_list_alloc s1; (n1, s3) = bpf_lru_list_alloc s2; (n2, s4) = bpf_lru_list_alloc s3;
          s5 = node_move (the n0) ACTIVE s4;
          s7 = node_move (the n2) ACTIVE (node_move (the n1) ACTIVE s5)
      in ([Assert (\<not> list_empty (Head FREE) (cells s1))] @ counts_are s1 0 0 @
          [Assert (n0 \<noteq> None \<and> n1 \<noteq> None \<and> n2 \<noteq> None), Assert (counts s4 INACTIVE = 3), Assert (counts s4 ACTIVE = 0)] @
          counts_are s5 1 2 @ [Assert (\<not> bpf_lru_list_inactive_low s5)] @
          counts_are s7 3 0 @ [Assert (bpf_lru_list_inactive_low s7)], (the n0, the n1, the n2), s7))"

definition lr_rotate :: "nat \<times> nat \<times> nat \<Rightarrow> bpf_lru \<Rightarrow> (check list \<times> bpf_lru) option" where
  "lr_rotate ns s = (let (n0, n1, n2) = ns in
     case rotate_active (bpf_lru_node_set_ref n0 s) of None \<Rightarrow> None
     | Some r \<Rightarrow> (case shrink 1 (Head FREE) FREE r of None \<Rightarrow> None
       | Some (shrunk, f) \<Rightarrow> Some (counts_are r 1 2 @ [Assert (ref (node r n0) = 0), Assert (shrunk = 1),
            Assert (n0 = 2 \<and> n1 = 1 \<and> n2 = 0), Assert (ntype (node f n1) = FREE), Assert (ntype (node f n2) = INACTIVE),
            Assert (bpf_lru_list_single ACTIVE n0 f), Assert (bpf_lru_list_single FREE n1 f),
            Assert (bpf_lru_list_single INACTIVE n2 f)] @ counts_are f 1 1, f)))"

text \<open>The second phase has a local list and elements of its own, uninitialised like the first ones.\<close>

definition lr_local :: "adr list_head \<Rightarrow> (nat \<Rightarrow> bpf_lru_node) \<Rightarrow> bpf_lru \<Rightarrow> check list \<times> bpf_lru" where
  "lr_local links flds s =
     (let s0 = bpf_lru_locallist_init 0 (bpf_lru_list_init (s\<lparr>cells := links, node := flds\<rparr>));
          s1 = bpf_lru_populate 2 (s0\<lparr>nr_scans := 2, percpu := False\<rparr>);
          (p0, s2) = bpf_lru_pop_free 0x12345678 s1;
          s3 = bpf_lru_push_free (the p0) s2;
          (q0, s4) = bpf_lru_pop_free 0x87654321 s3
      in ([Assert (target_free s1 = 1), Assert (p0 \<noteq> None), Assert (ntype (node s2 (the p0)) = LOCAL_PENDING),
           Assert (hash (node s2 (the p0)) = 0x12345678), Assert (ntype (node s3 (the p0)) = LOCAL_FREE),
           Assert (q0 \<noteq> None), Assert (q0 = Some 1), Assert (ntype (node s4 (the q0)) = LOCAL_PENDING),
           Assert (hash (node s4 (the q0)) = 0x87654321), Assert (bpf_lru_list_single LOCAL_PENDING (the q0) s4),
           Assert (bpf_lru_list_is_empty LOCAL_FREE s4), Assert (bpf_lru_list_single FREE 0 s4)], s4))"

definition bpf_lru_list_harness ::
    "adr list_head \<Rightarrow> (nat \<Rightarrow> bpf_lru_node) \<Rightarrow> adr list_head \<Rightarrow> (nat \<Rightarrow> bpf_lru_node) \<Rightarrow> outcome option" where
  "bpf_lru_list_harness links flds links' flds' =
     (let (cs1, ns, s) = lr_alloc links flds in
      case lr_rotate ns s of None \<Rightarrow> None
      | Some (cs2, s) \<Rightarrow> (let (cs3, s) = lr_local links' flds' s in
          Some (run_checks (cs1 @ cs2 @ cs3) (counts s ACTIVE + counts s INACTIVE))))"


section \<open>Why the coverage harness passes\<close>

text \<open>What the proofs keep of a state: the listed lists with their nodes in order, the nodes' types and
  reference bits (set for the nodes of \<open>R\<close>), the counters and the rotation pointer.  Lists that are not
  named stay arbitrary.\<close>

definition lists_are :: "(lru_list_type \<times> nat list) list \<Rightarrow> nat list \<Rightarrow> u32 \<Rightarrow> u32 \<Rightarrow> bpf_lru \<Rightarrow> bool" where
  "lists_are ls R a i s \<longleftrightarrow> list_all (\<lambda>(t, xs). linked (cells s) (Head t # map Node xs @ [Head t]) \<and>
       list_all (\<lambda>n. ntype (node s n) = t \<and> ref (node s n) = (if n \<in> set R then 1 else 0)) xs) ls \<and>
     counts s ACTIVE = a \<and> counts s INACTIVE = i \<and> next_inactive_rotation s = Head INACTIVE"

lemmas cell_steps = set_cells_def list_add_def list_move_def list_add_between_def list_unlink_def set_nxt_def
  set_prv_def INIT_LIST_HEAD_def list_empty_def list_del_def list_first_or_null_def

lemmas node_steps = bpf_lru_list_count_inc_def bpf_lru_list_count_dec_def set_type_def bpf_lru_node_clear_ref_def
  bpf_lru_node_set_ref_def skip_rotation_def set_node_field_def node_move_def node_move_to_free_def

lemma lr_init_lists:
  "lists_are [(ACTIVE, []), (INACTIVE, []), (FREE, [2, 1, 0])] [] 0 0 
     (bpf_lru_list_populate 3 ((bpf_lru_list_init s)\<lparr>nr_scans := 3\<rparr>))"
  "nr_scans (bpf_lru_list_populate 3 ((bpf_lru_list_init s)\<lparr>nr_scans := 3\<rparr>)) = 3"
  by (simp_all add: lists_are_def bpf_lru_list_populate_def bpf_lru_list_init_def cell_steps node_steps upt_rec)

lemma lr_alloc1:
  assumes "lists_are [(ACTIVE, []), (INACTIVE, []), (FREE, [2, 1, 0])] [] 0 0 s"
  shows "fst (bpf_lru_list_alloc s) = Some 2"
    "lists_are [(ACTIVE, []), (INACTIVE, [2]), (FREE, [1, 0])] [] 0 1 (snd (bpf_lru_list_alloc s))"
  using assms by (simp_all add: lists_are_def bpf_lru_list_alloc_def cell_steps node_steps Let_def)

lemma lr_alloc2:
  assumes "lists_are [(ACTIVE, []), (INACTIVE, [2]), (FREE, [1, 0])] [] 0 1 s"
  shows "fst (bpf_lru_list_alloc s) = Some 1"
    "lists_are [(ACTIVE, []), (INACTIVE, [1, 2]), (FREE, [0])] [] 0 2 (snd (bpf_lru_list_alloc s))"
  using assms by (simp_all add: lists_are_def bpf_lru_list_alloc_def cell_steps node_steps Let_def)

lemma lr_alloc3:
  assumes "lists_are [(ACTIVE, []), (INACTIVE, [1, 2]), (FREE, [0])] [] 0 2 s"
  shows "fst (bpf_lru_list_alloc s) = Some 0"
    "lists_are [(ACTIVE, []), (INACTIVE, [0, 1, 2]), (FREE, [])] [] 0 3 (snd (bpf_lru_list_alloc s))"
  using assms by (simp_all add: lists_are_def bpf_lru_list_alloc_def cell_steps node_steps Let_def)

lemma lr_move1:
  assumes "lists_are [(ACTIVE, []), (INACTIVE, [0, 1, 2]), (FREE, [])] [] 0 3 s"
  shows "lists_are [(ACTIVE, [2]), (INACTIVE, [0, 1]), (FREE, [])] [] 1 2 (node_move 2 ACTIVE s)"
  using assms by (simp add: lists_are_def cell_steps node_steps Let_def)

lemma lr_move2:
  assumes "lists_are [(ACTIVE, [2]), (INACTIVE, [0, 1]), (FREE, [])] [] 1 2 s"
  shows "lists_are [(ACTIVE, [0, 1, 2]), (INACTIVE, []), (FREE, [])] [] 3 0 (node_move 0 ACTIVE (node_move 1 ACTIVE s))"
  using assms by (simp add: lists_are_def cell_steps node_steps Let_def)

text \<open>The rotation visits node 2, which is referenced and stays, then 1 and 0.\<close>

lemma lr_ref:
  assumes "lists_are [(ACTIVE, [0, 1, 2]), (INACTIVE, []), (FREE, [])] [] 3 0 s"
  shows "lists_are [(ACTIVE, [0, 1, 2]), (INACTIVE, []), (FREE, [])] [2] 3 0 (bpf_lru_node_set_ref 2 s)"
  using assms by (simp add: lists_are_def node_steps c_true_def)

lemma lr_rotate1:
  assumes "lists_are [(ACTIVE, [0, 1, 2]), (INACTIVE, []), (FREE, [])] [2] 3 0 s"
  shows "lists_are [(ACTIVE, [2, 0, 1]), (INACTIVE, []), (FREE, [])] [] 3 0 (node_move 2 ACTIVE s)"
  using assms by (simp add: lists_are_def cell_steps node_steps Let_def)

lemma lr_rotate2:
  assumes "lists_are [(ACTIVE, [2, 0, 1]), (INACTIVE, []), (FREE, [])] [] 3 0 s"
  shows "lists_are [(ACTIVE, [2, 0]), (INACTIVE, [1]), (FREE, [])] [] 2 1 (node_move 1 INACTIVE s)"
  using assms by (simp add: lists_are_def cell_steps node_steps Let_def)

lemma lr_rotate3:
  assumes "lists_are [(ACTIVE, [2, 0]), (INACTIVE, [1]), (FREE, [])] [] 2 1 s"
  shows "lists_are [(ACTIVE, [2]), (INACTIVE, [0, 1]), (FREE, [])] [] 1 2 (node_move 0 INACTIVE s)"
  using assms by (simp add: lists_are_def cell_steps node_steps Let_def)

lemma lr_rotate_lists:
  assumes s: "lists_are [(ACTIVE, [0, 1, 2]), (INACTIVE, []), (FREE, [])] [2] 3 0 s" and n: "nr_scans s = 3"
  shows "\<exists>s'. rotate_active s = Some s' \<and> nr_scans s' = 3 \<and>
    lists_are [(ACTIVE, [2]), (INACTIVE, [0, 1]), (FREE, [])] [] 1 2 s'"
proof -
  let ?a = "node_move 2 ACTIVE s" let ?b = "node_move 1 INACTIVE ?a" let ?c = "node_move 0 INACTIVE ?b"
  note a = lr_rotate1 [OF s] note b = lr_rotate2 [OF a] note c = lr_rotate3 [OF b]
  have ends: "prv (cells s) (Head ACTIVE) = Node 2" "prv (cells s) (Node 2) = Node 1" "prv (cells ?a) (Node 1) = Node 0"
    "nxt (cells s) (Head ACTIVE) = Node 0"
    using s a by (simp_all add: lists_are_def)
  have body: "rotate_active_body (Node 0) (Node 2) (s, 0) = (False, ?a, 1)"
    "rotate_active_body (Node 0) (Node 1) (?a, 1) = (False, ?b, 2)"
    "rotate_active_body (Node 0) (Node 0) (?b, 2) = (True, ?c, 3)"
    using s a b n by (simp_all add: rotate_active_body_def lists_are_def bpf_lru_node_is_ref_def c_true_def)
  have "rotate_active s = Some ?c"
    unfolding rotate_active_def list_for_each_entry_safe_reverse_def Let_def o_def fst_conv ends
    by (simp add: for_each_safe_reverse.simps body ends del: One_nat_def)
  then show ?thesis using c n by simp
qed

lemma lr_shrink_lists:
  assumes s: "lists_are [(ACTIVE, [2]), (INACTIVE, [0, 1]), (FREE, [])] [] 1 2 s"
  shows "\<exists>s'. shrink 1 (Head FREE) FREE s = Some (1, s') \<and>
    lists_are [(ACTIVE, [2]), (INACTIVE, [0]), (FREE, [1])] [] 1 1 s'"
proof -
  let ?a = "node_move_to_free 1 (Head FREE) FREE s"
  have ends: "prv (cells s) (Head INACTIVE) = Node 1" using s by (simp_all add: lists_are_def)
  have body: "shrink_inactive_body 1 (Head FREE) FREE (Node 1) (s, 0, 0) = (True, ?a, 1, 0)"
    using s by (simp add: shrink_inactive_body_def bpf_lru_delete_node_def lists_are_def bpf_lru_node_is_ref_def c_true_def)
  have "shrink 1 (Head FREE) FREE s = Some (1, ?a)"
    unfolding shrink_def shrink_inactive_def list_for_each_entry_safe_reverse_def Let_def o_def fst_conv ends
    by (simp add: for_each_safe_reverse.simps body c_true_def del: One_nat_def)
  moreover have "lists_are [(ACTIVE, [2]), (INACTIVE, [0]), (FREE, [1])] [] 1 1 ?a"
    using s by (simp add: lists_are_def cell_steps node_steps Let_def)
  ultimately show ?thesis by blast
qed

lemma alloc_nr_scans: "nr_scans (snd (bpf_lru_list_alloc s)) = nr_scans s"
  by (simp add: bpf_lru_list_alloc_def node_steps cell_steps Let_def)

text \<open>The checks on the counters and on the front of a list follow from the lists.\<close>

lemma lists_are_counts: "lists_are ls R a i s \<Longrightarrow> counts s ACTIVE = a \<and> counts s INACTIVE = i"
  by (simp add: lists_are_def)

lemma lists_are_nonempty: "lists_are ((t, xs) # ls) R a i s \<Longrightarrow> list_empty (Head t) (cells s) \<longleftrightarrow> xs = []"
  by (cases xs) (simp_all add: lists_are_def list_empty_def)

lemma lr_alloc_props:
  "all_hold (fst (lr_alloc links flds)) \<and> fst (snd (lr_alloc links flds)) = (2, 1, 0) \<and>
   nr_scans (snd (snd (lr_alloc links flds))) = 3 \<and>
   lists_are [(ACTIVE, [0, 1, 2]), (INACTIVE, []), (FREE, [])] [] 3 0 (snd (snd (lr_alloc links flds)))"
proof -
  define s1 where "s1 = bpf_lru_list_populate 3 ((bpf_lru_list_init (lru_ctx0 links flds))\<lparr>nr_scans := 3\<rparr>)"
  define s2 where "s2 = snd (bpf_lru_list_alloc s1)"
  define s3 where "s3 = snd (bpf_lru_list_alloc s2)"
  define s4 where "s4 = snd (bpf_lru_list_alloc s3)"
  have l1: "lists_are [(ACTIVE, []), (INACTIVE, []), (FREE, [2, 1, 0])] [] 0 0 s1" and n1: "nr_scans s1 = 3"
    unfolding s1_def by (rule lr_init_lists)+
  note a1 = lr_alloc1 [OF l1, folded s2_def] note a2 = lr_alloc2 [OF a1(2), folded s3_def]
  note a3 = lr_alloc3 [OF a2(2), folded s4_def]
  note m1 = lr_move1 [OF a3(2)] note m2 = lr_move2 [OF m1]
  have n4: "nr_scans s4 = 3" using n1 by (simp add: s2_def s3_def s4_def alloc_nr_scans)
  have f: "\<not> list_empty (Head FREE) (cells s1)" using l1 by (simp add: lists_are_def list_empty_def)
  show ?thesis
    unfolding lr_alloc_def s1_def [symmetric] Let_def split_def s2_def [symmetric] s3_def [symmetric] s4_def [symmetric]
    using f a1(1) a2(1) a3(1) n4 m2 lists_are_counts [OF l1] lists_are_counts [OF a3(2)] lists_are_counts [OF m1]
      lists_are_counts [OF m2]
    by (simp add: bpf_lru_list_inactive_low_def)
qed

lemma lr_rotate_props:
  assumes "lists_are [(ACTIVE, [0, 1, 2]), (INACTIVE, []), (FREE, [])] [] 3 0 s" and "nr_scans s = 3"
  shows "\<exists>cs s'. lr_rotate (2, 1, 0) s = Some (cs, s') \<and> all_hold cs"
proof -
  have "nr_scans (bpf_lru_node_set_ref 2 s) = 3" using assms(2) by (simp add: bpf_lru_node_set_ref_def)
  from lr_rotate_lists [OF lr_ref [OF assms(1)] this] obtain r where r: "rotate_active (bpf_lru_node_set_ref 2 s) = Some r"
    "lists_are [(ACTIVE, [2]), (INACTIVE, [0, 1]), (FREE, [])] [] 1 2 r" by blast
  from lr_shrink_lists [OF r(2)] obtain f where f: "shrink 1 (Head FREE) FREE r = Some (1, f)"
    "lists_are [(ACTIVE, [2]), (INACTIVE, [0]), (FREE, [1])] [] 1 1 f" by blast
  show ?thesis using r f by (simp add: lr_rotate_def lists_are_def bpf_lru_list_single_def)
qed

text \<open>The local lists.\<close>

lemma lo_init_lists:
  "lists_are [(ACTIVE, []), (INACTIVE, []), (FREE, [1, 0]), (LOCAL_FREE, []), (LOCAL_PENDING, [])] [] 0 0
     (bpf_lru_populate 2 ((bpf_lru_locallist_init 0 (bpf_lru_list_init s))\<lparr>nr_scans := 2, percpu := False\<rparr>))"
  "target_free (bpf_lru_populate 2 ((bpf_lru_locallist_init 0 (bpf_lru_list_init s))\<lparr>nr_scans := 2, percpu := False\<rparr>)) = 1"
  "\<not> percpu (bpf_lru_populate 2 ((bpf_lru_locallist_init 0 (bpf_lru_list_init s))\<lparr>nr_scans := 2, percpu := False\<rparr>))"
  by (simp_all add: lists_are_def bpf_lru_populate_def populate_node_def bpf_lru_list_init_def bpf_lru_locallist_init_def
       cell_steps node_steps upt_rec Let_def)

lemma lo_pop:
  assumes "lists_are [(ACTIVE, []), (INACTIVE, []), (FREE, [1, 0]), (LOCAL_FREE, []), (LOCAL_PENDING, [])] [] 0 0 s"
    and "\<not> percpu s"
  shows "fst (bpf_lru_pop_free h s) = Some 1" "hash (node (snd (bpf_lru_pop_free h s)) 1) = h"
    "\<not> percpu (snd (bpf_lru_pop_free h s))"
    "lists_are [(ACTIVE, []), (INACTIVE, []), (FREE, [0]), (LOCAL_FREE, []), (LOCAL_PENDING, [1])] [] 0 0
       (snd (bpf_lru_pop_free h s))"
  using assms by (simp_all add: lists_are_def bpf_lru_pop_free_def common_lru_pop_free_def local_list_pop_free_def
      pop_free_to_local_def local_list_add_pending_def cell_steps node_steps Let_def)

lemma lo_push:
  assumes "lists_are [(ACTIVE, []), (INACTIVE, []), (FREE, [0]), (LOCAL_FREE, []), (LOCAL_PENDING, [1])] [] 0 0 s"
    and "\<not> percpu s"
  shows "lists_are [(ACTIVE, []), (INACTIVE, []), (FREE, [0]), (LOCAL_FREE, [1]), (LOCAL_PENDING, [])] [] 0 0
      (bpf_lru_push_free 1 s)"
    "\<not> percpu (bpf_lru_push_free 1 s)" "hash (node (bpf_lru_push_free 1 s) 1) = hash (node s 1)"
  using assms by (simp_all add: lists_are_def bpf_lru_push_free_def common_lru_push_free_def cell_steps node_steps Let_def)

lemma lo_pop_local:
  assumes "lists_are [(ACTIVE, []), (INACTIVE, []), (FREE, [0]), (LOCAL_FREE, [1]), (LOCAL_PENDING, [])] [] 0 0 s"
    and "\<not> percpu s"
  shows "fst (bpf_lru_pop_free h s) = Some 1" "hash (node (snd (bpf_lru_pop_free h s)) 1) = h"
    "lists_are [(ACTIVE, []), (INACTIVE, []), (FREE, [0]), (LOCAL_FREE, []), (LOCAL_PENDING, [1])] [] 0 0
       (snd (bpf_lru_pop_free h s))"
  using assms by (simp_all add: lists_are_def bpf_lru_pop_free_def common_lru_pop_free_def local_list_pop_free_def
      local_list_add_pending_def cell_steps node_steps Let_def)

lemma lr_local_props:
  "all_hold (fst (lr_local links flds s)) \<and> counts (snd (lr_local links flds s)) ACTIVE = 0 \<and>
   counts (snd (lr_local links flds s)) INACTIVE = 0"
proof -
  define s1 where "s1 = bpf_lru_populate 2 ((bpf_lru_locallist_init 0 (bpf_lru_list_init
    (s\<lparr>cells := links, node := flds\<rparr>)))\<lparr>nr_scans := 2, percpu := False\<rparr>)"
  define s2 where "s2 = snd (bpf_lru_pop_free 0x12345678 s1)"
  define s3 where "s3 = bpf_lru_push_free 1 s2"
  note i = lo_init_lists [of "s\<lparr>cells := links, node := flds\<rparr>", folded s1_def]
  note p = lo_pop [OF i(1, 3), of "0x12345678", folded s2_def]
  note q = lo_push [OF p(4, 3), folded s3_def]
  note r = lo_pop_local [OF q(1, 2), of "0x87654321"]
  have s3: "bpf_lru_push_free (the (fst (bpf_lru_pop_free 0x12345678 s1))) s2 = s3" using p(1) by (simp add: s3_def)
  show ?thesis
    unfolding lr_local_def s1_def [symmetric] Let_def split_def s2_def [symmetric] s3 fst_conv snd_conv
    using i p q r by (simp add: lists_are_def bpf_lru_list_single_def bpf_lru_list_is_empty_def)
qed

text \<open>C37: the program of \<^verbatim>\<open>targets/bpf_lru_list\<close>, whose loops all end, passes all its checks whatever the
  uninitialised stack holds, and returns 0.\<close>

theorem bpf_lru_list_harness_passes: "bpf_lru_list_harness links flds links' flds' = Some (Returned 0)"
proof -
  obtain cs1 s where a: "lr_alloc links flds = (cs1, (2, 1, 0), s)" "all_hold cs1"
    "lists_are [(ACTIVE, [0, 1, 2]), (INACTIVE, []), (FREE, [])] [] 3 0 s" "nr_scans s = 3"
    using lr_alloc_props [of links flds] by (metis prod.collapse)
  obtain cs2 s2 where b: "lr_rotate (2, 1, 0) s = Some (cs2, s2)" "all_hold cs2"
    using lr_rotate_props [OF a(3, 4)] by blast
  show ?thesis using a b lr_local_props [of links' flds' s2]
    by (simp add: bpf_lru_list_harness_def split_def run_checks_pass)
qed

section \<open>The proof harness\<close>

definition lq_hash :: "u64 option \<Rightarrow> u32" where
  "lq_hash input = (case input of Some v \<Rightarrow> ucast v | None \<Rightarrow> 0x12345678)"

text \<open>The nodes of the proof harness are zeroed; the definitions take any contents.\<close>

definition lq_counts :: "adr list_head \<Rightarrow> (nat \<Rightarrow> bpf_lru_node) \<Rightarrow> check list \<times> u32" where
  "lq_counts links flds =
     (let s1 = bpf_lru_list_populate 2 (bpf_lru_list_init (lru_ctx0 links flds));
          (n0, s2) = bpf_lru_list_alloc s1;
          s3 = node_move (the n0) ACTIVE s2
      in (counts_proved s1 0 0 @ [Prove (n0 \<noteq> None)] @ counts_proved s2 0 1 @ [Prove (\<not> bpf_lru_list_inactive_low s2)] @
          counts_proved s3 1 0 @ [Prove (bpf_lru_list_inactive_low s3)], counts s3 ACTIVE))"

definition lq_local :: "u32 \<Rightarrow> adr list_head \<Rightarrow> (nat \<Rightarrow> bpf_lru_node) \<Rightarrow> check list \<times> u32" where
  "lq_local h links flds =
     (let s0 = bpf_lru_locallist_init 0 (bpf_lru_list_init (lru_ctx0 links flds));
          s1 = bpf_lru_populate 2 (s0\<lparr>nr_scans := 2, percpu := False\<rparr>);
          (p0, s2) = bpf_lru_pop_free h s1;
          s3 = bpf_lru_push_free (the p0) s2
      in ([Prove (target_free s1 = 1)] @ counts_proved s1 0 0 @
          [Prove (p0 \<noteq> None), Prove (hash (node s2 (the p0)) = h)] @ counts_proved s2 0 0 @ counts_proved s3 0 0,
          hash (node s3 (the p0))))"

definition bpf_lru_list_prove ::
    "u64 option \<Rightarrow> adr list_head \<Rightarrow> (nat \<Rightarrow> bpf_lru_node) \<Rightarrow> adr list_head \<Rightarrow> (nat \<Rightarrow> bpf_lru_node) \<Rightarrow> outcome" where
  "bpf_lru_list_prove input links flds links' flds' =
     (let (cs1, active_count) = lq_counts links flds; (cs2, e0_hash) = lq_local (lq_hash input) links' flds'
      in run_checks (cs1 @ cs2) (e0_hash + active_count))"

lemma lq_counts_props: "all_hold (fst (lq_counts links flds)) \<and> snd (lq_counts links flds) = 1"
proof -
  define s1 where "s1 = bpf_lru_list_populate 2 (bpf_lru_list_init (lru_ctx0 links flds))"
  define s2 where "s2 = snd (bpf_lru_list_alloc s1)"
  have l1: "lists_are [(ACTIVE, []), (INACTIVE, []), (FREE, [1, 0])] [] 0 0 s1"
    by (simp add: s1_def lists_are_def bpf_lru_list_populate_def bpf_lru_list_init_def cell_steps node_steps upt_rec)
  have l2: "fst (bpf_lru_list_alloc s1) = Some 1" "lists_are [(ACTIVE, []), (INACTIVE, [1]), (FREE, [0])] [] 0 1 s2"
    using l1 by (simp_all add: s2_def lists_are_def bpf_lru_list_alloc_def cell_steps node_steps Let_def)
  have l3: "lists_are [(ACTIVE, [1]), (INACTIVE, []), (FREE, [0])] [] 1 0 (node_move 1 ACTIVE s2)"
    using l2(2) by (simp add: lists_are_def cell_steps node_steps Let_def)
  show ?thesis
    unfolding lq_counts_def s1_def [symmetric] Let_def split_def s2_def [symmetric]
    using l2(1) lists_are_counts [OF l1] lists_are_counts [OF l2(2)] lists_are_counts [OF l3]
    by (simp add: bpf_lru_list_inactive_low_def)
qed

lemma lq_local_props: "all_hold (fst (lq_local h links flds)) \<and> snd (lq_local h links flds) = h"
proof -
  define s1 where "s1 = bpf_lru_populate 2 ((bpf_lru_locallist_init 0 (bpf_lru_list_init
    (lru_ctx0 links flds)))\<lparr>nr_scans := 2, percpu := False\<rparr>)"
  define s2 where "s2 = snd (bpf_lru_pop_free h s1)"
  note i = lo_init_lists [of "lru_ctx0 links flds", folded s1_def]
  note p = lo_pop [OF i(1, 3), of h, folded s2_def]
  note q = lo_push [OF p(4, 3)]
  show ?thesis
    unfolding lq_local_def s1_def [symmetric] Let_def split_def s2_def [symmetric] fst_conv snd_conv
    using i(2) p(1, 2) q(3) lists_are_counts [OF i(1)] lists_are_counts [OF p(4)] lists_are_counts [OF q(1)]
    by (simp del: One_nat_def)
qed

text \<open>The program of \<^verbatim>\<open>targets/bpf_lru_list_prove\<close> passes all its checks for every hash read from the input map
  and returns that hash plus the one active node.\<close>

theorem bpf_lru_list_prove_passes:
  "bpf_lru_list_prove input links flds links' flds' = Returned (lq_hash input + 1)"
  using lq_counts_props [of links flds] lq_local_props [of "lq_hash input" links' flds']
  by (simp add: bpf_lru_list_prove_def split_def run_checks_pass)

end
