(* ===== verification/Harness_Lib.thy ===== *)
theory Harness_Lib
  imports Harness_Core Bitmap Hexdump Seq_Buf Refcount Polynomial Proc_Util Union_Find
begin

text \<open>
  The harnesses of the library shims: \<^verbatim>\<open>bitmap\<close>, \<^verbatim>\<open>hexdump\<close>, \<^verbatim>\<open>seq_buf\<close>, \<^verbatim>\<open>refcount\<close>, \<^verbatim>\<open>polynomial\<close>,
  \<^verbatim>\<open>fs_proc_util\<close> and \<^verbatim>\<open>union_find\<close> under \<^verbatim>\<open>targets/\<close>.  The inputs are the values read from
  \<^verbatim>\<open>input_map\<close>; several of these programs return 0 when a lookup fails.  The seq_buf harness also calls
  \<^verbatim>\<open>seq_buf_init\<close> and \<^verbatim>\<open>seq_buf_used\<close>, which come from the kernel header outside the repository and are
  parameters of the model.
\<close>

section \<open>Bitmaps\<close>

text \<open>The compiler's \<^verbatim>\<open>__builtin_popcountl\<close>.\<close>

definition popcountl :: "u64 \<Rightarrow> u32" where
  "popcountl w = of_nat (length (filter (bit w) [0..<64]))"

definition bm_masks :: "u64 \<Rightarrow> u64 \<Rightarrow> u64 \<Rightarrow> check list" where
  "bm_masks a b c =
     (let MASK = push_bit 8 1 - 1; not_a = NOT a AND MASK; not_not_a = NOT not_a AND MASK;
          A = a AND b AND MASK; B = b AND MASK; C = (b OR c) AND MASK
      in [Assert (not_not_a = a), Assert (A AND NOT B AND MASK = 0), Assert (B AND NOT C AND MASK = 0),
          Assert (A AND NOT C AND MASK = 0)])"

definition bm_calls :: "bitmap_ops \<Rightarrow> u64 \<Rightarrow> u64 \<Rightarrow> check list" where
  "bm_calls m a b =
     (let MASK = push_bit 8 1 - 1; NBITS = 8; ba = [a]; bb = [b]; bc = [(a OR b) AND MASK]; bd = [0];
          bd1 = snd (bitmap_and m bd ba bb NBITS);
          (w_or, bd2) = bitmap_weighted_or m bd1 ba bb NBITS;
          (w_xor, bd3) = bitmap_weighted_xor m bd2 ba bb NBITS
      in [Assert (bitmap_or_equal m ba bb bc NBITS),
          Assert (\<not> bitmap_or_equal m ba bb ba NBITS \<or> (a OR b) AND MASK = a),
          Assert (bitmap_weight_and m ba bb NBITS = bitmap_weight m bd1 NBITS),
          Assert (bitmap_weight_andnot m ba bb NBITS = popcountl (a AND NOT b AND MASK)),
          Assert (w_or = bitmap_weight m bc NBITS), Assert (bd2 ! 0 AND MASK = bc ! 0),
          Assert (w_xor = popcountl ((a XOR b) AND MASK)), Assert (bd3 ! 0 AND MASK = (a XOR b) AND MASK)])"

definition bitmap_harness :: "bitmap_ops \<Rightarrow> u64 option \<Rightarrow> u64 option \<Rightarrow> u64 option \<Rightarrow> outcome" where
  "bitmap_harness m va vb vc =
     (case (va, vb, vc) of
        (Some va, Some vb, Some vc) \<Rightarrow>
          let MASK = push_bit 8 1 - 1; a = va AND MASK; b = vb AND MASK; c = vc AND MASK
          in run_checks (bm_masks a b c @ bm_calls m a b) (ucast a)
      | _ \<Rightarrow> Returned 0)"

lemma popcountl_card: "popcountl w = of_nat (card {j. j < 64 \<and> bit w j})"
proof -
  have "set (filter (bit w) [0..<64]) = {j. j < 64 \<and> bit w j}" by auto
  then show ?thesis by (simp add: popcountl_def flip: distinct_card)
qed

lemma mask8: "push_bit 8 1 - 1 = (mask 8 :: u64)"
  by (simp add: mask_eq_exp_minus_1)

lemma bm_masks_hold: "all_hold (bm_masks (va AND mask 8) b c)"
  unfolding bm_masks_def Let_def mask8 by (auto intro!: bit_word_eqI simp: bit_simps)

text \<open>Weights of one masked word.\<close>

lemma weight_word:
  assumes "bitmap_ops_ok m"
  shows "weight_words m f 8 = popcountl (f 0 AND mask 8)"
proof -
  have "{i. i < 8 \<and> bit (f (i div 64)) (i mod 64)} = {j. j < 64 \<and> bit (f 0 AND mask 8) j}"
    by (auto simp: bit_simps)
  then show ?thesis using weight_words_card [OF assms, of f 8] by (simp add: popcountl_card)
qed

lemma write_one_word: "write_words f (Suc 0) [x] = [f 0]"
  by (simp add: write_words_def)

lemma weighted_word:
  assumes "bitmap_ops_ok m"
  shows "weighted_write m f [x] 8 = (popcountl (f 0 AND mask 8), [f 0])"
  using weighted_write_eq [of 8 "[x]" m f] weight_word [OF assms] by (simp add: write_one_word)

lemma and_word:
  assumes "bitmap_ops_ok m"
  shows "snd (bitmap_and m [x] [a] [b] 8) = [a AND b AND mask 8]"
proof -
  have "last_word_mask m 8 = mask 8" using last_word_mask_bit [OF assms, of 8] by (intro bit_word_eqI) (simp add: bit_mask_iff)
  then show ?thesis by (simp add: bitmap_and_words and_words_eq Let_def write_words_def ac_simps)
qed

lemma or_equal_word:
  assumes "bitmap_ops_ok m"
  shows "bitmap_or_equal m [a] [b] [c] 8 \<longleftrightarrow> (a OR b) AND mask 8 = c AND mask 8"
proof -
  have "bitmap_or_equal m [a] [b] [c] 8 \<longleftrightarrow> (\<forall>i < 8. (bit a i \<or> bit b i) = bit c i)"
    using bitmap_or_equal_bits [OF assms, of "[a]" "[b]" "[c]" 8] by (simp add: bmap_def)
  also have "\<dots> \<longleftrightarrow> (\<forall>i < 64. bit ((a OR b) AND mask 8) i = bit (c AND mask 8) i)"
  proof
    assume r: "\<forall>i < 64. bit ((a OR b) AND mask 8) i = bit (c AND mask 8) i"
    show "\<forall>i < 8. (bit a i \<or> bit b i) = bit c i"
    proof (intro allI impI)
      fix i :: nat
      assume "i < 8"
      with r have "bit ((a OR b) AND mask 8) i = bit (c AND mask 8) i" by simp
      with \<open>i < 8\<close> show "(bit a i \<or> bit b i) = bit c i" by (simp add: bit_simps)
    qed
  qed (auto simp: bit_simps)
  finally show ?thesis by (simp only: word64_eq_iff)
qed

lemma bm_calls_hold:
  assumes "bitmap_ops_ok m" and a: "a = va AND mask 8"
  shows "all_hold (bm_calls m a b)"
proof -
  have "a AND mask 8 = a" by (simp add: a and.assoc)
  then show ?thesis
    unfolding bm_calls_def Let_def mask8 bitmap_weighted_or_def bitmap_weighted_xor_def bitmap_weight_def
      bitmap_weight_and_def bitmap_weight_andnot_def
    by (simp add: weighted_word [OF assms(1)] weight_word [OF assms(1)] and_word [OF assms(1)] or_equal_word [OF assms(1)]
          and.assoc)
qed

text \<open>The program of \<^verbatim>\<open>targets/bitmap\<close> passes all its checks for all three input words: double complement,
  transitivity of the subset relation, and agreement of the word-wise bitmap routines with the same operations
  on one masked word, weights included.\<close>

theorem bitmap_harness_passes:
  assumes "bitmap_ops_ok m"
  shows "bitmap_harness m (Some va) (Some vb) (Some vc) = Returned (ucast (va AND 0xff))"
proof -
  have "mask 8 = (0xff :: u64)" by (simp add: mask_eq_exp_minus_1)
  then show ?thesis
    unfolding bitmap_harness_def prod.case option.case Let_def mask8
    using run_checks_pass bm_masks_hold bm_calls_hold [OF assms refl] by simp
qed

theorem bitmap_harness_passes_witness:
  "bitmap_harness \<lparr>last_word_mask = (\<lambda>n. mask (n mod 64)), first_word_mask = (\<lambda>n. NOT (mask (n mod 64))),
      bits_to_longs = (\<lambda>n. (n + 63) div 64), bit_word = (\<lambda>n. n div 64),
      hweight_long = (\<lambda>w. of_nat (card {j. j < 64 \<and> bit w j}))\<rparr> (Some 0x1234) (Some 7) (Some 9) = Returned 0x34"
proof -
  have "bitmap_ops_ok \<lparr>last_word_mask = (\<lambda>n. mask (n mod 64)), first_word_mask = (\<lambda>n. NOT (mask (n mod 64))),
      bits_to_longs = (\<lambda>n. (n + 63) div 64), bit_word = (\<lambda>n. n div 64),
      hweight_long = (\<lambda>w. of_nat (card {j. j < 64 \<and> bit w j}))\<rparr>"
    by (auto simp: bitmap_ops_ok_def bit_simps)
  from bitmap_harness_passes [OF this, of "0x1234" 7 9] show ?thesis by simp
qed

section \<open>Hexadecimal digits\<close>

text \<open>The characters are ASCII, so the \<^verbatim>\<open>char\<close> array and the casts to \<^verbatim>\<open>unsigned char\<close> lose nothing.\<close>

definition hexdump_harness :: "u64 option \<Rightarrow> outcome" where
  "hexdump_harness v =
     (case v of None \<Rightarrow> Returned 0
      | Some v \<Rightarrow>
          let nibble = (ucast (v AND 0xf) :: u32); hex_char = hex_asc ! unat nibble;
              decoded_nibble = hex_to_bin hex_char;
              byte = (ucast (drop_bit 8 v AND 0xff) :: u8);
              hex_pair = [hex_asc ! unat (drop_bit 4 byte AND 0xf), hex_asc ! unat (byte AND 0xf), 0];
              hi = hex_to_bin (hex_pair ! 0); lo = hex_to_bin (hex_pair ! 1)
          in Returned (word_of_int (decoded_nibble + hi + lo)))"

lemma hex_digit_decode: "hex_to_bin (hex_asc ! unat (b AND 0xf)) = uint (b AND 0xf)" for b :: u8
  using hex_asc_digit [OF unat_nibble, of b] by simp

lemma low_nibble: "unat (ucast (v AND 0xf :: u64) :: u32) = unat ((ucast v :: u8) AND 0xf)"
    "uint ((ucast v :: u8) AND 0xf) = uint (v AND 0xf)"
proof -
  have m: "(0xf :: u64) = mask 4" "(0xf :: u8) = mask 4" by (simp_all add: mask_eq_exp_minus_1)
  show "unat (ucast (v AND 0xf :: u64) :: u32) = unat ((ucast v :: u8) AND 0xf)"
    "uint ((ucast v :: u8) AND 0xf) = uint (v AND 0xf)"
    unfolding m by (simp_all flip: take_bit_eq_mask
       add: unsigned_take_bit_eq unsigned_ucast_eq min_def)
qed

text \<open>The digits the program of \<^verbatim>\<open>targets/hexdump\<close> encodes decode to themselves: it returns the sum of
  the three nibbles of its input.\<close>

theorem hexdump_harness_result:
  "hexdump_harness (Some v) =
     Returned (word_of_int (uint (v AND 0xf) + uint (drop_bit 12 v AND 0xf) + uint (drop_bit 8 v AND 0xf)))"
proof -
  define byte where "byte = (ucast (drop_bit 8 v AND 0xff) :: u8)"
  have m: "(0xff :: u64) = mask 8" "(0xf :: u64) = mask 4" "(0xf :: u8) = mask 4" by (simp_all add: mask_eq_exp_minus_1)
  have b: "byte = ucast (drop_bit 8 v)" unfolding byte_def m by (rule bit_word_eqI) (simp add: bit_simps)
  have h: "(drop_bit 4 byte AND 0xf) = (ucast (drop_bit 12 v) :: u8) AND 0xf"
    unfolding b m by (rule bit_word_eqI) (auto simp: bit_simps)
  have "[x, y, z] ! 0 = x" "[x, y, z] ! 1 = y" for x y z :: u8 by simp_all
  then show ?thesis
    unfolding hexdump_harness_def option.case Let_def byte_def [symmetric] low_nibble(1) h
    unfolding b by (simp only: hex_digit_decode low_nibble(2))
qed

section \<open>Reference counts\<close>

definition refcount_harness :: "u64 option \<Rightarrow> refcount_struct \<Rightarrow> u32" where
  "refcount_harness input r =
     (let start = (case input of Some v \<Rightarrow> ucast (v AND 1) | None \<Rightarrow> 1);
          r = refcount_set r start; before = refcount_read r;
          (inc, r) = refcount_inc_not_zero r; (dec, r) = refcount_dec_and_test r
      in before + of_bool inc + of_bool dec + refcount_read r)"

text \<open>The program of \<^verbatim>\<open>targets/refcount\<close> returns 3 when it starts with one reference; when it starts with
  none the failed increment is followed by a decrement that wraps the count to -1, which it returns.\<close>

theorem refcount_harness_result:
  "refcount_harness input r = (case input of Some v \<Rightarrow> if even v then - 1 else 3 | None \<Rightarrow> 3)"
proof (cases input)
  case None
  then show ?thesis
    by (simp add: refcount_harness_def refcount_set_def refcount_read_def refcount_inc_not_zero_def
        refcount_dec_and_test_def)
next
  case (Some v)
  have "v AND 1 = of_bool (odd v)" by (simp add: and_one_eq odd_iff_mod_2_eq_one flip: mod_2_eq_odd)
  with Some show ?thesis
    by (simp add: refcount_harness_def refcount_set_def refcount_read_def refcount_inc_not_zero_def
        refcount_dec_and_test_def)
qed

section \<open>Polynomials\<close>

definition zero_poly :: polynomial where
  "zero_poly = \<lparr>total_divider = 1, terms = [\<lparr>deg = 0, coef = 0, divider = 1, divider_leftover = 1\<rparr>]\<rparr>"

definition id_poly :: polynomial where
  "id_poly = \<lparr>total_divider = 1, terms = [\<lparr>deg = 1, coef = 1, divider = 1, divider_leftover = 1\<rparr>,
     \<lparr>deg = 0, coef = 0, divider = 1, divider_leftover = 1\<rparr>]\<rparr>"

definition const_poly :: polynomial where
  "const_poly = \<lparr>total_divider = 1, terms = [\<lparr>deg = 0, coef = 42, divider = 1, divider_leftover = 1\<rparr>]\<rparr>"

text \<open>\<open>None\<close> would be a list of terms that does not end.\<close>

definition polynomial_harness :: "u64 option \<Rightarrow> outcome option" where
  "polynomial_harness vx =
     (case vx of None \<Rightarrow> Some (Returned 0)
      | Some vx \<Rightarrow>
          let x = (scast (ucast (vx AND 0xffff) :: u32) :: u64)
          in case (polynomial_calc zero_poly x, polynomial_calc id_poly x, polynomial_calc const_poly x) of
               (Some r0, Some r1, Some r2) \<Rightarrow>
                 Some (run_checks [Assert (r0 = 0), Assert (r1 = x), Assert (r2 = 42)] (ucast (r0 + r1 + r2)))
             | _ \<Rightarrow> None)"

lemma unit_div: "bpf_sdiv a 1 = a"
  by (simp add: bpf_sdiv_eq)

lemma poly_values:
  "polynomial_calc zero_poly x = Some 0" "polynomial_calc id_poly x = Some x" "polynomial_calc const_poly x = Some 42"
  by (simp_all add: polynomial_calc_def zero_poly_def id_poly_def const_poly_def term_value_unit unit_div)

lemma ucast_add_u32: "(ucast (a + b) :: u32) = ucast a + ucast b" for a b :: u64
proof transfer
  fix a b :: int
  have "take_bit 32 (take_bit 64 a + take_bit 64 b) = take_bit 32 (take_bit 32 (take_bit 64 a) + take_bit 32 (take_bit 64 b))"
    by (simp only: take_bit_add)
  then show "take_bit LENGTH(32) (take_bit LENGTH(64) (a + b)) = take_bit LENGTH(32) (take_bit LENGTH(64) a + take_bit LENGTH(64) b)"
    by (simp add: take_bit_add)
qed

text \<open>The program of \<^verbatim>\<open>targets/polynomial\<close> passes its three checks for every input and returns 42 plus the
  low sixteen bits of the input.\<close>

theorem polynomial_harness_passes:
  "polynomial_harness (Some v) = Some (Returned (ucast (v AND 0xffff) + 42))"
proof -
  have m: "(0xffff :: u64) = mask 16" by (simp add: mask_eq_exp_minus_1)
  let ?x = "scast (ucast (v AND 0xffff) :: u32) :: u64"
  have "?x = v AND 0xffff"
    unfolding m by (rule bit_word_eqI) (auto simp: bit_simps min_def)
  then have "(ucast (?x + 42) :: u32) = ucast (v AND 0xffff) + 42"
    by (simp only: ucast_add_u32) simp
  then show ?thesis by (simp add: polynomial_harness_def poly_values Let_def)
qed

section \<open>Names of processes\<close>

definition fs_proc_util_harness :: "u64 option \<Rightarrow> u32" where
  "fs_proc_util_harness input =
     (let seed = input_or 1234 input;
          dyn = [0x31 + ucast (seed mod 8), 0x30 + ucast (drop_bit 8 seed mod 10), 0x30 + ucast (drop_bit 16 seed mod 10),
                 0x30 + ucast (drop_bit 24 seed mod 10)];
          valid = name_to_int \<lparr>qname = dyn, qlen = 4\<rparr>;
          zero_rejected = name_to_int \<lparr>qname = [0x30, 0x31, 0x32], qlen = 3\<rparr>;
          bad_rejected = name_to_int \<lparr>qname = [0x31, 0x78, 0x33], qlen = 3\<rparr>
      in valid + zero_rejected + bad_rejected)"

lemma digit_byte:
  fixes d :: u64
  assumes "d < 10"
  shows "decimal_digit (0x30 + ucast d) \<and> decimal_val (0x30 + ucast d) = unat d"
proof -
  have n: "unat d < 10" using assms by (simp add: word_less_nat_alt)
  have "unat (ucast d :: u8) = unat d" using n by (simp add: unsigned_ucast_eq take_bit_nat_eq_self)
  then have "unat (0x30 + ucast d :: u8) = 0x30 + unat d" using n by (simp add: unat_word_ariths)
  then show ?thesis using n by (simp add: decimal_digit_def decimal_val_def word_le_nat_alt)
qed

lemma first_digit_byte:
  fixes d :: u64
  assumes "d < 8"
  shows "decimal_digit (0x31 + ucast d) \<and> decimal_val (0x31 + ucast d) = unat d + 1 \<and> (0x31 + ucast d :: u8) \<noteq> 0x30"
proof -
  have n: "unat d < 8" using assms by (simp add: word_less_nat_alt)
  have "unat (ucast d :: u8) = unat d" using n by (simp add: unsigned_ucast_eq take_bit_nat_eq_self)
  then have u: "unat (0x31 + ucast d :: u8) = 0x31 + unat d" using n by (simp add: unat_word_ariths)
  have "(0x31 + ucast d :: u8) \<noteq> 0x30"
  proof
    assume e: "(0x31 + ucast d :: u8) = 0x30"
    show False using u unfolding e by simp
  qed
  then show ?thesis using n u by (simp add: decimal_digit_def decimal_val_def word_le_nat_alt)
qed

text \<open>For every seed the program of \<^verbatim>\<open>targets/fs_proc_util\<close> reads back the four-digit number it spelled,
  and both malformed names count as -1: it returns that number minus 2.\<close>

theorem fs_proc_util_harness_result:
  "fs_proc_util_harness input =
     (let seed = input_or 1234 input
      in of_nat (1000 * (unat (seed mod 8) + 1) + 100 * unat (drop_bit 8 seed mod 10) +
                 10 * unat (drop_bit 16 seed mod 10) + unat (drop_bit 24 seed mod 10)) - 2)"
proof -
  define seed where "seed = input_or 1234 input"
  let ?d0 = "seed mod 8" and ?d1 = "drop_bit 8 seed mod 10" and ?d2 = "drop_bit 16 seed mod 10" and ?d3 = "drop_bit 24 seed mod 10"
  let ?dyn = "[0x31 + ucast ?d0, 0x30 + ucast ?d1, 0x30 + ucast ?d2, 0x30 + ucast ?d3] :: u8 list"
  have lt: "x mod 10 < 10" "x mod 8 < 8" for x :: u64 by (simp_all add: word_mod_less_divisor)
  have b: "unat (x mod 10) < 10" "unat (x mod 8) < 8" for x :: u64 using lt [of x] by (simp_all add: word_less_nat_alt)
  have "1000 * unat ?d0 + (100 * unat ?d1 + (10 * unat ?d2 + unat ?d3)) < 4294966280"
    using b(2) [of seed] b(1) [of "drop_bit 8 seed"] b(1) [of "drop_bit 16 seed"] b(1) [of "drop_bit 24 seed"] by linarith
  then have "name_loop ?dyn 0 4 0 = of_nat (1000 * (unat ?d0 + 1) + 100 * unat ?d1 + 10 * unat ?d2 + unat ?d3)"
    using name_loop_spec [of 4 0 ?dyn 0] first_digit_byte [OF lt(2), of seed] digit_byte [OF lt(1)]
    by (simp add: bytes_at_def Let_def)
  then have v: "name_to_int \<lparr>qname = ?dyn, qlen = 4\<rparr> =
      of_nat (1000 * (unat ?d0 + 1) + 100 * unat ?d1 + 10 * unat ?d2 + unat ?d3)"
    using first_digit_byte [OF lt(2), of seed] by (simp add: name_to_int_def)
  have r: "name_to_int \<lparr>qname = [0x30, 0x31, 0x32], qlen = 3\<rparr> = - 1" "name_to_int \<lparr>qname = [0x31, 0x78, 0x33], qlen = 3\<rparr> = - 1"
    by code_simp+
  show ?thesis
    unfolding fs_proc_util_harness_def seed_def [symmetric] Let_def v r by simp
qed

section \<open>Union-find\<close>

text \<open>\<^verbatim>\<open>uf_node_init\<close> comes from a kernel header and is a parameter; it makes a node its own parent with
  rank 0.  The array \<^verbatim>\<open>nodes\<close> has the addresses 1 to 4, and 0 is \<^verbatim>\<open>NULL\<close>.\<close>

definition union_find_roots :: "(uf_heap \<Rightarrow> nat \<Rightarrow> uf_heap) \<Rightarrow> uf_heap \<Rightarrow> nat \<times> nat" where
  "union_find_roots uf_node_init h =
     (let h = uf_node_init (uf_node_init (uf_node_init (uf_node_init h 1) 2) 3) 4;
          h = bpf_uf_union h 1 2; (ra, h) = bpf_uf_find h 1; (rb, h) = bpf_uf_find h 2
      in (ra, rb))"

definition union_find_harness :: "(uf_heap \<Rightarrow> nat \<Rightarrow> uf_heap) \<Rightarrow> uf_heap \<Rightarrow> outcome" where
  "union_find_harness uf_node_init h =
     (let (ra, rb) = union_find_roots uf_node_init h in run_checks [Assert (ra \<noteq> 0), Assert (rb \<noteq> 0)] 0)"

definition uf_node_init_ok :: "(uf_heap \<Rightarrow> nat \<Rightarrow> uf_heap) \<Rightarrow> bool" where
  "uf_node_init_ok f \<longleftrightarrow> (\<forall>h n. f h n = h(n := \<lparr>uf_parent = n, uf_rank = 0\<rparr>))"

text \<open>The program of \<^verbatim>\<open>targets/union_find\<close> passes: both finds return a node, whatever the array held; moreover
  they return the same root, which the program leaves unchecked.\<close>

theorem union_find_harness_passes:
  assumes "uf_node_init_ok uf_node_init"
  shows "union_find_harness uf_node_init h = Returned 0 \<and>
    fst (union_find_roots uf_node_init h) = snd (union_find_roots uf_node_init h)"
proof -
  have "union_find_roots uf_node_init h = (1, 1)"
    using assms by (simp add: union_find_roots_def uf_node_init_ok_def bpf_uf_union_def bpf_uf_find_def
      BPF_UF_FIND_MAX_NODES_def numeral_nat Let_def)
  then show ?thesis by (simp add: union_find_harness_def)
qed

theorem union_find_harness_passes_witness:
  "union_find_harness (\<lambda>h n. h(n := \<lparr>uf_parent = n, uf_rank = 0\<rparr>)) (\<lambda>_. \<lparr>uf_parent = 7, uf_rank = 7\<rparr>) = Returned 0"
  using union_find_harness_passes [of "\<lambda>h n. h(n := \<lparr>uf_parent = n, uf_rank = 0\<rparr>)" "\<lambda>_. \<lparr>uf_parent = 7, uf_rank = 7\<rparr>"]
  by (simp add: uf_node_init_ok_def)

section \<open>Sequence buffers\<close>

text \<open>\<^verbatim>\<open>seq_buf_init\<close> and \<^verbatim>\<open>seq_buf_used\<close> of the kernel header: a fresh buffer is empty, and the used length of an
  overflowed buffer is its size.\<close>

record seq_buf_hdr2 =
  base_hdr :: seq_buf_hdr
  seq_buf_init :: "u8 list \<Rightarrow> u64 \<Rightarrow> seq_buf"
  seq_buf_used :: "seq_buf \<Rightarrow> u64"

definition hdr2_ok :: "seq_buf_hdr2 \<Rightarrow> bool" where
  "hdr2_ok h \<longleftrightarrow> hdr_ok (base_hdr h) \<and>
     (\<forall>buf n. seq_buf_init h buf n = \<lparr>sb_buffer = buf, sb_size = n, sb_len = 0\<rparr>) \<and>
     (\<forall>s. seq_buf_used h s = min (sb_len s) (sb_size s))"

definition sq_mem :: "u64 \<Rightarrow> u8 list" where
  "sq_mem seed = [ucast seed, ucast (drop_bit 8 seed), ucast (drop_bit 16 seed), ucast (drop_bit 24 seed)]"

text \<open>The calls on the 32-byte buffer: the checks, the collected errors and the buffer.\<close>

definition sq_writes :: "seq_buf_hdr2 \<Rightarrow> u64 \<Rightarrow> u8 list \<Rightarrow> check list \<times> cint list \<times> seq_buf" where
  "sq_writes h seed buf =
     (let b = base_hdr h; mem = sq_mem seed;
          (e1, s1) = seq_buf_puts b (seq_buf_init h buf 32) [0x6f, 0x6b, 0];
          (e2, s2) = seq_buf_putmem b s1 mem 4;
          (e3, s3) = seq_buf_putc b s2 (ucast (drop_bit 32 seed));
          (e4, s4) = seq_buf_putmem b s3 (drop 2 mem) 2;
          (e5, s5) = seq_buf_putmem_hex b s4 mem 4
      in ([Assert (seq_buf_used h s1 = 2), Assert (\<not> has_overflowed b s5), Assert (seq_buf_used h s5 = 18),
           Assert (sb_buffer s5 ! 0 = 0x6f \<and> sb_buffer s5 ! 1 = 0x6b)], [e1, e2, e3, e4, e5], s5))"

definition sq_tiny :: "seq_buf_hdr2 \<Rightarrow> u64 \<Rightarrow> u8 list \<Rightarrow> check list \<times> cint" where
  "sq_tiny h seed small =
     (let b = base_hdr h;
          (e6, t1) = seq_buf_putmem b (seq_buf_init h small 4) (sq_mem seed) 4;
          (overflow_ret, t2) = seq_buf_putc b t1 0x78
      in ([Assert (seq_buf_used h t1 = 4), Assert (overflow_ret < 0), Assert (has_overflowed b t2),
           Assert (seq_buf_used h t2 = 4)], e6))"

definition seq_buf_harness :: "seq_buf_hdr2 \<Rightarrow> u64 option \<Rightarrow> u8 list \<Rightarrow> u8 list \<Rightarrow> outcome" where
  "seq_buf_harness h input buf small =
     (let seed = input_or 0x1020304050607080 input;
          (cs1, es, s) = sq_writes h seed buf; (cs2, e6) = sq_tiny h seed small;
          errors = fold (\<lambda>e a. a OR e) (es @ [e6]) 0
      in run_checks (cs1 @ cs2) (word_of_int errors + ucast (seq_buf_used h s) + scast (sb_buffer s ! 0)))"

text \<open>What the writes keep: the text starts with \<^verbatim>\<open>ok\<close> and the length is known.\<close>

definition sq_state :: "u64 \<Rightarrow> seq_buf \<Rightarrow> bool" where
  "sq_state n s \<longleftrightarrow> sb_size s = 32 \<and> sb_len s = n \<and> length (sb_buffer s) = 32 \<and>
     sb_buffer s ! 0 = 0x6f \<and> sb_buffer s ! 1 = 0x6b"

lemma memcpy_before: "length (memcpy buf p src n) = length buf \<and> (i < p \<longrightarrow> memcpy buf p src n ! i = buf ! i)"
  by (induction n) (simp_all add: memcpy_def)

lemma sq_putmem:
  assumes "sq_state n s" and "2 \<le> n" and "n + ucast k \<le> 32"
  shows "\<exists>s'. seq_buf_putmem b s mem k = (0, s') \<and> sq_state (n + ucast k) s'"
proof -
  have "2 \<le> unat n" using assms(2) by (simp add: word_le_nat_alt)
  then show ?thesis using assms memcpy_before [of "sb_buffer s" "unat n" mem "unat k"]
    by (simp add: seq_buf_putmem_def seq_buf_can_fit_def sq_state_def)
qed

lemma sq_putc:
  assumes "sq_state n s" and "2 \<le> n" and "n + 1 \<le> 32"
  shows "\<exists>s'. seq_buf_putc b s c = (0, s') \<and> sq_state (n + 1) s'"
proof -
  have "2 \<le> unat n" using assms(2) by (simp add: word_le_nat_alt)
  then show ?thesis using assms by (simp add: seq_buf_putc_def seq_buf_can_fit_def sq_state_def)
qed

lemma sq_putmem_hex:
  assumes "sq_state 9 s" and "hdr_ok b"
  shows "\<exists>s'. seq_buf_putmem_hex b s mem 4 = (0, s') \<and> sq_state 18 s'"
proof -
  have l: "length (hex_loop mem 0 4 []) = 8" by (simp add: numeral_nat)
  obtain s' where s': "seq_buf_putmem b s (hex_loop mem 0 4 [] @ [0x20]) 9 = (0, s')" "sq_state 18 s'"
    using sq_putmem [OF assms(1), of 9] by auto
  then have "\<not> has_overflowed b s'" using assms(2) by (simp add: hdr_ok_def sq_state_def)
  moreover have "hex_loop mem 0 4 [] \<noteq> []" using l by auto
  ultimately show ?thesis using s' l by (simp add: seq_buf_putmem_hex_def MAX_MEMHEX_BYTES_def Let_def)
qed

lemma sq_puts:
  assumes "length buf = 32"
  shows "\<exists>s'. seq_buf_puts b \<lparr>sb_buffer = buf, sb_size = 32, sb_len = 0\<rparr> [0x6f, 0x6b, 0] = (0, s') \<and> sq_state 2 s'"
  using assms by (simp add: seq_buf_puts_def seq_buf_can_fit_def sq_state_def memcpy_def upt_rec)

lemma sq_writes_hold:
  assumes h: "hdr2_ok h" and b: "length buf = 32"
  shows "all_hold (fst (sq_writes h seed buf)) \<and> fst (snd (sq_writes h seed buf)) = [0, 0, 0, 0, 0] \<and>
    seq_buf_used h (snd (snd (sq_writes h seed buf))) = 18 \<and> sb_buffer (snd (snd (sq_writes h seed buf))) ! 0 = 0x6f"
proof -
  let ?b = "base_hdr h" and ?m = "sq_mem seed"
  have ok: "hdr_ok ?b" using h by (simp add: hdr2_ok_def)
  obtain s1 where 1: "seq_buf_puts ?b (seq_buf_init h buf 32) [0x6f, 0x6b, 0] = (0, s1)" "sq_state 2 s1"
    using sq_puts [OF b, of ?b] h by (auto simp: hdr2_ok_def)
  obtain s2 where 2: "seq_buf_putmem ?b s1 ?m 4 = (0, s2)" "sq_state 6 s2" using sq_putmem [OF 1(2), of 4] by auto
  obtain s3 where 3: "seq_buf_putc ?b s2 (ucast (drop_bit 32 seed)) = (0, s3)" "sq_state 7 s3"
    using sq_putc [OF 2(2)] by auto
  obtain s4 where 4: "seq_buf_putmem ?b s3 (drop 2 ?m) 2 = (0, s4)" "sq_state 9 s4" using sq_putmem [OF 3(2), of 2] by auto
  obtain s5 where 5: "seq_buf_putmem_hex ?b s4 ?m 4 = (0, s5)" "sq_state 18 s5" using sq_putmem_hex [OF 4(2) ok] by auto
  show ?thesis using 1 2 3 4 5 h ok
    by (simp add: sq_writes_def hdr2_ok_def hdr_ok_def sq_state_def min_def)
qed

lemma sq_tiny_hold:
  assumes "hdr2_ok h" and "length small = 4"
  shows "all_hold (fst (sq_tiny h seed small)) \<and> snd (sq_tiny h seed small) = 0"
  using assms by (simp add: sq_tiny_def hdr2_ok_def hdr_ok_def seq_buf_putmem_def seq_buf_putc_def seq_buf_can_fit_def min_def)

text \<open>The program of \<^verbatim>\<open>targets/seq_buf\<close> passes all its checks for every seed: no write to the 32-byte buffer
  overflows, the write past the four-byte buffer is refused and marks it, and the program returns 18 plus the
  character \<^verbatim>\<open>o\<close>.\<close>

theorem seq_buf_harness_passes:
  assumes "hdr2_ok h" and "length buf = 32" and "length small = 4"
  shows "seq_buf_harness h input buf small = Returned 129"
  using sq_writes_hold [OF assms(1, 2), of "input_or 0x1020304050607080 input"]
    sq_tiny_hold [OF assms(1, 3), of "input_or 0x1020304050607080 input"]
  by (simp add: seq_buf_harness_def split_def Let_def run_checks_pass)

theorem seq_buf_harness_passes_witness:
  "seq_buf_harness \<lparr>base_hdr = \<lparr>set_overflow = (\<lambda>s. s\<lparr>sb_len := sb_size s + 1\<rparr>), has_overflowed = (\<lambda>s. sb_len s > sb_size s)\<rparr>,
     seq_buf_init = (\<lambda>buf n. \<lparr>sb_buffer = buf, sb_size = n, sb_len = 0\<rparr>), seq_buf_used = (\<lambda>s. min (sb_len s) (sb_size s))\<rparr>
     None (replicate 32 0) (replicate 4 0) = Returned 129"
  by (rule seq_buf_harness_passes) (simp_all add: hdr2_ok_def hdr_ok_def)

end
