(* ===== verification/Mprog.thy ===== *)
theory Mprog
  imports Byte_Buf
begin

text \<open>
  The multi-program arrays of \<^verbatim>\<open>targets/mprog/pre_include.h\<close>, under which the kernel's \<^verbatim>\<open>mprog.c\<close> is
  compiled (the same text opens \<^verbatim>\<open>targets/tcx/pre_include.h\<close> and the two proof targets).  A bundle holds two
  arrays of program pointers, of which one is active while the other is edited, one array of link pointers that
  both share, a count and a revision.  An entry pointer is the name of one of the two arrays: after
  \<^verbatim>\<open>bpf_mprog_bundle_init\<close> the \<^verbatim>\<open>parent\<close> of both is the bundle.  Program and link objects are numbered, \<open>None\<close> is
  \<^verbatim>\<open>NULL\<close>, and \<^verbatim>\<open>ERR_PTR(e)\<close> is \<open>Inl e\<close>.

  The specification of an entry is the list of its programs with their links.  The locale \<open>slot_array\<close> is the
  contract of an array with room for a given number of elements that are inserted and deleted by index; it is
  interpreted for the arrays of the bundle with the sequences of calls that insert and delete an element.
\<close>

section \<open>Data\<close>

abbreviation BPF_MPROG_MAX :: nat where "BPF_MPROG_MAX \<equiv> 4"
abbreviation EBADF :: cint where "EBADF \<equiv> 9"
abbreviation BPF_PROG_TYPE_SCHED_CLS :: u32 where "BPF_PROG_TYPE_SCHED_CLS \<equiv> 3"
abbreviation BPF_TCX_INGRESS :: u32 where "BPF_TCX_INGRESS \<equiv> 100"

type_synonym prog_ptr = "nat option"
type_synonym link_ptr = "nat option"

datatype mprog_entry = Entry_a | Entry_b

record mprog_bundle =
  fps_a :: "prog_ptr list"
  fps_b :: "prog_ptr list"
  cp_items :: "link_ptr list"
  bref :: prog_ptr
  revision :: u64
  bcount :: u32

record bpf_tuple =
  tprog :: prog_ptr
  tlink :: link_ptr

record mprog_prog =
  mp_id :: u32
  mp_type :: u32

record mprog_link =
  ml_id :: u32
  ml_type :: u32
  ml_ops :: nat
  ml_prog :: prog_ptr
  ml_attach_type :: u32

text \<open>The static objects: four programs, one link, three counters.\<close>

record mprog_globals =
  progs :: "nat \<Rightarrow> mprog_prog"
  link0 :: mprog_link
  prog_puts :: u32
  link_puts :: u32
  copies :: u32

definition mprog_reset :: "mprog_globals \<Rightarrow> mprog_globals" where
  "mprog_reset g =
     (let g = g\<lparr>prog_puts := 0, link_puts := 0, copies := 0\<rparr>;
          g = fold (\<lambda>i g. g\<lparr>progs := (progs g)(i := (progs g i)\<lparr>mp_id := 10 + of_nat i, mp_type := BPF_PROG_TYPE_SCHED_CLS\<rparr>)\<rparr>)
                [0..<4] g
      in g\<lparr>link0 := (link0 g)\<lparr>ml_id := 100, ml_prog := Some 0, ml_attach_type := BPF_TCX_INGRESS\<rparr>\<rparr>)"

section \<open>Memory blocks\<close>

text \<open>Pointers are indices into one memory, so that the regions may overlap.  The loops stop after 256 bytes, and
  \<^verbatim>\<open>__bpf_mprog_memmove\<close> reads the size as an \<^verbatim>\<open>int\<close>.\<close>

definition mprog_memset :: "u8 list \<Rightarrow> nat \<Rightarrow> cint \<Rightarrow> u64 \<Rightarrow> u8 list" where
  "mprog_memset mem d c n = fold (\<lambda>i mem. if i < unat n then mem[d + i := word_of_int c] else mem) [0..<256] mem"

definition mprog_memcpy :: "u8 list \<Rightarrow> nat \<Rightarrow> nat \<Rightarrow> u64 \<Rightarrow> u8 list" where
  "mprog_memcpy mem d s n = fold (\<lambda>i mem. if i < unat n then mem[d + i := mem ! (s + i)] else mem) [0..<256] mem"

definition mprog_memmove :: "u8 list \<Rightarrow> nat \<Rightarrow> nat \<Rightarrow> u64 \<Rightarrow> u8 list" where
  "mprog_memmove mem d s n =
     (let n = sint (ucast n :: u32);
          move = (\<lambda>i mem. if int i < n then mem[d + i := mem ! (s + i)] else mem)
      in if d < s then fold move [0..<256] mem else fold move (rev [0..<256]) mem)"

section \<open>Entries\<close>

fun fp_items :: "mprog_entry \<Rightarrow> mprog_bundle \<Rightarrow> prog_ptr list" where
  "fp_items Entry_a b = fps_a b"
| "fp_items Entry_b b = fps_b b"

fun set_fps :: "mprog_entry \<Rightarrow> (prog_ptr list \<Rightarrow> prog_ptr list) \<Rightarrow> mprog_bundle \<Rightarrow> mprog_bundle" where
  "set_fps Entry_a f b = b\<lparr>fps_a := f (fps_a b)\<rparr>"
| "set_fps Entry_b f b = b\<lparr>fps_b := f (fps_b b)\<rparr>"

definition set_cps :: "(link_ptr list \<Rightarrow> link_ptr list) \<Rightarrow> mprog_bundle \<Rightarrow> mprog_bundle" where
  "set_cps f b = b\<lparr>cp_items := f (cp_items b)\<rparr>"

definition bpf_mprog_peer :: "mprog_entry \<Rightarrow> mprog_entry" where
  "bpf_mprog_peer e = (if e = Entry_a then Entry_b else Entry_a)"

definition bpf_mprog_bundle_init :: "mprog_bundle \<Rightarrow> mprog_bundle" where
  "bpf_mprog_bundle_init b =
     (let b = fold (\<lambda>i b. set_cps (\<lambda>xs. xs[i := None])
                (set_fps Entry_b (\<lambda>xs. xs[i := None]) (set_fps Entry_a (\<lambda>xs. xs[i := None]) b))) [0..<BPF_MPROG_MAX] b
      in b\<lparr>bref := None, revision := 1, bcount := 0\<rparr>)"

definition bpf_mprog_inc :: "mprog_bundle \<Rightarrow> mprog_bundle" where
  "bpf_mprog_inc b = b\<lparr>bcount := bcount b + 1\<rparr>"

definition bpf_mprog_dec :: "mprog_bundle \<Rightarrow> mprog_bundle" where
  "bpf_mprog_dec b = b\<lparr>bcount := bcount b - 1\<rparr>"

definition bpf_mprog_max :: cint where
  "bpf_mprog_max = int BPF_MPROG_MAX - 1"

definition bpf_mprog_total :: "mprog_bundle \<Rightarrow> cint" where
  "bpf_mprog_total b = sint (bcount b)"

text \<open>\<^verbatim>\<open>bpf_mprog_foreach_prog\<close> walks the array to the first null pointer; \<open>None\<close> is a walk past its end.\<close>

fun exists_loop :: "prog_ptr list \<Rightarrow> nat \<Rightarrow> bool option" where
  "exists_loop [] p = None"
| "exists_loop (x # xs) p =
     (case x of None \<Rightarrow> Some False | Some t \<Rightarrow> if t = p then Some True else exists_loop xs p)"

definition bpf_mprog_exists :: "mprog_entry \<Rightarrow> nat \<Rightarrow> mprog_bundle \<Rightarrow> bool option" where
  "bpf_mprog_exists e p b = exists_loop (fp_items e b) p"

definition bpf_mprog_mark_for_release :: "bpf_tuple \<Rightarrow> mprog_bundle \<Rightarrow> mprog_bundle" where
  "bpf_mprog_mark_for_release t b = (if tlink t = None then b\<lparr>bref := tprog t\<rparr> else b)"

definition bpf_prog_put :: "mprog_globals \<Rightarrow> mprog_globals" where
  "bpf_prog_put g = g\<lparr>prog_puts := prog_puts g + 1\<rparr>"

definition bpf_mprog_complete_release :: "mprog_bundle \<times> mprog_globals \<Rightarrow> mprog_bundle \<times> mprog_globals" where
  "bpf_mprog_complete_release = (\<lambda>(b, g). if bref b \<noteq> None then (b\<lparr>bref := None\<rparr>, bpf_prog_put g) else (b, g))"

definition bpf_mprog_revision_new :: "mprog_bundle \<Rightarrow> mprog_bundle" where
  "bpf_mprog_revision_new b = b\<lparr>revision := revision b + 1\<rparr>"

definition bpf_mprog_commit :: "mprog_bundle \<times> mprog_globals \<Rightarrow> mprog_bundle \<times> mprog_globals" where
  "bpf_mprog_commit bg = (let (b, g) = bpf_mprog_complete_release bg in (bpf_mprog_revision_new b, g))"

definition bpf_mprog_revision :: "mprog_bundle \<Rightarrow> u64" where
  "bpf_mprog_revision b = revision b"

definition bpf_mprog_entry_copy ::
    "mprog_entry \<Rightarrow> mprog_entry \<Rightarrow> mprog_bundle \<times> mprog_globals \<Rightarrow> mprog_bundle \<times> mprog_globals" where
  "bpf_mprog_entry_copy dst src = (\<lambda>(b, g).
     (fold (\<lambda>i b. set_fps dst (\<lambda>xs. xs[i := fp_items src b ! i]) b) [0..<BPF_MPROG_MAX] b, g\<lparr>copies := copies g + 1\<rparr>))"

definition bpf_mprog_entry_clear :: "mprog_entry \<Rightarrow> mprog_bundle \<Rightarrow> mprog_bundle" where
  "bpf_mprog_entry_clear dst b = fold (\<lambda>i b. set_fps dst (\<lambda>xs. xs[i := None]) b) [0..<BPF_MPROG_MAX] b"

definition bpf_mprog_clear_all :: "mprog_entry \<Rightarrow> mprog_bundle \<Rightarrow> mprog_entry \<times> mprog_bundle" where
  "bpf_mprog_clear_all e b =
     (let peer = bpf_mprog_peer e; b = bpf_mprog_entry_clear peer b in (peer, b\<lparr>bcount := 0\<rparr>))"

definition bpf_mprog_entry_grow :: "mprog_entry \<Rightarrow> cint \<Rightarrow> mprog_bundle \<Rightarrow> mprog_bundle" where
  "bpf_mprog_entry_grow e idx b =
     fold (\<lambda>i b. if int i > idx
             then set_cps (\<lambda>xs. xs[i := xs ! (i - 1)]) (set_fps e (\<lambda>xs. xs[i := xs ! (i - 1)]) b) else b)
       (rev [1..<BPF_MPROG_MAX]) b"

definition bpf_mprog_entry_shrink :: "mprog_entry \<Rightarrow> cint \<Rightarrow> mprog_bundle \<Rightarrow> mprog_bundle" where
  "bpf_mprog_entry_shrink e idx b =
     (let b = fold (\<lambda>i b. if int i \<ge> idx
             then set_cps (\<lambda>xs. xs[i := xs ! (i + 1)]) (set_fps e (\<lambda>xs. xs[i := xs ! (i + 1)]) b) else b)
           [0..<BPF_MPROG_MAX - 1] b
      in set_cps (\<lambda>xs. xs[BPF_MPROG_MAX - 1 := None]) (set_fps e (\<lambda>xs. xs[BPF_MPROG_MAX - 1 := None]) b))"

text \<open>\<^verbatim>\<open>bpf_mprog_read\<close> returns pointers to the two slots, \<^verbatim>\<open>bpf_mprog_write\<close> stores through them.\<close>

definition bpf_mprog_read :: "mprog_entry \<Rightarrow> u32 \<Rightarrow> (mprog_entry \<times> nat) \<times> nat" where
  "bpf_mprog_read e idx = ((e, unat idx), unat idx)"

definition bpf_mprog_write :: "(mprog_entry \<times> nat) \<times> nat \<Rightarrow> bpf_tuple \<Rightarrow> mprog_bundle \<Rightarrow> mprog_bundle" where
  "bpf_mprog_write = (\<lambda>((e, i), j) t b. set_cps (\<lambda>xs. xs[j := tlink t]) (set_fps e (\<lambda>xs. xs[i := tprog t]) b))"

section \<open>Programs and links by number\<close>

definition mprog_prog_by_id :: "mprog_globals \<Rightarrow> u32 \<Rightarrow> cint + nat" where
  "mprog_prog_by_id g i =
     (if i = mp_id (progs g 0) \<or> i = 1 then Inr 0
      else if i = mp_id (progs g 1) \<or> i = 2 then Inr 1
      else if i = mp_id (progs g 2) \<or> i = 3 then Inr 2
      else if i = mp_id (progs g 3) \<or> i = 4 then Inr 3
      else Inl (- ENOENT))"

definition bpf_prog_get :: "mprog_globals \<Rightarrow> u32 \<Rightarrow> cint + nat" where
  "bpf_prog_get g fd = mprog_prog_by_id g fd"

definition bpf_prog_get_type :: "mprog_globals \<Rightarrow> u32 \<Rightarrow> u32 \<Rightarrow> cint + nat" where
  "bpf_prog_get_type g fd ty =
     (case bpf_prog_get g fd of
        Inl e \<Rightarrow> Inl e
      | Inr p \<Rightarrow> if mp_type (progs g p) \<noteq> ty then Inl (- EINVAL) else Inr p)"

definition bpf_link_by_id :: "mprog_globals \<Rightarrow> u32 \<Rightarrow> cint + nat" where
  "bpf_link_by_id g i = (if i = ml_id (link0 g) then Inr 0 else Inl (- ENOENT))"

definition bpf_link_get_from_fd :: "u32 \<Rightarrow> cint + nat" where
  "bpf_link_get_from_fd fd = (if fd = 5 then Inr 0 else Inl (- EBADF))"

definition bpf_link_put :: "mprog_globals \<Rightarrow> mprog_globals" where
  "bpf_link_put g = g\<lparr>link_puts := link_puts g + 1\<rparr>"

definition mprog_link_init :: "u32 \<Rightarrow> nat \<Rightarrow> prog_ptr \<Rightarrow> u32 \<Rightarrow> mprog_link \<Rightarrow> mprog_link" where
  "mprog_link_init ty ops p atype l =
     l\<lparr>ml_id := 200, ml_type := ty, ml_ops := ops, ml_prog := p, ml_attach_type := atype\<rparr>"

definition mprog_link_prime :: "link_ptr \<Rightarrow> cint \<times> link_ptr" where
  "mprog_link_prime l = (0, l)"

definition mprog_link_cleanup :: "link_ptr \<Rightarrow> link_ptr" where
  "mprog_link_cleanup primer = None"

definition mprog_copy_to_user :: "mprog_globals \<Rightarrow> cint \<times> mprog_globals" where
  "mprog_copy_to_user g = (0, g\<lparr>copies := copies g + 1\<rparr>)"

section \<open>The contract of an array edited by index\<close>

definition insert_at :: "nat \<Rightarrow> 'a \<Rightarrow> 'a list \<Rightarrow> 'a list" where
  "insert_at i x xs = take i xs @ x # drop i xs"

definition delete_at :: "nat \<Rightarrow> 'a list \<Rightarrow> 'a list" where
  "delete_at i xs = take i xs @ drop (Suc i) xs"

datatype 'a edit = Insert nat 'a | Delete nat

fun edit_list :: "'a edit \<Rightarrow> 'a list \<Rightarrow> 'a list" where
  "edit_list (Insert i x) xs = insert_at i x xs"
| "edit_list (Delete i) xs = delete_at i xs"

text \<open>The edits that stay within the room of the array.\<close>

fun edits_fit :: "nat \<Rightarrow> nat \<Rightarrow> 'a edit list \<Rightarrow> bool" where
  "edits_fit cap n [] \<longleftrightarrow> True"
| "edits_fit cap n (Insert i x # es) \<longleftrightarrow> n < cap \<and> i \<le> n \<and> edits_fit cap (Suc n) es"
| "edits_fit cap n (Delete i # es) \<longleftrightarrow> i < n \<and> edits_fit cap (n - 1) es"

lemma length_edit_list:
  "i \<le> length xs \<Longrightarrow> length (insert_at i x xs) = Suc (length xs)"
  "i < length xs \<Longrightarrow> length (delete_at i xs) = length xs - 1"
  by (simp_all add: insert_at_def delete_at_def min_def)

lemma delete_insert_at: "i \<le> length xs \<Longrightarrow> delete_at i (insert_at i x xs) = xs"
  by (simp add: delete_at_def insert_at_def min_def)

locale slot_array =
  fixes good :: "'s \<Rightarrow> bool" and view :: "'s \<Rightarrow> 'a list" and cap :: nat
    and ins :: "nat \<Rightarrow> 'a \<Rightarrow> 's \<Rightarrow> 's" and del :: "nat \<Rightarrow> 's \<Rightarrow> 's"
  assumes ins_view: "good s \<Longrightarrow> length (view s) < cap \<Longrightarrow> i \<le> length (view s) \<Longrightarrow>
      good (ins i x s) \<and> view (ins i x s) = insert_at i x (view s)"
    and del_view: "good s \<Longrightarrow> i < length (view s) \<Longrightarrow> good (del i s) \<and> view (del i s) = delete_at i (view s)"
begin

primrec edit :: "'a edit \<Rightarrow> 's \<Rightarrow> 's" where
  "edit (Insert i x) = ins i x"
| "edit (Delete i) = del i"

lemma edits_refine:
  "good s \<Longrightarrow> edits_fit cap (length (view s)) es \<Longrightarrow>
   good (fold edit es s) \<and> view (fold edit es s) = fold edit_list es (view s)"
proof (induction es arbitrary: s)
  case (Cons e es)
  show ?case
  proof (cases e)
    case (Insert i x)
    with Cons show ?thesis using ins_view [of s i x] by (simp add: length_edit_list)
  next
    case (Delete i)
    with Cons show ?thesis using del_view [of s i] by (simp add: length_edit_list)
  qed
qed simp

lemma ins_del: "good s \<Longrightarrow> length (view s) < cap \<Longrightarrow> i \<le> length (view s) \<Longrightarrow> view (del i (ins i x s)) = view s"
  using ins_view [of s i x] del_view [of "ins i x s" i] by (simp add: length_edit_list delete_insert_at)

end

section \<open>Bundles as lists of programs\<close>

text \<open>\<open>represents e L b\<close>: entry \<open>e\<close> holds the programs of \<open>L\<close> with their links, then null pointers.\<close>

definition padded :: "'a option list \<Rightarrow> 'a option list" where
  "padded xs = xs @ replicate (BPF_MPROG_MAX - length xs) None"

definition represents :: "mprog_entry \<Rightarrow> (nat \<times> link_ptr) list \<Rightarrow> mprog_bundle \<Rightarrow> bool" where
  "represents e L b \<longleftrightarrow> length L < BPF_MPROG_MAX \<and> fp_items e b = padded (map (Some \<circ> fst) L) \<and>
     cp_items b = padded (map snd L) \<and> bcount b = of_nat (length L)"

definition entry_good :: "mprog_entry \<Rightarrow> mprog_bundle \<Rightarrow> bool" where
  "entry_good e b \<longleftrightarrow> (\<exists>L. represents e L b)"

definition entry_view :: "mprog_entry \<Rightarrow> mprog_bundle \<Rightarrow> (nat \<times> link_ptr) list" where
  "entry_view e b = (let n = unat (bcount b) in zip (map the (take n (fp_items e b))) (take n (cp_items b)))"

text \<open>How a program is inserted and removed: the slots are moved, the pair is written, the count follows.\<close>

definition mprog_insert :: "mprog_entry \<Rightarrow> nat \<Rightarrow> nat \<times> link_ptr \<Rightarrow> mprog_bundle \<Rightarrow> mprog_bundle" where
  "mprog_insert e i t b = bpf_mprog_inc (bpf_mprog_write (bpf_mprog_read e (of_nat i))
     \<lparr>tprog = Some (fst t), tlink = snd t\<rparr> (bpf_mprog_entry_grow e (int i) b))"

definition mprog_delete :: "mprog_entry \<Rightarrow> nat \<Rightarrow> mprog_bundle \<Rightarrow> mprog_bundle" where
  "mprog_delete e i b = bpf_mprog_dec (bpf_mprog_entry_shrink e (int i) b)"

lemma represents_view: "represents e L b \<Longrightarrow> entry_view e b = L"
proof -
  assume r: "represents e L b"
  then have n: "unat (bcount b) = length L" by (simp add: represents_def unsigned_of_nat take_bit_nat_eq_self)
  have "take (length L) (fp_items e b) = map (Some \<circ> fst) L" using r by (simp add: represents_def padded_def)
  moreover have "take (length L) (cp_items b) = map snd L" using r by (simp add: represents_def padded_def)
  ultimately show ?thesis using n by (simp add: entry_view_def o_def zip_map_fst_snd)
qed

lemma fp_set [simp]: "fp_items e (set_fps e f b) = f (fp_items e b)" "cp_items (set_fps e f b) = cp_items b"
  "fp_items e (set_cps g b) = fp_items e b" "cp_items (set_cps g b) = g (cp_items b)"
  "bcount (set_fps e f b) = bcount b" "bcount (set_cps g b) = bcount b"
  "fp_items e (b\<lparr>bcount := c\<rparr>) = fp_items e b"
  by (cases e; simp add: set_cps_def)+

text \<open>Both arrays are moved the same way.\<close>

definition grown :: "cint \<Rightarrow> 'a list \<Rightarrow> 'a list" where
  "grown idx xs = fold (\<lambda>i xs. if int i > idx then xs[i := xs ! (i - 1)] else xs) (rev [1..<BPF_MPROG_MAX]) xs"

definition shrunk :: "cint \<Rightarrow> 'a option list \<Rightarrow> 'a option list" where
  "shrunk idx xs = (fold (\<lambda>i xs. if int i \<ge> idx then xs[i := xs ! (i + 1)] else xs) [0..<BPF_MPROG_MAX - 1] xs)
     [BPF_MPROG_MAX - 1 := None]"

lemma fold_both:
  "fp_items e (fold (\<lambda>i b. if P i then set_cps (f i) (set_fps e (f' i) b) else b) is b) =
     fold (\<lambda>i xs. if P i then f' i xs else xs) is (fp_items e b)"
  "cp_items (fold (\<lambda>i b. if P i then set_cps (f i) (set_fps e (f' i) b) else b) is b) =
     fold (\<lambda>i xs. if P i then f i xs else xs) is (cp_items b)"
  "bcount (fold (\<lambda>i b. if P i then set_cps (f i) (set_fps e (f' i) b) else b) is b) = bcount b"
  by (induction "is" arbitrary: b) auto

lemma grow_eq:
  "fp_items e (bpf_mprog_entry_grow e idx b) = grown idx (fp_items e b)"
  "cp_items (bpf_mprog_entry_grow e idx b) = grown idx (cp_items b)"
  "bcount (bpf_mprog_entry_grow e idx b) = bcount b"
  unfolding bpf_mprog_entry_grow_def grown_def fold_both by simp_all

lemma shrink_eq:
  "fp_items e (bpf_mprog_entry_shrink e idx b) = shrunk idx (fp_items e b)"
  "cp_items (bpf_mprog_entry_shrink e idx b) = shrunk idx (cp_items b)"
  "bcount (bpf_mprog_entry_shrink e idx b) = bcount b"
  unfolding bpf_mprog_entry_shrink_def shrunk_def Let_def by (simp_all add: fold_both)

lemma upt_slots: "rev [1..<BPF_MPROG_MAX] = [3, 2, 1]" "[0..<BPF_MPROG_MAX - 1] = [0, 1, 2]" "[0..<BPF_MPROG_MAX] = [0, 1, 2, 3]"
  by (simp_all add: upt_rec)

lemma list_le2_cases:
  assumes "length xs < 3"
  obtains "xs = []" | a where "xs = [a]" | a b where "xs = [a, b]"
proof (cases xs)
  case Nil
  then show ?thesis by (rule that(1))
next
  case c: (Cons a ys)
  show ?thesis
  proof (cases ys)
    case Nil
    with c that(2) show ?thesis by simp
  next
    case (Cons b zs)
    with c assms have "zs = []" by simp
    with c Cons that(3) show ?thesis by simp
  qed
qed

lemma grown_padded:
  assumes "length xs < BPF_MPROG_MAX - 1" and "i \<le> length xs"
  shows "(grown (int i) (padded xs))[i := x] = padded (insert_at i x xs)"
proof -
  have "length xs < 3" using assms(1) by simp
  then show ?thesis
  proof (cases rule: list_le2_cases)
    case 1
    with assms(2) show ?thesis by (simp add: grown_def upt_slots padded_def insert_at_def numeral_nat)
  next
    case (2 a)
    with assms(2) have "i = 0 \<or> i = 1" by auto
    with 2 show ?thesis by (auto simp: grown_def upt_slots padded_def insert_at_def numeral_nat)
  next
    case (3 a b)
    with assms(2) have "i = 0 \<or> i = 1 \<or> i = 2" by auto
    with 3 show ?thesis by (auto simp: grown_def upt_slots padded_def insert_at_def numeral_nat)
  qed
qed

lemma shrunk_padded:
  assumes "length xs < BPF_MPROG_MAX" and "i < length xs"
  shows "shrunk (int i) (padded xs) = padded (delete_at i xs)"
proof -
  obtain y ys where xs: "xs = y # ys" "length ys < 3" using assms by (cases xs) auto
  from xs(2) show ?thesis
  proof (cases rule: list_le2_cases)
    case 1
    with assms(2) xs show ?thesis by (simp add: shrunk_def upt_slots padded_def delete_at_def numeral_nat)
  next
    case (2 a)
    with assms(2) xs have "i = 0 \<or> i = 1" by auto
    with 2 xs show ?thesis by (auto simp: shrunk_def upt_slots padded_def delete_at_def numeral_nat)
  next
    case (3 a b)
    with assms(2) xs have "i = 0 \<or> i = 1 \<or> i = 2" by auto
    with 3 xs show ?thesis by (auto simp: shrunk_def upt_slots padded_def delete_at_def numeral_nat)
  qed
qed

lemma map_edit: "map f (insert_at i x xs) = insert_at i (f x) (map f xs)" "map f (delete_at i xs) = delete_at i (map f xs)"
  by (simp_all add: insert_at_def delete_at_def take_map drop_map)

lemma insert_represents:
  assumes "represents e L b" and "length L < BPF_MPROG_MAX - 1" and "i \<le> length L"
  shows "represents e (insert_at i t L) (mprog_insert e i t b)"
proof -
  have u: "unat (of_nat i :: u32) = i" using assms(2, 3) by (simp add: unsigned_of_nat take_bit_nat_eq_self)
  have "fp_items e (mprog_insert e i t b) = padded (map (Some \<circ> fst) (insert_at i t L))"
    using assms grown_padded [of "map (Some \<circ> fst) L" i "Some (fst t)"]
    by (simp add: mprog_insert_def bpf_mprog_inc_def bpf_mprog_write_def bpf_mprog_read_def u grow_eq represents_def map_edit)
  moreover have "cp_items (mprog_insert e i t b) = padded (map snd (insert_at i t L))"
    using assms grown_padded [of "map snd L" i "snd t"]
    by (simp add: mprog_insert_def bpf_mprog_inc_def bpf_mprog_write_def bpf_mprog_read_def u grow_eq represents_def map_edit)
  moreover have "bcount (mprog_insert e i t b) = of_nat (Suc (length L))"
    using assms(1) by (simp add: mprog_insert_def bpf_mprog_inc_def bpf_mprog_write_def bpf_mprog_read_def grow_eq represents_def)
  ultimately show ?thesis using assms(2, 3) by (simp add: represents_def length_edit_list)
qed

lemma delete_represents:
  assumes "represents e L b" and "i < length L"
  shows "represents e (delete_at i L) (mprog_delete e i b)"
proof -
  have l: "length L < BPF_MPROG_MAX" using assms(1) by (simp add: represents_def)
  have "fp_items e (mprog_delete e i b) = padded (map (Some \<circ> fst) (delete_at i L))"
    using assms l shrunk_padded [of "map (Some \<circ> fst) L" i]
    by (simp add: mprog_delete_def bpf_mprog_dec_def shrink_eq represents_def map_edit)
  moreover have "cp_items (mprog_delete e i b) = padded (map snd (delete_at i L))"
    using assms l shrunk_padded [of "map snd L" i]
    by (simp add: mprog_delete_def bpf_mprog_dec_def shrink_eq represents_def map_edit)
  moreover have "bcount (mprog_delete e i b) = of_nat (length L - 1)"
    using assms by (cases L) (simp_all add: mprog_delete_def bpf_mprog_dec_def shrink_eq represents_def)
  ultimately show ?thesis using assms(2) l by (simp add: represents_def length_edit_list)
qed

interpretation mprog_slots: slot_array "entry_good e" "entry_view e" "BPF_MPROG_MAX - 1" "mprog_insert e" "mprog_delete e" for e
proof unfold_locales
  fix b i and t :: "nat \<times> link_ptr"
  assume "entry_good e b" and l: "length (entry_view e b) < BPF_MPROG_MAX - 1" "i \<le> length (entry_view e b)"
  then obtain L where L: "represents e L b" by (auto simp: entry_good_def)
  then have "represents e (insert_at i t L) (mprog_insert e i t b)"
    using l by (intro insert_represents) (simp_all add: represents_view)
  then show "entry_good e (mprog_insert e i t b) \<and> entry_view e (mprog_insert e i t b) = insert_at i t (entry_view e b)"
    using L represents_view by (metis entry_good_def)
next
  fix b i
  assume "entry_good e b" and l: "i < length (entry_view e b)"
  then obtain L where L: "represents e L b" by (auto simp: entry_good_def)
  then have "represents e (delete_at i L) (mprog_delete e i b)"
    using l by (intro delete_represents) (simp_all add: represents_view)
  then show "entry_good e (mprog_delete e i b) \<and> entry_view e (mprog_delete e i b) = delete_at i (entry_view e b)"
    using L represents_view by (metis entry_good_def)
qed

section \<open>Properties\<close>

text \<open>The edits of a bundle's entry as a run over calls of the code.\<close>

fun mprog_edit :: "mprog_entry \<Rightarrow> (nat \<times> link_ptr) edit \<Rightarrow> mprog_bundle \<Rightarrow> mprog_bundle" where
  "mprog_edit e (Insert i t) = mprog_insert e i t"
| "mprog_edit e (Delete i) = mprog_delete e i"

lemma mprog_edit_eq: "mprog_slots.edit e = mprog_edit e"
proof (rule ext)
  fix x show "mprog_slots.edit e x = mprog_edit e x" by (cases x) simp_all
qed

lemma view_represents: "entry_good e b \<Longrightarrow> represents e (entry_view e b) b"
  using represents_view by (auto simp: entry_good_def)

lemma mprog_edits_refine_core:
  assumes "represents e L b" and "edits_fit 3 (length L) es"
  shows "represents e (fold edit_list es L) (fold (mprog_edit e) es b)"
proof -
  have "entry_good e b" using assms(1) by (auto simp: entry_good_def)
  with assms mprog_slots.edits_refine [of e b es]
  have "entry_good e (fold (mprog_edit e) es b)" "entry_view e (fold (mprog_edit e) es b) = fold edit_list es L"
    by (simp_all add: mprog_edit_eq represents_view)
  then show ?thesis using view_represents by metis
qed

text \<open>C34: any sequence of insertions and deletions by index that stays within the three usable slots keeps the
  program array, the link array and the count of a bundle in step: the entry then holds exactly the list the
  same edits make of the list it held, padded with null pointers.\<close>

theorem mprog_edits_refine:
  assumes "represents e L b" and "edits_fit 3 (length L) es"
  shows "represents e (fold edit_list es L) (fold (mprog_edit e) es b)"
  using assms by (rule mprog_edits_refine_core)

lemma bundle_init_represents:
  assumes "length (fps_a b) = 4" and "length (fps_b b) = 4" and "length (cp_items b) = 4"
  shows "represents e [] (bpf_mprog_bundle_init b)"
proof -
  have clear: "fold (\<lambda>i xs. xs[i := None]) [0, 1, 2, 3] xs = replicate 4 None" if l: "length xs = 4" for xs :: "'a option list"
  proof -
    obtain w x y z where "xs = [w, x, y, z]" using l by (auto simp: numeral_nat length_Suc_conv)
    then show ?thesis by (simp add: numeral_nat)
  qed
  show ?thesis using clear [OF assms(1)] clear [OF assms(2)] clear [OF assms(3)]
    by (cases e) (simp_all add: represents_def bpf_mprog_bundle_init_def Let_def upt_slots set_cps_def padded_def)
qed

theorem mprog_edits_refine_witness:
  "represents Entry_a [(3, None), (1, Some 0)]
     (fold (mprog_edit Entry_a) [Insert 0 (0, None), Insert 1 (1, Some 0), Delete 0, Insert 0 (3, None)]
       (bpf_mprog_bundle_init \<lparr>fps_a = [Some 9, None, None, Some 8], fps_b = replicate 4 None,
          cp_items = replicate 4 (Some 7), bref = None, revision = 0, bcount = 5\<rparr>))"
proof -
  have "represents Entry_a [] (bpf_mprog_bundle_init \<lparr>fps_a = [Some 9, None, None, Some 8], fps_b = replicate 4 None,
      cp_items = replicate 4 (Some 7), bref = None, revision = 0, bcount = 5\<rparr>)"
    by (rule bundle_init_represents) simp_all
  from mprog_edits_refine [OF this, of "[Insert 0 (0, None), Insert 1 (1, Some 0), Delete 0, Insert 0 (3, None)]"]
  show ?thesis by (simp add: insert_at_def delete_at_def)
qed

text \<open>The search for a program ends at a null pointer inside the array.\<close>

lemma exists_loop_padded: "length xs < 4 \<Longrightarrow> exists_loop (padded (map Some xs)) p = Some (p \<in> set xs)"
proof -
  have "exists_loop (map Some xs @ None # ys) p = Some (p \<in> set xs)" for ys by (induction xs) auto
  moreover assume "length xs < 4"
  then obtain ys where "padded (map Some xs) = map Some xs @ None # ys"
    by (cases "4 - length xs") (auto simp: padded_def)
  ultimately show ?thesis by simp
qed

theorem mprog_exists_correct:
  assumes "represents e L b"
  shows "bpf_mprog_exists e p b = Some (p \<in> fst ` set L)" "bpf_mprog_total b = int (length L)"
  using assms exists_loop_padded [of "map fst L" p]
  by (auto simp: represents_def bpf_mprog_exists_def bpf_mprog_total_def signed_of_nat signed_take_bit_int_eq_self)

text \<open>An edit of the inactive entry leaves the programs of the active one alone; a copy makes them equal.\<close>

lemma edit_peer_frame: "e \<noteq> e' \<Longrightarrow> fp_items e' (mprog_edit e x b) = fp_items e' b"
proof -
  assume n: "e \<noteq> e'"
  have s: "fp_items e' (set_fps e f b) = fp_items e' b" "fp_items e' (set_cps g b) = fp_items e' b"
    "fp_items e' (b\<lparr>bcount := c\<rparr>) = fp_items e' b" for f g b c
    using n by (cases e; cases e'; simp add: set_cps_def)+
  have "fp_items e' (fold (\<lambda>i b. if P i then set_cps (f i) (set_fps e (f' i) b) else b) is b) = fp_items e' b"
    for P f f' "is" b by (induction "is" arbitrary: b) (auto simp: s)
  then show ?thesis
    by (cases x) (simp_all add: mprog_insert_def mprog_delete_def bpf_mprog_inc_def bpf_mprog_dec_def bpf_mprog_write_def
        bpf_mprog_read_def bpf_mprog_entry_grow_def bpf_mprog_entry_shrink_def Let_def s)
qed

lemma copy_entry:
  assumes "length (fp_items dst b) = 4" and "length (fp_items src b) = 4" and "dst \<noteq> src"
  shows "fp_items dst (fst (bpf_mprog_entry_copy dst src (b, g))) = fp_items src b"
    "fp_items src (fst (bpf_mprog_entry_copy dst src (b, g))) = fp_items src b"
    "cp_items (fst (bpf_mprog_entry_copy dst src (b, g))) = cp_items b"
    "bcount (fst (bpf_mprog_entry_copy dst src (b, g))) = bcount b"
proof -
  obtain w x y z where d: "fp_items dst b = [w, x, y, z]" using assms(1) by (auto simp: numeral_nat length_Suc_conv)
  obtain p q r s where c: "fp_items src b = [p, q, r, s]" using assms(2) by (auto simp: numeral_nat length_Suc_conv)
  show "fp_items dst (fst (bpf_mprog_entry_copy dst src (b, g))) = fp_items src b"
    "fp_items src (fst (bpf_mprog_entry_copy dst src (b, g))) = fp_items src b"
    "cp_items (fst (bpf_mprog_entry_copy dst src (b, g))) = cp_items b"
    "bcount (fst (bpf_mprog_entry_copy dst src (b, g))) = bcount b"
    using assms(3) d c by (cases dst; cases src; simp add: bpf_mprog_entry_copy_def upt_slots numeral_nat)+
qed

text \<open>The two entries of a bundle are a double buffer.  Copying the active entry into its peer and editing the
  peer leaves the programs a reader of the active entry sees unchanged, while the peer represents the edited
  list.\<close>

theorem mprog_double_buffer:
  assumes "represents e L b" and "length (fp_items (bpf_mprog_peer e) b) = 4" and "edits_fit 3 (length L) es"
    and b': "b' = fold (mprog_edit (bpf_mprog_peer e)) es (fst (bpf_mprog_entry_copy (bpf_mprog_peer e) e (b, g)))"
  shows "fp_items e b' = fp_items e b \<and> represents (bpf_mprog_peer e) (fold edit_list es L) b'"
proof -
  let ?p = "bpf_mprog_peer e" and ?c = "fst (bpf_mprog_entry_copy (bpf_mprog_peer e) e (b, g))"
  have n: "?p \<noteq> e" by (cases e) (simp_all add: bpf_mprog_peer_def)
  have l: "length (fp_items e b) = 4" using assms(1) by (simp add: represents_def padded_def)
  note c = copy_entry [OF assms(2) l n, of g]
  have "represents ?p L ?c" using assms(1) c by (simp add: represents_def)
  then have "represents ?p (fold edit_list es L) b'" unfolding b' by (rule mprog_edits_refine_core [OF _ assms(3)])
  moreover have "fp_items e (fold (mprog_edit ?p) es x) = fp_items e x" for x
    using edit_peer_frame [OF n] by (induction es arbitrary: x) simp_all
  ultimately show ?thesis using c(2) by (simp add: b')
qed

theorem mprog_double_buffer_witness:
  "\<forall>g. fp_items Entry_b (fold (mprog_edit Entry_a) [Insert 0 (2, Some 0)] (fst (bpf_mprog_entry_copy Entry_a Entry_b
       (\<lparr>fps_a = replicate 4 None, fps_b = [Some 1, None, None, None], cp_items = replicate 4 None, bref = None,
          revision = 1, bcount = 1\<rparr>, g)))) = [Some 1, None, None, None]"
proof -
  let ?b = "\<lparr>fps_a = replicate 4 None, fps_b = [Some 1, None, None, None], cp_items = replicate 4 None, bref = None,
      revision = 1, bcount = 1\<rparr> :: mprog_bundle"
  have "represents Entry_b [(1, None)] ?b" by (simp add: represents_def padded_def numeral_nat)
  from mprog_double_buffer [OF this _ _ refl, of "[Insert 0 (2, Some 0)]"] show ?thesis
    by (simp add: bpf_mprog_peer_def)
qed

section \<open>Memory blocks\<close>

text \<open>A loop that moves byte \<open>i\<close> for the indices of \<open>is\<close> below \<open>k\<close>: where it has been, the destination has the source's
  old bytes, provided no source byte is read after it was overwritten.\<close>

definition move_byte :: "nat \<Rightarrow> nat \<Rightarrow> nat \<Rightarrow> nat \<Rightarrow> u8 list \<Rightarrow> u8 list" where
  "move_byte k d s i mem = (if i < k then mem[d + i := mem ! (s + i)] else mem)"

lemma fold_move_length: "length (fold (move_byte k d s) is mem) = length mem"
  by (induction "is" arbitrary: mem) (simp_all add: move_byte_def)

lemma fold_move:
  assumes "\<And>i. i \<in> set is \<Longrightarrow> i < k \<Longrightarrow> d + i < length mem \<and> s + i < length mem" and "distinct is"
    and "\<And>as i bs j. is = as @ i # bs \<Longrightarrow> j \<in> set as \<Longrightarrow> i < k \<Longrightarrow> j < k \<Longrightarrow> d + j \<noteq> s + i"
    and "q < length mem"
  shows "fold (move_byte k d s) is mem ! q =
    (if d \<le> q \<and> q - d < k \<and> q - d \<in> set is then mem ! (s + (q - d)) else mem ! q)"
  using assms
proof (induction "is" arbitrary: q rule: rev_induct)
  case (snoc i "is")
  have IH: "fold (move_byte k d s) is mem ! r =
      (if d \<le> r \<and> r - d < k \<and> r - d \<in> set is then mem ! (s + (r - d)) else mem ! r)" if "r < length mem" for r
  proof (rule snoc.IH)
    show "d + j < length mem \<and> s + j < length mem" if "j \<in> set is" "j < k" for j using snoc.prems(1) that by simp
    show "distinct is" using snoc.prems(2) by simp
    show "d + j \<noteq> s + l" if "is = as @ l # bs" "j \<in> set as" "l < k" "j < k" for as l bs j
      using snoc.prems(3) [of as l "bs @ [i]" j] that by simp
  qed (rule that)
  show ?case
  proof (cases "i < k")
    case False
    then show ?thesis using IH [OF snoc.prems(4)] by (auto simp: move_byte_def [of k d s i])
  next
    case True
    have b: "d + i < length mem" "s + i < length mem" using snoc.prems(1) [of i] True by simp_all
    have src: "fold (move_byte k d s) is mem ! (s + i) = mem ! (s + i)"
    proof -
      have "\<not> (d \<le> s + i \<and> s + i - d < k \<and> s + i - d \<in> set is)"
        using snoc.prems(3) [of "is" i "[]" "s + i - d"] True by auto
      then show ?thesis using IH [OF b(2)] by auto
    qed
    show ?thesis using IH [OF snoc.prems(4)] b src True snoc.prems(2, 4)
      by (auto simp: move_byte_def [of k d s i] nth_list_update fold_move_length)
  qed
qed simp

lemma move_blocks:
  assumes "d + k \<le> length mem" and "s + k \<le> length mem" and "k \<le> N" and "is = (if d < s then [0..<N] else rev [0..<N])"
  shows "fold (move_byte k d s) is mem = store_bytes mem d (bytes_at mem s k)"
proof (rule nth_equalityI)
  fix q assume "q < length (fold (move_byte k d s) is mem)"
  then have q: "q < length mem" by (simp add: fold_move_length)
  have "fold (move_byte k d s) is mem ! q =
      (if d \<le> q \<and> q - d < k \<and> q - d \<in> set is then mem ! (s + (q - d)) else mem ! q)"
  proof (rule fold_move [OF _ _ _ q])
    show "distinct is" using assms(4) by simp
    show "d + i < length mem \<and> s + i < length mem" if "i \<in> set is" "i < k" for i using that assms(1, 2) by simp
    show "d + j \<noteq> s + i" if "is = as @ i # bs" "j \<in> set as" for as i bs j
    proof -
      have "sorted_wrt (if d < s then (<) else (>)) is" using assms(4) by (simp add: sorted_wrt_rev)
      then have "if d < s then j < i else i < j" using that by (auto simp: sorted_wrt_append split: if_splits)
      then show ?thesis by (auto split: if_splits)
    qed
  qed
  then show "fold (move_byte k d s) is mem ! q = store_bytes mem d (bytes_at mem s k) ! q"
    using assms q by (auto simp: nth_store_bytes nth_bytes_at)
qed (use assms in \<open>simp add: fold_move_length\<close>)

text \<open>\<^verbatim>\<open>__bpf_mprog_memmove\<close> copies the first 256 bytes of a block as if through a temporary, also when source and
  destination overlap; a size whose low 32 bits are a negative \<^verbatim>\<open>int\<close> copies nothing.\<close>

theorem mprog_memmove_correct:
  assumes "d + k \<le> length mem" and "s + k \<le> length mem" and "k = min 256 (nat (sint (ucast n :: u32)))"
  shows "mprog_memmove mem d s n = store_bytes mem d (bytes_at mem s k)"
proof -
  let ?n = "sint (ucast n :: u32)"
  have "fold (\<lambda>i mem. if int i < ?n then mem[d + i := mem ! (s + i)] else mem) is mem = fold (move_byte k d s) is mem"
    if "set is \<subseteq> {0..<256}" for "is" using that
  proof (induction "is" arbitrary: mem)
    case (Cons i "is")
    then have "int i < ?n \<longleftrightarrow> i < k" using assms(3) by (auto simp: min_def)
    with Cons show ?case by (simp add: move_byte_def)
  qed simp
  then have "mprog_memmove mem d s n = fold (move_byte k d s) (if d < s then [0..<256] else rev [0..<256]) mem"
    by (simp add: mprog_memmove_def Let_def)
  then show ?thesis using move_blocks [OF assms(1, 2) _ refl] assms(3) by simp
qed

theorem mprog_memmove_correct_witness:
  "mprog_memmove [1, 2, 3, 4, 5] 1 0 4 = [1, 1, 2, 3, 4]"
proof -
  have "sint (ucast (4 :: u64) :: u32) = 4" by code_simp
  then have "4 = min 256 (nat (sint (ucast (4 :: u64) :: u32)))" by simp
  from mprog_memmove_correct [OF _ _ this, of 1 "[1, 2, 3, 4, 5]" 0]
  have "mprog_memmove [1, 2, 3, 4, 5] 1 0 4 = store_bytes [1, 2, 3, 4, 5] 1 (bytes_at [1, 2, 3, 4, 5] 0 4)" by simp
  also have "\<dots> = [1, 1, 2, 3, 4]" by code_simp
  finally show ?thesis .
qed

section \<open>Programs by number\<close>

text \<open>After a reset the four programs are found by their identifiers 10 to 13 and by the descriptors 1 to 4, and by
  nothing else.\<close>

lemma less_4_cases: "i < 4 \<longleftrightarrow> i = 0 \<or> i = 1 \<or> i = 2 \<or> i = 3" for i :: nat
  by auto

lemma reset_progs: "i < 4 \<Longrightarrow> progs (mprog_reset g) i = (progs g i)\<lparr>mp_id := 10 + of_nat i, mp_type := BPF_PROG_TYPE_SCHED_CLS\<rparr>"
  unfolding less_4_cases by (elim disjE) (simp_all add: mprog_reset_def Let_def upt_slots)

theorem mprog_prog_by_id_correct:
  "mprog_prog_by_id (mprog_reset g) i =
     (if 10 \<le> i \<and> i < 14 then Inr (unat i - 10) else if 1 \<le> i \<and> i < 5 then Inr (unat i - 1) else Inl (- ENOENT))"
proof -
  have ids: "mp_id (progs (mprog_reset g) 0) = 10" "mp_id (progs (mprog_reset g) (Suc 0)) = 11"
    "mp_id (progs (mprog_reset g) 2) = 12" "mp_id (progs (mprog_reset g) 3) = 13"
    using reset_progs [of 0 g] reset_progs [of 1 g] reset_progs [of 2 g] reset_progs [of 3 g] by simp_all
  have "i \<in> {10, 11, 12, 13}" if "10 \<le> i" "i < 14"
  proof -
    have "10 \<le> unat i" "unat i < 14" using that by (simp_all add: word_le_nat_alt word_less_nat_alt)
    then have "unat i \<in> {unat (10 :: u32), unat (11 :: u32), unat (12 :: u32), unat (13 :: u32)}" by auto
    then show ?thesis by (auto simp only: insert_iff empty_iff word_unat_eq_iff)
  qed
  moreover have "i \<in> {1, 2, 3, 4}" if "1 \<le> i" "i < 5"
  proof -
    have "1 \<le> unat i" "unat i < 5" using that by (simp_all add: word_le_nat_alt word_less_nat_alt)
    then have "unat i \<in> {unat (1 :: u32), unat (2 :: u32), unat (3 :: u32), unat (4 :: u32)}" by auto
    then show ?thesis by (auto simp only: insert_iff empty_iff word_unat_eq_iff)
  qed
  ultimately show ?thesis by (auto simp: mprog_prog_by_id_def ids)
qed

lemma mprog_commit_release:
  "bpf_mprog_commit (b, g) = (b\<lparr>bref := None, revision := revision b + 1\<rparr>,
     if bref b = None then g else g\<lparr>prog_puts := prog_puts g + 1\<rparr>)"
  by (simp add: bpf_mprog_commit_def bpf_mprog_complete_release_def bpf_mprog_revision_new_def bpf_prog_put_def)

end
