(* ===== verification/Tcx.thy ===== *)
theory Tcx
  imports Mprog
begin

text \<open>
  The network device side of \<^verbatim>\<open>targets/tcx/pre_include.h\<close>: one device with an ingress and an egress attach point,
  one static \<^verbatim>\<open>tcx_entry\<close> whose bundle both points share, one static link, and the counters the harness reads.
  The file replaces \<^verbatim>\<open>bpf_mprog_attach\<close>, \<^verbatim>\<open>bpf_mprog_detach\<close>, \<^verbatim>\<open>bpf_mprog_commit\<close> and \<^verbatim>\<open>bpf_mprog_clear_all\<close> by versions
  that work on the first slot of entry \<open>b\<close> of that bundle.  Arguments the code casts to \<^verbatim>\<open>void\<close> are left out,
  except where a caller's null pointer is tested.

  \<open>tcx_step\<close> is the transition relation of these calls; \<open>tcx_inv\<close> is an invariant of the states they reach from a
  reset.
\<close>

section \<open>The code\<close>

record tcx_link =
  tl_link :: mprog_link
  tl_dev :: bool \<comment> \<open>whether the pointer to the device is set\<close>

record tcx_state =
  tg :: mprog_globals
  bundle0 :: mprog_bundle
  miniq :: bool \<comment> \<open>whether the pointer is set\<close>
  miniq_active :: u32
  ifindex :: u32
  tcx_ingress :: "mprog_entry option"
  tcx_egress :: "mprog_entry option"
  tcx_link0 :: tcx_link
  locks :: u32
  unlocks :: u32
  syncs :: u32
  skey_inc :: u32
  skey_dec :: u32
  frees :: u32
  link_settles :: u32
  ingress_active :: u32
  egress_active :: u32

definition zero_link :: tcx_link where
  "zero_link = \<lparr>tl_link = \<lparr>ml_id = 0, ml_type = 0, ml_ops = 0, ml_prog = None, ml_attach_type = 0\<rparr>, tl_dev = False\<rparr>"

definition tcx_reset :: "tcx_state \<Rightarrow> tcx_state" where
  "tcx_reset s =
     s\<lparr>tg := mprog_reset (tg s), locks := 0, unlocks := 0, syncs := 0, skey_inc := 0, skey_dec := 0, frees := 0,
       link_settles := 0, ingress_active := 0, egress_active := 0, ifindex := 1, tcx_ingress := None, tcx_egress := None,
       tcx_link0 := zero_link, bundle0 := bpf_mprog_bundle_init (bundle0 s), miniq := False, miniq_active := 0\<rparr>"

definition rtnl_lock :: "tcx_state \<Rightarrow> tcx_state" where
  "rtnl_lock s = s\<lparr>locks := locks s + 1\<rparr>"

definition rtnl_unlock :: "tcx_state \<Rightarrow> tcx_state" where
  "rtnl_unlock s = s\<lparr>unlocks := unlocks s + 1\<rparr>"

text \<open>\<open>Some ()\<close> is the one device.\<close>

definition dev_get_by_index :: "tcx_state \<Rightarrow> u32 \<Rightarrow> unit option" where
  "dev_get_by_index s i = (if i = ifindex s then Some () else None)"

definition synchronize_rcu :: "tcx_state \<Rightarrow> tcx_state" where
  "synchronize_rcu s = s\<lparr>syncs := syncs s + 1\<rparr>"

definition tcx_entry_sync :: "tcx_state \<Rightarrow> tcx_state" where
  "tcx_entry_sync s = synchronize_rcu s"

definition tcx_entry_update :: "mprog_entry option \<Rightarrow> bool \<Rightarrow> tcx_state \<Rightarrow> tcx_state" where
  "tcx_entry_update entry ingress s =
     (if ingress then (s\<lparr>tcx_ingress := entry\<rparr>)\<lparr>ingress_active := of_bool (entry \<noteq> None)\<rparr>
      else (s\<lparr>tcx_egress := entry\<rparr>)\<lparr>egress_active := of_bool (entry \<noteq> None)\<rparr>)"

definition tcx_entry_fetch :: "bool \<Rightarrow> tcx_state \<Rightarrow> mprog_entry option" where
  "tcx_entry_fetch ingress s =
     (if ingress then (if c_true (ingress_active s) then Some Entry_b else None)
      else (if c_true (egress_active s) then Some Entry_b else None))"

definition tcx_entry_create :: "tcx_state \<Rightarrow> mprog_entry option \<times> tcx_state" where
  "tcx_entry_create s =
     (Some Entry_a, s\<lparr>bundle0 := bpf_mprog_bundle_init (bundle0 s), miniq := False, miniq_active := 0\<rparr>)"

definition tcx_kfree :: "tcx_state \<Rightarrow> tcx_state" where
  "tcx_kfree s = s\<lparr>frees := frees s + 1\<rparr>"

definition tcx_entry_free :: "tcx_state \<Rightarrow> tcx_state" where
  "tcx_entry_free s = tcx_kfree s"

definition tcx_entry_fetch_or_create :: "bool \<Rightarrow> tcx_state \<Rightarrow> mprog_entry option \<times> bool \<times> tcx_state" where
  "tcx_entry_fetch_or_create ingress s =
     (case tcx_entry_fetch ingress s of
        Some e \<Rightarrow> (Some e, False, s)
      | None \<Rightarrow>
          (case tcx_entry_create s of
             (None, s) \<Rightarrow> (None, False, s)
           | (Some e, s) \<Rightarrow> (Some e, True, s)))"

definition tcx_skeys_inc :: "tcx_state \<Rightarrow> tcx_state" where
  "tcx_skeys_inc s = s\<lparr>skey_inc := skey_inc s + 1\<rparr>"

definition tcx_skeys_dec :: "tcx_state \<Rightarrow> tcx_state" where
  "tcx_skeys_dec s = s\<lparr>skey_dec := skey_dec s + 1\<rparr>"

definition tcx_entry_is_active :: "tcx_state \<Rightarrow> bool" where
  "tcx_entry_is_active s \<longleftrightarrow> c_true (bcount (bundle0 s)) \<or> c_true (miniq_active s)"

text \<open>\<open>link_size\<close> is \<^verbatim>\<open>sizeof(__bpf_tcx_link0)\<close>; the result says whether the static link was handed out.\<close>

definition tcx_kzalloc :: "u64 \<Rightarrow> u64 \<Rightarrow> tcx_state \<Rightarrow> bool \<times> tcx_state" where
  "tcx_kzalloc link_size n s = (if n = link_size then (True, s\<lparr>tcx_link0 := zero_link\<rparr>) else (False, s))"

definition tcx_link_settle :: "tcx_state \<Rightarrow> cint \<times> tcx_state" where
  "tcx_link_settle s = (7, s\<lparr>link_settles := link_settles s + 1\<rparr>)"

definition tcx_seq_printf :: "u32 \<Rightarrow> cint \<times> u32" where
  "tcx_seq_printf writes = (0, writes + 1)"

text \<open>\<open>want\<close> says whether the caller passed a place for the new entry; \<open>entry_new\<close> is what is stored there.  The
  comparison of the count with the maximum is one of unsigned numbers.\<close>

definition tcx_mprog_attach ::
    "bool \<Rightarrow> prog_ptr \<Rightarrow> link_ptr \<Rightarrow> tcx_state \<Rightarrow> cint \<times> mprog_entry option \<times> tcx_state" where
  "tcx_mprog_attach want prog_new link s =
     (if \<not> want \<or> prog_new = None then (- EINVAL, None, s)
      else if bcount (bundle0 s) \<ge> word_of_int bpf_mprog_max then (- ERANGE, None, s)
      else (let b = bundle0 s;
                b = set_fps Entry_b (\<lambda>xs. xs[0 := prog_new]) b;
                b = set_cps (\<lambda>xs. xs[0 := link]) b;
                b = b\<lparr>bcount := 1\<rparr>
            in (0, Some Entry_b, s\<lparr>bundle0 := b\<rparr>)))"

definition tcx_mprog_detach :: "bool \<Rightarrow> tcx_state \<Rightarrow> cint \<times> mprog_entry option \<times> tcx_state" where
  "tcx_mprog_detach want s =
     (if \<not> want \<or> bcount (bundle0 s) = 0 then (- ENOENT, None, s)
      else (let b = bundle0 s;
                b = set_fps Entry_b (\<lambda>xs. xs[0 := None]) b;
                b = set_cps (\<lambda>xs. xs[0 := None]) b;
                b = b\<lparr>bcount := 0\<rparr>
            in (0, Some Entry_b, s\<lparr>bundle0 := b\<rparr>)))"

definition tcx_mprog_query :: cint where
  "tcx_mprog_query = 0"

definition tcx_mprog_commit :: "tcx_state \<Rightarrow> tcx_state" where
  "tcx_mprog_commit s =
     (let s = (if bref (bundle0 s) \<noteq> None
               then s\<lparr>tg := bpf_prog_put (tg s), bundle0 := (bundle0 s)\<lparr>bref := None\<rparr>\<rparr> else s)
      in s\<lparr>bundle0 := (bundle0 s)\<lparr>revision := revision (bundle0 s) + 1\<rparr>\<rparr>)"

definition tcx_mprog_clear_all :: "tcx_state \<Rightarrow> mprog_entry option \<times> tcx_state" where
  "tcx_mprog_clear_all s =
     (let b = bundle0 s;
          b = set_fps Entry_b (\<lambda>xs. xs[0 := None]) b;
          b = set_cps (\<lambda>xs. xs[0 := None]) b;
          b = b\<lparr>bcount := 0\<rparr>
      in (Some Entry_b, s\<lparr>bundle0 := b\<rparr>))"

section \<open>Reachable states\<close>

text \<open>The calls a user of the file can make, in any order.  The two queue fields of the entry belong to the
  queueing discipline: no function of the file sets them to anything but zero, and \<^verbatim>\<open>tcx_entry_is_active\<close> reads what
  the discipline stored.  The step \<open>queue\<close> is that store, with any value.\<close>

inductive tcx_step :: "tcx_state \<Rightarrow> tcx_state \<Rightarrow> bool" where
  lock: "tcx_step s (rtnl_lock s)"
| unlock: "tcx_step s (rtnl_unlock s)"
| sync: "tcx_step s (tcx_entry_sync s)"
| update: "tcx_step s (tcx_entry_update entry ingress s)"
| fetch_or_create: "tcx_step s (snd (snd (tcx_entry_fetch_or_create ingress s)))"
| free: "tcx_step s (tcx_entry_free s)"
| skeys_inc: "tcx_step s (tcx_skeys_inc s)"
| skeys_dec: "tcx_step s (tcx_skeys_dec s)"
| kzalloc: "tcx_step s (snd (tcx_kzalloc link_size n s))"
| settle: "tcx_step s (snd (tcx_link_settle s))"
| attach: "tcx_step s (snd (snd (tcx_mprog_attach want p l s)))"
| detach: "tcx_step s (snd (snd (tcx_mprog_detach want s)))"
| commit: "tcx_step s (tcx_mprog_commit s)"
| clear: "tcx_step s (snd (tcx_mprog_clear_all s))"
| queue: "tcx_step s (s\<lparr>miniq := q, miniq_active := n\<rparr>)"

inductive tcx_reachable :: "tcx_state \<Rightarrow> bool" where
  start: "length (fps_a (bundle0 s)) = 4 \<Longrightarrow> length (fps_b (bundle0 s)) = 4 \<Longrightarrow> length (cp_items (bundle0 s)) = 4 \<Longrightarrow>
    tcx_reachable (tcx_reset s)"
| step: "tcx_reachable s \<Longrightarrow> tcx_step s t \<Longrightarrow> tcx_reachable t"

text \<open>Entry \<open>b\<close> holds at most one program, its link slot is empty with it, the count says which, and an attach
  point is marked active exactly if its pointer is set.\<close>

definition tcx_inv :: "tcx_state \<Rightarrow> bool" where
  "tcx_inv s \<longleftrightarrow> length (fps_a (bundle0 s)) = 4 \<and>
     (represents Entry_b [] (bundle0 s) \<or> (\<exists>p l. represents Entry_b [(p, l)] (bundle0 s))) \<and>
     (c_true (ingress_active s) \<longleftrightarrow> tcx_ingress s \<noteq> None) \<and> (c_true (egress_active s) \<longleftrightarrow> tcx_egress s \<noteq> None)"

lemma represents_0: "represents Entry_b [] b \<longleftrightarrow> fps_b b = [None, None, None, None] \<and>
    cp_items b = [None, None, None, None] \<and> bcount b = 0"
  by (simp add: represents_def padded_def numeral_nat)

lemma represents_1: "represents Entry_b [(p, l)] b \<longleftrightarrow> fps_b b = [Some p, None, None, None] \<and>
    cp_items b = [l, None, None, None] \<and> bcount b = 1"
  by (simp add: represents_def padded_def numeral_nat)

lemma bundle_init_length: "length (fps_a (bpf_mprog_bundle_init b)) = length (fps_a b)"
  by (simp add: bpf_mprog_bundle_init_def Let_def upt_slots set_cps_def)

lemma reset_inv:
  assumes "length (fps_a (bundle0 s)) = 4" "length (fps_b (bundle0 s)) = 4" "length (cp_items (bundle0 s)) = 4"
  shows "tcx_inv (tcx_reset s)"
  using bundle_init_represents [OF assms] assms(1) by (simp add: tcx_inv_def tcx_reset_def bundle_init_length)

lemma inv_lengths: "tcx_inv s \<Longrightarrow> length (fps_a (bundle0 s)) = 4 \<and> length (fps_b (bundle0 s)) = 4 \<and> length (cp_items (bundle0 s)) = 4"
  by (auto simp: tcx_inv_def represents_0 represents_1)

lemma step_inv: "tcx_step s t \<Longrightarrow> tcx_inv s \<Longrightarrow> tcx_inv t"
proof (induction rule: tcx_step.induct)
  case (fetch_or_create s ingress)
  then show ?case using inv_lengths [OF fetch_or_create] bundle_init_represents [of "bundle0 s" Entry_b]
    by (auto simp: tcx_inv_def tcx_entry_fetch_or_create_def tcx_entry_create_def bundle_init_length split: option.split)
next
  case (attach s want p l)
  then show ?case
    by (auto simp: tcx_inv_def tcx_mprog_attach_def represents_0 represents_1 set_cps_def Let_def)
next
  case (detach s want)
  then show ?case
    by (auto simp: tcx_inv_def tcx_mprog_detach_def represents_0 represents_1 set_cps_def Let_def)
next
  case (clear s)
  then show ?case
    by (auto simp: tcx_inv_def tcx_mprog_clear_all_def represents_0 represents_1 set_cps_def Let_def)
next
  case (commit s)
  then show ?case
    by (auto simp: tcx_inv_def tcx_mprog_commit_def represents_0 represents_1 Let_def)
next
  case (update s entry ingress)
  then show ?case by (auto simp: tcx_inv_def tcx_entry_update_def c_true_def)
qed (auto simp: tcx_inv_def rtnl_lock_def rtnl_unlock_def tcx_entry_sync_def synchronize_rcu_def tcx_entry_free_def
      tcx_kfree_def tcx_skeys_inc_def tcx_skeys_dec_def tcx_kzalloc_def tcx_link_settle_def)

lemma reachable_inv: "tcx_reachable s \<Longrightarrow> tcx_inv s"
  by (induction rule: tcx_reachable.induct) (auto intro: reset_inv step_inv)

section \<open>Properties\<close>

text \<open>C35: in every state reached from a reset by any sequence of calls and of stores to the queue fields, attaching a
  program succeeds and never finds the array full; entry \<open>b\<close> then holds exactly that program and link and
  is active; detaching it again empties the entry, which stays active exactly if a queue is attached.\<close>

theorem tcx_attach_detach:
  assumes "tcx_reachable s"
  shows "\<exists>t u. tcx_mprog_attach True (Some p) l s = (0, Some Entry_b, t) \<and> represents Entry_b [(p, l)] (bundle0 t) \<and>
     tcx_entry_is_active t \<and> tcx_mprog_detach True t = (0, Some Entry_b, u) \<and> represents Entry_b [] (bundle0 u) \<and>
     (tcx_entry_is_active u \<longleftrightarrow> miniq_active s \<noteq> 0)"
proof -
  from assms have inv: "tcx_inv s" by (rule reachable_inv)
  then have c: "bcount (bundle0 s) = 0 \<or> bcount (bundle0 s) = 1" by (auto simp: tcx_inv_def represents_0 represents_1)
  have m: "\<not> (3 :: u32) \<le> 1" "\<not> (3 :: u32) \<le> 0" by (simp_all add: word_le_nat_alt)
  show ?thesis
    using inv c m by (auto simp: tcx_inv_def represents_0 represents_1 tcx_mprog_attach_def tcx_mprog_detach_def bpf_mprog_max_def
        set_cps_def Let_def tcx_entry_is_active_def c_true_def)
qed

text \<open>A device after a reset and the attachment of a queue with three users.\<close>

definition sample_tcx :: "mprog_globals \<Rightarrow> tcx_state" where
  "sample_tcx g = (tcx_reset \<lparr>tg = g, bundle0 = \<lparr>fps_a = replicate 4 None, fps_b = replicate 4 None, cp_items = replicate 4 None,
      bref = None, revision = 0, bcount = 0\<rparr>, miniq = False, miniq_active = 0, ifindex = 0, tcx_ingress = None, tcx_egress = None,
      tcx_link0 = zero_link, locks = 0, unlocks = 0, syncs = 0, skey_inc = 0, skey_dec = 0, frees = 0, link_settles = 0,
      ingress_active = 0, egress_active = 0\<rparr>)\<lparr>miniq := True, miniq_active := 3\<rparr>"

theorem tcx_attach_detach_witness:
  "\<forall>g. \<exists>t u. tcx_mprog_attach True (Some 2) (Some 0) (sample_tcx g) = (0, Some Entry_b, t) \<and>
    tcx_mprog_detach True t = (0, Some Entry_b, u) \<and> tcx_entry_is_active u"
proof
  fix g
  have "tcx_reachable (sample_tcx g)"
    unfolding sample_tcx_def by (rule tcx_reachable.step[OF tcx_reachable.start tcx_step.queue]) simp_all
  from tcx_attach_detach [OF this, of 2 "Some 0"] obtain t u where
    "tcx_mprog_attach True (Some 2) (Some 0) (sample_tcx g) = (0, Some Entry_b, t)"
    "tcx_mprog_detach True t = (0, Some Entry_b, u)" "tcx_entry_is_active u \<longleftrightarrow> miniq_active (sample_tcx g) \<noteq> 0" by blast
  moreover have "miniq_active (sample_tcx g) = 3" by (simp add: sample_tcx_def)
  ultimately show "\<exists>t u. tcx_mprog_attach True (Some 2) (Some 0) (sample_tcx g) = (0, Some Entry_b, t) \<and>
      tcx_mprog_detach True t = (0, Some Entry_b, u) \<and> tcx_entry_is_active u" by simp
qed

text \<open>An entry is created exactly for an attach point whose pointer is not set, and starts empty.\<close>

lemma tcx_fetch_or_create:
  assumes "tcx_inv s" and "tcx_entry_fetch_or_create ingress s = (e, created, t)"
  shows "e \<noteq> None \<and> (created \<longleftrightarrow> (if ingress then tcx_ingress s else tcx_egress s) = None) \<and>
    (created \<longrightarrow> represents Entry_a [] (bundle0 t) \<and> represents Entry_b [] (bundle0 t)) \<and> (\<not> created \<longrightarrow> t = s)"
proof -
  have "length (fps_a (bundle0 s)) = 4" "length (fps_b (bundle0 s)) = 4" "length (cp_items (bundle0 s)) = 4"
    using inv_lengths [OF assms(1)] by simp_all
  note init = bundle_init_represents [OF this]
  show ?thesis using assms init
    by (cases ingress) (auto simp: tcx_inv_def tcx_entry_fetch_or_create_def tcx_entry_fetch_def tcx_entry_create_def
        split: if_splits)
qed

end
