(* ===== verification/Khost.thy ===== *)
theory Khost
  imports Byte_Buf
begin

text \<open>
  The host replacements of kernel primitives in \<^verbatim>\<open>userspace/khost.h\<close>, under which kernel sources are compiled for
  property fuzzing: bit scans from the compiler's leading-zero count, rotations, the string copy, the test for
  zero bytes, and the division that returns the remainder.  \<^verbatim>\<open>__builtin_clz\<close> and its 64-bit variants are the
  compiler's and are modelled as the number of zero bits above the highest set bit.
\<close>

section \<open>The code\<close>

definition builtin_clz :: "'a::len word \<Rightarrow> nat" where
  "builtin_clz w = length (takeWhile (\<lambda>i. \<not> bit w i) (rev [0..<LENGTH('a)]))"

definition khost_fls :: "u32 \<Rightarrow> nat" where
  "khost_fls x = (if x \<noteq> 0 then 32 - builtin_clz x else 0)"

definition khost_fls64 :: "u64 \<Rightarrow> nat" where
  "khost_fls64 x = (if x \<noteq> 0 then 64 - builtin_clz x else 0)"

definition khost_fls_bit :: "u64 \<Rightarrow> nat" where
  "khost_fls_bit x = 63 - builtin_clz x"

text \<open>\<^verbatim>\<open>sizeof(l)\<close> is 8.\<close>

definition khost_fls_long :: "u64 \<Rightarrow> nat" where
  "khost_fls_long l = (if l \<noteq> 0 then khost_fls64 l else 0)"

text \<open>A shift by the width of the word is undefined in C; the rotations by 0 do one.\<close>

definition rol64 :: "u64 \<Rightarrow> nat \<Rightarrow> u64" where "rol64 w s = push_bit s w OR drop_bit (64 - s) w"
definition ror64 :: "u64 \<Rightarrow> nat \<Rightarrow> u64" where "ror64 w s = drop_bit s w OR push_bit (64 - s) w"
definition rol32 :: "u32 \<Rightarrow> nat \<Rightarrow> u32" where "rol32 w s = push_bit s w OR drop_bit (32 - s) w"
definition ror32 :: "u32 \<Rightarrow> nat \<Rightarrow> u32" where "ror32 w s = drop_bit s w OR push_bit (32 - s) w"

text \<open>The loop of \<^verbatim>\<open>strscpy\<close> with its early return; \<open>None\<close> continues after the loop.\<close>

function khost_strscpy_loop :: "u8 list \<Rightarrow> u8 list \<Rightarrow> nat \<Rightarrow> nat \<Rightarrow> nat option \<times> u8 list \<times> nat" where
  "khost_strscpy_loop dst src count i =
     (if i < count - 1
      then let dst = dst[i := src ! i]
           in if src ! i = 0 then (Some i, dst, i) else khost_strscpy_loop dst src count (i + 1)
      else (None, dst, i))"
  by pat_completeness auto
termination by (relation "measure (\<lambda>(dst, src, count, i). count - i)") auto

declare khost_strscpy_loop.simps [simp del]

definition khost_strscpy :: "u8 list \<Rightarrow> u8 list \<Rightarrow> nat \<Rightarrow> cint \<times> u8 list" where
  "khost_strscpy dst src count =
     (if count = 0 then (- E2BIG, dst)
      else case khost_strscpy_loop dst src count 0 of
             (Some i, dst, _) \<Rightarrow> (int i, dst)
           | (None, dst, i) \<Rightarrow>
               let dst = dst[i := 0] in (if src ! i = 0 then int i else - E2BIG, dst))"

fun mem_is_zero :: "u8 list \<Rightarrow> nat \<Rightarrow> nat \<Rightarrow> bool" where
  "mem_is_zero b i 0 = True"
| "mem_is_zero b i (Suc n) = (if b ! i \<noteq> 0 then False else mem_is_zero b (i + 1) n)"

text \<open>\<^verbatim>\<open>do_div(n, base)\<close>: the new \<^verbatim>\<open>n\<close> and the value of the expression.\<close>

definition do_div :: "u64 \<Rightarrow> u32 \<Rightarrow> u64 \<times> u32" where
  "do_div n base = (n div ucast base, ucast (n mod ucast base))"

section \<open>Bit scans\<close>

lemma takeWhile_rev_upt:
  assumes "P k" and "k < n" and "\<And>i. k < i \<Longrightarrow> i < n \<Longrightarrow> \<not> P i"
  shows "length (takeWhile (\<lambda>i. \<not> P i) (rev [0..<n])) = n - 1 - k"
proof -
  have "[0..<n] = [0..<k] @ k # [Suc k..<n]" 
    using assms(2) upt_add_eq_append [of 0 k "n - k"] upt_conv_Cons [of k n] by simp
  then have r: "rev [0..<n] = rev [Suc k..<n] @ k # rev [0..<k]" by simp
  have "takeWhile (\<lambda>i. \<not> P i) (rev [Suc k..<n] @ k # rev [0..<k]) = rev [Suc k..<n]"
    using assms(1, 3) by (subst takeWhile_append2) auto
  then show ?thesis unfolding r by simp
qed

lemma top_bit_exists:
  fixes w :: "'a::len word"
  assumes "w \<noteq> 0"
  obtains k where "bit w k" "k < LENGTH('a)" "\<forall>i > k. \<not> bit w i"
proof -
  let ?S = "{i. bit w i}"
  have f: "finite ?S" by (rule finite_subset [of _ "{..<LENGTH('a)}"]) (auto dest: bit_imp_le_length)
  have ne: "?S \<noteq> {}" using assms by (auto simp: bit_eq_iff)
  show thesis
  proof (rule that)
    show "bit w (Max ?S)" using Max_in [OF f ne] by simp
    then show "Max ?S < LENGTH('a)" by (rule bit_imp_le_length)
    show "\<forall>i > Max ?S. \<not> bit w i" using Max_ge [OF f] by (auto simp flip: not_le)
  qed
qed

lemma bit_bounds:
  fixes w :: "'a::len word"
  assumes "bit w k" and "\<forall>i > k. \<not> bit w i"
  shows "2 ^ k \<le> unat w" "unat w < 2 ^ Suc k"
proof -
  have "bit (unat w) k" using assms(1) by (simp add: bit_unsigned_iff)
  then show "2 ^ k \<le> unat w" by (metis bit_iff_odd div_less even_zero not_le)
  have "take_bit (Suc k) (unat w) = unat w"
    using assms(2) by (intro bit_eqI) (auto simp: bit_take_bit_iff bit_unsigned_iff less_Suc_eq_le simp flip: not_less)
  then show "unat w < 2 ^ Suc k" by (simp only: take_bit_nat_eq_self_iff)
qed

lemma clz_top:
  fixes w :: "'a::len word"
  assumes "w \<noteq> 0"
  shows "builtin_clz w < LENGTH('a)" "2 ^ (LENGTH('a) - 1 - builtin_clz w) \<le> unat w" "unat w < 2 ^ (LENGTH('a) - builtin_clz w)"
proof -
  obtain k where k: "bit w k" "k < LENGTH('a)" "\<forall>i > k. \<not> bit w i" using top_bit_exists [OF assms] .
  have c: "builtin_clz w = LENGTH('a) - 1 - k"
    unfolding builtin_clz_def using k by (intro takeWhile_rev_upt) auto
  then have "LENGTH('a) - builtin_clz w = Suc k" "LENGTH('a) - 1 - builtin_clz w = k" using k(2) by simp_all
  with bit_bounds [OF k(1, 3)] show "2 ^ (LENGTH('a) - 1 - builtin_clz w) \<le> unat w"
    "unat w < 2 ^ (LENGTH('a) - builtin_clz w)" by simp_all
  show "builtin_clz w < LENGTH('a)" using c k(2) by simp
qed

lemma khost_fls_bounds:
  assumes "x \<noteq> 0"
  shows "0 < khost_fls x" "khost_fls x \<le> 32" "2 ^ (khost_fls x - 1) \<le> unat x" "unat x < 2 ^ khost_fls x"
  using clz_top [OF assms] assms by (simp_all add: khost_fls_def)

text \<open>The host's bit scans agree with the position of the highest set bit: \<^verbatim>\<open>fls\<close> and \<^verbatim>\<open>fls64\<close> are the number of
  bits of the argument, with 0 for 0, and \<^verbatim>\<open>__fls\<close> is the index of the top bit.\<close>

theorem khost_fls_correct:
  "unat x < 2 ^ khost_fls x \<and> (x \<noteq> 0 \<longrightarrow> 2 ^ (khost_fls x - 1) \<le> unat x)"
  "unat y < 2 ^ khost_fls64 y \<and> khost_fls_long y = khost_fls64 y \<and>
     (y \<noteq> 0 \<longrightarrow> 2 ^ khost_fls_bit y \<le> unat y \<and> khost_fls64 y = khost_fls_bit y + 1)"
  using clz_top [of x] clz_top [of y]
  by (auto simp: khost_fls_def khost_fls64_def khost_fls_bit_def khost_fls_long_def)

section \<open>Rotations\<close>

lemma rol_ror:
  assumes "0 < s"
  shows "s < 64 \<Longrightarrow> ror64 (rol64 w s) s = w" "s < 64 \<Longrightarrow> rol64 (ror64 w s) s = w"
    "s < 32 \<Longrightarrow> ror32 (rol32 v s) s = v" "s < 32 \<Longrightarrow> rol32 (ror32 v s) s = v"
  using assms unfolding rol64_def ror64_def rol32_def ror32_def
  by (auto intro!: bit_word_eqI simp: bit_simps bit_imp_le_length)

section \<open>Strings\<close>

lemma khost_strscpy_loop_eq:
  assumes "0 \<notin> set s" and "i \<le> length s" and "i \<le> count - 1" and "count \<le> length dst"
  shows "khost_strscpy_loop dst (s @ 0 # rest) count i =
    (if length s < count - 1 then (Some (length s), store_bytes dst i (drop i s @ [0]), length s)
     else (None, store_bytes dst i (take (count - 1 - i) (drop i s)), count - 1))"
  using assms(2-)
proof (induction "count - i" arbitrary: dst i rule: less_induct)
  case less
  show ?case
  proof (cases "i < count - 1")
    case False
    with less.prems have "i = count - 1" by simp
    with less.prems show ?thesis by (subst khost_strscpy_loop.simps) simp
  next
    case c: True
    show ?thesis
    proof (cases "i < length s")
      case False
      with less.prems have "i = length s" by simp
      with c less.prems show ?thesis by (subst khost_strscpy_loop.simps) (simp add: store_one)
    next
      case True
      have b: "(s @ 0 # rest) ! i = s ! i" "s ! i \<noteq> 0" using True assms(1) by (auto simp: nth_append dest: nth_mem)
      have d: "drop i s = s ! i # drop (Suc i) s" using True by (simp add: Cons_nth_drop_Suc)
      have st: "store_bytes (dst[i := s ! i]) (Suc i) bs = store_bytes dst i (s ! i # bs)"
        if "Suc i + length bs \<le> length dst" for bs
        using that c less.prems store_store [of i "[s ! i]" bs dst] by (simp add: store_one)
      have "khost_strscpy_loop dst (s @ 0 # rest) count i = khost_strscpy_loop (dst[i := s ! i]) (s @ 0 # rest) count (Suc i)"
        using c b by (subst khost_strscpy_loop.simps) simp
      also have "\<dots> = (if length s < count - 1 then (Some (length s), store_bytes (dst[i := s ! i]) (Suc i) (drop (Suc i) s @ [0]), length s)
          else (None, store_bytes (dst[i := s ! i]) (Suc i) (take (count - 1 - Suc i) (drop (Suc i) s)), count - 1))"
        using c True less.prems by (intro less.hyps) simp_all
      also have "\<dots> = (if length s < count - 1 then (Some (length s), store_bytes dst i (drop i s @ [0]), length s)
          else (None, store_bytes dst i (take (count - 1 - i) (drop i s)), count - 1))"
      proof (cases "length s < count - 1")
        case l: True
        then have "Suc i + length (drop (Suc i) s @ [0]) \<le> length dst" using True less.prems by simp
        with l d st show ?thesis by simp
      next
        case False
        have "take (count - 1 - i) (drop i s) = s ! i # take (count - 1 - Suc i) (drop (Suc i) s)"
          unfolding d using c by (simp add: take_Cons' Suc_diff_Suc)
        moreover have "Suc i + length (take (count - 1 - Suc i) (drop (Suc i) s)) \<le> length dst" using c less.prems by simp
        ultimately show ?thesis using False st by simp
      qed
      finally show ?thesis .
    qed
  qed
qed

text \<open>The host's \<^verbatim>\<open>strscpy\<close> keeps the kernel's contract: it copies at most \<open>count - 1\<close> characters and always
  terminates the copy, writes no byte beyond it, and returns the length, or \<open>-E2BIG\<close> exactly if the string did not
  fit; with no room it touches nothing.\<close>

theorem khost_strscpy_correct:
  assumes "0 \<notin> set s" and "count \<le> length dst"
  shows "khost_strscpy dst (s @ 0 # rest) count =
    (if count = 0 then (- E2BIG, dst)
     else (if length s < count then int (length s) else - E2BIG, store_bytes dst 0 (take (count - 1) s @ [0])))"
proof (cases "count = 0")
  case False
  let ?l = "khost_strscpy_loop dst (s @ 0 # rest) count 0"
  have l: "?l = (if length s < count - 1 then (Some (length s), store_bytes dst 0 (s @ [0]), length s)
      else (None, store_bytes dst 0 (take (count - 1) s), count - 1))"
    using khost_strscpy_loop_eq [OF assms(1), of 0 count dst] assms(2) False by simp
  show ?thesis
  proof (cases "length s < count - 1")
    case True
    then show ?thesis using l False by (simp add: khost_strscpy_def)
  next
    case nl: False
    have t: "length (take (count - 1) s) = count - 1" using nl by simp
    have "(store_bytes dst 0 (take (count - 1) s))[count - 1 := 0] = store_bytes dst 0 (take (count - 1) s @ [0])"
      using store_store [of 0 "take (count - 1) s" "[0]" dst] t assms(2) False
      by (simp add: store_one)
    moreover have "(s @ 0 # rest) ! (count - 1) = 0 \<longleftrightarrow> length s < count"
      using nl False assms(1) by (auto simp: nth_append dest: nth_mem)
    moreover have "length s < count \<Longrightarrow> length s = count - 1" using nl by simp
    ultimately show ?thesis using l nl False by (auto simp: khost_strscpy_def Let_def)
  qed
qed (simp add: khost_strscpy_def)

theorem khost_strscpy_correct_witness:
  "khost_strscpy [9, 9, 9, 9] [0x61, 0x62, 0x63, 0, 7] 3 = (- E2BIG, [0x61, 0x62, 0, 9])"
  using khost_strscpy_correct [of "[0x61, 0x62, 0x63]" 3 "[9, 9, 9, 9]" "[7]"] by (simp add: store_bytes_def)

lemma mem_is_zero_iff: "i + n \<le> length b \<Longrightarrow> mem_is_zero b i n \<longleftrightarrow> bytes_at b i n = replicate n 0"
  by (induction n arbitrary: i) (auto simp: bytes_at_Suc)

end
