(* ===== verification/Fuzz.thy ===== *)
theory Fuzz
  imports Bpf_Prelude
begin

text \<open>
  The input generators and the driver of the fuzzing and differential tests: \<^verbatim>\<open>userspace/fuzz.h\<close>,
  \<^verbatim>\<open>userspace/fuzz_main.c\<close>, \<^verbatim>\<open>tools/diff_seed.h\<close> and the folding of results in \<^verbatim>\<open>tools/diff_native.c\<close>.  A \<^verbatim>\<open>long\<close> is an
  \<open>int\<close>; the conversions of an iteration number to an unsigned type keep its residues.  The test program
  (\<^verbatim>\<open>fuzz_case\<close>) and the count of warnings are parameters of the driver; the parsing of the command line and the
  printing are left out.
\<close>

section \<open>The code\<close>

record fuzz_input =
  fz_state :: u64
  draw :: int
  iter :: int

definition GOLDEN :: u64 where "GOLDEN = 0x9e3779b97f4a7c15"

definition diff_mix :: "u64 \<Rightarrow> u64" where
  "diff_mix z =
     (let z = (z XOR drop_bit 30 z) * 0xbf58476d1ce4e5b9;
          z = (z XOR drop_bit 27 z) * 0x94d049bb133111eb
      in z XOR drop_bit 31 z)"

definition fuzz_next :: "fuzz_input \<Rightarrow> u64 \<times> fuzz_input" where
  "fuzz_next inp =
     (let inp = inp\<lparr>fz_state := fz_state inp + GOLDEN\<rparr>;
          z = fz_state inp;
          z = (z XOR drop_bit 30 z) * 0xbf58476d1ce4e5b9;
          z = (z XOR drop_bit 27 z) * 0x94d049bb133111eb
      in (z XOR drop_bit 31 z, inp))"

definition fuzz_corners :: "u64 list" where
  "fuzz_corners = [0, 1, 2, 3, NOT 0, NOT 0 - 1, 0x8000000000000000, 0x7fffffffffffffff,
     0xffffffff, 0x100000000, 0x80000000, 0x7fffffff, 0xff, 0x100, 0xffff, 0x10000]"

definition diff_corners :: "u64 list" where
  "diff_corners = [0, 1, 2, 3, NOT 0, NOT 0 - 1, 0x8000000000000000, 0x7fffffffffffffff,
     0xffffffff, 0x100000000, 0x80000000, 0x7fffffff, 0xff, 0x100, 0xffff, 0x10000]"

definition FUZZ_NCORNERS :: int where "FUZZ_NCORNERS = int (length fuzz_corners)"
definition DIFF_NCORNERS :: int where "DIFF_NCORNERS = int (length diff_corners)"
definition DIFF_NINPUTS :: int where "DIFF_NINPUTS = 4"

definition fuzz_u64 :: "fuzz_input \<Rightarrow> u64 \<times> fuzz_input" where
  "fuzz_u64 inp =
     (let d = draw inp; inp = inp\<lparr>draw := draw inp + 1\<rparr>
      in if iter inp < FUZZ_NCORNERS * FUZZ_NCORNERS \<and> d = 0
         then (fuzz_corners ! nat (iter inp mod FUZZ_NCORNERS), inp)
         else if iter inp < FUZZ_NCORNERS * FUZZ_NCORNERS \<and> d = 1
         then (fuzz_corners ! nat (iter inp div FUZZ_NCORNERS mod FUZZ_NCORNERS), inp)
         else fuzz_next inp)"

fun fuzz_bytes :: "fuzz_input \<Rightarrow> u8 list \<Rightarrow> nat \<Rightarrow> nat \<Rightarrow> u8 list \<times> fuzz_input" where
  "fuzz_bytes inp buf i 0 = (buf, inp)"
| "fuzz_bytes inp buf i (Suc n) =
     (let (v, inp) = fuzz_u64 inp in fuzz_bytes inp (buf[i := ucast v]) (i + 1) n)"

text \<open>\<open>None\<close> is a division by zero.\<close>

definition fuzz_range :: "fuzz_input \<Rightarrow> u64 \<Rightarrow> u64 \<Rightarrow> (u64 \<times> fuzz_input) option" where
  "fuzz_range inp lo hi =
     (if hi \<le> lo then Some (lo, inp)
      else let (v, inp) = fuzz_u64 inp
           in if hi - lo + 1 = 0 then None else Some (lo + v mod (hi - lo + 1), inp))"

definition seed_for :: "u64 \<Rightarrow> int \<Rightarrow> u64" where
  "seed_for base it =
     (let z = base + GOLDEN * word_of_int (it + 1);
          z = (z XOR drop_bit 30 z) * 0xbf58476d1ce4e5b9;
          z = (z XOR drop_bit 27 z) * 0x94d049bb133111eb
      in z XOR drop_bit 31 z)"

text \<open>The driver: \<open>fuzz_case\<close> says whether the property failed and by how much the count of warnings grew.
  The loop keeps the number of failures and the iterations it reported.\<close>

definition fuzz_iteration :: "(fuzz_input \<Rightarrow> bool \<times> nat) \<Rightarrow> u64 \<Rightarrow> nat \<Rightarrow> nat \<times> nat list \<Rightarrow> nat \<times> nat list" where
  "fuzz_iteration fuzz_case base it = (\<lambda>(failures, reported).
     let inp = \<lparr>fz_state = seed_for base (int it), draw = 0, iter = int it\<rparr>;
         (rc, warnings) = fuzz_case inp;
         warned = (warnings \<noteq> 0)
     in if rc \<or> warned
        then (failures + 1, if length reported < 5 then reported @ [it] else reported)
        else (failures, reported))"

definition fuzz_main :: "(fuzz_input \<Rightarrow> bool \<times> nat) \<Rightarrow> u64 \<Rightarrow> nat \<Rightarrow> nat list \<times> cint" where
  "fuzz_main fuzz_case base iters =
     (let (failures, reported) = fold (fuzz_iteration fuzz_case base) [0..<iters] (0, [])
      in (reported, if failures \<noteq> 0 then 1 else 0))"

definition diff_input :: "u64 \<Rightarrow> int \<Rightarrow> int \<Rightarrow> u64" where
  "diff_input base it k = diff_mix (base + GOLDEN * word_of_int (it * DIFF_NINPUTS + k + 1))"

definition diff_gen_inputs :: "u64 \<Rightarrow> int \<Rightarrow> u64 list" where
  "diff_gen_inputs base it =
     (if it < DIFF_NCORNERS * DIFF_NCORNERS
      then [diff_corners ! nat (it mod DIFF_NCORNERS), diff_corners ! nat (it div DIFF_NCORNERS mod DIFF_NCORNERS),
            diff_input base it 2, diff_input base it 3]
      else map (diff_input base it) [0..DIFF_NINPUTS - 1])"

text \<open>The fold of a 64-bit result to the 32 bits a BPF program returns.\<close>

definition diff_fold :: "u64 \<Rightarrow> u64" where
  "diff_fold r = ucast (ucast (r XOR drop_bit 32 r) :: u32)"

section \<open>The mixing function is a bijection\<close>

lemma xor_zero_cancel: "a XOR b = 0 \<longleftrightarrow> a = b" for a b :: u64
  by (auto simp: bit_eq_iff bit_xor_iff)

lemma xor_shift_inj:
  fixes x y :: u64
  assumes "0 < k" and "x XOR drop_bit k x = y XOR drop_bit k y"
  shows "x = y"
proof -
  define z where "z = x XOR y"
  have "z XOR drop_bit k z = (x XOR drop_bit k x) XOR (y XOR drop_bit k y)"
    unfolding z_def by (rule bit_word_eqI) (auto simp: bit_simps)
  then have "z XOR drop_bit k z = 0" using assms(2) by simp
  then have "z = drop_bit k z" by (simp only: xor_zero_cancel)
  then have bits: "bit z i \<longleftrightarrow> bit z (k + i)" for i by (metis bit_drop_bit_eq comp_apply)
  have "\<not> bit z i" for i
  proof (induction "64 - i" arbitrary: i rule: less_induct)
    case less
    show ?case
    proof (cases "i < 64")
      case True
      then show ?thesis using bits [of i] less [of "k + i"] assms(1) by auto
    next
      case False
      then show ?thesis using bit_imp_le_length [of z i] by auto
    qed
  qed
  then have "z = 0" by (simp add: bit_eq_iff)
  then show ?thesis by (simp only: z_def xor_zero_cancel)
qed

lemma mult_unit_inj:
  fixes c c' x y :: u64
  assumes "c * c' = 1" and "x * c = y * c"
  shows "x = y"
proof -
  have "x * (c * c') = y * (c * c')" using assms(2) by (simp only: mult.assoc [symmetric])
  then show ?thesis using assms(1) by simp
qed

lemma mix_inj: "diff_mix x = diff_mix y \<Longrightarrow> x = y"
proof -
  have c: "(0xbf58476d1ce4e5b9 :: u64) * 0x96de1b173f119089 = 1" "(0x94d049bb133111eb :: u64) * 0x319642b2d24d8ec3 = 1"
    by simp_all
  define a where "a z = (z XOR drop_bit 30 z) * (0xbf58476d1ce4e5b9 :: u64)" for z :: u64
  define b where "b z = (z XOR drop_bit 27 z) * (0x94d049bb133111eb :: u64)" for z :: u64
  have mix: "diff_mix z = b (a z) XOR drop_bit 31 (b (a z))" for z by (simp only: diff_mix_def a_def b_def Let_def)
  assume "diff_mix x = diff_mix y"
  then have "b (a x) = b (a y)" unfolding mix by (rule xor_shift_inj [rotated]) simp
  then have "a x XOR drop_bit 27 (a x) = a y XOR drop_bit 27 (a y)" unfolding b_def by (rule mult_unit_inj [OF c(2)])
  then have "a x = a y" by (rule xor_shift_inj [rotated]) simp
  then have "x XOR drop_bit 30 x = y XOR drop_bit 30 y" unfolding a_def by (rule mult_unit_inj [OF c(1)])
  then show "x = y" by (rule xor_shift_inj [rotated]) simp
qed

lemma seed_mix: "seed_for base it = diff_mix (base + GOLDEN * word_of_int (it + 1))"
  by (simp only: seed_for_def diff_mix_def Let_def)

lemma next_mix: "fst (fuzz_next inp) = diff_mix (fz_state inp + GOLDEN)"
  by (simp add: fuzz_next_def diff_mix_def Let_def)

lemma golden_inj:
  assumes "base + GOLDEN * word_of_int i = base + GOLDEN * word_of_int j"
    and "0 \<le> i" "i < 2 ^ 64" "0 \<le> j" "j < 2 ^ 64"
  shows "i = j"
proof -
  have c: "GOLDEN * 0xf1de83e19937733d = 1" by (simp add: GOLDEN_def)
  have "word_of_int i * GOLDEN = word_of_int j * GOLDEN" using assms(1) by (simp add: mult.commute)
  then have "(word_of_int i :: u64) = word_of_int j" by (rule mult_unit_inj [OF c])
  then have "uint (word_of_int i :: u64) = uint (word_of_int j :: u64)" by simp
  then show ?thesis using assms by (simp add: uint_word_of_int)
qed

lemma mix_golden:
  assumes "0 \<le> i" "i < 2 ^ 64" "0 \<le> j" "j < 2 ^ 64"
  shows "diff_mix (base + GOLDEN * word_of_int i) = diff_mix (base + GOLDEN * word_of_int j) \<longleftrightarrow> i = j"
  using golden_inj [OF _ assms] mix_inj by blast

section \<open>Properties of the generators\<close>

text \<open>No two iterations of a fuzzing run start from the same state, whatever the base seed, and the inputs a
  differential test draws at random are pairwise different over all its iterations: the mixing function is a
  bijection and the multiplier is odd.\<close>

theorem seeds_distinct:
  assumes "0 \<le> i" "i < 2 ^ 61" "0 \<le> j" "j < 2 ^ 61" "0 \<le> k" "k < 4" "0 \<le> l" "l < 4"
  shows "seed_for base i = seed_for base j \<longleftrightarrow> i = j"
    "diff_input base i k = diff_input base j l \<longleftrightarrow> i = j \<and> k = l"
proof -
  have "seed_for base i = seed_for base j \<longleftrightarrow> i + 1 = j + 1"
    unfolding seed_mix by (rule mix_golden) (use assms in simp_all)
  then show "seed_for base i = seed_for base j \<longleftrightarrow> i = j" by simp
  have "diff_input base i k = diff_input base j l \<longleftrightarrow> i * DIFF_NINPUTS + k + 1 = j * DIFF_NINPUTS + l + 1"
    unfolding diff_input_def by (rule mix_golden) (use assms in \<open>simp_all add: DIFF_NINPUTS_def\<close>)
  also have "\<dots> \<longleftrightarrow> i = j \<and> k = l" unfolding DIFF_NINPUTS_def using assms by presburger
  finally show "diff_input base i k = diff_input base j l \<longleftrightarrow> i = j \<and> k = l" .
qed

theorem seeds_distinct_witness:
  "seed_for 0x1234567 3 \<noteq> seed_for 0x1234567 4 \<and> diff_input 0 7 2 \<noteq> diff_input 0 8 0"
  using seeds_distinct(1) [of 3 4 0 0 "0x1234567"] seeds_distinct(2) [of 7 8 2 0 0] by simp

lemma corner_lists: "diff_corners = fuzz_corners" "length fuzz_corners = 16" "distinct fuzz_corners"
  by (simp_all add: diff_corners_def fuzz_corners_def)

definition first_draws :: "u64 \<Rightarrow> int \<Rightarrow> u64 \<times> u64" where
  "first_draws base it =
     (let inp = \<lparr>fz_state = seed_for base it, draw = 0, iter = it\<rparr>;
          (x, inp) = fuzz_u64 inp; (y, inp) = fuzz_u64 inp in (x, y))"

lemma first_draws_corners:
  assumes "0 \<le> it" "it < 256"
  shows "first_draws base it = (fuzz_corners ! nat (it mod 16), fuzz_corners ! nat (it div 16))"
    "take 2 (diff_gen_inputs base it) = [fuzz_corners ! nat (it mod 16), fuzz_corners ! nat (it div 16)]"
  using assms by (simp_all add: first_draws_def fuzz_u64_def FUZZ_NCORNERS_def DIFF_NCORNERS_def corner_lists diff_gen_inputs_def)

text \<open>The first 256 iterations sweep the corner values: every pair of the sixteen corners is the first two
  inputs of exactly one of these iterations, for the fuzzing driver and for the differential tests alike.\<close>

theorem corner_sweep:
  assumes "x \<in> set fuzz_corners" and "y \<in> set fuzz_corners"
  shows "\<exists>!it. 0 \<le> it \<and> it < 256 \<and> first_draws base it = (x, y) \<and> take 2 (diff_gen_inputs base it) = [x, y]"
proof -
  obtain i where i: "i < 16" "fuzz_corners ! i = x" using assms(1) corner_lists(2) by (metis in_set_conv_nth)
  obtain j where j: "j < 16" "fuzz_corners ! j = y" using assms(2) corner_lists(2) by (metis in_set_conv_nth)
  show ?thesis
  proof (rule ex1I [of _ "int (i + 16 * j)"])
    have "int (i + 16 * j) < 256" using i(1) j(1) by linarith
    moreover have "int (i + 16 * j) mod 16 = int i" "int (i + 16 * j) div 16 = int j" using i(1) by auto
    ultimately show "0 \<le> int (i + 16 * j) \<and> int (i + 16 * j) < 256 \<and> first_draws base (int (i + 16 * j)) = (x, y) \<and>
        take 2 (diff_gen_inputs base (int (i + 16 * j))) = [x, y]"
      using first_draws_corners [of "int (i + 16 * j)" base] i(2) j(2) by simp
  next
    fix it
    assume a: "0 \<le> it \<and> it < 256 \<and> first_draws base it = (x, y) \<and> take 2 (diff_gen_inputs base it) = [x, y]"
    have r: "nat (it mod 16) < 16" "nat (it div 16) < 16" using a by auto
    have "fuzz_corners ! nat (it mod 16) = x" "fuzz_corners ! nat (it div 16) = y"
      using a first_draws_corners(1) [of it base] by simp_all
    then have "nat (it mod 16) = i" "nat (it div 16) = j"
      using i j r nth_eq_iff_index_eq [OF corner_lists(3), of "nat (it mod 16)" i]
        nth_eq_iff_index_eq [OF corner_lists(3), of "nat (it div 16)" j] corner_lists(2) by simp_all
    then show "it = int (i + 16 * j)" using a by auto
  qed
qed

theorem corner_sweep_witness:
  "\<exists>!it. 0 \<le> it \<and> it < 256 \<and> first_draws 0 it = (NOT 0, 0x100) \<and> take 2 (diff_gen_inputs 0 it) = [NOT 0, 0x100]"
  by (rule corner_sweep) (simp_all add: fuzz_corners_def)

text \<open>A draw from a range lies in the range, and the draw is defined except for the full range of 64 bits, where
  the code divides by zero.\<close>

theorem fuzz_range_bounds:
  assumes "lo \<le> hi"
  shows "case fuzz_range inp lo hi of
      None \<Rightarrow> lo = 0 \<and> hi = NOT 0
    | Some (v, inp') \<Rightarrow> lo \<le> v \<and> v \<le> hi \<and> \<not> (lo = 0 \<and> hi = NOT 0)"
proof (cases "hi \<le> lo")
  case True
  then have "hi = lo" using assms by simp
  then show ?thesis by (auto simp: fuzz_range_def)
next
  case False
  obtain v inp' where v: "fuzz_u64 inp = (v, inp')" by (cases "fuzz_u64 inp")
  have h: "unat (hi - lo) = unat hi - unat lo" using assms by (simp add: unat_sub)
  show ?thesis
  proof (cases "hi - lo + 1 = 0")
    case True
    then have "hi - lo = - 1" by (simp add: eq_neg_iff_add_eq_0)
    moreover have "unat (- 1 :: u64) = 2 ^ 64 - 1" by (simp add: unsigned_minus_1_eq_mask mask_eq_exp_minus_1)
    ultimately have "unat (hi - lo) = 2 ^ 64 - 1" by simp
    then have "unat hi - unat lo = 0xffffffffffffffff" using h by simp
    moreover have "unat hi < 0x10000000000000000" using unsigned_less [of hi, where ?'a = nat] by simp
    ultimately have "unat lo = 0" by linarith
    then have "lo = 0" by (simp add: unat_eq_0)
    with \<open>hi - lo = - 1\<close> have "hi = - 1" by simp
    with \<open>lo = 0\<close> False True show ?thesis by (simp add: fuzz_range_def v)
  next
    case nz: False
    have s: "unat (hi - lo + 1) = unat hi - unat lo + 1" using nz h by (simp add: unatSuc add.commute)
    have m: "unat (v mod (hi - lo + 1)) \<le> unat hi - unat lo"
      unfolding unat_mod_distrib s by (simp add: less_Suc_eq_le [symmetric] del: less_Suc_eq_le)
    have le: "unat lo \<le> unat hi" using assms by (simp add: word_le_nat_alt)
    have "unat hi < 2 ^ 64" using unsigned_less [of hi, where ?'a = nat] by simp
    then have u: "unat (lo + v mod (hi - lo + 1)) = unat lo + unat (v mod (hi - lo + 1))"
      using m le by (subst unat_add_lem [THEN iffD1]) simp_all
    have "lo \<le> lo + v mod (hi - lo + 1)" "lo + v mod (hi - lo + 1) \<le> hi"
      unfolding word_le_nat_alt u using m le by linarith+
    moreover have "\<not> (lo = 0 \<and> hi = NOT 0)" using nz by auto
    ultimately show ?thesis using False nz by (simp add: fuzz_range_def v)
  qed
qed

theorem fuzz_range_bounds_witness:
  "\<exists>v inp'. fuzz_range \<lparr>fz_state = 5, draw = 7, iter = 9\<rparr> 10 20 = Some (v, inp') \<and> 10 \<le> v \<and> v \<le> 20"
  using fuzz_range_bounds [of 10 20 "\<lparr>fz_state = 5, draw = 7, iter = 9\<rparr>"]
  by (auto simp: word_le_nat_alt split: option.splits)

section \<open>The driver\<close>

definition failing :: "(fuzz_input \<Rightarrow> bool \<times> nat) \<Rightarrow> u64 \<Rightarrow> nat \<Rightarrow> bool" where
  "failing fuzz_case base it \<longleftrightarrow>
     (let (rc, warnings) = fuzz_case \<lparr>fz_state = seed_for base (int it), draw = 0, iter = int it\<rparr> in rc \<or> warnings \<noteq> 0)"

lemma fuzz_iteration_failing:
  "fuzz_iteration fuzz_case base it (f, r) =
     (if failing fuzz_case base it then (f + 1, if length r < 5 then r @ [it] else r) else (f, r))"
  by (simp add: fuzz_iteration_def failing_def split_def Let_def)

lemma fuzz_loop:
  "fold (fuzz_iteration fuzz_case base) [0..<n] (0, []) =
     (length (filter (failing fuzz_case base) [0..<n]), take 5 (filter (failing fuzz_case base) [0..<n]))"
proof (induction n)
  case (Suc n)
  show ?case
  proof (cases "failing fuzz_case base n")
    case True
    with Suc show ?thesis by (auto simp: fuzz_iteration_failing min_def take_Cons')
  next
    case False
    with Suc show ?thesis by (simp add: fuzz_iteration_failing)
  qed
qed simp

text \<open>A fuzzing run exits with 1 exactly if some iteration violates the property or fires a warning, and it
  reports the first five such iterations, in order.\<close>

theorem fuzz_main_reports:
  "fuzz_main fuzz_case base iters =
     (take 5 (filter (failing fuzz_case base) [0..<iters]), if \<exists>it < iters. failing fuzz_case base it then 1 else 0)"
  by (auto simp: fuzz_main_def fuzz_loop filter_empty_conv)

end
