(* ===== verification/Reciprocal_Div.thy ===== *)
theory Reciprocal_Div
  imports Khost Fuzz
begin

text \<open>
  Division by an invariant divisor as a multiplication and two shifts: \<^verbatim>\<open>reciprocal_value\<close> and
  \<^verbatim>\<open>reciprocal_divide\<close> of \<^verbatim>\<open>userspace/harnesses/reciprocal_div.c\<close>, with \<^verbatim>\<open>fls\<close>, \<^verbatim>\<open>do_div\<close>, \<^verbatim>\<open>min\<close> and \<^verbatim>\<open>max\<close> of
  \<^verbatim>\<open>userspace/khost.h\<close>.  The file fuzzes the claim that the result is the quotient; it is proved here for all
  dividends and all divisors from 1 on.
\<close>

section \<open>The code\<close>

record reciprocal =
  rm :: u32
  sh1 :: u8
  sh2 :: u8

definition reciprocal_divide :: "u32 \<Rightarrow> reciprocal \<Rightarrow> u32" where
  "reciprocal_divide a R =
     (let t = (ucast (drop_bit 32 ((ucast a :: u64) * ucast (rm R))) :: u32)
      in drop_bit (unat (sh2 R)) (t + drop_bit (unat (sh1 R)) (a - t)))"

definition reciprocal_value :: "u32 \<Rightarrow> reciprocal" where
  "reciprocal_value d =
     (let l = khost_fls (d - 1);
          m = (push_bit 32 1 :: u64) * (push_bit l 1 - ucast d);
          m = fst (do_div m d);
          m = m + 1
      in \<lparr>rm = ucast m, sh1 = of_nat (min l 1), sh2 = word_of_int (max (int l - 1) 0)\<rparr>)"

definition rd_fuzz_case :: "fuzz_input \<Rightarrow> cint" where
  "rd_fuzz_case inp =
     (let (va, inp) = fuzz_u64 inp; a = (ucast va :: u32);
          (vd, inp) = fuzz_u64 inp; d = (ucast vd :: u32);
          d = (if d = 0 then 1 else d);
          R = reciprocal_value d; fast = reciprocal_divide a R; real = a div d
      in if fast \<noteq> real then 1 else 0)"

section \<open>The multiplier\<close>

text \<open>\<open>l\<close> is the number of bits of \<open>d - 1\<close>, so that \<open>2 ^ l\<close> is the least power of two not below \<open>d\<close>.\<close>

lemma fls_ceiling:
  assumes "d \<noteq> 0"
  shows "unat d \<le> 2 ^ khost_fls (d - 1)" "khost_fls (d - 1) \<noteq> 0 \<Longrightarrow> 2 ^ khost_fls (d - 1) + 2 \<le> 2 * unat d"
    "khost_fls (d - 1) \<le> 32" "khost_fls (d - 1) = 0 \<longleftrightarrow> d = 1"
proof -
  have u: "unat (d - 1) + 1 = unat d" 
    using unat_minus_one [OF assms] assms by (simp add: unat_gt_0)
  let ?l = "khost_fls (d - 1)"
  consider "d = 1" | (pos) "d - 1 \<noteq> 0" by (cases "d = 1") auto
  then have "unat d \<le> 2 ^ ?l \<and> (?l \<noteq> 0 \<longrightarrow> 2 ^ ?l + 2 \<le> 2 * unat d) \<and> ?l \<le> 32 \<and> (?l = 0 \<longleftrightarrow> d = 1)"
  proof cases
    case 1
    then show ?thesis by (simp add: khost_fls_def)
  next
    case pos
    note b = khost_fls_bounds [OF pos]
    have "2 ^ ?l = 2 * (2 ^ (?l - 1) :: nat)" using b(1) by (cases ?l) simp_all
    with b u pos show ?thesis by auto
  qed
  then show "unat d \<le> 2 ^ ?l" "?l \<noteq> 0 \<Longrightarrow> 2 ^ ?l + 2 \<le> 2 * unat d" "?l \<le> 32" "?l = 0 \<longleftrightarrow> d = 1" by (blast, blast, blast, fast)
qed

text \<open>The multiplier as a number: the quotient of \<open>2 ^ (32 + l)\<close> by \<open>d\<close>, rounded up and less \<open>2 ^ 32\<close>.\<close>

lemma multiplier:
  fixes d l :: nat
  assumes "0 < d" and "d \<le> 2 ^ l" and "2 ^ l < 2 * d \<or> d = 1 \<and> l = 0"
  shows "2 ^ 32 + (2 ^ 32 * (2 ^ l - d) div d + 1) = 2 ^ (32 + l) div d + 1"
proof -
  have "2 ^ (32 + l) = 2 ^ 32 * (2 ^ l - d) + 2 ^ 32 * d"
    using assms(2) by (simp add: power_add diff_mult_distrib2)
  then have "2 ^ (32 + l) div d = 2 ^ 32 * (2 ^ l - d) div d + 2 ^ 32" using assms(1) by simp
  then show ?thesis by simp
qed

lemma quotient:
  fixes a d l :: nat
  assumes "0 < d" and "d \<le> 2 ^ l" and "a < 2 ^ 32"
  shows "a * (2 ^ (32 + l) div d + 1) div 2 ^ (32 + l) = a div d"
proof -
  let ?P = "2 ^ (32 + l) :: nat" and ?M = "2 ^ (32 + l) div d + 1"
  have P: "?P = d * (?P div d) + ?P mod d" by simp
  have r: "?P mod d < d" using assms(1) by simp
  define e where "e = d - ?P mod d"
  have "d * (?P div d) + d = ?P + e" unfolding e_def using P r by linarith
  then have e: "?M * d = ?P + e" by (simp add: distrib_right mult.commute)
  have e_le: "e \<le> d" by (simp add: e_def)
  have ae: "a * e < ?P"
  proof -
    have "a * e \<le> a * 2 ^ l" using e_le assms(2) by (intro mult_le_mono) simp_all
    also have "\<dots> < 2 ^ 32 * 2 ^ l" using assms(3) by simp
    finally show ?thesis by (simp add: power_add)
  qed
  have ad: "a = d * (a div d) + a mod d" by simp
  have "a * ?M * d = a * (?P + e)" by (simp only: e mult.assoc)
  also have "\<dots> = a * ?P + a * e" by (rule distrib_left)
  also have "a * ?P = d * (a div d) * ?P + (a mod d) * ?P" by (metis ad distrib_right)
  finally have eq: "a * ?M * d = (a div d) * ?P * d + ((a mod d) * ?P + a * e)" by (simp add: algebra_simps)
  have up: "(a mod d) * ?P + a * e < d * ?P"
  proof -
    have "Suc (a mod d) * ?P \<le> d * ?P" using assms(1) by (intro mult_le_mono1) (simp add: Suc_leI)
    with ae show ?thesis by simp
  qed
  have "(a div d) * ?P * d \<le> a * ?M * d" unfolding eq by (rule le_add1)
  then have lo: "(a div d) * ?P \<le> a * ?M" using assms(1) mult_le_cancel2 by blast
  have "a * ?M * d < (a div d) * ?P * d + d * ?P" unfolding eq using up by (rule add_strict_left_mono)
  then have "a * ?M * d < (a div d * ?P + ?P) * d" by (simp add: algebra_simps)
  then have hi: "a * ?M < a div d * ?P + ?P" using mult_less_cancel2 by blast
  show ?thesis using lo hi by (intro div_nat_eqI) (simp_all add: algebra_simps)
qed

text \<open>The two shifts divide the sum of \<open>a\<close> and \<open>t\<close> by \<open>2 ^ l\<close> without a carry out of 32 bits.\<close>

lemma two_shifts:
  fixes a t l :: nat
  assumes "t \<le> a" and "0 < l"
  shows "(t + (a - t) div 2) div 2 ^ (l - 1) = (a + t) div 2 ^ l"
proof -
  have "t + (a - t) div 2 = (a + t) div 2" using assms(1) by linarith
  moreover have "2 ^ l = 2 * (2 ^ (l - 1) :: nat)" using assms(2) by (cases l) simp_all
  ultimately show ?thesis by (simp add: div_mult2_eq)
qed

section \<open>The words\<close>

lemma reciprocal_value_eq:
  assumes "d \<noteq> 0" and l: "l = khost_fls (d - 1)"
  shows "unat (rm (reciprocal_value d)) = 2 ^ 32 * (2 ^ l - unat d) div unat d + 1"
    "unat (sh1 (reciprocal_value d)) = min l 1" "unat (sh2 (reciprocal_value d)) = l - 1"
proof -
  let ?d = "unat d"
  note c = fls_ceiling [OF assms(1), folded l]
  have d0: "0 < ?d" using assms(1) by (simp add: unat_gt_0)
  have d32: "?d < 2 ^ 32" using unsigned_less [of d] by simp
  have "(2 :: nat) ^ l < 2 ^ 64" using c(3) by (intro power_strict_increasing) simp_all
  then have p: "unat (push_bit l 1 :: u64) = 2 ^ l" unfolding unat_push_bit_eq by simp
  have small: "2 ^ l - ?d < ?d" using c d0 by (cases "l = 0") auto
  have diff: "unat (push_bit l 1 - ucast d :: u64) = 2 ^ l - ?d"
    using c(1) p d32 by (subst unat_sub) (simp_all add: word_le_nat_alt unsigned_ucast_eq take_bit_nat_eq_self)
  have prod: "unat ((push_bit 32 1 :: u64) * (push_bit l 1 - ucast d)) = 2 ^ 32 * (2 ^ l - ?d)"
  proof -
    have "unat ((push_bit 32 1 :: u64) * w) = 2 ^ 32 * unat w" if "unat w < 2 ^ 32" for w
      using that by (simp add: unat_word_ariths)
    from this [of "push_bit l 1 - ucast d"] show ?thesis unfolding diff using small d32 by simp
  qed
  have q: "2 ^ 32 * (2 ^ l - ?d) div ?d < 2 ^ 32 - 1"
  proof (cases "l = 0")
    case True
    then have "?d = 1" using c(1) d0 by simp
    with True show ?thesis by simp
  next
    case False
    then have "2 ^ l - ?d + 2 \<le> ?d" using c(1, 2) by simp
    then have "2 ^ 32 * (2 ^ l - ?d) + 2 ^ 33 \<le> 2 ^ 32 * ?d" by simp
    also have "\<dots> = (2 ^ 32 - 1) * ?d + ?d" by (simp add: algebra_simps)
    finally have "2 ^ 32 * (2 ^ l - ?d) < (2 ^ 32 - 1) * ?d" using d32 by simp
    then show ?thesis using d0 by (simp add: div_less_iff_less_mult)
  qed
  define w where "w = (push_bit 32 1 :: u64) * (push_bit l 1 - ucast d)"
  have w: "unat w = 2 ^ 32 * (2 ^ l - ?d)" unfolding w_def by (rule prod)
  have m: "unat (w div ucast d + 1) = 2 ^ 32 * (2 ^ l - ?d) div ?d + 1"
    using q d32 by (simp add: unat_word_ariths w unat_div_distrib unsigned_ucast_eq take_bit_nat_eq_self)
  have "rm (reciprocal_value d) = ucast (w div ucast d + 1)"
    unfolding reciprocal_value_def Let_def do_div_def w_def l by simp
  then show "unat (rm (reciprocal_value d)) = 2 ^ 32 * (2 ^ l - ?d) div ?d + 1"
    using q m by (simp add: unsigned_ucast_eq take_bit_nat_eq_self)
  show "unat (sh1 (reciprocal_value d)) = min l 1" "unat (sh2 (reciprocal_value d)) = l - 1"
    using c(3) by (simp_all add: reciprocal_value_def Let_def unsigned_of_nat take_bit_nat_eq_self max_def nat_diff_distrib unsigned_of_int
        take_bit_int_eq_self flip: l)
qed

lemma reciprocal_divide_exact:
  assumes "d \<noteq> 0"
  shows "reciprocal_divide a (reciprocal_value d) = a div d"
proof -
  define l where "l = khost_fls (d - 1)"
  let ?a = "unat a" and ?d = "unat d" and ?R = "reciprocal_value d"
  note v = reciprocal_value_eq [OF assms l_def] note c = fls_ceiling [OF assms, folded l_def]
  define m where "m = unat (rm ?R)"
  have d0: "0 < ?d" using assms by (simp add: unat_gt_0)
  have a32: "?a < 2 ^ 32" and m32: "m < 2 ^ 32" using unsigned_less [of a] unsigned_less [of "rm ?R"] by (simp_all add: m_def)
  define t where "t = (ucast (drop_bit 32 ((ucast a :: u64) * ucast (rm ?R))) :: u32)"
  have tt: "?a * m div 2 ^ 32 \<le> ?a"
    using m32 by (metis div_le_mono less_imp_le_nat mult_le_mono2 nonzero_mult_div_cancel_right power_not_zero zero_neq_numeral)
  have "?a * m < 2 ^ 32 * 2 ^ 32" using a32 m32 by (rule mult_strict_mono') simp_all
  moreover have "unat (ucast x :: u64) = unat x" for x :: u32
    using unsigned_less [of x, where ?'a = nat] by (simp add: unsigned_ucast_eq take_bit_nat_eq_self)
  ultimately have "unat ((ucast a :: u64) * ucast (rm ?R)) = ?a * m" by (simp add: unat_word_ariths m_def)
  then have ut: "unat t = ?a * m div 2 ^ 32"
    using tt a32 by (simp add: t_def unsigned_ucast_eq drop_bit_eq_div unat_div_distrib take_bit_nat_eq_self)
  have ta: "unat t \<le> ?a" using tt ut by simp
  have res: "unat (reciprocal_divide a ?R) = (unat t + (?a - unat t) div 2 ^ min l 1) div 2 ^ (l - 1)"
  proof -
    have db: "unat (drop_bit k x) = unat x div 2 ^ k" for k and x :: u32
    proof -
      have "unat (drop_bit k x) = drop_bit k (unat x)"
        by (rule bit_eqI) (auto simp: bit_unsigned_iff bit_drop_bit_eq dest: bit_imp_le_length)
      then show ?thesis by (simp only: drop_bit_nat_def)
    qed
    have s: "unat (a - t) = ?a - unat t" using ta by (simp add: unat_sub word_le_nat_alt)
    have "unat t + (?a - unat t) div 2 ^ min l 1 \<le> ?a"
      using ta div_le_dividend [of "?a - unat t" "2 ^ min l 1"] by linarith
    then have "unat (t + drop_bit (min l 1) (a - t)) = unat t + (?a - unat t) div 2 ^ min l 1"
      using a32 by (simp add: unat_word_ariths db s)
    then show ?thesis
      by (simp add: reciprocal_divide_def Let_def v(2, 3) db flip: t_def)
  qed
  have "unat (reciprocal_divide a ?R) = ?a div ?d"
  proof (cases "l = 0")
    case True
    then have "d = 1" using c(4) by simp
    then have "m = 1" using v(1) True by (simp add: m_def)
    then have "unat t = 0" using ut a32 by simp
    with res True \<open>d = 1\<close> show ?thesis by simp
  next
    case False
    then have "2 ^ l < 2 * ?d" using c(2) by simp
    have M: "2 ^ 32 + m = 2 ^ (32 + l) div ?d + 1"
      using multiplier [OF d0 c(1)] \<open>2 ^ l < 2 * ?d\<close> v(1) by (simp add: m_def)
    have "unat (reciprocal_divide a ?R) = (?a + unat t) div 2 ^ l"
    proof -
      have "min l 1 = 1" using False by simp
      then show ?thesis using res two_shifts [OF ta, of l] False by simp
    qed
    also have "?a + unat t = ?a * (2 ^ 32 + m) div 2 ^ 32"
      by (simp add: ut distrib_left)
    also have "\<dots> div 2 ^ l = ?a * (2 ^ 32 + m) div 2 ^ (32 + l)" by (simp only: div_mult2_eq power_add)
    also have "\<dots> = ?a div ?d" unfolding M by (rule quotient [OF d0 c(1) a32])
    finally show ?thesis .
  qed
  then show ?thesis by (simp add: word_unat_eq_iff unat_div_distrib)
qed

text \<open>C33: the fast division by an invariant divisor is exact: for every 32-bit dividend and every divisor other
  than 0, multiplying by the reciprocal and shifting gives the quotient.\<close>

theorem reciprocal_divide_correct:
  assumes "d \<noteq> 0"
  shows "reciprocal_divide a (reciprocal_value d) = a div d"
  using assms by (rule reciprocal_divide_exact)

theorem reciprocal_divide_correct_witness: "reciprocal_divide 4000000000 (reciprocal_value 7) = 571428571"
  using reciprocal_divide_correct [of 7 4000000000] by simp

text \<open>No run of the fuzzing driver on this harness, with any seed and any number of iterations, reports a failure:
  the property it samples holds for all inputs.\<close>

theorem rd_fuzz_never_fails: "fuzz_main (\<lambda>inp. (rd_fuzz_case inp \<noteq> 0, 0)) base iters = ([], 0)"
proof -
  have "rd_fuzz_case inp = 0" for inp
    by (simp add: rd_fuzz_case_def reciprocal_divide_exact split_def Let_def)
  then have "\<not> failing (\<lambda>inp. (rd_fuzz_case inp \<noteq> 0, 0)) base it" for it by (simp add: failing_def)
  then show ?thesis by (simp add: fuzz_main_def fuzz_loop)
qed

end
