(* ===== verification/Min_Heap.thy ===== *)
theory Min_Heap
  imports Harness_Core "HOL-Library.Multiset"
begin

text \<open>
  The integer heap of \<^verbatim>\<open>targets/min_heap\<close>: the callbacks of \<^verbatim>\<open>pre_include.h\<close>, the heap operations of
  \<^verbatim>\<open>preamble.h\<close> that call them directly, and the program of \<^verbatim>\<open>harness.c\<close>.  An \<^verbatim>\<open>int\<close> is only moved and
  compared here, so it is an integer; indices are at most the capacity.  The sifting loops have the bound of the source, four
  iterations.  \<^verbatim>\<open>struct min_heap_char\<close>, \<^verbatim>\<open>__min_heap_init\<close> and \<^verbatim>\<open>__min_heap_peek\<close> come from the kernel's
  \<^verbatim>\<open>min_heap.h\<close>: the record has the fields the operations use, with the slots \<^verbatim>\<open>data\<close> points to as a list,
  and the two functions are parameters of the program.  The interface is the locale \<open>priority_queue\<close>.
\<close>

section \<open>Model\<close>

record min_heap =
  hp_nr :: nat
  hp_size :: nat
  hp_data :: "cint list"

definition bpf_int_less :: "cint list \<Rightarrow> nat \<Rightarrow> nat \<Rightarrow> bool" where
  "bpf_int_less data a b \<longleftrightarrow> data ! a < data ! b"

definition bpf_int_swap :: "cint list \<Rightarrow> nat \<Rightarrow> nat \<Rightarrow> cint list" where
  "bpf_int_swap data a b = (let t = data ! a; data = data[a := data ! b] in data[b := t])"

primrec sift_up_loop :: "nat \<Rightarrow> cint list \<Rightarrow> nat \<Rightarrow> cint list" where
  "sift_up_loop 0 data idx = data"
| "sift_up_loop (Suc k) data idx =
     (if idx > 0
      then let par = (idx - 1) div 2
           in if \<not> bpf_int_less data idx par then data
              else sift_up_loop k (bpf_int_swap data idx par) par
      else data)"

definition bpf_heap_sift_up :: "cint list \<Rightarrow> nat \<Rightarrow> cint list" where
  "bpf_heap_sift_up data idx = sift_up_loop 4 data idx"

definition smallest_child :: "cint list \<Rightarrow> nat \<Rightarrow> nat \<Rightarrow> nat" where
  "smallest_child data n pos =
     (let left = 2 * pos + 1; right = 2 * pos + 2; smallest = pos;
          smallest = (if left < n \<and> bpf_int_less data left smallest then left else smallest);
          smallest = (if right < n \<and> bpf_int_less data right smallest then right else smallest)
      in smallest)"

primrec sift_down_loop :: "nat \<Rightarrow> cint list \<Rightarrow> nat \<Rightarrow> nat \<Rightarrow> cint list" where
  "sift_down_loop 0 data n pos = data"
| "sift_down_loop (Suc k) data n pos =
     (let smallest = smallest_child data n pos
      in if smallest = pos then data
         else sift_down_loop k (bpf_int_swap data pos smallest) n smallest)"

definition bpf_heap_sift_down :: "cint list \<Rightarrow> nat \<Rightarrow> nat \<Rightarrow> cint list" where
  "bpf_heap_sift_down data n pos = sift_down_loop 4 data n pos"

definition bpf_heap_push :: "min_heap \<Rightarrow> cint \<Rightarrow> bool \<times> min_heap" where
  "bpf_heap_push heap val =
     (if hp_nr heap \<ge> hp_size heap then (False, heap)
      else let data = (hp_data heap)[hp_nr heap := val];
               data = bpf_heap_sift_up data (hp_nr heap)
           in (True, heap\<lparr>hp_data := data, hp_nr := hp_nr heap + 1\<rparr>))"

definition bpf_heap_pop :: "min_heap \<Rightarrow> bool \<times> min_heap" where
  "bpf_heap_pop heap =
     (if hp_nr heap = 0 then (False, heap)
      else let nr = hp_nr heap - 1;
               data = (hp_data heap)[0 := hp_data heap ! nr];
               data = (if nr > 0 then bpf_heap_sift_down data nr 0 else data)
           in (True, heap\<lparr>hp_nr := nr, hp_data := data\<rparr>))"

section \<open>Order along the edges\<close>

text \<open>\<open>parent i\<close> is the index above \<open>i\<close>.  The loops keep the order on every edge but those at one index, and across
  that index.\<close>

abbreviation parent :: "nat \<Rightarrow> nat" where "parent i \<equiv> (i - 1) div 2"

definition heap_order :: "nat \<Rightarrow> cint list \<Rightarrow> bool" where
  "heap_order n d \<longleftrightarrow> (\<forall>i < n. i > 0 \<longrightarrow> d ! parent i \<le> d ! i)"

definition order_below :: "nat \<Rightarrow> nat \<Rightarrow> cint list \<Rightarrow> bool" where
  "order_below n p d \<longleftrightarrow> (\<forall>i < n. i > 0 \<longrightarrow>
     (i \<noteq> p \<longrightarrow> d ! parent i \<le> d ! i) \<and> (parent i = p \<longrightarrow> p > 0 \<longrightarrow> d ! parent p \<le> d ! i))"

definition order_above :: "nat \<Rightarrow> nat \<Rightarrow> cint list \<Rightarrow> bool" where
  "order_above n p d \<longleftrightarrow> (\<forall>i < n. i > 0 \<longrightarrow>
     (parent i \<noteq> p \<longrightarrow> d ! parent i \<le> d ! i) \<and> (parent i = p \<longrightarrow> p > 0 \<longrightarrow> d ! parent p \<le> d ! i))"

lemma length_swap [simp]: "length (bpf_int_swap d a b) = length d"
  by (simp add: bpf_int_swap_def Let_def)

lemma nth_swap:
  assumes "a < length d" and "b < length d"
  shows "bpf_int_swap d a b ! i = (if i = b then d ! a else if i = a then d ! b else d ! i)"
  using assms by (auto simp: bpf_int_swap_def nth_list_update)

lemma mset_take_swap:
  assumes "a < n" and "b < n" and "n \<le> length d"
  shows "mset (take n (bpf_int_swap d a b)) = mset (take n d)"
proof -
  have "take n (bpf_int_swap d a b) = (take n d)[a := take n d ! b, b := take n d ! a]"
    using assms by (simp add: bpf_int_swap_def Let_def take_update_swap)
  also have "mset \<dots> = mset (take n d)" using assms by (intro mset_swap) simp_all
  finally show ?thesis .
qed

lemma drop_swap:
  assumes "a < n" and "b < n"
  shows "drop n (bpf_int_swap d a b) = drop n d"
  using assms by (simp add: bpf_int_swap_def Let_def)

lemma parent_less: "i > 0 \<Longrightarrow> parent i < i"
  by linarith

lemma parent_eq_iff: "i > 0 \<Longrightarrow> parent i = p \<longleftrightarrow> i = 2 * p + 1 \<or> i = 2 * p + 2"
  by linarith

lemma heap_root_least:
  assumes "heap_order n d"
  shows "i < n \<Longrightarrow> d ! 0 \<le> d ! i"
proof (induction i rule: less_induct)
  case (less i)
  show ?case
  proof (cases "i = 0")
    case False
    then have "d ! 0 \<le> d ! parent i" using less parent_less [of i] by simp
    also have "\<dots> \<le> d ! i" using assms less.prems False by (simp add: heap_order_def)
    finally show ?thesis .
  qed simp
qed

section \<open>The sifting loops\<close>

lemma order_below_done:
  assumes "order_below n idx d" and "idx > 0 \<longrightarrow> d ! parent idx \<le> d ! idx"
  shows "heap_order n d"
  using assms unfolding heap_order_def order_below_def by blast

lemma order_below_swap:
  assumes o: "order_below n idx d" and i: "idx > 0" "idx < n" "n \<le> length d" and l: "d ! idx < d ! parent idx"
  shows "order_below n (parent idx) (bpf_int_swap d idx (parent idx))"
  unfolding order_below_def
proof (intro allI impI)
  fix j assume j: "j < n" "j > 0"
  let ?p = "parent idx" and ?d = "bpf_int_swap d idx (parent idx)"
  have p: "?p < idx" "?p < length d" "idx < length d" using i parent_less [of idx] by simp_all
  note sw = nth_swap [OF p(3, 2)]
  from o have a: "\<And>i. i < n \<Longrightarrow> i > 0 \<Longrightarrow> i \<noteq> idx \<Longrightarrow> d ! parent i \<le> d ! i"
    and b: "\<And>i. i < n \<Longrightarrow> i > 0 \<Longrightarrow> parent i = idx \<Longrightarrow> d ! ?p \<le> d ! i"
    using i by (auto simp: order_below_def)
  have up: "d ! parent ?p \<le> d ! ?p" if "?p > 0" using a [of ?p] that p i by simp
  have up': "d ! ?p \<le> d ! j" if "parent j = ?p" "j \<noteq> idx" using a [of j] that j by simp
  show "(j \<noteq> ?p \<longrightarrow> ?d ! parent j \<le> ?d ! j) \<and> (parent j = ?p \<longrightarrow> ?p > 0 \<longrightarrow> ?d ! parent ?p \<le> ?d ! j)"
  proof (intro conjI impI)
    assume ne: "j \<noteq> ?p"
    have pj: "parent j \<noteq> j" using parent_less [OF j(2)] by simp
    show "?d ! parent j \<le> ?d ! j"
      using ne pj p l a [OF j] b [OF j] up' unfolding sw by (cases "j = idx") auto
  next
    assume pj: "parent j = ?p" and pp: "?p > 0"
    have "parent ?p < ?p" using parent_less [OF pp] .
    moreover have "j \<noteq> ?p" using pj parent_less [OF j(2)] by simp
    ultimately show "?d ! parent ?p \<le> ?d ! j"
      using up [OF pp] up' [OF pj] p unfolding sw by (cases "j = idx") auto
  qed
qed

lemma sift_up_loop_correct:
  assumes "order_below n idx d" and "idx < n" and "n \<le> length d" and "idx < 2 ^ (k + 1) - 1"
  shows "heap_order n (sift_up_loop k d idx) \<and> mset (take n (sift_up_loop k d idx)) = mset (take n d) \<and>
    length (sift_up_loop k d idx) = length d"
  using assms
proof (induction k arbitrary: d idx)
  case 0
  then show ?case using order_below_done by auto
next
  case (Suc k)
  show ?case
  proof (cases "idx > 0 \<and> bpf_int_less d idx (parent idx)")
    case False
    then show ?thesis using Suc.prems order_below_done [OF Suc.prems(1)] by (auto simp: bpf_int_less_def Let_def)
  next
    case True
    let ?p = "parent idx"
    have p: "?p < n" using True Suc.prems(2) parent_less [of idx] by simp
    have "?p < 2 ^ (k + 1) - 1" using Suc.prems(4) True by simp linarith
    then show ?thesis
      using True p Suc.prems(2, 3) Suc.IH [OF order_below_swap [OF Suc.prems(1)]]
      by (simp add: bpf_int_less_def Let_def mset_take_swap)
  qed
qed

lemma smallest_child_cases:
  obtains "smallest_child d n pos = pos"
      "\<And>i. i < n \<Longrightarrow> i > 0 \<Longrightarrow> parent i = pos \<Longrightarrow> d ! pos \<le> d ! i"
  | c where "smallest_child d n pos = c" "c < n" "c = 2 * pos + 1 \<or> c = 2 * pos + 2" "d ! c < d ! pos"
      "\<And>i. i < n \<Longrightarrow> i > 0 \<Longrightarrow> parent i = pos \<Longrightarrow> d ! c \<le> d ! i"
proof (cases "smallest_child d n pos = pos")
  case True
  then have "(2 * pos + 1 < n \<longrightarrow> d ! pos \<le> d ! (2 * pos + 1)) \<and> (2 * pos + 2 < n \<longrightarrow> d ! pos \<le> d ! (2 * pos + 2))"
    by (auto simp: smallest_child_def bpf_int_less_def Let_def not_less split: if_splits)
  then show ?thesis using that(1) [OF True] parent_eq_iff by metis
next
  case False
  let ?c = "smallest_child d n pos"
  from False have c: "?c < n" "?c = 2 * pos + 1 \<or> ?c = 2 * pos + 2" "d ! ?c < d ! pos"
    "(2 * pos + 1 < n \<longrightarrow> d ! ?c \<le> d ! (2 * pos + 1)) \<and> (2 * pos + 2 < n \<longrightarrow> d ! ?c \<le> d ! (2 * pos + 2))"
    by (auto simp: smallest_child_def bpf_int_less_def Let_def not_less split: if_splits)
  show ?thesis using that(2) [OF refl c(1, 2, 3)] c(4) parent_eq_iff by metis
qed

lemma order_above_done:
  assumes "order_above n pos d" and "\<And>i. i < n \<Longrightarrow> i > 0 \<Longrightarrow> parent i = pos \<Longrightarrow> d ! pos \<le> d ! i"
  shows "heap_order n d"
  using assms unfolding heap_order_def order_above_def by metis

lemma order_above_swap:
  assumes o: "order_above n pos d" and n: "n \<le> length d" and c: "c < n" "c > 0" "parent c = pos" and l: "d ! c < d ! pos"
    and least: "\<And>i. i < n \<Longrightarrow> i > 0 \<Longrightarrow> parent i = pos \<Longrightarrow> d ! c \<le> d ! i"
  shows "order_above n c (bpf_int_swap d pos c)"
  unfolding order_above_def
proof (intro allI impI)
  fix j assume j: "j < n" "j > 0"
  let ?d = "bpf_int_swap d pos c"
  have p: "pos < c" "pos < length d" "c < length d" using c n parent_less [of c] by simp_all
  note sw = nth_swap [OF p(2, 3)]
  from o have a: "\<And>i. i < n \<Longrightarrow> i > 0 \<Longrightarrow> parent i \<noteq> pos \<Longrightarrow> d ! parent i \<le> d ! i"
    and b: "\<And>i. i < n \<Longrightarrow> i > 0 \<Longrightarrow> parent i = pos \<Longrightarrow> pos > 0 \<Longrightarrow> d ! parent pos \<le> d ! i"
    by (auto simp: order_above_def)
  have pj: "parent j < j" using parent_less [OF j(2)] .
  show "(parent j \<noteq> c \<longrightarrow> ?d ! parent j \<le> ?d ! j) \<and> (parent j = c \<longrightarrow> c > 0 \<longrightarrow> ?d ! parent c \<le> ?d ! j)"
  proof (intro conjI impI)
    assume ne: "parent j \<noteq> c"
    consider "parent j = pos" "j = c" | "parent j = pos" "j \<noteq> c" | "parent j \<noteq> pos" "j = pos" | "parent j \<noteq> pos" "j \<noteq> pos"
      by blast
    then show "?d ! parent j \<le> ?d ! j"
    proof cases
      case 3
      then show ?thesis using b [OF c(1, 2, 3)] j p pj unfolding sw by auto
    next
      case 4
      then have "j \<noteq> c" using c(3) by auto
      then show ?thesis using 4 ne a [OF j] unfolding sw by auto
    qed (use l least [OF j] pj p ne in \<open>auto simp: sw\<close>)
  next
    assume "parent j = c"
    then show "?d ! parent c \<le> ?d ! j" using a [OF j] p pj c unfolding sw by auto
  qed
qed

lemma sift_down_loop_correct:
  assumes "order_above n pos d" and "pos < n" and "n \<le> length d" and "n < (pos + 1) * 2 ^ (k + 1)"
  shows "heap_order n (sift_down_loop k d n pos) \<and> mset (take n (sift_down_loop k d n pos)) = mset (take n d) \<and>
    length (sift_down_loop k d n pos) = length d"
  using assms
proof (induction k arbitrary: d pos)
  case 0
  then have "\<And>i. i < n \<Longrightarrow> i > 0 \<Longrightarrow> parent i \<noteq> pos" by (auto simp: parent_eq_iff)
  then show ?case using order_above_done [OF 0(1)] by auto
next
  case (Suc k)
  show ?case
  proof (cases rule: smallest_child_cases [of d n pos])
    case 1
    then show ?thesis using order_above_done [OF Suc.prems(1)] by simp
  next
    case (2 c)
    have c: "c > 0" "parent c = pos" "c \<noteq> pos" using 2(3) by auto
    have "(pos + 1) * 2 \<le> c + 1" using 2(3) by auto
    then have "(pos + 1) * 2 * 2 ^ (k + 1) \<le> (c + 1) * 2 ^ (k + 1)" by (rule mult_le_mono1)
    then have "n < (c + 1) * 2 ^ (k + 1)" using Suc.prems(4) by simp
    then show ?thesis
      using Suc.IH [OF order_above_swap [OF Suc.prems(1, 3) 2(2) c(1, 2) 2(4, 5)]] 2(1, 2) c(3) Suc.prems(2, 3)
      by (simp add: Let_def mset_take_swap)
  qed
qed

section \<open>Interface\<close>

datatype queue_op = Push cint | Pop

definition op_spec :: "nat \<Rightarrow> queue_op \<Rightarrow> cint multiset \<Rightarrow> cint multiset" where
  "op_spec c op M =
     (case op of
        Push v \<Rightarrow> if size M < c then add_mset v M else M
      | Pop \<Rightarrow> if M = {#} then {#} else M - {#Min_mset M#})"

definition op_run :: "('q \<Rightarrow> cint \<Rightarrow> bool \<times> 'q) \<Rightarrow> ('q \<Rightarrow> bool \<times> 'q) \<Rightarrow> queue_op \<Rightarrow> 'q \<Rightarrow> 'q" where
  "op_run push pop op q = (case op of Push v \<Rightarrow> snd (push q v) | Pop \<Rightarrow> snd (pop q))"

text \<open>The values read at the front while the queue is emptied.\<close>

primrec drain :: "('q \<Rightarrow> bool \<times> 'q) \<Rightarrow> ('q \<Rightarrow> cint) \<Rightarrow> nat \<Rightarrow> 'q \<Rightarrow> cint list" where
  "drain pop front 0 q = []"
| "drain pop front (Suc k) q = front q # drain pop front k (snd (pop q))"

lemma sorted_list_least:
  fixes M :: "cint multiset"
  assumes "M \<noteq> {#}"
  shows "sorted_list_of_multiset M = Min_mset M # sorted_list_of_multiset (M - {#Min_mset M#})"
proof -
  let ?xs = "Min_mset M # sorted_list_of_multiset (M - {#Min_mset M#})"
  have "Min_mset M \<in># M" using assms by simp
  then have "mset ?xs = mset (sorted_list_of_multiset M)" by simp
  moreover have "sorted ?xs" by (auto dest: in_diffD)
  ultimately have "sort (sorted_list_of_multiset M) = ?xs" by (rule properties_for_sort)
  then show ?thesis by (simp add: sorted_sort_id)
qed

locale priority_queue =
  fixes invar :: "'q \<Rightarrow> bool" and view :: "'q \<Rightarrow> cint multiset" and capacity :: "'q \<Rightarrow> nat"
    and push :: "'q \<Rightarrow> cint \<Rightarrow> bool \<times> 'q" and pop :: "'q \<Rightarrow> bool \<times> 'q" and front :: "'q \<Rightarrow> cint"
  assumes push_room: "invar q \<Longrightarrow> size (view q) < capacity q \<Longrightarrow>
      \<exists>q'. push q v = (True, q') \<and> invar q' \<and> view q' = add_mset v (view q) \<and> capacity q' = capacity q"
    and push_full: "invar q \<Longrightarrow> \<not> size (view q) < capacity q \<Longrightarrow> push q v = (False, q)"
    and pop_some: "invar q \<Longrightarrow> view q \<noteq> {#} \<Longrightarrow>
      \<exists>q'. pop q = (True, q') \<and> invar q' \<and> view q' = view q - {#front q#} \<and> capacity q' = capacity q"
    and pop_none: "invar q \<Longrightarrow> view q = {#} \<Longrightarrow> pop q = (False, q)"
    and front_least: "invar q \<Longrightarrow> view q \<noteq> {#} \<Longrightarrow> front q = Min_mset (view q)"
begin

lemma op_refines:
  assumes "invar q"
  shows "invar (op_run push pop op q) \<and> view (op_run push pop op q) = op_spec (capacity q) op (view q) \<and>
    capacity (op_run push pop op q) = capacity q"
proof (cases op)
  case (Push v)
  then show ?thesis
    using push_room [OF assms, of v] push_full [OF assms, of v] assms
    by (cases "size (view q) < capacity q") (auto simp: op_run_def op_spec_def)
next
  case Pop
  then show ?thesis
    using pop_some [OF assms] pop_none [OF assms] front_least [OF assms] assms
    by (cases "view q = {#}") (auto simp: op_run_def op_spec_def)
qed

lemma ops_refine:
  assumes "invar q"
  shows "invar (fold (op_run push pop) ops q) \<and>
    view (fold (op_run push pop) ops q) = fold (op_spec (capacity q)) ops (view q)"
  using assms
proof (induction ops arbitrary: q)
  case (Cons op ops)
  then show ?case using op_refines [OF Cons.prems, of op] by simp
qed simp

lemma drain_sorts:
  assumes "invar q" and "size (view q) = k"
  shows "drain pop front k q = sorted_list_of_multiset (view q)"
  using assms
proof (induction k arbitrary: q)
  case (Suc k)
  then have ne: "view q \<noteq> {#}" by auto
  obtain q' where q': "pop q = (True, q')" "invar q'" "view q' = view q - {#front q#}"
    using pop_some [OF Suc.prems(1) ne] by blast
  have f: "front q = Min_mset (view q)" using front_least [OF Suc.prems(1) ne] .
  then have "size (view q') = k" using q'(3) Suc.prems(2) ne by (simp add: size_Diff_singleton)
  then show ?case using Suc.IH [OF q'(2)] q'(1, 3) f sorted_list_least [OF ne] by simp
qed simp

end

section \<open>The heap as a priority queue\<close>

text \<open>Four iterations are enough for 31 elements.\<close>

definition heap_invar :: "min_heap \<Rightarrow> bool" where
  "heap_invar h \<longleftrightarrow> hp_nr h \<le> hp_size h \<and> hp_size h \<le> length (hp_data h) \<and> hp_size h \<le> 31 \<and>
     heap_order (hp_nr h) (hp_data h)"

definition heap_view :: "min_heap \<Rightarrow> cint multiset" where
  "heap_view h = mset (take (hp_nr h) (hp_data h))"

definition heap_front :: "min_heap \<Rightarrow> cint" where
  "heap_front h = hp_data h ! 0"

lemma size_heap_view [simp]: "heap_invar h \<Longrightarrow> size (heap_view h) = hp_nr h"
  by (simp add: heap_invar_def heap_view_def)

lemma heap_front_least:
  assumes "heap_invar h" and "heap_view h \<noteq> {#}"
  shows "heap_front h = Min_mset (heap_view h)"
proof (rule Min_eqI [symmetric])
  have n: "0 < hp_nr h" "hp_nr h \<le> length (hp_data h)"
    using assms by (auto simp: heap_view_def heap_invar_def)
  show "heap_front h \<in> set_mset (heap_view h)"
    using n by (auto simp: heap_view_def heap_front_def in_set_conv_nth intro: exI [of _ 0])
  show "heap_front h \<le> x" if "x \<in> set_mset (heap_view h)" for x
    using that assms(1) heap_root_least [of "hp_nr h" "hp_data h"]
    by (auto simp: heap_view_def heap_front_def heap_invar_def in_set_conv_nth)
qed simp

lemma heap_push_room:
  assumes h: "heap_invar h" and r: "hp_nr h < hp_size h"
  shows "\<exists>h'. bpf_heap_push h v = (True, h') \<and> heap_invar h' \<and> heap_view h' = add_mset v (heap_view h) \<and>
    hp_size h' = hp_size h"
proof -
  let ?n = "hp_nr h" and ?d = "(hp_data h)[hp_nr h := v]"
  have l: "?n + 1 \<le> length ?d" "?n < 31" using h r by (auto simp: heap_invar_def)
  have "order_below (?n + 1) ?n ?d"
    unfolding order_below_def
  proof (intro allI impI)
    fix i assume i: "i < ?n + 1" "0 < i"
    have "parent i < ?n" using i by linarith
    then show "(i \<noteq> ?n \<longrightarrow> ?d ! parent i \<le> ?d ! i) \<and> (parent i = ?n \<longrightarrow> 0 < ?n \<longrightarrow> ?d ! parent ?n \<le> ?d ! i)"
      using h i by (auto simp: heap_invar_def heap_order_def)
  qed
  from sift_up_loop_correct [OF this, of 4] l
  have s: "heap_order (?n + 1) (bpf_heap_sift_up ?d ?n)" "mset (take (?n + 1) (bpf_heap_sift_up ?d ?n)) = mset (take (?n + 1) ?d)"
    "length (bpf_heap_sift_up ?d ?n) = length (hp_data h)"
    by (simp_all add: bpf_heap_sift_up_def)
  have "mset (take (?n + 1) ?d) = add_mset v (heap_view h)"
    using l by (simp add: heap_view_def take_Suc_conv_app_nth)
  then show ?thesis using s h r by (auto simp: bpf_heap_push_def Let_def heap_invar_def heap_view_def)
qed

lemma mset_pop:
  assumes "n < length d"
  shows "mset (take n (d[0 := d ! n])) = mset (take (Suc n) d) - {#d ! 0#}"
proof (cases n)
  case (Suc m)
  then obtain x xs where d: "d = x # xs" using assms by (cases d) auto
  show ?thesis using assms Suc by (simp add: d take_Suc_conv_app_nth)
qed (use assms in \<open>cases d, auto\<close>)

lemma heap_pop_some:
  assumes h: "heap_invar h" and r: "hp_nr h > 0"
  shows "\<exists>h'. bpf_heap_pop h = (True, h') \<and> heap_invar h' \<and> heap_view h' = heap_view h - {#heap_front h#} \<and>
    hp_size h' = hp_size h"
proof -
  let ?m = "hp_nr h - 1" and ?d = "(hp_data h)[0 := hp_data h ! (hp_nr h - 1)]"
  have l: "?m < length (hp_data h)" "?m < 31" "Suc ?m = hp_nr h" using h r by (auto simp: heap_invar_def)
  have v: "mset (take ?m ?d) = heap_view h - {#heap_front h#}"
    using mset_pop [OF l(1)] l(3) by (simp add: heap_view_def heap_front_def)
  show ?thesis
  proof (cases "?m = 0")
    case True
    then show ?thesis using h r v by (auto simp: bpf_heap_pop_def Let_def heap_invar_def heap_view_def heap_order_def)
  next
    case False
    have "order_above ?m 0 ?d"
      unfolding order_above_def
    proof (intro allI impI)
      fix i assume i: "i < ?m" "0 < i"
      then show "(parent i \<noteq> 0 \<longrightarrow> ?d ! parent i \<le> ?d ! i) \<and> (parent i = 0 \<longrightarrow> 0 < (0 :: nat) \<longrightarrow> ?d ! parent 0 \<le> ?d ! i)"
        using h by (auto simp: heap_invar_def heap_order_def)
    qed
    from sift_down_loop_correct [OF this, of 4] l False
    have "heap_order ?m (bpf_heap_sift_down ?d ?m 0)" "mset (take ?m (bpf_heap_sift_down ?d ?m 0)) = mset (take ?m ?d)"
      "length (bpf_heap_sift_down ?d ?m 0) = length (hp_data h)"
      by (simp_all add: bpf_heap_sift_down_def)
    then show ?thesis using v h r False by (auto simp: bpf_heap_pop_def Let_def heap_invar_def heap_view_def)
  qed
qed

interpretation heap_queue: priority_queue heap_invar heap_view hp_size bpf_heap_push bpf_heap_pop heap_front
proof unfold_locales
  fix q :: min_heap and v
  assume i: "heap_invar q"
  show "size (heap_view q) < hp_size q \<Longrightarrow> \<exists>q'. bpf_heap_push q v = (True, q') \<and> heap_invar q' \<and>
      heap_view q' = add_mset v (heap_view q) \<and> hp_size q' = hp_size q"
    using heap_push_room [OF i] i by simp
  show "\<not> size (heap_view q) < hp_size q \<Longrightarrow> bpf_heap_push q v = (False, q)"
    using i by (simp add: bpf_heap_push_def)
next
  fix q :: min_heap
  assume i: "heap_invar q"
  have n: "heap_view q = {#} \<longleftrightarrow> hp_nr q = 0" using size_heap_view [OF i] by (metis size_eq_0_iff_empty)
  show "heap_view q \<noteq> {#} \<Longrightarrow> \<exists>q'. bpf_heap_pop q = (True, q') \<and> heap_invar q' \<and>
      heap_view q' = heap_view q - {#heap_front q#} \<and> hp_size q' = hp_size q"
    using heap_pop_some [OF i] n by simp
  show "heap_view q = {#} \<Longrightarrow> bpf_heap_pop q = (False, q)"
    using n by (simp add: bpf_heap_pop_def)
  show "heap_view q \<noteq> {#} \<Longrightarrow> heap_front q = Min_mset (heap_view q)"
    using heap_front_least [OF i] .
qed

section \<open>Properties\<close>

text \<open>C38: a heap of at most 31 slots is a bounded priority queue.  After any sequence of pushes and pops it holds the
  multiset the same operations make of its contents, where a push on a full heap and a pop on an empty one change
  nothing and a pop removes the least element; popping it empty then yields the elements in ascending order.\<close>

theorem min_heap_sorts:
  assumes "heap_invar h"
  shows "heap_view (fold (op_run bpf_heap_push bpf_heap_pop) ops h) = fold (op_spec (hp_size h)) ops (heap_view h) \<and>
    drain bpf_heap_pop heap_front (hp_nr (fold (op_run bpf_heap_push bpf_heap_pop) ops h))
      (fold (op_run bpf_heap_push bpf_heap_pop) ops h) =
      sorted_list_of_multiset (fold (op_spec (hp_size h)) ops (heap_view h))"
  using heap_queue.ops_refine [OF assms, of ops] heap_queue.drain_sorts by auto

theorem min_heap_sorts_witness:
  "heap_view (fold (op_run bpf_heap_push bpf_heap_pop) [Push 7, Push 3, Pop, Push 5]
     \<lparr>hp_nr = 0, hp_size = 8, hp_data = replicate 8 0\<rparr>) = {#5, 7#}"
proof -
  have "heap_invar \<lparr>hp_nr = 0, hp_size = 8, hp_data = replicate 8 0\<rparr>" by (simp add: heap_invar_def heap_order_def)
  from min_heap_sorts [OF this, of "[Push 7, Push 3, Pop, Push 5]"] show ?thesis
    by (simp add: op_spec_def heap_view_def)
qed

section \<open>The program\<close>

definition heap_value :: "u64 \<Rightarrow> cint" where
  "heap_value v = sint (ucast ((v AND 3) + 1) :: u32)"

text \<open>The parameters are \<^verbatim>\<open>__min_heap_init\<close> on the static storage and \<^verbatim>\<open>__min_heap_peek\<close>, which returns the
  index of an element or no pointer.\<close>

definition min_heap_harness ::
    "(min_heap \<Rightarrow> nat \<Rightarrow> min_heap) \<Rightarrow> (min_heap \<Rightarrow> nat option) \<Rightarrow> min_heap \<Rightarrow> u64 option \<Rightarrow> u64 option \<Rightarrow> u64 option \<Rightarrow> outcome" where
  "min_heap_harness init peek storage v0 v1 v2 =
     (case (v0, v1, v2) of
        (Some x0, Some x1, Some x2) \<Rightarrow>
          (let a = heap_value x0; b = heap_value x1; c = heap_value x2;
               heap = init storage 8;
               heap = snd (bpf_heap_push heap a);
               heap = snd (bpf_heap_push heap b);
               heap = snd (bpf_heap_push heap c);
               root = hp_data heap ! the (peek heap);
               popped = snd (bpf_heap_pop heap);
               new_root = hp_data popped ! the (peek popped)
           in run_checks ([Assert (peek heap \<noteq> None), Assert (root \<le> a), Assert (root \<le> b), Assert (root \<le> c),
                Assert (hp_nr popped = hp_nr heap - 1)] @
                (if hp_nr popped > 0 then [Assert (peek popped \<noteq> None), Assert (new_root \<ge> root)] else []))
                (of_int root))
      | _ \<Rightarrow> Returned 0)"

definition heap_hdr_ok :: "(min_heap \<Rightarrow> nat \<Rightarrow> min_heap) \<Rightarrow> (min_heap \<Rightarrow> nat option) \<Rightarrow> bool" where
  "heap_hdr_ok init peek \<longleftrightarrow>
     (\<forall>h n. init h n = h\<lparr>hp_nr := 0, hp_size := n\<rparr>) \<and> (\<forall>h. peek h = (if hp_nr h = 0 then None else Some 0))"

text \<open>The program of \<^verbatim>\<open>targets/min_heap\<close> passes all its checks for all three inputs and returns the least of
  the pushed values.\<close>

theorem min_heap_harness_passes:
  assumes "heap_hdr_ok init peek" and "length (hp_data storage) = 8"
  shows "min_heap_harness init peek storage (Some x) (Some y) (Some z) =
    Returned (of_int (min (heap_value x) (min (heap_value y) (heap_value z))))"
proof -
  define h0 where "h0 = init storage 8"
  define h where "h = fold (op_run bpf_heap_push bpf_heap_pop) [Push (heap_value x), Push (heap_value y), Push (heap_value z)] h0"
  define p where "p = op_run bpf_heap_push bpf_heap_pop Pop h"
  have i0: "heap_invar h0" "hp_size h0 = 8" "heap_view h0 = {#}"
    using assms by (auto simp: h0_def heap_hdr_ok_def heap_invar_def heap_order_def heap_view_def)
  have h: "heap_invar h" "heap_view h = {#heap_value z, heap_value y, heap_value x#}"
    using heap_queue.ops_refine [OF i0(1), of "[Push (heap_value x), Push (heap_value y), Push (heap_value z)]"] i0
    by (simp_all add: h_def op_spec_def)
  have p: "heap_invar p" "heap_view p = heap_view h - {#heap_front h#}"
    using heap_queue.op_refines [OF h(1), of Pop] heap_front_least [OF h(1)] h(2) by (simp_all add: p_def op_spec_def)
  have nr: "hp_nr h = 3" using size_heap_view [OF h(1)] h(2) by simp
  have f: "heap_front h = Min_mset (heap_view h)" using heap_front_least [OF h(1)] h(2) by simp
  moreover have "Min_mset (heap_view h) \<in># heap_view h" by (rule Min_in) (simp_all add: h(2))
  ultimately have "heap_front h \<in># heap_view h" by simp
  then have np: "hp_nr p = 2" using size_heap_view [OF p(1)] p(2) h(2) by (simp add: size_Diff_singleton)
  then have "heap_view p \<noteq> {#}" using size_heap_view [OF p(1)] by auto
  then have "heap_front p \<in># heap_view p" using heap_front_least [OF p(1)] by simp
  then have "heap_front p \<in># heap_view h" using p(2) by (metis in_diffD)
  then have fp: "heap_front h \<le> heap_front p" using f by simp
  have fm: "heap_front h = min (heap_value x) (min (heap_value y) (heap_value z))" using f h(2) by (simp add: min.commute min.left_commute)
  have "min_heap_harness init peek storage (Some x) (Some y) (Some z) =
      (let root = hp_data h ! the (peek h); new_root = hp_data p ! the (peek p)
       in run_checks ([Assert (peek h \<noteq> None), Assert (root \<le> heap_value x), Assert (root \<le> heap_value y), Assert (root \<le> heap_value z),
                Assert (hp_nr p = hp_nr h - 1)] @
                (if hp_nr p > 0 then [Assert (peek p \<noteq> None), Assert (new_root \<ge> root)] else []))
                (of_int root))"
    by (simp add: min_heap_harness_def Let_def h_def h0_def p_def op_run_def)
  then show ?thesis using assms(1) nr np fp fm by (simp add: heap_hdr_ok_def heap_front_def Let_def min.coboundedI2)
qed

theorem min_heap_harness_passes_witness:
  "min_heap_harness (\<lambda>h n. h\<lparr>hp_nr := 0, hp_size := n\<rparr>) (\<lambda>h. if hp_nr h = 0 then None else Some 0)
     \<lparr>hp_nr = 5, hp_size = 0, hp_data = replicate 8 9\<rparr> (Some 2) (Some 5) (Some 3) = Returned 2"
proof -
  have v: "heap_value 2 = 3" "heap_value 5 = 2" "heap_value 3 = 4" by code_simp+
  show ?thesis
    using min_heap_harness_passes [of "\<lambda>h n. h\<lparr>hp_nr := 0, hp_size := n\<rparr>" "\<lambda>h. if hp_nr h = 0 then None else Some 0"
        "\<lparr>hp_nr = 5, hp_size = 0, hp_data = replicate 8 9\<rparr>" 2 5 3]
    by (simp add: heap_hdr_ok_def v)
qed

end
