(* ===== verification/Target_Bits.thy ===== *)
theory Target_Bits
  imports Harness_Lib Arch_Bitops
begin

text \<open>
  Bit and word routines that single targets supply in place of the kernel's: the overflow test of
  \<^verbatim>\<open>targets/kstrtox/pre_include.h\<close>, which multiplies by 32-bit limbs; the bit loops of
  \<^verbatim>\<open>targets/bitmap_parselist/preamble.h\<close>; the weight of \<^verbatim>\<open>targets/find_bit/pre_include.h\<close>; the search loop of
  \<^verbatim>\<open>targets/crypto_utils/pre_include.h\<close>; the field macros of \<^verbatim>\<open>targets/driver_open_alliance_helpers/pre_include.h\<close>.
  They are compared with the routines of \<^verbatim>\<open>Bitmap\<close> and \<^verbatim>\<open>Arch_Bitops\<close> and with unbounded arithmetic.
\<close>

section \<open>The code\<close>

text \<open>The out-parameter is the second component.\<close>

definition check_mul_overflow_u64 :: "u64 \<Rightarrow> u64 \<Rightarrow> cint \<times> u64" where
  "check_mul_overflow_u64 a b =
     (let a_lo = a AND 0xffffffff; a_hi = drop_bit 32 a;
          b_lo = b AND 0xffffffff; b_hi = drop_bit 32 b;
          lo_lo = a_lo * b_lo;
          mid1 = a_lo * b_hi;
          mid2 = a_hi * b_lo;
          t = drop_bit 32 lo_lo + (mid1 AND 0xffffffff) + (mid2 AND 0xffffffff);
          hi = a_hi * b_hi + drop_bit 32 mid1 + drop_bit 32 mid2 + drop_bit 32 t
      in (if hi \<noteq> 0 then 1 else 0, a * b))"

function parselist_set :: "u64 list \<Rightarrow> u32 \<Rightarrow> cint \<Rightarrow> u64 list" where
  "parselist_set mp start len =
     (if len > 0
      then let k = unat start div 64
           in parselist_set (mp[k := mp ! k OR push_bit (unat start mod 64) 1]) (start + 1) (len - 1)
      else mp)"
  by pat_completeness auto
termination by (relation "measure (\<lambda>(mp, start, len). nat len)") auto

function parselist_clear :: "u64 list \<Rightarrow> u32 \<Rightarrow> cint \<Rightarrow> u64 list" where
  "parselist_clear mp start len =
     (if len > 0
      then let k = unat start div 64
           in parselist_clear (mp[k := mp ! k AND NOT (push_bit (unat start mod 64) 1)]) (start + 1) (len - 1)
      else mp)"
  by pat_completeness auto
termination by (relation "measure (\<lambda>(mp, start, len). nat len)") auto

function find_next_bit :: "u64 list \<Rightarrow> u64 \<Rightarrow> u64 \<Rightarrow> u64" where
  "find_next_bit addr nbits start =
     (if start < nbits
      then if c_true (addr ! (unat start div 64) AND push_bit (unat start mod 64) 1) then start
           else find_next_bit addr nbits (start + 1)
      else nbits)"
  by pat_completeness auto
termination
proof (relation "measure (\<lambda>(addr, nbits, start). unat nbits - unat start)", simp)
  fix addr :: "u64 list" and nbits start :: u64
  assume "start < nbits"
  then have "unat (start + 1) = unat start + 1" "unat start < unat nbits"
    by (auto simp: unat_Suc_less word_less_nat_alt)
  then show "((addr, nbits, start + 1), addr, nbits, start) \<in> measure (\<lambda>(addr, nbits, start). unat nbits - unat start)"
    by simp
qed

declare parselist_set.simps [simp del] parselist_clear.simps [simp del] find_next_bit.simps [simp del]

definition find_bit_weight :: "u64 list \<Rightarrow> nat \<Rightarrow> u32" where
  "find_bit_weight bitmap bits =
     (let lim = bits div 64;
          w = fold (\<lambda>idx w. w + popcountl (bitmap ! idx)) [0..<lim] 0
      in if bits mod 64 \<noteq> 0 then w + popcountl (bitmap ! lim AND drop_bit (64 - bits mod 64) (NOT 0)) else w)"

text \<open>The loop \<^verbatim>\<open>while (!(word & 1)) { word >>= 1; bit++; }\<close> may not end.\<close>

partial_function (option) utils_ffs_loop :: "u64 \<Rightarrow> u64 \<Rightarrow> u64 option" where
  "utils_ffs_loop word b =
     (if word AND 1 = 0 then utils_ffs_loop (drop_bit 1 word) (b + 1) else Some b)"

definition utils_ffs :: "u64 \<Rightarrow> u64 option" where
  "utils_ffs word = utils_ffs_loop word 0"

definition GENMASK :: "nat \<Rightarrow> nat \<Rightarrow> u32" where
  "GENMASK h l = (NOT 0 - (push_bit l 1 - 1)) AND drop_bit (31 - h) (NOT 0)"

text \<open>The compiler's \<^verbatim>\<open>__builtin_ctz\<close>, for a nonzero operand.\<close>

definition builtin_ctz :: "u32 \<Rightarrow> nat" where
  "builtin_ctz x = length (takeWhile (\<lambda>i. \<not> bit x i) [0..<32])"

definition FIELD_GET :: "u32 \<Rightarrow> u32 \<Rightarrow> u32" where
  "FIELD_GET msk reg = drop_bit (builtin_ctz msk) (reg AND msk)"

section \<open>Multiplication by limbs\<close>

lemma limb_high:
  fixes ah al bh bl :: nat
  defines "w \<equiv> 4294967296"
  assumes "al < w" and "bl < w"
  shows "ah * bh + al * bh div w + ah * bl div w + (al * bl div w + al * bh mod w + ah * bl mod w) div w
    = ((ah * w + al) * (bh * w + bl)) div (w * w)"
proof -
  have w: "w > 0" by (simp add: w_def)
  let ?t = "al * bl div w + al * bh mod w + ah * bl mod w"
  have e: "w * (ah * bh * w + al * bh + ah * bl) + al * bl = (ah * w + al) * (bh * w + bl)" by algebra
  have "((ah * w + al) * (bh * w + bl)) div (w * w) = ((ah * w + al) * (bh * w + bl)) div w div w"
    by (simp add: div_mult2_eq)
  also have "((ah * w + al) * (bh * w + bl)) div w = ah * bh * w + al * bh + ah * bl + al * bl div w"
    unfolding e [symmetric] using w by simp
  also have "\<dots> = w * (ah * bh + al * bh div w + ah * bl div w) + ?t"
  proof -
    have "al * bh = w * (al * bh div w) + al * bh mod w" "ah * bl = w * (ah * bl div w) + ah * bl mod w" by simp_all
    then show ?thesis by (simp add: algebra_simps)
  qed
  also have "\<dots> div w = ah * bh + al * bh div w + ah * bl div w + ?t div w" using w by simp
  finally show ?thesis by simp
qed

lemma mask_32_eq: "(0xffffffff :: u64) = mask 32"
  by (simp add: mask_eq_exp_minus_1)

lemma unat_mult_exact: "unat a * unat b < 2 ^ 64 \<Longrightarrow> unat (a * b) = unat a * unat (b :: u64)"
  by (simp add: unat_word_ariths)

lemma unat_add_exact: "unat a + unat b < 2 ^ 64 \<Longrightarrow> unat (a + b) = unat a + unat (b :: u64)"
  by (simp add: unat_word_ariths)

lemma limb_product_less: "x < 2 ^ 32 \<Longrightarrow> y < 2 ^ 32 \<Longrightarrow> x * y \<le> (2 ^ 32 - 1) * (2 ^ 32 - 1)" for x y :: nat
  by (intro mult_le_mono) simp_all

lemma limb_sum_exact:
  fixes p q r t :: u64
  assumes "unat p + unat q + unat r + unat t < 2 ^ 64"
  shows "unat (p + q + r + t) = unat p + unat q + unat r + unat t"
  using assms by (simp add: unat_add_exact)

lemma check_mul_overflow_spec:
  "check_mul_overflow_u64 a b = (if unat a * unat b < 2 ^ 64 then 0 else 1, a * b)"
proof -
  let ?w = "4294967296 :: nat"
  define al ah bl bh where "al = unat a mod ?w" and "ah = unat a div ?w" and "bl = unat b mod ?w" and "bh = unat b div ?w"
  have bounds: "al < 2 ^ 32" "ah < 2 ^ 32" "bl < 2 ^ 32" "bh < 2 ^ 32"
    using unat_u64_less [of a] unat_u64_less [of b] by (auto simp: al_def ah_def bl_def bh_def less_mult_imp_div_less)
  note l = limb_product_less
  have u: "unat (a AND 0xffffffff) = al" "unat (drop_bit 32 a) = ah" "unat (b AND 0xffffffff) = bl" "unat (drop_bit 32 b) = bh"
    unfolding mask_32_eq unat_and_mask unat_drop_bit by (simp_all add: al_def ah_def bl_def bh_def)
  define lo mid1 mid2 top where "lo = (a AND 0xffffffff) * (b AND 0xffffffff)" and "mid1 = (a AND 0xffffffff) * drop_bit 32 b"
    and "mid2 = drop_bit 32 a * (b AND 0xffffffff)" and "top = drop_bit 32 a * drop_bit 32 b"
  have p: "unat lo = al * bl" "unat mid1 = al * bh" "unat mid2 = ah * bl" "unat top = ah * bh"
    unfolding lo_def mid1_def mid2_def top_def
    using l [OF bounds(1, 3)] l [OF bounds(1, 4)] l [OF bounds(2, 3)] l [OF bounds(2, 4)]
    by (subst unat_mult_exact; simp add: u)+
  define t where "t = drop_bit 32 lo + (mid1 AND 0xffffffff) + (mid2 AND 0xffffffff)"
  have m: "unat (x AND 0xffffffff) = unat x mod ?w" "unat (drop_bit 32 x) = unat x div ?w" for x :: u64
    unfolding mask_32_eq unat_and_mask unat_drop_bit by simp_all
  have "al * bl div ?w < ?w" using l [OF bounds(1, 3)] by (simp add: less_mult_imp_div_less)
  moreover have "al * bh mod ?w < ?w" "ah * bl mod ?w < ?w" by simp_all
  ultimately have ut: "unat t = al * bl div ?w + al * bh mod ?w + ah * bl mod ?w"
    unfolding t_def by (simp add: unat_add_exact m p)
  have ab: "unat a = ah * ?w + al" "unat b = bh * ?w + bl" by (simp_all add: al_def ah_def bl_def bh_def)
  have h: "ah * bh + al * bh div ?w + ah * bl div ?w + unat t div ?w = unat a * unat b div (?w * ?w)"
    unfolding ut ab using limb_high [of al bl ah bh] bounds by simp
  have "unat a * unat b < 2 ^ 64 * 2 ^ 64" using unat_u64_less by (intro mult_strict_mono) simp_all
  then have "unat a * unat b div (?w * ?w) < 2 ^ 64" by (simp add: less_mult_imp_div_less)
  then have hi: "unat (top + drop_bit 32 mid1 + drop_bit 32 mid2 + drop_bit 32 t) = unat a * unat b div (?w * ?w)"
    using h by (subst limb_sum_exact) (simp_all add: m p)
  have "top + drop_bit 32 mid1 + drop_bit 32 mid2 + drop_bit 32 t \<noteq> 0 \<longleftrightarrow> \<not> unat a * unat b < 2 ^ 64"
    unfolding unat_eq_0 [symmetric] hi by (simp add: div_eq_0_iff)
  then show ?thesis
    unfolding check_mul_overflow_u64_def Let_def lo_def [symmetric] mid1_def [symmetric] mid2_def [symmetric] top_def [symmetric]
      t_def [symmetric] by simp
qed

section \<open>Bit loops\<close>

lemma bit_single [bits]: "bit (push_bit k 1 :: u64) j \<longleftrightarrow> j = k \<and> k < 64"
  unfolding bit_push_bit_iff by (auto simp: bit_1_iff)

lemma position_eq: "j mod 64 = i mod 64 \<and> j div 64 = i div 64 \<longleftrightarrow> j = i" for i j :: nat
  by (metis div_mult_mod_eq)

lemma range_Suc: "s \<le> i \<and> i < s + Suc n \<longleftrightarrow> i = s \<or> (s + 1 \<le> i \<and> i < s + 1 + n)" for s i n :: nat
  by auto

lemma bmap_update_or:
  assumes "i div 64 < length mp"
  shows "bmap (mp[i div 64 := mp ! (i div 64) OR push_bit (i mod 64) 1]) j = (bmap mp j \<or> j = i)"
  unfolding bmap_def nth_list_update [OF assms] position_eq [of j i, symmetric]
  by (cases "j div 64 = i div 64") (simp_all add: bit_or_iff bit_single del: push_bit_of_1)

lemma bmap_update_andnot:
  assumes "i div 64 < length mp"
  shows "bmap (mp[i div 64 := mp ! (i div 64) AND NOT (push_bit (i mod 64) 1)]) j = (bmap mp j \<and> j \<noteq> i)"
  unfolding bmap_def nth_list_update [OF assms] position_eq [of j i, symmetric]
  by (cases "j div 64 = i div 64") (simp_all add: bit_and_iff bit_not_iff bit_single del: push_bit_of_1)

lemma parselist_set_bits:
  assumes "unat start + n \<le> 64 * length mp" and "unat start + n < 2 ^ 32"
  shows "length (parselist_set mp start (int n)) = length mp \<and>
    (\<forall>i. bmap (parselist_set mp start (int n)) i = (bmap mp i \<or> (unat start \<le> i \<and> i < unat start + n)))"
  using assms
proof (induction n arbitrary: mp start)
  case 0
  then show ?case by (auto simp: parselist_set.simps [of mp start 0])
next
  case (Suc n)
  let ?k = "unat start div 64"
  let ?mp = "mp[?k := mp ! ?k OR push_bit (unat start mod 64) 1]"
  have k: "?k < length mp" using Suc.prems(1) by (simp add: less_mult_imp_div_less mult.commute)
  have s: "unat (start + 1) = unat start + 1" using Suc.prems(2) by (simp add: unat_word_ariths)
  have e: "parselist_set mp start (int (Suc n)) = parselist_set ?mp (start + 1) (int n)"
    by (subst parselist_set.simps) (simp add: Let_def)
  have "length (parselist_set ?mp (start + 1) (int n)) = length ?mp \<and>
    (\<forall>i. bmap (parselist_set ?mp (start + 1) (int n)) i = (bmap ?mp i \<or> (unat (start + 1) \<le> i \<and> i < unat (start + 1) + n)))"
    using Suc.prems s by (intro Suc.IH) simp_all
  then show ?case unfolding e s bmap_update_or [OF k] range_Suc by auto
qed

lemma parselist_clear_bits:
  assumes "unat start + n \<le> 64 * length mp" and "unat start + n < 2 ^ 32"
  shows "length (parselist_clear mp start (int n)) = length mp \<and>
    (\<forall>i. bmap (parselist_clear mp start (int n)) i = (bmap mp i \<and> \<not> (unat start \<le> i \<and> i < unat start + n)))"
  using assms
proof (induction n arbitrary: mp start)
  case 0
  then show ?case by (auto simp: parselist_clear.simps [of mp start 0])
next
  case (Suc n)
  let ?k = "unat start div 64"
  let ?mp = "mp[?k := mp ! ?k AND NOT (push_bit (unat start mod 64) 1)]"
  have k: "?k < length mp" using Suc.prems(1) by (simp add: less_mult_imp_div_less mult.commute)
  have s: "unat (start + 1) = unat start + 1" using Suc.prems(2) by (simp add: unat_word_ariths)
  have e: "parselist_clear mp start (int (Suc n)) = parselist_clear ?mp (start + 1) (int n)"
    by (subst parselist_clear.simps) (simp add: Let_def)
  have "length (parselist_clear ?mp (start + 1) (int n)) = length ?mp \<and>
    (\<forall>i. bmap (parselist_clear ?mp (start + 1) (int n)) i = (bmap ?mp i \<and> \<not> (unat (start + 1) \<le> i \<and> i < unat (start + 1) + n)))"
    using Suc.prems s by (intro Suc.IH) simp_all
  then show ?case unfolding e s bmap_update_andnot [OF k] range_Suc by auto
qed

text \<open>A list of words is determined by its length and its bits.\<close>

lemma bmap_ext:
  assumes "length xs = length ys" and "\<And>i. bmap xs i = bmap ys i"
  shows "xs = ys"
proof (rule nth_equalityI [OF assms(1)])
  fix k assume "k < length xs"
  have "bit (xs ! k) j = bit (ys ! k) j" for j
  proof (cases "j < 64")
    case True
    then show ?thesis using assms(2) [of "64 * k + j"] by (simp add: bmap_def)
  next
    case False
    then show ?thesis using bit_imp_le_length [of "xs ! k" j] bit_imp_le_length [of "ys ! k" j] by auto
  qed
  then show "xs ! k = ys ! k" by (simp add: bit_eq_iff)
qed

section \<open>Properties\<close>

text \<open>C39: the overflow test of the number parser, which computes the high word of a 64-bit product from 32-bit
  limbs, is exact: it returns the product modulo \<open>2 ^ 64\<close> and reports an overflow exactly if the
  product of the numbers does not fit into 64 bits.\<close>

theorem check_mul_overflow_exact:
  "check_mul_overflow_u64 a b = (if unat a * unat b < 2 ^ 64 then 0 else 1, a * b)"
  by (rule check_mul_overflow_spec)

text \<open>The loops that set and clear a range bit by bit compute the same bitmap as the word-wise routines of
  \<^verbatim>\<open>lib/bitmap.c\<close> on every range within the bitmap.\<close>

theorem parselist_agrees_with_bitmap:
  assumes "bitmap_ops_ok m" and "unat start + n \<le> 64 * length mp" and "unat start + n < 2 ^ 32"
  shows "bitmap_set m mp start (int n) = Some (parselist_set mp start (int n)) \<and>
    bitmap_clear m mp start (int n) = Some (parselist_clear mp start (int n))"
proof -
  obtain ms where ms: "bitmap_set m mp start (int n) = Some ms" "length ms = length mp"
      "\<And>i. bmap ms i = (if unat start \<le> i \<and> i < unat start + n then True else bmap mp i)"
    using bitmap_range_spec[OF assms(1) writes_value_set assms(2,3)] unfolding bitmap_set_def by auto
  obtain mc where mc: "bitmap_clear m mp start (int n) = Some mc" "length mc = length mp"
      "\<And>i. bmap mc i = (if unat start \<le> i \<and> i < unat start + n then False else bmap mp i)"
    using bitmap_range_spec[OF assms(1) writes_value_clear assms(2,3)] unfolding bitmap_clear_def by auto
  have "ms = parselist_set mp start (int n)"
    using parselist_set_bits [OF assms(2, 3)] ms(2, 3) by (intro bmap_ext) auto
  moreover have "mc = parselist_clear mp start (int n)"
    using parselist_clear_bits [OF assms(2, 3)] mc(2, 3) by (intro bmap_ext) auto
  ultimately show ?thesis using ms(1) mc(1) by simp
qed

theorem parselist_agrees_with_bitmap_witness:
  "bitmap_set std_bitmap_ops [0, 0] 60 (int 8) = Some (parselist_set [0, 0] 60 (int 8))"
  using parselist_agrees_with_bitmap [OF std_bitmap_ops_ok, of 60 8 "[0, 0]"] by simp

text \<open>The weight of the target agrees with the one of \<^verbatim>\<open>lib/bitmap.c\<close>.\<close>

lemma find_bit_weight_correct: "find_bit_weight mp n = bitmap_weight std_bitmap_ops mp n"
proof -
  have "drop_bit (64 - n mod 64) (NOT 0) = (mask (n mod 64) :: u64)"
    by (rule bit_eqI) (auto simp: bit_drop_bit_eq bit_mask_iff bit_not_iff)
  then show ?thesis
    by (simp add: find_bit_weight_def bitmap_weight_def weight_words_def popcountl_def std_bitmap_ops_def Let_def)
qed

lemma find_next_bit_correct:
  assumes "unat nbits \<le> 64 * length addr"
  shows "unat (find_next_bit addr nbits start) =
    (if \<exists>i. unat start \<le> i \<and> i < unat nbits \<and> bmap addr i then LEAST i. unat start \<le> i \<and> bmap addr i else unat nbits)"
proof (induction addr nbits start rule: find_next_bit.induct)
  case (1 addr nbits start)
  let ?s = "unat start"
  have b: "c_true (addr ! (?s div 64) AND push_bit (?s mod 64) 1) \<longleftrightarrow> bmap addr ?s"
    unfolding c_true_and_bit bmap_def by simp
  show ?case
  proof (cases "start < nbits")
    case False
    then show ?thesis by (subst find_next_bit.simps) (auto simp: word_less_nat_alt)
  next
    case lt: True
    show ?thesis
    proof (cases "bmap addr ?s")
      case True
      have "(LEAST i. ?s \<le> i \<and> bmap addr i) = ?s" using True by (intro Least_equality) auto
      then show ?thesis using True lt b by (subst find_next_bit.simps) (auto simp: word_less_nat_alt)
    next
      case False
      have s: "unat (start + 1) = ?s + 1" using lt by (auto simp: unat_Suc_less)
      have "(unat (start + 1) \<le> i \<and> bmap addr i) = (?s \<le> i \<and> bmap addr i)" for i
        using False s by (metis Suc_eq_plus1 Suc_le_eq le_less)
      then have e: "(unat (start + 1) \<le> i \<and> i < unat nbits \<and> bmap addr i) = (?s \<le> i \<and> i < unat nbits \<and> bmap addr i)"
        "(LEAST i. unat (start + 1) \<le> i \<and> bmap addr i) = (LEAST i. ?s \<le> i \<and> bmap addr i)" for i
        by auto
      have "find_next_bit addr nbits start = find_next_bit addr nbits (start + 1)"
        using lt False b by (subst find_next_bit.simps) simp
      then show ?thesis using 1 [OF lt] False b unfolding e by simp
    qed
  qed
qed

text \<open>The search loop ends exactly for a nonzero word, and then finds the bit the binary search finds.\<close>

lemma utils_ffs_diverges: "utils_ffs_loop 0 b = None"
proof -
  have "utils_ffs_loop w b = Some r \<Longrightarrow> w \<noteq> 0" for w b r
    by (rule utils_ffs_loop.raw_induct [where P = "\<lambda>w b r. w \<noteq> 0"]) (fastforce split: if_splits)
  then show ?thesis by (metis not_None_eq)
qed

lemma utils_ffs_loop_found:
  assumes "bit w n" and "\<forall>i < n. \<not> bit w i"
  shows "utils_ffs_loop w b = Some (b + of_nat n)"
  using assms
proof (induction n arbitrary: w b)
  case 0
  then have "w AND 1 \<noteq> 0" by (simp add: bit_0 and_one_eq odd_iff_mod_2_eq_one)
  then show ?case by (subst utils_ffs_loop.simps) simp
next
  case (Suc n)
  then have "w AND 1 = 0" by (auto simp: bit_0 and_one_eq even_iff_mod_2_eq_zero)
  moreover have "utils_ffs_loop (drop_bit 1 w) (b + 1) = Some (b + 1 + of_nat n)"
    using Suc.prems by (intro Suc.IH) (auto simp: bit_drop_bit_eq)
  ultimately show ?case by (subst utils_ffs_loop.simps) (simp add: add.assoc)
qed

lemma utils_ffs_correct: "utils_ffs w = (if w = 0 then None else Some (ffs_long w))"
proof (cases "w = 0")
  case False
  have "utils_ffs_loop w 0 = Some (of_nat (unat (ffs_long w)))"
    using utils_ffs_loop_found [of w "unat (ffs_long w)" 0] ffs_long_correct [OF False] by simp
  then show ?thesis using False by (simp add: utils_ffs_def)
qed (simp add: utils_ffs_def utils_ffs_diverges)

text \<open>A field extracted with the mask of its range is the range of bits.\<close>

lemma bit_GENMASK:
  assumes "l \<le> h" and "h < 32"
  shows "bit (GENMASK h l) i = (l \<le> i \<and> i \<le> h)"
proof -
  have "NOT 0 - (push_bit l 1 - 1) = (NOT (mask l) :: u32)"
    by (simp add: mask_eq_exp_minus_1 push_bit_eq_mult not_eq_complement)
  then show ?thesis using assms
    by (auto simp: GENMASK_def bit_and_iff bit_not_iff bit_mask_iff bit_drop_bit_eq)
qed

lemma builtin_ctz_least:
  assumes "bit x n" and "\<forall>i < n. \<not> bit x i" and "n < 32"
  shows "builtin_ctz x = n"
proof -
  have "[0..<32] = [0..<n] @ n # [Suc n..<32]" using assms(3) using upt_add_eq_append [of 0 n "32 - n"] by (simp add: upt_conv_Cons)
  moreover have "takeWhile (\<lambda>i. \<not> bit x i) ([0..<n] @ n # [Suc n..<32]) = [0..<n]"
    using assms by (subst takeWhile_append2) auto
  ultimately show ?thesis by (simp add: builtin_ctz_def)
qed

lemma field_get_correct:
  assumes "l \<le> h" and "h < 32"
  shows "FIELD_GET (GENMASK h l) reg = take_bit (h - l + 1) (drop_bit l reg)"
proof -
  have "builtin_ctz (GENMASK h l) = l" using assms by (intro builtin_ctz_least) (auto simp: bit_GENMASK)
  then show ?thesis using assms
    by (intro bit_eqI) (auto simp: FIELD_GET_def bit_drop_bit_eq bit_and_iff bit_GENMASK bit_take_bit_iff)
qed

end
