(* ===== verification/Target_Text.thy ===== *)
theory Target_Text
  imports Hexdump
begin

text \<open>
  Text routines that single targets supply in place of the kernel's: the number scanner and the string functions
  of \<^verbatim>\<open>targets/bitmap_parselist/preamble.h\<close>, those of \<^verbatim>\<open>targets/cmdline/preamble.h\<close>, the searches of
  \<^verbatim>\<open>targets/base64/pre_include.h\<close>, and the copy and comparison of \<^verbatim>\<open>targets/find_cpio_data/pre_include.h\<close>.

  A pointer that is only read is the list of the bytes from it to the end of its object; moving it is taking the
  tail.  A read past the object is the result \<open>None\<close>, so that the theorems say that no such read happens.
  \<open>cstr\<close> is the text of a terminated string.
\<close>

section \<open>The code\<close>

text \<open>\<^verbatim>\<open>bitmap_parselist/preamble.h\<close>\<close>

primrec text_strlen :: "u8 list \<Rightarrow> nat option" where
  "text_strlen [] = None"
| "text_strlen (c # s) = (if c \<noteq> 0 then map_option Suc (text_strlen s) else Some 0)"

primrec strnchrnul :: "u8 list \<Rightarrow> nat \<Rightarrow> u8 \<Rightarrow> u8 list option" where
  "strnchrnul [] n c = (if n = 0 then Some [] else None)"
| "strnchrnul (x # s) n c = (if n \<noteq> 0 \<and> x \<noteq> 0 \<and> x \<noteq> c then strnchrnul s (n - 1) c else Some (x # s))"

definition text_hex_to_bin :: "u8 \<Rightarrow> cint" where
  "text_hex_to_bin ch =
     (if ch \<ge> 0x30 \<and> ch \<le> 0x39 then uint ch - 0x30
      else let ch = ch OR 0x20
           in if ch \<ge> 0x61 \<and> ch \<le> 0x66 then uint ch - 0x61 + 10 else - 1)"

definition lower :: "u8 \<Rightarrow> u8" where
  "lower a = (if a \<ge> 0x41 \<and> a \<le> 0x5a then a + 32 else a)"

fun strncasecmp :: "u8 list \<Rightarrow> u8 list \<Rightarrow> nat \<Rightarrow> cint option" where
  "strncasecmp s1 s2 0 = Some 0"
| "strncasecmp (x # s1) (y # s2) (Suc n) =
     (let a = lower x; b = lower y
      in if a \<noteq> b \<or> a = 0 then Some (uint a - uint b) else strncasecmp s1 s2 n)"
| "strncasecmp _ _ (Suc n) = None"

definition scan_digit :: "u8 \<Rightarrow> cint option" where
  "scan_digit c =
     (if c \<ge> 0x30 \<and> c \<le> 0x39 then Some (uint c - 0x30)
      else if c OR 0x20 \<ge> 0x61 \<and> c OR 0x20 \<le> 0x7a then Some (uint (c OR 0x20) - 0x61 + 10)
      else None)"

primrec parse_loop :: "u8 list \<Rightarrow> u32 \<Rightarrow> u64 \<Rightarrow> u32 \<Rightarrow> (u32 \<times> u64) option" where
  "parse_loop [] base val cnt = None"
| "parse_loop (c # s) base val cnt =
     (case scan_digit c of
        None \<Rightarrow> Some (cnt, val)
      | Some d \<Rightarrow> if word_of_int d \<ge> base then Some (cnt, val)
                  else parse_loop s base (val * ucast base + word_of_int d) (cnt + 1))"

definition parse_integer :: "u8 list \<Rightarrow> u32 \<Rightarrow> (u32 \<times> u64) option" where
  "parse_integer s base = parse_loop s base 0 0"

text \<open>\<^verbatim>\<open>cmdline/preamble.h\<close>; the loops stop after 32 digits and 64 characters.\<close>

definition cmdline_digit :: "u8 \<Rightarrow> cint" where
  "cmdline_digit c =
     (if c \<ge> 0x30 \<and> c \<le> 0x39 then uint c - 0x30
      else if c \<ge> 0x61 \<and> c \<le> 0x66 then uint c - 0x61 + 10
      else if c \<ge> 0x41 \<and> c \<le> 0x46 then uint c - 0x41 + 10
      else - 1)"

primrec strtoull_loop :: "nat \<Rightarrow> u8 list \<Rightarrow> u32 \<Rightarrow> u64 \<Rightarrow> (u64 \<times> u8 list) option" where
  "strtoull_loop 0 p base result = Some (result, p)"
| "strtoull_loop (Suc i) p base result =
     (case p of
        [] \<Rightarrow> None
      | c # q \<Rightarrow>
          let digit = cmdline_digit c
          in if digit < 0 \<or> word_of_int digit \<ge> base then Some (result, p)
             else strtoull_loop i q base (result * ucast base + word_of_int digit))"

definition detect_base :: "u8 list \<Rightarrow> (u32 \<times> u8 list) option" where
  "detect_base p =
     (case p of
        [] \<Rightarrow> None
      | c # q \<Rightarrow>
          if c = 0x30
          then (case q of
                  [] \<Rightarrow> None
                | x # r \<Rightarrow> if x = 0x78 \<or> x = 0x58 then Some (16, r) else Some (8, q))
          else Some (10, p))"

definition simple_strtoull :: "u8 list \<Rightarrow> u32 \<Rightarrow> (u64 \<times> u8 list) option" where
  "simple_strtoull cp base =
     (case (if base = 0 then detect_base cp else Some (base, cp)) of
        None \<Rightarrow> None
      | Some (base, p) \<Rightarrow> strtoull_loop 32 p base 0)"

definition simple_strtol :: "u8 list \<Rightarrow> u32 \<Rightarrow> (u64 \<times> u8 list) option" where
  "simple_strtol cp base =
     (case cp of
        [] \<Rightarrow> None
      | c # q \<Rightarrow> if c = 0x2d then map_option (\<lambda>(v, p). (- v, p)) (simple_strtoull q base) else simple_strtoull cp base)"

primrec cmdline_strlen_loop :: "nat \<Rightarrow> u8 list \<Rightarrow> nat \<Rightarrow> nat option" where
  "cmdline_strlen_loop 0 s n = Some n"
| "cmdline_strlen_loop (Suc i) s n =
     (case s of [] \<Rightarrow> None | c # t \<Rightarrow> if c = 0 then Some n else cmdline_strlen_loop i t (n + 1))"

definition cmdline_strlen :: "u8 list \<Rightarrow> nat option" where
  "cmdline_strlen s = cmdline_strlen_loop 64 s 0"

primrec cmdline_strncmp_loop :: "nat \<Rightarrow> u8 list \<Rightarrow> u8 list \<Rightarrow> nat \<Rightarrow> cint option" where
  "cmdline_strncmp_loop 0 s1 s2 n = Some 0"
| "cmdline_strncmp_loop (Suc i) s1 s2 n =
     (if n = 0 then Some 0
      else case (s1, s2) of
             (c1 # t1, c2 # t2) \<Rightarrow>
               if c1 \<noteq> c2 then Some (uint c1 - uint c2)
               else if c1 = 0 then Some 0
               else cmdline_strncmp_loop i t1 t2 (n - 1)
           | _ \<Rightarrow> None)"

definition cmdline_strncmp :: "u8 list \<Rightarrow> u8 list \<Rightarrow> nat \<Rightarrow> cint option" where
  "cmdline_strncmp s1 s2 n = cmdline_strncmp_loop 64 s1 s2 n"

definition cmdline_space :: "u8 \<Rightarrow> bool" where
  "cmdline_space c \<longleftrightarrow> \<not> (c \<noteq> 0x20 \<and> c \<noteq> 0x09 \<and> c \<noteq> 0x0a \<and> c \<noteq> 0x0d \<and> c \<noteq> 0x0c \<and> c \<noteq> 0x0b)"

primrec skip_spaces_loop :: "nat \<Rightarrow> u8 list \<Rightarrow> u8 list option" where
  "skip_spaces_loop 0 p = Some p"
| "skip_spaces_loop (Suc i) p =
     (case p of [] \<Rightarrow> None | c # q \<Rightarrow> if \<not> cmdline_space c then Some p else skip_spaces_loop i q)"

definition skip_spaces :: "u8 list \<Rightarrow> u8 list option" where
  "skip_spaces s = skip_spaces_loop 64 s"

text \<open>\<^verbatim>\<open>base64/pre_include.h\<close>: a result pointer is the offset in the object; the outer option is a read past
  the object, the inner one the null pointer.\<close>

primrec base64_strchr :: "u8 list \<Rightarrow> u8 \<Rightarrow> nat \<Rightarrow> nat option option" where
  "base64_strchr [] c p = None"
| "base64_strchr (x # s) c p =
     (if x \<noteq> 0 then if x = c then Some (Some p) else base64_strchr s c (p + 1) else Some None)"

fun base64_memchr :: "u8 list \<Rightarrow> u8 \<Rightarrow> nat \<Rightarrow> nat \<Rightarrow> nat option option" where
  "base64_memchr s c 0 p = Some None"
| "base64_memchr (x # s) c (Suc n) p = (if x = c then Some (Some p) else base64_memchr s c n (p + 1))"
| "base64_memchr [] c (Suc n) p = None"

text \<open>\<^verbatim>\<open>find_cpio_data/pre_include.h\<close>\<close>

fun cpio_memcmp :: "u8 list \<Rightarrow> u8 list \<Rightarrow> nat \<Rightarrow> cint option" where
  "cpio_memcmp a b 0 = Some 0"
| "cpio_memcmp (x # a) (y # b) (Suc n) = (if x \<noteq> y then Some (uint x - uint y) else cpio_memcmp a b n)"
| "cpio_memcmp _ _ (Suc n) = None"

primrec strscpy_copy :: "nat \<Rightarrow> nat \<Rightarrow> u8 list \<Rightarrow> u8 list \<Rightarrow> nat option \<times> u8 list" where
  "strscpy_copy 0 i dst src = (None, dst)"
| "strscpy_copy (Suc k) i dst src =
     (let dst = dst[i := src ! i]
      in if src ! i = 0 then (Some i, dst) else strscpy_copy k (i + 1) dst src)"

definition sized_strscpy :: "u8 list \<Rightarrow> u8 list \<Rightarrow> nat \<Rightarrow> cint \<times> u8 list" where
  "sized_strscpy dst src count =
     (if count = 0 then (- 7, dst)
      else case strscpy_copy count 0 dst src of
             (Some i, dst) \<Rightarrow> (int i, dst)
           | (None, dst) \<Rightarrow> (- 7, dst[count - 1 := 0]))"

section \<open>Terminated strings\<close>

definition cstr :: "u8 list \<Rightarrow> u8 list" where
  "cstr s = takeWhile (\<lambda>c. c \<noteq> 0) s"

lemma cstr_simps [simp]: "cstr [] = []" "cstr (c # s) = (if c = 0 then [] else c # cstr s)"
  by (simp_all add: cstr_def)

lemma length_cstr_le: "length (cstr s) \<le> length s"
  by (simp add: cstr_def length_takeWhile_le)

lemma nth_cstr: "i < length (cstr s) \<Longrightarrow> s ! i = cstr s ! i \<and> s ! i \<noteq> 0"
proof -
  assume i: "i < length (cstr s)"
  then have "s ! i = cstr s ! i" unfolding cstr_def by (simp add: takeWhile_nth)
  moreover have "cstr s ! i \<noteq> 0" using nth_mem [OF i] unfolding cstr_def by (blast dest: set_takeWhileD)
  ultimately show ?thesis by simp
qed

lemma nth_cstr_end: "0 \<in> set s \<Longrightarrow> length (cstr s) < length s \<and> s ! length (cstr s) = 0"
  by (induction s) (auto split: if_splits)

lemma text_strlen_cstr: "0 \<in> set s \<Longrightarrow> text_strlen s = Some (length (cstr s))"
  by (induction s) auto

lemma cmdline_strlen_cstr: "0 \<in> set s \<Longrightarrow> cmdline_strlen s = Some (min 64 (length (cstr s)))"
proof -
  have "0 \<in> set s \<Longrightarrow> cmdline_strlen_loop k s n = Some (n + min k (length (cstr s)))" for k n s
    by (induction k arbitrary: s n) (auto split: list.split)
  then show "0 \<in> set s \<Longrightarrow> cmdline_strlen s = Some (min 64 (length (cstr s)))"
    by (simp add: cmdline_strlen_def)
qed

lemma strnchrnul_correct:
  "0 \<in> set s \<Longrightarrow> strnchrnul s n c = Some (drop (length (takeWhile (\<lambda>x. x \<noteq> c) (take n (cstr s)))) s)"
  by (induction s arbitrary: n) (auto simp: take_Cons' split: if_splits)

lemma skip_spaces_correct:
  assumes "0 \<in> set s"
  shows "skip_spaces s = Some (drop (length (takeWhile cmdline_space (take 64 s))) s)"
proof -
  have "0 \<in> set s \<Longrightarrow> skip_spaces_loop k s = Some (drop (length (takeWhile cmdline_space (take k s))) s)" for k
  proof (induction k arbitrary: s)
    case (Suc k)
    then show ?case by (cases s) (auto simp: cmdline_space_def)
  qed simp
  then show ?thesis using assms by (simp add: skip_spaces_def)
qed

section \<open>Comparisons\<close>

text \<open>Two strings compare equal exactly if the compared parts of their texts agree.\<close>

lemma uint_eq [simp]: "uint a = uint b \<longleftrightarrow> a = b" "uint a = 0 \<longleftrightarrow> a = 0" for a b :: u8
  by (simp_all add: word_uint_eq_iff)

lemma lower_0 [simp]: "lower a = 0 \<longleftrightarrow> a = 0"
  by (rule byte_cases) code_simp

lemma lower_zero [simp]: "lower 0 = 0" "0 = lower a \<longleftrightarrow> a = 0"
  using lower_0 [of 0] lower_0 [of a] by auto

lemma strncasecmp_zero:
  "0 \<in> set s1 \<Longrightarrow> 0 \<in> set s2 \<Longrightarrow>
   \<exists>r. strncasecmp s1 s2 n = Some r \<and> (r = 0 \<longleftrightarrow> take n (map lower (cstr s1)) = take n (map lower (cstr s2)))"
proof (induction s1 s2 n rule: strncasecmp.induct)
  case (2 x s1 y s2 n)
  note z = lower_0 [of x] lower_0 [of y]
  show ?case
  proof (cases "lower x = lower y \<and> x \<noteq> 0")
    case True
    then have "y \<noteq> 0" using z by auto
    then have "\<exists>r. strncasecmp s1 s2 n = Some r \<and> (r = 0 \<longleftrightarrow> take n (map lower (cstr s1)) = take n (map lower (cstr s2)))"
      using 2 True z by (simp add: Let_def)
    then show ?thesis using True z \<open>y \<noteq> 0\<close> by (simp add: Let_def)
  next
    case False
    then have "strncasecmp (x # s1) (y # s2) (Suc n) = Some (uint (lower x) - uint (lower y))" using z by (auto simp: Let_def)
    moreover have "uint (lower x) - uint (lower y) = 0 \<longleftrightarrow> lower x = lower y" by simp
    moreover have "lower x = lower y \<longleftrightarrow>
        take (Suc n) (map lower (cstr (x # s1))) = take (Suc n) (map lower (cstr (y # s2)))"
      using False z by auto
    ultimately show ?thesis by blast
  qed
qed auto

lemma cmdline_strncmp_zero:
  assumes "0 \<in> set s1" and "0 \<in> set s2"
  shows "\<exists>r. cmdline_strncmp s1 s2 n = Some r \<and>
    (r = 0 \<longleftrightarrow> take (min n 64) (cstr s1) = take (min n 64) (cstr s2))"
proof -
  have "0 \<in> set s1 \<Longrightarrow> 0 \<in> set s2 \<Longrightarrow> \<exists>r. cmdline_strncmp_loop k s1 s2 n = Some r \<and>
      (r = 0 \<longleftrightarrow> take (min n k) (cstr s1) = take (min n k) (cstr s2))" for k
  proof (induction k arbitrary: s1 s2 n)
    case (Suc k)
    show ?case
    proof (cases n)
      case (Suc m)
      obtain x t1 y t2 where l: "s1 = x # t1" "s2 = y # t2" using Suc.prems by (cases s1; cases s2) auto
      show ?thesis
      proof (cases "x = y \<and> x \<noteq> 0")
        case True
        then show ?thesis using Suc.IH [of t1 t2 m] Suc.prems Suc l by auto
      qed (use Suc l in \<open>auto\<close>)
    qed simp
  qed simp
  then show ?thesis using assms by (simp add: cmdline_strncmp_def)
qed

lemma cpio_memcmp_zero:
  "n \<le> length a \<Longrightarrow> n \<le> length b \<Longrightarrow> \<exists>r. cpio_memcmp a b n = Some r \<and> (r = 0 \<longleftrightarrow> take n a = take n b)"
  by (induction a b n rule: cpio_memcmp.induct) auto

lemma base64_memchr_first:
  "n \<le> length s \<Longrightarrow> base64_memchr s c n p =
     Some (if c \<in> set (take n s) then Some (p + length (takeWhile (\<lambda>x. x \<noteq> c) s)) else None)"
  by (induction s c n p rule: base64_memchr.induct) auto

lemma base64_strchr_first:
  "0 \<in> set s \<Longrightarrow> base64_strchr s c p =
     Some (if c \<in> set (cstr s) then Some (p + length (takeWhile (\<lambda>x. x \<noteq> c) s)) else None)"
  by (induction s arbitrary: p) auto

section \<open>The bounded copy\<close>

lemma strscpy_copy_eq:
  assumes "0 \<in> set src" and "i \<le> length (cstr src)" and "i + k \<le> length dst"
  shows "strscpy_copy k i dst src =
    (if length (cstr src) < i + k then (Some (length (cstr src)), store_bytes dst i (drop i (cstr src) @ [0]))
     else (None, store_bytes dst i (take k (drop i (cstr src)))))"
  using assms(2, 3)
proof (induction k arbitrary: i dst)
  case (Suc k)
  show ?case
  proof (cases "i = length (cstr src)")
    case True
    then show ?thesis using nth_cstr_end [OF assms(1)] Suc.prems by (simp add: Let_def store_one)
  next
    case False
    then have i: "i < length (cstr src)" using Suc.prems by simp
    have c: "cstr src ! i = src ! i" "src ! i \<noteq> 0" using nth_cstr [OF i] by metis+
    have d: "drop i (cstr src) = src ! i # drop (i + 1) (cstr src)" using Cons_nth_drop_Suc [OF i] c(1) by simp
    have st: "store_bytes (dst[i := src ! i]) (i + 1) bs = store_bytes dst i (src ! i # bs)"
      if "i + 1 + length bs \<le> length dst" for bs
      using that store_store [of i "[src ! i]" bs dst] by (simp add: store_one)
    have "strscpy_copy (Suc k) i dst src = strscpy_copy k (i + 1) (dst[i := src ! i]) src" using c by (simp add: Let_def)
    also have "\<dots> = (if length (cstr src) < i + 1 + k
          then (Some (length (cstr src)), store_bytes (dst[i := src ! i]) (i + 1) (drop (i + 1) (cstr src) @ [0]))
          else (None, store_bytes (dst[i := src ! i]) (i + 1) (take k (drop (i + 1) (cstr src)))))"
      using i Suc.prems by (intro Suc.IH) simp_all
    finally show ?thesis using Suc.prems i by (auto simp: d st [simplified])
  qed
qed (use assms(2) in simp)

lemma sized_strscpy_correct:
  assumes "0 \<in> set src" and "0 < count" and "count \<le> length dst"
  shows "sized_strscpy dst src count =
    (if length (cstr src) < count then (int (length (cstr src)), store_bytes dst 0 (cstr src @ [0]))
     else (- 7, store_bytes dst 0 (take (count - 1) (cstr src) @ [0])))"
proof (cases "length (cstr src) < count")
  case True
  then show ?thesis using strscpy_copy_eq [OF assms(1), of 0 count dst] assms by (simp add: sized_strscpy_def)
next
  case False
  let ?t = "take count (cstr src)"
  have "?t = take (count - 1) (cstr src) @ [cstr src ! (count - 1)]"
    using False assms(2) take_Suc_conv_app_nth [of "count - 1" "cstr src"] by simp
  then have "(store_bytes dst 0 ?t)[count - 1 := 0] = store_bytes dst 0 (take (count - 1) (cstr src) @ [0])"
    using False assms(2, 3) by (simp add: store_bytes_def list_update_append)
  then show ?thesis using strscpy_copy_eq [OF assms(1), of 0 count dst] assms False by (simp add: sized_strscpy_def)
qed

section \<open>Numbers\<close>

text \<open>The value of a character as a digit, the digits at the start of a text, and the number they denote.\<close>

definition digit_of :: "u8 \<Rightarrow> nat option" where
  "digit_of c =
     (if 0x30 \<le> c \<and> c \<le> 0x39 then Some (unat c - 0x30)
      else if 0x61 \<le> c \<and> c \<le> 0x7a then Some (unat c - 0x61 + 10)
      else if 0x41 \<le> c \<and> c \<le> 0x5a then Some (unat c - 0x41 + 10)
      else None)"

definition is_digit :: "nat \<Rightarrow> u8 \<Rightarrow> bool" where
  "is_digit b c \<longleftrightarrow> (case digit_of c of None \<Rightarrow> False | Some d \<Rightarrow> d < b)"

definition number_value :: "nat \<Rightarrow> u8 list \<Rightarrow> nat" where
  "number_value b cs = digits_value b (map (the \<circ> digit_of) cs)"

lemma scan_digit_eq: "scan_digit c = map_option int (digit_of c) \<and> (\<forall>d. digit_of c = Some d \<longrightarrow> d < 36)"
proof -
  have "scan_digit c = map_option int (digit_of c) \<and> (case digit_of c of None \<Rightarrow> True | Some d \<Rightarrow> d < 36)"
    by (rule byte_cases) code_simp
  then show ?thesis by (auto split: option.splits)
qed

lemma cmdline_digit_eq:
  "cmdline_digit c = (case digit_of c of None \<Rightarrow> - 1 | Some d \<Rightarrow> if d < 16 then int d else - 1)"
  by (rule byte_cases) code_simp

lemma not_digit_0 [simp]: "\<not> is_digit b 0"
proof -
  have "digit_of 0 = None" by code_simp
  then show ?thesis by (simp add: is_digit_def)
qed

lemma text_hex_agrees: "text_hex_to_bin c = hex_to_bin_cases c \<and> cmdline_digit c = hex_to_bin_cases c"
proof -
  have "text_hex_to_bin c = hex_to_bin_cases c" by (rule byte_cases) code_simp
  then show ?thesis by (simp add: cmdline_digit_def hex_to_bin_cases_def)
qed

lemma digit_word: "d < 36 \<Longrightarrow> word_of_int (int d) \<ge> base \<longleftrightarrow> unat base \<le> d" for base :: u32
  by (simp add: word_le_nat_alt unat_of_nat_u32)

lemma ucast_of_nat: "(ucast base :: u64) = of_nat (unat base)" for base :: u32
  by simp

lemma parse_loop_digits:
  "0 \<in> set s \<Longrightarrow> parse_loop s base (of_nat v) (of_nat k) =
     Some (of_nat (k + length (takeWhile (is_digit (unat base)) s)),
       of_nat (foldl (\<lambda>n d. unat base * n + d) v (map (the \<circ> digit_of) (takeWhile (is_digit (unat base)) s))))"
proof (induction s arbitrary: v k)
  case (Cons c s)
  show ?case
  proof (cases "is_digit (unat base) c")
    case True
    then obtain d where d: "digit_of c = Some d" "d < unat base" by (auto simp: is_digit_def split: option.splits)
    then have d36: "d < 36" and sc: "scan_digit c = Some (int d)" using scan_digit_eq [of c] by auto
    have c0: "c \<noteq> 0" using True not_digit_0 by metis
    have "of_nat v * ucast base + word_of_int (int d) = (of_nat (unat base * v + d) :: u64)"
      by (simp add: mult.commute)
    moreover have "of_nat k + 1 = (of_nat (k + 1) :: u32)" by simp
    moreover have "\<not> word_of_int (int d) \<ge> base" using digit_word [OF d36] d(2) by simp
    ultimately have "parse_loop (c # s) base (of_nat v) (of_nat k) =
        parse_loop s base (of_nat (unat base * v + d)) (of_nat (k + 1))"
      using sc by (simp only: parse_loop.simps option.case if_False)
    then show ?thesis using Cons.IH [of "unat base * v + d" "k + 1"] Cons.prems c0 True d(1) by simp
  next
    case False
    then have "scan_digit c = None \<or> (\<exists>d. scan_digit c = Some (int d) \<and> word_of_int (int d) \<ge> base)"
      using scan_digit_eq [of c] digit_word [of _ base] by (cases "digit_of c") (auto simp: is_digit_def)
    then show ?thesis using False by auto
  qed
qed simp

lemma strtoull_loop_digits:
  "0 \<in> set p \<Longrightarrow> length (takeWhile (is_digit (min (unat base) 16)) p) \<le> k \<Longrightarrow>
   strtoull_loop k p base (of_nat v) =
     Some (of_nat (foldl (\<lambda>n d. unat base * n + d) v (map (the \<circ> digit_of) (takeWhile (is_digit (min (unat base) 16)) p))),
       dropWhile (is_digit (min (unat base) 16)) p)"
proof (induction k arbitrary: p v)
  case 0
  then have "takeWhile (is_digit (min (unat base) 16)) p = []" by simp
  then have "dropWhile (is_digit (min (unat base) 16)) p = p" by (cases p) (auto split: if_splits)
  with 0 show ?case by simp
next
  case (Suc k)
  obtain c q where p: "p = c # q" using Suc.prems(1) by (cases p) auto
  show ?case
  proof (cases "is_digit (min (unat base) 16) c")
    case True
    then obtain d where d: "digit_of c = Some d" "d < unat base" "d < 16" by (auto simp: is_digit_def split: option.splits)
    then have cd: "cmdline_digit c = int d" by (simp add: cmdline_digit_eq)
    have c0: "c \<noteq> 0" using True not_digit_0 by metis
    have "of_nat v * ucast base + word_of_int (int d) = (of_nat (unat base * v + d) :: u64)"
      by (simp add: mult.commute)
    moreover have "\<not> word_of_int (int d) \<ge> base" using digit_word [of d base] d by simp
    ultimately have "strtoull_loop (Suc k) p base (of_nat v) = strtoull_loop k q base (of_nat (unat base * v + d))"
      by (simp add: p cd Let_def mult.commute)
    then show ?thesis using Suc.IH [of q "unat base * v + d"] Suc.prems c0 True d(1) p by simp
  next
    case False
    have "cmdline_digit c < 0 \<or> word_of_int (cmdline_digit c) \<ge> base"
    proof (cases "digit_of c")
      case (Some d)
      then show ?thesis using False digit_word [of d base] by (auto simp: is_digit_def cmdline_digit_eq)
    qed (simp add: cmdline_digit_eq)
    then show ?thesis using False by (simp add: p Let_def)
  qed
qed

section \<open>Properties\<close>

text \<open>On a terminated string the number scanner never reads past the terminator; it returns how many characters
  are digits of the base, and their number modulo \<open>2 ^ 64\<close>.\<close>

theorem parse_integer_correct:
  assumes "0 \<in> set s"
  shows "parse_integer s base = Some (of_nat (length (takeWhile (is_digit (unat base)) s)),
    of_nat (number_value (unat base) (takeWhile (is_digit (unat base)) s)))"
  using parse_loop_digits [OF assms, of base 0 0] by (simp add: parse_integer_def number_value_def digits_value_def)

theorem parse_integer_correct_witness: "parse_integer [0x34, 0x32, 0x2d, 0x37, 0] 10 = Some (2, 42)"
proof -
  have "takeWhile (is_digit 10) [0x34, 0x32, 0x2d, 0x37, 0 :: u8] = [0x34, 0x32]" "number_value 10 [0x34, 0x32] = 42"
    by code_simp+
  then show ?thesis using parse_integer_correct [of "[0x34, 0x32, 0x2d, 0x37, 0]" 10] by simp
qed

text \<open>On a terminated string with at most 32 digits the command-line parser of unsigned numbers reads the number
  after an optional prefix that gives the base (\<^verbatim>\<open>0x\<close> or \<^verbatim>\<open>0\<close>, when no base is given), modulo \<open>2 ^ 64\<close>, and leaves
  the end pointer at the first character that is no digit.\<close>

theorem simple_strtoull_correct:
  assumes "0 \<in> set cp" and "(b, q) = (if base \<noteq> 0 then (base, cp) else if cp ! 0 \<noteq> 0x30 then (10, cp)
      else if cp ! 1 = 0x78 \<or> cp ! 1 = 0x58 then (16, drop 2 cp) else (8, drop 1 cp))"
    and "length (takeWhile (is_digit (min (unat b) 16)) q) \<le> 32"
  shows "simple_strtoull cp base = Some (of_nat (number_value (unat b) (takeWhile (is_digit (min (unat b) 16)) q)),
    dropWhile (is_digit (min (unat b) 16)) q)"
proof -
  obtain c r where cp: "cp = c # r" using assms(1) by (cases cp) auto
  have r: "c = 0x30 \<Longrightarrow> \<exists>x t. r = x # t" using assms(1) cp by (cases r) auto
  have q: "(if base = 0 then detect_base cp else Some (base, cp)) = Some (b, q) \<and> 0 \<in> set q"
    using assms(1, 2) cp r by (auto simp: detect_base_def split: if_splits)
  have "strtoull_loop 32 q b (of_nat 0) = Some (of_nat (number_value (unat b) (takeWhile (is_digit (min (unat b) 16)) q)),
      dropWhile (is_digit (min (unat b) 16)) q)"
    using strtoull_loop_digits [of q b 32 0] q assms(3) by (simp add: number_value_def digits_value_def)
  then show ?thesis using q by (simp add: simple_strtoull_def)
qed

theorem simple_strtoull_correct_witness: "simple_strtoull [0x30, 0x78, 0x32, 0x41, 0x4b, 0] 0 = Some (42, [0x4b, 0])"
proof -
  have e: "takeWhile (is_digit 16) [0x32, 0x41, 0x4b, 0 :: u8] = [0x32, 0x41]" "number_value 16 [0x32, 0x41] = 42"
    "dropWhile (is_digit 16) [0x32, 0x41, 0x4b, 0 :: u8] = [0x4b, 0]" by code_simp+
  show ?thesis
    using simple_strtoull_correct [of "[0x30, 0x78, 0x32, 0x41, 0x4b, 0]" 16 "[0x32, 0x41, 0x4b, 0]" 0] e by simp
qed

end
