(* ===== verification/Target_Mem.thy ===== *)
theory Target_Mem
  imports Mprog
begin

text \<open>
  Memory routines that single targets supply: the \<^verbatim>\<open>memmove\<close> of \<^verbatim>\<open>targets/zstd_entropy_common/pre_include.h\<close> and of
  \<^verbatim>\<open>targets/kernel_range/pre_include.h\<close>, and the exclusive or and the comparison of
  \<^verbatim>\<open>targets/aesgcm/preamble.h\<close>.  As in \<^verbatim>\<open>Mprog\<close>, pointers are indices into one memory, so that regions may overlap.
\<close>

section \<open>The code\<close>

definition zstd_memmove :: "u8 list \<Rightarrow> nat \<Rightarrow> nat \<Rightarrow> nat \<Rightarrow> u8 list" where
  "zstd_memmove mem d s n =
     (let move = (\<lambda>i mem. mem[d + i := mem ! (s + i)])
      in if d < s then fold move [0..<n] mem else fold move (rev [0..<n]) mem)"

definition range_memmove :: "u8 list \<Rightarrow> nat \<Rightarrow> nat \<Rightarrow> nat \<Rightarrow> u8 list" where
  "range_memmove mem d s n = fold (\<lambda>i mem. if i < n then mem[d + i := mem ! (s + i)] else mem) [0..<128] mem"

definition crypto_xor :: "u8 list \<Rightarrow> nat \<Rightarrow> nat \<Rightarrow> nat \<Rightarrow> nat \<Rightarrow> u8 list" where
  "crypto_xor mem d a b n = fold (\<lambda>i mem. mem[d + i := mem ! (a + i) XOR mem ! (b + i)]) [0..<n] mem"

definition crypto_memneq :: "u8 list \<Rightarrow> nat \<Rightarrow> nat \<Rightarrow> nat \<Rightarrow> u64" where
  "crypto_memneq mem a b n = fold (\<lambda>i neq. neq OR ucast (mem ! (a + i) XOR mem ! (b + i))) [0..<n] 0"

section \<open>Properties\<close>

lemma fold_move_byte: "set is \<subseteq> {0..<n} \<Longrightarrow> fold (\<lambda>i mem. mem[d + i := mem ! (s + i)]) is mem = fold (move_byte n d s) is mem"
  by (induction "is" arbitrary: mem) (simp_all add: move_byte_def)

lemma move_byte_fun: "(\<lambda>i mem. if i < n then mem[d + i := mem ! (s + i)] else mem) = move_byte n d s"
  by (simp add: fun_eq_iff move_byte_def)

text \<open>The first routine copies a block as if through a temporary, however the blocks overlap.\<close>

lemma zstd_memmove_correct:
  assumes "d + n \<le> length mem" and "s + n \<le> length mem"
  shows "zstd_memmove mem d s n = store_bytes mem d (bytes_at mem s n)"
  using move_blocks [OF assms order_refl refl] fold_move_byte [of "[0..<n]" n d s mem] fold_move_byte [of "rev [0..<n]" n d s mem]
  by (simp add: zstd_memmove_def Let_def split: if_splits)

text \<open>The second one always copies forwards: it is right unless the destination lies inside the source block
  behind its start.\<close>

lemma range_memmove_correct:
  assumes "d + n \<le> length mem" and "s + n \<le> length mem" and "n \<le> 128" and "d \<le> s \<or> s + n \<le> d"
  shows "range_memmove mem d s n = store_bytes mem d (bytes_at mem s n)"
proof (rule nth_equalityI)
  have e: "range_memmove mem d s n = fold (move_byte n d s) [0..<128] mem"
    by (simp add: range_memmove_def move_byte_fun)
  fix q assume "q < length (range_memmove mem d s n)"
  then have q: "q < length mem" by (simp add: e fold_move_length)
  have "range_memmove mem d s n ! q =
      (if d \<le> q \<and> q - d < n \<and> q - d \<in> set [0..<128] then mem ! (s + (q - d)) else mem ! q)"
    unfolding e
  proof (rule fold_move [OF _ _ _ q])
    show "d + i < length mem \<and> s + i < length mem" if "i < n" for i using that assms(1, 2) by simp
    show "d + j \<noteq> s + i" if asm: "[0..<128] = as @ i # bs" "j \<in> set as" "i < n" "j < n" for as i bs j
    proof -
      have "sorted_wrt (<) (as @ i # bs)" unfolding asm(1) [symmetric] by simp
      then have "j < i" using asm(2) by (auto simp: sorted_wrt_append)
      then show ?thesis using assms(4) asm(3, 4) by linarith
    qed
  qed simp
  then show "range_memmove mem d s n ! q = store_bytes mem d (bytes_at mem s n) ! q"
    using assms(1-3) q by (auto simp: nth_store_bytes nth_bytes_at)
qed (use assms in \<open>simp add: range_memmove_def move_byte_fun fold_move_length\<close>)

lemma range_memmove_overlap:
  "range_memmove [1, 2, 3] 1 0 2 = [1, 1, 1]" "store_bytes [1, 2, 3] 1 (bytes_at [1, 2, 3] 0 2) = [1, 1, 2]"
  by code_simp+

lemma crypto_xor_nth:
  assumes "d + n \<le> length mem" and "a + n \<le> length mem" and "b + n \<le> length mem"
    and "d \<le> a \<or> a + n \<le> d" and "d \<le> b \<or> b + n \<le> d"
  shows "length (crypto_xor mem d a b n) = length mem \<and>
    (\<forall>q < length mem. crypto_xor mem d a b n ! q =
      (if d \<le> q \<and> q < d + n then mem ! (a + (q - d)) XOR mem ! (b + (q - d)) else mem ! q))"
  using assms
proof (induction n)
  case (Suc n)
  let ?m = "crypto_xor mem d a b n"
  have IH: "length ?m = length mem" "\<And>q. q < length mem \<Longrightarrow> ?m ! q =
      (if d \<le> q \<and> q < d + n then mem ! (a + (q - d)) XOR mem ! (b + (q - d)) else mem ! q)"
    using Suc by auto
  have e: "crypto_xor mem d a b (Suc n) = ?m[d + n := ?m ! (a + n) XOR ?m ! (b + n)]" by (simp add: crypto_xor_def)
  have keep: "?m ! (x + n) = mem ! (x + n)" if "d \<le> x \<or> x + Suc n \<le> d" "x + n < length mem" for x
    using IH(2) [OF that(2)] that(1) by auto
  have ab: "?m ! (a + n) = mem ! (a + n)" "?m ! (b + n) = mem ! (b + n)" using keep Suc.prems by simp_all
  have "crypto_xor mem d a b (Suc n) ! q =
      (if d \<le> q \<and> q < d + Suc n then mem ! (a + (q - d)) XOR mem ! (b + (q - d)) else mem ! q)" if "q < length mem" for q
  proof (cases "q = d + n")
    case True
    then show ?thesis using Suc.prems(1) IH(1) by (simp add: e ab)
  next
    case False
    then show ?thesis using IH(2) [OF that] by (auto simp: e)
  qed
  then show ?case using IH(1) by (simp add: e)
qed (auto simp: crypto_xor_def)

text \<open>The exclusive or of two blocks, stored at the destination byte by byte, is the exclusive or of the blocks as they
  were, in place or apart; doing it again with the same second block gives the first one back.\<close>

theorem crypto_xor_roundtrip:
  assumes "d + n \<le> length mem" and "a + n \<le> length mem" and "b + n \<le> length mem"
    and "d \<le> a \<or> a + n \<le> d" and "d + n \<le> b \<or> b + n \<le> d"
  shows "crypto_xor mem d a b n = store_bytes mem d (map2 (XOR) (bytes_at mem a n) (bytes_at mem b n)) \<and>
    crypto_xor (crypto_xor mem d a b n) d d b n = store_bytes mem d (bytes_at mem a n)"
proof -
  let ?m = "crypto_xor mem d a b n"
  have b': "d \<le> b \<or> b + n \<le> d" using assms(5) by auto
  have x: "length ?m = length mem" "\<And>q. q < length mem \<Longrightarrow> ?m ! q =
      (if d \<le> q \<and> q < d + n then mem ! (a + (q - d)) XOR mem ! (b + (q - d)) else mem ! q)"
    using crypto_xor_nth [OF assms(1-4) b'] by simp_all
  have y: "length (crypto_xor ?m d d b n) = length mem" "\<And>q. q < length mem \<Longrightarrow> crypto_xor ?m d d b n ! q =
      (if d \<le> q \<and> q < d + n then ?m ! (d + (q - d)) XOR ?m ! (b + (q - d)) else ?m ! q)"
    using crypto_xor_nth [of d n ?m d b] assms(1, 3) b' x(1) by simp_all
  have "?m = store_bytes mem d (map2 (XOR) (bytes_at mem a n) (bytes_at mem b n))"
    using assms x by (intro nth_equalityI) (auto simp: nth_store_bytes nth_bytes_at)
  moreover have "crypto_xor ?m d d b n ! q = store_bytes mem d (bytes_at mem a n) ! q" if q: "q < length mem" for q
  proof (cases "d \<le> q \<and> q < d + n")
    case True
    then have "?m ! (b + (q - d)) = mem ! (b + (q - d))" using x(2) [of "b + (q - d)"] assms(3, 5) by auto
    moreover have "q - d < n" using True by auto
    then have "bytes_at mem a n ! (q - d) = mem ! (a + (q - d))" by (rule nth_bytes_at [OF assms(2)])
    ultimately show ?thesis using True q x(2) [OF q] y(2) [OF q] assms(1, 2)
      by (simp add: nth_store_bytes xor.assoc)
  next
    case False
    then show ?thesis using q x(2) [OF q] y(2) [OF q] assms(1, 2) by (auto simp: nth_store_bytes)
  qed
  ultimately show ?thesis using y(1) assms(1, 2) by (auto intro: nth_equalityI)
qed

theorem crypto_xor_roundtrip_witness:
  "crypto_xor (crypto_xor [1, 2, 7, 9] 0 0 2 2) 0 0 2 2 = [1, 2, 7, 9]"
proof -
  have "crypto_xor (crypto_xor [1, 2, 7, 9] 0 0 2 2) 0 0 2 2 = store_bytes [1, 2, 7, 9] 0 (bytes_at [1, 2, 7, 9] 0 2)"
    by (rule crypto_xor_roundtrip [THEN conjunct2]) simp_all
  also have "\<dots> = [1, 2, 7, 9]" by code_simp
  finally show ?thesis .
qed

text \<open>The comparison is zero exactly if the blocks are equal.\<close>

lemma or_eq_0_iff: "a OR b = 0 \<longleftrightarrow> a = 0 \<and> b = 0" for a b :: u64
  by (auto simp: bit_eq_iff bit_or_iff)

lemma ucast_xor_0: "(ucast (x XOR y) :: u64) = 0 \<longleftrightarrow> x = y" for x y :: u8
proof -
  have "(ucast (x XOR y) :: u64) = 0 \<longleftrightarrow> x XOR y = 0" by (simp add: unat_eq_zero flip: unat_eq_zero)
  then show ?thesis by (metis bit.xor_self xor.assoc xor.right_neutral bit.xor_left_self)
qed

lemma crypto_memneq_zero_iff:
  assumes "a + n \<le> length mem" and "b + n \<le> length mem"
  shows "crypto_memneq mem a b n = 0 \<longleftrightarrow> bytes_at mem a n = bytes_at mem b n"
proof -
  have "fold (\<lambda>i neq. neq OR ucast (mem ! (a + i) XOR mem ! (b + i))) is z = (0 :: u64) \<longleftrightarrow>
      z = 0 \<and> (\<forall>i \<in> set is. mem ! (a + i) = mem ! (b + i))" for "is" z
    by (induction "is" arbitrary: z) (auto simp: or_eq_0_iff ucast_xor_0)
  then have "crypto_memneq mem a b n = 0 \<longleftrightarrow> (\<forall>i < n. mem ! (a + i) = mem ! (b + i))" by (auto simp: crypto_memneq_def)
  also have "\<dots> \<longleftrightarrow> bytes_at mem a n = bytes_at mem b n"
    using assms by (auto simp: list_eq_iff_nth_eq nth_bytes_at)
  finally show ?thesis .
qed

end
