(* ===== verification/Timecounter.thy ===== *)
theory Timecounter
  imports Bpf_Prelude
begin

text \<open>
  Model of \<^verbatim>\<open>targets/timecounter/pre_include.h\<close>: the conversion of the cycles of a free-running counter into
  nanoseconds.  A counter of \<open>b\<close> bits wraps around, a cycle is \<open>mult / 2 ^ shift\<close> nanoseconds, and the part of a
  nanosecond that remains is carried in \<^verbatim>\<open>frac\<close>.  The callback \<^verbatim>\<open>read\<close> is the function of the test hardware below.

  The theorems relate the conversions to unbounded numbers.
\<close>

section \<open>The code\<close>

definition CYCLECOUNTER_MASK :: "nat \<Rightarrow> u64" where
  "CYCLECOUNTER_MASK b = (if b < 64 then push_bit b 1 - 1 else - 1)"

record cyclecounter =
  cc_mask :: u64
  cc_mult :: u32
  cc_shift :: u32

record timecounter =
  tc_cc :: cyclecounter
  tc_cycle_last :: u64
  tc_nsec :: u64
  tc_mask :: u64
  tc_frac :: u64

record timecounter_hw =
  hw_cc :: cyclecounter
  hw_now :: u64

text \<open>The second component is the out-parameter \<^verbatim>\<open>frac\<close>.\<close>

definition cyclecounter_cyc2ns :: "cyclecounter \<Rightarrow> u64 \<Rightarrow> u64 \<Rightarrow> u64 \<Rightarrow> u64 \<times> u64" where
  "cyclecounter_cyc2ns cc cycles msk frac =
     (let ns = cycles; ns = ns * ucast (cc_mult cc) + frac; frac = ns AND msk
      in (drop_bit (unat (cc_shift cc)) ns, frac))"

definition timecounter_adjtime :: "timecounter \<Rightarrow> u64 \<Rightarrow> timecounter" where
  "timecounter_adjtime tc delta = tc\<lparr>tc_nsec := tc_nsec tc + delta\<rparr>"

definition cc_cyc2ns_backwards :: "cyclecounter \<Rightarrow> u64 \<Rightarrow> u64 \<Rightarrow> u64" where
  "cc_cyc2ns_backwards cc cycles frac = drop_bit (unat (cc_shift cc)) (cycles * ucast (cc_mult cc) - frac)"

definition timecounter_cyc2time :: "timecounter \<Rightarrow> u64 \<Rightarrow> u64" where
  "timecounter_cyc2time tc cycle_tstamp =
     (let cc = tc_cc tc;
          delta = (cycle_tstamp - tc_cycle_last tc) AND cc_mask cc;
          nsec = tc_nsec tc; frac = tc_frac tc
      in if delta > cc_mask cc div 2
         then let delta = (tc_cycle_last tc - cycle_tstamp) AND cc_mask cc
              in nsec - cc_cyc2ns_backwards cc delta frac
         else nsec + fst (cyclecounter_cyc2ns cc delta (tc_mask tc) frac))"

definition timecounter_hw_read :: "timecounter_hw \<Rightarrow> u64" where
  "timecounter_hw_read hw = hw_now hw"

section \<open>No drift\<close>

text \<open>Converting one span of cycles after the other, with the remainder carried on.\<close>

primrec convert_spans :: "cyclecounter \<Rightarrow> u64 \<Rightarrow> u64 \<Rightarrow> u64 list \<Rightarrow> u64 list \<times> u64" where
  "convert_spans cc msk frac [] = ([], frac)"
| "convert_spans cc msk frac (c # cs) =
     (let (ns, frac) = cyclecounter_cyc2ns cc c msk frac; (nss, frac) = convert_spans cc msk frac cs in (ns # nss, frac))"

lemma mask_eq: "b \<le> 64 \<Longrightarrow> CYCLECOUNTER_MASK b = mask b"
proof (cases "b = 64")
  case True
  then show ?thesis by (intro bit_eqI) (simp add: CYCLECOUNTER_MASK_def bit_mask_iff)
qed (simp add: CYCLECOUNTER_MASK_def mask_eq_exp_minus_1 push_bit_eq_mult)

lemma cyc2ns_exact:
  assumes "unat c * unat (cc_mult cc) + unat f < 2 ^ 64" and "unat (cc_shift cc) \<le> 64"
  shows "unat (fst (cyclecounter_cyc2ns cc c (CYCLECOUNTER_MASK (unat (cc_shift cc))) f)) =
      (unat c * unat (cc_mult cc) + unat f) div 2 ^ unat (cc_shift cc)"
    and "unat (snd (cyclecounter_cyc2ns cc c (CYCLECOUNTER_MASK (unat (cc_shift cc))) f)) =
      (unat c * unat (cc_mult cc) + unat f) mod 2 ^ unat (cc_shift cc)"
proof -
  have "unat (c * ucast (cc_mult cc) + f) = unat c * unat (cc_mult cc) + unat f"
    using assms(1) by (simp add: unat_word_ariths)
  then show "unat (fst (cyclecounter_cyc2ns cc c (CYCLECOUNTER_MASK (unat (cc_shift cc))) f)) =
      (unat c * unat (cc_mult cc) + unat f) div 2 ^ unat (cc_shift cc)"
    "unat (snd (cyclecounter_cyc2ns cc c (CYCLECOUNTER_MASK (unat (cc_shift cc))) f)) =
      (unat c * unat (cc_mult cc) + unat f) mod 2 ^ unat (cc_shift cc)"
    using assms(2) by (simp_all add: cyclecounter_cyc2ns_def Let_def mask_eq unat_and_mask unat_drop_bit)
qed

lemma carry:
  fixes S r w :: nat
  assumes "0 < w"
  shows "(S + r) div w = (S + r mod w) div w + r div w" and "(S + r) mod w = (S + r mod w) mod w"
proof -
  have "S + r = S + r mod w + r div w * w" by simp
  then have "(S + r) div w = (S + r mod w + r div w * w) div w" by (rule arg_cong)
  also have "\<dots> = r div w + (S + r mod w) div w" using assms by (intro div_mult_self1) simp
  finally show "(S + r) div w = (S + r mod w) div w + r div w" by simp
qed (simp add: mod_simps)

lemma convert_spans_exact:
  assumes "unat (cc_shift cc) \<le> 64" and "unat f < 2 ^ unat (cc_shift cc)"
    and "\<And>c. c \<in> set cs \<Longrightarrow> unat c * unat (cc_mult cc) + 2 ^ unat (cc_shift cc) \<le> 2 ^ 64"
    and "convert_spans cc (CYCLECOUNTER_MASK (unat (cc_shift cc))) f cs = (nss, f')"
  shows "sum_list (map unat nss) = (sum_list (map unat cs) * unat (cc_mult cc) + unat f) div 2 ^ unat (cc_shift cc) \<and>
    unat f' = (sum_list (map unat cs) * unat (cc_mult cc) + unat f) mod 2 ^ unat (cc_shift cc)"
  using assms(2-4)
proof (induction cs arbitrary: f nss f')
  case (Cons c cs)
  let ?w = "2 ^ unat (cc_shift cc) :: nat" and ?m = "unat (cc_mult cc)"
  let ?s = "cyclecounter_cyc2ns cc c (CYCLECOUNTER_MASK (unat (cc_shift cc))) f"
  obtain ns1 where ns1: "convert_spans cc (CYCLECOUNTER_MASK (unat (cc_shift cc))) (snd ?s) cs = (ns1, f')" "nss = fst ?s # ns1"
    using Cons.prems(3) by (cases "convert_spans cc (CYCLECOUNTER_MASK (unat (cc_shift cc))) (snd ?s) cs") (simp add: split_def Let_def)
  have fit: "unat c * ?m + unat f < 2 ^ 64" using Cons.prems(1) Cons.prems(2) [of c] by simp
  note e = cyc2ns_exact [OF fit assms(1)]
  have "sum_list (map unat ns1) = (sum_list (map unat cs) * ?m + unat (snd ?s)) div ?w \<and>
      unat f' = (sum_list (map unat cs) * ?m + unat (snd ?s)) mod ?w"
    using Cons.IH [OF _ _ ns1(1)] Cons.prems(2) e(2) by simp
  moreover have "sum_list (map unat (c # cs)) * ?m + unat f = sum_list (map unat cs) * ?m + (unat c * ?m + unat f)"
    by (simp add: add_mult_distrib)
  moreover have "0 < ?w" by simp
  ultimately show ?case
    using carry [of ?w "sum_list (map unat cs) * ?m" "unat c * ?m + unat f"]
    unfolding ns1(2) list.map sum_list.Cons e by presburger
qed simp

section \<open>Time stamps\<close>

text \<open>The signed distance of a time stamp from the last reading, and the conditions under which its conversion does not
  wrap: the product fits into 64 bits and the result is a time.\<close>

definition cyc_distance :: "timecounter \<Rightarrow> u64 \<Rightarrow> int" where
  "cyc_distance tc t =
     (let delta = (t - tc_cycle_last tc) AND cc_mask (tc_cc tc)
      in if delta > cc_mask (tc_cc tc) div 2 then - uint ((tc_cycle_last tc - t) AND cc_mask (tc_cc tc)) else uint delta)"

definition scaled :: "timecounter \<Rightarrow> int \<Rightarrow> int" where
  "scaled tc e = e * uint (cc_mult (tc_cc tc)) + uint (tc_frac tc)"

definition time_at :: "timecounter \<Rightarrow> int \<Rightarrow> int" where
  "time_at tc e =
     (if e < 0 then uint (tc_nsec tc) - (- scaled tc e) div 2 ^ unat (cc_shift (tc_cc tc))
      else uint (tc_nsec tc) + scaled tc e div 2 ^ unat (cc_shift (tc_cc tc)))"

definition cyc_fits :: "timecounter \<Rightarrow> int \<Rightarrow> bool" where
  "cyc_fits tc e \<longleftrightarrow> \<bar>e\<bar> * uint (cc_mult (tc_cc tc)) < 2 ^ 64 \<and> scaled tc e < 2 ^ 64 \<and> (e < 0 \<longrightarrow> scaled tc e \<le> 0) \<and>
     0 \<le> time_at tc e \<and> time_at tc e < 2 ^ 64"

lemma uint_mult_fits:
  fixes a :: u64 and b :: u32
  assumes "uint a * uint b < 2 ^ 64"
  shows "uint (a * ucast b) = uint a * uint b"
proof -
  have "int (unat a * unat b) < 2 ^ 64" using assms by (simp add: of_nat_mult)
  then have "unat a * unat b < 2 ^ 64" by (simp only: of_nat_less_numeral_power_cancel_iff)
  then have "unat (a * ucast b) = unat a * unat b" by (simp add: unat_word_ariths)
  then have "int (unat (a * ucast b)) = int (unat a * unat b)" by simp
  then show ?thesis by (simp add: of_nat_mult)
qed

lemma uint_add_fits: "uint a + uint b < 2 ^ 64 \<Longrightarrow> uint (a + b) = uint a + uint b" for a b :: u64
  using uint_add_lem [of a b] by simp

lemma uint_sub_fits: "uint b \<le> uint a \<Longrightarrow> uint (a - b) = uint a - uint b" for a b :: u64
  by (simp add: uint_sub_lem)

lemma uint_drop: "uint (drop_bit n a) = uint a div 2 ^ n" for a :: u64
proof -
  have "int (unat (drop_bit n a)) = int (unat a div 2 ^ n)" by (simp only: unat_drop_bit)
  then show ?thesis by (simp add: zdiv_int)
qed

lemma masked_negation: "(- x) AND mask b = 0 \<longleftrightarrow> x AND mask b = 0" for x :: u64
proof -
  have "take_bit b (- x) = 0 \<longleftrightarrow> take_bit b x = 0"
    by (simp add: take_bit_eq_0_iff)
  then show ?thesis by (simp add: take_bit_eq_mask)
qed

lemma cyc2time_value:
  assumes "cc_mask (tc_cc tc) = CYCLECOUNTER_MASK b" and "b \<le> 64" and "cyc_fits tc (cyc_distance tc t)"
  shows "uint (timecounter_cyc2time tc t) = time_at tc (cyc_distance tc t)"
proof -
  let ?cc = "tc_cc tc" and ?e = "cyc_distance tc t" and ?f = "tc_frac tc"
  let ?s = "unat (cc_shift ?cc)"
  let ?fwd = "(t - tc_cycle_last tc) AND cc_mask ?cc" and ?bwd = "(tc_cycle_last tc - t) AND cc_mask ?cc"
  have fits: "\<bar>?e\<bar> * uint (cc_mult ?cc) < 2 ^ 64" "scaled tc ?e < 2 ^ 64" "?e < 0 \<Longrightarrow> scaled tc ?e \<le> 0"
    "0 \<le> time_at tc ?e" "time_at tc ?e < 2 ^ 64"
    using assms(3) by (auto simp: cyc_fits_def)
  show ?thesis
  proof (cases "?fwd > cc_mask ?cc div 2")
    case True
    then have e: "?e = - uint ?bwd" by (simp add: cyc_distance_def)
    have "?fwd \<noteq> 0" using True by auto
    then have "?bwd \<noteq> 0" using masked_negation [of "t - tc_cycle_last tc" b] assms(1, 2) by (simp add: mask_eq)
    then have neg: "?e < 0" using e by (simp add: uint_0_iff order.not_eq_order_implies_strict)
    have m: "uint (?bwd * ucast (cc_mult ?cc)) = uint ?bwd * uint (cc_mult ?cc)" using fits(1) e by (intro uint_mult_fits) simp
    have "uint (?bwd * ucast (cc_mult ?cc) - ?f) = - scaled tc ?e"
      using fits(3) [OF neg] by (subst uint_sub_fits) (simp_all add: m e scaled_def)
    then have d: "uint (cc_cyc2ns_backwards ?cc ?bwd ?f) = (- scaled tc ?e) div 2 ^ ?s"
      by (simp add: cc_cyc2ns_backwards_def uint_drop)
    have "timecounter_cyc2time tc t = tc_nsec tc - cc_cyc2ns_backwards ?cc ?bwd ?f"
      using True by (simp add: timecounter_cyc2time_def Let_def)
    moreover have "uint (tc_nsec tc - cc_cyc2ns_backwards ?cc ?bwd ?f) = uint (tc_nsec tc) - (- scaled tc ?e) div 2 ^ ?s"
      using fits(4) neg d by (subst uint_sub_fits) (simp_all add: time_at_def)
    ultimately show ?thesis using neg by (simp add: time_at_def)
  next
    case False
    then have e: "?e = uint ?fwd" by (simp add: cyc_distance_def)
    then have pos: "\<not> ?e < 0" by simp
    have m: "uint (?fwd * ucast (cc_mult ?cc)) = uint ?fwd * uint (cc_mult ?cc)" using fits(1) e by (intro uint_mult_fits) simp
    have "uint (?fwd * ucast (cc_mult ?cc) + ?f) = scaled tc ?e"
      using fits(2) by (subst uint_add_fits) (simp_all add: m e scaled_def)
    then have d: "uint (fst (cyclecounter_cyc2ns ?cc ?fwd (tc_mask tc) ?f)) = scaled tc ?e div 2 ^ ?s"
      by (simp add: cyclecounter_cyc2ns_def Let_def uint_drop)
    have "timecounter_cyc2time tc t = tc_nsec tc + fst (cyclecounter_cyc2ns ?cc ?fwd (tc_mask tc) ?f)"
      using False by (simp add: timecounter_cyc2time_def Let_def)
    moreover have "uint (tc_nsec tc + fst (cyclecounter_cyc2ns ?cc ?fwd (tc_mask tc) ?f)) =
        uint (tc_nsec tc) + scaled tc ?e div 2 ^ ?s"
      using fits(5) pos d by (subst uint_add_fits) (simp_all add: time_at_def)
    ultimately show ?thesis using pos by (simp add: time_at_def)
  qed
qed

lemma scaled_mono: "e1 \<le> e2 \<Longrightarrow> scaled tc e1 \<le> scaled tc e2"
  by (simp add: scaled_def mult_right_mono)

lemma time_at_mono:
  assumes "e1 \<le> e2" and "e1 < 0 \<Longrightarrow> scaled tc e1 \<le> 0" and "e2 < 0 \<Longrightarrow> scaled tc e2 \<le> 0"
  shows "time_at tc e1 \<le> time_at tc e2"
proof -
  let ?w = "2 ^ unat (cc_shift (tc_cc tc)) :: int"
  have m: "scaled tc e1 \<le> scaled tc e2" by (rule scaled_mono [OF assms(1)])
  have n: "0 \<le> scaled tc e2" if "\<not> e2 < 0" using that by (simp add: scaled_def)
  consider "e2 < 0" | "e1 < 0" "\<not> e2 < 0" | "\<not> e1 < 0" by linarith
  then show ?thesis
  proof cases
    case 1
    then have "(- scaled tc e2) div ?w \<le> (- scaled tc e1) div ?w" using m by (intro zdiv_mono1) simp_all
    then show ?thesis using 1 assms(1) by (simp add: time_at_def)
  next
    case 2
    have "0 \<le> (- scaled tc e1) div ?w" "0 \<le> scaled tc e2 div ?w" using assms(2) 2 n by (simp_all add: pos_imp_zdiv_nonneg_iff)
    then show ?thesis using 2 by (simp add: time_at_def)
  next
    case 3
    then have "scaled tc e1 div ?w \<le> scaled tc e2 div ?w" using m by (intro zdiv_mono1) simp_all
    then show ?thesis using 3 assms(1) by (simp add: time_at_def)
  qed
qed

section \<open>Properties\<close>

text \<open>C36: Converting any number of spans of cycles one after the other, with the remainder carried on, does not
  drift: the nanoseconds add up to the conversion of all the cycles together, as long as no single product
  overflows, and the remainder is that of the whole.\<close>

theorem timecounter_no_drift:
  assumes "unat (cc_shift cc) < 64" and "unat f < 2 ^ unat (cc_shift cc)"
    and "\<And>c. c \<in> set cs \<Longrightarrow> unat c * unat (cc_mult cc) + 2 ^ unat (cc_shift cc) \<le> 2 ^ 64"
    and "convert_spans cc (CYCLECOUNTER_MASK (unat (cc_shift cc))) f cs = (nss, f')"
  shows "sum_list (map unat nss) = (sum_list (map unat cs) * unat (cc_mult cc) + unat f) div 2 ^ unat (cc_shift cc) \<and>
    unat f' = (sum_list (map unat cs) * unat (cc_mult cc) + unat f) mod 2 ^ unat (cc_shift cc)"
  using convert_spans_exact [OF _ assms(2-4)] assms(1) by simp

theorem timecounter_no_drift_witness:
  "sum_list (map unat (fst (convert_spans \<lparr>cc_mask = 255, cc_mult = 3, cc_shift = 1\<rparr> 1 0 [5, 5]))) = (10 * 3 + 0) div 2"
proof -
  have m: "CYCLECOUNTER_MASK (unat (1 :: u32)) = 1" by code_simp
  obtain nss f' where e: "convert_spans \<lparr>cc_mask = 255, cc_mult = 3, cc_shift = 1\<rparr> 1 0 [5, 5] = (nss, f')" by (rule prod.exhaust)
  from timecounter_no_drift [of "\<lparr>cc_mask = 255, cc_mult = 3, cc_shift = 1\<rparr>" 0 "[5, 5]" nss f'] e m
  show ?thesis by auto
qed

text \<open>The times of time stamps are ordered as the time stamps are: of two stamps around the last reading the one
  with the smaller signed distance gets no later time, whether both lie ahead, both behind, or one on each side,
  as long as neither conversion wraps around.\<close>

theorem cyc2time_monotone:
  assumes "cc_mask (tc_cc tc) = CYCLECOUNTER_MASK b" and "b \<le> 64"
    and "cyc_fits tc (cyc_distance tc t1)" and "cyc_fits tc (cyc_distance tc t2)"
    and "cyc_distance tc t1 \<le> cyc_distance tc t2"
  shows "timecounter_cyc2time tc t1 \<le> timecounter_cyc2time tc t2"
  unfolding word_le_def cyc2time_value [OF assms(1, 2, 3)] cyc2time_value [OF assms(1, 2, 4)]
  using assms(3-5) by (intro time_at_mono) (simp_all add: cyc_fits_def)

abbreviation sample_timecounter :: timecounter where
  "sample_timecounter \<equiv> \<lparr>tc_cc = \<lparr>cc_mask = 255, cc_mult = 2, cc_shift = 1\<rparr>, tc_cycle_last = 10, tc_nsec = 1016,
     tc_mask = 1, tc_frac = 0\<rparr>"

theorem cyc2time_monotone_witness:
  "timecounter_cyc2time sample_timecounter 7 \<le> timecounter_cyc2time sample_timecounter 14"
proof (rule cyc2time_monotone)
  show "cc_mask (tc_cc sample_timecounter) = CYCLECOUNTER_MASK 8" by code_simp
  show "cyc_fits sample_timecounter (cyc_distance sample_timecounter 7)" by code_simp
  show "cyc_fits sample_timecounter (cyc_distance sample_timecounter 14)" by code_simp
  show "cyc_distance sample_timecounter 7 \<le> cyc_distance sample_timecounter 14" by code_simp
qed simp

text \<open>Behind the last reading the remainder is subtracted from the product.  When it is larger, the difference wraps around
  and the time is off by about \<open>2 ^ (64 - shift)\<close> nanoseconds: one cycle of a quarter of a nanosecond before the
  time 1000.\<close>

lemma cyc2ns_backwards_wraps:
  "timecounter_cyc2time \<lparr>tc_cc = \<lparr>cc_mask = 255, cc_mult = 1, cc_shift = 2\<rparr>, tc_cycle_last = 10, tc_nsec = 1000,
     tc_mask = 3, tc_frac = 3\<rparr> 9 = 1000 - (2 ^ 62 - 1)"
  by code_simp

end
