(* ===== verification/Verifier_Env.thy ===== *)
theory Verifier_Env
  imports Fixups Cnum
begin

text \<open>
  Models of the functions of the verifier environments under which pieces of the kernel's verifier are compiled:
  \<^verbatim>\<open>shims/liveness/include/linux/bpf_verifier.h\<close> (sets of stack slots, overflow test, kinds of calls,
  subprograms), \<^verbatim>\<open>shims/cfg/include/linux/bpf_verifier.h\<close> (marks on instructions, subprograms),
  \<^verbatim>\<open>shims/backtrack/include/linux/bpf_verifier.h\<close> (precision masks) and
  \<^verbatim>\<open>shims/states/include/linux/bpf_verifier.h\<close> (tracked numbers, registers).  The records have the fields these
  functions use; an array of the environment is a list and a pointer that is only compared with \<^verbatim>\<open>NULL\<close> an option.

  The specifications are sets: of slots, of values a register may have, and the partition of a program into
  subprograms.
\<close>

section \<open>Liveness\<close>

definition spis_or :: "u64 \<Rightarrow> u64 \<Rightarrow> u64" where "spis_or a b = a OR b"
definition spis_and :: "u64 \<Rightarrow> u64 \<Rightarrow> u64" where "spis_and a b = a AND b"
definition spis_not :: "u64 \<Rightarrow> u64" where "spis_not a = NOT a"
definition spis_equal :: "u64 \<Rightarrow> u64 \<Rightarrow> bool" where "spis_equal a b \<longleftrightarrow> a = b"
definition spis_is_zero :: "u64 \<Rightarrow> bool" where "spis_is_zero a \<longleftrightarrow> a = 0"
definition spis_test_bit :: "u64 \<Rightarrow> u32 \<Rightarrow> bool" where "spis_test_bit a b \<longleftrightarrow> c_true (a AND push_bit (unat b) 1)"

function spis_range_loop :: "u64 \<Rightarrow> u32 \<Rightarrow> u32 \<Rightarrow> u64" where
  "spis_range_loop m i hi = (if i \<le> hi \<and> i < 64 then spis_range_loop (m OR push_bit (unat i) 1) (i + 1) hi else m)"
  by pat_completeness auto
termination
proof (relation "measure (\<lambda>(m, i, hi). 64 - unat i)", simp)
  fix m :: u64 and i hi :: u32
  assume "i \<le> hi \<and> i < 64"
  then have "unat i < 64" "unat (i + 1) = unat i + 1" by (auto simp: word_less_nat_alt unat_word_ariths)
  then show "((m OR push_bit (unat i) 1, i + 1, hi), m, i, hi) \<in> measure (\<lambda>(m, i, hi). 64 - unat i)" by simp
qed

declare spis_range_loop.simps [simp del]

definition spis_or_range :: "u64 \<Rightarrow> u32 \<Rightarrow> u32 \<Rightarrow> u64" where
  "spis_or_range msk lo hi = spis_range_loop msk lo hi"

text \<open>The sum is an \<^verbatim>\<open>s32\<close>; the second component is the out-parameter.\<close>

definition check_add_overflow :: "16 word \<Rightarrow> 16 word \<Rightarrow> bool \<times> 16 word" where
  "check_add_overflow a b =
     (let r = (scast a :: u32) + scast b; out = (ucast r :: 16 word) in (r \<noteq> scast out, out))"

text \<open>\<^verbatim>\<open>BPF_PSEUDO_CALL\<close> and \<^verbatim>\<open>BPF_PSEUDO_KFUNC_CALL\<close> are constants of the kernel's interface and arguments here.\<close>

definition bpf_helper_call :: "bpf_insn \<Rightarrow> bool" where
  "bpf_helper_call insn \<longleftrightarrow> icode insn = BPF_JMP OR BPF_CALL \<and> src_reg insn = 0"

definition bpf_pseudo_call :: "4 word \<Rightarrow> bpf_insn \<Rightarrow> bool" where
  "bpf_pseudo_call pseudo_call insn \<longleftrightarrow> icode insn = BPF_JMP OR BPF_CALL \<and> src_reg insn = pseudo_call"

definition bpf_pseudo_kfunc_call :: "4 word \<Rightarrow> bpf_insn \<Rightarrow> bool" where
  "bpf_pseudo_kfunc_call pseudo_kfunc insn \<longleftrightarrow> icode insn = BPF_JMP OR BPF_CALL \<and> src_reg insn = pseudo_kfunc"

text \<open>\<open>starts\<close> are the \<^verbatim>\<open>start\<close> fields of \<^verbatim>\<open>subprog_info\<close>.  The comparison of the \<^verbatim>\<open>int\<close> offset with the unsigned
  field converts the offset.\<close>

fun find_subprog_loop :: "u32 list \<Rightarrow> u32 \<Rightarrow> nat list \<Rightarrow> nat" where
  "find_subprog_loop starts off [] = 0"
| "find_subprog_loop starts off (i # is) = (if off < starts ! i then i - 1 else find_subprog_loop starts off is)"

definition bpf_find_subprog :: "u32 list \<Rightarrow> cint \<Rightarrow> cint \<Rightarrow> nat" where
  "bpf_find_subprog starts subprog_cnt off = find_subprog_loop starts (word_of_int off) [1..<nat subprog_cnt + 1]"

section \<open>Control flow\<close>

record cfg_aux =
  jmp_point :: bool
  prune_point :: bool
  force_checkpoint :: bool
  calls_callback :: bool

definition mark_prune_point :: "cfg_aux list \<Rightarrow> nat \<Rightarrow> cfg_aux list" where
  "mark_prune_point aux idx = aux[idx := (aux ! idx)\<lparr>prune_point := True\<rparr>]"

definition mark_force_checkpoint :: "cfg_aux list \<Rightarrow> nat \<Rightarrow> cfg_aux list" where
  "mark_force_checkpoint aux idx = aux[idx := (aux ! idx)\<lparr>force_checkpoint := True\<rparr>]"

definition mark_calls_callback :: "cfg_aux list \<Rightarrow> nat \<Rightarrow> cfg_aux list" where
  "mark_calls_callback aux idx = aux[idx := (aux ! idx)\<lparr>calls_callback := True\<rparr>]"

definition bpf_calls_callback :: "cfg_aux list \<Rightarrow> nat \<Rightarrow> bool" where
  "bpf_calls_callback aux idx \<longleftrightarrow> calls_callback (aux ! idx)"

definition mark_jmp_point :: "cfg_aux list \<Rightarrow> nat \<Rightarrow> cfg_aux list" where
  "mark_jmp_point aux idx = aux[idx := (aux ! idx)\<lparr>jmp_point := True\<rparr>]"

text \<open>The result is the index of the entry the pointer points to.\<close>

definition bpf_find_containing_subprog :: "u32 list \<Rightarrow> u32 \<Rightarrow> cint \<Rightarrow> nat" where
  "bpf_find_containing_subprog starts subprog_cnt off =
     (case find (\<lambda>i. word_of_int off < starts ! i) [1..<unat subprog_cnt + 1] of None \<Rightarrow> 0 | Some i \<Rightarrow> i - 1)"

text \<open>The allocator of 24 slots of 256 bytes; the result is the slot.\<close>

definition cfg_zalloc_slot :: "cint \<Rightarrow> u64 \<Rightarrow> nat option" where
  "cfg_zalloc_slot slot sz = (if slot < 0 \<or> slot \<ge> 24 then None else if sz > 256 then None else Some (nat slot))"

section \<open>Precision masks\<close>

record backtrack_state =
  reg_masks :: "u32 list"
  stack_masks :: "u64 list"
  stack_arg_masks :: "u8 list"

definition bpf_bt_set_frame_reg :: "backtrack_state \<Rightarrow> nat \<Rightarrow> u32 \<Rightarrow> backtrack_state" where
  "bpf_bt_set_frame_reg bt fr reg = bt\<lparr>reg_masks := (reg_masks bt)[fr := reg_masks bt ! fr OR push_bit (unat reg) 1]\<rparr>"

definition bpf_bt_set_frame_slot :: "backtrack_state \<Rightarrow> nat \<Rightarrow> u32 \<Rightarrow> backtrack_state" where
  "bpf_bt_set_frame_slot bt fr slot = bt\<lparr>stack_masks := (stack_masks bt)[fr := stack_masks bt ! fr OR push_bit (unat slot) 1]\<rparr>"

definition bt_set_frame_stack_arg_slot :: "backtrack_state \<Rightarrow> nat \<Rightarrow> u32 \<Rightarrow> backtrack_state" where
  "bt_set_frame_stack_arg_slot bt fr slot =
     bt\<lparr>stack_arg_masks := (stack_arg_masks bt)[fr := ucast (ucast (stack_arg_masks bt ! fr) OR BIT (unat slot))]\<rparr>"

definition bt_is_frame_reg_set :: "backtrack_state \<Rightarrow> nat \<Rightarrow> u32 \<Rightarrow> bool" where
  "bt_is_frame_reg_set bt fr reg \<longleftrightarrow> c_true (reg_masks bt ! fr AND push_bit (unat reg) 1)"

definition bt_is_frame_slot_set :: "backtrack_state \<Rightarrow> nat \<Rightarrow> u32 \<Rightarrow> bool" where
  "bt_is_frame_slot_set bt fr slot \<longleftrightarrow> c_true (stack_masks bt ! fr AND push_bit (unat slot) 1)"

section \<open>States\<close>

record st_tnum =
  tn_value :: u64
  tn_mask :: u64

definition tnum_in :: "st_tnum \<Rightarrow> st_tnum \<Rightarrow> bool" where
  "tnum_in old cur =
     (if c_true (tn_mask cur AND NOT (tn_mask old)) then False
      else let cur = cur\<lparr>tn_value := tn_value cur AND NOT (tn_mask old)\<rparr> in tn_value old = tn_value cur)"

record st_reg =
  sr_type :: u32
  sr_var_off :: st_tnum
  sr_r64 :: cnum64
  sr_r32 :: cnum32
  sr_id :: u32
  sr_parent_id :: u32
  sr_precise :: bool

abbreviation ST_NOT_INIT :: u32 where "ST_NOT_INIT \<equiv> 0"
abbreviation ST_SCALAR_VALUE :: u32 where "ST_SCALAR_VALUE \<equiv> 1"

definition bpf_register_is_null :: "st_reg \<Rightarrow> bool" where
  "bpf_register_is_null reg \<longleftrightarrow> sr_type reg = ST_SCALAR_VALUE \<and> tn_mask (sr_var_off reg) = 0 \<and> tn_value (sr_var_off reg) = 0"

definition bpf_mark_reg_not_init :: "st_reg \<Rightarrow> st_reg" where
  "bpf_mark_reg_not_init reg = reg\<lparr>sr_type := ST_NOT_INIT, sr_id := 0, sr_parent_id := 0, sr_precise := False\<rparr>"

definition bpf_mark_reg_unknown_imprecise :: "st_reg \<Rightarrow> st_reg" where
  "bpf_mark_reg_unknown_imprecise reg =
     reg\<lparr>sr_type := ST_SCALAR_VALUE, sr_id := 0, sr_parent_id := 0, sr_precise := False,
       sr_var_off := \<lparr>tn_value = 0, tn_mask = - 1\<rparr>, sr_r64 := CNUM64_UNBOUNDED, sr_r32 := CNUM32_UNBOUNDED\<rparr>"

definition states_memcmp :: "u8 list \<Rightarrow> u8 list \<Rightarrow> nat \<Rightarrow> cint" where
  "states_memcmp x y n =
     (case find (\<lambda>i. x ! i \<noteq> y ! i) [0..<min n 512] of None \<Rightarrow> 0 | Some i \<Rightarrow> uint (x ! i) - uint (y ! i))"

text \<open>\<^verbatim>\<open>(int)((-off - 1) / BPF_REG_SIZE)\<close>: the division of C rounds towards zero.\<close>

definition bpf_get_spi :: "cint \<Rightarrow> cint" where
  "bpf_get_spi off = (let a = - off - 1 in if a \<ge> 0 then a div 8 else - ((- a) div 8))"

section \<open>Sets of slots and precision masks\<close>

definition slots :: "u64 \<Rightarrow> nat set" where
  "slots m = {i. i < 64 \<and> bit m i}"

lemma bit_push_single: "bit (push_bit k 1 :: 'a::len word) j \<longleftrightarrow> j = k \<and> k < LENGTH('a)"
  unfolding bit_push_bit_iff by (auto simp: bit_1_iff)

lemma slots_or_single: "k < 64 \<Longrightarrow> slots (m OR push_bit k 1) = insert k (slots m)"
  unfolding slots_def bit_or_iff bit_push_single by auto

lemma spis_range_slots: "slots (spis_range_loop m i hi) = slots m \<union> {j. unat i \<le> j \<and> j \<le> unat hi \<and> j < 64}"
proof (induction m i hi rule: spis_range_loop.induct)
  case (1 m i hi)
  show ?case
  proof (cases "i \<le> hi \<and> i < 64")
    case True
    then have n: "unat i < 64" "unat i \<le> unat hi" by (auto simp: word_less_nat_alt word_le_nat_alt)
    then have u: "unat (i + 1) = unat i + 1" by (simp add: unat_word_ariths)
    have "{j. unat i \<le> j \<and> j \<le> unat hi \<and> j < 64} = insert (unat i) {j. unat i + 1 \<le> j \<and> j \<le> unat hi \<and> j < 64}"
      using n by auto
    moreover have "spis_range_loop m i hi = spis_range_loop (m OR push_bit (unat i) 1) (i + 1) hi"
      using True by (subst spis_range_loop.simps) simp
    ultimately show ?thesis using 1 [OF True] unfolding u slots_or_single [OF n(1)] by simp
  next
    case False
    then have "{j. unat i \<le> j \<and> j \<le> unat hi \<and> j < 64} = {}" by (auto simp: word_less_nat_alt word_le_nat_alt)
    moreover have "spis_range_loop m i hi = m" using False by (subst spis_range_loop.simps) auto
    ultimately show ?thesis by (simp only: Un_empty_right)
  qed
qed

text \<open>The operations are those of sets; a range past the last slot is cut off, and one that is empty adds nothing.\<close>

lemma spis_sets:
  "slots (spis_or a b) = slots a \<union> slots b"
  "slots (spis_and a b) = slots a \<inter> slots b"
  "slots (spis_not a) = {0..<64} - slots a"
  "spis_equal a b \<longleftrightarrow> slots a = slots b"
  "spis_is_zero a \<longleftrightarrow> slots a = {}"
  "spis_test_bit a k \<longleftrightarrow> unat k \<in> slots a"
  "slots (spis_or_range a lo hi) = slots a \<union> {j. unat lo \<le> j \<and> j \<le> unat hi \<and> j < 64}"
proof -
  have e: "slots a = slots b \<longleftrightarrow> a = b" for a b
    unfolding slots_def set_eq_iff bit_eq_iff by (auto dest: bit_imp_le_length)
  then show "spis_equal a b \<longleftrightarrow> slots a = slots b" by (simp add: spis_equal_def)
  show "spis_is_zero a \<longleftrightarrow> slots a = {}" using e [of a 0] by (simp add: spis_is_zero_def slots_def)
  show "spis_test_bit a k \<longleftrightarrow> unat k \<in> slots a"
    unfolding spis_test_bit_def c_true_and_bit by (auto simp: slots_def dest: bit_imp_le_length)
  show "slots (spis_or_range a lo hi) = slots a \<union> {j. unat lo \<le> j \<and> j \<le> unat hi \<and> j < 64}"
    unfolding spis_or_range_def by (rule spis_range_slots)
qed (auto simp: spis_or_def spis_and_def spis_not_def slots_def bit_or_iff bit_and_iff bit_not_iff)

lemma c_true_or_single:
  fixes m :: "'a::len word"
  assumes "k < LENGTH('a)"
  shows "c_true ((m OR push_bit k 1) AND push_bit j 1) \<longleftrightarrow> j = k \<or> c_true (m AND push_bit j 1)"
  unfolding c_true_and_bit bit_or_iff bit_push_single using assms by auto

text \<open>A mark in a precision mask is seen where it was set and nowhere else.\<close>

lemma backtrack_reg_mark:
  assumes "unat reg < 32" and "fr < length (reg_masks bt)"
  shows "bt_is_frame_reg_set (bpf_bt_set_frame_reg bt fr reg) fr' reg' \<longleftrightarrow> (fr' = fr \<and> reg' = reg) \<or> bt_is_frame_reg_set bt fr' reg'"
proof (cases "fr' = fr")
  case True
  then show ?thesis using assms c_true_or_single [of "unat reg" "reg_masks bt ! fr" "unat reg'"]
    by (simp add: bt_is_frame_reg_set_def bpf_bt_set_frame_reg_def word_unat_eq_iff del: push_bit_of_1)
qed (simp add: bt_is_frame_reg_set_def bpf_bt_set_frame_reg_def)

lemma backtrack_slot_mark:
  assumes "unat slot < 64" and "fr < length (stack_masks bt)"
  shows "bt_is_frame_slot_set (bpf_bt_set_frame_slot bt fr slot) fr' slot' \<longleftrightarrow>
    (fr' = fr \<and> slot' = slot) \<or> bt_is_frame_slot_set bt fr' slot'"
proof (cases "fr' = fr")
  case True
  then show ?thesis using assms c_true_or_single [of "unat slot" "stack_masks bt ! fr" "unat slot'"]
    by (simp add: bt_is_frame_slot_set_def bpf_bt_set_frame_slot_def word_unat_eq_iff del: push_bit_of_1)
qed (simp add: bt_is_frame_slot_set_def bpf_bt_set_frame_slot_def)

section \<open>Arithmetic\<close>

text \<open>The overflow test is exact, and its result is the sum modulo \<open>2 ^ 16\<close>.\<close>

lemma check_add_overflow_exact:
  "check_add_overflow a b = (\<not> (- 32768 \<le> sint a + sint b \<and> sint a + sint b \<le> 32767), a + b)"
proof -
  let ?r = "(scast a :: u32) + scast b"
  have s: "sint (scast x :: u32) = sint x" for x :: "16 word" by (rule sint_up_scast) (simp add: is_up)
  have range: "- 32768 \<le> sint x \<and> sint x \<le> 32767" for x :: "16 word"
    using sint_greater_eq [of x] sint_less [of x] by simp
  have r: "?r = word_of_int (sint a + sint b)" by simp
  have o: "(ucast ?r :: 16 word) = a + b"
  proof -
    have "(ucast ?r :: 16 word) = word_of_int (sint a + sint b)" unfolding r by (rule ucast_down_wi) (simp add: is_down)
    then show ?thesis by simp
  qed
  have sr: "sint ?r = sint a + sint b"
    unfolding sint_word_ariths s using range [of a] range [of b] by (subst signed_take_bit_int_eq_self) simp_all
  have "?r = scast (a + b) \<longleftrightarrow> sint ?r = sint (scast (a + b) :: u32)" by (rule word_eq_iff_signed)
  also have "\<dots> \<longleftrightarrow> sint a + sint b = sint (a + b)" by (simp only: sr s)
  also have "\<dots> \<longleftrightarrow> - 32768 \<le> sint a + sint b \<and> sint a + sint b \<le> 32767"
  proof
    assume "- 32768 \<le> sint a + sint b \<and> sint a + sint b \<le> 32767"
    then show "sint a + sint b = sint (a + b)"
      unfolding sint_word_ariths by (subst signed_take_bit_int_eq_self) simp_all
  qed (use range [of "a + b"] in simp)
  finally show ?thesis unfolding check_add_overflow_def Let_def o by simp
qed

text \<open>Stack offset \<open>off\<close>, below the frame pointer, lies in the eight bytes of its slot.\<close>

lemma bpf_get_spi_correct:
  assumes "off < 0"
  shows "8 * bpf_get_spi off < - off \<and> - off \<le> 8 * bpf_get_spi off + 8"
  using assms by (simp add: bpf_get_spi_def Let_def) linarith

section \<open>Marks, calls and blocks\<close>

text \<open>A mark is set on its instruction only, and marks of different kinds do not disturb each other.\<close>

lemma marks_set:
  assumes "i < length aux"
  shows "map jmp_point (mark_jmp_point aux i) = (map jmp_point aux)[i := True]"
    and "map prune_point (mark_prune_point aux i) = (map prune_point aux)[i := True]"
    and "map force_checkpoint (mark_force_checkpoint aux i) = (map force_checkpoint aux)[i := True]"
    and "map calls_callback (mark_calls_callback aux i) = (map calls_callback aux)[i := True]"
    and "map jmp_point (mark_prune_point aux i) = map jmp_point aux"
    and "map prune_point (mark_jmp_point aux i) = map prune_point aux"
    and "map calls_callback (mark_force_checkpoint aux i) = map calls_callback aux"
    and "map force_checkpoint (mark_calls_callback aux i) = map force_checkpoint aux"
  using assms
  by (auto simp: mark_jmp_point_def mark_prune_point_def mark_force_checkpoint_def mark_calls_callback_def map_update
      intro!: list_update_same_conv [THEN iffD2])

lemma call_kinds_exclusive:
  assumes "pseudo_call \<noteq> 0" and "pseudo_kfunc \<noteq> 0" and "pseudo_call \<noteq> pseudo_kfunc"
  shows "\<not> (bpf_helper_call insn \<and> bpf_pseudo_call pseudo_call insn)"
    and "\<not> (bpf_helper_call insn \<and> bpf_pseudo_kfunc_call pseudo_kfunc insn)"
    and "\<not> (bpf_pseudo_call pseudo_call insn \<and> bpf_pseudo_kfunc_call pseudo_kfunc insn)"
  using assms by (auto simp: bpf_helper_call_def bpf_pseudo_call_def bpf_pseudo_kfunc_call_def)

lemma states_memcmp_zero:
  assumes "n \<le> length x" and "n \<le> length y"
  shows "states_memcmp x y n = 0 \<longleftrightarrow> take (min n 512) x = take (min n 512) y"
proof (cases "find (\<lambda>i. x ! i \<noteq> y ! i) [0..<min n 512]")
  case None
  then have "\<forall>i < min n 512. x ! i = y ! i" by (auto simp: find_None_iff)
  then have "take (min n 512) x = take (min n 512) y" using assms by (intro nth_equalityI) auto
  then show ?thesis using None by (simp add: states_memcmp_def)
next
  case (Some i)
  then have i: "i < min n 512" "x ! i \<noteq> y ! i" by (auto simp: find_Some_iff)
  then have "take (min n 512) x \<noteq> take (min n 512) y" by (metis nth_take)
  then show ?thesis using Some i(2) by (simp add: states_memcmp_def word_uint_eq_iff)
qed

lemma cfg_slots_distinct:
  assumes "cfg_zalloc_slot a m = Some p" and "cfg_zalloc_slot b n = Some q"
  shows "p < 24 \<and> unat m \<le> 256 \<and> (p = q \<longleftrightarrow> a = b)"
  using assms by (auto simp: cfg_zalloc_slot_def word_less_nat_alt split: if_splits)

section \<open>Subprograms\<close>

lemma find_subprog_find:
  "find_subprog_loop starts off is = (case find (\<lambda>i. off < starts ! i) is of None \<Rightarrow> 0 | Some i \<Rightarrow> i - 1)"
  by (induction "is") auto

lemma find_upt_first:
  assumes "a \<le> k" and "k < b" and "P k" and "\<And>i. a \<le> i \<Longrightarrow> i < k \<Longrightarrow> \<not> P i"
  shows "find P [a..<b] = Some k"
proof -
  have "[a..<b] = [a..<k] @ k # [Suc k..<b]"
    using assms(1, 2) upt_add_eq_append [of a k "b - k"] by (simp add: upt_conv_Cons)
  moreover have "find P [a..<k] = None" using assms(4) by (auto simp: find_None_iff)
  moreover have "find P (xs @ ys) = find P ys" if "find P xs = None" for xs ys
    using that by (induction xs) (auto split: if_splits)
  ultimately show ?thesis using assms(3) by simp
qed

text \<open>The entries up to \<open>cnt\<close> partition the instructions \<open>0\<close> to \<open>starts ! cnt\<close>.\<close>

definition partition_ok :: "u32 list \<Rightarrow> nat \<Rightarrow> bool" where
  "partition_ok starts cnt \<longleftrightarrow> 0 < cnt \<and> cnt < length starts \<and> starts ! 0 = 0 \<and>
     (\<forall>i < cnt. starts ! i < starts ! Suc i) \<and> starts ! cnt < 2 ^ 31"

section \<open>Tracked values\<close>

text \<open>The numbers a tracked number stands for: the mask has the unknown bits.\<close>

definition tnum_values :: "st_tnum \<Rightarrow> u64 set" where
  "tnum_values t = {x. x AND NOT (tn_mask t) = tn_value t}"

definition tnum_wf :: "st_tnum \<Rightarrow> bool" where
  "tnum_wf t \<longleftrightarrow> tn_value t AND tn_mask t = 0"

lemma tnum_member: "x \<in> tnum_values t \<longleftrightarrow> (\<forall>i < 64. (bit x i \<and> \<not> bit (tn_mask t) i) = bit (tn_value t) i)"
  unfolding tnum_values_def by (auto simp: bit_eq_iff bit_and_iff bit_not_iff)

lemma tnum_wf_bits: "tnum_wf t \<longleftrightarrow> (\<forall>i < 64. bit (tn_value t) i \<longrightarrow> \<not> bit (tn_mask t) i)"
  unfolding tnum_wf_def by (auto simp: bit_eq_iff bit_and_iff)

section \<open>Properties\<close>

text \<open>Both searches find the subprogram that contains an instruction: for a partition of the program into
  subprograms and an offset in it they return the same entry, the one with \<open>start \<le> off\<close> before the next start.\<close>

theorem find_subprog_correct:
  assumes "partition_ok starts cnt" and "cnt < 2 ^ 31" and "0 \<le> off" and "off < uint (starts ! cnt)"
  shows "let k = bpf_find_subprog starts (int cnt) off
    in k < cnt \<and> uint (starts ! k) \<le> off \<and> off < uint (starts ! Suc k) \<and>
       bpf_find_containing_subprog starts (of_nat cnt) off = k"
proof -
  let ?P = "\<lambda>i. word_of_int off < starts ! i"
  have u: "uint (word_of_int off :: u32) = off"
    using assms(3, 4) uint_lt2p [of "starts ! cnt"] by (simp add: uint_word_of_int)
  define k where "k = (LEAST i. ?P i)"
  have "?P cnt" using assms(4) u by (simp add: word_less_def)
  then have k: "?P k" "k \<le> cnt" "\<And>i. i < k \<Longrightarrow> \<not> ?P i"
    unfolding k_def by (auto intro: LeastI Least_le dest: not_less_Least)
  have "k \<noteq> 0"
  proof
    assume "k = 0"
    then have "word_of_int off < (0 :: u32)" using k(1) assms(1) by (simp add: partition_ok_def)
    then show False by simp
  qed
  then have k1: "1 \<le> k" by simp
  have f: "find ?P [1..<cnt + 1] = Some k" using k k1 by (intro find_upt_first) auto
  have n: "unat (of_nat cnt :: u32) = cnt" using assms(2) by (simp add: unat_of_nat_u32)
  have "bpf_find_subprog starts (int cnt) off = k - 1"
    unfolding bpf_find_subprog_def find_subprog_find using f by simp
  moreover have "bpf_find_containing_subprog starts (of_nat cnt) off = k - 1"
    unfolding bpf_find_containing_subprog_def n using f by simp
  moreover have "uint (starts ! (k - 1)) \<le> off" using k(3) [of "k - 1"] k1 u by (simp add: word_less_def)
  moreover have "off < uint (starts ! Suc (k - 1))" using k(1) k1 u by (simp add: word_less_def)
  ultimately show ?thesis using k(2) k1 by (simp add: Let_def)
qed

theorem find_subprog_correct_witness: "bpf_find_subprog [0, 4, 9] (int 2) 5 = 1"
proof -
  have p: "partition_ok [0, 4, 9] 2" by code_simp
  have "let k = bpf_find_subprog [0, 4, 9] (int 2) 5 in k < 2 \<and> uint ([0, 4, 9 :: u32] ! k) \<le> 5 \<and>
      5 < uint ([0, 4, 9 :: u32] ! Suc k) \<and> bpf_find_containing_subprog [0, 4, 9] (of_nat 2) 5 = k"
    by (rule find_subprog_correct [OF p]) simp_all
  then have "bpf_find_subprog [0, 4, 9] (int 2) 5 < 2" "5 < uint ([0, 4, 9 :: u32] ! Suc (bpf_find_subprog [0, 4, 9] (int 2) 5))"
    by (simp_all add: Let_def)
  then show ?thesis by (cases "bpf_find_subprog [0, 4, 9] (int 2) 5") auto
qed

text \<open>C40: the inclusion test of tracked numbers decides inclusion: a well-formed current number is accepted exactly if
  every value it stands for is a value of the old one.  A register marked unknown accepts every number, and a
  register counts as null exactly if it is a scalar whose only value is zero.\<close>

theorem tnum_in_exact:
  assumes "tnum_wf old" and "tnum_wf cur"
  shows "(tnum_in old cur \<longleftrightarrow> tnum_values cur \<subseteq> tnum_values old) \<and>
    tnum_in (sr_var_off (bpf_mark_reg_unknown_imprecise reg)) cur \<and>
    (sr_var_off reg = cur \<longrightarrow> (bpf_register_is_null reg \<longleftrightarrow> sr_type reg = ST_SCALAR_VALUE \<and> tnum_values cur = {0}))"
proof (intro conjI impI)
  have o: "i < 64 \<Longrightarrow> bit (tn_value old) i \<Longrightarrow> \<not> bit (tn_mask old) i"
    and c: "i < 64 \<Longrightarrow> bit (tn_value cur) i \<Longrightarrow> \<not> bit (tn_mask cur) i" for i
    using assms by (simp_all add: tnum_wf_bits)
  have t: "tnum_in old cur \<longleftrightarrow> (\<forall>i < 64. (bit (tn_mask cur) i \<longrightarrow> bit (tn_mask old) i) \<and>
      bit (tn_value old) i = (bit (tn_value cur) i \<and> \<not> bit (tn_mask old) i))"
    unfolding tnum_in_def c_true_def by (auto simp: bit_eq_iff bit_and_iff bit_not_iff)
  have v: "tn_value cur \<in> tnum_values cur" "tn_value cur OR tn_mask cur \<in> tnum_values cur"
    using c by (auto simp: tnum_member bit_or_iff)
  show "tnum_in old cur \<longleftrightarrow> tnum_values cur \<subseteq> tnum_values old"
  proof
    assume "tnum_in old cur"
    then show "tnum_values cur \<subseteq> tnum_values old" using c unfolding t by (fastforce simp: tnum_member)
  next
    assume "tnum_values cur \<subseteq> tnum_values old"
    then have "tn_value cur \<in> tnum_values old" "tn_value cur OR tn_mask cur \<in> tnum_values old" using v by auto
    then show "tnum_in old cur" using c unfolding t tnum_member bit_or_iff by blast
  qed
  show "tnum_in (sr_var_off (bpf_mark_reg_unknown_imprecise reg)) cur"
    by (simp add: tnum_in_def bpf_mark_reg_unknown_imprecise_def)
  show "bpf_register_is_null reg \<longleftrightarrow> sr_type reg = ST_SCALAR_VALUE \<and> tnum_values cur = {0}" if r: "sr_var_off reg = cur"
  proof -
    have "tn_mask cur = 0 \<and> tn_value cur = 0 \<longleftrightarrow> tnum_values cur = {0}"
    proof
      assume "tnum_values cur = {0}"
      then have "tn_value cur = 0" "tn_value cur OR tn_mask cur = 0" using v by auto
      then show "tn_mask cur = 0 \<and> tn_value cur = 0" by simp
    qed (auto simp: tnum_values_def)
    then show ?thesis using r by (simp add: bpf_register_is_null_def)
  qed
qed

theorem tnum_in_exact_witness:
  "tnum_in \<lparr>tn_value = 0, tn_mask = 255\<rparr> \<lparr>tn_value = 16, tn_mask = 3\<rparr> \<longleftrightarrow>
     tnum_values \<lparr>tn_value = 16, tn_mask = 3\<rparr> \<subseteq> tnum_values \<lparr>tn_value = 0, tn_mask = 255\<rparr>"
proof (rule tnum_in_exact [THEN conjunct1])
  show "tnum_wf \<lparr>tn_value = 0, tn_mask = 255\<rparr>" "tnum_wf \<lparr>tn_value = 16, tn_mask = 3\<rparr>" by code_simp+
qed

end
