(* ===== verification/Spec2Isabelle.thy ===== *)
theory Spec2Isabelle
  imports Lpm_Props Lru_Props Bitmap Bloom Hashtab Arraymap Syscall Verifier Local_Storage Seq_Buf String_Helpers
    Fixups Polynomial Proc_Util Struct_Ops Helpers Ratelimit Union_Find
    Arch_Bitops Cpumask Cfg_Sort Cnum Log_String
    Harness_Verifier Harness_Syscall Harness_Hashtab Harness_Arraymap Harness_Struct_Ops Harness_Storage Harness_Bloom
    Harness_Helpers Harness_Fixups Harness_Lpm Harness_Lru Harness_Lib
    Tcx Khost Reciprocal_Div
    Min_Heap Target_Bits Target_Text Target_Mem Timecounter Verifier_Env
begin

text \<open>
  \<^bold>\<open>Verification of the BPF kernel shims of bpf-verify.\<close>

  The repository compiles pieces of the Linux BPF subsystem to BPF programs and lets the kernel's
  verifier check them.  The code that carries the logic is the set of shims under
  \<^verbatim>\<open>src/shims/kernel/bpf\<close> (the map types, local storage, helpers, and the guards of the
  syscall and of the verifier) and \<^verbatim>\<open>src/shims/lib\<close> (bitmaps and small library routines); the harnesses under
  \<^verbatim>\<open>src/targets\<close> call them and state what must hold, the pipeline scripts build and run them, and the
  fuzzers under \<^verbatim>\<open>src/userspace\<close> run the same properties on generated inputs.  This development models the
  shims, the harnesses on them, and the generators, and proves what makes them correct.

  \<^bold>\<open>Parts, theories and sources.\<close>

  \<^item> \<^verbatim>\<open>Bpf_Prelude\<close>: integer types, errno values and macros of \<^verbatim>\<open>bpf_shim_common.h\<close>, and the lemmas
    on words, bits and chains of error guards that the components share.
  \<^item> \<^verbatim>\<open>Lpm_Bits\<close>, \<^verbatim>\<open>Lpm_Trie\<close>: the longest-prefix-match trie of \<^verbatim>\<open>lpm_trie.c\<close> on a heap of nodes, with
    lookup, update, delete and the bit routines.  \<^verbatim>\<open>Lpm_Tree\<close> relates the heap to a binary tree,
    \<^verbatim>\<open>Lpm_Walk\<close> shows that the loops terminate and where they stop, \<^verbatim>\<open>Lpm_Map\<close> that every operation
    keeps the invariant and implements a finite map from prefixes to values, \<^verbatim>\<open>Lpm_Props\<close> states the
    interface (locale \<open>prefix_map\<close>) and the properties.
  \<^item> \<^verbatim>\<open>List_Head\<close>: the circular doubly linked lists of \<^verbatim>\<open>bpf_shim_common.h\<close> at pointer level.
    \<^verbatim>\<open>Lru_List\<close>: the LRU lists of \<^verbatim>\<open>bpf_lru_list.c\<close>; \<^verbatim>\<open>Lru_Inv\<close> and \<^verbatim>\<open>Lru_Ops\<close> the invariant and that
    every operation keeps it, \<^verbatim>\<open>Lru_Props\<close> the step relation, the locale \<open>free_nodes\<close> and the properties.
  \<^item> \<^verbatim>\<open>Bitmap\<close>: all routines of \<^verbatim>\<open>lib/bitmap.c\<close>, bit by bit.
  \<^item> \<^verbatim>\<open>Bloom\<close>: the Bloom filter of \<^verbatim>\<open>bloom_filter.c\<close> (locale \<open>membership_filter\<close>).
  \<^item> \<^verbatim>\<open>Map_Attr\<close>: map types, creation flags and attributes shared by the map shims; \<^verbatim>\<open>Hashtab\<close>
    (\<^verbatim>\<open>hashtab.c\<close>: creation check, element layout, counters with the locale \<open>bounded_counter\<close>, memory
    usage) and \<^verbatim>\<open>Arraymap\<close> (\<^verbatim>\<open>arraymap.c\<close>: creation check, lookup, direct values, iteration).
  \<^item> \<^verbatim>\<open>Hlist\<close>: the hash lists of \<^verbatim>\<open>bpf_local_storage.c\<close> at pointer level, with frame lemmas;
    \<^verbatim>\<open>Local_Storage\<close>: lookup with its cache, linking, unlinking, charging, cache slots.
  \<^item> \<^verbatim>\<open>Syscall_Types\<close>, \<^verbatim>\<open>Syscall\<close>: the enumerations and guards of \<^verbatim>\<open>syscall.c\<close> (names, operation
    flags, program load and attach checks, links, capabilities).
  \<^item> \<^verbatim>\<open>Verifier_Types\<close>, \<^verbatim>\<open>Verifier\<close>: types, argument numbers, dynptrs and helper prototypes of \<^verbatim>\<open>verifier.c\<close>.
  \<^item> \<^verbatim>\<open>Helper_Protos\<close>, \<^verbatim>\<open>Helpers\<close>: the enumerations, prototype objects, helper bodies and the selection of
    prototypes by capability of \<^verbatim>\<open>helpers.c\<close>; \<^verbatim>\<open>Disasm\<close>: the list of helper names of \<^verbatim>\<open>disasm.c\<close>.
  \<^item> \<^verbatim>\<open>Fixups\<close>: the instruction classifiers of \<^verbatim>\<open>fixups.c\<close>, against an arithmetic decoding of opcodes.
  \<^item> \<^verbatim>\<open>Refcount\<close>: \<^verbatim>\<open>lib/refcount.c\<close> and the contract of a reference count (locale \<open>ref_counter\<close>), interpreted
    there and in \<^verbatim>\<open>Struct_Ops\<close>, the struct-ops maps of \<^verbatim>\<open>bpf_struct_ops.c\<close>.
  \<^item> \<^verbatim>\<open>Byte_Buf\<close>: stores into byte lists; \<^verbatim>\<open>Hexdump\<close> (\<^verbatim>\<open>lib/hexdump.c\<close>), \<^verbatim>\<open>Seq_Buf\<close> (\<^verbatim>\<open>lib/seq_buf.c\<close>, locale
    \<open>bounded_sink\<close>) and \<^verbatim>\<open>String_Helpers\<close> (\<^verbatim>\<open>lib/string_helpers.c\<close>, unescaping in place).
  \<^item> Headers with algorithms of their own, under \<^verbatim>\<open>src/shims\<close>: \<^verbatim>\<open>Arch_Bitops\<close> (\<^verbatim>\<open>arch/x86/include/asm/bitops.h\<close>, bit
    searches), \<^verbatim>\<open>Cpumask\<close> (\<^verbatim>\<open>cpumask/include/linux/cpumask.h\<close>, masks as sets), \<^verbatim>\<open>Cfg_Sort\<close>
    (\<^verbatim>\<open>cfg/include/linux/sort.h\<close>), \<^verbatim>\<open>Cnum\<close> (\<^verbatim>\<open>states/include/linux/cnum.h\<close>, circular ranges) and \<^verbatim>\<open>Log_String\<close>
    (\<^verbatim>\<open>log/include/linux/string.h\<close>).
  \<^item> \<^verbatim>\<open>Polynomial\<close> (\<^verbatim>\<open>lib/math/polynomial.c\<close>), \<^verbatim>\<open>Proc_Util\<close> (\<^verbatim>\<open>fs/proc/util.c\<close>), \<^verbatim>\<open>Ratelimit\<close>
    (\<^verbatim>\<open>lib/ratelimit.c\<close>) and \<^verbatim>\<open>Union_Find\<close> (the bounded algorithms of \<^verbatim>\<open>include/linux/union_find.h\<close>).
  \<^item> \<^verbatim>\<open>Harness_Core\<close>: the assertion macros of \<^verbatim>\<open>targets/harness_template.c\<close>; a harness is the list of its checks
    over the states the calls between them produce.  \<^verbatim>\<open>Harness_Verifier\<close>, \<^verbatim>\<open>Harness_Syscall\<close>, \<^verbatim>\<open>Harness_Hashtab\<close>,
    \<^verbatim>\<open>Harness_Arraymap\<close>, \<^verbatim>\<open>Harness_Struct_Ops\<close>, \<^verbatim>\<open>Harness_Storage\<close>, \<^verbatim>\<open>Harness_Bloom\<close>, \<^verbatim>\<open>Harness_Helpers\<close>,
    \<^verbatim>\<open>Harness_Fixups\<close>, \<^verbatim>\<open>Harness_Lpm\<close>, \<^verbatim>\<open>Harness_Lru\<close> and \<^verbatim>\<open>Harness_Lib\<close> (bitmap, hexdump, refcount, polynomial,
    process names, union-find, sequence buffer): the programs \<^verbatim>\<open>targets/*/harness.c\<close> on the modelled shims.
  \<^item> \<^verbatim>\<open>Mprog\<close> (\<^verbatim>\<open>targets/mprog/pre_include.h\<close>): arrays of programs and links in two entries, edited by index
    (locale \<open>slot_array\<close>); \<^verbatim>\<open>Tcx\<close> (\<^verbatim>\<open>targets/tcx/pre_include.h\<close>): the device that holds such entries, as a step relation
    of its calls and of the stores of the queueing discipline, which is code outside the file.
  \<^item> \<^verbatim>\<open>Khost\<close> (\<^verbatim>\<open>userspace/khost.h\<close>, host versions of kernel primitives), \<^verbatim>\<open>Fuzz\<close> (\<^verbatim>\<open>userspace/fuzz.h\<close>,
    \<^verbatim>\<open>userspace/fuzz_main.c\<close>, \<^verbatim>\<open>tools/diff_seed.h\<close>: input generators and the loop of the driver) and \<^verbatim>\<open>Reciprocal_Div\<close>
    (\<^verbatim>\<open>userspace/harnesses/reciprocal_div.c\<close>).
  \<^item> Routines that single targets bring along: \<^verbatim>\<open>Min_Heap\<close> (\<^verbatim>\<open>targets/min_heap\<close>: the bounded heap operations and the
    program, locale \<open>priority_queue\<close>), \<^verbatim>\<open>Target_Bits\<close> (multiplication by limbs, bit loops, field masks),
    \<^verbatim>\<open>Target_Text\<close> (number scanners and string functions), \<^verbatim>\<open>Target_Mem\<close> (block moves, exclusive or, comparison) and
    \<^verbatim>\<open>Timecounter\<close> (\<^verbatim>\<open>targets/timecounter\<close>: cycles to nanoseconds).
  \<^item> \<^verbatim>\<open>Verifier_Env\<close>: the functions of the environments \<^verbatim>\<open>shims/{liveness,cfg,backtrack,states}/include/linux/bpf_verifier.h\<close>
    (slot sets, precision masks, subprograms, tracked numbers).

  A C struct is a record, an enumeration a datatype (or constants of the word type where values
  are combined with flags), an \<^verbatim>\<open>u32\<close> or \<^verbatim>\<open>u64\<close> a word of that width with its wrap-around, an error a
  negative \<^verbatim>\<open>int\<close> result, mutated objects an explicit state that is passed and returned.  Out-parameters are
  passed in and returned.  Where C leaves a call undefined or it faults and a caller can reach that (a shift by the width of
  the word or more in \<^verbatim>\<open>Cpumask\<close>, a store through a null owner in \<^verbatim>\<open>Local_Storage\<close>), the operation returns \<open>None\<close> and the
  theorem says exactly when.  Functions keep the names of the source; leading underscores are dropped.

  \<^bold>\<open>What the theorems show.\<close>  Representation invariants kept by every operation and over all sequences of
  operations (trie, LRU lists, hash table counters, local storage, union-find); functional correctness against a
  specification over sets, maps or unbounded numbers (prefix map, free nodes, bit sets, membership
  filter, creation checks and prototype checks, unescaped text, decimal names, polynomials, partitions,
  reference counts, decoded instructions); termination of every loop that walks pointers or counts
  (the loops are partial functions or have a termination proof, and the theorems state that they return);
  round trips (hexadecimal dumps, keys of values and others); bounds without wrap-around (memory usage, value
  sizes, rate limits); progress (a rate limiter that is polled allows calls again and again); safety (disjoint
  elements, no stale cache entry, no false negative, helpers gated by capabilities).  Every modelled proof program
  passes all its checks on every input, wherever its locals lie and whatever uninitialised memory holds, so no
  assertion it makes depends on the paths the kernel's verifier happens to explore.  Program arrays edited by index
  are lists; the fuzzing seeds of different iterations differ and the first iterations sweep all pairs of
  corner values; division by a precomputed reciprocal is exact, so its fuzz case never fails.  The bounded heap is a
  priority queue that sorts; the overflow test of the number parser, the inclusion test of tracked numbers and the search for a
  subprogram are exact; scanners read no byte past a terminator; time stamps are ordered as the cycles are, and converting them
  span by span does not drift.  The properties below span
  several components: the creation checks, the syscall and the value sizes of per-CPU maps; the address
  computations of array and hash table and the helper that recovers a key from a value.

  \<^bold>\<open>Bounds and fuel.\<close>  No definition uses fuel of its own.  Loops over pointers are \<open>partial_function (option)\<close>: not
  returning would be the value \<open>None\<close>, and the theorems exclude it under the invariant.  So are the loops that compare a \<^verbatim>\<open>u32\<close>
  counter with a \<^verbatim>\<open>size_t\<close>, the comparison of prefixes and the sort of \<^verbatim>\<open>cfg/include/linux/sort.h\<close>: the counters wrap, and
  the theorems hold below the wrap-around (\<open>2 ^ 29\<close> data bytes, \<open>2 ^ 32\<close> items; the sort is shown not to end
  from there on).  The loop of union-find
  has the bound the source has, four iterations, and its theorem shows that it reaches the root in every forest of
  at most four nodes; the sifting loops of the heap have four iterations too, which is enough for 31 elements.

  \<^bold>\<open>Parameters.\<close>  Code outside the repository is an argument: the mask macros and \<^verbatim>\<open>hweight_long\<close> of the bitmap
  (with the hypothesis \<open>bitmap_ops_ok\<close>, instantiated by \<open>std_bitmap_ops\<close>), \<^verbatim>\<open>jhash\<close> and \<^verbatim>\<open>jhash2\<close> of the Bloom
  filter (no hypothesis), the overflow functions of the sequence buffer's header (\<open>hdr_ok\<close>), the flags and the
  counting functions of the rate limiter's header (\<open>ratelimit_hdr_ok\<close>).  The harnesses add the writers of the
  sequence buffer's header (\<open>hdr2_ok\<close>), the initialiser of a union-find node (\<open>uf_node_init_ok\<close>), the initialiser and
  the front of a heap (\<open>heap_hdr_ok\<close>), the two call kinds of the instruction set, and the placement of
  an object in memory (\<open>object_at\<close>); the fuzz case is a parameter of the driver's loop.  Structs declared in such headers are records
  of the fields the shim uses.

  \<^bold>\<open>Not modelled.\<close>  Locks, RCU and memory barriers are no-ops in the shims and leave no trace in the model, except
  that the outcome of taking the rate limiter's lock is an argument.  \<^verbatim>\<open>tnum.c\<close>, \<^verbatim>\<open>uaccess.c\<close> and the rest of
  \<^verbatim>\<open>disasm.c\<close> only include kernel sources that are not part of the repository.  The same holds for the harnesses of the
  other targets (iterators, tokens, disassembler, tnum, \<^verbatim>\<open>mprog.c\<close>, \<^verbatim>\<open>tcx.c\<close>, compression, cryptography) and for the
  computations under \<^verbatim>\<open>diff\<close>: they call functions whose source is fetched when they are built, so there is nothing to
  state about them here.  The other stub headers are declarations and one-line stand-ins for compiling such sources.
  Of the drivers, parsing of the command line, file and process handling (\<^verbatim>\<open>tools/bpf_runner.c\<close>) and the Python
  pipeline are left out.
\<close>

section \<open>Creation checks and value sizes\<close>

lemma percpu_attr_bounds:
  assumes "(is_percpu_type (attr_map_type attr) \<and> htab_map_alloc_check attr = 0) \<or>
     (attr_map_type attr = BPF_MAP_TYPE_PERCPU_ARRAY \<and> array_map_alloc_check attr = 0)"
  shows "unat (attr_value_size attr) \<le> 2 ^ 15" and "bpf_map_attr_numa_node attr = NUMA_NO_NODE"
proof -
  have "unat (attr_value_size attr) \<le> 2 ^ 15 \<and> bpf_map_attr_numa_node attr = NUMA_NO_NODE"
    using assms
  proof
    assume "is_percpu_type (attr_map_type attr) \<and> htab_map_alloc_check attr = 0"
    then show ?thesis by (simp add: htab_alloc_check_zero htab_attr_ok_def numa_default_iff)
  next
    assume a: "attr_map_type attr = BPF_MAP_TYPE_PERCPU_ARRAY \<and> array_map_alloc_check attr = 0"
    then have n: "bpf_map_attr_numa_node attr = NUMA_NO_NODE" and i: "\<not> attr_value_size attr > INT_MAX"
      and v: "\<not> round_up (attr_value_size attr) 8 > PCPU_MIN_UNIT_SIZE"
      by (auto simp: array_map_alloc_check_def Let_def split: if_splits)
    have "unat (attr_value_size attr) \<le> 2147483647" using i by (simp add: word_less_nat_alt)
    then have "\<not> unat (attr_value_size attr) > 2 ^ 15" using v percpu_value_iff[of "attr_value_size attr"] by simp
    then show ?thesis using n by simp
  qed
  then show "unat (attr_value_size attr) \<le> 2 ^ 15" "bpf_map_attr_numa_node attr = NUMA_NO_NODE" by blast+
qed

text \<open>For a per-CPU hash or array whose attributes pass the creation check of its map type, the map the
  syscall initialises from them has no NUMA node and no file-access flag, and the size of a value as user space sees it,
  \<^verbatim>\<open>round_up(value_size, 8) * num_possible_cpus()\<close> in 32 bits, is the exact product and at most 128 KiB.\<close>

theorem percpu_value_size_exact:
  assumes "(is_percpu_type (attr_map_type attr) \<and> htab_map_alloc_check attr = 0) \<or>
     (attr_map_type attr = BPF_MAP_TYPE_PERCPU_ARRAY \<and> array_map_alloc_check attr = 0)"
  shows "unat (bpf_map_value_size (bpf_map_init_from_attr mp attr) 0) = 4 * ((unat (attr_value_size attr) + 7) div 8 * 8) \<and>
    unat (bpf_map_value_size (bpf_map_init_from_attr mp attr) 0) \<le> 2 ^ 17 \<and>
    sm_numa_node (bpf_map_init_from_attr mp attr) = NUMA_NO_NODE \<and>
    \<not> bit (sm_map_flags (bpf_map_init_from_attr mp attr)) 3 \<and> \<not> bit (sm_map_flags (bpf_map_init_from_attr mp attr)) 4"
proof -
  let ?v = "attr_value_size attr" and ?m = "bpf_map_init_from_attr mp attr"
  note b = percpu_attr_bounds[OF assms]
  have t: "sm_map_type ?m = attr_map_type attr" "sm_value_size ?m = ?v" by (simp_all add: bpf_map_init_from_attr_def)
  have "attr_map_type attr \<in> {BPF_MAP_TYPE_PERCPU_HASH, BPF_MAP_TYPE_LRU_PERCPU_HASH, BPF_MAP_TYPE_PERCPU_ARRAY}"
    using assms by (auto simp: is_percpu_type_def)
  then have sz: "bpf_map_value_size ?m 0 = round_up ?v 8 * 4"
    unfolding bpf_map_value_size_def t Syscall.num_possible_cpus_def by auto
  have r: "unat (round_up ?v 8) = (unat ?v + 7) div 8 * 8" using b(1) by (intro round_up_8) simp
  have le: "(unat ?v + 7) div 8 * 8 < 2 ^ 15 + 8" using round_up_8_bounds(2)[of "unat ?v"] b(1) by simp
  then have u: "unat (round_up ?v 8 * 4) = 4 * ((unat ?v + 7) div 8 * 8)" by (simp add: unat_word_ariths r)
  have "(unat ?v + 7) div 8 \<le> (2 ^ 15 + 7) div 8" using b(1) by (intro div_le_mono) simp
  then have "4 * ((unat ?v + 7) div 8 * 8) \<le> 2 ^ 17" by simp
  moreover have "\<not> bit (sm_map_flags ?m) 3 \<and> \<not> bit (sm_map_flags ?m) 4"
  proof -
    have f: "sm_map_flags ?m = attr_map_flags attr AND NOT (BPF_F_RDONLY OR BPF_F_WRONLY)"
      by (simp add: bpf_map_init_from_attr_def bpf_map_flags_retain_permanent_def)
    show ?thesis unfolding f bit_and_iff bit_not_iff bit_or_iff bit_BIT by simp
  qed
  ultimately show ?thesis using sz u b(2) by (simp add: bpf_map_init_from_attr_def)
qed

theorem percpu_value_size_exact_witness:
  "unat (bpf_map_value_size (bpf_map_init_from_attr sample_sys_map sample_attr) 0)
     = 4 * ((unat (attr_value_size sample_attr) + 7) div 8 * 8)"
proof (rule percpu_value_size_exact[THEN conjunct1])
  have "htab_map_alloc_check sample_attr = 0" by code_simp
  then show "(is_percpu_type (attr_map_type sample_attr) \<and> htab_map_alloc_check sample_attr = 0) \<or>
     (attr_map_type sample_attr = BPF_MAP_TYPE_PERCPU_ARRAY \<and> array_map_alloc_check sample_attr = 0)"
    by (simp add: is_percpu_type_def sample_attr_def)
qed

section \<open>Keys recovered from values\<close>

lemma array_key:
  assumes "array_layout a" and "am_elem_size a \<noteq> 0"
    and "unat (am_max_entries a) * unat (am_elem_size a) < 2 ^ 63"
    and "array_map_lookup_elem a i = Some val"
  shows "map_key_from_value \<lparr>km_is_array = True, km_key_size = k, km_elem_size = am_elem_size a, km_value = array_value a\<rparr> val
    = Inl i"
proof -
  let ?e = "unat (am_elem_size a)"
  have i: "i < am_max_entries a" and val: "val = array_map_elem_ptr a i"
    using assms(4) mask_keeps_index [OF assms(1)]
    by (auto simp: array_map_lookup_elem_def array_map_elem_ptr_def not_le split: if_splits)
  have "unat i * ?e \<le> unat (am_max_entries a) * ?e"
    using i by (intro mult_le_mono1) (simp add: word_less_nat_alt)
  then have "unat i * ?e < 2 ^ 63" using assms(3) by linarith
  moreover have "0 < ?e" using assms(2) by (simp add: unat_gt_0)
  ultimately show ?thesis
    using key_of_array_value [of ?e "unat i" k "array_value a"] unat_u32_less [of "am_elem_size a"] unat_u32_less [of i]
    by (simp add: val array_map_elem_ptr_def mult.commute)
qed

text \<open>C29: Keys of values.  The helper that recovers a key from the pointer of a value inverts the
  address computations of both kinds of map: for the pointer that the lookup of an array returned
  it gives back the index, for the address of the value of a hash table element the address of the
  element's key.\<close>

theorem map_key_roundtrip:
  assumes "array_layout a" and "am_elem_size a \<noteq> 0"
    and "unat (am_max_entries a) * unat (am_elem_size a) < 2 ^ 63"
    and "array_map_lookup_elem a i = Some val"
  shows "map_key_from_value \<lparr>km_is_array = True, km_key_size = k, km_elem_size = am_elem_size a, km_value = array_value a\<rparr> val
      = Inl i \<and>
    map_key_from_value \<lparr>km_is_array = False, km_key_size = ksize, km_elem_size = e, km_value = v\<rparr> (htab_elem_value l ksize)
      = Inr (l + offsetof_htab_elem_key)"
  using array_key [OF assms] by (simp add: map_key_from_value_def htab_elem_value_def)
theorem map_key_roundtrip_witness:
  "map_key_from_value \<lparr>km_is_array = True, km_key_size = 4, km_elem_size = am_elem_size sample_array,
     km_value = array_value sample_array\<rparr> (array_map_elem_ptr sample_array 1) = Inl 1"
proof -
  have "array_map_lookup_elem sample_array 1 = Some (array_map_elem_ptr sample_array 1)"
    using mask_keeps_index [OF sample_array_layout, of 1]
    by (simp add: array_map_lookup_elem_def array_map_elem_ptr_def sample_array_def word_le_nat_alt word_less_nat_alt)
  from map_key_roundtrip [OF sample_array_layout _ _ this] show ?thesis
    by (simp add: sample_array_def)
qed

end
